(* ===== verification/Mocha_Prelude.thy ===== *)
theory Mocha_Prelude
  imports Main "HOL-Library.Word" "HOL-Library.Monad_Syntax"
begin

text \<open>
  Shared vocabulary of the development: the C integer types of the target (32-bit ARM,
  \<^verbatim>\<open>TARGET_ARCH := arm\<close> in BoardConfig.mk, so \<^verbatim>\<open>int\<close>, \<^verbatim>\<open>long\<close> and pointers are four bytes),
  the \<^verbatim>\<open>errno\<close> values the code returns, the theorem collections the component theories fill,
  generic lemmas on lists, options and words, and the two locales from which every
  invariant of a run is derived.

  Conventions. A C function that can run into undefined behaviour (a NULL dereference, an
  access outside an array, \<^verbatim>\<open>free\<close> of a pointer that \<^verbatim>\<open>malloc\<close> did not return) has a model
  of an option type, and \<open>None\<close> is exactly that undefined behaviour; every error the code
  handles itself is an ordinary return value (a negative \<^verbatim>\<open>errno\<close>). Code outside the
  repository (the kernel's ALSA driver, the allocator's success or failure) is a parameter.
\<close>

unbundle bit_operations_syntax

section \<open>Machine integers and return codes\<close>

type_synonym u8 = "8 word"
type_synonym u16 = "16 word"
type_synonym u32 = "32 word"

abbreviation ENOENT :: int where "ENOENT \<equiv> 2"
abbreviation EIO :: int where "EIO \<equiv> 5"
abbreviation ENOMEM :: int where "ENOMEM \<equiv> 12"
abbreviation EBUSY :: int where "EBUSY \<equiv> 16"
abbreviation ENODEV :: int where "ENODEV \<equiv> 19"
abbreviation EINVAL :: int where "EINVAL \<equiv> 22"
abbreviation EPIPE :: int where "EPIPE \<equiv> 32"
abbreviation ENOSYS :: int where "ENOSYS \<equiv> 38"
abbreviation EBADFD :: int where "EBADFD \<equiv> 77"
abbreviation ESTRPIPE :: int where "ESTRPIPE \<equiv> 86"
abbreviation ENOTSUP :: int where "ENOTSUP \<equiv> 95"

abbreviation UINT_MAX :: u32 where "UINT_MAX \<equiv> 0xFFFFFFFF"
abbreviation INT_MAX :: u32 where "INT_MAX \<equiv> 0x7FFFFFFF"

section \<open>Theorem collections\<close>

named_theorems frame_simps \<open>what an operation leaves unchanged\<close>
named_theorems inv_intros \<open>operations keep their component's invariant\<close>

section \<open>Generic lemmas\<close>

lemma bind_SomeE:
  assumes "Option.bind m f = Some y"
  obtains x where "m = Some x" and "f x = Some y"
  using assms by (cases m) auto

lemma take_list_update_in: "i < n \<Longrightarrow> take n (xs[i := x]) = (take n xs)[i := x]"
  by (simp add: take_update_swap)

lemma unat_Suc_word32: "unat (w :: u32) < 2 ^ 32 - 1 \<Longrightarrow> unat (w + 1) = Suc (unat w)"
  by (simp add: unat_word_ariths)

lemma unat_of_nat32: "n < 2 ^ 32 \<Longrightarrow> unat (of_nat n :: u32) = n"
  by (simp add: unsigned_of_nat take_bit_nat_eq_self)

lemma of_nat_below: "i < unat (w :: u32) \<Longrightarrow> unat (of_nat i :: u32) = i"
  using unsigned_less [of w, where ?'a = nat] by (intro unat_of_nat32) simp

lemma unat_ucast_16_32 [simp]: "unat (ucast (w :: u16) :: u32) = unat w"
  using unsigned_less [of w, where ?'a = nat]
  by (simp add: unsigned_ucast_eq take_bit_nat_eq_self_iff)

lemma sint_small: "unat (w :: u32) < 2 ^ 31 \<Longrightarrow> sint w = int (unat w)"
proof -
  assume "unat w < 2 ^ 31"
  then have "int (unat w) < int (2 ^ 31)" by (simp only: of_nat_less_iff)
  then have "uint w < 2 ^ 31" by simp
  moreover have "- (2 ^ 31) \<le> uint w" by (rule order_trans [of _ 0]) simp_all
  ultimately have "signed_take_bit 31 (uint w) = uint w"
    by (simp add: signed_take_bit_int_eq_self)
  then show ?thesis by (simp add: sint_uint)
qed

section \<open>Runs of a component\<close>

text \<open>
  A component driven by a sequence of events (the parser by XML tags, the voice trigger by
  parameters, a stream by API calls) is a step function; a step may be undefined
  (\<open>None\<close>). \<open>run_steps\<close> composes steps the way the caller's sequence does and stops at
  the first undefined one.
\<close>

fun run_steps :: "('e \<Rightarrow> 's \<Rightarrow> 's option) \<Rightarrow> 'e list \<Rightarrow> 's \<Rightarrow> 's option" where
  "run_steps step [] s = Some s"
| "run_steps step (e # es) s = Option.bind (step e s) (run_steps step es)"

lemma run_steps_append:
  "run_steps step (xs @ ys) s = Option.bind (run_steps step xs s) (run_steps step ys)"
  by (induction xs arbitrary: s) (auto split: Option.bind_splits)

text \<open>A machine whose steps keep an invariant whenever they are defined.\<close>

locale invariant_machine =
  fixes step :: "'e \<Rightarrow> 's \<Rightarrow> 's option"
    and inv :: "'s \<Rightarrow> bool"
  assumes step_inv: "inv s \<Longrightarrow> step e s = Some s' \<Longrightarrow> inv s'"
begin

lemma run_inv: "inv s \<Longrightarrow> run_steps step es s = Some s' \<Longrightarrow> inv s'"
  by (induction es arbitrary: s) (auto elim!: bind_SomeE dest: step_inv)

end

text \<open>A machine that moreover has no undefined step from a state of the invariant.\<close>

locale safe_machine = invariant_machine +
  assumes step_defined: "inv s \<Longrightarrow> step e s \<noteq> None"
begin

lemma run_defined: "inv s \<Longrightarrow> \<exists>s'. run_steps step es s = Some s' \<and> inv s'"
proof (induction es arbitrary: s)
  case Nil
  then show ?case by simp
next
  case (Cons e es)
  then obtain t where "step e s = Some t" using step_defined by blast
  with Cons.prems have "inv t" by (blast dest: step_inv)
  with Cons.IH \<open>step e s = Some t\<close> show ?case by simp
qed

end

section \<open>Loops\<close>

text \<open>
  A loop whose end is not evident from its text is a step function: \<open>Inl\<close> is the state of the
  next iteration, \<open>Inr\<close> the result, \<open>None\<close> undefined behaviour. \<open>run_loop\<close> runs it for a bounded
  number of iterations (\<open>None\<close> also when they are not enough) and \<open>loop_reach\<close> holds for
  the states at the head of the loop, however long it runs.
\<close>

fun run_loop :: "nat \<Rightarrow> ('s \<Rightarrow> ('s + 'r) option) \<Rightarrow> 's \<Rightarrow> 'r option" where
  "run_loop 0 step s = None"
| "run_loop (Suc n) step s =
     (case step s of None \<Rightarrow> None | Some (Inr r) \<Rightarrow> Some r | Some (Inl s') \<Rightarrow> run_loop n step s')"

inductive loop_reach :: "('s \<Rightarrow> ('s + 'r) option) \<Rightarrow> 's \<Rightarrow> 's \<Rightarrow> bool" for step where
  head: "loop_reach step s s"
| iterate: "loop_reach step s t \<Longrightarrow> step t = Some (Inl u) \<Longrightarrow> loop_reach step s u"

text \<open>The contract of a loop: an invariant that an iteration keeps, and a postcondition of the result.\<close>

locale loop_contract =
  fixes step :: "'s \<Rightarrow> ('s + 'r) option"
    and inv :: "'s \<Rightarrow> bool"
    and post :: "'r \<Rightarrow> bool"
  assumes iter_inv: "inv s \<Longrightarrow> step s = Some (Inl s') \<Longrightarrow> inv s'"
    and iter_post: "inv s \<Longrightarrow> step s = Some (Inr r) \<Longrightarrow> post r"
begin

lemma reach_inv: "loop_reach step s t \<Longrightarrow> inv s \<Longrightarrow> inv t"
  by (induction rule: loop_reach.induct) (auto intro: iter_inv)

lemma run_post: "inv s \<Longrightarrow> run_loop n step s = Some r \<Longrightarrow> post r"
  by (induction n arbitrary: s) (auto dest: iter_inv iter_post split: option.splits sum.splits)

end

text \<open>A loop none of whose iterations is undefined.\<close>

locale safe_loop = loop_contract +
  assumes iter_defined: "inv s \<Longrightarrow> step s \<noteq> None"
begin

lemma reach_defined: "loop_reach step s t \<Longrightarrow> inv s \<Longrightarrow> step t \<noteq> None"
  using reach_inv iter_defined by blast

end

text \<open>A loop that ends: every iteration that goes on decreases a variant.\<close>

locale ending_loop = safe_loop +
  fixes variant :: "'a \<Rightarrow> nat"
  assumes iter_decreases: "inv s \<Longrightarrow> step s = Some (Inl s') \<Longrightarrow> variant s' < variant s"
begin

lemma finishes: "inv s \<Longrightarrow> variant s < n \<Longrightarrow> \<exists>r. run_loop n step s = Some r \<and> post r"
proof (induction n arbitrary: s)
  case (Suc n)
  obtain x where x: "step s = Some x" using iter_defined [OF Suc.prems(1)] by blast
  show ?case
  proof (cases x)
    case (Inl s')
    then have "inv s'" "variant s' < n"
      using x iter_inv [OF Suc.prems(1)] iter_decreases [OF Suc.prems(1)] Suc.prems(2) by auto
    then show ?thesis using Suc.IH x Inl by auto
  next
    case (Inr r)
    then show ?thesis using x iter_post [OF Suc.prems(1)] by auto
  qed
qed simp

end

end
