(* ===== verification/C_Strings.thy ===== *)
theory C_Strings
  imports Mocha_Prelude
begin

text \<open>
  The C library's string functions that the code calls: \<^verbatim>\<open>isspace\<close>, \<^verbatim>\<open>strtoul\<close> with base 0,
  \<^verbatim>\<open>strtok\<close> with a one-character delimiter, \<^verbatim>\<open>atoi\<close> and the \<^verbatim>\<open>%d\<close> conversion. A C string is
  the list of its characters without the terminating NUL; a \<^verbatim>\<open>const char *\<close> that may be NULL
  is a \<^typ>\<open>string option\<close>. \<^verbatim>\<open>strcmp(a, b) == 0\<close> is equality.
\<close>

definition isspace :: "char \<Rightarrow> bool" where
  "isspace c \<longleftrightarrow> c = CHR '' '' \<or> c \<in> {CHR 0x09, CHR 0x0A, CHR 0x0B, CHR 0x0C, CHR 0x0D}"

definition isdigit :: "char \<Rightarrow> bool" where
  "isdigit c \<longleftrightarrow> 48 \<le> (of_char c :: nat) \<and> (of_char c :: nat) \<le> 57"

text \<open>The value of a character as a digit, at most 35; 36 for a character that is none.\<close>

definition digit_value :: "char \<Rightarrow> nat" where
  "digit_value c = (let n = of_char c :: nat in
     if 48 \<le> n \<and> n \<le> 57 then n - 48
     else if 65 \<le> n \<and> n \<le> 90 then n - 55
     else if 97 \<le> n \<and> n \<le> 122 then n - 87
     else 36)"

text \<open>The longest prefix of digits of a base: accumulated value and the rest of the string.\<close>

fun scan_digits :: "nat \<Rightarrow> nat \<Rightarrow> string \<Rightarrow> nat \<times> string" where
  "scan_digits base acc [] = (acc, [])"
| "scan_digits base acc (c # cs) =
     (if digit_value c < base then scan_digits base (acc * base + digit_value c) cs
      else (acc, c # cs))"

text \<open>
  The base prefix: a leading \<^verbatim>\<open>0x\<close> followed by a hexadecimal digit selects base 16, another
  leading \<^verbatim>\<open>0\<close> base 8. The result is the base and the digits to scan.
\<close>

fun base_prefix :: "string \<Rightarrow> nat \<times> string" where
  "base_prefix (z # x # d # cs) =
     (if z = CHR ''0'' \<and> (x = CHR ''x'' \<or> x = CHR ''X'') \<and> digit_value d < 16
      then (16, d # cs)
      else if z = CHR ''0'' then (8, z # x # d # cs) else (10, z # x # d # cs))"
| "base_prefix (z # cs) = (if z = CHR ''0'' then (8, z # cs) else (10, z # cs))"
| "base_prefix [] = (10, [])"

definition ULONG_MAX :: nat where "ULONG_MAX = 2 ^ 32 - 1"

text \<open>
  \<^verbatim>\<open>strtoul(str, &endptr, 0)\<close>: the value and the string at \<^verbatim>\<open>endptr\<close>. Without a digit nothing
  is converted and \<^verbatim>\<open>endptr == str\<close>. \<^verbatim>\<open>unsigned long\<close> has 32 bits: a larger number gives
  \<^verbatim>\<open>ULONG_MAX\<close>, and a minus sign negates the value modulo $2^{32}$.
\<close>

definition strtoul0 :: "string \<Rightarrow> u32 \<times> string" where
  "strtoul0 str =
     (let s = dropWhile isspace str;
          neg = (s \<noteq> [] \<and> hd s = CHR ''-'');
          s1 = (if s \<noteq> [] \<and> (hd s = CHR ''-'' \<or> hd s = CHR ''+'') then tl s else s);
          (base, ds) = base_prefix s1;
          (v, rest) = scan_digits base 0 ds
      in if ds = [] \<or> digit_value (hd ds) \<ge> base then (0, str)
         else if v > ULONG_MAX then (of_nat ULONG_MAX, rest)
         else (if neg then - of_nat v else of_nat v, rest))"

text \<open>
  \<^verbatim>\<open>atoi\<close>: \<^verbatim>\<open>strtol\<close> in base 10 truncated to \<^verbatim>\<open>int\<close>; on this target both have 32 bits and
  an out-of-range number saturates.
\<close>

definition atoi :: "string \<Rightarrow> int" where
  "atoi str =
     (let s = dropWhile isspace str;
          neg = (s \<noteq> [] \<and> hd s = CHR ''-'');
          s1 = (if s \<noteq> [] \<and> (hd s = CHR ''-'' \<or> hd s = CHR ''+'') then tl s else s);
          v = int (fst (scan_digits 10 0 s1))
      in if neg then max (- (2 ^ 31)) (- v) else min (2 ^ 31 - 1) v)"

text \<open>
  The tokens that a call \<^verbatim>\<open>strtok(str, d)\<close> followed by calls \<^verbatim>\<open>strtok(NULL, d)\<close> yields until
  NULL: maximal non-empty runs of characters other than the delimiter.
\<close>

function strtok_all :: "char \<Rightarrow> string \<Rightarrow> string list" where
  "strtok_all d s =
     (case dropWhile (\<lambda>c. c = d) s of
        [] \<Rightarrow> []
      | c # cs \<Rightarrow> (c # takeWhile (\<lambda>c. c \<noteq> d) cs) # strtok_all d (dropWhile (\<lambda>c. c \<noteq> d) cs))"
  by pat_completeness auto
termination
proof (relation "measure (\<lambda>(d, s). length s)", goal_cases)
  case (2 d s c cs)
  have "length (dropWhile (\<lambda>c. c \<noteq> d) cs) \<le> length cs" by (rule length_dropWhile_le)
  also have "\<dots> < length (dropWhile (\<lambda>c. c = d) s)" using 2 by simp
  also have "\<dots> \<le> length s" by (rule length_dropWhile_le)
  finally show ?case by simp
qed simp

declare strtok_all.simps [simp del]

lemma strtok_all_no_delim: "t \<in> set (strtok_all d s) \<Longrightarrow> t \<noteq> [] \<and> d \<notin> set t"
proof (induction d s rule: strtok_all.induct)
  case (1 d s)
  show ?case
  proof (cases "dropWhile (\<lambda>c. c = d) s")
    case Nil
    with "1.prems" show ?thesis by (simp add: strtok_all.simps [of d s])
  next
    case (Cons c cs)
    then have "c \<noteq> d" by (metis (full_types) dropWhile_eq_Cons_conv)
    with Cons 1 show ?thesis
      by (auto simp: strtok_all.simps [of d s] dest: set_takeWhileD)
  qed
qed

section \<open>Decimal printing and reading back\<close>

fun dec_digits :: "nat \<Rightarrow> string" where
  "dec_digits n = (if n < 10 then [char_of (48 + n)]
                   else dec_digits (n div 10) @ [char_of (48 + n mod 10)])"

declare dec_digits.simps [simp del]

definition show_int :: "int \<Rightarrow> string" where
  "show_int i = (if i < 0 then CHR ''-'' # dec_digits (nat (- i)) else dec_digits (nat i))"

lemma digit_value_char [simp]: "n < 10 \<Longrightarrow> digit_value (char_of (48 + n)) = n"
  by (auto simp: digit_value_def Let_def)

lemma scan_digits_append:
  "\<forall>c \<in> set ds. digit_value c < base \<Longrightarrow>
   scan_digits base acc (ds @ rest) = scan_digits base (fst (scan_digits base acc ds)) rest"
  by (induction ds arbitrary: acc) auto

lemma dec_digits_digits: "c \<in> set (dec_digits n) \<Longrightarrow> digit_value c < 10"
proof (induction n rule: dec_digits.induct)
  case (1 n)
  then show ?case
    by (cases "n < 10") (auto simp: dec_digits.simps [of n])
qed

lemma scan_dec_digits [simp]: "scan_digits 10 0 (dec_digits n) = (n, [])"
proof (induction n rule: dec_digits.induct)
  case (1 n)
  show ?case
  proof (cases "n < 10")
    case True
    then show ?thesis by (simp add: dec_digits.simps [of n])
  next
    case False
    then have "scan_digits 10 0 (dec_digits n)
        = scan_digits 10 (n div 10) [char_of (48 + n mod 10)]"
      using 1 dec_digits_digits by (simp add: dec_digits.simps [of n] scan_digits_append)
    then show ?thesis by simp
  qed
qed

lemma dec_digits_nonempty [simp]: "dec_digits n \<noteq> []"
  by (subst dec_digits.simps) simp

text \<open>A printed number has no leading zero unless it is the number zero.\<close>

lemma hd_dec_digits: "hd (dec_digits n) = CHR ''0'' \<Longrightarrow> n = 0"
proof (induction n rule: dec_digits.induct)
  case (1 n)
  show ?case
  proof (cases "n < 10")
    case True
    with 1 have "of_char (char_of (48 + n) :: char) = (48 :: nat)"
      by (simp add: dec_digits.simps [of n])
    with True show ?thesis by simp
  next
    case False
    then have "hd (dec_digits n) = hd (dec_digits (n div 10))"
      by (simp add: dec_digits.simps [of n])
    with 1 False have "n div 10 = 0" by auto
    with False show ?thesis by simp
  qed
qed

lemma base_prefix_dec: "0 < n \<Longrightarrow> base_prefix (dec_digits n) = (10, dec_digits n)"
  using hd_dec_digits [of n] dec_digits_nonempty [of n]
  by (cases "dec_digits n" rule: base_prefix.cases) auto

lemma digit_not_space: "digit_value c < 10 \<Longrightarrow> \<not> isspace c \<and> c \<noteq> CHR ''-'' \<and> c \<noteq> CHR ''+''"
  by (auto simp: isspace_def digit_value_def)

lemma dropWhile_dec_digits: "dropWhile isspace (dec_digits n @ r) = dec_digits n @ r"
  using dec_digits_digits [of "hd (dec_digits n)" n] digit_not_space [of "hd (dec_digits n)"]
  by (cases "dec_digits n") auto

text \<open>Reading back what \<^verbatim>\<open>%u\<close> prints gives the number and consumes the whole string.\<close>

lemma dec_digits_0: "dec_digits 0 = ''0''"
  by (simp add: dec_digits.simps [of 0] char_of_def bit_Suc_0_iff)

lemma strtoul0_zero: "strtoul0 (dec_digits 0) = (0, [])"
  by (simp add: dec_digits_0 strtoul0_def isspace_def digit_value_def ULONG_MAX_def)

lemma strtoul0_dec_digits: "n < 2 ^ 32 \<Longrightarrow> strtoul0 (dec_digits n) = (of_nat n, [])"
proof (cases "n = 0")
  case True
  then show ?thesis by (simp add: strtoul0_zero)
next
  case False
  assume n: "n < 2 ^ 32"
  have hd: "digit_value (hd (dec_digits n)) < 10"
    by (rule dec_digits_digits [of _ n]) simp
  have dw: "dropWhile isspace (dec_digits n) = dec_digits n"
    using dropWhile_dec_digits [of n "[]"] by simp
  show ?thesis
    using n False hd digit_not_space [OF hd] base_prefix_dec [of n]
    by (simp add: strtoul0_def Let_def dw ULONG_MAX_def)
qed

end
