(* ===== verification/Device_Shims.thy ===== *)
theory Device_Shims
  imports C_Strings
begin

text \<open>
  The two small C libraries of the device beside the audio stack: liblights/lights.c, the
  backlight HAL, and libmocha/atomic.c, the \<^verbatim>\<open>libcutils\<close> counters that vendor blobs import.
\<close>

section \<open>Backlight\<close>

text \<open>
  The file system is a parameter with state \<open>'k\<close>; \<open>fs_open\<close> and \<open>fs_write\<close> answer as the system
  calls do and \<open>fs_errno\<close> is the value of \<^verbatim>\<open>errno\<close> when the code reads it.
\<close>

record 'k fs =
  fs_open :: "string \<Rightarrow> 'k \<Rightarrow> int \<times> 'k"
  fs_write :: "int \<Rightarrow> string \<Rightarrow> 'k \<Rightarrow> int \<times> 'k"
  fs_close :: "int \<Rightarrow> 'k \<Rightarrow> 'k"
  fs_errno :: "'k \<Rightarrow> int"

text \<open>\<^verbatim>\<open>already_warned\<close> is the function's static variable; the log line is its only effect.\<close>

definition write_int :: "'k fs \<Rightarrow> string \<Rightarrow> int \<Rightarrow> int \<Rightarrow> 'k \<Rightarrow> int \<times> int \<times> 'k" where
  "write_int F path v already_warned k =
     (case fs_open F path k of (f, k1) \<Rightarrow>
        if f \<ge> 0 then
          let buffer = show_int v @ [CHR 0x0A] in
          case fs_write F f buffer k1 of (amt, k2) \<Rightarrow>
            let k3 = fs_close F f k2
            in (if amt = - 1 then - fs_errno F k3 else 0, already_warned, k3)
        else (- fs_errno F k1, if already_warned = - 1 then 1 else already_warned, k1))"

definition rgb_to_brightness :: "u32 \<Rightarrow> u32" where
  "rgb_to_brightness state_color =
     (let color = state_color AND 0x00ffffff in
      drop_bit 8 (77 * (drop_bit 16 color AND 0x00ff) + 150 * (drop_bit 8 color AND 0x00ff)
        + 29 * (color AND 0x00ff)))"

definition backlight_path :: string where
  "backlight_path = ''/sys/class/backlight/pwm-backlight/brightness''"

definition set_light_backlight :: "'k fs \<Rightarrow> u32 \<Rightarrow> int \<Rightarrow> 'k \<Rightarrow> int \<times> int \<times> 'k" where
  "set_light_backlight F color already_warned k =
     write_int F backlight_path (sint (rgb_to_brightness color)) already_warned k"

text \<open>
  \<^verbatim>\<open>LIGHT_ID_BACKLIGHT\<close> is a constant of \<^verbatim>\<open>hardware/lights.h\<close>, here an argument. The result of
  \<^verbatim>\<open>malloc\<close> is not checked: when \<open>alloc\<close> is false the \<^verbatim>\<open>memset\<close> writes through NULL.
\<close>

datatype light_handler = Set_light_backlight

definition open_lights :: "string \<Rightarrow> bool \<Rightarrow> string \<Rightarrow> (int + light_handler) option" where
  "open_lights light_id_backlight alloc name =
     (if light_id_backlight = name
      then (if alloc then Some (Inr Set_light_backlight) else None)
      else Some (Inl (- EINVAL)))"

text \<open>The three channels of a colour \<^verbatim>\<open>0xAARRGGBB\<close>.\<close>

definition red_of :: "u32 \<Rightarrow> nat" where "red_of c = unat c div 2 ^ 16 mod 256"
definition green_of :: "u32 \<Rightarrow> nat" where "green_of c = unat c div 2 ^ 8 mod 256"
definition blue_of :: "u32 \<Rightarrow> nat" where "blue_of c = unat c mod 256"

lemma unat_byte:
  assumes "n \<le> 16"
  shows "unat (drop_bit n (c AND 0x00ffffff) AND 0x00ff :: u32) = unat c div 2 ^ n mod 256"
proof -
  have m: "w AND 0x00ffffff = take_bit 24 w" "w AND 0x00ff = take_bit 8 w" for w :: u32
    by (simp_all add: take_bit_eq_mask mask_eq_exp_minus_1)
  have "unat (drop_bit n (c AND 0x00ffffff) AND 0x00ff :: u32)
      = take_bit 8 (drop_bit n (take_bit 24 (unat c)))"
    by (simp add: m unsigned_take_bit_eq unsigned_drop_bit_eq)
  also have "\<dots> = take_bit 8 (drop_bit n (unat c))"
    using assms by (intro bit_eqI) (auto simp: bit_simps)
  finally show ?thesis by (simp add: take_bit_eq_mod drop_bit_eq_div)
qed

lemma unat_rgb:
  "unat (rgb_to_brightness c) = (77 * red_of c + 150 * green_of c + 29 * blue_of c) div 256"
proof -
  let ?r = "drop_bit 16 (c AND 0x00ffffff) AND 0x00ff :: u32"
  let ?g = "drop_bit 8 (c AND 0x00ffffff) AND 0x00ff :: u32"
  let ?b = "(c AND 0x00ffffff) AND 0x00ff :: u32"
  have e: "unat ?r = red_of c" "unat ?g = green_of c" "unat ?b = blue_of c"
    using unat_byte [of 16 c] unat_byte [of 8 c] unat_byte [of 0 c]
    by (simp_all add: red_of_def green_of_def blue_of_def)
  have l: "red_of c < 256" "green_of c < 256" "blue_of c < 256"
    by (simp_all add: red_of_def green_of_def blue_of_def)
  have "unat (77 * ?r) = 77 * red_of c" "unat (150 * ?g) = 150 * green_of c" "unat (29 * ?b) = 29 * blue_of c"
    using e l by (simp_all add: unat_word_ariths)
  then have "unat (77 * ?r + 150 * ?g + 29 * ?b) = 77 * red_of c + 150 * green_of c + 29 * blue_of c"
    using l by (simp add: unat_word_ariths)
  then have "unat (drop_bit 8 (77 * ?r + 150 * ?g + 29 * ?b))
      = drop_bit 8 (77 * red_of c + 150 * green_of c + 29 * blue_of c)"
    using l by (simp only: unsigned_drop_bit_eq) (simp add: take_bit_nat_eq_self)
  then show ?thesis
    by (simp add: rgb_to_brightness_def Let_def) (simp add: drop_bit_eq_div)
qed

text \<open>
  The brightness of a colour is the weighted mean of its channels: it lies in 0..255,
  depends on no alpha bits, and is the grey level itself for a grey colour (the weights add up
  to 256); the shifts and products of the code neither overflow nor go negative.
\<close>

theorem rgb_to_brightness_spec:
  "sint (rgb_to_brightness c) = int ((77 * red_of c + 150 * green_of c + 29 * blue_of c) div 256)
   \<and> sint (rgb_to_brightness c) \<in> {0..255}
   \<and> (red_of c = g \<and> green_of c = g \<and> blue_of c = g \<longrightarrow> sint (rgb_to_brightness c) = int g)"
proof -
  have l: "red_of c < 256" "green_of c < 256" "blue_of c < 256"
    by (simp_all add: red_of_def green_of_def blue_of_def)
  then have b: "(77 * red_of c + 150 * green_of c + 29 * blue_of c) div 256 \<le> 255" by simp
  then have "sint (rgb_to_brightness c) = int (unat (rgb_to_brightness c))"
    by (intro sint_small) (simp add: unat_rgb)
  then have s: "sint (rgb_to_brightness c) = int ((77 * red_of c + 150 * green_of c + 29 * blue_of c) div 256)"
    by (simp only: unat_rgb)
  have "red_of c = g \<and> green_of c = g \<and> blue_of c = g \<longrightarrow>
      (77 * red_of c + 150 * green_of c + 29 * blue_of c) div 256 = g"
    by (auto simp: algebra_simps)
  with s b show ?thesis by simp
qed

lemma rgb_to_brightness_spec_witness: "sint (rgb_to_brightness 0xFF808080) = 128"
  using rgb_to_brightness_spec [of "0xFF808080" 128]
  by (simp add: red_of_def green_of_def blue_of_def)

section \<open>Counters\<close>

text \<open>
  \<^verbatim>\<open>__atomic_fetch_add\<close> and \<^verbatim>\<open>__atomic_fetch_sub\<close> return the old value and wrap around at 32
  bits; memory ordering has no counterpart in a sequential model.
\<close>

definition android_atomic_inc :: "u32 \<Rightarrow> int \<times> u32" where
  "android_atomic_inc m = (sint m, m + 1)"

definition android_atomic_dec :: "u32 \<Rightarrow> int \<times> u32" where
  "android_atomic_dec m = (sint m, m - 1)"

definition android_atomic_acquire_load :: "u32 \<Rightarrow> int" where
  "android_atomic_acquire_load m = sint m"

definition android_atomic_release_load :: "u32 \<Rightarrow> int" where
  "android_atomic_release_load m = sint m"

definition android_atomic_acquire_store :: "int \<Rightarrow> u32 \<Rightarrow> u32" where
  "android_atomic_acquire_store v m = word_of_int v"

definition android_atomic_release_store :: "int \<Rightarrow> u32 \<Rightarrow> u32" where
  "android_atomic_release_store v m = word_of_int v"

text \<open>A history of increments (\<open>True\<close>) and decrements on one counter, with the values returned.\<close>

fun atomic_run :: "bool list \<Rightarrow> u32 \<Rightarrow> int list \<times> u32" where
  "atomic_run [] m = ([], m)"
| "atomic_run (b # bs) m =
     (let (v, m') = (if b then android_atomic_inc m else android_atomic_dec m);
          (vs, m'') = atomic_run bs m'
      in (v # vs, m''))"

lemma atomic_run_word:
  "snd (atomic_run bs m) = m + of_int (int (length (filter id bs)) - int (length (filter Not bs)))"
  by (induction bs arbitrary: m)
    (simp_all add: android_atomic_inc_def android_atomic_dec_def Let_def case_prod_beta)

text \<open>
  After any interleaving of increments and decrements a counter loads its initial value
  plus the increments minus the decrements, as long as that total fits in 32 bits, even when
  intermediate values wrapped around.
\<close>

theorem atomic_balance:
  assumes "- (2 ^ 31) \<le> v + int (length (filter id bs)) - int (length (filter Not bs))"
    and "v + int (length (filter id bs)) - int (length (filter Not bs)) < 2 ^ 31"
  shows "android_atomic_acquire_load (snd (atomic_run bs (android_atomic_release_store v m)))
         = v + int (length (filter id bs)) - int (length (filter Not bs))"
proof -
  let ?t = "v + int (length (filter id bs)) - int (length (filter Not bs))"
  have "snd (atomic_run bs (word_of_int v)) = word_of_int ?t"
    by (simp add: atomic_run_word algebra_simps)
  moreover have "sint (word_of_int ?t :: u32) = ?t"
    using assms by (simp only: int_word_sint) simp
  ultimately show ?thesis
    by (simp only: android_atomic_acquire_load_def android_atomic_release_store_def)
qed

lemma atomic_balance_witness:
  "android_atomic_acquire_load (snd (atomic_run [True, False] (android_atomic_release_store (2 ^ 31 - 1) 0)))
   = 2 ^ 31 - 1"
  using atomic_balance [of "2 ^ 31 - 1" "[True, False]" 0] by simp

end
