(* ===== verification/Sys_Env.thy ===== *)
theory Sys_Env
  imports Mocha_Prelude
begin

text \<open>
  What the audio stack relies on outside the repository, as a parameter: the success or
  failure of an allocation and the ALSA control device of the kernel. \<open>'k\<close> is the state of
  that outside world and the record \<open>'k sys\<close> holds one function per call; every definition
  that performs such a call takes the record \<open>E\<close> and threads the state \<open>k\<close>.
  The data exchanged with the driver is that of \<^verbatim>\<open>tinyalsa/include/sound/asound.h\<close>.
\<close>

section \<open>Control elements\<close>

text \<open>
  \<^verbatim>\<open>struct snd_ctl_elem_info\<close>. Its union \<^verbatim>\<open>value\<close> is kept as the two words every variant
  starts with, so that the overlay of \<^verbatim>\<open>integer.min\<close> with \<^verbatim>\<open>enumerated.items\<close> (both at offset
  0, \<^verbatim>\<open>long\<close> having four bytes) and of \<^verbatim>\<open>integer.max\<close> with \<^verbatim>\<open>enumerated.item\<close> is the code's.
\<close>

record elem_info =
  numid :: u32
  id_name :: string
  elem_type :: int
  elem_count :: u32
  value_w0 :: u32
  value_w1 :: u32
  value_name :: string

definition zero_info :: elem_info where
  "zero_info = \<lparr>numid = 0, id_name = [], elem_type = 0, elem_count = 0,
                value_w0 = 0, value_w1 = 0, value_name = []\<rparr>"

definition integer_min :: "elem_info \<Rightarrow> int" where
  "integer_min ei = sint (value_w0 ei)"

definition integer_max :: "elem_info \<Rightarrow> int" where
  "integer_max ei = sint (value_w1 ei)"

definition enumerated_items :: "elem_info \<Rightarrow> u32" where
  "enumerated_items ei = value_w0 ei"

abbreviation SNDRV_CTL_ELEM_TYPE_BOOLEAN :: int where "SNDRV_CTL_ELEM_TYPE_BOOLEAN \<equiv> 1"
abbreviation SNDRV_CTL_ELEM_TYPE_INTEGER :: int where "SNDRV_CTL_ELEM_TYPE_INTEGER \<equiv> 2"
abbreviation SNDRV_CTL_ELEM_TYPE_ENUMERATED :: int where "SNDRV_CTL_ELEM_TYPE_ENUMERATED \<equiv> 3"
abbreviation SNDRV_CTL_ELEM_TYPE_BYTES :: int where "SNDRV_CTL_ELEM_TYPE_BYTES \<equiv> 4"
abbreviation SNDRV_CTL_ELEM_TYPE_IEC958 :: int where "SNDRV_CTL_ELEM_TYPE_IEC958 \<equiv> 5"
abbreviation SNDRV_CTL_ELEM_TYPE_INTEGER64 :: int where "SNDRV_CTL_ELEM_TYPE_INTEGER64 \<equiv> 6"

text \<open>
  \<^verbatim>\<open>struct snd_ctl_elem_value\<close>: the element's number and the 512 bytes of the union \<^verbatim>\<open>value\<close>,
  which \<^verbatim>\<open>integer.value\<close> and \<^verbatim>\<open>enumerated.item\<close> read as 128 little-endian words and
  \<^verbatim>\<open>bytes.data\<close> as 512 bytes. The bytes are a function of their offset; the operations check
  that the offsets they use lie inside the 512 bytes.
\<close>

type_synonym bytes = "nat \<Rightarrow> u8"

record elem_value =
  ev_numid :: u32
  ev_bytes :: bytes

definition zero_value :: elem_value where
  "zero_value = \<lparr>ev_numid = 0, ev_bytes = (\<lambda>_. 0)\<rparr>"

definition get_word :: "bytes \<Rightarrow> nat \<Rightarrow> u32" where
  "get_word bs i = ucast (bs (4 * i)) OR push_bit 8 (ucast (bs (4 * i + 1)))
     OR push_bit 16 (ucast (bs (4 * i + 2))) OR push_bit 24 (ucast (bs (4 * i + 3)))"

definition put_word :: "bytes \<Rightarrow> nat \<Rightarrow> u32 \<Rightarrow> bytes" where
  "put_word bs i w = bs(4 * i := ucast w, 4 * i + 1 := ucast (drop_bit 8 w),
     4 * i + 2 := ucast (drop_bit 16 w), 4 * i + 3 := ucast (drop_bit 24 w))"

lemma get_put_word [simp]: "get_word (put_word bs i w) i = w"
proof (rule bit_word_eqI)
  fix n assume "n < LENGTH(32)"
  then show "bit (get_word (put_word bs i w) i) n = bit w n"
    by (cases "n < 24"; cases "n < 16") (auto simp: get_word_def put_word_def bit_simps)
qed

lemma get_put_word_other [simp]: "i \<noteq> j \<Longrightarrow> get_word (put_word bs i w) j = get_word bs j"
proof -
  assume "i \<noteq> j"
  then have "(put_word bs i w) (4 * j + k) = bs (4 * j + k)" if "k < 4" for k
    using that unfolding put_word_def by (auto; presburger)
  from this [of 0] this [of 1] this [of 2] this [of 3] show ?thesis
    by (simp add: get_word_def)
qed

text \<open>\<^verbatim>\<open>memcpy\<close> of the bytes of a list to an offset.\<close>

definition copy_in :: "bytes \<Rightarrow> nat \<Rightarrow> u8 list \<Rightarrow> bytes" where
  "copy_in bs off xs = (\<lambda>i. if off \<le> i \<and> i < off + length xs then xs ! (i - off) else bs i)"

definition copy_out :: "bytes \<Rightarrow> nat \<Rightarrow> u8 list" where
  "copy_out bs n = map bs [0..<n]"

lemma length_copy_out [simp]: "length (copy_out bs n) = n"
  by (simp add: copy_out_def)

lemma nth_copy_out [simp]: "i < n \<Longrightarrow> copy_out bs n ! i = bs i"
  by (simp add: copy_out_def)

lemma copy_out_in [simp]: "n = length xs \<Longrightarrow> copy_out (copy_in bs 0 xs) n = xs"
  by (intro nth_equalityI) (simp_all add: copy_in_def)

section \<open>The outside world\<close>

record 'k sys =
  sys_alloc :: "'k \<Rightarrow> bool \<times> 'k"
    \<comment> \<open>does the next \<^verbatim>\<open>malloc\<close>, \<^verbatim>\<open>calloc\<close>, \<^verbatim>\<open>realloc\<close> or \<^verbatim>\<open>strdup\<close> succeed?\<close>
  dev_open :: "u32 \<Rightarrow> 'k \<Rightarrow> int \<times> 'k"
    \<comment> \<open>\<^verbatim>\<open>open("/dev/snd/controlC%u")\<close>: a file descriptor, negative on failure\<close>
  dev_close :: "int \<Rightarrow> 'k \<Rightarrow> 'k"
  ctl_card_info :: "int \<Rightarrow> 'k \<Rightarrow> (int \<times> string) \<times> 'k"
    \<comment> \<open>\<^verbatim>\<open>SNDRV_CTL_IOCTL_CARD_INFO\<close>: result and the card's name\<close>
  ctl_elem_list :: "int \<Rightarrow> u32 \<Rightarrow> u32 \<Rightarrow> 'k \<Rightarrow> (int \<times> u32 \<times> u32 list) \<times> 'k"
    \<comment> \<open>\<^verbatim>\<open>SNDRV_CTL_IOCTL_ELEM_LIST\<close> with \<^verbatim>\<open>offset\<close> and \<^verbatim>\<open>space\<close>: result, \<^verbatim>\<open>count\<close>, the ids\<close>
  ctl_elem_info :: "int \<Rightarrow> elem_info \<Rightarrow> 'k \<Rightarrow> (int \<times> elem_info) \<times> 'k"
  ctl_elem_read :: "int \<Rightarrow> elem_value \<Rightarrow> 'k \<Rightarrow> (int \<times> elem_value) \<times> 'k"
  ctl_elem_write :: "int \<Rightarrow> elem_value \<Rightarrow> 'k \<Rightarrow> int \<times> 'k"

end
