(* ===== verification/Dyn_Array.thy ===== *)
theory Dyn_Array
  imports Sys_Env
begin

text \<open>
  The growable arrays of configmgr/audio_config.c (\<^verbatim>\<open>struct dyn_array\<close>, lines 67-83 and
  1090-1142), which hold every table the configuration file builds. \<open>data\<close> is the allocated
  block, one list element per array slot (\<open>[]\<close> for a NULL pointer); \<open>count\<close> slots are in use.
  \<open>z\<close> is the element whose bytes are all zero, which \<^verbatim>\<open>memset\<close> writes into fresh slots.
  The interface that the parser relies on is the locale \<open>append_array\<close>.
\<close>

record 'a dyn_array =
  count :: u32
  max_count :: u16
  elem_size :: u16
  data :: "'a list"

abbreviation DYN_ARRAY_GRANULE :: u32 where "DYN_ARRAY_GRANULE \<equiv> 16"

definition empty_array :: "u16 \<Rightarrow> 'a dyn_array" where
  "empty_array sz = \<lparr>count = 0, max_count = 0, elem_size = sz, data = []\<rparr>"

definition dyn_array_extend ::
  "'k sys \<Rightarrow> 'a \<Rightarrow> 'a dyn_array \<Rightarrow> 'k \<Rightarrow> (int \<times> 'a dyn_array) \<times> 'k" where
  "dyn_array_extend E z array k =
     (let new_count = count array + 1;
          maxc = ucast (max_count array) :: u32
      in if new_count > maxc then
           if maxc > 0xFFFF - DYN_ARRAY_GRANULE then ((- ENOMEM, array), k)
           else
             (case sys_alloc E k of (ok, k') \<Rightarrow>
               if \<not> ok then ((- ENOMEM, array), k')
               else ((0, array\<lparr>data := data array @ replicate 16 z,
                               max_count := ucast (maxc + DYN_ARRAY_GRANULE),
                               count := new_count\<rparr>), k'))
         else ((0, array\<lparr>count := new_count\<rparr>), k))"

definition dyn_array_fix :: "'k sys \<Rightarrow> 'a dyn_array \<Rightarrow> 'k \<Rightarrow> 'a dyn_array \<times> 'k" where
  "dyn_array_fix E array k =
     (case sys_alloc E k of (ok, k') \<Rightarrow>
        (if ok then array\<lparr>data := take (unat (count array)) (data array),
                          max_count := ucast (count array)\<rparr>
         else array, k'))"

text \<open>The byte sizes that \<^verbatim>\<open>dyn_array_extend\<close> passes to \<^verbatim>\<open>realloc\<close> and \<^verbatim>\<open>memset\<close>.\<close>

definition old_size :: "'a dyn_array \<Rightarrow> u32" where
  "old_size array = ucast (max_count array) * ucast (elem_size array)"

definition new_size :: "'a dyn_array \<Rightarrow> u32" where
  "new_size array = (ucast (max_count array) + DYN_ARRAY_GRANULE) * ucast (elem_size array)"

section \<open>Abstraction and invariant\<close>

definition elems :: "'a dyn_array \<Rightarrow> 'a list" where
  "elems array = take (unat (count array)) (data array)"

definition set_elem :: "'a dyn_array \<Rightarrow> nat \<Rightarrow> 'a \<Rightarrow> 'a dyn_array" where
  "set_elem array i x = array\<lparr>data := (data array)[i := x]\<rparr>"

definition array_ok :: "'a \<Rightarrow> 'a dyn_array \<Rightarrow> bool" where
  "array_ok z array \<longleftrightarrow>
     unat (count array) \<le> unat (max_count array) \<and>
     length (data array) = unat (max_count array) \<and>
     drop (unat (count array)) (data array)
       = replicate (unat (max_count array) - unat (count array)) z"

lemma array_ok_empty [simp]: "array_ok z (empty_array sz)" "elems (empty_array sz) = []"
  by (simp_all add: array_ok_def empty_array_def elems_def)

lemma length_elems [simp]: "array_ok z array \<Longrightarrow> length (elems array) = unat (count array)"
  by (simp add: array_ok_def elems_def)

lemma nth_elems: "i < unat (count array) \<Longrightarrow> elems array ! i = data array ! i"
  by (simp add: elems_def)

lemma elems_set_elem [simp]:
  "i < unat (count array) \<Longrightarrow> elems (set_elem array i x) = (elems array)[i := x]"
  by (simp add: elems_def set_elem_def take_update_swap)

lemma array_ok_set_elem [simp]:
  "array_ok z array \<Longrightarrow> i < unat (count array) \<Longrightarrow> array_ok z (set_elem array i x)"
  by (simp add: array_ok_def set_elem_def drop_update_cancel)

lemma set_elem_frame [simp]:
  "count (set_elem array i x) = count array"
  "max_count (set_elem array i x) = max_count array"
  "elem_size (set_elem array i x) = elem_size array"
  by (simp_all add: set_elem_def)

text \<open>The count of a well-formed array never comes near the range of \<^verbatim>\<open>uint\<close>.\<close>

lemma array_ok_count: "array_ok z array \<Longrightarrow> unat (count array) < 2 ^ 16"
  using unsigned_less [of "max_count array", where ?'a = nat] by (simp add: array_ok_def)

lemma array_ok_count_Suc: "array_ok z array \<Longrightarrow> unat (count array + 1) = Suc (unat (count array))"
  using array_ok_count [of z array] by (simp add: unat_Suc_word32)

lemma word_gt_max: "array_ok z array \<Longrightarrow>
  (count array + 1 > (ucast (max_count array) :: u32)) = (unat (max_count array) = unat (count array))"
proof -
  assume ok: "array_ok z array"
  then have "unat (count array) \<le> unat (max_count array)" by (simp add: array_ok_def)
  then show ?thesis by (auto simp: word_less_nat_alt array_ok_count_Suc [OF ok])
qed

lemma unat_new_max:
  "\<not> (ucast (m :: u16) > (0xFFFF - DYN_ARRAY_GRANULE :: u32)) \<Longrightarrow>
   unat (ucast (ucast m + DYN_ARRAY_GRANULE :: u32) :: u16) = unat m + 16"
proof -
  assume "\<not> (ucast m > (0xFFFF - DYN_ARRAY_GRANULE :: u32))"
  then have m: "unat m \<le> 0xFFFF - 16" by (simp add: word_less_nat_alt)
  then have "unat (ucast m + DYN_ARRAY_GRANULE :: u32) = unat m + 16"
    by (simp add: unat_word_ariths)
  with m show ?thesis by (simp add: unsigned_ucast_eq take_bit_nat_eq_self_iff)
qed

lemma dyn_array_extend_success:
  assumes ok: "array_ok z array" and ext: "dyn_array_extend E z array k = ((r, array'), k')"
    and r: "r = 0"
  shows "array_ok z array' \<and> elems array' = elems array @ [z]
         \<and> unat (count array') = Suc (unat (count array)) \<and> elem_size array' = elem_size array"
proof (cases "unat (max_count array) = unat (count array)")
  case True
  obtain a k1 where a: "sys_alloc E k = (a, k1)" by (cases "sys_alloc E k") auto
  have nm: "\<not> (ucast (max_count array) > (0xFFFF - DYN_ARRAY_GRANULE :: u32))" and a1: a
    using ext r True ok a by (auto simp: dyn_array_extend_def Let_def word_gt_max split: if_splits)
  have arr: "array' = array\<lparr>data := data array @ replicate 16 z,
      max_count := ucast (ucast (max_count array) + DYN_ARRAY_GRANULE :: u32), count := count array + 1\<rparr>"
    using ext True ok a a1 nm by (simp add: dyn_array_extend_def Let_def word_gt_max)
  have len: "length (data array) = unat (count array)" using ok True by (simp add: array_ok_def)
  have rep: "replicate 16 z = z # replicate 15 z" by (simp add: eval_nat_numeral)
  show ?thesis
    using ok True arr len array_ok_count_Suc [OF ok] unat_new_max [OF nm]
    by (simp add: array_ok_def elems_def rep)
next
  case False
  then have arr: "array' = array\<lparr>count := count array + 1\<rparr>"
    using ext ok by (simp add: dyn_array_extend_def Let_def word_gt_max)
  have lt: "unat (count array) < unat (max_count array)" using False ok by (simp add: array_ok_def)
  have "drop (unat (count array)) (data array) = data array ! unat (count array)
      # drop (Suc (unat (count array))) (data array)"
    using lt ok by (simp add: array_ok_def Cons_nth_drop_Suc)
  moreover have "replicate (unat (max_count array) - unat (count array)) z
      = z # replicate (unat (max_count array) - Suc (unat (count array))) z"
    using lt by (metis Suc_diff_Suc replicate_Suc)
  ultimately have "data array ! unat (count array) = z"
    "drop (Suc (unat (count array))) (data array)
      = replicate (unat (max_count array) - Suc (unat (count array))) z"
    using ok by (auto simp: array_ok_def)
  then show ?thesis
    using lt ok arr array_ok_count_Suc [OF ok]
    by (simp add: array_ok_def elems_def take_Suc_conv_app_nth)
qed

lemma dyn_array_extend_error:
  "dyn_array_extend E z array k = ((r, array'), k') \<Longrightarrow> r \<noteq> 0 \<Longrightarrow> r = - ENOMEM \<and> array' = array"
  by (auto simp: dyn_array_extend_def Let_def split: if_splits prod.splits)

lemma dyn_array_fix_elems:
  assumes "array_ok z array" and "dyn_array_fix E array k = (array', k')"
  shows "array_ok z array' \<and> elems array' = elems array \<and> elem_size array' = elem_size array
         \<and> count array' = count array"
proof -
  have "unat (ucast (count array) :: u16) = unat (count array)"
    using array_ok_count [OF assms(1)]
    by (simp add: unsigned_ucast_eq take_bit_nat_eq_self_iff)
  then show ?thesis
    using assms by (auto simp: dyn_array_fix_def array_ok_def elems_def split: if_splits prod.splits)
qed

section \<open>The interface the parser uses\<close>

text \<open>
  A client sees a list that grows at its end: \<open>extend\<close> appends a zeroed element or fails with
  \<^verbatim>\<open>-ENOMEM\<close> and no change, and \<open>upd\<close> writes one element.
\<close>

locale append_array =
  fixes extend :: "'ar \<Rightarrow> 'k \<Rightarrow> (int \<times> 'ar) \<times> 'k"
    and upd :: "'ar \<Rightarrow> nat \<Rightarrow> 'a \<Rightarrow> 'ar"
    and items :: "'ar \<Rightarrow> 'a list"
    and ok :: "'ar \<Rightarrow> bool"
    and z :: 'a
  assumes extend_appends: "ok a \<Longrightarrow> extend a k = ((0, a'), k') \<Longrightarrow> ok a' \<and> items a' = items a @ [z]"
    and extend_fails: "extend a k = ((r, a'), k') \<Longrightarrow> r \<noteq> 0 \<Longrightarrow> r = - ENOMEM \<and> a' = a"
    and upd_items: "ok a \<Longrightarrow> i < length (items a) \<Longrightarrow> ok (upd a i x) \<and> items (upd a i x) = (items a)[i := x]"
begin

lemma extend_result:
  assumes "extend a k = ((r, a'), k')"
  shows "r = 0 \<or> r = - ENOMEM"
  using extend_fails [OF assms] by blast

lemma extend_then_set:
  assumes "ok a" and "extend a k = ((r, a'), k')" and "\<not> r < 0"
  shows "ok (upd a' (length (items a)) x) \<and> items (upd a' (length (items a)) x) = items a @ [x]"
proof -
  have "r = 0" using extend_result [OF assms(2)] assms(3) by auto
  with assms have "ok a'" and "items a' = items a @ [z]" by (auto dest: extend_appends)
  then show ?thesis using upd_items [of a' "length (items a)" x] by simp
qed

end

interpretation dyn: append_array "dyn_array_extend E z" set_elem elems "array_ok z" z for E z
proof unfold_locales
  show "array_ok z a' \<and> elems a' = elems a @ [z]"
    if "array_ok z a" "dyn_array_extend E z a k = ((0, a'), k')" for a k a' k'
    using dyn_array_extend_success [OF that] by blast
qed (auto dest: dyn_array_extend_error)

text \<open>
  The common part of the constructors \<^verbatim>\<open>new_ctl\<close>, \<^verbatim>\<open>new_path\<close>, \<^verbatim>\<open>new_stream\<close> and their
  kin: extend, take \<^verbatim>\<open>&array->data[array->count - 1]\<close>, fill in the element. The result is the
  element's index, \<open>None\<close> for the NULL that reports exhaustion.
\<close>

definition new_elem ::
  "'k sys \<Rightarrow> 'a \<Rightarrow> ('a \<Rightarrow> 'a) \<Rightarrow> 'a dyn_array \<Rightarrow> 'k \<Rightarrow> (nat option \<times> 'a dyn_array) \<times> 'k" where
  "new_elem E z f array k =
     (case dyn_array_extend E z array k of ((r, array'), k') \<Rightarrow>
        if r < 0 then ((None, array'), k')
        else let i = unat (count array' - 1)
             in ((Some i, set_elem array' i (f (data array' ! i))), k'))"

lemma new_elem_spec:
  assumes ok: "array_ok z array" and new: "new_elem E z f array k = ((r, array'), k')"
  shows "array_ok z array' \<and>
    (case r of None \<Rightarrow> elems array' = elems array
     | Some i \<Rightarrow> i = length (elems array) \<and> elems array' = elems array @ [f z])"
proof -
  obtain r0 a0 where ext: "dyn_array_extend E z array k = ((r0, a0), k')"
    using new by (auto simp: new_elem_def Let_def split: prod.splits if_splits)
  show ?thesis
  proof (cases "r0 < 0")
    case True
    then show ?thesis using new ext ok dyn_array_extend_error [OF ext]
      by (auto simp: new_elem_def)
  next
    case False
    then have r0: "r0 = 0" using dyn.extend_result [OF ext] by auto
    note s = dyn_array_extend_success [OF ok ext r0]
    have "count a0 \<noteq> 0" using s by auto
    then have "unat (count a0 - 1) = unat (count array)"
      using s by (simp add: unat_minus_one)
    moreover have "data a0 ! unat (count array) = z"
      using s nth_elems [of "unat (count array)" a0] ok by (simp add: nth_append)
    ultimately show ?thesis
      using new ext False dyn.extend_then_set [OF ok ext False, of "f z"] ok
      by (auto simp: new_elem_def Let_def)
  qed
qed

text \<open>While memory lasts, a table grows to at least 65520 elements.\<close>

lemma dyn_array_extend_succeeds:
  assumes "\<And>k. fst (sys_alloc E k)" and "array_ok z array" and "length (elems array) < 65520"
  shows "fst (fst (dyn_array_extend E z array k)) = 0"
proof (cases "unat (max_count array) = unat (count array)")
  case True
  then have "\<not> ucast (max_count array) > (0xFFFF - DYN_ARRAY_GRANULE :: u32)"
    using assms(2,3) by (simp add: word_less_nat_alt)
  then show ?thesis
    using assms(1) [of k] by (auto simp: dyn_array_extend_def Let_def split: prod.splits)
next
  case False
  then show ?thesis using word_gt_max [OF assms(2)] by (simp add: dyn_array_extend_def Let_def)
qed

lemma new_elem_appends:
  assumes "\<And>k. fst (sys_alloc E k)" and "array_ok z array" and "length (elems array) < 65520"
  obtains array' k' where "new_elem E z f array k = ((Some (length (elems array)), array'), k')"
    "array_ok z array'" "elems array' = elems array @ [f z]"
proof -
  obtain r a k' where n: "new_elem E z f array k = ((r, a), k')" by (cases "new_elem E z f array k") auto
  have "r \<noteq> None"
    using n dyn_array_extend_succeeds [OF assms, of k] by (auto simp: new_elem_def Let_def split: prod.splits if_splits)
  then obtain i where "r = Some i" by blast
  then show ?thesis using new_elem_spec [OF assms(2) n] n by (intro that [of a k']) auto
qed

end
