(* ===== verification/Example_Card.thy ===== *)
theory Example_Card
  imports Sys_Env
begin

text \<open>
  A small concrete sound card, the instance of the parameter \<^typ>\<open>'k sys\<close> on which the
  witnesses evaluate: allocation always succeeds, the card has a given list of controls
  numbered from 1, and the driver stores the bytes of every element.
\<close>

type_synonym card_state = "u32 \<Rightarrow> bytes"

definition demo_info :: "elem_info list \<Rightarrow> elem_info \<Rightarrow> int \<times> elem_info" where
  "demo_info infos ei =
     (let i = unat (numid ei) - 1 in
      if i < length infos
      then (0, (infos ! i)\<lparr>numid := numid ei, value_name := [char_of (97 + unat (value_w1 ei))]\<rparr>)
      else (- ENOENT, ei))"

definition demo_card :: "elem_info list \<Rightarrow> card_state sys" where
  "demo_card infos =
     \<lparr>sys_alloc = (\<lambda>k. (True, k)),
      dev_open = (\<lambda>c k. (3, k)),
      dev_close = (\<lambda>f k. k),
      ctl_card_info = (\<lambda>f k. ((0, ''demo''), k)),
      ctl_elem_list = (\<lambda>f off space k.
        ((0, of_nat (length infos), map (\<lambda>i. off + of_nat (Suc i)) [0..<unat space]), k)),
      ctl_elem_info = (\<lambda>f ei k. (demo_info infos ei, k)),
      ctl_elem_read = (\<lambda>f ev k. ((0, ev\<lparr>ev_bytes := k (ev_numid ev)\<rparr>), k)),
      ctl_elem_write = (\<lambda>f ev k. (0, k(ev_numid ev := ev_bytes ev)))\<rparr>"

definition demo_state :: card_state where
  "demo_state = (\<lambda>_ _. 0)"

text \<open>A volume with range 0 to 100 and two channels, and a three-way switch.\<close>

definition demo_volume :: elem_info where
  "demo_volume = zero_info\<lparr>id_name := ''Volume'', elem_type := SNDRV_CTL_ELEM_TYPE_INTEGER,
     elem_count := 2, value_w0 := 0, value_w1 := 100\<rparr>"

definition demo_mux :: elem_info where
  "demo_mux = zero_info\<lparr>id_name := ''Mux'', elem_type := SNDRV_CTL_ELEM_TYPE_ENUMERATED,
     elem_count := 1, value_w0 := 3\<rparr>"

definition demo_blob :: elem_info where
  "demo_blob = zero_info\<lparr>id_name := ''Blob'', elem_type := SNDRV_CTL_ELEM_TYPE_BYTES,
     elem_count := 4\<rparr>"

lemmas demo_simps = demo_card_def demo_info_def demo_state_def demo_volume_def demo_mux_def
  demo_blob_def zero_info_def zero_value_def

end
