(* ===== verification/Mixer.thy ===== *)
theory Mixer
  imports Example_Card "HOL-Library.Signed_Division"
begin

text \<open>
  tinyalsa/mixer.c: the list of a card's controls and the access to their values. A
  \<^verbatim>\<open>struct mixer_ctl *\<close> argument is a \<^typ>\<open>'a option\<close> (\<open>None\<close> for NULL) of the control's record;
  the record keeps the descriptor that the code reads through \<^verbatim>\<open>ctl->mixer->fd\<close>. Values
  written or read are 32-bit \<^verbatim>\<open>int\<close>s as integers in range.
\<close>

section \<open>State\<close>

record mixer_ctl =
  mixer_fd :: "int option"
  info :: elem_info
  ename :: "string option list option"

record mixer =
  fd :: int
  card_name :: string
  ctl :: "mixer_ctl list"
  mcount :: u32

definition zero_ctl :: mixer_ctl where
  "zero_ctl = \<lparr>mixer_fd = None, info = zero_info, ename = None\<rparr>"

definition in_int :: "int \<Rightarrow> bool" where
  "in_int i \<longleftrightarrow> - (2 ^ 31) \<le> i \<and> i < 2 ^ 31"

section \<open>Opening and closing\<close>

definition mixer_close :: "'k sys \<Rightarrow> mixer option \<Rightarrow> 'k \<Rightarrow> 'k" where
  "mixer_close E mixer k =
     (case mixer of None \<Rightarrow> k
      | Some m \<Rightarrow> if fd m \<ge> 0 then dev_close E (fd m) k else k)"

text \<open>
  \<^verbatim>\<open>realloc\<close> to \<^verbatim>\<open>size * newnum\<close> bytes, a 32-bit product, and a \<^verbatim>\<open>memset\<close> of the part behind \<open>curnum\<close>. A \<^verbatim>\<open>memset\<close>
  past the block is undefined; for \<open>newnum < curnum\<close> its length wraps around and does that. The
  block is the list of the elements that fit into it.
\<close>

definition mixer_realloc_z ::
  "'k sys \<Rightarrow> mixer_ctl list \<Rightarrow> u32 \<Rightarrow> u32 \<Rightarrow> u32 \<Rightarrow> 'k \<Rightarrow> (mixer_ctl list option \<times> 'k) option" where
  "mixer_realloc_z E p curnum newnum sz k =
     (case sys_alloc E k of (ok, k') \<Rightarrow>
        if \<not> ok then Some (None, k')
        else if unat (sz * newnum) < unat (curnum * sz) + unat ((newnum - curnum) * sz) then None
        else Some (Some (take (unat curnum) p
                         @ replicate (unat (sz * newnum) div unat sz - unat curnum) zero_ctl), k'))"

text \<open>\<^verbatim>\<open>sizeof(struct mixer_ctl)\<close>: 272 bytes of \<^verbatim>\<open>info\<close>, which is aligned to 8, between two pointers.\<close>

abbreviation sizeof_mixer_ctl :: u32 where "sizeof_mixer_ctl \<equiv> 288"

text \<open>The names of an enumerated control's items (lines 158-167).\<close>

fun read_enames ::
  "'k sys \<Rightarrow> int \<Rightarrow> elem_info \<Rightarrow> nat list \<Rightarrow> 'k \<Rightarrow> (bool \<times> string option list) \<times> 'k" where
  "read_enames E f ei [] k = ((True, []), k)"
| "read_enames E f ei (m # ms) k =
     (let tmp = zero_info\<lparr>numid := numid ei, value_w1 := of_nat m\<rparr> in
      case ctl_elem_info E f tmp k of ((r, tmp'), k1) \<Rightarrow>
        if r < 0 then ((False, replicate (Suc (length ms)) None), k1)
        else case sys_alloc E k1 of (ok, k2) \<Rightarrow>
          if \<not> ok then ((False, replicate (Suc (length ms)) None), k2)
          else case read_enames E f ei ms k2 of ((b, names), k3) \<Rightarrow>
            ((b, Some (value_name tmp') # names), k3))"

definition eid_at :: "u32 list \<Rightarrow> nat \<Rightarrow> u32" where
  "eid_at eid i = (if i < length eid then eid ! i else 0)"

text \<open>
  The loop over the new controls (lines 147-169): \<open>Some n\<close> in the result is the control on
  which the code jumped to \<^verbatim>\<open>fail_extend\<close>. The names of an enumerated control are stored
  through \<^verbatim>\<open>ctl[old_count + n]\<close>; an access behind the end of the block is undefined.
\<close>

fun add_ctls ::
  "'k sys \<Rightarrow> int \<Rightarrow> nat \<Rightarrow> u32 list \<Rightarrow> nat list \<Rightarrow> mixer_ctl list \<Rightarrow> 'k
     \<Rightarrow> ((nat option \<times> mixer_ctl list) \<times> 'k) option" where
  "add_ctls E f old_count eid [] cs k = Some ((None, cs), k)"
| "add_ctls E f old_count eid (n # ns) cs k =
     (if length cs \<le> n then None else
      let ei0 = (info (cs ! n))\<lparr>numid := eid_at eid (n - old_count)\<rparr> in
      case ctl_elem_info E f ei0 k of ((r, ei), k1) \<Rightarrow>
        let cs1 = cs[n := (cs ! n)\<lparr>info := ei\<rparr>] in
        if r < 0 then Some ((Some n, cs1), k1)
        else
          let cs2 = cs1[n := (cs1 ! n)\<lparr>mixer_fd := Some f\<rparr>] in
          if elem_type ei = SNDRV_CTL_ELEM_TYPE_ENUMERATED then
            case sys_alloc E k1 of (ok, k2) \<Rightarrow>
              if \<not> ok then Some ((Some n, cs2), k2)
              else if length cs2 \<le> old_count + n then None
              else case read_enames E f ei [0..<unat (enumerated_items ei)] k2 of ((b, names), k3) \<Rightarrow>
                let cs3 = cs2[old_count + n := (cs2 ! (old_count + n))\<lparr>ename := Some names\<rparr>] in
                if b then add_ctls E f old_count eid ns cs3 k3
                else Some ((Some n, cs3), k3)
          else add_ctls E f old_count eid ns cs2 k1)"

definition add_controls :: "'k sys \<Rightarrow> mixer \<Rightarrow> 'k \<Rightarrow> ((int \<times> mixer) \<times> 'k) option" where
  "add_controls E m k =
     (let old_count = mcount m in
      case ctl_elem_list E (fd m) 0 0 k of ((r, n, _), k1) \<Rightarrow>
        if r < 0 then Some ((- 1, m), k1)
        else if old_count = n then Some ((0, m), k1)
        else do {
          (p, k2) \<leftarrow> mixer_realloc_z E (ctl m) old_count n sizeof_mixer_ctl k1;
          (case p of
             None \<Rightarrow> Some ((- 1, m), k2)
           | Some cs \<Rightarrow>
               let m1 = m\<lparr>ctl := cs\<rparr>; extra_count = n - old_count in
               case sys_alloc E k2 of (ok, k3) \<Rightarrow>
                 if \<not> ok then Some ((- 1, m1), k3)
                 else case ctl_elem_list E (fd m) old_count extra_count k3 of ((r2, _, eid), k4) \<Rightarrow>
                   if r2 < 0 then Some ((- 1, m1), k4)
                   else do {
                     ((failed, cs'), k5) \<leftarrow>
                       add_ctls E (fd m) (unat old_count) eid [unat old_count..<unat n] cs k4;
                     (case failed of
                        None \<Rightarrow> Some ((0, m1\<lparr>ctl := cs', mcount := old_count + extra_count\<rparr>), k5)
                      | Some i \<Rightarrow> Some ((- 1, m1\<lparr>ctl := cs', mcount := of_nat i\<rparr>), k5))
                   })
        })"

definition mixer_open :: "'k sys \<Rightarrow> u32 \<Rightarrow> 'k \<Rightarrow> (mixer option \<times> 'k) option" where
  "mixer_open E cardno k =
     (case dev_open E cardno k of (f, k1) \<Rightarrow>
        if f < 0 then Some (None, k1)
        else case sys_alloc E k1 of (ok, k2) \<Rightarrow>
          if \<not> ok then Some (None, if f \<ge> 0 then dev_close E f k2 else k2)
          else
            let m = \<lparr>fd = 0, card_name = [], ctl = [], mcount = 0\<rparr> in
            case ctl_card_info E f k2 of ((r, name), k3) \<Rightarrow>
              let m1 = m\<lparr>card_name := name\<rparr> in
              if r < 0 then Some (None, mixer_close E (Some m1) k3)
              else do {
                let m2 = m1\<lparr>fd := f\<rparr>;
                ((r2, m3), k4) \<leftarrow> add_controls E m2 k3;
                (if r2 \<noteq> 0 then Some (None, mixer_close E (Some m3) k4)
                 else Some (Some m3, k4))
              })"

definition mixer_update_ctls :: "'k sys \<Rightarrow> mixer option \<Rightarrow> 'k \<Rightarrow> ((int \<times> mixer option) \<times> 'k) option" where
  "mixer_update_ctls E mixer k =
     (case mixer of None \<Rightarrow> Some ((0, None), k)
      | Some m \<Rightarrow> map_option (\<lambda>((r, m'), k'). ((r, Some m'), k')) (add_controls E m k))"

section \<open>Finding controls\<close>

definition mixer_get_name :: "mixer option \<Rightarrow> string option" where
  "mixer_get_name mixer = map_option card_name mixer"

definition mixer_get_num_ctls :: "mixer option \<Rightarrow> u32" where
  "mixer_get_num_ctls mixer = (case mixer of None \<Rightarrow> 0 | Some m \<Rightarrow> mcount m)"

definition mixer_get_ctl :: "mixer option \<Rightarrow> u32 \<Rightarrow> mixer_ctl option" where
  "mixer_get_ctl mixer i =
     (case mixer of None \<Rightarrow> None
      | Some m \<Rightarrow> if i < mcount m then Some (ctl m ! unat i) else None)"

text \<open>The code reads \<^verbatim>\<open>mixer->ctl\<close> before it tests \<^verbatim>\<open>mixer\<close> for NULL.\<close>

definition mixer_get_ctl_by_name :: "mixer option \<Rightarrow> string \<Rightarrow> mixer_ctl option option" where
  "mixer_get_ctl_by_name mixer name =
     (case mixer of None \<Rightarrow> None
      | Some m \<Rightarrow> Some (find (\<lambda>c. name = id_name (info c)) (take (unat (mcount m)) (ctl m))))"

definition mixer_ctl_get_id :: "mixer_ctl option \<Rightarrow> u32" where
  "mixer_ctl_get_id c = (case c of None \<Rightarrow> UINT_MAX | Some c \<Rightarrow> numid (info c) - 1)"

definition mixer_ctl_get_name :: "mixer_ctl option \<Rightarrow> string option" where
  "mixer_ctl_get_name c = map_option (\<lambda>c. id_name (info c)) c"

datatype mixer_ctl_type =
  MIXER_CTL_TYPE_BOOL | MIXER_CTL_TYPE_INT | MIXER_CTL_TYPE_ENUM | MIXER_CTL_TYPE_BYTE
  | MIXER_CTL_TYPE_IEC958 | MIXER_CTL_TYPE_INT64 | MIXER_CTL_TYPE_UNKNOWN

definition mixer_ctl_get_type :: "mixer_ctl option \<Rightarrow> mixer_ctl_type" where
  "mixer_ctl_get_type c =
     (case c of None \<Rightarrow> MIXER_CTL_TYPE_UNKNOWN
      | Some c \<Rightarrow> let t = elem_type (info c) in
          if t = SNDRV_CTL_ELEM_TYPE_BOOLEAN then MIXER_CTL_TYPE_BOOL
          else if t = SNDRV_CTL_ELEM_TYPE_INTEGER then MIXER_CTL_TYPE_INT
          else if t = SNDRV_CTL_ELEM_TYPE_ENUMERATED then MIXER_CTL_TYPE_ENUM
          else if t = SNDRV_CTL_ELEM_TYPE_BYTES then MIXER_CTL_TYPE_BYTE
          else if t = SNDRV_CTL_ELEM_TYPE_IEC958 then MIXER_CTL_TYPE_IEC958
          else if t = SNDRV_CTL_ELEM_TYPE_INTEGER64 then MIXER_CTL_TYPE_INT64
          else MIXER_CTL_TYPE_UNKNOWN)"

definition mixer_ctl_get_type_string :: "mixer_ctl option \<Rightarrow> string" where
  "mixer_ctl_get_type_string c =
     (case c of None \<Rightarrow> []
      | Some c \<Rightarrow> let t = elem_type (info c) in
          if t = SNDRV_CTL_ELEM_TYPE_BOOLEAN then ''BOOL''
          else if t = SNDRV_CTL_ELEM_TYPE_INTEGER then ''INT''
          else if t = SNDRV_CTL_ELEM_TYPE_ENUMERATED then ''ENUM''
          else if t = SNDRV_CTL_ELEM_TYPE_BYTES then ''BYTE''
          else if t = SNDRV_CTL_ELEM_TYPE_IEC958 then ''IEC958''
          else if t = SNDRV_CTL_ELEM_TYPE_INTEGER64 then ''INT64''
          else ''Unknown'')"

definition mixer_ctl_get_num_values :: "mixer_ctl option \<Rightarrow> u32" where
  "mixer_ctl_get_num_values c = (case c of None \<Rightarrow> 0 | Some c \<Rightarrow> elem_count (info c))"

section \<open>Ranges and percentages\<close>

definition mixer_ctl_get_range_min :: "mixer_ctl option \<Rightarrow> int" where
  "mixer_ctl_get_range_min c =
     (case c of None \<Rightarrow> - EINVAL
      | Some c \<Rightarrow> if elem_type (info c) \<noteq> SNDRV_CTL_ELEM_TYPE_INTEGER then - EINVAL
                  else integer_min (info c))"

definition mixer_ctl_get_range_max :: "mixer_ctl option \<Rightarrow> int" where
  "mixer_ctl_get_range_max c =
     (case c of None \<Rightarrow> - EINVAL
      | Some c \<Rightarrow> if elem_type (info c) \<noteq> SNDRV_CTL_ELEM_TYPE_INTEGER then - EINVAL
                  else integer_max (info c))"

text \<open>Signed arithmetic of \<^verbatim>\<open>int\<close>: a result outside the type's range is undefined.\<close>

definition chk_int :: "int \<Rightarrow> int option" where
  "chk_int i = (if in_int i then Some i else None)"

definition percent_to_int :: "elem_info \<Rightarrow> int \<Rightarrow> int option" where
  "percent_to_int ei percent =
     (if percent > 100 \<or> percent < 0 then Some (- EINVAL)
      else do {
        range \<leftarrow> chk_int (integer_max ei - integer_min ei);
        prod \<leftarrow> chk_int (range * percent);
        chk_int (integer_min ei + prod sdiv 100)
      })"

definition int_to_percent :: "elem_info \<Rightarrow> int \<Rightarrow> int option" where
  "int_to_percent ei value = do {
     range \<leftarrow> chk_int (integer_max ei - integer_min ei);
     (if range = 0 then Some 0
      else do {
        d \<leftarrow> chk_int (value - integer_min ei);
        chk_int ((d sdiv range) * 100)
      })
   }"

section \<open>Reading and writing values\<close>

definition mixer_ctl_get_value ::
  "'k sys \<Rightarrow> mixer_ctl option \<Rightarrow> u32 \<Rightarrow> 'k \<Rightarrow> (int \<times> 'k) option" where
  "mixer_ctl_get_value E c i k =
     (case c of None \<Rightarrow> Some (- EINVAL, k)
      | Some c \<Rightarrow>
         if i \<ge> elem_count (info c) then Some (- EINVAL, k)
         else do {
           f \<leftarrow> mixer_fd c;
           let ev = zero_value\<lparr>ev_numid := numid (info c)\<rparr>;
           let ((ret, ev'), k') = ctl_elem_read E f ev k;
           let t = elem_type (info c);
           (if ret < 0 then Some (ret, k')
            else if t = SNDRV_CTL_ELEM_TYPE_BOOLEAN then
              (if unat i < 128 then Some (if get_word (ev_bytes ev') (unat i) \<noteq> 0 then 1 else 0, k')
               else None)
            else if t = SNDRV_CTL_ELEM_TYPE_INTEGER then
              (if unat i < 128 then Some (sint (get_word (ev_bytes ev') (unat i)), k') else None)
            else if t = SNDRV_CTL_ELEM_TYPE_ENUMERATED then
              (if unat i < 128 then Some (sint (get_word (ev_bytes ev') (unat i)), k') else None)
            else if t = SNDRV_CTL_ELEM_TYPE_BYTES then
              (if unat i < 512 then Some (uint (ev_bytes ev' (unat i)), k') else None)
            else Some (- EINVAL, k'))
         })"

definition mixer_ctl_set_value ::
  "'k sys \<Rightarrow> mixer_ctl option \<Rightarrow> u32 \<Rightarrow> int \<Rightarrow> 'k \<Rightarrow> (int \<times> 'k) option" where
  "mixer_ctl_set_value E c i value k =
     (case c of None \<Rightarrow> Some (- EINVAL, k)
      | Some c \<Rightarrow>
         if i \<ge> elem_count (info c) then Some (- EINVAL, k)
         else do {
           f \<leftarrow> mixer_fd c;
           let ev = zero_value\<lparr>ev_numid := numid (info c)\<rparr>;
           let ((ret, ev'), k') = ctl_elem_read E f ev k;
           let t = elem_type (info c);
           let w = word_of_int value;
           (if ret < 0 then Some (ret, k')
            else if t = SNDRV_CTL_ELEM_TYPE_BOOLEAN then
              (if unat i < 128
               then Some (ctl_elem_write E f
                 (ev'\<lparr>ev_bytes := put_word (ev_bytes ev') (unat i) (if value \<noteq> 0 then 1 else 0)\<rparr>) k')
               else None)
            else if t = SNDRV_CTL_ELEM_TYPE_INTEGER then
              (if value < mixer_ctl_get_range_min (Some c) \<or> value > mixer_ctl_get_range_max (Some c)
               then Some (- EINVAL, k')
               else if unat i < 128
               then Some (ctl_elem_write E f
                 (ev'\<lparr>ev_bytes := put_word (ev_bytes ev') (unat i) w\<rparr>) k')
               else None)
            else if t = SNDRV_CTL_ELEM_TYPE_ENUMERATED then
              (if unat i < 128
               then Some (ctl_elem_write E f
                 (ev'\<lparr>ev_bytes := put_word (ev_bytes ev') (unat i) w\<rparr>) k')
               else None)
            else if t = SNDRV_CTL_ELEM_TYPE_BYTES then
              (if unat i < 512
               then Some (ctl_elem_write E f
                 (ev'\<lparr>ev_bytes := (ev_bytes ev')(unat i := word_of_int value)\<rparr>) k')
               else None)
            else Some (- EINVAL, k'))
         })"

definition mixer_ctl_get_percent ::
  "'k sys \<Rightarrow> mixer_ctl option \<Rightarrow> u32 \<Rightarrow> 'k \<Rightarrow> (int \<times> 'k) option" where
  "mixer_ctl_get_percent E c i k =
     (case c of None \<Rightarrow> Some (- EINVAL, k)
      | Some c' \<Rightarrow>
         if elem_type (info c') \<noteq> SNDRV_CTL_ELEM_TYPE_INTEGER then Some (- EINVAL, k)
         else do {
           (v, k') \<leftarrow> mixer_ctl_get_value E c i k;
           p \<leftarrow> int_to_percent (info c') v;
           Some (p, k')
         })"

definition mixer_ctl_set_percent ::
  "'k sys \<Rightarrow> mixer_ctl option \<Rightarrow> u32 \<Rightarrow> int \<Rightarrow> 'k \<Rightarrow> (int \<times> 'k) option" where
  "mixer_ctl_set_percent E c i percent k =
     (case c of None \<Rightarrow> Some (- EINVAL, k)
      | Some c' \<Rightarrow>
         if elem_type (info c') \<noteq> SNDRV_CTL_ELEM_TYPE_INTEGER then Some (- EINVAL, k)
         else do {
           v \<leftarrow> percent_to_int (info c') percent;
           mixer_ctl_set_value E c i v k
         })"

text \<open>
  Whole-array access. \<open>array_size\<close> is the element size the \<^verbatim>\<open>switch\<close> selects, \<open>None\<close> for its
  default branch; a copy of more than the 512 bytes of the union is undefined, and so is a
  copy of more bytes than the caller's buffer holds.
\<close>

definition array_size :: "int \<Rightarrow> u32 option" where
  "array_size t = (if t = SNDRV_CTL_ELEM_TYPE_BOOLEAN \<or> t = SNDRV_CTL_ELEM_TYPE_INTEGER then Some 4
                   else if t = SNDRV_CTL_ELEM_TYPE_BYTES then Some 1 else None)"

definition mixer_ctl_get_array ::
  "'k sys \<Rightarrow> mixer_ctl option \<Rightarrow> u8 list option \<Rightarrow> u32 \<Rightarrow> 'k \<Rightarrow> ((int \<times> u8 list option) \<times> 'k) option" where
  "mixer_ctl_get_array E c arr n k =
     (case c of None \<Rightarrow> Some ((- EINVAL, arr), k)
      | Some c \<Rightarrow>
         if n > elem_count (info c) \<or> n = 0 then Some ((- EINVAL, arr), k)
         else case arr of None \<Rightarrow> Some ((- EINVAL, arr), k)
         | Some xs \<Rightarrow> do {
           f \<leftarrow> mixer_fd c;
           let ((ret, ev), k') = ctl_elem_read E f (zero_value\<lparr>ev_numid := numid (info c)\<rparr>) k;
           (if ret < 0 then Some ((ret, arr), k')
            else case array_size (elem_type (info c)) of
              None \<Rightarrow> Some ((- EINVAL, arr), k')
            | Some sz \<Rightarrow>
                let b = unat (sz * n) in
                if b \<le> 512 \<and> b \<le> length xs
                then Some ((0, Some (copy_out (ev_bytes ev) b @ drop b xs)), k')
                else None)
         })"

definition mixer_ctl_set_array ::
  "'k sys \<Rightarrow> mixer_ctl option \<Rightarrow> u8 list option \<Rightarrow> u32 \<Rightarrow> 'k \<Rightarrow> (int \<times> 'k) option" where
  "mixer_ctl_set_array E c arr n k =
     (case c of None \<Rightarrow> Some (- EINVAL, k)
      | Some c \<Rightarrow>
         if n > elem_count (info c) \<or> n = 0 then Some (- EINVAL, k)
         else case arr of None \<Rightarrow> Some (- EINVAL, k)
         | Some xs \<Rightarrow>
            (case array_size (elem_type (info c)) of
               None \<Rightarrow> Some (- EINVAL, k)
             | Some sz \<Rightarrow>
                 let b = unat (sz * n) in
                 if b \<le> 512 \<and> b \<le> length xs then do {
                   f \<leftarrow> mixer_fd c;
                   Some (ctl_elem_write E f
                     \<lparr>ev_numid = numid (info c), ev_bytes = copy_in (\<lambda>_. 0) 0 (take b xs)\<rparr> k)
                 }
                 else None))"

section \<open>Enumerated controls\<close>

definition mixer_ctl_get_num_enums :: "mixer_ctl option \<Rightarrow> u32" where
  "mixer_ctl_get_num_enums c = (case c of None \<Rightarrow> 0 | Some c \<Rightarrow> enumerated_items (info c))"

definition mixer_ctl_get_enum_string :: "mixer_ctl option \<Rightarrow> u32 \<Rightarrow> string option option" where
  "mixer_ctl_get_enum_string c i =
     (case c of None \<Rightarrow> Some None
      | Some c \<Rightarrow>
         if elem_type (info c) \<noteq> SNDRV_CTL_ELEM_TYPE_ENUMERATED \<or> i \<ge> enumerated_items (info c)
         then Some None
         else do {
           names \<leftarrow> ename c;
           (if unat i < length names then Some (names ! unat i) else None)
         })"

text \<open>The search of \<^verbatim>\<open>mixer_ctl_set_enum_by_string\<close>: \<open>Some None\<close> when no item has the name.\<close>

fun find_enum :: "string \<Rightarrow> string option list option \<Rightarrow> nat list \<Rightarrow> nat option option" where
  "find_enum s names [] = Some None"
| "find_enum s names (i # is) = do {
     ns \<leftarrow> names;
     nm \<leftarrow> (if i < length ns then ns ! i else None);
     (if s = nm then Some (Some i) else find_enum s names is)
   }"

definition mixer_ctl_set_enum_by_string ::
  "'k sys \<Rightarrow> mixer_ctl option \<Rightarrow> string \<Rightarrow> 'k \<Rightarrow> (int \<times> 'k) option" where
  "mixer_ctl_set_enum_by_string E c s k =
     (case c of None \<Rightarrow> Some (- EINVAL, k)
      | Some c \<Rightarrow>
         if elem_type (info c) \<noteq> SNDRV_CTL_ELEM_TYPE_ENUMERATED then Some (- EINVAL, k)
         else do {
           found \<leftarrow> find_enum s (ename c) [0..<unat (enumerated_items (info c))];
           (case found of
              None \<Rightarrow> Some (- EINVAL, k)
            | Some i \<Rightarrow> do {
                f \<leftarrow> mixer_fd c;
                let (ret, k') = ctl_elem_write E f
                  (zero_value\<lparr>ev_numid := numid (info c),
                     ev_bytes := put_word (ev_bytes zero_value) 0 (of_nat i)\<rparr>) k;
                Some (if ret < 0 then ret else 0, k')
              })
         })"

section \<open>A well-formed mixer\<close>

text \<open>
  The controls of an opened mixer: numbered from 1 in list order, with the mixer's
  descriptor, and with the name of every item of an enumerated control.
\<close>

definition enames_ok :: "mixer_ctl \<Rightarrow> bool" where
  "enames_ok c \<longleftrightarrow> (case ename c of None \<Rightarrow> False
     | Some ns \<Rightarrow> length ns = unat (enumerated_items (info c)) \<and> None \<notin> set ns)"

text \<open>The room that \<^verbatim>\<open>struct snd_ctl_elem_value\<close> has for the values of one element.\<close>

definition elem_limit :: "int \<Rightarrow> nat" where
  "elem_limit t = (if t = SNDRV_CTL_ELEM_TYPE_BYTES then 512 else 128)"

definition ctl_ok :: "int \<Rightarrow> nat \<Rightarrow> mixer_ctl \<Rightarrow> bool" where
  "ctl_ok f i c \<longleftrightarrow> numid (info c) = of_nat (Suc i) \<and> mixer_fd c = Some f \<and>
     unat (elem_count (info c)) \<le> elem_limit (elem_type (info c)) \<and>
     (elem_type (info c) = SNDRV_CTL_ELEM_TYPE_ENUMERATED \<longrightarrow> enames_ok c)"

definition mixer_ok :: "mixer \<Rightarrow> bool" where
  "mixer_ok m \<longleftrightarrow> unat (mcount m) \<le> length (ctl m) \<and>
     (\<forall>i < unat (mcount m). ctl_ok (fd m) i (ctl m ! i))"

text \<open>
  What the code assumes of the driver (comment at mixer.c line 276): the list of elements
  starts at number 1 and is consecutive, \<^verbatim>\<open>ELEM_INFO\<close> answers for the element it was asked
  about, no element has more values than \<^verbatim>\<open>struct snd_ctl_elem_value\<close> can hold, and there are not more
  elements than a table of \<^verbatim>\<open>struct mixer_ctl\<close> can have in the address space (the kernel has a structure of its own for each).
\<close>

definition driver_law :: "'k sys \<Rightarrow> int \<Rightarrow> bool" where
  "driver_law E f \<longleftrightarrow>
     (\<forall>ei k r ei' k'. ctl_elem_info E f ei k = ((r, ei'), k') \<and> 0 \<le> r \<longrightarrow>
        numid ei' = numid ei \<and> unat (elem_count ei') \<le> elem_limit (elem_type ei')) \<and>
     (\<forall>off space k r n eid k'. ctl_elem_list E f off space k = ((r, n, eid), k') \<and> 0 \<le> r \<longrightarrow>
        eid = map (\<lambda>i. off + of_nat (Suc i)) [0..<unat space] \<and> 288 * unat n < 2 ^ 32)"

lemma read_enames_shape:
  "read_enames E f ei ms k = ((b, names), k') \<Longrightarrow> length names = length ms \<and> (b \<longrightarrow> None \<notin> set names)"
  by (induction ms arbitrary: k names) (auto simp: Let_def split: prod.splits if_splits)

text \<open>
  The loop of a fresh mixer: it never leaves its block, and the controls before the one it
  stopped at are well formed.
\<close>

lemma add_ctls_fresh:
  assumes law: "\<And>ei k r ei' k'. ctl_elem_info E f ei k = ((r, ei'), k') \<Longrightarrow> 0 \<le> r \<Longrightarrow>
      numid ei' = numid ei \<and> unat (elem_count ei') \<le> elem_limit (elem_type ei')"
    and eid: "\<And>i. i < N \<Longrightarrow> eid_at eid i = of_nat (Suc i)"
  shows "ns = [j..<N] \<Longrightarrow> length cs = N \<Longrightarrow> \<forall>i < j. ctl_ok f i (cs ! i) \<Longrightarrow>
    \<exists>failed cs' k'. add_ctls E f 0 eid ns cs k = Some ((failed, cs'), k') \<and> length cs' = N \<and>
      (case failed of None \<Rightarrow> \<forall>i < N. ctl_ok f i (cs' ! i)
       | Some n \<Rightarrow> n < N \<and> (\<forall>i < n. ctl_ok f i (cs' ! i)))"
proof (induction ns arbitrary: j cs k)
  case Nil
  then have "N \<le> j" using upt_eq_Nil_conv [of j N] by auto
  with Nil show ?case by auto
next
  case (Cons n ns)
  from Cons.prems(1) [symmetric] have n: "n = j" "j < N" and ns: "ns = [Suc j..<N]"
    by (auto simp: upt_eq_Cons_conv)
  let ?ei0 = "(info (cs ! n))\<lparr>numid := eid_at eid n\<rparr>"
  obtain r ei k1 where ei: "ctl_elem_info E f ?ei0 k = ((r, ei), k1)"
    by (cases "ctl_elem_info E f ?ei0 k") auto
  let ?c1 = "(cs ! n)\<lparr>info := ei\<rparr>"
  let ?c2 = "?c1\<lparr>mixer_fd := Some f\<rparr>"
  have keep: "\<forall>i < j. ctl_ok f i (cs[n := c] ! i)" for c using Cons.prems(2,3) n by simp
  have step: "\<forall>i < Suc j. ctl_ok f i (cs[n := c] ! i)" if "ctl_ok f n c" for c
    using that Cons.prems(2,3) n by (auto simp: less_Suc_eq)
  show ?case
  proof (cases "r < 0")
    case True
    then show ?thesis using ei n Cons.prems(2,3) keep by simp
  next
    case False
    then have num: "numid ei = of_nat (Suc n)" "unat (elem_count ei) \<le> elem_limit (elem_type ei)"
      using law [OF ei] eid n by simp_all
    show ?thesis
    proof (cases "elem_type ei = SNDRV_CTL_ELEM_TYPE_ENUMERATED")
      case False
      then have "ctl_ok f n ?c2" using num by (simp add: ctl_ok_def)
      then show ?thesis
        using Cons.IH [OF ns, of "cs[n := ?c2]" k1] step [of ?c2] ei \<open>\<not> r < 0\<close> False n Cons.prems(2,3)
        by (simp add: list_update_overwrite)
    next
      case True
      obtain ok k2 where al: "sys_alloc E k1 = (ok, k2)" by (cases "sys_alloc E k1") auto
      obtain b names k3 where rd:
        "read_enames E f ei [0..<unat (enumerated_items ei)] k2 = ((b, names), k3)"
        by (cases "read_enames E f ei [0..<unat (enumerated_items ei)] k2") auto
      let ?c3 = "?c2\<lparr>ename := Some names\<rparr>"
      have c3: "b \<Longrightarrow> ctl_ok f n ?c3"
        using num read_enames_shape [OF rd] by (simp add: ctl_ok_def enames_ok_def)
      show ?thesis
        using Cons.IH [OF ns, of "cs[n := ?c3]" k3] step [of ?c3] keep c3
          ei \<open>\<not> r < 0\<close> True n Cons.prems(2,3) al rd
        by (cases ok; cases b) (simp_all add: list_update_overwrite)
    qed
  qed
qed

definition fresh_mixer :: "mixer \<Rightarrow> bool" where
  "fresh_mixer m \<longleftrightarrow> mcount m = 0"

lemma add_controls_fresh:
  assumes "driver_law E (fd m)" and "fresh_mixer m"
  shows "\<exists>r m' k'. add_controls E m k = Some ((r, m'), k') \<and> mixer_ok m' \<and> fd m' = fd m"
proof -
  have empty: "mixer_ok (m\<lparr>ctl := cs\<rparr>)" "mixer_ok m" for cs
    using assms(2) by (simp_all add: mixer_ok_def fresh_mixer_def)
  obtain r n e k1 where l1: "ctl_elem_list E (fd m) 0 0 k = ((r, n, e), k1)"
    by (cases "ctl_elem_list E (fd m) 0 0 k") auto
  obtain ok k2 where al: "sys_alloc E k1 = (ok, k2)" by (cases "sys_alloc E k1") auto
  let ?cs = "replicate (unat n) zero_ctl"
  obtain ok' k3 where al': "sys_alloc E k2 = (ok', k3)" by (cases "sys_alloc E k2") auto
  obtain r2 n2 eid k4 where l2: "ctl_elem_list E (fd m) 0 n k3 = ((r2, n2, eid), k4)"
    by (cases "ctl_elem_list E (fd m) 0 n k3") auto
  have eids: "eid_at eid i = of_nat (Suc i)" if "\<not> r2 < 0" "i < unat n" for i
  proof -
    have "eid = map (\<lambda>i. 0 + of_nat (Suc i)) [0..<unat n]"
      using assms(1) l2 that(1) unfolding driver_law_def by (meson not_less)
    then show ?thesis using that(2) by (simp add: eid_at_def)
  qed
  have law: "numid ei' = numid ei \<and> unat (elem_count ei') \<le> elem_limit (elem_type ei')"
    if "ctl_elem_info E (fd m) ei k = ((r, ei'), k')" "0 \<le> r" for ei k r ei' k'
    using assms(1) that unfolding driver_law_def by blast
  have sz: "unat (288 * n) = 288 * unat n" if "\<not> r < 0"
  proof -
    have "288 * unat n < 2 ^ 32" using assms(1) l1 that unfolding driver_law_def by (meson not_less)
    then show ?thesis by (simp add: unat_word_ariths)
  qed
  show ?thesis
  proof (cases "r < 0 \<or> n = 0 \<or> \<not> ok \<or> \<not> ok' \<or> r2 < 0")
    case True
    then show ?thesis
      using l1 al al' l2 empty assms(2)
      by (auto simp: add_controls_def fresh_mixer_def Let_def mixer_realloc_z_def sz mult.commute [of n])
  next
    case False
    then have "\<not> r2 < 0" by simp
    have "\<exists>failed cs' k5. add_ctls E (fd m) 0 eid [0..<unat n] ?cs k4 = Some ((failed, cs'), k5)
        \<and> length cs' = unat n
        \<and> (case failed of None \<Rightarrow> \<forall>i < unat n. ctl_ok (fd m) i (cs' ! i)
            | Some j \<Rightarrow> j < unat n \<and> (\<forall>i < j. ctl_ok (fd m) i (cs' ! i)))"
      by (rule add_ctls_fresh [where j = 0]) (auto dest: law intro: eids [OF \<open>\<not> r2 < 0\<close>, simplified])
    then obtain failed cs' k5 where loop:
      "add_ctls E (fd m) 0 eid [0..<unat n] ?cs k4 = Some ((failed, cs'), k5)"
      and len: "length cs' = unat n"
      and res: "case failed of None \<Rightarrow> \<forall>i < unat n. ctl_ok (fd m) i (cs' ! i)
                | Some j \<Rightarrow> j < unat n \<and> (\<forall>i < j. ctl_ok (fd m) i (cs' ! i))"
      by blast
    show ?thesis
      using l1 al al' l2 False loop assms(2) len res
      by (cases failed) (auto simp: add_controls_def fresh_mixer_def Let_def mixer_realloc_z_def
            mixer_ok_def of_nat_below sz mult.commute [of n])
  qed
qed

section \<open>The interface of a control lookup\<close>

text \<open>
  What the configuration manager relies on: a control found by its name is found again
  through the identifier that it stores instead of the control (\<^verbatim>\<open>mixer_ctl_get_id\<close> "can be
  passed to \<^verbatim>\<open>mixer_get_ctl()\<close>").
\<close>

locale control_lookup =
  fixes by_name :: "'m \<Rightarrow> string \<Rightarrow> 'c option option"
    and by_id :: "'m \<Rightarrow> u32 \<Rightarrow> 'c option"
    and id_of :: "'c option \<Rightarrow> u32"
    and name_of :: "'c \<Rightarrow> string"
    and ok :: "'m \<Rightarrow> bool"
  assumes by_name_defined: "ok m \<Longrightarrow> by_name m n \<noteq> None"
    and by_name_name: "ok m \<Longrightarrow> by_name m n = Some (Some c) \<Longrightarrow> name_of c = n"
    and by_id_of_name: "ok m \<Longrightarrow> by_name m n = Some (Some c) \<Longrightarrow> by_id m (id_of (Some c)) = Some c"
begin

lemma by_name_cases:
  assumes "ok m"
  obtains "by_name m n = Some None"
  | c where "by_name m n = Some (Some c)" and "by_id m (id_of (Some c)) = Some c" and "name_of c = n"
proof (cases "by_name m n")
  case None
  then show ?thesis using by_name_defined [OF assms] by blast
next
  case (Some r)
  then show ?thesis using that by_id_of_name [OF assms] by_name_name [OF assms] by (cases r) auto
qed

end

lemma mixer_get_ctl_ids:
  assumes "mixer_ok m" and "find P (take (unat (mcount m)) (ctl m)) = Some c"
  shows "P c \<and> mixer_get_ctl (Some m) (mixer_ctl_get_id (Some c)) = Some c"
proof -
  obtain i where i: "i < unat (mcount m)" "c = ctl m ! i" "P c"
    using assms by (auto simp: find_Some_iff mixer_ok_def)
  then have n: "numid (info c) = of_nat (Suc i)"
    using assms(1) by (simp add: mixer_ok_def ctl_ok_def)
  have "unat (of_nat i :: u32) = i" using i(1) by (rule of_nat_below)
  then show ?thesis
    using i n by (simp add: mixer_get_ctl_def mixer_ctl_get_id_def word_less_nat_alt)
qed

definition mixer_present :: "mixer option \<Rightarrow> bool" where
  "mixer_present mx \<longleftrightarrow> (case mx of None \<Rightarrow> False | Some m \<Rightarrow> mixer_ok m)"

interpretation mix: control_lookup mixer_get_ctl_by_name mixer_get_ctl mixer_ctl_get_id
  "\<lambda>c. id_name (info c)" mixer_present
  by unfold_locales
    (auto simp: mixer_present_def mixer_get_ctl_by_name_def split: option.splits
       dest: mixer_get_ctl_ids)

section \<open>Properties\<close>

text \<open>
  The storage law of the driver for one element: a read after a successful write returns the
  bytes written, and a read answers for the element asked about.
\<close>

definition storage_law :: "'k sys \<Rightarrow> int \<Rightarrow> bool" where
  "storage_law E f \<longleftrightarrow>
     (\<forall>ev k. ev_numid (snd (fst (ctl_elem_read E f ev k))) = ev_numid ev) \<and>
     (\<forall>ev ev0 k. ev_numid ev0 = ev_numid ev \<and> 0 \<le> fst (ctl_elem_write E f ev k) \<longrightarrow>
        (let res = fst (ctl_elem_read E f ev0 (snd (ctl_elem_write E f ev k)))
         in fst res = 0 \<and> (\<forall>i < 512. ev_bytes (snd res) i = ev_bytes ev i)))"

lemma storage_law_read:
  assumes "storage_law E f" and "ctl_elem_read E f ev k = ((r, ev'), k')"
  shows "ev_numid ev' = ev_numid ev"
proof -
  have "ev_numid (snd (fst (ctl_elem_read E f ev k))) = ev_numid ev"
    using assms(1) unfolding storage_law_def by blast
  then show ?thesis using assms(2) by simp
qed

lemma storage_law_write:
  assumes "storage_law E f" and "ctl_elem_write E f ev k = (r, k')" and "0 \<le> r"
    and "ctl_elem_read E f ev0 k' = ((r', ev'), k'')" and "ev_numid ev0 = ev_numid ev"
  shows "r' = 0 \<and> (\<forall>i < 512. ev_bytes ev' i = ev_bytes ev i)"
proof -
  have "ev_numid ev0 = ev_numid ev \<and> 0 \<le> fst (ctl_elem_write E f ev k)" using assms by simp
  then have "let res = fst (ctl_elem_read E f ev0 (snd (ctl_elem_write E f ev k)))
     in fst res = 0 \<and> (\<forall>i < 512. ev_bytes (snd res) i = ev_bytes ev i)"
    using assms(1) unfolding storage_law_def by blast
  then show ?thesis using assms(2,4) by simp
qed

lemma storage_law_demo: "storage_law (demo_card infos) f"
  by (simp add: storage_law_def demo_card_def Let_def)

lemma driver_law_demo:
  assumes "\<forall>ei \<in> set infos. unat (elem_count ei) \<le> elem_limit (elem_type ei)" and "length infos < 1000"
  shows "driver_law (demo_card infos) f"
proof -
  have "unat (of_nat (length infos) :: u32) = length infos" using assms(2) by (intro unat_of_nat32) simp
  then show ?thesis
    using assms by (auto simp: driver_law_def demo_card_def demo_info_def Let_def split: if_splits)
qed

lemma get_word_cong: "i < 128 \<Longrightarrow> \<forall>j < 512. bs j = bs' j \<Longrightarrow> get_word bs i = get_word bs' i"
  by (simp add: get_word_def)

lemma sdiv_nonneg: "0 \<le> a \<Longrightarrow> 0 < b \<Longrightarrow> a sdiv b = a div (b :: int)"
  by (cases "a = 0") (simp_all add: signed_divide_int_def)

lemma sint_word_of_int: "in_int v \<Longrightarrow> sint (word_of_int v :: u32) = v"
  by (simp add: in_int_def int_word_sint)

text \<open>
  Reading a control back: after a successful \<^verbatim>\<open>mixer_ctl_set_value\<close> on an integer
  control, \<^verbatim>\<open>mixer_ctl_get_value\<close> of that index returns the value written, and every other
  index returns what it returned before the write.
\<close>

theorem set_value_get_value:
  assumes law: "storage_law E f" and c: "mixer_fd c = Some f"
    and ty: "elem_type (info c) = SNDRV_CTL_ELEM_TYPE_INTEGER" "elem_count (info c) \<le> 128"
    and i: "i < elem_count (info c)" and v: "in_int v"
    and set: "mixer_ctl_set_value E (Some c) i v k = Some (r, k')" and r: "0 \<le> r"
  shows "(\<exists>k1. mixer_ctl_get_value E (Some c) i k' = Some (v, k1))
    \<and> (\<forall>j w k1. j \<noteq> i \<and> j < elem_count (info c) \<and> mixer_ctl_get_value E (Some c) j k = Some (w, k1)
          \<longrightarrow> (\<exists>k2. mixer_ctl_get_value E (Some c) j k' = Some (w, k2)))"
proof -
  let ?ev = "zero_value\<lparr>ev_numid := numid (info c)\<rparr>"
  obtain ret ev' k0 where rd: "ctl_elem_read E f ?ev k = ((ret, ev'), k0)"
    by (cases "ctl_elem_read E f ?ev k") auto
  let ?w = "ev'\<lparr>ev_bytes := put_word (ev_bytes ev') (unat i) (word_of_int v)\<rparr>"
  have lt: "unat j < 128" if "j < elem_count (info c)" for j
    using that ty(2) by (simp add: word_less_nat_alt word_le_nat_alt)
  have wr: "ctl_elem_write E f ?w k0 = (r, k')" "\<not> ret < 0"
    using set r c ty i lt [OF i] rd
    by (auto simp: mixer_ctl_set_value_def Let_def split: if_splits)
  have num: "ev_numid ?w = numid (info c)"
    using storage_law_read [OF law rd] by simp
  obtain ret1 ev1 k1 where rd1: "ctl_elem_read E f ?ev k' = ((ret1, ev1), k1)"
    by (cases "ctl_elem_read E f ?ev k'") auto
  have res: "ret1 = 0" "\<forall>n < 512. ev_bytes ev1 n = ev_bytes ?w n"
    using storage_law_write [OF law wr(1) r rd1] num by simp_all
  have get: "mixer_ctl_get_value E (Some c) j k' = Some (sint (get_word (ev_bytes ?w) (unat j)), k1)"
    if "j < elem_count (info c)" for j
  proof -
    have "\<not> elem_count (info c) \<le> j" using that by (simp add: linorder_not_le)
    then show ?thesis
      using rd1 res lt [OF that] get_word_cong [OF lt [OF that] res(2)] c ty
      by (simp add: mixer_ctl_get_value_def Let_def)
  qed
  show ?thesis
  proof (intro conjI allI impI)
    show "\<exists>k1. mixer_ctl_get_value E (Some c) i k' = Some (v, k1)"
      using get [OF i] v by (simp add: sint_word_of_int)
  next
    fix j w k1
    assume a: "j \<noteq> i \<and> j < elem_count (info c) \<and> mixer_ctl_get_value E (Some c) j k = Some (w, k1)"
    then have "\<not> elem_count (info c) \<le> j" by (simp add: linorder_not_le)
    then have "w = sint (get_word (ev_bytes ev') (unat j))"
      using a rd wr(2) lt [of j] c ty by (simp add: mixer_ctl_get_value_def Let_def)
    moreover have "unat i \<noteq> unat j" using a by (simp add: word_unat_eq_iff)
    ultimately show "\<exists>k2. mixer_ctl_get_value E (Some c) j k' = Some (w, k2)"
      using get [of j] a by simp
  qed
qed

text \<open>
  A value outside an integer control's range is refused with \<^verbatim>\<open>-EINVAL\<close> and never
  written: the driver sees the read of the current value and nothing else.
\<close>

theorem set_value_out_of_range:
  assumes "mixer_fd c = Some f" and "elem_type (info c) = SNDRV_CTL_ELEM_TYPE_INTEGER"
    and "i < elem_count (info c)"
    and "v < integer_min (info c) \<or> v > integer_max (info c)"
    and "ctl_elem_read E f (zero_value\<lparr>ev_numid := numid (info c)\<rparr>) k = ((ret, ev), k')"
  shows "mixer_ctl_set_value E (Some c) i v k = Some (if ret < 0 then ret else - EINVAL, k')"
  using assms
  by (auto simp: mixer_ctl_set_value_def mixer_ctl_get_range_min_def mixer_ctl_get_range_max_def Let_def)

text \<open>Concrete controls for the witnesses, as \<^verbatim>\<open>mixer_open\<close> builds them on the small card.\<close>

definition demo_ctl :: "elem_info \<Rightarrow> u32 \<Rightarrow> mixer_ctl" where
  "demo_ctl ei n = \<lparr>mixer_fd = Some 3, info = ei\<lparr>numid := n\<rparr>,
     ename = (if elem_type ei = SNDRV_CTL_ELEM_TYPE_ENUMERATED
              then Some [Some ''a'', Some ''b'', Some ''c''] else None)\<rparr>"

lemma set_value_get_value_witness:
  "\<exists>k1. mixer_ctl_get_value (demo_card [demo_volume]) (Some (demo_ctl demo_volume 1)) 1
     (demo_state(1 := put_word (\<lambda>_. 0) 1 42)) = Some (42, k1)"
proof -
  have "mixer_ctl_set_value (demo_card [demo_volume]) (Some (demo_ctl demo_volume 1)) 1 42 demo_state
     = Some (0, demo_state(1 := put_word (\<lambda>_. 0) 1 42))"
    by (simp add: mixer_ctl_set_value_def demo_ctl_def demo_simps mixer_ctl_get_range_min_def
        mixer_ctl_get_range_max_def integer_min_def integer_max_def Let_def
        word_le_nat_alt)
  then show ?thesis
    using set_value_get_value [of "demo_card [demo_volume]" 3 "demo_ctl demo_volume 1" 1 42 demo_state]
    by (simp add: storage_law_demo demo_ctl_def in_int_def demo_volume_def zero_info_def
        word_le_nat_alt word_less_nat_alt)
qed

lemma set_value_out_of_range_witness:
  "mixer_ctl_set_value (demo_card [demo_volume]) (Some (demo_ctl demo_volume 1)) 0 101 demo_state
     = Some (- EINVAL, demo_state)"
  using set_value_out_of_range [of "demo_ctl demo_volume 1" 3 0 101 "demo_card [demo_volume]" demo_state 0
      "zero_value\<lparr>ev_numid := 1\<rparr>" demo_state]
  by (simp add: demo_ctl_def demo_simps integer_min_def integer_max_def)

lemma mixer_open_defined:
  assumes "\<And>f. driver_law E f"
  shows "\<exists>res k'. mixer_open E cardno k = Some (res, k')
    \<and> (\<forall>m. res = Some m \<longrightarrow> mixer_ok m \<and> fd m = fst (dev_open E cardno k) \<and> 0 \<le> fd m)"
proof -
  have add: "\<exists>r m' k'. add_controls E \<lparr>fd = f, card_name = n, ctl = [], mcount = 0\<rparr> k
      = Some ((r, m'), k') \<and> mixer_ok m' \<and> fd m' = f" for f n k
    using add_controls_fresh [of E "\<lparr>fd = f, card_name = n, ctl = [], mcount = 0\<rparr>" k] assms
    by (fastforce simp: fresh_mixer_def)
  obtain f k1 where f: "dev_open E cardno k = (f, k1)" by (cases "dev_open E cardno k")
  obtain ok k2 where al: "sys_alloc E k1 = (ok, k2)" by (cases "sys_alloc E k1")
  obtain r n k3 where ci: "ctl_card_info E f k2 = ((r, n), k3)"
    by (cases "ctl_card_info E f k2") auto
  obtain r2 m' k4 where "add_controls E \<lparr>fd = f, card_name = n, ctl = [], mcount = 0\<rparr> k3
      = Some ((r2, m'), k4)" and "mixer_ok m'" and "fd m' = f"
    using add by blast
  then show ?thesis
    using f al ci by (simp add: mixer_open_def Let_def)
qed

text \<open>
  (C39) Opening a card: if the driver numbers its elements from 1 and consecutively, answers about the element it is asked
  about, has no element with more values than the structure for them holds and fewer elements than
  a table of controls can have, then \<^verbatim>\<open>mixer_open\<close> performs no undefined access, whatever else the driver
  answers and whichever allocation or call fails. A mixer that it returns is well formed: it owns the descriptor that was
  opened, its controls are numbered from 1, refer to that descriptor, and have the name of every enumerated item.
\<close>

theorem mixer_open_ok:
  assumes "\<And>f. driver_law E f"
  shows "\<exists>res k'. mixer_open E cardno k = Some (res, k')
    \<and> (\<forall>m. res = Some m \<longrightarrow> mixer_ok m \<and> fd m = fst (dev_open E cardno k) \<and> 0 \<le> fd m)"
  using mixer_open_defined [OF assms] .

lemma demo_mixer_open:
  "case mixer_open (demo_card [demo_volume, demo_mux]) 0 demo_state of Some (Some m, _) \<Rightarrow> mcount m = 2 | _ \<Rightarrow> False"
  by code_simp

lemma mixer_open_ok_witness:
  "\<exists>m k'. mixer_open (demo_card [demo_volume, demo_mux]) 0 demo_state = Some (Some m, k')
     \<and> mcount m = 2 \<and> mixer_ok m \<and> fd m = 3"
proof -
  have "driver_law (demo_card [demo_volume, demo_mux]) f" for f
    by (rule driver_law_demo) (simp_all add: elem_limit_def demo_simps)
  from mixer_open_ok [of "demo_card [demo_volume, demo_mux]", OF this, of 0 demo_state] demo_mixer_open
  show ?thesis by (auto simp: demo_card_def split: option.splits)
qed

text \<open>
  A control found by its name is found again through the identifier that the
  configuration manager stores in its place.
\<close>

theorem name_then_id:
  assumes "mixer_ok m" and "mixer_get_ctl_by_name (Some m) name = Some (Some c)"
  shows "mixer_get_ctl (Some m) (mixer_ctl_get_id (Some c)) = Some c \<and> id_name (info c) = name"
  using assms mix.by_id_of_name [of "Some m" name c] mix.by_name_name [of "Some m" name c]
  by (simp add: mixer_present_def)

lemma name_then_id_witness:
  "mixer_get_ctl (Some \<lparr>fd = 3, card_name = [], ctl = [demo_ctl demo_volume 1, demo_ctl demo_mux 2], mcount = 2\<rparr>)
     (mixer_ctl_get_id (Some (demo_ctl demo_mux 2))) = Some (demo_ctl demo_mux 2)"
proof -
  let ?m = "\<lparr>fd = 3, card_name = [], ctl = [demo_ctl demo_volume 1, demo_ctl demo_mux 2], mcount = 2\<rparr>"
  have "i = 0 \<or> i = 1" if "i < 2" for i :: nat using that by auto
  then have "mixer_ok ?m"
    by (fastforce simp: mixer_ok_def ctl_ok_def demo_ctl_def enames_ok_def enumerated_items_def elem_limit_def demo_simps)
  moreover have "mixer_get_ctl_by_name (Some ?m) ''Mux'' = Some (Some (demo_ctl demo_mux 2))"
    by (simp add: mixer_get_ctl_by_name_def demo_ctl_def demo_simps)
  ultimately show ?thesis using name_then_id by blast
qed

text \<open>
  \<^verbatim>\<open>percent_to_int\<close> maps 0 to the minimum and 100 to the maximum, stays within the
  range, is the proportional value rounded towards the minimum, and has no signed overflow
  when a hundred times the range fits in an \<^verbatim>\<open>int\<close>; a percentage outside 0..100 gives
  \<^verbatim>\<open>-EINVAL\<close>.
\<close>

theorem percent_to_int_range:
  assumes "integer_min ei \<le> integer_max ei" and "(integer_max ei - integer_min ei) * 100 < 2 ^ 31"
  shows "if 0 \<le> p \<and> p \<le> 100
    then percent_to_int ei p = Some (integer_min ei + (integer_max ei - integer_min ei) * p div 100)
       \<and> integer_min ei \<le> integer_min ei + (integer_max ei - integer_min ei) * p div 100
       \<and> integer_min ei + (integer_max ei - integer_min ei) * p div 100 \<le> integer_max ei
    else percent_to_int ei p = Some (- EINVAL)"
proof (cases "0 \<le> p \<and> p \<le> 100")
  case True
  let ?r = "integer_max ei - integer_min ei"
  have r: "0 \<le> ?r" "?r < 2 ^ 31" using assms by auto
  have p: "0 \<le> ?r * p" "?r * p \<le> ?r * 100"
    using True r mult_left_mono [of p 100 ?r] by simp_all
  have d: "0 \<le> ?r * p div 100" "?r * p div 100 \<le> ?r"
    using p zdiv_mono1 [OF p(2), of 100] by (simp_all add: pos_imp_zdiv_nonneg_iff)
  have bnd: "- (2 ^ 31) \<le> integer_min ei" "integer_max ei < 2 ^ 31"
    using sint_greater_eq [of "value_w0 ei"] sint_less [of "value_w1 ei"]
    by (simp_all add: integer_min_def integer_max_def)
  have "?r * p sdiv 100 = ?r * p div 100"
    using p(1) by (simp add: sdiv_nonneg)
  then show ?thesis
    using True r p d bnd assms by (simp add: percent_to_int_def chk_int_def in_int_def)
next
  case False
  then show ?thesis by (auto simp: percent_to_int_def)
qed

lemma percent_to_int_range_witness:
  "percent_to_int demo_volume 100 = Some 100 \<and> percent_to_int demo_volume 0 = Some 0"
  using percent_to_int_range [of demo_volume 100] percent_to_int_range [of demo_volume 0]
  by (simp add: integer_min_def integer_max_def demo_simps)

text \<open>
  \<^verbatim>\<open>int_to_percent\<close> divides before it multiplies: every value below the maximum is
  reported as 0 per cent, the maximum as 100.
\<close>

theorem int_to_percent_degenerate:
  assumes "integer_min ei \<le> v" and "v \<le> integer_max ei" and "integer_max ei - integer_min ei < 2 ^ 31"
  shows "int_to_percent ei v = Some (if v < integer_max ei \<or> integer_min ei = integer_max ei then 0 else 100)"
proof (cases "v < integer_max ei \<or> integer_min ei = integer_max ei")
  case True
  then show ?thesis using assms
    by (auto simp: int_to_percent_def chk_int_def in_int_def signed_divide_int_def div_pos_pos_trivial)
next
  case False
  then have "v = integer_max ei" "0 < integer_max ei - integer_min ei" using assms by auto
  then show ?thesis using assms
    by (simp add: int_to_percent_def chk_int_def in_int_def signed_divide_int_def)
qed

lemma int_to_percent_degenerate_witness: "int_to_percent demo_volume 99 = Some 0"
  using int_to_percent_degenerate [of demo_volume 99]
  by (simp add: integer_min_def integer_max_def demo_simps)

text \<open>
  Whole-array access reads back what it wrote: after a successful
  \<^verbatim>\<open>mixer_ctl_set_array\<close> of \<open>n\<close> elements, \<^verbatim>\<open>mixer_ctl_get_array\<close> of \<open>n\<close> elements returns 0
  and exactly the bytes written, and leaves the rest of the caller's buffer alone.
\<close>

theorem set_array_get_array:
  assumes law: "storage_law E f" and c: "mixer_fd c = Some f"
    and sz: "array_size (elem_type (info c)) = Some sz"
    and set: "mixer_ctl_set_array E (Some c) (Some xs) n k = Some (r, k')" and r: "0 \<le> r"
    and buf: "unat (sz * n) \<le> length buf"
  shows "\<exists>k1. mixer_ctl_get_array E (Some c) (Some buf) n k'
    = Some ((0, Some (take (unat (sz * n)) xs @ drop (unat (sz * n)) buf)), k1)"
proof -
  let ?b = "unat (sz * n)"
  let ?w = "\<lparr>ev_numid = numid (info c), ev_bytes = copy_in (\<lambda>_. 0) 0 (take ?b xs)\<rparr>"
  let ?ev = "zero_value\<lparr>ev_numid := numid (info c)\<rparr>"
  have g: "\<not> n > elem_count (info c)" "n \<noteq> 0" "?b \<le> 512" "?b \<le> length xs"
    and wr: "ctl_elem_write E f ?w k = (r, k')"
    using set r c sz by (auto simp: mixer_ctl_set_array_def Let_def split: if_splits)
  obtain ret1 ev1 k1 where rd1: "ctl_elem_read E f ?ev k' = ((ret1, ev1), k1)"
    by (cases "ctl_elem_read E f ?ev k'") auto
  have res: "ret1 = 0" "\<forall>i < 512. ev_bytes ev1 i = ev_bytes ?w i"
    using storage_law_write [OF law wr r rd1] by simp_all
  have "copy_out (ev_bytes ev1) ?b = take ?b xs"
    using res(2) g(3,4) by (intro nth_equalityI) (simp_all add: copy_in_def)
  then show ?thesis
    using rd1 res(1) g c sz buf by (simp add: mixer_ctl_get_array_def Let_def)
qed

lemma set_array_get_array_witness:
  "\<exists>k1. mixer_ctl_get_array (demo_card [demo_blob]) (Some (demo_ctl demo_blob 1)) (Some [9, 9, 9]) 2
     (demo_state(1 := copy_in (\<lambda>_. 0) 0 [5, 6])) = Some ((0, Some [5, 6, 9]), k1)"
proof -
  have "mixer_ctl_set_array (demo_card [demo_blob]) (Some (demo_ctl demo_blob 1)) (Some [5, 6]) 2 demo_state
      = Some (0, demo_state(1 := copy_in (\<lambda>_. 0) 0 [5, 6]))"
    by (simp add: mixer_ctl_set_array_def array_size_def demo_ctl_def demo_simps Let_def)
  then show ?thesis
    using set_array_get_array [of "demo_card [demo_blob]" 3 "demo_ctl demo_blob 1" 1 "[5, 6]" 2 demo_state 0
        "demo_state(1 := copy_in (\<lambda>_. 0) 0 [5, 6])" "[9, 9, 9]"]
    by (simp add: storage_law_demo array_size_def demo_ctl_def demo_blob_def zero_info_def)
qed

text \<open>The search over the item names, on a control whose names were all read.\<close>

lemma find_enum_names:
  assumes "\<And>j. j \<in> set is \<Longrightarrow> j < length ns" and "None \<notin> set ns"
  shows "find_enum s (Some ns) is = Some (find (\<lambda>j. ns ! j = Some s) is)"
  using assms
proof (induction "is")
  case (Cons j js)
  then have "ns ! j \<in> set ns" by simp
  with Cons show ?case by (cases "ns ! j") auto
qed simp

text \<open>
  \<^verbatim>\<open>mixer_ctl_set_enum_by_string\<close> on a control of an opened mixer: it writes the first
  item whose \<^verbatim>\<open>mixer_ctl_get_enum_string\<close> is the given string, returns the driver's error or
  0, and returns \<^verbatim>\<open>-EINVAL\<close> without any access to the driver when no item has that name.
\<close>

theorem set_enum_by_string_spec:
  assumes "ctl_ok f i c" and "elem_type (info c) = SNDRV_CTL_ELEM_TYPE_ENUMERATED"
  shows "mixer_ctl_set_enum_by_string E (Some c) s k =
    (case find (\<lambda>j. mixer_ctl_get_enum_string (Some c) (of_nat j) = Some (Some s))
            [0..<unat (mixer_ctl_get_num_enums (Some c))] of
       None \<Rightarrow> Some (- EINVAL, k)
     | Some j \<Rightarrow> Some (let (ret, k') = ctl_elem_write E f
           \<lparr>ev_numid = numid (info c), ev_bytes = put_word (\<lambda>_. 0) 0 (of_nat j)\<rparr> k
         in (if ret < 0 then ret else 0, k')))"
proof -
  let ?n = "unat (enumerated_items (info c))"
  obtain ns where ns: "ename c = Some ns" "length ns = ?n" "None \<notin> set ns"
    using assms by (auto simp: ctl_ok_def enames_ok_def split: option.splits)
  have "mixer_ctl_get_enum_string (Some c) (of_nat j) = Some (Some s) \<longleftrightarrow> ns ! j = Some s" if "j < ?n" for j
    using that ns assms(2)
    by (simp add: mixer_ctl_get_enum_string_def of_nat_below word_le_nat_alt)
  then have eq: "find (\<lambda>j. mixer_ctl_get_enum_string (Some c) (of_nat j) = Some (Some s)) [0..<?n]
      = find (\<lambda>j. ns ! j = Some s) [0..<?n]"
    by (intro find_cong) auto
  have fd: "mixer_fd c = Some f" using assms(1) by (simp add: ctl_ok_def)
  show ?thesis
    using assms(2) ns fd eq find_enum_names [of "[0..<?n]" ns s]
    by (auto simp: mixer_ctl_set_enum_by_string_def mixer_ctl_get_num_enums_def zero_value_def Let_def
        split: option.splits prod.splits)
qed

lemma set_enum_by_string_spec_witness:
  "mixer_ctl_set_enum_by_string (demo_card [demo_mux]) (Some (demo_ctl demo_mux 1)) ''c'' demo_state
    = Some (0, demo_state(1 := put_word (\<lambda>_. 0) 0 2))"
proof -
  have ok: "ctl_ok 3 0 (demo_ctl demo_mux 1)"
    by (simp add: ctl_ok_def demo_ctl_def enames_ok_def enumerated_items_def elem_limit_def demo_simps)
  have "[0..<3] = [0, 1, 2 :: nat]" by (simp add: upt_rec)
  then show ?thesis
    using set_enum_by_string_spec [OF ok, of "demo_card [demo_mux]" "''c''" demo_state]
    by (simp add: mixer_ctl_get_num_enums_def mixer_ctl_get_enum_string_def demo_ctl_def
        enumerated_items_def demo_simps word_le_nat_alt)
qed

section \<open>Where the code does not do what it means to\<close>

text \<open>
  When \<^verbatim>\<open>CARD_INFO\<close> fails, \<^verbatim>\<open>mixer->fd\<close> has not been assigned yet: \<^verbatim>\<open>mixer_close\<close> closes
  descriptor 0 and the descriptor just opened stays open.
\<close>

lemma mixer_open_card_info_failure:
  assumes "dev_open E cardno k = (f, k1)" and "0 \<le> f" and "sys_alloc E k1 = (True, k2)"
    and "ctl_card_info E f k2 = ((r, name), k3)" and "r < 0"
  shows "mixer_open E cardno k = Some (None, dev_close E 0 k3)"
  using assms by (simp add: mixer_open_def mixer_close_def Let_def)

text \<open>
  A mixer that knows one control and finds an enumerated second one stores the names through
  \<^verbatim>\<open>ctl[old_count + n]\<close>, one element behind the reallocated block.
\<close>

lemma add_controls_out_of_bounds:
  "add_controls (demo_card [demo_volume, demo_mux])
     \<lparr>fd = 3, card_name = [], ctl = [demo_ctl demo_volume 1], mcount = 1\<rparr> demo_state = None"
  by (simp add: add_controls_def mixer_realloc_z_def demo_simps demo_ctl_def zero_ctl_def Let_def
      eid_at_def word_less_nat_alt upt_rec)

end
