(* ===== verification/Config_Types.thy ===== *)
theory Config_Types
  imports Dyn_Array Mixer C_Strings
begin

text \<open>
  The data of the configuration manager (configmgr/audio_config.c lines 65-183 and
  include/tinyhal/audio_config.h). A pointer to a stream, device, path, use case or case is
  the index of the element in its table: elements are never deleted, and no table grows while
  the code holds a pointer into it. The mutex \<^verbatim>\<open>cm->lock\<close> has no counterpart; every operation
  that takes it is one step.
\<close>

section \<open>Constants of audio.h\<close>

text \<open>
  Constants and helpers of the platform's \<^verbatim>\<open>hardware/audio.h\<close>, which is not part of the
  repository. What the code relies on is \<open>audio_h_ok\<close>: the direction bit is the top bit, the
  input masks carry it and the output masks do not.
\<close>

record audio_h =
  AUDIO_DEVICE_BIT_IN :: u32
  AUDIO_DEVICE_IN_ALL :: u32
  AUDIO_DEVICE_OUT_ALL :: u32
  AUDIO_DEVICE_OUT_SPEAKER :: u32
  AUDIO_DEVICE_OUT_EARPIECE :: u32
  AUDIO_DEVICE_OUT_WIRED_HEADSET :: u32
  AUDIO_DEVICE_IN_WIRED_HEADSET :: u32
  AUDIO_DEVICE_OUT_WIRED_HEADPHONE :: u32
  AUDIO_DEVICE_OUT_ALL_SCO :: u32
  AUDIO_DEVICE_IN_ALL_SCO :: u32
  AUDIO_DEVICE_OUT_ALL_A2DP :: u32
  AUDIO_DEVICE_OUT_ALL_USB :: u32
  AUDIO_DEVICE_IN_BUILTIN_MIC :: u32
  AUDIO_DEVICE_IN_BACK_MIC :: u32
  AUDIO_DEVICE_IN_VOICE_CALL :: u32
  AUDIO_DEVICE_IN_AUX_DIGITAL :: u32
  audio_is_linear_pcm :: "u32 \<Rightarrow> bool"

definition audio_h_ok :: "audio_h \<Rightarrow> bool" where
  "audio_h_ok A \<longleftrightarrow> AUDIO_DEVICE_BIT_IN A = 0x80000000
     \<and> AUDIO_DEVICE_OUT_ALL A AND AUDIO_DEVICE_BIT_IN A = 0
     \<and> AUDIO_DEVICE_IN_ALL A AND AUDIO_DEVICE_BIT_IN A = AUDIO_DEVICE_BIT_IN A"

text \<open>The values of the platform release the repository is built against, for the witnesses.\<close>

definition demo_audio_h :: audio_h where
  "demo_audio_h = \<lparr>AUDIO_DEVICE_BIT_IN = 0x80000000, AUDIO_DEVICE_IN_ALL = 0xC01FFFFF,
     AUDIO_DEVICE_OUT_ALL = 0x43FFFFFF, AUDIO_DEVICE_OUT_SPEAKER = 2,
     AUDIO_DEVICE_OUT_EARPIECE = 1, AUDIO_DEVICE_OUT_WIRED_HEADSET = 4,
     AUDIO_DEVICE_IN_WIRED_HEADSET = 0x80000010, AUDIO_DEVICE_OUT_WIRED_HEADPHONE = 8,
     AUDIO_DEVICE_OUT_ALL_SCO = 0x70, AUDIO_DEVICE_IN_ALL_SCO = 0x80000008,
     AUDIO_DEVICE_OUT_ALL_A2DP = 0x380, AUDIO_DEVICE_OUT_ALL_USB = 0x6000,
     AUDIO_DEVICE_IN_BUILTIN_MIC = 0x80000004, AUDIO_DEVICE_IN_BACK_MIC = 0x80000080,
     AUDIO_DEVICE_IN_VOICE_CALL = 0x80000040, AUDIO_DEVICE_IN_AUX_DIGITAL = 0x80000020,
     audio_is_linear_pcm = (\<lambda>f. f AND 0xFF000000 = 0)\<rparr>"

section \<open>Controls, paths and devices\<close>

abbreviation INVALID_CTL_INDEX :: u32 where "INVALID_CTL_INDEX \<equiv> 0xFFFFFFFF"
abbreviation BYTE_ARRAY_MAX_SIZE :: u32 where "BYTE_ARRAY_MAX_SIZE \<equiv> 512"

text \<open>
  The union \<^verbatim>\<open>value\<close>: the member last stored. Reading a pointer member that was not the one
  stored is undefined.
\<close>

datatype ctl_value = Uinteger u32 | Data "u8 list" | String string

record ctl =
  c_id :: u32
  c_name :: string
  c_index :: u32
  c_array_count :: u32
  c_type :: mixer_ctl_type
  c_value :: ctl_value

definition zero_cfg_ctl :: ctl where
  "zero_cfg_ctl = \<lparr>c_id = 0, c_name = [], c_index = 0, c_array_count = 0,
     c_type = MIXER_CTL_TYPE_BOOL, c_value = Uinteger 0\<rparr>"

abbreviation e_path_id_off :: int where "e_path_id_off \<equiv> 0"
abbreviation e_path_id_on :: int where "e_path_id_on \<equiv> 1"

record path =
  p_id :: int
  p_ctl_array :: "ctl dyn_array"

definition zero_path :: path where
  "zero_path = \<lparr>p_id = 0, p_ctl_array = empty_array 0\<rparr>"

text \<open>\<^verbatim>\<open>use_count\<close> is a C \<^verbatim>\<open>int\<close>; it moves by one per routing call and is kept unbounded.\<close>

record device =
  d_type :: u32
  use_count :: int
  path_array :: "path dyn_array"

definition zero_device :: device where
  "zero_device = \<lparr>d_type = 0, use_count = 0, path_array = empty_array 0\<rparr>"

section \<open>Use cases and streams\<close>

record scase =
  sc_name :: string
  sc_ctl_array :: "ctl dyn_array"

definition zero_scase :: scase where
  "zero_scase = \<lparr>sc_name = [], sc_ctl_array = empty_array 0\<rparr>"

record usecase =
  uc_name :: string
  case_array :: "scase dyn_array"

definition zero_usecase :: usecase where
  "zero_usecase = \<lparr>uc_name = [], case_array = empty_array 0\<rparr>"

datatype stream_type = e_stream_out_pcm | e_stream_in_pcm | e_stream_out_compress
  | e_stream_in_compress | e_stream_out_hw | e_stream_in_hw | e_stream_global

record hw_stream =
  st_type :: stream_type
  card_number :: u8
  device_number :: u8
  rate :: u32
  period_size :: u32
  period_count :: u32

definition stream_is_input :: "hw_stream \<Rightarrow> bool" where
  "stream_is_input s \<longleftrightarrow> st_type s = e_stream_in_pcm \<or> st_type s = e_stream_in_compress
     \<or> st_type s = e_stream_in_hw"

record stream_control =
  v_id :: u32
  v_index :: u32
  v_min :: u32
  v_max :: u32

record stream =
  hinfo :: hw_stream
  s_name :: "string option"
  ref_count :: int
  max_ref_count :: int
  enable_path :: int
  disable_path :: int
  current_devices :: u32
  volume_left :: stream_control
  volume_right :: stream_control
  usecase_array :: "usecase dyn_array"

definition zero_control :: stream_control where
  "zero_control = \<lparr>v_id = 0, v_index = 0, v_min = 0, v_max = 0\<rparr>"

definition zero_stream :: stream where
  "zero_stream = \<lparr>hinfo = \<lparr>st_type = e_stream_out_pcm, card_number = 0, device_number = 0, rate = 0,
       period_size = 0, period_count = 0\<rparr>,
     s_name = None, ref_count = 0, max_ref_count = 0, enable_path = 0, disable_path = 0,
     current_devices = 0, volume_left = zero_control, volume_right = zero_control,
     usecase_array = empty_array 0\<rparr>"

record config_mgr =
  cm_mixer :: "mixer option"
  supported_output_devices :: u32
  supported_input_devices :: u32
  device_array :: "device dyn_array"
  stream_array :: "stream dyn_array"

section \<open>Updating the elements of a table in place\<close>

definition set_elems :: "'a dyn_array \<Rightarrow> 'a list \<Rightarrow> 'a dyn_array" where
  "set_elems array xs = array\<lparr>data := xs @ drop (length xs) (data array)\<rparr>"

lemma set_elems_frame [simp]:
  "count (set_elems a xs) = count a" "max_count (set_elems a xs) = max_count a"
  "elem_size (set_elems a xs) = elem_size a"
  by (simp_all add: set_elems_def)

lemma elems_set_elems [simp]: "length xs = unat (count a) \<Longrightarrow> elems (set_elems a xs) = xs"
  by (simp add: elems_def set_elems_def)

lemma array_ok_set_elems [simp]:
  "array_ok z a \<Longrightarrow> length xs = unat (count a) \<Longrightarrow> array_ok z (set_elems a xs)"
  by (auto simp: array_ok_def set_elems_def)

section \<open>Numbers in the configuration file\<close>

text \<open>
  \<^verbatim>\<open>string_to_uint\<close>: the return code and the number stored through \<^verbatim>\<open>result\<close>, if one is. The
  test \<^verbatim>\<open>v <= 0xFFFFFFFF\<close> is always true of a 32-bit \<^verbatim>\<open>unsigned long\<close>.
\<close>

definition string_to_uint :: "string option \<Rightarrow> int \<times> u32 option" where
  "string_to_uint str =
     (case str of None \<Rightarrow> (- ENOENT, None)
      | Some s \<Rightarrow>
          (case strtoul0 s of (v, endptr) \<Rightarrow>
             if endptr = [] \<and> endptr \<noteq> s \<and> v \<le> 0xFFFFFFFF then (0, Some v)
             else (- EINVAL, None)))"

lemma string_to_uint_codes:
  "string_to_uint s = (r, v) \<Longrightarrow> r = 0 \<and> v \<noteq> None \<or> (r = - EINVAL \<or> r = - ENOENT) \<and> v = None"
  by (auto simp: string_to_uint_def split: option.splits prod.splits if_splits)

lemma string_to_uint_ENOENT: "fst (string_to_uint s) = - ENOENT \<longleftrightarrow> s = None"
  by (auto simp: string_to_uint_def split: option.splits prod.splits)

text \<open>
  The bytes of a comma-separated list: the values of the tokens truncated to eight bits, or
  the error of the first token that is no number.
\<close>

fun convert_bytes :: "string list \<Rightarrow> int + u8 list" where
  "convert_bytes [] = Inr []"
| "convert_bytes (p # ps) =
     (case string_to_uint (Some p) of
        (r, Some v) \<Rightarrow> (case convert_bytes ps of Inl e \<Rightarrow> Inl e | Inr bs \<Rightarrow> Inr (ucast v # bs))
      | (r, None) \<Rightarrow> Inl r)"

lemma convert_bytes_length: "convert_bytes ps = Inr bs \<Longrightarrow> length bs = length ps"
  by (induction ps arbitrary: bs) (auto split: prod.splits option.splits sum.splits)

lemma convert_bytes_error: "convert_bytes ps = Inl e \<Longrightarrow> e = - EINVAL"
  by (induction ps arbitrary: e)
    (auto split: prod.splits option.splits sum.splits if_splits simp: string_to_uint_def)

definition make_byte_array :: "'k sys \<Rightarrow> ctl \<Rightarrow> mixer_ctl option \<Rightarrow> 'k \<Rightarrow> ((int \<times> ctl) \<times> 'k) option" where
  "make_byte_array E c mc k =
     (case c_value c of
        String val_str \<Rightarrow> Some (
          let vnum = mixer_ctl_get_num_values mc in
          case sys_alloc E k of (ok, k1) \<Rightarrow>
            if \<not> ok then ((- ENOMEM, c), k1)
            else if vnum > BYTE_ARRAY_MAX_SIZE then ((- EINVAL, c), k1)
            else if c_index c \<ge> vnum then ((- EINVAL, c), k1)
            else
              let tokens = strtok_all (CHR '','') val_str; n = of_nat (length tokens) in
              if c_index c + n > vnum then ((- EINVAL, c), k1)
              else
                let c1 = c\<lparr>c_array_count := n\<rparr> in
                case sys_alloc E k1 of (ok2, k2) \<Rightarrow>
                  if \<not> ok2 then ((- ENOMEM, c1), k2)
                  else case convert_bytes tokens of
                    Inl e \<Rightarrow> ((e, c1), k2)
                  | Inr bs \<Rightarrow> ((0, c1\<lparr>c_value := Data bs\<rparr>), k2))
      | _ \<Rightarrow> None)"

lemma strtok_all_length: "length (strtok_all d s) \<le> length s"
proof (induction d s rule: strtok_all.induct)
  case (1 d s)
  show ?case
  proof (cases "dropWhile (\<lambda>c. c = d) s")
    case Nil
    then have "strtok_all d s = []" by (subst strtok_all.simps) (simp only: list.case)
    then show ?thesis by simp
  next
    case (Cons c cs)
    let ?r = "dropWhile (\<lambda>c. c \<noteq> d) cs"
    have "strtok_all d s = (c # takeWhile (\<lambda>c. c \<noteq> d) cs) # strtok_all d ?r"
      using Cons by (subst strtok_all.simps) (simp only: list.case)
    moreover have "length cs < length s" using Cons length_dropWhile_le [of "\<lambda>c. c = d" s] by simp
    moreover have "length (strtok_all d ?r) \<le> length cs"
      using 1 [OF Cons] length_dropWhile_le [of "\<lambda>c. c \<noteq> d" cs] by linarith
    ultimately show ?thesis by simp
  qed
qed

text \<open>
  The bounds that make the copies of \<^verbatim>\<open>apply_ctls_l\<close> stay inside its 512-byte buffer. A C
  string is shorter than the largest object, $2^{31}$ bytes.
\<close>

lemma make_byte_array_bounds:
  assumes mk: "make_byte_array E c mc k = Some ((0, c'), k')"
    and len: "\<And>s. c_value c = String s \<Longrightarrow> length s < 2 ^ 31"
  shows "\<exists>bs. c' = c\<lparr>c_array_count := of_nat (length bs), c_value := Data bs\<rparr>
     \<and> unat (c_index c) + length bs \<le> unat (mixer_ctl_get_num_values mc)
     \<and> unat (mixer_ctl_get_num_values mc) \<le> 512"
proof -
  let ?vnum = "mixer_ctl_get_num_values mc"
  obtain s where s: "c_value c = String s" using mk by (auto simp: make_byte_array_def split: ctl_value.splits)
  let ?t = "strtok_all (CHR '','') s"
  obtain bs where g: "\<not> ?vnum > 512" "\<not> c_index c \<ge> ?vnum"
      "\<not> c_index c + of_nat (length ?t) > ?vnum"
    and bs: "convert_bytes ?t = Inr bs"
    and c': "c' = c\<lparr>c_array_count := of_nat (length ?t), c_value := Data bs\<rparr>"
    using mk s by (auto simp: make_byte_array_def Let_def split: if_splits prod.splits sum.splits
        dest: convert_bytes_error)
  have v: "unat ?vnum \<le> 512" using g(1) by (simp add: word_less_nat_alt)
  have i: "unat (c_index c) < unat ?vnum" using g(2) by (simp add: word_le_nat_alt)
  have t: "length ?t < 2 ^ 31" using strtok_all_length [of "CHR '',''" s] len [OF s] by simp
  then have "unat (of_nat (length ?t) :: u32) = length ?t" by (intro unat_of_nat32) simp
  then have "unat (c_index c + of_nat (length ?t)) = unat (c_index c) + length ?t"
    using t i v by (subst unat_add_lem [THEN iffD1]) simp_all
  then have "unat (c_index c) + length ?t \<le> unat ?vnum"
    using g(3) by (simp add: word_less_nat_alt)
  then show ?thesis using c' convert_bytes_length [OF bs] v by (intro exI [of _ bs]) simp
qed

lemma make_byte_array_defined:
  "c_value c = String s \<Longrightarrow> \<exists>r c' k'. make_byte_array E c mc k = Some ((r, c'), k')"
proof -
  assume "c_value c = String s"
  then have "make_byte_array E c mc k \<noteq> None" by (simp add: make_byte_array_def)
  then obtain x where "make_byte_array E c mc k = Some x" by blast
  then show ?thesis by (cases x) auto
qed

lemma make_byte_array_fails:
  "make_byte_array E c mc k = Some ((r, c'), k') \<Longrightarrow> r \<noteq> 0 \<Longrightarrow> c_value c' = c_value c \<and> c_id c' = c_id c"
  by (auto simp: make_byte_array_def Let_def split: ctl_value.splits if_splits prod.splits sum.splits)

end
