(* ===== verification/Routing.thy ===== *)
theory Routing
  imports Config_Types
begin

text \<open>
  Routing, stream and use-case control of configmgr/audio_config.c (lines 319-883): opening a
  configured control, writing the controls of a path, the reference-counted on and off paths
  of a device, the routing of a stream, hardware volume, and the life cycle of streams.
\<close>

section \<open>Writing controls\<close>

definition ctl_open :: "'k sys \<Rightarrow> mixer option \<Rightarrow> ctl \<Rightarrow> 'k \<Rightarrow> ((int \<times> ctl) \<times> 'k) option" where
  "ctl_open E mx pctl k =
     (if c_id pctl \<noteq> UINT_MAX then Some ((0, pctl), k)
      else do {
        mc0 \<leftarrow> mixer_get_ctl_by_name mx (c_name pctl);
        mc \<leftarrow> (if mc0 = None then mixer_get_ctl_by_name mx (c_name pctl) else Some mc0);
        (if mc = None then Some ((- ENOENT, pctl), k)
         else
           let ctl_type = mixer_ctl_get_type mc;
               opened = (\<lambda>c. c\<lparr>c_type := ctl_type, c_id := mixer_ctl_get_id mc\<rparr>)
           in case ctl_type of
             MIXER_CTL_TYPE_BYTE \<Rightarrow> do {
               let c1 = (if c_index pctl = INVALID_CTL_INDEX then pctl\<lparr>c_index := 0\<rparr> else pctl);
               ((ret, c2), k') \<leftarrow> make_byte_array E c1 mc k;
               Some (if ret \<noteq> 0 then ((ret, c2), k') else ((0, opened c2), k'))
             }
           | MIXER_CTL_TYPE_ENUM \<Rightarrow> Some ((0, opened pctl), k)
           | _ \<Rightarrow>
               if ctl_type = MIXER_CTL_TYPE_BOOL \<or> ctl_type = MIXER_CTL_TYPE_INT then
                 (case c_value pctl of
                    String val_str \<Rightarrow>
                      (case string_to_uint (Some val_str) of
                         (r, Some v) \<Rightarrow> Some ((0, opened (pctl\<lparr>c_value := Uinteger v\<rparr>)), k)
                       | (r, None) \<Rightarrow> Some ((- EINVAL, pctl), k))
                  | _ \<Rightarrow> None)
               else Some ((- EINVAL, pctl), k))
      })"

text \<open>The loop over the values of a control without an index (lines 418-423).\<close>

fun set_all_values ::
  "'k sys \<Rightarrow> mixer_ctl option \<Rightarrow> int \<Rightarrow> nat list \<Rightarrow> 'k \<Rightarrow> 'k option" where
  "set_all_values E mc v [] k = Some k"
| "set_all_values E mc v (vnum # vnums) k = do {
     (err, k') \<leftarrow> mixer_ctl_set_value E mc (of_nat vnum) v k;
     (if err < 0 then Some k' else set_all_values E mc v vnums k')
   }"

text \<open>
  The body of the loop of \<^verbatim>\<open>apply_ctls_l\<close> for an open control. \<open>ctl_data\<close> is the 512-byte
  buffer on the stack, whose contents are those left by the previous iteration.
\<close>

definition apply_ctl ::
  "'k sys \<Rightarrow> mixer option \<Rightarrow> ctl \<Rightarrow> u8 list \<Rightarrow> 'k \<Rightarrow> (u8 list \<times> 'k) option" where
  "apply_ctl E mx pctl ctl_data k =
     (let mc = mixer_get_ctl mx (c_id pctl) in
      case mixer_ctl_get_type mc of
        MIXER_CTL_TYPE_BYTE \<Rightarrow>
          (case c_value pctl of
             Data bs \<Rightarrow>
               let vnum = mixer_ctl_get_num_values mc in
               if c_index pctl = 0 \<and> c_array_count pctl = vnum then do {
                 (err, k') \<leftarrow> mixer_ctl_set_array E mc (Some bs) (c_array_count pctl) k;
                 Some (ctl_data, k')
               }
               else do {
                 ((err, buf), k') \<leftarrow> mixer_ctl_get_array E mc (Some ctl_data) vnum k;
                 ctl_data1 \<leftarrow> buf;
                 (if err \<ge> 0 then
                    let i = unat (c_index pctl); n = unat (c_array_count pctl) in
                    if i + n \<le> length ctl_data1 \<and> n \<le> length bs then do {
                      let ctl_data2 = take i ctl_data1 @ take n bs @ drop (i + n) ctl_data1;
                      (err2, k2) \<leftarrow> mixer_ctl_set_array E mc (Some ctl_data2) vnum k';
                      Some (ctl_data2, k2)
                    }
                    else None
                  else Some (ctl_data1, k'))
               }
           | _ \<Rightarrow> None)
      | MIXER_CTL_TYPE_ENUM \<Rightarrow>
          (case c_value pctl of
             String s \<Rightarrow> do {
               (err, k') \<leftarrow> mixer_ctl_set_enum_by_string E mc s k;
               Some (ctl_data, k')
             }
           | _ \<Rightarrow> None)
      | t \<Rightarrow>
          if t = MIXER_CTL_TYPE_BOOL \<or> t = MIXER_CTL_TYPE_INT then
            (case c_value pctl of
               Uinteger v \<Rightarrow>
                 if c_index pctl = INVALID_CTL_INDEX then do {
                   k' \<leftarrow> set_all_values E mc (sint v) [0..<unat (mixer_ctl_get_num_values mc)] k;
                   Some (ctl_data, k')
                 }
                 else do {
                   (err, k') \<leftarrow> mixer_ctl_set_value E mc (c_index pctl) (sint v) k;
                   Some (ctl_data, k')
                 }
             | _ \<Rightarrow> None)
          else Some (ctl_data, k))"

fun apply_ctls_loop ::
  "'k sys \<Rightarrow> mixer option \<Rightarrow> ctl list \<Rightarrow> u8 list \<Rightarrow> 'k \<Rightarrow> (ctl list \<times> 'k) option" where
  "apply_ctls_loop E mx [] ctl_data k = Some ([], k)"
| "apply_ctls_loop E mx (pctl # rest) ctl_data k = do {
     ((r, pctl'), k1) \<leftarrow> ctl_open E mx pctl k;
     (if r \<noteq> 0 then Some (pctl' # rest, k1)
      else do {
        (ctl_data', k2) \<leftarrow> apply_ctl E mx pctl' ctl_data k1;
        (rest', k3) \<leftarrow> apply_ctls_loop E mx rest ctl_data' k2;
        Some (pctl' # rest', k3)
      })
   }"

definition apply_ctls_l :: "'k sys \<Rightarrow> mixer option \<Rightarrow> ctl list \<Rightarrow> 'k \<Rightarrow> (ctl list \<times> 'k) option" where
  "apply_ctls_l E mx ctls k = apply_ctls_loop E mx ctls (replicate 512 0) k"

definition apply_path_l :: "'k sys \<Rightarrow> mixer option \<Rightarrow> path \<Rightarrow> 'k \<Rightarrow> (path \<times> 'k) option" where
  "apply_path_l E mx path k = do {
     (cs, k') \<leftarrow> apply_ctls_l E mx (elems (p_ctl_array path)) k;
     Some (path\<lparr>p_ctl_array := set_elems (p_ctl_array path) cs\<rparr>, k')
   }"

section \<open>Devices\<close>

text \<open>\<^verbatim>\<open>path\<close> is the index \<open>i\<close> of a path of the device.\<close>

definition apply_device_path_l ::
  "'k sys \<Rightarrow> mixer option \<Rightarrow> device \<Rightarrow> nat \<Rightarrow> 'k \<Rightarrow> (device \<times> 'k) option" where
  "apply_device_path_l E mx pdev i k =
     (let path = elems (path_array pdev) ! i;
          uc = (if p_id path = e_path_id_off then use_count pdev - 1
                else if p_id path = e_path_id_on then use_count pdev + 1
                else use_count pdev);
          pdev1 = pdev\<lparr>use_count := uc\<rparr>
      in if p_id path = e_path_id_off \<and> uc > 0 then Some (pdev1, k)
         else if p_id path = e_path_id_on \<and> uc > 1 then Some (pdev1, k)
         else do {
           (path', k') \<leftarrow> apply_path_l E mx path k;
           Some (pdev1\<lparr>path_array := set_elem (path_array pdev1) i path'\<rparr>, k')
         })"

text \<open>The single walk that looks for both paths: \<open>i\<close> is the index of the list's first path.\<close>

fun find_paths ::
  "int \<Rightarrow> int \<Rightarrow> nat \<Rightarrow> path list \<Rightarrow> nat option \<times> nat option \<Rightarrow> nat option \<times> nat option" where
  "find_paths first_id second_id i [] found = found"
| "find_paths first_id second_id i (ppath # rest) (f0, f1) =
     (if p_id ppath = first_id then
        if f1 \<noteq> None \<or> first_id = second_id then (Some i, f1)
        else find_paths first_id second_id (Suc i) rest (Some i, f1)
      else if p_id ppath = second_id then
        if f0 \<noteq> None then (f0, Some i)
        else find_paths first_id second_id (Suc i) rest (f0, Some i)
      else find_paths first_id second_id (Suc i) rest (f0, f1))"

definition apply_found ::
  "'k sys \<Rightarrow> mixer option \<Rightarrow> nat option \<Rightarrow> device \<Rightarrow> 'k \<Rightarrow> (device \<times> 'k) option" where
  "apply_found E mx found pdev k =
     (case found of None \<Rightarrow> Some (pdev, k) | Some i \<Rightarrow> apply_device_path_l E mx pdev i k)"

definition apply_paths_by_id_l ::
  "'k sys \<Rightarrow> mixer option \<Rightarrow> device \<Rightarrow> int \<Rightarrow> int \<Rightarrow> 'k \<Rightarrow> (device \<times> 'k) option" where
  "apply_paths_by_id_l E mx pdev first_id second_id k =
     (case find_paths first_id second_id 0 (elems (path_array pdev)) (None, None) of (f0, f1) \<Rightarrow> do {
        (pdev1, k1) \<leftarrow> apply_found E mx f0 pdev k;
        apply_found E mx f1 pdev1 k1
      })"

fun apply_paths_loop ::
  "'k sys \<Rightarrow> mixer option \<Rightarrow> u32 \<Rightarrow> u32 \<Rightarrow> int \<Rightarrow> int \<Rightarrow> device list \<Rightarrow> 'k
     \<Rightarrow> (device list \<times> 'k) option" where
  "apply_paths_loop E mx input_flag devices first_id second_id [] k = Some ([], k)"
| "apply_paths_loop E mx input_flag devices first_id second_id (pdev # rest) k =
     (if devices = 0 then Some (pdev # rest, k)
      else if d_type pdev AND input_flag = input_flag \<and> d_type pdev AND devices \<noteq> 0 then do {
        (pdev', k1) \<leftarrow> apply_paths_by_id_l E mx pdev first_id second_id k;
        (rest', k2) \<leftarrow> apply_paths_loop E mx input_flag (devices AND NOT (d_type pdev))
                        first_id second_id rest k1;
        Some (pdev' # rest', k2)
      }
      else do {
        (rest', k2) \<leftarrow> apply_paths_loop E mx input_flag devices first_id second_id rest k;
        Some (pdev # rest', k2)
      })"

definition apply_paths_to_devices_l ::
  "'k sys \<Rightarrow> audio_h \<Rightarrow> config_mgr \<Rightarrow> u32 \<Rightarrow> int \<Rightarrow> int \<Rightarrow> 'k \<Rightarrow> (config_mgr \<times> 'k) option" where
  "apply_paths_to_devices_l E A cm devices first_id second_id k = do {
     (ds, k') \<leftarrow> apply_paths_loop E (cm_mixer cm) (devices AND AUDIO_DEVICE_BIT_IN A)
        (devices AND NOT (AUDIO_DEVICE_BIT_IN A)) first_id second_id (elems (device_array cm)) k;
     Some (cm\<lparr>device_array := set_elems (device_array cm) ds\<rparr>, k')
   }"

fun apply_global_loop ::
  "'k sys \<Rightarrow> mixer option \<Rightarrow> int \<Rightarrow> int \<Rightarrow> device list \<Rightarrow> 'k \<Rightarrow> (device list \<times> 'k) option" where
  "apply_global_loop E mx first_id second_id [] k = Some ([], k)"
| "apply_global_loop E mx first_id second_id (pdev # rest) k =
     (if d_type pdev = 0 then do {
        (pdev', k') \<leftarrow> apply_paths_by_id_l E mx pdev first_id second_id k;
        Some (pdev' # rest, k')
      }
      else do {
        (rest', k') \<leftarrow> apply_global_loop E mx first_id second_id rest k;
        Some (pdev # rest', k')
      })"

definition apply_paths_to_global_l ::
  "'k sys \<Rightarrow> config_mgr \<Rightarrow> int \<Rightarrow> int \<Rightarrow> 'k \<Rightarrow> (config_mgr \<times> 'k) option" where
  "apply_paths_to_global_l E cm first_id second_id k = do {
     (ds, k') \<leftarrow> apply_global_loop E (cm_mixer cm) first_id second_id (elems (device_array cm)) k;
     Some (cm\<lparr>device_array := set_elems (device_array cm) ds\<rparr>, k')
   }"

section \<open>Routing a stream\<close>

definition get_stream_at :: "config_mgr \<Rightarrow> nat \<Rightarrow> stream" where
  "get_stream_at cm i = elems (stream_array cm) ! i"

definition put_stream_at :: "config_mgr \<Rightarrow> nat \<Rightarrow> stream \<Rightarrow> config_mgr" where
  "put_stream_at cm i s = cm\<lparr>stream_array := set_elem (stream_array cm) i s\<rparr>"

definition get_current_routes :: "config_mgr \<Rightarrow> nat \<Rightarrow> u32" where
  "get_current_routes cm i = current_devices (get_stream_at cm i)"

definition get_routed_devices :: "config_mgr \<Rightarrow> nat \<Rightarrow> u32" where
  "get_routed_devices cm i = current_devices (get_stream_at cm i)"

text \<open>
  The devices that \<^verbatim>\<open>apply_route\<close> will store, \<open>None\<close> when it refuses the request because the
  direction of the devices is not the stream's.
\<close>

definition route_devices :: "audio_h \<Rightarrow> stream \<Rightarrow> u32 \<Rightarrow> u32 option" where
  "route_devices A s devices =
     (if devices \<noteq> 0 then
        if devices AND AUDIO_DEVICE_BIT_IN A \<noteq> 0 then
          if \<not> stream_is_input (hinfo s) then None
          else Some ((devices AND AUDIO_DEVICE_IN_ALL A) OR AUDIO_DEVICE_BIT_IN A)
        else if stream_is_input (hinfo s) then None
        else Some (devices AND AUDIO_DEVICE_OUT_ALL A)
      else Some devices)"

definition apply_route ::
  "'k sys \<Rightarrow> audio_h \<Rightarrow> config_mgr \<Rightarrow> nat \<Rightarrow> u32 \<Rightarrow> 'k \<Rightarrow> (config_mgr \<times> 'k) option" where
  "apply_route E A cm i devices k =
     (let s = get_stream_at cm i;
          enabling = devices AND NOT (current_devices s);
          disabling = NOT devices AND current_devices s
      in case route_devices A s devices of
           None \<Rightarrow> Some (cm, k)
         | Some devices' \<Rightarrow> do {
             (cm1, k1) \<leftarrow> apply_paths_to_devices_l E A cm disabling (disable_path s) e_path_id_off k;
             (cm2, k2) \<leftarrow> apply_paths_to_devices_l E A cm1 enabling e_path_id_on (enable_path s) k1;
             Some (put_stream_at cm2 i (get_stream_at cm2 i\<lparr>current_devices := devices'\<rparr>), k2)
           })"

section \<open>Hardware volume\<close>

definition vol_value :: "stream_control \<Rightarrow> u32 \<Rightarrow> u32" where
  "vol_value volctl percent =
     (if percent = 0 then v_min volctl
      else if percent = 100 then v_max volctl
      else v_min volctl + (percent * (v_max volctl - v_min volctl)) div 100)"

definition set_vol_ctl ::
  "'k sys \<Rightarrow> config_mgr \<Rightarrow> stream_control \<Rightarrow> u32 \<Rightarrow> 'k \<Rightarrow> (int \<times> 'k) option" where
  "set_vol_ctl E cm volctl percent k = do {
     (_, k') \<leftarrow> mixer_ctl_set_value E (mixer_get_ctl (cm_mixer cm) (v_id volctl)) (v_index volctl)
        (sint (vol_value volctl percent)) k;
     Some (0, k')
   }"

definition set_hw_volume ::
  "'k sys \<Rightarrow> config_mgr \<Rightarrow> nat \<Rightarrow> int \<Rightarrow> int \<Rightarrow> 'k \<Rightarrow> (int \<times> 'k) option" where
  "set_hw_volume E cm i left_pc right_pc k = do {
     let s = get_stream_at cm i;
     (ret, k1) \<leftarrow>
       (if v_id (volume_left s) \<noteq> UINT_MAX then do {
          left \<leftarrow> (if v_id (volume_right s) = UINT_MAX
                   then map_option (\<lambda>t. t sdiv 2) (chk_int (left_pc + right_pc))
                   else Some left_pc);
          set_vol_ctl E cm (volume_left s) (word_of_int left) k
        }
        else Some (- ENOSYS, k));
     (if v_id (volume_right s) \<noteq> UINT_MAX
      then set_vol_ctl E cm (volume_right s) (word_of_int right_pc) k1
      else Some (ret, k1))
   }"

section \<open>Streams\<close>

text \<open>The index of the first stream with the name.\<close>

fun find_named_loop :: "string \<Rightarrow> nat \<Rightarrow> stream list \<Rightarrow> nat option" where
  "find_named_loop name i [] = None"
| "find_named_loop name i (s # rest) =
     (case s_name s of
        Some n \<Rightarrow> if n = name then Some i else find_named_loop name (Suc i) rest
      | None \<Rightarrow> find_named_loop name (Suc i) rest)"

definition find_named_stream :: "config_mgr \<Rightarrow> string \<Rightarrow> nat option" where
  "find_named_stream cm name = find_named_loop name 0 (elems (stream_array cm))"

definition open_stream_l :: "'k sys \<Rightarrow> config_mgr \<Rightarrow> nat \<Rightarrow> 'k \<Rightarrow> ((bool \<times> config_mgr) \<times> 'k) option" where
  "open_stream_l E cm i k =
     (let s = get_stream_at cm i in
      if ref_count s < max_ref_count s then do {
        let s1 = s\<lparr>ref_count := ref_count s + 1\<rparr>;
        let cm1 = put_stream_at cm i s1;
        (cm2, k') \<leftarrow> (if ref_count s1 = 1 then apply_paths_to_global_l E cm1 e_path_id_on (enable_path s1) k
                      else Some (cm1, k));
        Some ((True, cm2), k')
      }
      else Some ((False, cm), k))"

text \<open>The search of \<^verbatim>\<open>get_stream\<close>, from the last stream to the first: \<open>i\<close> streams are left.\<close>

fun get_stream_loop ::
  "'k sys \<Rightarrow> config_mgr \<Rightarrow> stream_type \<Rightarrow> nat \<Rightarrow> 'k \<Rightarrow> ((nat option \<times> config_mgr) \<times> 'k) option" where
  "get_stream_loop E cm t 0 k = Some ((None, cm), k)"
| "get_stream_loop E cm t (Suc i) k =
     (if st_type (hinfo (get_stream_at cm i)) = t then do {
        ((ok, cm'), k') \<leftarrow> open_stream_l E cm i k;
        (if ok then Some ((Some i, cm'), k') else get_stream_loop E cm' t i k')
      }
      else get_stream_loop E cm t i k)"

definition wanted_type :: "audio_h \<Rightarrow> u32 \<Rightarrow> u32 \<Rightarrow> stream_type" where
  "wanted_type A devices format =
     (let pcm = audio_is_linear_pcm A format in
      if devices AND AUDIO_DEVICE_BIT_IN A \<noteq> 0
      then (if pcm then e_stream_in_pcm else e_stream_in_compress)
      else (if pcm then e_stream_out_pcm else e_stream_out_compress))"

definition get_stream ::
  "'k sys \<Rightarrow> audio_h \<Rightarrow> config_mgr \<Rightarrow> u32 \<Rightarrow> u32 \<Rightarrow> 'k \<Rightarrow> ((nat option \<times> config_mgr) \<times> 'k) option" where
  "get_stream E A cm devices format k =
     get_stream_loop E cm (wanted_type A devices format) (unat (count (stream_array cm))) k"

definition get_named_stream ::
  "'k sys \<Rightarrow> config_mgr \<Rightarrow> string \<Rightarrow> 'k \<Rightarrow> ((nat option \<times> config_mgr) \<times> 'k) option" where
  "get_named_stream E cm name k =
     (case find_named_stream cm name of
        None \<Rightarrow> Some ((None, cm), k)
      | Some i \<Rightarrow> do {
          ((ok, cm'), k') \<leftarrow> open_stream_l E cm i k;
          Some ((if ok then Some i else None, cm'), k')
        })"

definition is_named_stream_defined :: "config_mgr \<Rightarrow> string \<Rightarrow> bool" where
  "is_named_stream_defined cm name \<longleftrightarrow> find_named_stream cm name \<noteq> None"

definition release_stream ::
  "'k sys \<Rightarrow> audio_h \<Rightarrow> config_mgr \<Rightarrow> nat option \<Rightarrow> 'k \<Rightarrow> (config_mgr \<times> 'k) option" where
  "release_stream E A cm stream k =
     (case stream of None \<Rightarrow> Some (cm, k)
      | Some i \<Rightarrow>
         let s = get_stream_at cm i;
             s1 = s\<lparr>ref_count := ref_count s - 1\<rparr>;
             cm1 = put_stream_at cm i s1
         in if ref_count s1 = 0 then do {
              (cm2, k2) \<leftarrow> apply_paths_to_devices_l E A cm1 (current_devices s1)
                 e_path_id_off (disable_path s1) k;
              (cm3, k3) \<leftarrow> apply_paths_to_global_l E cm2 (disable_path s1) e_path_id_off k2;
              Some (put_stream_at cm3 i (get_stream_at cm3 i\<lparr>current_devices := 0\<rparr>), k3)
            }
            else Some (cm1, k))"

definition get_supported_output_devices :: "config_mgr \<Rightarrow> u32" where
  "get_supported_output_devices cm = supported_output_devices cm"

definition get_supported_input_devices :: "config_mgr \<Rightarrow> u32" where
  "get_supported_input_devices cm = supported_input_devices cm"

section \<open>Use cases\<close>

text \<open>
  The two nested searches: the index of the first pair of a use case named \<open>setting\<close> and one
  of its cases named \<open>case_name\<close>.
\<close>

fun find_case :: "string \<Rightarrow> nat \<Rightarrow> scase list \<Rightarrow> nat option" where
  "find_case case_name j [] = None"
| "find_case case_name j (sc # rest) =
     (if sc_name sc = case_name then Some j else find_case case_name (Suc j) rest)"

fun find_use_case :: "string \<Rightarrow> string \<Rightarrow> nat \<Rightarrow> usecase list \<Rightarrow> (nat \<times> nat) option" where
  "find_use_case setting case_name i [] = None"
| "find_use_case setting case_name i (uc # rest) =
     (if uc_name uc = setting then
        (case find_case case_name 0 (elems (case_array uc)) of
           Some j \<Rightarrow> Some (i, j)
         | None \<Rightarrow> find_use_case setting case_name (Suc i) rest)
      else find_use_case setting case_name (Suc i) rest)"

definition put_case_ctls :: "stream \<Rightarrow> nat \<Rightarrow> nat \<Rightarrow> ctl list \<Rightarrow> stream" where
  "put_case_ctls s i j cs =
     (let uc = elems (usecase_array s) ! i; sc = elems (case_array uc) ! j;
          sc' = sc\<lparr>sc_ctl_array := set_elems (sc_ctl_array sc) cs\<rparr>
      in s\<lparr>usecase_array := set_elem (usecase_array s) i
             (uc\<lparr>case_array := set_elem (case_array uc) j sc'\<rparr>)\<rparr>)"

definition apply_use_case ::
  "'k sys \<Rightarrow> config_mgr \<Rightarrow> nat \<Rightarrow> string \<Rightarrow> string \<Rightarrow> 'k \<Rightarrow> ((int \<times> config_mgr) \<times> 'k) option" where
  "apply_use_case E cm n setting case_name k =
     (let s = get_stream_at cm n in
      case find_use_case setting case_name 0 (elems (usecase_array s)) of
        None \<Rightarrow> Some ((- ENOSYS, cm), k)
      | Some (i, j) \<Rightarrow> do {
          (cs, k') \<leftarrow> apply_ctls_l E (cm_mixer cm)
             (elems (sc_ctl_array (elems (case_array (elems (usecase_array s) ! i)) ! j))) k;
          Some ((0, put_stream_at cm n (put_case_ctls s i j cs)), k')
        })"

section \<open>Well-formed configurations\<close>

text \<open>
  A configured control either still waits for its mixer control and holds the string of the
  configuration file, or refers to a control of the mixer and holds a value of its type; a
  byte array fits in the control and in the 512-byte buffer.
\<close>

definition value_matches :: "mixer_ctl \<Rightarrow> ctl \<Rightarrow> bool" where
  "value_matches mc c \<longleftrightarrow>
     (case (mixer_ctl_get_type (Some mc), c_value c) of
        (MIXER_CTL_TYPE_BOOL, Uinteger _) \<Rightarrow> True
      | (MIXER_CTL_TYPE_INT, Uinteger _) \<Rightarrow> True
      | (MIXER_CTL_TYPE_ENUM, String _) \<Rightarrow> True
      | (MIXER_CTL_TYPE_BYTE, Data bs) \<Rightarrow>
          c_array_count c = of_nat (length bs) \<and>
          unat (c_index c) + length bs \<le> unat (elem_count (info mc)) \<and> unat (elem_count (info mc)) \<le> 512
      | _ \<Rightarrow> False)"

definition ctl_wf :: "mixer \<Rightarrow> ctl \<Rightarrow> bool" where
  "ctl_wf m c \<longleftrightarrow>
     (if c_id c = UINT_MAX then (case c_value c of String s \<Rightarrow> length s < 2 ^ 31 | _ \<Rightarrow> False)
      else (case mixer_get_ctl (Some m) (c_id c) of
              None \<Rightarrow> False
            | Some mc \<Rightarrow> c_type c = mixer_ctl_get_type (Some mc) \<and> value_matches mc c))"

lemma mixer_ok_ctl:
  assumes "mixer_ok m" and "mixer_get_ctl (Some m) i = Some c"
  shows "ctl_ok (fd m) (unat i) c \<and> i \<noteq> UINT_MAX"
proof -
  have i: "unat i < unat (mcount m)" "c = ctl m ! unat i"
    using assms(2) by (auto simp: mixer_get_ctl_def word_less_nat_alt split: if_splits)
  moreover have "i \<noteq> UINT_MAX"
    using i(1) unsigned_less [of "mcount m", where ?'a = nat] by auto
  ultimately show ?thesis using assms(1) unfolding mixer_ok_def by blast
qed

lemma mixer_ctl_types:
  "mixer_ctl_get_type (Some c) = MIXER_CTL_TYPE_BOOL \<longleftrightarrow> elem_type (info c) = SNDRV_CTL_ELEM_TYPE_BOOLEAN"
  "mixer_ctl_get_type (Some c) = MIXER_CTL_TYPE_INT \<longleftrightarrow> elem_type (info c) = SNDRV_CTL_ELEM_TYPE_INTEGER"
  "mixer_ctl_get_type (Some c) = MIXER_CTL_TYPE_ENUM \<longleftrightarrow> elem_type (info c) = SNDRV_CTL_ELEM_TYPE_ENUMERATED"
  "mixer_ctl_get_type (Some c) = MIXER_CTL_TYPE_BYTE \<longleftrightarrow> elem_type (info c) = SNDRV_CTL_ELEM_TYPE_BYTES"
  by (auto simp: mixer_ctl_get_type_def Let_def)

section \<open>No operation on a control leaves its memory\<close>

lemma set_value_defined:
  assumes "ctl_ok f n c"
  shows "\<exists>r k'. mixer_ctl_set_value E (Some c) i v k = Some (r, k')"
proof (cases "elem_count (info c) \<le> i")
  case True
  then show ?thesis by (simp add: mixer_ctl_set_value_def)
next
  case False
  then have "unat i < elem_limit (elem_type (info c))"
    using assms by (simp add: word_le_nat_alt ctl_ok_def)
  moreover have "mixer_fd c = Some f" using assms by (simp add: ctl_ok_def)
  moreover obtain ret ev k1 where
    "ctl_elem_read E f (zero_value\<lparr>ev_numid := numid (info c)\<rparr>) k = ((ret, ev), k1)"
    by (cases "ctl_elem_read E f (zero_value\<lparr>ev_numid := numid (info c)\<rparr>) k") auto
  ultimately show ?thesis
    by (auto simp: mixer_ctl_set_value_def Let_def elem_limit_def split: if_splits)
qed

lemma set_all_values_defined:
  assumes "ctl_ok f n c"
  shows "\<exists>k'. set_all_values E (Some c) v is k = Some k'"
proof (induction "is" arbitrary: k)
  case (Cons i js)
  obtain r k1 where "mixer_ctl_set_value E (Some c) (of_nat i) v k = Some (r, k1)"
    using set_value_defined [OF assms, of E "of_nat i" v k] by blast
  then show ?case using Cons by simp
qed simp

lemma set_array_defined:
  assumes "ctl_ok f n c" and "elem_type (info c) = SNDRV_CTL_ELEM_TYPE_BYTES"
    and "unat num \<le> 512" and "unat num \<le> length xs"
  shows "\<exists>r k'. mixer_ctl_set_array E (Some c) (Some xs) num k = Some (r, k')"
  using assms by (auto simp: mixer_ctl_set_array_def array_size_def ctl_ok_def Let_def)

lemma get_array_defined:
  assumes "ctl_ok f n c" and "elem_type (info c) = SNDRV_CTL_ELEM_TYPE_BYTES"
    and "unat num \<le> 512" and "unat num \<le> length xs"
  shows "\<exists>r ys k'. mixer_ctl_get_array E (Some c) (Some xs) num k = Some ((r, Some ys), k')
           \<and> length ys = length xs"
proof -
  obtain ret ev k1 where
    "ctl_elem_read E f (zero_value\<lparr>ev_numid := numid (info c)\<rparr>) k = ((ret, ev), k1)"
    by (cases "ctl_elem_read E f (zero_value\<lparr>ev_numid := numid (info c)\<rparr>) k") auto
  then show ?thesis
    using assms by (auto simp: mixer_ctl_get_array_def array_size_def ctl_ok_def Let_def)
qed

lemma set_enum_defined:
  assumes "ctl_ok f n c" and "elem_type (info c) = SNDRV_CTL_ELEM_TYPE_ENUMERATED"
  shows "\<exists>r k'. mixer_ctl_set_enum_by_string E (Some c) s k = Some (r, k')"
proof -
  let ?n = "unat (enumerated_items (info c))"
  obtain ns where ns: "ename c = Some ns" "length ns = ?n" "None \<notin> set ns" "mixer_fd c = Some f"
    using assms by (auto simp: ctl_ok_def enames_ok_def split: option.splits)
  show ?thesis
    using assms(2) ns find_enum_names [of "[0..<?n]" ns s]
    by (auto simp: mixer_ctl_set_enum_by_string_def Let_def split: option.splits prod.splits)
qed

lemma apply_scalar_defined:
  assumes mc: "mixer_get_ctl (Some m) (c_id c) = Some mc" and ok: "ctl_ok f n mc"
    and ty: "mixer_ctl_get_type (Some mc) \<in> {MIXER_CTL_TYPE_BOOL, MIXER_CTL_TYPE_INT}"
    and val: "value_matches mc c"
  shows "\<exists>k'. apply_ctl E (Some m) c buf k = Some (buf, k')"
proof -
  obtain v where v: "c_value c = Uinteger v"
    using ty val by (auto simp: value_matches_def split: ctl_value.splits)
  obtain k1 where all:
    "set_all_values E (Some mc) (sint v) [0..<unat (mixer_ctl_get_num_values (Some mc))] k = Some k1"
    using set_all_values_defined [OF ok, of E "sint v"] by blast
  obtain r k2 where one: "mixer_ctl_set_value E (Some mc) (c_index c) (sint v) k = Some (r, k2)"
    using set_value_defined [OF ok, of E "c_index c" "sint v" k] by blast
  show ?thesis
    using ty mc v all one by (cases "c_index c = INVALID_CTL_INDEX") (auto simp: apply_ctl_def Let_def)
qed

lemma apply_ctl_defined:
  assumes m: "mixer_ok m" and wf: "ctl_wf m c" and id: "c_id c \<noteq> UINT_MAX" and buf: "length buf = 512"
  shows "\<exists>buf' k'. apply_ctl E (Some m) c buf k = Some (buf', k') \<and> length buf' = 512"
proof -
  obtain mc where mc: "mixer_get_ctl (Some m) (c_id c) = Some mc" and val: "value_matches mc c"
    using wf id by (auto simp: ctl_wf_def split: option.splits)
  note ok = mixer_ok_ctl [OF m mc]
  show ?thesis
  proof (cases "mixer_ctl_get_type (Some mc)")
    case MIXER_CTL_TYPE_BYTE
    then have ty: "elem_type (info mc) = SNDRV_CTL_ELEM_TYPE_BYTES" by (simp add: mixer_ctl_types)
    obtain bs where bs: "c_value c = Data bs" "c_array_count c = of_nat (length bs)"
      "unat (c_index c) + length bs \<le> unat (elem_count (info mc))" "unat (elem_count (info mc)) \<le> 512"
      using val MIXER_CTL_TYPE_BYTE by (auto simp: value_matches_def split: ctl_value.splits)
    have n: "unat (c_array_count c) = length bs" using bs(2-4) by (simp add: unat_of_nat32)
    let ?v = "elem_count (info mc)"
    obtain r k1 where set1: "mixer_ctl_set_array E (Some mc) (Some bs) (c_array_count c) k = Some (r, k1)"
      using set_array_defined [of "fd m" _ mc "c_array_count c" bs E k] ok ty bs n by fastforce
    obtain r' ys k2 where get: "mixer_ctl_get_array E (Some mc) (Some buf) ?v k = Some ((r', Some ys), k2)"
      and ys: "length ys = 512"
      using get_array_defined [of "fd m" _ mc ?v buf E k] ok ty bs buf by fastforce
    let ?ys = "take (unat (c_index c)) ys @ bs @ drop (unat (c_index c) + length bs) ys"
    have lys: "length ?ys = 512" using ys bs by simp
    obtain r2 k3 where "mixer_ctl_set_array E (Some mc) (Some ?ys) ?v k2 = Some (r2, k3)"
      using set_array_defined [of "fd m" _ mc ?v ?ys E k2] ok ty bs lys by fastforce
    then show ?thesis
      using mc MIXER_CTL_TYPE_BYTE bs(1,3,4) n set1 get ys lys buf
      by (cases "c_index c = 0 \<and> c_array_count c = ?v")
        (auto simp: apply_ctl_def Let_def mixer_ctl_get_num_values_def)
  next
    case MIXER_CTL_TYPE_ENUM
    then obtain str where str: "c_value c = String str"
      using val by (auto simp: value_matches_def split: ctl_value.splits)
    obtain r k' where "mixer_ctl_set_enum_by_string E (Some mc) str k = Some (r, k')"
      using set_enum_defined [of "fd m" _ mc E str k] ok MIXER_CTL_TYPE_ENUM mixer_ctl_types(3) by blast
    then show ?thesis using mc MIXER_CTL_TYPE_ENUM str buf by (simp add: apply_ctl_def Let_def)
  next
    case MIXER_CTL_TYPE_BOOL
    then show ?thesis
      using apply_scalar_defined [OF mc, of "fd m" "unat (c_id c)" E buf k] val ok buf
      by (auto simp: mixer_ctl_types)
  next
    case MIXER_CTL_TYPE_INT
    then show ?thesis
      using apply_scalar_defined [OF mc, of "fd m" "unat (c_id c)" E buf k] val ok buf
      by (auto simp: mixer_ctl_types)
  qed (use val in \<open>auto simp: value_matches_def split: ctl_value.splits\<close>)
qed

lemma value_matches_opened [simp]:
  "value_matches mc (c\<lparr>c_type := t, c_id := i\<rparr>) = value_matches mc c"
  by (cases "mixer_ctl_get_type (Some mc)"; cases "c_value c") (simp_all add: value_matches_def)

text \<open>Opening a control keeps it well formed; when it succeeds the control is open.\<close>

lemma ctl_open_wf:
  assumes m: "mixer_ok m" and wf: "ctl_wf m c"
  shows "\<exists>r c' k'. ctl_open E (Some m) c k = Some ((r, c'), k') \<and> ctl_wf m c'
    \<and> (r = 0 \<longrightarrow> c_id c' \<noteq> UINT_MAX)"
proof (cases "c_id c = UINT_MAX")
  case False
  then show ?thesis using wf by (simp add: ctl_open_def)
next
  case True
  then obtain str where str: "c_value c = String str" and len: "length str < 2 ^ 31"
    using wf by (auto simp: ctl_wf_def split: ctl_value.splits)
  have ok: "mixer_present (Some m)" using m by (simp add: mixer_present_def)
  from ok show ?thesis
  proof (cases rule: mix.by_name_cases [where n = "c_name c"])
    case 1
    then show ?thesis using True wf by (simp add: ctl_open_def)
  next
    case (2 mc)
    let ?id = "mixer_ctl_get_id (Some mc)"
    let ?c1 = "if c_index c = INVALID_CTL_INDEX then c\<lparr>c_index := 0\<rparr> else c"
    have id: "?id \<noteq> UINT_MAX" using mixer_ok_ctl [OF m 2(2)] by simp
    have opened: "ctl_wf m (c'\<lparr>c_type := mixer_ctl_get_type (Some mc), c_id := ?id\<rparr>)"
      if "value_matches mc c'" for c'
      using that id 2(2) by (simp add: ctl_wf_def)
    show ?thesis
    proof (cases "mixer_ctl_get_type (Some mc)")
      case MIXER_CTL_TYPE_BYTE
      have c1: "c_value ?c1 = String str" "c_id ?c1 = UINT_MAX" using str True by simp_all
      obtain r c2 k' where mk: "make_byte_array E ?c1 (Some mc) k = Some ((r, c2), k')"
        using make_byte_array_defined [OF c1(1), of E "Some mc" k] by blast
      have fail: "ctl_wf m c2" if "r \<noteq> 0"
        using make_byte_array_fails [OF mk that] c1 len by (simp add: ctl_wf_def)
      have succ: "value_matches mc c2" if r: "r = 0"
        using make_byte_array_bounds [OF mk [unfolded r]] c1 len MIXER_CTL_TYPE_BYTE
        by (fastforce simp: value_matches_def mixer_ctl_get_num_values_def)
      show ?thesis
        using True 2(1) MIXER_CTL_TYPE_BYTE mk fail opened [of c2] succ id
        by (cases "r = 0") (simp_all add: ctl_open_def Let_def)
    next
      case MIXER_CTL_TYPE_ENUM
      then have "value_matches mc c" using str by (simp add: value_matches_def)
      then show ?thesis using True 2(1) MIXER_CTL_TYPE_ENUM opened id by (simp add: ctl_open_def Let_def)
    qed (use True 2(1) str id wf opened in \<open>auto simp: ctl_open_def Let_def value_matches_def
      split: prod.splits option.splits\<close>)
  qed
qed

lemma apply_ctls_loop_wf:
  assumes m: "mixer_ok m"
  shows "list_all (ctl_wf m) cs \<Longrightarrow> length buf = 512 \<Longrightarrow>
    \<exists>cs' k'. apply_ctls_loop E (Some m) cs buf k = Some (cs', k') \<and> list_all (ctl_wf m) cs'
      \<and> length cs' = length cs"
proof (induction cs arbitrary: buf k)
  case (Cons c cs)
  obtain r c' k1 where op: "ctl_open E (Some m) c k = Some ((r, c'), k1)" "ctl_wf m c'"
    "r = 0 \<Longrightarrow> c_id c' \<noteq> UINT_MAX"
    using ctl_open_wf [OF m, of c E k] Cons.prems by auto
  show ?case
  proof (cases "r = 0")
    case True
    obtain buf' k2 where ap: "apply_ctl E (Some m) c' buf k1 = Some (buf', k2)" "length buf' = 512"
      using apply_ctl_defined [OF m op(2) op(3) [OF True] Cons.prems(2), of E k1] by blast
    then show ?thesis using Cons.IH [of buf' k2] Cons.prems op True by auto
  qed (use op Cons.prems in auto)
qed simp

lemma apply_ctls_l_wf:
  assumes "mixer_ok m" and "list_all (ctl_wf m) cs"
  shows "\<exists>cs' k'. apply_ctls_l E (Some m) cs k = Some (cs', k') \<and> list_all (ctl_wf m) cs'
    \<and> length cs' = length cs"
  using apply_ctls_loop_wf [OF assms, of "replicate 512 0" E k] by (simp add: apply_ctls_l_def)

definition ctls_wf :: "mixer \<Rightarrow> ctl dyn_array \<Rightarrow> bool" where
  "ctls_wf m a \<longleftrightarrow> array_ok zero_cfg_ctl a \<and> list_all (ctl_wf m) (elems a)"

definition path_wf :: "mixer \<Rightarrow> path \<Rightarrow> bool" where
  "path_wf m p \<longleftrightarrow> ctls_wf m (p_ctl_array p)"

definition device_wf :: "mixer \<Rightarrow> device \<Rightarrow> bool" where
  "device_wf m d \<longleftrightarrow> array_ok zero_path (path_array d) \<and> list_all (path_wf m) (elems (path_array d))"

definition scase_wf :: "mixer \<Rightarrow> scase \<Rightarrow> bool" where
  "scase_wf m sc \<longleftrightarrow> ctls_wf m (sc_ctl_array sc)"

definition usecase_wf :: "mixer \<Rightarrow> usecase \<Rightarrow> bool" where
  "usecase_wf m uc \<longleftrightarrow> array_ok zero_scase (case_array uc) \<and> list_all (scase_wf m) (elems (case_array uc))"

definition vol_wf :: "mixer \<Rightarrow> stream_control \<Rightarrow> bool" where
  "vol_wf m v \<longleftrightarrow> v_id v = UINT_MAX \<or>
     mixer_get_ctl (Some m) (v_id v) \<noteq> None"

definition stream_wf :: "mixer \<Rightarrow> stream \<Rightarrow> bool" where
  "stream_wf m s \<longleftrightarrow> array_ok zero_usecase (usecase_array s)
     \<and> list_all (usecase_wf m) (elems (usecase_array s))
     \<and> vol_wf m (volume_left s) \<and> vol_wf m (volume_right s)"

definition cm_wf :: "config_mgr \<Rightarrow> bool" where
  "cm_wf cm \<longleftrightarrow> (case cm_mixer cm of None \<Rightarrow> False
     | Some m \<Rightarrow> mixer_ok m
         \<and> array_ok zero_device (device_array cm) \<and> list_all (device_wf m) (elems (device_array cm))
         \<and> array_ok zero_stream (stream_array cm) \<and> list_all (stream_wf m) (elems (stream_array cm)))"

lemma apply_path_l_wf:
  assumes "mixer_ok m" and "path_wf m p"
  shows "\<exists>p' k'. apply_path_l E (Some m) p k = Some (p', k') \<and> path_wf m p' \<and> p_id p' = p_id p"
proof -
  have ok: "array_ok zero_cfg_ctl (p_ctl_array p)" using assms(2) by (simp add: path_wf_def ctls_wf_def)
  obtain cs k' where "apply_ctls_l E (Some m) (elems (p_ctl_array p)) k = Some (cs, k')"
    "list_all (ctl_wf m) cs" "length cs = unat (count (p_ctl_array p))"
    using apply_ctls_l_wf [OF assms(1), of "elems (p_ctl_array p)" E k] assms(2) length_elems [OF ok]
    by (auto simp: path_wf_def ctls_wf_def)
  then show ?thesis using ok by (simp add: apply_path_l_def path_wf_def ctls_wf_def)
qed

lemma list_all_nth: "list_all P xs \<Longrightarrow> i < length xs \<Longrightarrow> P (xs ! i)"
  by (simp add: list_all_length)

lemma list_all_update: "list_all P xs \<Longrightarrow> P x \<Longrightarrow> list_all P (xs[i := x])"
  by (cases "i < length xs") (auto simp: list_all_length nth_list_update)

text \<open>A device is touched in its use count and in the open state of its controls only.\<close>

definition same_device :: "device \<Rightarrow> device \<Rightarrow> bool" where
  "same_device d d' \<longleftrightarrow> d_type d' = d_type d
     \<and> map p_id (elems (path_array d')) = map p_id (elems (path_array d))"

lemma same_device_refl [simp]: "same_device d d"
  by (simp add: same_device_def)

lemma same_device_trans: "same_device d d' \<Longrightarrow> same_device d' d'' \<Longrightarrow> same_device d d''"
  by (simp add: same_device_def)

lemma apply_device_path_l_wf:
  assumes m: "mixer_ok m" and d: "device_wf m d" and i: "i < length (elems (path_array d))"
  shows "\<exists>d' k'. apply_device_path_l E (Some m) d i k = Some (d', k') \<and> device_wf m d' \<and> same_device d d'"
proof -
  let ?p = "elems (path_array d) ! i"
  have ok: "array_ok zero_path (path_array d)" and ps: "list_all (path_wf m) (elems (path_array d))"
    using d by (simp_all add: device_wf_def)
  obtain p' k' where ap: "apply_path_l E (Some m) ?p k = Some (p', k')" "path_wf m p'" "p_id p' = p_id ?p"
    using apply_path_l_wf [OF m list_all_nth [OF ps i], of E k] by blast
  have lt: "i < unat (count (path_array d))" using i ok by simp
  have ids: "map p_id ((elems (path_array d))[i := p']) = map p_id (elems (path_array d))"
    using ap(3) i by (simp add: map_update list_update_same_conv)
  show ?thesis
    using d ap ok ps lt ids list_all_update [OF ps ap(2), of i]
    by (auto simp: apply_device_path_l_def Let_def device_wf_def same_device_def)
qed

text \<open>The walk over the paths yields indices of the device's path table.\<close>

lemma find_paths_bound:
  "find_paths a b i ps (f0, f1) = (g0, g1) \<Longrightarrow>
   (\<And>j. f0 = Some j \<or> f1 = Some j \<Longrightarrow> j < i + length ps) \<Longrightarrow>
   g0 = Some j \<or> g1 = Some j \<Longrightarrow> j < i + length ps"
proof (induction ps arbitrary: i f0 f1)
  case (Cons p ps)
  have "\<And>f0 f1. find_paths a b (Suc i) ps (f0, f1) = (g0, g1) \<Longrightarrow>
      (\<And>j. f0 = Some j \<or> f1 = Some j \<Longrightarrow> j < Suc i + length ps) \<Longrightarrow> j < Suc i + length ps"
    using Cons.IH [of "Suc i"] Cons.prems(3) by blast
  from this Cons.prems show ?case by (fastforce split: if_splits)
qed auto

lemma apply_found_wf:
  assumes "mixer_ok m" and "device_wf m d" and "\<And>i. f = Some i \<Longrightarrow> i < length (elems (path_array d))"
  shows "\<exists>d' k'. apply_found E (Some m) f d k = Some (d', k') \<and> device_wf m d' \<and> same_device d d'"
proof (cases f)
  case (Some i)
  then show ?thesis
    using apply_device_path_l_wf [OF assms(1,2) assms(3) [OF Some], of E k] by (simp add: apply_found_def)
qed (use assms(2) in \<open>simp add: apply_found_def\<close>)

lemma same_device_length:
  "same_device d d' \<Longrightarrow> length (elems (path_array d')) = length (elems (path_array d))"
  unfolding same_device_def by (metis length_map)

lemma apply_paths_by_id_l_wf:
  assumes m: "mixer_ok m" and d: "device_wf m d"
  shows "\<exists>d' k'. apply_paths_by_id_l E (Some m) d a b k = Some (d', k') \<and> device_wf m d' \<and> same_device d d'"
proof -
  obtain f0 f1 where f: "find_paths a b 0 (elems (path_array d)) (None, None) = (f0, f1)"
    by (cases "find_paths a b 0 (elems (path_array d)) (None, None)")
  have b: "i < length (elems (path_array d))" if "f0 = Some i \<or> f1 = Some i" for i
    using find_paths_bound [OF f, of i] that by simp
  obtain d1 k1 where 1: "apply_found E (Some m) f0 d k = Some (d1, k1)" "device_wf m d1" "same_device d d1"
    using apply_found_wf [OF m d, of f0 E k] b by blast
  obtain d2 k2 where 2: "apply_found E (Some m) f1 d1 k1 = Some (d2, k2)" "device_wf m d2" "same_device d1 d2"
    using apply_found_wf [OF m 1(2), of f1 E k1] b same_device_length [OF 1(3)] by auto
  show ?thesis
    using f 1 2 same_device_trans [OF 1(3) 2(3)] by (simp add: apply_paths_by_id_l_def)
qed

lemma apply_paths_loop_wf:
  assumes m: "mixer_ok m"
  shows "list_all (device_wf m) ds \<Longrightarrow>
    \<exists>ds' k'. apply_paths_loop E (Some m) fl dv a b ds k = Some (ds', k') \<and> list_all (device_wf m) ds'
      \<and> list_all2 same_device ds ds'"
proof (induction ds arbitrary: dv k)
  case (Cons d ds)
  obtain d' k1 where d': "apply_paths_by_id_l E (Some m) d a b k = Some (d', k1)" "device_wf m d'" "same_device d d'"
    using apply_paths_by_id_l_wf [OF m, of d E a b k] Cons.prems by auto
  obtain e1 k2 where 1: "apply_paths_loop E (Some m) fl (dv AND NOT (d_type d)) a b ds k1 = Some (e1, k2)"
    "list_all (device_wf m) e1" "list_all2 same_device ds e1"
    using Cons.IH [of "dv AND NOT (d_type d)" k1] Cons.prems by auto
  obtain e2 k3 where 2: "apply_paths_loop E (Some m) fl dv a b ds k = Some (e2, k3)"
    "list_all (device_wf m) e2" "list_all2 same_device ds e2"
    using Cons.IH [of dv k] Cons.prems by auto
  have refl: "list_all2 same_device ds ds" by (simp add: list_all2_refl)
  show ?case using d' 1 2 Cons.prems refl by auto
qed simp

lemma apply_global_loop_wf:
  assumes m: "mixer_ok m"
  shows "list_all (device_wf m) ds \<Longrightarrow>
    \<exists>ds' k'. apply_global_loop E (Some m) a b ds k = Some (ds', k') \<and> list_all (device_wf m) ds'
      \<and> list_all2 same_device ds ds'"
proof (induction ds arbitrary: k)
  case (Cons d ds)
  obtain d' k1 where d': "apply_paths_by_id_l E (Some m) d a b k = Some (d', k1)" "device_wf m d'" "same_device d d'"
    using apply_paths_by_id_l_wf [OF m, of d E a b k] Cons.prems by auto
  obtain e2 k3 where 2: "apply_global_loop E (Some m) a b ds k = Some (e2, k3)"
    "list_all (device_wf m) e2" "list_all2 same_device ds e2"
    using Cons.IH [of k] Cons.prems by auto
  have refl: "list_all2 same_device ds ds" by (simp add: list_all2_refl)
  show ?case using d' 2 Cons.prems refl by auto
qed simp

text \<open>What the routing of paths leaves of the configuration: everything but its devices.\<close>

definition same_streams :: "config_mgr \<Rightarrow> config_mgr \<Rightarrow> bool" where
  "same_streams cm cm' \<longleftrightarrow> stream_array cm' = stream_array cm \<and> cm_mixer cm' = cm_mixer cm
     \<and> supported_output_devices cm' = supported_output_devices cm
     \<and> supported_input_devices cm' = supported_input_devices cm
     \<and> list_all2 same_device (elems (device_array cm)) (elems (device_array cm'))"

lemma put_devices_wf:
  assumes cm: "cm_wf cm" and ds: "list_all (device_wf (the (cm_mixer cm))) ds"
    and len: "list_all2 same_device (elems (device_array cm)) ds"
  shows "cm_wf (cm\<lparr>device_array := set_elems (device_array cm) ds\<rparr>)
    \<and> same_streams cm (cm\<lparr>device_array := set_elems (device_array cm) ds\<rparr>)"
proof -
  have ok: "array_ok zero_device (device_array cm)" using cm by (auto simp: cm_wf_def split: option.splits)
  then have "length ds = unat (count (device_array cm))" using list_all2_lengthD [OF len] by simp
  then show ?thesis using cm ds len ok by (auto simp: cm_wf_def same_streams_def split: option.splits)
qed

lemma cm_wfE:
  assumes "cm_wf cm"
  obtains m where "cm_mixer cm = Some m" and "mixer_ok m"
    and "list_all (device_wf m) (elems (device_array cm))"
    and "array_ok zero_stream (stream_array cm)" and "list_all (stream_wf m) (elems (stream_array cm))"
  using assms by (auto simp: cm_wf_def split: option.splits)

lemma apply_paths_to_devices_l_wf:
  assumes "cm_wf cm"
  shows "\<exists>cm' k'. apply_paths_to_devices_l E A cm dv a b k = Some (cm', k') \<and> cm_wf cm' \<and> same_streams cm cm'"
proof -
  obtain m where m: "cm_mixer cm = Some m" "mixer_ok m" "list_all (device_wf m) (elems (device_array cm))"
    using assms by (elim cm_wfE)
  obtain ds k' where l: "apply_paths_loop E (Some m) (dv AND AUDIO_DEVICE_BIT_IN A)
      (dv AND NOT (AUDIO_DEVICE_BIT_IN A)) a b (elems (device_array cm)) k = Some (ds, k')"
    and ds: "list_all (device_wf m) ds" "list_all2 same_device (elems (device_array cm)) ds"
    using apply_paths_loop_wf [OF m(2,3)] by metis
  show ?thesis
    using l m put_devices_wf [OF assms, of ds] ds by (simp add: apply_paths_to_devices_l_def)
qed

lemma apply_paths_to_global_l_wf:
  assumes "cm_wf cm"
  shows "\<exists>cm' k'. apply_paths_to_global_l E cm a b k = Some (cm', k') \<and> cm_wf cm' \<and> same_streams cm cm'"
proof -
  obtain m where m: "cm_mixer cm = Some m" "mixer_ok m" "list_all (device_wf m) (elems (device_array cm))"
    using assms by (elim cm_wfE)
  obtain ds k' where l: "apply_global_loop E (Some m) a b (elems (device_array cm)) k = Some (ds, k')"
    and ds: "list_all (device_wf m) ds" "list_all2 same_device (elems (device_array cm)) ds"
    using apply_global_loop_wf [OF m(2,3)] by metis
  show ?thesis
    using l m put_devices_wf [OF assms, of ds] ds by (simp add: apply_paths_to_global_l_def)
qed

end
