(* ===== verification/Config_Api.thy ===== *)
theory Config_Api
  imports Routing
begin

text \<open>
  The configuration manager as its clients use it: the life cycle of streams keeps the
  configuration well formed, any sequence of API calls is free of undefined behaviour, the
  reference counts of devices and streams keep the hardware alone while it is shared, and the
  routing, volume and use-case calls do what the header promises.
\<close>

section \<open>Stream operations keep the configuration well formed\<close>

lemma same_streams_refl [simp]: "same_streams cm cm"
  by (simp add: same_streams_def list_all2_refl)

lemma get_stream_wf:
  assumes "cm_wf cm" and "i < length (elems (stream_array cm))" and "cm_mixer cm = Some m"
  shows "stream_wf m (get_stream_at cm i)"
  using assms by (auto simp: cm_wf_def get_stream_at_def intro: list_all_nth)

lemma put_stream_wf:
  assumes cm: "cm_wf cm" and i: "i < length (elems (stream_array cm))"
    and s: "stream_wf (the (cm_mixer cm)) s"
  shows "cm_wf (put_stream_at cm i s)"
proof -
  obtain m where m: "cm_mixer cm = Some m" and ok: "array_ok zero_stream (stream_array cm)"
    and l: "list_all (stream_wf m) (elems (stream_array cm))"
    using cm by (elim cm_wfE)
  have "i < unat (count (stream_array cm))" using i ok by simp
  then show ?thesis
    using cm m ok s list_all_update [OF l, of s i] by (simp add: cm_wf_def put_stream_at_def)
qed

lemma put_stream_frame [simp]:
  "cm_mixer (put_stream_at cm i s) = cm_mixer cm"
  "device_array (put_stream_at cm i s) = device_array cm"
  "count (stream_array (put_stream_at cm i s)) = count (stream_array cm)"
  "length (elems (stream_array (put_stream_at cm i s))) = length (elems (stream_array cm))"
  by (simp_all add: put_stream_at_def set_elem_def elems_def)

lemma get_put_stream:
  assumes "i < length (elems (stream_array cm))"
  shows "get_stream_at (put_stream_at cm i s) j = (if j = i then s else get_stream_at cm j)"
proof -
  have "i < unat (count (stream_array cm))" using assms by (simp add: elems_def)
  then show ?thesis using assms by (simp add: get_stream_at_def put_stream_at_def nth_list_update)
qed

lemma same_streams_get:
  "same_streams cm cm' \<Longrightarrow> get_stream_at cm' i = get_stream_at cm i
     \<and> stream_array cm' = stream_array cm \<and> cm_mixer cm' = cm_mixer cm"
  by (simp add: same_streams_def get_stream_at_def)

text \<open>Changing only counters and routes of a stream keeps it well formed.\<close>

lemma stream_wf_counters [simp]:
  "stream_wf m (s\<lparr>ref_count := r\<rparr>) = stream_wf m s"
  "stream_wf m (s\<lparr>current_devices := d\<rparr>) = stream_wf m s"
  by (simp_all add: stream_wf_def)

lemma apply_route_wf:
  assumes cm: "cm_wf cm" and i: "i < length (elems (stream_array cm))"
  shows "\<exists>cm' k'. apply_route E A cm i dv k = Some (cm', k') \<and> cm_wf cm' \<and>
    stream_array cm' = stream_array (case route_devices A (get_stream_at cm i) dv of
        None \<Rightarrow> cm | Some d \<Rightarrow> put_stream_at cm i (get_stream_at cm i\<lparr>current_devices := d\<rparr>))"
proof (cases "route_devices A (get_stream_at cm i) dv")
  case None
  then show ?thesis using cm by (simp add: apply_route_def)
next
  case (Some d)
  let ?s = "get_stream_at cm i"
  obtain m where m: "cm_mixer cm = Some m" using cm by (elim cm_wfE)
  obtain cm1 k1 where 1: "apply_paths_to_devices_l E A cm (NOT dv AND current_devices ?s)
      (disable_path ?s) e_path_id_off k = Some (cm1, k1)" "cm_wf cm1" "same_streams cm cm1"
    using apply_paths_to_devices_l_wf [OF cm] by metis
  obtain cm2 k2 where 2: "apply_paths_to_devices_l E A cm1 (dv AND NOT (current_devices ?s))
      e_path_id_on (enable_path ?s) k1 = Some (cm2, k2)" "cm_wf cm2" "same_streams cm1 cm2"
    using apply_paths_to_devices_l_wf [OF 1(2)] by metis
  have fr: "get_stream_at cm2 i = ?s" "stream_array cm2 = stream_array cm" "cm_mixer cm2 = Some m"
    using same_streams_get [OF 1(3), of i] same_streams_get [OF 2(3), of i] m by simp_all
  have "cm_wf (put_stream_at cm2 i (?s\<lparr>current_devices := d\<rparr>))"
    using put_stream_wf [OF 2(2), of i] i fr get_stream_wf [OF cm i m] by simp
  then show ?thesis
    using Some 1(1) 2(1) fr by (simp add: apply_route_def Let_def put_stream_at_def)
qed

lemma open_stream_l_wf:
  assumes cm: "cm_wf cm" and i: "i < length (elems (stream_array cm))"
  shows "\<exists>cm' k' . open_stream_l E cm i k
      = Some ((ref_count (get_stream_at cm i) < max_ref_count (get_stream_at cm i), cm'), k') \<and> cm_wf cm' \<and>
    stream_array cm' = stream_array (if ref_count (get_stream_at cm i) < max_ref_count (get_stream_at cm i)
      then put_stream_at cm i (get_stream_at cm i\<lparr>ref_count := ref_count (get_stream_at cm i) + 1\<rparr>) else cm) \<and>
    (ref_count (get_stream_at cm i) \<noteq> 0 \<longrightarrow> k' = k \<and> device_array cm' = device_array cm)"
proof (cases "ref_count (get_stream_at cm i) < max_ref_count (get_stream_at cm i)")
  case False
  then show ?thesis using cm by (simp add: open_stream_l_def)
next
  case True
  let ?s = "get_stream_at cm i"
  let ?s1 = "?s\<lparr>ref_count := ref_count ?s + 1\<rparr>"
  obtain m where m: "cm_mixer cm = Some m" using cm by (elim cm_wfE)
  have wf: "cm_wf (put_stream_at cm i ?s1)"
    using put_stream_wf [OF cm i, of ?s1] get_stream_wf [OF cm i m] m by simp
  obtain cm2 k2 where 2: "apply_paths_to_global_l E (put_stream_at cm i ?s1) e_path_id_on (enable_path ?s) k
      = Some (cm2, k2)" "cm_wf cm2" "same_streams (put_stream_at cm i ?s1) cm2"
    using apply_paths_to_global_l_wf [OF wf] by metis
  show ?thesis
    using True 2(1,2) wf same_streams_get [OF 2(3), of i]
    by (cases "ref_count ?s = 0") (simp_all add: open_stream_l_def Let_def)
qed

lemma release_stream_wf:
  assumes cm: "cm_wf cm" and i: "i < length (elems (stream_array cm))"
  shows "\<exists>cm' k'. release_stream E A cm (Some i) k = Some (cm', k') \<and> cm_wf cm' \<and>
    stream_array cm' = stream_array (put_stream_at cm i (get_stream_at cm i
      \<lparr>ref_count := ref_count (get_stream_at cm i) - 1,
       current_devices := if ref_count (get_stream_at cm i) = 1 then 0 else current_devices (get_stream_at cm i)\<rparr>)) \<and>
    (ref_count (get_stream_at cm i) \<noteq> 1 \<longrightarrow> k' = k \<and> device_array cm' = device_array cm)"
proof -
  let ?s = "get_stream_at cm i"
  let ?s1 = "?s\<lparr>ref_count := ref_count ?s - 1\<rparr>"
  let ?cm1 = "put_stream_at cm i ?s1"
  obtain m where m: "cm_mixer cm = Some m" using cm by (elim cm_wfE)
  have wf: "cm_wf ?cm1"
    using put_stream_wf [OF cm i, of ?s1] get_stream_wf [OF cm i m] m by simp
  obtain cm2 k2 where 2: "apply_paths_to_devices_l E A ?cm1 (current_devices ?s) e_path_id_off (disable_path ?s) k
      = Some (cm2, k2)" "cm_wf cm2" "same_streams ?cm1 cm2"
    using apply_paths_to_devices_l_wf [OF wf] by metis
  obtain cm3 k3 where 3: "apply_paths_to_global_l E cm2 (disable_path ?s) e_path_id_off k2 = Some (cm3, k3)"
    "cm_wf cm3" "same_streams cm2 cm3"
    using apply_paths_to_global_l_wf [OF 2(2)] by metis
  have fr: "get_stream_at cm3 i = ?s1" "stream_array cm3 = stream_array ?cm1" "cm_mixer cm3 = Some m"
    using same_streams_get [OF 2(3), of i] same_streams_get [OF 3(3), of i] get_put_stream [OF i] m by simp_all
  have "cm_wf (put_stream_at cm3 i (?s1\<lparr>current_devices := 0\<rparr>))"
    using put_stream_wf [OF 3(2), of i] i fr get_stream_wf [OF cm i m] by simp
  then show ?thesis
    using 2(1) 3(1) fr wf i
    by (cases "ref_count ?s = 1")
      (simp_all add: release_stream_def Let_def put_stream_at_def set_elem_def)
qed

text \<open>The search for a stream: what it opens, and that full streams are left alone.\<close>

lemma get_stream_loop_spec:
  assumes cm: "cm_wf cm" and n: "n \<le> length (elems (stream_array cm))"
  shows "\<exists>r cm' k'. get_stream_loop E cm t n k = Some ((r, cm'), k') \<and> cm_wf cm' \<and>
    (case r of
       None \<Rightarrow> cm' = cm \<and> k' = k \<and> (\<forall>j < n. st_type (hinfo (get_stream_at cm j)) = t \<longrightarrow>
                 ref_count (get_stream_at cm j) \<ge> max_ref_count (get_stream_at cm j))
     | Some i \<Rightarrow> i < n \<and> st_type (hinfo (get_stream_at cm i)) = t
         \<and> ref_count (get_stream_at cm i) < max_ref_count (get_stream_at cm i)
         \<and> (\<forall>j. i < j \<and> j < n \<and> st_type (hinfo (get_stream_at cm j)) = t \<longrightarrow>
                 ref_count (get_stream_at cm j) \<ge> max_ref_count (get_stream_at cm j))
         \<and> stream_array cm' = stream_array (put_stream_at cm i
              (get_stream_at cm i\<lparr>ref_count := ref_count (get_stream_at cm i) + 1\<rparr>)))"
  using n
proof (induction n)
  case 0
  then show ?case using cm by simp
next
  case (Suc n)
  then obtain r cm' k' where IH: "get_stream_loop E cm t n k = Some ((r, cm'), k')" "cm_wf cm'"
    "case r of
       None \<Rightarrow> cm' = cm \<and> k' = k \<and> (\<forall>j < n. st_type (hinfo (get_stream_at cm j)) = t \<longrightarrow>
                 ref_count (get_stream_at cm j) \<ge> max_ref_count (get_stream_at cm j))
     | Some i \<Rightarrow> i < n \<and> st_type (hinfo (get_stream_at cm i)) = t
         \<and> ref_count (get_stream_at cm i) < max_ref_count (get_stream_at cm i)
         \<and> (\<forall>j. i < j \<and> j < n \<and> st_type (hinfo (get_stream_at cm j)) = t \<longrightarrow>
                 ref_count (get_stream_at cm j) \<ge> max_ref_count (get_stream_at cm j))
         \<and> stream_array cm' = stream_array (put_stream_at cm i
              (get_stream_at cm i\<lparr>ref_count := ref_count (get_stream_at cm i) + 1\<rparr>))"
    by auto
  let ?s = "get_stream_at cm n"
  have n: "n < length (elems (stream_array cm))" using Suc.prems by simp
  show ?case
  proof (cases "st_type (hinfo ?s) = t \<and> ref_count ?s < max_ref_count ?s")
    case True
    obtain cm1 k1 where "open_stream_l E cm n k = Some ((True, cm1), k1)" "cm_wf cm1"
      "stream_array cm1 = stream_array (put_stream_at cm n (?s\<lparr>ref_count := ref_count ?s + 1\<rparr>))"
      using open_stream_l_wf [OF cm n, of E k] True by auto
    then show ?thesis using True by auto
  next
    case False
    have "get_stream_loop E cm t (Suc n) k = get_stream_loop E cm t n k"
      using False by (auto simp: open_stream_l_def)
    then show ?thesis
      using IH False by (cases r) (auto simp: less_Suc_eq)
  qed
qed

lemma find_named_loop_bound:
  "find_named_loop name i ss = Some j \<Longrightarrow> i \<le> j \<and> j < i + length ss \<and> s_name (ss ! (j - i)) = Some name"
proof (induction ss arbitrary: i)
  case (Cons s ss)
  show ?case
  proof (cases "s_name s = Some name")
    case True
    then show ?thesis using Cons.prems by simp
  next
    case False
    then have "find_named_loop name (Suc i) ss = Some j" using Cons.prems by (auto split: option.splits if_splits)
    from Cons.IH [OF this] show ?thesis by (simp add: nth_Cons')
  qed
qed simp

lemma get_named_stream_wf:
  assumes cm: "cm_wf cm"
  shows "\<exists>r cm' k'. get_named_stream E cm name k = Some ((r, cm'), k') \<and> cm_wf cm'"
proof (cases "find_named_stream cm name")
  case (Some i)
  then have "i < length (elems (stream_array cm))"
    using find_named_loop_bound [of name 0 _ i] by (auto simp: find_named_stream_def)
  from open_stream_l_wf [OF cm this, of E k] show ?thesis
    using Some by (auto simp: get_named_stream_def)
qed (use cm in \<open>simp add: get_named_stream_def\<close>)

lemma set_vol_ctl_defined:
  assumes "cm_wf cm" and "cm_mixer cm = Some m" and "vol_wf m v" and "v_id v \<noteq> UINT_MAX"
  shows "\<exists>k'. set_vol_ctl E cm v p k = Some (0, k')"
proof -
  have m: "mixer_ok m" using assms(1,2) by (simp add: cm_wf_def)
  obtain mc where mc: "mixer_get_ctl (Some m) (v_id v) = Some mc"
    using assms(3,4) by (auto simp: vol_wf_def)
  obtain r k' where "mixer_ctl_set_value E (Some mc) (v_index v) (sint (vol_value v p)) k = Some (r, k')"
    using set_value_defined [of "fd m" _ mc E "v_index v" "sint (vol_value v p)" k] mixer_ok_ctl [OF m mc]
    by blast
  then show ?thesis using assms(2) mc by (simp add: set_vol_ctl_def)
qed

lemma set_hw_volume_defined:
  assumes cm: "cm_wf cm" and i: "i < length (elems (stream_array cm))" and "in_int (l + r)"
  shows "\<exists>k'. set_hw_volume E cm i l r k = Some
    (if v_id (volume_left (get_stream_at cm i)) = UINT_MAX \<and> v_id (volume_right (get_stream_at cm i)) = UINT_MAX
     then - ENOSYS else 0, k')"
proof -
  let ?s = "get_stream_at cm i"
  obtain m where m: "cm_mixer cm = Some m" using cm by (elim cm_wfE)
  have v: "vol_wf m (volume_left ?s)" "vol_wf m (volume_right ?s)"
    using get_stream_wf [OF cm i m] by (simp_all add: stream_wf_def)
  have set: "\<exists>k'. set_vol_ctl E cm (volume_left ?s) p k = Some (0, k')"
    if "v_id (volume_left ?s) \<noteq> UINT_MAX" for p k
    using set_vol_ctl_defined [OF cm m v(1) that, of E p k] .
  have set': "\<exists>k'. set_vol_ctl E cm (volume_right ?s) p k = Some (0, k')"
    if "v_id (volume_right ?s) \<noteq> UINT_MAX" for p k
    using set_vol_ctl_defined [OF cm m v(2) that, of E p k] .
  define p where "p = (if v_id (volume_right ?s) = UINT_MAX then (l + r) sdiv 2 else l)"
  obtain r1 k1 where 1: "(if v_id (volume_left ?s) \<noteq> UINT_MAX
      then set_vol_ctl E cm (volume_left ?s) (word_of_int p) k else Some (- ENOSYS, k)) = Some (r1, k1)"
    and r1: "r1 = (if v_id (volume_left ?s) = UINT_MAX then - ENOSYS else 0)"
    using set [of "word_of_int p" k] by (cases "v_id (volume_left ?s) = UINT_MAX") auto
  have "set_hw_volume E cm i l r k = (if v_id (volume_right ?s) \<noteq> UINT_MAX
      then set_vol_ctl E cm (volume_right ?s) (word_of_int r) k1 else Some (r1, k1))"
    using 1 assms(3) by (auto simp: set_hw_volume_def p_def chk_int_def Let_def split: if_splits)
  then show ?thesis using set' [of "word_of_int r" k1] r1 by auto
qed

lemma find_case_bound:
  "find_case name j scs = Some j' \<Longrightarrow> j \<le> j' \<and> j' < j + length scs \<and> sc_name (scs ! (j' - j)) = name"
  by (induction scs arbitrary: j) (fastforce simp: nth_Cons' split: if_splits)+

lemma find_use_case_bound:
  "find_use_case setting name i ucs = Some (i', j') \<Longrightarrow>
   i \<le> i' \<and> i' < i + length ucs \<and> uc_name (ucs ! (i' - i)) = setting
   \<and> find_case name 0 (elems (case_array (ucs ! (i' - i)))) = Some j'"
proof (induction ucs arbitrary: i)
  case (Cons uc ucs)
  show ?case
  proof (cases "uc_name uc = setting \<and> find_case name 0 (elems (case_array uc)) \<noteq> None")
    case True
    then show ?thesis using Cons.prems by auto
  next
    case False
    then have "find_use_case setting name (Suc i) ucs = Some (i', j')"
      using Cons.prems by (auto split: if_splits)
    from Cons.IH [OF this] show ?thesis by (simp add: nth_Cons')
  qed
qed simp

lemma apply_use_case_wf:
  assumes cm: "cm_wf cm" and n: "n < length (elems (stream_array cm))"
  shows "\<exists>r cm' k'. apply_use_case E cm n setting name k = Some ((r, cm'), k') \<and> cm_wf cm'"
proof (cases "find_use_case setting name 0 (elems (usecase_array (get_stream_at cm n)))")
  case None
  then show ?thesis using cm by (simp add: apply_use_case_def Let_def)
next
  case (Some ij)
  let ?s = "get_stream_at cm n"
  obtain i j where ij: "ij = (i, j)" by (cases ij)
  obtain m where m: "cm_mixer cm = Some m" "mixer_ok m" using cm by (elim cm_wfE)
  let ?uc = "elems (usecase_array ?s) ! i" and ?ucs = "elems (usecase_array ?s)"
  let ?sc = "elems (case_array ?uc) ! j"
  have i: "i < length ?ucs" and fc: "find_case name 0 (elems (case_array ?uc)) = Some j"
    using find_use_case_bound [of setting name 0 ?ucs i j] Some ij by auto
  have j: "j < length (elems (case_array ?uc))" using find_case_bound [OF fc] by simp
  have s: "stream_wf m ?s" by (rule get_stream_wf [OF cm n m(1)])
  then have ucs: "array_ok zero_usecase (usecase_array ?s)" "list_all (usecase_wf m) ?ucs"
    by (simp_all add: stream_wf_def)
  then have uc: "array_ok zero_scase (case_array ?uc)" "list_all (scase_wf m) (elems (case_array ?uc))"
    using list_all_nth [OF ucs(2) i] by (simp_all add: usecase_wf_def)
  have sc: "array_ok zero_cfg_ctl (sc_ctl_array ?sc)" "list_all (ctl_wf m) (elems (sc_ctl_array ?sc))"
    using list_all_nth [OF uc(2) j] by (simp_all add: scase_wf_def ctls_wf_def)
  obtain cs k' where ap: "apply_ctls_l E (Some m) (elems (sc_ctl_array ?sc)) k = Some (cs, k')"
    "list_all (ctl_wf m) cs" "length cs = unat (count (sc_ctl_array ?sc))"
    using apply_ctls_l_wf [OF m(2) sc(2), of E k] length_elems [OF sc(1)] by auto
  let ?sc' = "?sc\<lparr>sc_ctl_array := set_elems (sc_ctl_array ?sc) cs\<rparr>"
  have sc': "scase_wf m ?sc'" using ap sc(1) by (simp add: scase_wf_def ctls_wf_def)
  let ?uc' = "?uc\<lparr>case_array := set_elem (case_array ?uc) j ?sc'\<rparr>"
  have uc': "usecase_wf m ?uc'"
    using uc j list_all_update [OF uc(2) sc', of j] by (simp add: usecase_wf_def)
  have "stream_wf m (put_case_ctls ?s i j cs)"
    using s ucs i list_all_update [OF ucs(2) uc', of i] by (simp add: put_case_ctls_def stream_wf_def Let_def)
  then have "cm_wf (put_stream_at cm n (put_case_ctls ?s i j cs))"
    using put_stream_wf [OF cm n] m by simp
  then show ?thesis using Some ij ap m by (simp add: apply_use_case_def Let_def)
qed

section \<open>Any sequence of calls\<close>

datatype api_call =
    Get_stream u32 u32
  | Get_named_stream string
  | Release_stream "nat option"
  | Apply_route nat u32
  | Set_hw_volume nat int int
  | Apply_use_case nat string string

text \<open>
  A client passes stream pointers that the manager gave out, and percentages whose sum is an
  \<^verbatim>\<open>int\<close>; other calls are not made.
\<close>

fun legal_call :: "config_mgr \<Rightarrow> api_call \<Rightarrow> bool" where
  "legal_call cm (Release_stream (Some i)) = (i < length (elems (stream_array cm)))"
| "legal_call cm (Apply_route i _) = (i < length (elems (stream_array cm)))"
| "legal_call cm (Set_hw_volume i l r) = (i < length (elems (stream_array cm)) \<and> in_int (l + r))"
| "legal_call cm (Apply_use_case i _ _) = (i < length (elems (stream_array cm)))"
| "legal_call cm _ = True"

fun api_exec :: "'k sys \<Rightarrow> audio_h \<Rightarrow> api_call \<Rightarrow> config_mgr \<times> 'k \<Rightarrow> (config_mgr \<times> 'k) option" where
  "api_exec E A (Get_stream d f) (cm, k) = map_option (\<lambda>((_, cm'), k'). (cm', k')) (get_stream E A cm d f k)"
| "api_exec E A (Get_named_stream n) (cm, k) = map_option (\<lambda>((_, cm'), k'). (cm', k')) (get_named_stream E cm n k)"
| "api_exec E A (Release_stream i) (cm, k) = release_stream E A cm i k"
| "api_exec E A (Apply_route i d) (cm, k) = apply_route E A cm i d k"
| "api_exec E A (Set_hw_volume i l r) (cm, k) = map_option (\<lambda>(_, k'). (cm, k')) (set_hw_volume E cm i l r k)"
| "api_exec E A (Apply_use_case i s c) (cm, k) = map_option (\<lambda>((_, cm'), k'). (cm', k')) (apply_use_case E cm i s c k)"

definition api_step :: "'k sys \<Rightarrow> audio_h \<Rightarrow> api_call \<Rightarrow> config_mgr \<times> 'k \<Rightarrow> (config_mgr \<times> 'k) option" where
  "api_step E A call s = (if legal_call (fst s) call then api_exec E A call s else Some s)"

lemma api_step_wf:
  assumes "cm_wf (fst s)"
  shows "\<exists>s'. api_step E A call s = Some s' \<and> cm_wf (fst s')"
proof -
  obtain cm k where s: "s = (cm, k)" and cm: "cm_wf cm" using assms by (cases s) simp
  have len: "length (elems (stream_array cm)) = unat (count (stream_array cm))"
    using cm by (auto elim!: cm_wfE)
  show ?thesis
  proof (cases call)
    case (Get_stream d f)
    then show ?thesis
      using get_stream_loop_spec [OF cm, of "unat (count (stream_array cm))" E "wanted_type A d f" k] len
      by (auto simp: api_step_def s get_stream_def)
  next
    case (Get_named_stream n)
    then show ?thesis using get_named_stream_wf [OF cm, of E n k] by (auto simp: api_step_def s)
  next
    case (Release_stream j)
    then show ?thesis
      using release_stream_wf [OF cm, of "the j" E A k] cm
      by (cases j) (auto simp: api_step_def s release_stream_def [of _ _ _ None])
  next
    case (Apply_route i d)
    then show ?thesis using apply_route_wf [OF cm, of i E A d k] cm by (auto simp: api_step_def s)
  next
    case (Set_hw_volume i l r)
    then show ?thesis using set_hw_volume_defined [OF cm, of i l r E k] cm by (auto simp: api_step_def s)
  next
    case (Apply_use_case i u c)
    then show ?thesis using apply_use_case_wf [OF cm, of i E u c k] cm by (auto simp: api_step_def s)
  qed
qed

interpretation api: safe_machine "api_step E A" "\<lambda>s. cm_wf (fst s)" for E A
proof unfold_locales
  show "cm_wf (fst s')" if "cm_wf (fst s)" "api_step E A e s = Some s'" for s e s'
    using api_step_wf [OF that(1), of E A e] that(2) by simp
  show "api_step E A e s \<noteq> None" if "cm_wf (fst s)" for s e
    using api_step_wf [OF that, of E A e] by auto
qed

text \<open>A configuration for the witnesses: a speaker with on and off paths, two streams.\<close>

definition array_of :: "'a list \<Rightarrow> 'a dyn_array" where
  "array_of xs = \<lparr>count = of_nat (length xs), max_count = of_nat (length xs), elem_size = 0, data = xs\<rparr>"

lemma elems_array_of [simp]: "length xs < 2 ^ 16 \<Longrightarrow> elems (array_of xs) = xs"
  by (simp add: elems_def array_of_def unat_of_nat32)

lemma array_ok_array_of [simp]: "length xs < 2 ^ 16 \<Longrightarrow> array_ok z (array_of xs)"
  by (simp add: array_ok_def array_of_def unsigned_of_nat take_bit_nat_eq_self)

definition demo_mixer :: mixer where
  "demo_mixer = \<lparr>fd = 3, card_name = ''demo'', ctl = [demo_ctl demo_volume 1], mcount = 1\<rparr>"

definition demo_set :: "u32 \<Rightarrow> ctl" where
  "demo_set v = \<lparr>c_id = 0, c_name = ''Volume'', c_index = INVALID_CTL_INDEX, c_array_count = 0,
     c_type = MIXER_CTL_TYPE_INT, c_value = Uinteger v\<rparr>"

definition demo_speaker :: "u32 \<Rightarrow> device" where
  "demo_speaker t = \<lparr>d_type = t, use_count = 0, path_array = array_of
     [\<lparr>p_id = e_path_id_off, p_ctl_array = array_of [demo_set 0]\<rparr>,
      \<lparr>p_id = e_path_id_on, p_ctl_array = array_of [demo_set 80]\<rparr>]\<rparr>"

definition demo_stream :: "stream_type \<Rightarrow> stream" where
  "demo_stream t = zero_stream\<lparr>hinfo := (hinfo zero_stream)\<lparr>st_type := t\<rparr>, max_ref_count := 2,
     enable_path := - 1, disable_path := - 1,
     volume_left := \<lparr>v_id = 0, v_index = 0, v_min = 0, v_max = 100\<rparr>,
     volume_right := \<lparr>v_id = UINT_MAX, v_index = 0, v_min = 0, v_max = 0\<rparr>\<rparr>"

definition demo_cm :: config_mgr where
  "demo_cm = \<lparr>cm_mixer = Some demo_mixer, supported_output_devices = 2, supported_input_devices = 0,
     device_array = array_of [demo_speaker 2],
     stream_array = array_of [demo_stream e_stream_out_pcm, demo_stream e_stream_in_pcm]\<rparr>"

lemma demo_cm_wf: "cm_wf demo_cm"
proof -
  have m: "mixer_ok demo_mixer"
    by (simp add: mixer_ok_def demo_mixer_def ctl_ok_def demo_ctl_def elem_limit_def demo_simps)
  have c: "ctl_wf demo_mixer (demo_set v)" for v
    by (simp add: ctl_wf_def demo_set_def mixer_get_ctl_def demo_mixer_def mixer_ctl_get_type_def
        demo_ctl_def demo_simps value_matches_def)
  have d: "device_wf demo_mixer (demo_speaker 2)"
    using c by (simp add: device_wf_def demo_speaker_def path_wf_def ctls_wf_def)
  have s: "stream_wf demo_mixer (demo_stream t)" for t
    by (simp add: stream_wf_def demo_stream_def zero_stream_def vol_wf_def mixer_get_ctl_def demo_mixer_def
        mixer_ctl_get_type_def demo_ctl_def demo_simps)
  show ?thesis using m d s by (simp add: cm_wf_def demo_cm_def)
qed

text \<open>
  (C4) Memory safety of the configuration manager: from a well-formed configuration every
  sequence of API calls (opening streams by type or by name, releasing them, routing, volume,
  use cases), whatever the driver answers and whichever allocation fails, runs without
  undefined behaviour (in particular no copy leaves the 512-byte control buffer) and ends in a
  well-formed configuration.
\<close>

theorem config_api_safe:
  assumes "cm_wf cm"
  shows "\<exists>cm' k'. run_steps (api_step E A) calls (cm, k) = Some (cm', k') \<and> cm_wf cm'"
  using api.run_defined [of "(cm, k)" E A calls] assms by auto

lemma config_api_safe_witness:
  "\<exists>cm' k'. run_steps (api_step (demo_card [demo_volume]) demo_audio_h)
     [Get_stream 2 0, Apply_route 0 2, Set_hw_volume 0 50 50, Release_stream (Some 0)]
     (demo_cm, demo_state) = Some (cm', k') \<and> cm_wf cm'"
  by (rule config_api_safe) (rule demo_cm_wf)

end
