(* ===== verification/Route_Props.thy ===== *)
theory Route_Props
  imports Config_Api
begin

text \<open>
  What the calls of the configuration manager do: reference counting of devices and streams
  through one locale, the single-pass searches against their specifications, and the results
  of routing, volume and use-case calls.
\<close>

section \<open>Reference counting\<close>

text \<open>
  A shared resource with a use count: acquiring and releasing it moves the count by one and
  touches the hardware only when the count leaves or reaches zero.
\<close>

text \<open>The net effect of a history: \<open>True\<close> acquires, \<open>False\<close> releases.\<close>

definition balance :: "bool list \<Rightarrow> int" where
  "balance bs = int (length (filter id bs)) - int (length (filter Not bs))"

locale use_counted =
  fixes cnt :: "'s \<Rightarrow> int"
    and acquire :: "'s \<Rightarrow> 's option"
    and release :: "'s \<Rightarrow> 's option"
    and hw :: "'s \<Rightarrow> 'w"
    and ok :: "'s \<Rightarrow> bool"
  assumes acquire_cnt: "ok s \<Longrightarrow> acquire s = Some s' \<Longrightarrow> cnt s' = cnt s + 1 \<and> ok s'"
    and release_cnt: "ok s \<Longrightarrow> release s = Some s' \<Longrightarrow> cnt s' = cnt s - 1 \<and> ok s'"
    and acquire_shared: "ok s \<Longrightarrow> 1 \<le> cnt s \<Longrightarrow> acquire s = Some s' \<Longrightarrow> hw s' = hw s"
    and release_shared: "ok s \<Longrightarrow> 2 \<le> cnt s \<Longrightarrow> release s = Some s' \<Longrightarrow> hw s' = hw s"
begin

lemma use_step_cnt:
  "ok s \<Longrightarrow> (if b then acquire else release) s = Some s' \<Longrightarrow> cnt s' = cnt s + balance [b] \<and> ok s'"
  using acquire_cnt [of s s'] release_cnt [of s s'] by (cases b) (auto simp: balance_def)

lemma run_shared:
  "ok s \<Longrightarrow> run_steps (\<lambda>b. if b then acquire else release) bs s = Some s' \<Longrightarrow>
   (\<And>n. n \<le> length bs \<Longrightarrow> 1 \<le> cnt s + balance (take n bs)) \<Longrightarrow>
   cnt s' = cnt s + balance bs \<and> hw s' = hw s"
proof (induction bs arbitrary: s)
  case Nil
  then show ?case by (simp add: balance_def)
next
  case (Cons b bs)
  obtain t where t: "(if b then acquire else release) s = Some t" "run_steps (\<lambda>b. if b then acquire else release) bs t = Some s'"
    using Cons.prems(2) by (auto elim: bind_SomeE)
  have bal: "balance (b # xs) = balance [b] + balance xs" for xs by (simp add: balance_def)
  note ct = use_step_cnt [OF Cons.prems(1) t(1)]
  have pos: "1 \<le> cnt s" "1 \<le> cnt t"
    using Cons.prems(3) [of 0] Cons.prems(3) [of 1] ct by (simp_all add: balance_def)
  have "1 \<le> cnt t + balance (take n bs)" if "n \<le> length bs" for n
    using Cons.prems(3) [of "Suc n"] that ct bal [of "take n bs"] by simp
  then have "cnt s' = cnt t + balance bs \<and> hw s' = hw t"
    using Cons.IH [OF _ t(2)] ct by blast
  moreover have "hw t = hw s"
    using t(1) pos ct acquire_shared [OF Cons.prems(1)] release_shared [OF Cons.prems(1)]
    by (cases b) (auto simp: balance_def)
  ultimately show ?case using ct bal [of bs] by simp
qed

end

subsection \<open>Devices\<close>

definition dev_paths_ok :: "nat \<Rightarrow> nat \<Rightarrow> device \<Rightarrow> bool" where
  "dev_paths_ok on off d \<longleftrightarrow> on < length (elems (path_array d)) \<and> off < length (elems (path_array d))
     \<and> p_id (elems (path_array d) ! on) = e_path_id_on \<and> p_id (elems (path_array d) ! off) = e_path_id_off"

definition dev_apply :: "'k sys \<Rightarrow> mixer option \<Rightarrow> nat \<Rightarrow> device \<times> 'k \<Rightarrow> (device \<times> 'k) option" where
  "dev_apply E mx i = (\<lambda>(d, k). apply_device_path_l E mx d i k)"

lemma apply_path_l_id: "apply_path_l E mx p k = Some (p', k') \<Longrightarrow> p_id p' = p_id p"
  by (auto simp: apply_path_l_def elim!: bind_SomeE)

lemma elems_set_elem_in:
  "i < length (elems a) \<Longrightarrow> elems (set_elem a i x) = (elems a)[i := x]"
  by (simp add: elems_def set_elem_def take_update_swap)

lemma apply_device_path_l_ids:
  assumes "apply_device_path_l E mx d i k = Some (d', k')" and "i < length (elems (path_array d))"
  shows "map p_id (elems (path_array d')) = map p_id (elems (path_array d))"
  using assms
  by (auto simp: apply_device_path_l_def Let_def elems_set_elem_in map_update list_update_same_conv
      elim!: bind_SomeE dest: apply_path_l_id split: if_splits)

lemma dev_paths_ok_ids:
  assumes "dev_paths_ok on off d" and "map p_id (elems (path_array d')) = map p_id (elems (path_array d))"
  shows "dev_paths_ok on off d'"
proof -
  have len: "length (elems (path_array d')) = length (elems (path_array d))"
    using assms(2) by (metis length_map)
  have "p_id (elems (path_array d') ! i) = p_id (elems (path_array d) ! i)"
    if "i < length (elems (path_array d))" for i
    using assms(2) that len by (metis nth_map)
  then show ?thesis using assms(1) len by (simp add: dev_paths_ok_def)
qed

interpretation dev: use_counted "\<lambda>(d, k). use_count d" "dev_apply E mx on" "dev_apply E mx off"
  "\<lambda>(d, k). k" "\<lambda>(d, k). dev_paths_ok on off d" for E :: "'k sys" and mx on off
proof unfold_locales
  fix s s' :: "device \<times> 'k"
  assume ok: "case s of (d, k) \<Rightarrow> dev_paths_ok on off d"
  obtain d k where s: "s = (d, k)" by (cases s)
  obtain d' k' where s': "s' = (d', k')" by (cases s')
  have i: "on < length (elems (path_array d))" "off < length (elems (path_array d))"
    and ids: "p_id (elems (path_array d) ! on) = e_path_id_on" "p_id (elems (path_array d) ! off) = e_path_id_off"
    using ok s by (simp_all add: dev_paths_ok_def)
  show "(case s' of (d, k) \<Rightarrow> use_count d) = (case s of (d, k) \<Rightarrow> use_count d) + 1
      \<and> (case s' of (d, k) \<Rightarrow> dev_paths_ok on off d)" if "dev_apply E mx on s = Some s'"
    using that ids i ok s s' apply_device_path_l_ids [of E mx d on k d' k'] dev_paths_ok_ids [of on off d d']
    by (auto simp: dev_apply_def apply_device_path_l_def Let_def elim!: bind_SomeE split: if_splits)
  show "(case s' of (d, k) \<Rightarrow> use_count d) = (case s of (d, k) \<Rightarrow> use_count d) - 1
      \<and> (case s' of (d, k) \<Rightarrow> dev_paths_ok on off d)" if "dev_apply E mx off s = Some s'"
    using that ids i ok s s' apply_device_path_l_ids [of E mx d off k d' k'] dev_paths_ok_ids [of on off d d']
    by (auto simp: dev_apply_def apply_device_path_l_def Let_def elim!: bind_SomeE split: if_splits)
  show "(case s' of (d, k) \<Rightarrow> k) = (case s of (d, k) \<Rightarrow> k)"
    if "1 \<le> (case s of (d, k) \<Rightarrow> use_count d)" "dev_apply E mx on s = Some s'"
    using that ids s s' by (auto simp: dev_apply_def apply_device_path_l_def)
  show "(case s' of (d, k) \<Rightarrow> k) = (case s of (d, k) \<Rightarrow> k)"
    if "2 \<le> (case s of (d, k) \<Rightarrow> use_count d)" "dev_apply E mx off s = Some s'"
    using that ids s s' by (auto simp: dev_apply_def apply_device_path_l_def)
qed

subsection \<open>Streams\<close>

definition stream_acquire :: "'k sys \<Rightarrow> nat \<Rightarrow> config_mgr \<times> 'k \<Rightarrow> (config_mgr \<times> 'k) option" where
  "stream_acquire E i = (\<lambda>(cm, k).
     case open_stream_l E cm i k of Some ((True, cm'), k') \<Rightarrow> Some (cm', k') | _ \<Rightarrow> None)"

definition stream_release :: "'k sys \<Rightarrow> audio_h \<Rightarrow> nat \<Rightarrow> config_mgr \<times> 'k \<Rightarrow> (config_mgr \<times> 'k) option" where
  "stream_release E A i = (\<lambda>(cm, k). release_stream E A cm (Some i) k)"

definition stream_handle_ok :: "nat \<Rightarrow> config_mgr \<Rightarrow> bool" where
  "stream_handle_ok i cm \<longleftrightarrow> cm_wf cm \<and> i < length (elems (stream_array cm))"

lemma stream_acquire_spec:
  assumes "stream_handle_ok i cm" and "stream_acquire E i (cm, k) = Some (cm', k')"
  shows "stream_handle_ok i cm' \<and> ref_count (get_stream_at cm' i) = ref_count (get_stream_at cm i) + 1
    \<and> (1 \<le> ref_count (get_stream_at cm i) \<longrightarrow> k' = k \<and> device_array cm' = device_array cm)"
proof -
  have h: "cm_wf cm" "i < length (elems (stream_array cm))" using assms(1) by (simp_all add: stream_handle_ok_def)
  let ?s = "get_stream_at cm i"
  have arr: "cm_wf cm'" "stream_array cm' = stream_array (put_stream_at cm i (?s\<lparr>ref_count := ref_count ?s + 1\<rparr>))"
    "ref_count ?s \<noteq> 0 \<longrightarrow> k' = k \<and> device_array cm' = device_array cm"
    using assms(2) open_stream_l_wf [OF h, of E k]
    by (auto simp: stream_acquire_def split: option.splits prod.splits bool.splits)
  then have "get_stream_at cm' i = ?s\<lparr>ref_count := ref_count ?s + 1\<rparr>"
    using get_put_stream [OF h(2), of _ i] by (simp add: get_stream_at_def)
  then show ?thesis using arr h by (simp add: stream_handle_ok_def)
qed

lemma stream_release_spec:
  assumes "stream_handle_ok i cm" and "stream_release E A i (cm, k) = Some (cm', k')"
  shows "stream_handle_ok i cm' \<and> ref_count (get_stream_at cm' i) = ref_count (get_stream_at cm i) - 1
    \<and> (2 \<le> ref_count (get_stream_at cm i) \<longrightarrow> k' = k \<and> device_array cm' = device_array cm)"
proof -
  have h: "cm_wf cm" "i < length (elems (stream_array cm))" using assms(1) by (simp_all add: stream_handle_ok_def)
  let ?s = "get_stream_at cm i"
  let ?s' = "?s\<lparr>ref_count := ref_count ?s - 1,
       current_devices := if ref_count ?s = 1 then 0 else current_devices ?s\<rparr>"
  have arr: "cm_wf cm'" "stream_array cm' = stream_array (put_stream_at cm i ?s')"
    "ref_count ?s \<noteq> 1 \<longrightarrow> k' = k \<and> device_array cm' = device_array cm"
    using assms(2) release_stream_wf [OF h, of E A k] by (auto simp: stream_release_def)
  then have "get_stream_at cm' i = ?s'"
    using get_put_stream [OF h(2), of _ i] by (simp add: get_stream_at_def)
  then show ?thesis using arr h by (simp add: stream_handle_ok_def)
qed

interpretation str: use_counted "\<lambda>(cm, k). ref_count (get_stream_at cm i)" "stream_acquire E i"
  "stream_release E A i" "\<lambda>(cm, k). (device_array cm, k)" "\<lambda>(cm, k). stream_handle_ok i cm"
  for E :: "'k sys" and A i
  by unfold_locales (auto dest: stream_acquire_spec stream_release_spec)

section \<open>Properties of reference counting\<close>

text \<open>
  (C38) A device that is in use is left alone: as long as its use count stays positive, any
  history of "on" and "off" requests from streams changes the count by their balance and
  performs no access to the driver at all.
\<close>

theorem device_shared_untouched:
  assumes "dev_paths_ok on off d"
    and "run_steps (\<lambda>b. if b then dev_apply E mx on else dev_apply E mx off) bs (d, k) = Some (d', k')"
    and "\<And>n. n \<le> length bs \<Longrightarrow> 1 \<le> use_count d + balance (take n bs)"
  shows "use_count d' = use_count d + balance bs \<and> k' = k"
  using dev.run_shared [of on off "(d, k)" E mx bs "(d', k')"] assms by simp

lemma device_shared_untouched_witness:
  "\<exists>d' k'. run_steps (\<lambda>b. if b then dev_apply (demo_card [demo_volume]) (Some demo_mixer) 1
      else dev_apply (demo_card [demo_volume]) (Some demo_mixer) 0) [True, True, False]
      (demo_speaker 2\<lparr>use_count := 1\<rparr>, demo_state) = Some (d', k') \<and> use_count d' = 2 \<and> k' = demo_state"
proof -
  let ?d = "demo_speaker 2\<lparr>use_count := 1\<rparr>"
  have ok: "dev_paths_ok 1 0 ?d" by (simp add: dev_paths_ok_def demo_speaker_def)
  obtain d' k' where run: "run_steps (\<lambda>b. if b then dev_apply (demo_card [demo_volume]) (Some demo_mixer) 1
      else dev_apply (demo_card [demo_volume]) (Some demo_mixer) 0) [True, True, False]
      (?d, demo_state) = Some (d', k')"
    by (simp add: dev_apply_def apply_device_path_l_def demo_speaker_def Let_def)
  have "1 \<le> use_count ?d + balance (take n [True, True, False])" if "n \<le> length [True, True, False]" for n
    using that by (auto simp: balance_def le_Suc_eq numeral_3_eq_3)
  from device_shared_untouched [OF ok run this] run show ?thesis by (simp add: balance_def)
qed

text \<open>
  A stream that is open is left alone in the same way: while at least one reference
  remains, further opens and releases change neither a device nor the driver's state, and the
  reference count is the balance of the history.
\<close>

theorem stream_shared_untouched:
  assumes "cm_wf cm" and "i < length (elems (stream_array cm))"
    and "run_steps (\<lambda>b. if b then stream_acquire E i else stream_release E A i) bs (cm, k) = Some (cm', k')"
    and "\<And>n. n \<le> length bs \<Longrightarrow> 1 \<le> ref_count (get_stream_at cm i) + balance (take n bs)"
  shows "ref_count (get_stream_at cm' i) = ref_count (get_stream_at cm i) + balance bs
    \<and> k' = k \<and> device_array cm' = device_array cm"
  using str.run_shared [of i "(cm, k)" E A bs "(cm', k')"] assms by (simp add: stream_handle_ok_def)

lemma stream_shared_untouched_witness:
  "\<exists>cm' k'. run_steps (\<lambda>b. if b then stream_acquire (demo_card [demo_volume]) 0
      else stream_release (demo_card [demo_volume]) demo_audio_h 0) [True, False]
      (put_stream_at demo_cm 0 (demo_stream e_stream_out_pcm\<lparr>ref_count := 1\<rparr>), demo_state) = Some (cm', k')
    \<and> ref_count (get_stream_at cm' 0) = 1 \<and> k' = demo_state"
proof -
  let ?cm = "put_stream_at demo_cm 0 (demo_stream e_stream_out_pcm\<lparr>ref_count := 1\<rparr>)"
  have 0: "0 < length (elems (stream_array demo_cm))" by (simp add: demo_cm_def)
  have st: "get_stream_at ?cm 0 = demo_stream e_stream_out_pcm\<lparr>ref_count := 1\<rparr>"
    using get_put_stream [OF 0] by simp
  have wf: "cm_wf ?cm"
    using put_stream_wf [OF demo_cm_wf 0] get_stream_wf [OF demo_cm_wf 0, of demo_mixer]
    by (simp add: demo_cm_def get_stream_at_def)
  have l: "0 < length (elems (stream_array ?cm))" using 0 by simp
  have st2: "get_stream_at (put_stream_at ?cm 0 s) 0 = s" for s using get_put_stream [OF l] by simp
  obtain cm' k' where run: "run_steps (\<lambda>b. if b then stream_acquire (demo_card [demo_volume]) 0
      else stream_release (demo_card [demo_volume]) demo_audio_h 0) [True, False] (?cm, demo_state) = Some (cm', k')"
    using st st2 by (simp add: stream_acquire_def stream_release_def open_stream_l_def release_stream_def Let_def
        demo_stream_def)
  have "1 \<le> ref_count (get_stream_at ?cm 0) + balance (take n [True, False])" if "n \<le> length [True, False]" for n
    using that st by (auto simp: balance_def le_Suc_eq numeral_2_eq_2)
  from stream_shared_untouched [OF wf l run this] run st show ?thesis by (simp add: balance_def)
qed

section \<open>The single-pass searches\<close>

text \<open>Specification of the search for two paths: the position of each identifier.\<close>

fun path_index :: "int \<Rightarrow> nat \<Rightarrow> path list \<Rightarrow> nat option" where
  "path_index x i [] = None"
| "path_index x i (p # ps) = (if p_id p = x then Some i else path_index x (Suc i) ps)"

lemma path_index_None: "path_index x i ps = None \<longleftrightarrow> x \<notin> p_id ` set ps"
  by (induction ps arbitrary: i) auto

lemma find_paths_spec_gen:
  "distinct (map p_id ps) \<Longrightarrow> (f0 \<noteq> None \<Longrightarrow> a \<notin> p_id ` set ps) \<Longrightarrow> (f1 \<noteq> None \<Longrightarrow> b \<notin> p_id ` set ps) \<Longrightarrow>
   a \<noteq> b \<Longrightarrow> f0 = None \<or> f1 = None \<Longrightarrow>
   find_paths a b i ps (f0, f1) = (if f0 = None then path_index a i ps else f0,
      if f1 = None then path_index b i ps else f1)"
proof (induction ps arbitrary: i f0 f1)
  case (Cons p ps)
  show ?case
  proof (cases "p_id p = a \<or> p_id p = b")
    case True
    then show ?thesis
      using Cons.prems Cons.IH [of "Some i" f1 "Suc i"] Cons.IH [of f0 "Some i" "Suc i"]
      by auto
  next
    case False
    then show ?thesis using Cons.prems Cons.IH [of f0 f1 "Suc i"] by auto
  qed
qed auto

text \<open>
  The single walk of \<^verbatim>\<open>apply_paths_by_id_l\<close> finds the same paths as two separate
  searches: with distinct path identifiers it returns the position of the first requested
  path and that of the second, and only one position when both identifiers are the same, so
  that no path is applied twice.
\<close>

theorem find_paths_spec:
  assumes "distinct (map p_id ps)"
  shows "find_paths a b 0 ps (None, None) = (path_index a 0 ps, if a = b then None else path_index b 0 ps)"
proof (cases "a = b")
  case False
  then show ?thesis using find_paths_spec_gen [of ps None a None b 0] assms by simp
next
  case True
  have "find_paths a a i ps (None, None) = (path_index a i ps, None)" for i
    by (induction ps arbitrary: i) auto
  then show ?thesis using True by simp
qed

lemma find_paths_spec_witness:
  "find_paths 1 5 0 (elems (path_array (demo_speaker 2))) (None, None) = (Some 1, None)"
  using find_paths_spec [of "elems (path_array (demo_speaker 2))" 1 5] by (simp add: demo_speaker_def)

text \<open>
  Specification of the routing loop: every device that passes the test is treated, in table
  order, with no mask of remaining bits.
\<close>

fun treat_devices ::
  "(device \<Rightarrow> bool) \<Rightarrow> 'k sys \<Rightarrow> mixer option \<Rightarrow> int \<Rightarrow> int \<Rightarrow> device list \<Rightarrow> 'k \<Rightarrow> (device list \<times> 'k) option" where
  "treat_devices P E mx a b [] k = Some ([], k)"
| "treat_devices P E mx a b (d # ds) k =
     (if P d then do {
        (d', k1) \<leftarrow> apply_paths_by_id_l E mx d a b k;
        (ds', k2) \<leftarrow> treat_devices P E mx a b ds k1;
        Some (d' # ds', k2)
      }
      else do {
        (ds', k2) \<leftarrow> treat_devices P E mx a b ds k;
        Some (d # ds', k2)
      })"

lemma treat_devices_none: "\<forall>d \<in> set ds. \<not> P d \<Longrightarrow> treat_devices P E mx a b ds k = Some (ds, k)"
  by (induction ds) auto

lemma treat_devices_cong:
  "(\<And>d. d \<in> set ds \<Longrightarrow> P d = Q d) \<Longrightarrow> treat_devices P E mx a b ds k = treat_devices Q E mx a b ds k"
proof (induction ds arbitrary: k)
  case (Cons d ds)
  then have "P d = Q d" and IH: "treat_devices P E mx a b ds k' = treat_devices Q E mx a b ds k'" for k'
    by simp_all
  then show ?case by (simp add: IH cong: bind_option_cong)
qed simp

lemma and_not_disjoint:
  fixes t u v w :: u32
  assumes "t AND w = t AND v" and "u AND t AND v = 0"
  shows "t AND (w AND NOT u) = t AND v"
proof (rule bit_word_eqI)
  fix n assume n: "n < LENGTH(32)"
  have "bit (t AND w) n = bit (t AND v) n" "\<not> bit (u AND t AND v) n" using assms by simp_all
  then show "bit (t AND (w AND NOT u)) n = bit (t AND v) n"
    using n by (auto simp: bit_simps)
qed

lemma apply_paths_loop_gen:
  assumes "\<forall>d \<in> set ds. d_type d AND w = d_type d AND dv"
    and "sorted_wrt (\<lambda>d e. d_type d AND d_type e AND dv = 0) ds"
  shows "apply_paths_loop E mx fl w a b ds k =
    treat_devices (\<lambda>d. d_type d AND fl = fl \<and> d_type d AND dv \<noteq> 0) E mx a b ds k"
  using assms
proof (induction ds arbitrary: w k)
  case (Cons d ds)
  have d: "d_type d AND w = d_type d AND dv" using Cons.prems(1) by simp
  have keep: "\<forall>e \<in> set ds. d_type e AND w = d_type e AND dv" using Cons.prems(1) by simp
  have "\<forall>e \<in> set ds. d_type e AND (w AND NOT (d_type d)) = d_type e AND dv"
    using Cons.prems(2) keep and_not_disjoint by auto
  then have IH: "apply_paths_loop E mx fl (w AND NOT (d_type d)) a b ds k' =
      treat_devices (\<lambda>d. d_type d AND fl = fl \<and> d_type d AND dv \<noteq> 0) E mx a b ds k'"
    "apply_paths_loop E mx fl w a b ds k' =
      treat_devices (\<lambda>d. d_type d AND fl = fl \<and> d_type d AND dv \<noteq> 0) E mx a b ds k'" for k'
    using Cons.IH [OF _ sorted_wrt.simps(2) [THEN iffD1, OF Cons.prems(2), THEN conjunct2]] keep by blast+
  show ?case
  proof (cases "w = 0")
    case True
    then have "\<forall>e \<in> set (d # ds). d_type e AND dv = 0" using Cons.prems(1) by simp
    then show ?thesis using True by (subst treat_devices_none) auto
  next
    case False
    then show ?thesis using d IH by (auto cong: bind_option_cong)
  qed
qed simp

text \<open>
  The routing loop treats exactly the matching devices, each once: when no two devices of
  the table share a requested bit, clearing the bits already handled and stopping early
  changes nothing; every device with the requested direction flag and a requested bit is
  treated, in table order, and no other device is.
\<close>

theorem apply_paths_loop_spec:
  assumes "sorted_wrt (\<lambda>d e. d_type d AND d_type e AND dv = 0) ds"
  shows "apply_paths_loop E mx fl dv a b ds k =
    treat_devices (\<lambda>d. d_type d AND fl = fl \<and> d_type d AND dv \<noteq> 0) E mx a b ds k"
  using apply_paths_loop_gen [of ds dv dv] assms by simp

lemma apply_paths_loop_spec_witness:
  "apply_paths_loop (demo_card [demo_volume]) (Some demo_mixer) 0 2 0 1 [demo_speaker 2, demo_speaker 4] demo_state
   = treat_devices (\<lambda>d. d_type d AND 0 = 0 \<and> d_type d AND 2 \<noteq> 0) (demo_card [demo_volume]) (Some demo_mixer) 0 1
       [demo_speaker 2, demo_speaker 4] demo_state"
  using apply_paths_loop_spec [of 2 "[demo_speaker 2, demo_speaker 4]" "demo_card [demo_volume]" "Some demo_mixer" 0]
  by (simp add: demo_speaker_def)

text \<open>
  For an output route the direction flag is 0 and excludes nothing: an input device with the
  same bit number that stands earlier in the table is treated, and the output device is not.
  Here a microphone (\<^verbatim>\<open>0x80000004\<close>) takes the place of the headset (\<^verbatim>\<open>0x4\<close>).
\<close>

lemma output_route_hits_input_device:
  "map_option (\<lambda>(ds, _). map use_count ds)
     (apply_paths_loop (demo_card [demo_volume]) (Some demo_mixer)
        (4 AND AUDIO_DEVICE_BIT_IN demo_audio_h) (4 AND NOT (AUDIO_DEVICE_BIT_IN demo_audio_h))
        e_path_id_on (- 1) [demo_speaker 0x80000004\<lparr>use_count := 1\<rparr>, demo_speaker 4\<lparr>use_count := 1\<rparr>] demo_state)
   = Some [2, 1]"
  by (simp add: demo_audio_h_def apply_paths_by_id_l_def apply_found_def demo_speaker_def
      apply_device_path_l_def Let_def)

section \<open>Routing a stream\<close>

text \<open>
  (C5) \<^verbatim>\<open>apply_route\<close> stores the route: on a stream of the requested direction the current
  devices become the requested ones restricted to the platform's devices of that direction, a
  request of the other direction changes nothing (no device, no access to the driver), and in
  both cases no other stream changes.
\<close>

theorem apply_route_result:
  assumes "cm_wf cm" and "i < length (elems (stream_array cm))"
  shows "\<exists>cm' k'. apply_route E A cm i dv k = Some (cm', k')
    \<and> get_current_routes cm' i = (if dv = 0 then 0
        else if (dv AND AUDIO_DEVICE_BIT_IN A \<noteq> 0) \<noteq> stream_is_input (hinfo (get_stream_at cm i))
          then get_current_routes cm i
        else if dv AND AUDIO_DEVICE_BIT_IN A \<noteq> 0 then (dv AND AUDIO_DEVICE_IN_ALL A) OR AUDIO_DEVICE_BIT_IN A
        else dv AND AUDIO_DEVICE_OUT_ALL A)
    \<and> (dv \<noteq> 0 \<and> (dv AND AUDIO_DEVICE_BIT_IN A \<noteq> 0) \<noteq> stream_is_input (hinfo (get_stream_at cm i))
         \<longrightarrow> cm' = cm \<and> k' = k)
    \<and> (\<forall>j. j \<noteq> i \<longrightarrow> get_stream_at cm' j = get_stream_at cm j)"
proof -
  let ?s = "get_stream_at cm i"
  obtain cm' k' where ap: "apply_route E A cm i dv k = Some (cm', k')"
    and arr: "stream_array cm' = stream_array (case route_devices A ?s dv of None \<Rightarrow> cm
      | Some d \<Rightarrow> put_stream_at cm i (?s\<lparr>current_devices := d\<rparr>))"
    using apply_route_wf [OF assms, of E A dv k] by blast
  have g: "get_stream_at cm' j = (case route_devices A ?s dv of None \<Rightarrow> get_stream_at cm j
      | Some d \<Rightarrow> if j = i then ?s\<lparr>current_devices := d\<rparr> else get_stream_at cm j)" for j
    using arr get_put_stream [OF assms(2), of _ j] by (auto simp: get_stream_at_def split: option.splits)
  have none: "route_devices A ?s dv = None \<longleftrightarrow> dv \<noteq> 0 \<and> (dv AND AUDIO_DEVICE_BIT_IN A \<noteq> 0) \<noteq> stream_is_input (hinfo ?s)"
    by (auto simp: route_devices_def)
  then have "dv \<noteq> 0 \<and> (dv AND AUDIO_DEVICE_BIT_IN A \<noteq> 0) \<noteq> stream_is_input (hinfo ?s) \<longrightarrow> cm' = cm \<and> k' = k"
    using ap by (auto simp: apply_route_def Let_def)
  moreover have "get_current_routes cm' i = (if dv = 0 then 0
        else if (dv AND AUDIO_DEVICE_BIT_IN A \<noteq> 0) \<noteq> stream_is_input (hinfo ?s) then get_current_routes cm i
        else if dv AND AUDIO_DEVICE_BIT_IN A \<noteq> 0 then (dv AND AUDIO_DEVICE_IN_ALL A) OR AUDIO_DEVICE_BIT_IN A
        else dv AND AUDIO_DEVICE_OUT_ALL A)"
    using g [of i] by (auto simp: get_current_routes_def route_devices_def)
  moreover have "\<forall>j. j \<noteq> i \<longrightarrow> get_stream_at cm' j = get_stream_at cm j"
    using g by (simp split: option.splits)
  ultimately show ?thesis using ap by blast
qed

lemma apply_route_result_witness:
  "\<exists>cm' k'. apply_route (demo_card [demo_volume]) demo_audio_h demo_cm 0 2 demo_state = Some (cm', k')
     \<and> get_current_routes cm' 0 = 2"
  using apply_route_result [OF demo_cm_wf, of 0 "demo_card [demo_volume]" demo_audio_h 2 demo_state]
  by (auto simp: demo_cm_def demo_audio_h_def get_stream_at_def demo_stream_def zero_stream_def stream_is_input_def)

section \<open>Opening and releasing streams\<close>

text \<open>
  \<^verbatim>\<open>get_stream\<close> opens the last stream of the wanted kind (direction from the device
  mask, PCM or compressed from the format) that is below its instance limit, and counts the
  reference; it returns NULL exactly when every stream of that kind is at its limit, and then
  nothing has changed.
\<close>

theorem get_stream_result:
  assumes "cm_wf cm"
  shows "\<exists>r cm' k'. get_stream E A cm dv fmt k = Some ((r, cm'), k') \<and>
    (let full = (\<lambda>j. ref_count (get_stream_at cm j) \<ge> max_ref_count (get_stream_at cm j));
         kind = (\<lambda>j. j < length (elems (stream_array cm))
                     \<and> st_type (hinfo (get_stream_at cm j)) = wanted_type A dv fmt)
     in case r of
          None \<Rightarrow> (\<forall>j. kind j \<longrightarrow> full j) \<and> cm' = cm \<and> k' = k
        | Some i \<Rightarrow> kind i \<and> \<not> full i \<and> (\<forall>j > i. kind j \<longrightarrow> full j)
            \<and> get_stream_at cm' i = get_stream_at cm i\<lparr>ref_count := ref_count (get_stream_at cm i) + 1\<rparr>
            \<and> (\<forall>j. j \<noteq> i \<longrightarrow> get_stream_at cm' j = get_stream_at cm j))"
proof -
  let ?n = "length (elems (stream_array cm))"
  have len: "unat (count (stream_array cm)) = ?n" using assms by (auto elim!: cm_wfE)
  obtain r cm' k' where gs: "get_stream_loop E cm (wanted_type A dv fmt) ?n k = Some ((r, cm'), k')"
    and res: "case r of
       None \<Rightarrow> cm' = cm \<and> k' = k \<and> (\<forall>j < ?n. st_type (hinfo (get_stream_at cm j)) = wanted_type A dv fmt \<longrightarrow>
                 ref_count (get_stream_at cm j) \<ge> max_ref_count (get_stream_at cm j))
     | Some i \<Rightarrow> i < ?n \<and> st_type (hinfo (get_stream_at cm i)) = wanted_type A dv fmt
         \<and> ref_count (get_stream_at cm i) < max_ref_count (get_stream_at cm i)
         \<and> (\<forall>j. i < j \<and> j < ?n \<and> st_type (hinfo (get_stream_at cm j)) = wanted_type A dv fmt \<longrightarrow>
                 ref_count (get_stream_at cm j) \<ge> max_ref_count (get_stream_at cm j))
         \<and> stream_array cm' = stream_array (put_stream_at cm i
              (get_stream_at cm i\<lparr>ref_count := ref_count (get_stream_at cm i) + 1\<rparr>))"
    using get_stream_loop_spec [OF assms, of ?n E "wanted_type A dv fmt" k] by auto
  show ?thesis
  proof (cases r)
    case None
    then show ?thesis using gs res len by (simp add: get_stream_def Let_def)
  next
    case (Some i)
    have i: "i < ?n" and arr: "stream_array cm' = stream_array (put_stream_at cm i
        (get_stream_at cm i\<lparr>ref_count := ref_count (get_stream_at cm i) + 1\<rparr>))"
      using res Some by simp_all
    have "get_stream_at cm' j = (if j = i then get_stream_at cm i\<lparr>ref_count := ref_count (get_stream_at cm i) + 1\<rparr>
        else get_stream_at cm j)" for j
      using arr get_put_stream [OF i, of _ j] by (simp add: get_stream_at_def)
    then show ?thesis using gs res len Some by (simp add: get_stream_def Let_def not_le)
  qed
qed

lemma get_stream_result_witness:
  "\<exists>cm' k'. get_stream (demo_card [demo_volume]) demo_audio_h demo_cm 2 0 demo_state = Some ((Some 0, cm'), k')
     \<and> ref_count (get_stream_at cm' 0) = 1"
proof -
  have st: "get_stream_at demo_cm 0 = demo_stream e_stream_out_pcm" "get_stream_at demo_cm 1 = demo_stream e_stream_in_pcm"
    "length (elems (stream_array demo_cm)) = 2"
    by (simp_all add: get_stream_at_def demo_cm_def)
  have w: "wanted_type demo_audio_h 2 0 = e_stream_out_pcm"
    by (simp add: wanted_type_def demo_audio_h_def)
  obtain r cm' k' where g: "get_stream (demo_card [demo_volume]) demo_audio_h demo_cm 2 0 demo_state = Some ((r, cm'), k')"
    and res: "case r of
          None \<Rightarrow> (\<forall>j. j < 2 \<and> st_type (hinfo (get_stream_at demo_cm j)) = e_stream_out_pcm \<longrightarrow>
             max_ref_count (get_stream_at demo_cm j) \<le> ref_count (get_stream_at demo_cm j))
        | Some i \<Rightarrow> i < 2 \<and> st_type (hinfo (get_stream_at demo_cm i)) = e_stream_out_pcm
            \<and> get_stream_at cm' i = get_stream_at demo_cm i\<lparr>ref_count := ref_count (get_stream_at demo_cm i) + 1\<rparr>"
    using get_stream_result [OF demo_cm_wf, of "demo_card [demo_volume]" demo_audio_h 2 0 demo_state] st(3) w
    by (auto simp: Let_def split: option.splits)
  obtain i where i: "r = Some i"
    using res st(1) by (cases r) (auto simp: demo_stream_def zero_stream_def dest: spec [of _ 0])
  then have "i = 0" using res st by (auto simp: less_2_cases_iff demo_stream_def)
  then show ?thesis using g res i st(1) by (simp add: demo_stream_def zero_stream_def)
qed

text \<open>
  Releasing the last reference of a stream clears its routes: the count reaches zero, no
  device remains recorded as current, other streams are unchanged; releasing an earlier
  reference only lowers the count.
\<close>

theorem release_stream_result:
  assumes "cm_wf cm" and "i < length (elems (stream_array cm))"
  shows "\<exists>cm' k'. release_stream E A cm (Some i) k = Some (cm', k')
    \<and> ref_count (get_stream_at cm' i) = ref_count (get_stream_at cm i) - 1
    \<and> get_current_routes cm' i = (if ref_count (get_stream_at cm i) = 1 then 0 else get_current_routes cm i)
    \<and> (ref_count (get_stream_at cm i) \<noteq> 1 \<longrightarrow> device_array cm' = device_array cm \<and> k' = k)
    \<and> (\<forall>j. j \<noteq> i \<longrightarrow> get_stream_at cm' j = get_stream_at cm j)"
proof -
  let ?s = "get_stream_at cm i"
  let ?s' = "?s\<lparr>ref_count := ref_count ?s - 1,
       current_devices := if ref_count ?s = 1 then 0 else current_devices ?s\<rparr>"
  obtain cm' k' where rel: "release_stream E A cm (Some i) k = Some (cm', k')"
    and arr: "stream_array cm' = stream_array (put_stream_at cm i ?s')"
    and fr: "ref_count ?s \<noteq> 1 \<longrightarrow> k' = k \<and> device_array cm' = device_array cm"
    using release_stream_wf [OF assms, of E A k] by blast
  have "get_stream_at cm' j = get_stream_at (put_stream_at cm i ?s') j" for j
    using arr by (simp add: get_stream_at_def)
  then show ?thesis
    using rel fr get_put_stream [OF assms(2), of ?s'] by (auto simp: get_current_routes_def)
qed

lemma release_stream_result_witness:
  "\<exists>cm' k'. release_stream (demo_card [demo_volume]) demo_audio_h demo_cm (Some 1) demo_state = Some (cm', k')
     \<and> ref_count (get_stream_at cm' 1) = - 1"
  using release_stream_result [OF demo_cm_wf, of 1 "demo_card [demo_volume]" demo_audio_h demo_state]
  by (auto simp: demo_cm_def get_stream_at_def demo_stream_def zero_stream_def)

section \<open>Volume\<close>

text \<open>
  The hardware volume stays between the minimum and the maximum of the stream's control:
  0 per cent is the minimum, 100 the maximum, anything between the proportional value rounded
  down, with no wrap-around as long as a hundred times the range fits in 32 bits.
\<close>

theorem vol_value_range:
  assumes "v_min v \<le> v_max v" and "(unat (v_max v) - unat (v_min v)) * 100 < 2 ^ 32" and "p \<le> 100"
  shows "unat (vol_value v p) = unat (v_min v) + unat p * (unat (v_max v) - unat (v_min v)) div 100
    \<and> v_min v \<le> vol_value v p \<and> vol_value v p \<le> v_max v"
proof -
  let ?r = "unat (v_max v) - unat (v_min v)"
  have le: "unat (v_min v) \<le> unat (v_max v)" using assms(1) by (simp add: word_le_nat_alt)
  have p: "unat p \<le> 100" using assms(3) by (simp add: word_le_nat_alt)
  have r: "unat (v_max v - v_min v) = ?r" using assms(1) by (simp add: unat_sub)
  have m: "unat p * ?r \<le> 100 * ?r" using p by simp
  then have "unat p * ?r < 2 ^ 32" using assms(2) by linarith
  then have "unat (p * (v_max v - v_min v)) = unat p * ?r"
    using r unat_mult_lem [of p "v_max v - v_min v"] by simp
  then have d: "unat (p * (v_max v - v_min v) div 100) = unat p * ?r div 100" by (simp add: unat_div)
  have b: "unat p * ?r div 100 \<le> ?r" using div_le_mono [OF m, of 100] by simp
  have "unat (v_min v) + unat p * ?r div 100 < 2 ^ 32"
    using b le unsigned_less [of "v_max v", where ?'a = nat] by simp
  then have gen: "unat (v_min v + p * (v_max v - v_min v) div 100) = unat (v_min v) + unat p * ?r div 100"
    using d by (subst unat_add_lem [THEN iffD1]) simp_all
  have "unat (vol_value v p) = unat (v_min v) + unat p * ?r div 100"
    using gen le by (auto simp: vol_value_def)
  then show ?thesis using b le by (simp add: word_le_nat_alt)
qed

lemma vol_value_range_witness:
  "unat (vol_value \<lparr>v_id = 0, v_index = 0, v_min = 10, v_max = 50\<rparr> 50) = 30"
  using vol_value_range [of "\<lparr>v_id = 0, v_index = 0, v_min = 10, v_max = 50\<rparr>" 50] by simp

text \<open>
  \<^verbatim>\<open>set_hw_volume\<close> returns 0 when the stream has a volume control and \<^verbatim>\<open>-ENOSYS\<close>, with
  no access to the driver, when it has none.
\<close>

theorem set_hw_volume_result:
  assumes "cm_wf cm" and "i < length (elems (stream_array cm))" and "in_int (l + r)"
  shows "\<exists>k'. set_hw_volume E cm i l r k =
      Some (if v_id (volume_left (get_stream_at cm i)) = UINT_MAX \<and> v_id (volume_right (get_stream_at cm i)) = UINT_MAX
            then - ENOSYS else 0, k')
    \<and> (v_id (volume_left (get_stream_at cm i)) = UINT_MAX \<and> v_id (volume_right (get_stream_at cm i)) = UINT_MAX
         \<longrightarrow> k' = k)"
  using set_hw_volume_defined [OF assms, of E k] by (auto simp: set_hw_volume_def Let_def)

lemma set_hw_volume_result_witness:
  "\<exists>k'. set_hw_volume (demo_card [demo_volume]) demo_cm 0 30 50 demo_state = Some (0, k')"
  using set_hw_volume_result [OF demo_cm_wf, of 0 30 50 "demo_card [demo_volume]" demo_state]
  by (auto simp: demo_cm_def get_stream_at_def demo_stream_def in_int_def)

section \<open>Use cases\<close>

text \<open>A use case is declared when one of that name has a case of the given name.\<close>

definition use_case_declared :: "stream \<Rightarrow> string \<Rightarrow> string \<Rightarrow> bool" where
  "use_case_declared s setting name \<longleftrightarrow>
     (\<exists>uc \<in> set (elems (usecase_array s)). uc_name uc = setting
        \<and> name \<in> sc_name ` set (elems (case_array uc)))"

lemma find_case_None: "find_case name j scs = None \<longleftrightarrow> name \<notin> sc_name ` set scs"
  by (induction scs arbitrary: j) auto

lemma find_use_case_None:
  "find_use_case setting name i ucs = None \<longleftrightarrow>
   \<not> (\<exists>uc \<in> set ucs. uc_name uc = setting \<and> name \<in> sc_name ` set (elems (case_array uc)))"
  by (induction ucs arbitrary: i) (auto simp: find_case_None [of name 0, symmetric] split: option.splits)

text \<open>
  \<^verbatim>\<open>apply_use_case\<close> returns 0 exactly when the use case is declared for the stream, and
  \<^verbatim>\<open>-ENOSYS\<close> otherwise, in which case nothing changes; the mixer and the devices never do.
\<close>

theorem apply_use_case_result:
  assumes "cm_wf cm" and "n < length (elems (stream_array cm))"
  shows "\<exists>r cm' k'. apply_use_case E cm n setting name k = Some ((r, cm'), k')
    \<and> r = (if use_case_declared (get_stream_at cm n) setting name then 0 else - ENOSYS)
    \<and> (\<not> use_case_declared (get_stream_at cm n) setting name \<longrightarrow> cm' = cm \<and> k' = k)
    \<and> cm_mixer cm' = cm_mixer cm \<and> device_array cm' = device_array cm"
proof -
  obtain r cm' k' where ap: "apply_use_case E cm n setting name k = Some ((r, cm'), k')"
    using apply_use_case_wf [OF assms, of E setting name k] by blast
  have "use_case_declared (get_stream_at cm n) setting name
      \<longleftrightarrow> find_use_case setting name 0 (elems (usecase_array (get_stream_at cm n))) \<noteq> None"
    by (simp add: use_case_declared_def find_use_case_None)
  with ap show ?thesis
    by (cases "find_use_case setting name 0 (elems (usecase_array (get_stream_at cm n)))")
      (auto simp: apply_use_case_def Let_def elim!: bind_SomeE)
qed

lemma apply_use_case_result_witness:
  "\<exists>cm' k'. apply_use_case (demo_card [demo_volume]) demo_cm 0 ''mode'' ''call'' demo_state
     = Some ((- ENOSYS, cm'), k') \<and> cm' = demo_cm"
  using apply_use_case_result [OF demo_cm_wf, of 0 "demo_card [demo_volume]" "''mode''" "''call''" demo_state]
  by (auto simp: demo_cm_def get_stream_at_def demo_stream_def zero_stream_def use_case_declared_def)

end
