(* ===== verification/Stream_Refs.thy ===== *)
theory Stream_Refs
  imports Route_Props
begin

text \<open>
  The references that a client of the configuration manager holds on its streams. Every call of
  the manager changes the counts of the streams by a known amount and nothing else of what
  identifies them; \<open>refs_change\<close> states this for one call and composes over several, so that
  the audio device can keep a ledger of who holds what.
\<close>

section \<open>Changes of the reference counts\<close>

definition refs :: "config_mgr \<Rightarrow> nat \<Rightarrow> int" where
  "refs cm i = ref_count (get_stream_at cm i)"

text \<open>What no call changes of a stream: its kind, its name and the bound on its references.\<close>

definition same_identity :: "stream \<Rightarrow> stream \<Rightarrow> bool" where
  "same_identity s s' \<longleftrightarrow> hinfo s' = hinfo s \<and> s_name s' = s_name s \<and> max_ref_count s' = max_ref_count s"

abbreviation nstreams :: "config_mgr \<Rightarrow> nat" where
  "nstreams cm \<equiv> length (elems (stream_array cm))"

definition refs_change :: "config_mgr \<Rightarrow> config_mgr \<Rightarrow> (nat \<Rightarrow> int) \<Rightarrow> bool" where
  "refs_change cm cm' d \<longleftrightarrow> cm_wf cm' \<and> nstreams cm' = nstreams cm
     \<and> (\<forall>i < nstreams cm. same_identity (get_stream_at cm i) (get_stream_at cm' i)
          \<and> refs cm' i = refs cm i + d i)"

definition one_at :: "nat option \<Rightarrow> nat \<Rightarrow> int" where
  "one_at r i = (if r = Some i then 1 else 0)"

lemma one_at_simps [simp]: "one_at None i = 0" "one_at (Some j) i = (if j = i then 1 else 0)"
  by (simp_all add: one_at_def)

lemma same_identity_refl [simp]: "same_identity s s"
  by (simp add: same_identity_def)

lemma refs_change_refl: "cm_wf cm \<Longrightarrow> refs_change cm cm (\<lambda>_. 0)"
  by (simp add: refs_change_def)

lemma refs_change_trans:
  "refs_change cm cm1 d1 \<Longrightarrow> refs_change cm1 cm2 d2 \<Longrightarrow> refs_change cm cm2 (\<lambda>i. d1 i + d2 i)"
  by (auto simp: refs_change_def same_identity_def)

lemma refs_change_cong:
  "refs_change cm cm' d \<Longrightarrow> (\<And>i. i < nstreams cm \<Longrightarrow> d' i = d i) \<Longrightarrow> refs_change cm cm' d'"
  by (simp add: refs_change_def)

lemma refs_changeD:
  "refs_change cm cm' d \<Longrightarrow> cm_wf cm'" "refs_change cm cm' d \<Longrightarrow> nstreams cm' = nstreams cm"
  "refs_change cm cm' d \<Longrightarrow> i < nstreams cm \<Longrightarrow> refs cm' i = refs cm i + d i"
  "refs_change cm cm' d \<Longrightarrow> i < nstreams cm \<Longrightarrow> hinfo (get_stream_at cm' i) = hinfo (get_stream_at cm i)"
  by (simp_all add: refs_change_def same_identity_def)

text \<open>The configuration whose table of streams is another's with one stream replaced.\<close>

lemma refs_change_put:
  assumes "cm_wf cm'" and "i < nstreams cm" and "stream_array cm' = stream_array (put_stream_at cm i s)"
    and "same_identity (get_stream_at cm i) s" and "ref_count s = refs cm i + n"
  shows "refs_change cm cm' (\<lambda>j. if i = j then n else 0)"
proof -
  have get: "get_stream_at cm' j = (if j = i then s else get_stream_at cm j)" for j
    using get_put_stream [OF assms(2), of s j] assms(3) by (simp add: get_stream_at_def)
  have "nstreams cm' = nstreams cm" using assms(3) by simp
  then show ?thesis using assms(1,4,5) by (simp add: refs_change_def refs_def get)
qed

lemma refs_change_same:
  "cm_wf cm' \<Longrightarrow> stream_array cm' = stream_array cm \<Longrightarrow> refs_change cm cm' (\<lambda>_. 0)"
  by (simp add: refs_change_def refs_def get_stream_at_def)

section \<open>The calls\<close>

lemma apply_route_refs:
  assumes cm: "cm_wf cm" and i: "i < nstreams cm"
  shows "\<exists>cm' k'. apply_route E A cm i dv k = Some (cm', k') \<and> refs_change cm cm' (\<lambda>_. 0)
    \<and> current_devices (get_stream_at cm' i)
      = (case route_devices A (get_stream_at cm i) dv of None \<Rightarrow> current_devices (get_stream_at cm i) | Some d \<Rightarrow> d)"
proof -
  obtain cm' k' where r: "apply_route E A cm i dv k = Some (cm', k')" "cm_wf cm'"
    "stream_array cm' = stream_array (case route_devices A (get_stream_at cm i) dv of
        None \<Rightarrow> cm | Some d \<Rightarrow> put_stream_at cm i (get_stream_at cm i\<lparr>current_devices := d\<rparr>))"
    using apply_route_wf [OF cm i] by metis
  show ?thesis
  proof (cases "route_devices A (get_stream_at cm i) dv")
    case None
    then show ?thesis using r refs_change_same [OF r(2)] by (simp add: get_stream_at_def)
  next
    case (Some d)
    let ?s = "get_stream_at cm i\<lparr>current_devices := d\<rparr>"
    have "refs_change cm cm' (\<lambda>j. if i = j then 0 else 0)"
      by (rule refs_change_put [OF r(2) i, of ?s]) (use r(3) Some in \<open>simp_all add: same_identity_def refs_def\<close>)
    moreover have "get_stream_at cm' i = ?s"
      using r(3) Some get_put_stream [OF i, of ?s i] by (simp add: get_stream_at_def)
    ultimately show ?thesis using r(1) Some by simp
  qed
qed

lemma find_named_stream_bound:
  "find_named_stream cm name = Some i \<Longrightarrow> i < nstreams cm \<and> s_name (get_stream_at cm i) = Some name"
  using find_named_loop_bound [of name 0 "elems (stream_array cm)" i]
  by (simp add: find_named_stream_def get_stream_at_def)

lemma get_named_stream_refs:
  assumes cm: "cm_wf cm"
  shows "\<exists>r cm' k'. get_named_stream E cm name k = Some ((r, cm'), k') \<and> refs_change cm cm' (one_at r)
    \<and> (\<forall>i. r = Some i \<longrightarrow> i < nstreams cm \<and> find_named_stream cm name = Some i)"
proof (cases "find_named_stream cm name")
  case None
  then show ?thesis
    using refs_change_cong [OF refs_change_refl [OF cm], of "one_at None"] by (simp add: get_named_stream_def)
next
  case (Some i)
  let ?s = "get_stream_at cm i"
  have i: "i < nstreams cm" using find_named_stream_bound [OF Some] by simp
  obtain cm' k' where o: "open_stream_l E cm i k = Some ((ref_count ?s < max_ref_count ?s, cm'), k')" "cm_wf cm'"
    "stream_array cm' = stream_array (if ref_count ?s < max_ref_count ?s
       then put_stream_at cm i (?s\<lparr>ref_count := ref_count ?s + 1\<rparr>) else cm)"
    using open_stream_l_wf [OF cm i, of E k] by auto
  show ?thesis
  proof (cases "ref_count ?s < max_ref_count ?s")
    case True
    have "refs_change cm cm' (\<lambda>j. if i = j then 1 else 0)"
      by (rule refs_change_put [OF o(2) i, of "?s\<lparr>ref_count := ref_count ?s + 1\<rparr>"])
        (use o(3) True in \<open>simp_all add: same_identity_def refs_def\<close>)
    then have "refs_change cm cm' (one_at (Some i))" by (rule refs_change_cong) simp
    then show ?thesis using Some o(1) True i by (simp add: get_named_stream_def)
  next
    case False
    then have "refs_change cm cm' (one_at None)"
      using refs_change_cong [OF refs_change_same [OF o(2)], of cm "one_at None"] o(3) by simp
    then show ?thesis using Some o(1) False by (simp add: get_named_stream_def)
  qed
qed

lemma get_stream_refs:
  assumes cm: "cm_wf cm"
  shows "\<exists>r cm' k'. get_stream E A cm devices format k = Some ((r, cm'), k') \<and> refs_change cm cm' (one_at r)
    \<and> (\<forall>i. r = Some i \<longrightarrow> i < nstreams cm \<and> st_type (hinfo (get_stream_at cm i)) = wanted_type A devices format)"
proof -
  let ?n = "unat (count (stream_array cm))" and ?t = "wanted_type A devices format"
  have n: "nstreams cm = ?n" using cm by (auto elim!: cm_wfE)
  obtain r cm' k' where eq: "get_stream_loop E cm ?t ?n k = Some ((r, cm'), k')"
    using get_stream_loop_spec [OF cm, of ?n E ?t k] n by auto
  have wf: "cm_wf cm'" and spec: "case r of None \<Rightarrow> cm' = cm
     | Some i \<Rightarrow> i < ?n \<and> st_type (hinfo (get_stream_at cm i)) = ?t
       \<and> stream_array cm' = stream_array (put_stream_at cm i
            (get_stream_at cm i\<lparr>ref_count := ref_count (get_stream_at cm i) + 1\<rparr>))"
    using get_stream_loop_spec [OF cm, of ?n E ?t k] n unfolding eq by (cases r; simp)+
  have "refs_change cm cm' (one_at r)"
  proof (cases r)
    case None
    then show ?thesis using spec refs_change_cong [OF refs_change_refl [OF cm], of "one_at None"] by simp
  next
    case (Some i)
    have "refs_change cm cm' (\<lambda>j. if i = j then 1 else 0)"
      by (rule refs_change_put [OF wf, of i cm "get_stream_at cm i\<lparr>ref_count := ref_count (get_stream_at cm i) + 1\<rparr>"])
        (use spec Some n in \<open>simp_all add: same_identity_def refs_def\<close>)
    then show ?thesis using Some by (auto elim: refs_change_cong)
  qed
  moreover have "\<forall>i. r = Some i \<longrightarrow> i < nstreams cm \<and> st_type (hinfo (get_stream_at cm i)) = ?t"
    using spec n by (cases r) simp_all
  ultimately show ?thesis using eq by (simp add: get_stream_def)
qed

lemma release_stream_refs:
  assumes cm: "cm_wf cm" and i: "i < nstreams cm"
  shows "\<exists>cm' k'. release_stream E A cm (Some i) k = Some (cm', k') \<and> refs_change cm cm' (\<lambda>j. - one_at (Some i) j)"
proof -
  let ?s = "get_stream_at cm i"
  let ?s' = "?s\<lparr>ref_count := ref_count ?s - 1,
    current_devices := if ref_count ?s = 1 then 0 else current_devices ?s\<rparr>"
  obtain cm' k' where r: "release_stream E A cm (Some i) k = Some (cm', k')" "cm_wf cm'"
    "stream_array cm' = stream_array (put_stream_at cm i ?s')"
    using release_stream_wf [OF cm i] by metis
  have "refs_change cm cm' (\<lambda>j. if i = j then - 1 else 0)"
    by (rule refs_change_put [OF r(2) i r(3)]) (simp_all add: same_identity_def refs_def)
  then have "refs_change cm cm' (\<lambda>j. - one_at (Some i) j)" by (rule refs_change_cong) simp
  then show ?thesis using r(1) by blast
qed

lemma put_case_ctls_identity:
  "same_identity s (put_case_ctls s i j cs)" "ref_count (put_case_ctls s i j cs) = ref_count s"
  by (simp_all add: put_case_ctls_def same_identity_def Let_def)

lemma apply_use_case_refs:
  assumes cm: "cm_wf cm" and n: "n < nstreams cm"
  shows "\<exists>r cm' k'. apply_use_case E cm n setting name k = Some ((r, cm'), k') \<and> refs_change cm cm' (\<lambda>_. 0)"
proof -
  obtain r cm' k' where a: "apply_use_case E cm n setting name k = Some ((r, cm'), k')" "cm_wf cm'"
    using apply_use_case_wf [OF cm n, of E setting name k] by blast
  then consider "cm' = cm" | i j cs where "cm' = put_stream_at cm n (put_case_ctls (get_stream_at cm n) i j cs)"
    by (auto simp: apply_use_case_def Let_def split: option.splits elim!: bind_SomeE)
  then have "refs_change cm cm' (\<lambda>_. 0)"
  proof cases
    case 1
    then show ?thesis using refs_change_refl [OF cm] by simp
  next
    case 2
    have "refs_change cm cm' (\<lambda>j. if n = j then 0 else 0)"
      by (rule refs_change_put [OF a(2) n, of "put_case_ctls (get_stream_at cm n) i j cs"]) (use 2 in \<open>simp_all add: put_case_ctls_identity refs_def\<close>)
    then show ?thesis by simp
  qed
  then show ?thesis using a(1) by blast
qed

section \<open>Ledgers\<close>

text \<open>
  A client of the manager that takes and gives back references: \<open>count\<close> is the manager's count of
  a stream, \<open>held\<close> what the client holds. No step gives back what the client does not hold, and
  a tidy step (one that forgets nothing) keeps the books exact.
\<close>

fun tidy_run :: "('e \<Rightarrow> 's \<Rightarrow> 's option) \<Rightarrow> ('s \<Rightarrow> 'e \<Rightarrow> bool) \<Rightarrow> 'e list \<Rightarrow> 's \<Rightarrow> bool" where
  "tidy_run step tidy [] s = True"
| "tidy_run step tidy (e # es) s =
     (tidy s e \<and> (case step e s of None \<Rightarrow> True | Some s' \<Rightarrow> tidy_run step tidy es s'))"

locale ref_ledger = invariant_machine +
  fixes cnt :: "'b \<Rightarrow> nat \<Rightarrow> int"
    and held :: "'b \<Rightarrow> nat \<Rightarrow> int"
    and size_of :: "'b \<Rightarrow> nat"
    and tidy :: "'b \<Rightarrow> 'a \<Rightarrow> bool"
  assumes step_size: "inv s \<Longrightarrow> step e s = Some s' \<Longrightarrow> size_of s' = size_of s"
    and step_covers: "inv s \<Longrightarrow> step e s = Some s' \<Longrightarrow> i < size_of s \<Longrightarrow>
      cnt s i - held s i \<le> cnt s' i - held s' i"
    and step_exact: "inv s \<Longrightarrow> step e s = Some s' \<Longrightarrow> i < size_of s \<Longrightarrow> tidy s e \<Longrightarrow>
      cnt s' i - held s' i = cnt s i - held s i"
begin

lemma run_size: "inv s \<Longrightarrow> run_steps step es s = Some s' \<Longrightarrow> size_of s' = size_of s"
proof (induction es arbitrary: s)
  case (Cons e es)
  then obtain t where t: "step e s = Some t" "run_steps step es t = Some s'" by (auto elim: bind_SomeE)
  from Cons.IH [OF step_inv [OF Cons.prems(1) t(1)] t(2)] show ?case using step_size [OF Cons.prems(1) t(1)] by simp
qed simp

lemma run_covers:
  "inv s \<Longrightarrow> run_steps step es s = Some s' \<Longrightarrow> i < size_of s \<Longrightarrow>
   size_of s' = size_of s \<and> cnt s i - held s i \<le> cnt s' i - held s' i"
proof (induction es arbitrary: s)
  case (Cons e es)
  then obtain t where t: "step e s = Some t" "run_steps step es t = Some s'" by (auto elim: bind_SomeE)
  from Cons.IH [OF step_inv [OF Cons.prems(1) t(1)] t(2)] show ?case
    using step_size [OF Cons.prems(1) t(1)] step_covers [OF Cons.prems(1) t(1) Cons.prems(3)] Cons.prems(3) by simp
qed simp

lemma run_exact:
  "inv s \<Longrightarrow> run_steps step es s = Some s' \<Longrightarrow> i < size_of s \<Longrightarrow> tidy_run step tidy es s \<Longrightarrow>
   cnt s' i - held s' i = cnt s i - held s i"
proof (induction es arbitrary: s)
  case (Cons e es)
  then obtain t where t: "step e s = Some t" "run_steps step es t = Some s'" by (auto elim: bind_SomeE)
  from Cons.IH [OF step_inv [OF Cons.prems(1) t(1)] t(2)] show ?case
    using step_size [OF Cons.prems(1) t(1)] step_exact [OF Cons.prems(1) t(1) Cons.prems(3)] Cons.prems t(1) by simp
qed simp

end

end
