(* ===== verification/Voice_Trigger.thy ===== *)
theory Voice_Trigger
  imports Stream_Refs
begin

text \<open>
  The audio device of audio/audio_hw.c: its state, the voice trigger state machine (lines
  2456-2731), the parameters and switches of the device (lines 2736-2821), and the use cases
  that a parameter string invokes (lines 303-342). A pointer to a configured stream is its
  index; \<^verbatim>\<open>active_voice_control\<close> is the handle of an input stream. The mutex \<^verbatim>\<open>adev->lock\<close> has no
  counterpart, a locked section being one step.
\<close>

section \<open>The device\<close>

datatype voice_state = eVoiceNone | eVoiceTriggerIdle | eVoiceTriggerArmed | eVoiceTriggerFired
  | eVoiceRecogIdle | eVoiceRecogArmed | eVoiceRecogFired | eVoiceRecogAudio | eVoiceRecogReArm

text \<open>The two members of the anonymous union hold the same pointer; the code uses the first.\<close>

record audio_device =
  mic_mute :: bool
  adev_cm :: config_mgr
  active_voice_control :: "nat option"
  voice_st :: voice_state
  voice_trig_mic :: u32
  global_stream :: "nat option"
  voice_trig_stream :: "nat option"

definition kVoiceTriggerStreamName :: string where "kVoiceTriggerStreamName = ''voice trigger''"
definition kVoiceRecogStreamName :: string where "kVoiceRecogStreamName = ''voice recognition''"

section \<open>The state machine\<close>

definition do_voice_trigger_open_stream ::
  "'k sys \<Rightarrow> audio_h \<Rightarrow> audio_device \<Rightarrow> string \<Rightarrow> 'k \<Rightarrow> (audio_device \<times> 'k) option" where
  "do_voice_trigger_open_stream E A adev streamName k = do {
     ((s, cm1), k1) \<leftarrow> get_named_stream E (adev_cm adev) streamName k;
     let adev1 = adev\<lparr>adev_cm := cm1, voice_trig_stream := s\<rparr>;
     (case s of
        None \<Rightarrow> Some (adev1, k1)
      | Some i \<Rightarrow> do {
          let mic_device = (if voice_trig_mic adev = 0 then AUDIO_DEVICE_IN_BUILTIN_MIC A else voice_trig_mic adev);
          (cm2, k2) \<leftarrow> apply_route E A cm1 i mic_device k1;
          Some (adev1\<lparr>adev_cm := cm2\<rparr>, k2)
        })
   }"

text \<open>
  The last statement of the code, \<^verbatim>\<open>adev->voice_trig_stream == NULL;\<close>, is a comparison: the
  pointer keeps its value.
\<close>

definition do_voice_trigger_close_stream ::
  "'k sys \<Rightarrow> audio_h \<Rightarrow> audio_device \<Rightarrow> 'k \<Rightarrow> (audio_device \<times> 'k) option" where
  "do_voice_trigger_close_stream E A adev k =
     (case voice_trig_stream adev of
        None \<Rightarrow> Some (adev, k)
      | Some i \<Rightarrow> do {
          (cm1, k1) \<leftarrow> apply_route E A (adev_cm adev) i 0 k;
          (cm2, k2) \<leftarrow> release_stream E A cm1 (Some i) k1;
          Some (adev\<lparr>adev_cm := cm2\<rparr>, k2)
        })"

definition voice_trigger_enable ::
  "'k sys \<Rightarrow> audio_h \<Rightarrow> audio_device \<Rightarrow> 'k \<Rightarrow> (audio_device \<times> 'k) option" where
  "voice_trigger_enable E A adev k =
     (if voice_st adev = eVoiceTriggerIdle \<or> voice_st adev = eVoiceTriggerFired then do {
        (adev1, k1) \<leftarrow> do_voice_trigger_open_stream E A adev kVoiceTriggerStreamName k;
        Some (adev1\<lparr>voice_st := eVoiceTriggerArmed\<rparr>, k1)
      }
      else if voice_st adev = eVoiceRecogIdle then do {
        (adev1, k1) \<leftarrow> do_voice_trigger_open_stream E A adev kVoiceRecogStreamName k;
        Some (adev1\<lparr>voice_st := eVoiceRecogArmed\<rparr>, k1)
      }
      else if voice_st adev = eVoiceRecogAudio then Some (adev\<lparr>voice_st := eVoiceRecogReArm\<rparr>, k)
      else Some (adev, k))"

definition voice_trigger_disable ::
  "'k sys \<Rightarrow> audio_h \<Rightarrow> audio_device \<Rightarrow> 'k \<Rightarrow> (audio_device \<times> 'k) option" where
  "voice_trigger_disable E A adev k =
     (if voice_st adev = eVoiceTriggerFired \<or> voice_st adev = eVoiceTriggerArmed then do {
        (adev1, k1) \<leftarrow> do_voice_trigger_close_stream E A adev k;
        Some (adev1\<lparr>voice_st := eVoiceTriggerIdle\<rparr>, k1)
      }
      else if voice_st adev = eVoiceRecogArmed then do {
        (adev1, k1) \<leftarrow> do_voice_trigger_close_stream E A adev k;
        Some (adev1\<lparr>voice_st := eVoiceRecogIdle\<rparr>, k1)
      }
      else if voice_st adev = eVoiceRecogReArm then Some (adev\<lparr>voice_st := eVoiceRecogAudio\<rparr>, k)
      else Some (adev, k))"

definition voice_trigger_triggered :: "audio_device \<Rightarrow> audio_device" where
  "voice_trigger_triggered adev =
     (if voice_st adev = eVoiceTriggerArmed then adev\<lparr>voice_st := eVoiceTriggerFired\<rparr>
      else if voice_st adev = eVoiceRecogArmed then adev\<lparr>voice_st := eVoiceRecogFired\<rparr>
      else adev)"

definition voice_trigger_audio_started_locked :: "audio_device \<Rightarrow> audio_device" where
  "voice_trigger_audio_started_locked adev =
     (if voice_st adev = eVoiceRecogFired then adev\<lparr>voice_st := eVoiceRecogAudio\<rparr> else adev)"

definition voice_trigger_audio_ended_locked ::
  "'k sys \<Rightarrow> audio_h \<Rightarrow> audio_device \<Rightarrow> 'k \<Rightarrow> (audio_device \<times> 'k) option" where
  "voice_trigger_audio_ended_locked E A adev k =
     (if voice_st adev = eVoiceRecogAudio then do {
        (adev1, k1) \<leftarrow> do_voice_trigger_close_stream E A adev k;
        Some (adev1\<lparr>voice_st := eVoiceRecogIdle\<rparr>, k1)
      }
      else if voice_st adev = eVoiceRecogReArm then Some (adev\<lparr>voice_st := eVoiceRecogArmed\<rparr>, k)
      else Some (adev, k))"

definition voice_trigger_audio_stream_name :: "audio_device \<Rightarrow> string option" where
  "voice_trigger_audio_stream_name adev =
     (case voice_st adev of
        eVoiceNone \<Rightarrow> Some kVoiceRecogStreamName
      | eVoiceTriggerIdle \<Rightarrow> Some kVoiceRecogStreamName
      | eVoiceTriggerArmed \<Rightarrow> Some kVoiceRecogStreamName
      | eVoiceTriggerFired \<Rightarrow> Some kVoiceRecogStreamName
      | eVoiceRecogFired \<Rightarrow> Some kVoiceRecogStreamName
      | _ \<Rightarrow> None)"

definition voice_trigger_init :: "audio_device \<Rightarrow> audio_device" where
  "voice_trigger_init adev = adev\<lparr>voice_st :=
     if is_named_stream_defined (adev_cm adev) kVoiceRecogStreamName then eVoiceRecogIdle
     else if is_named_stream_defined (adev_cm adev) kVoiceTriggerStreamName then eVoiceTriggerIdle
     else eVoiceNone\<rparr>"

section \<open>Parameters\<close>

text \<open>
  The platform's \<^verbatim>\<open>str_parms\<close> and audio helpers, which are not part of the repository: does
  \<^verbatim>\<open>str_parms_create_str\<close> succeed, the value that \<^verbatim>\<open>str_parms_get_str\<close> stores for a key of a
  string of pairs (\<open>None\<close> for a negative result), the size of a sample, the number of bits set,
  the name of the module interface, the names of the parameters, the constants of \<^verbatim>\<open>system/audio.h\<close>
  and the size of a frame of a format and a channel mask (\<^verbatim>\<open>audio_stream_out_frame_size\<close> and
  \<^verbatim>\<open>audio_stream_in_frame_size\<close>, which ask the stream for both).
\<close>

record 'k hal_lib =
  parms_create :: "'k \<Rightarrow> bool \<times> 'k"
  parms_get :: "string \<Rightarrow> string \<Rightarrow> string option"
  audio_bytes_per_sample :: "u32 \<Rightarrow> u32"
  popcount :: "u32 \<Rightarrow> u32"
  AUDIO_HARDWARE_INTERFACE :: string
  AUDIO_PARAMETER_STREAM_ROUTING :: string
  AUDIO_PARAMETER_STREAM_INPUT_SOURCE :: string
  AUDIO_SOURCE_VOICE_RECOGNITION :: int
  AUDIO_CHANNEL_OUT_STEREO :: u32
  AUDIO_CHANNEL_IN_MONO :: u32
  audio_frame_size :: "u32 \<Rightarrow> u32 \<Rightarrow> u32"

definition voice_trigger_set_params ::
  "'k sys \<Rightarrow> audio_h \<Rightarrow> 'k hal_lib \<Rightarrow> audio_device \<Rightarrow> string \<Rightarrow> 'k \<Rightarrow> (audio_device \<times> 'k) option" where
  "voice_trigger_set_params E A H adev parms k =
     (let adev1 = (case parms_get H parms ''voice_trigger_mic'' of
                     None \<Rightarrow> adev | Some value \<Rightarrow> adev\<lparr>voice_trig_mic := word_of_int (atoi value)\<rparr>)
      in case parms_get H parms ''voice_trigger'' of
           None \<Rightarrow> Some (adev1, k)
         | Some value \<Rightarrow>
             if value = ''2'' then Some (voice_trigger_triggered adev1, k)
             else if value = ''1'' then voice_trigger_enable E A adev1 k
             else if value = ''0'' then voice_trigger_disable E A adev1 k
             else Some (adev1, k))"

text \<open>A token split at its first equals sign; nothing without one or with an empty value.\<close>

definition split_pair :: "string \<Rightarrow> (string \<times> string) option" where
  "split_pair p =
     (case dropWhile (\<lambda>c. c \<noteq> CHR ''='') p of
        e # v # vs \<Rightarrow> Some (takeWhile (\<lambda>c. c \<noteq> CHR ''='') p, v # vs)
      | _ \<Rightarrow> None)"

fun usecases_loop ::
  "'k sys \<Rightarrow> nat \<Rightarrow> string list \<Rightarrow> int \<Rightarrow> config_mgr \<Rightarrow> 'k \<Rightarrow> ((int \<times> config_mgr) \<times> 'k) option" where
  "usecases_loop E stream [] ret cm k = Some ((ret, cm), k)"
| "usecases_loop E stream (p # ps) ret cm k =
     (case split_pair p of
        None \<Rightarrow> usecases_loop E stream ps ret cm k
      | Some (setting, value) \<Rightarrow> do {
          ((r, cm'), k') \<leftarrow> apply_use_case E cm stream setting value k;
          usecases_loop E stream ps (if r \<ge> 0 then 0 else ret) cm' k'
        })"

definition stream_invoke_usecases ::
  "'k sys \<Rightarrow> config_mgr \<Rightarrow> nat option \<Rightarrow> string \<Rightarrow> 'k \<Rightarrow> ((int \<times> config_mgr) \<times> 'k) option" where
  "stream_invoke_usecases E cm stream kvpairs k =
     (case sys_alloc E k of (ok, k1) \<Rightarrow>
        if \<not> ok then Some ((- ENOMEM, cm), k1)
        else case stream of
          None \<Rightarrow> Some ((- ENOTSUP, cm), k1)
        | Some i \<Rightarrow> usecases_loop E i (strtok_all (CHR '';'') kvpairs) (- ENOTSUP) cm k1)"

definition adev_set_parameters ::
  "'k sys \<Rightarrow> audio_h \<Rightarrow> 'k hal_lib \<Rightarrow> audio_device \<Rightarrow> string \<Rightarrow> 'k \<Rightarrow> ((int \<times> audio_device) \<times> 'k) option" where
  "adev_set_parameters E A H adev kvpairs k = do {
     let (ok, k1) = parms_create H k;
     (adev1, k2) \<leftarrow> (if ok then voice_trigger_set_params E A H adev kvpairs k1 else Some (adev, k1));
     (case global_stream adev1 of
        None \<Rightarrow> Some ((0, adev1), k2)
      | Some g \<Rightarrow> do {
          ((_, cm'), k3) \<leftarrow> stream_invoke_usecases E (adev_cm adev1) (Some g) kvpairs k2;
          Some ((0, adev1\<lparr>adev_cm := cm'\<rparr>), k3)
        })
   }"

definition adev_set_mic_mute :: "audio_device \<Rightarrow> bool \<Rightarrow> int \<times> audio_device" where
  "adev_set_mic_mute adev state = (0, adev\<lparr>mic_mute := state\<rparr>)"

definition adev_get_mic_mute :: "audio_device \<Rightarrow> int \<times> bool" where
  "adev_get_mic_mute adev = (0, mic_mute adev)"

abbreviation IN_PERIOD_SIZE_DEFAULT :: u32 where "IN_PERIOD_SIZE_DEFAULT \<equiv> 256"
abbreviation IN_COMPRESS_BUFFER_SIZE_DEFAULT :: u32 where "IN_COMPRESS_BUFFER_SIZE_DEFAULT \<equiv> 1024"

definition adev_get_input_buffer_size :: "'k hal_lib \<Rightarrow> u32 \<Rightarrow> u32 \<Rightarrow> u32" where
  "adev_get_input_buffer_size H format channel_mask =
     (let s = IN_PERIOD_SIZE_DEFAULT * audio_bytes_per_sample H format * popcount H channel_mask
      in if s > IN_COMPRESS_BUFFER_SIZE_DEFAULT then IN_COMPRESS_BUFFER_SIZE_DEFAULT else s)"

end
