(* ===== verification/Pcm_Params.thy ===== *)
theory Pcm_Params
  imports Mocha_Prelude
begin

text \<open>
  The hardware parameters of a PCM device (\<^verbatim>\<open>tinyalsa/pcm.c\<close>, first part, with the structures of
  \<^verbatim>\<open>sound/asound.h\<close>): masks and intervals, the sample formats, and the request that \<^verbatim>\<open>pcm_open\<close>
  sends to the driver. Fields of \<^verbatim>\<open>struct snd_pcm_hw_params\<close> that the code zeroes and never reads
  (\<^verbatim>\<open>mres\<close>, \<^verbatim>\<open>ires\<close>, \<^verbatim>\<open>msbits\<close>, \<^verbatim>\<open>rate_num\<close>, \<^verbatim>\<open>rate_den\<close>, \<^verbatim>\<open>fifo_size\<close>) are left out.
\<close>

section \<open>Formats and configuration\<close>

datatype pcm_format = PCM_FORMAT_S16_LE | PCM_FORMAT_S32_LE | PCM_FORMAT_S8 | PCM_FORMAT_S24_LE
  | PCM_FORMAT_MAX

record pcm_config =
  channels :: u32
  cfg_rate :: u32
  cfg_period_size :: u32
  cfg_period_count :: u32
  format :: pcm_format
  start_threshold :: u32
  stop_threshold :: u32
  silence_threshold :: u32

fun pcm_format_to_alsa :: "pcm_format \<Rightarrow> u32" where
  "pcm_format_to_alsa PCM_FORMAT_S32_LE = 10"
| "pcm_format_to_alsa PCM_FORMAT_S8 = 0"
| "pcm_format_to_alsa PCM_FORMAT_S24_LE = 6"
| "pcm_format_to_alsa _ = 2"

fun pcm_format_to_bits :: "pcm_format \<Rightarrow> u32" where
  "pcm_format_to_bits PCM_FORMAT_S32_LE = 32"
| "pcm_format_to_bits PCM_FORMAT_S24_LE = 32"
| "pcm_format_to_bits _ = 16"

section \<open>Masks and intervals\<close>

type_synonym snd_mask = "u32 list"

record snd_interval =
  imin :: u32
  imax :: u32
  openmin :: bool
  openmax :: bool
  integer :: bool
  empty :: bool

record snd_pcm_hw_params =
  hw_flags :: u32
  masks :: "snd_mask list"
  intervals :: "snd_interval list"
  rmask :: u32
  cmask :: u32
  info :: u32

abbreviation SNDRV_PCM_HW_PARAM_ACCESS :: int where "SNDRV_PCM_HW_PARAM_ACCESS \<equiv> 0"
abbreviation SNDRV_PCM_HW_PARAM_FORMAT :: int where "SNDRV_PCM_HW_PARAM_FORMAT \<equiv> 1"
abbreviation SNDRV_PCM_HW_PARAM_SUBFORMAT :: int where "SNDRV_PCM_HW_PARAM_SUBFORMAT \<equiv> 2"
abbreviation SNDRV_PCM_HW_PARAM_SAMPLE_BITS :: int where "SNDRV_PCM_HW_PARAM_SAMPLE_BITS \<equiv> 8"
abbreviation SNDRV_PCM_HW_PARAM_FRAME_BITS :: int where "SNDRV_PCM_HW_PARAM_FRAME_BITS \<equiv> 9"
abbreviation SNDRV_PCM_HW_PARAM_CHANNELS :: int where "SNDRV_PCM_HW_PARAM_CHANNELS \<equiv> 10"
abbreviation SNDRV_PCM_HW_PARAM_RATE :: int where "SNDRV_PCM_HW_PARAM_RATE \<equiv> 11"
abbreviation SNDRV_PCM_HW_PARAM_PERIOD_TIME :: int where "SNDRV_PCM_HW_PARAM_PERIOD_TIME \<equiv> 12"
abbreviation SNDRV_PCM_HW_PARAM_PERIOD_SIZE :: int where "SNDRV_PCM_HW_PARAM_PERIOD_SIZE \<equiv> 13"
abbreviation SNDRV_PCM_HW_PARAM_PERIOD_BYTES :: int where "SNDRV_PCM_HW_PARAM_PERIOD_BYTES \<equiv> 14"
abbreviation SNDRV_PCM_HW_PARAM_PERIODS :: int where "SNDRV_PCM_HW_PARAM_PERIODS \<equiv> 15"
abbreviation SNDRV_PCM_HW_PARAM_BUFFER_TIME :: int where "SNDRV_PCM_HW_PARAM_BUFFER_TIME \<equiv> 16"
abbreviation SNDRV_PCM_HW_PARAM_BUFFER_SIZE :: int where "SNDRV_PCM_HW_PARAM_BUFFER_SIZE \<equiv> 17"
abbreviation SNDRV_PCM_HW_PARAM_BUFFER_BYTES :: int where "SNDRV_PCM_HW_PARAM_BUFFER_BYTES \<equiv> 18"
abbreviation SNDRV_PCM_HW_PARAM_TICK_TIME :: int where "SNDRV_PCM_HW_PARAM_TICK_TIME \<equiv> 19"
abbreviation SNDRV_MASK_MAX :: u32 where "SNDRV_MASK_MAX \<equiv> 256"
abbreviation SNDRV_PCM_SUBFORMAT_STD :: u32 where "SNDRV_PCM_SUBFORMAT_STD \<equiv> 0"
abbreviation SNDRV_PCM_ACCESS_MMAP_INTERLEAVED :: u32 where "SNDRV_PCM_ACCESS_MMAP_INTERLEAVED \<equiv> 0"
abbreviation SNDRV_PCM_ACCESS_RW_INTERLEAVED :: u32 where "SNDRV_PCM_ACCESS_RW_INTERLEAVED \<equiv> 3"
abbreviation SNDRV_PCM_HW_PARAMS_NO_PERIOD_WAKEUP :: u32 where "SNDRV_PCM_HW_PARAMS_NO_PERIOD_WAKEUP \<equiv> 4"

definition param_is_mask :: "int \<Rightarrow> bool" where
  "param_is_mask p \<longleftrightarrow> SNDRV_PCM_HW_PARAM_ACCESS \<le> p \<and> p \<le> SNDRV_PCM_HW_PARAM_SUBFORMAT"

definition param_is_interval :: "int \<Rightarrow> bool" where
  "param_is_interval p \<longleftrightarrow> SNDRV_PCM_HW_PARAM_SAMPLE_BITS \<le> p \<and> p \<le> SNDRV_PCM_HW_PARAM_TICK_TIME"

definition param_to_interval :: "snd_pcm_hw_params \<Rightarrow> int \<Rightarrow> snd_interval" where
  "param_to_interval p n = intervals p ! nat (n - SNDRV_PCM_HW_PARAM_SAMPLE_BITS)"

definition param_to_mask :: "snd_pcm_hw_params \<Rightarrow> int \<Rightarrow> snd_mask" where
  "param_to_mask p n = masks p ! nat (n - SNDRV_PCM_HW_PARAM_ACCESS)"

text \<open>Writing through the pointers the two functions return.\<close>

definition put_interval :: "snd_pcm_hw_params \<Rightarrow> int \<Rightarrow> snd_interval \<Rightarrow> snd_pcm_hw_params" where
  "put_interval p n i = p\<lparr>intervals := (intervals p)[nat (n - SNDRV_PCM_HW_PARAM_SAMPLE_BITS) := i]\<rparr>"

definition put_mask :: "snd_pcm_hw_params \<Rightarrow> int \<Rightarrow> snd_mask \<Rightarrow> snd_pcm_hw_params" where
  "put_mask p n m = p\<lparr>masks := (masks p)[nat (n - SNDRV_PCM_HW_PARAM_ACCESS) := m]\<rparr>"

definition param_set_mask :: "snd_pcm_hw_params \<Rightarrow> int \<Rightarrow> u32 \<Rightarrow> snd_pcm_hw_params" where
  "param_set_mask p n b =
     (if b \<ge> SNDRV_MASK_MAX then p
      else if param_is_mask n then
        let m = (param_to_mask p n)[0 := 0, 1 := 0];
            w = unat (drop_bit 5 b)
        in put_mask p n (m[w := m ! w OR push_bit (unat (b AND 31)) 1])
      else p)"

definition param_set_min :: "snd_pcm_hw_params \<Rightarrow> int \<Rightarrow> u32 \<Rightarrow> snd_pcm_hw_params" where
  "param_set_min p n val =
     (if param_is_interval n then put_interval p n ((param_to_interval p n)\<lparr>imin := val\<rparr>) else p)"

definition param_get_min :: "snd_pcm_hw_params \<Rightarrow> int \<Rightarrow> u32" where
  "param_get_min p n = (if param_is_interval n then imin (param_to_interval p n) else 0)"

definition param_get_max :: "snd_pcm_hw_params \<Rightarrow> int \<Rightarrow> u32" where
  "param_get_max p n = (if param_is_interval n then imax (param_to_interval p n) else 0)"

definition param_set_int :: "snd_pcm_hw_params \<Rightarrow> int \<Rightarrow> u32 \<Rightarrow> snd_pcm_hw_params" where
  "param_set_int p n val =
     (if param_is_interval n
      then put_interval p n ((param_to_interval p n)\<lparr>imin := val, imax := val, integer := True\<rparr>) else p)"

definition param_get_int :: "snd_pcm_hw_params \<Rightarrow> int \<Rightarrow> u32" where
  "param_get_int p n =
     (if param_is_interval n \<and> integer (param_to_interval p n) then imax (param_to_interval p n) else 0)"

text \<open>\<^verbatim>\<open>memset\<close> to zero, then all 64 low mask bits and the widest intervals.\<close>

definition any_interval :: snd_interval where
  "any_interval = \<lparr>imin = 0, imax = UINT_MAX, openmin = False, openmax = False, integer = False,
     empty = False\<rparr>"

definition param_init :: snd_pcm_hw_params where
  "param_init = \<lparr>hw_flags = 0, masks = replicate 3 ([UINT_MAX, UINT_MAX] @ replicate 6 0),
     intervals = replicate 12 any_interval, rmask = UINT_MAX, cmask = 0, info = UINT_MAX\<rparr>"

section \<open>Queries\<close>

datatype pcm_param = PCM_PARAM_ACCESS | PCM_PARAM_FORMAT | PCM_PARAM_SUBFORMAT | PCM_PARAM_SAMPLE_BITS
  | PCM_PARAM_FRAME_BITS | PCM_PARAM_CHANNELS | PCM_PARAM_RATE | PCM_PARAM_PERIOD_TIME
  | PCM_PARAM_PERIOD_SIZE | PCM_PARAM_PERIOD_BYTES | PCM_PARAM_PERIODS | PCM_PARAM_BUFFER_TIME
  | PCM_PARAM_BUFFER_SIZE | PCM_PARAM_BUFFER_BYTES | PCM_PARAM_TICK_TIME

fun pcm_param_to_alsa :: "pcm_param \<Rightarrow> int" where
  "pcm_param_to_alsa PCM_PARAM_ACCESS = SNDRV_PCM_HW_PARAM_ACCESS"
| "pcm_param_to_alsa PCM_PARAM_FORMAT = SNDRV_PCM_HW_PARAM_FORMAT"
| "pcm_param_to_alsa PCM_PARAM_SUBFORMAT = SNDRV_PCM_HW_PARAM_SUBFORMAT"
| "pcm_param_to_alsa PCM_PARAM_SAMPLE_BITS = SNDRV_PCM_HW_PARAM_SAMPLE_BITS"
| "pcm_param_to_alsa PCM_PARAM_FRAME_BITS = SNDRV_PCM_HW_PARAM_FRAME_BITS"
| "pcm_param_to_alsa PCM_PARAM_CHANNELS = SNDRV_PCM_HW_PARAM_CHANNELS"
| "pcm_param_to_alsa PCM_PARAM_RATE = SNDRV_PCM_HW_PARAM_RATE"
| "pcm_param_to_alsa PCM_PARAM_PERIOD_TIME = SNDRV_PCM_HW_PARAM_PERIOD_TIME"
| "pcm_param_to_alsa PCM_PARAM_PERIOD_SIZE = SNDRV_PCM_HW_PARAM_PERIOD_SIZE"
| "pcm_param_to_alsa PCM_PARAM_PERIOD_BYTES = SNDRV_PCM_HW_PARAM_PERIOD_BYTES"
| "pcm_param_to_alsa PCM_PARAM_PERIODS = SNDRV_PCM_HW_PARAM_PERIODS"
| "pcm_param_to_alsa PCM_PARAM_BUFFER_TIME = SNDRV_PCM_HW_PARAM_BUFFER_TIME"
| "pcm_param_to_alsa PCM_PARAM_BUFFER_SIZE = SNDRV_PCM_HW_PARAM_BUFFER_SIZE"
| "pcm_param_to_alsa PCM_PARAM_BUFFER_BYTES = SNDRV_PCM_HW_PARAM_BUFFER_BYTES"
| "pcm_param_to_alsa PCM_PARAM_TICK_TIME = SNDRV_PCM_HW_PARAM_TICK_TIME"

text \<open>The parameters may be NULL, as \<^verbatim>\<open>pcm_params_get\<close> returns them on failure.\<close>

definition pcm_params_get_mask :: "snd_pcm_hw_params option \<Rightarrow> pcm_param \<Rightarrow> snd_mask option" where
  "pcm_params_get_mask params param =
     (case params of None \<Rightarrow> None
      | Some p \<Rightarrow>
          let n = pcm_param_to_alsa param in
          if n < 0 \<or> \<not> param_is_mask n then None else Some (param_to_mask p n))"

definition pcm_params_get_min :: "snd_pcm_hw_params option \<Rightarrow> pcm_param \<Rightarrow> u32" where
  "pcm_params_get_min params param =
     (case params of None \<Rightarrow> 0
      | Some p \<Rightarrow> let n = pcm_param_to_alsa param in if n < 0 then 0 else param_get_min p n)"

definition pcm_params_get_max :: "snd_pcm_hw_params option \<Rightarrow> pcm_param \<Rightarrow> u32" where
  "pcm_params_get_max params param =
     (case params of None \<Rightarrow> 0
      | Some p \<Rightarrow> let n = pcm_param_to_alsa param in if n < 0 then 0 else param_get_max p n)"

section \<open>The request of \<open>pcm_open\<close>\<close>

abbreviation PCM_IN :: u32 where "PCM_IN \<equiv> 0x10000000"
abbreviation PCM_OUT :: u32 where "PCM_OUT \<equiv> 0"
abbreviation PCM_MMAP :: u32 where "PCM_MMAP \<equiv> 1"
abbreviation PCM_NOIRQ :: u32 where "PCM_NOIRQ \<equiv> 2"
abbreviation PCM_NORESTART :: u32 where "PCM_NORESTART \<equiv> 4"
abbreviation PCM_MONOTONIC :: u32 where "PCM_MONOTONIC \<equiv> 8"

text \<open>The parameters passed to \<^verbatim>\<open>SNDRV_PCM_IOCTL_HW_PARAMS\<close>.\<close>

definition open_params :: "u32 \<Rightarrow> pcm_config \<Rightarrow> snd_pcm_hw_params" where
  "open_params flags cfg =
     (let p0 = param_init;
          p1 = param_set_mask p0 SNDRV_PCM_HW_PARAM_FORMAT (pcm_format_to_alsa (format cfg));
          p2 = param_set_mask p1 SNDRV_PCM_HW_PARAM_SUBFORMAT SNDRV_PCM_SUBFORMAT_STD;
          p3 = param_set_min p2 SNDRV_PCM_HW_PARAM_PERIOD_SIZE (cfg_period_size cfg);
          p4 = param_set_int p3 SNDRV_PCM_HW_PARAM_SAMPLE_BITS (pcm_format_to_bits (format cfg));
          p5 = param_set_int p4 SNDRV_PCM_HW_PARAM_FRAME_BITS (pcm_format_to_bits (format cfg) * channels cfg);
          p6 = param_set_int p5 SNDRV_PCM_HW_PARAM_CHANNELS (channels cfg);
          p7 = param_set_int p6 SNDRV_PCM_HW_PARAM_PERIODS (cfg_period_count cfg);
          p8 = param_set_int p7 SNDRV_PCM_HW_PARAM_RATE (cfg_rate cfg);
          p9 = (if flags AND PCM_NOIRQ \<noteq> 0
                then p8\<lparr>hw_flags := hw_flags p8 OR SNDRV_PCM_HW_PARAMS_NO_PERIOD_WAKEUP\<rparr> else p8)
      in param_set_mask p9 SNDRV_PCM_HW_PARAM_ACCESS
           (if flags AND PCM_MMAP \<noteq> 0 then SNDRV_PCM_ACCESS_MMAP_INTERLEAVED
            else SNDRV_PCM_ACCESS_RW_INTERLEAVED))"

section \<open>Laws\<close>

definition params_ok :: "snd_pcm_hw_params \<Rightarrow> bool" where
  "params_ok p \<longleftrightarrow> length (masks p) = 3 \<and> (\<forall>m \<in> set (masks p). length m = 8 \<and> drop 2 m = replicate 6 0)
     \<and> length (intervals p) = 12"

text \<open>Does a mask hold the value \<open>i\<close>?\<close>

definition mask_test :: "snd_mask \<Rightarrow> nat \<Rightarrow> bool" where
  "mask_test m i = bit (m ! (i div 32)) (i mod 32)"

lemma params_ok_init [simp]: "params_ok param_init"
  by (simp add: params_ok_def param_init_def)

lemma interval_index:
  "param_is_interval n \<Longrightarrow> params_ok p \<Longrightarrow> nat (n - SNDRV_PCM_HW_PARAM_SAMPLE_BITS) < length (intervals p)"
  by (auto simp: param_is_interval_def params_ok_def)

lemma interval_index_inj:
  "param_is_interval n \<Longrightarrow> param_is_interval n' \<Longrightarrow>
   nat (n - SNDRV_PCM_HW_PARAM_SAMPLE_BITS) = nat (n' - SNDRV_PCM_HW_PARAM_SAMPLE_BITS) \<longleftrightarrow> n = n'"
  by (auto simp: param_is_interval_def)

lemma put_interval_get [simp]:
  "params_ok p \<Longrightarrow> param_is_interval n \<Longrightarrow> param_is_interval n' \<Longrightarrow>
   param_to_interval (put_interval p n i) n' = (if n = n' then i else param_to_interval p n')"
  using interval_index [of n p] interval_index_inj [of n n']
  by (auto simp: param_to_interval_def put_interval_def nth_list_update)

lemma put_mask_get [simp]:
  "params_ok p \<Longrightarrow> param_is_mask n \<Longrightarrow> param_is_mask n' \<Longrightarrow>
   param_to_mask (put_mask p n m) n' = (if n = n' then m else param_to_mask p n')"
  by (auto simp: param_to_mask_def put_mask_def nth_list_update params_ok_def param_is_mask_def)

lemma put_frame [simp]:
  "param_to_mask (put_interval p n i) n' = param_to_mask p n'"
  "param_to_interval (put_mask p n m) n' = param_to_interval p n'"
  "hw_flags (put_interval p n i) = hw_flags p" "hw_flags (put_mask p n m) = hw_flags p"
  "param_to_mask (p\<lparr>hw_flags := f\<rparr>) n' = param_to_mask p n'"
  "param_to_interval (p\<lparr>hw_flags := f\<rparr>) n' = param_to_interval p n'"
  "params_ok (p\<lparr>hw_flags := f\<rparr>) = params_ok p"
  by (simp_all add: param_to_mask_def param_to_interval_def put_interval_def put_mask_def params_ok_def)

lemma params_ok_put_interval [simp]: "params_ok p \<Longrightarrow> params_ok (put_interval p n i)"
  by (simp add: params_ok_def put_interval_def)

lemma params_ok_put_mask: "params_ok p \<Longrightarrow> length m = 8 \<Longrightarrow> drop 2 m = replicate 6 0 \<Longrightarrow> params_ok (put_mask p n m)"
  by (auto simp: params_ok_def put_mask_def dest!: set_update_subset_insert [THEN subsetD])

lemma param_mask_shape:
  "params_ok p \<Longrightarrow> param_is_mask n \<Longrightarrow> length (param_to_mask p n) = 8 \<and> drop 2 (param_to_mask p n) = replicate 6 0"
  by (auto simp: params_ok_def param_to_mask_def param_is_mask_def)

text \<open>A value below 64 replaces the whole mask.\<close>

definition one_hot :: "u32 \<Rightarrow> snd_mask" where
  "one_hot b = [if b < 32 then push_bit (unat b) 1 else 0,
                if b < 32 then 0 else push_bit (unat b - 32) 1] @ replicate 6 0"

lemma one_hot_test:
  assumes "b < 64" and "i < 256"
  shows "mask_test (one_hot b) i \<longleftrightarrow> i = unat b"
proof -
  have b: "unat b < 64" using assms(1) by (simp add: word_less_nat_alt)
  consider "i < 32" | "32 \<le> i" "i < 64" | "64 \<le> i" by linarith
  then show ?thesis
  proof cases
    case 3
    then have "2 \<le> i div 32" "i div 32 < 8" using assms(2) by auto
    then have "one_hot b ! (i div 32) = 0" by (simp add: one_hot_def nth_append)
    then show ?thesis using 3 b by (simp add: mask_test_def)
  next
    case 2
    then have "i div 32 = 1" "i mod 32 = i - 32" by (simp_all add: le_div_geq le_mod_geq)
    then show ?thesis
      using 2 b by (auto simp: mask_test_def one_hot_def bit_simps word_less_nat_alt)
  next
    case 1
    then show ?thesis using b by (auto simp: mask_test_def one_hot_def bit_simps word_less_nat_alt)
  qed
qed

lemma param_set_mask_one_hot:
  assumes ok: "params_ok p" and n: "param_is_mask n" and b: "b < 64"
  shows "param_set_mask p n b = put_mask p n (one_hot b)"
proof -
  have bb: "unat b < 64" using b by (simp add: word_less_nat_alt)
  have small: "\<not> b \<ge> SNDRV_MASK_MAX" using bb by (simp add: word_le_nat_alt)
  obtain x y where m: "param_to_mask p n = [x, y] @ replicate 6 0"
    using append_take_drop_id [of 2 "param_to_mask p n"] param_mask_shape [OF ok n]
    by (cases "param_to_mask p n"; cases "tl (param_to_mask p n)") (auto simp: numeral_2_eq_2)
  have w: "unat (drop_bit 5 b) = unat b div 32" by (simp add: drop_bit_eq_div unat_div_distrib)
  have "b AND 31 = b mod 32"
    using take_bit_eq_mask [of 5 b] by (simp add: mask_eq_exp_minus_1 take_bit_eq_mod)
  then have r: "unat (b AND 31) = unat b mod 32" by (simp add: unat_mod_distrib)
  show ?thesis
  proof (cases "unat b < 32")
    case True
    then show ?thesis
      using small n m w r by (simp add: param_set_mask_def one_hot_def word_less_nat_alt Let_def)
  next
    case False
    then have "unat b div 32 = 1" "unat b mod 32 = unat b - 32" using bb by (simp_all add: le_div_geq le_mod_geq)
    then show ?thesis
      using False small n m w r by (simp add: param_set_mask_def one_hot_def word_less_nat_alt Let_def)
  qed
qed

lemma params_ok_one_hot [simp]: "params_ok p \<Longrightarrow> params_ok (put_mask p n (one_hot b))"
  by (rule params_ok_put_mask) (simp_all add: one_hot_def)

lemmas param_sets = param_set_int_def param_set_min_def param_set_mask_one_hot

lemma param_kinds [simp]:
  "param_is_mask 0" "param_is_mask 1" "param_is_mask 2"
  "\<not> param_is_mask (numeral n) \<longleftrightarrow> (2 :: int) < numeral n"
  "param_is_interval (numeral n) \<longleftrightarrow> (8 :: int) \<le> numeral n \<and> (numeral n :: int) \<le> 19"
  by (simp_all add: param_is_mask_def param_is_interval_def not_le)

text \<open>
  The request \<^verbatim>\<open>pcm_open\<close> makes of the driver is the caller's configuration: exactly the
  chosen format, the standard subformat and the access mode that \<^verbatim>\<open>PCM_MMAP\<close> selects; channels,
  rate, periods and sample size fixed to single values, the period size bounded from below, and
  nothing else constrained.
\<close>

theorem open_params_request:
  "(\<forall>i < 256. mask_test (param_to_mask (open_params flags cfg) SNDRV_PCM_HW_PARAM_FORMAT) i
       \<longleftrightarrow> i = unat (pcm_format_to_alsa (format cfg)))
   \<and> (\<forall>i < 256. mask_test (param_to_mask (open_params flags cfg) SNDRV_PCM_HW_PARAM_SUBFORMAT) i \<longleftrightarrow> i = 0)
   \<and> (\<forall>i < 256. mask_test (param_to_mask (open_params flags cfg) SNDRV_PCM_HW_PARAM_ACCESS) i
       \<longleftrightarrow> i = (if flags AND PCM_MMAP \<noteq> 0 then 0 else 3))
   \<and> (\<forall>n. param_is_interval n \<longrightarrow> param_to_interval (open_params flags cfg) n =
        (if n = SNDRV_PCM_HW_PARAM_PERIOD_SIZE then any_interval\<lparr>imin := cfg_period_size cfg\<rparr>
         else case map_of [(SNDRV_PCM_HW_PARAM_SAMPLE_BITS, pcm_format_to_bits (format cfg)),
             (SNDRV_PCM_HW_PARAM_FRAME_BITS, pcm_format_to_bits (format cfg) * channels cfg),
             (SNDRV_PCM_HW_PARAM_CHANNELS, channels cfg), (SNDRV_PCM_HW_PARAM_PERIODS, cfg_period_count cfg),
             (SNDRV_PCM_HW_PARAM_RATE, cfg_rate cfg)] n of
           Some v \<Rightarrow> any_interval\<lparr>imin := v, imax := v, integer := True\<rparr> | None \<Rightarrow> any_interval))"
proof -
  have f: "pcm_format_to_alsa (format cfg) < 64" by (cases "format cfg") simp_all
  have a: "(if flags AND PCM_MMAP \<noteq> 0 then SNDRV_PCM_ACCESS_MMAP_INTERLEAVED else SNDRV_PCM_ACCESS_RW_INTERLEAVED) < 64"
    by simp
  have i: "param_to_interval param_init n = any_interval" if "param_is_interval n" for n
    using that interval_index [OF that params_ok_init] by (simp add: param_to_interval_def param_init_def)
  show ?thesis
    using f a by (auto simp: open_params_def Let_def param_sets one_hot_test i)
qed

definition demo_pcm_config :: pcm_config where
  "demo_pcm_config = \<lparr>channels = 2, cfg_rate = 44100, cfg_period_size = 1024, cfg_period_count = 4,
     format = PCM_FORMAT_S16_LE, start_threshold = 0, stop_threshold = 0, silence_threshold = 0\<rparr>"

lemma open_params_request_witness:
  "mask_test (param_to_mask (open_params PCM_MMAP demo_pcm_config) SNDRV_PCM_HW_PARAM_FORMAT) 2
   \<and> param_to_interval (open_params PCM_MMAP demo_pcm_config) SNDRV_PCM_HW_PARAM_RATE
       = any_interval\<lparr>imin := 44100, imax := 44100, integer := True\<rparr>"
  using open_params_request [of PCM_MMAP demo_pcm_config] by (simp add: demo_pcm_config_def)

end
