(* ===== verification/Pcm.thy ===== *)
theory Pcm
  imports Pcm_Params C_Strings
begin

text \<open>
  A PCM device (\<^verbatim>\<open>tinyalsa/pcm.c\<close>): opening and closing, the start and stop machine, reading and
  writing through the driver, and the pointers shared with the driver through \<^verbatim>\<open>mmap\<close> or
  \<^verbatim>\<open>SNDRV_PCM_IOCTL_SYNC_PTR\<close>. The transfer through the mapped buffer is in the next theory.
\<close>

section \<open>The driver\<close>

text \<open>\<^verbatim>\<open>struct snd_pcm_mmap_status\<close>, \<^verbatim>\<open>struct snd_pcm_mmap_control\<close> and \<^verbatim>\<open>struct snd_pcm_sw_params\<close>.\<close>

record mmap_status =
  ms_state :: int
  hw_ptr :: u32
  tstamp :: "int \<times> int"

record mmap_control =
  appl_ptr :: u32
  avail_min :: u32

record snd_pcm_sw_params =
  tstamp_mode :: int
  period_step :: u32
  sw_avail_min :: u32
  xfer_align :: u32
  sw_start_threshold :: u32
  sw_stop_threshold :: u32
  sw_silence_threshold :: u32
  silence_size :: u32
  sw_boundary :: u32

text \<open>
  The kernel's PCM driver and the C library, one function per call; \<open>'k\<close> is their state,
  \<^verbatim>\<open>errno\<close> included. Results of \<^verbatim>\<open>ioctl\<close> are 0 or negative.
\<close>

record 'k psys =
  p_errno :: "'k \<Rightarrow> int"
  p_strerror :: "int \<Rightarrow> string"
  p_alloc :: "'k \<Rightarrow> bool \<times> 'k"
  p_open :: "string \<Rightarrow> 'k \<Rightarrow> int \<times> 'k"
  p_close :: "int \<Rightarrow> 'k \<Rightarrow> 'k"
  p_info :: "int \<Rightarrow> 'k \<Rightarrow> int \<times> 'k"
  p_hw_refine :: "int \<Rightarrow> snd_pcm_hw_params \<Rightarrow> 'k \<Rightarrow> (int \<times> snd_pcm_hw_params) \<times> 'k"
  p_hw_params :: "int \<Rightarrow> snd_pcm_hw_params \<Rightarrow> 'k \<Rightarrow> (int \<times> snd_pcm_hw_params) \<times> 'k"
  p_sw_params :: "int \<Rightarrow> snd_pcm_sw_params \<Rightarrow> 'k \<Rightarrow> int \<times> 'k"
  p_ttstamp :: "int \<Rightarrow> 'k \<Rightarrow> int \<times> 'k"
  p_mmap_buffer :: "int \<Rightarrow> u32 \<Rightarrow> 'k \<Rightarrow> bool \<times> 'k"
  p_munmap_buffer :: "int \<Rightarrow> u32 \<Rightarrow> 'k \<Rightarrow> 'k"
  p_mmap_status :: "int \<Rightarrow> 'k \<Rightarrow> bool \<times> 'k"
  p_mmap_control :: "int \<Rightarrow> 'k \<Rightarrow> bool \<times> 'k"
  p_munmap_status :: "int \<Rightarrow> 'k \<Rightarrow> 'k"
  p_munmap_control :: "int \<Rightarrow> 'k \<Rightarrow> 'k"
  p_sync_ptr :: "int \<Rightarrow> u32 \<Rightarrow> mmap_status \<Rightarrow> mmap_control \<Rightarrow> 'k \<Rightarrow> (int \<times> mmap_status \<times> mmap_control) \<times> 'k"
  p_status :: "int \<Rightarrow> 'k \<Rightarrow> mmap_status \<times> 'k"
    \<comment> \<open>a read of the shared status page\<close>
  p_control :: "int \<Rightarrow> 'k \<Rightarrow> mmap_control \<times> 'k"
  p_put_control :: "int \<Rightarrow> mmap_control \<Rightarrow> 'k \<Rightarrow> 'k"
  p_prepare :: "int \<Rightarrow> 'k \<Rightarrow> int \<times> 'k"
  p_start :: "int \<Rightarrow> 'k \<Rightarrow> int \<times> 'k"
  p_drop :: "int \<Rightarrow> 'k \<Rightarrow> int \<times> 'k"
  p_writei :: "int \<Rightarrow> u8 list \<Rightarrow> u32 \<Rightarrow> 'k \<Rightarrow> int \<times> 'k"
  p_readi :: "int \<Rightarrow> u32 \<Rightarrow> 'k \<Rightarrow> (int \<times> u8 list) \<times> 'k"
  p_poll :: "int \<Rightarrow> int \<Rightarrow> 'k \<Rightarrow> (int \<times> u32) \<times> 'k"
    \<comment> \<open>result and \<^verbatim>\<open>revents\<close>\<close>
  p_buf_read :: "int \<Rightarrow> nat \<Rightarrow> nat \<Rightarrow> 'k \<Rightarrow> u8 list \<times> 'k"
  p_buf_write :: "int \<Rightarrow> nat \<Rightarrow> u8 list \<Rightarrow> 'k \<Rightarrow> 'k"
    \<comment> \<open>the mapped sample buffer, by offset in bytes\<close>

section \<open>The device\<close>

text \<open>
  \<open>underruns\<close> counts without bound (the code's \<^verbatim>\<open>int\<close> is never read).
  Where \<^verbatim>\<open>mmap_status\<close> and \<^verbatim>\<open>mmap_control\<close> point to: nowhere, into pages shared with the driver,
  or into the structure \<^verbatim>\<open>sync_ptr\<close> that the program exchanges with the driver by \<^verbatim>\<open>ioctl\<close>.
\<close>

datatype pcm_pointers = Null_pointers | Shared_pages | Sync_ptr mmap_status mmap_control

record pcm =
  pcm_fd :: int
  flags :: u32
  running :: bool
  prepared :: bool
  underruns :: nat
  buffer_size :: u32
  boundary :: u32
  error :: string
  config :: pcm_config
  pointers :: pcm_pointers
  mmap_buffer :: bool
  noirq_frames_per_msec :: u32

abbreviation PCM_ERROR_MAX :: nat where "PCM_ERROR_MAX \<equiv> 128"

definition pcm_get_buffer_size :: "pcm \<Rightarrow> u32" where
  "pcm_get_buffer_size p = buffer_size p"

definition pcm_get_error :: "pcm \<Rightarrow> string" where
  "pcm_get_error p = error p"

text \<open>
  The function \<^verbatim>\<open>oops\<close>: the message, cut to the buffer, and when \<^verbatim>\<open>errno\<close> is set the text of
  the error code \<open>e\<close> in what is left of the buffer.
\<close>

definition pcm_oops :: "'k psys \<Rightarrow> pcm \<Rightarrow> int \<Rightarrow> string \<Rightarrow> 'k \<Rightarrow> (int \<times> pcm) \<times> 'k" where
  "pcm_oops E p e msg k =
     (let m = take (PCM_ERROR_MAX - 1) msg;
          sz = length m;
          t = (if p_errno E k \<noteq> 0 then take (PCM_ERROR_MAX - sz - 1) ('': '' @ p_strerror E e) else [])
      in ((- 1, p\<lparr>error := m @ t\<rparr>), k))"

text \<open>A division by zero is undefined.\<close>

definition pcm_bytes_to_frames :: "pcm \<Rightarrow> u32 \<Rightarrow> u32 option" where
  "pcm_bytes_to_frames p nbytes =
     (let d = channels (config p) * drop_bit 3 (pcm_format_to_bits (format (config p)))
      in if d = 0 then None else Some (nbytes div d))"

definition pcm_frames_to_bytes :: "pcm \<Rightarrow> u32 \<Rightarrow> u32" where
  "pcm_frames_to_bytes p frames =
     frames * channels (config p) * drop_bit 3 (pcm_format_to_bits (format (config p)))"

section \<open>Shared pointers\<close>

abbreviation SNDRV_PCM_SYNC_PTR_HWSYNC :: u32 where "SNDRV_PCM_SYNC_PTR_HWSYNC \<equiv> 1"
abbreviation SNDRV_PCM_SYNC_PTR_APPL :: u32 where "SNDRV_PCM_SYNC_PTR_APPL \<equiv> 2"

definition pcm_sync_ptr :: "'k psys \<Rightarrow> pcm \<Rightarrow> u32 \<Rightarrow> 'k \<Rightarrow> (int \<times> pcm) \<times> 'k" where
  "pcm_sync_ptr E p fl k =
     (case pointers p of
        Sync_ptr s c \<Rightarrow>
          (case p_sync_ptr E (pcm_fd p) fl s c k of ((r, s', c'), k') \<Rightarrow>
             ((if r < 0 then - 1 else 0, p\<lparr>pointers := Sync_ptr s' c'\<rparr>), k'))
      | _ \<Rightarrow> ((0, p), k))"

text \<open>Reading and writing through the two pointers; a NULL pointer is undefined.\<close>

definition read_status :: "'k psys \<Rightarrow> pcm \<Rightarrow> 'k \<Rightarrow> (mmap_status \<times> 'k) option" where
  "read_status E p k = (case pointers p of Null_pointers \<Rightarrow> None
     | Shared_pages \<Rightarrow> Some (p_status E (pcm_fd p) k) | Sync_ptr s c \<Rightarrow> Some (s, k))"

definition read_control :: "'k psys \<Rightarrow> pcm \<Rightarrow> 'k \<Rightarrow> (mmap_control \<times> 'k) option" where
  "read_control E p k = (case pointers p of Null_pointers \<Rightarrow> None
     | Shared_pages \<Rightarrow> Some (p_control E (pcm_fd p) k) | Sync_ptr s c \<Rightarrow> Some (c, k))"

definition write_control :: "'k psys \<Rightarrow> pcm \<Rightarrow> mmap_control \<Rightarrow> 'k \<Rightarrow> (pcm \<times> 'k) option" where
  "write_control E p c k = (case pointers p of Null_pointers \<Rightarrow> None
     | Shared_pages \<Rightarrow> Some (p, p_put_control E (pcm_fd p) c k)
     | Sync_ptr s _ \<Rightarrow> Some (p\<lparr>pointers := Sync_ptr s c\<rparr>, k))"

definition zero_status :: mmap_status where
  "zero_status = \<lparr>ms_state = 0, hw_ptr = 0, tstamp = (0, 0)\<rparr>"

definition pcm_hw_mmap_status :: "'k psys \<Rightarrow> pcm \<Rightarrow> 'k \<Rightarrow> (int \<times> pcm) \<times> 'k" where
  "pcm_hw_mmap_status E p k =
     (let mmap_error = (\<lambda>k.
        (case p_alloc E k of (ok, k1) \<Rightarrow>
           if \<not> ok then ((- ENOMEM, p\<lparr>pointers := Null_pointers\<rparr>), k1)
           else case pcm_sync_ptr E (p\<lparr>pointers := Sync_ptr zero_status \<lparr>appl_ptr = 0, avail_min = 1\<rparr>\<rparr>) 0 k1 of
             ((_, p'), k2) \<Rightarrow> ((0, p'), k2)))
      in case pointers p of
           Sync_ptr _ _ \<Rightarrow> ((0, p), k)
         | _ \<Rightarrow>
          (case p_mmap_status E (pcm_fd p) k of (ok1, k1) \<Rightarrow>
             if \<not> ok1 then mmap_error k1
             else case p_mmap_control E (pcm_fd p) k1 of (ok2, k2) \<Rightarrow>
               if \<not> ok2 then mmap_error (p_munmap_status E (pcm_fd p) k2)
               else case p_control E (pcm_fd p) k2 of (c, k3) \<Rightarrow>
                 ((0, p\<lparr>pointers := Shared_pages\<rparr>), p_put_control E (pcm_fd p) (c\<lparr>avail_min := 1\<rparr>) k3)))"

definition pcm_hw_munmap_status :: "'k psys \<Rightarrow> pcm \<Rightarrow> 'k \<Rightarrow> pcm \<times> 'k" where
  "pcm_hw_munmap_status E p k =
     (p\<lparr>pointers := Null_pointers\<rparr>,
      case pointers p of Shared_pages \<Rightarrow> p_munmap_control E (pcm_fd p) (p_munmap_status E (pcm_fd p) k)
      | _ \<Rightarrow> k)"

section \<open>Start and stop\<close>

definition pcm_is_ready :: "pcm \<Rightarrow> bool" where
  "pcm_is_ready p \<longleftrightarrow> 0 \<le> pcm_fd p"

definition pcm_prepare :: "'k psys \<Rightarrow> pcm \<Rightarrow> 'k \<Rightarrow> (int \<times> pcm) \<times> 'k" where
  "pcm_prepare E p k =
     (if prepared p then ((0, p), k)
      else case p_prepare E (pcm_fd p) k of (r, k') \<Rightarrow>
        if r < 0 then pcm_oops E p (p_errno E k') ''cannot prepare channel'' k'
        else ((0, p\<lparr>prepared := True\<rparr>), k'))"

definition pcm_start :: "'k psys \<Rightarrow> pcm \<Rightarrow> 'k \<Rightarrow> (int \<times> pcm) \<times> 'k" where
  "pcm_start E p k =
     (case pcm_prepare E p k of ((e, p1), k1) \<Rightarrow>
        if e \<noteq> 0 then ((e, p1), k1)
        else case (if flags p1 AND PCM_MMAP \<noteq> 0 then pcm_sync_ptr E p1 0 k1 else ((0, p1), k1)) of
          ((_, p2), k2) \<Rightarrow>
            (case p_start E (pcm_fd p2) k2 of (r, k3) \<Rightarrow>
               if r < 0 then pcm_oops E p2 (p_errno E k3) ''cannot start channel'' k3
               else ((0, p2\<lparr>running := True\<rparr>), k3)))"

definition pcm_stop :: "'k psys \<Rightarrow> pcm \<Rightarrow> 'k \<Rightarrow> (int \<times> pcm) \<times> 'k" where
  "pcm_stop E p k =
     (case p_drop E (pcm_fd p) k of (r, k') \<Rightarrow>
        if r < 0 then pcm_oops E p (p_errno E k') ''cannot stop channel'' k'
        else ((0, p\<lparr>prepared := False, running := False\<rparr>), k'))"

section \<open>Reading and writing through the driver\<close>

text \<open>\<^verbatim>\<open>count / (channels * bits / 8)\<close>, undefined when the divisor is zero.\<close>

definition xfer_frames :: "pcm \<Rightarrow> u32 \<Rightarrow> u32 option" where
  "xfer_frames p n =
     (let d = channels (config p) * pcm_format_to_bits (format (config p)) div 8
      in if d = 0 then None else Some (n div d))"

definition write_step ::
  "'k psys \<Rightarrow> u8 list \<Rightarrow> u32 \<Rightarrow> pcm \<times> 'k \<Rightarrow> (pcm \<times> 'k + (int \<times> pcm) \<times> 'k) option" where
  "write_step E data frames = (\<lambda>(p, k). Some (
     if \<not> running p then
       (case pcm_prepare E p k of ((e, p1), k1) \<Rightarrow>
          if e \<noteq> 0 then Inr ((e, p1), k1)
          else case p_writei E (pcm_fd p1) data frames k1 of (r, k2) \<Rightarrow>
            if r \<noteq> 0 then Inr (pcm_oops E p1 (p_errno E k2) ''cannot write initial data'' k2)
            else Inr ((0, p1\<lparr>running := True\<rparr>), k2))
     else
       (case p_writei E (pcm_fd p) data frames k of (r, k1) \<Rightarrow>
          if r \<noteq> 0 then
            let p1 = p\<lparr>prepared := False, running := False\<rparr> in
            if p_errno E k1 = EPIPE then
              let p2 = p1\<lparr>underruns := Suc (underruns p1)\<rparr> in
              if flags p2 AND PCM_NORESTART \<noteq> 0 then Inr ((- EPIPE, p2), k1) else Inl (p2, k1)
            else Inr (pcm_oops E p1 (p_errno E k1) ''cannot write stream data'' k1)
          else Inr ((0, p), k1))))"

definition pcm_write ::
  "'k psys \<Rightarrow> nat \<Rightarrow> pcm \<Rightarrow> u8 list \<Rightarrow> u32 \<Rightarrow> 'k \<Rightarrow> ((int \<times> pcm) \<times> 'k) option" where
  "pcm_write E fuel p data n k =
     (if flags p AND PCM_IN \<noteq> 0 then Some ((- EINVAL, p), k)
      else do {
        frames \<leftarrow> xfer_frames p n;
        run_loop fuel (write_step E data frames) (p, k)
      })"

definition read_step ::
  "'k psys \<Rightarrow> u32 \<Rightarrow> pcm \<times> 'k \<Rightarrow> (pcm \<times> 'k + ((int \<times> u8 list) \<times> pcm) \<times> 'k) option" where
  "read_step E frames = (\<lambda>(p, k). Some (
     case (if running p then ((0, p), k) else pcm_start E p k) of ((e, p1), k1) \<Rightarrow>
       if e < 0 then Inr (((- p_errno E k1, []), p1), k1)
       else case p_readi E (pcm_fd p1) frames k1 of ((r, bs), k2) \<Rightarrow>
         if r \<noteq> 0 then
           let p2 = p1\<lparr>prepared := False, running := False\<rparr> in
           if p_errno E k2 = EPIPE then Inl (p2\<lparr>underruns := Suc (underruns p2)\<rparr>, k2)
           else case pcm_oops E p2 (p_errno E k2) ''cannot read stream data'' k2 of ((e2, p3), k3) \<Rightarrow>
             Inr (((e2, []), p3), k3)
         else Inr (((0, bs), p1), k2)))"

definition pcm_read ::
  "'k psys \<Rightarrow> nat \<Rightarrow> pcm \<Rightarrow> u32 \<Rightarrow> 'k \<Rightarrow> (((int \<times> u8 list) \<times> pcm) \<times> 'k) option" where
  "pcm_read E fuel p n k =
     (if flags p AND PCM_IN = 0 then Some (((- EINVAL, []), p), k)
      else do {
        frames \<leftarrow> xfer_frames p n;
        run_loop fuel (read_step E frames) (p, k)
      })"

text \<open>\<^verbatim>\<open>pcm_get_htimestamp\<close>: the number of frames and the time stamp when it returns 0.\<close>

abbreviation PCM_STATE_RUNNING :: int where "PCM_STATE_RUNNING \<equiv> 3"
abbreviation PCM_STATE_XRUN :: int where "PCM_STATE_XRUN \<equiv> 4"
abbreviation PCM_STATE_DRAINING :: int where "PCM_STATE_DRAINING \<equiv> 5"
abbreviation PCM_STATE_SUSPENDED :: int where "PCM_STATE_SUSPENDED \<equiv> 7"
abbreviation PCM_STATE_DISCONNECTED :: int where "PCM_STATE_DISCONNECTED \<equiv> 8"

definition pcm_get_htimestamp ::
  "'k psys \<Rightarrow> pcm \<Rightarrow> 'k \<Rightarrow> (((u32 \<times> (int \<times> int)) option \<times> pcm) \<times> 'k) option" where
  "pcm_get_htimestamp E p k =
     (if \<not> pcm_is_ready p then Some ((None, p), k)
      else case pcm_sync_ptr E p (SNDRV_PCM_SYNC_PTR_APPL OR SNDRV_PCM_SYNC_PTR_HWSYNC) k of ((rc, p1), k1) \<Rightarrow>
        if rc < 0 then Some ((None, p1), k1)
        else do {
          (s1, k2) \<leftarrow> read_status E p1 k1;
          (s1', k3) \<leftarrow> (if ms_state s1 \<noteq> PCM_STATE_RUNNING then read_status E p1 k2 else Some (s1, k2));
          (if ms_state s1 \<noteq> PCM_STATE_RUNNING \<and> ms_state s1' \<noteq> PCM_STATE_DRAINING then Some ((None, p1), k3)
           else do {
             (s2, k4) \<leftarrow> read_status E p1 k3;
             (if tstamp s2 = (0, 0) then Some ((None, p1), k4)
              else do {
                (s3, k5) \<leftarrow> read_status E p1 k4;
                (c, k6) \<leftarrow> read_control E p1 k5;
                let frames = (if flags p1 AND PCM_IN \<noteq> 0 then hw_ptr s3 - appl_ptr c
                              else hw_ptr s3 + buffer_size p1 - appl_ptr c);
                Some (if sint frames < 0 then ((None, p1), k6) else ((Some (frames, tstamp s2), p1), k6))
              })
           })
        })"

section \<open>Opening and closing\<close>

text \<open>\<^verbatim>\<open>"/dev/snd/pcmC%uD%u%c"\<close>\<close>

definition pcm_path :: "u32 \<Rightarrow> u32 \<Rightarrow> u32 \<Rightarrow> string" where
  "pcm_path cardno device fl =
     ''/dev/snd/pcmC'' @ dec_digits (unat cardno) @ ''D'' @ dec_digits (unat device)
       @ (if fl AND PCM_IN \<noteq> 0 then ''c'' else ''p'')"

definition pcm_params_get ::
  "'k psys \<Rightarrow> u32 \<Rightarrow> u32 \<Rightarrow> u32 \<Rightarrow> 'k \<Rightarrow> snd_pcm_hw_params option \<times> 'k" where
  "pcm_params_get E cardno device fl k =
     (case p_open E (pcm_path cardno device fl) k of (f, k1) \<Rightarrow>
        if f < 0 then (None, k1)
        else case p_alloc E k1 of (ok, k2) \<Rightarrow>
          if \<not> ok then (None, p_close E f k2)
          else case p_hw_refine E f param_init k2 of ((r, params), k3) \<Rightarrow>
            (if r \<noteq> 0 then None else Some params, p_close E f k3))"

text \<open>
  The result of \<^verbatim>\<open>pcm_open\<close>: the static object \<^verbatim>\<open>bad_pcm\<close> or a new device, which is ready or
  has \<^verbatim>\<open>fd == -1\<close> and an error text.
\<close>

datatype pcm_handle = Bad_pcm | Pcm pcm

definition zero_pcm :: "pcm_config \<Rightarrow> u32 \<Rightarrow> pcm" where
  "zero_pcm cfg fl = \<lparr>pcm_fd = 0, flags = fl, running = False, prepared = False, underruns = 0,
     buffer_size = 0, boundary = 0, error = [], config = cfg, pointers = Null_pointers,
     mmap_buffer = False, noirq_frames_per_msec = 0\<rparr>"

text \<open>The loop that doubles \<^verbatim>\<open>pcm->boundary\<close>.\<close>

definition boundary_step :: "u32 \<Rightarrow> u32 \<Rightarrow> (u32 + u32) option" where
  "boundary_step bsize b = Some (if b * 2 \<le> INT_MAX - bsize then Inl (b * 2) else Inr b)"

definition pcm_boundary :: "nat \<Rightarrow> u32 \<Rightarrow> u32 option" where
  "pcm_boundary fuel bsize = run_loop fuel (boundary_step bsize) bsize"

text \<open>The software parameters and the thresholds kept in \<^verbatim>\<open>pcm->config\<close>.\<close>

definition start_thr :: "u32 \<Rightarrow> pcm_config \<Rightarrow> u32" where
  "start_thr fl cfg =
     (if start_threshold cfg = 0 then
        if fl AND PCM_IN \<noteq> 0 then 1 else cfg_period_count cfg * cfg_period_size cfg div 2
      else start_threshold cfg)"

definition stop_thr :: "u32 \<Rightarrow> pcm_config \<Rightarrow> u32" where
  "stop_thr fl cfg =
     (if stop_threshold cfg = 0 then
        if fl AND PCM_IN \<noteq> 0 then cfg_period_count cfg * cfg_period_size cfg * 10
        else cfg_period_count cfg * cfg_period_size cfg
      else stop_threshold cfg)"

definition open_sw_params :: "u32 \<Rightarrow> pcm_config \<Rightarrow> u32 \<Rightarrow> snd_pcm_sw_params" where
  "open_sw_params fl cfg bsize =
     \<lparr>tstamp_mode = 1, period_step = 1, sw_avail_min = 1, xfer_align = cfg_period_size cfg div 2,
      sw_start_threshold = start_thr fl cfg, sw_stop_threshold = stop_thr fl cfg,
      sw_silence_threshold = silence_threshold cfg, silence_size = 0, sw_boundary = bsize\<rparr>"

text \<open>The labels \<^verbatim>\<open>fail_close\<close> and \<^verbatim>\<open>fail\<close>.\<close>

definition open_fail_close :: "'k psys \<Rightarrow> (int \<times> pcm) \<times> 'k \<Rightarrow> pcm_handle \<times> 'k" where
  "open_fail_close E = (\<lambda>((_, p), k). (Pcm (p\<lparr>pcm_fd := - 1\<rparr>), p_close E (pcm_fd p) k))"

definition open_fail :: "'k psys \<Rightarrow> (int \<times> pcm) \<times> 'k \<Rightarrow> pcm_handle \<times> 'k" where
  "open_fail E = (\<lambda>((e, p), k). open_fail_close E ((e, p),
     if flags p AND PCM_MMAP \<noteq> 0
     then p_munmap_buffer E (pcm_fd p) (pcm_frames_to_bytes p (buffer_size p)) k else k))"

text \<open>What follows the software parameters: the shared pointers and the clock.\<close>

definition open_finish :: "'k psys \<Rightarrow> pcm \<Rightarrow> 'k \<Rightarrow> pcm_handle \<times> 'k" where
  "open_finish E p k =
     (case pcm_hw_mmap_status E p k of ((rc, p1), k1) \<Rightarrow>
        if rc < 0 then open_fail E (pcm_oops E p1 rc ''mmap status failed'' k1)
        else case (if flags p1 AND PCM_MONOTONIC \<noteq> 0 then p_ttstamp E (pcm_fd p1) k1 else (0, k1)) of
          (rc2, k2) \<Rightarrow>
            if rc2 < 0 then open_fail E (pcm_oops E p1 rc2 ''cannot set timestamp type'' k2)
            else (Pcm (p1\<lparr>underruns := 0\<rparr>), k2))"

definition with_config :: "pcm_config \<Rightarrow> pcm_handle \<times> 'k \<Rightarrow> ((pcm_config option \<times> pcm_handle) \<times> 'k) option" where
  "with_config cfg = (\<lambda>(h, k). Some ((Some cfg, h), k))"

text \<open>From the thresholds on; \<open>None\<close> only when the boundary loop does not end.\<close>

definition open_sw ::
  "'k psys \<Rightarrow> pcm_config \<Rightarrow> pcm \<Rightarrow> 'k \<Rightarrow> ((pcm_config option \<times> pcm_handle) \<times> 'k) option" where
  "open_sw E cfg p k =
     (let fl = flags p;
          p1 = p\<lparr>config := (config p)\<lparr>start_threshold := start_thr fl cfg, stop_threshold := stop_thr fl cfg\<rparr>\<rparr>
      in do {
        b \<leftarrow> pcm_boundary 32 (buffer_size p1);
        let p2 = p1\<lparr>boundary := b\<rparr>;
        (case p_sw_params E (pcm_fd p2) (open_sw_params fl cfg (buffer_size p2)) k of (r, k1) \<Rightarrow>
           if r \<noteq> 0
           then with_config cfg (open_fail E (pcm_oops E p2 (p_errno E k1) ''cannot set sw params'' k1))
           else with_config cfg (open_finish E p2 k1))
      })"

text \<open>From the request to the driver on; \<open>cfg\<close> becomes the refined configuration.\<close>

definition open_hw ::
  "'k psys \<Rightarrow> pcm_config \<Rightarrow> pcm \<Rightarrow> 'k \<Rightarrow> ((pcm_config option \<times> pcm_handle) \<times> 'k) option" where
  "open_hw E cfg p k =
     (case p_hw_params E (pcm_fd p) (open_params (flags p) cfg) k of ((r, params), k1) \<Rightarrow>
        if r \<noteq> 0 then with_config cfg (open_fail_close E (pcm_oops E p (p_errno E k1) ''cannot set hw params'' k1))
        else
          let cfg1 = cfg\<lparr>cfg_period_size := param_get_int params SNDRV_PCM_HW_PARAM_PERIOD_SIZE,
                         cfg_period_count := param_get_int params SNDRV_PCM_HW_PARAM_PERIODS\<rparr>;
              p1 = p\<lparr>buffer_size := cfg_period_count cfg1 * cfg_period_size cfg1\<rparr>;
              n = pcm_frames_to_bytes p1 (buffer_size p1)
          in if flags p AND PCM_MMAP \<noteq> 0 then
               (case p_mmap_buffer E (pcm_fd p1) n k1 of (mapped, k2) \<Rightarrow>
                  if \<not> mapped
                  then with_config cfg1 (open_fail_close E (pcm_oops E p1 (- p_errno E k2)
                         (''failed to mmap buffer '' @ show_int (sint n) @ '' bytes'' @ [CHR 0x0A]) k2))
                  else open_sw E cfg1 (p1\<lparr>mmap_buffer := True\<rparr>) k2)
             else open_sw E cfg1 p1 k1)"

text \<open>\<^verbatim>\<open>config\<close> is NULL or the caller's structure, which is updated.\<close>

definition pcm_open ::
  "'k psys \<Rightarrow> u32 \<Rightarrow> u32 \<Rightarrow> u32 \<Rightarrow> pcm_config option \<Rightarrow> 'k \<Rightarrow> ((pcm_config option \<times> pcm_handle) \<times> 'k) option" where
  "pcm_open E cardno device fl cfg_ptr k =
     (case p_alloc E k of (ok, k1) \<Rightarrow>
        if \<not> ok \<or> cfg_ptr = None then Some ((cfg_ptr, Bad_pcm), k1)
        else
          let cfg = the cfg_ptr;
              fn = pcm_path cardno device fl
          in case p_open E fn k1 of (f, k2) \<Rightarrow>
          let p = (zero_pcm cfg fl)\<lparr>pcm_fd := f\<rparr> in
          if f < 0 then
            (case pcm_oops E p (p_errno E k2) (''cannot open device '' @ [CHR 0x27] @ fn @ [CHR 0x27]) k2 of
               ((_, p1), k3) \<Rightarrow> Some ((Some cfg, Pcm p1), k3))
          else case p_info E f k2 of (r, k3) \<Rightarrow>
          if r \<noteq> 0 then with_config cfg (open_fail_close E (pcm_oops E p (p_errno E k3) ''cannot get info'' k3))
          else if fl AND PCM_NOIRQ \<noteq> 0 then
            if fl AND PCM_MMAP = 0
            then with_config cfg (open_fail E (pcm_oops E p (- EINVAL) ''noirq only currently supported with mmap().'' k3))
            else open_hw E cfg (p\<lparr>noirq_frames_per_msec := cfg_rate cfg div 1000\<rparr>) k3
          else open_hw E cfg p k3)"

definition pcm_close :: "'k psys \<Rightarrow> pcm_handle \<Rightarrow> 'k \<Rightarrow> int \<times> 'k" where
  "pcm_close E h k =
     (case h of Bad_pcm \<Rightarrow> (0, k)
      | Pcm p \<Rightarrow>
          (case pcm_hw_munmap_status E p k of (p1, k1) \<Rightarrow>
             let (p2, k3) = (if flags p1 AND PCM_MMAP \<noteq> 0 then
                   (case pcm_stop E p1 k1 of ((_, p2), k2) \<Rightarrow>
                      (p2, p_munmap_buffer E (pcm_fd p2) (pcm_frames_to_bytes p2 (buffer_size p2)) k2))
                   else (p1, k1))
             in (0, if pcm_fd p2 \<ge> 0 then p_close E (pcm_fd p2) k3 else k3)))"

end
