(* ===== verification/Hal_Output.thy ===== *)
theory Hal_Output
  imports Voice_Trigger Pcm
begin

text \<open>
  The PCM output streams of audio/audio_hw.c (lines 299-396, 447-461, 547-799): what all output streams
  share, starting the PCM device on the first write, standby, and the parameters a stream
  accepts. A stream is a record; its pointer \<^verbatim>\<open>hw\<close> is the index of the configured stream.
\<close>

section \<open>Pointers to devices\<close>

text \<open>
  A pointer to an object that the stream owns: \<open>Dangling\<close> when the object was closed and the
  pointer kept. Using a null or dangling pointer is undefined.
\<close>

datatype 'a ptr = Null | Live 'a | Dangling

section \<open>Fields of a stream\<close>

record audio_config =
  ac_sample_rate :: u32
  ac_channel_mask :: u32
  ac_format :: u32

record stream_out =
  o_hw :: nat
  o_standby :: bool
  o_format :: u32
  o_channel_mask :: u32
  o_channel_count :: u32
  o_sample_rate :: u32
  o_frame_size :: u32
  o_buffer_size :: u32
  o_latency :: u32

record stream_out_pcm = stream_out +
  o_pcm :: "pcm_handle ptr"
  o_hw_sample_rate :: u32
  o_hw_channel_count :: u32

section \<open>Output streams in general\<close>

text \<open>The value of the routing parameter of a string, if it has one.\<close>

definition common_get_routing_param ::
  "'k hal_lib \<Rightarrow> string \<Rightarrow> 'k \<Rightarrow> (u32 option \<times> 'k) option" where
  "common_get_routing_param H kvpairs k =
     (case parms_create H k of (ok, k1) \<Rightarrow>
        if \<not> ok then None
        else Some (map_option (\<lambda>v. word_of_int (atoi v)) (parms_get H kvpairs (AUDIO_PARAMETER_STREAM_ROUTING H)), k1))"

definition out_get_sample_rate :: "config_mgr \<Rightarrow> 'a stream_out_scheme \<Rightarrow> u32" where
  "out_get_sample_rate cm out =
     (if o_sample_rate out \<noteq> 0 then o_sample_rate out else rate (hinfo (get_stream_at cm (o_hw out))))"

definition out_get_buffer_size :: "'a stream_out_scheme \<Rightarrow> u32" where
  "out_get_buffer_size out = o_buffer_size out"

definition out_get_channels :: "'k hal_lib \<Rightarrow> 'a stream_out_scheme \<Rightarrow> u32" where
  "out_get_channels H out =
     (if o_channel_mask out \<noteq> 0 then o_channel_mask out else AUDIO_CHANNEL_OUT_STEREO H)"

definition out_get_format :: "'a stream_out_scheme \<Rightarrow> u32" where
  "out_get_format out = o_format out"

definition out_get_latency :: "'a stream_out_scheme \<Rightarrow> u32" where
  "out_get_latency out = o_latency out"

definition out_set_parameters ::
  "'k sys \<Rightarrow> audio_h \<Rightarrow> 'k hal_lib \<Rightarrow> audio_device \<Rightarrow> 'a stream_out_scheme \<Rightarrow> string \<Rightarrow> 'k
     \<Rightarrow> ((int \<times> audio_device) \<times> 'k) option" where
  "out_set_parameters E A H adev out kvpairs k = do {
     (v, k1) \<leftarrow> common_get_routing_param H kvpairs k;
     (cm1, k2) \<leftarrow> (case v of None \<Rightarrow> Some (adev_cm adev, k1)
                   | Some devices \<Rightarrow> apply_route E A (adev_cm adev) (o_hw out) devices k1);
     ((_, cm2), k3) \<leftarrow> stream_invoke_usecases E cm1 (Some (o_hw out)) kvpairs k2;
     Some ((0, adev\<lparr>adev_cm := cm2\<rparr>), k3)
   }"

text \<open>
  \<^verbatim>\<open>volume_to_percent\<close> computes with floating-point logarithms and is a parameter; \<open>'f\<close> is its
  type of numbers.
\<close>

definition out_set_volume ::
  "'k sys \<Rightarrow> ('f \<Rightarrow> int) \<Rightarrow> config_mgr \<Rightarrow> 'a stream_out_scheme \<Rightarrow> 'f \<Rightarrow> 'f \<Rightarrow> 'k \<Rightarrow> (int \<times> 'k) option" where
  "out_set_volume E volume_to_percent cm out left right k =
     set_hw_volume E cm (o_hw out) (volume_to_percent left) (volume_to_percent right) k"

text \<open>The thread of a compressed stream, if there is one, is told to exit and joined before; it leaves nothing behind.\<close>

definition do_close_out_common ::
  "'k sys \<Rightarrow> audio_h \<Rightarrow> audio_device \<Rightarrow> 'a stream_out_scheme \<Rightarrow> 'k \<Rightarrow> (audio_device \<times> 'k) option" where
  "do_close_out_common E A adev out k = do {
     (cm1, k1) \<leftarrow> release_stream E A (adev_cm adev) (Some (o_hw out)) k;
     Some (adev\<lparr>adev_cm := cm1\<rparr>, k1)
   }"

text \<open>\<open>out\<close> is the structure that \<^verbatim>\<open>calloc\<close> returned, with \<^verbatim>\<open>hw\<close> set.\<close>

definition do_init_out_common ::
  "'k sys \<Rightarrow> audio_h \<Rightarrow> 'k hal_lib \<Rightarrow> audio_device \<Rightarrow> 'a stream_out_scheme \<Rightarrow> audio_config \<Rightarrow> u32 \<Rightarrow> 'k
     \<Rightarrow> ((int \<times> 'a stream_out_scheme \<times> audio_device) \<times> 'k) option" where
  "do_init_out_common E A H adev out cfg devices k = do {
     let out1 = out\<lparr>o_standby := True, o_format := ac_format cfg, o_sample_rate := ac_sample_rate cfg,
                    o_channel_mask := ac_channel_mask cfg, o_channel_count := popcount H (ac_channel_mask cfg)\<rparr>;
     let out2 = out1\<lparr>o_frame_size := audio_frame_size H (out_get_format out1) (out_get_channels H out1)\<rparr>;
     (cm1, k1) \<leftarrow> apply_route E A (adev_cm adev) (o_hw out2) devices k;
     Some ((0, out2, adev\<lparr>adev_cm := cm1\<rparr>), k1)
   }"

section \<open>PCM output\<close>

abbreviation OUT_PERIOD_SIZE_DEFAULT :: u32 where "OUT_PERIOD_SIZE_DEFAULT \<equiv> 256"
abbreviation OUT_PERIOD_COUNT_DEFAULT :: u32 where "OUT_PERIOD_COUNT_DEFAULT \<equiv> 4"
abbreviation OUT_CHANNEL_COUNT_DEFAULT :: u32 where "OUT_CHANNEL_COUNT_DEFAULT \<equiv> 2"

definition hw_of :: "config_mgr \<Rightarrow> nat \<Rightarrow> hw_stream" where
  "hw_of cm i = hinfo (get_stream_at cm i)"

definition out_pcm_cfg_period_count :: "config_mgr \<Rightarrow> 'a stream_out_scheme \<Rightarrow> u32" where
  "out_pcm_cfg_period_count cm out =
     (if period_count (hw_of cm (o_hw out)) \<noteq> 0 then period_count (hw_of cm (o_hw out)) else OUT_PERIOD_COUNT_DEFAULT)"

definition out_pcm_cfg_period_size :: "config_mgr \<Rightarrow> 'a stream_out_scheme \<Rightarrow> u32" where
  "out_pcm_cfg_period_size cm out =
     (if period_size (hw_of cm (o_hw out)) \<noteq> 0 then period_size (hw_of cm (o_hw out)) else OUT_PERIOD_SIZE_DEFAULT)"

definition out_pcm_cfg_rate :: "config_mgr \<Rightarrow> 'a stream_out_scheme \<Rightarrow> u32" where
  "out_pcm_cfg_rate cm out = rate (hw_of cm (o_hw out))"

definition out_pcm_cfg_channel_count :: "'a stream_out_scheme \<Rightarrow> u32" where
  "out_pcm_cfg_channel_count out =
     (if o_channel_count out \<noteq> 0 then o_channel_count out else OUT_CHANNEL_COUNT_DEFAULT)"

definition do_out_pcm_standby :: "'k psys \<Rightarrow> stream_out_pcm \<Rightarrow> 'k \<Rightarrow> (stream_out_pcm \<times> 'k) option" where
  "do_out_pcm_standby P out k =
     (if \<not> o_standby out then
        (case o_pcm out of
           Live h \<Rightarrow> (case pcm_close P h k of (_, k1) \<Rightarrow> Some (out\<lparr>o_pcm := Null, o_standby := True\<rparr>, k1))
         | _ \<Rightarrow> None)
      else Some (out, k))"

text \<open>
  \<open>cfg\<close> is the local \<^verbatim>\<open>config\<close> as \<^verbatim>\<open>pcm_open\<close> left it. The division by the rate is undefined for 0.
\<close>

definition out_pcm_fill_params :: "stream_out_pcm \<Rightarrow> pcm \<Rightarrow> pcm_config \<Rightarrow> stream_out_pcm option" where
  "out_pcm_fill_params out p cfg =
     (if cfg_rate cfg = 0 then None
      else Some (out\<lparr>o_hw_sample_rate := cfg_rate cfg, o_hw_channel_count := channels cfg,
             o_buffer_size := pcm_frames_to_bytes p (cfg_period_size cfg),
             o_latency := (cfg_period_size cfg * cfg_period_count cfg * 1000) div cfg_rate cfg\<rparr>))"

definition start_output_pcm ::
  "'k psys \<Rightarrow> config_mgr \<Rightarrow> stream_out_pcm \<Rightarrow> 'k \<Rightarrow> ((int \<times> stream_out_pcm) \<times> 'k) option" where
  "start_output_pcm P cm out k = do {
     let cfg = \<lparr>channels = out_pcm_cfg_channel_count out, cfg_rate = out_pcm_cfg_rate cm out,
                cfg_period_size = out_pcm_cfg_period_size cm out, cfg_period_count = out_pcm_cfg_period_count cm out,
                format = PCM_FORMAT_S16_LE, start_threshold = 0, stop_threshold = 0, silence_threshold = 0\<rparr>;
     ((cfg1, h), k1) \<leftarrow> pcm_open P (ucast (card_number (hw_of cm (o_hw out))))
        (ucast (device_number (hw_of cm (o_hw out)))) PCM_OUT (Some cfg) k;
     (case h of
        Pcm p \<Rightarrow>
          if pcm_is_ready p then do {
            out1 \<leftarrow> out_pcm_fill_params (out\<lparr>o_pcm := Live h\<rparr>) p (the cfg1);
            Some ((0, out1), k1)
          }
          else (case pcm_close P h k1 of (_, k2) \<Rightarrow> Some ((- ENOMEM, out\<lparr>o_pcm := Dangling\<rparr>), k2))
      | Bad_pcm \<Rightarrow> (case pcm_close P h k1 of (_, k2) \<Rightarrow> Some ((- ENOMEM, out\<lparr>o_pcm := Live Bad_pcm\<rparr>), k2)))
   }"

definition out_pcm_standby :: "'k psys \<Rightarrow> stream_out_pcm \<Rightarrow> 'k \<Rightarrow> ((int \<times> stream_out_pcm) \<times> 'k) option" where
  "out_pcm_standby P out k = do { (out1, k1) \<leftarrow> do_out_pcm_standby P out k; Some ((0, out1), k1) }"

text \<open>
  \<^verbatim>\<open>pcm_write\<close> on the pointer of the stream. The static object of a failed allocation has no
  channels, its frame size is 0 and the division by it undefined.
\<close>

definition write_ptr ::
  "'k psys \<Rightarrow> nat \<Rightarrow> stream_out_pcm \<Rightarrow> u8 list \<Rightarrow> u32 \<Rightarrow> 'k \<Rightarrow> ((int \<times> stream_out_pcm) \<times> 'k) option" where
  "write_ptr P fuel out buf n k =
     (case o_pcm out of
        Live (Pcm p) \<Rightarrow> do {
          ((r, p'), k1) \<leftarrow> pcm_write P fuel p buf n k;
          Some ((r, out\<lparr>o_pcm := Live (Pcm p')\<rparr>), k1)
        }
      | _ \<Rightarrow> None)"

definition out_pcm_write ::
  "'k psys \<Rightarrow> nat \<Rightarrow> config_mgr \<Rightarrow> stream_out_pcm \<Rightarrow> u8 list \<Rightarrow> u32 \<Rightarrow> 'k \<Rightarrow> ((int \<times> stream_out_pcm) \<times> 'k) option" where
  "out_pcm_write P fuel cm out buf n k =
     (if get_current_routes cm (o_hw out) = 0 then Some ((0, out), k)
      else do {
        ((ret, out1), k1) \<leftarrow> (if o_standby out then start_output_pcm P cm out k else Some ((0, out), k));
        (if ret \<noteq> 0 then Some ((ret, out1), k1)
         else do {
           ((r, out2), k2) \<leftarrow> write_ptr P fuel (out1\<lparr>o_standby := False\<rparr>) buf n k1;
           Some ((if r \<ge> 0 then sint n else r, out2), k2)
         })
      })"

definition do_close_out_pcm ::
  "'k sys \<Rightarrow> 'k psys \<Rightarrow> audio_h \<Rightarrow> audio_device \<Rightarrow> stream_out_pcm \<Rightarrow> 'k \<Rightarrow> (audio_device \<times> 'k) option" where
  "do_close_out_pcm E P A adev out k = do {
     ((_, out1), k1) \<leftarrow> out_pcm_standby P out k;
     do_close_out_common E A adev out1 k1
   }"

definition do_init_out_pcm :: "config_mgr \<Rightarrow> stream_out_pcm \<Rightarrow> (int \<times> stream_out_pcm) option" where
  "do_init_out_pcm cm out =
     (let sz = out_pcm_cfg_period_size cm out in
      if o_sample_rate out = 0 then None
      else Some (0, out\<lparr>o_buffer_size := sz * o_frame_size out,
             o_latency := (sz * out_pcm_cfg_period_count cm out * 1000) div o_sample_rate out\<rparr>))"

end
