(* ===== verification/Hal_Input.thy ===== *)
theory Hal_Input
  imports Hal_Output
begin

text \<open>
  The input streams of audio/audio_hw.c (lines 1222-1394, 1440-1570, 1691-2293): PCM capture with resampling,
  PCM through a compressed channel, the choice of the configured stream by input source, and the
  conversion of failed reads into silence. The build does not define
  \<^verbatim>\<open>COMPRESS_PCM_USE_UNSHORTEN\<close>.
\<close>

section \<open>Libraries outside the repository\<close>

text \<open>
  tinycompress: a handle is a number, \<^verbatim>\<open>NULL\<close> is \<open>None\<close>; \<^verbatim>\<open>compress_open\<close> also returns the granted
  fragment size and count. The constants are those of
  \<^verbatim>\<open>system/audio.h\<close> and \<^verbatim>\<open>sound/compress_params.h\<close>.
\<close>

record snd_codec =
  cd_id :: u32
  cd_ch_in :: u32
  cd_ch_out :: u32
  cd_sample_rate :: u32
  cd_rate_control :: u32
  cd_level :: u32
  cd_format :: u32
  cd_align :: u32

definition zero_codec :: snd_codec where
  "zero_codec = \<lparr>cd_id = 0, cd_ch_in = 0, cd_ch_out = 0, cd_sample_rate = 0, cd_rate_control = 0,
     cd_level = 0, cd_format = 0, cd_align = 0\<rparr>"

record 'k csys =
  compress_open :: "u8 \<Rightarrow> u8 \<Rightarrow> u32 \<Rightarrow> u32 \<Rightarrow> u32 \<Rightarrow> snd_codec \<Rightarrow> 'k \<Rightarrow> (nat option \<times> u32 \<times> u32) \<times> 'k"
  is_compress_ready :: "nat \<Rightarrow> 'k \<Rightarrow> bool"
  compress_close :: "nat \<Rightarrow> 'k \<Rightarrow> 'k"
  compress_start :: "nat \<Rightarrow> 'k \<Rightarrow> int \<times> 'k"
  compress_stop :: "nat \<Rightarrow> 'k \<Rightarrow> int \<times> 'k"
  compress_read :: "nat \<Rightarrow> u32 \<Rightarrow> 'k \<Rightarrow> (int \<times> u8 list) \<times> 'k"
  compress_set_max_poll_wait :: "nat \<Rightarrow> int \<Rightarrow> 'k \<Rightarrow> 'k"
  compress_errno :: "'k \<Rightarrow> int"
  compress_nonblock :: "nat \<Rightarrow> bool \<Rightarrow> 'k \<Rightarrow> 'k"
  compress_write :: "nat \<Rightarrow> u8 list \<Rightarrow> u32 \<Rightarrow> 'k \<Rightarrow> int \<times> 'k"
  compress_pause :: "nat \<Rightarrow> 'k \<Rightarrow> int \<times> 'k"
  compress_resume :: "nat \<Rightarrow> 'k \<Rightarrow> int \<times> 'k"
  compress_drain :: "nat \<Rightarrow> 'k \<Rightarrow> int \<times> 'k"
  compress_partial_drain :: "nat \<Rightarrow> 'k \<Rightarrow> int \<times> 'k"
  compress_next_track :: "nat \<Rightarrow> 'k \<Rightarrow> int \<times> 'k"
  compress_wait :: "nat \<Rightarrow> int \<Rightarrow> 'k \<Rightarrow> 'k"
  compress_set_gapless_metadata :: "nat \<Rightarrow> int \<Rightarrow> int \<Rightarrow> 'k \<Rightarrow> 'k"
  compress_get_tstamp :: "nat \<Rightarrow> 'k \<Rightarrow> (int \<times> u32) \<times> 'k"
  COMPRESS_IN :: u32
  COMPRESS_OUT :: u32
  SND_AUDIOCODEC_PCM :: u32
  SND_AUDIOCODEC_MP3 :: u32
  SND_AUDIOCODEC_AAC :: u32
  SND_AUDIOCODEC_VORBIS :: u32
  SND_AUDIOMODE_AAC_HE :: u32
  SND_RATECONTROLMODE_CONSTANTBITRATE :: u32
  SND_RATECONTROLMODE_VARIABLEBITRATE :: u32
  AUDIO_FORMAT_MAIN_MASK :: u32
  AUDIO_FORMAT_MP3 :: u32
  AUDIO_FORMAT_AAC :: u32
  AUDIO_FORMAT_HE_AAC_V1 :: u32
  AUDIO_FORMAT_HE_AAC_V2 :: u32
  AUDIO_FORMAT_VORBIS :: u32

text \<open>The clock, the delay, the resampler library and the contents of new memory.\<close>

record 'k rsys =
  system_time :: "'k \<Rightarrow> int \<times> 'k"
  nanosleep :: "int \<Rightarrow> 'k \<Rightarrow> 'k"
  create_resampler :: "u32 \<Rightarrow> u32 \<Rightarrow> u32 \<Rightarrow> 'k \<Rightarrow> (int \<times> nat) \<times> 'k"
  release_resampler :: "nat \<Rightarrow> 'k \<Rightarrow> 'k"
  malloc_bytes :: "nat \<Rightarrow> 'k \<Rightarrow> u8 list"
    \<comment> \<open>what a new block of a given size holds\<close>

section \<open>Fields of a stream\<close>

record stream_in =
  i_hw :: "nat option"
  i_standby :: bool
  i_devices :: u32
  i_format :: u32
  i_channel_mask :: u32
  i_channel_count :: u32
  i_sample_rate :: u32
  i_frame_size :: u32
  i_buffer_size :: u32
  i_input_source :: int
  i_last_read_ns :: int

record in_resampler =
  rs_resampler :: "nat option"
  rs_buffer :: "u8 list option"
  rs_in_buffer_size :: u32
  rs_in_buffer_frames :: u32
  rs_frames_in :: u32
  rs_read_status :: int

text \<open>The union of \<^verbatim>\<open>pcm\<close> and \<^verbatim>\<open>compress\<close>; reading the member that was not stored is undefined.\<close>

datatype in_dev = In_pcm pcm_handle | In_compress nat

record stream_in_pcm = stream_in +
  i_dev :: "in_dev ptr"
  i_hw_sample_rate :: u32
  i_hw_channel_count :: u32
  i_period_size :: u32
  i_resampler :: in_resampler

definition zero_resampler :: in_resampler where
  "zero_resampler = \<lparr>rs_resampler = None, rs_buffer = None, rs_in_buffer_size = 0, rs_in_buffer_frames = 0,
     rs_frames_in = 0, rs_read_status = 0\<rparr>"

definition zero_in :: stream_in_pcm where
  "zero_in = \<lparr>i_hw = None, i_standby = False, i_devices = 0, i_format = 0, i_channel_mask = 0,
     i_channel_count = 0, i_sample_rate = 0, i_frame_size = 0, i_buffer_size = 0, i_input_source = 0,
     i_last_read_ns = 0, i_dev = Null, i_hw_sample_rate = 0, i_hw_channel_count = 0, i_period_size = 0,
     i_resampler = zero_resampler\<rparr>"

section \<open>Input streams in general\<close>

text \<open>A stream without a rate of its own reads the configured stream's, which must exist.\<close>

definition in_get_sample_rate :: "config_mgr \<Rightarrow> 'a stream_in_scheme \<Rightarrow> u32 option" where
  "in_get_sample_rate cm inp =
     (if i_sample_rate inp \<noteq> 0 then Some (i_sample_rate inp)
      else map_option (\<lambda>i. rate (hw_of cm i)) (i_hw inp))"

definition in_set_sample_rate :: "'a stream_in_scheme \<Rightarrow> u32 \<Rightarrow> int" where
  "in_set_sample_rate inp r = (if r = i_sample_rate inp then 0 else - ENOTSUP)"

definition in_get_channels :: "'k hal_lib \<Rightarrow> 'a stream_in_scheme \<Rightarrow> u32" where
  "in_get_channels H inp =
     (if i_channel_mask inp \<noteq> 0 then i_channel_mask inp else AUDIO_CHANNEL_IN_MONO H)"

definition in_get_format :: "'a stream_in_scheme \<Rightarrow> u32" where
  "in_get_format inp = i_format inp"

definition in_get_buffer_size :: "'a stream_in_scheme \<Rightarrow> u32" where
  "in_get_buffer_size inp = i_buffer_size inp"

definition do_in_set_read_timestamp :: "'k rsys \<Rightarrow> 'a stream_in_scheme \<Rightarrow> 'k \<Rightarrow> 'a stream_in_scheme \<times> 'k" where
  "do_in_set_read_timestamp R inp k =
     (case system_time R k of (ns, k1) \<Rightarrow> (inp\<lparr>i_last_read_ns := if ns = 0 then 1 else ns\<rparr>, k1))"

text \<open>
  The delay: 32-bit arithmetic in \<^verbatim>\<open>required_interval\<close>, 64-bit in the nanoseconds, and \<^verbatim>\<open>tv_nsec\<close> a
  32-bit \<^verbatim>\<open>long\<close>. The division is undefined when the divisor is 0.
\<close>

definition required_interval :: "'a stream_in_scheme \<Rightarrow> u32 \<Rightarrow> u32 option" where
  "required_interval inp nbytes =
     (let d = i_frame_size inp * i_sample_rate inp in if d = 0 then None else Some ((1907 * nbytes) div d))"

definition do_in_realtime_delay :: "'k rsys \<Rightarrow> 'a stream_in_scheme \<Rightarrow> u32 \<Rightarrow> 'k \<Rightarrow> 'k option" where
  "do_in_realtime_delay R inp nbytes k =
     (if i_last_read_ns inp \<noteq> 0 then do {
        interval \<leftarrow> required_interval inp nbytes;
        let required_ns = uint interval * 2 ^ 19;
        let (now, k1) = system_time R k;
        let elapsed_ns = now - i_last_read_ns inp;
        Some (if uint interval > elapsed_ns div 2 ^ 19
              then nanosleep R (sint (word_of_int (required_ns - elapsed_ns) :: u32)) k1 else k1)
      }
      else Some k)"

definition do_init_in_common ::
  "'k hal_lib \<Rightarrow> 'a stream_in_scheme \<Rightarrow> audio_config \<Rightarrow> u32 \<Rightarrow> int \<times> 'a stream_in_scheme" where
  "do_init_in_common H inp cfg devices =
     (let in1 = inp\<lparr>i_standby := True, i_format := ac_format cfg, i_sample_rate := ac_sample_rate cfg,
                    i_channel_mask := ac_channel_mask cfg, i_channel_count := popcount H (ac_channel_mask cfg)\<rparr>;
          in2 = in1\<lparr>i_frame_size := audio_frame_size H (in_get_format in1) (in_get_channels H in1)\<rparr>
      in (0, in2\<lparr>i_devices := devices\<rparr>))"

section \<open>The resampler's source of frames\<close>

text \<open>\<^verbatim>\<open>buffer[i] = buffer[i * 2]\<close> on 16-bit samples, undefined outside the buffer.\<close>

definition move_sample :: "nat \<Rightarrow> u8 list \<Rightarrow> u8 list option" where
  "move_sample i xs =
     (if 4 * i + 1 < length xs then Some (xs[2 * i := xs ! (4 * i), 2 * i + 1 := xs ! (4 * i + 1)]) else None)"

fun discard_right :: "nat list \<Rightarrow> u8 list \<Rightarrow> u8 list option" where
  "discard_right [] xs = Some xs"
| "discard_right (i # is) xs = Option.bind (move_sample i xs) (discard_right is)"

text \<open>\<^verbatim>\<open>pcm_read\<close> on a handle; the static object of a failed allocation is no capture device.\<close>

definition read_handle ::
  "'k psys \<Rightarrow> nat \<Rightarrow> pcm_handle \<Rightarrow> u32 \<Rightarrow> 'k \<Rightarrow> (((int \<times> u8 list) \<times> pcm_handle) \<times> 'k) option" where
  "read_handle P fuel h n k =
     (case h of
        Bad_pcm \<Rightarrow> Some (((- EINVAL, []), Bad_pcm), k)
      | Pcm p \<Rightarrow> do { ((r, p'), k1) \<leftarrow> pcm_read P fuel p n k; Some ((r, Pcm p'), k1) })"

text \<open>
  The result code, and when it is 0 the number of frames provided and the index of the first sample of
  the buffer provided. The PCM device is read through the pointer of the stream.
\<close>

definition get_next_buffer ::
  "'k psys \<Rightarrow> nat \<Rightarrow> u32 \<Rightarrow> stream_in_pcm \<times> 'k \<Rightarrow> ((int \<times> (u32 \<times> u32) option) \<times> stream_in_pcm \<times> 'k) option" where
  "get_next_buffer P fuel frame_count = (\<lambda>(inp, k).
     let rsp = i_resampler inp;
         provide = (\<lambda>rsp inp k.
           Some ((rs_read_status rsp,
                  Some (if frame_count > rs_frames_in rsp then rs_frames_in rsp else frame_count,
                        rs_in_buffer_frames rsp - rs_frames_in rsp)),
                 inp\<lparr>i_resampler := rsp\<rparr>, k))
     in case i_dev inp of
          Null \<Rightarrow> Some ((- ENODEV, None), inp\<lparr>i_resampler := rsp\<lparr>rs_read_status := - ENODEV\<rparr>\<rparr>, k)
        | Live (In_pcm h) \<Rightarrow>
            if rs_frames_in rsp = 0 then do {
              (((r, bs), h'), k1) \<leftarrow> read_handle P fuel h (rs_in_buffer_size rsp) k;
              let inp1 = inp\<lparr>i_dev := Live (In_pcm h')\<rparr>;
              let rsp1 = rsp\<lparr>rs_read_status := r\<rparr>;
              (if r \<noteq> 0 then Some ((r, None), inp1\<lparr>i_resampler := rsp1\<rparr>, k1)
               else do {
                 old \<leftarrow> rs_buffer rsp;
                 let xs = take (length old) (bs @ drop (length bs) old);
                 xs' \<leftarrow> (if i_channel_count inp = 1 \<and> i_hw_channel_count inp = 2
                         then discard_right [1..<unat (rs_in_buffer_frames rsp)] xs else Some xs);
                 provide (rsp1\<lparr>rs_frames_in := rs_in_buffer_frames rsp, rs_buffer := Some xs'\<rparr>) inp1 k1
               })
            }
            else provide rsp inp k
        | _ \<Rightarrow> None)"

definition release_buffer :: "u32 \<Rightarrow> stream_in_pcm \<Rightarrow> stream_in_pcm" where
  "release_buffer frame_count inp =
     (let rsp = i_resampler inp in inp\<lparr>i_resampler := rsp\<lparr>rs_frames_in := rs_frames_in rsp - frame_count\<rparr>\<rparr>)"

text \<open>
  \<^verbatim>\<open>resample_from_provider\<close> of the library: it calls the two functions of the provider and yields the
  converted bytes and the number of frames they are.
\<close>

type_synonym 'k provider = "stream_in_pcm \<times> 'k"

type_synonym 'k resample_fn =
  "(u32 \<Rightarrow> 'k provider \<Rightarrow> ((int \<times> (u32 \<times> u32) option) \<times> 'k provider) option)
     \<Rightarrow> (u32 \<Rightarrow> stream_in_pcm \<Rightarrow> stream_in_pcm) \<Rightarrow> u32 \<Rightarrow> 'k provider \<Rightarrow> ((u8 list \<times> u32) \<times> 'k provider) option"

definition resample_step ::
  "'k resample_fn \<Rightarrow> 'k psys \<Rightarrow> nat \<Rightarrow> int \<Rightarrow> (int \<times> u8 list) \<times> 'k provider
     \<Rightarrow> ((int \<times> u8 list) \<times> 'k provider + (int \<times> u8 list) \<times> 'k provider) option" where
  "resample_step RS P fuel frames = (\<lambda>((frames_wr, out), s).
     if \<not> frames_wr < frames then Some (Inr ((frames_wr, out), s))
     else do {
       ((bs, frames_rd), s1) \<leftarrow> RS (get_next_buffer P fuel) release_buffer (word_of_int (frames - frames_wr)) s;
       let status = rs_read_status (i_resampler (fst s1));
       Some (if status \<noteq> 0 then Inr ((status, out), s1)
             else Inl ((frames_wr + sint frames_rd, out @ bs), s1))
     })"

definition read_resampled_frames ::
  "'k resample_fn \<Rightarrow> 'k psys \<Rightarrow> nat \<Rightarrow> stream_in_pcm \<Rightarrow> int \<Rightarrow> 'k
     \<Rightarrow> ((int \<times> u8 list) \<times> 'k provider) option" where
  "read_resampled_frames RS P fuel inp frames k =
     run_loop fuel (resample_step RS P fuel frames) ((0, []), (inp, k))"

text \<open>The buffer's contents are those \<^verbatim>\<open>malloc\<close> leaves; \<^verbatim>\<open>frames_in\<close> is not reset.\<close>

definition in_resampler_init ::
  "'k sys \<Rightarrow> 'k rsys \<Rightarrow> stream_in_pcm \<Rightarrow> u32 \<Rightarrow> u32 \<Rightarrow> u32 \<Rightarrow> 'k \<Rightarrow> ((int \<times> stream_in_pcm) \<times> 'k) option" where
  "in_resampler_init E R inp hw_rate chans hw_fragment k =
     (let rsp = i_resampler inp;
          sz = hw_fragment * chans * i_frame_size inp;
          d = chans * i_frame_size inp
      in if d = 0 then None
         else
           let rsp1 = rsp\<lparr>rs_in_buffer_size := sz, rs_in_buffer_frames := sz div d\<rparr> in
           case sys_alloc E k of (ok, k1) \<Rightarrow>
           if \<not> ok then Some ((- ENOMEM, inp\<lparr>i_resampler := rsp1\<lparr>rs_buffer := None\<rparr>\<rparr>), k1)
           else case create_resampler R hw_rate (i_sample_rate inp) (i_channel_count inp) k1 of ((ret, h), k2) \<Rightarrow>
             Some (if ret < 0
                   then ((ret, inp\<lparr>i_resampler := rsp1\<lparr>rs_buffer := None\<rparr>\<rparr>), k2)
                   else ((ret, inp\<lparr>i_resampler :=
                          rsp1\<lparr>rs_buffer := Some (malloc_bytes R (unat sz) k1), rs_resampler := Some h\<rparr>\<rparr>), k2)))"

definition in_resampler_free :: "'k rsys \<Rightarrow> stream_in_pcm \<Rightarrow> 'k \<Rightarrow> stream_in_pcm \<times> 'k" where
  "in_resampler_free R inp k =
     (let rsp = i_resampler inp in
      (inp\<lparr>i_resampler := rsp\<lparr>rs_resampler := None, rs_buffer := None\<rparr>\<rparr>,
       case rs_resampler rsp of None \<Rightarrow> k | Some h \<Rightarrow> release_resampler R h k))"

section \<open>PCM through a compressed channel\<close>

abbreviation SNDRV_PCM_FORMAT_S16_LE :: u32 where "SNDRV_PCM_FORMAT_S16_LE \<equiv> 2"

definition do_open_compress_pcm_in ::
  "'k csys \<Rightarrow> config_mgr \<Rightarrow> stream_in_pcm \<Rightarrow> 'k \<Rightarrow> ((int \<times> stream_in_pcm) \<times> 'k) option" where
  "do_open_compress_pcm_in Z cm inp k =
     (case i_hw inp of
        None \<Rightarrow> Some ((- EINVAL, inp), k)
      | Some i \<Rightarrow>
          let codec = zero_codec\<lparr>cd_id := SND_AUDIOCODEC_PCM Z, cd_ch_in := i_channel_count inp,
                cd_sample_rate := i_sample_rate inp, cd_format := SNDRV_PCM_FORMAT_S16_LE\<rparr>
          in case compress_open Z (card_number (hw_of cm i)) (device_number (hw_of cm i)) (COMPRESS_OUT Z) 4096 1 codec k of
            ((None, fs, fc), k1) \<Rightarrow> None
          | ((Some c, fs, fc), k1) \<Rightarrow>
              if \<not> is_compress_ready Z c k1 then Some ((compress_errno Z k1, inp), compress_close Z c k1)
              else case compress_start Z c k1 of (_, k2) \<Rightarrow>
                Some ((0, inp\<lparr>i_dev := Live (In_compress c), i_buffer_size := fs * fc * i_frame_size inp\<rparr>), k2))"

text \<open>
  The open function reports a failed \<^verbatim>\<open>compress_open\<close> by the positive \<^verbatim>\<open>errno\<close>, which the test for a negative
  result lets pass.
\<close>

definition start_compress_pcm_input_stream ::
  "'k csys \<Rightarrow> config_mgr \<Rightarrow> stream_in_pcm \<Rightarrow> 'k \<Rightarrow> ((int \<times> stream_in_pcm) \<times> 'k) option" where
  "start_compress_pcm_input_stream Z cm inp k =
     (if i_standby inp then do {
        ((ret, in1), k1) \<leftarrow> do_open_compress_pcm_in Z cm inp k;
        (if ret < 0 then Some ((ret, in1), k1)
         else
           let d = i_frame_size in1 * i_sample_rate in1 in
           if d = 0 then None
           else case i_dev in1 of
             Live (In_compress c) \<Rightarrow>
               let ms = sint (word_of_int ((1000 * uint (i_buffer_size in1)) div uint d) :: u32) in
               Some ((0, in1\<lparr>i_standby := False\<rparr>), compress_set_max_poll_wait Z c (ms * 2) k1)
           | _ \<Rightarrow> None)
      }
      else Some ((0, inp), k))"

definition do_in_compress_pcm_standby ::
  "'k csys \<Rightarrow> stream_in_pcm \<Rightarrow> 'k \<Rightarrow> (stream_in_pcm \<times> 'k) option" where
  "do_in_compress_pcm_standby Z inp k =
     (if \<not> i_standby inp then
        (case i_dev inp of
           Live (In_compress c) \<Rightarrow>
             (case compress_stop Z c k of (_, k1) \<Rightarrow>
                Some (inp\<lparr>i_dev := Null, i_standby := True\<rparr>, compress_close Z c k1))
         | _ \<Rightarrow> None)
      else Some (inp\<lparr>i_standby := True\<rparr>, k))"

definition do_in_compress_pcm_read ::
  "'k csys \<Rightarrow> 'k rsys \<Rightarrow> config_mgr \<Rightarrow> stream_in_pcm \<Rightarrow> u32 \<Rightarrow> 'k \<Rightarrow> ((int \<times> u8 list) \<times> 'k provider) option" where
  "do_in_compress_pcm_read Z R cm inp nbytes k = do {
     ((ret, in1), k1) \<leftarrow> start_compress_pcm_input_stream Z cm inp k;
     (if ret < 0 then Some ((ret, []), (in1, k1))
      else case i_dev in1 of
        Live (In_compress c) \<Rightarrow>
          (case compress_read Z c nbytes k1 of ((r, bs), k2) \<Rightarrow>
             if r > 0 then do {
               k3 \<leftarrow> do_in_realtime_delay R in1 (nbytes div 4) k2;
               Some ((r, bs), (in1, k3))
             }
             else Some ((r, bs), (in1, k2)))
      | _ \<Rightarrow> None)
   }"

definition do_in_compress_pcm_close :: "'k csys \<Rightarrow> stream_in_pcm \<Rightarrow> 'k \<Rightarrow> (stream_in_pcm \<times> 'k) option" where
  "do_in_compress_pcm_close Z inp k =
     (case i_dev inp of
        Null \<Rightarrow> Some (inp, k)
      | Live (In_compress c) \<Rightarrow>
          (case compress_stop Z c k of (_, k1) \<Rightarrow> Some (inp\<lparr>i_dev := Dangling\<rparr>, compress_close Z c k1))
      | _ \<Rightarrow> None)"

section \<open>PCM input\<close>

abbreviation IN_PERIOD_COUNT_DEFAULT :: u32 where "IN_PERIOD_COUNT_DEFAULT \<equiv> 4"
abbreviation IN_CHANNEL_COUNT_DEFAULT :: u32 where "IN_CHANNEL_COUNT_DEFAULT \<equiv> 1"

definition in_pcm_cfg_period_count :: "config_mgr \<Rightarrow> nat \<Rightarrow> u32" where
  "in_pcm_cfg_period_count cm i =
     (if period_count (hw_of cm i) \<noteq> 0 then period_count (hw_of cm i) else IN_PERIOD_COUNT_DEFAULT)"

definition in_pcm_cfg_period_size :: "config_mgr \<Rightarrow> nat \<Rightarrow> u32" where
  "in_pcm_cfg_period_size cm i =
     (if period_size (hw_of cm i) \<noteq> 0 then period_size (hw_of cm i) else IN_PERIOD_SIZE_DEFAULT)"

definition in_pcm_cfg_rate :: "config_mgr \<Rightarrow> nat \<Rightarrow> u32" where
  "in_pcm_cfg_rate cm i = rate (hw_of cm i)"

definition in_pcm_cfg_channel_count :: "'a stream_in_scheme \<Rightarrow> u32" where
  "in_pcm_cfg_channel_count inp =
     (if i_channel_count inp \<noteq> 0 then i_channel_count inp else IN_CHANNEL_COUNT_DEFAULT)"

definition do_in_pcm_standby ::
  "'k psys \<Rightarrow> 'k rsys \<Rightarrow> stream_in_pcm \<Rightarrow> 'k \<Rightarrow> (stream_in_pcm \<times> 'k) option" where
  "do_in_pcm_standby P R inp k = do {
     (in1, k1) \<leftarrow>
       (if \<not> i_standby inp then
          (case i_dev inp of
             Live (In_pcm h) \<Rightarrow> (case pcm_close P h k of (_, k1) \<Rightarrow> Some (inp\<lparr>i_dev := Null\<rparr>, k1))
           | _ \<Rightarrow> None)
        else Some (inp, k));
     let (in2, k2) = in_resampler_free R in1 k1;
     Some (in2\<lparr>i_standby := True\<rparr>, k2)
   }"

definition in_pcm_fill_params :: "stream_in_pcm \<Rightarrow> pcm_config \<Rightarrow> stream_in_pcm option" where
  "in_pcm_fill_params inp cfg =
     (if cfg_rate cfg = 0 then None
      else
        let sz = (cfg_period_size cfg * i_sample_rate inp) div cfg_rate cfg;
            sz1 = ((sz + 15) div 16) * 16
        in Some (inp\<lparr>i_hw_sample_rate := cfg_rate cfg, i_hw_channel_count := channels cfg,
             i_period_size := cfg_period_size cfg, i_buffer_size := sz1 * i_frame_size inp\<rparr>))"

text \<open>The path \<^verbatim>\<open>fail\<close>: the device is closed and the pointer cleared.\<close>

definition open_input_fail ::
  "'k psys \<Rightarrow> int \<Rightarrow> stream_in_pcm \<Rightarrow> pcm_handle \<Rightarrow> 'k \<Rightarrow> (int \<times> stream_in_pcm) \<times> 'k" where
  "open_input_fail P ret inp h k = (case pcm_close P h k of (_, k1) \<Rightarrow> ((ret, inp\<lparr>i_dev := Null\<rparr>), k1))"

definition do_open_pcm_input ::
  "'k sys \<Rightarrow> 'k psys \<Rightarrow> 'k rsys \<Rightarrow> config_mgr \<Rightarrow> stream_in_pcm \<Rightarrow> 'k \<Rightarrow> ((int \<times> stream_in_pcm) \<times> 'k) option" where
  "do_open_pcm_input E P R cm inp k =
     (case i_hw inp of
        None \<Rightarrow> Some ((- EINVAL, inp), k)
      | Some i \<Rightarrow> do {
          let cfg = \<lparr>channels = in_pcm_cfg_channel_count inp, cfg_rate = in_pcm_cfg_rate cm i,
                cfg_period_size = in_pcm_cfg_period_size cm i, cfg_period_count = in_pcm_cfg_period_count cm i,
                format = PCM_FORMAT_S16_LE, start_threshold = 0, stop_threshold = 0, silence_threshold = 0\<rparr>;
          ((cfg1, h), k1) \<leftarrow> pcm_open P (ucast (card_number (hw_of cm i))) (ucast (device_number (hw_of cm i)))
             PCM_IN (Some cfg) k;
          (case h of
             Bad_pcm \<Rightarrow> Some (open_input_fail P (- ENOMEM) inp h k1)
           | Pcm p \<Rightarrow>
               if \<not> pcm_is_ready p then Some (open_input_fail P (- ENOMEM) inp h k1)
               else do {
                 let c = the cfg1;
                 in1 \<leftarrow> in_pcm_fill_params (inp\<lparr>i_dev := Live (In_pcm h)\<rparr>) c;
                 r \<leftarrow> in_get_sample_rate cm in1;
                 (if r \<noteq> cfg_rate c then do {
                    ((ret, in2), k2) \<leftarrow> in_resampler_init E R in1 (cfg_rate c) (channels c)
                       (pcm_frames_to_bytes p (cfg_period_size c)) k1;
                    Some (if ret < 0 then open_input_fail P ret in2 h k2 else ((0, in2), k2))
                  }
                  else Some ((0, in1), k1))
               })
        })"

definition start_pcm_input_stream ::
  "'k sys \<Rightarrow> 'k psys \<Rightarrow> 'k rsys \<Rightarrow> config_mgr \<Rightarrow> stream_in_pcm \<Rightarrow> 'k \<Rightarrow> ((int \<times> stream_in_pcm) \<times> 'k) option" where
  "start_pcm_input_stream E P R cm inp k =
     (if i_standby inp then do {
        ((ret, in1), k1) \<leftarrow> do_open_pcm_input E P R cm inp k;
        Some ((ret, if ret = 0 then in1\<lparr>i_standby := False\<rparr> else in1), k1)
      }
      else Some ((0, inp), k))"

section \<open>The input source\<close>

text \<open>
  \<open>me\<close> is the handle of the stream, which \<^verbatim>\<open>active_voice_control\<close> may name. The result is the return
  code, whether the source was changed, the stream and the device.
\<close>

definition voice_source_changed ::
  "'k sys \<Rightarrow> audio_h \<Rightarrow> nat \<Rightarrow> bool \<Rightarrow> audio_device \<Rightarrow> 'k \<Rightarrow> (audio_device \<times> 'k) option" where
  "voice_source_changed E A me voice_control adev k =
     (if voice_control
      then Some (voice_trigger_audio_started_locked (adev\<lparr>active_voice_control := Some me\<rparr>), k)
      else if active_voice_control adev = Some me
      then voice_trigger_audio_ended_locked E A (adev\<lparr>active_voice_control := None\<rparr>) k
      else Some (adev, k))"

definition change_input_source_locked ::
  "'k sys \<Rightarrow> audio_h \<Rightarrow> 'k hal_lib \<Rightarrow> nat \<Rightarrow> audio_device \<Rightarrow> stream_in_pcm \<Rightarrow> string \<Rightarrow> u32 \<Rightarrow> 'k
     \<Rightarrow> ((int \<times> bool \<times> stream_in_pcm \<times> audio_device) \<times> 'k) option" where
  "change_input_source_locked E A H me adev inp val devices k =
     (let new_source = atoi val;
          voice_control = (new_source = AUDIO_SOURCE_VOICE_RECOGNITION H);
          stream_name = (if voice_control then voice_trigger_audio_stream_name adev else None)
      in if \<not> i_standby inp then Some ((- EINVAL, False, inp, adev), k)
         else if i_input_source inp = new_source then Some ((0, False, inp, adev), k)
         else do {
           ((hw1, cm1), k1) \<leftarrow> (case stream_name of
                None \<Rightarrow> Some ((None, adev_cm adev), k)
              | Some name \<Rightarrow> get_named_stream E (adev_cm adev) name k);
           ((hw2, cm2), k2) \<leftarrow> (if hw1 = None then get_stream E A cm1 devices (i_format inp) k1
                               else Some ((hw1, cm1), k1));
           (if hw2 = None then Some ((- EINVAL, False, inp, adev\<lparr>adev_cm := cm2\<rparr>), k2)
            else do {
              (cm3, k3) \<leftarrow> release_stream E A cm2 (i_hw inp) k2;
              (adev1, k4) \<leftarrow> voice_source_changed E A me voice_control (adev\<lparr>adev_cm := cm3\<rparr>) k3;
              Some ((0, True, inp\<lparr>i_hw := hw2, i_input_source := new_source\<rparr>, adev1), k4)
            })
         })"

section \<open>Reading, standby and parameters\<close>

definition do_in_pcm_read ::
  "'k sys \<Rightarrow> 'k psys \<Rightarrow> 'k rsys \<Rightarrow> 'k resample_fn \<Rightarrow> nat \<Rightarrow> config_mgr \<Rightarrow> stream_in_pcm \<Rightarrow> u32 \<Rightarrow> 'k
     \<Rightarrow> ((int \<times> u8 list) \<times> 'k provider) option" where
  "do_in_pcm_read E P R RS fuel cm inp nbytes k =
     (if i_frame_size inp = 0 then None
      else do {
        let frames_rq = nbytes div i_frame_size inp;
        ((ret, in1), k1) \<leftarrow> start_pcm_input_stream E P R cm inp k;
        (if ret < 0 then Some ((ret, []), (in1, k1))
         else do {
           ((r, bs), s) \<leftarrow>
             (if rs_resampler (i_resampler in1) \<noteq> None
              then read_resampled_frames RS P fuel in1 (sint frames_rq) k1
              else case i_dev in1 of
                Live (In_pcm h) \<Rightarrow> do {
                  (((r, bs), h'), k2) \<leftarrow> read_handle P fuel h nbytes k1;
                  Some ((r, bs), (in1\<lparr>i_dev := Live (In_pcm h')\<rparr>, k2))
                }
              | _ \<Rightarrow> None);
           Some ((if r \<ge> 0 then sint nbytes else r, bs), s)
         })
      })"

definition stream_is_compressed :: "hw_stream \<Rightarrow> bool" where
  "stream_is_compressed s \<longleftrightarrow> st_type s = e_stream_out_compress \<or> st_type s = e_stream_in_compress"

definition stream_is_compressed_in :: "hw_stream \<Rightarrow> bool" where
  "stream_is_compressed_in s \<longleftrightarrow> st_type s = e_stream_in_compress"

definition in_pcm_standby ::
  "'k psys \<Rightarrow> 'k csys \<Rightarrow> 'k rsys \<Rightarrow> config_mgr \<Rightarrow> stream_in_pcm \<Rightarrow> 'k \<Rightarrow> ((int \<times> stream_in_pcm) \<times> 'k) option" where
  "in_pcm_standby P Z R cm inp k = do {
     (in1, k1) \<leftarrow>
       (case i_hw inp of
          None \<Rightarrow> Some (inp, k)
        | Some i \<Rightarrow> if stream_is_compressed_in (hw_of cm i) then do_in_compress_pcm_standby Z inp k
                   else do_in_pcm_standby P R inp k);
     Some ((0, in1), k1)
   }"

text \<open>
  The bytes that the caller finds in its buffer of \<open>nbytes\<close> bytes: those captured, or zeros when
  nothing was captured or the microphone is muted.
\<close>

definition in_pcm_read ::
  "'k sys \<Rightarrow> 'k psys \<Rightarrow> 'k csys \<Rightarrow> 'k rsys \<Rightarrow> 'k resample_fn \<Rightarrow> nat \<Rightarrow> audio_device \<Rightarrow> stream_in_pcm \<Rightarrow> u32 \<Rightarrow> 'k
     \<Rightarrow> ((int \<times> u8 list) \<times> 'k provider) option" where
  "in_pcm_read E P Z R RS fuel adev inp nbytes k = do {
     ((ret, bs), (in1, k1)) \<leftarrow>
       (case i_hw inp of
          None \<Rightarrow> Some ((- EINVAL, []), (inp, k))
        | Some i \<Rightarrow>
            if get_current_routes (adev_cm adev) i = 0 then Some ((- EINVAL, []), (inp, k))
            else if stream_is_compressed_in (hw_of (adev_cm adev) i)
            then do_in_compress_pcm_read Z R (adev_cm adev) inp nbytes k
            else do_in_pcm_read E P R RS fuel (adev_cm adev) inp nbytes k);
     (ret1, bs1, k2) \<leftarrow>
       (if ret \<le> 0 \<or> mic_mute adev then do {
          k2 \<leftarrow> (if ret \<le> 0 then do_in_realtime_delay R in1 nbytes k1 else Some k1);
          Some (sint nbytes, replicate (unat nbytes) 0, k2)
        }
        else Some (ret, bs, k1));
     let (in2, k3) = do_in_set_read_timestamp R in1 k2;
     Some ((ret1, bs1), (in2, k3))
   }"

text \<open>The part that handles the input source: the return code and the routing to apply.\<close>

definition params_source ::
  "'k sys \<Rightarrow> audio_h \<Rightarrow> 'k hal_lib \<Rightarrow> nat \<Rightarrow> audio_device \<Rightarrow> stream_in_pcm \<Rightarrow> string \<Rightarrow> u32 option \<Rightarrow> 'k
     \<Rightarrow> ((int \<times> u32 option \<times> stream_in_pcm \<times> audio_device) \<times> 'k) option" where
  "params_source E A H me adev inp kvpairs routing k =
     (case parms_get H kvpairs (AUDIO_PARAMETER_STREAM_INPUT_SOURCE H) of
        None \<Rightarrow> Some ((0, routing, inp, adev), k)
      | Some val \<Rightarrow> do {
          let devices = (case routing of Some d \<Rightarrow> d
               | None \<Rightarrow> (case i_hw inp of Some i \<Rightarrow> get_routed_devices (adev_cm adev) i | None \<Rightarrow> 0));
          ((ret, _, in1, adev1), k1) \<leftarrow> change_input_source_locked E A H me adev inp val devices k;
          Some ((ret, Some devices, in1, adev1), k1)
        })"

text \<open>The part that applies the routing.\<close>

definition params_route ::
  "'k sys \<Rightarrow> audio_h \<Rightarrow> config_mgr \<Rightarrow> stream_in_pcm \<Rightarrow> u32 option \<Rightarrow> 'k \<Rightarrow> ((stream_in_pcm \<times> config_mgr) \<times> 'k) option" where
  "params_route E A cm inp routing k =
     (case routing of
        None \<Rightarrow> Some ((inp, cm), k)
      | Some d \<Rightarrow>
          (case i_hw inp of
             None \<Rightarrow> Some ((inp\<lparr>i_devices := d\<rparr>, cm), k)
           | Some i \<Rightarrow> do {
               (cm1, k1) \<leftarrow> apply_route E A cm i d k;
               Some ((inp\<lparr>i_devices := d\<rparr>, cm1), k1)
             }))"

definition in_pcm_set_parameters ::
  "'k sys \<Rightarrow> audio_h \<Rightarrow> 'k hal_lib \<Rightarrow> nat \<Rightarrow> audio_device \<Rightarrow> stream_in_pcm \<Rightarrow> string \<Rightarrow> 'k
     \<Rightarrow> ((int \<times> stream_in_pcm \<times> audio_device) \<times> 'k) option" where
  "in_pcm_set_parameters E A H me adev inp kvpairs k = do {
     (routing, k1) \<leftarrow> common_get_routing_param H kvpairs k;
     let (ok, k2) = parms_create H k1;
     (if \<not> ok then None
      else do {
        ((ret, routing1, in1, adev1), k3) \<leftarrow> params_source E A H me adev inp kvpairs routing k2;
        (if ret < 0 then Some ((0, in1, adev1), k3)
         else do {
           ((in2, cm2), k4) \<leftarrow> params_route E A (adev_cm adev1) in1 routing1 k3;
           ((_, cm3), k5) \<leftarrow> stream_invoke_usecases E cm2 (i_hw in2) kvpairs k4;
           Some ((0, in2, adev1\<lparr>adev_cm := cm3\<rparr>), k5)
         })
      })
   }"

definition do_close_in_common ::
  "'k sys \<Rightarrow> 'k psys \<Rightarrow> 'k csys \<Rightarrow> 'k rsys \<Rightarrow> audio_h \<Rightarrow> nat \<Rightarrow> audio_device \<Rightarrow> stream_in_pcm \<Rightarrow> 'k
     \<Rightarrow> (audio_device \<times> 'k) option" where
  "do_close_in_common E P Z R A me adev inp k = do {
     ((_, in1), k1) \<leftarrow> in_pcm_standby P Z R (adev_cm adev) inp k;
     (adev1, k2) \<leftarrow>
       (if active_voice_control adev = Some me
        then voice_trigger_audio_ended_locked E A (adev\<lparr>active_voice_control := None\<rparr>) k1
        else Some (adev, k1));
     (cm2, k3) \<leftarrow> release_stream E A (adev_cm adev1) (i_hw in1) k2;
     Some (adev1\<lparr>adev_cm := cm2\<rparr>, k3)
   }"

definition do_close_in_pcm ::
  "'k sys \<Rightarrow> 'k psys \<Rightarrow> 'k csys \<Rightarrow> 'k rsys \<Rightarrow> audio_h \<Rightarrow> nat \<Rightarrow> audio_device \<Rightarrow> stream_in_pcm \<Rightarrow> 'k
     \<Rightarrow> (audio_device \<times> 'k) option" where
  "do_close_in_pcm E P Z R A me adev inp k = do {
     (in1, k1) \<leftarrow>
       (case i_hw inp of
          Some i \<Rightarrow> if stream_is_compressed (hw_of (adev_cm adev) i) then do_in_compress_pcm_close Z inp k
                    else Some (inp, k)
        | None \<Rightarrow> Some (inp, k));
     do_close_in_common E P Z R A me adev in1 k1
   }"

definition do_init_in_pcm :: "stream_in_pcm \<Rightarrow> int \<times> stream_in_pcm" where
  "do_init_in_pcm inp = (0, inp\<lparr>i_buffer_size := IN_COMPRESS_BUFFER_SIZE_DEFAULT\<rparr>)"

end
