(* ===== verification/Hal_Compress.thy ===== *)
theory Hal_Compress
  imports Hal_Input
begin

text \<open>
  The compressed output streams of audio/audio_hw.c (lines 93-112, 468-530, 805-1220): opening and
  starting on the first write, pause, drain and flush, standby, and the thread that reports
  completed writes and drains to the client.
\<close>

section \<open>Fields of a stream\<close>

datatype async_mode = ASYNC_NONE | ASYNC_POLL | ASYNC_EARLY_DRAIN | ASYNC_FULL_DRAIN

text \<open>
  \<^verbatim>\<open>use_async\<close> and \<^verbatim>\<open>async_common\<close> are members of the common part that only compressed streams use;
  of \<^verbatim>\<open>async_common\<close> the fields \<^verbatim>\<open>exit\<close> and \<^verbatim>\<open>mode\<close> are kept here. \<^verbatim>\<open>g_data\<close> is the pair of delay and padding.
\<close>

record stream_out_compress = stream_out +
  oc_use_async :: bool
  oc_exit :: bool
  oc_mode :: async_mode
  oc_compress :: "nat ptr"
  oc_codec :: snd_codec
  oc_started :: bool
  oc_paused :: bool
  oc_g_data :: "int \<times> int"
  oc_refresh_gapless_meta :: bool

section \<open>Opening, starting and standby\<close>

definition do_standby_compress_l ::
  "'k csys \<Rightarrow> stream_out_compress \<Rightarrow> 'k \<Rightarrow> ((int \<times> stream_out_compress) \<times> 'k) option" where
  "do_standby_compress_l Z out k =
     (case oc_compress out of
        Null \<Rightarrow> Some ((0, out), k)
      | Dangling \<Rightarrow> if oc_paused out then Some ((0, out), k) else None
      | Live c \<Rightarrow>
          if oc_paused out then Some ((0, out), k)
          else
            let k1 = (if oc_started out then snd (compress_stop Z c k) else k)
            in Some ((0, out\<lparr>oc_started := False, oc_compress := Null\<rparr>), compress_close Z c k1))"

definition out_compress_standby ::
  "'k csys \<Rightarrow> stream_out_compress \<Rightarrow> 'k \<Rightarrow> ((int \<times> stream_out_compress) \<times> 'k) option" where
  "out_compress_standby Z out k = do_standby_compress_l Z out k"

abbreviation MAX_COMPRESS_POLL_WAIT_MS :: int where "MAX_COMPRESS_POLL_WAIT_MS \<equiv> - 1"

definition open_output_compress ::
  "'k csys \<Rightarrow> config_mgr \<Rightarrow> stream_out_compress \<Rightarrow> 'k \<Rightarrow> ((int \<times> stream_out_compress) \<times> 'k) option" where
  "open_output_compress Z cm out k =
     (if oc_compress out \<noteq> Null then Some ((0, out), k)
      else case compress_open Z (card_number (hw_of cm (o_hw out))) (device_number (hw_of cm (o_hw out)))
             (COMPRESS_IN Z) 0 0 (oc_codec out) k of
        ((None, fs, fc), k1) \<Rightarrow> None
      | ((Some c, fs, fc), k1) \<Rightarrow>
          if \<not> is_compress_ready Z c k1 then Some ((- EBUSY, out), compress_close Z c k1)
          else
            let k2 = compress_set_max_poll_wait Z c MAX_COMPRESS_POLL_WAIT_MS k1;
                k3 = compress_nonblock Z c (oc_use_async out) k2
            in Some ((0, out\<lparr>o_buffer_size := fs * fc, oc_compress := Live c\<rparr>), k3))"

definition start_output_compress ::
  "'k csys \<Rightarrow> stream_out_compress \<Rightarrow> 'k \<Rightarrow> ((int \<times> stream_out_compress) \<times> 'k) option" where
  "start_output_compress Z out k =
     (case oc_compress out of
        Live c \<Rightarrow>
          (case compress_start Z c k of (ret, k1) \<Rightarrow>
             if ret < 0 then do {
               ((_, out1), k2) \<leftarrow> do_standby_compress_l Z out k1;
               Some ((ret, out1), k2)
             }
             else if oc_refresh_gapless_meta out then
               Some ((ret, out\<lparr>oc_started := True, oc_refresh_gapless_meta := False, oc_g_data := (0, 0)\<rparr>),
                     compress_set_gapless_metadata Z c (fst (oc_g_data out)) (snd (oc_g_data out)) k1)
             else Some ((ret, out\<lparr>oc_started := True\<rparr>), k1))
      | _ \<Rightarrow> None)"

section \<open>The asynchronous thread\<close>

definition signal_async_thread :: "stream_out_compress \<Rightarrow> async_mode \<Rightarrow> int \<times> stream_out_compress" where
  "signal_async_thread out mode =
     (if oc_mode out \<noteq> ASYNC_NONE then (- EBUSY, out) else (0, out\<lparr>oc_mode := mode\<rparr>))"

text \<open>
  What the thread does with the mode it took: it waits for or drains the device and calls the client
  back. \<open>callback\<close> is the client's function for the two events.
\<close>

datatype cbk_event = STREAM_CBK_EVENT_WRITE_READY | STREAM_CBK_EVENT_DRAIN_READY

definition async_work ::
  "'k csys \<Rightarrow> (cbk_event \<Rightarrow> 'k \<Rightarrow> 'k) \<Rightarrow> async_mode \<Rightarrow> stream_out_compress \<Rightarrow> 'k \<Rightarrow> (stream_out_compress \<times> 'k) option" where
  "async_work Z callback mode out k =
     (if mode = ASYNC_NONE then Some (out, k)
      else case oc_compress out of
        Live c \<Rightarrow>
          Some (if mode = ASYNC_POLL then
                  (out, callback STREAM_CBK_EVENT_WRITE_READY (compress_wait Z c MAX_COMPRESS_POLL_WAIT_MS k))
                else
                  let k1 = (if mode = ASYNC_EARLY_DRAIN
                            then snd (compress_partial_drain Z c (snd (compress_next_track Z c k)))
                            else snd (compress_drain Z c k))
                  in (out\<lparr>oc_started := False\<rparr>, callback STREAM_CBK_EVENT_DRAIN_READY k1))
      | _ \<Rightarrow> None)"

text \<open>
  Registering a callback: \<open>rvs\<close> are the results of creating the condition variable, the mutex and the
  thread.
\<close>

definition out_set_callback :: "int \<times> int \<times> int \<Rightarrow> stream_out_compress \<Rightarrow> int \<times> stream_out_compress" where
  "out_set_callback rvs out =
     (case rvs of (cv, mx, th) \<Rightarrow>
        let out1 = out\<lparr>oc_exit := False\<rparr> in
        if cv \<noteq> 0 then (cv, out1) else if mx \<noteq> 0 then (mx, out1) else if th \<noteq> 0 then (th, out1)
        else (0, out1\<lparr>oc_use_async := True\<rparr>))"

definition out_compress_set_callback :: "int \<times> int \<times> int \<Rightarrow> stream_out_compress \<Rightarrow> int \<times> stream_out_compress" where
  "out_compress_set_callback rvs out = out_set_callback rvs out"

section \<open>Writing and controlling the stream\<close>

definition out_compress_write ::
  "'k csys \<Rightarrow> config_mgr \<Rightarrow> stream_out_compress \<Rightarrow> u8 list \<Rightarrow> u32 \<Rightarrow> 'k \<Rightarrow> ((int \<times> stream_out_compress) \<times> 'k) option" where
  "out_compress_write Z cm out buf nbytes k = do {
     ((ret, out1), k1) \<leftarrow> open_output_compress Z cm out k;
     (if ret < 0 then Some ((ret, out1), k1)
      else case oc_compress out1 of
        Live c \<Rightarrow>
          (case compress_write Z c buf nbytes k1 of (n, k2) \<Rightarrow>
             if n < 0 then Some ((n, out1), k2)
             else do {
               ((st, out2), k3) \<leftarrow> (if \<not> oc_started out1 then start_output_compress Z out1 k2 else Some ((0, out1), k2));
               Some (if st < 0 then ((- 1, out2), k3)
                     else if oc_use_async out2 \<and> n < uint nbytes
                     then ((n, snd (signal_async_thread out2 ASYNC_POLL)), k3)
                     else ((n, out2), k3))
             })
      | _ \<Rightarrow> None)
   }"

definition out_compress_pause ::
  "'k csys \<Rightarrow> stream_out_compress \<Rightarrow> 'k \<Rightarrow> ((int \<times> stream_out_compress) \<times> 'k) option" where
  "out_compress_pause Z out k =
     (if oc_paused out then Some ((- EBADFD, out), k)
      else case oc_compress out of
        Null \<Rightarrow> Some ((- EBADFD, out), k)
      | Live c \<Rightarrow> (case compress_pause Z c k of (ret, k1) \<Rightarrow> Some ((ret, out\<lparr>oc_paused := True\<rparr>), k1))
      | Dangling \<Rightarrow> None)"

definition out_compress_resume ::
  "'k csys \<Rightarrow> stream_out_compress \<Rightarrow> 'k \<Rightarrow> ((int \<times> stream_out_compress) \<times> 'k) option" where
  "out_compress_resume Z out k =
     (if \<not> oc_paused out then Some ((- EBADFD, out), k)
      else case oc_compress out of
        Null \<Rightarrow> Some ((- EBADFD, out), k)
      | Live c \<Rightarrow> (case compress_resume Z c k of (ret, k1) \<Rightarrow> Some ((ret, out\<lparr>oc_paused := False\<rparr>), k1))
      | Dangling \<Rightarrow> None)"

text \<open>\<open>early\<close> stands for \<^verbatim>\<open>AUDIO_DRAIN_EARLY_NOTIFY\<close>.\<close>

definition out_compress_drain ::
  "'k csys \<Rightarrow> stream_out_compress \<Rightarrow> bool \<Rightarrow> 'k \<Rightarrow> ((int \<times> stream_out_compress) \<times> 'k) option" where
  "out_compress_drain Z out early k =
     (if oc_use_async out
      then Some (signal_async_thread out (if early then ASYNC_EARLY_DRAIN else ASYNC_FULL_DRAIN), k)
      else case oc_compress out of
        Live c \<Rightarrow>
          if early then
            (case compress_next_track Z c k of (r, k1) \<Rightarrow>
               if r \<noteq> 0 then Some ((r, out), k1)
               else case compress_partial_drain Z c k1 of (r2, k2) \<Rightarrow> Some ((r2, out\<lparr>oc_started := False\<rparr>), k2))
          else (case compress_drain Z c k of (r, k1) \<Rightarrow> Some ((r, out\<lparr>oc_started := False\<rparr>), k1))
      | _ \<Rightarrow> None)"

definition out_compress_flush ::
  "'k csys \<Rightarrow> stream_out_compress \<Rightarrow> 'k \<Rightarrow> ((int \<times> stream_out_compress) \<times> 'k) option" where
  "out_compress_flush Z out k =
     (case oc_compress out of
        Null \<Rightarrow> Some ((0, out), k)
      | Live c \<Rightarrow>
          if oc_started out
          then Some ((0, out\<lparr>oc_paused := False, oc_started := False\<rparr>), snd (compress_stop Z c k))
          else Some ((0, out), k)
      | Dangling \<Rightarrow> if oc_started out then None else Some ((0, out), k))"

text \<open>The position, when the caller passes a place for it.\<close>

definition out_compress_get_render_position ::
  "'k csys \<Rightarrow> stream_out_compress \<Rightarrow> 'k \<Rightarrow> (u32 \<times> 'k) option" where
  "out_compress_get_render_position Z out k =
     (if \<not> oc_started out then Some (0, k)
      else case oc_compress out of
        Live c \<Rightarrow> (case compress_get_tstamp Z c k of ((r, samples), k1) \<Rightarrow> Some (if r = 0 then samples else 0, k1))
      | _ \<Rightarrow> None)"

definition out_compress_close ::
  "'k sys \<Rightarrow> 'k csys \<Rightarrow> audio_h \<Rightarrow> audio_device \<Rightarrow> stream_out_compress \<Rightarrow> 'k \<Rightarrow> (audio_device \<times> 'k) option" where
  "out_compress_close E Z A adev out k = do {
     ((_, out1), k1) \<leftarrow> out_compress_standby Z (out\<lparr>oc_paused := False\<rparr>) k;
     do_close_out_common E A adev out1 k1
   }"

text \<open>\<open>delay\<close> and \<open>padding\<close> are the names of the two gapless parameters.\<close>

definition out_compress_set_parameters ::
  "'k sys \<Rightarrow> audio_h \<Rightarrow> 'k hal_lib \<Rightarrow> string \<Rightarrow> string \<Rightarrow> audio_device \<Rightarrow> stream_out_compress \<Rightarrow> string \<Rightarrow> 'k
     \<Rightarrow> ((int \<times> stream_out_compress \<times> audio_device) \<times> 'k) option" where
  "out_compress_set_parameters E A H delay padding adev out kv_pairs k =
     (case parms_create H k of (ok, k1) \<Rightarrow>
        if \<not> ok then None
        else
          let d = parms_get H kv_pairs delay; p = parms_get H kv_pairs padding;
              out1 = out\<lparr>oc_g_data := (case d of None \<Rightarrow> fst (oc_g_data out) | Some v \<Rightarrow> atoi v,
                                       case p of None \<Rightarrow> snd (oc_g_data out) | Some v \<Rightarrow> atoi v),
                         oc_refresh_gapless_meta := (oc_refresh_gapless_meta out \<or> d \<noteq> None \<or> p \<noteq> None)\<rparr>
          in do {
            ((_, adev1), k2) \<leftarrow> out_set_parameters E A H adev out1 kv_pairs k1;
            Some ((0, out1, adev1), k2)
          })"

text \<open>The codec identifier of a format and the level it sets, if any.\<close>

definition codec_of_format :: "'k csys \<Rightarrow> u32 \<Rightarrow> (u32 \<times> u32 option) option" where
  "codec_of_format Z f =
     (let m = f AND AUDIO_FORMAT_MAIN_MASK Z in
      if m = AUDIO_FORMAT_MP3 Z then Some (SND_AUDIOCODEC_MP3 Z, None)
      else if m = AUDIO_FORMAT_AAC Z then Some (SND_AUDIOCODEC_AAC Z, None)
      else if m = AUDIO_FORMAT_HE_AAC_V1 Z then Some (SND_AUDIOCODEC_AAC Z, Some (SND_AUDIOMODE_AAC_HE Z))
      else if m = AUDIO_FORMAT_HE_AAC_V2 Z then Some (SND_AUDIOCODEC_AAC Z, Some (SND_AUDIOMODE_AAC_HE Z))
      else if m = AUDIO_FORMAT_VORBIS Z then Some (SND_AUDIOCODEC_VORBIS Z, None)
      else None)"

definition do_init_out_compress ::
  "'k csys \<Rightarrow> 'k hal_lib \<Rightarrow> config_mgr \<Rightarrow> stream_out_compress \<Rightarrow> audio_config \<Rightarrow> 'k
     \<Rightarrow> ((int \<times> stream_out_compress) \<times> 'k) option" where
  "do_init_out_compress Z H cm out cfg k =
     (let c1 = (oc_codec out)\<lparr>cd_align := 1, cd_sample_rate := ac_sample_rate cfg,
               cd_rate_control := SND_RATECONTROLMODE_CONSTANTBITRATE Z OR SND_RATECONTROLMODE_VARIABLEBITRATE Z\<rparr>
      in case codec_of_format Z (ac_format cfg) of
           None \<Rightarrow> Some ((- EINVAL, out\<lparr>oc_codec := c1\<rparr>), k)
         | Some (cid, level) \<Rightarrow>
             open_output_compress Z cm (out\<lparr>oc_codec := c1\<lparr>cd_id := cid, cd_level := (case level of None \<Rightarrow> cd_level c1 | Some l \<Rightarrow> l),
               cd_ch_out := popcount H (ac_channel_mask cfg)\<rparr>\<rparr>) k)"

end
