(* ===== verification/Config_Parser.thy ===== *)
theory Config_Parser
  imports Routing
begin

text \<open>
  The configuration file parser of configmgr/audio_config.c (lines 185-316, 913-1387 and
  1491-2475): the tables of elements and attributes, the constructors of the configuration's
  objects, one handler per element, the two callbacks that the XML library calls, and the
  loop that feeds it. The XML library is represented by the sequence of callbacks it makes.

  Pointers of \<^verbatim>\<open>state->current\<close> are indices into the tables they point into. \<^verbatim>\<open>error_line\<close> and
  the log lines are left out.
\<close>

section \<open>Elements, attributes and devices\<close>

datatype element_index = e_elem_ctl | e_elem_path | e_elem_device | e_elem_stream | e_elem_enable
  | e_elem_disable | e_elem_case | e_elem_usecase | e_elem_stream_ctl | e_elem_init | e_elem_mixer
  | e_elem_audiohal | e_elem_codec_probe | e_elem_codec_case

datatype attrib_index = e_attrib_name | e_attrib_val | e_attrib_path | e_attrib_function
  | e_attrib_type | e_attrib_index | e_attrib_dir | e_attrib_card | e_attrib_device
  | e_attrib_instances | e_attrib_rate | e_attrib_period_size | e_attrib_period_count
  | e_attrib_min | e_attrib_max | e_attrib_file

definition all_elems :: "element_index list" where
  "all_elems = [e_elem_ctl, e_elem_path, e_elem_device, e_elem_stream, e_elem_enable,
     e_elem_disable, e_elem_case, e_elem_usecase, e_elem_stream_ctl, e_elem_init, e_elem_mixer,
     e_elem_audiohal, e_elem_codec_probe, e_elem_codec_case]"

definition all_attribs :: "attrib_index list" where
  "all_attribs = [e_attrib_name, e_attrib_val, e_attrib_path, e_attrib_function, e_attrib_type,
     e_attrib_index, e_attrib_dir, e_attrib_card, e_attrib_device, e_attrib_instances,
     e_attrib_rate, e_attrib_period_size, e_attrib_period_count, e_attrib_min, e_attrib_max,
     e_attrib_file]"

text \<open>The bit masks of \<^verbatim>\<open>struct parse_element\<close> are lists of the elements or attributes they hold.\<close>

record parse_element =
  el_name :: string
  valid_attribs :: "attrib_index list"
  required_attribs :: "attrib_index list"
  valid_subelem :: "element_index list"

fun elem_table :: "element_index \<Rightarrow> parse_element" where
  "elem_table e_elem_ctl = \<lparr>el_name = ''ctl'',
     valid_attribs = [e_attrib_name, e_attrib_val, e_attrib_index],
     required_attribs = [e_attrib_name, e_attrib_val], valid_subelem = []\<rparr>"
| "elem_table e_elem_path = \<lparr>el_name = ''path'', valid_attribs = [e_attrib_name],
     required_attribs = [e_attrib_name], valid_subelem = [e_elem_ctl]\<rparr>"
| "elem_table e_elem_device = \<lparr>el_name = ''device'', valid_attribs = [e_attrib_name],
     required_attribs = [e_attrib_name], valid_subelem = [e_elem_path]\<rparr>"
| "elem_table e_elem_stream = \<lparr>el_name = ''stream'',
     valid_attribs = [e_attrib_name, e_attrib_type, e_attrib_dir, e_attrib_card, e_attrib_device,
       e_attrib_instances, e_attrib_rate, e_attrib_period_size, e_attrib_period_count],
     required_attribs = [e_attrib_type],
     valid_subelem = [e_elem_stream_ctl, e_elem_enable, e_elem_disable, e_elem_usecase]\<rparr>"
| "elem_table e_elem_enable = \<lparr>el_name = ''enable'', valid_attribs = [e_attrib_path],
     required_attribs = [e_attrib_path], valid_subelem = []\<rparr>"
| "elem_table e_elem_disable = \<lparr>el_name = ''disable'', valid_attribs = [e_attrib_path],
     required_attribs = [e_attrib_path], valid_subelem = []\<rparr>"
| "elem_table e_elem_case = \<lparr>el_name = ''case'', valid_attribs = [e_attrib_name],
     required_attribs = [e_attrib_name], valid_subelem = [e_elem_ctl]\<rparr>"
| "elem_table e_elem_usecase = \<lparr>el_name = ''usecase'', valid_attribs = [e_attrib_name],
     required_attribs = [e_attrib_name], valid_subelem = [e_elem_case]\<rparr>"
| "elem_table e_elem_stream_ctl = \<lparr>el_name = ''ctl'',
     valid_attribs = [e_attrib_name, e_attrib_function, e_attrib_index, e_attrib_min, e_attrib_max],
     required_attribs = [e_attrib_name, e_attrib_function], valid_subelem = []\<rparr>"
| "elem_table e_elem_init = \<lparr>el_name = ''init'', valid_attribs = [], required_attribs = [],
     valid_subelem = [e_elem_ctl]\<rparr>"
| "elem_table e_elem_mixer = \<lparr>el_name = ''mixer'', valid_attribs = [e_attrib_card],
     required_attribs = [], valid_subelem = [e_elem_init]\<rparr>"
| "elem_table e_elem_audiohal = \<lparr>el_name = ''audiohal'', valid_attribs = [],
     required_attribs = [], valid_subelem = [e_elem_mixer, e_elem_codec_probe]\<rparr>"
| "elem_table e_elem_codec_probe = \<lparr>el_name = ''codec_probe'', valid_attribs = [e_attrib_file],
     required_attribs = [e_attrib_file], valid_subelem = [e_elem_codec_case]\<rparr>"
| "elem_table e_elem_codec_case = \<lparr>el_name = ''case'',
     valid_attribs = [e_attrib_name, e_attrib_file],
     required_attribs = [e_attrib_name, e_attrib_file], valid_subelem = []\<rparr>"

fun attrib_table :: "attrib_index \<Rightarrow> string" where
  "attrib_table e_attrib_name = ''name''"
| "attrib_table e_attrib_val = ''val''"
| "attrib_table e_attrib_path = ''path''"
| "attrib_table e_attrib_function = ''function''"
| "attrib_table e_attrib_type = ''type''"
| "attrib_table e_attrib_index = ''index''"
| "attrib_table e_attrib_dir = ''dir''"
| "attrib_table e_attrib_card = ''card''"
| "attrib_table e_attrib_device = ''device''"
| "attrib_table e_attrib_instances = ''instances''"
| "attrib_table e_attrib_rate = ''rate''"
| "attrib_table e_attrib_period_size = ''period_size''"
| "attrib_table e_attrib_period_count = ''period_count''"
| "attrib_table e_attrib_min = ''min''"
| "attrib_table e_attrib_max = ''max''"
| "attrib_table e_attrib_file = ''file''"

definition device_table :: "audio_h \<Rightarrow> (string \<times> u32) list" where
  "device_table A = [(''global'', 0), (''speaker'', AUDIO_DEVICE_OUT_SPEAKER A),
     (''earpiece'', AUDIO_DEVICE_OUT_EARPIECE A), (''headset'', AUDIO_DEVICE_OUT_WIRED_HEADSET A),
     (''headset_in'', AUDIO_DEVICE_IN_WIRED_HEADSET A),
     (''headphone'', AUDIO_DEVICE_OUT_WIRED_HEADPHONE A), (''sco'', AUDIO_DEVICE_OUT_ALL_SCO A),
     (''sco_in'', AUDIO_DEVICE_IN_ALL_SCO A), (''a2dp'', AUDIO_DEVICE_OUT_ALL_A2DP A),
     (''usb'', AUDIO_DEVICE_OUT_ALL_USB A), (''mic'', AUDIO_DEVICE_IN_BUILTIN_MIC A),
     (''back mic'', AUDIO_DEVICE_IN_BACK_MIC A), (''voice'', AUDIO_DEVICE_IN_VOICE_CALL A),
     (''aux'', AUDIO_DEVICE_IN_AUX_DIGITAL A)]"

definition parse_match_device :: "audio_h \<Rightarrow> string \<Rightarrow> u32 option" where
  "parse_match_device A name = map_of (device_table A) name"

definition debug_device_to_name :: "audio_h \<Rightarrow> u32 \<Rightarrow> string" where
  "debug_device_to_name A device =
     (case find (\<lambda>(n, d). device = d) (device_table A) of Some (n, d) \<Rightarrow> n | None \<Rightarrow> ''unknown'')"

section \<open>Parser state\<close>

record codec_case =
  cc_name :: "string option"
  cc_file :: "string option"

datatype path_ref = Init_path | Device_path nat nat

record parse_stack_entry =
  en_elem :: element_index
  en_valid :: "element_index list"

text \<open>
  \<open>stack\<close> is \<^verbatim>\<open>stack.entry[index], ..., stack.entry[0]\<close>, the top first. \<open>stopped\<close> is the
  state of the XML parser after calls of \<^verbatim>\<open>XML_StopParser\<close>. \<open>probe_file\<close>, \<open>new_xml_file\<close> and \<open>codec_cases\<close> are the
  fields of \<^verbatim>\<open>init_probe\<close>, and \<open>cur_probe\<close> says that \<^verbatim>\<open>current.codec_probe\<close> points to it.
\<close>

datatype parser_status = Running | Suspended | Aborted

record parse_state =
  ps_cm :: config_mgr
  cur_xml_file :: "string option"
  parse_error :: int
  attribs :: "attrib_index \<Rightarrow> string option"
  cur_device :: "nat option"
  cur_stream :: "nat option"
  cur_path :: "path_ref option"
  cur_usecase :: "(nat \<times> nat) option"
  cur_scase :: "(nat \<times> nat \<times> nat) option"
  cur_probe :: bool
  path_names :: "string dyn_array"
  init_path :: path
  probe_file :: "string option"
  new_xml_file :: "string option"
  codec_cases :: "codec_case dyn_array"
  stack :: "parse_stack_entry list"
  stopped :: parser_status

text \<open>
  What the parser takes from the file system and the platform: \<^verbatim>\<open>fopen\<close> and the first line
  of the codec probe file, the product's name, the value that an uninitialised local variable
  happens to hold, and for every file the chunks that \<^verbatim>\<open>fread\<close> and \<^verbatim>\<open>XML_Parse\<close> deliver: the
  callbacks of the chunk, whether reading failed, and whether the XML library reports an error.
\<close>

datatype xml_event = Start string "(string \<times> string) list" | End string

record xml_chunk =
  io_error :: bool
  events :: "xml_event list"
  xml_error :: bool

record 'k xenv =
  x_fopen :: "string \<Rightarrow> 'k \<Rightarrow> bool \<times> 'k"
  x_fgets :: "string \<Rightarrow> 'k \<Rightarrow> string option \<times> 'k"
  x_chunks :: "string \<Rightarrow> xml_chunk list"
  x_product :: string
  x_junk :: u32

section \<open>Constructors\<close>

abbreviation sizeof_ctl :: u16 where "sizeof_ctl \<equiv> 24"
abbreviation sizeof_path :: u16 where "sizeof_path \<equiv> 16"
abbreviation sizeof_device :: u16 where "sizeof_device \<equiv> 20"
abbreviation sizeof_scase :: u16 where "sizeof_scase \<equiv> 16"
abbreviation sizeof_usecase :: u16 where "sizeof_usecase \<equiv> 16"
abbreviation sizeof_codec_case :: u16 where "sizeof_codec_case \<equiv> 8"
abbreviation sizeof_stream :: u16 where "sizeof_stream \<equiv> 88"
abbreviation sizeof_pointer :: u16 where "sizeof_pointer \<equiv> 4"

definition new_ctl :: "'k sys \<Rightarrow> ctl dyn_array \<Rightarrow> string \<Rightarrow> 'k \<Rightarrow> (nat option \<times> ctl dyn_array) \<times> 'k" where
  "new_ctl E array name = new_elem E zero_cfg_ctl
     (\<lambda>c. c\<lparr>c_id := UINT_MAX, c_index := INVALID_CTL_INDEX, c_name := name,
            c_type := MIXER_CTL_TYPE_UNKNOWN\<rparr>) array"

definition zero_codec_case :: codec_case where
  "zero_codec_case = \<lparr>cc_name = None, cc_file = None\<rparr>"

definition new_codec_case :: "'k sys \<Rightarrow> codec_case dyn_array \<Rightarrow> string option \<Rightarrow> string option \<Rightarrow> 'k
    \<Rightarrow> (nat option \<times> codec_case dyn_array) \<times> 'k" where
  "new_codec_case E array codec file =
     new_elem E zero_codec_case (\<lambda>cc. cc\<lparr>cc_name := codec, cc_file := file\<rparr>) array"

definition new_path :: "'k sys \<Rightarrow> path dyn_array \<Rightarrow> int \<Rightarrow> 'k \<Rightarrow> (nat option \<times> path dyn_array) \<times> 'k" where
  "new_path E array pid = new_elem E zero_path
     (\<lambda>p. p\<lparr>p_ctl_array := (p_ctl_array p)\<lparr>elem_size := sizeof_ctl\<rparr>, p_id := pid\<rparr>) array"

definition compress_path :: "'k sys \<Rightarrow> path \<Rightarrow> 'k \<Rightarrow> path \<times> 'k" where
  "compress_path E p k =
     (case dyn_array_fix E (p_ctl_array p) k of (a, k') \<Rightarrow> (p\<lparr>p_ctl_array := a\<rparr>, k'))"

definition new_case :: "'k sys \<Rightarrow> scase dyn_array \<Rightarrow> string \<Rightarrow> 'k \<Rightarrow> (nat option \<times> scase dyn_array) \<times> 'k" where
  "new_case E array name = new_elem E zero_scase
     (\<lambda>sc. sc\<lparr>sc_ctl_array := (sc_ctl_array sc)\<lparr>elem_size := sizeof_ctl\<rparr>, sc_name := name\<rparr>) array"

definition compress_case :: "'k sys \<Rightarrow> scase \<Rightarrow> 'k \<Rightarrow> scase \<times> 'k" where
  "compress_case E sc k =
     (case dyn_array_fix E (sc_ctl_array sc) k of (a, k') \<Rightarrow> (sc\<lparr>sc_ctl_array := a\<rparr>, k'))"

definition new_usecase :: "'k sys \<Rightarrow> usecase dyn_array \<Rightarrow> string \<Rightarrow> 'k \<Rightarrow> (nat option \<times> usecase dyn_array) \<times> 'k" where
  "new_usecase E array name = new_elem E zero_usecase
     (\<lambda>uc. uc\<lparr>case_array := (case_array uc)\<lparr>elem_size := sizeof_scase\<rparr>, uc_name := name\<rparr>) array"

definition compress_usecase :: "'k sys \<Rightarrow> usecase \<Rightarrow> 'k \<Rightarrow> usecase \<times> 'k" where
  "compress_usecase E uc k =
     (case dyn_array_fix E (case_array uc) k of (a, k') \<Rightarrow> (uc\<lparr>case_array := a\<rparr>, k'))"

definition new_device :: "'k sys \<Rightarrow> device dyn_array \<Rightarrow> u32 \<Rightarrow> 'k \<Rightarrow> (nat option \<times> device dyn_array) \<times> 'k" where
  "new_device E array t = new_elem E zero_device
     (\<lambda>d. d\<lparr>path_array := (path_array d)\<lparr>elem_size := sizeof_path\<rparr>, d_type := t\<rparr>) array"

definition compress_device :: "'k sys \<Rightarrow> device \<Rightarrow> 'k \<Rightarrow> device \<times> 'k" where
  "compress_device E d k =
     (case dyn_array_fix E (path_array d) k of (a, k') \<Rightarrow> (d\<lparr>path_array := a\<rparr>, k'))"

definition new_stream :: "'k sys \<Rightarrow> stream dyn_array \<Rightarrow> 'k \<Rightarrow> (nat option \<times> stream dyn_array) \<times> 'k" where
  "new_stream E array = new_elem E zero_stream
     (\<lambda>s. s\<lparr>usecase_array := (usecase_array s)\<lparr>elem_size := sizeof_usecase\<rparr>,
            enable_path := - 1, disable_path := - 1,
            volume_left := (volume_left s)\<lparr>v_id := UINT_MAX\<rparr>,
            volume_right := (volume_right s)\<lparr>v_id := UINT_MAX\<rparr>\<rparr>) array"

definition compress_stream :: "'k sys \<Rightarrow> stream \<Rightarrow> 'k \<Rightarrow> stream \<times> 'k" where
  "compress_stream E s k =
     (case dyn_array_fix E (usecase_array s) k of (a, k') \<Rightarrow> (s\<lparr>usecase_array := a\<rparr>, k'))"

definition new_name :: "'k sys \<Rightarrow> string dyn_array \<Rightarrow> string \<Rightarrow> 'k \<Rightarrow> (int \<times> string dyn_array) \<times> 'k" where
  "new_name E array name k =
     (case new_elem E [] (\<lambda>_. name) array k of
        ((None, array'), k') \<Rightarrow> ((- ENOMEM, array'), k')
      | ((Some i, array'), k') \<Rightarrow> ((int i, array'), k'))"

definition new_config_mgr :: "'k sys \<Rightarrow> 'k \<Rightarrow> config_mgr option \<times> 'k" where
  "new_config_mgr E k =
     (case sys_alloc E k of (ok, k') \<Rightarrow>
        (if \<not> ok then None
         else Some \<lparr>cm_mixer = None, supported_output_devices = 0, supported_input_devices = 0,
           device_array = empty_array sizeof_device, stream_array = empty_array sizeof_stream\<rparr>, k'))"

definition compress_config_mgr :: "'k sys \<Rightarrow> config_mgr \<Rightarrow> 'k \<Rightarrow> config_mgr \<times> 'k" where
  "compress_config_mgr E mgr k =
     (case dyn_array_fix E (device_array mgr) k of (da, k1) \<Rightarrow>
      case dyn_array_fix E (stream_array mgr) k1 of (sa, k2) \<Rightarrow>
        (mgr\<lparr>device_array := da, stream_array := sa\<rparr>, k2))"

section \<open>Path names\<close>

text \<open>The search runs from the last name to the first.\<close>

fun find_name_loop :: "string list \<Rightarrow> string \<Rightarrow> nat \<Rightarrow> int" where
  "find_name_loop names name 0 = - EINVAL"
| "find_name_loop names name (Suc i) = (if names ! i = name then int i else find_name_loop names name i)"

definition find_path_name :: "string dyn_array \<Rightarrow> string \<Rightarrow> int" where
  "find_path_name array name = find_name_loop (elems array) name (unat (count array))"

definition add_path_name :: "'k sys \<Rightarrow> string dyn_array \<Rightarrow> string \<Rightarrow> 'k \<Rightarrow> (int \<times> string dyn_array) \<times> 'k" where
  "add_path_name E array name k =
     (let index = find_path_name array name in
      if index \<ge> 0 then ((index, array), k)
      else case sys_alloc E k of (ok, k1) \<Rightarrow>
        if \<not> ok then ((- ENOMEM, array), k1)
        else case new_name E array name k1 of ((i, array'), k2) \<Rightarrow>
          ((if i < 0 then - ENOMEM else i, array'), k2))"

section \<open>Objects reached through the parser's pointers\<close>

definition get_path :: "parse_state \<Rightarrow> path_ref \<Rightarrow> path" where
  "get_path st r = (case r of Init_path \<Rightarrow> init_path st
     | Device_path d p \<Rightarrow> elems (path_array (elems (device_array (ps_cm st)) ! d)) ! p)"

definition put_device :: "parse_state \<Rightarrow> nat \<Rightarrow> device \<Rightarrow> parse_state" where
  "put_device st d x = st\<lparr>ps_cm := (ps_cm st)\<lparr>device_array := set_elem (device_array (ps_cm st)) d x\<rparr>\<rparr>"

definition put_path :: "parse_state \<Rightarrow> path_ref \<Rightarrow> path \<Rightarrow> parse_state" where
  "put_path st r x = (case r of Init_path \<Rightarrow> st\<lparr>init_path := x\<rparr>
     | Device_path d p \<Rightarrow>
         let dev = elems (device_array (ps_cm st)) ! d
         in put_device st d (dev\<lparr>path_array := set_elem (path_array dev) p x\<rparr>))"

definition put_stream :: "parse_state \<Rightarrow> nat \<Rightarrow> stream \<Rightarrow> parse_state" where
  "put_stream st i s = st\<lparr>ps_cm := put_stream_at (ps_cm st) i s\<rparr>"

definition get_usecase :: "parse_state \<Rightarrow> nat \<Rightarrow> nat \<Rightarrow> usecase" where
  "get_usecase st i u = elems (usecase_array (get_stream_at (ps_cm st) i)) ! u"

definition put_usecase :: "parse_state \<Rightarrow> nat \<Rightarrow> nat \<Rightarrow> usecase \<Rightarrow> parse_state" where
  "put_usecase st i u x =
     (let s = get_stream_at (ps_cm st) i
      in put_stream st i (s\<lparr>usecase_array := set_elem (usecase_array s) u x\<rparr>))"

definition get_scase :: "parse_state \<Rightarrow> nat \<Rightarrow> nat \<Rightarrow> nat \<Rightarrow> scase" where
  "get_scase st i u c = elems (case_array (get_usecase st i u)) ! c"

definition put_scase :: "parse_state \<Rightarrow> nat \<Rightarrow> nat \<Rightarrow> nat \<Rightarrow> scase \<Rightarrow> parse_state" where
  "put_scase st i u c x =
     (let uc = get_usecase st i u in put_usecase st i u (uc\<lparr>case_array := set_elem (case_array uc) c x\<rparr>))"

datatype ctl_ref = Path_ctls path_ref | Case_ctls nat nat nat

definition get_ctls :: "parse_state \<Rightarrow> ctl_ref \<Rightarrow> ctl dyn_array" where
  "get_ctls st r = (case r of Path_ctls p \<Rightarrow> p_ctl_array (get_path st p)
     | Case_ctls i u c \<Rightarrow> sc_ctl_array (get_scase st i u c))"

definition put_ctls :: "parse_state \<Rightarrow> ctl_ref \<Rightarrow> ctl dyn_array \<Rightarrow> parse_state" where
  "put_ctls st r a = (case r of Path_ctls p \<Rightarrow> put_path st p ((get_path st p)\<lparr>p_ctl_array := a\<rparr>)
     | Case_ctls i u c \<Rightarrow> put_scase st i u c ((get_scase st i u c)\<lparr>sc_ctl_array := a\<rparr>))"

section \<open>Handlers for controls and probes\<close>

definition attrib_to_uint :: "parse_state \<Rightarrow> attrib_index \<Rightarrow> int \<times> u32 option" where
  "attrib_to_uint st a = string_to_uint (attribs st a)"

text \<open>A variable after \<^verbatim>\<open>attrib_to_uint(&v, ...)\<close>: unchanged unless a number was stored.\<close>

definition stored :: "u32 option \<Rightarrow> u32 \<Rightarrow> u32" where
  "stored v old = (case v of Some x \<Rightarrow> x | None \<Rightarrow> old)"

definition ctl_target :: "parse_state \<Rightarrow> ctl_ref option" where
  "ctl_target st = (case cur_path st of Some r \<Rightarrow> Some (Path_ctls r)
     | None \<Rightarrow> map_option (\<lambda>(i, u, c). Case_ctls i u c) (cur_scase st))"

text \<open>
  An invalid index and a failed \<^verbatim>\<open>strdup\<close> of the value jump to \<^verbatim>\<open>fail\<close>, which calls
  \<^verbatim>\<open>free(c)\<close> on an element of the table: undefined for any element but the first, and for the
  first a release of the block that the table still refers to. Both are \<open>None\<close>.
\<close>

definition parse_ctl_start :: "'k sys \<Rightarrow> parse_state \<Rightarrow> 'k \<Rightarrow> ((int \<times> parse_state) \<times> 'k) option" where
  "parse_ctl_start E st k = do {
     name \<leftarrow> attribs st e_attrib_name;
     let (ok, k1) = sys_alloc E k;
     (if \<not> ok then Some ((- ENOMEM, st), k1)
      else do {
        r \<leftarrow> ctl_target st;
        let ((c, arr), k2) = new_ctl E (get_ctls st r) name k1;
        (case c of
           None \<Rightarrow> Some ((- ENOMEM, put_ctls st r arr), k2)
         | Some i \<Rightarrow>
             (case attrib_to_uint st e_attrib_index of (rc, v) \<Rightarrow>
                if rc = - EINVAL then None
                else do {
                  let c1 = (elems arr ! i)\<lparr>c_name := name, c_index := stored v (c_index (elems arr ! i))\<rparr>;
                  val \<leftarrow> attribs st e_attrib_val;
                  let (ok2, k3) = sys_alloc E k2;
                  (if \<not> ok2 then None
                   else do {
                     ((ret, c3), k4) \<leftarrow> ctl_open E (cm_mixer (ps_cm st)) (c1\<lparr>c_value := String val\<rparr>) k3;
                     Some ((if ret = - ENOENT then 0 else ret, put_ctls st r (set_elem arr i c3)), k4)
                   })
                }))
      })
   }"

definition strdup :: "'k sys \<Rightarrow> string option \<Rightarrow> 'k \<Rightarrow> (string option \<times> 'k) option" where
  "strdup E s k = do {
     x \<leftarrow> s;
     let (ok, k') = sys_alloc E k;
     Some (if ok then Some x else None, k')
   }"

definition parse_codec_case_start :: "'k sys \<Rightarrow> parse_state \<Rightarrow> 'k \<Rightarrow> ((int \<times> parse_state) \<times> 'k) option" where
  "parse_codec_case_start E st k = do {
     (codec, k1) \<leftarrow> strdup E (attribs st e_attrib_name) k;
     (file, k2) \<leftarrow> strdup E (attribs st e_attrib_file) k1;
     (if \<not> cur_probe st then None
      else let ((cc, arr), k3) = new_codec_case E (codec_cases st) codec file k2
           in Some ((if cc = None then - ENOMEM else 0, st\<lparr>codec_cases := arr\<rparr>), k3))
   }"

definition parse_init_start :: "parse_state \<Rightarrow> 'k \<Rightarrow> ((int \<times> parse_state) \<times> 'k) option" where
  "parse_init_start st k = Some ((0, st\<lparr>cur_path := Some Init_path\<rparr>), k)"

definition probe_trim_spaces :: "string \<Rightarrow> string" where
  "probe_trim_spaces str =
     (let s = dropWhile isspace str
      in if s = [] then s else hd s # rev (dropWhile isspace (rev (tl s))))"

text \<open>
  The loop that waits for the probe file to appear; \<open>fuel\<close> bounds the number of attempts, and
  \<open>None\<close> means that the file did not appear within them.
\<close>

fun wait_open :: "'k xenv \<Rightarrow> nat \<Rightarrow> string \<Rightarrow> 'k \<Rightarrow> 'k option" where
  "wait_open X 0 file k = None"
| "wait_open X (Suc n) file k =
     (case x_fopen X file k of (ok, k') \<Rightarrow> if ok then Some k' else wait_open X n file k')"

text \<open>The first case of the codec; \<open>None\<close> when \<^verbatim>\<open>strcmp\<close> meets a name that is NULL.\<close>

fun find_codec :: "string \<Rightarrow> codec_case list \<Rightarrow> codec_case option option" where
  "find_codec codec [] = Some None"
| "find_codec codec (cc # ccs) = do {
     n \<leftarrow> cc_name cc;
     (if codec = n then Some (Some cc) else find_codec codec ccs)
   }"

definition probe_config_file ::
  "'k sys \<Rightarrow> 'k xenv \<Rightarrow> nat \<Rightarrow> parse_state \<Rightarrow> 'k \<Rightarrow> ((int \<times> parse_state) \<times> 'k) option" where
  "probe_config_file E X fuel st k = do {
     file \<leftarrow> probe_file st;
     k1 \<leftarrow> wait_open X fuel file k;
     let (line, k2) = x_fgets X file k1;
     (case line of
        None \<Rightarrow> Some ((- EIO, st), k2)
      | Some buf \<Rightarrow> do {
          let codec = probe_trim_spaces buf;
          let st1 = st\<lparr>new_xml_file := None\<rparr>;
          found \<leftarrow> find_codec codec (elems (codec_cases st));
          (case found of
             None \<Rightarrow> Some ((0, st1), k2)
           | Some cc \<Rightarrow> do {
               (new_file, k3) \<leftarrow> strdup E (cc_file cc) k2;
               new_name \<leftarrow> new_file;
               cur \<leftarrow> cur_xml_file st;
               Some (if new_name = cur then ((- EINVAL, st1\<lparr>stopped := Aborted\<rparr>), k3)
                     else ((0, st1\<lparr>new_xml_file := Some new_name, stopped := Suspended\<rparr>), k3))
             })
        })
   }"

definition parse_codec_probe_start :: "'k sys \<Rightarrow> parse_state \<Rightarrow> 'k \<Rightarrow> ((int \<times> parse_state) \<times> 'k) option" where
  "parse_codec_probe_start E st k = do {
     (file, k1) \<leftarrow> strdup E (attribs st e_attrib_file) k;
     Some (if probe_file st = None then ((0, st\<lparr>probe_file := file, cur_probe := True\<rparr>), k1)
           else ((- EINVAL, st), k1))
   }"

definition parse_codec_probe_end ::
  "'k sys \<Rightarrow> 'k xenv \<Rightarrow> nat \<Rightarrow> parse_state \<Rightarrow> 'k \<Rightarrow> ((int \<times> parse_state) \<times> 'k) option" where
  "parse_codec_probe_end E X fuel st k =
     (if \<not> cur_probe st then None
      else do {
        let (arr, k1) = dyn_array_fix E (codec_cases st) k;
        ((_, st2), k2) \<leftarrow> probe_config_file E X fuel (st\<lparr>codec_cases := arr, cur_probe := False\<rparr>) k1;
        Some ((0, st2), k2)
      })"

section \<open>Handlers for paths, cases and use cases\<close>

definition parse_path_start :: "'k sys \<Rightarrow> parse_state \<Rightarrow> 'k \<Rightarrow> ((int \<times> parse_state) \<times> 'k) option" where
  "parse_path_start E st k = do {
     name \<leftarrow> attribs st e_attrib_name;
     let ((pid, names), k1) = add_path_name E (path_names st) name k;
     let st1 = st\<lparr>path_names := names\<rparr>;
     (if pid < 0 then Some ((pid, st1), k1)
      else do {
        d \<leftarrow> cur_device st;
        let dev = elems (device_array (ps_cm st)) ! d;
        let ((p, arr), k2) = new_path E (path_array dev) pid k1;
        let st2 = put_device st1 d (dev\<lparr>path_array := arr\<rparr>);
        Some (case p of None \<Rightarrow> ((- ENOMEM, st2), k2)
              | Some i \<Rightarrow> ((0, st2\<lparr>cur_path := Some (Device_path d i)\<rparr>), k2))
      })
   }"

definition parse_path_end :: "'k sys \<Rightarrow> parse_state \<Rightarrow> 'k \<Rightarrow> ((int \<times> parse_state) \<times> 'k) option" where
  "parse_path_end E st k = do {
     r \<leftarrow> cur_path st;
     let (p, k1) = compress_path E (get_path st r) k;
     Some ((0, (put_path st r p)\<lparr>cur_path := None\<rparr>), k1)
   }"

definition parse_case_start :: "'k sys \<Rightarrow> parse_state \<Rightarrow> 'k \<Rightarrow> ((int \<times> parse_state) \<times> 'k) option" where
  "parse_case_start E st k = do {
     (name, k1) \<leftarrow> strdup E (attribs st e_attrib_name) k;
     (case name of
        None \<Rightarrow> Some ((- ENOMEM, st), k1)
      | Some n \<Rightarrow> do {
          (i, u) \<leftarrow> cur_usecase st;
          let uc = get_usecase st i u;
          let ((c, arr), k2) = new_case E (case_array uc) n k1;
          let st1 = put_usecase st i u (uc\<lparr>case_array := arr\<rparr>);
          Some (case c of None \<Rightarrow> ((- ENOMEM, st1), k2)
                | Some j \<Rightarrow> ((0, st1\<lparr>cur_scase := Some (i, u, j)\<rparr>), k2))
        })
   }"

definition parse_case_end :: "'k sys \<Rightarrow> parse_state \<Rightarrow> 'k \<Rightarrow> ((int \<times> parse_state) \<times> 'k) option" where
  "parse_case_end E st k = do {
     (i, u, c) \<leftarrow> cur_scase st;
     let (sc, k1) = compress_case E (get_scase st i u c) k;
     Some ((0, (put_scase st i u c sc)\<lparr>cur_scase := None\<rparr>), k1)
   }"

definition parse_usecase_start :: "'k sys \<Rightarrow> parse_state \<Rightarrow> 'k \<Rightarrow> ((int \<times> parse_state) \<times> 'k) option" where
  "parse_usecase_start E st k = do {
     (name, k1) \<leftarrow> strdup E (attribs st e_attrib_name) k;
     (case name of
        None \<Rightarrow> Some ((- ENOMEM, st), k1)
      | Some n \<Rightarrow> do {
          i \<leftarrow> cur_stream st;
          let s = get_stream_at (ps_cm st) i;
          let ((u, arr), k2) = new_usecase E (usecase_array s) n k1;
          let st1 = put_stream st i (s\<lparr>usecase_array := arr\<rparr>);
          Some (case u of None \<Rightarrow> ((- ENOMEM, st1), k2)
                | Some j \<Rightarrow> ((0, st1\<lparr>cur_usecase := Some (i, j)\<rparr>), k2))
        })
   }"

definition parse_usecase_end :: "'k sys \<Rightarrow> parse_state \<Rightarrow> 'k \<Rightarrow> ((int \<times> parse_state) \<times> 'k) option" where
  "parse_usecase_end E st k = do {
     (i, u) \<leftarrow> cur_usecase st;
     let (uc, k1) = compress_usecase E (get_usecase st i u) k;
     Some ((0, put_usecase st i u uc), k1)
   }"

section \<open>Handlers for streams\<close>

definition parse_enable_disable_start ::
  "parse_state \<Rightarrow> bool \<Rightarrow> 'k \<Rightarrow> ((int \<times> parse_state) \<times> 'k) option" where
  "parse_enable_disable_start st is_enable k = do {
     path_name \<leftarrow> attribs st e_attrib_path;
     let i = find_path_name (path_names st) path_name;
     (if i < 0 then Some ((- EINVAL, st), k)
      else do {
        n \<leftarrow> cur_stream st;
        let s = get_stream_at (ps_cm st) n;
        Some ((0, put_stream st n (if is_enable then s\<lparr>enable_path := i\<rparr> else s\<lparr>disable_path := i\<rparr>)), k)
      })
   }"

definition parse_enable_start :: "parse_state \<Rightarrow> 'k \<Rightarrow> ((int \<times> parse_state) \<times> 'k) option" where
  "parse_enable_start st k = parse_enable_disable_start st True k"

definition parse_disable_start :: "parse_state \<Rightarrow> 'k \<Rightarrow> ((int \<times> parse_state) \<times> 'k) option" where
  "parse_disable_start st k = parse_enable_disable_start st False k"

text \<open>
  One bound of a stream control: the attribute if there is one, else what the mixer control
  reports; \<open>Inl\<close> is the error returned.
\<close>

definition range_bound :: "parse_state \<Rightarrow> attrib_index \<Rightarrow> int \<Rightarrow> int + u32" where
  "range_bound st a r =
     (case attrib_to_uint st a of
        (rc, Some v) \<Rightarrow> Inr v
      | (rc, None) \<Rightarrow> if rc = - EINVAL then Inl (- EINVAL)
                      else if r < 0 then Inl r else Inr (word_of_int r))"

definition put_volume :: "bool \<Rightarrow> (stream_control \<Rightarrow> stream_control) \<Rightarrow> parse_state \<Rightarrow> nat \<Rightarrow> parse_state" where
  "put_volume left f st n =
     (let s = get_stream_at (ps_cm st) n
      in put_stream st n (if left then s\<lparr>volume_left := f (volume_left s)\<rparr>
                          else s\<lparr>volume_right := f (volume_right s)\<rparr>))"

definition parse_stream_ctl_start :: "parse_state \<Rightarrow> 'k \<Rightarrow> ((int \<times> parse_state) \<times> 'k) option" where
  "parse_stream_ctl_start st k = do {
     name \<leftarrow> attribs st e_attrib_name;
     mc \<leftarrow> mixer_get_ctl_by_name (cm_mixer (ps_cm st)) name;
     (if mc = None then Some ((- EINVAL, st), k)
      else case attrib_to_uint st e_attrib_index of (rc, idx) \<Rightarrow>
        if rc = - EINVAL then Some ((- EINVAL, st), k)
        else do {
          function \<leftarrow> attribs st e_attrib_function;
          (if function \<noteq> ''leftvol'' \<and> function \<noteq> ''rightvol'' then Some ((- EINVAL, st), k)
           else do {
             n \<leftarrow> cur_stream st;
             let left = (function = ''leftvol'');
             let st1 = put_volume left (\<lambda>v. v\<lparr>v_index := stored idx 0\<rparr>) st n;
             (case range_bound st e_attrib_min (mixer_ctl_get_range_min mc) of
                Inl e \<Rightarrow> Some ((e, st1), k)
              | Inr lo \<Rightarrow>
                  let st2 = put_volume left (\<lambda>v. v\<lparr>v_min := lo\<rparr>) st1 n
                  in case range_bound st e_attrib_max (mixer_ctl_get_range_max mc) of
                       Inl e \<Rightarrow> Some ((e, st2), k)
                     | Inr hi \<Rightarrow>
                         Some ((0, put_volume left
                           (\<lambda>v. v\<lparr>v_max := hi, v_id := mixer_ctl_get_id mc\<rparr>) st2 n), k))
           })
        })
   }"

text \<open>
  The type, card and device of a new stream (lines 1973-2001): \<open>None\<close> in the second component
  of the result stands for variables that the code leaves uninitialised.
\<close>

definition stream_kind ::
  "bool \<Rightarrow> string \<Rightarrow> string option \<Rightarrow> bool \<Rightarrow> (stream_type \<times> u32 option) option" where
  "stream_kind global type name out =
     (if global then Some (e_stream_global, None)
      else if type = ''hw'' then
        (if name = None then None else Some (if out then e_stream_out_hw else e_stream_in_hw, None))
      else if type = ''pcm'' then Some (if out then e_stream_out_pcm else e_stream_in_pcm, Some 0)
      else if type = ''compress'' then
        Some (if out then e_stream_out_compress else e_stream_in_compress, Some 0)
      else None)"

definition parse_direction :: "bool \<Rightarrow> string option \<Rightarrow> bool option" where
  "parse_direction global dir =
     (case dir of None \<Rightarrow> if global then Some False else None
      | Some d \<Rightarrow> if d = ''out'' then Some True else if d = ''in'' then Some False else None)"

text \<open>On an error the stream stays in the table as far as it was filled in.\<close>

definition parse_stream_start ::
  "'k sys \<Rightarrow> 'k xenv \<Rightarrow> parse_state \<Rightarrow> 'k \<Rightarrow> ((int \<times> parse_state) \<times> 'k) option" where
  "parse_stream_start E X st k = do {
     let name_attr = attribs st e_attrib_name;
     (name, k1) \<leftarrow> (if name_attr \<noteq> None then strdup E name_attr k else Some (None, k));
     (if name_attr \<noteq> None \<and> name = None then Some ((- ENOMEM, st), k1)
      else if name \<noteq> None \<and> find_named_stream (ps_cm st) (the name) \<noteq> None then Some ((- EINVAL, st), k1)
      else do {
        let ((s_idx, arr), k2) = new_stream E (stream_array (ps_cm st)) k1;
        let st1 = st\<lparr>ps_cm := (ps_cm st)\<lparr>stream_array := arr\<rparr>\<rparr>;
        (case s_idx of
           None \<Rightarrow> Some ((- ENOMEM, st1), k2)
         | Some i \<Rightarrow> do {
             type \<leftarrow> attribs st e_attrib_type;
             let global = (name = Some ''global'');
             let s0 = elems arr ! i;
             (case parse_direction global (attribs st e_attrib_dir) of
                None \<Rightarrow> Some ((- EINVAL, st1), k2)
              | Some out \<Rightarrow>
                 (case stream_kind global type name out of
                    None \<Rightarrow> Some ((- EINVAL, st1), k2)
                  | Some (t, dflt) \<Rightarrow>
                     let info0 = (hinfo s0)\<lparr>st_type := t\<rparr>;
                         fail = (\<lambda>inf. Some ((- EINVAL, put_stream st1 i (s0\<lparr>hinfo := inf\<rparr>)), k2))
                     in case attrib_to_uint st e_attrib_card of (r1, cardv) \<Rightarrow>
                     if r1 = - EINVAL then fail info0
                     else case attrib_to_uint st e_attrib_device of (r2, dev) \<Rightarrow>
                     if r2 = - EINVAL then fail info0
                     else case attrib_to_uint st e_attrib_instances of (r3, maxref) \<Rightarrow>
                     if r3 = - EINVAL then fail info0
                     else case attrib_to_uint st e_attrib_rate of (r4, rt) \<Rightarrow>
                     if r4 = - EINVAL then fail info0
                     else let info1 = info0\<lparr>rate := stored rt (rate info0)\<rparr> in
                     case attrib_to_uint st e_attrib_period_count of (r5, pc) \<Rightarrow>
                     if r5 = - EINVAL then fail info1
                     else let info2 = info1\<lparr>period_count := stored pc (period_count info1)\<rparr> in
                     case attrib_to_uint st e_attrib_period_size of (r6, psz) \<Rightarrow>
                     if r6 = - EINVAL then fail info2
                     else
                       let info3 = info2\<lparr>period_size := stored psz (period_size info2),
                             card_number := ucast (stored cardv (stored dflt (x_junk X))),
                             device_number := ucast (stored dev (stored dflt (x_junk X)))\<rparr>
                       in Some ((0, (put_stream st1 i (s0\<lparr>hinfo := info3, s_name := name,
                              max_ref_count := sint (stored maxref INT_MAX)\<rparr>))
                            \<lparr>cur_stream := Some i\<rparr>), k2)))
           })
      })
   }"

definition parse_stream_end :: "'k sys \<Rightarrow> parse_state \<Rightarrow> 'k \<Rightarrow> ((int \<times> parse_state) \<times> 'k) option" where
  "parse_stream_end E st k = do {
     i \<leftarrow> cur_stream st;
     let (s, k1) = compress_stream E (get_stream_at (ps_cm st) i) k;
     Some ((0, put_stream st i s), k1)
   }"

section \<open>Handlers for devices and the mixer\<close>

definition parse_device_start ::
  "'k sys \<Rightarrow> audio_h \<Rightarrow> parse_state \<Rightarrow> 'k \<Rightarrow> ((int \<times> parse_state) \<times> 'k) option" where
  "parse_device_start E A st k = do {
     dev_name \<leftarrow> attribs st e_attrib_name;
     (case parse_match_device A dev_name of
        None \<Rightarrow> Some ((- EINVAL, st), k)
      | Some device_flag \<Rightarrow>
          let cm = ps_cm st;
              input = (device_flag AND AUDIO_DEVICE_BIT_IN A \<noteq> 0);
              existing = (if input then supported_input_devices cm else supported_output_devices cm)
          in if device_flag \<noteq> 0 \<and> device_flag AND existing = device_flag
             then Some ((- EINVAL, st), k)
             else
               let cm1 = (if device_flag = 0 then cm
                          else if input then cm\<lparr>supported_input_devices := existing OR device_flag\<rparr>
                          else cm\<lparr>supported_output_devices := existing OR device_flag\<rparr>);
                   ((d, arr), k1) = new_device E (device_array cm) device_flag k;
                   st1 = st\<lparr>ps_cm := cm1\<lparr>device_array := arr\<rparr>\<rparr>
               in Some (case d of None \<Rightarrow> ((- ENOMEM, st1), k1)
                        | Some i \<Rightarrow> ((0, st1\<lparr>cur_device := Some i\<rparr>), k1)))
   }"

definition parse_device_end :: "'k sys \<Rightarrow> parse_state \<Rightarrow> 'k \<Rightarrow> ((int \<times> parse_state) \<times> 'k) option" where
  "parse_device_end E st k = do {
     d \<leftarrow> cur_device st;
     let (dev, k1) = compress_device E (elems (device_array (ps_cm st)) ! d) k;
     Some ((0, put_device st d dev), k1)
   }"

text \<open>\<^verbatim>\<open>stack.entry[stack.index - 1]\<close> is the second entry of the list.\<close>

definition parse_mixer_start :: "'k sys \<Rightarrow> parse_state \<Rightarrow> 'k \<Rightarrow> ((int \<times> parse_state) \<times> 'k) option" where
  "parse_mixer_start E st k =
     (case attrib_to_uint st e_attrib_card of (r, cardv) \<Rightarrow>
        if r = - EINVAL then Some ((- EINVAL, st), k)
        else do {
          (mx, k1) \<leftarrow> mixer_open E (stored cardv 0) k;
          let st1 = st\<lparr>ps_cm := (ps_cm st)\<lparr>cm_mixer := mx\<rparr>\<rparr>;
          (if mx = None then Some ((- EINVAL, st1), k1)
           else if length (stack st) < 2 then None
           else Some ((0, st1\<lparr>stack := (stack st)[1 := (stack st ! 1)
                              \<lparr>en_valid := [e_elem_device, e_elem_stream]\<rparr>]\<rparr>), k1))
        })"

section \<open>The callbacks of the XML library\<close>

definition match_attrib :: "attrib_index list \<Rightarrow> string \<Rightarrow> attrib_index option" where
  "match_attrib valid name = find (\<lambda>i. i \<in> set valid \<and> name = attrib_table i) all_attribs"

fun extract_loop ::
  "attrib_index list \<Rightarrow> (string \<times> string) list \<Rightarrow> (attrib_index \<Rightarrow> string option) \<Rightarrow> attrib_index list
     \<Rightarrow> int \<times> (attrib_index \<Rightarrow> string option)" where
  "extract_loop valid [] vals required = (if required = [] then 0 else - EINVAL, vals)"
| "extract_loop valid ((n, v) # rest) vals required =
     (case match_attrib valid n of
        None \<Rightarrow> (- EINVAL, vals)
      | Some i \<Rightarrow> extract_loop valid rest (vals(i := Some v)) (removeAll i required))"

definition extract_attribs :: "parse_state \<Rightarrow> element_index \<Rightarrow> (string \<times> string) list \<Rightarrow> int \<times> parse_state" where
  "extract_attribs st e attrs =
     (let (r, vals) = extract_loop (valid_attribs (elem_table e)) attrs (\<lambda>_. None)
                        (required_attribs (elem_table e))
      in (r, st\<lparr>attribs := vals\<rparr>))"

fun start_fn :: "'k sys \<Rightarrow> audio_h \<Rightarrow> 'k xenv \<Rightarrow> element_index \<Rightarrow> parse_state \<Rightarrow> 'k
    \<Rightarrow> ((int \<times> parse_state) \<times> 'k) option" where
  "start_fn E A X e_elem_ctl st k = parse_ctl_start E st k"
| "start_fn E A X e_elem_path st k = parse_path_start E st k"
| "start_fn E A X e_elem_device st k = parse_device_start E A st k"
| "start_fn E A X e_elem_stream st k = parse_stream_start E X st k"
| "start_fn E A X e_elem_enable st k = parse_enable_start st k"
| "start_fn E A X e_elem_disable st k = parse_disable_start st k"
| "start_fn E A X e_elem_case st k = parse_case_start E st k"
| "start_fn E A X e_elem_usecase st k = parse_usecase_start E st k"
| "start_fn E A X e_elem_stream_ctl st k = parse_stream_ctl_start st k"
| "start_fn E A X e_elem_init st k = parse_init_start st k"
| "start_fn E A X e_elem_mixer st k = parse_mixer_start E st k"
| "start_fn E A X e_elem_codec_probe st k = parse_codec_probe_start E st k"
| "start_fn E A X e_elem_codec_case st k = parse_codec_case_start E st k"
| "start_fn E A X e_elem_audiohal st k = Some ((parse_error st, st), k)"

fun end_fn :: "'k sys \<Rightarrow> 'k xenv \<Rightarrow> nat \<Rightarrow> element_index \<Rightarrow> parse_state \<Rightarrow> 'k
    \<Rightarrow> ((int \<times> parse_state) \<times> 'k) option" where
  "end_fn E X fuel e_elem_path st k = parse_path_end E st k"
| "end_fn E X fuel e_elem_device st k = parse_device_end E st k"
| "end_fn E X fuel e_elem_stream st k = parse_stream_end E st k"
| "end_fn E X fuel e_elem_case st k = parse_case_end E st k"
| "end_fn E X fuel e_elem_usecase st k = parse_usecase_end E st k"
| "end_fn E X fuel e_elem_codec_probe st k = parse_codec_probe_end E X fuel st k"
| "end_fn E X fuel _ st k = Some ((parse_error st, st), k)"

abbreviation MAX_PARSE_DEPTH :: nat where "MAX_PARSE_DEPTH \<equiv> 6"

definition match_elem :: "element_index list \<Rightarrow> string \<Rightarrow> element_index option" where
  "match_elem valid name = find (\<lambda>i. i \<in> set valid \<and> name = el_name (elem_table i)) all_elems"

definition parse_section_start ::
  "'k sys \<Rightarrow> audio_h \<Rightarrow> 'k xenv \<Rightarrow> string \<Rightarrow> (string \<times> string) list \<Rightarrow> parse_state \<Rightarrow> 'k
     \<Rightarrow> (parse_state \<times> 'k) option" where
  "parse_section_start E A X name attrs st k =
     (if parse_error st \<noteq> 0 then Some (st, k)
      else case stack st of
        [] \<Rightarrow> None
      | entry # below \<Rightarrow>
          let stack_index = length below in
          case match_elem (en_valid entry) name of
            None \<Rightarrow> Some (st\<lparr>parse_error := - EINVAL\<rparr>, k)
          | Some i \<Rightarrow>
              if stack_index \<ge> MAX_PARSE_DEPTH then Some (st\<lparr>parse_error := - EINVAL\<rparr>, k)
              else if Suc stack_index \<ge> MAX_PARSE_DEPTH then None
              else
                let st1 = st\<lparr>stack := \<lparr>en_elem = i, en_valid = valid_subelem (elem_table i)\<rparr> # stack st\<rparr>
                in case extract_attribs st1 i attrs of (r, st2) \<Rightarrow>
                     if r \<noteq> 0 then Some (st2\<lparr>parse_error := - EINVAL\<rparr>, k)
                     else do {
                       ((ret, st3), k') \<leftarrow> start_fn E A X i st2 k;
                       Some (st3\<lparr>parse_error := ret\<rparr>, k')
                     })"

text \<open>An end tag with an empty stack would move \<^verbatim>\<open>stack.index\<close> below 0: undefined.\<close>

definition parse_section_end ::
  "'k sys \<Rightarrow> 'k xenv \<Rightarrow> nat \<Rightarrow> string \<Rightarrow> parse_state \<Rightarrow> 'k \<Rightarrow> (parse_state \<times> 'k) option" where
  "parse_section_end E X fuel name st k =
     (if parse_error st \<noteq> 0 then Some (st, k)
      else case stack st of
        entry # below \<Rightarrow>
          if below = [] then None
          else do {
            ((ret, st1), k') \<leftarrow> end_fn E X fuel (en_elem entry) st k;
            Some (st1\<lparr>parse_error := ret, stack := tl (stack st1)\<rparr>, k')
          }
      | [] \<Rightarrow> None)"

section \<open>Reading the file\<close>

fun parse_event ::
  "'k sys \<Rightarrow> audio_h \<Rightarrow> 'k xenv \<Rightarrow> nat \<Rightarrow> xml_event \<Rightarrow> parse_state \<times> 'k \<Rightarrow> (parse_state \<times> 'k) option" where
  "parse_event E A X fuel (Start n attrs) (st, k) =
     (if stopped st = Running then parse_section_start E A X n attrs st k else Some (st, k))"
| "parse_event E A X fuel (End n) (st, k) =
     (if stopped st = Running then parse_section_end E X fuel n st k else Some (st, k))"

text \<open>
  \<^verbatim>\<open>XML_Parse\<close> reports an error of its own, and also after \<^verbatim>\<open>XML_StopParser(parser, XML_FALSE)\<close>
  and on any further call for a suspended parser.
\<close>

fun parse_chunks ::
  "'k sys \<Rightarrow> audio_h \<Rightarrow> 'k xenv \<Rightarrow> nat \<Rightarrow> xml_chunk list \<Rightarrow> parse_state \<Rightarrow> 'k
     \<Rightarrow> ((int \<times> parse_state) \<times> 'k) option" where
  "parse_chunks E A X fuel [] st k = Some ((0, st), k)"
| "parse_chunks E A X fuel (c # cs) st k =
     (if parse_error st \<noteq> 0 then Some ((0, st), k)
      else if io_error c then Some ((- EIO, st), k)
      else do {
        let was_stopped = (stopped st \<noteq> Running);
        (st1, k1) \<leftarrow> run_steps (parse_event E A X fuel) (events c) (st, k);
        (if parse_error st1 < 0 \<or> xml_error c \<or> was_stopped \<or> stopped st1 = Aborted
         then Some ((- EINVAL, st1), k1)
         else parse_chunks E A X fuel cs st1 k1)
      })"

definition do_parse ::
  "'k sys \<Rightarrow> audio_h \<Rightarrow> 'k xenv \<Rightarrow> nat \<Rightarrow> xml_chunk list \<Rightarrow> parse_state \<Rightarrow> 'k
     \<Rightarrow> ((int \<times> parse_state) \<times> 'k) option" where
  "do_parse E A X fuel chunks st k =
     parse_chunks E A X fuel chunks
       (st\<lparr>parse_error := 0, stack := [\<lparr>en_elem = e_elem_ctl, en_valid = [e_elem_audiohal]\<rparr>]\<rparr>) k"

text \<open>The name buffers hold 79 and 39 characters.\<close>

definition open_config_file ::
  "'k sys \<Rightarrow> 'k xenv \<Rightarrow> parse_state \<Rightarrow> string option \<Rightarrow> 'k \<Rightarrow> (int \<times> string \<times> parse_state) \<times> 'k" where
  "open_config_file E X st file k =
     (let (name, cur) =
        (case file of
           None \<Rightarrow> (take 79 (''/system/etc/audio.'' @ x_product X @ ''.xml''),
                     take 39 (''audio.'' @ x_product X @ ''.xml''))
         | Some f \<Rightarrow> (take 79 (''/system/etc/'' @ f), f));
          (ok, k1) = sys_alloc E k;
          (opened, k2) = x_fopen X name k1
      in ((if opened then 0 else - ENOSYS, name, st\<lparr>cur_xml_file := (if ok then Some cur else None)\<rparr>), k2))"

definition init_state :: "'k sys \<Rightarrow> parse_state \<Rightarrow> 'k \<Rightarrow> (int \<times> parse_state) \<times> 'k" where
  "init_state E st k =
     (let st0 = st\<lparr>path_names := (path_names st)\<lparr>elem_size := sizeof_pointer\<rparr>,
                   init_path := (init_path st)\<lparr>p_ctl_array := (p_ctl_array (init_path st))\<lparr>elem_size := sizeof_ctl\<rparr>\<rparr>,
                   codec_cases := (codec_cases st)\<lparr>elem_size := sizeof_codec_case\<rparr>\<rparr>
      in case add_path_name E (path_names st0) ''off'' k of ((r1, n1), k1) \<Rightarrow>
           if r1 < 0 then ((r1, st0\<lparr>path_names := n1\<rparr>), k1)
           else case add_path_name E n1 ''on'' k1 of ((r2, n2), k2) \<Rightarrow>
             ((if r2 < 0 then r2 else 0, st0\<lparr>path_names := n2\<rparr>), k2))"

definition zero_state :: "config_mgr \<Rightarrow> parse_state" where
  "zero_state cm = \<lparr>ps_cm = cm, cur_xml_file = None, parse_error = 0, attribs = (\<lambda>_. None),
     cur_device = None, cur_stream = None, cur_path = None, cur_usecase = None, cur_scase = None,
     cur_probe = False, path_names = empty_array 0, init_path = zero_path, probe_file = None,
     new_xml_file = None, codec_cases = empty_array 0, stack = [], stopped = Running\<rparr>"

text \<open>
  The loop of \<^verbatim>\<open>parse_config_file\<close>: every codec probe that names another file starts it again.
  \<open>fuel\<close> bounds the number of files.
\<close>

fun config_loop ::
  "'k sys \<Rightarrow> audio_h \<Rightarrow> 'k xenv \<Rightarrow> nat \<Rightarrow> nat \<Rightarrow> parse_state \<Rightarrow> 'k \<Rightarrow> ((int \<times> parse_state) \<times> 'k) option" where
  "config_loop E A X wait 0 st k = None"
| "config_loop E A X wait (Suc fuel) st k =
     (case open_config_file E X st (new_xml_file st) k of ((r, file, st1), k1) \<Rightarrow>
        if r \<noteq> 0 then Some ((- ENOMEM, st1), k1)
        else
          let st2 = (if new_xml_file st1 \<noteq> None
                     then st1\<lparr>probe_file := None, stopped := Running, new_xml_file := None\<rparr> else st1)
          in do {
            ((ret, st3), k2) \<leftarrow> do_parse E A X wait (x_chunks X file) st2 k1;
            (if new_xml_file st3 \<noteq> None then config_loop E A X wait fuel st3 k2
             else Some ((ret, st3), k2))
          })"

definition parse_config_file ::
  "'k sys \<Rightarrow> audio_h \<Rightarrow> 'k xenv \<Rightarrow> nat \<Rightarrow> nat \<Rightarrow> config_mgr \<Rightarrow> 'k \<Rightarrow> ((int \<times> config_mgr) \<times> 'k) option" where
  "parse_config_file E A X wait fuel cm k =
     (case sys_alloc E k of (ok, k1) \<Rightarrow>
        if \<not> ok then Some ((- ENOMEM, cm), k1)
        else case init_state E (zero_state cm) k1 of ((r, st), k2) \<Rightarrow>
          if r < 0 then Some ((r, cm), k2)
          else do {
            ((ret, st1), k3) \<leftarrow> config_loop E A X wait fuel st k2;
            (if ret \<ge> 0 then do {
               (_, k4) \<leftarrow> apply_path_l E (cm_mixer (ps_cm st1)) (init_path st1) k3;
               Some ((ret, ps_cm st1), k4)
             }
             else Some ((ret, ps_cm st1), k3))
          })"

text \<open>
  A NULL manager is dereferenced by the first \<^verbatim>\<open><mixer>\<close> or by \<^verbatim>\<open>compress_config_mgr\<close>; it is
  counted as undefined here.
\<close>

definition init_audio_config ::
  "'k sys \<Rightarrow> audio_h \<Rightarrow> 'k xenv \<Rightarrow> nat \<Rightarrow> nat \<Rightarrow> 'k \<Rightarrow> (config_mgr option \<times> 'k) option" where
  "init_audio_config E A X wait fuel k =
     (case new_config_mgr E k of (mgr, k1) \<Rightarrow> do {
        cm \<leftarrow> mgr;
        ((ret, cm1), k2) \<leftarrow> parse_config_file E A X wait fuel cm k1;
        (if ret \<noteq> 0 then Some (None, k2)
         else let (cm2, k3) = compress_config_mgr E cm1 k2 in Some (Some cm2, k3))
      })"

end
