(* ===== verification/Hal.thy ===== *)
theory Hal
  imports Hal_Compress Config_Parser
begin

text \<open>
  The audio HAL as a whole (audio/audio_hw.c lines 2299-2454 and 2823-2880): opening and closing the device and
  its streams. The streams that the framework holds are kept in two tables; a closed stream
  leaves an empty place, so that a handle is never used again.
\<close>

datatype out_stream = Out_pcm stream_out_pcm | Out_compress stream_out_compress

record hal =
  h_adev :: audio_device
  h_outs :: "out_stream option list"
  h_ins :: "stream_in_pcm option list"

text \<open>The libraries the HAL runs on.\<close>

record 'k hal_env =
  he_sys :: "'k sys"
  he_pcm :: "'k psys"
  he_cmp :: "'k csys"
  he_rs :: "'k rsys"
  he_audio :: audio_h
  he_lib :: "'k hal_lib"
  he_resample :: "'k resample_fn"
  he_delay :: string
  he_padding :: string

section \<open>Opening the device\<close>

definition zero_adev :: "config_mgr \<Rightarrow> audio_device" where
  "zero_adev cm = \<lparr>mic_mute = False, adev_cm = cm, active_voice_control = None, voice_st = eVoiceNone,
     voice_trig_mic = 0, global_stream = None, voice_trig_stream = None\<rparr>"

definition adev_open ::
  "'k sys \<Rightarrow> audio_h \<Rightarrow> 'k hal_lib \<Rightarrow> 'k xenv \<Rightarrow> nat \<Rightarrow> nat \<Rightarrow> string \<Rightarrow> 'k
     \<Rightarrow> ((int \<times> audio_device option) \<times> 'k) option" where
  "adev_open E A H X wait fuel name k =
     (if name \<noteq> AUDIO_HARDWARE_INTERFACE H then Some ((- EINVAL, None), k)
      else case sys_alloc E k of (ok, k1) \<Rightarrow>
        if \<not> ok then Some ((- ENOMEM, None), k1)
        else do {
          (mgr, k2) \<leftarrow> init_audio_config E A X wait fuel k1;
          (case mgr of
             None \<Rightarrow> Some ((- EINVAL, None), k2)
           | Some cm \<Rightarrow> do {
               ((g, cm1), k3) \<leftarrow> get_named_stream E cm ''global'' k2;
               Some ((0, Some (voice_trigger_init ((zero_adev cm1)\<lparr>global_stream := g\<rparr>))), k3)
             })
        })"

section \<open>Output streams\<close>

text \<open>The structures that \<^verbatim>\<open>calloc\<close> returns, with \<^verbatim>\<open>hw\<close> set.\<close>

definition zero_out_pcm :: "nat \<Rightarrow> stream_out_pcm" where
  "zero_out_pcm hw = \<lparr>o_hw = hw, o_standby = False, o_format = 0, o_channel_mask = 0, o_channel_count = 0,
     o_sample_rate = 0, o_frame_size = 0, o_buffer_size = 0, o_latency = 0,
     o_pcm = Null, o_hw_sample_rate = 0, o_hw_channel_count = 0\<rparr>"

definition zero_out_compress :: "nat \<Rightarrow> stream_out_compress" where
  "zero_out_compress hw = \<lparr>o_hw = hw, o_standby = False, o_format = 0, o_channel_mask = 0, o_channel_count = 0,
     o_sample_rate = 0, o_frame_size = 0, o_buffer_size = 0, o_latency = 0,
     oc_use_async = False, oc_exit = False, oc_mode = ASYNC_NONE, oc_compress = Null, oc_codec = zero_codec,
     oc_started = False, oc_paused = False, oc_g_data = (0, 0), oc_refresh_gapless_meta = False\<rparr>"

text \<open>The result is the return code and the handle of the stream.\<close>

definition open_out_stream ::
  "'k hal_env \<Rightarrow> audio_device \<Rightarrow> nat \<Rightarrow> u32 \<Rightarrow> audio_config \<Rightarrow> 'k
     \<Rightarrow> ((int \<times> out_stream \<times> audio_device) \<times> 'k) option" where
  "open_out_stream V adev hw devices cfg k =
     (let E = he_sys V; A = he_audio V; H = he_lib V in
      if st_type (hw_of (adev_cm adev) hw) = e_stream_out_pcm then do {
        ((_, out1, adev1), k1) \<leftarrow> do_init_out_common E A H adev (zero_out_pcm hw) cfg devices k;
        (ret, out2) \<leftarrow> do_init_out_pcm (adev_cm adev1) out1;
        Some ((ret, Out_pcm out2, adev1), k1)
      }
      else do {
        ((_, out1, adev1), k1) \<leftarrow> do_init_out_common E A H adev (zero_out_compress hw) cfg devices k;
        ((ret, out2), k2) \<leftarrow> do_init_out_compress (he_cmp V) H (adev_cm adev1) out1 cfg k1;
        Some ((ret, Out_compress out2, adev1), k2)
      })"

definition adev_open_output_stream ::
  "'k hal_env \<Rightarrow> hal \<Rightarrow> u32 \<Rightarrow> audio_config \<Rightarrow> 'k \<Rightarrow> ((int \<times> hal) \<times> 'k) option" where
  "adev_open_output_stream V h devices0 cfg k = do {
     let E = he_sys V; let A = he_audio V; let adev = h_adev h;
     let devices = devices0 AND AUDIO_DEVICE_OUT_ALL A;
     ((hw, cm1), k1) \<leftarrow> get_stream E A (adev_cm adev) devices (ac_format cfg) k;
     let adev1 = adev\<lparr>adev_cm := cm1\<rparr>;
     (case hw of
        None \<Rightarrow> Some ((- EINVAL, h\<lparr>h_adev := adev1\<rparr>), k1)
      | Some i \<Rightarrow>
          (case sys_alloc E k1 of (ok, k2) \<Rightarrow>
             if \<not> ok then Some ((- ENOMEM, h\<lparr>h_adev := adev1\<rparr>), k2)
             else do {
               ((ret, out, adev2), k3) \<leftarrow> open_out_stream V adev1 i devices cfg k2;
               Some (if ret < 0 then ((ret, h\<lparr>h_adev := adev2\<rparr>), k3)
                     else ((0, h\<lparr>h_adev := adev2, h_outs := h_outs h @ [Some out]\<rparr>), k3))
             }))
   }"

text \<open>Calls on a handle that is not open are undefined.\<close>

definition out_at :: "hal \<Rightarrow> nat \<Rightarrow> out_stream option" where
  "out_at h j = (if j < length (h_outs h) then h_outs h ! j else None)"

definition in_at :: "hal \<Rightarrow> nat \<Rightarrow> stream_in_pcm option" where
  "in_at h j = (if j < length (h_ins h) then h_ins h ! j else None)"

definition adev_close_output_stream :: "'k hal_env \<Rightarrow> hal \<Rightarrow> nat \<Rightarrow> 'k \<Rightarrow> (hal \<times> 'k) option" where
  "adev_close_output_stream V h j k = do {
     out \<leftarrow> out_at h j;
     (adev1, k1) \<leftarrow> (case out of
         Out_pcm o1 \<Rightarrow> do_close_out_pcm (he_sys V) (he_pcm V) (he_audio V) (h_adev h) o1 k
       | Out_compress o1 \<Rightarrow> out_compress_close (he_sys V) (he_cmp V) (he_audio V) (h_adev h) o1 k);
     Some (h\<lparr>h_adev := adev1, h_outs := (h_outs h)[j := None]\<rparr>, k1)
   }"

section \<open>Input streams\<close>

definition adev_open_input_stream ::
  "'k hal_env \<Rightarrow> hal \<Rightarrow> u32 \<Rightarrow> audio_config \<Rightarrow> 'k \<Rightarrow> (int \<times> hal) \<times> 'k" where
  "adev_open_input_stream V h devices cfg k =
     (case sys_alloc (he_sys V) k of (ok, k1) \<Rightarrow>
        if \<not> ok then ((- ENOMEM, h), k1)
        else
          let in1 = snd (do_init_in_common (he_lib V) zero_in cfg (devices AND AUDIO_DEVICE_IN_ALL (he_audio V)));
              in2 = snd (do_init_in_pcm in1)
          in ((0, h\<lparr>h_ins := h_ins h @ [Some in2]\<rparr>), k1))"

definition adev_close_input_stream :: "'k hal_env \<Rightarrow> hal \<Rightarrow> nat \<Rightarrow> 'k \<Rightarrow> (hal \<times> 'k) option" where
  "adev_close_input_stream V h j k = do {
     inp \<leftarrow> in_at h j;
     (adev1, k1) \<leftarrow> do_close_in_pcm (he_sys V) (he_pcm V) (he_cmp V) (he_rs V) (he_audio V) j (h_adev h) inp k;
     Some (h\<lparr>h_adev := adev1, h_ins := (h_ins h)[j := None]\<rparr>, k1)
   }"

section \<open>The calls of the framework\<close>

datatype hal_call =
    Open_output u32 audio_config
  | Close_output nat
  | Out_write nat "u8 list" u32
  | Out_standby nat
  | Out_params nat string
  | Out_volume nat int int
  | Out_pause nat
  | Out_resume nat
  | Out_drain nat bool
  | Out_flush nat
  | Out_callback nat "int \<times> int \<times> int"
  | Open_input u32 audio_config
  | Close_input nat
  | In_read nat u32
  | In_standby nat
  | In_params nat string
  | Set_parameters string
  | Set_mic_mute bool

definition put_out :: "hal \<Rightarrow> nat \<Rightarrow> out_stream \<Rightarrow> hal" where
  "put_out h j out = h\<lparr>h_outs := (h_outs h)[j := Some out]\<rparr>"

definition put_in :: "hal \<Rightarrow> nat \<Rightarrow> stream_in_pcm \<Rightarrow> hal" where
  "put_in h j inp = h\<lparr>h_ins := (h_ins h)[j := Some inp]\<rparr>"

text \<open>A call of a stream's table of functions: PCM and compressed streams have their own.\<close>

definition on_out ::
  "hal \<Rightarrow> nat \<Rightarrow> (stream_out_pcm \<Rightarrow> 'k \<Rightarrow> (stream_out_pcm \<times> 'k) option)
     \<Rightarrow> (stream_out_compress \<Rightarrow> 'k \<Rightarrow> (stream_out_compress \<times> 'k) option) \<Rightarrow> 'k \<Rightarrow> (hal \<times> 'k) option" where
  "on_out h j f g k =
     (case out_at h j of
        None \<Rightarrow> None
      | Some (Out_pcm out) \<Rightarrow> map_option (\<lambda>(out', k'). (put_out h j (Out_pcm out'), k')) (f out k)
      | Some (Out_compress out) \<Rightarrow> map_option (\<lambda>(out', k'). (put_out h j (Out_compress out'), k')) (g out k))"

abbreviation drop_result :: "((int \<times> 'a) \<times> 'k) option \<Rightarrow> ('a \<times> 'k) option" where
  "drop_result r \<equiv> map_option (\<lambda>((_, x), k). (x, k)) r"

text \<open>A compressed stream has functions that a PCM stream does not set: calling the null pointer.\<close>

definition missing_fn :: "'a \<Rightarrow> 'k \<Rightarrow> ('a \<times> 'k) option" where
  "missing_fn x k = None"

fun hal_step :: "'k hal_env \<Rightarrow> nat \<Rightarrow> hal_call \<Rightarrow> hal \<times> 'k \<Rightarrow> (hal \<times> 'k) option" where
  "hal_step V fuel (Open_output d cfg) (h, k) = drop_result (adev_open_output_stream V h d cfg k)"
| "hal_step V fuel (Close_output j) (h, k) = adev_close_output_stream V h j k"
| "hal_step V fuel (Out_write j buf n) (h, k) =
     on_out h j (\<lambda>out k. drop_result (out_pcm_write (he_pcm V) fuel (adev_cm (h_adev h)) out buf n k))
       (\<lambda>out k. drop_result (out_compress_write (he_cmp V) (adev_cm (h_adev h)) out buf n k)) k"
| "hal_step V fuel (Out_standby j) (h, k) =
     on_out h j (\<lambda>out k. drop_result (out_pcm_standby (he_pcm V) out k))
       (\<lambda>out k. drop_result (out_compress_standby (he_cmp V) out k)) k"
| "hal_step V fuel (Out_params j kv) (h, k) =
     (case out_at h j of
        None \<Rightarrow> None
      | Some (Out_pcm out) \<Rightarrow>
          map_option (\<lambda>((_, adev), k). (h\<lparr>h_adev := adev\<rparr>, k))
            (out_set_parameters (he_sys V) (he_audio V) (he_lib V) (h_adev h) out kv k)
      | Some (Out_compress out) \<Rightarrow>
          map_option (\<lambda>((_, out', adev), k). (put_out (h\<lparr>h_adev := adev\<rparr>) j (Out_compress out'), k))
            (out_compress_set_parameters (he_sys V) (he_audio V) (he_lib V) (he_delay V) (he_padding V)
               (h_adev h) out kv k))"
| "hal_step V fuel (Out_volume j l r) (h, k) =
     (case out_at h j of
        None \<Rightarrow> None
      | Some (Out_pcm out) \<Rightarrow> map_option (\<lambda>(_, k). (h, k)) (out_set_volume (he_sys V) id (adev_cm (h_adev h)) out l r k)
      | Some (Out_compress out) \<Rightarrow>
          map_option (\<lambda>(_, k). (h, k)) (out_set_volume (he_sys V) id (adev_cm (h_adev h)) out l r k))"
| "hal_step V fuel (Out_pause j) (h, k) = on_out h j missing_fn (\<lambda>out k. drop_result (out_compress_pause (he_cmp V) out k)) k"
| "hal_step V fuel (Out_resume j) (h, k) = on_out h j missing_fn (\<lambda>out k. drop_result (out_compress_resume (he_cmp V) out k)) k"
| "hal_step V fuel (Out_drain j early) (h, k) =
     on_out h j missing_fn (\<lambda>out k. drop_result (out_compress_drain (he_cmp V) out early k)) k"
| "hal_step V fuel (Out_flush j) (h, k) = on_out h j missing_fn (\<lambda>out k. drop_result (out_compress_flush (he_cmp V) out k)) k"
| "hal_step V fuel (Out_callback j rvs) (h, k) =
     on_out h j missing_fn (\<lambda>out k. Some (snd (out_compress_set_callback rvs out), k)) k"
| "hal_step V fuel (Open_input d cfg) (h, k) =
     (case adev_open_input_stream V h d cfg k of ((_, h'), k') \<Rightarrow> Some (h', k'))"
| "hal_step V fuel (Close_input j) (h, k) = adev_close_input_stream V h j k"
| "hal_step V fuel (In_read j n) (h, k) =
     (case in_at h j of
        None \<Rightarrow> None
      | Some inp \<Rightarrow> map_option (\<lambda>(_, inp', k'). (put_in h j inp', k'))
          (in_pcm_read (he_sys V) (he_pcm V) (he_cmp V) (he_rs V) (he_resample V) fuel (h_adev h) inp n k))"
| "hal_step V fuel (In_standby j) (h, k) =
     (case in_at h j of
        None \<Rightarrow> None
      | Some inp \<Rightarrow> map_option (\<lambda>((_, inp'), k'). (put_in h j inp', k'))
          (in_pcm_standby (he_pcm V) (he_cmp V) (he_rs V) (adev_cm (h_adev h)) inp k))"
| "hal_step V fuel (In_params j kv) (h, k) =
     (case in_at h j of
        None \<Rightarrow> None
      | Some inp \<Rightarrow> map_option (\<lambda>((_, inp', adev), k'). (put_in (h\<lparr>h_adev := adev\<rparr>) j inp', k'))
          (in_pcm_set_parameters (he_sys V) (he_audio V) (he_lib V) j (h_adev h) inp kv k))"
| "hal_step V fuel (Set_parameters kv) (h, k) =
     map_option (\<lambda>((_, adev), k'). (h\<lparr>h_adev := adev\<rparr>, k'))
       (adev_set_parameters (he_sys V) (he_audio V) (he_lib V) (h_adev h) kv k)"
| "hal_step V fuel (Set_mic_mute b) (h, k) = Some (h\<lparr>h_adev := snd (adev_set_mic_mute (h_adev h) b)\<rparr>, k)"

end
