(* ===== verification/Voice_Props.thy ===== *)
theory Voice_Props
  imports Voice_Trigger
begin

text \<open>
  The voice trigger state machine: its steps are defined on every well-formed device, its mode is
  fixed when the device is opened, the stream it takes from the configuration manager is given
  back, and the parameter string reaches the use cases it names.
\<close>

section \<open>Steps of the machine\<close>

datatype voice_event = Enable | Disable | Triggered | Audio_started | Audio_ended

fun voice_step ::
  "'k sys \<Rightarrow> audio_h \<Rightarrow> voice_event \<Rightarrow> audio_device \<times> 'k \<Rightarrow> (audio_device \<times> 'k) option" where
  "voice_step E A Enable (adev, k) = voice_trigger_enable E A adev k"
| "voice_step E A Disable (adev, k) = voice_trigger_disable E A adev k"
| "voice_step E A Triggered (adev, k) = Some (voice_trigger_triggered adev, k)"
| "voice_step E A Audio_started (adev, k) = Some (voice_trigger_audio_started_locked adev, k)"
| "voice_step E A Audio_ended (adev, k) = voice_trigger_audio_ended_locked E A adev k"

text \<open>The states in which the machine has opened its stream.\<close>

definition holding :: "voice_state \<Rightarrow> bool" where
  "holding st \<longleftrightarrow> st \<noteq> eVoiceNone \<and> st \<noteq> eVoiceTriggerIdle \<and> st \<noteq> eVoiceRecogIdle"

definition voice_held :: "audio_device \<Rightarrow> nat \<Rightarrow> int" where
  "voice_held adev i = (if holding (voice_st adev) then one_at (voice_trig_stream adev) i else 0)"

definition in_table :: "config_mgr \<Rightarrow> nat option \<Rightarrow> bool" where
  "in_table cm r \<longleftrightarrow> (\<forall>i. r = Some i \<longrightarrow> i < nstreams cm)"

definition adev_ok :: "audio_device \<Rightarrow> bool" where
  "adev_ok adev \<longleftrightarrow> cm_wf (adev_cm adev) \<and> in_table (adev_cm adev) (global_stream adev)
     \<and> in_table (adev_cm adev) (voice_trig_stream adev)"

lemma in_table_simps [simp]: "in_table cm None" "in_table cm (Some i) \<longleftrightarrow> i < nstreams cm"
  by (simp_all add: in_table_def)

lemma in_table_change: "refs_change cm cm' d \<Longrightarrow> in_table cm' r = in_table cm r"
  by (simp add: in_table_def refs_changeD(2))

text \<open>What a step changes besides the counts: the parts of the device the voice trigger does not own.\<close>

definition voice_frame :: "audio_device \<Rightarrow> audio_device \<Rightarrow> bool" where
  "voice_frame adev adev' \<longleftrightarrow> mic_mute adev' = mic_mute adev \<and> global_stream adev' = global_stream adev
     \<and> active_voice_control adev' = active_voice_control adev \<and> voice_trig_mic adev' = voice_trig_mic adev"

lemma open_stream_refs:
  assumes "adev_ok adev"
  shows "\<exists>adev' k'. do_voice_trigger_open_stream E A adev name k = Some (adev', k') \<and> adev_ok adev'
    \<and> refs_change (adev_cm adev) (adev_cm adev') (one_at (voice_trig_stream adev'))
    \<and> voice_frame adev adev' \<and> voice_st adev' = voice_st adev"
proof -
  have cm: "cm_wf (adev_cm adev)" using assms by (simp add: adev_ok_def)
  obtain r cm1 k1 where g: "get_named_stream E (adev_cm adev) name k = Some ((r, cm1), k1)"
    "refs_change (adev_cm adev) cm1 (one_at r)" "\<forall>i. r = Some i \<longrightarrow> i < nstreams (adev_cm adev)"
    using get_named_stream_refs [OF cm, of E name k] by blast
  have rng: "in_table cm1 x = in_table (adev_cm adev) x" for x by (rule in_table_change [OF g(2)])
  show ?thesis
  proof (cases r)
    case None
    then show ?thesis using g assms rng refs_changeD(1) [OF g(2)]
      by (auto simp: do_voice_trigger_open_stream_def adev_ok_def voice_frame_def)
  next
    case (Some i)
    then have i: "i < nstreams cm1" using g(3) refs_changeD(2) [OF g(2)] by simp
    let ?mic = "if voice_trig_mic adev = 0 then AUDIO_DEVICE_IN_BUILTIN_MIC A else voice_trig_mic adev"
    obtain cm2 k2 where a: "apply_route E A cm1 i ?mic k1 = Some (cm2, k2)" "refs_change cm1 cm2 (\<lambda>_. 0)"
      using apply_route_refs [OF refs_changeD(1) [OF g(2)] i, of E A ?mic k1] by blast
    have "refs_change (adev_cm adev) cm2 (one_at (Some i))"
      using refs_change_cong [OF refs_change_trans [OF g(2) a(2)], of "one_at (Some i)"] Some by simp
    moreover have "in_table cm2 x = in_table (adev_cm adev) x" for x
      using in_table_change [OF a(2)] rng by simp
    ultimately show ?thesis using Some g a assms refs_changeD(1) [OF a(2)] refs_changeD(2) [OF a(2)] i
      by (auto simp: do_voice_trigger_open_stream_def adev_ok_def voice_frame_def Let_def)
  qed
qed

lemma close_stream_refs:
  assumes "adev_ok adev"
  shows "\<exists>adev' k'. do_voice_trigger_close_stream E A adev k = Some (adev', k') \<and> adev_ok adev'
    \<and> refs_change (adev_cm adev) (adev_cm adev') (\<lambda>i. - one_at (voice_trig_stream adev) i)
    \<and> voice_frame adev adev' \<and> voice_st adev' = voice_st adev
    \<and> voice_trig_stream adev' = voice_trig_stream adev"
proof (cases "voice_trig_stream adev")
  case None
  then show ?thesis using assms refs_change_refl [of "adev_cm adev"]
    by (simp add: do_voice_trigger_close_stream_def adev_ok_def voice_frame_def)
next
  case (Some i)
  have cm: "cm_wf (adev_cm adev)" and i: "i < nstreams (adev_cm adev)"
    using assms Some by (simp_all add: adev_ok_def)
  obtain cm1 k1 where a: "apply_route E A (adev_cm adev) i 0 k = Some (cm1, k1)"
    "refs_change (adev_cm adev) cm1 (\<lambda>_. 0)"
    using apply_route_refs [OF cm i, of E A 0 k] by blast
  have i1: "i < nstreams cm1" using i refs_changeD(2) [OF a(2)] by simp
  obtain cm2 k2 where r: "release_stream E A cm1 (Some i) k1 = Some (cm2, k2)"
    "refs_change cm1 cm2 (\<lambda>j. - one_at (Some i) j)"
    using release_stream_refs [OF refs_changeD(1) [OF a(2)] i1, of E A k1] by blast
  have "refs_change (adev_cm adev) cm2 (\<lambda>j. - one_at (Some i) j)"
    using refs_change_cong [OF refs_change_trans [OF a(2) r(2)], of "\<lambda>j. - one_at (Some i) j"] by simp
  moreover have "in_table cm2 x = in_table (adev_cm adev) x" for x
    using in_table_change [OF a(2)] in_table_change [OF r(2)] by simp
  ultimately show ?thesis using Some a r assms refs_changeD(1) [OF r(2)] refs_changeD(2) [OF r(2)] i1
    by (auto simp: do_voice_trigger_close_stream_def adev_ok_def voice_frame_def)
qed

text \<open>
  The books of one step: the counts change by what the machine holds after the step less what it
  held before, except when a fired trigger is enabled again, where the old reference is forgotten.
\<close>

definition forgets :: "audio_device \<Rightarrow> voice_event \<Rightarrow> bool" where
  "forgets adev e \<longleftrightarrow> voice_st adev = eVoiceTriggerFired \<and> e = Enable"

definition voice_books :: "audio_device \<Rightarrow> voice_event \<Rightarrow> audio_device \<Rightarrow> bool" where
  "voice_books adev e adev' \<longleftrightarrow> adev_ok adev' \<and> voice_frame adev adev'
     \<and> refs_change (adev_cm adev) (adev_cm adev')
         (\<lambda>i. voice_held adev' i - (if forgets adev e then 0 else voice_held adev i))"

lemma voice_books_same:
  assumes "adev_ok adev" and "holding st = holding (voice_st adev)" and "\<not> forgets adev e"
  shows "voice_books adev e (adev\<lparr>voice_st := st\<rparr>)"
proof -
  have "refs_change (adev_cm adev) (adev_cm adev) (\<lambda>_. 0)"
    using assms(1) by (simp add: refs_change_refl adev_ok_def)
  then show ?thesis using assms
    by (auto simp: voice_books_def adev_ok_def voice_frame_def voice_held_def elim!: refs_change_cong)
qed

lemma voice_books_id: "adev_ok adev \<Longrightarrow> \<not> forgets adev e \<Longrightarrow> voice_books adev e adev"
  using voice_books_same [of adev "voice_st adev" e] by simp

lemma voice_books_open:
  assumes "adev_ok adev" and "\<not> holding (voice_st adev) \<or> forgets adev e" and "holding st"
  shows "\<exists>adev' k'. do_voice_trigger_open_stream E A adev name k = Some (adev', k')
    \<and> voice_books adev e (adev'\<lparr>voice_st := st\<rparr>)"
proof -
  obtain adev' k' where o: "do_voice_trigger_open_stream E A adev name k = Some (adev', k')" "adev_ok adev'"
    "refs_change (adev_cm adev) (adev_cm adev') (one_at (voice_trig_stream adev'))" "voice_frame adev adev'"
    using open_stream_refs [OF assms(1)] by metis
  have "refs_change (adev_cm adev) (adev_cm adev')
     (\<lambda>i. voice_held (adev'\<lparr>voice_st := st\<rparr>) i - (if forgets adev e then 0 else voice_held adev i))"
    by (rule refs_change_cong [OF o(3)]) (use assms(2,3) in \<open>auto simp: voice_held_def\<close>)
  then have "voice_books adev e (adev'\<lparr>voice_st := st\<rparr>)"
    using o(2,4) by (simp add: voice_books_def adev_ok_def voice_frame_def)
  then show ?thesis using o(1) by blast
qed

lemma voice_books_close:
  assumes "adev_ok adev" and "holding (voice_st adev)" and "\<not> forgets adev e" and "\<not> holding st"
  shows "\<exists>adev' k'. do_voice_trigger_close_stream E A adev k = Some (adev', k')
    \<and> voice_books adev e (adev'\<lparr>voice_st := st\<rparr>)"
proof -
  obtain adev' k' where c: "do_voice_trigger_close_stream E A adev k = Some (adev', k')" "adev_ok adev'"
    "refs_change (adev_cm adev) (adev_cm adev') (\<lambda>i. - one_at (voice_trig_stream adev) i)" "voice_frame adev adev'"
    using close_stream_refs [OF assms(1)] by metis
  have "refs_change (adev_cm adev) (adev_cm adev')
     (\<lambda>i. voice_held (adev'\<lparr>voice_st := st\<rparr>) i - (if forgets adev e then 0 else voice_held adev i))"
    by (rule refs_change_cong [OF c(3)]) (use assms(2-4) in \<open>simp add: voice_held_def\<close>)
  then have "voice_books adev e (adev'\<lparr>voice_st := st\<rparr>)"
    using c(2,4) by (simp add: voice_books_def adev_ok_def voice_frame_def)
  then show ?thesis using c(1) by blast
qed

lemma enable_books:
  assumes ok: "adev_ok adev"
  shows "\<exists>adev' k'. voice_trigger_enable E A adev k = Some (adev', k') \<and> voice_books adev Enable adev'"
proof (cases "voice_st adev \<in> {eVoiceTriggerIdle, eVoiceTriggerFired, eVoiceRecogIdle}")
  case True
  then have "\<not> holding (voice_st adev) \<or> forgets adev Enable" by (auto simp: holding_def forgets_def)
  note o = voice_books_open [OF ok this, of eVoiceTriggerArmed E A kVoiceTriggerStreamName k]
    voice_books_open [OF ok this, of eVoiceRecogArmed E A kVoiceRecogStreamName k]
  show ?thesis using True o by (auto simp: voice_trigger_enable_def holding_def)
next
  case False
  then have nf: "\<not> forgets adev Enable" by (simp add: forgets_def)
  show ?thesis using False voice_books_id [OF ok nf] voice_books_same [OF ok _ nf, of eVoiceRecogReArm]
    by (auto simp: voice_trigger_enable_def holding_def)
qed

lemma disable_books:
  assumes ok: "adev_ok adev"
  shows "\<exists>adev' k'. voice_trigger_disable E A adev k = Some (adev', k') \<and> voice_books adev Disable adev'"
proof -
  have nf: "\<not> forgets adev Disable" by (simp add: forgets_def)
  show ?thesis
    using voice_books_id [OF ok nf] voice_books_same [OF ok _ nf, of eVoiceRecogAudio]
      voice_books_close [OF ok _ nf, of eVoiceTriggerIdle E A k] voice_books_close [OF ok _ nf, of eVoiceRecogIdle E A k]
    by (auto simp: voice_trigger_disable_def holding_def)
qed

lemma ended_books:
  assumes ok: "adev_ok adev"
  shows "\<exists>adev' k'. voice_trigger_audio_ended_locked E A adev k = Some (adev', k') \<and> voice_books adev Audio_ended adev'"
proof -
  have nf: "\<not> forgets adev Audio_ended" by (simp add: forgets_def)
  show ?thesis
    using voice_books_id [OF ok nf] voice_books_same [OF ok _ nf, of eVoiceRecogArmed]
      voice_books_close [OF ok _ nf, of eVoiceRecogIdle E A k]
    by (auto simp: voice_trigger_audio_ended_locked_def holding_def)
qed

lemma triggered_books: "adev_ok adev \<Longrightarrow> voice_books adev Triggered (voice_trigger_triggered adev)"
  using voice_books_id [of adev Triggered] voice_books_same [of adev eVoiceTriggerFired Triggered]
    voice_books_same [of adev eVoiceRecogFired Triggered]
  by (auto simp: voice_trigger_triggered_def holding_def forgets_def)

lemma started_books: "adev_ok adev \<Longrightarrow> voice_books adev Audio_started (voice_trigger_audio_started_locked adev)"
  using voice_books_id [of adev Audio_started] voice_books_same [of adev eVoiceRecogAudio Audio_started]
  by (auto simp: voice_trigger_audio_started_locked_def holding_def forgets_def)

lemma voice_step_books:
  assumes "adev_ok adev"
  shows "\<exists>adev' k'. voice_step E A e (adev, k) = Some (adev', k') \<and> voice_books adev e adev'"
  using enable_books [OF assms, of E A k] disable_books [OF assms, of E A k] ended_books [OF assms, of E A k]
    triggered_books [OF assms] started_books [OF assms]
  by (cases e) auto

section \<open>The ledger of the voice trigger\<close>

interpretation voice_safe: safe_machine "voice_step E A" "\<lambda>s. adev_ok (fst s)" for E A
proof unfold_locales
  fix s s' :: "audio_device \<times> 'a" and e
  assume ok: "adev_ok (fst s)"
  then show "voice_step E A e s \<noteq> None"
    using voice_step_books [of "fst s" E A e "snd s"] by (cases s) auto
  show "adev_ok (fst s')" if "voice_step E A e s = Some s'"
    using that voice_step_books [OF ok, of E A e "snd s"] by (cases s) (auto simp: voice_books_def)
qed

interpretation voice: ref_ledger "voice_step E A" "\<lambda>s. adev_ok (fst s)" "\<lambda>s. refs (adev_cm (fst s))"
  "\<lambda>s. voice_held (fst s)" "\<lambda>s. nstreams (adev_cm (fst s))" "\<lambda>s e. \<not> forgets (fst s) e" for E A
proof unfold_locales
  fix s s' :: "audio_device \<times> 'a" and e i
  assume ok: "adev_ok (fst s)" and st: "voice_step E A e s = Some s'"
  then have b: "voice_books (fst s) e (fst s')"
    using voice_step_books [OF ok, of E A e "snd s"] by (cases s) auto
  then show "nstreams (adev_cm (fst s')) = nstreams (adev_cm (fst s))"
    by (auto simp: voice_books_def refs_changeD(2))
  assume "i < nstreams (adev_cm (fst s))"
  with b have c: "refs (adev_cm (fst s')) i = refs (adev_cm (fst s)) i
      + (voice_held (fst s') i - (if forgets (fst s) e then 0 else voice_held (fst s) i))"
    using refs_changeD(3) by (auto simp: voice_books_def)
  then show "refs (adev_cm (fst s)) i - voice_held (fst s) i \<le> refs (adev_cm (fst s')) i - voice_held (fst s') i"
    by (auto simp: voice_held_def one_at_def)
  show "refs (adev_cm (fst s')) i - voice_held (fst s') i = refs (adev_cm (fst s)) i - voice_held (fst s) i"
    if "\<not> forgets (fst s) e" using c that by simp
qed

section \<open>The specification of the machine\<close>

text \<open>
  What the hardware mode and the client's requests determine: the phase of the detection, and
  while a recogniser delivers audio whether it shall listen again afterwards.
\<close>

datatype voice_mode = No_voice | Trigger_mode | Recog_mode
datatype voice_phase = Off | Listening | Heard | Speaking bool

fun voice_abs :: "voice_state \<Rightarrow> voice_mode \<times> voice_phase" where
  "voice_abs eVoiceNone = (No_voice, Off)"
| "voice_abs eVoiceTriggerIdle = (Trigger_mode, Off)"
| "voice_abs eVoiceTriggerArmed = (Trigger_mode, Listening)"
| "voice_abs eVoiceTriggerFired = (Trigger_mode, Heard)"
| "voice_abs eVoiceRecogIdle = (Recog_mode, Off)"
| "voice_abs eVoiceRecogArmed = (Recog_mode, Listening)"
| "voice_abs eVoiceRecogFired = (Recog_mode, Heard)"
| "voice_abs eVoiceRecogAudio = (Recog_mode, Speaking False)"
| "voice_abs eVoiceRecogReArm = (Recog_mode, Speaking True)"

definition voice_spec :: "voice_event \<Rightarrow> voice_mode \<times> voice_phase \<Rightarrow> voice_mode \<times> voice_phase" where
  "voice_spec e = (\<lambda>(m, p). (m,
     if m = No_voice then p
     else case (e, p) of
       (Enable, Off) \<Rightarrow> Listening
     | (Enable, Heard) \<Rightarrow> (if m = Trigger_mode then Listening else Heard)
     | (Enable, Speaking _) \<Rightarrow> Speaking True
     | (Disable, Listening) \<Rightarrow> Off
     | (Disable, Heard) \<Rightarrow> (if m = Trigger_mode then Off else Heard)
     | (Disable, Speaking _) \<Rightarrow> Speaking False
     | (Triggered, Listening) \<Rightarrow> Heard
     | (Audio_started, Heard) \<Rightarrow> (if m = Recog_mode then Speaking False else Heard)
     | (Audio_ended, Speaking again) \<Rightarrow> (if again then Listening else Off)
     | _ \<Rightarrow> p))"

lemma voice_step_abs:
  "voice_step E A e (adev, k) = Some (adev', k') \<Longrightarrow>
   voice_abs (voice_st adev') = voice_spec e (voice_abs (voice_st adev))"
  by (cases e; cases "voice_st adev")
    (auto simp: voice_trigger_enable_def voice_trigger_disable_def voice_trigger_triggered_def
      voice_trigger_audio_started_locked_def voice_trigger_audio_ended_locked_def voice_spec_def
      split: bind_splits)

lemma voice_run_abs:
  "run_steps (voice_step E A) es (adev, k) = Some (adev', k') \<Longrightarrow>
   voice_abs (voice_st adev') = fold voice_spec es (voice_abs (voice_st adev))"
  by (induction es arbitrary: adev k) (auto elim!: bind_SomeE dest!: voice_step_abs)

lemma fold_voice_spec_mode: "fst (fold voice_spec es s) = fst s"
  by (induction es arbitrary: s) (auto simp: voice_spec_def split: prod.splits)

lemma holding_abs: "holding st \<longleftrightarrow> snd (voice_abs st) \<noteq> Off"
  by (cases st) (simp_all add: holding_def)

lemma no_trigger_tidy:
  "fst (voice_abs (voice_st adev)) \<noteq> Trigger_mode \<Longrightarrow>
   tidy_run (voice_step E A) (\<lambda>s e. \<not> forgets (fst s) e) es (adev, k)"
proof (induction es arbitrary: adev k)
  case (Cons e es)
  have "\<not> forgets adev e" using Cons.prems by (auto simp: forgets_def)
  moreover have "fst (voice_abs (voice_st adev')) \<noteq> Trigger_mode"
    if "voice_step E A e (adev, k) = Some (adev', k')" for adev' k'
    using voice_step_abs [OF that] Cons.prems fold_voice_spec_mode [of "[e]"] by simp
  ultimately show ?case using Cons.IH by (auto split: option.splits)
qed simp

section \<open>Properties\<close>

text \<open>A device for the witnesses, with one named input stream that two clients may share.\<close>

definition demo_voice_cm :: "string \<Rightarrow> config_mgr" where
  "demo_voice_cm name = demo_cm\<lparr>stream_array := array_of [(demo_stream e_stream_in_hw)\<lparr>s_name := Some name\<rparr>]\<rparr>"

definition demo_adev :: "string \<Rightarrow> audio_device" where
  "demo_adev name = voice_trigger_init \<lparr>mic_mute = False, adev_cm = demo_voice_cm name,
     active_voice_control = None, voice_st = eVoiceNone, voice_trig_mic = 0, global_stream = None,
     voice_trig_stream = None\<rparr>"

lemma demo_voice_cm_wf: "cm_wf (demo_voice_cm name)"
proof -
  have "stream_wf m ((demo_stream t)\<lparr>s_name := n\<rparr>) = stream_wf m (demo_stream e_stream_in_pcm)" for m t n
    by (simp add: stream_wf_def demo_stream_def)
  then show ?thesis using demo_cm_wf by (simp add: cm_wf_def demo_voice_cm_def demo_cm_def)
qed

lemma demo_adev_ok: "adev_ok (demo_adev name)"
  by (simp add: adev_ok_def demo_adev_def voice_trigger_init_def demo_voice_cm_wf)

text \<open>
  (C28) The voice trigger refines its specification: from every well-formed device, any sequence of
  requests, detections and starts and ends of the voice audio runs without undefined behaviour,
  leaves a well-formed device, and the code's nine states go through the phases that the
  specification prescribes for the mode of the hardware, which never changes.
\<close>

theorem voice_refines:
  assumes "adev_ok adev"
  shows "\<exists>adev' k'. run_steps (voice_step E A) es (adev, k) = Some (adev', k') \<and> adev_ok adev'
    \<and> voice_abs (voice_st adev') = fold voice_spec es (voice_abs (voice_st adev))
    \<and> fst (voice_abs (voice_st adev')) = fst (voice_abs (voice_st adev))"
proof -
  obtain adev' k' where r: "run_steps (voice_step E A) es (adev, k) = Some (adev', k')" "adev_ok adev'"
    using voice_safe.run_defined [of "(adev, k)" E A es] assms by auto
  then show ?thesis using voice_run_abs [OF r(1)] fold_voice_spec_mode by simp
qed

lemma voice_refines_witness:
  "\<exists>adev' k'. run_steps (voice_step (demo_card [demo_volume]) demo_audio_h)
       [Enable, Triggered, Audio_started, Enable, Audio_ended] (demo_adev kVoiceRecogStreamName, demo_state)
       = Some (adev', k')
     \<and> voice_abs (voice_st adev') = (Recog_mode, Listening)"
proof -
  have "voice_abs (voice_st (demo_adev kVoiceRecogStreamName)) = (Recog_mode, Off)" by code_simp
  then show ?thesis
    using voice_refines [OF demo_adev_ok, of "demo_card [demo_volume]" demo_audio_h
        "[Enable, Triggered, Audio_started, Enable, Audio_ended]" kVoiceRecogStreamName demo_state]
    by (auto simp: voice_spec_def)
qed

text \<open>
  (C29) The voice trigger gives back the streams it takes: over any sequence of events the count of
  references of each stream never falls below what it was plus what the machine took
  and still holds, so that no other client's stream is switched off; on hardware with a full
  recogniser (and without any) the books are exact.
\<close>

theorem voice_refs_balanced:
  assumes "adev_ok adev" and "run_steps (voice_step E A) es (adev, k) = Some (adev', k')"
    and "i < nstreams (adev_cm adev)"
  shows "refs (adev_cm adev) i - voice_held adev i \<le> refs (adev_cm adev') i - voice_held adev' i
    \<and> (fst (voice_abs (voice_st adev)) \<noteq> Trigger_mode \<longrightarrow>
      refs (adev_cm adev') i - voice_held adev' i = refs (adev_cm adev) i - voice_held adev i)"
  using voice.run_covers [of "(adev, k)" E A es "(adev', k')" i]
    voice.run_exact [of "(adev, k)" E A es "(adev', k')" i] no_trigger_tidy [of adev E A es k] assms
  by simp

lemma voice_refs_balanced_witness:
  "\<exists>adev' k'. run_steps (voice_step (demo_card [demo_volume]) demo_audio_h) [Enable, Triggered]
       (demo_adev kVoiceRecogStreamName, demo_state) = Some (adev', k')
     \<and> refs (adev_cm adev') 0 - voice_held adev' 0 = 0"
proof -
  obtain adev' k' where r: "run_steps (voice_step (demo_card [demo_volume]) demo_audio_h) [Enable, Triggered]
       (demo_adev kVoiceRecogStreamName, demo_state) = Some (adev', k')"
    using voice_safe.run_defined [of "(demo_adev kVoiceRecogStreamName, demo_state)" "demo_card [demo_volume]" demo_audio_h
        "[Enable, Triggered]"] demo_adev_ok by auto
  have "fst (voice_abs (voice_st (demo_adev kVoiceRecogStreamName))) \<noteq> Trigger_mode"
    "0 < nstreams (adev_cm (demo_adev kVoiceRecogStreamName))"
    "refs (adev_cm (demo_adev kVoiceRecogStreamName)) 0 - voice_held (demo_adev kVoiceRecogStreamName) 0 = 0"
    by code_simp+
  with voice_refs_balanced [OF demo_adev_ok r, of 0] r show ?thesis by auto
qed

text \<open>
  Enabling a fired trigger opens its stream a second time: after the machine is switched off and
  idle one reference is left for ever, and the stream's paths are never switched off.
\<close>

lemma trigger_enable_leak:
  "case run_steps (voice_step (demo_card [demo_volume]) demo_audio_h) [Enable, Triggered, Enable, Disable]
       (demo_adev kVoiceTriggerStreamName, demo_state) of
     Some (adev', _) \<Rightarrow> voice_st adev' = eVoiceTriggerIdle \<and> refs (adev_cm adev') 0 = 1
   | None \<Rightarrow> False"
  by code_simp

text \<open>The events that switch the voice trigger off, from each of its states.\<close>

fun shutdown :: "voice_state \<Rightarrow> voice_event list" where
  "shutdown eVoiceRecogFired = [Audio_started, Audio_ended]"
| "shutdown eVoiceRecogAudio = [Audio_ended]"
| "shutdown eVoiceRecogReArm = [Disable, Audio_ended]"
| "shutdown _ = [Disable]"

text \<open>
  (C30) The voice trigger can be switched off from every state, and how: from the armed states and when the trigger fired a
  single request to disable it is enough; while the recogniser's audio runs, its end is (after a request to disable, if it
  is to be armed again); when the recogniser fired and its audio has not started, requests to disable change nothing,
  the audio has to be started and ended. Afterwards the state is the idle one, the reference that was held on the stream is given
  back and every other count is unchanged.
\<close>

theorem voice_shutdown:
  assumes "adev_ok adev"
  shows "\<exists>adev' k'. run_steps (voice_step E A) (shutdown (voice_st adev)) (adev, k) = Some (adev', k')
    \<and> snd (voice_abs (voice_st adev')) = Off
    \<and> (\<forall>i < nstreams (adev_cm adev). refs (adev_cm adev') i = refs (adev_cm adev) i - voice_held adev i)
    \<and> (voice_st adev = eVoiceRecogFired \<longrightarrow> voice_step E A Disable (adev, k) = Some (adev, k))"
proof -
  let ?es = "shutdown (voice_st adev)"
  obtain adev' k' where r: "run_steps (voice_step E A) ?es (adev, k) = Some (adev', k')"
    using voice_safe.run_defined [of "(adev, k)" E A ?es] assms by auto
  have off: "snd (voice_abs (voice_st adev')) = Off"
    using voice_run_abs [OF r] by (cases "voice_st adev") (simp_all add: voice_spec_def)
  then have held: "voice_held adev' i = 0" for i by (simp add: voice_held_def holding_abs)
  have "tidy_run (voice_step E A) (\<lambda>s e. \<not> forgets (fst s) e) ?es (adev, k)"
    by (cases "voice_st adev") (simp_all add: forgets_def split: option.split)
  then have "refs (adev_cm adev') i = refs (adev_cm adev) i - voice_held adev i" if "i < nstreams (adev_cm adev)" for i
    using voice.run_exact [of "(adev, k)" E A ?es "(adev', k')" i] r assms that held by simp
  moreover have "voice_step E A Disable (adev, k) = Some (adev, k)" if "voice_st adev = eVoiceRecogFired"
    using that by (simp add: voice_trigger_disable_def)
  ultimately show ?thesis using r off by blast
qed

lemma voice_shutdown_witness:
  "\<exists>adev' k'. run_steps (voice_step (demo_card [demo_volume]) demo_audio_h) [Audio_started, Audio_ended]
       ((demo_adev kVoiceTriggerStreamName)\<lparr>voice_st := eVoiceRecogFired, voice_trig_stream := Some 0\<rparr>, demo_state)
       = Some (adev', k') \<and> snd (voice_abs (voice_st adev')) = Off"
proof -
  let ?a = "(demo_adev kVoiceTriggerStreamName)\<lparr>voice_st := eVoiceRecogFired, voice_trig_stream := Some 0\<rparr>"
  have "0 < nstreams (adev_cm (demo_adev kVoiceTriggerStreamName))" by code_simp
  then have "adev_ok ?a" using demo_adev_ok [of kVoiceTriggerStreamName] by (simp add: adev_ok_def)
  from voice_shutdown [OF this, of "demo_card [demo_volume]" demo_audio_h demo_state] show ?thesis by auto
qed

section \<open>Use cases by parameter string\<close>

lemma set_update_image: "i < length xs \<Longrightarrow> f x = f (xs ! i) \<Longrightarrow> f ` set (xs[i := x]) = f ` set xs"
proof -
  assume "i < length xs" "f x = f (xs ! i)"
  then have "map f (xs[i := x]) = map f xs" by (simp add: map_update list_update_same_conv)
  then show ?thesis using set_map [of f "xs[i := x]"] by simp
qed

lemma elems_set_elem_names:
  "j < length (elems a) \<Longrightarrow> f x = f (elems a ! j) \<Longrightarrow> f ` set (elems (set_elem a j x)) = f ` set (elems a)"
  by (subst elems_set_elem_in) (simp_all add: set_update_image elems_def)

text \<open>The names that a stream's use cases have do not change when one is applied.\<close>

abbreviation case_names :: "usecase \<Rightarrow> string \<times> string set" where
  "case_names uc \<equiv> (uc_name uc, sc_name ` set (elems (case_array uc)))"

lemma use_case_declared_names:
  "use_case_declared s setting name \<longleftrightarrow> (\<exists>ns. (setting, ns) \<in> case_names ` set (elems (usecase_array s)) \<and> name \<in> ns)"
  by (auto simp: use_case_declared_def)

lemma put_case_ctls_names:
  assumes "i < length (elems (usecase_array s))" and "j < length (elems (case_array (elems (usecase_array s) ! i)))"
  shows "use_case_declared (put_case_ctls s i j cs) = use_case_declared s"
proof -
  have "case_names ` set (elems (usecase_array (put_case_ctls s i j cs))) = case_names ` set (elems (usecase_array s))"
    using assms by (simp add: put_case_ctls_def Let_def elems_set_elem_names)
  then show ?thesis by (intro ext) (simp add: use_case_declared_names)
qed

lemma apply_use_case_keeps:
  assumes cm: "cm_wf cm" and n: "n < nstreams cm"
  shows "\<exists>r cm' k'. apply_use_case E cm n setting name k = Some ((r, cm'), k') \<and> refs_change cm cm' (\<lambda>_. 0)
    \<and> (0 \<le> r \<longleftrightarrow> use_case_declared (get_stream_at cm n) setting name)
    \<and> use_case_declared (get_stream_at cm' n) = use_case_declared (get_stream_at cm n)"
proof -
  let ?ucs = "elems (usecase_array (get_stream_at cm n))"
  obtain r cm' k' where a: "apply_use_case E cm n setting name k = Some ((r, cm'), k')" "refs_change cm cm' (\<lambda>_. 0)"
    using apply_use_case_refs [OF cm n, of E setting name k] by blast
  have d: "use_case_declared (get_stream_at cm n) setting name \<longleftrightarrow> find_use_case setting name 0 ?ucs \<noteq> None"
    by (simp add: use_case_declared_def find_use_case_None)
  show ?thesis
  proof (cases "find_use_case setting name 0 ?ucs")
    case None
    then show ?thesis using a d by (auto simp: apply_use_case_def Let_def)
  next
    case (Some ij)
    then obtain i j where ij: "find_use_case setting name 0 ?ucs = Some (i, j)" by (cases ij) simp
    obtain cs where cm': "cm' = put_stream_at cm n (put_case_ctls (get_stream_at cm n) i j cs)" "r = 0"
      using a(1) ij by (auto simp: apply_use_case_def Let_def elim!: bind_SomeE)
    have "i < length ?ucs" "j < length (elems (case_array (?ucs ! i)))"
      using find_use_case_bound [OF ij] find_case_bound by fastforce+
    then show ?thesis using a cm' d ij put_case_ctls_names get_put_stream [OF n] by simp
  qed
qed

lemma usecases_loop_result:
  "cm_wf cm \<Longrightarrow> n < nstreams cm \<Longrightarrow>
   \<exists>cm' k'. usecases_loop E n ps ret cm k = Some ((if \<exists>p \<in> set ps. \<exists>setting v.
        split_pair p = Some (setting, v) \<and> use_case_declared (get_stream_at cm n) setting v
        then 0 else ret, cm'), k') \<and> refs_change cm cm' (\<lambda>_. 0)"
proof (induction ps arbitrary: ret cm k)
  case Nil
  then show ?case by (simp add: refs_change_refl)
next
  case (Cons p ps)
  show ?case
  proof (cases "split_pair p")
    case None
    then show ?thesis using Cons.IH [OF Cons.prems, of ret k] by simp
  next
    case (Some sv)
    obtain setting v where sv: "sv = (setting, v)" by (cases sv)
    obtain r cm1 k1 where a: "apply_use_case E cm n setting v k = Some ((r, cm1), k1)"
      "refs_change cm cm1 (\<lambda>_. 0)" "0 \<le> r \<longleftrightarrow> use_case_declared (get_stream_at cm n) setting v"
      "use_case_declared (get_stream_at cm1 n) = use_case_declared (get_stream_at cm n)"
      using apply_use_case_keeps [OF Cons.prems, of E setting v k] by blast
    have n1: "n < nstreams cm1" using Cons.prems(2) refs_changeD(2) [OF a(2)] by simp
    obtain cm2 k2 where l: "usecases_loop E n ps (if r \<ge> 0 then 0 else ret) cm1 k1 = Some ((if \<exists>p \<in> set ps.
        \<exists>setting v. split_pair p = Some (setting, v) \<and> use_case_declared (get_stream_at cm n) setting v
        then 0 else if r \<ge> 0 then 0 else ret, cm2), k2)" "refs_change cm1 cm2 (\<lambda>_. 0)"
      using Cons.IH [OF refs_changeD(1) [OF a(2)] n1, of "if r \<ge> 0 then 0 else ret" k1] unfolding a(4) by blast
    have "refs_change cm cm2 (\<lambda>_. 0)" using refs_change_trans [OF a(2) l(2)] by simp
    then show ?thesis using Some sv a(1) l(1) a(3) by auto
  qed
qed

text \<open>
  \<^verbatim>\<open>stream_invoke_usecases\<close>: every pair of the parameter string is tried, and the result is 0
  exactly when one of them is a use case that the configuration declares for the stream, and
  \<^verbatim>\<open>-ENOTSUP\<close> when there is none or no stream; the configuration stays well formed.
\<close>

theorem invoke_usecases_result:
  assumes "cm_wf cm" and "in_table cm stream" and "sys_alloc E k = (True, k1)"
  shows "\<exists>cm' k'. stream_invoke_usecases E cm stream kvpairs k = Some ((
      if \<exists>i p setting v. stream = Some i \<and> p \<in> set (strtok_all (CHR '';'') kvpairs)
        \<and> split_pair p = Some (setting, v) \<and> use_case_declared (get_stream_at cm i) setting v
      then 0 else - ENOTSUP, cm'), k') \<and> cm_wf cm'"
proof (cases stream)
  case None
  then show ?thesis using assms by (simp add: stream_invoke_usecases_def)
next
  case (Some i)
  obtain cm' k' where l: "usecases_loop E i (strtok_all (CHR '';'') kvpairs) (- ENOTSUP) cm k1 =
      Some ((if \<exists>p \<in> set (strtok_all (CHR '';'') kvpairs). \<exists>setting v.
        split_pair p = Some (setting, v) \<and> use_case_declared (get_stream_at cm i) setting v
        then 0 else - ENOTSUP, cm'), k')" "refs_change cm cm' (\<lambda>_. 0)"
    using usecases_loop_result [OF assms(1), of i E "strtok_all (CHR '';'') kvpairs" "- ENOTSUP" k1] assms(2) Some by auto
  then show ?thesis using Some assms(3) refs_changeD(1) [OF l(2)] by (auto simp: stream_invoke_usecases_def)
qed

lemma invoke_usecases_result_witness:
  "\<exists>cm' k'. stream_invoke_usecases (demo_card [demo_volume]) demo_cm (Some 0) ''mode=call;x'' demo_state
     = Some ((- ENOTSUP, cm'), k') \<and> cm_wf cm'"
proof -
  have "\<not> use_case_declared (get_stream_at demo_cm 0) setting v" for setting v
    by (simp add: demo_cm_def get_stream_at_def demo_stream_def zero_stream_def use_case_declared_def)
  then show ?thesis
    using invoke_usecases_result [OF demo_cm_wf, of "Some 0" "demo_card [demo_volume]" demo_state demo_state
        "''mode=call;x''"]
    by (simp add: demo_cm_def demo_card_def)
qed

end
