(* ===== verification/Hal_Props.thy ===== *)
theory Hal_Props
  imports Hal Voice_Props
begin

text \<open>
  The audio HAL under any sequence of calls: the ledger of the configured streams. Every stream the
  framework opens, the voice trigger and the input sources take references from the
  configuration manager; the counts cover the holders at all times, so that no path is switched
  off under a stream that is open.
\<close>

section \<open>Movements of references\<close>

text \<open>
  A call moves \<open>g\<close> references to its caller: the counts grow by at least that and by what the voice
  trigger took meanwhile, and by exactly that unless a reference is forgotten.
\<close>

definition moves :: "audio_device \<Rightarrow> audio_device \<Rightarrow> (nat \<Rightarrow> int) \<Rightarrow> bool \<Rightarrow> bool" where
  "moves a a' g exact \<longleftrightarrow> adev_ok a' \<and> (\<exists>d. refs_change (adev_cm a) (adev_cm a') d
     \<and> (\<forall>i. voice_held a' i - voice_held a i + g i \<le> d i)
     \<and> (exact \<longrightarrow> (\<forall>i. d i = voice_held a' i - voice_held a i + g i)))"

lemma moves_trans:
  assumes "moves a b g1 e1" and "moves b c g2 e2"
  shows "moves a c (\<lambda>i. g1 i + g2 i) (e1 \<and> e2)"
proof -
  obtain d1 where d1: "refs_change (adev_cm a) (adev_cm b) d1" "\<And>i. voice_held b i - voice_held a i + g1 i \<le> d1 i"
    "e1 \<Longrightarrow> d1 i = voice_held b i - voice_held a i + g1 i" for i
    using assms(1) by (auto simp: moves_def)
  obtain d2 where d2: "refs_change (adev_cm b) (adev_cm c) d2" "\<And>i. voice_held c i - voice_held b i + g2 i \<le> d2 i"
    "e2 \<Longrightarrow> d2 i = voice_held c i - voice_held b i + g2 i" for i
    using assms(2) by (auto simp: moves_def)
  have "voice_held c i - voice_held a i + (g1 i + g2 i) \<le> d1 i + d2 i" for i
    using d1(2) [of i] d2(2) [of i] by linarith
  moreover have "d1 i + d2 i = voice_held c i - voice_held a i + (g1 i + g2 i)" if "e1 \<and> e2" for i
    using d1(3) [of i] d2(3) [of i] that by simp
  ultimately show ?thesis
    using refs_change_trans [OF d1(1) d2(1)] assms(2) unfolding moves_def by blast
qed

lemma moves_weaken:
  "moves a a' g e \<Longrightarrow> (\<And>i. g' i \<le> g i) \<Longrightarrow> (e' \<Longrightarrow> e \<and> (\<forall>i. g' i = g i)) \<Longrightarrow> moves a a' g' e'"
  unfolding moves_def by (smt (verit, best))

lemma moves_ok: "moves a a' g e \<Longrightarrow> adev_ok a'"
  by (simp add: moves_def)

lemma moves_nstreams: "moves a a' g e \<Longrightarrow> nstreams (adev_cm a') = nstreams (adev_cm a)"
  by (auto simp: moves_def refs_changeD(2))

lemma moves_refs:
  assumes "moves a a' g e" and "i < nstreams (adev_cm a)"
  shows "refs (adev_cm a) i + (voice_held a' i - voice_held a i + g i) \<le> refs (adev_cm a') i"
    and "e \<Longrightarrow> refs (adev_cm a') i = refs (adev_cm a) i + (voice_held a' i - voice_held a i + g i)"
  using assms refs_changeD(3) by (fastforce simp: moves_def)+

text \<open>What the files say of a configured stream stays.\<close>

definition same_hw :: "config_mgr \<Rightarrow> config_mgr \<Rightarrow> bool" where
  "same_hw cm cm' \<longleftrightarrow> nstreams cm' = nstreams cm \<and> (\<forall>i < nstreams cm. hw_of cm' i = hw_of cm i)"

lemma moves_same_hw: "moves a a' g e \<Longrightarrow> same_hw (adev_cm a) (adev_cm a')"
  by (auto simp: moves_def same_hw_def hw_of_def refs_changeD(2,4))

text \<open>A call of the configuration manager alone.\<close>

lemma moves_cm:
  assumes "adev_ok a" and "refs_change (adev_cm a) cm' d"
  shows "moves a (a\<lparr>adev_cm := cm'\<rparr>) d True"
proof -
  have "adev_ok (a\<lparr>adev_cm := cm'\<rparr>)"
    using assms refs_changeD(1) [OF assms(2)] by (simp add: adev_ok_def in_table_change [OF assms(2)])
  then show ?thesis using assms(2) by (auto simp: moves_def voice_held_def)
qed

lemma moves_refl: "adev_ok a \<Longrightarrow> moves a a (\<lambda>_. 0) True"
  using moves_cm [of a "adev_cm a" "\<lambda>_. 0"] by (simp add: refs_change_refl adev_ok_def)

lemma moves_voice: "voice_books a e a' \<Longrightarrow> moves a a' (\<lambda>_. 0) (\<not> forgets a e)"
  unfolding voice_books_def moves_def by (auto simp: voice_held_def one_at_def)

text \<open>Fields that the books do not read.\<close>

lemma moves_frame:
  assumes "adev_ok a"
  shows "moves a (a\<lparr>mic_mute := b\<rparr>) (\<lambda>_. 0) True" "moves a (a\<lparr>active_voice_control := v\<rparr>) (\<lambda>_. 0) True"
    "moves a (a\<lparr>voice_trig_mic := m\<rparr>) (\<lambda>_. 0) True"
  using moves_refl [OF assms] by (simp_all add: moves_def adev_ok_def voice_held_def)

lemma one_at_None: "one_at None = (\<lambda>_. 0)"
  by (simp add: fun_eq_iff)

section \<open>Calls of the configuration manager\<close>

lemma apply_route_moves:
  assumes "adev_ok a" and "i < nstreams (adev_cm a)" and "apply_route E A (adev_cm a) i dv k = Some (cm', k')"
  shows "moves a (a\<lparr>adev_cm := cm'\<rparr>) (\<lambda>_. 0) True"
  using apply_route_refs [of "adev_cm a" i E A dv k] moves_cm [OF assms(1)] assms by (auto simp: adev_ok_def)

lemma release_stream_moves:
  assumes "adev_ok a" and "in_table (adev_cm a) s" and "release_stream E A (adev_cm a) s k = Some (cm', k')"
  shows "moves a (a\<lparr>adev_cm := cm'\<rparr>) (\<lambda>i. - one_at s i) True"
proof (cases s)
  case None
  then have "cm' = adev_cm a" using assms(3) by (simp add: release_stream_def)
  then show ?thesis using None moves_refl [OF assms(1)] by simp
next
  case (Some i)
  then show ?thesis
    using release_stream_refs [of "adev_cm a" i E A k] moves_cm [OF assms(1)] assms by (auto simp: adev_ok_def)
qed

lemma get_named_stream_moves:
  assumes "adev_ok a" and "get_named_stream E (adev_cm a) name k = Some ((r, cm'), k')"
  shows "moves a (a\<lparr>adev_cm := cm'\<rparr>) (one_at r) True \<and> in_table (adev_cm a) r"
  using get_named_stream_refs [of "adev_cm a" E name k] moves_cm [OF assms(1)] assms
  by (auto simp: adev_ok_def in_table_def)

lemma get_stream_moves:
  assumes "adev_ok a" and "get_stream E A (adev_cm a) dv fmt k = Some ((r, cm'), k')"
  shows "moves a (a\<lparr>adev_cm := cm'\<rparr>) (one_at r) True \<and> in_table (adev_cm a) r"
  using get_stream_refs [of "adev_cm a" E A dv fmt k] moves_cm [OF assms(1)] assms
  by (auto simp: adev_ok_def in_table_def)

lemma invoke_usecases_refs:
  assumes "cm_wf cm" and "in_table cm s"
  shows "\<exists>r cm' k'. stream_invoke_usecases E cm s kv k = Some ((r, cm'), k') \<and> refs_change cm cm' (\<lambda>_. 0)"
proof -
  obtain ok k1 where a: "sys_alloc E k = (ok, k1)" by (cases "sys_alloc E k")
  show ?thesis
  proof (cases "ok \<and> s \<noteq> None")
    case True
    then obtain i where i: "s = Some i" "i < nstreams cm" using assms(2) by auto
    show ?thesis
      using usecases_loop_result [OF assms(1) i(2), of E "strtok_all (CHR '';'') kv" "- ENOTSUP" k1] a i True
      by (auto simp: stream_invoke_usecases_def)
  next
    case False
    then show ?thesis using a refs_change_refl [OF assms(1)] by (auto simp: stream_invoke_usecases_def)
  qed
qed

lemma invoke_usecases_moves:
  assumes "adev_ok a" and "in_table (adev_cm a) s"
    and "stream_invoke_usecases E (adev_cm a) s kv k = Some ((r, cm'), k')"
  shows "moves a (a\<lparr>adev_cm := cm'\<rparr>) (\<lambda>_. 0) True"
  using invoke_usecases_refs [of "adev_cm a" s E kv k] moves_cm [OF assms(1)] assms by (auto simp: adev_ok_def)

lemma enable_moves:
  "adev_ok a \<Longrightarrow> voice_trigger_enable E A a k = Some (a', k') \<Longrightarrow> moves a a' (\<lambda>_. 0) (voice_st a \<noteq> eVoiceTriggerFired)"
  using enable_books [of a E A k] moves_voice [of a Enable a'] by (auto simp: forgets_def)

lemma disable_moves:
  "adev_ok a \<Longrightarrow> voice_trigger_disable E A a k = Some (a', k') \<Longrightarrow> moves a a' (\<lambda>_. 0) True"
  using disable_books [of a E A k] moves_voice [of a Disable a'] by (auto simp: forgets_def)

lemma ended_moves:
  "adev_ok a \<Longrightarrow> voice_trigger_audio_ended_locked E A a k = Some (a', k') \<Longrightarrow> moves a a' (\<lambda>_. 0) True"
  using ended_books [of a E A k] moves_voice [of a Audio_ended a'] by (auto simp: forgets_def)

lemma started_moves: "adev_ok a \<Longrightarrow> moves a (voice_trigger_audio_started_locked a) (\<lambda>_. 0) True"
  using started_books [of a] moves_voice [of a Audio_started] by (auto simp: forgets_def)

lemma triggered_moves: "adev_ok a \<Longrightarrow> moves a (voice_trigger_triggered a) (\<lambda>_. 0) True"
  using triggered_books [of a] moves_voice [of a Triggered] by (auto simp: forgets_def)

section \<open>Calls of the device and its streams\<close>

lemma in_table_moves: "moves a a' g e \<Longrightarrow> in_table (adev_cm a') r = in_table (adev_cm a) r"
  by (simp add: in_table_def moves_nstreams)

lemma moves_then:
  "moves a b g True \<Longrightarrow> moves b c (\<lambda>_. 0) e \<Longrightarrow> moves a c g e"
  using moves_trans [of a b g True c "\<lambda>_. 0" e] by simp

lemma out_set_parameters_moves:
  assumes ok: "adev_ok a" and i: "o_hw out < nstreams (adev_cm a)"
    and s: "out_set_parameters E A H a out kv k = Some ((r, a'), k')"
  shows "moves a a' (\<lambda>_. 0) True"
proof -
  obtain v k1 cm1 k2 r2 cm2 where
    m1: "(case v of None \<Rightarrow> Some (adev_cm a, k1) | Some d \<Rightarrow> apply_route E A (adev_cm a) (o_hw out) d k1) = Some (cm1, k2)"
    and u: "stream_invoke_usecases E cm1 (Some (o_hw out)) kv k2 = Some ((r2, cm2), k')"
    and a': "a' = a\<lparr>adev_cm := cm2\<rparr>"
    using s unfolding out_set_parameters_def by (auto elim!: bind_SomeE)
  have 1: "moves a (a\<lparr>adev_cm := cm1\<rparr>) (\<lambda>_. 0) True"
    using m1 moves_refl [OF ok] apply_route_moves [OF ok i] by (cases v) auto
  have "moves (a\<lparr>adev_cm := cm1\<rparr>) a' (\<lambda>_. 0) True"
    using invoke_usecases_moves [OF moves_ok [OF 1], of "Some (o_hw out)" E kv k2] u a' i moves_nstreams [OF 1] by simp
  then show ?thesis by (rule moves_then [OF 1])
qed

lemma voice_set_params_moves:
  assumes ok: "adev_ok a" and s: "voice_trigger_set_params E A H a kv k = Some (a', k')"
  shows "moves a a' (\<lambda>_. 0) (voice_st a \<noteq> eVoiceTriggerFired) \<and> global_stream a' = global_stream a"
proof -
  define b where "b = (case parms_get H kv ''voice_trigger_mic'' of
      None \<Rightarrow> a | Some v \<Rightarrow> a\<lparr>voice_trig_mic := word_of_int (atoi v)\<rparr>)"
  have ab: "moves a b (\<lambda>_. 0) True" "voice_st b = voice_st a" "global_stream b = global_stream a"
    using moves_refl [OF ok] moves_frame(3) [OF ok] by (auto simp: b_def split: option.split)
  note okb = moves_ok [OF ab(1)]
  have r: "(case parms_get H kv ''voice_trigger'' of None \<Rightarrow> Some (b, k)
      | Some v \<Rightarrow> if v = ''2'' then Some (voice_trigger_triggered b, k) else if v = ''1'' then voice_trigger_enable E A b k
          else if v = ''0'' then voice_trigger_disable E A b k else Some (b, k)) = Some (a', k')"
    using s unfolding voice_trigger_set_params_def Let_def b_def [symmetric] .
  have e: "moves b a' (\<lambda>_. 0) (voice_st b \<noteq> eVoiceTriggerFired)" if "voice_trigger_enable E A b k = Some (a', k')"
    using enable_moves [OF okb that] .
  have t: "moves b a' (\<lambda>_. 0) (voice_st b \<noteq> eVoiceTriggerFired)" if "moves b a' (\<lambda>_. 0) True"
    using that by (rule moves_weaken) simp_all
  have fr: "global_stream a' = global_stream b"
    using r enable_books [OF okb, of E A k] disable_books [OF okb, of E A k] triggered_books [OF okb]
    by (auto simp: voice_books_def voice_frame_def split: option.splits if_splits)
  have "moves b a' (\<lambda>_. 0) (voice_st b \<noteq> eVoiceTriggerFired)"
    using r e t [OF disable_moves [OF okb]] t triggered_moves [OF okb] moves_refl [OF okb]
    by (auto split: option.splits if_splits)
  then show ?thesis using moves_then [OF ab(1)] ab(2,3) fr by simp
qed

lemma adev_set_parameters_moves:
  assumes ok: "adev_ok a" and s: "adev_set_parameters E A H a kv k = Some ((r, a'), k')"
  shows "moves a a' (\<lambda>_. 0) (voice_st a \<noteq> eVoiceTriggerFired)"
proof -
  let ?e = "voice_st a \<noteq> eVoiceTriggerFired"
  obtain b k1 k2 where 1: "moves a b (\<lambda>_. 0) ?e" "global_stream b = global_stream a"
    and u: "(case global_stream b of None \<Rightarrow> Some ((0, b), k2)
      | Some g \<Rightarrow> do { ((_, cm'), k3) \<leftarrow> stream_invoke_usecases E (adev_cm b) (Some g) kv k2;
                      Some ((0, b\<lparr>adev_cm := cm'\<rparr>), k3) }) = Some ((r, a'), k')"
  proof -
    obtain cok k1 where c: "parms_create H k = (cok, k1)" by (cases "parms_create H k")
    obtain b k2 where b: "(if cok then voice_trigger_set_params E A H a kv k1 else Some (a, k1)) = Some (b, k2)"
      and u: "(case global_stream b of None \<Rightarrow> Some ((0, b), k2)
        | Some g \<Rightarrow> do { ((_, cm'), k3) \<leftarrow> stream_invoke_usecases E (adev_cm b) (Some g) kv k2;
                        Some ((0, b\<lparr>adev_cm := cm'\<rparr>), k3) }) = Some ((r, a'), k')"
      using s c unfolding adev_set_parameters_def by (auto elim!: bind_SomeE)
    have "moves a b (\<lambda>_. 0) ?e \<and> global_stream b = global_stream a"
      using b voice_set_params_moves [OF ok, of E A H kv k1 b k2] moves_weaken [OF moves_refl [OF ok], of "\<lambda>_. 0" ?e]
      by (cases cok) auto
    then show ?thesis using that u by blast
  qed
  note okb = moves_ok [OF 1(1)]
  show ?thesis
  proof (cases "global_stream b")
    case None
    then show ?thesis using u 1 by simp
  next
    case (Some g)
    then obtain r2 cm' where ui: "stream_invoke_usecases E (adev_cm b) (Some g) kv k2 = Some ((r2, cm'), k')"
      and a': "a' = b\<lparr>adev_cm := cm'\<rparr>"
      using u by (auto elim!: bind_SomeE)
    have "moves b a' (\<lambda>_. 0) True"
      unfolding a' by (rule invoke_usecases_moves [OF okb _ ui]) (use okb Some in \<open>simp add: adev_ok_def\<close>)
    then show ?thesis using moves_trans [OF 1(1), of a' "\<lambda>_. 0" True] by simp
  qed
qed

lemma voice_source_changed_moves:
  assumes ok: "adev_ok a" and s: "voice_source_changed E A me vc a k = Some (a', k')"
  shows "moves a a' (\<lambda>_. 0) True"
proof -
  note act = moves_frame(2) [OF ok]
  show ?thesis
    using s moves_then [OF act started_moves [OF moves_ok [OF act]]] moves_then [OF act ended_moves [OF moves_ok [OF act]]]
      moves_refl [OF ok]
    by (auto simp: voice_source_changed_def split: if_splits)
qed

text \<open>Changing the source of an input stream exchanges one reference for another.\<close>

lemma change_input_source_moves:
  assumes ok: "adev_ok a" and i: "in_table (adev_cm a) (i_hw inp)"
    and s: "change_input_source_locked E A H me a inp val dv k = Some ((r, ch, inp', a'), k')"
  shows "moves a a' (\<lambda>j. one_at (i_hw inp') j - one_at (i_hw inp) j) True \<and> in_table (adev_cm a') (i_hw inp')"
proof -
  let ?vc = "atoi val = AUDIO_SOURCE_VOICE_RECOGNITION H"
  let ?name = "if ?vc then voice_trigger_audio_stream_name a else None"
  have same: ?thesis if "inp' = inp" "a' = a" using that moves_refl [OF ok] i by simp
  show ?thesis
  proof (cases "\<not> i_standby inp \<or> i_input_source inp = atoi val")
    case True
    then show ?thesis using s same by (auto simp: change_input_source_locked_def Let_def split: if_splits)
  next
    case False
    obtain hw1 cm1 k1 hw2 cm2 k2 where
      g1: "(case ?name of None \<Rightarrow> Some ((None, adev_cm a), k) | Some n \<Rightarrow> get_named_stream E (adev_cm a) n k)
        = Some ((hw1, cm1), k1)"
      and g2: "(if hw1 = None then get_stream E A cm1 dv (i_format inp) k1 else Some ((hw1, cm1), k1))
        = Some ((hw2, cm2), k2)"
      and rest: "(if hw2 = None then Some ((- EINVAL, False, inp, a\<lparr>adev_cm := cm2\<rparr>), k2)
        else do { (cm3, k3) \<leftarrow> release_stream E A cm2 (i_hw inp) k2;
                  (a1, k4) \<leftarrow> voice_source_changed E A me ?vc (a\<lparr>adev_cm := cm3\<rparr>) k3;
                  Some ((0, True, inp\<lparr>i_hw := hw2, i_input_source := atoi val\<rparr>, a1), k4) })
        = Some ((r, ch, inp', a'), k')"
      using s False unfolding change_input_source_locked_def Let_def by (auto elim!: bind_SomeE)
    have 1: "moves a (a\<lparr>adev_cm := cm1\<rparr>) (one_at hw1) True \<and> in_table (adev_cm a) hw1"
      using g1 get_named_stream_moves [OF ok, of E _ k hw1 cm1 k1] moves_refl [OF ok]
      by (auto simp: one_at_None split: option.splits)
    have 2: "moves a (a\<lparr>adev_cm := cm2\<rparr>) (one_at hw2) True \<and> in_table (adev_cm a) hw2"
    proof (cases hw1)
      case None
      then have "get_stream E A (adev_cm (a\<lparr>adev_cm := cm1\<rparr>)) dv (i_format inp) k1 = Some ((hw2, cm2), k2)"
        using g2 by simp
      note m = get_stream_moves [OF moves_ok [OF 1 [THEN conjunct1]] this]
      show ?thesis using moves_trans [OF 1 [THEN conjunct1], of _ "one_at hw2" True] m None
          in_table_moves [OF 1 [THEN conjunct1]] by simp
    next
      case (Some x)
      then show ?thesis using g2 1 by simp
    qed
    note 2 = 2 [THEN conjunct1] 2 [THEN conjunct2]
    show ?thesis
    proof (cases hw2)
      case None
      then show ?thesis using rest 2 i in_table_moves [OF 2(1)] moves_weaken [OF 2(1)]
        by (auto simp: one_at_def)
    next
      case (Some x)
      obtain cm3 k3 where rl: "release_stream E A cm2 (i_hw inp) k2 = Some (cm3, k3)"
        and vs: "voice_source_changed E A me ?vc (a\<lparr>adev_cm := cm3\<rparr>) k3 = Some (a', k')"
        and inp': "inp' = inp\<lparr>i_hw := hw2, i_input_source := atoi val\<rparr>"
        using rest Some by (auto elim!: bind_SomeE)
      have 3: "moves (a\<lparr>adev_cm := cm2\<rparr>) (a\<lparr>adev_cm := cm3\<rparr>) (\<lambda>j. - one_at (i_hw inp) j) True"
        using release_stream_moves [OF moves_ok [OF 2(1)], of "i_hw inp" E A k2 cm3 k3] rl i in_table_moves [OF 2(1)]
        by simp
      note 4 = moves_trans [OF 2(1) 3]
      have 5: "moves a a' (\<lambda>j. one_at hw2 j + - one_at (i_hw inp) j) True"
        using moves_then [OF _ voice_source_changed_moves [OF moves_ok [OF 3] vs]] 4 by simp
      then show ?thesis using inp' 2(2) in_table_moves [OF 5] by simp
    qed
  qed
qed

lemma params_source_moves:
  assumes ok: "adev_ok a" and i: "in_table (adev_cm a) (i_hw inp)"
    and s: "params_source E A H me a inp kv rt k = Some ((r, rt', inp', a'), k')"
  shows "moves a a' (\<lambda>j. one_at (i_hw inp') j - one_at (i_hw inp) j) True \<and> in_table (adev_cm a') (i_hw inp')"
proof (cases "parms_get H kv (AUDIO_PARAMETER_STREAM_INPUT_SOURCE H)")
  case None
  then show ?thesis using s i moves_refl [OF ok] by (simp add: params_source_def)
next
  case (Some val)
  then obtain dv ch where "change_input_source_locked E A H me a inp val dv k = Some ((r, ch, inp', a'), k')"
    using s by (auto simp: params_source_def Let_def elim!: bind_SomeE)
  then show ?thesis by (rule change_input_source_moves [OF ok i])
qed

lemma params_route_moves:
  assumes ok: "adev_ok a" and i: "in_table (adev_cm a) (i_hw inp)"
    and s: "params_route E A (adev_cm a) inp rt k = Some ((inp', cm'), k')"
  shows "moves a (a\<lparr>adev_cm := cm'\<rparr>) (\<lambda>_. 0) True \<and> i_hw inp' = i_hw inp"
proof (cases "rt = None \<or> i_hw inp = None")
  case True
  then have "cm' = adev_cm a \<and> i_hw inp' = i_hw inp" using s by (auto simp: params_route_def split: option.splits)
  then show ?thesis using moves_refl [OF ok] by simp
next
  case False
  then obtain d x where "rt = Some d" "i_hw inp = Some x" by auto
  then show ?thesis
    using s i apply_route_moves [OF ok, of x E A d k cm' k'] by (auto simp: params_route_def elim!: bind_SomeE)
qed

lemma in_pcm_set_parameters_moves:
  assumes ok: "adev_ok a" and i: "in_table (adev_cm a) (i_hw inp)"
    and s: "in_pcm_set_parameters E A H me a inp kv k = Some ((r, inp', a'), k')"
  shows "moves a a' (\<lambda>j. one_at (i_hw inp') j - one_at (i_hw inp) j) True \<and> in_table (adev_cm a') (i_hw inp')"
proof -
  obtain rt k2 ret rt1 in1 a1 k3 where c: "params_source E A H me a inp kv rt k2 = Some ((ret, rt1, in1, a1), k3)"
    and t: "(if ret < 0 then Some ((0, in1, a1), k3)
         else do {
           ((in2, cm2), k4) \<leftarrow> params_route E A (adev_cm a1) in1 rt1 k3;
           ((_, cm3), k5) \<leftarrow> stream_invoke_usecases E cm2 (i_hw in2) kv k4;
           Some ((0, in2, a1\<lparr>adev_cm := cm3\<rparr>), k5)
         }) = Some ((r, inp', a'), k')"
    using s unfolding in_pcm_set_parameters_def by (auto elim!: bind_SomeE split: if_splits prod.splits)
  note 1 = params_source_moves [OF ok i c]
  note ok1 = moves_ok [OF 1 [THEN conjunct1]]
  show ?thesis
  proof (cases "ret < 0")
    case True
    then show ?thesis using t 1 by simp
  next
    case False
    obtain cm2 k4 r3 cm3 where rt: "params_route E A (adev_cm a1) in1 rt1 k3 = Some ((inp', cm2), k4)"
      and u: "stream_invoke_usecases E cm2 (i_hw inp') kv k4 = Some ((r3, cm3), k')"
      and a': "a' = a1\<lparr>adev_cm := cm3\<rparr>"
      using t False by (auto elim!: bind_SomeE)
    note 2 = params_route_moves [OF ok1 1 [THEN conjunct2] rt]
    have "in_table (adev_cm (a1\<lparr>adev_cm := cm2\<rparr>)) (i_hw inp')"
      using 1 2 in_table_moves [OF 2 [THEN conjunct1]] by simp
    from invoke_usecases_moves [OF moves_ok [OF 2 [THEN conjunct1]] this, of E kv k4 r3 cm3 k'] u a'
    have "moves (a1\<lparr>adev_cm := cm2\<rparr>) a' (\<lambda>_. 0) True" by simp
    note 3 = moves_then [OF 2 [THEN conjunct1] this]
    show ?thesis using moves_then [OF 1 [THEN conjunct1] 3] 1 2 in_table_moves [OF 3] by simp
  qed
qed

text \<open>Standby and reading do not touch the configured stream.\<close>

lemma in_pcm_standby_hw:
  "in_pcm_standby P Z R cm inp k = Some ((r, inp'), k') \<Longrightarrow> i_hw inp' = i_hw inp"
  by (auto simp: in_pcm_standby_def do_in_compress_pcm_standby_def do_in_pcm_standby_def in_resampler_free_def Let_def
      elim!: bind_SomeE split: option.splits if_splits ptr.splits in_dev.splits prod.splits)

lemma do_close_in_pcm_moves:
  assumes ok: "adev_ok a" and i: "in_table (adev_cm a) (i_hw inp)"
    and s: "do_close_in_pcm E P Z R A me a inp k = Some (a', k')"
  shows "moves a a' (\<lambda>j. - one_at (i_hw inp) j) True"
proof -
  obtain in1 k1 where c: "(case i_hw inp of
          Some i \<Rightarrow> if stream_is_compressed (hw_of (adev_cm a) i) then do_in_compress_pcm_close Z inp k
                    else Some (inp, k)
        | None \<Rightarrow> Some (inp, k)) = Some (in1, k1)"
    and cc: "do_close_in_common E P Z R A me a in1 k1 = Some (a', k')"
    using s unfolding do_close_in_pcm_def by (auto elim!: bind_SomeE)
  have hw1: "i_hw in1 = i_hw inp"
    using c by (auto simp: do_in_compress_pcm_close_def split: option.splits if_splits ptr.splits in_dev.splits prod.splits)
  obtain r2 in2 k2 a1 k3 cm2 where st: "in_pcm_standby P Z R (adev_cm a) in1 k1 = Some ((r2, in2), k2)"
    and v: "(if active_voice_control a = Some me
        then voice_trigger_audio_ended_locked E A (a\<lparr>active_voice_control := None\<rparr>) k2 else Some (a, k2)) = Some (a1, k3)"
    and rl: "release_stream E A (adev_cm a1) (i_hw in2) k3 = Some (cm2, k')" and a': "a' = a1\<lparr>adev_cm := cm2\<rparr>"
    using cc unfolding do_close_in_common_def by (auto elim!: bind_SomeE)
  have hw2: "i_hw in2 = i_hw inp" using in_pcm_standby_hw [OF st] hw1 by simp
  note act = moves_frame(2) [OF ok, of None]
  have 1: "moves a a1 (\<lambda>_. 0) True"
    using v moves_refl [OF ok] moves_then [OF act ended_moves [OF moves_ok [OF act]]] by (auto split: if_splits)
  have "moves a1 a' (\<lambda>j. - one_at (i_hw inp) j) True"
    using release_stream_moves [OF moves_ok [OF 1], of "i_hw inp" E A k3 cm2 k'] rl a' hw2 i in_table_moves [OF 1] by simp
  then show ?thesis using moves_trans [OF 1] by fastforce
qed

definition out_hw :: "out_stream \<Rightarrow> nat" where
  "out_hw out = (case out of Out_pcm o1 \<Rightarrow> o_hw o1 | Out_compress o1 \<Rightarrow> o_hw o1)"

lemma do_close_out_common_moves:
  assumes "adev_ok a" and "o_hw out < nstreams (adev_cm a)" and "do_close_out_common E A a out k = Some (a', k')"
  shows "moves a a' (\<lambda>j. - one_at (Some (o_hw out)) j) True"
  using assms release_stream_moves [OF assms(1), of "Some (o_hw out)" E A k]
  by (auto simp: do_close_out_common_def elim!: bind_SomeE)

lemma out_pcm_standby_hw: "out_pcm_standby P out k = Some ((r, out'), k') \<Longrightarrow> o_hw out' = o_hw out"
  by (auto simp: out_pcm_standby_def do_out_pcm_standby_def elim!: bind_SomeE split: if_splits ptr.splits prod.splits)

lemma out_compress_standby_hw: "out_compress_standby Z out k = Some ((r, out'), k') \<Longrightarrow> o_hw out' = o_hw out"
  by (auto simp: out_compress_standby_def do_standby_compress_l_def Let_def split: if_splits ptr.splits)

lemma close_output_moves:
  assumes ok: "adev_ok (h_adev h)" and i: "\<forall>out. out_at h j = Some out \<longrightarrow> out_hw out < nstreams (adev_cm (h_adev h))"
    and s: "adev_close_output_stream V h j k = Some (h', k')"
  shows "\<exists>out. out_at h j = Some out \<and> h_outs h' = (h_outs h)[j := None] \<and> h_ins h' = h_ins h
    \<and> moves (h_adev h) (h_adev h') (\<lambda>x. - one_at (Some (out_hw out)) x) True"
proof -
  obtain out a' where o: "out_at h j = Some out" and h': "h' = h\<lparr>h_adev := a', h_outs := (h_outs h)[j := None]\<rparr>"
    and c: "(case out of Out_pcm o1 \<Rightarrow> do_close_out_pcm (he_sys V) (he_pcm V) (he_audio V) (h_adev h) o1 k
       | Out_compress o1 \<Rightarrow> out_compress_close (he_sys V) (he_cmp V) (he_audio V) (h_adev h) o1 k) = Some (a', k')"
    using s unfolding adev_close_output_stream_def by (auto elim!: bind_SomeE)
  have "moves (h_adev h) a' (\<lambda>x. - one_at (Some (out_hw out)) x) True"
  proof (cases out)
    case (Out_pcm o1)
    then obtain r o2 k1 where "out_pcm_standby (he_pcm V) o1 k = Some ((r, o2), k1)"
      "do_close_out_common (he_sys V) (he_audio V) (h_adev h) o2 k1 = Some (a', k')"
      using c by (auto simp: do_close_out_pcm_def elim!: bind_SomeE)
    then show ?thesis
      using do_close_out_common_moves [OF ok, of o2] out_pcm_standby_hw i o Out_pcm
      by (fastforce simp: out_hw_def)
  next
    case (Out_compress o1)
    then obtain r o2 k1 where "out_compress_standby (he_cmp V) (o1\<lparr>oc_paused := False\<rparr>) k = Some ((r, o2), k1)"
      "do_close_out_common (he_sys V) (he_audio V) (h_adev h) o2 k1 = Some (a', k')"
      using c by (auto simp: out_compress_close_def elim!: bind_SomeE)
    then show ?thesis
      using do_close_out_common_moves [OF ok, of o2] out_compress_standby_hw i o Out_compress
      by (fastforce simp: out_hw_def)
  qed
  then show ?thesis using o h' by simp
qed

lemma do_init_out_common_moves:
  assumes "adev_ok a" and "o_hw out < nstreams (adev_cm a)"
    and "do_init_out_common E A H a out cfg dv k = Some ((r, out', a'), k')"
  shows "moves a a' (\<lambda>_. 0) True \<and> o_hw out' = o_hw out"
  using assms apply_route_moves [OF assms(1), of "o_hw out" E A dv k]
  by (auto simp: do_init_out_common_def Let_def elim!: bind_SomeE)

lemma open_output_compress_hw:
  "open_output_compress Z cm out k = Some ((r, out'), k') \<Longrightarrow> o_hw out' = o_hw out"
  by (auto simp: open_output_compress_def Let_def split: if_splits option.splits prod.splits)

lemma do_init_out_compress_hw:
  "do_init_out_compress Z H cm out cfg k = Some ((r, out'), k') \<Longrightarrow> o_hw out' = o_hw out"
  by (auto simp: do_init_out_compress_def Let_def dest!: open_output_compress_hw split: option.splits)

lemma do_init_out_pcm_hw: "do_init_out_pcm cm out = Some (r, out') \<Longrightarrow> o_hw out' = o_hw out"
  by (auto simp: do_init_out_pcm_def Let_def split: if_splits)

lemma open_out_stream_moves:
  assumes "adev_ok a" and "hw < nstreams (adev_cm a)" and "open_out_stream V a hw dv cfg k = Some ((r, out, a'), k')"
  shows "moves a a' (\<lambda>_. 0) True \<and> out_hw out = hw"
proof (cases "st_type (hw_of (adev_cm a) hw) = e_stream_out_pcm")
  case True
  then obtain r1 out1 k1 out2 where "do_init_out_common (he_sys V) (he_audio V) (he_lib V) a (zero_out_pcm hw) cfg dv k
      = Some ((r1, out1, a'), k1)" "do_init_out_pcm (adev_cm a') out1 = Some (r, out2)" "out = Out_pcm out2"
    using assms(3) by (auto simp: open_out_stream_def Let_def elim!: bind_SomeE)
  then show ?thesis
    using do_init_out_common_moves [OF assms(1), of "zero_out_pcm hw"] do_init_out_pcm_hw assms(2)
    by (fastforce simp: out_hw_def zero_out_pcm_def)
next
  case False
  then obtain r1 out1 k1 out2 where "do_init_out_common (he_sys V) (he_audio V) (he_lib V) a (zero_out_compress hw) cfg dv k
      = Some ((r1, out1, a'), k1)" "do_init_out_compress (he_cmp V) (he_lib V) (adev_cm a') out1 cfg k1 = Some ((r, out2), k')"
    "out = Out_compress out2"
    using assms(3) by (auto simp: open_out_stream_def Let_def elim!: bind_SomeE)
  then show ?thesis
    using do_init_out_common_moves [OF assms(1), of "zero_out_compress hw"] do_init_out_compress_hw assms(2)
    by (fastforce simp: out_hw_def zero_out_compress_def)
qed

text \<open>A request for an output stream that fails after the manager gave one out forgets it.\<close>

definition open_forgets :: "'k hal_env \<Rightarrow> hal \<Rightarrow> u32 \<Rightarrow> audio_config \<Rightarrow> 'k \<Rightarrow> bool" where
  "open_forgets V h dv cfg k \<longleftrightarrow>
     (case (get_stream (he_sys V) (he_audio V) (adev_cm (h_adev h)) (dv AND AUDIO_DEVICE_OUT_ALL (he_audio V)) (ac_format cfg) k,
            adev_open_output_stream V h dv cfg k) of
        (Some ((Some _, _), _), Some ((r, _), _)) \<Rightarrow> r < 0 | _ \<Rightarrow> False)"

lemma open_output_moves:
  assumes ok: "adev_ok (h_adev h)" and s: "adev_open_output_stream V h dv cfg k = Some ((r, h'), k')"
  shows "h_ins h' = h_ins h \<and>
    ((\<exists>out. out_hw out < nstreams (adev_cm (h_adev h)) \<and> h_outs h' = h_outs h @ [Some out]
        \<and> moves (h_adev h) (h_adev h') (one_at (Some (out_hw out))) True)
     \<or> h_outs h' = h_outs h \<and> moves (h_adev h) (h_adev h') (\<lambda>_. 0) (\<not> open_forgets V h dv cfg k))"
proof -
  let ?E = "he_sys V" and ?A = "he_audio V" and ?a = "h_adev h"
  let ?dv = "dv AND AUDIO_DEVICE_OUT_ALL ?A"
  obtain hw cm1 k1 where g: "get_stream ?E ?A (adev_cm ?a) ?dv (ac_format cfg) k = Some ((hw, cm1), k1)"
    using s by (auto simp: adev_open_output_stream_def Let_def elim!: bind_SomeE)
  note 1 = get_stream_moves [OF ok g]
  let ?a1 = "?a\<lparr>adev_cm := cm1\<rparr>"
  show ?thesis
  proof (cases hw)
    case None
    have "moves ?a ?a1 (\<lambda>_. 0) (\<not> open_forgets V h dv cfg k)"
      using 1 None by (auto simp: one_at_None intro: moves_weaken)
    then show ?thesis using s g None by (auto simp: adev_open_output_stream_def Let_def)
  next
    case (Some i)
    obtain al k2 where al: "sys_alloc ?E k1 = (al, k2)" by (cases "sys_alloc ?E k1")
    have fails: "moves ?a a2 (\<lambda>_. 0) (\<not> open_forgets V h dv cfg k)"
      if "moves ?a a2 (one_at (Some i)) True" "r < 0" for a2
      by (rule moves_weaken [OF that(1)]) (use s g Some that(2) in \<open>auto simp: open_forgets_def\<close>)
    show ?thesis
    proof (cases al)
      case False
      then show ?thesis using s g Some al 1 fails [of ?a1] by (auto simp: adev_open_output_stream_def Let_def)
    next
      case True
      obtain ret out a2 k3 where op: "open_out_stream V ?a1 i ?dv cfg k2 = Some ((ret, out, a2), k3)"
        and res: "(if ret < 0 then ((ret, h\<lparr>h_adev := a2\<rparr>), k3)
           else ((0, h\<lparr>h_adev := a2, h_outs := h_outs h @ [Some out]\<rparr>), k3)) = ((r, h'), k')"
        using s g Some al True by (auto simp: adev_open_output_stream_def Let_def elim!: bind_SomeE)
      have i: "i < nstreams (adev_cm ?a)" "i < nstreams (adev_cm ?a1)"
        using 1 Some moves_nstreams [OF 1 [THEN conjunct1]] by simp_all
      note 2 = open_out_stream_moves [OF moves_ok [OF 1 [THEN conjunct1]] i(2) op]
      have 3: "moves ?a a2 (one_at (Some i)) True"
        using moves_then [OF 1 [THEN conjunct1] 2 [THEN conjunct1]] Some by simp
      show ?thesis
        using res 3 fails [OF 3] 2 i(1) by (cases "ret < 0") auto
    qed
  qed
qed

section \<open>The ledger of the HAL\<close>

definition out_holds :: "nat \<Rightarrow> out_stream option \<Rightarrow> int" where
  "out_holds i x = (case x of None \<Rightarrow> 0 | Some out \<Rightarrow> one_at (Some (out_hw out)) i)"

definition in_holds :: "nat \<Rightarrow> stream_in_pcm option \<Rightarrow> int" where
  "in_holds i x = (case x of None \<Rightarrow> 0 | Some inp \<Rightarrow> one_at (i_hw inp) i)"

text \<open>The references that the voice trigger and the open streams hold on a configured stream.\<close>

definition hal_held :: "hal \<Rightarrow> nat \<Rightarrow> int" where
  "hal_held h i = voice_held (h_adev h) i + sum_list (map (out_holds i) (h_outs h)) + sum_list (map (in_holds i) (h_ins h))"

definition hal_ok :: "hal \<Rightarrow> bool" where
  "hal_ok h \<longleftrightarrow> adev_ok (h_adev h)
     \<and> (\<forall>out. Some out \<in> set (h_outs h) \<longrightarrow> out_hw out < nstreams (adev_cm (h_adev h)))
     \<and> (\<forall>inp. Some inp \<in> set (h_ins h) \<longrightarrow> in_table (adev_cm (h_adev h)) (i_hw inp))"

text \<open>Calls after which a reference may be held by nobody.\<close>

definition forgetful :: "'k hal_env \<Rightarrow> hal \<times> 'k \<Rightarrow> hal_call \<Rightarrow> bool" where
  "forgetful V = (\<lambda>(h, k) e.
     case e of
       Set_parameters _ \<Rightarrow> voice_st (h_adev h) = eVoiceTriggerFired
     | Open_output dv cfg \<Rightarrow> open_forgets V h dv cfg k
     | _ \<Rightarrow> False)"

text \<open>The books of a call.\<close>

definition hal_books :: "hal \<Rightarrow> hal \<Rightarrow> bool \<Rightarrow> bool" where
  "hal_books h h' exact \<longleftrightarrow> hal_ok h' \<and> nstreams (adev_cm (h_adev h')) = nstreams (adev_cm (h_adev h))
     \<and> same_hw (adev_cm (h_adev h)) (adev_cm (h_adev h'))
     \<and> (\<forall>i < nstreams (adev_cm (h_adev h)).
          refs (adev_cm (h_adev h)) i - hal_held h i \<le> refs (adev_cm (h_adev h')) i - hal_held h' i
          \<and> (exact \<longrightarrow> refs (adev_cm (h_adev h')) i - hal_held h' i = refs (adev_cm (h_adev h)) i - hal_held h i))"

text \<open>
  A call that moves \<open>g\<close> references of the manager and changes what the streams hold by the same
  amount keeps the books.
\<close>

lemma hal_booksI:
  assumes "hal_ok h" and "moves (h_adev h) (h_adev h') g exact"
    and "\<And>i. sum_list (map (out_holds i) (h_outs h')) + sum_list (map (in_holds i) (h_ins h'))
       = sum_list (map (out_holds i) (h_outs h)) + sum_list (map (in_holds i) (h_ins h)) + g i"
    and "\<And>out. Some out \<in> set (h_outs h') \<Longrightarrow> out_hw out < nstreams (adev_cm (h_adev h))"
    and "\<And>inp. Some inp \<in> set (h_ins h') \<Longrightarrow> in_table (adev_cm (h_adev h)) (i_hw inp)"
  shows "hal_books h h' exact"
proof -
  have "hal_held h' i = voice_held (h_adev h') i - voice_held (h_adev h) i + hal_held h i + g i" for i
    using assms(3) [of i] by (simp add: hal_held_def)
  moreover have "hal_ok h'"
    using assms(4,5) moves_ok [OF assms(2)] moves_nstreams [OF assms(2)] in_table_moves [OF assms(2)]
    by (auto simp: hal_ok_def)
  ultimately show ?thesis
    using moves_refs [OF assms(2)] moves_nstreams [OF assms(2)] moves_same_hw [OF assms(2)] by (fastforce simp: hal_books_def)
qed

lemma sum_list_put:
  fixes f :: "'a \<Rightarrow> int"
  assumes "j < length xs"
  shows "sum_list (map f (xs[j := x])) = sum_list (map f xs) + f x - f (xs ! j)"
  using assms by (induction xs arbitrary: j) (auto split: nat.split)

lemma out_at_Some: "out_at h j = Some out \<longleftrightarrow> j < length (h_outs h) \<and> h_outs h ! j = Some out"
  by (simp add: out_at_def)

lemma in_at_Some: "in_at h j = Some inp \<longleftrightarrow> j < length (h_ins h) \<and> h_ins h ! j = Some inp"
  by (simp add: in_at_def)

lemma hal_ok_out: "hal_ok h \<Longrightarrow> out_at h j = Some out \<Longrightarrow> out_hw out < nstreams (adev_cm (h_adev h))"
  by (auto simp: hal_ok_def out_at_Some dest!: nth_mem)

lemma hal_ok_in: "hal_ok h \<Longrightarrow> in_at h j = Some inp \<Longrightarrow> in_table (adev_cm (h_adev h)) (i_hw inp)"
  by (auto simp: hal_ok_def in_at_Some dest!: nth_mem)

lemma hal_ok_adev: "hal_ok h \<Longrightarrow> adev_ok (h_adev h)"
  by (simp add: hal_ok_def)

text \<open>Calls that change the device only.\<close>

lemma hal_books_adev:
  "hal_ok h \<Longrightarrow> moves (h_adev h) a' (\<lambda>_. 0) e \<Longrightarrow> hal_books h (h\<lparr>h_adev := a'\<rparr>) e"
  by (rule hal_booksI) (auto simp: hal_ok_def)

text \<open>Calls that change an output stream but not what it refers to.\<close>

lemma hal_books_put_out:
  assumes "hal_ok h" and "out_at h j = Some out" and "out_hw out' = out_hw out"
    and "moves (h_adev h) a' (\<lambda>_. 0) e"
  shows "hal_books h (put_out (h\<lparr>h_adev := a'\<rparr>) j out') e"
proof (rule hal_booksI [OF assms(1), where g = "\<lambda>_. 0"])
  show "moves (h_adev h) (h_adev (put_out (h\<lparr>h_adev := a'\<rparr>) j out')) (\<lambda>_. 0) e"
    using assms(4) by (simp add: put_out_def)
  show "sum_list (map (out_holds i) (h_outs (put_out (h\<lparr>h_adev := a'\<rparr>) j out')))
      + sum_list (map (in_holds i) (h_ins (put_out (h\<lparr>h_adev := a'\<rparr>) j out')))
      = sum_list (map (out_holds i) (h_outs h)) + sum_list (map (in_holds i) (h_ins h)) + 0" for i
    using assms(2,3) by (simp add: put_out_def out_at_Some sum_list_put out_holds_def)
  show "out_hw x < nstreams (adev_cm (h_adev h))" if "Some x \<in> set (h_outs (put_out (h\<lparr>h_adev := a'\<rparr>) j out'))" for x
    using that assms(1,3) hal_ok_out [OF assms(1,2)] set_update_subset_insert [of "h_outs h" j "Some out'"]
    by (auto simp: put_out_def hal_ok_def)
  show "in_table (adev_cm (h_adev h)) (i_hw x)" if "Some x \<in> set (h_ins (put_out (h\<lparr>h_adev := a'\<rparr>) j out'))" for x
    using that assms(1) by (auto simp: put_out_def hal_ok_def)
qed

text \<open>Calls that change an input stream and the reference it holds.\<close>

lemma hal_books_put_in:
  assumes "hal_ok h" and "in_at h j = Some inp" and "in_table (adev_cm (h_adev h)) (i_hw inp')"
    and "moves (h_adev h) a' (\<lambda>i. one_at (i_hw inp') i - one_at (i_hw inp) i) e"
  shows "hal_books h (put_in (h\<lparr>h_adev := a'\<rparr>) j inp') e"
proof (rule hal_booksI [OF assms(1), where g = "\<lambda>i. one_at (i_hw inp') i - one_at (i_hw inp) i"])
  show "moves (h_adev h) (h_adev (put_in (h\<lparr>h_adev := a'\<rparr>) j inp')) (\<lambda>i. one_at (i_hw inp') i - one_at (i_hw inp) i) e"
    using assms(4) by (simp add: put_in_def)
  show "sum_list (map (out_holds i) (h_outs (put_in (h\<lparr>h_adev := a'\<rparr>) j inp')))
      + sum_list (map (in_holds i) (h_ins (put_in (h\<lparr>h_adev := a'\<rparr>) j inp')))
      = sum_list (map (out_holds i) (h_outs h)) + sum_list (map (in_holds i) (h_ins h))
        + (one_at (i_hw inp') i - one_at (i_hw inp) i)" for i
    using assms(2) by (simp add: put_in_def in_at_Some sum_list_put in_holds_def)
  show "in_table (adev_cm (h_adev h)) (i_hw x)" if "Some x \<in> set (h_ins (put_in (h\<lparr>h_adev := a'\<rparr>) j inp'))" for x
    using that assms(1,3) set_update_subset_insert [of "h_ins h" j "Some inp'"]
    by (auto simp: put_in_def hal_ok_def)
  show "out_hw x < nstreams (adev_cm (h_adev h))" if "Some x \<in> set (h_outs (put_in (h\<lparr>h_adev := a'\<rparr>) j inp'))" for x
    using that assms(1) by (auto simp: put_in_def hal_ok_def)
qed

subsection \<open>Closing and opening\<close>

lemma close_output_books:
  assumes "hal_ok h" and "adev_close_output_stream V h j k = Some (h', k')"
  shows "hal_books h h' True"
proof -
  obtain out where o: "out_at h j = Some out" "h_outs h' = (h_outs h)[j := None]" "h_ins h' = h_ins h"
    "moves (h_adev h) (h_adev h') (\<lambda>x. - one_at (Some (out_hw out)) x) True"
    using close_output_moves [OF hal_ok_adev [OF assms(1)] _ assms(2)] hal_ok_out [OF assms(1), of j] by blast
  show ?thesis
  proof (rule hal_booksI [OF assms(1) o(4)])
    show "out_hw x < nstreams (adev_cm (h_adev h))" if "Some x \<in> set (h_outs h')" for x
      using that assms(1) o(2) set_update_subset_insert [of "h_outs h" j None] by (auto simp: hal_ok_def)
    show "in_table (adev_cm (h_adev h)) (i_hw x)" if "Some x \<in> set (h_ins h')" for x
      using that assms(1) o(3) by (simp add: hal_ok_def)
  qed (use o(1-3) in \<open>simp add: out_at_Some sum_list_put out_holds_def\<close>)
qed

lemma close_input_books:
  assumes "hal_ok h" and "adev_close_input_stream V h j k = Some (h', k')"
  shows "hal_books h h' True"
proof -
  obtain inp a' where o: "in_at h j = Some inp" and h': "h' = h\<lparr>h_adev := a', h_ins := (h_ins h)[j := None]\<rparr>"
    and c: "do_close_in_pcm (he_sys V) (he_pcm V) (he_cmp V) (he_rs V) (he_audio V) j (h_adev h) inp k = Some (a', k')"
    using assms(2) by (auto simp: adev_close_input_stream_def elim!: bind_SomeE)
  have m: "moves (h_adev h) (h_adev h') (\<lambda>x. - one_at (i_hw inp) x) True"
    using do_close_in_pcm_moves [OF hal_ok_adev [OF assms(1)] hal_ok_in [OF assms(1) o] c] h' by simp
  show ?thesis
  proof (rule hal_booksI [OF assms(1) m])
    show "in_table (adev_cm (h_adev h)) (i_hw x)" if "Some x \<in> set (h_ins h')" for x
      using that assms(1) h' set_update_subset_insert [of "h_ins h" j None] by (auto simp: hal_ok_def)
    show "out_hw x < nstreams (adev_cm (h_adev h))" if "Some x \<in> set (h_outs h')" for x
      using that assms(1) h' by (simp add: hal_ok_def)
  qed (use o h' in \<open>simp add: in_at_Some sum_list_put in_holds_def\<close>)
qed

lemma open_output_books:
  assumes "hal_ok h" and "adev_open_output_stream V h dv cfg k = Some ((r, h'), k')"
  shows "hal_books h h' (\<not> open_forgets V h dv cfg k)"
proof -
  note om = open_output_moves [OF hal_ok_adev [OF assms(1)] assms(2)]
  then have ins: "h_ins h' = h_ins h" by simp
  from om consider out where "out_hw out < nstreams (adev_cm (h_adev h))" "h_outs h' = h_outs h @ [Some out]"
      "moves (h_adev h) (h_adev h') (one_at (Some (out_hw out))) True"
    | "h_outs h' = h_outs h" "moves (h_adev h) (h_adev h') (\<lambda>_. 0) (\<not> open_forgets V h dv cfg k)"
    by blast
  then show ?thesis
  proof cases
    case 1
    have "hal_books h h' True"
      by (rule hal_booksI [OF assms(1) 1(3)]) (use 1 ins assms(1) in \<open>auto simp: out_holds_def hal_ok_def\<close>)
    then show ?thesis by (simp add: hal_books_def)
  next
    case 2
    show ?thesis
      by (rule hal_booksI [OF assms(1) 2(2)]) (use 2 ins assms(1) in \<open>auto simp: hal_ok_def\<close>)
  qed
qed

lemma open_input_books:
  assumes "hal_ok h" and "adev_open_input_stream V h dv cfg k = ((r, h'), k')"
  shows "hal_books h h' True"
proof -
  have hw: "i_hw (snd (do_init_in_pcm (snd (do_init_in_common (he_lib V) zero_in cfg d)))) = None" for d
    by (simp add: do_init_in_pcm_def do_init_in_common_def zero_in_def Let_def)
  have h': "h_adev h' = h_adev h" "h_outs h' = h_outs h"
    "h_ins h' = h_ins h \<or> (\<exists>inp. i_hw inp = None \<and> h_ins h' = h_ins h @ [Some inp])"
    using assms(2) hw by (auto simp: adev_open_input_stream_def Let_def split: prod.splits if_splits)
  show ?thesis
    by (rule hal_booksI [OF assms(1), where g = "\<lambda>_. 0"])
      (use h' assms(1) moves_refl [OF hal_ok_adev [OF assms(1)]] in \<open>auto simp: hal_ok_def in_holds_def\<close>)
qed

subsection \<open>Streams keep what they refer to\<close>

lemma start_output_pcm_hw: "start_output_pcm P cm out k = Some ((r, out'), k') \<Longrightarrow> o_hw out' = o_hw out"
  by (auto simp: start_output_pcm_def out_pcm_fill_params_def Let_def elim!: bind_SomeE
      split: pcm_handle.splits if_splits prod.splits)

lemma out_pcm_write_hw: "out_pcm_write P fuel cm out buf n k = Some ((r, out'), k') \<Longrightarrow> o_hw out' = o_hw out"
  by (auto simp: out_pcm_write_def write_ptr_def elim!: bind_SomeE dest!: start_output_pcm_hw
      split: if_splits ptr.splits pcm_handle.splits)

lemma start_output_compress_hw: "start_output_compress Z out k = Some ((r, out'), k') \<Longrightarrow> o_hw out' = o_hw out"
  by (auto simp: start_output_compress_def do_standby_compress_l_def Let_def elim!: bind_SomeE
      split: ptr.splits prod.splits if_splits)

lemma signal_hw: "o_hw (snd (signal_async_thread out m)) = o_hw out"
  by (simp add: signal_async_thread_def)

lemma out_compress_write_hw: "out_compress_write Z cm out buf n k = Some ((r, out'), k') \<Longrightarrow> o_hw out' = o_hw out"
  by (auto simp: out_compress_write_def signal_hw elim!: bind_SomeE
      dest!: open_output_compress_hw start_output_compress_hw split: if_splits ptr.splits prod.splits)

lemma out_compress_ctl_hw:
  "out_compress_pause Z out k = Some ((r, out'), k') \<Longrightarrow> o_hw out' = o_hw out"
  "out_compress_resume Z out k = Some ((r, out'), k') \<Longrightarrow> o_hw out' = o_hw out"
  "out_compress_flush Z out k = Some ((r, out'), k') \<Longrightarrow> o_hw out' = o_hw out"
  "out_compress_drain Z out early k = Some ((r, out'), k') \<Longrightarrow> o_hw out' = o_hw out"
  "o_hw (snd (out_compress_set_callback rvs out)) = o_hw out"
  by (auto simp: out_compress_pause_def out_compress_resume_def out_compress_flush_def out_compress_drain_def
      signal_async_thread_def out_compress_set_callback_def out_set_callback_def Let_def
      split: if_splits ptr.splits prod.splits)

lemma on_out_books:
  assumes ok: "hal_ok h" and s: "on_out h j f g k = Some (h', k')"
    and f: "\<And>out out' k'. f out k = Some (out', k') \<Longrightarrow> o_hw out' = o_hw out"
    and g: "\<And>out out' k'. g out k = Some (out', k') \<Longrightarrow> o_hw out' = o_hw out"
  shows "hal_books h h' True"
proof -
  obtain out out' where o: "out_at h j = Some out" "out_hw out' = out_hw out" and h': "h' = put_out h j out'"
  proof (cases "out_at h j")
    case None
    then show ?thesis using s by (simp add: on_out_def)
  next
    case (Some out)
    show ?thesis
    proof (cases out)
      case (Out_pcm x)
      then obtain x' where "f x k = Some (x', k')" "h' = put_out h j (Out_pcm x')"
        using s Some by (auto simp: on_out_def)
      then show ?thesis using that [of out "Out_pcm x'"] f Some Out_pcm by (simp add: out_hw_def)
    next
      case (Out_compress x)
      then obtain x' where "g x k = Some (x', k')" "h' = put_out h j (Out_compress x')"
        using s Some by (auto simp: on_out_def)
      then show ?thesis using that [of out "Out_compress x'"] g Some Out_compress by (simp add: out_hw_def)
    qed
  qed
  from hal_books_put_out [OF ok o moves_refl [OF hal_ok_adev [OF ok]]] show ?thesis using h' by simp
qed

text \<open>
  The resampler library touches the stream only through the two functions it is given: what they
  keep of it, the library keeps.
\<close>

definition resample_law :: "'k resample_fn \<Rightarrow> bool" where
  "resample_law RS \<longleftrightarrow> (\<forall>get rel n inp k r inp' k' I.
     (\<forall>n inp k r inp' k'. I inp \<longrightarrow> get n (inp, k) = Some (r, (inp', k')) \<longrightarrow> I inp') \<longrightarrow>
     (\<forall>n inp. I inp \<longrightarrow> I (rel n inp)) \<longrightarrow> I inp \<longrightarrow> RS get rel n (inp, k) = Some (r, (inp', k')) \<longrightarrow> I inp')"

lemma get_next_buffer_hw: "get_next_buffer P fuel n (inp, k) = Some (r, (inp', k')) \<Longrightarrow> i_hw inp' = i_hw inp"
  by (auto simp: get_next_buffer_def Let_def elim!: bind_SomeE split: ptr.splits in_dev.splits if_splits)

lemma resample_hw:
  assumes "resample_law RS" and "RS (get_next_buffer P fuel) release_buffer n (inp, k) = Some (r, (inp', k'))"
  shows "i_hw inp' = i_hw inp"
proof -
  have "\<forall>n inp1 k r inp2 k'. i_hw inp1 = i_hw inp \<longrightarrow> get_next_buffer P fuel n (inp1, k) = Some (r, (inp2, k'))
      \<longrightarrow> i_hw inp2 = i_hw inp"
    using get_next_buffer_hw by metis
  moreover have "\<forall>n inp1. i_hw inp1 = i_hw inp \<longrightarrow> i_hw (release_buffer n inp1) = i_hw inp"
    by (simp add: release_buffer_def Let_def)
  ultimately show ?thesis
    using assms(1) [unfolded resample_law_def, rule_format, of "\<lambda>x. i_hw x = i_hw inp" "get_next_buffer P fuel"
        release_buffer inp n k r inp' k'] assms(2) by blast
qed

text \<open>The loop of \<^verbatim>\<open>read_resampled_frames\<close>.\<close>

interpretation resample_loop: loop_contract "resample_step RS P fuel frames"
  "\<lambda>s. resample_law RS \<and> i_hw (fst (snd s)) = hw" "\<lambda>s. i_hw (fst (snd s)) = hw" for RS P fuel frames hw
  by unfold_locales
    (auto simp: resample_step_def Let_def elim!: bind_SomeE split: if_splits prod.splits dest: resample_hw)

lemma read_resampled_hw:
  "resample_law RS \<Longrightarrow> read_resampled_frames RS P fuel inp n k = Some (r, (inp', k')) \<Longrightarrow> i_hw inp' = i_hw inp"
  using resample_loop.run_post [where hw = "i_hw inp" and RS = RS and P = P and s = "((0, []), (inp, k))"]
  by (fastforce simp: read_resampled_frames_def)

lemma in_resampler_init_hw:
  "in_resampler_init E R inp hr c f k = Some ((r, inp'), k') \<Longrightarrow> i_hw inp' = i_hw inp"
  by (auto simp: in_resampler_init_def Let_def split: if_splits prod.splits)

lemma do_open_pcm_input_hw: "do_open_pcm_input E P R cm inp k = Some ((r, inp'), k') \<Longrightarrow> i_hw inp' = i_hw inp"
  by (auto simp: do_open_pcm_input_def open_input_fail_def in_pcm_fill_params_def Let_def elim!: bind_SomeE
      dest!: in_resampler_init_hw split: option.splits pcm_handle.splits if_splits prod.splits)

lemma start_pcm_input_stream_hw:
  "start_pcm_input_stream E P R cm inp k = Some ((r, inp'), k') \<Longrightarrow> i_hw inp' = i_hw inp"
  by (auto simp: start_pcm_input_stream_def elim!: bind_SomeE dest!: do_open_pcm_input_hw split: if_splits)

lemma do_in_pcm_read_hw:
  assumes "resample_law RS" and "do_in_pcm_read E P R RS fuel cm inp n k = Some (r, (inp', k'))"
  shows "i_hw inp' = i_hw inp"
proof -
  obtain ret in1 k1 where s: "start_pcm_input_stream E P R cm inp k = Some ((ret, in1), k1)"
    and c: "in1 = inp' \<or> (\<exists>x bs h h'. read_handle P fuel h n k1 = Some (((x, bs), h'), k') \<and> inp' = in1\<lparr>i_dev := Live (In_pcm h')\<rparr>)
      \<or> (\<exists>x m. read_resampled_frames RS P fuel in1 m k1 = Some (x, (inp', k')))"
    using assms(2)
    by (auto simp: do_in_pcm_read_def elim!: bind_SomeE split: if_splits ptr.splits in_dev.splits) blast+
  show ?thesis
    using c start_pcm_input_stream_hw [OF s] read_resampled_hw [OF assms(1)] by auto
qed

lemma start_compress_hw:
  "start_compress_pcm_input_stream Z cm inp k = Some ((r, inp'), k') \<Longrightarrow> i_hw inp' = i_hw inp"
  by (auto simp: start_compress_pcm_input_stream_def do_open_compress_pcm_in_def Let_def elim!: bind_SomeE
      split: if_splits option.splits prod.splits ptr.splits in_dev.splits)

lemma do_in_compress_pcm_read_hw:
  "do_in_compress_pcm_read Z R cm inp n k = Some (r, (inp', k')) \<Longrightarrow> i_hw inp' = i_hw inp"
  by (auto simp: do_in_compress_pcm_read_def elim!: bind_SomeE dest!: start_compress_hw
      split: if_splits ptr.splits in_dev.splits prod.splits)

lemma timestamp_hw: "i_hw (fst (do_in_set_read_timestamp R inp k)) = i_hw inp"
  by (simp add: do_in_set_read_timestamp_def split: prod.split)

lemma in_pcm_read_hw:
  assumes "resample_law RS" and "in_pcm_read E P Z R RS fuel a inp n k = Some (r, (inp', k'))"
  shows "i_hw inp' = i_hw inp"
proof -
  obtain ret bs in1 k1 where c: "(case i_hw inp of
          None \<Rightarrow> Some ((- EINVAL, []), (inp, k))
        | Some i \<Rightarrow>
            if get_current_routes (adev_cm a) i = 0 then Some ((- EINVAL, []), (inp, k))
            else if stream_is_compressed_in (hw_of (adev_cm a) i)
            then do_in_compress_pcm_read Z R (adev_cm a) inp n k
            else do_in_pcm_read E P R RS fuel (adev_cm a) inp n k) = Some ((ret, bs), (in1, k1))"
    and "\<exists>k2 k3. do_in_set_read_timestamp R in1 k2 = (inp', k3)"
    using assms(2) by (auto simp: in_pcm_read_def elim!: bind_SomeE split: prod.splits) blast
  then have "i_hw inp' = i_hw in1" using timestamp_hw by (metis fst_conv)
  moreover have "i_hw in1 = i_hw inp"
    using c by (cases "i_hw inp") (auto dest: do_in_pcm_read_hw [OF assms(1)] do_in_compress_pcm_read_hw split: if_splits)
  ultimately show ?thesis by simp
qed

section \<open>Every call keeps the books\<close>

lemma hal_books_in_same:
  assumes "hal_ok h" and "in_at h j = Some inp" and "i_hw inp' = i_hw inp"
  shows "hal_books h (put_in h j inp') True"
  using hal_books_put_in [OF assms(1,2), of inp' "h_adev h" True] moves_refl [OF hal_ok_adev [OF assms(1)]]
    hal_ok_in [OF assms(1,2)] assms(3)
  by simp

lemma hal_books_exact: "hal_books h h' True \<Longrightarrow> hal_books h h' e"
  by (simp add: hal_books_def)

lemma out_params_books:
  assumes ok: "hal_ok h" and s: "hal_step V fuel (Out_params j kv) (h, k) = Some (h', k')"
  shows "hal_books h h' True"
proof -
  obtain out where o: "out_at h j = Some out" using s by (auto split: option.splits)
  note i = hal_ok_out [OF ok o]
  show ?thesis
  proof (cases out)
    case (Out_pcm x)
    then obtain r a' where "out_set_parameters (he_sys V) (he_audio V) (he_lib V) (h_adev h) x kv k = Some ((r, a'), k')"
      "h' = h\<lparr>h_adev := a'\<rparr>"
      using s o by auto
    then show ?thesis
      using hal_books_adev [OF ok] out_set_parameters_moves [OF hal_ok_adev [OF ok], of x] i Out_pcm
      by (fastforce simp: out_hw_def)
  next
    case (Out_compress x)
    then obtain r x' a' where c: "out_compress_set_parameters (he_sys V) (he_audio V) (he_lib V) (he_delay V)
        (he_padding V) (h_adev h) x kv k = Some ((r, x', a'), k')" "h' = put_out (h\<lparr>h_adev := a'\<rparr>) j (Out_compress x')"
      using s o by auto
    then obtain r1 k1 where "out_set_parameters (he_sys V) (he_audio V) (he_lib V) (h_adev h) x' kv k1 = Some ((r1, a'), k')"
      and hw: "o_hw x' = o_hw x"
      by (auto simp: out_compress_set_parameters_def Let_def elim!: bind_SomeE split: if_splits prod.splits)
    then have "moves (h_adev h) a' (\<lambda>_. 0) True"
      using out_set_parameters_moves [OF hal_ok_adev [OF ok], of x'] i Out_compress by (simp add: out_hw_def)
    from hal_books_put_out [OF ok o _ this] show ?thesis using c(2) hw Out_compress by (simp add: out_hw_def)
  qed
qed

lemma hal_step_books:
  assumes ok: "hal_ok h" and law: "resample_law (he_resample V)" and s: "hal_step V fuel e (h, k) = Some (h', k')"
  shows "hal_books h h' (\<not> forgetful V (h, k) e)"
proof (cases e)
  case (Open_output dv cfg)
  then show ?thesis using s open_output_books [OF ok] by (auto simp: forgetful_def)
next
  case (Close_output j)
  then show ?thesis using s close_output_books [OF ok, of V j k h' k'] by (simp add: hal_books_exact)
next
  case (Out_write j buf n)
  then have "hal_books h h' True" using s
    by (auto intro!: on_out_books [OF ok] dest: out_pcm_write_hw out_compress_write_hw)
  then show ?thesis by (rule hal_books_exact)
next
  case (Out_standby j)
  then have "hal_books h h' True" using s
    by (auto intro!: on_out_books [OF ok] dest: out_pcm_standby_hw out_compress_standby_hw)
  then show ?thesis by (rule hal_books_exact)
next
  case (Out_params j kv)
  then show ?thesis using s out_params_books [OF ok, of V fuel j kv k h' k'] by (simp add: hal_books_exact)
next
  case (Out_volume j l r)
  then have "h' = h" using s by (auto split: option.splits out_stream.splits)
  then show ?thesis using hal_books_adev [OF ok moves_refl [OF hal_ok_adev [OF ok]]] by (simp add: hal_books_exact)
next
  case (Out_pause j)
  then have "hal_books h h' True" using s
    by (auto intro!: on_out_books [OF ok] simp: missing_fn_def dest: out_compress_ctl_hw(1-4))
  then show ?thesis by (rule hal_books_exact)
next
  case (Out_resume j)
  then have "hal_books h h' True" using s
    by (auto intro!: on_out_books [OF ok] simp: missing_fn_def dest: out_compress_ctl_hw(1-4))
  then show ?thesis by (rule hal_books_exact)
next
  case (Out_drain j early)
  then have "hal_books h h' True" using s
    by (auto intro!: on_out_books [OF ok] simp: missing_fn_def dest: out_compress_ctl_hw(1-4))
  then show ?thesis by (rule hal_books_exact)
next
  case (Out_flush j)
  then have "hal_books h h' True" using s
    by (auto intro!: on_out_books [OF ok] simp: missing_fn_def dest: out_compress_ctl_hw(1-4))
  then show ?thesis by (rule hal_books_exact)
next
  case (Out_callback j rvs)
  then have "hal_books h h' True" using s
    by (auto intro!: on_out_books [OF ok] simp: missing_fn_def out_compress_ctl_hw(5))
  then show ?thesis by (rule hal_books_exact)
next
  case (Open_input dv cfg)
  then show ?thesis
    using s open_input_books [OF ok, of V dv cfg k _ h' k'] by (auto intro: hal_books_exact split: prod.splits)
next
  case (Close_input j)
  then show ?thesis using s close_input_books [OF ok, of V j k h' k'] by (simp add: hal_books_exact)
next
  case (In_read j n)
  then obtain inp r inp' where i: "in_at h j = Some inp" and h': "h' = put_in h j inp'"
    and c: "in_pcm_read (he_sys V) (he_pcm V) (he_cmp V) (he_rs V) (he_resample V) fuel (h_adev h) inp n k = Some (r, (inp', k'))"
    using s by (auto split: option.splits)
  show ?thesis unfolding h' by (rule hal_books_exact [OF hal_books_in_same [OF ok i in_pcm_read_hw [OF law c]]])
next
  case (In_standby j)
  then obtain inp r inp' where i: "in_at h j = Some inp" and h': "h' = put_in h j inp'"
    and c: "in_pcm_standby (he_pcm V) (he_cmp V) (he_rs V) (adev_cm (h_adev h)) inp k = Some ((r, inp'), k')"
    using s by (auto split: option.splits)
  show ?thesis unfolding h' by (rule hal_books_exact [OF hal_books_in_same [OF ok i in_pcm_standby_hw [OF c]]])
next
  case (In_params j kv)
  then obtain inp r inp' a' where i: "in_at h j = Some inp" and h': "h' = put_in (h\<lparr>h_adev := a'\<rparr>) j inp'"
    and c: "in_pcm_set_parameters (he_sys V) (he_audio V) (he_lib V) j (h_adev h) inp kv k = Some ((r, inp', a'), k')"
    using s by (auto split: option.splits)
  note m = in_pcm_set_parameters_moves [OF hal_ok_adev [OF ok] hal_ok_in [OF ok i] c]
  show ?thesis
    using hal_books_put_in [OF ok i _ m [THEN conjunct1]] m in_table_moves [OF m [THEN conjunct1]] h'
    by (simp add: hal_books_exact)
next
  case (Set_parameters kv)
  then obtain r a' where "adev_set_parameters (he_sys V) (he_audio V) (he_lib V) (h_adev h) kv k = Some ((r, a'), k')"
    "h' = h\<lparr>h_adev := a'\<rparr>"
    using s by auto
  then show ?thesis
    using hal_books_adev [OF ok adev_set_parameters_moves [OF hal_ok_adev [OF ok]]] Set_parameters
    by (simp add: forgetful_def)
next
  case (Set_mic_mute b)
  then show ?thesis
    using s hal_books_adev [OF ok moves_frame(1) [OF hal_ok_adev [OF ok]]]
    by (auto simp: adev_set_mic_mute_def intro: hal_books_exact)
qed

interpretation hal: ref_ledger "hal_step V fuel" "\<lambda>s. hal_ok (fst s) \<and> resample_law (he_resample V)"
  "\<lambda>s. refs (adev_cm (h_adev (fst s)))" "\<lambda>s. hal_held (fst s)" "\<lambda>s. nstreams (adev_cm (h_adev (fst s)))"
  "\<lambda>s e. \<not> forgetful V s e" for V fuel
proof unfold_locales
  fix s s' :: "hal \<times> 'a" and e i
  assume inv: "hal_ok (fst s) \<and> resample_law (he_resample V)" and st: "hal_step V fuel e s = Some s'"
  have b: "hal_books (fst s) (fst s') (\<not> forgetful V s e)"
    using hal_step_books [of "fst s" V fuel e "snd s" "fst s'" "snd s'"] inv st by simp
  then show "hal_ok (fst s') \<and> resample_law (he_resample V)"
    "nstreams (adev_cm (h_adev (fst s'))) = nstreams (adev_cm (h_adev (fst s)))"
    using inv by (simp_all add: hal_books_def)
  assume i: "i < nstreams (adev_cm (h_adev (fst s)))"
  show "refs (adev_cm (h_adev (fst s))) i - hal_held (fst s) i \<le> refs (adev_cm (h_adev (fst s'))) i - hal_held (fst s') i"
    using b i by (simp add: hal_books_def)
  show "refs (adev_cm (h_adev (fst s'))) i - hal_held (fst s') i = refs (adev_cm (h_adev (fst s))) i - hal_held (fst s) i"
    if "\<not> forgetful V s e" using b i that by (simp add: hal_books_def)
qed

end
