(* ===== verification/Pcm_Mmap.thy ===== *)
theory Pcm_Mmap
  imports Pcm
begin

text \<open>
  The transfer of samples through the mapped ring buffer (\<^verbatim>\<open>tinyalsa/pcm.c\<close>, last part): the
  free-running positions of the hardware and of the application, which both wrap at
  \<^verbatim>\<open>pcm->boundary\<close>, the frames available between them, and the loops that copy.
  An \<^verbatim>\<open>int\<close> computed from unsigned positions is kept as the word it is stored in and read with
  its sign where the code compares it.
\<close>

section \<open>Positions\<close>

definition pcm_mmap_playback_avail :: "pcm \<Rightarrow> u32 \<Rightarrow> u32 \<Rightarrow> u32" where
  "pcm_mmap_playback_avail p hw appl =
     (let avail = hw + buffer_size p - appl
      in if sint avail < 0 then avail + boundary p
         else if sint avail > sint (boundary p) then avail - boundary p else avail)"

definition pcm_mmap_capture_avail :: "pcm \<Rightarrow> u32 \<Rightarrow> u32 \<Rightarrow> u32" where
  "pcm_mmap_capture_avail p hw appl =
     (let avail = hw - appl in if sint avail < 0 then avail + boundary p else avail)"

definition pcm_mmap_avail :: "'k psys \<Rightarrow> pcm \<Rightarrow> 'k \<Rightarrow> ((u32 \<times> pcm) \<times> 'k) option" where
  "pcm_mmap_avail E p k =
     (case pcm_sync_ptr E p SNDRV_PCM_SYNC_PTR_HWSYNC k of ((_, p1), k1) \<Rightarrow> do {
        (s, k2) \<leftarrow> read_status E p1 k1;
        (c, k3) \<leftarrow> read_control E p1 k2;
        Some ((if flags p1 AND PCM_IN \<noteq> 0 then pcm_mmap_capture_avail p1 (hw_ptr s) (appl_ptr c)
               else pcm_mmap_playback_avail p1 (hw_ptr s) (appl_ptr c), p1), k3)
      })"

definition forward_ptr :: "u32 \<Rightarrow> u32 \<Rightarrow> u32 \<Rightarrow> u32" where
  "forward_ptr bound appl frames =
     (let a = appl + frames in if a > bound then a - bound else a)"

definition pcm_mmap_appl_forward :: "'k psys \<Rightarrow> pcm \<Rightarrow> u32 \<Rightarrow> 'k \<Rightarrow> (pcm \<times> 'k) option" where
  "pcm_mmap_appl_forward E p frames k = do {
     (c, k1) \<leftarrow> read_control E p k;
     write_control E p (c\<lparr>appl_ptr := forward_ptr (boundary p) (appl_ptr c) frames\<rparr>) k1
   }"

text \<open>The offset and the number of frames that \<^verbatim>\<open>pcm_mmap_begin\<close> computes.\<close>

definition begin_window :: "u32 \<Rightarrow> u32 \<Rightarrow> u32 \<Rightarrow> u32 \<Rightarrow> u32 \<times> u32" where
  "begin_window bsize appl avail frames =
     (let off = appl mod bsize;
          avail' = (if avail > bsize then bsize else avail);
          continuous = bsize - off;
          c1 = (if frames > avail' then avail' else frames);
          c2 = (if c1 > continuous then continuous else c1)
      in (off, c2))"

definition pcm_mmap_begin :: "'k psys \<Rightarrow> pcm \<Rightarrow> u32 \<Rightarrow> 'k \<Rightarrow> (((u32 \<times> u32) \<times> pcm) \<times> 'k) option" where
  "pcm_mmap_begin E p frames k = do {
     (c, k1) \<leftarrow> read_control E p k;
     (if buffer_size p = 0 then None
      else do {
        ((avail, p1), k2) \<leftarrow> pcm_mmap_avail E p k1;
        Some ((begin_window (buffer_size p) (appl_ptr c) avail frames, p1), k2)
      })
   }"

definition pcm_mmap_commit :: "'k psys \<Rightarrow> pcm \<Rightarrow> u32 \<Rightarrow> u32 \<Rightarrow> 'k \<Rightarrow> ((u32 \<times> pcm) \<times> 'k) option" where
  "pcm_mmap_commit E p off frames k = do {
     (p1, k1) \<leftarrow> pcm_mmap_appl_forward E p frames k;
     (case pcm_sync_ptr E p1 0 k1 of ((_, p2), k2) \<Rightarrow> Some ((frames, p2), k2))
   }"

definition pcm_avail_update :: "'k psys \<Rightarrow> pcm \<Rightarrow> 'k \<Rightarrow> ((u32 \<times> pcm) \<times> 'k) option" where
  "pcm_avail_update E p k =
     (case pcm_sync_ptr E p 0 k of ((_, p1), k1) \<Rightarrow> pcm_mmap_avail E p1 k1)"

definition pcm_state :: "'k psys \<Rightarrow> pcm \<Rightarrow> 'k \<Rightarrow> ((int \<times> pcm) \<times> 'k) option" where
  "pcm_state E p k =
     (case pcm_sync_ptr E p 0 k of ((err, p1), k1) \<Rightarrow>
        if err < 0 then Some ((err, p1), k1)
        else do { (s, k2) \<leftarrow> read_status E p1 k1; Some ((ms_state s, p1), k2) })"

section \<open>Waiting\<close>

abbreviation EINTR :: int where "EINTR \<equiv> 4"
abbreviation POLLIN :: u32 where "POLLIN \<equiv> 1"
abbreviation POLLOUT :: u32 where "POLLOUT \<equiv> 4"
abbreviation POLLERR :: u32 where "POLLERR \<equiv> 8"
abbreviation POLLNVAL :: u32 where "POLLNVAL \<equiv> 0x20"

text \<open>\<^verbatim>\<open>continue\<close> in the \<^verbatim>\<open>do\<close> loop goes to its condition.\<close>

definition wait_step :: "'k psys \<Rightarrow> int \<Rightarrow> pcm \<times> 'k \<Rightarrow> (pcm \<times> 'k + (int \<times> pcm) \<times> 'k) option" where
  "wait_step E timeout = (\<lambda>(p, k).
     case p_poll E (pcm_fd p) timeout k of ((err, revents), k1) \<Rightarrow>
       if err < 0 then Some (Inr ((- p_errno E k1, p), k1))
       else if err = 0 then Some (Inr ((0, p), k1))
       else if p_errno E k1 \<noteq> - EINTR \<and> revents AND (POLLERR OR POLLNVAL) \<noteq> 0 then do {
         ((st, p1), k2) \<leftarrow> pcm_state E p k1;
         Some (Inr ((if st = PCM_STATE_XRUN then - EPIPE
                     else if st = PCM_STATE_SUSPENDED then - ESTRPIPE
                     else if st = PCM_STATE_DISCONNECTED then - ENODEV else - EIO, p1), k2))
       }
       else if revents AND (POLLIN OR POLLOUT) = 0 then Some (Inl (p, k1))
       else Some (Inr ((1, p), k1)))"

definition pcm_wait :: "'k psys \<Rightarrow> nat \<Rightarrow> pcm \<Rightarrow> int \<Rightarrow> 'k \<Rightarrow> ((int \<times> pcm) \<times> 'k) option" where
  "pcm_wait E fuel p timeout k = run_loop fuel (wait_step E timeout) (p, k)"

section \<open>Copying\<close>

definition in_range :: "int \<Rightarrow> int \<Rightarrow> int \<Rightarrow> bool" where
  "in_range off n lim \<longleftrightarrow> 0 \<le> off \<and> 0 \<le> n \<and> off + n \<le> lim"

text \<open>
  \<^verbatim>\<open>memcpy\<close> between the caller's buffer \<open>buf\<close> and the mapped buffer, whose size in bytes is the
  one passed to \<^verbatim>\<open>mmap\<close>; a copy that leaves either of them is undefined.
\<close>

definition pcm_areas_copy ::
  "'k psys \<Rightarrow> pcm \<Rightarrow> u32 \<Rightarrow> u8 list \<Rightarrow> u32 \<Rightarrow> u32 \<Rightarrow> 'k \<Rightarrow> (u8 list \<times> 'k) option" where
  "pcm_areas_copy E p pcm_offset buf src_offset frames k =
     (let size_bytes = sint (pcm_frames_to_bytes p frames);
          pcm_offset_bytes = sint (pcm_frames_to_bytes p pcm_offset);
          src_offset_bytes = sint (pcm_frames_to_bytes p src_offset);
          n = nat size_bytes; po = nat pcm_offset_bytes; so = nat src_offset_bytes
      in if \<not> mmap_buffer p
           \<or> \<not> in_range pcm_offset_bytes size_bytes (uint (pcm_frames_to_bytes p (buffer_size p)))
           \<or> \<not> in_range src_offset_bytes size_bytes (int (length buf)) then None
         else if flags p AND PCM_IN \<noteq> 0 then
           (case p_buf_read E (pcm_fd p) po n k of (bs, k1) \<Rightarrow>
              Some (take so buf @ take n bs @ drop (so + min n (length bs)) buf, k1))
         else Some (buf, p_buf_write E (pcm_fd p) po (take n (drop so buf)) k))"

record 'k areas_state =
  a_offset :: u32
  a_size :: u32
  a_count :: u32
  a_buf :: "u8 list"
  a_pcm :: pcm
  a_k :: 'k

definition areas_step ::
  "'k psys \<Rightarrow> 'k areas_state \<Rightarrow> ('k areas_state + ((int \<times> u8 list) \<times> pcm) \<times> 'k) option" where
  "areas_step E s =
     (if a_size s = 0 then Some (Inr (((sint (a_count s), a_buf s), a_pcm s), a_k s))
      else do {
        (((off, frames), p1), k1) \<leftarrow> pcm_mmap_begin E (a_pcm s) (a_size s) (a_k s);
        (buf, k2) \<leftarrow> pcm_areas_copy E p1 off (a_buf s) (a_offset s) frames k1;
        ((commit, p2), k3) \<leftarrow> pcm_mmap_commit E p1 off frames k2;
        Some (if sint commit < 0
              then (case pcm_oops E p2 (sint commit)
                      (''failed to commit '' @ show_int (sint frames) @ '' frames'' @ [CHR 0x0A]) k3 of
                      ((_, p3), k4) \<Rightarrow> Inr (((sint commit, buf), p3), k4))
              else Inl (s\<lparr>a_offset := a_offset s + commit, a_count := a_count s + commit,
                          a_size := a_size s - commit, a_buf := buf, a_pcm := p2, a_k := k3\<rparr>))
      })"

definition pcm_mmap_transfer_areas ::
  "'k psys \<Rightarrow> nat \<Rightarrow> pcm \<Rightarrow> u8 list \<Rightarrow> u32 \<Rightarrow> u32 \<Rightarrow> 'k \<Rightarrow> (((int \<times> u8 list) \<times> pcm) \<times> 'k) option" where
  "pcm_mmap_transfer_areas E fuel p buf offset sz k =
     run_loop fuel (areas_step E)
       \<lparr>a_offset = offset, a_size = sz, a_count = 0, a_buf = buf, a_pcm = p, a_k = k\<rparr>"

section \<open>The transfer\<close>

record 'k transfer_state =
  t_err :: int
  t_offset :: u32
  t_count :: u32
  t_buf :: "u8 list"
  t_pcm :: pcm
  t_k :: 'k

text \<open>
  One iteration. The two parts after the start: waiting for space, and copying. A division
  by \<^verbatim>\<open>noirq_frames_per_msec\<close> that is 0 is undefined.
\<close>

definition transfer_wait ::
  "'k psys \<Rightarrow> nat \<Rightarrow> 'k transfer_state \<Rightarrow> pcm \<Rightarrow> u32 \<Rightarrow> u32 \<Rightarrow> 'k
     \<Rightarrow> ('k transfer_state + ((int \<times> u8 list) \<times> pcm) \<times> 'k) option" where
  "transfer_wait E fuel s p avail am k = do {
     time \<leftarrow> (if flags p AND PCM_NOIRQ \<noteq> 0 then
                if noirq_frames_per_msec p = 0 then None
                else Some (sint ((buffer_size p - avail - am) div noirq_frames_per_msec p))
              else Some (- 1));
     ((err, p1), k1) \<leftarrow> pcm_wait E fuel p time k;
     (if err < 0 then do {
        let p2 = p1\<lparr>prepared := False, running := False\<rparr>;
        (c, k2) \<leftarrow> read_control E p2 k1;
        (p3, k3) \<leftarrow> write_control E p2 (c\<lparr>appl_ptr := 0\<rparr>) k2;
        Some (Inr (((err, t_buf s), p3), k3))
      }
      else Some (Inl (s\<lparr>t_err := err, t_pcm := p1, t_k := k1\<rparr>)))
   }"

definition transfer_copy ::
  "'k psys \<Rightarrow> nat \<Rightarrow> 'k transfer_state \<Rightarrow> pcm \<Rightarrow> u32 \<Rightarrow> 'k
     \<Rightarrow> ('k transfer_state + ((int \<times> u8 list) \<times> pcm) \<times> 'k) option" where
  "transfer_copy E fuel s p avail k =
     (let frames = (if sint (t_count s) > sint avail then avail else t_count s)
      in if frames = 0 then Some (Inr (((0, t_buf s), p), k))
         else do {
           (((n, buf), p1), k1) \<leftarrow> pcm_mmap_transfer_areas E fuel p (t_buf s) (t_offset s) frames k;
           Some (if n < 0 then Inr (((n, buf), p1), k1)
                 else Inl (s\<lparr>t_offset := t_offset s + of_int n, t_count := t_count s - of_int n,
                             t_buf := buf, t_pcm := p1, t_k := k1\<rparr>))
         })"

definition transfer_step ::
  "'k psys \<Rightarrow> nat \<Rightarrow> 'k transfer_state \<Rightarrow> ('k transfer_state + ((int \<times> u8 list) \<times> pcm) \<times> 'k) option" where
  "transfer_step E fuel s =
     (if t_count s = 0 then Some (Inr (((0, t_buf s), t_pcm s), t_k s))
      else do {
        ((avail, p1), k1) \<leftarrow> pcm_avail_update E (t_pcm s) (t_k s);
        (if sint avail < 0 then Some (Inr (((t_err s, t_buf s), p1), k1))
         else
           case (if \<not> running p1 \<and> buffer_size p1 - avail \<ge> start_threshold (config p1)
                 then pcm_start E p1 k1 else ((0, p1), k1)) of ((e, p2), k2) \<Rightarrow>
             if e < 0 then Some (Inr (((- p_errno E k2, t_buf s), p2), k2))
             else if running p2 then do {
               (c, k3) \<leftarrow> read_control E p2 k2;
               (if avail < avail_min c then transfer_wait E fuel s p2 avail (avail_min c) k3
                else transfer_copy E fuel s p2 avail k3)
             }
             else transfer_copy E fuel s p2 avail k2)
      })"

definition pcm_mmap_transfer ::
  "'k psys \<Rightarrow> nat \<Rightarrow> pcm \<Rightarrow> u8 list \<Rightarrow> u32 \<Rightarrow> 'k \<Rightarrow> (((int \<times> u8 list) \<times> pcm) \<times> 'k) option" where
  "pcm_mmap_transfer E fuel p buf nbytes k =
     (if nbytes = 0 then Some (((0, buf), p), k)
      else do {
        count \<leftarrow> pcm_bytes_to_frames p nbytes;
        run_loop fuel (transfer_step E fuel)
          \<lparr>t_err = 0, t_offset = 0, t_count = count, t_buf = buf, t_pcm = p, t_k = k\<rparr>
      })"

definition pcm_mmap_write ::
  "'k psys \<Rightarrow> nat \<Rightarrow> pcm \<Rightarrow> u8 list \<Rightarrow> u32 \<Rightarrow> 'k \<Rightarrow> (((int \<times> u8 list) \<times> pcm) \<times> 'k) option" where
  "pcm_mmap_write E fuel p buf n k =
     (if NOT (flags p) AND (PCM_OUT OR PCM_MMAP) \<noteq> 0 then Some (((- ENOSYS, buf), p), k)
      else pcm_mmap_transfer E fuel p buf n k)"

definition pcm_mmap_read ::
  "'k psys \<Rightarrow> nat \<Rightarrow> pcm \<Rightarrow> u8 list \<Rightarrow> u32 \<Rightarrow> 'k \<Rightarrow> (((int \<times> u8 list) \<times> pcm) \<times> 'k) option" where
  "pcm_mmap_read E fuel p buf n k =
     (if NOT (flags p) AND (PCM_IN OR PCM_MMAP) \<noteq> 0 then Some (((- ENOSYS, buf), p), k)
      else pcm_mmap_transfer E fuel p buf n k)"

end
