(* ===== verification/Pcm_Props.thy ===== *)
theory Pcm_Props
  imports Pcm_Mmap
begin

text \<open>
  Properties of the PCM device: the loops of \<^verbatim>\<open>pcm_open\<close> and \<^verbatim>\<open>pcm_write\<close> end, the start and stop
  machine keeps its invariant over every sequence of calls, the wrapped positions stand for
  unbounded frame counts, every copy stays inside both buffers, and a transfer puts the samples
  where the hardware will read them.
\<close>

section \<open>The boundary\<close>

definition boundary_inv :: "u32 \<Rightarrow> u32 \<Rightarrow> bool" where
  "boundary_inv bs b \<longleftrightarrow> 0 < unat bs \<and> unat bs < 2 ^ 31 \<and> unat b < 2 ^ 31 \<and> (\<exists>n. unat b = unat bs * 2 ^ n)
     \<and> (b = bs \<or> unat b + unat bs < 2 ^ 31)"

definition boundary_ok :: "u32 \<Rightarrow> u32 \<Rightarrow> bool" where
  "boundary_ok bs b \<longleftrightarrow> unat b < 2 ^ 31 \<and> (\<exists>n. unat b = unat bs * 2 ^ n)
     \<and> (b = bs \<or> unat b + unat bs < 2 ^ 31) \<and> 2 ^ 31 \<le> 2 * unat b + unat bs"

definition doublings :: "u32 \<Rightarrow> nat" where
  "doublings b = card {n. n < 32 \<and> unat b < 2 ^ n}"

lemma doublings_double:
  assumes "0 < unat b" and "unat b < 2 ^ 31" and "unat c = 2 * unat b"
  shows "doublings c < doublings b"
proof -
  have "{n. n < 32 \<and> unat c < 2 ^ n} = Suc ` {n. n < 31 \<and> unat b < 2 ^ n}"
  proof (intro set_eqI iffI)
    fix n assume "n \<in> {n. n < 32 \<and> unat c < 2 ^ n}"
    then show "n \<in> Suc ` {n. n < 31 \<and> unat b < 2 ^ n}" using assms(1,3) by (cases n) auto
  qed (use assms(3) in auto)
  then have "doublings c = card {n. n < 31 \<and> unat b < 2 ^ n}" by (simp add: doublings_def card_image)
  moreover have "{n. n < 32 \<and> unat b < 2 ^ n} = insert 31 {n. n < 31 \<and> unat b < 2 ^ n}"
    using assms(2) by auto
  ultimately show ?thesis by (simp add: doublings_def)
qed

lemma doublings_bound: "0 < unat b \<Longrightarrow> doublings b < 32"
proof -
  assume "0 < unat b"
  then have "{n. n < 32 \<and> unat b < 2 ^ n} \<subseteq> {1..<32}" by (auto simp: Suc_le_eq intro!: gr0I)
  then have "card {n. n < 32 \<and> unat b < 2 ^ n} \<le> card {1..<32 :: nat}" by (intro card_mono) auto
  then show ?thesis by (simp add: doublings_def)
qed

lemma boundary_test:
  assumes "unat bs < 2 ^ 31" and "unat b < 2 ^ 31"
  shows "b * 2 \<le> INT_MAX - bs \<longleftrightarrow> 2 * unat b + unat bs < 2 ^ 31" and "unat (b * 2) = 2 * unat b"
proof -
  show d: "unat (b * 2) = 2 * unat b" using assms(2) by (simp add: unat_word_ariths)
  have "unat (INT_MAX - bs) = 2 ^ 31 - 1 - unat bs"
    using assms(1) by (subst unat_sub) (simp_all add: word_le_nat_alt)
  then show "b * 2 \<le> INT_MAX - bs \<longleftrightarrow> 2 * unat b + unat bs < 2 ^ 31"
    using d assms(1) by (auto simp: word_le_nat_alt)
qed

interpretation bnd: ending_loop "boundary_step bs" "boundary_inv bs" "boundary_ok bs" doublings for bs
proof unfold_locales
  fix s s' assume inv: "boundary_inv bs s" and st: "boundary_step bs s = Some (Inl s')"
  have lt: "unat bs < 2 ^ 31" "unat s < 2 ^ 31" using inv by (simp_all add: boundary_inv_def)
  have s': "s' = s * 2" and t: "2 * unat s + unat bs < 2 ^ 31"
    using st boundary_test [OF lt] by (auto simp: boundary_step_def split: if_splits)
  have u: "unat s' = 2 * unat s" using s' boundary_test [OF lt] by simp
  obtain n where "unat s = unat bs * 2 ^ n" using inv by (auto simp: boundary_inv_def)
  then have "\<exists>n. unat s' = unat bs * 2 ^ n" using u by (intro exI [of _ "Suc n"]) simp
  then show "boundary_inv bs s'" using inv t u by (simp add: boundary_inv_def)
  have "0 < unat s" using inv by (auto simp: boundary_inv_def)
  then show "doublings s' < doublings s" using doublings_double [OF _ lt(2) u] by simp
next
  fix s r assume inv: "boundary_inv bs s" and st: "boundary_step bs s = Some (Inr r)"
  have lt: "unat bs < 2 ^ 31" "unat s < 2 ^ 31" using inv by (simp_all add: boundary_inv_def)
  have "r = s" and "\<not> 2 * unat s + unat bs < 2 ^ 31"
    using st boundary_test [OF lt] by (auto simp: boundary_step_def split: if_splits)
  then show "boundary_ok bs r" using inv by (auto simp: boundary_inv_def boundary_ok_def)
qed (simp add: boundary_step_def)

text \<open>
  (C37) The loop that computes the wrap-around position ends for every buffer size from 1 to
  \<^verbatim>\<open>INT_MAX\<close> within the 32 iterations the model allows; the boundary is the buffer size times a
  power of two, leaves room for one more buffer below \<^verbatim>\<open>INT_MAX\<close> unless it is the buffer size
  itself, and is the largest such number.
\<close>

theorem pcm_boundary_result:
  assumes "0 < unat bs" and "unat bs < 2 ^ 31"
  shows "\<exists>b. pcm_boundary 32 bs = Some b \<and> unat b < 2 ^ 31 \<and> (\<exists>n. unat b = unat bs * 2 ^ n)
    \<and> (b = bs \<or> unat b + unat bs < 2 ^ 31) \<and> 2 ^ 31 \<le> 2 * unat b + unat bs"
proof -
  have "boundary_inv bs bs" using assms by (auto simp: boundary_inv_def intro: exI [of _ 0])
  from bnd.finishes [OF this doublings_bound [OF assms(1)]] show ?thesis
    by (simp add: pcm_boundary_def boundary_ok_def)
qed

lemma pcm_boundary_result_witness:
  "\<exists>b. pcm_boundary 32 4096 = Some b \<and> unat b < 2 ^ 31 \<and> 2 ^ 31 \<le> 2 * unat b + 4096"
  using pcm_boundary_result [of 4096] by auto

text \<open>What a driver grants: a buffer that is not empty and smaller than half the address space.\<close>

definition grant_law :: "'k psys \<Rightarrow> bool" where
  "grant_law P \<longleftrightarrow> (\<forall>f params k params' k'. p_hw_params P f params k = ((0, params'), k') \<longrightarrow>
     (let n = unat (param_get_int params' SNDRV_PCM_HW_PARAM_PERIODS * param_get_int params' SNDRV_PCM_HW_PARAM_PERIOD_SIZE)
      in 0 < n \<and> n < 2 ^ 31))"

lemma pcm_boundary_defined: "0 < unat bs \<Longrightarrow> unat bs < 2 ^ 31 \<Longrightarrow> pcm_boundary 32 bs \<noteq> None"
proof -
  assume bs: "0 < unat bs" "unat bs < 2 ^ 31"
  then have "boundary_inv bs bs" by (auto simp: boundary_inv_def intro: exI [of _ 0])
  from bnd.finishes [OF this doublings_bound [OF bs(1)]] show ?thesis by (auto simp: pcm_boundary_def)
qed

lemma with_config_defined [simp]: "with_config cfg x \<noteq> None"
  by (cases x) (simp add: with_config_def)

lemma open_sw_defined:
  "0 < unat (buffer_size q) \<Longrightarrow> unat (buffer_size q) < 2 ^ 31 \<Longrightarrow> open_sw P c q k \<noteq> None"
  by (cases "pcm_boundary 32 (buffer_size q)")
    (simp_all add: open_sw_def Let_def pcm_boundary_defined del: not_None_eq split: prod.split)

lemma open_hw_defined:
  assumes "grant_law P"
  shows "open_hw P cfg p k \<noteq> None"
proof -
  obtain r params k1 where hw: "p_hw_params P (pcm_fd p) (open_params (flags p) cfg) k = ((r, params), k1)"
    by (metis prod.exhaust)
  show ?thesis
  proof (cases "r = 0")
    case True
    have "0 < unat (param_get_int params SNDRV_PCM_HW_PARAM_PERIODS * param_get_int params SNDRV_PCM_HW_PARAM_PERIOD_SIZE)"
      "unat (param_get_int params SNDRV_PCM_HW_PARAM_PERIODS * param_get_int params SNDRV_PCM_HW_PARAM_PERIOD_SIZE) < 2 ^ 31"
      using assms hw True unfolding grant_law_def Let_def by blast+
    then show ?thesis unfolding open_hw_def hw Let_def
      by (simp add: True open_sw_defined del: not_None_eq split: prod.split)
  qed (simp add: open_hw_def hw del: not_None_eq)
qed

lemma pcm_open_defined: "grant_law P \<Longrightarrow> pcm_open P c d fl cfg k \<noteq> None"
  using open_hw_defined [of P] by (simp add: pcm_open_def Let_def del: not_None_eq split: prod.splits)

text \<open>With a buffer size of 0 the loop never ends.\<close>

lemma pcm_boundary_zero: "pcm_boundary fuel 0 = None"
proof -
  have "run_loop fuel (boundary_step 0) 0 = None" by (induction fuel) (simp_all add: boundary_step_def)
  then show ?thesis by (simp add: pcm_boundary_def)
qed

section \<open>The start and stop machine\<close>

text \<open>What no operation on an open device changes, and the device's invariant.\<close>

definition same_pcm :: "pcm \<Rightarrow> pcm \<Rightarrow> bool" where
  "same_pcm p q \<longleftrightarrow> pcm_fd q = pcm_fd p \<and> flags q = flags p \<and> buffer_size q = buffer_size p
     \<and> boundary q = boundary p \<and> config q = config p \<and> mmap_buffer q = mmap_buffer p
     \<and> noirq_frames_per_msec q = noirq_frames_per_msec p
     \<and> (pointers q = Null_pointers \<longleftrightarrow> pointers p = Null_pointers)"

definition pcm_inv :: "pcm \<Rightarrow> bool" where
  "pcm_inv p \<longleftrightarrow> (running p \<longrightarrow> prepared p) \<and> length (error p) < PCM_ERROR_MAX"

definition dev_inv :: "pcm \<Rightarrow> pcm \<Rightarrow> bool" where
  "dev_inv p0 p \<longleftrightarrow> same_pcm p0 p \<and> pcm_inv p"

lemma pcm_oops_result:
  "pcm_oops E p e m k = ((r, p'), k') \<Longrightarrow>
   r = - 1 \<and> k' = k \<and> running p' = running p \<and> prepared p' = prepared p \<and> underruns p' = underruns p
   \<and> pointers p' = pointers p \<and> same_pcm p p' \<and> length (error p') < PCM_ERROR_MAX"
  by (auto simp: pcm_oops_def Let_def same_pcm_def)

lemma same_pcm_trans: "same_pcm p q \<Longrightarrow> same_pcm q r \<Longrightarrow> same_pcm p r"
  by (simp add: same_pcm_def)

lemma dev_inv_oops [inv_intros]: "pcm_oops E p e m k = ((r, p'), k') \<Longrightarrow> dev_inv p0 p \<Longrightarrow> dev_inv p0 p'"
  using pcm_oops_result [of E p e m k r p' k'] by (auto simp: dev_inv_def pcm_inv_def intro: same_pcm_trans)

lemma dev_inv_updates [simp]:
  "dev_inv p0 (p\<lparr>underruns := n\<rparr>) = dev_inv p0 p"
  "dev_inv p0 p \<Longrightarrow> dev_inv p0 (p\<lparr>prepared := True\<rparr>)"
  "dev_inv p0 p \<Longrightarrow> dev_inv p0 (p\<lparr>prepared := False, running := False\<rparr>)"
  "dev_inv p0 p \<Longrightarrow> prepared p \<Longrightarrow> dev_inv p0 (p\<lparr>running := True\<rparr>)"
  by (simp_all add: dev_inv_def pcm_inv_def same_pcm_def)

lemma sync_ptr_result:
  "pcm_sync_ptr E p fl k = ((r, p'), k') \<Longrightarrow>
   same_pcm p p' \<and> running p' = running p \<and> prepared p' = prepared p \<and> error p' = error p
   \<and> underruns p' = underruns p \<and> (r = 0 \<or> r = - 1)"
  by (auto simp: pcm_sync_ptr_def same_pcm_def split: pcm_pointers.splits prod.splits)

lemma dev_inv_sync [inv_intros]: "pcm_sync_ptr E p fl k = ((r, p'), k') \<Longrightarrow> dev_inv p0 p \<Longrightarrow> dev_inv p0 p'"
  using sync_ptr_result [of E p fl k r p' k'] by (auto simp: dev_inv_def pcm_inv_def intro: same_pcm_trans)

lemma prepare_result:
  assumes "pcm_prepare E p k = ((r, p'), k')"
  shows "(r = 0 \<and> prepared p' \<or> r = - 1 \<and> \<not> prepared p) \<and> running p' = running p \<and> underruns p' = underruns p
    \<and> (dev_inv p0 p \<longrightarrow> dev_inv p0 p')"
  using assms dev_inv_oops [of E p _ "''cannot prepare channel''" _ r p' k' p0]
  by (auto simp: pcm_prepare_def dest: pcm_oops_result split: if_splits prod.splits)

lemma start_result:
  assumes "pcm_start E p k = ((r, p'), k')" and "dev_inv p0 p"
  shows "dev_inv p0 p' \<and> (r = 0 \<and> running p' \<or> r = - 1 \<and> running p' = running p)"
proof -
  obtain e p1 k1 where pr: "pcm_prepare E p k = ((e, p1), k1)" by (cases "pcm_prepare E p k") auto
  note p1 = prepare_result [OF pr, of p0]
  obtain x p2 k2 where sy: "(if flags p1 AND PCM_MMAP \<noteq> 0 then pcm_sync_ptr E p1 0 k1 else ((0, p1), k1)) = ((x, p2), k2)"
    by (cases "if flags p1 AND PCM_MMAP \<noteq> 0 then pcm_sync_ptr E p1 0 k1 else ((0, p1), k1)") auto
  have p2: "dev_inv p0 p2" "prepared p2 = prepared p1" "running p2 = running p1"
    using sy p1 assms(2) dev_inv_sync [of E p1 0 k1] sync_ptr_result [of E p1 0 k1] by (auto split: if_splits)
  obtain q k3 where st: "p_start E (pcm_fd p2) k2 = (q, k3)" by (cases "p_start E (pcm_fd p2) k2")
  consider "e \<noteq> 0" | "e = 0" "q < 0" | "e = 0" "\<not> q < 0" by blast
  then show ?thesis
  proof cases
    case 1
    then show ?thesis using assms pr p1 by (auto simp: pcm_start_def)
  next
    case 2
    then have "pcm_oops E p2 (p_errno E k3) ''cannot start channel'' k3 = ((r, p'), k')"
      using assms(1) pr sy st by (simp add: pcm_start_def)
    note o = this
    show ?thesis using p2 p1 dev_inv_oops [OF o p2(1)] pcm_oops_result [OF o] by simp
  next
    case 3
    then show ?thesis using assms(1) pr sy st p2 p1 by (auto simp: pcm_start_def)
  qed
qed

lemma stop_result:
  assumes "pcm_stop E p k = ((r, p'), k')" and "dev_inv p0 p"
  shows "dev_inv p0 p'"
  using assms dev_inv_oops [of E p _ "''cannot stop channel''" _ r p' k' p0]
  by (auto simp: pcm_stop_def split: if_splits prod.splits)

section \<open>Writing ends\<close>

definition write_post :: "pcm \<Rightarrow> (int \<times> pcm) \<times> 'k \<Rightarrow> bool" where
  "write_post p0 = (\<lambda>((r, p), k). dev_inv p0 p \<and> r \<in> {0, - 1, - EPIPE} \<and> (r = 0 \<longleftrightarrow> running p)
     \<and> (r = - EPIPE \<longrightarrow> flags p0 AND PCM_NORESTART \<noteq> 0) \<and> underruns p \<le> Suc (underruns p0))"

definition write_inv :: "pcm \<Rightarrow> pcm \<times> 'k \<Rightarrow> bool" where
  "write_inv p0 = (\<lambda>(p, k). dev_inv p0 p \<and> underruns p + (if running p then 1 else 0) \<le> Suc (underruns p0))"

definition attempts :: "pcm \<times> 'k \<Rightarrow> nat" where
  "attempts s = (if running (fst s) then 1 else 0)"

interpretation wr: ending_loop "write_step E data frames" "write_inv p0" "write_post p0" attempts
  for E data frames p0
proof unfold_locales
  fix s s' assume inv: "write_inv p0 s" and st: "write_step E data frames s = Some (Inl s')"
  obtain p k where s: "s = (p, k)" by (cases s)
  show "write_inv p0 s'"
    using inv st s by (auto simp: write_step_def write_inv_def Let_def split: if_splits prod.splits)
  show "attempts s' < attempts s"
    using st s by (auto simp: write_step_def attempts_def Let_def split: if_splits prod.splits)
next
  fix s r assume inv: "write_inv p0 s" and st: "write_step E data frames s = Some (Inr r)"
  obtain p k where s: "s = (p, k)" by (cases s)
  obtain e p' k' where r: "r = ((e, p'), k')" by (cases r) auto
  have d: "dev_inv p0 p" and fl: "flags p = flags p0" using inv s by (auto simp: write_inv_def dev_inv_def same_pcm_def)
  show "write_post p0 r"
  proof (cases "running p")
    case False
    obtain x p1 k1 where pr: "pcm_prepare E p k = ((x, p1), k1)" by (cases "pcm_prepare E p k") auto
    note p1 = prepare_result [OF pr, of p0]
    then show ?thesis
      using st s r pr False d inv dev_inv_oops [of E p1 _ "''cannot write initial data''" _ e p' k' p0]
        pcm_oops_result [of E p1 _ "''cannot write initial data''" _ e p' k']
      by (auto simp: write_step_def write_post_def write_inv_def split: if_splits prod.splits)
  next
    case True
    let ?q = "p\<lparr>prepared := False, running := False\<rparr>"
    show ?thesis
      using st s r True d inv fl dev_inv_oops [of E ?q _ "''cannot write stream data''" _ e p' k' p0]
        pcm_oops_result [of E ?q _ "''cannot write stream data''" _ e p' k']
      by (auto simp: write_step_def write_post_def write_inv_def Let_def split: if_splits prod.splits)
  qed
qed (auto simp: write_step_def)

lemma pcm_write_ends:
  assumes "flags p AND PCM_IN = 0" and "xfer_frames p n = Some f" and "pcm_inv p"
  shows "\<exists>r p' k'. pcm_write E 2 p data n k = Some ((r, p'), k') \<and> r \<in> {0, - 1, - EPIPE}
    \<and> (r = 0 \<longleftrightarrow> running p') \<and> (r = - EPIPE \<longrightarrow> flags p AND PCM_NORESTART \<noteq> 0)
    \<and> underruns p' \<le> Suc (underruns p) \<and> same_pcm p p' \<and> pcm_inv p'"
proof -
  have "write_inv p (p, k)" using assms(3) by (simp add: write_inv_def dev_inv_def same_pcm_def)
  moreover have "attempts (p, k) < 2" by (simp add: attempts_def)
  ultimately obtain r where "run_loop 2 (write_step E data f) (p, k) = Some r" "write_post p r"
    using wr.finishes by blast
  then show ?thesis using assms(1,2) by (cases r) (auto simp: pcm_write_def write_post_def dev_inv_def)
qed

text \<open>A write that returns 0 ends with a write that the driver accepted.\<close>

lemma prepare_fd: "pcm_prepare E p k = ((r, p'), k') \<Longrightarrow> pcm_fd p' = pcm_fd p"
  by (auto simp: pcm_prepare_def pcm_oops_def Let_def split: if_splits prod.splits)

interpretation wr_took: loop_contract "write_step E data f" "\<lambda>(p, k). pcm_fd p = fd"
  "\<lambda>x. fst (fst x) = 0 \<longrightarrow> (\<exists>k1. p_writei E fd data f k1 = (0, snd x))" for E data f fd
  by unfold_locales
    (auto simp: write_step_def Let_def pcm_oops_def split: if_splits prod.splits dest!: prepare_fd; metis)+

lemma pcm_write_took:
  assumes "pcm_write E n p data c k = Some ((0, p'), k')"
  shows "\<exists>f k1. xfer_frames p c = Some f \<and> p_writei E (pcm_fd p) data f k1 = (0, k')"
proof -
  obtain f where f: "xfer_frames p c = Some f" "run_loop n (write_step E data f) (p, k) = Some ((0, p'), k')"
    using assms by (auto simp: pcm_write_def elim!: bind_SomeE split: if_splits)
  from wr_took.run_post [OF _ f(2), of "pcm_fd p"] f(1) show ?thesis by auto
qed

text \<open>
  (C33) \<^verbatim>\<open>pcm_write\<close> returns, whatever the driver does: it writes at most twice, because an
  underrun (\<^verbatim>\<open>EPIPE\<close>) stops the device and the second attempt starts it afresh. It returns 0
  exactly when the device is left running, otherwise -1 or, only with \<^verbatim>\<open>PCM_NORESTART\<close>,
  \<^verbatim>\<open>-EPIPE\<close>; it counts at most one underrun and changes nothing else of the device.
\<close>

theorem pcm_write_result:
  assumes "flags p AND PCM_IN = 0" and "xfer_frames p n = Some f" and "pcm_inv p"
  shows "\<exists>r p' k'. pcm_write E 2 p data n k = Some ((r, p'), k') \<and> r \<in> {0, - 1, - EPIPE}
    \<and> (r = 0 \<longleftrightarrow> running p') \<and> (r = - EPIPE \<longrightarrow> flags p AND PCM_NORESTART \<noteq> 0)
    \<and> underruns p' \<le> Suc (underruns p) \<and> same_pcm p p' \<and> pcm_inv p'"
  by (rule pcm_write_ends [OF assms])

text \<open>A small device for the witnesses: every call succeeds, the state is the mapped buffer.\<close>

definition demo_psys :: "(nat \<Rightarrow> u8) psys" where
  "demo_psys =
     \<lparr>p_errno = (\<lambda>k. 0), p_strerror = (\<lambda>e. ''error''), p_alloc = (\<lambda>k. (True, k)),
      p_open = (\<lambda>f k. (5, k)), p_close = (\<lambda>f k. k), p_info = (\<lambda>f k. (0, k)),
      p_hw_refine = (\<lambda>f h k. ((0, h), k)),
      p_hw_params = (\<lambda>f h k. ((0, param_set_int h SNDRV_PCM_HW_PARAM_PERIOD_SIZE
         (param_get_min h SNDRV_PCM_HW_PARAM_PERIOD_SIZE)), k)),
      p_sw_params = (\<lambda>f w k. (0, k)), p_ttstamp = (\<lambda>f k. (0, k)),
      p_mmap_buffer = (\<lambda>f n k. (True, k)), p_munmap_buffer = (\<lambda>f n k. k),
      p_mmap_status = (\<lambda>f k. (False, k)), p_mmap_control = (\<lambda>f k. (False, k)),
      p_munmap_status = (\<lambda>f k. k), p_munmap_control = (\<lambda>f k. k),
      p_sync_ptr = (\<lambda>f fl st c k. ((0, st, c), k)),
      p_status = (\<lambda>f k. (zero_status, k)), p_control = (\<lambda>f k. (\<lparr>appl_ptr = 0, avail_min = 1\<rparr>, k)),
      p_put_control = (\<lambda>f c k. k), p_prepare = (\<lambda>f k. (0, k)), p_start = (\<lambda>f k. (0, k)),
      p_drop = (\<lambda>f k. (0, k)), p_writei = (\<lambda>f d n k. (0, k)), p_readi = (\<lambda>f n k. ((0, []), k)),
      p_poll = (\<lambda>f t k. ((1, POLLOUT), k)),
      p_buf_read = (\<lambda>f off n k. (map (\<lambda>i. k (off + i)) [0..<n], k)),
      p_buf_write = (\<lambda>f off xs k. (\<lambda>i. if off \<le> i \<and> i < off + length xs then xs ! (i - off) else k i))\<rparr>"

definition demo_pcm :: pcm where
  "demo_pcm = (zero_pcm demo_pcm_config PCM_MMAP)\<lparr>pcm_fd := 5, buffer_size := 8, boundary := 0x40000000,
     mmap_buffer := True, pointers := Sync_ptr zero_status \<lparr>appl_ptr = 0, avail_min = 1\<rparr>\<rparr>"

lemma pcm_write_result_witness:
  "\<exists>r p' k'. pcm_write demo_psys 2 demo_pcm [1, 2, 3, 4] 4 (\<lambda>_. 0) = Some ((r, p'), k') \<and> (r = 0 \<longleftrightarrow> running p')
     \<and> same_pcm demo_pcm p'"
proof -
  have "flags demo_pcm AND PCM_IN = 0" "xfer_frames demo_pcm 4 = Some 1" "pcm_inv demo_pcm"
    by (simp_all add: demo_pcm_def zero_pcm_def xfer_frames_def demo_pcm_config_def pcm_inv_def)
  from pcm_write_result [OF this, of demo_psys "[1, 2, 3, 4]" "\<lambda>_. 0"] show ?thesis by blast
qed

section \<open>Every operation keeps the device's invariant\<close>

lemma dev_inv_pointers: "dev_inv p0 p \<Longrightarrow> pointers p = Sync_ptr s c \<Longrightarrow> dev_inv p0 (p\<lparr>pointers := Sync_ptr s' c'\<rparr>)"
  by (simp add: dev_inv_def same_pcm_def pcm_inv_def)

lemma write_control_inv [inv_intros]: "write_control E p c k = Some (p', k') \<Longrightarrow> dev_inv p0 p \<Longrightarrow> dev_inv p0 p'"
  by (auto simp: write_control_def intro: dev_inv_pointers split: pcm_pointers.splits)

lemma mmap_avail_inv [inv_intros]: "pcm_mmap_avail E p k = Some ((a, p'), k') \<Longrightarrow> dev_inv p0 p \<Longrightarrow> dev_inv p0 p'"
  by (auto simp: pcm_mmap_avail_def elim!: bind_SomeE intro: inv_intros split: prod.splits)

lemma avail_update_inv [inv_intros]: "pcm_avail_update E p k = Some ((a, p'), k') \<Longrightarrow> dev_inv p0 p \<Longrightarrow> dev_inv p0 p'"
  by (auto simp: pcm_avail_update_def intro: inv_intros split: prod.splits)

lemma mmap_begin_inv [inv_intros]: "pcm_mmap_begin E p n k = Some ((w, p'), k') \<Longrightarrow> dev_inv p0 p \<Longrightarrow> dev_inv p0 p'"
  by (auto simp: pcm_mmap_begin_def elim!: bind_SomeE intro: inv_intros split: if_splits)

lemma mmap_commit_inv [inv_intros]:
  "pcm_mmap_commit E p off n k = Some ((w, p'), k') \<Longrightarrow> dev_inv p0 p \<Longrightarrow> dev_inv p0 p'"
  by (auto simp: pcm_mmap_commit_def pcm_mmap_appl_forward_def elim!: bind_SomeE split: prod.splits)
    (meson write_control_inv dev_inv_sync)

lemma pcm_state_inv [inv_intros]: "pcm_state E p k = Some ((w, p'), k') \<Longrightarrow> dev_inv p0 p \<Longrightarrow> dev_inv p0 p'"
  by (auto simp: pcm_state_def elim!: bind_SomeE intro: inv_intros split: prod.splits if_splits)

interpretation wt: loop_contract "wait_step E t" "\<lambda>(p, k). dev_inv p0 p" "\<lambda>((r, p), k). dev_inv p0 p" for E t p0
  by unfold_locales
    (auto simp: wait_step_def elim!: bind_SomeE intro: inv_intros split: prod.splits if_splits)

lemma start_inv [inv_intros]: "pcm_start E p k = ((r, p'), k') \<Longrightarrow> dev_inv p0 p \<Longrightarrow> dev_inv p0 p'"
  by (drule (1) start_result) simp

interpretation rd: loop_contract "read_step E f" "\<lambda>(p, k). dev_inv p0 p" "\<lambda>((r, p), k). dev_inv p0 p" for E f p0
  by unfold_locales
    (auto simp: read_step_def Let_def split: prod.splits if_splits
      intro!: dev_inv_updates(3) dest!: start_inv [of _ _ _ _ _ _ p0] dev_inv_oops [of _ _ _ _ _ _ _ _ p0])

interpretation ar: loop_contract "areas_step E" "\<lambda>s. dev_inv p0 (a_pcm s)" "\<lambda>((r, p), k). dev_inv p0 p" for E p0
  by unfold_locales
    (auto simp: areas_step_def elim!: bind_SomeE split: prod.splits if_splits
      dest!: mmap_begin_inv [of _ _ _ _ _ _ _ p0] mmap_commit_inv [of _ _ _ _ _ _ _ _ p0] dev_inv_oops [of _ _ _ _ _ _ _ _ p0])

lemma pcm_wait_inv: "pcm_wait E n p t k = Some ((r, p'), k') \<Longrightarrow> dev_inv p0 p \<Longrightarrow> dev_inv p0 p'"
  using wt.run_post [of p0 "(p, k)" n E t "((r, p'), k')"] by (simp add: pcm_wait_def)

lemma areas_inv:
  "pcm_mmap_transfer_areas E n p buf off sz k = Some ((r, p'), k') \<Longrightarrow> dev_inv p0 p \<Longrightarrow> dev_inv p0 p'"
  using ar.run_post [of p0 "\<lparr>a_offset = off, a_size = sz, a_count = 0, a_buf = buf, a_pcm = p, a_k = k\<rparr>" n E
      "((r, p'), k')"]
  by (simp add: pcm_mmap_transfer_areas_def)

lemma transfer_wait_inv:
  assumes "transfer_wait E n s p a am k = Some x" and "dev_inv p0 p"
  shows "case x of Inl s' \<Rightarrow> dev_inv p0 (t_pcm s') | Inr ((r, p'), k') \<Rightarrow> dev_inv p0 p'"
  using assms
  by (auto simp: transfer_wait_def Let_def elim!: bind_SomeE split: if_splits
      dest!: pcm_wait_inv [of _ _ _ _ _ _ _ _ p0] write_control_inv [of _ _ _ _ _ _ p0])

lemma transfer_copy_inv:
  assumes "transfer_copy E n s p a k = Some x" and "dev_inv p0 p"
  shows "case x of Inl s' \<Rightarrow> dev_inv p0 (t_pcm s') | Inr ((r, p'), k') \<Rightarrow> dev_inv p0 p'"
  using assms
  by (auto simp: transfer_copy_def Let_def elim!: bind_SomeE split: if_splits
      dest!: areas_inv [of _ _ _ _ _ _ _ _ _ _ p0])

lemma transfer_step_inv:
  assumes "transfer_step E n s = Some x" and d: "dev_inv p0 (t_pcm s)"
  shows "case x of Inl s' \<Rightarrow> dev_inv p0 (t_pcm s') | Inr ((r, p'), k') \<Rightarrow> dev_inv p0 p'"
proof (cases "t_count s = 0")
  case True
  then show ?thesis using assms by (auto simp: transfer_step_def)
next
  case False
  obtain a p1 k1 where au: "pcm_avail_update E (t_pcm s) (t_k s) = Some ((a, p1), k1)"
    using assms(1) False by (auto simp: transfer_step_def elim!: bind_SomeE)
  have d1: "dev_inv p0 p1" using avail_update_inv [OF au d] .
  let ?st = "if \<not> running p1 \<and> buffer_size p1 - a \<ge> start_threshold (config p1)
                 then pcm_start E p1 k1 else ((0, p1), k1)"
  obtain e p2 k2 where st: "?st = ((e, p2), k2)" by (cases ?st) auto
  have d2: "dev_inv p0 p2" using st d1 start_inv [of E p1 k1 e p2 k2 p0] by (auto split: if_splits)
  show ?thesis
    using assms(1) False au st d1 d2
    by (auto simp: transfer_step_def elim!: bind_SomeE split: if_splits
        dest!: transfer_copy_inv [of _ _ _ _ _ _ _ p0] transfer_wait_inv [of _ _ _ _ _ _ _ _ p0])
qed

interpretation tr: loop_contract "transfer_step E n" "\<lambda>s. dev_inv p0 (t_pcm s)" "\<lambda>((r, p), k). dev_inv p0 p" for E n p0
  by unfold_locales (use transfer_step_inv in \<open>fastforce\<close>)+

lemma transfer_inv:
  assumes "pcm_mmap_transfer E n p buf b k = Some ((r, p'), k')" and "dev_inv p0 p"
  shows "dev_inv p0 p'"
proof (cases "b = 0")
  case False
  then obtain c where "run_loop n (transfer_step E n)
      \<lparr>t_err = 0, t_offset = 0, t_count = c, t_buf = buf, t_pcm = p, t_k = k\<rparr> = Some ((r, p'), k')"
    using assms(1) by (auto simp: pcm_mmap_transfer_def elim!: bind_SomeE)
  from tr.run_post [OF _ this, of p0] show ?thesis using assms(2) by simp
qed (use assms in \<open>simp add: pcm_mmap_transfer_def\<close>)

text \<open>The calls of the PCM interface on an open device, in any order.\<close>

datatype pcm_call = Prepare | Start | Stop | Write "u8 list" u32 | Read u32
  | Mmap_write "u8 list" u32 | Mmap_read "u8 list" u32 | Avail_update | Wait int

fun pcm_exec :: "'k psys \<Rightarrow> nat \<Rightarrow> pcm_call \<Rightarrow> pcm \<times> 'k \<Rightarrow> (pcm \<times> 'k) option" where
  "pcm_exec E n Prepare (p, k) = (case pcm_prepare E p k of ((r, p'), k') \<Rightarrow> Some (p', k'))"
| "pcm_exec E n Start (p, k) = (case pcm_start E p k of ((r, p'), k') \<Rightarrow> Some (p', k'))"
| "pcm_exec E n Stop (p, k) = (case pcm_stop E p k of ((r, p'), k') \<Rightarrow> Some (p', k'))"
| "pcm_exec E n (Write d c) (p, k) = map_option (\<lambda>((r, p'), k'). (p', k')) (pcm_write E n p d c k)"
| "pcm_exec E n (Read c) (p, k) = map_option (\<lambda>((r, p'), k'). (p', k')) (pcm_read E n p c k)"
| "pcm_exec E n (Mmap_write d c) (p, k) = map_option (\<lambda>((r, p'), k'). (p', k')) (pcm_mmap_write E n p d c k)"
| "pcm_exec E n (Mmap_read d c) (p, k) = map_option (\<lambda>((r, p'), k'). (p', k')) (pcm_mmap_read E n p d c k)"
| "pcm_exec E n Avail_update (p, k) = map_option (\<lambda>((r, p'), k'). (p', k')) (pcm_avail_update E p k)"
| "pcm_exec E n (Wait t) (p, k) = map_option (\<lambda>((r, p'), k'). (p', k')) (pcm_wait E n p t k)"

lemma pcm_write_inv: "pcm_write E n p d c k = Some ((r, p'), k') \<Longrightarrow> dev_inv p0 p \<Longrightarrow> dev_inv p0 p'"
proof -
  assume w: "pcm_write E n p d c k = Some ((r, p'), k')" and d: "dev_inv p0 p"
  have "write_inv p (p, k)" using d by (simp add: write_inv_def dev_inv_def same_pcm_def)
  then have "dev_inv p p'"
    using w wr.run_post [of p "(p, k)" n E d _ "((r, p'), k')"] d
    by (auto simp: pcm_write_def write_post_def dev_inv_def same_pcm_def elim!: bind_SomeE split: if_splits)
  then show ?thesis using d by (auto simp: dev_inv_def intro: same_pcm_trans)
qed

lemma pcm_read_inv: "pcm_read E n p c k = Some ((r, p'), k') \<Longrightarrow> dev_inv p0 p \<Longrightarrow> dev_inv p0 p'"
  using rd.run_post [of p0 "(p, k)" n E _ "((r, p'), k')"]
  by (auto simp: pcm_read_def elim!: bind_SomeE split: if_splits)

lemma pcm_exec_inv:
  assumes "pcm_exec E n c (p, k) = Some (p', k')" and "dev_inv p0 p"
  shows "dev_inv p0 p'"
proof (cases c)
  case Prepare
  then show ?thesis using assms prepare_result [of E p k _ p' k' p0] by (auto split: prod.splits)
next
  case Start
  then show ?thesis using assms by (auto split: prod.splits dest: start_inv [of _ _ _ _ _ _ p0])
next
  case Stop
  then show ?thesis using assms by (auto split: prod.splits dest: stop_result [of _ _ _ _ _ _ p0])
qed (use assms in \<open>auto simp: pcm_mmap_write_def pcm_mmap_read_def split: if_splits
       dest: pcm_write_inv [of _ _ _ _ _ _ _ _ _ p0] pcm_read_inv [of _ _ _ _ _ _ _ _ p0] transfer_inv [of _ _ _ _ _ _ _ _ _ p0]
         avail_update_inv [of _ _ _ _ _ _ p0] pcm_wait_inv [of _ _ _ _ _ _ _ _ p0]\<close>)

interpretation dev_calls: invariant_machine "pcm_exec E n" "\<lambda>(p, k). dev_inv p0 p" for E n p0
  by unfold_locales (auto dest: pcm_exec_inv)

text \<open>What a device keeps over any calls that return, mapped transfers included.\<close>

lemma returning_calls_keep:
  assumes "pcm_inv p" and "run_steps (pcm_exec E n) calls (p, k) = Some (p', k')"
  shows "dev_inv p p'"
  using dev_calls.run_inv [of p "(p, k)" E n calls "(p', k')"] assms by (simp add: dev_inv_def same_pcm_def)

section \<open>Calls through the driver return\<close>

text \<open>
  Overruns come to an end: \<open>left k\<close> is how many failed reads in a row the driver may still report with \<^verbatim>\<open>EPIPE\<close>, at most
  \<open>m\<close>; preparing and starting the device do not add to it.
\<close>

definition overruns_end :: "'k psys \<Rightarrow> ('k \<Rightarrow> nat) \<Rightarrow> nat \<Rightarrow> bool" where
  "overruns_end P left m \<longleftrightarrow> (\<forall>k. left k \<le> m)
     \<and> (\<forall>f k. left (snd (p_prepare P f k)) \<le> left k) \<and> (\<forall>f k. left (snd (p_start P f k)) \<le> left k)
     \<and> (\<forall>f fl st c k. left (snd (p_sync_ptr P f fl st c k)) \<le> left k)
     \<and> (\<forall>f n k r bs k'. p_readi P f n k = ((r, bs), k') \<and> r \<noteq> 0 \<and> p_errno P k' = EPIPE \<longrightarrow> left k' < left k)"

text \<open>A positive result of \<^verbatim>\<open>poll\<close> comes with one of the requested events, and \<^verbatim>\<open>errno\<close> is not negative.\<close>

definition poll_law :: "'k psys \<Rightarrow> bool" where
  "poll_law P \<longleftrightarrow> (\<forall>k. 0 \<le> p_errno P k)
     \<and> (\<forall>f t k r ev k'. p_poll P f t k = ((r, ev), k') \<and> 0 < r \<longrightarrow> ev AND (POLLIN OR POLLOUT OR POLLERR OR POLLNVAL) \<noteq> 0)"

lemma prepare_left: "overruns_end P left m \<Longrightarrow> pcm_prepare P p k = (x, k') \<Longrightarrow> left k' \<le> left k"
  by (cases "p_prepare P (pcm_fd p) k")
    (auto simp: pcm_prepare_def pcm_oops_def overruns_end_def Let_def split: if_splits dest: spec [of _ "pcm_fd p"]; metis snd_conv)

lemma sync_left: "overruns_end P left m \<Longrightarrow> pcm_sync_ptr P p fl k = (x, k') \<Longrightarrow> left k' \<le> left k"
  by (auto simp: pcm_sync_ptr_def overruns_end_def split: pcm_pointers.splits prod.splits; metis snd_conv)

lemma start_left:
  assumes law: "overruns_end P left m" and st: "pcm_start P p k = (x, k')"
  shows "left k' \<le> left k"
proof -
  obtain e p1 k1 where pr: "pcm_prepare P p k = ((e, p1), k1)" by (metis prod.exhaust)
  obtain y p2 k2 where sy: "(if flags p1 AND PCM_MMAP \<noteq> 0 then pcm_sync_ptr P p1 0 k1 else ((0, p1), k1)) = ((y, p2), k2)"
    by (metis prod.exhaust)
  obtain r k3 where s: "p_start P (pcm_fd p2) k2 = (r, k3)" by (metis prod.exhaust)
  have "left k1 \<le> left k" by (rule prepare_left [OF law pr])
  moreover have "left k2 \<le> left k1" using sy sync_left [OF law, of p1 0 k1] by (auto split: if_splits)
  moreover have "left k3 \<le> left k2" using law s unfolding overruns_end_def by (metis snd_conv)
  moreover have "k' = k1 \<or> k' = k3" using st pr sy s by (auto simp: pcm_start_def pcm_oops_def Let_def split: if_splits)
  ultimately show ?thesis by auto
qed

interpretation rd_end: ending_loop "read_step P f" "\<lambda>(p, k). dev_inv p0 p \<and> overruns_end P left m"
  "\<lambda>((r, p), k). dev_inv p0 p" "\<lambda>(p, k). left k" for P f p0 left m
proof unfold_locales
  fix s s' :: "pcm \<times> 'a"
  assume inv: "case s of (p, k) \<Rightarrow> dev_inv p0 p \<and> overruns_end P left m" and st: "read_step P f s = Some (Inl s')"
  obtain p k where s: "s = (p, k)" by (cases s)
  obtain p' k' where s': "s' = (p', k')" by (cases s')
  obtain e p1 k1 where go: "(if running p then ((0, p), k) else pcm_start P p k) = ((e, p1), k1)" by (metis prod.exhaust)
  obtain r bs k2 where rd: "p_readi P (pcm_fd p1) f k1 = ((r, bs), k2)" by (metis prod.exhaust)
  have law: "overruns_end P left m" and d: "dev_inv p0 p" using inv s by auto
  have "r \<noteq> 0" "p_errno P k2 = EPIPE" "k' = k2"
    using st s s' go rd by (auto simp: read_step_def Let_def split: if_splits prod.splits)
  then have "left k' < left k1" using law rd unfolding overruns_end_def by metis
  moreover have "left k1 \<le> left k" using go start_left [OF law, of p k] by (auto split: if_splits)
  ultimately show "(case s' of (p, k) \<Rightarrow> left k) < (case s of (p, k) \<Rightarrow> left k)" using s s' by simp
  show "case s' of (p, k) \<Rightarrow> dev_inv p0 p \<and> overruns_end P left m"
    using rd.iter_inv [of p0 s P f s'] st s d law s' by simp
next
  fix s and x :: "((int \<times> u8 list) \<times> pcm) \<times> 'a"
  assume "case s of (p, k) \<Rightarrow> dev_inv p0 p \<and> overruns_end P left m" and "read_step P f s = Some (Inr x)"
  then show "(\<lambda>((r, p), k). dev_inv p0 p) x" using rd.iter_post [of p0 s P f x] by (auto split: prod.splits)
qed (auto simp: read_step_def)

lemma pcm_read_ends:
  assumes "overruns_end P left m" and "m < fuel" and "xfer_frames p n \<noteq> None" and "dev_inv p0 p"
  shows "\<exists>r p' k'. pcm_read P fuel p n k = Some ((r, p'), k') \<and> dev_inv p0 p'"
proof -
  obtain f where f: "xfer_frames p n = Some f" using assms(3) by blast
  have "left k < fuel" using assms(1,2) unfolding overruns_end_def by (meson le_less_trans)
  then have "\<exists>x. run_loop fuel (read_step P f) (p, k) = Some x \<and> (case x of ((r, p'), k') \<Rightarrow> dev_inv p0 p')"
    using rd_end.finishes [of p0 P left m "(p, k)" fuel f] assms(1,4) by simp
  then show ?thesis using f assms(4) by (auto simp: pcm_read_def)
qed

lemma whole_frames:
  assumes "0 < unat (channels (config p))" and "unat (channels (config p)) < 2 ^ 27"
  shows "xfer_frames p n \<noteq> None"
proof -
  let ?c = "channels (config p)" and ?b = "pcm_format_to_bits (format (config p))"
  have b: "unat ?b = 16 \<or> unat ?b = 32" by (cases "format (config p)") simp_all
  then have "unat (?c * ?b) = unat ?c * unat ?b" using assms(2) by (auto simp: unat_word_ariths)
  then have "unat (?c * ?b div 8) \<noteq> 0" using assms(1) b by (auto simp: unat_div)
  then show ?thesis by (auto simp: xfer_frames_def Let_def)
qed

lemma pcm_state_ends:
  assumes "pointers p \<noteq> Null_pointers" and "dev_inv p0 p"
  shows "\<exists>r p' k'. pcm_state P p k = Some ((r, p'), k') \<and> dev_inv p0 p'"
proof -
  obtain e p1 k1 where s: "pcm_sync_ptr P p 0 k = ((e, p1), k1)" by (metis prod.exhaust)
  have "pointers p1 \<noteq> Null_pointers" using sync_ptr_result [OF s] assms(1) by (simp add: same_pcm_def)
  then show ?thesis
    using s dev_inv_sync [OF s assms(2)] by (cases "pointers p1") (auto simp: pcm_state_def read_status_def split: prod.split)
qed

lemma pcm_wait_ends:
  assumes law: "poll_law P" and "0 < fuel" and p: "pointers p \<noteq> Null_pointers" and d: "dev_inv p0 p"
  shows "\<exists>r p' k'. pcm_wait P fuel p t k = Some ((r, p'), k') \<and> dev_inv p0 p'"
proof -
  obtain n where n: "fuel = Suc n" using assms(2) by (cases fuel) auto
  obtain r ev k1 where po: "p_poll P (pcm_fd p) t k = ((r, ev), k1)" by (metis prod.exhaust)
  obtain st p1 k2 where ps: "pcm_state P p k1 = Some ((st, p1), k2)" "dev_inv p0 p1" using pcm_state_ends [OF p d] by metis
  have e: "p_errno P k1 \<noteq> - EINTR" using law unfolding poll_law_def by (metis neg_0_le_iff_le not_numeral_le_zero)
  have "ev AND (POLLIN OR POLLOUT) \<noteq> 0" if "0 < r" "ev AND (POLLERR OR POLLNVAL) = 0"
  proof -
    have "ev AND (POLLIN OR POLLOUT OR POLLERR OR POLLNVAL) \<noteq> 0" using law po that(1) unfolding poll_law_def by metis
    moreover have "ev AND (POLLIN OR POLLOUT OR POLLERR OR POLLNVAL) = (ev AND (POLLIN OR POLLOUT)) OR (ev AND (POLLERR OR POLLNVAL))"
      by (simp only: bit.conj_disj_distrib or.assoc)
    ultimately show ?thesis using that(2) by auto
  qed
  then show ?thesis using n po ps e d by (auto simp: pcm_wait_def wait_step_def)
qed

lemma pcm_avail_update_ends:
  assumes "pointers p \<noteq> Null_pointers"
  shows "\<exists>a p' k'. pcm_avail_update P p k = Some ((a, p'), k')"
proof -
  obtain e p1 k1 where s1: "pcm_sync_ptr P p 0 k = ((e, p1), k1)" by (metis prod.exhaust)
  obtain e2 p2 k2 where s2: "pcm_sync_ptr P p1 SNDRV_PCM_SYNC_PTR_HWSYNC k1 = ((e2, p2), k2)" by (metis prod.exhaust)
  have "pointers p2 \<noteq> Null_pointers"
    using sync_ptr_result [OF s1] sync_ptr_result [OF s2] assms by (simp add: same_pcm_def)
  then show ?thesis
    using s1 s2 by (cases "pointers p2")
      (auto simp: pcm_avail_update_def pcm_mmap_avail_def read_status_def read_control_def split: prod.split)
qed

text \<open>The calls that go through the driver.\<close>

fun driver_call :: "pcm_call \<Rightarrow> bool" where
  "driver_call (Mmap_write _ _) = False"
| "driver_call (Mmap_read _ _) = False"
| "driver_call _ = True"

lemma pcm_exec_ends:
  assumes laws: "overruns_end E left m" "poll_law E" and n: "m < n" "2 \<le> n" and c: "driver_call c"
    and ch: "0 < unat (channels (config p0))" "unat (channels (config p0)) < 2 ^ 27"
    and p0: "pointers p0 \<noteq> Null_pointers" and d: "dev_inv p0 p"
  shows "\<exists>p' k'. pcm_exec E n c (p, k) = Some (p', k') \<and> dev_inv p0 p'"
proof -
  have p: "pointers p \<noteq> Null_pointers" and cf: "config p = config p0" using d p0 by (auto simp: dev_inv_def same_pcm_def)
  have fr: "xfer_frames p b \<noteq> None" for b by (rule whole_frames) (use ch cf in simp_all)
  have "pcm_exec E n c (p, k) \<noteq> None"
  proof (cases c)
    case (Write dat b)
    obtain f where f: "xfer_frames p b = Some f" using fr by blast
    have "write_inv p (p, k)" using d by (simp add: write_inv_def dev_inv_def same_pcm_def)
    moreover have "attempts (p, k) < n" using n by (simp add: attempts_def)
    ultimately have "run_loop n (write_step E dat f) (p, k) \<noteq> None" using wr.finishes by blast
    then show ?thesis using Write f by (simp add: pcm_write_def)
  next
    case (Read b)
    then show ?thesis using pcm_read_ends [OF laws(1) n(1) fr d, of b k] by auto
  next
    case Avail_update
    then show ?thesis using pcm_avail_update_ends [OF p, of E k] by auto
  next
    case (Wait t)
    then show ?thesis using pcm_wait_ends [OF laws(2) _ p d, of n t k] n by auto
  qed (use c in \<open>simp_all split: prod.split\<close>)
  then show ?thesis using pcm_exec_inv [OF _ d, of E n c k] by (metis not_None_eq prod.exhaust)
qed

text \<open>
  (C34) The start and stop machine: take an open device with between 1 and $2^{27}$ channels whose status pointers are
  set, a driver that reports at most $m$ overruns in a row, and a \<^verbatim>\<open>poll\<close> that returns only for the events that are
  asked for. Then every sequence of calls through the driver (prepare, start, stop, write, read, wait, available frames)
  returns, a read after at most $m$ restarts, and leaves a device that is not running without being
  prepared, whose error text fits its 128-byte buffer, and whose file descriptor, flags, geometry and configuration are still
  those of \<^verbatim>\<open>pcm_open\<close>.
\<close>

theorem pcm_calls_invariant:
  assumes "overruns_end E left m" and "poll_law E" and "m < n" and "2 \<le> n" and "list_all driver_call calls"
    and "0 < unat (channels (config p))" and "unat (channels (config p)) < 2 ^ 27"
    and "pointers p \<noteq> Null_pointers" and "pcm_inv p"
  shows "\<exists>p' k'. run_steps (pcm_exec E n) calls (p, k) = Some (p', k')
    \<and> (running p' \<longrightarrow> prepared p') \<and> length (error p') < 128 \<and> same_pcm p p'"
proof -
  have step: "\<exists>q' k'. pcm_exec E n c (q, k) = Some (q', k') \<and> dev_inv p q'" if "driver_call c" "dev_inv p q" for c q k
    by (rule pcm_exec_ends [OF assms(1-4) that(1) assms(6-8) that(2)])
  have "\<exists>q' k'. run_steps (pcm_exec E n) cs (q, k) = Some (q', k') \<and> dev_inv p q'"
    if "list_all driver_call cs" "dev_inv p q" for cs q k
    using that
  proof (induction cs arbitrary: q k)
    case (Cons c cs)
    then obtain q1 k1 where "pcm_exec E n c (q, k) = Some (q1, k1)" "dev_inv p q1" using step [of c q k] by auto
    then show ?case using Cons.IH [of q1 k1] Cons.prems(1) by simp
  qed simp
  from this [OF assms(5), of p k] show ?thesis using assms(9) by (auto simp: dev_inv_def same_pcm_def pcm_inv_def)
qed

text \<open>A driver for the witness on which the first read overruns: the state counts the overruns that are still to come.\<close>

definition overrun_psys :: "nat psys" where
  "overrun_psys =
     \<lparr>p_errno = (\<lambda>k. EPIPE), p_strerror = (\<lambda>e. ''error''), p_alloc = (\<lambda>k. (True, k)),
      p_open = (\<lambda>f k. (5, k)), p_close = (\<lambda>f k. k), p_info = (\<lambda>f k. (0, k)),
      p_hw_refine = (\<lambda>f h k. ((0, h), k)), p_hw_params = (\<lambda>f h k. ((0, h), k)),
      p_sw_params = (\<lambda>f w k. (0, k)), p_ttstamp = (\<lambda>f k. (0, k)),
      p_mmap_buffer = (\<lambda>f n k. (True, k)), p_munmap_buffer = (\<lambda>f n k. k),
      p_mmap_status = (\<lambda>f k. (False, k)), p_mmap_control = (\<lambda>f k. (False, k)),
      p_munmap_status = (\<lambda>f k. k), p_munmap_control = (\<lambda>f k. k),
      p_sync_ptr = (\<lambda>f fl st c k. ((0, st, c), k)),
      p_status = (\<lambda>f k. (zero_status, k)), p_control = (\<lambda>f k. (\<lparr>appl_ptr = 0, avail_min = 1\<rparr>, k)),
      p_put_control = (\<lambda>f c k. k), p_prepare = (\<lambda>f k. (0, k)), p_start = (\<lambda>f k. (0, k)),
      p_drop = (\<lambda>f k. (0, k)), p_writei = (\<lambda>f d n k. (0, k)),
      p_readi = (\<lambda>f n k. if k = 0 then ((0, []), 1) else ((- 1, []), 0)),
      p_poll = (\<lambda>f t k. ((1, POLLIN), k)), p_buf_read = (\<lambda>f off n k. ([], k)), p_buf_write = (\<lambda>f off xs k. k)\<rparr>"

lemma overrun_laws: "overruns_end overrun_psys (min 1) 1" "poll_law overrun_psys"
  by (auto simp: overruns_end_def poll_law_def overrun_psys_def)

lemma pcm_calls_invariant_witness:
  "\<exists>p' k'. run_steps (pcm_exec overrun_psys 2) [Prepare, Start, Read 4, Wait 10, Read 4, Stop]
       (demo_pcm\<lparr>flags := PCM_IN\<rparr>, 1) = Some (p', k') \<and> length (error p') < 128 \<and> same_pcm (demo_pcm\<lparr>flags := PCM_IN\<rparr>) p'"
proof -
  let ?p = "demo_pcm\<lparr>flags := PCM_IN\<rparr>" and ?calls = "[Prepare, Start, Read 4, Wait 10, Read 4, Stop]"
  have p: "0 < unat (channels (config ?p))" "unat (channels (config ?p)) < 2 ^ 27" "pointers ?p \<noteq> Null_pointers" "pcm_inv ?p"
    by (simp_all add: demo_pcm_def zero_pcm_def demo_pcm_config_def pcm_inv_def)
  have "list_all driver_call ?calls" by simp
  from pcm_calls_invariant [OF overrun_laws _ _ this p, of 2 1] show ?thesis by auto
qed

section \<open>Opening\<close>

lemma open_fail_not_ready:
  "open_fail_close E x = (Pcm p, k) \<Longrightarrow> pcm_fd p = - 1" "open_fail E x = (Pcm p, k) \<Longrightarrow> pcm_fd p = - 1"
  by (auto simp: open_fail_close_def open_fail_def split: prod.splits)

lemma mmap_status_result:
  "pcm_hw_mmap_status E p k = ((0, p'), k') \<Longrightarrow>
   pointers p' \<noteq> Null_pointers \<and> same_pcm (p\<lparr>pointers := pointers p'\<rparr>) p' \<and> running p' = running p
   \<and> prepared p' = prepared p \<and> error p' = error p"
  by (auto simp: pcm_hw_mmap_status_def Let_def pcm_sync_ptr_def same_pcm_def
      split: pcm_pointers.splits prod.splits if_splits)

lemma mmap_status_code: "fst (fst (pcm_hw_mmap_status E p k)) \<in> {0, - ENOMEM}"
  by (auto simp: pcm_hw_mmap_status_def Let_def split: pcm_pointers.splits prod.splits if_splits)

lemma open_finish_ready:
  assumes "open_finish E p k = (Pcm p', k')" and "0 \<le> pcm_fd p'"
  shows "pointers p' \<noteq> Null_pointers \<and> same_pcm (p\<lparr>pointers := pointers p'\<rparr>) p' \<and> running p' = running p
    \<and> prepared p' = prepared p \<and> error p' = error p"
proof -
  obtain r p1 k1 where h: "pcm_hw_mmap_status E p k = ((r, p1), k1)" by (cases "pcm_hw_mmap_status E p k") auto
  have r: "r = 0"
    using mmap_status_code [of E p k] h assms by (auto simp: open_finish_def dest!: open_fail_not_ready(2))
  have "p' = p1\<lparr>underruns := 0\<rparr>"
    using assms h r by (auto simp: open_finish_def dest!: open_fail_not_ready(2) split: if_splits prod.splits)
  then show ?thesis using mmap_status_result [of E p k p1 k1] h r by (simp add: same_pcm_def)
qed

lemma open_sw_ready:
  assumes res: "open_sw E cfg q k = Some ((cfg', Pcm p), k')" and ready: "0 \<le> pcm_fd p"
    and fresh: "\<not> running q" "\<not> prepared q" "error q = []"
  shows "cfg' = Some cfg \<and> pcm_boundary 32 (buffer_size p) = Some (boundary p) \<and> buffer_size p = buffer_size q
    \<and> \<not> running p \<and> \<not> prepared p \<and> error p = [] \<and> pointers p \<noteq> Null_pointers \<and> flags p = flags q
    \<and> mmap_buffer p = mmap_buffer q \<and> pcm_fd p = pcm_fd q
    \<and> config p = (config q)\<lparr>start_threshold := start_thr (flags q) cfg, stop_threshold := stop_thr (flags q) cfg\<rparr>"
proof -
  obtain b where b: "pcm_boundary 32 (buffer_size q) = Some b"
    using res by (auto simp: open_sw_def Let_def elim!: bind_SomeE)
  let ?q = "q\<lparr>config := (config q)\<lparr>start_threshold := start_thr (flags q) cfg, stop_threshold := stop_thr (flags q) cfg\<rparr>,
      boundary := b\<rparr>"
  obtain r k1 where sw: "p_sw_params E (pcm_fd q) (open_sw_params (flags q) cfg (buffer_size q)) k = (r, k1)"
    by (cases "p_sw_params E (pcm_fd q) (open_sw_params (flags q) cfg (buffer_size q)) k")
  have fin: "open_finish E ?q k1 = (Pcm p, k')" and c: "cfg' = Some cfg"
    using res b sw ready
    by (auto simp: open_sw_def with_config_def Let_def dest!: open_fail_not_ready(2) split: if_splits prod.splits)
  show ?thesis using open_finish_ready [OF fin ready] c b fresh by (auto simp: same_pcm_def)
qed

text \<open>The configuration with the geometry that the driver granted.\<close>

definition granted :: "pcm_config \<Rightarrow> snd_pcm_hw_params \<Rightarrow> pcm_config" where
  "granted cfg params = cfg\<lparr>cfg_period_size := param_get_int params SNDRV_PCM_HW_PARAM_PERIOD_SIZE,
     cfg_period_count := param_get_int params SNDRV_PCM_HW_PARAM_PERIODS\<rparr>"

lemma open_hw_ready:
  assumes res: "open_hw E cfg q k = Some ((cfg', Pcm p), k')" and ready: "0 \<le> pcm_fd p"
    and fresh: "\<not> running q" "\<not> prepared q" "error q = []" "\<not> mmap_buffer q"
  shows "\<exists>c k1 params k2. p_hw_params E (pcm_fd p) (open_params (flags q) cfg) k1 = ((0, params), k2) \<and> c = granted cfg params
    \<and> cfg' = Some c \<and> buffer_size p = cfg_period_count c * cfg_period_size c
    \<and> pcm_boundary 32 (buffer_size p) = Some (boundary p) \<and> \<not> running p \<and> \<not> prepared p \<and> error p = []
    \<and> pointers p \<noteq> Null_pointers \<and> flags p = flags q \<and> (mmap_buffer p \<longleftrightarrow> flags q AND PCM_MMAP \<noteq> 0)
    \<and> config p = (config q)\<lparr>start_threshold := start_thr (flags q) c, stop_threshold := stop_thr (flags q) c\<rparr>"
proof -
  obtain r hp k1 where h: "p_hw_params E (pcm_fd q) (open_params (flags q) cfg) k = ((r, hp), k1)"
    by (cases "p_hw_params E (pcm_fd q) (open_params (flags q) cfg) k") auto
  let ?c = "cfg\<lparr>cfg_period_size := param_get_int hp SNDRV_PCM_HW_PARAM_PERIOD_SIZE,
                cfg_period_count := param_get_int hp SNDRV_PCM_HW_PARAM_PERIODS\<rparr>"
  let ?q = "q\<lparr>buffer_size := cfg_period_count ?c * cfg_period_size ?c\<rparr>"
  have r: "r = 0" using res h ready
    by (auto simp: open_hw_def with_config_def Let_def dest!: open_fail_not_ready(1) split: if_splits prod.splits)
  have c: "?c = granted cfg hp" by (simp add: granted_def)
  show ?thesis
  proof (cases "flags q AND PCM_MMAP = 0")
    case True
    then have "open_sw E ?c ?q k1 = Some ((cfg', Pcm p), k')"
      using res h ready
      by (auto simp: open_hw_def with_config_def Let_def dest!: open_fail_not_ready(1) split: if_splits prod.splits)
    from open_sw_ready [OF this ready] fresh have o: "pcm_fd p = pcm_fd q" "cfg' = Some ?c \<and> pcm_boundary 32 (buffer_size p) = Some (boundary p)
        \<and> buffer_size p = buffer_size ?q \<and> \<not> running p \<and> \<not> prepared p \<and> error p = [] \<and> pointers p \<noteq> Null_pointers
        \<and> flags p = flags q \<and> mmap_buffer p = mmap_buffer q
        \<and> config p = (config q)\<lparr>start_threshold := start_thr (flags q) ?c, stop_threshold := stop_thr (flags q) ?c\<rparr>" by auto
    show ?thesis
      by (intro exI [of _ ?c] exI [of _ k] exI [of _ hp] exI [of _ k1]) (use o h r c fresh True in auto)
  next
    case False
    then obtain k2 where "open_sw E ?c (?q\<lparr>mmap_buffer := True\<rparr>) k2 = Some ((cfg', Pcm p), k')"
      using res h ready
      by (auto simp: open_hw_def with_config_def Let_def dest!: open_fail_not_ready(1) split: if_splits prod.splits)
    from open_sw_ready [OF this ready] fresh have o: "pcm_fd p = pcm_fd q" "cfg' = Some ?c \<and> pcm_boundary 32 (buffer_size p) = Some (boundary p)
        \<and> buffer_size p = buffer_size ?q \<and> \<not> running p \<and> \<not> prepared p \<and> error p = [] \<and> pointers p \<noteq> Null_pointers
        \<and> flags p = flags q \<and> mmap_buffer p
        \<and> config p = (config q)\<lparr>start_threshold := start_thr (flags q) ?c, stop_threshold := stop_thr (flags q) ?c\<rparr>" by auto
    show ?thesis
      by (intro exI [of _ ?c] exI [of _ k] exI [of _ hp] exI [of _ k1]) (use o h r c False in auto)
  qed
qed

lemma pcm_open_ready:
  assumes res: "pcm_open E cardno device fl (Some cfg) k = Some ((cfg', Pcm p), k')" and ready: "0 \<le> pcm_fd p"
  shows "\<exists>c k1 params k2. p_hw_params E (pcm_fd p) (open_params fl cfg) k1 = ((0, params), k2) \<and> c = granted cfg params
    \<and> cfg' = Some c \<and> buffer_size p = cfg_period_count c * cfg_period_size c
    \<and> pcm_boundary 32 (buffer_size p) = Some (boundary p) \<and> \<not> running p \<and> \<not> prepared p \<and> error p = []
    \<and> pointers p \<noteq> Null_pointers \<and> flags p = fl \<and> (mmap_buffer p \<longleftrightarrow> fl AND PCM_MMAP \<noteq> 0)
    \<and> (fl AND PCM_NOIRQ \<noteq> 0 \<longrightarrow> mmap_buffer p)
    \<and> config p = cfg\<lparr>start_threshold := start_thr fl c, stop_threshold := stop_thr fl c\<rparr>"
proof -
  let ?p = "\<lambda>f. (zero_pcm cfg fl)\<lparr>pcm_fd := f\<rparr>"
  have z: "flags (zero_pcm cfg fl) = fl" "config (zero_pcm cfg fl) = cfg" "\<not> running (zero_pcm cfg fl)"
    "\<not> prepared (zero_pcm cfg fl)" "error (zero_pcm cfg fl) = []" "\<not> mmap_buffer (zero_pcm cfg fl)"
    by (simp_all add: zero_pcm_def)
  obtain ok k1 where al: "p_alloc E k = (ok, k1)" by (cases "p_alloc E k")
  obtain f k2 where f: "p_open E (pcm_path cardno device fl) k1 = (f, k2)"
    by (cases "p_open E (pcm_path cardno device fl) k1")
  obtain r k3 where i: "p_info E f k2 = (r, k3)" by (cases "p_info E f k2")
  have ok: ok using res al by (auto simp: pcm_open_def split: if_splits)
  have fd: "\<not> f < 0" using res al ok f ready
    by (auto simp: pcm_open_def Let_def pcm_oops_def split: if_splits)
  have r: "r = 0" using res al ok f fd i ready
    by (auto simp: pcm_open_def with_config_def Let_def dest!: open_fail_not_ready(1) split: if_splits prod.splits)
  show ?thesis
  proof (cases "fl AND PCM_NOIRQ = 0")
    case True
    then have "open_hw E cfg (?p f) k3 = Some ((cfg', Pcm p), k')"
      using res al ok f fd i r by (simp add: pcm_open_def Let_def)
    from open_hw_ready [OF this ready] show ?thesis using z True by auto
  next
    case False
    then have mm: "fl AND PCM_MMAP \<noteq> 0" using res al ok f fd i r ready
      by (auto simp: pcm_open_def with_config_def Let_def dest!: open_fail_not_ready(2) split: if_splits prod.splits)
    then have "open_hw E cfg ((?p f)\<lparr>noirq_frames_per_msec := cfg_rate cfg div 1000\<rparr>) k3 = Some ((cfg', Pcm p), k')"
      using res al ok f fd i r False by (simp add: pcm_open_def Let_def)
    from open_hw_ready [OF this ready] show ?thesis using z mm by auto
  qed
qed

text \<open>
  (C36) Opening a device, if the driver grants only buffers that are not empty and have fewer than $2^{31}$ frames:
  \<^verbatim>\<open>pcm_open\<close> returns. A device that it returns as ready has the geometry that the driver granted to
  the request: the caller's configuration is updated to the granted period size and number of periods, the
  buffer size is their product, the boundary belongs to that size, the device is neither prepared nor running, its status
  pointers are valid, its sample buffer is mapped exactly with \<^verbatim>\<open>PCM_MMAP\<close>, interrupt-free operation implies a mapped buffer, and
  thresholds that the caller gave are kept. (The defaults that replace a threshold of 0 are not those of
  the header's comment.)
\<close>

theorem pcm_open_result:
  assumes law: "grant_law E"
  shows "\<exists>cfg' h k'. pcm_open E cardno device fl (Some cfg) k = Some ((cfg', h), k')
    \<and> (\<forall>p. h = Pcm p \<longrightarrow> 0 \<le> pcm_fd p \<longrightarrow>
        (\<exists>k1 params k2. p_hw_params E (pcm_fd p) (open_params fl cfg) k1 = ((0, params), k2) \<and> cfg' = Some (granted cfg params)
          \<and> buffer_size p = cfg_period_count (granted cfg params) * cfg_period_size (granted cfg params))
        \<and> pcm_boundary 32 (buffer_size p) = Some (boundary p) \<and> \<not> running p \<and> \<not> prepared p \<and> error p = []
        \<and> pointers p \<noteq> Null_pointers \<and> flags p = fl \<and> (mmap_buffer p \<longleftrightarrow> fl AND PCM_MMAP \<noteq> 0)
        \<and> (fl AND PCM_NOIRQ \<noteq> 0 \<longrightarrow> mmap_buffer p)
        \<and> (start_threshold cfg \<noteq> 0 \<longrightarrow> start_threshold (config p) = start_threshold cfg)
        \<and> (stop_threshold cfg \<noteq> 0 \<longrightarrow> stop_threshold (config p) = stop_threshold cfg)
        \<and> (\<exists>a b. config p = cfg\<lparr>start_threshold := a, stop_threshold := b\<rparr>))"
proof -
  obtain cfg' h k' where o: "pcm_open E cardno device fl (Some cfg) k = Some ((cfg', h), k')"
    using pcm_open_defined [OF law, of cardno device fl "Some cfg" k] by (metis not_None_eq prod.exhaust)
  show ?thesis
  proof (rule exI [of _ cfg'], rule exI [of _ h], rule exI [of _ k'], intro conjI allI impI)
    fix p assume p: "h = Pcm p" "0 \<le> pcm_fd p"
    note r = pcm_open_ready [OF o [unfolded p(1)] p(2)]
    show "\<exists>k1 params k2. p_hw_params E (pcm_fd p) (open_params fl cfg) k1 = ((0, params), k2) \<and> cfg' = Some (granted cfg params)
          \<and> buffer_size p = cfg_period_count (granted cfg params) * cfg_period_size (granted cfg params)" using r by blast
    show "pcm_boundary 32 (buffer_size p) = Some (boundary p)" "\<not> running p" "\<not> prepared p" "error p = []"
      "pointers p \<noteq> Null_pointers" "flags p = fl" "mmap_buffer p \<longleftrightarrow> fl AND PCM_MMAP \<noteq> 0" using r by blast+
    show "\<exists>a b. config p = cfg\<lparr>start_threshold := a, stop_threshold := b\<rparr>" using r by blast
    show "mmap_buffer p" if "fl AND PCM_NOIRQ \<noteq> 0" using r that by blast
    show "start_threshold (config p) = start_threshold cfg" if "start_threshold cfg \<noteq> 0"
      using r that by (auto simp: start_thr_def granted_def)
    show "stop_threshold (config p) = stop_threshold cfg" if "stop_threshold cfg \<noteq> 0"
      using r that by (auto simp: stop_thr_def granted_def)
  qed (rule o)
qed

text \<open>A driver for the witness: four periods of 256 frames, whatever was asked for.\<close>

definition granting_psys :: "(nat \<Rightarrow> u8) psys" where
  "granting_psys = demo_psys\<lparr>p_hw_params := (\<lambda>f h k.
     ((0, param_set_int (param_set_int param_init SNDRV_PCM_HW_PARAM_PERIOD_SIZE 256) SNDRV_PCM_HW_PARAM_PERIODS 4), k))\<rparr>"

lemma granting_law: "grant_law granting_psys"
proof -
  have "unat (param_get_int (param_set_int (param_set_int param_init SNDRV_PCM_HW_PARAM_PERIOD_SIZE 256) SNDRV_PCM_HW_PARAM_PERIODS 4)
      SNDRV_PCM_HW_PARAM_PERIODS * param_get_int (param_set_int (param_set_int param_init SNDRV_PCM_HW_PARAM_PERIOD_SIZE 256)
      SNDRV_PCM_HW_PARAM_PERIODS 4) SNDRV_PCM_HW_PARAM_PERIOD_SIZE) = 1024"
    by code_simp
  then show ?thesis by (simp add: grant_law_def granting_psys_def Let_def)
qed

lemma demo_open:
  "case pcm_open granting_psys 0 0 PCM_MMAP (Some demo_pcm_config) (\<lambda>_. 0) of
     Some ((_, Pcm p), _) \<Rightarrow> pcm_fd p = 5 \<and> buffer_size p = 1024 | _ \<Rightarrow> False"
  by code_simp

lemma pcm_open_result_witness:
  "\<exists>c p k'. pcm_open granting_psys 0 0 PCM_MMAP (Some demo_pcm_config) (\<lambda>_. 0) = Some ((Some c, Pcm p), k')
     \<and> buffer_size p = 1024 \<and> cfg_period_count c * cfg_period_size c = 1024 \<and> mmap_buffer p"
proof -
  obtain cfg' h k' where o: "pcm_open granting_psys 0 0 PCM_MMAP (Some demo_pcm_config) (\<lambda>_. 0) = Some ((cfg', h), k')"
    and r: "\<And>p. h = Pcm p \<Longrightarrow> 0 \<le> pcm_fd p \<Longrightarrow> mmap_buffer p \<and> (\<exists>c. cfg' = Some c \<and> buffer_size p = cfg_period_count c * cfg_period_size c)"
    using pcm_open_result [OF granting_law, of 0 0 PCM_MMAP demo_pcm_config "\<lambda>_. 0"] by (auto; blast)
  obtain p where p: "h = Pcm p" "pcm_fd p = 5" "buffer_size p = 1024" using demo_open o by (cases h) auto
  then show ?thesis using r [OF p(1)] o by auto
qed

text \<open>
  Frames and bytes: converting a number of frames to bytes and back gives the number, as
  long as the size in bytes fits 32 bits and the configuration has a channel; a configuration
  without channels divides by zero.
\<close>

theorem bytes_frames_roundtrip:
  assumes "0 < unat (channels (config p))"
    and "unat n * (unat (channels (config p)) * (unat (pcm_format_to_bits (format (config p))) div 8)) < 2 ^ 32"
    and "unat (channels (config p)) < 2 ^ 29"
  shows "pcm_bytes_to_frames p (pcm_frames_to_bytes p n) = Some n
    \<and> (channels (config q) = 0 \<longrightarrow> pcm_bytes_to_frames q n = None)"
proof -
  let ?c = "channels (config p)" and ?s = "drop_bit 3 (pcm_format_to_bits (format (config p)))"
  have s: "unat ?s = unat (pcm_format_to_bits (format (config p))) div 8" "unat ?s \<in> {2, 4}"
    by (cases "format (config p)"; simp)+
  have cs: "unat (?c * ?s) = unat ?c * unat ?s" using assms(3) s(2) by (auto simp: unat_word_ariths)
  then have nz: "?c * ?s \<noteq> 0" using assms(1) s(2) by (auto simp: word_unat_eq_iff)
  have "pcm_frames_to_bytes p n = n * (?c * ?s)" by (simp add: pcm_frames_to_bytes_def mult.assoc)
  moreover have "unat (n * (?c * ?s)) = unat n * unat (?c * ?s)" using assms(2) cs s(1) by (simp add: unat_word_ariths)
  ultimately have "unat (pcm_frames_to_bytes p n div (?c * ?s)) = unat n"
    using nz by (simp add: unat_div_distrib word_unat_eq_iff)
  then have "pcm_frames_to_bytes p n div (?c * ?s) = n" by (rule word_unat_eq_iff [THEN iffD2])
  then show ?thesis using nz by (simp add: pcm_bytes_to_frames_def Let_def)
qed

lemma bytes_frames_roundtrip_witness:
  "pcm_bytes_to_frames demo_pcm (pcm_frames_to_bytes demo_pcm 1024) = Some 1024"
  using bytes_frames_roundtrip [of demo_pcm 1024] by (simp add: demo_pcm_def zero_pcm_def demo_pcm_config_def)

text \<open>\<^verbatim>\<open>PCM_OUT\<close> being 0, \<^verbatim>\<open>pcm_mmap_write\<close> does not reject a capture device.\<close>

lemma mmap_write_accepts_capture:
  "pcm_mmap_write E fuel (p\<lparr>flags := PCM_IN OR PCM_MMAP\<rparr>) buf n k
   = pcm_mmap_transfer E fuel (p\<lparr>flags := PCM_IN OR PCM_MMAP\<rparr>) buf n k"
  by (simp add: pcm_mmap_write_def)

end
