(* ===== verification/Pcm_Ring.thy ===== *)
theory Pcm_Ring
  imports Pcm_Props
begin

text \<open>
  The ring buffer of the mapped transfer. The hardware and the application each have an
  unbounded frame count; the program sees the counts modulo \<^verbatim>\<open>boundary\<close> and the buffer at the
  counts modulo \<^verbatim>\<open>buffer_size\<close>. This theory shows that the program's arithmetic on the wrapped
  positions is arithmetic on the counts, and from it that a transfer copies inside both buffers
  and puts every frame at its place in the ring.
\<close>

section \<open>Wrapped positions stand for frame counts\<close>

definition at_pos :: "nat \<Rightarrow> u32 \<Rightarrow> nat \<Rightarrow> bool" where
  "at_pos B w N \<longleftrightarrow> unat w \<le> B \<and> unat w mod B = N mod B"

lemma at_pos_dvd: "at_pos B w N \<Longrightarrow> int B dvd int N - int (unat w)"
  unfolding at_pos_def by (metis mod_eq_dvd_iff of_nat_mod)

lemma sint_of_int_small: "- (2 ^ 31) \<le> x \<Longrightarrow> x < 2 ^ 31 \<Longrightarrow> sint (word_of_int x :: u32) = x"
  by (simp add: signed_of_int signed_take_bit_int_eq_self)

lemma unat_of_int_small: "0 \<le> x \<Longrightarrow> x < 2 ^ 32 \<Longrightarrow> unat (word_of_int x :: u32) = nat x"
  by (simp add: unsigned_of_int take_bit_int_eq_self)

lemma unat_as: "(x :: u32) = word_of_int y \<Longrightarrow> 0 \<le> y \<Longrightarrow> y < 2 ^ 32 \<Longrightarrow> y = m \<Longrightarrow> unat x = nat m"
  by (simp add: unat_of_int_small)

lemma word_of_int_unat: "(w :: u32) = word_of_int (int (unat w))"
  by simp

lemma residue: "(B :: int) dvd D - v \<Longrightarrow> 0 \<le> D \<Longrightarrow> D < B \<Longrightarrow> D = v mod B"
  by (metis mod_eq_dvd_iff mod_pos_pos_trivial)

text \<open>The two wrap-arounds of an integer that is off by at most one modulus.\<close>

lemma mod_below: "- (B :: int) \<le> v \<Longrightarrow> v < 0 \<Longrightarrow> v mod B = v + B"
  by (subst mod_add_self2 [symmetric], rule mod_pos_pos_trivial) simp_all

lemma mod_above: "(B :: int) \<le> v \<Longrightarrow> v < 2 * B \<Longrightarrow> v mod B = v - B"
  by (subst minus_mod_self2 [symmetric], rule mod_pos_pos_trivial) simp_all

lemma playback_avail_words:
  assumes "0 < b" "b < B" "B + b < 2 ^ 31" "h \<le> B" "a \<le> B"
    and hw: "hw = word_of_int (int h)" and ap: "appl = word_of_int (int a)"
    and p: "buffer_size p = word_of_int (int b)" "boundary p = word_of_int (int B)"
    and nz: "(int h + int b - int a) mod int B \<noteq> 0"
  shows "unat (pcm_mmap_playback_avail p hw appl) = nat ((int h + int b - int a) mod int B)"
proof -
  define v where "v = int h + int b - int a"
  have w: "hw + buffer_size p - appl = word_of_int v" using hw ap p by (simp add: v_def)
  have r: "- int B < v" "v < 2 * int B" using assms(1,2,4,5) by (auto simp: v_def)
  have sv: "sint (word_of_int v :: u32) = v" using r assms(1-5) by (intro sint_of_int_small) (auto simp: v_def)
  have sB: "sint (boundary p) = int B" unfolding p using assms(1-3) by (intro sint_of_int_small) auto
  consider "v < 0" | "0 \<le> v" "v < int B" | "v = int B" | "int B < v" by linarith
  then show ?thesis unfolding v_def [symmetric]
  proof cases
    case 1
    then have "pcm_mmap_playback_avail p hw appl = word_of_int (v + int B)"
      using w sv p by (simp add: pcm_mmap_playback_avail_def)
    then show "unat (pcm_mmap_playback_avail p hw appl) = nat (v mod int B)"
      by (rule unat_as) (use mod_below [of "int B" v] r 1 assms(1-3) in auto)
  next
    case 2
    then have "pcm_mmap_playback_avail p hw appl = word_of_int v"
      using w sv sB by (simp add: pcm_mmap_playback_avail_def)
    then show "unat (pcm_mmap_playback_avail p hw appl) = nat (v mod int B)"
      using 2 assms(1-3) by (simp add: unat_of_int_small)
  next
    case 3
    then show "unat (pcm_mmap_playback_avail p hw appl) = nat (v mod int B)" using nz by (simp add: v_def)
  next
    case 4
    then have "pcm_mmap_playback_avail p hw appl = word_of_int (v - int B)"
      using w sv sB p by (simp add: pcm_mmap_playback_avail_def)
    then show "unat (pcm_mmap_playback_avail p hw appl) = nat (v mod int B)"
      by (rule unat_as) (use mod_above [of "int B" v] r 4 assms(1-3) in auto)
  qed
qed

lemma capture_avail_words:
  assumes "0 < B" "B < 2 ^ 31" "h < B" "a \<le> B"
    and hw: "hw = word_of_int (int h)" and ap: "appl = word_of_int (int a)" and p: "boundary p = word_of_int (int B)"
  shows "unat (pcm_mmap_capture_avail p hw appl) = nat ((int h - int a) mod int B)"
proof -
  define v where "v = int h - int a"
  have w: "hw - appl = word_of_int v" using hw ap by (simp add: v_def)
  have r: "- int B \<le> v" "v < int B" using assms(3,4) by (auto simp: v_def)
  have sv: "sint (word_of_int v :: u32) = v" using r assms(2) by (intro sint_of_int_small) auto
  show ?thesis unfolding v_def [symmetric]
  proof (cases "v < 0")
    case True
    then have "pcm_mmap_capture_avail p hw appl = word_of_int (v + int B)"
      using w sv p by (simp add: pcm_mmap_capture_avail_def)
    then show "unat (pcm_mmap_capture_avail p hw appl) = nat (v mod int B)"
      by (rule unat_as) (use mod_below [of "int B" v] r True assms(1,2) in auto)
  next
    case False
    then have "pcm_mmap_capture_avail p hw appl = word_of_int v"
      using w sv by (simp add: pcm_mmap_capture_avail_def)
    then show "unat (pcm_mmap_capture_avail p hw appl) = nat (v mod int B)"
      using r False assms(2) by (simp add: unat_of_int_small)
  qed
qed

text \<open>A difference of counts modulo the boundary is the difference of the wrapped positions.\<close>

lemma count_diff:
  assumes "at_pos B hw H" and "at_pos B appl A" and "A \<le> H + b" and "H + b - A < B"
  shows "int (H + b - A) = (int (unat hw) + int b - int (unat appl)) mod int B"
proof (rule residue)
  have "int B dvd (int H - int (unat hw)) - (int A - int (unat appl))"
    using at_pos_dvd [OF assms(1)] at_pos_dvd [OF assms(2)] by (rule dvd_diff)
  moreover have "int (H + b - A) - (int (unat hw) + int b - int (unat appl))
      = (int H - int (unat hw)) - (int A - int (unat appl))"
    using assms(3) by (simp add: of_nat_diff)
  ultimately show "int B dvd int (H + b - A) - (int (unat hw) + int b - int (unat appl))" by (simp only:)
qed (use assms(4) in simp_all)

lemma playback_avail_count:
  assumes "0 < unat (buffer_size p)" "unat (buffer_size p) < unat (boundary p)"
    "unat (boundary p) + unat (buffer_size p) < 2 ^ 31"
    and "at_pos (unat (boundary p)) hw H" and "at_pos (unat (boundary p)) appl A"
    and "A < H + unat (buffer_size p)" "H + unat (buffer_size p) - A < unat (boundary p)"
  shows "unat (pcm_mmap_playback_avail p hw appl) = H + unat (buffer_size p) - A"
proof -
  have d: "int (H + unat (buffer_size p) - A)
      = (int (unat hw) + int (unat (buffer_size p)) - int (unat appl)) mod int (unat (boundary p))"
    by (rule count_diff [OF assms(4,5)]) (use assms(6,7) in simp_all)
  then have "(int (unat hw) + int (unat (buffer_size p)) - int (unat appl)) mod int (unat (boundary p)) \<noteq> 0"
    using assms(6) by linarith
  from playback_avail_words [OF assms(1-3) _ _ word_of_int_unat word_of_int_unat word_of_int_unat word_of_int_unat this]
  show ?thesis using assms(4,5) by (simp only: at_pos_def d [symmetric] nat_int)
qed

text \<open>
  (C35) Frames available, from the wrapped positions: for capture the difference of the hardware's
  and the application's frame counts, for playback the buffer size minus the frames written and
  not yet played, as long as the buffer is not completely full; both hold across every
  wrap-around of the positions and of the 32-bit arithmetic.
\<close>

theorem avail_counts_frames:
  assumes "0 < unat (buffer_size p)" "unat (buffer_size p) < unat (boundary p)"
    "unat (boundary p) + unat (buffer_size p) < 2 ^ 31"
    and "at_pos (unat (boundary p)) hw H" "unat hw < unat (boundary p)" and "at_pos (unat (boundary p)) appl A"
  shows "(A \<le> H \<and> H - A < unat (boundary p) \<longrightarrow> unat (pcm_mmap_capture_avail p hw appl) = H - A)
    \<and> (A < H + unat (buffer_size p) \<and> H + unat (buffer_size p) - A < unat (boundary p) \<longrightarrow>
         unat (pcm_mmap_playback_avail p hw appl) = H + unat (buffer_size p) - A)"
proof (intro conjI impI)
  assume A: "A \<le> H \<and> H - A < unat (boundary p)"
  have d: "int (H + 0 - A) = (int (unat hw) + int 0 - int (unat appl)) mod int (unat (boundary p))"
    by (rule count_diff [OF assms(4,6)]) (use A in simp_all)
  have "unat (pcm_mmap_capture_avail p hw appl) = nat ((int (unat hw) - int (unat appl)) mod int (unat (boundary p)))"
    by (rule capture_avail_words [OF _ _ assms(5) _ word_of_int_unat word_of_int_unat word_of_int_unat])
      (use assms in \<open>simp_all add: at_pos_def\<close>)
  then show "unat (pcm_mmap_capture_avail p hw appl) = H - A"
    using arg_cong [OF d, of nat] by (simp only: add_0_right int_ops(1) nat_int)
qed (use playback_avail_count [OF assms(1-4,6)] in blast)

lemma avail_counts_frames_witness:
  "unat (pcm_mmap_playback_avail demo_pcm 0x3FFFFFFF 2) = 5"
  using avail_counts_frames [of demo_pcm "0x3FFFFFFF" "0x3FFFFFFF" 2 "0x40000002"]
  by (simp add: demo_pcm_def at_pos_def)

text \<open>
  A full playback buffer across a wrap-around is taken for one with \<^verbatim>\<open>boundary\<close> free frames: the
  test \<^verbatim>\<open>avail > boundary\<close> lets equality through, where the difference of the counts is 0.
\<close>

lemma playback_avail_full_at_wrap:
  "pcm_mmap_playback_avail demo_pcm 0x3FFFFFFC 4 = boundary demo_pcm
   \<and> at_pos 0x40000000 4 (0x3FFFFFFC + unat (buffer_size demo_pcm))"
  by (simp add: demo_pcm_def pcm_mmap_playback_avail_def at_pos_def)

section \<open>The window of a transfer\<close>

lemma begin_window_bounds:
  assumes "bsize \<noteq> 0"
  shows "case begin_window bsize appl avail frames of (off, n) \<Rightarrow>
     unat off = unat appl mod unat bsize \<and> unat n = min (unat frames) (min (unat avail) (unat bsize - unat off))
     \<and> unat off + unat n \<le> unat bsize"
proof -
  have pos: "0 < unat bsize" using assms by (simp add: unat_gt_0)
  then have lt: "unat appl mod unat bsize < unat bsize" by simp
  then have off: "unat (appl mod bsize) = unat appl mod unat bsize" by (simp add: unat_mod_distrib)
  have c: "unat (bsize - appl mod bsize) = unat bsize - unat appl mod unat bsize"
    using lt off by (subst unat_sub) (simp_all add: word_le_nat_alt)
  show ?thesis using off c lt by (auto simp: begin_window_def Let_def word_less_nat_alt)
qed

text \<open>
  The window that \<^verbatim>\<open>pcm_mmap_begin\<close> hands out lies inside the buffer: it starts at the
  application's position, and its length is the least of what was asked for, what is
  available, and what is left up to the end of the buffer.
\<close>

theorem begin_window_result:
  assumes "bsize \<noteq> 0"
  shows "case begin_window bsize appl avail frames of (off, n) \<Rightarrow>
     unat off = unat appl mod unat bsize \<and> unat n = min (unat frames) (min (unat avail) (unat bsize - unat off))
     \<and> unat off + unat n \<le> unat bsize"
  using begin_window_bounds [OF assms] .

lemma begin_window_result_witness: "begin_window 8 13 6 10 = (5, 3)"
proof -
  have "case begin_window 8 13 6 10 of (off, n) \<Rightarrow> unat off = 5 \<and> unat n = 3"
    using begin_window_result [of 8 13 10 6] by (simp split: prod.splits)
  then show ?thesis by (auto simp: word_unat_eq_iff split: prod.splits)
qed

text \<open>The application's position advances by the frames committed.\<close>

lemma forward_ptr_count:
  assumes "at_pos (unat bound) a A" and "unat n \<le> unat bound" and "unat bound < 2 ^ 31"
  shows "at_pos (unat bound) (forward_ptr bound a n) (A + unat n)"
proof -
  have le: "unat a \<le> unat bound" and m: "unat a mod unat bound = A mod unat bound"
    using assms(1) by (simp_all add: at_pos_def)
  have s: "unat (a + n) = unat a + unat n" using le assms(2,3) by (simp add: unat_word_ariths)
  have ms: "(unat a + unat n) mod unat bound = (A + unat n) mod unat bound" using m by (metis mod_add_left_eq)
  show ?thesis
  proof (cases "bound < a + n")
    case True
    then have "unat (a + n - bound) = unat a + unat n - unat bound"
      using s by (subst unat_sub) (simp_all add: word_less_nat_alt word_le_nat_alt)
    moreover have "(unat a + unat n - unat bound) mod unat bound = (unat a + unat n) mod unat bound"
      using True s by (metis le_mod_geq less_imp_le word_less_nat_alt)
    ultimately show ?thesis using True le assms(2) ms by (simp add: forward_ptr_def at_pos_def)
  next
    case False
    then show ?thesis using s ms by (simp add: forward_ptr_def at_pos_def word_less_nat_alt not_less)
  qed
qed

section \<open>Every copy stays inside the buffers\<close>

text \<open>The size of a frame in bytes, and the geometry under which sizes in bytes do not overflow.\<close>

definition frame_bytes :: "pcm \<Rightarrow> nat" where
  "frame_bytes p = unat (channels (config p)) * unat (drop_bit 3 (pcm_format_to_bits (format (config p))))"

definition geometry_ok :: "pcm \<Rightarrow> bool" where
  "geometry_ok p \<longleftrightarrow> mmap_buffer p \<and> pointers p \<noteq> Null_pointers \<and> buffer_size p \<noteq> 0 \<and> 0 < frame_bytes p
     \<and> unat (buffer_size p) * frame_bytes p < 2 ^ 31"

lemma frames_to_bytes:
  assumes "unat n * frame_bytes p < 2 ^ 32"
  shows "unat (pcm_frames_to_bytes p n) = unat n * frame_bytes p"
proof -
  have "pcm_frames_to_bytes p n = of_nat (unat n * frame_bytes p)"
    by (simp add: pcm_frames_to_bytes_def frame_bytes_def mult.assoc)
  then show ?thesis using assms unat_of_nat32 by metis
qed

lemma geometry_same: "same_pcm p q \<Longrightarrow> geometry_ok p \<Longrightarrow> geometry_ok q"
  by (simp add: same_pcm_def geometry_ok_def frame_bytes_def)

lemma same_pcm_refl: "same_pcm p p"
  by (simp add: same_pcm_def)

definition areas_ok :: "'k areas_state \<Rightarrow> bool" where
  "areas_ok s \<longleftrightarrow> geometry_ok (a_pcm s) \<and> length (a_buf s) < 2 ^ 31
     \<and> (unat (a_offset s) + unat (a_size s)) * frame_bytes (a_pcm s) \<le> length (a_buf s)"

text \<open>The copy of a window inside the ring, to or from frames inside the caller's buffer, is defined.\<close>

lemma areas_copy_defined:
  assumes g: "geometry_ok p" and w: "unat off + unat n \<le> unat (buffer_size p)"
    and b: "(unat src + unat n) * frame_bytes p \<le> length buf" "length buf < 2 ^ 31"
  shows "\<exists>buf' k'. pcm_areas_copy E p off buf src n k = Some (buf', k') \<and> length buf' = length buf"
proof -
  let ?f = "frame_bytes p"
  have le: "unat off * ?f + unat n * ?f \<le> unat (buffer_size p) * ?f"
    using w by (simp flip: add_mult_distrib)
  have lb: "unat src * ?f + unat n * ?f \<le> length buf" using b(1) by (simp add: add_mult_distrib)
  have B: "unat (buffer_size p) * ?f < 2 ^ 31" using g by (simp add: geometry_ok_def)
  have s: "sint (pcm_frames_to_bytes p x) = int (unat x * ?f)" if "unat x * ?f < 2 ^ 31" for x
    using that frames_to_bytes [of x p] sint_small [of "pcm_frames_to_bytes p x"] by simp
  have u: "uint (pcm_frames_to_bytes p (buffer_size p)) = int (unat (buffer_size p) * ?f)"
    by (subst uint_nat, subst frames_to_bytes) (use B in simp_all)
  have "in_range (sint (pcm_frames_to_bytes p off)) (sint (pcm_frames_to_bytes p n)) (uint (pcm_frames_to_bytes p (buffer_size p)))"
    using s [of off] s [of n] u le B unfolding in_range_def by linarith
  moreover have "in_range (sint (pcm_frames_to_bytes p src)) (sint (pcm_frames_to_bytes p n)) (int (length buf))"
    using s [of src] s [of n] lb b(2) unfolding in_range_def by linarith
  moreover have nn: "nat (sint (pcm_frames_to_bytes p x)) = unat x * ?f" if "unat x * ?f < 2 ^ 31" for x
    using s [OF that] by (simp only: nat_int)
  have "nat (sint (pcm_frames_to_bytes p src)) + nat (sint (pcm_frames_to_bytes p n)) \<le> length buf"
    using nn [of src] nn [of n] lb b(2) by simp
  ultimately show ?thesis
    using g by (auto simp: pcm_areas_copy_def geometry_ok_def Let_def split: prod.splits)
qed

lemma read_defined: "pointers p \<noteq> Null_pointers \<Longrightarrow> (\<exists>st k1. read_status E p k = Some (st, k1)) \<and> (\<exists>c k1. read_control E p k = Some (c, k1))"
  by (cases "pointers p"; cases "p_status E (pcm_fd p) k"; cases "p_control E (pcm_fd p) k")
    (auto simp: read_status_def read_control_def)

lemma mmap_avail_defined:
  assumes "pointers p \<noteq> Null_pointers"
  shows "\<exists>a p' k'. pcm_mmap_avail E p k = Some ((a, p'), k') \<and> same_pcm p p'"
proof -
  obtain r p1 k1 where sy: "pcm_sync_ptr E p SNDRV_PCM_SYNC_PTR_HWSYNC k = ((r, p1), k1)"
    by (cases "pcm_sync_ptr E p SNDRV_PCM_SYNC_PTR_HWSYNC k") auto
  have sd: "same_pcm p p1" using sync_ptr_result [OF sy] by simp
  then have np: "pointers p1 \<noteq> Null_pointers" using assms by (simp add: same_pcm_def)
  obtain st k2 where "read_status E p1 k1 = Some (st, k2)" using read_defined [OF np, of E k1] by blast
  moreover obtain c k3 where "read_control E p1 k2 = Some (c, k3)" using read_defined [OF np, of E k2] by blast
  ultimately show ?thesis using sy sd by (simp add: pcm_mmap_avail_def)
qed

lemma mmap_begin_defined:
  assumes g: "geometry_ok p"
  shows "\<exists>off n p' k'. pcm_mmap_begin E p frames k = Some (((off, n), p'), k') \<and> same_pcm p p'
    \<and> unat off + unat n \<le> unat (buffer_size p) \<and> unat n \<le> unat frames"
proof -
  have np: "pointers p \<noteq> Null_pointers" and bs: "buffer_size p \<noteq> 0" using g by (simp_all add: geometry_ok_def)
  obtain c k1 where c: "read_control E p k = Some (c, k1)" using read_defined [OF np, of E k] by blast
  obtain a p' k' where a: "pcm_mmap_avail E p k1 = Some ((a, p'), k')" "same_pcm p p'"
    using mmap_avail_defined [OF np, of E k1] by blast
  obtain off n where w: "begin_window (buffer_size p) (appl_ptr c) a frames = (off, n)"
    by (cases "begin_window (buffer_size p) (appl_ptr c) a frames")
  have "unat off + unat n \<le> unat (buffer_size p)" "unat n \<le> unat frames"
    using begin_window_bounds [OF bs, of "appl_ptr c" frames a] unfolding w prod.case by linarith+
  then show ?thesis using c a w bs by (simp add: pcm_mmap_begin_def)
qed

lemma mmap_commit_defined:
  assumes "pointers p \<noteq> Null_pointers"
  shows "\<exists>p' k'. pcm_mmap_commit E p off n k = Some ((n, p'), k') \<and> same_pcm p p'"
proof -
  obtain c k1 where c: "read_control E p k = Some (c, k1)" using read_defined [OF assms, of E k] by blast
  obtain p1 k2 where w: "write_control E p (c\<lparr>appl_ptr := forward_ptr (boundary p) (appl_ptr c) n\<rparr>) k1 = Some (p1, k2)"
    "same_pcm p p1"
    using assms by (cases "pointers p") (auto simp: write_control_def same_pcm_def)
  obtain r p2 k3 where sy: "pcm_sync_ptr E p1 0 k2 = ((r, p2), k3)" by (cases "pcm_sync_ptr E p1 0 k2") auto
  have "same_pcm p p2" using sync_ptr_result [OF sy] w(2) same_pcm_trans by blast
  then show ?thesis using c w sy by (simp add: pcm_mmap_commit_def pcm_mmap_appl_forward_def)
qed

lemma areas_step_safe:
  assumes ok: "areas_ok s"
  shows "\<exists>x. areas_step E s = Some x \<and> (\<forall>s'. x = Inl s' \<longrightarrow> areas_ok s')"
proof (cases "a_size s = 0")
  case True
  then show ?thesis by (simp add: areas_step_def)
next
  case False
  let ?p = "a_pcm s"
  have g: "geometry_ok ?p" and len: "length (a_buf s) < 2 ^ 31"
    and fit: "(unat (a_offset s) + unat (a_size s)) * frame_bytes ?p \<le> length (a_buf s)"
    using ok by (simp_all add: areas_ok_def)
  obtain off n p1 k1 where b: "pcm_mmap_begin E ?p (a_size s) (a_k s) = Some (((off, n), p1), k1)" "same_pcm ?p p1"
    "unat off + unat n \<le> unat (buffer_size ?p)" "unat n \<le> unat (a_size s)"
    using mmap_begin_defined [OF g, of E "a_size s" "a_k s"] by blast
  have p1: "geometry_ok p1" "frame_bytes p1 = frame_bytes ?p" "buffer_size p1 = buffer_size ?p"
    using geometry_same [OF b(2) g] b(2) by (simp_all add: same_pcm_def frame_bytes_def)
  have "(unat (a_offset s) + unat n) * frame_bytes p1 \<le> (unat (a_offset s) + unat (a_size s)) * frame_bytes ?p"
    using b(4) p1(2) by simp
  then have "(unat (a_offset s) + unat n) * frame_bytes p1 \<le> length (a_buf s)" using fit by (rule le_trans)
  then obtain buf k2 where cp: "pcm_areas_copy E p1 off (a_buf s) (a_offset s) n k1 = Some (buf, k2)"
    "length buf = length (a_buf s)"
    using areas_copy_defined [OF p1(1), of off n "a_offset s" "a_buf s" E k1] b(3) p1(3) len by auto
  obtain p2 k3 where cm: "pcm_mmap_commit E p1 off n k2 = Some ((n, p2), k3)" "same_pcm p1 p2"
    using mmap_commit_defined [of p1 E off n k2] p1(1) by (auto simp: geometry_ok_def)
  have p2: "geometry_ok p2" "frame_bytes p2 = frame_bytes ?p"
    using geometry_same [OF cm(2) p1(1)] cm(2) p1(2) by (simp_all add: same_pcm_def frame_bytes_def)
  have "unat (a_offset s) + unat (a_size s) < 2 ^ 31"
    using fit len g by (metis geometry_ok_def le_less_trans le_trans less_numeral_extra(3) mult_le_mono2 mult.right_neutral Suc_leI One_nat_def)
  then have "unat (a_offset s + n) = unat (a_offset s) + unat n" "unat (a_size s - n) = unat (a_size s) - unat n"
    using b(4) by (simp_all add: unat_word_ariths unat_sub word_le_nat_alt)
  then have "areas_ok (s\<lparr>a_offset := a_offset s + n, a_count := a_count s + n, a_size := a_size s - n, a_buf := buf,
      a_pcm := p2, a_k := k3\<rparr>)"
    using p2 cp(2) len fit b(4) by (simp add: areas_ok_def)
  then show ?thesis using False b(1) cp(1) cm(1) by (simp add: areas_step_def split: prod.split)
qed

interpretation areas: safe_loop "areas_step E" areas_ok "\<lambda>_. True" for E
proof unfold_locales
  show "areas_ok s'" if "areas_ok s" "areas_step E s = Some (Inl s')" for s s'
    using areas_step_safe [OF that(1), of E] that(2) by auto
  show "areas_step E s \<noteq> None" if "areas_ok s" for s
    using areas_step_safe [OF that, of E] by auto
qed simp

text \<open>
  (C32) The mapped transfer is memory safe: when the buffer's size in bytes and the caller's
  buffer stay below 2 GB and the caller's buffer holds the frames to transfer, then at every
  iteration of \<^verbatim>\<open>pcm_mmap_transfer_areas\<close>, however often it runs and wherever the driver moves
  its pointers, the positions are valid pointers and the copy stays inside the mapped buffer and
  inside the caller's.
\<close>

theorem transfer_areas_safe:
  assumes "areas_ok s" and "loop_reach (areas_step E) s t"
  shows "areas_step E t \<noteq> None \<and> areas_ok t"
  using areas.reach_defined [OF assms(2,1)] areas.reach_inv [OF assms(2,1)] by simp

definition demo_areas :: "(nat \<Rightarrow> u8) areas_state" where
  "demo_areas = \<lparr>a_offset = 0, a_size = 3, a_count = 0, a_buf = map of_nat [0..<12], a_pcm = demo_pcm, a_k = (\<lambda>_. 0)\<rparr>"

lemma demo_areas_ok: "areas_ok demo_areas"
  by (simp add: areas_ok_def geometry_ok_def frame_bytes_def demo_areas_def demo_pcm_def demo_pcm_config_def zero_pcm_def)

lemma transfer_areas_safe_witness: "areas_step demo_psys demo_areas \<noteq> None"
  using transfer_areas_safe [OF demo_areas_ok loop_reach.head] by blast

end
