(* ===== verification/Pcm_Delivery.thy ===== *)
theory Pcm_Delivery
  imports Pcm_Ring Sys_Env
begin

text \<open>
  What a mapped playback transfer delivers: with a driver that moves its position only forward
  and never past the application's, \<^verbatim>\<open>pcm_mmap_transfer_areas\<close> ends, reports every frame
  it was given, and leaves each of them at its place in the ring.
\<close>

section \<open>The contents of the ring\<close>

text \<open>
  The first \<open>m\<close> frames of the caller's buffer, from frame \<open>o\<close> on, are in the ring at the frames
  counted from \<open>A\<close>; \<open>b\<close> is the size of the ring in frames and \<open>f\<close> that of a frame in bytes.
\<close>

definition ring_holds :: "bytes \<Rightarrow> nat \<Rightarrow> nat \<Rightarrow> nat \<Rightarrow> u8 list \<Rightarrow> nat \<Rightarrow> nat \<Rightarrow> bool" where
  "ring_holds view b f A buf o' m \<longleftrightarrow>
     (\<forall>j < m. \<forall>q < f. view ((A + j) mod b * f + q) = buf ! ((o' + j) * f + q))"

lemma ring_frames_distinct:
  fixes A b :: nat
  assumes "i < j" and "j - i < b"
  shows "(A + i) mod b \<noteq> (A + j) mod b"
proof
  assume "(A + i) mod b = (A + j) mod b"
  then have "b dvd (A + j) - (A + i)" using assms(1) by (metis add_less_cancel_left less_imp_le mod_eq_dvd_iff_nat)
  then show False using assms by (simp add: nat_dvd_not_less)
qed

lemma ring_holds_extend:
  assumes old: "ring_holds view b f A buf o' m" and len: "m + n \<le> b" "n \<le> b - (A + m) mod b"
    and buf: "(o' + m + n) * f \<le> length buf" and b: "0 < b"
  shows "ring_holds (copy_in view ((A + m) mod b * f) (take (n * f) (drop ((o' + m) * f) buf))) b f A buf o' (m + n)"
  unfolding ring_holds_def
proof (intro allI impI)
  fix j q assume j: "j < m + n" and q: "q < f"
  let ?s = "(A + m) mod b" and ?xs = "take (n * f) (drop ((o' + m) * f) buf)"
  have lx: "length ?xs = n * f" using buf by (simp add: add_mult_distrib)
  show "copy_in view (?s * f) ?xs ((A + j) mod b * f + q) = buf ! ((o' + j) * f + q)"
  proof (cases "m \<le> j")
    case True
    define e where "e = j - m"
    have e: "j = m + e" "e < n" using True j by (simp_all add: e_def)
    have "?s < b" using b by simp
    then have "?s + e < b" using len(2) e(2) by linarith
    then have "(A + j) mod b = ?s + e" using e(1) by (metis add.assoc mod_add_left_eq mod_less)
    moreover have "e * f + q < n * f" using e(2) q by (metis add.commute add_less_mono1 less_le_trans mult_Suc mult_le_mono1 Suc_leI)
    ultimately show ?thesis
      using lx e(1) buf by (simp add: copy_in_def add_mult_distrib add.assoc)
  next
    case False
    then have j': "j < m" by simp
    have "(A + j) mod b \<noteq> ?s + e" if "e < n" for e
    proof
      assume eq: "(A + j) mod b = ?s + e"
      have "?s + e < b" using that len(2) b by (metis add.commute less_diff_conv less_le_trans)
      then have "(A + (m + e)) mod b = ?s + e" by (metis add.assoc mod_add_left_eq mod_less)
      moreover have "m + e - j < b" using that len(1) j' by linarith
      ultimately show False using ring_frames_distinct [of j "m + e" b A] eq j' by simp
    qed
    then have "(A + j) mod b < ?s \<or> ?s + n \<le> (A + j) mod b" by (metis le_add_diff_inverse less_diff_conv2 not_le add.commute)
    then have "\<not> (?s * f \<le> (A + j) mod b * f + q \<and> (A + j) mod b * f + q < ?s * f + n * f)"
    proof
      assume "(A + j) mod b < ?s"
      then have "Suc ((A + j) mod b) * f \<le> ?s * f" by (intro mult_le_mono1) simp
      then show ?thesis using q by simp
    next
      assume "?s + n \<le> (A + j) mod b"
      then have "(?s + n) * f \<le> (A + j) mod b * f" by (rule mult_le_mono1)
      then show ?thesis by (simp add: add_mult_distrib)
    qed
    then have "copy_in view (?s * f) ?xs ((A + j) mod b * f + q) = view ((A + j) mod b * f + q)"
      using lx by (auto simp: copy_in_def)
    then show ?thesis using old j' q by (simp add: ring_holds_def)
  qed
qed

section \<open>The driver during a playback transfer\<close>

text \<open>
  What the transfer relies on: \<^verbatim>\<open>SNDRV_PCM_IOCTL_SYNC_PTR\<close> without \<^verbatim>\<open>SNDRV_PCM_SYNC_PTR_APPL\<close>
  leaves the control block as the application set it, the hardware position moves only
  forward and not past the application's, and the mapped buffer holds what was written to it.
\<close>

definition playback_driver :: "'k psys \<Rightarrow> ('k \<Rightarrow> bytes) \<Rightarrow> nat \<Rightarrow> bool" where
  "playback_driver E view B \<longleftrightarrow>
     (\<forall>f fl s c k r s' c' k'. p_sync_ptr E f fl s c k = ((r, s', c'), k') \<longrightarrow>
        c' = c \<and> view k' = view k \<and>
        (\<forall>H A. at_pos B (hw_ptr s) H \<and> at_pos B (appl_ptr c) A \<and> H \<le> A \<longrightarrow>
           (\<exists>H'. H \<le> H' \<and> H' \<le> A \<and> at_pos B (hw_ptr s') H')))
     \<and> (\<forall>f off xs k. view (p_buf_write E f off xs k) = copy_in (view k) off xs)"

text \<open>A playback device in the middle of a transfer: \<open>H\<close> frames played, \<open>A\<close> frames written.\<close>

definition playing :: "pcm \<Rightarrow> nat \<Rightarrow> nat \<Rightarrow> bool" where
  "playing p H A \<longleftrightarrow> (\<exists>s c. pointers p = Sync_ptr s c
     \<and> at_pos (unat (boundary p)) (hw_ptr s) H \<and> at_pos (unat (boundary p)) (appl_ptr c) A)
     \<and> H \<le> A \<and> A \<le> H + unat (buffer_size p)"

definition ring_ok :: "pcm \<Rightarrow> bool" where
  "ring_ok p \<longleftrightarrow> geometry_ok p \<and> flags p AND PCM_IN = 0 \<and> unat (buffer_size p) dvd unat (boundary p)
     \<and> unat (buffer_size p) < unat (boundary p) \<and> unat (boundary p) + unat (buffer_size p) < 2 ^ 31"

lemma ring_ok_same: "same_pcm p q \<Longrightarrow> ring_ok p \<Longrightarrow> ring_ok q"
  using geometry_same by (auto simp: ring_ok_def same_pcm_def)

lemma sync_playing:
  assumes D: "playback_driver E view (unat (boundary p))" and P: "playing p H A"
    and sy: "pcm_sync_ptr E p fl k = ((r, p'), k')"
  shows "\<exists>H'. H \<le> H' \<and> playing p' H' A \<and> same_pcm p p' \<and> view k' = view k"
proof -
  obtain s c where pt: "pointers p = Sync_ptr s c" "at_pos (unat (boundary p)) (hw_ptr s) H"
    "at_pos (unat (boundary p)) (appl_ptr c) A" "H \<le> A" "A \<le> H + unat (buffer_size p)"
    using P by (auto simp: playing_def)
  obtain r' s' c' where ps: "p_sync_ptr E (pcm_fd p) fl s c k = ((r', s', c'), k')" and p': "p' = p\<lparr>pointers := Sync_ptr s' c'\<rparr>"
    using sy pt(1) by (auto simp: pcm_sync_ptr_def split: prod.splits)
  have "c' = c" "view k' = view k" and "\<exists>H'. H \<le> H' \<and> H' \<le> A \<and> at_pos (unat (boundary p)) (hw_ptr s') H'"
    using D ps pt(2-4) unfolding playback_driver_def by blast+
  then obtain H' where "c' = c" "view k' = view k" "H \<le> H'" "H' \<le> A" "at_pos (unat (boundary p)) (hw_ptr s') H'"
    by blast
  then show ?thesis
    using pt p' by (intro exI [of _ H']) (auto simp: playing_def same_pcm_def)
qed

text \<open>The window: at the application's place in the ring, as long as asked for and contiguous.\<close>

lemma begin_playing:
  assumes D: "playback_driver E view (unat (boundary p))" and R: "ring_ok p" and P: "playing p H A"
    and room: "A + unat frames \<le> H + unat (buffer_size p)" "0 < unat frames"
  shows "\<exists>off n p' k' H'. pcm_mmap_begin E p frames k = Some (((off, n), p'), k') \<and> same_pcm p p'
    \<and> unat off = A mod unat (buffer_size p) \<and> unat n = min (unat frames) (unat (buffer_size p) - A mod unat (buffer_size p))
    \<and> H \<le> H' \<and> playing p' H' A \<and> view k' = view k"
proof -
  obtain s c where pt: "pointers p = Sync_ptr s c" "at_pos (unat (boundary p)) (appl_ptr c) A"
    using P by (auto simp: playing_def)
  have bs: "buffer_size p \<noteq> 0" using R by (simp add: ring_ok_def geometry_ok_def)
  obtain r p1 k1 where sy: "pcm_sync_ptr E p SNDRV_PCM_SYNC_PTR_HWSYNC k = ((r, p1), k1)"
    by (cases "pcm_sync_ptr E p SNDRV_PCM_SYNC_PTR_HWSYNC k") auto
  obtain H' where H': "H \<le> H'" "playing p1 H' A" "same_pcm p p1" "view k1 = view k"
    using sync_playing [OF D P sy] by blast
  obtain s1 c1 where p1: "pointers p1 = Sync_ptr s1 c1" "at_pos (unat (boundary p)) (hw_ptr s1) H'"
    "at_pos (unat (boundary p)) (appl_ptr c1) A"
    using H'(2,3) by (auto simp: playing_def same_pcm_def)
  have sd: "buffer_size p1 = buffer_size p" "boundary p1 = boundary p" "flags p1 AND PCM_IN = 0"
    using H'(3) R by (auto simp: same_pcm_def ring_ok_def)
  have av: "unat (pcm_mmap_playback_avail p1 (hw_ptr s1) (appl_ptr c1)) = H' + unat (buffer_size p) - A"
    using playback_avail_count [of p1 "hw_ptr s1" H' "appl_ptr c1" A] p1 sd R room H'(1,2) bs
    by (auto simp: ring_ok_def playing_def unat_gt_0)
  let ?a = "pcm_mmap_playback_avail p1 (hw_ptr s1) (appl_ptr c1)"
  obtain off n where w: "begin_window (buffer_size p) (appl_ptr c) ?a frames = (off, n)"
    by (cases "begin_window (buffer_size p) (appl_ptr c) ?a frames")
  have dv: "unat (buffer_size p) dvd unat (boundary p)" using R by (simp add: ring_ok_def)
  have "unat (appl_ptr c) mod unat (boundary p) = A mod unat (boundary p)" using pt(2) by (simp add: at_pos_def)
  from arg_cong [OF this, of "\<lambda>x. x mod unat (buffer_size p)"]
  have "unat (appl_ptr c) mod unat (buffer_size p) = A mod unat (buffer_size p)"
    by (simp only: mod_mod_cancel [OF dv])
  then have "unat off = A mod unat (buffer_size p)"
    "unat n = min (unat frames) (unat (buffer_size p) - A mod unat (buffer_size p))"
    using begin_window_bounds [OF bs, of "appl_ptr c" frames ?a] av room H'(1) unfolding w prod.case by linarith+
  moreover have "pcm_mmap_begin E p frames k = Some (((off, n), p1), k1)"
    using pt sy p1 sd w bs by (simp add: pcm_mmap_begin_def pcm_mmap_avail_def read_control_def read_status_def)
  ultimately show ?thesis using H' by blast
qed

lemma commit_playing:
  assumes D: "playback_driver E view (unat (boundary p))" and R: "ring_ok p" and P: "playing p H A"
    and room: "A + unat n \<le> H + unat (buffer_size p)"
  shows "\<exists>p' k' H'. pcm_mmap_commit E p off n k = Some ((n, p'), k') \<and> same_pcm p p'
    \<and> H \<le> H' \<and> playing p' H' (A + unat n) \<and> view k' = view k"
proof -
  obtain s c where pt: "pointers p = Sync_ptr s c" "at_pos (unat (boundary p)) (hw_ptr s) H"
    "at_pos (unat (boundary p)) (appl_ptr c) A" "H \<le> A"
    using P by (auto simp: playing_def)
  let ?p = "p\<lparr>pointers := Sync_ptr s (c\<lparr>appl_ptr := forward_ptr (boundary p) (appl_ptr c) n\<rparr>)\<rparr>"
  have "at_pos (unat (boundary p)) (forward_ptr (boundary p) (appl_ptr c) n) (A + unat n)"
    using forward_ptr_count [OF pt(3), of n] room pt(4) R by (simp add: ring_ok_def)
  then have P1: "playing ?p H (A + unat n)" using pt room by (auto simp: playing_def)
  obtain r p2 k2 where sy: "pcm_sync_ptr E ?p 0 k = ((r, p2), k2)" by (cases "pcm_sync_ptr E ?p 0 k") auto
  have D1: "playback_driver E view (unat (boundary ?p))" using D by simp
  obtain H' where H': "H \<le> H'" "playing p2 H' (A + unat n)" "same_pcm ?p p2" "view k2 = view k"
    using sync_playing [OF D1 P1 sy] by blast
  moreover have "same_pcm p p2" using H'(3) pt(1) by (simp add: same_pcm_def)
  moreover have "pcm_mmap_commit E p off n k = Some ((n, p2), k2)"
    using pt(1) sy by (simp add: pcm_mmap_commit_def pcm_mmap_appl_forward_def read_control_def write_control_def)
  ultimately show ?thesis by blast
qed

section \<open>The loop\<close>

text \<open>
  Between iterations \<open>m\<close> of the \<open>sz\<close> frames have been written; what remains fits into the free
  part of the ring.
\<close>

definition deliver_inv ::
  "'k psys \<Rightarrow> ('k \<Rightarrow> bytes) \<Rightarrow> pcm \<Rightarrow> nat \<Rightarrow> nat \<Rightarrow> nat \<Rightarrow> u8 list \<Rightarrow> 'k areas_state \<Rightarrow> bool" where
  "deliver_inv E view p0 A o' sz buf s \<longleftrightarrow>
     playback_driver E view (unat (boundary p0)) \<and> ring_ok p0 \<and> same_pcm p0 (a_pcm s) \<and> a_buf s = buf
     \<and> length buf < 2 ^ 31 \<and> (o' + sz) * frame_bytes p0 \<le> length buf \<and> sz \<le> unat (buffer_size p0)
     \<and> (\<exists>m H. m + unat (a_size s) = sz \<and> unat (a_offset s) = o' + m \<and> unat (a_count s) = m
          \<and> playing (a_pcm s) H (A + m) \<and> A + sz \<le> H + unat (buffer_size p0)
          \<and> ring_holds (view (a_k s)) (unat (buffer_size p0)) (frame_bytes p0) A buf o' m)"

definition delivered ::
  "('k \<Rightarrow> bytes) \<Rightarrow> pcm \<Rightarrow> nat \<Rightarrow> nat \<Rightarrow> nat \<Rightarrow> u8 list \<Rightarrow> ((int \<times> u8 list) \<times> pcm) \<times> 'k \<Rightarrow> bool" where
  "delivered view p0 A o' sz buf = (\<lambda>(((r, buf'), p), k). r = int sz \<and> same_pcm p0 p
     \<and> (\<exists>H. playing p H (A + sz))
     \<and> ring_holds (view k) (unat (buffer_size p0)) (frame_bytes p0) A buf o' sz)"

lemma areas_copy_playback:
  assumes g: "geometry_ok p" and fl: "flags p AND PCM_IN = 0" and w: "unat off + unat n \<le> unat (buffer_size p)"
    and b: "(unat src + unat n) * frame_bytes p \<le> length buf" "length buf < 2 ^ 31"
  shows "pcm_areas_copy E p off buf src n k = Some (buf, p_buf_write E (pcm_fd p) (unat off * frame_bytes p)
     (take (unat n * frame_bytes p) (drop (unat src * frame_bytes p) buf)) k)"
proof -
  let ?f = "frame_bytes p"
  have "unat off * ?f + unat n * ?f \<le> unat (buffer_size p) * ?f" using w by (simp flip: add_mult_distrib)
  moreover have "unat (buffer_size p) * ?f < 2 ^ 31" using g by (simp add: geometry_ok_def)
  moreover have "unat src * ?f + unat n * ?f \<le> length buf" using b(1) by (simp add: add_mult_distrib)
  ultimately have lt: "unat off * ?f < 2 ^ 31" "unat n * ?f < 2 ^ 31" "unat src * ?f < 2 ^ 31" using b(2) by linarith+
  have nn: "nat (sint (pcm_frames_to_bytes p x)) = unat x * ?f" if "unat x * ?f < 2 ^ 31" for x
  proof -
    have u: "unat (pcm_frames_to_bytes p x) = unat x * ?f" using that by (intro frames_to_bytes) simp
    have "sint (pcm_frames_to_bytes p x) = int (unat x * ?f)"
      using that sint_small [of "pcm_frames_to_bytes p x"] unfolding u by (simp only:)
    then show ?thesis by (simp only: nat_int)
  qed
  obtain buf' k' where "pcm_areas_copy E p off buf src n k = Some (buf', k')"
    using areas_copy_defined [OF g w b, of E k] by blast
  then show ?thesis
    using fl nn [OF lt(1)] nn [OF lt(2)] nn [OF lt(3)] by (auto simp: pcm_areas_copy_def Let_def split: if_splits)
qed

lemma deliver_step:
  assumes inv: "deliver_inv E view p0 A o' sz buf s" and sz: "a_size s \<noteq> 0"
  shows "\<exists>s'. areas_step E s = Some (Inl s') \<and> deliver_inv E view p0 A o' sz buf s' \<and> unat (a_size s') < unat (a_size s)"
proof -
  let ?p = "a_pcm s" and ?b = "unat (buffer_size p0)" and ?f = "frame_bytes p0"
  obtain m H where m: "m + unat (a_size s) = sz" "unat (a_offset s) = o' + m" "unat (a_count s) = m"
    "playing ?p H (A + m)" "A + sz \<le> H + ?b" "ring_holds (view (a_k s)) ?b ?f A buf o' m"
    using inv by (auto simp: deliver_inv_def)
  have D: "playback_driver E view (unat (boundary p0))" and R0: "ring_ok p0" and sd: "same_pcm p0 ?p" and bf: "a_buf s = buf"
    and len: "length buf < 2 ^ 31" "(o' + sz) * ?f \<le> length buf" "sz \<le> ?b"
    using inv by (simp_all add: deliver_inv_def)
  have same: "boundary q = boundary p0" "buffer_size q = buffer_size p0" "frame_bytes q = ?f" "flags q = flags p0"
    if "same_pcm p0 q" for q using that by (simp_all add: same_pcm_def frame_bytes_def)
  have R: "ring_ok ?p" using ring_ok_same [OF sd R0] .
  have pos: "0 < unat (a_size s)" using sz by (simp add: unat_gt_0)
  obtain off n p1 k1 H1 where b: "pcm_mmap_begin E ?p (a_size s) (a_k s) = Some (((off, n), p1), k1)" "same_pcm ?p p1"
    "unat off = (A + m) mod ?b" "unat n = min (unat (a_size s)) (?b - (A + m) mod ?b)" "H \<le> H1" "playing p1 H1 (A + m)"
    "view k1 = view (a_k s)"
    using begin_playing [of E view ?p H "A + m" "a_size s" "a_k s"] D R m pos same [OF sd] by (auto simp: add.assoc)
  have sd1: "same_pcm p0 p1" using same_pcm_trans [OF sd b(2)] .
  have bpos: "0 < ?b" using R0 by (simp add: ring_ok_def geometry_ok_def unat_gt_0)
  have n: "0 < unat n" "unat n \<le> unat (a_size s)" "unat n \<le> ?b - (A + m) mod ?b" using b(4) pos bpos by auto
  have R1: "ring_ok p1" using ring_ok_same [OF sd1 R0] .
  have fit: "(unat (a_offset s) + unat n) * ?f \<le> length buf"
    by (rule le_trans [OF mult_le_mono1 len(2)]) (use n(2) m(1,2) in simp)
  let ?k2 = "p_buf_write E (pcm_fd p1) (unat off * ?f) (take (unat n * ?f) (drop (unat (a_offset s) * ?f) buf)) k1"
  have "(A + m) mod ?b < ?b" using bpos by simp
  then have "unat off + unat n \<le> ?b" using b(3) n(3) by linarith
  then have cp: "pcm_areas_copy E p1 off buf (a_offset s) n k1 = Some (buf, ?k2)"
    using areas_copy_playback [of p1 off n "a_offset s" buf E k1] R1 same [OF sd1] fit len(1)
    by (simp add: ring_ok_def)
  have vw: "view ?k2 = copy_in (view (a_k s)) ((A + m) mod ?b * ?f) (take (unat n * ?f) (drop ((o' + m) * ?f) buf))"
    using D b(3,7) m(2) by (simp add: playback_driver_def)
  obtain p2 k3 H2 where cm: "pcm_mmap_commit E p1 off n ?k2 = Some ((n, p2), k3)" "same_pcm p1 p2" "H1 \<le> H2"
    "playing p2 H2 (A + m + unat n)" "view k3 = view ?k2"
    using commit_playing [of E view p1 H1 "A + m" n off ?k2] D R1 same [OF sd1] b(5,6) m(1,5) n(2) by auto
  have "sint n = int (unat n)" using n(2) m(1) len(3) R0 by (intro sint_small) (simp add: ring_ok_def)
  then have st: "areas_step E s = Some (Inl (s\<lparr>a_offset := a_offset s + n, a_count := a_count s + n,
      a_size := a_size s - n, a_buf := buf, a_pcm := p2, a_k := k3\<rparr>))" (is "_ = Some (Inl ?s')")
    using sz b(1) cp cm(1) bf by (simp add: areas_step_def)
  have bound: "o' + sz < 2 ^ 31"
  proof -
    have "1 \<le> ?f" using R0 by (simp add: ring_ok_def geometry_ok_def)
    then have "o' + sz \<le> (o' + sz) * ?f" by (cases ?f) simp_all
    from le_less_trans [OF le_trans [OF this len(2)] len(1)] show ?thesis .
  qed
  have u: "unat (a_offset s + n) = o' + (m + unat n)" "unat (a_count s + n) = m + unat n"
    "unat (a_size s - n) = unat (a_size s) - unat n"
    using m(1-3) n(2) bound by (simp_all add: unat_word_ariths unat_sub word_le_nat_alt)
  have "ring_holds (view k3) ?b ?f A buf o' (m + unat n)"
    using ring_holds_extend [OF m(6), of "unat n"] vw cm(5) n m(1) len(3) fit m(2) bpos by (simp add: add.assoc)
  moreover have "playing p2 H2 (A + (m + unat n))" using cm(4) by (simp add: add.assoc)
  moreover have "A + sz \<le> H2 + ?b" using m(5) b(5) cm(3) by simp
  moreover have "same_pcm p0 p2" using same_pcm_trans [OF sd1 cm(2)] .
  moreover have "m + unat n + (unat (a_size s) - unat n) = sz" using m(1) n(2) by simp
  ultimately have "deliver_inv E view p0 A o' sz buf ?s'"
    using D R0 len u unfolding deliver_inv_def by (intro conjI exI [of _ "m + unat n"] exI [of _ H2]) simp_all
  moreover have "unat (a_size ?s') < unat (a_size s)" using u(3) n pos by simp
  ultimately show ?thesis using st by blast
qed

interpretation deliver: ending_loop "areas_step E" "deliver_inv E view p0 A o' sz buf" "delivered view p0 A o' sz buf"
  "\<lambda>s. unat (a_size s)" for E view p0 A o' sz buf
proof unfold_locales
  fix s s' assume inv: "deliver_inv E view p0 A o' sz buf s" and st: "areas_step E s = Some (Inl s')"
  then have "a_size s \<noteq> 0" by (auto simp: areas_step_def)
  from deliver_step [OF inv this] st show "deliver_inv E view p0 A o' sz buf s'" "unat (a_size s') < unat (a_size s)" by auto
next
  fix s r assume inv: "deliver_inv E view p0 A o' sz buf s" and st: "areas_step E s = Some (Inr r)"
  have z: "a_size s = 0" using deliver_step [OF inv] st by (cases "a_size s = 0") auto
  have "unat (a_count s) < 2 ^ 31" using inv z by (auto simp: deliver_inv_def ring_ok_def)
  then have "sint (a_count s) = int (unat (a_count s))" by (rule sint_small)
  then show "delivered view p0 A o' sz buf r"
    using inv z st by (auto simp: areas_step_def deliver_inv_def delivered_def)
next
  fix s assume inv: "deliver_inv E view p0 A o' sz buf s"
  show "areas_step E s \<noteq> None"
    using deliver_step [OF inv] by (cases "a_size s = 0") (auto simp: areas_step_def)
qed

text \<open>
  (C31) A mapped playback transfer delivers: given frames that fit into the free part of the ring
  and a driver that only frees space meanwhile, \<^verbatim>\<open>pcm_mmap_transfer_areas\<close> ends, after at most as
  many iterations as there are frames, returns the number of frames it was given, advances the
  application's position by that number, and leaves frame $j$ of the caller's buffer at ring
  position (start + $j$) mod buffer size, also when the copy wraps around the end of the buffer.
\<close>

theorem transfer_areas_delivers:
  assumes "playback_driver E view (unat (boundary p))" and "ring_ok p" and "playing p H A"
    and "A + unat sz \<le> H + unat (buffer_size p)"
    and "length buf < 2 ^ 31" and "(unat off + unat sz) * frame_bytes p \<le> length buf"
  shows "\<exists>buf' p' k' H'. pcm_mmap_transfer_areas E (Suc (unat sz)) p buf off sz k = Some (((int (unat sz), buf'), p'), k')
    \<and> same_pcm p p' \<and> playing p' H' (A + unat sz)
    \<and> (\<forall>j < unat sz. \<forall>q < frame_bytes p.
         view k' ((A + j) mod unat (buffer_size p) * frame_bytes p + q) = buf ! ((unat off + j) * frame_bytes p + q))"
proof -
  let ?s = "\<lparr>a_offset = off, a_size = sz, a_count = 0, a_buf = buf, a_pcm = p, a_k = k\<rparr>"
  have "unat sz \<le> unat (buffer_size p)" using assms(3,4) by (auto simp: playing_def)
  then have inv: "deliver_inv E view p A (unat off) (unat sz) buf ?s"
    using assms unfolding deliver_inv_def
    by (auto simp: same_pcm_refl ring_holds_def intro!: exI [of _ H])
  from deliver.finishes [OF inv, of "Suc (unat sz)"]
  obtain x where x: "run_loop (Suc (unat sz)) (areas_step E) ?s = Some x" "delivered view p A (unat off) (unat sz) buf x"
    by auto
  then show ?thesis
    by (cases x) (auto simp: pcm_mmap_transfer_areas_def delivered_def ring_holds_def)
qed

lemma demo_playback_driver: "playback_driver demo_psys (\<lambda>k. k) B"
  by (auto simp: playback_driver_def demo_psys_def copy_in_def)

text \<open>Three frames from ring position 6 of 8: the last one lands at position 0.\<close>

definition demo_playing :: pcm where
  "demo_playing = demo_pcm\<lparr>pointers := Sync_ptr (zero_status\<lparr>hw_ptr := 6\<rparr>) \<lparr>appl_ptr = 6, avail_min = 1\<rparr>\<rparr>"

lemma transfer_areas_delivers_witness:
  "\<exists>buf' p' k'. pcm_mmap_transfer_areas demo_psys 4 demo_playing (map of_nat [0..<12]) 0 3 (\<lambda>_. 0)
     = Some (((3, buf'), p'), k') \<and> k' 0 = 8 \<and> k' 24 = 0"
proof -
  have u: "unat (boundary demo_playing) = 0x40000000" "unat (buffer_size demo_playing) = 8" "frame_bytes demo_playing = 4"
    by (simp_all add: demo_playing_def demo_pcm_def frame_bytes_def zero_pcm_def demo_pcm_config_def)
  have r: "ring_ok demo_playing"
    by (simp add: ring_ok_def geometry_ok_def u) (simp add: demo_playing_def demo_pcm_def zero_pcm_def)
  have pl: "playing demo_playing 6 6" by (simp add: playing_def u) (simp add: demo_playing_def at_pos_def)
  from transfer_areas_delivers [OF demo_playback_driver r pl, of 3 "map of_nat [0..<12]" 0 "\<lambda>_. 0"]
  obtain buf' p' k' where t: "pcm_mmap_transfer_areas demo_psys 4 demo_playing (map of_nat [0..<12]) 0 3 (\<lambda>_. 0)
     = Some (((3, buf'), p'), k')"
    and v: "\<And>j q. j < 3 \<Longrightarrow> q < 4 \<Longrightarrow> k' ((6 + j) mod 8 * 4 + q) = map of_nat [0..<12] ! (j * 4 + q)"
    by (auto simp: u)
  have "k' 0 = 8" "k' 24 = 0" using v [of 2 0] v [of 0 0] by simp_all
  then show ?thesis using t by blast
qed

end
