(* ===== verification/Hal_Streams.thy ===== *)
theory Hal_Streams
  imports Hal_Props Pcm_Delivery
begin

text \<open>
  The life of single streams: a PCM output stream never uses a bad pointer over any sequence of writes
  and standbys and reports what was played; a compressed stream keeps its state machine; a read
  always fills the caller's buffer.
\<close>

section \<open>Libraries for the witnesses\<close>

text \<open>Every request succeeds, nothing is captured, two channels of 16 bits.\<close>

definition demo_granted :: "snd_pcm_hw_params \<Rightarrow> bool" where
  "demo_granted h \<longleftrightarrow>
     (let n = unat (param_get_int h SNDRV_PCM_HW_PARAM_PERIODS * param_get_int h SNDRV_PCM_HW_PARAM_PERIOD_SIZE)
      in 0 < n \<and> n < 2 ^ 31)"

definition demo_card_psys :: "card_state psys" where
  "demo_card_psys =
     \<lparr>p_errno = (\<lambda>k. 0), p_strerror = (\<lambda>e. ''error''), p_alloc = (\<lambda>k. (True, k)),
      p_open = (\<lambda>f k. (5, k)), p_close = (\<lambda>f k. k), p_info = (\<lambda>f k. (0, k)),
      p_hw_refine = (\<lambda>f h k. ((0, h), k)),
      p_hw_params = (\<lambda>f h k.
         let h' = param_set_int (param_set_int h SNDRV_PCM_HW_PARAM_PERIOD_SIZE 256) SNDRV_PCM_HW_PARAM_PERIODS 4
         in ((if demo_granted h' then 0 else - 1, h'), k)),
      p_sw_params = (\<lambda>f w k. (0, k)), p_ttstamp = (\<lambda>f k. (0, k)),
      p_mmap_buffer = (\<lambda>f n k. (True, k)), p_munmap_buffer = (\<lambda>f n k. k),
      p_mmap_status = (\<lambda>f k. (False, k)), p_mmap_control = (\<lambda>f k. (False, k)),
      p_munmap_status = (\<lambda>f k. k), p_munmap_control = (\<lambda>f k. k),
      p_sync_ptr = (\<lambda>f fl st c k. ((0, st, c), k)),
      p_status = (\<lambda>f k. (zero_status, k)), p_control = (\<lambda>f k. (\<lparr>appl_ptr = 0, avail_min = 1\<rparr>, k)),
      p_put_control = (\<lambda>f c k. k), p_prepare = (\<lambda>f k. (0, k)), p_start = (\<lambda>f k. (0, k)),
      p_drop = (\<lambda>f k. (0, k)), p_writei = (\<lambda>f d n k. (0, k)), p_readi = (\<lambda>f n k. ((0, []), k)),
      p_poll = (\<lambda>f t k. ((1, POLLOUT), k)), p_buf_read = (\<lambda>f off n k. (replicate n 0, k)),
      p_buf_write = (\<lambda>f off xs k. k)\<rparr>"

definition demo_csys :: "card_state csys" where
  "demo_csys =
     \<lparr>compress_open = (\<lambda>c d fl fs fc codec k. ((Some 1, 1024, 4), k)), is_compress_ready = (\<lambda>c k. True),
      compress_close = (\<lambda>c k. k), compress_start = (\<lambda>c k. (0, k)), compress_stop = (\<lambda>c k. (0, k)),
      compress_read = (\<lambda>c n k. ((0, []), k)), compress_set_max_poll_wait = (\<lambda>c ms k. k), compress_errno = (\<lambda>k. 0),
      compress_nonblock = (\<lambda>c b k. k), compress_write = (\<lambda>c bs n k. (uint n, k)), compress_pause = (\<lambda>c k. (0, k)),
      compress_resume = (\<lambda>c k. (0, k)), compress_drain = (\<lambda>c k. (0, k)), compress_partial_drain = (\<lambda>c k. (0, k)),
      compress_next_track = (\<lambda>c k. (0, k)), compress_wait = (\<lambda>c ms k. k),
      compress_set_gapless_metadata = (\<lambda>c d p k. k), compress_get_tstamp = (\<lambda>c k. ((0, 0), k)),
      COMPRESS_IN = 0, COMPRESS_OUT = 0x20000000, SND_AUDIOCODEC_PCM = 1, SND_AUDIOCODEC_MP3 = 2, SND_AUDIOCODEC_AAC = 6,
      SND_AUDIOCODEC_VORBIS = 0xA, SND_AUDIOMODE_AAC_HE = 0x10, SND_RATECONTROLMODE_CONSTANTBITRATE = 1,
      SND_RATECONTROLMODE_VARIABLEBITRATE = 2, AUDIO_FORMAT_MAIN_MASK = 0xFF000000, AUDIO_FORMAT_MP3 = 0x01000000,
      AUDIO_FORMAT_AAC = 0x04000000, AUDIO_FORMAT_HE_AAC_V1 = 0x05000000, AUDIO_FORMAT_HE_AAC_V2 = 0x06000000,
      AUDIO_FORMAT_VORBIS = 0x07000000\<rparr>"

definition demo_rsys :: "card_state rsys" where
  "demo_rsys = \<lparr>system_time = (\<lambda>k. (7, k)), nanosleep = (\<lambda>ns k. k),
     create_resampler = (\<lambda>a b c k. ((0, 1), k)), release_resampler = (\<lambda>r k. k), malloc_bytes = (\<lambda>n k. replicate n 0xA5)\<rparr>"

definition demo_lib :: "card_state hal_lib" where
  "demo_lib = \<lparr>parms_create = (\<lambda>k. (True, k)), parms_get = (\<lambda>kv key. None), audio_bytes_per_sample = (\<lambda>f. 2),
     popcount = (\<lambda>m. 2), AUDIO_HARDWARE_INTERFACE = ''audio_hw_if'', AUDIO_PARAMETER_STREAM_ROUTING = ''routing'',
     AUDIO_PARAMETER_STREAM_INPUT_SOURCE = ''input_source'', AUDIO_SOURCE_VOICE_RECOGNITION = 6,
     AUDIO_CHANNEL_OUT_STEREO = 3, AUDIO_CHANNEL_IN_MONO = 0x10, audio_frame_size = (\<lambda>f c. 4)\<rparr>"

lemma demo_psys_laws: "grant_law demo_card_psys"
  by (simp add: grant_law_def demo_card_psys_def demo_granted_def Let_def)

text \<open>A resampler that asks for the frames once and passes their number on.\<close>

definition demo_resample :: "card_state resample_fn" where
  "demo_resample next_buffer release n s =
     (case next_buffer n s of
        Some ((r, Some (frames, _)), (inp, k)) \<Rightarrow> Some (([], frames), (release frames inp, k))
      | Some ((r, None), s1) \<Rightarrow> Some (([], 0), s1)
      | None \<Rightarrow> None)"

lemma demo_resample_law: "resample_law demo_resample"
  unfolding resample_law_def demo_resample_def by (intro allI impI) (auto split: option.splits; blast)

definition demo_env :: "card_state hal_env" where
  "demo_env = \<lparr>he_sys = demo_card [demo_volume], he_pcm = demo_card_psys, he_cmp = demo_csys, he_rs = demo_rsys,
     he_audio = demo_audio_h, he_lib = demo_lib, he_resample = demo_resample,
     he_delay = ''delay_samples'', he_padding = ''padding_samples''\<rparr>"

section \<open>PCM output\<close>

text \<open>What \<^verbatim>\<open>pcm_open\<close> leaves of the request.\<close>

lemma open_sw_keeps: "open_sw P cfg p k = Some ((cfg', h), k') \<Longrightarrow> cfg' = Some cfg"
  by (auto simp: open_sw_def with_config_def Let_def elim!: bind_SomeE split: if_splits prod.splits)

lemma open_hw_keeps:
  "open_hw P cfg p k = Some ((cfg', h), k') \<Longrightarrow> \<exists>c. cfg' = Some c \<and> cfg_rate c = cfg_rate cfg \<and> channels c = channels cfg"
  by (auto simp: open_hw_def with_config_def Let_def dest!: open_sw_keeps split: if_splits prod.splits)

lemma pcm_open_keeps:
  "pcm_open P c d fl (Some cfg) k = Some ((cfg', h), k') \<Longrightarrow>
   \<exists>c. cfg' = Some c \<and> cfg_rate c = cfg_rate cfg \<and> channels c = channels cfg"
  by (auto simp: pcm_open_def with_config_def Let_def dest!: open_hw_keeps split: if_splits prod.splits)

text \<open>
  The invariant of a PCM output stream: outside standby it owns a playback device with whole
  frames. The number of channels is at most 32, the bits of a mask.
\<close>

definition playing_device :: "pcm \<Rightarrow> bool" where
  "playing_device p \<longleftrightarrow> pcm_is_ready p \<and> flags p = PCM_OUT \<and> pcm_inv p \<and> format (config p) = PCM_FORMAT_S16_LE
     \<and> 0 < unat (channels (config p)) \<and> unat (channels (config p)) \<le> 32"

definition out_pcm_ok :: "stream_out_pcm \<Rightarrow> bool" where
  "out_pcm_ok out \<longleftrightarrow> unat (o_channel_count out) \<le> 32
     \<and> (o_standby out \<or> (\<exists>p. o_pcm out = Live (Pcm p) \<and> playing_device p))"

lemma playing_frames: "playing_device p \<Longrightarrow> xfer_frames p n \<noteq> None"
proof -
  assume p: "playing_device p"
  then have "unat (channels (config p) * 16) = unat (channels (config p)) * 16"
    by (intro unat_mult_lem [THEN iffD1, of "channels (config p)" 16, simplified]) (simp add: playing_device_def)
  then have "unat (channels (config p) * 16 div 8) \<noteq> 0" using p by (simp add: unat_div playing_device_def)
  then show ?thesis using p by (auto simp: xfer_frames_def playing_device_def Let_def)
qed

lemma opened_playing:
  assumes "pcm_open P c d PCM_OUT (Some cfg) k = Some ((cfg', Pcm p), k')" and "pcm_is_ready p"
    and "format cfg = PCM_FORMAT_S16_LE" and "0 < unat (channels cfg)" and "unat (channels cfg) \<le> 32"
  shows "playing_device p"
  using pcm_open_ready [OF assms(1)] assms(2-5) by (auto simp: playing_device_def pcm_is_ready_def pcm_inv_def)

lemma start_output_pcm_result:
  assumes law: "grant_law P" and rate: "out_pcm_cfg_rate cm out \<noteq> 0" and ch: "unat (o_channel_count out) \<le> 32"
  shows "\<exists>r out' k'. start_output_pcm P cm out k = Some ((r, out'), k') \<and> o_standby out' = o_standby out
    \<and> o_channel_count out' = o_channel_count out \<and> o_hw out' = o_hw out
    \<and> (r = 0 \<and> (\<exists>p. o_pcm out' = Live (Pcm p) \<and> playing_device p \<and> \<not> running p) \<or> r = - ENOMEM)"
proof -
  let ?cfg = "\<lparr>channels = out_pcm_cfg_channel_count out, cfg_rate = out_pcm_cfg_rate cm out,
                cfg_period_size = out_pcm_cfg_period_size cm out, cfg_period_count = out_pcm_cfg_period_count cm out,
                format = PCM_FORMAT_S16_LE, start_threshold = 0, stop_threshold = 0, silence_threshold = 0\<rparr>"
  obtain cfg1 h k1 where o: "pcm_open P (ucast (card_number (hw_of cm (o_hw out))))
        (ucast (device_number (hw_of cm (o_hw out)))) PCM_OUT (Some ?cfg) k = Some ((cfg1, h), k1)"
    using pcm_open_defined [OF law] by (metis not_None_eq prod.exhaust)
  obtain c where c: "cfg1 = Some c" "cfg_rate c = out_pcm_cfg_rate cm out" using pcm_open_keeps [OF o] by auto
  have cc: "0 < unat (out_pcm_cfg_channel_count out)" "unat (out_pcm_cfg_channel_count out) \<le> 32"
    using ch by (auto simp: out_pcm_cfg_channel_count_def unat_gt_0)
  show ?thesis
  proof (cases h)
    case Bad_pcm
    then show ?thesis using o by (simp add: start_output_pcm_def split: prod.split)
  next
    case (Pcm p)
    show ?thesis
    proof (cases "pcm_is_ready p")
      case True
      have "playing_device p" using opened_playing [OF o [unfolded Pcm] True] cc by simp
      moreover have "\<not> running p" using pcm_open_ready [OF o [unfolded Pcm]] True by (auto simp: pcm_is_ready_def)
      ultimately show ?thesis using o Pcm True c rate by (simp add: start_output_pcm_def out_pcm_fill_params_def)
    next
      case False
      then show ?thesis using o Pcm by (simp add: start_output_pcm_def split: prod.split)
    qed
  qed
qed

text \<open>The last thing that happened was that the driver accepted the buffer, as so many whole frames.\<close>

definition device_took :: "'k psys \<Rightarrow> pcm \<Rightarrow> u8 list \<Rightarrow> u32 \<Rightarrow> 'k \<Rightarrow> bool" where
  "device_took P p buf n k' \<longleftrightarrow> (\<exists>k1. p_writei P (pcm_fd p) buf (n div (channels (config p) * 16 div 8)) k1 = (0, k'))"

lemma write_ptr_result:
  assumes "o_pcm out = Live (Pcm p)" and p: "playing_device p"
  shows "\<exists>r p' k'. write_ptr P 2 out buf n k = Some ((r, out\<lparr>o_pcm := Live (Pcm p')\<rparr>), k') \<and> playing_device p'
    \<and> (r = 0 \<and> running p' \<and> device_took P p' buf n k' \<or> r = - 1 \<and> \<not> running p')"
proof -
  obtain f where "xfer_frames p n = Some f" using playing_frames [OF p] by blast
  moreover have "flags p AND PCM_IN = 0" "flags p AND PCM_NORESTART = 0" "pcm_inv p"
    using p by (simp_all add: playing_device_def)
  ultimately obtain r p' k' where w: "pcm_write P 2 p buf n k = Some ((r, p'), k')" "r \<in> {0, - 1, - EPIPE}"
    "r = 0 \<longleftrightarrow> running p'" "r \<noteq> - EPIPE" "same_pcm p p'" "pcm_inv p'"
    using pcm_write_ends [of p n f P buf k] by auto
  have p': "playing_device p'" using p w(5,6) by (simp add: playing_device_def same_pcm_def pcm_is_ready_def)
  have "device_took P p' buf n k'" if "r = 0"
    using pcm_write_took [OF w(1) [unfolded that]] w(5) p
    by (auto simp: device_took_def xfer_frames_def same_pcm_def playing_device_def Let_def split: if_splits)
  then show ?thesis using assms(1) w(1-4) p' by (auto simp: write_ptr_def)
qed

lemma out_pcm_write_ends:
  assumes law: "grant_law P" and rate: "out_pcm_cfg_rate cm out \<noteq> 0" and ok: "out_pcm_ok out"
  shows "\<exists>r out' k'. out_pcm_write P 2 cm out buf n k = Some ((r, out'), k') \<and> out_pcm_ok out' \<and> o_hw out' = o_hw out
    \<and> (get_current_routes cm (o_hw out) = 0 \<longrightarrow> r = 0 \<and> out' = out \<and> k' = k)
    \<and> (get_current_routes cm (o_hw out) \<noteq> 0 \<longrightarrow>
       (r = - ENOMEM \<and> o_standby out \<and> o_standby out')
       \<or> \<not> o_standby out' \<and> (\<exists>p. o_pcm out' = Live (Pcm p)
            \<and> (r = sint n \<and> running p \<and> device_took P p buf n k' \<or> r = - 1 \<and> \<not> running p)))"
proof (cases "get_current_routes cm (o_hw out) = 0")
  case True
  then show ?thesis using ok by (simp add: out_pcm_write_def)
next
  case False
  have ch: "unat (o_channel_count out) \<le> 32" using ok by (simp add: out_pcm_ok_def)
  obtain ret out1 k1 where s: "(if o_standby out then start_output_pcm P cm out k else Some ((0, out), k)) = Some ((ret, out1), k1)"
    and hw: "o_hw out1 = o_hw out" "o_channel_count out1 = o_channel_count out" "o_standby out1 = o_standby out"
    and d: "ret = 0 \<and> (\<exists>p. o_pcm out1 = Live (Pcm p) \<and> playing_device p) \<or> ret = - ENOMEM \<and> o_standby out"
    using start_output_pcm_result [OF law rate ch, of k] ok
    by (cases "o_standby out") (auto simp: out_pcm_ok_def)
  from d show ?thesis
  proof
    assume "ret = - ENOMEM \<and> o_standby out"
    then show ?thesis using s False hw ok by (auto simp: out_pcm_write_def out_pcm_ok_def)
  next
    assume r: "ret = 0 \<and> (\<exists>p. o_pcm out1 = Live (Pcm p) \<and> playing_device p)"
    then obtain p where p: "o_pcm (out1\<lparr>o_standby := False\<rparr>) = Live (Pcm p)" "playing_device p" by auto
    obtain e p' k' where w: "write_ptr P 2 (out1\<lparr>o_standby := False\<rparr>) buf n k1
        = Some ((e, out1\<lparr>o_standby := False, o_pcm := Live (Pcm p')\<rparr>), k')"
      "playing_device p'" "e = 0 \<and> running p' \<and> device_took P p' buf n k' \<or> e = - 1 \<and> \<not> running p'"
      using write_ptr_result [OF p, of P buf n k1] by auto
    then show ?thesis using s False r hw ch by (auto simp: out_pcm_write_def out_pcm_ok_def)
  qed
qed

text \<open>
  (C7) Writing to a PCM output stream on every branch, if the configured rate is not 0 (the code divides by it), the driver
  grants only buffers that are not empty and have fewer than $2^{31}$ frames, and the stream has at most 32 channels:
  while the stream has no route nothing is played, the call returns 0 and changes nothing; otherwise the device is opened
  when the stream was in standby. The call returns the number of bytes when the driver accepted the caller's
  buffer, as the whole frames of 16-bit samples in that number of bytes, and the device is left running. A device that cannot
  be opened gives \<^verbatim>\<open>-ENOMEM\<close> and leaves the stream in standby; a failed write gives -1 and keeps the
  stream's device, which is not running. On every branch the call returns and the stream stays usable.
\<close>

theorem out_pcm_write_result:
  assumes law: "grant_law P" and rate: "out_pcm_cfg_rate cm out \<noteq> 0" and ok: "out_pcm_ok out"
  shows "\<exists>r out' k'. out_pcm_write P 2 cm out buf n k = Some ((r, out'), k') \<and> out_pcm_ok out' \<and> o_hw out' = o_hw out
    \<and> (get_current_routes cm (o_hw out) = 0 \<longrightarrow> r = 0 \<and> out' = out \<and> k' = k)
    \<and> (get_current_routes cm (o_hw out) \<noteq> 0 \<longrightarrow>
       (r = - ENOMEM \<and> o_standby out \<and> o_standby out')
       \<or> \<not> o_standby out' \<and> (\<exists>p. o_pcm out' = Live (Pcm p)
            \<and> (r = sint n \<and> running p \<and> device_took P p buf n k' \<or> r = - 1 \<and> \<not> running p)))"
  by (rule out_pcm_write_ends [OF assms])

text \<open>The routes of a stream change between its calls.\<close>

definition with_routes :: "config_mgr \<Rightarrow> nat \<Rightarrow> u32 \<Rightarrow> config_mgr" where
  "with_routes cm i d = put_stream_at cm i ((get_stream_at cm i)\<lparr>current_devices := d\<rparr>)"

datatype out_call = P_write u32 "u8 list" u32 | P_standby

fun out_pcm_exec :: "'k psys \<Rightarrow> config_mgr \<Rightarrow> out_call \<Rightarrow> stream_out_pcm \<times> 'k \<Rightarrow> (stream_out_pcm \<times> 'k) option" where
  "out_pcm_exec P cm (P_write d buf n) (out, k) = drop_result (out_pcm_write P 2 (with_routes cm (o_hw out) d) out buf n k)"
| "out_pcm_exec P cm P_standby (out, k) = drop_result (out_pcm_standby P out k)"

lemma with_routes_rate: "o_hw out < nstreams cm \<Longrightarrow> out_pcm_cfg_rate (with_routes cm (o_hw out) d) out = out_pcm_cfg_rate cm out"
  by (simp add: out_pcm_cfg_rate_def hw_of_def with_routes_def get_put_stream)

lemma out_pcm_standby_result:
  "out_pcm_ok out \<Longrightarrow> \<exists>out' k'. out_pcm_standby P out k = Some ((0, out'), k') \<and> out_pcm_ok out' \<and> o_standby out' \<and> o_hw out' = o_hw out"
  by (auto simp: out_pcm_ok_def out_pcm_standby_def do_out_pcm_standby_def split: prod.split)

definition session_inv :: "'k psys \<Rightarrow> config_mgr \<Rightarrow> stream_out_pcm \<times> 'k \<Rightarrow> bool" where
  "session_inv P cm s \<longleftrightarrow> out_pcm_ok (fst s) \<and> grant_law P \<and> o_hw (fst s) < nstreams cm \<and> out_pcm_cfg_rate cm (fst s) \<noteq> 0"

interpretation out_pcm: safe_machine "out_pcm_exec P cm" "session_inv P cm" for P cm
proof unfold_locales
  fix s s' :: "stream_out_pcm \<times> 'a" and e
  assume inv: "session_inv P cm s"
  obtain out k where s: "s = (out, k)" by (cases s)
  have ok: "out_pcm_ok out" "grant_law P" "o_hw out < nstreams cm" "out_pcm_cfg_rate cm out \<noteq> 0"
    using inv s by (auto simp: session_inv_def)
  have "\<exists>out' k'. out_pcm_exec P cm e (out, k) = Some (out', k') \<and> out_pcm_ok out' \<and> o_hw out' = o_hw out"
  proof (cases e)
    case (P_write d buf n)
    have "out_pcm_cfg_rate (with_routes cm (o_hw out) d) out \<noteq> 0" using with_routes_rate [OF ok(3)] ok(4) by simp
    from out_pcm_write_ends [OF ok(2) this ok(1), of buf n k] show ?thesis using P_write by auto
  next
    case P_standby
    then show ?thesis using out_pcm_standby_result [OF ok(1), of P k] by auto
  qed
  then obtain out' k' where "out_pcm_exec P cm e (out, k) = Some (out', k')" "out_pcm_ok out'" "o_hw out' = o_hw out" by blast
  then show "out_pcm_exec P cm e s \<noteq> None" "out_pcm_exec P cm e s = Some s' \<Longrightarrow> session_inv P cm s'"
    using s ok by (auto simp: session_inv_def out_pcm_cfg_rate_def)
qed

text \<open>A stream of the example configuration.\<close>

definition demo_out :: stream_out_pcm where
  "demo_out = (zero_out_pcm 0)\<lparr>o_standby := True, o_channel_count := 2, o_sample_rate := 44100, o_frame_size := 4\<rparr>"

definition demo_rated_cm :: config_mgr where
  "demo_rated_cm = demo_cm\<lparr>stream_array := array_of (map (\<lambda>t. (demo_stream t)\<lparr>hinfo := \<lparr>st_type = t, card_number = 0,
     device_number = 0, rate = 44100, period_size = 0, period_count = 0\<rparr>\<rparr>) [e_stream_out_pcm, e_stream_in_pcm])\<rparr>"

lemma demo_out_ok: "out_pcm_ok demo_out"
  by (simp add: out_pcm_ok_def demo_out_def zero_out_pcm_def)

lemma demo_rated: "out_pcm_cfg_rate demo_rated_cm demo_out \<noteq> 0" "o_hw demo_out < nstreams demo_rated_cm"
  by code_simp+

lemma out_pcm_write_result_witness:
  "\<exists>r out' k'. out_pcm_write demo_card_psys 2 (with_routes demo_rated_cm 0 2) demo_out [1, 2, 3, 4] 4 demo_state
     = Some ((r, out'), k') \<and> out_pcm_ok out'
     \<and> (r = - ENOMEM \<or> r = - 1 \<or> r = 4 \<and> (\<exists>p. o_pcm out' = Live (Pcm p) \<and> device_took demo_card_psys p [1, 2, 3, 4] 4 k'))"
proof -
  have hw: "o_hw demo_out = 0" and n: "sint (4 :: u32) = 4" by (simp_all add: demo_out_def zero_out_pcm_def)
  have "out_pcm_cfg_rate (with_routes demo_rated_cm 0 2) demo_out \<noteq> 0"
    using demo_rated with_routes_rate [of demo_out demo_rated_cm 2] hw by simp
  moreover have "get_current_routes (with_routes demo_rated_cm 0 2) (o_hw demo_out) \<noteq> 0" unfolding hw by code_simp
  ultimately show ?thesis
    using out_pcm_write_result [OF demo_psys_laws _ demo_out_ok, of "with_routes demo_rated_cm 0 2" "[1, 2, 3, 4]" 4 demo_state]
      n by fastforce
qed

text \<open>
  (C8) A PCM output stream is safe over its life: from a valid stream, in standby or with an open playback device, and with at most 32
  channels, on a configured stream whose rate is not 0, every sequence of writes and standbys, with
  any routes at each write, runs without a use of a missing or closed device and
  without a division by zero, and leaves a valid stream. Of the driver it is only assumed that the buffers it grants are not empty and
  have fewer than $2^{31}$ frames; any call may fail.
\<close>

theorem out_pcm_session_safe:
  assumes "out_pcm_ok out" and "grant_law P" and "o_hw out < nstreams cm" and "out_pcm_cfg_rate cm out \<noteq> 0"
  shows "\<exists>out' k'. run_steps (out_pcm_exec P cm) calls (out, k) = Some (out', k') \<and> out_pcm_ok out'"
  using out_pcm.run_defined [of P cm "(out, k)" calls] assms by (auto simp: session_inv_def)

lemma out_pcm_session_safe_witness:
  "\<exists>out' k'. run_steps (out_pcm_exec demo_card_psys demo_rated_cm) [P_write 2 [1, 2, 3, 4] 4, P_standby, P_write 2 [] 0]
     (demo_out, demo_state) = Some (out', k') \<and> out_pcm_ok out'"
  by (rule out_pcm_session_safe [OF demo_out_ok demo_psys_laws demo_rated(2,1)])

section \<open>PCM input\<close>

text \<open>
  A resampler that calls the provider, ends when the provider does, and delivers some of the frames that it is asked for
  unless reading failed.
\<close>

definition resample_progress :: "'k resample_fn \<Rightarrow> bool" where
  "resample_progress RS \<longleftrightarrow> (\<forall>get rel n inp k I.
     (\<forall>n inp k. I inp \<longrightarrow> (\<exists>r inp' k'. get n (inp, k) = Some (r, (inp', k')) \<and> I inp')) \<longrightarrow>
     (\<forall>n inp. I inp \<longrightarrow> I (rel n inp)) \<longrightarrow> I inp \<longrightarrow> 0 < n \<longrightarrow>
     (\<exists>bs f inp' k'. RS get rel n (inp, k) = Some ((bs, f), (inp', k')) \<and> I inp'
        \<and> (rs_read_status (i_resampler inp') \<noteq> 0 \<or> 0 < f \<and> f \<le> n)))"

definition capturing_device :: "pcm \<Rightarrow> bool" where
  "capturing_device p \<longleftrightarrow> pcm_is_ready p \<and> flags p = PCM_IN \<and> pcm_inv p \<and> format (config p) = PCM_FORMAT_S16_LE
     \<and> 0 < unat (channels (config p)) \<and> unat (channels (config p)) \<le> 32"

lemma capturing_frames: "capturing_device p \<Longrightarrow> xfer_frames p n \<noteq> None"
  using playing_frames [of "p\<lparr>flags := PCM_OUT\<rparr>"]
  by (simp add: capturing_device_def playing_device_def pcm_is_ready_def pcm_inv_def xfer_frames_def)

lemma capture_read_ends:
  assumes law: "overruns_end P left m" "m < fuel" and p: "capturing_device p"
  shows "\<exists>r p' k'. pcm_read P fuel p n k = Some ((r, p'), k') \<and> capturing_device p'"
proof -
  have d: "dev_inv p p" using p by (simp add: dev_inv_def same_pcm_def capturing_device_def)
  have keep: "capturing_device q" if "dev_inv p q" for q
    using p that by (auto simp: dev_inv_def same_pcm_def capturing_device_def pcm_is_ready_def)
  from pcm_read_ends [OF law capturing_frames [OF p] d] keep show ?thesis by blast
qed

text \<open>
  The invariant of an input stream on a PCM channel: the sizes are those of real formats, in standby
  there is no resampler, and outside standby the stream owns a capture device and a resampler has its buffer.
\<close>

definition capturing :: "stream_in_pcm \<Rightarrow> bool" where
  "capturing inp \<longleftrightarrow> (\<exists>p. i_dev inp = Live (In_pcm (Pcm p)) \<and> capturing_device p)
     \<and> i_hw_channel_count inp = in_pcm_cfg_channel_count inp
     \<and> (rs_resampler (i_resampler inp) \<noteq> None \<longrightarrow> rs_buffer (i_resampler inp) \<noteq> None)"

definition in_sizes_ok :: "stream_in_pcm \<Rightarrow> bool" where
  "in_sizes_ok inp \<longleftrightarrow> 0 < unat (i_frame_size inp) \<and> unat (i_frame_size inp) \<le> 1024
     \<and> i_frame_size inp * i_sample_rate inp \<noteq> 0 \<and> unat (i_channel_count inp) \<le> 32"

definition in_pcm_ok :: "stream_in_pcm \<Rightarrow> bool" where
  "in_pcm_ok inp \<longleftrightarrow> in_sizes_ok inp
     \<and> (if i_standby inp then rs_resampler (i_resampler inp) = None else capturing inp)"

definition same_sizes :: "stream_in_pcm \<Rightarrow> stream_in_pcm \<Rightarrow> bool" where
  "same_sizes a b \<longleftrightarrow> i_frame_size b = i_frame_size a \<and> i_sample_rate b = i_sample_rate a
     \<and> i_channel_count b = i_channel_count a \<and> i_standby b = i_standby a \<and> i_hw b = i_hw a"

lemma same_sizes_ok: "same_sizes a b \<Longrightarrow> in_sizes_ok b = in_sizes_ok a"
  by (simp add: same_sizes_def in_sizes_ok_def)

text \<open>What the provider keeps while a resampler reads through it.\<close>

definition provides :: "stream_in_pcm \<Rightarrow> stream_in_pcm \<Rightarrow> bool" where
  "provides a b \<longleftrightarrow> same_sizes a b \<and> capturing b \<and> rs_resampler (i_resampler b) \<noteq> None"

lemma in_cfg_channels:
  "unat (i_channel_count inp) \<le> 32 \<Longrightarrow> 0 < unat (in_pcm_cfg_channel_count inp) \<and> unat (in_pcm_cfg_channel_count inp) \<le> 32"
  by (auto simp: in_pcm_cfg_channel_count_def unat_gt_0)

text \<open>The right channel is never discarded: the device has as many channels as the stream, or one.\<close>

lemma no_discard: "capturing inp \<Longrightarrow> \<not> (i_channel_count inp = 1 \<and> i_hw_channel_count inp = 2)"
  by (auto simp: capturing_def in_pcm_cfg_channel_count_def split: if_splits)

lemma read_handle_ends:
  assumes "overruns_end P left m" and "m < fuel" and "capturing_device p"
  shows "\<exists>r bs p' k'. read_handle P fuel (Pcm p) n k = Some (((r, bs), Pcm p'), k') \<and> capturing_device p'"
  using capture_read_ends [OF assms, of n k] by (auto simp: read_handle_def)

lemma get_next_buffer_ends:
  assumes law: "overruns_end P left m" "m < fuel" and c: "provides a inp"
  shows "\<exists>r inp' k'. get_next_buffer P fuel n (inp, k) = Some (r, (inp', k')) \<and> provides a inp'"
proof -
  obtain p where p: "i_dev inp = Live (In_pcm (Pcm p))" "capturing_device p" using c by (auto simp: provides_def capturing_def)
  obtain old where old: "rs_buffer (i_resampler inp) = Some old" using c by (auto simp: provides_def capturing_def)
  obtain r bs p' k' where rd: "read_handle P fuel (Pcm p) (rs_in_buffer_size (i_resampler inp)) k
      = Some (((r, bs), Pcm p'), k')" "capturing_device p'"
    using read_handle_ends [OF law p(2)] by blast
  have nd: "\<not> (i_channel_count inp = 1 \<and> i_hw_channel_count inp = 2)" using no_discard c by (auto simp: provides_def)
  have keep: "provides a (inp\<lparr>i_dev := Live (In_pcm (Pcm q)), i_resampler := rsp\<rparr>)"
    if "capturing_device q" "rs_resampler rsp \<noteq> None" "rs_buffer rsp \<noteq> None" for q rsp
    using c that by (auto simp: provides_def same_sizes_def capturing_def in_pcm_cfg_channel_count_def)
  have rs: "rs_resampler (i_resampler inp) \<noteq> None" using c by (simp add: provides_def)
  show ?thesis
  proof (cases "rs_frames_in (i_resampler inp) = 0")
    case False
    have "inp\<lparr>i_resampler := i_resampler inp\<rparr> = inp" by simp
    then show ?thesis using p(1) c False by (simp add: get_next_buffer_def Let_def)
  next
    case True
    then show ?thesis
      using p(1) rd(1) old nd rs keep [OF rd(2)] by (cases "r = 0") (auto simp: get_next_buffer_def Let_def)
  qed
qed

lemma release_buffer_provides: "provides a inp \<Longrightarrow> provides a (release_buffer n inp)"
  by (auto simp: provides_def same_sizes_def capturing_def release_buffer_def Let_def in_pcm_cfg_channel_count_def)

lemma resample_ends:
  assumes "overruns_end P left m" and "m < fuel" and RS: "resample_progress RS" and "provides a inp" and "0 < n"
  shows "\<exists>bs f inp' k'. RS (get_next_buffer P fuel) release_buffer n (inp, k) = Some ((bs, f), (inp', k'))
    \<and> provides a inp' \<and> (rs_read_status (i_resampler inp') \<noteq> 0 \<or> 0 < f \<and> f \<le> n)"
proof -
  have "\<forall>n inp k. provides a inp \<longrightarrow>
      (\<exists>r inp' k'. get_next_buffer P fuel n (inp, k) = Some (r, (inp', k')) \<and> provides a inp')"
    using get_next_buffer_ends [OF assms(1,2)] by blast
  moreover have "\<forall>n inp. provides a inp \<longrightarrow> provides a (release_buffer n inp)" using release_buffer_provides by blast
  ultimately show ?thesis using RS assms(4,5) unfolding resample_progress_def by blast
qed

definition rs_loop_inv ::
  "'k resample_fn \<Rightarrow> 'k psys \<Rightarrow> ('k \<Rightarrow> nat) \<Rightarrow> nat \<Rightarrow> int \<Rightarrow> stream_in_pcm \<Rightarrow> (int \<times> u8 list) \<times> 'k provider \<Rightarrow> bool" where
  "rs_loop_inv RS P left m frames a = (\<lambda>((wr, out), (inp, k)). overruns_end P left m \<and> resample_progress RS \<and> frames < 2 ^ 31
     \<and> 0 \<le> wr \<and> provides a inp)"

definition rs_left :: "int \<Rightarrow> (int \<times> u8 list) \<times> 'k provider \<Rightarrow> nat" where
  "rs_left frames s = nat (frames - fst (fst s))"

lemma rs_step_result:
  assumes inv: "rs_loop_inv RS P left m frames a s" and fuel: "m < fuel"
  shows "\<exists>x. resample_step RS P fuel frames s = Some x \<and>
    (case x of Inl s' \<Rightarrow> rs_loop_inv RS P left m frames a s' \<and> rs_left frames s' < rs_left frames s
             | Inr r \<Rightarrow> provides a (fst (snd r)))"
proof -
  obtain wr out inp k where s: "s = ((wr, out), (inp, k))" by (metis prod.exhaust)
  have i: "overruns_end P left m" "resample_progress RS" "frames < 2 ^ 31" "0 \<le> wr" "provides a inp"
    using inv s by (auto simp: rs_loop_inv_def)
  show ?thesis
  proof (cases "wr < frames")
    case False
    then show ?thesis using s i by (simp add: resample_step_def)
  next
    case True
    let ?n = "word_of_int (frames - wr) :: u32"
    have n: "uint ?n = frames - wr" using True i(3,4) unfolding uint_word_of_int by (simp add: mod_pos_pos_trivial)
    then have n31: "unat ?n < 2 ^ 31" "0 < ?n" using True i(3,4) by (simp_all add: unat_eq_nat_uint word_less_def)
    obtain bs f inp' k' where r: "RS (get_next_buffer P fuel) release_buffer ?n (inp, k) = Some ((bs, f), (inp', k'))"
      "provides a inp'" "rs_read_status (i_resampler inp') \<noteq> 0 \<or> 0 < f \<and> f \<le> ?n"
      using resample_ends [OF i(1) fuel i(2,5) n31(2)] by blast
    have f: "0 < sint f" if "0 < f" "f \<le> ?n"
    proof -
      have "unat f \<le> unat ?n" "0 < unat f" using that by (simp_all add: word_le_nat_alt word_less_nat_alt)
      then show ?thesis using sint_small [of f] n31(1) by linarith
    qed
    show ?thesis
    proof (cases "rs_read_status (i_resampler inp') = 0")
      case False
      then show ?thesis using s r(1,2) True by (simp add: resample_step_def Let_def)
    next
      case st: True
      then have "0 < sint f" using f r(3) by blast
      then show ?thesis using s r(1,2) True st i by (simp add: resample_step_def Let_def rs_loop_inv_def rs_left_def)
    qed
  qed
qed

interpretation rs_loop: ending_loop "resample_step RS P fuel frames" "\<lambda>s. rs_loop_inv RS P left m frames a s \<and> m < fuel"
  "\<lambda>r. provides a (fst (snd r))" "rs_left frames" for RS P fuel left m frames a
proof unfold_locales
  fix s s' assume "rs_loop_inv RS P left m frames a s \<and> m < fuel" and "resample_step RS P fuel frames s = Some (Inl s')"
  then show "rs_loop_inv RS P left m frames a s' \<and> m < fuel" "rs_left frames s' < rs_left frames s"
    using rs_step_result [of RS P left m frames a s fuel] by auto
next
  fix s r assume "rs_loop_inv RS P left m frames a s \<and> m < fuel" and "resample_step RS P fuel frames s = Some (Inr r)"
  then show "provides a (fst (snd r))" using rs_step_result [of RS P left m frames a s fuel] by auto
next
  fix s assume "rs_loop_inv RS P left m frames a s \<and> m < fuel"
  then show "resample_step RS P fuel frames s \<noteq> None" using rs_step_result [of RS P left m frames a s fuel] by auto
qed

lemma read_resampled_ends:
  fixes n :: u32
  assumes "overruns_end P left m" and "m < fuel" and "resample_progress RS" and "provides inp inp" and "nat (sint n) < fuel"
  shows "\<exists>r inp' k'. read_resampled_frames RS P fuel inp (sint n) k = Some (r, (inp', k')) \<and> provides inp inp'"
proof -
  have "sint n < 2 ^ 31" using sint_lt [of n] by simp
  then have "rs_loop_inv RS P left m (sint n) inp ((0, []), (inp, k)) \<and> m < fuel" using assms by (simp add: rs_loop_inv_def)
  moreover have "rs_left (sint n) ((0, []), (inp, k)) < fuel" using assms(5) by (simp add: rs_left_def)
  ultimately obtain r where "run_loop fuel (resample_step RS P fuel (sint n)) ((0, []), (inp, k)) = Some r"
    "provides inp (fst (snd r))" using rs_loop.finishes by blast
  then show ?thesis by (cases r) (auto simp: read_resampled_frames_def)
qed

lemma opened_capturing:
  assumes "pcm_open P c d PCM_IN (Some cfg) k = Some ((cfg', Pcm p), k')" and "pcm_is_ready p"
    and "format cfg = PCM_FORMAT_S16_LE" and "0 < unat (channels cfg)" and "unat (channels cfg) \<le> 32"
  shows "capturing_device p"
  using pcm_open_ready [OF assms(1)] assms(2-5) by (auto simp: capturing_device_def pcm_is_ready_def pcm_inv_def)

lemma in_resampler_init_result:
  assumes "in_sizes_ok inp" and "0 < unat chans" and "unat chans \<le> 32"
  shows "\<exists>ret rsp k'. in_resampler_init E R inp hw_rate chans frag k = Some ((ret, inp\<lparr>i_resampler := rsp\<rparr>), k')
    \<and> (0 \<le> ret \<longrightarrow> rs_resampler rsp \<noteq> None \<and> rs_buffer rsp \<noteq> None)
    \<and> (ret < 0 \<longrightarrow> rs_resampler rsp = rs_resampler (i_resampler inp))"
proof -
  have "unat chans * unat (i_frame_size inp) \<le> 32 * 1024"
    by (rule mult_le_mono) (use assms in \<open>simp_all add: in_sizes_ok_def\<close>)
  moreover have "0 < unat chans * unat (i_frame_size inp)" using assms by (simp add: in_sizes_ok_def)
  ultimately have "unat (chans * i_frame_size inp) \<noteq> 0" by (simp add: unat_mult_lem [THEN iffD1])
  then have d: "chans * i_frame_size inp \<noteq> 0" by auto
  obtain ok k1 where a: "sys_alloc E k = (ok, k1)" by (metis prod.exhaust)
  obtain ret h k2 where c: "create_resampler R hw_rate (i_sample_rate inp) (i_channel_count inp) k1 = ((ret, h), k2)"
    by (metis prod.exhaust)
  show ?thesis
  proof (cases ok)
    case True
    then show ?thesis using d a c by (cases "ret < 0") (auto simp: in_resampler_init_def Let_def)
  next
    case False
    then show ?thesis using d a by (auto simp: in_resampler_init_def Let_def)
  qed
qed

lemma do_open_pcm_input_result:
  assumes law: "grant_law P" and rate: "in_pcm_cfg_rate cm i \<noteq> 0" and hw: "i_hw inp = Some i"
    and ok: "in_sizes_ok inp" and rs: "rs_resampler (i_resampler inp) = None"
  shows "\<exists>r inp' k'. do_open_pcm_input E P R cm inp k = Some ((r, inp'), k') \<and> same_sizes inp inp'
    \<and> (r = 0 \<and> capturing inp' \<or> r < 0 \<and> rs_resampler (i_resampler inp') = None)"
proof -
  let ?cfg = "\<lparr>channels = in_pcm_cfg_channel_count inp, cfg_rate = in_pcm_cfg_rate cm i,
                cfg_period_size = in_pcm_cfg_period_size cm i, cfg_period_count = in_pcm_cfg_period_count cm i,
                format = PCM_FORMAT_S16_LE, start_threshold = 0, stop_threshold = 0, silence_threshold = 0\<rparr>"
  obtain cfg1 h k1 where o: "pcm_open P (ucast (card_number (hw_of cm i))) (ucast (device_number (hw_of cm i)))
        PCM_IN (Some ?cfg) k = Some ((cfg1, h), k1)"
    using pcm_open_defined [OF law] by (metis not_None_eq prod.exhaust)
  obtain c where c: "cfg1 = Some c" "cfg_rate c = in_pcm_cfg_rate cm i" "channels c = in_pcm_cfg_channel_count inp"
    using pcm_open_keeps [OF o] by auto
  have cc: "0 < unat (channels c)" "unat (channels c) \<le> 32"
    using in_cfg_channels [of inp] ok c(3) by (simp_all add: in_sizes_ok_def)
  have fail: "\<exists>k'. open_input_fail P (- ENOMEM) inp h k1 = ((- ENOMEM, inp\<lparr>i_dev := Null\<rparr>), k')" for h
    by (simp add: open_input_fail_def split: prod.split)
  consider "h = Bad_pcm \<or> (\<exists>p. h = Pcm p \<and> \<not> pcm_is_ready p)" | p where "h = Pcm p" "pcm_is_ready p"
    by (cases h) auto
  then show ?thesis
  proof cases
    case 1
    then show ?thesis using o hw rs fail [of h] by (auto simp: do_open_pcm_input_def same_sizes_def)
  next
    case 2
    have cap: "capturing_device p" using opened_capturing [OF o [unfolded 2(1)] 2(2)] cc c(3) by simp
    obtain in1 where f: "in_pcm_fill_params (inp\<lparr>i_dev := Live (In_pcm h)\<rparr>) c = Some in1" "same_sizes inp in1"
      "i_dev in1 = Live (In_pcm (Pcm p))" "i_hw_channel_count in1 = in_pcm_cfg_channel_count in1"
      "i_resampler in1 = i_resampler inp"
      using c rate 2 by (auto simp: in_pcm_fill_params_def Let_def same_sizes_def in_pcm_cfg_channel_count_def)
    have "i_sample_rate in1 \<noteq> 0" using ok f(2) by (auto simp: in_sizes_ok_def same_sizes_def)
    then have sr: "in_get_sample_rate cm in1 = Some (i_sample_rate in1)" by (simp add: in_get_sample_rate_def)
    have in1: "capturing in1" using f(3-5) cap rs by (simp add: capturing_def)
    obtain ret rsp k2 where r: "in_resampler_init E R in1 (cfg_rate c) (channels c)
        (pcm_frames_to_bytes p (cfg_period_size c)) k1 = Some ((ret, in1\<lparr>i_resampler := rsp\<rparr>), k2)"
      "0 \<le> ret \<longrightarrow> rs_resampler rsp \<noteq> None \<and> rs_buffer rsp \<noteq> None" "ret < 0 \<longrightarrow> rs_resampler rsp = None"
      using in_resampler_init_result [of in1 "channels c" E R] cc ok same_sizes_ok [OF f(2)] f(5) rs by metis
    have cap2: "capturing (in1\<lparr>i_resampler := rsp\<rparr>)" if "0 \<le> ret"
      using in1 r(2) that by (auto simp: capturing_def in_pcm_cfg_channel_count_def)
    obtain k3 where k3: "open_input_fail P ret (in1\<lparr>i_resampler := rsp\<rparr>) h k2
        = ((ret, in1\<lparr>i_resampler := rsp, i_dev := Null\<rparr>), k3)"
      by (cases "pcm_close P h k2") (simp add: open_input_fail_def)
    show ?thesis
    proof (cases "i_sample_rate in1 = cfg_rate c")
      case True
      then show ?thesis using o hw 2 c(1) f(1,2) sr in1 by (simp add: do_open_pcm_input_def)
    next
      case False
      then show ?thesis
        using o hw 2 c(1) f(1,2) sr r k3 cap2
        by (cases "ret < 0") (auto simp: do_open_pcm_input_def same_sizes_def)
    qed
  qed
qed

lemma sint_le_unat: "nat (sint w) \<le> unat w" for w :: u32
proof -
  have "sint w = take_bit 32 (uint w) - 2 ^ 32 * of_bool (bit (uint w) 31)"
    by (simp add: sint_uint signed_take_bit_eq_take_bit_minus)
  also have "\<dots> \<le> uint w" using uint_lt2p [of w] by (simp add: take_bit_int_eq_self)
  finally show ?thesis unfolding unat_eq_nat_uint by (rule nat_mono)
qed

lemma start_pcm_input_result:
  assumes "grant_law P" and "in_pcm_cfg_rate cm i \<noteq> 0" and "i_hw inp = Some i" and ok: "in_pcm_ok inp"
  shows "\<exists>r inp' k'. start_pcm_input_stream E P R cm inp k = Some ((r, inp'), k') \<and> in_pcm_ok inp'
    \<and> i_hw inp' = i_hw inp \<and> in_sizes_ok inp' \<and> (r = 0 \<and> \<not> i_standby inp' \<and> capturing inp' \<or> r < 0)"
proof (cases "i_standby inp")
  case False
  then show ?thesis using ok by (simp add: start_pcm_input_stream_def in_pcm_ok_def)
next
  case True
  then have s: "in_sizes_ok inp" "rs_resampler (i_resampler inp) = None" using ok by (simp_all add: in_pcm_ok_def)
  obtain r inp' k' where o: "do_open_pcm_input E P R cm inp k = Some ((r, inp'), k')" "same_sizes inp inp'"
    "r = 0 \<and> capturing inp' \<or> r < 0 \<and> rs_resampler (i_resampler inp') = None"
    using do_open_pcm_input_result [OF assms(1-3) s] by blast
  note sz = same_sizes_ok [OF o(2)]
  have "capturing (inp'\<lparr>i_standby := False\<rparr>)" if "r = 0"
    using o(3) that by (auto simp: capturing_def in_pcm_cfg_channel_count_def)
  then show ?thesis
    using o True sz s(1)
    by (cases "r = 0") (auto simp: start_pcm_input_stream_def in_pcm_ok_def same_sizes_def in_sizes_ok_def)
qed

lemma do_in_pcm_read_result:
  assumes "grant_law P" and law: "overruns_end P left m" "m < fuel" "resample_progress RS" and "in_pcm_cfg_rate cm i \<noteq> 0"
    and "i_hw inp = Some i" and ok: "in_pcm_ok inp" and fuel: "unat n < fuel"
  shows "\<exists>r bs inp' k'. do_in_pcm_read E P R RS fuel cm inp n k = Some ((r, bs), (inp', k')) \<and> in_pcm_ok inp'
    \<and> i_hw inp' = i_hw inp \<and> (r = sint n \<or> r < 0)"
proof -
  have fs: "i_frame_size inp \<noteq> 0" using ok by (auto simp: in_pcm_ok_def in_sizes_ok_def)
  let ?f = "n div i_frame_size inp"
  have "nat (sint ?f) \<le> unat ?f" by (simp add: sint_le_unat)
  moreover have "unat ?f \<le> unat n" by (simp add: unat_div)
  ultimately have f: "nat (sint ?f) < fuel" using fuel by linarith
  obtain ret in1 k1 where st: "start_pcm_input_stream E P R cm inp k = Some ((ret, in1), k1)" "in_pcm_ok in1"
    "i_hw in1 = i_hw inp" "in_sizes_ok in1" "ret = 0 \<and> \<not> i_standby in1 \<and> capturing in1 \<or> ret < 0"
    using start_pcm_input_result [OF assms(1,5,6) ok] by blast
  show ?thesis
  proof (cases "ret < 0")
    case True
    then show ?thesis using st fs by (simp add: do_in_pcm_read_def)
  next
    case False
    then have c: "\<not> i_standby in1" "capturing in1" using st(5) by auto
    show ?thesis
    proof (cases "rs_resampler (i_resampler in1) = None")
      case None: True
      obtain p where p: "i_dev in1 = Live (In_pcm (Pcm p))" "capturing_device p" using c by (auto simp: capturing_def)
      obtain r bs p' k' where rd: "read_handle P fuel (Pcm p) n k1 = Some (((r, bs), Pcm p'), k')" "capturing_device p'"
        using read_handle_ends [OF law(1,2) p(2)] by blast
      have "in_pcm_ok (in1\<lparr>i_dev := Live (In_pcm (Pcm p'))\<rparr>)"
        using c rd(2) st(2) by (auto simp: in_pcm_ok_def capturing_def in_sizes_ok_def in_pcm_cfg_channel_count_def)
      then show ?thesis using False None st(1,3) fs p(1) rd(1) by (auto simp: do_in_pcm_read_def)
    next
      case Some: False
      then have "provides in1 in1" using c by (simp add: provides_def same_sizes_def)
      then obtain r bs in2 k' where rd: "read_resampled_frames RS P fuel in1 (sint ?f) k1 = Some ((r, bs), (in2, k'))"
        "provides in1 in2" using read_resampled_ends [OF law _ f] by fast
      have "in_pcm_ok in2" "i_hw in2 = i_hw inp"
        using rd(2) c st(3,4) same_sizes_ok [of in1 in2] by (auto simp: provides_def in_pcm_ok_def same_sizes_def)
      then show ?thesis using False Some st(1) fs rd(1) by (auto simp: do_in_pcm_read_def)
    qed
  qed
qed

lemma delay_defined:
  "i_frame_size inp * i_sample_rate inp \<noteq> 0 \<Longrightarrow> \<exists>k'. do_in_realtime_delay R inp n k = Some k'"
  by (cases "system_time R k") (simp add: do_in_realtime_delay_def required_interval_def Let_def)

lemma in_pcm_read_returns:
  assumes "grant_law P" and "overruns_end P left m" and "m < fuel" and "resample_progress RS"
    and hw: "\<forall>i. i_hw inp = Some i \<longrightarrow> in_pcm_cfg_rate (adev_cm adev) i \<noteq> 0 \<and> \<not> stream_is_compressed_in (hw_of (adev_cm adev) i)"
    and ok: "in_pcm_ok inp" and fuel: "unat n < fuel"
  shows "\<exists>bs inp' k'. in_pcm_read E P Z R RS fuel adev inp n k = Some ((sint n, bs), (inp', k')) \<and> in_pcm_ok inp'
    \<and> i_hw inp' = i_hw inp \<and> i_last_read_ns inp' \<noteq> 0
    \<and> (mic_mute adev \<or> i_hw inp = None \<or> (\<exists>i. i_hw inp = Some i \<and> get_current_routes (adev_cm adev) i = 0)
       \<longrightarrow> bs = replicate (unat n) 0)"
proof -
  let ?r = "\<exists>i. i_hw inp = Some i \<and> get_current_routes (adev_cm adev) i \<noteq> 0"
  obtain ret bs in1 k1 where d: "(case i_hw inp of
          None \<Rightarrow> Some ((- EINVAL, []), (inp, k))
        | Some i \<Rightarrow>
            if get_current_routes (adev_cm adev) i = 0 then Some ((- EINVAL, []), (inp, k))
            else if stream_is_compressed_in (hw_of (adev_cm adev) i)
            then do_in_compress_pcm_read Z R (adev_cm adev) inp n k
            else do_in_pcm_read E P R RS fuel (adev_cm adev) inp n k) = Some ((ret, bs), (in1, k1))"
    and in1: "in_pcm_ok in1" "i_hw in1 = i_hw inp" "ret = sint n \<or> ret < 0" "\<not> ?r \<longrightarrow> ret < 0"
  proof (cases ?r)
    case True
    then obtain i where i: "i_hw inp = Some i" "get_current_routes (adev_cm adev) i \<noteq> 0" by blast
    then show ?thesis
      using that do_in_pcm_read_result [OF assms(1-4) _ i(1) ok fuel, of "adev_cm adev" E R k] hw by fastforce
  next
    case False
    then show ?thesis using that [of "- EINVAL" "[]" inp k] ok by (auto split: option.split)
  qed
  have sz: "i_frame_size in1 * i_sample_rate in1 \<noteq> 0" using in1(1) by (simp add: in_pcm_ok_def in_sizes_ok_def)
  obtain k2 where dl: "do_in_realtime_delay R in1 n k1 = Some k2"
    using delay_defined [OF sz, of R n k1] by blast
  have ts: "\<exists>ns k'. do_in_set_read_timestamp R in1 k0 = (in1\<lparr>i_last_read_ns := ns\<rparr>, k') \<and> ns \<noteq> 0" for k0
    by (cases "system_time R k0", cases "fst (system_time R k0) = 0") (auto simp: do_in_set_read_timestamp_def)
  have keep: "in_pcm_ok (in1\<lparr>i_last_read_ns := ns\<rparr>)" for ns
    using in1(1) by (auto simp: in_pcm_ok_def in_sizes_ok_def capturing_def in_pcm_cfg_channel_count_def)
  show ?thesis
  proof (cases "ret \<le> 0 \<or> mic_mute adev")
    case True
    let ?k = "if ret \<le> 0 then k2 else k1"
    obtain ns k' where t: "do_in_set_read_timestamp R in1 ?k = (in1\<lparr>i_last_read_ns := ns\<rparr>, k')" "ns \<noteq> 0" using ts by blast
    then show ?thesis using True d dl in1(2) keep by (simp add: in_pcm_read_def split: if_splits)
  next
    case False
    obtain ns k' where t: "do_in_set_read_timestamp R in1 k1 = (in1\<lparr>i_last_read_ns := ns\<rparr>, k')" "ns \<noteq> 0" using ts by blast
    then show ?thesis using False d in1(2-4) keep by (auto simp: in_pcm_read_def)
  qed
qed


definition demo_in :: stream_in_pcm where
  "demo_in = zero_in\<lparr>i_hw := Some 1, i_standby := True, i_channel_count := 1, i_sample_rate := 16000, i_frame_size := 2\<rparr>"

text \<open>The device whose first read overruns.\<close>

definition demo_overrun_psys :: "card_state psys" where
  "demo_overrun_psys = demo_card_psys\<lparr>p_errno := (\<lambda>k. EPIPE),
     p_readi := (\<lambda>f n k. if k 0 0 = 0 then ((- 1, []), k(0 := (k 0)(0 := 1))) else ((0, replicate (unat n) 7), k(0 := (k 0)(0 := 0))))\<rparr>"

lemma demo_overruns_end:
  "overruns_end demo_overrun_psys (\<lambda>k. if k 0 0 = 0 then 1 else 0) 1" "grant_law demo_overrun_psys"
  using demo_psys_laws
  by (auto simp: overruns_end_def grant_law_def demo_overrun_psys_def demo_card_psys_def split: if_splits)

text \<open>A resampler that reports one frame for each request.\<close>

definition demo_slow_resample :: "card_state resample_fn" where
  "demo_slow_resample next_buffer release n s =
     (case next_buffer n s of Some (_, (inp, k)) \<Rightarrow> Some (([0, 0], 1), (release 1 inp, k)) | None \<Rightarrow> None)"

lemma demo_resample_progress: "resample_progress demo_slow_resample"
  unfolding resample_progress_def
proof (intro allI impI)
  fix get :: "u32 \<Rightarrow> card_state provider \<Rightarrow> ((int \<times> (u32 \<times> u32) option) \<times> card_state provider) option"
    and rel :: "u32 \<Rightarrow> stream_in_pcm \<Rightarrow> stream_in_pcm" and n :: u32 and inp k I
  assume g: "\<forall>n inp k. I inp \<longrightarrow> (\<exists>r inp' k'. get n (inp, k) = Some (r, inp', k') \<and> I inp')"
    and r: "\<forall>n inp. I inp \<longrightarrow> I (rel n inp)" and i: "I inp" and n: "0 < n"
  obtain x inp' k' where x: "get n (inp, k) = Some (x, inp', k')" "I inp'" using g i by blast
  have "1 \<le> n" using n by (simp add: word_le_nat_alt word_less_nat_alt)
  then show "\<exists>bs f inp' k'. demo_slow_resample get rel n (inp, k) = Some ((bs, f), inp', k') \<and> I inp'
      \<and> (rs_read_status (i_resampler inp') \<noteq> 0 \<or> 0 < f \<and> f \<le> n)"
    using x r by (auto simp: demo_slow_resample_def)
qed


text \<open>
  Frames that were left over when the stream went to standby count as frames of the new buffer after the device
  has been opened again: the resampler is handed memory that was never written.
\<close>

lemma reopened_resampler_unread:
  assumes "in_resampler_init E R inp r c f k = Some ((ret, inp'), k')" and "0 \<le> ret" and "i_dev inp' = Live (In_pcm h)"
    and "rs_frames_in (i_resampler inp) \<noteq> 0"
  shows "\<exists>n2 off. get_next_buffer P fuel n (inp', k') = Some ((rs_read_status (i_resampler inp'), Some (n2, off)), inp', k')
    \<and> (\<exists>sz k1. rs_buffer (i_resampler inp') = Some (malloc_bytes R sz k1))"
  using assms by (auto simp: in_resampler_init_def get_next_buffer_def Let_def split: if_splits prod.splits; blast)

section \<open>Compressed output\<close>

text \<open>The calls on a compressed stream without a callback, apart from draining.\<close>

datatype compress_call =
    C_write config_mgr "u8 list" u32 | C_pause | C_resume | C_flush | C_standby | C_position

fun compress_exec :: "'k csys \<Rightarrow> compress_call \<Rightarrow> stream_out_compress \<times> 'k \<Rightarrow> (stream_out_compress \<times> 'k) option" where
  "compress_exec Z (C_write cm buf n) (out, k) = drop_result (out_compress_write Z cm out buf n k)"
| "compress_exec Z C_pause (out, k) = drop_result (out_compress_pause Z out k)"
| "compress_exec Z C_resume (out, k) = drop_result (out_compress_resume Z out k)"
| "compress_exec Z C_flush (out, k) = drop_result (out_compress_flush Z out k)"
| "compress_exec Z C_standby (out, k) = drop_result (out_compress_standby Z out k)"
| "compress_exec Z C_position (out, k) = map_option (\<lambda>(_, k'). (out, k')) (out_compress_get_render_position Z out k)"

text \<open>
  The library refuses to open a device by returning no object, which the code does not test for.
\<close>

definition null_open :: "'k csys \<Rightarrow> config_mgr \<Rightarrow> stream_out_compress \<Rightarrow> 'k \<Rightarrow> bool" where
  "null_open Z cm out k \<longleftrightarrow> oc_compress out = Null
     \<and> fst (fst (compress_open Z (card_number (hw_of cm (o_hw out))) (device_number (hw_of cm (o_hw out)))
          (COMPRESS_IN Z) 0 0 (oc_codec out) k)) = None"

definition compress_ok :: "stream_out_compress \<Rightarrow> bool" where
  "compress_ok out \<longleftrightarrow> oc_compress out \<noteq> Dangling \<and> (oc_compress out = Null \<longrightarrow> \<not> oc_started out \<and> \<not> oc_paused out)"

lemma open_output_compress_result:
  assumes "\<not> null_open Z cm out k" and "compress_ok out"
  shows "\<exists>r out' k'. open_output_compress Z cm out k = Some ((r, out'), k') \<and> compress_ok out'
    \<and> (0 \<le> r \<longrightarrow> (\<exists>c. oc_compress out' = Live c))"
proof (cases "oc_compress out = Null")
  case False
  then show ?thesis using assms(2) by (cases "oc_compress out") (auto simp: open_output_compress_def compress_ok_def)
next
  case True
  obtain oc fs fc k1 where o: "compress_open Z (card_number (hw_of cm (o_hw out))) (device_number (hw_of cm (o_hw out)))
      (COMPRESS_IN Z) 0 0 (oc_codec out) k = ((oc, fs, fc), k1)" by (metis prod.exhaust)
  then have "oc \<noteq> None" using assms(1) True by (auto simp: null_open_def)
  then show ?thesis
    using True o assms(2) by (auto simp: open_output_compress_def compress_ok_def Let_def)
qed

text \<open>Without the test the missing object is used.\<close>

lemma null_open_undefined: "null_open Z cm out k \<Longrightarrow> open_output_compress Z cm out k = None"
  by (auto simp: null_open_def open_output_compress_def split: prod.splits option.splits)

lemma do_standby_compress_result:
  "compress_ok out \<Longrightarrow> \<exists>out' k'. do_standby_compress_l Z out k = Some ((0, out'), k') \<and> compress_ok out'"
  by (cases "oc_compress out") (auto simp: do_standby_compress_l_def compress_ok_def Let_def)

lemma start_output_compress_result:
  assumes "compress_ok out" and "oc_compress out = Live c"
  shows "\<exists>r out' k'. start_output_compress Z out k = Some ((r, out'), k') \<and> compress_ok out'"
proof -
  obtain ret k1 where s: "compress_start Z c k = (ret, k1)" by (metis prod.exhaust)
  show ?thesis
    using s assms do_standby_compress_result [OF assms(1), of Z k1]
    by (auto simp: start_output_compress_def compress_ok_def)
qed

lemma out_compress_write_result:
  assumes "\<not> null_open Z cm out k" and "compress_ok out"
  shows "\<exists>r out' k'. out_compress_write Z cm out buf n k = Some ((r, out'), k') \<and> compress_ok out'"
proof -
  obtain r out1 k1 where o: "open_output_compress Z cm out k = Some ((r, out1), k1)" "compress_ok out1"
    "0 \<le> r \<longrightarrow> (\<exists>c. oc_compress out1 = Live c)" using open_output_compress_result [OF assms] by blast
  show ?thesis
  proof (cases "r < 0")
    case True
    then show ?thesis using o by (simp add: out_compress_write_def)
  next
    case False
    then obtain c where c: "oc_compress out1 = Live c" using o(3) by auto
    obtain m k2 where w: "compress_write Z c buf n k1 = (m, k2)" by (metis prod.exhaust)
    obtain st out2 k3 where s: "(if \<not> oc_started out1 then start_output_compress Z out1 k2 else Some ((0, out1), k2))
        = Some ((st, out2), k3)" "compress_ok out2"
      using start_output_compress_result [OF o(2) c, of Z k2] o(2) by (cases "oc_started out1") auto
    have "compress_ok (snd (signal_async_thread out2 m))" for m
      using s(2) by (simp add: signal_async_thread_def compress_ok_def)
    then show ?thesis using False o(1,2) c w s by (auto simp: out_compress_write_def)
  qed
qed

lemma compress_exec_result:
  assumes ok: "compress_ok out" and o: "\<And>cm buf n. e = C_write cm buf n \<Longrightarrow> \<not> null_open Z cm out k"
  shows "\<exists>out' k'. compress_exec Z e (out, k) = Some (out', k') \<and> compress_ok out'"
proof (cases e)
  case (C_write cm buf n)
  then show ?thesis using out_compress_write_result [OF o [OF C_write] ok, of buf n] by auto
next
  case C_standby
  then show ?thesis using do_standby_compress_result [OF ok, of Z k] by (auto simp: out_compress_standby_def)
qed (use ok in \<open>cases "oc_compress out"; force simp: compress_ok_def out_compress_pause_def out_compress_resume_def
    out_compress_flush_def out_compress_get_render_position_def split: prod.split\<close>)+

text \<open>
  (C9) A compressed stream is safe over its life: from a valid stream every sequence of writes, pauses, resumes,
  flushes, standbys and position queries, whatever the device answers, either runs without a use of a missing
  or closed device and leaves a stream that is neither started nor paused unless its device is open; or it stops, after calls
  that left such a stream, at a write for which \<^verbatim>\<open>compress_open\<close> returns no object. That is the one answer that
  the code does not test for.
\<close>

theorem compress_session_safe:
  assumes "compress_ok out"
  shows "(\<exists>out' k'. run_steps (compress_exec Z) calls (out, k) = Some (out', k') \<and> compress_ok out')
    \<or> (\<exists>before cm buf n after out1 k1. calls = before @ C_write cm buf n # after
        \<and> run_steps (compress_exec Z) before (out, k) = Some (out1, k1) \<and> compress_ok out1 \<and> null_open Z cm out1 k1)"
  using assms
proof (induction calls arbitrary: out k)
  case (Cons e calls)
  show ?case
  proof (cases "\<exists>cm buf n. e = C_write cm buf n \<and> null_open Z cm out k")
    case True
    then obtain cm buf n where "e = C_write cm buf n" "null_open Z cm out k" by blast
    then show ?thesis using Cons.prems by (intro disjI2 exI [of _ "[]"]) auto
  next
    case False
    then obtain out1 k1 where s: "compress_exec Z e (out, k) = Some (out1, k1)" "compress_ok out1"
      using compress_exec_result [OF Cons.prems, of e Z k] by blast
    from Cons.IH [OF s(2), of k1] show ?thesis
    proof
      assume "\<exists>before cm buf n after out2 k2. calls = before @ C_write cm buf n # after
        \<and> run_steps (compress_exec Z) before (out1, k1) = Some (out2, k2) \<and> compress_ok out2 \<and> null_open Z cm out2 k2"
      then obtain before cm buf n after out2 k2 where "calls = before @ C_write cm buf n # after"
        "run_steps (compress_exec Z) before (out1, k1) = Some (out2, k2)" "compress_ok out2" "null_open Z cm out2 k2" by blast
      then show ?thesis using s(1) by (intro disjI2 exI [of _ "e # before"]) auto
    qed (use s in auto)
  qed
qed simp

lemma compress_session_safe_witness:
  "\<exists>out' k'. run_steps (compress_exec demo_csys) [C_write demo_cm [1] 1, C_pause, C_standby, C_resume, C_flush, C_standby, C_pause]
     (zero_out_compress 0, demo_state) = Some (out', k') \<and> compress_ok out'"
proof -
  have "\<not> null_open demo_csys cm out k" for cm out k by (simp add: null_open_def demo_csys_def)
  moreover have "compress_ok (zero_out_compress 0)" by (simp add: compress_ok_def zero_out_compress_def)
  ultimately show ?thesis
    using compress_session_safe [of "zero_out_compress 0" demo_csys
        "[C_write demo_cm [1] 1, C_pause, C_standby, C_resume, C_flush, C_standby, C_pause]" demo_state] by blast
qed

text \<open>Draining in standby hands the missing device to the library.\<close>

lemma drain_in_standby: "oc_compress out = Null \<Longrightarrow> \<not> oc_use_async out \<Longrightarrow> out_compress_drain Z out early k = None"
  by (simp add: out_compress_drain_def)

end
