(* ===== verification/Hal_Safety.thy ===== *)
theory Hal_Safety
  imports Hal_Streams
begin

text \<open>
  The HAL on a configuration of PCM streams: every call that the framework may make returns. The calls that it may make
  (\<open>legal_hal\<close>) are those on open handles with sensible arguments; what the libraries must do is collected in \<open>hal_laws\<close>.
\<close>

section \<open>Machines that are only given legal events\<close>

locale guarded_machine =
  fixes step :: "'e \<Rightarrow> 's \<Rightarrow> 's option"
    and inv :: "'s \<Rightarrow> bool"
    and legal :: "'s \<Rightarrow> 'e \<Rightarrow> bool"
  assumes step_legal: "inv s \<Longrightarrow> legal s e \<Longrightarrow> \<exists>s'. step e s = Some s' \<and> inv s'"
begin

lemma run_legal: "inv s \<Longrightarrow> tidy_run step legal es s \<Longrightarrow> \<exists>s'. run_steps step es s = Some s' \<and> inv s'"
proof (induction es arbitrary: s)
  case (Cons e es)
  obtain t where "step e s = Some t" "inv t" using step_legal [OF Cons.prems(1), of e] Cons.prems(2) by auto
  then show ?case using Cons by simp
qed simp

end

section \<open>More fuel than needed\<close>

lemma run_loop_more: "run_loop n step s = Some r \<Longrightarrow> n \<le> m \<Longrightarrow> run_loop m step s = Some r"
proof (induction n arbitrary: m s)
  case (Suc n)
  obtain m' where m: "m = Suc m'" "n \<le> m'" using Suc.prems(2) by (cases m) auto
  then show ?case using Suc by (auto split: option.splits sum.splits)
qed simp

lemma pcm_write_more: "pcm_write P n p buf b k = Some x \<Longrightarrow> n \<le> m \<Longrightarrow> pcm_write P m p buf b k = Some x"
  by (auto simp: pcm_write_def elim!: bind_SomeE split: if_splits dest: run_loop_more)

lemma out_pcm_write_more:
  "out_pcm_write P n cm out buf b k = Some x \<Longrightarrow> n \<le> m \<Longrightarrow> out_pcm_write P m cm out buf b k = Some x"
proof -
  assume w: "out_pcm_write P n cm out buf b k = Some x" and m: "n \<le> m"
  have "write_ptr P m out1 buf b k1 = Some y" if "write_ptr P n out1 buf b k1 = Some y" for out1 k1 y
    using that by (auto simp: write_ptr_def elim!: bind_SomeE split: ptr.splits pcm_handle.splits dest: pcm_write_more [OF _ m])
  then show ?thesis using w by (auto simp: out_pcm_write_def elim!: bind_SomeE split: if_splits)
qed

section \<open>Legal calls and lawful libraries\<close>

text \<open>A configuration without compressed streams, in which every stream has a rate, as in audio.mocha.xml.\<close>

definition pcm_only :: "config_mgr \<Rightarrow> bool" where
  "pcm_only cm \<longleftrightarrow> list_all (\<lambda>s. rate (hinfo s) \<noteq> 0 \<and> \<not> stream_is_compressed (hinfo s)) (elems (stream_array cm))"

lemma pcm_only_nth: "pcm_only cm \<longleftrightarrow> (\<forall>i < nstreams cm. rate (hw_of cm i) \<noteq> 0 \<and> \<not> stream_is_compressed (hw_of cm i))"
  by (simp add: pcm_only_def list_all_length hw_of_def get_stream_at_def)

text \<open>
  The driver's grants and overruns and the resampler as for a single stream; the parser of parameters does not run out of
  memory; a mask has at most 32 channels; the bit of input devices is not one of the output devices.
\<close>

definition hal_laws :: "'k hal_env \<Rightarrow> ('k \<Rightarrow> nat) \<Rightarrow> nat \<Rightarrow> bool" where
  "hal_laws V left m \<longleftrightarrow> grant_law (he_pcm V) \<and> overruns_end (he_pcm V) left m
     \<and> resample_law (he_resample V) \<and> resample_progress (he_resample V)
     \<and> (\<forall>k. fst (parms_create (he_lib V) k)) \<and> (\<forall>c. unat (popcount (he_lib V) c) \<le> 32)
     \<and> AUDIO_DEVICE_OUT_ALL (he_audio V) AND AUDIO_DEVICE_BIT_IN (he_audio V) = 0"

lemma hal_lawsD:
  assumes "hal_laws V left m"
  shows "grant_law (he_pcm V)" "overruns_end (he_pcm V) left m" "resample_law (he_resample V)"
    "resample_progress (he_resample V)" "fst (parms_create (he_lib V) k)" "unat (popcount (he_lib V) c) \<le> 32"
    "AUDIO_DEVICE_OUT_ALL (he_audio V) AND AUDIO_DEVICE_BIT_IN (he_audio V) = 0"
  using assms by (simp_all add: hal_laws_def)

text \<open>The stream that opening an input gives.\<close>

definition opened_in :: "'k hal_env \<Rightarrow> u32 \<Rightarrow> audio_config \<Rightarrow> stream_in_pcm" where
  "opened_in V devices cfg =
     snd (do_init_in_pcm (snd (do_init_in_common (he_lib V) zero_in cfg (devices AND AUDIO_DEVICE_IN_ALL (he_audio V)))))"

fun legal_hal :: "'k hal_env \<Rightarrow> nat \<Rightarrow> hal \<times> 'k \<Rightarrow> hal_call \<Rightarrow> bool" where
  "legal_hal V fuel (h, k) (Open_output d cfg) \<longleftrightarrow> ac_sample_rate cfg \<noteq> 0"
| "legal_hal V fuel (h, k) (Close_output j) \<longleftrightarrow> out_at h j \<noteq> None"
| "legal_hal V fuel (h, k) (Out_write j buf n) \<longleftrightarrow> out_at h j \<noteq> None"
| "legal_hal V fuel (h, k) (Out_standby j) \<longleftrightarrow> out_at h j \<noteq> None"
| "legal_hal V fuel (h, k) (Out_params j kv) \<longleftrightarrow> out_at h j \<noteq> None"
| "legal_hal V fuel (h, k) (Out_volume j l r) \<longleftrightarrow> out_at h j \<noteq> None \<and> in_int (l + r)"
| "legal_hal V fuel (h, k) (Open_input d cfg) \<longleftrightarrow> in_sizes_ok (opened_in V d cfg)"
| "legal_hal V fuel (h, k) (Close_input j) \<longleftrightarrow> in_at h j \<noteq> None"
| "legal_hal V fuel (h, k) (In_read j n) \<longleftrightarrow> in_at h j \<noteq> None \<and> unat n < fuel"
| "legal_hal V fuel (h, k) (In_standby j) \<longleftrightarrow> in_at h j \<noteq> None"
| "legal_hal V fuel (h, k) (In_params j kv) \<longleftrightarrow> in_at h j \<noteq> None"
| "legal_hal V fuel (h, k) (Set_parameters kv) \<longleftrightarrow> True"
| "legal_hal V fuel (h, k) (Set_mic_mute b) \<longleftrightarrow> True"
| "legal_hal V fuel (h, k) _ \<longleftrightarrow> False"

section \<open>The streams of the HAL\<close>

definition good_out :: "out_stream option \<Rightarrow> bool" where
  "good_out x \<longleftrightarrow> (\<forall>out. x = Some out \<longrightarrow> (\<exists>p. out = Out_pcm p \<and> out_pcm_ok p))"

definition good_in :: "stream_in_pcm option \<Rightarrow> bool" where
  "good_in x \<longleftrightarrow> (\<forall>inp. x = Some inp \<longrightarrow> in_pcm_ok inp)"

lemma good_simps [simp]:
  "good_out None" "good_in None" "good_out (Some (Out_pcm p)) = out_pcm_ok p" "good_in (Some inp) = in_pcm_ok inp"
  by (simp_all add: good_out_def good_in_def)

definition streams_ok :: "hal \<Rightarrow> bool" where
  "streams_ok h \<longleftrightarrow> list_all good_out (h_outs h) \<and> list_all good_in (h_ins h)"

lemma streams_ok_out: "streams_ok h \<Longrightarrow> out_at h j = Some out \<Longrightarrow> \<exists>p. out = Out_pcm p \<and> out_pcm_ok p"
  by (auto simp: streams_ok_def list_all_length out_at_Some good_out_def)

lemma streams_ok_in: "streams_ok h \<Longrightarrow> in_at h j = Some inp \<Longrightarrow> in_pcm_ok inp"
  by (auto simp: streams_ok_def list_all_length in_at_Some good_in_def)

lemma list_all_put: "list_all P xs \<Longrightarrow> P x \<Longrightarrow> list_all P (xs[j := x])"
  using set_update_subset_insert [of xs j x] by (auto simp: list_all_iff)

lemma streams_ok_put [simp]:
  "streams_ok h \<Longrightarrow> streams_ok (h\<lparr>h_adev := a\<rparr>)"
  "streams_ok h \<Longrightarrow> out_pcm_ok p \<Longrightarrow> streams_ok (put_out h j (Out_pcm p))"
  "streams_ok h \<Longrightarrow> in_pcm_ok inp \<Longrightarrow> streams_ok (put_in h j inp)"
  "streams_ok h \<Longrightarrow> in_pcm_ok inp \<Longrightarrow> streams_ok (put_in (h\<lparr>h_adev := a\<rparr>) j inp)"
  by (simp_all add: streams_ok_def put_out_def put_in_def list_all_put)

section \<open>Calls of the configuration manager return\<close>

lemma apply_route_defined: "adev_ok a \<Longrightarrow> i < nstreams (adev_cm a) \<Longrightarrow> \<exists>cm' k'. apply_route E A (adev_cm a) i d k = Some (cm', k')"
  using apply_route_refs [of "adev_cm a" i E A d k] by (auto simp: adev_ok_def)

lemma release_stream_defined: "adev_ok a \<Longrightarrow> in_table (adev_cm a) s \<Longrightarrow> \<exists>cm' k'. release_stream E A (adev_cm a) s k = Some (cm', k')"
proof (cases s)
  case None
  then show ?thesis by (simp add: release_stream_def)
next
  case (Some i)
  assume "adev_ok a" "in_table (adev_cm a) s"
  then show ?thesis using release_stream_refs [of "adev_cm a" i E A k] Some by (auto simp: adev_ok_def)
qed

lemma usecases_defined: "adev_ok a \<Longrightarrow> in_table (adev_cm a) s \<Longrightarrow> \<exists>r cm' k'. stream_invoke_usecases E (adev_cm a) s kv k = Some ((r, cm'), k')"
  using invoke_usecases_refs [of "adev_cm a" s E kv k] by (auto simp: adev_ok_def)

lemma get_stream_defined: "adev_ok a \<Longrightarrow> \<exists>r cm' k'. get_stream E A (adev_cm a) d f k = Some ((r, cm'), k')"
  using get_stream_refs [of "adev_cm a" E A d f k] by (auto simp: adev_ok_def)

lemma get_named_stream_defined: "adev_ok a \<Longrightarrow> \<exists>r cm' k'. get_named_stream E (adev_cm a) n k = Some ((r, cm'), k')"
  using get_named_stream_refs [of "adev_cm a" E n k] by (auto simp: adev_ok_def)

lemma routing_param_defined: "fst (parms_create H k) \<Longrightarrow> \<exists>v k'. common_get_routing_param H kv k = Some (v, k')"
  by (cases "parms_create H k") (simp add: common_get_routing_param_def)

section \<open>Output streams\<close>

lemma out_set_parameters_defined:
  assumes ok: "adev_ok a" and i: "o_hw out < nstreams (adev_cm a)" and H: "\<And>k. fst (parms_create H k)"
  shows "\<exists>r a' k'. out_set_parameters E A H a out kv k = Some ((r, a'), k')"
proof -
  obtain v k1 where v: "common_get_routing_param H kv k = Some (v, k1)" using routing_param_defined [OF H, of kv k] by blast
  obtain cm1 k2 where c: "(case v of None \<Rightarrow> Some (adev_cm a, k1) | Some d \<Rightarrow> apply_route E A (adev_cm a) (o_hw out) d k1) = Some (cm1, k2)"
    using apply_route_defined [OF ok i, of E A _ k1] by (cases v) (auto, blast)
  have m: "moves a (a\<lparr>adev_cm := cm1\<rparr>) (\<lambda>_. 0) True"
    using c moves_refl [OF ok] apply_route_moves [OF ok i] by (cases v) auto
  obtain r cm2 k3 where "stream_invoke_usecases E cm1 (Some (o_hw out)) kv k2 = Some ((r, cm2), k3)"
    using usecases_defined [OF moves_ok [OF m], of "Some (o_hw out)" E kv k2] i moves_nstreams [OF m] by auto
  then show ?thesis using v c by (simp add: out_set_parameters_def)
qed

lemma close_output_defined:
  assumes ok: "hal_ok h" and o: "out_at h j = Some (Out_pcm p)" and p: "out_pcm_ok p"
  shows "\<exists>h' k'. adev_close_output_stream V h j k = Some (h', k') \<and> (streams_ok h \<longrightarrow> streams_ok h')"
proof -
  obtain p' k1 where s: "out_pcm_standby (he_pcm V) p k = Some ((0, p'), k1)" "o_hw p' = o_hw p"
    using out_pcm_standby_result [OF p, of "he_pcm V" k] by blast
  have "o_hw p < nstreams (adev_cm (h_adev h))" using hal_ok_out [OF ok o] by (simp add: out_hw_def)
  then obtain cm k2 where "release_stream (he_sys V) (he_audio V) (adev_cm (h_adev h)) (Some (o_hw p)) k1 = Some (cm, k2)"
    using release_stream_defined [OF hal_ok_adev [OF ok], of "Some (o_hw p)" "he_sys V" "he_audio V" k1] by auto
  then show ?thesis using o s
    by (auto simp: adev_close_output_stream_def do_close_out_pcm_def do_close_out_common_def streams_ok_def list_all_put)
qed

lemma open_out_stream_defined:
  assumes ok: "adev_ok a" and i: "i < nstreams (adev_cm a)" and t: "st_type (hw_of (adev_cm a) i) = e_stream_out_pcm"
    and rate: "ac_sample_rate cfg \<noteq> 0" and ch: "\<And>m. unat (popcount (he_lib V) m) \<le> 32"
  shows "\<exists>p a' k'. open_out_stream V a i d cfg k = Some ((0, Out_pcm p, a'), k') \<and> out_pcm_ok p"
proof -
  obtain cm k1 where "apply_route (he_sys V) (he_audio V) (adev_cm a) i d k = Some (cm, k1)"
    using apply_route_defined [OF ok i, of "he_sys V" "he_audio V" d k] by blast
  then show ?thesis using t rate ch
    by (simp add: open_out_stream_def do_init_out_common_def do_init_out_pcm_def zero_out_pcm_def out_pcm_ok_def Let_def)
qed

text \<open>On a configuration of PCM streams an output is opened on a PCM output stream.\<close>

lemma wanted_output:
  assumes "pcm_only cm" "i < nstreams cm" "st_type (hw_of cm i) = wanted_type A (d AND AUDIO_DEVICE_OUT_ALL A) f"
    and "AUDIO_DEVICE_OUT_ALL A AND AUDIO_DEVICE_BIT_IN A = 0"
  shows "st_type (hw_of cm i) = e_stream_out_pcm"
proof -
  have "(d AND AUDIO_DEVICE_OUT_ALL A) AND AUDIO_DEVICE_BIT_IN A = 0" using assms(4) by (simp add: and.assoc)
  then show ?thesis using assms(1-3) by (auto simp: wanted_type_def pcm_only_nth stream_is_compressed_def Let_def split: if_splits)
qed

lemma open_output_defined:
  assumes laws: "hal_laws V left m" and ok: "hal_ok h" and c: "pcm_only (adev_cm (h_adev h))" and rate: "ac_sample_rate cfg \<noteq> 0"
  shows "\<exists>r h' k'. adev_open_output_stream V h d cfg k = Some ((r, h'), k') \<and> (streams_ok h \<longrightarrow> streams_ok h')"
proof -
  let ?E = "he_sys V" and ?A = "he_audio V" and ?a = "h_adev h"
  note oka = hal_ok_adev [OF ok]
  obtain hw cm1 k1 where g: "get_stream ?E ?A (adev_cm ?a) (d AND AUDIO_DEVICE_OUT_ALL ?A) (ac_format cfg) k = Some ((hw, cm1), k1)"
    and ch: "refs_change (adev_cm ?a) cm1 (one_at hw)"
    and hw: "\<And>i. hw = Some i \<Longrightarrow> i < nstreams (adev_cm ?a)
      \<and> st_type (hw_of (adev_cm ?a) i) = wanted_type ?A (d AND AUDIO_DEVICE_OUT_ALL ?A) (ac_format cfg)"
    using get_stream_refs [of "adev_cm ?a" ?E ?A "d AND AUDIO_DEVICE_OUT_ALL ?A" "ac_format cfg" k] oka by (auto simp: adev_ok_def hw_of_def)
  obtain al k2 where al: "sys_alloc ?E k1 = (al, k2)" by (metis prod.exhaust)
  show ?thesis
  proof (cases "hw = None \<or> \<not> al")
    case True
    then show ?thesis using g al by (cases hw) (auto simp: adev_open_output_stream_def Let_def)
  next
    case False
    then obtain i where i: "hw = Some i" by auto
    let ?a1 = "?a\<lparr>adev_cm := cm1\<rparr>"
    have a1: "adev_ok ?a1" using moves_ok [OF moves_cm [OF oka ch]] .
    have "st_type (hw_of (adev_cm ?a) i) = e_stream_out_pcm" using wanted_output [OF c] hw [OF i] hal_lawsD(7) [OF laws] by blast
    then have t: "i < nstreams (adev_cm ?a1)" "st_type (hw_of (adev_cm ?a1) i) = e_stream_out_pcm"
      using refs_changeD(2) [OF ch] refs_changeD(4) [OF ch, of i] hw [OF i] by (simp_all add: hw_of_def)
    obtain p a2 k3 where "open_out_stream V ?a1 i (d AND AUDIO_DEVICE_OUT_ALL ?A) cfg k2 = Some ((0, Out_pcm p, a2), k3)" "out_pcm_ok p"
      using open_out_stream_defined [OF a1 t rate hal_lawsD(6) [OF laws], of "d AND AUDIO_DEVICE_OUT_ALL ?A" k2] by blast
    then show ?thesis using g al False i by (auto simp: adev_open_output_stream_def streams_ok_def Let_def)
  qed
qed

section \<open>Input streams\<close>

lemma in_pcm_standby_ok:
  assumes ok: "in_pcm_ok inp" and c: "\<And>i. i_hw inp = Some i \<Longrightarrow> \<not> stream_is_compressed_in (hw_of cm i)"
  shows "\<exists>inp' k'. in_pcm_standby P Z R cm inp k = Some ((0, inp'), k') \<and> in_pcm_ok inp' \<and> i_hw inp' = i_hw inp"
proof (cases "i_hw inp")
  case None
  then show ?thesis using ok by (simp add: in_pcm_standby_def)
next
  case (Some i)
  have "\<exists>in1 k1. (if \<not> i_standby inp then (case i_dev inp of
       Live (In_pcm h) \<Rightarrow> (case pcm_close P h k of (_, k1) \<Rightarrow> Some (inp\<lparr>i_dev := Null\<rparr>, k1)) | _ \<Rightarrow> None)
     else Some (inp, k)) = Some (in1, k1) \<and> in_sizes_ok in1 \<and> i_hw in1 = i_hw inp"
  proof (cases "i_standby inp")
    case False
    then obtain p where p: "i_dev inp = Live (In_pcm (Pcm p))" using ok by (auto simp: in_pcm_ok_def capturing_def)
    obtain r k1 where "pcm_close P (Pcm p) k = (r, k1)" by (metis prod.exhaust)
    then show ?thesis using False p ok by (simp add: in_pcm_ok_def in_sizes_ok_def)
  qed (use ok in \<open>simp add: in_pcm_ok_def\<close>)
  then have "\<exists>inp' k'. do_in_pcm_standby P R inp k = Some (inp', k') \<and> in_pcm_ok inp' \<and> i_hw inp' = i_hw inp"
    by (auto simp: do_in_pcm_standby_def in_resampler_free_def in_pcm_ok_def in_sizes_ok_def Let_def)
  then show ?thesis using Some c by (auto simp: in_pcm_standby_def)
qed

lemma in_pcm_ok_fields [simp]:
  "in_pcm_ok (inp\<lparr>i_hw := x, i_input_source := s\<rparr>) = in_pcm_ok inp" "in_pcm_ok (inp\<lparr>i_devices := d\<rparr>) = in_pcm_ok inp"
  by (simp_all add: in_pcm_ok_def in_sizes_ok_def capturing_def in_pcm_cfg_channel_count_def)

lemma voice_source_changed_defined: "adev_ok a \<Longrightarrow> \<exists>a' k'. voice_source_changed E A me vc a k = Some (a', k')"
  using ended_books [OF moves_ok [OF moves_frame(2) [of a None]], of E A k] by (auto simp: voice_source_changed_def)

lemma change_input_source_defined:
  assumes ok: "adev_ok a" and i: "in_table (adev_cm a) (i_hw inp)"
  shows "\<exists>r ch inp' a' k'. change_input_source_locked E A H me a inp val d k = Some ((r, ch, inp', a'), k')
    \<and> (in_pcm_ok inp \<longrightarrow> in_pcm_ok inp')"
proof (cases "\<not> i_standby inp \<or> i_input_source inp = atoi val")
  case True
  then show ?thesis by (auto simp: change_input_source_locked_def Let_def)
next
  case False
  let ?vc = "atoi val = AUDIO_SOURCE_VOICE_RECOGNITION H"
  let ?name = "if ?vc then voice_trigger_audio_stream_name a else None"
  obtain hw1 cm1 k1 where g1: "(case ?name of None \<Rightarrow> Some ((None, adev_cm a), k) | Some n \<Rightarrow> get_named_stream E (adev_cm a) n k)
      = Some ((hw1, cm1), k1)"
    using get_named_stream_defined [OF ok, of E _ k] by (cases ?name) (auto, blast)
  have m1: "moves a (a\<lparr>adev_cm := cm1\<rparr>) (one_at hw1) True"
    using g1 get_named_stream_moves [OF ok, of E _ k hw1 cm1 k1] moves_refl [OF ok] by (auto simp: one_at_None split: option.splits)
  obtain hw2 cm2 k2 where g2: "(if hw1 = None then get_stream E A cm1 d (i_format inp) k1 else Some ((hw1, cm1), k1)) = Some ((hw2, cm2), k2)"
    using get_stream_defined [OF moves_ok [OF m1], of E A d "i_format inp" k1] by (cases hw1) auto
  have m2: "\<exists>g. moves a (a\<lparr>adev_cm := cm2\<rparr>) g True"
  proof (cases hw1)
    case None
    then have "get_stream E A (adev_cm (a\<lparr>adev_cm := cm1\<rparr>)) d (i_format inp) k1 = Some ((hw2, cm2), k2)" using g2 by simp
    then show ?thesis using moves_trans [OF m1] get_stream_moves [OF moves_ok [OF m1]] by fastforce
  qed (use g2 m1 in auto)
  then obtain g where m2: "moves a (a\<lparr>adev_cm := cm2\<rparr>) g True" by blast
  obtain cm3 k3 where rl: "release_stream E A cm2 (i_hw inp) k2 = Some (cm3, k3)"
    using release_stream_defined [OF moves_ok [OF m2], of "i_hw inp" E A k2] in_table_moves [OF m2] i by auto
  have "moves (a\<lparr>adev_cm := cm2\<rparr>) (a\<lparr>adev_cm := cm3\<rparr>) (\<lambda>j. - one_at (i_hw inp) j) True"
    using release_stream_moves [OF moves_ok [OF m2], of "i_hw inp" E A k2 cm3 k3] rl in_table_moves [OF m2] i by simp
  then obtain a' k4 where vs: "voice_source_changed E A me ?vc (a\<lparr>adev_cm := cm3\<rparr>) k3 = Some (a', k4)"
    using voice_source_changed_defined [of "a\<lparr>adev_cm := cm3\<rparr>" E A me ?vc k3] moves_ok by blast
  show ?thesis
  proof (cases hw2)
    case None
    then show ?thesis using False g1 g2 by (auto simp: change_input_source_locked_def Let_def)
  next
    case (Some x)
    then show ?thesis using False g1 g2 rl vs by (auto simp: change_input_source_locked_def Let_def)
  qed
qed

lemma params_source_defined:
  assumes "adev_ok a" and "in_table (adev_cm a) (i_hw inp)"
  shows "\<exists>r rt' inp' a' k'. params_source E A H me a inp kv rt k = Some ((r, rt', inp', a'), k') \<and> (in_pcm_ok inp \<longrightarrow> in_pcm_ok inp')"
proof (cases "parms_get H kv (AUDIO_PARAMETER_STREAM_INPUT_SOURCE H)")
  case None
  then show ?thesis by (simp add: params_source_def)
next
  case (Some val)
  let ?d = "case rt of Some d \<Rightarrow> d | None \<Rightarrow> (case i_hw inp of Some i \<Rightarrow> get_routed_devices (adev_cm a) i | None \<Rightarrow> 0)"
  from change_input_source_defined [OF assms, of E A H me val ?d k] Some show ?thesis by (auto simp: params_source_def Let_def)
qed

lemma params_route_defined:
  assumes "adev_ok a" and "in_table (adev_cm a) (i_hw inp)"
  shows "\<exists>inp' cm' k'. params_route E A (adev_cm a) inp rt k = Some ((inp', cm'), k') \<and> (in_pcm_ok inp \<longrightarrow> in_pcm_ok inp')"
proof (cases "rt = None \<or> i_hw inp = None")
  case True
  then show ?thesis by (auto simp: params_route_def split: option.split)
next
  case False
  then obtain d i where d: "rt = Some d" "i_hw inp = Some i" by auto
  then obtain cm' k' where "apply_route E A (adev_cm a) i d k = Some (cm', k')"
    using apply_route_defined [OF assms(1), of i E A d k] assms(2) by auto
  then show ?thesis using d by (simp add: params_route_def)
qed

lemma in_pcm_set_parameters_defined:
  assumes ok: "adev_ok a" and i: "in_table (adev_cm a) (i_hw inp)" and H: "\<And>k. fst (parms_create H k)" and p: "in_pcm_ok inp"
  shows "\<exists>r inp' a' k'. in_pcm_set_parameters E A H me a inp kv k = Some ((r, inp', a'), k') \<and> in_pcm_ok inp'"
proof -
  obtain v k1 where v: "common_get_routing_param H kv k = Some (v, k1)" using routing_param_defined [OF H, of kv k] by blast
  obtain k2 where c: "parms_create H k1 = (True, k2)" using H [of k1] by (cases "parms_create H k1") auto
  obtain r rt in1 a1 k3 where s: "params_source E A H me a inp kv v k2 = Some ((r, rt, in1, a1), k3)" and p1: "in_pcm_ok in1"
    using params_source_defined [OF ok i, of E A H me kv v k2] p by blast
  note 1 = params_source_moves [OF ok i s]
  note ok1 = moves_ok [OF 1 [THEN conjunct1]]
  obtain in2 cm2 k4 where rt: "params_route E A (adev_cm a1) in1 rt k3 = Some ((in2, cm2), k4)" and p2: "in_pcm_ok in2"
    using params_route_defined [OF ok1 1 [THEN conjunct2], of E A rt k3] p1 by blast
  note 2 = params_route_moves [OF ok1 1 [THEN conjunct2] rt]
  obtain r5 cm3 k5 where u: "stream_invoke_usecases E cm2 (i_hw in2) kv k4 = Some ((r5, cm3), k5)"
    using usecases_defined [OF moves_ok [OF 2 [THEN conjunct1]], of "i_hw in2" E kv k4] 1 2
      in_table_moves [OF 2 [THEN conjunct1]] by auto
  show ?thesis using v c s rt u p1 p2 by (cases "r < 0") (simp_all add: in_pcm_set_parameters_def)
qed

lemma close_input_defined:
  assumes ok: "hal_ok h" and o: "in_at h j = Some inp" and p: "in_pcm_ok inp" and c: "pcm_only (adev_cm (h_adev h))"
  shows "\<exists>h' k'. adev_close_input_stream V h j k = Some (h', k') \<and> (streams_ok h \<longrightarrow> streams_ok h')"
proof -
  let ?a = "h_adev h" and ?E = "he_sys V" and ?A = "he_audio V"
  note oka = hal_ok_adev [OF ok]
  have nc: "\<not> stream_is_compressed (hw_of (adev_cm ?a) i)" "\<not> stream_is_compressed_in (hw_of (adev_cm ?a) i)" if "i_hw inp = Some i" for i
    using hal_ok_in [OF ok o] c that by (auto simp: pcm_only_nth stream_is_compressed_def stream_is_compressed_in_def)
  obtain in1 k1 where st: "in_pcm_standby (he_pcm V) (he_cmp V) (he_rs V) (adev_cm ?a) inp k = Some ((0, in1), k1)" "i_hw in1 = i_hw inp"
    using in_pcm_standby_ok [OF p nc(2), where P = "he_pcm V" and Z = "he_cmp V" and R = "he_rs V" and k = k] by blast
  note act = moves_frame(2) [OF oka, of None]
  obtain a1 k2 where v: "(if active_voice_control ?a = Some j
      then voice_trigger_audio_ended_locked ?E ?A (?a\<lparr>active_voice_control := None\<rparr>) k1 else Some (?a, k1)) = Some (a1, k2)"
    using ended_books [OF moves_ok [OF act], of ?E ?A k1] by (cases "active_voice_control ?a = Some j") auto
  have m: "moves ?a a1 (\<lambda>_. 0) True"
    using v moves_refl [OF oka] moves_then [OF act ended_moves [OF moves_ok [OF act]]] by (auto split: if_splits)
  obtain cm2 k3 where "release_stream ?E ?A (adev_cm a1) (i_hw inp) k2 = Some (cm2, k3)"
    using release_stream_defined [OF moves_ok [OF m], of "i_hw inp" ?E ?A k2] hal_ok_in [OF ok o] in_table_moves [OF m] by blast
  then have "do_close_in_pcm ?E (he_pcm V) (he_cmp V) (he_rs V) ?A j ?a inp k = Some (a1\<lparr>adev_cm := cm2\<rparr>, k3)"
    using st v nc(1) by (cases "i_hw inp") (simp_all add: do_close_in_pcm_def do_close_in_common_def)
  then show ?thesis using o by (auto simp: adev_close_input_stream_def streams_ok_def list_all_put)
qed

lemma opened_in_ok: "in_sizes_ok (opened_in V d cfg) \<Longrightarrow> in_pcm_ok (opened_in V d cfg)"
  by (simp add: in_pcm_ok_def opened_in_def do_init_in_pcm_def do_init_in_common_def zero_in_def zero_resampler_def Let_def)

section \<open>The device\<close>

lemma voice_set_params_defined:
  assumes ok: "adev_ok a"
  shows "\<exists>a' k'. voice_trigger_set_params E A H a kv k = Some (a', k')"
proof -
  define b where "b = (case parms_get H kv ''voice_trigger_mic'' of
      None \<Rightarrow> a | Some v \<Rightarrow> a\<lparr>voice_trig_mic := word_of_int (atoi v)\<rparr>)"
  have "adev_ok b" using ok moves_ok [OF moves_frame(3) [OF ok]] by (auto simp: b_def split: option.split)
  from enable_books [OF this, of E A k] disable_books [OF this, of E A k] show ?thesis
    unfolding voice_trigger_set_params_def Let_def b_def [symmetric] by (auto split: option.split)
qed

lemma adev_set_parameters_defined:
  assumes ok: "adev_ok a"
  shows "\<exists>r a' k'. adev_set_parameters E A H a kv k = Some ((r, a'), k')"
proof -
  obtain c k1 where c: "parms_create H k = (c, k1)" by (metis prod.exhaust)
  obtain b k2 where b: "(if c then voice_trigger_set_params E A H a kv k1 else Some (a, k1)) = Some (b, k2)"
    using voice_set_params_defined [OF ok, of E A H kv k1] by (cases c) auto
  have okb: "adev_ok b" using b ok moves_ok [OF voice_set_params_moves [OF ok, THEN conjunct1]] by (auto split: if_splits)
  then have "\<exists>r cm' k'. stream_invoke_usecases E (adev_cm b) (global_stream b) kv k2 = Some ((r, cm'), k')"
    using usecases_defined [OF okb, of "global_stream b" E kv k2] by (simp add: adev_ok_def)
  then show ?thesis using c b by (cases "global_stream b") (auto simp: adev_set_parameters_def)
qed

section \<open>Every legal call returns\<close>

lemma hal_step_defined:
  assumes laws: "hal_laws V left m" and fuel: "m < fuel" "2 \<le> fuel" and ok: "hal_ok h" and c: "pcm_only (adev_cm (h_adev h))"
    and st: "streams_ok h" and l: "legal_hal V fuel (h, k) e"
  shows "\<exists>h' k'. hal_step V fuel e (h, k) = Some (h', k') \<and> streams_ok h'"
proof -
  note oka = hal_ok_adev [OF ok] and law = hal_lawsD [OF laws]
  have rates: "out_pcm_cfg_rate (adev_cm (h_adev h)) p \<noteq> 0" if "out_at h j = Some (Out_pcm p)" for j p
    using hal_ok_out [OF ok that] c by (simp add: out_hw_def pcm_only_nth out_pcm_cfg_rate_def)
  have plain: "in_pcm_cfg_rate (adev_cm (h_adev h)) i \<noteq> 0 \<and> \<not> stream_is_compressed_in (hw_of (adev_cm (h_adev h)) i)"
    if "in_at h j = Some inp" "i_hw inp = Some i" for j inp i
    using hal_ok_in [OF ok that(1)] that(2) c by (auto simp: pcm_only_nth in_pcm_cfg_rate_def stream_is_compressed_def stream_is_compressed_in_def)
  show ?thesis
  proof (cases e)
    case (Open_output d cfg)
    then show ?thesis using open_output_defined [OF laws ok c, of cfg d k] l st by auto
  next
    case (Close_output j)
    then obtain p where p: "out_at h j = Some (Out_pcm p)" "out_pcm_ok p" using l streams_ok_out [OF st, of j] by auto
    then show ?thesis using Close_output close_output_defined [OF ok p, of V k] st by auto
  next
    case (Out_write j buf n)
    then obtain p where p: "out_at h j = Some (Out_pcm p)" "out_pcm_ok p" using l streams_ok_out [OF st, of j] by auto
    obtain r p' k' where "out_pcm_write (he_pcm V) 2 (adev_cm (h_adev h)) p buf n k = Some ((r, p'), k')" "out_pcm_ok p'"
      using out_pcm_write_ends [OF law(1) rates [OF p(1)] p(2), of buf n k] by blast
    then show ?thesis
      using Out_write p(1) st out_pcm_write_more [of "he_pcm V" 2 "adev_cm (h_adev h)" p buf n k "((r, p'), k')", OF _ fuel(2)]
      by (auto simp: on_out_def)
  next
    case (Out_standby j)
    then obtain p where p: "out_at h j = Some (Out_pcm p)" "out_pcm_ok p" using l streams_ok_out [OF st, of j] by auto
    then show ?thesis using Out_standby st out_pcm_standby_result [OF p(2), of "he_pcm V" k] by (auto simp: on_out_def)
  next
    case (Out_params j kv)
    then obtain p where p: "out_at h j = Some (Out_pcm p)" using l streams_ok_out [OF st, of j] by auto
    have "o_hw p < nstreams (adev_cm (h_adev h))" using hal_ok_out [OF ok p] by (simp add: out_hw_def)
    from out_set_parameters_defined [OF oka this law(5), of "he_sys V" "he_audio V" kv k] show ?thesis using Out_params p st by auto
  next
    case (Out_volume j x y)
    then obtain p where p: "out_at h j = Some (Out_pcm p)" using l streams_ok_out [OF st, of j] by auto
    have "o_hw p < nstreams (adev_cm (h_adev h))" using hal_ok_out [OF ok p] by (simp add: out_hw_def)
    with set_hw_volume_defined [of "adev_cm (h_adev h)" "o_hw p" x y "he_sys V" k] oka l Out_volume p st
    show ?thesis by (auto simp: out_set_volume_def adev_ok_def)
  next
    case (Open_input d cfg)
    obtain al k1 where "sys_alloc (he_sys V) k = (al, k1)" by (metis prod.exhaust)
    then show ?thesis using Open_input l st opened_in_ok [of V d cfg]
      by (auto simp: adev_open_input_stream_def Let_def streams_ok_def simp flip: opened_in_def)
  next
    case (Close_input j)
    then obtain inp where i: "in_at h j = Some inp" using l by auto
    then show ?thesis using Close_input close_input_defined [OF ok i streams_ok_in [OF st i] c, of V k] st by auto
  next
    case (In_read j n)
    then obtain inp where i: "in_at h j = Some inp" and n: "unat n < fuel" using l by auto
    have hw: "\<forall>x. i_hw inp = Some x \<longrightarrow> in_pcm_cfg_rate (adev_cm (h_adev h)) x \<noteq> 0 \<and> \<not> stream_is_compressed_in (hw_of (adev_cm (h_adev h)) x)"
      using plain [OF i] by blast
    from in_pcm_read_returns [OF law(1,2) fuel(1) law(4) hw streams_ok_in [OF st i] n, of "he_sys V" "he_cmp V" "he_rs V" k]
    show ?thesis using In_read i st by auto
  next
    case (In_standby j)
    then obtain inp where i: "in_at h j = Some inp" using l by auto
    from in_pcm_standby_ok [OF streams_ok_in [OF st i], of "adev_cm (h_adev h)" "he_pcm V" "he_cmp V" "he_rs V" k] plain [OF i]
    show ?thesis using In_standby i st by auto
  next
    case (In_params j kv)
    then obtain inp where i: "in_at h j = Some inp" using l by auto
    from in_pcm_set_parameters_defined [OF oka hal_ok_in [OF ok i] law(5) streams_ok_in [OF st i], of "he_sys V" "he_audio V" j kv k]
    show ?thesis using In_params i st by auto
  next
    case (Set_parameters kv)
    then show ?thesis using adev_set_parameters_defined [OF oka, of "he_sys V" "he_audio V" "he_lib V" kv k] st by auto
  next
    case (Set_mic_mute b)
    then show ?thesis using st by simp
  qed (use l in simp_all)
qed

definition hal_safe :: "'k hal_env \<Rightarrow> ('k \<Rightarrow> nat) \<Rightarrow> nat \<Rightarrow> nat \<Rightarrow> hal \<times> 'k \<Rightarrow> bool" where
  "hal_safe V left m fuel s \<longleftrightarrow> hal_laws V left m \<and> m < fuel \<and> 2 \<le> fuel
     \<and> hal_ok (fst s) \<and> pcm_only (adev_cm (h_adev (fst s))) \<and> streams_ok (fst s)"

interpretation safe_hal: guarded_machine "hal_step V fuel" "hal_safe V left m fuel" "legal_hal V fuel" for V left m fuel
proof unfold_locales
  fix s :: "hal \<times> 'a" and e
  assume inv: "hal_safe V left m fuel s" and l: "legal_hal V fuel s e"
  obtain h k where s: "s = (h, k)" by (cases s)
  have i: "hal_laws V left m" "m < fuel" "2 \<le> fuel" "hal_ok h" "pcm_only (adev_cm (h_adev h))" "streams_ok h"
    using inv s by (simp_all add: hal_safe_def)
  obtain h' k' where st: "hal_step V fuel e (h, k) = Some (h', k')" "streams_ok h'"
    using hal_step_defined [OF i] l s by blast
  have "hal_books h h' (\<not> forgetful V (h, k) e)" by (rule hal_step_books [OF i(4) hal_lawsD(3) [OF i(1)] st(1)])
  then have "hal_ok h'" "pcm_only (adev_cm (h_adev h'))" using i(5) by (auto simp: hal_books_def same_hw_def pcm_only_nth)
  then show "\<exists>s'. hal_step V fuel e s = Some s' \<and> hal_safe V left m fuel s'" using s st i by (simp add: hal_safe_def)
qed

end
