(* ===== verification/Parser_Safety.thy ===== *)
theory Parser_Safety
  imports Config_Parser Config_Api
begin

text \<open>
  The parser builds well-formed configurations: the invariant of the parser's state, one lemma
  per handler, and the run over the callbacks of a document.
\<close>

declare length_elems [simp del]

section \<open>Invariant\<close>

text \<open>No stream of a configuration that is being read is in use.\<close>

definition streams_idle :: "config_mgr \<Rightarrow> bool" where
  "streams_idle cm \<longleftrightarrow> list_all (\<lambda>s. ref_count s = 0) (elems (stream_array cm))"

definition parse_cm_ok :: "config_mgr \<Rightarrow> bool" where
  "parse_cm_ok cm \<longleftrightarrow> (case cm_mixer cm of
     None \<Rightarrow> array_ok zero_device (device_array cm) \<and> elems (device_array cm) = []
       \<and> array_ok zero_stream (stream_array cm) \<and> elems (stream_array cm) = []
   | Some m \<Rightarrow> cm_wf cm \<and> streams_idle cm)"

definition init_ctls_ok :: "parse_state \<Rightarrow> bool" where
  "init_ctls_ok st \<longleftrightarrow> (case cm_mixer (ps_cm st) of
     None \<Rightarrow> array_ok zero_cfg_ctl (p_ctl_array (init_path st)) \<and> elems (p_ctl_array (init_path st)) = []
   | Some m \<Rightarrow> path_wf m (init_path st))"

text \<open>Every pointer of \<^verbatim>\<open>state->current\<close> that is not NULL points at an element of its table.\<close>

abbreviation devs :: "parse_state \<Rightarrow> device list" where
  "devs st \<equiv> elems (device_array (ps_cm st))"

abbreviation strs :: "parse_state \<Rightarrow> stream list" where
  "strs st \<equiv> elems (stream_array (ps_cm st))"

abbreviation ucases :: "stream \<Rightarrow> usecase list" where
  "ucases s \<equiv> elems (usecase_array s)"

definition refs_ok :: "parse_state \<Rightarrow> bool" where
  "refs_ok st \<longleftrightarrow>
     (\<forall>d. cur_device st = Some d \<longrightarrow> d < length (devs st)) \<and>
     (\<forall>i. cur_stream st = Some i \<longrightarrow> i < length (strs st)) \<and>
     (\<forall>d p. cur_path st = Some (Device_path d p) \<longrightarrow>
        d < length (devs st) \<and> p < length (elems (path_array (devs st ! d)))) \<and>
     (\<forall>i u. cur_usecase st = Some (i, u) \<longrightarrow> i < length (strs st) \<and> u < length (ucases (strs st ! i))) \<and>
     (\<forall>i u c. cur_scase st = Some (i, u, c) \<longrightarrow> i < length (strs st) \<and> u < length (ucases (strs st ! i))
        \<and> c < length (elems (case_array (ucases (strs st ! i) ! u))))"

definition probe_ok :: "parse_state \<Rightarrow> bool" where
  "probe_ok st \<longleftrightarrow> array_ok zero_codec_case (codec_cases st)
     \<and> list_all (\<lambda>cc. cc_name cc \<noteq> None \<and> cc_file cc \<noteq> None) (elems (codec_cases st))
     \<and> cur_xml_file st \<noteq> None \<and> (cur_probe st \<longrightarrow> probe_file st \<noteq> None)
     \<and> (stopped st \<noteq> Running \<longrightarrow> cm_mixer (ps_cm st) = None)
     \<and> (new_xml_file st \<noteq> None \<longrightarrow> stopped st \<noteq> Running \<and> \<not> cur_probe st)"

definition parse_base :: "parse_state \<Rightarrow> bool" where
  "parse_base st \<longleftrightarrow> parse_cm_ok (ps_cm st) \<and> init_ctls_ok st \<and> refs_ok st \<and> probe_ok st
     \<and> array_ok [] (path_names st)"

section \<open>Irrelevant fields\<close>

lemma init_ctls_ok_frame [simp]:
  "init_ctls_ok (st\<lparr>attribs := x0\<rparr>) = init_ctls_ok st"
  "init_ctls_ok (st\<lparr>parse_error := x1\<rparr>) = init_ctls_ok st"
  "init_ctls_ok (st\<lparr>stack := x2\<rparr>) = init_ctls_ok st"
  "init_ctls_ok (st\<lparr>cur_device := x3\<rparr>) = init_ctls_ok st"
  "init_ctls_ok (st\<lparr>cur_stream := x4\<rparr>) = init_ctls_ok st"
  "init_ctls_ok (st\<lparr>cur_path := x5\<rparr>) = init_ctls_ok st"
  "init_ctls_ok (st\<lparr>cur_usecase := x6\<rparr>) = init_ctls_ok st"
  "init_ctls_ok (st\<lparr>cur_scase := x7\<rparr>) = init_ctls_ok st"
  "init_ctls_ok (st\<lparr>cur_probe := x8\<rparr>) = init_ctls_ok st"
  "init_ctls_ok (st\<lparr>path_names := x9\<rparr>) = init_ctls_ok st"
  "init_ctls_ok (st\<lparr>probe_file := x10\<rparr>) = init_ctls_ok st"
  "init_ctls_ok (st\<lparr>new_xml_file := x11\<rparr>) = init_ctls_ok st"
  "init_ctls_ok (st\<lparr>codec_cases := x12\<rparr>) = init_ctls_ok st"
  "init_ctls_ok (st\<lparr>stopped := x13\<rparr>) = init_ctls_ok st"
  "init_ctls_ok (st\<lparr>cur_xml_file := x14\<rparr>) = init_ctls_ok st"
  by (simp_all add: init_ctls_ok_def cong: option.case_cong)

lemma refs_ok_frame [simp]:
  "refs_ok (st\<lparr>attribs := x0\<rparr>) = refs_ok st"
  "refs_ok (st\<lparr>parse_error := x1\<rparr>) = refs_ok st"
  "refs_ok (st\<lparr>stack := x2\<rparr>) = refs_ok st"
  "refs_ok (st\<lparr>cur_probe := x3\<rparr>) = refs_ok st"
  "refs_ok (st\<lparr>path_names := x4\<rparr>) = refs_ok st"
  "refs_ok (st\<lparr>probe_file := x5\<rparr>) = refs_ok st"
  "refs_ok (st\<lparr>new_xml_file := x6\<rparr>) = refs_ok st"
  "refs_ok (st\<lparr>codec_cases := x7\<rparr>) = refs_ok st"
  "refs_ok (st\<lparr>stopped := x8\<rparr>) = refs_ok st"
  "refs_ok (st\<lparr>cur_xml_file := x9\<rparr>) = refs_ok st"
  "refs_ok (st\<lparr>init_path := x10\<rparr>) = refs_ok st"
  by (simp_all add: refs_ok_def)

lemma probe_ok_frame [simp]:
  "probe_ok (st\<lparr>attribs := x0\<rparr>) = probe_ok st"
  "probe_ok (st\<lparr>parse_error := x1\<rparr>) = probe_ok st"
  "probe_ok (st\<lparr>stack := x2\<rparr>) = probe_ok st"
  "probe_ok (st\<lparr>cur_device := x3\<rparr>) = probe_ok st"
  "probe_ok (st\<lparr>cur_stream := x4\<rparr>) = probe_ok st"
  "probe_ok (st\<lparr>cur_path := x5\<rparr>) = probe_ok st"
  "probe_ok (st\<lparr>cur_usecase := x6\<rparr>) = probe_ok st"
  "probe_ok (st\<lparr>cur_scase := x7\<rparr>) = probe_ok st"
  "probe_ok (st\<lparr>path_names := x8\<rparr>) = probe_ok st"
  "probe_ok (st\<lparr>init_path := x9\<rparr>) = probe_ok st"
  by (simp_all add: probe_ok_def)

lemma parse_base_frame [simp]:
  "parse_base (st\<lparr>attribs := x0\<rparr>) = parse_base st"
  "parse_base (st\<lparr>parse_error := x1\<rparr>) = parse_base st"
  "parse_base (st\<lparr>stack := x2\<rparr>) = parse_base st"
  by (simp_all add: parse_base_def)

section \<open>Updating one object\<close>

text \<open>A table entry is replaced by one that has at least as many sub-objects.\<close>

definition device_ext :: "device \<Rightarrow> device \<Rightarrow> bool" where
  "device_ext d d' \<longleftrightarrow> length (elems (path_array d)) \<le> length (elems (path_array d'))"

definition stream_ext :: "stream \<Rightarrow> stream \<Rightarrow> bool" where
  "stream_ext s s' \<longleftrightarrow> ref_count s' = ref_count s \<and> length (ucases s) \<le> length (ucases s') \<and>
     (\<forall>u < length (ucases s). length (elems (case_array (ucases s ! u)))
        \<le> length (elems (case_array (ucases s' ! u))))"

lemma stream_ext_refl [simp]: "stream_ext s s"
  by (simp add: stream_ext_def)

lemma put_device_frame [simp]:
  "cm_mixer (ps_cm (put_device st d x)) = cm_mixer (ps_cm st)"
  "stream_array (ps_cm (put_device st d x)) = stream_array (ps_cm st)"
  "cur_device (put_device st d x) = cur_device st" "cur_stream (put_device st d x) = cur_stream st"
  "cur_path (put_device st d x) = cur_path st" "cur_usecase (put_device st d x) = cur_usecase st"
  "cur_scase (put_device st d x) = cur_scase st" "cur_probe (put_device st d x) = cur_probe st"
  "path_names (put_device st d x) = path_names st" "init_path (put_device st d x) = init_path st"
  "stack (put_device st d x) = stack st" "parse_error (put_device st d x) = parse_error st"
  "codec_cases (put_device st d x) = codec_cases st" "probe_file (put_device st d x) = probe_file st"
  "new_xml_file (put_device st d x) = new_xml_file st" "stopped (put_device st d x) = stopped st"
  "cur_xml_file (put_device st d x) = cur_xml_file st" "attribs (put_device st d x) = attribs st"
  by (simp_all add: put_device_def)

lemma put_stream_st_frame [simp]:
  "cm_mixer (ps_cm (put_stream st d x)) = cm_mixer (ps_cm st)"
  "device_array (ps_cm (put_stream st d x)) = device_array (ps_cm st)"
  "cur_device (put_stream st d x) = cur_device st" "cur_stream (put_stream st d x) = cur_stream st"
  "cur_path (put_stream st d x) = cur_path st" "cur_usecase (put_stream st d x) = cur_usecase st"
  "cur_scase (put_stream st d x) = cur_scase st" "cur_probe (put_stream st d x) = cur_probe st"
  "path_names (put_stream st d x) = path_names st" "init_path (put_stream st d x) = init_path st"
  "stack (put_stream st d x) = stack st" "parse_error (put_stream st d x) = parse_error st"
  "codec_cases (put_stream st d x) = codec_cases st" "probe_file (put_stream st d x) = probe_file st"
  "new_xml_file (put_stream st d x) = new_xml_file st" "stopped (put_stream st d x) = stopped st"
  "cur_xml_file (put_stream st d x) = cur_xml_file st" "attribs (put_stream st d x) = attribs st"
  by (simp_all add: put_stream_def)

lemma devs_put_device:
  "d < length (devs st) \<Longrightarrow> devs (put_device st d x) = (devs st)[d := x]"
  by (simp add: put_device_def elems_def set_elem_def take_update_swap)

lemma strs_put_stream:
  "i < length (strs st) \<Longrightarrow> strs (put_stream st i x) = (strs st)[i := x]"
  by (simp add: put_stream_def put_stream_at_def elems_def set_elem_def take_update_swap)

lemma parse_base_mixer:
  "parse_base st \<Longrightarrow> cm_mixer (ps_cm st) = Some m \<Longrightarrow> cm_wf (ps_cm st) \<and> mixer_ok m \<and> path_wf m (init_path st)"
  by (auto simp: parse_base_def parse_cm_ok_def init_ctls_ok_def elim: cm_wfE)

lemma put_device_base:
  assumes b: "parse_base st" and m: "cm_mixer (ps_cm st) = Some m" and d: "d < length (devs st)"
    and x: "device_wf m x" "device_ext (devs st ! d) x"
  shows "parse_base (put_device st d x)"
proof -
  note wf = parse_base_mixer [OF b m]
  have l: "list_all (device_wf m) (devs st)" and ok: "array_ok zero_device (device_array (ps_cm st))"
    using wf m by (auto simp: cm_wf_def)
  have "d < unat (count (device_array (ps_cm st)))" using d ok by (simp add: length_elems)
  then have "cm_wf (ps_cm (put_device st d x))"
    using wf m ok list_all_update [OF l x(1), of d] by (simp add: cm_wf_def put_device_def)
  moreover have "refs_ok (put_device st d x)"
    using b x(2) d by (auto simp: parse_base_def refs_ok_def devs_put_device nth_list_update device_ext_def)
  ultimately show ?thesis
    using b m by (auto simp: parse_base_def parse_cm_ok_def streams_idle_def put_device_def init_ctls_ok_def probe_ok_def)
qed

lemma put_stream_base:
  assumes b: "parse_base st" and m: "cm_mixer (ps_cm st) = Some m" and i: "i < length (strs st)"
    and x: "stream_wf m x" "stream_ext (strs st ! i) x"
  shows "parse_base (put_stream st i x)"
proof -
  note wf = parse_base_mixer [OF b m]
  have "cm_wf (ps_cm (put_stream st i x))"
    using put_stream_wf [of "ps_cm st" i x] wf i x m by (simp add: put_stream_def)
  moreover have "refs_ok (put_stream st i x)"
    using b x(2) i
    by (fastforce simp: parse_base_def refs_ok_def strs_put_stream nth_list_update stream_ext_def)
  moreover have "streams_idle (ps_cm (put_stream st i x))"
    using b m x(2) i
    by (auto simp: parse_base_def parse_cm_ok_def streams_idle_def strs_put_stream stream_ext_def list_all_length
        nth_list_update)
  ultimately show ?thesis
    using b m by (auto simp: parse_base_def parse_cm_ok_def init_ctls_ok_def probe_ok_def)
qed

text \<open>What every handler leaves of the parser's state.\<close>

definition keeps :: "parse_state \<Rightarrow> parse_state \<Rightarrow> bool" where
  "keeps st st' \<longleftrightarrow> stack st' = stack st \<and> stopped st' = stopped st
     \<and> cm_mixer (ps_cm st') = cm_mixer (ps_cm st) \<and> cur_probe st' = cur_probe st
     \<and> (cur_device st \<noteq> None \<longrightarrow> cur_device st' \<noteq> None)
     \<and> (cur_stream st \<noteq> None \<longrightarrow> cur_stream st' \<noteq> None)
     \<and> (cur_usecase st \<noteq> None \<longrightarrow> cur_usecase st' \<noteq> None)"

lemma keeps_refl [simp]: "keeps st st"
  by (simp add: keeps_def)

lemma keeps_trans: "keeps st st' \<Longrightarrow> keeps st' st'' \<Longrightarrow> keeps st st''"
  by (simp add: keeps_def)

lemma keeps_put [simp]: "keeps st (put_device st d x)" "keeps st (put_stream st i s)"
  by (simp_all add: keeps_def)

definition always_alloc :: "'k sys \<Rightarrow> bool" where
  "always_alloc E \<longleftrightarrow> (\<forall>k. fst (sys_alloc E k))"

lemma always_allocE:
  assumes "always_alloc E"
  obtains k' where "sys_alloc E k = (True, k')"
  using assms by (cases "sys_alloc E k") (auto simp: always_alloc_def dest: spec [of _ k])

lemma strdup_alloc:
  "always_alloc E \<Longrightarrow> s \<noteq> None \<Longrightarrow> \<exists>k'. strdup E s k = Some (s, k')"
  by (auto simp: strdup_def elim: always_allocE [of E k])

section \<open>Constructors\<close>

lemma elem_size_ok [simp]:
  "array_ok z (a\<lparr>elem_size := n\<rparr>) = array_ok z a" "elems (a\<lparr>elem_size := n\<rparr>) = elems a"
  by (simp_all add: array_ok_def elems_def)

lemma zero_wf [simp]:
  "path_wf m zero_path" "device_wf m zero_device" "scase_wf m zero_scase" "usecase_wf m zero_usecase"
  by (simp_all add: path_wf_def device_wf_def scase_wf_def usecase_wf_def ctls_wf_def zero_path_def
      zero_device_def zero_scase_def zero_usecase_def)

text \<open>A new element of a table: \<open>None\<close> leaves the table's elements alone.\<close>

lemma new_elem_cases:
  assumes "array_ok z a" and "P (f z)" and "list_all P (elems a)"
  obtains r a' k' where "new_elem E z f a k = ((r, a'), k')" and "array_ok z a'" and "list_all P (elems a')"
    and "case r of None \<Rightarrow> elems a' = elems a | Some i \<Rightarrow> i = length (elems a) \<and> elems a' = elems a @ [f z]"
proof -
  obtain r a' k' where n: "new_elem E z f a k = ((r, a'), k')" by (cases "new_elem E z f a k") auto
  note s = new_elem_spec [OF assms(1) n]
  then show ?thesis using that [OF n] assms by (cases r) auto
qed

section \<open>Handlers\<close>

text \<open>Storing a control table back.\<close>

definition ctl_ref_ok :: "parse_state \<Rightarrow> ctl_ref \<Rightarrow> bool" where
  "ctl_ref_ok st r \<longleftrightarrow> (case r of
     Path_ctls Init_path \<Rightarrow> True
   | Path_ctls (Device_path d p) \<Rightarrow> d < length (devs st) \<and> p < length (elems (path_array (devs st ! d)))
   | Case_ctls i u c \<Rightarrow> i < length (strs st) \<and> u < length (ucases (strs st ! i))
        \<and> c < length (elems (case_array (ucases (strs st ! i) ! u))))"

lemma list_all_nthD: "list_all P xs \<Longrightarrow> i < length xs \<Longrightarrow> P (xs ! i)"
  by (simp add: list_all_length)

lemma cm_wf_device:
  assumes "cm_wf cm" "cm_mixer cm = Some m" "d < length (elems (device_array cm))"
  shows "device_wf m (elems (device_array cm) ! d)"
  using assms by (auto simp: cm_wf_def intro: list_all_nthD)

lemma cm_wf_stream:
  assumes "cm_wf cm" "cm_mixer cm = Some m" "i < length (elems (stream_array cm))"
  shows "stream_wf m (elems (stream_array cm) ! i)"
  using assms by (auto simp: cm_wf_def intro: list_all_nthD)

lemma stream_wf_usecase:
  "stream_wf m s \<Longrightarrow> u < length (ucases s) \<Longrightarrow> usecase_wf m (ucases s ! u)"
  by (auto simp: stream_wf_def intro: list_all_nthD)

lemma usecase_wf_scase:
  "usecase_wf m uc \<Longrightarrow> c < length (elems (case_array uc)) \<Longrightarrow> scase_wf m (elems (case_array uc) ! c)"
  by (auto simp: usecase_wf_def intro: list_all_nthD)

lemma device_wf_path:
  "device_wf m d \<Longrightarrow> p < length (elems (path_array d)) \<Longrightarrow> path_wf m (elems (path_array d) ! p)"
  by (auto simp: device_wf_def intro: list_all_nthD)

lemma device_wf_set_path:
  assumes "device_wf m d" and "p < length (elems (path_array d))" and "path_wf m x"
  shows "device_wf m (d\<lparr>path_array := set_elem (path_array d) p x\<rparr>)"
    and "length (elems (set_elem (path_array d) p x)) = length (elems (path_array d))"
proof -
  have ok: "array_ok zero_path (path_array d)" and l: "list_all (path_wf m) (elems (path_array d))"
    using assms(1) by (simp_all add: device_wf_def)
  have "p < unat (count (path_array d))" using assms(2) ok by (simp add: length_elems)
  then show "device_wf m (d\<lparr>path_array := set_elem (path_array d) p x\<rparr>)"
    and "length (elems (set_elem (path_array d) p x)) = length (elems (path_array d))"
    using ok list_all_update [OF l assms(3), of p] by (simp_all add: device_wf_def)
qed

lemma usecase_wf_set_case:
  assumes "usecase_wf m uc" and "c < length (elems (case_array uc))" and "scase_wf m x"
  shows "usecase_wf m (uc\<lparr>case_array := set_elem (case_array uc) c x\<rparr>)"
    and "length (elems (set_elem (case_array uc) c x)) = length (elems (case_array uc))"
proof -
  have ok: "array_ok zero_scase (case_array uc)" and l: "list_all (scase_wf m) (elems (case_array uc))"
    using assms(1) by (simp_all add: usecase_wf_def)
  have "c < unat (count (case_array uc))" using assms(2) ok by (simp add: length_elems)
  then show "usecase_wf m (uc\<lparr>case_array := set_elem (case_array uc) c x\<rparr>)"
    and "length (elems (set_elem (case_array uc) c x)) = length (elems (case_array uc))"
    using ok list_all_update [OF l assms(3), of c] by (simp_all add: usecase_wf_def)
qed

lemma stream_wf_set_usecase:
  assumes "stream_wf m s" and "u < length (ucases s)" and "usecase_wf m x"
    and "length (elems (case_array (ucases s ! u))) \<le> length (elems (case_array x))"
  shows "stream_wf m (s\<lparr>usecase_array := set_elem (usecase_array s) u x\<rparr>)"
    and "stream_ext s (s\<lparr>usecase_array := set_elem (usecase_array s) u x\<rparr>)"
proof -
  have ok: "array_ok zero_usecase (usecase_array s)" and l: "list_all (usecase_wf m) (ucases s)"
    using assms(1) by (simp_all add: stream_wf_def)
  have "u < unat (count (usecase_array s))" using assms(2) ok by (simp add: length_elems)
  then show "stream_wf m (s\<lparr>usecase_array := set_elem (usecase_array s) u x\<rparr>)"
    and "stream_ext s (s\<lparr>usecase_array := set_elem (usecase_array s) u x\<rparr>)"
    using ok assms list_all_update [OF l assms(3), of u]
    by (simp_all add: stream_wf_def stream_ext_def nth_list_update)
qed

lemma put_usecase_base:
  assumes b: "parse_base st" and m: "cm_mixer (ps_cm st) = Some m"
    and i: "i < length (strs st)" and u: "u < length (ucases (strs st ! i))"
    and x: "usecase_wf m x" "length (elems (case_array (ucases (strs st ! i) ! u))) \<le> length (elems (case_array x))"
  shows "parse_base (put_usecase st i u x)" and "keeps st (put_usecase st i u x)"
proof -
  have s: "stream_wf m (strs st ! i)" using cm_wf_stream parse_base_mixer [OF b m] m i by blast
  show "parse_base (put_usecase st i u x)"
    using put_stream_base [OF b m i stream_wf_set_usecase(1) [OF s u x] stream_wf_set_usecase(2) [OF s u x]]
    by (simp add: put_usecase_def get_stream_at_def Let_def)
  show "keeps st (put_usecase st i u x)" by (simp add: put_usecase_def Let_def)
qed

lemma put_scase_base:
  assumes b: "parse_base st" and m: "cm_mixer (ps_cm st) = Some m"
    and i: "i < length (strs st)" and u: "u < length (ucases (strs st ! i))"
    and c: "c < length (elems (case_array (ucases (strs st ! i) ! u)))" and x: "scase_wf m x"
  shows "parse_base (put_scase st i u c x)" and "keeps st (put_scase st i u c x)"
proof -
  have s: "stream_wf m (strs st ! i)" using cm_wf_stream parse_base_mixer [OF b m] m i by blast
  have "usecase_wf m (ucases (strs st ! i) ! u)" using stream_wf_usecase [OF s u] .
  note uc = usecase_wf_set_case [OF this c x]
  show "parse_base (put_scase st i u c x)" "keeps st (put_scase st i u c x)"
    using put_usecase_base [OF b m i u uc(1)] uc(2)
    by (simp_all add: put_scase_def get_usecase_def get_stream_at_def Let_def)
qed

lemma put_path_base:
  assumes b: "parse_base st" and m: "cm_mixer (ps_cm st) = Some m"
    and r: "ctl_ref_ok st (Path_ctls r)" and x: "path_wf m x"
  shows "parse_base (put_path st r x)" and "keeps st (put_path st r x)"
proof -
  have "parse_base (put_path st r x) \<and> keeps st (put_path st r x)"
  proof (cases r)
    case Init_path
    then show ?thesis
      using b m x by (auto simp: put_path_def parse_base_def init_ctls_ok_def refs_ok_def probe_ok_def keeps_def)
  next
    case (Device_path d p)
    then have d: "d < length (devs st)" "p < length (elems (path_array (devs st ! d)))"
      using r by (simp_all add: ctl_ref_ok_def)
    have "device_wf m (devs st ! d)" using cm_wf_device parse_base_mixer [OF b m] m d(1) by blast
    note w = device_wf_set_path [OF this d(2) x]
    show ?thesis
      using put_device_base [OF b m d(1) w(1)] w(2) Device_path
      by (simp add: put_path_def device_ext_def Let_def)
  qed
  then show "parse_base (put_path st r x)" and "keeps st (put_path st r x)" by simp_all
qed

lemma get_path_wf:
  assumes "parse_base st" and "cm_mixer (ps_cm st) = Some m" and "ctl_ref_ok st (Path_ctls r)"
  shows "path_wf m (get_path st r)"
proof (cases r)
  case Init_path
  then show ?thesis using parse_base_mixer [OF assms(1,2)] by (simp add: get_path_def)
next
  case (Device_path d p)
  then have d: "d < length (devs st)" "p < length (elems (path_array (devs st ! d)))"
    using assms(3) by (simp_all add: ctl_ref_ok_def)
  have "device_wf m (devs st ! d)" using cm_wf_device parse_base_mixer [OF assms(1,2)] assms(2) d(1) by blast
  from device_wf_path [OF this d(2)] show ?thesis using Device_path by (simp add: get_path_def)
qed

lemma get_scase_wf:
  assumes b: "parse_base st" and m: "cm_mixer (ps_cm st) = Some m" and r: "ctl_ref_ok st (Case_ctls i u c)"
  shows "scase_wf m (get_scase st i u c)"
proof -
  have i: "i < length (strs st)" "u < length (ucases (strs st ! i))"
    "c < length (elems (case_array (ucases (strs st ! i) ! u)))"
    using r by (simp_all add: ctl_ref_ok_def)
  have "stream_wf m (strs st ! i)" using cm_wf_stream parse_base_mixer [OF b m] m i(1) by blast
  from usecase_wf_scase [OF stream_wf_usecase [OF this i(2)] i(3)] show ?thesis
    by (simp add: get_scase_def get_usecase_def get_stream_at_def)
qed

lemma get_ctls_wf:
  assumes "parse_base st" and "cm_mixer (ps_cm st) = Some m" and "ctl_ref_ok st r"
  shows "ctls_wf m (get_ctls st r)"
  using get_path_wf [OF assms(1,2)] get_scase_wf [OF assms(1,2)] assms(3)
  by (cases r) (auto simp: get_ctls_def path_wf_def scase_wf_def)

lemma put_ctls_base:
  assumes "parse_base st" and "cm_mixer (ps_cm st) = Some m" and "ctl_ref_ok st r" and "ctls_wf m a"
  shows "parse_base (put_ctls st r a)" and "keeps st (put_ctls st r a)"
proof -
  have "parse_base (put_ctls st r a) \<and> keeps st (put_ctls st r a)"
  proof (cases r)
    case (Path_ctls p)
    then show ?thesis
      using put_path_base [OF assms(1,2), of p "(get_path st p)\<lparr>p_ctl_array := a\<rparr>"] assms(3,4)
      by (simp add: put_ctls_def path_wf_def)
  next
    case (Case_ctls i u c)
    then show ?thesis
      using put_scase_base [OF assms(1,2), of i u c "(get_scase st i u c)\<lparr>sc_ctl_array := a\<rparr>"] assms(3,4)
      by (simp add: put_ctls_def scase_wf_def ctl_ref_ok_def)
  qed
  then show "parse_base (put_ctls st r a)" and "keeps st (put_ctls st r a)" by simp_all
qed

lemma put_ctls_ptrs [simp]:
  "cur_path (put_ctls st r a) = cur_path st" "cur_scase (put_ctls st r a) = cur_scase st"
  by (auto simp: put_ctls_def put_path_def put_scase_def put_usecase_def Let_def split: ctl_ref.splits path_ref.splits)

lemma ctl_target_ok:
  assumes "parse_base st" and "cur_path st \<noteq> None \<or> cur_scase st \<noteq> None"
  obtains r where "ctl_target st = Some r" and "ctl_ref_ok st r"
proof (cases "cur_path st")
  case (Some r)
  then show ?thesis
    using that [of "Path_ctls r"] assms(1)
    by (cases r) (auto simp: ctl_target_def ctl_ref_ok_def parse_base_def refs_ok_def)
next
  case None
  then obtain i u c where "cur_scase st = Some (i, u, c)" using assms(2) by auto
  then show ?thesis
    using that [of "Case_ctls i u c"] None assms(1)
    by (auto simp: ctl_target_def ctl_ref_ok_def parse_base_def refs_ok_def)
qed

lemma elems_append_set:
  assumes "array_ok z a" and "elems a = xs @ [y]"
  shows "elems (set_elem a (length xs) x) = xs @ [x]" and "array_ok z (set_elem a (length xs) x)"
proof -
  have "length xs < unat (count a)" using assms length_elems [OF assms(1)] by simp
  then show "elems (set_elem a (length xs) x) = xs @ [x]" and "array_ok z (set_elem a (length xs) x)"
    using assms by simp_all
qed

lemma parse_ctl_start_ok:
  assumes E: "always_alloc E" and b: "parse_base st" and m: "cm_mixer (ps_cm st) = Some m"
    and at: "attribs st e_attrib_name \<noteq> None" "attribs st e_attrib_val = Some v" "length v < 2 ^ 31"
      "fst (attrib_to_uint st e_attrib_index) \<noteq> - EINVAL"
    and tgt: "cur_path st \<noteq> None \<or> cur_scase st \<noteq> None"
  shows "\<exists>r st' k'. parse_ctl_start E st k = Some ((r, st'), k') \<and> parse_base st' \<and> keeps st st'
    \<and> cur_path st' = cur_path st \<and> cur_scase st' = cur_scase st"
proof -
  obtain name where name: "attribs st e_attrib_name = Some name" using at(1) by blast
  obtain k1 where a1: "sys_alloc E k = (True, k1)" using E by (rule always_allocE)
  obtain r where r: "ctl_target st = Some r" "ctl_ref_ok st r" using ctl_target_ok [OF b tgt] .
  have mo: "mixer_ok m" using parse_base_mixer [OF b m] by simp
  have wf: "array_ok zero_cfg_ctl (get_ctls st r)" "list_all (ctl_wf m) (elems (get_ctls st r))"
    using get_ctls_wf [OF b m r(2)] by (simp_all add: ctls_wf_def)
  obtain c arr k2 where new: "new_ctl E (get_ctls st r) name k1 = ((c, arr), k2)"
    by (cases "new_ctl E (get_ctls st r) name k1") auto
  note spec = new_elem_spec [OF wf(1) new [unfolded new_ctl_def]]
  show ?thesis
  proof (cases c)
    case None
    then have "ctls_wf m arr" using spec wf by (simp add: ctls_wf_def)
    then show ?thesis
      using put_ctls_base [OF b m r(2)] name a1 r new None by (simp add: parse_ctl_start_def)
  next
    case (Some i)
    let ?c0 = "zero_cfg_ctl\<lparr>c_id := UINT_MAX, c_index := INVALID_CTL_INDEX, c_name := name,
        c_type := MIXER_CTL_TYPE_UNKNOWN\<rparr>"
    have i: "i = length (elems (get_ctls st r))" and el: "elems arr = elems (get_ctls st r) @ [?c0]"
      and ok: "array_ok zero_cfg_ctl arr"
      using spec Some by simp_all
    obtain rc idx where idx: "attrib_to_uint st e_attrib_index = (rc, idx)" "rc \<noteq> - EINVAL"
      using at(4) by (cases "attrib_to_uint st e_attrib_index") auto
    obtain k3 where a2: "sys_alloc E k2 = (True, k3)" using E by (rule always_allocE)
    let ?c2 = "?c0\<lparr>c_name := name, c_index := stored idx (c_index ?c0), c_value := String v\<rparr>"
    have "ctl_wf m ?c2" using at(3) by (simp add: ctl_wf_def)
    then obtain ret c3 k4 where op: "ctl_open E (Some m) ?c2 k3 = Some ((ret, c3), k4)" "ctl_wf m c3"
      using ctl_open_wf [OF mo, of ?c2 E k3] by blast
    have "ctls_wf m (set_elem arr i c3)"
      using elems_append_set [OF ok el, of c3] wf op(2) i by (simp add: ctls_wf_def)
    then show ?thesis
      using put_ctls_base [OF b m r(2)] name a1 a2 r new Some idx op m at(2) el i
      by (simp add: parse_ctl_start_def nth_append)
  qed
qed

lemma parse_init_start_ok:
  assumes "parse_base st"
  shows "\<exists>st'. parse_init_start st k = Some ((0, st'), k) \<and> parse_base st' \<and> keeps st st'
    \<and> cur_path st' \<noteq> None"
  using assms by (simp add: parse_init_start_def parse_base_def refs_ok_def keeps_def)

lemma parse_codec_case_start_ok:
  assumes E: "always_alloc E" and b: "parse_base st" and p: "cur_probe st"
    and at: "attribs st e_attrib_name \<noteq> None" "attribs st e_attrib_file \<noteq> None"
  shows "\<exists>r st' k'. parse_codec_case_start E st k = Some ((r, st'), k') \<and> parse_base st' \<and> keeps st st'"
proof -
  obtain k1 where d1: "strdup E (attribs st e_attrib_name) k = Some (attribs st e_attrib_name, k1)"
    using strdup_alloc [OF E at(1)] by blast
  obtain k2 where d2: "strdup E (attribs st e_attrib_file) k1 = Some (attribs st e_attrib_file, k2)"
    using strdup_alloc [OF E at(2)] by blast
  have ok: "array_ok zero_codec_case (codec_cases st)"
    "list_all (\<lambda>cc. cc_name cc \<noteq> None \<and> cc_file cc \<noteq> None) (elems (codec_cases st))"
    using b by (simp_all add: parse_base_def probe_ok_def)
  obtain r a' k' where n: "new_codec_case E (codec_cases st) (attribs st e_attrib_name) (attribs st e_attrib_file) k2
      = ((r, a'), k')" "array_ok zero_codec_case a'"
      "list_all (\<lambda>cc. cc_name cc \<noteq> None \<and> cc_file cc \<noteq> None) (elems a')"
    unfolding new_codec_case_def
    by (rule new_elem_cases [OF ok(1) _ ok(2), of
        "\<lambda>cc. cc\<lparr>cc_name := attribs st e_attrib_name, cc_file := attribs st e_attrib_file\<rparr>" E k2])
      (use at in auto)
  have "parse_base (st\<lparr>codec_cases := a'\<rparr>)"
    using b n by (simp add: parse_base_def probe_ok_def)
  then show ?thesis using d1 d2 p n(1) by (simp add: parse_codec_case_start_def keeps_def)
qed

lemma parse_codec_probe_start_ok:
  assumes E: "always_alloc E" and b: "parse_base st" and at: "attribs st e_attrib_file \<noteq> None"
    and run: "stopped st = Running"
  shows "\<exists>r st' k'. parse_codec_probe_start E st k = Some ((r, st'), k') \<and> parse_base st' \<and> stack st' = stack st
    \<and> stopped st' = stopped st \<and> cm_mixer (ps_cm st') = cm_mixer (ps_cm st) \<and> (r = 0 \<longrightarrow> cur_probe st')"
proof -
  obtain k1 where "strdup E (attribs st e_attrib_file) k = Some (attribs st e_attrib_file, k1)"
    using strdup_alloc [OF E at] by blast
  moreover have "parse_base (st\<lparr>probe_file := attribs st e_attrib_file, cur_probe := True\<rparr>)"
    using b at run by (auto simp: parse_base_def probe_ok_def)
  ultimately show ?thesis using b by (simp add: parse_codec_probe_start_def)
qed

lemma find_codec_defined:
  "list_all (\<lambda>cc. cc_name cc \<noteq> None \<and> cc_file cc \<noteq> None) ccs \<Longrightarrow>
   \<exists>r. find_codec c ccs = Some r \<and> (\<forall>cc. r = Some cc \<longrightarrow> cc_file cc \<noteq> None)"
  by (induction ccs) auto

lemma parse_codec_probe_end_ok:
  assumes E: "always_alloc E" and X: "\<And>f k. wait_open X wait f k \<noteq> None"
    and b: "parse_base st" and p: "cur_probe st" and run: "stopped st = Running" and mx: "cm_mixer (ps_cm st) = None"
  shows "\<exists>st' k'. parse_codec_probe_end E X wait st k = Some ((0, st'), k') \<and> parse_base st' \<and> stack st' = stack st
    \<and> cm_mixer (ps_cm st') = None"
proof -
  obtain arr k1 where fx: "dyn_array_fix E (codec_cases st) k = (arr, k1)"
    by (cases "dyn_array_fix E (codec_cases st) k")
  have ok: "array_ok zero_codec_case (codec_cases st)"
    "list_all (\<lambda>cc. cc_name cc \<noteq> None \<and> cc_file cc \<noteq> None) (elems (codec_cases st))"
    using b by (simp_all add: parse_base_def probe_ok_def)
  note arr = dyn_array_fix_elems [OF ok(1) fx]
  let ?st = "st\<lparr>codec_cases := arr, cur_probe := False\<rparr>"
  have base: "parse_base ?st"
    using b arr by (simp add: parse_base_def probe_ok_def)
  obtain pf cur where f: "probe_file st = Some pf" "cur_xml_file st = Some cur"
    using b p by (auto simp: parse_base_def probe_ok_def)
  obtain k2 where w: "wait_open X wait pf k1 = Some k2" using X [of pf k1] by blast
  obtain line k3 where l: "x_fgets X pf k2 = (line, k3)" by (cases "x_fgets X pf k2")
  have upd: "parse_base (?st\<lparr>new_xml_file := n, stopped := s\<rparr>)" if "n \<noteq> None \<longrightarrow> s \<noteq> Running" for n s
    using base mx that by (simp add: parse_base_def probe_ok_def)
  have upd0: "parse_base (?st\<lparr>new_xml_file := None\<rparr>)" using upd [of None "stopped st"] by simp
  show ?thesis
  proof (cases line)
    case None
    then show ?thesis using p fx f w l base mx by (simp add: parse_codec_probe_end_def probe_config_file_def)
  next
    case (Some buf)
    obtain r where fc: "find_codec (probe_trim_spaces buf) (elems arr) = Some r"
      "\<And>cc. r = Some cc \<Longrightarrow> cc_file cc \<noteq> None"
      using find_codec_defined [of "elems arr"] ok(2) arr by metis
    show ?thesis
    proof (cases r)
      case None
      then show ?thesis
        using Some p fx f w l fc upd0 mx by (simp add: parse_codec_probe_end_def probe_config_file_def)
    next
      case r: (Some cc)
      obtain nf where nf: "cc_file cc = Some nf" using fc(2) [OF r] by blast
      obtain k4 where "strdup E (Some nf) k3 = Some (Some nf, k4)"
        using strdup_alloc [OF E, of "Some nf" k3] by auto
      then show ?thesis
        using Some p fx f w l fc(1) r nf mx upd [of None Aborted] upd [of "Some nf" Suspended]
        by (cases "nf = cur") (simp_all add: parse_codec_probe_end_def probe_config_file_def Let_def)
    qed
  qed
qed

subsection \<open>Paths and devices\<close>

lemma find_name_loop_range:
  "find_name_loop names name n = - EINVAL \<or> (\<exists>i < n. find_name_loop names name n = int i \<and> names ! i = name)"
  by (induction n) (auto simp: less_Suc_eq)

lemma add_path_name_ok:
  assumes "array_ok [] a" and "add_path_name E a name k = ((r, a'), k')"
  shows "array_ok [] a'"
proof -
  have "array_ok [] a2" if "new_elem E [] (\<lambda>_. name) a k1 = ((r2, a2), k2)" for r2 a2 k1 k2
    using new_elem_spec [OF assms(1) that] by simp
  then show ?thesis
    using assms by (auto simp: add_path_name_def new_name_def Let_def
        split: if_splits prod.splits option.splits)
qed

lemma path_names_base:
  "parse_base st \<Longrightarrow> array_ok [] a \<Longrightarrow> parse_base (st\<lparr>path_names := a\<rparr>)"
  by (simp add: parse_base_def)

lemma parse_path_start_ok:
  assumes b: "parse_base st" and m: "cm_mixer (ps_cm st) = Some m"
    and at: "attribs st e_attrib_name \<noteq> None" and d: "cur_device st \<noteq> None"
  shows "\<exists>r st' k'. parse_path_start E st k = Some ((r, st'), k') \<and> parse_base st' \<and> keeps st st'
    \<and> (r = 0 \<longrightarrow> cur_path st' \<noteq> None)"
proof -
  obtain name where name: "attribs st e_attrib_name = Some name" using at by blast
  obtain dv where dv: "cur_device st = Some dv" using d by blast
  obtain pid names k1 where add: "add_path_name E (path_names st) name k = ((pid, names), k1)"
    by (cases "add_path_name E (path_names st) name k") auto
  have "array_ok [] names" using add_path_name_ok [OF _ add] b by (simp add: parse_base_def)
  then have b1: "parse_base (st\<lparr>path_names := names\<rparr>)" using b by (rule path_names_base [rotated])
  have lt: "dv < length (devs st)" using b dv by (simp add: parse_base_def refs_ok_def)
  let ?dev = "devs st ! dv"
  have dw: "device_wf m ?dev" using cm_wf_device parse_base_mixer [OF b m] m lt by blast
  have aw: "array_ok zero_path (path_array ?dev)" "list_all (path_wf m) (elems (path_array ?dev))"
    using dw by (simp_all add: device_wf_def)
  let ?f = "\<lambda>p. p\<lparr>p_ctl_array := (p_ctl_array p)\<lparr>elem_size := sizeof_ctl\<rparr>, p_id := pid\<rparr>"
  have fz: "path_wf m (?f zero_path)" by (simp add: path_wf_def ctls_wf_def zero_path_def)
  obtain q arr k2 where n: "new_elem E zero_path ?f (path_array ?dev) k1 = ((q, arr), k2)" "array_ok zero_path arr"
    "list_all (path_wf m) (elems arr)"
    "case q of None \<Rightarrow> elems arr = elems (path_array ?dev)
      | Some i \<Rightarrow> i = length (elems (path_array ?dev)) \<and> elems arr = elems (path_array ?dev) @ [?f zero_path]"
    by (rule new_elem_cases [where P = "path_wf m" and f = ?f, OF aw(1) fz aw(2)])
  have ext: "device_wf m (?dev\<lparr>path_array := arr\<rparr>)" "device_ext ?dev (?dev\<lparr>path_array := arr\<rparr>)"
    using n by (auto simp: device_wf_def device_ext_def split: option.splits)
  let ?st2 = "put_device (st\<lparr>path_names := names\<rparr>) dv (?dev\<lparr>path_array := arr\<rparr>)"
  have b2: "parse_base ?st2" using put_device_base [OF b1, of m dv] m lt ext by simp
  have b3: "parse_base (?st2\<lparr>cur_path := Some (Device_path dv i)\<rparr>)" if "q = Some i" for i
    using b2 n(4) that lt devs_put_device [of dv "st\<lparr>path_names := names\<rparr>"]
    by (simp add: parse_base_def refs_ok_def)
  show ?thesis
    using name add dv n(1) b1 b2 b3
    by (cases q) (simp_all add: parse_path_start_def new_path_def keeps_def Let_def)
qed

lemma parse_path_end_ok:
  assumes b: "parse_base st" and m: "cm_mixer (ps_cm st) = Some m" and p: "cur_path st \<noteq> None"
  shows "\<exists>st' k'. parse_path_end E st k = Some ((0, st'), k') \<and> parse_base st' \<and> keeps st st'"
proof -
  obtain r where r: "cur_path st = Some r" using p by blast
  then have ro: "ctl_ref_ok st (Path_ctls r)"
    using b by (cases r) (auto simp: ctl_ref_ok_def parse_base_def refs_ok_def)
  obtain a k1 where fx: "dyn_array_fix E (p_ctl_array (get_path st r)) k = (a, k1)"
    by (cases "dyn_array_fix E (p_ctl_array (get_path st r)) k")
  have w: "path_wf m (get_path st r)" by (rule get_path_wf [OF b m ro])
  then have "path_wf m ((get_path st r)\<lparr>p_ctl_array := a\<rparr>)"
    using dyn_array_fix_elems [of zero_cfg_ctl, OF _ fx] by (simp add: path_wf_def ctls_wf_def)
  note pb = put_path_base [OF b m ro this]
  have "parse_base ((put_path st r ((get_path st r)\<lparr>p_ctl_array := a\<rparr>))\<lparr>cur_path := None\<rparr>)"
    using pb(1) by (simp add: parse_base_def refs_ok_def)
  then show ?thesis
    using r fx pb(2) by (simp add: parse_path_end_def compress_path_def keeps_def)
qed

lemma parse_device_start_ok:
  assumes b: "parse_base st" and m: "cm_mixer (ps_cm st) = Some m" and at: "attribs st e_attrib_name \<noteq> None"
  shows "\<exists>r st' k'. parse_device_start E A st k = Some ((r, st'), k') \<and> parse_base st' \<and> keeps st st'
    \<and> (r = 0 \<longrightarrow> cur_device st' \<noteq> None)"
proof -
  obtain name where name: "attribs st e_attrib_name = Some name" using at by blast
  have cm: "cm_wf (ps_cm st)" using parse_base_mixer [OF b m] by simp
  have aw: "array_ok zero_device (device_array (ps_cm st))" "list_all (device_wf m) (devs st)"
    using cm m by (simp_all add: cm_wf_def)
  show ?thesis
  proof (cases "parse_match_device A name")
    case None
    then show ?thesis using name b by (simp add: parse_device_start_def)
  next
    case (Some flag)
    let ?f = "\<lambda>d. d\<lparr>path_array := (path_array d)\<lparr>elem_size := sizeof_path\<rparr>, d_type := flag\<rparr>"
    have fz: "device_wf m (?f zero_device)" by (simp add: device_wf_def zero_device_def)
    obtain q arr k1 where n: "new_elem E zero_device ?f (device_array (ps_cm st)) k = ((q, arr), k1)"
      "array_ok zero_device arr" "list_all (device_wf m) (elems arr)"
      "case q of None \<Rightarrow> elems arr = devs st
        | Some i \<Rightarrow> i = length (devs st) \<and> elems arr = devs st @ [?f zero_device]"
      by (rule new_elem_cases [where P = "device_wf m" and f = ?f, OF aw(1) fz aw(2)])
    have pre: "\<exists>tl. elems arr = devs st @ tl" using n(4) by (cases q) auto
    have base: "parse_base (st\<lparr>ps_cm := (ps_cm st)\<lparr>supported_output_devices := so, supported_input_devices := si,
        device_array := arr\<rparr>\<rparr>)" for so si
      using b m n(2,3) pre cm
      by (auto simp: parse_base_def parse_cm_ok_def streams_idle_def init_ctls_ok_def refs_ok_def probe_ok_def cm_wf_def
          nth_append)
    have base2: "parse_base (st\<lparr>ps_cm := (ps_cm st)\<lparr>supported_output_devices := so, supported_input_devices := si,
        device_array := arr\<rparr>, cur_device := Some i\<rparr>)" if "q = Some i" for so si i
      using base [of si so] n(4) that by (simp add: parse_base_def refs_ok_def)
    let ?so = "supported_output_devices (ps_cm st)" and ?si = "supported_input_devices (ps_cm st)"
    note bs = base [of ?si ?so] base [of ?si "?so OR flag"] base [of "?si OR flag" ?so]
    note cs = base2 [of _ ?si ?so] base2 [of _ ?si "?so OR flag"] base2 [of _ "?si OR flag" ?so]
    show ?thesis
      using name Some n(1) b bs cs
      by (cases q; cases "flag = 0"; cases "flag AND AUDIO_DEVICE_BIT_IN A = 0")
        (simp_all add: parse_device_start_def new_device_def keeps_def Let_def)
  qed
qed

lemma parse_device_end_ok:
  assumes b: "parse_base st" and m: "cm_mixer (ps_cm st) = Some m" and d: "cur_device st \<noteq> None"
  shows "\<exists>st' k'. parse_device_end E st k = Some ((0, st'), k') \<and> parse_base st' \<and> keeps st st'"
proof -
  obtain dv where dv: "cur_device st = Some dv" using d by blast
  have lt: "dv < length (devs st)" using b dv by (simp add: parse_base_def refs_ok_def)
  obtain a k1 where fx: "dyn_array_fix E (path_array (devs st ! dv)) k = (a, k1)"
    by (cases "dyn_array_fix E (path_array (devs st ! dv)) k")
  have "device_wf m (devs st ! dv)" using cm_wf_device parse_base_mixer [OF b m] m lt by blast
  then have "device_wf m ((devs st ! dv)\<lparr>path_array := a\<rparr>)"
    "device_ext (devs st ! dv) ((devs st ! dv)\<lparr>path_array := a\<rparr>)"
    using dyn_array_fix_elems [of zero_path, OF _ fx] by (simp_all add: device_wf_def device_ext_def)
  from put_device_base [OF b m lt this] show ?thesis
    using dv fx by (simp add: parse_device_end_def compress_device_def)
qed

subsection \<open>Use cases\<close>

lemma parse_case_start_ok:
  assumes E: "always_alloc E" and b: "parse_base st" and m: "cm_mixer (ps_cm st) = Some m"
    and at: "attribs st e_attrib_name \<noteq> None" and u: "cur_usecase st \<noteq> None"
  shows "\<exists>r st' k'. parse_case_start E st k = Some ((r, st'), k') \<and> parse_base st' \<and> keeps st st'
    \<and> (r = 0 \<longrightarrow> cur_scase st' \<noteq> None)"
proof -
  obtain name where name: "attribs st e_attrib_name = Some name" using at by blast
  obtain k1 where d: "strdup E (Some name) k = Some (Some name, k1)"
    using strdup_alloc [OF E, of "Some name" k] by auto
  obtain i j where ij: "cur_usecase st = Some (i, j)" using u by auto
  have lt: "i < length (strs st)" "j < length (ucases (strs st ! i))"
    using b ij by (simp_all add: parse_base_def refs_ok_def)
  let ?uc = "ucases (strs st ! i) ! j"
  have gu: "get_usecase st i j = ?uc" by (simp add: get_usecase_def get_stream_at_def)
  have "stream_wf m (strs st ! i)" using cm_wf_stream parse_base_mixer [OF b m] m lt(1) by blast
  then have "usecase_wf m ?uc" using lt(2) by (rule stream_wf_usecase)
  then have aw: "array_ok zero_scase (case_array ?uc)" "list_all (scase_wf m) (elems (case_array ?uc))"
    by (simp_all add: usecase_wf_def)
  let ?f = "\<lambda>sc. sc\<lparr>sc_ctl_array := (sc_ctl_array sc)\<lparr>elem_size := sizeof_ctl\<rparr>, sc_name := name\<rparr>"
  have fz: "scase_wf m (?f zero_scase)" by (simp add: scase_wf_def ctls_wf_def zero_scase_def)
  obtain q arr k2 where n: "new_elem E zero_scase ?f (case_array ?uc) k1 = ((q, arr), k2)"
    "array_ok zero_scase arr" "list_all (scase_wf m) (elems arr)"
    "case q of None \<Rightarrow> elems arr = elems (case_array ?uc)
      | Some c \<Rightarrow> c = length (elems (case_array ?uc)) \<and> elems arr = elems (case_array ?uc) @ [?f zero_scase]"
    by (rule new_elem_cases [where P = "scase_wf m" and f = ?f, OF aw(1) fz aw(2)])
  let ?uc' = "?uc\<lparr>case_array := arr\<rparr>"
  have w: "usecase_wf m ?uc'" "length (elems (case_array ?uc)) \<le> length (elems (case_array ?uc'))"
    using n by (auto simp: usecase_wf_def split: option.splits)
  note pb = put_usecase_base [OF b m lt w]
  let ?st1 = "put_usecase st i j ?uc'"
  have len: "j < unat (count (usecase_array (strs st ! i)))"
    using lt(2) \<open>stream_wf m (strs st ! i)\<close> by (simp add: stream_wf_def length_elems [of zero_usecase])
  have s1: "strs ?st1 ! i = (strs st ! i)\<lparr>usecase_array := set_elem (usecase_array (strs st ! i)) j ?uc'\<rparr>"
    "length (strs ?st1) = length (strs st)"
    using strs_put_stream [OF lt(1)] lt(1) by (simp_all add: put_usecase_def get_stream_at_def Let_def)
  have "parse_base (?st1\<lparr>cur_scase := Some (i, j, c)\<rparr>)" if "q = Some c" for c
    using pb(1) n(4) that lt len s1 by (simp add: parse_base_def refs_ok_def)
  moreover have "keeps st (?st1\<lparr>cur_scase := x\<rparr>)" for x using pb(2) by (simp add: keeps_def)
  ultimately show ?thesis
    using name d ij gu n(1) pb
    by (cases q) (simp_all add: parse_case_start_def new_case_def Let_def)
qed

lemma parse_case_end_ok:
  assumes b: "parse_base st" and m: "cm_mixer (ps_cm st) = Some m" and c: "cur_scase st \<noteq> None"
  shows "\<exists>st' k'. parse_case_end E st k = Some ((0, st'), k') \<and> parse_base st' \<and> keeps st st'"
proof -
  obtain i u c where s: "cur_scase st = Some (i, u, c)" using c by auto
  have ro: "ctl_ref_ok st (Case_ctls i u c)" using b s by (simp add: ctl_ref_ok_def parse_base_def refs_ok_def)
  then have lt: "i < length (strs st)" "u < length (ucases (strs st ! i))"
    "c < length (elems (case_array (ucases (strs st ! i) ! u)))" by (simp_all add: ctl_ref_ok_def)
  obtain a k1 where fx: "dyn_array_fix E (sc_ctl_array (get_scase st i u c)) k = (a, k1)"
    by (cases "dyn_array_fix E (sc_ctl_array (get_scase st i u c)) k")
  have "scase_wf m (get_scase st i u c)" by (rule get_scase_wf [OF b m ro])
  then have "scase_wf m ((get_scase st i u c)\<lparr>sc_ctl_array := a\<rparr>)"
    using dyn_array_fix_elems [of zero_cfg_ctl, OF _ fx] by (simp add: scase_wf_def ctls_wf_def)
  note pb = put_scase_base [OF b m lt this]
  have "parse_base ((put_scase st i u c ((get_scase st i u c)\<lparr>sc_ctl_array := a\<rparr>))\<lparr>cur_scase := None\<rparr>)"
    using pb(1) by (simp add: parse_base_def refs_ok_def)
  then show ?thesis using s fx pb(2) by (simp add: parse_case_end_def compress_case_def keeps_def)
qed

lemma parse_usecase_start_ok:
  assumes E: "always_alloc E" and b: "parse_base st" and m: "cm_mixer (ps_cm st) = Some m"
    and at: "attribs st e_attrib_name \<noteq> None" and s: "cur_stream st \<noteq> None"
  shows "\<exists>r st' k'. parse_usecase_start E st k = Some ((r, st'), k') \<and> parse_base st' \<and> keeps st st'
    \<and> (r = 0 \<longrightarrow> cur_usecase st' \<noteq> None)"
proof -
  obtain name where name: "attribs st e_attrib_name = Some name" using at by blast
  obtain k1 where d: "strdup E (Some name) k = Some (Some name, k1)"
    using strdup_alloc [OF E, of "Some name" k] by auto
  obtain i where i: "cur_stream st = Some i" using s by auto
  have lt: "i < length (strs st)" using b i by (simp add: parse_base_def refs_ok_def)
  let ?s = "strs st ! i"
  have gs: "get_stream_at (ps_cm st) i = ?s" by (simp add: get_stream_at_def)
  have sw: "stream_wf m ?s" using cm_wf_stream parse_base_mixer [OF b m] m lt by blast
  then have aw: "array_ok zero_usecase (usecase_array ?s)" "list_all (usecase_wf m) (ucases ?s)"
    by (simp_all add: stream_wf_def)
  let ?f = "\<lambda>uc. uc\<lparr>case_array := (case_array uc)\<lparr>elem_size := sizeof_scase\<rparr>, uc_name := name\<rparr>"
  have fz: "usecase_wf m (?f zero_usecase)" by (simp add: usecase_wf_def zero_usecase_def)
  obtain q arr k2 where n: "new_elem E zero_usecase ?f (usecase_array ?s) k1 = ((q, arr), k2)"
    "array_ok zero_usecase arr" "list_all (usecase_wf m) (elems arr)"
    "case q of None \<Rightarrow> elems arr = ucases ?s
      | Some u \<Rightarrow> u = length (ucases ?s) \<and> elems arr = ucases ?s @ [?f zero_usecase]"
    by (rule new_elem_cases [where P = "usecase_wf m" and f = ?f, OF aw(1) fz aw(2)])
  let ?s' = "?s\<lparr>usecase_array := arr\<rparr>"
  have w: "stream_wf m ?s'" "stream_ext ?s ?s'"
    using n sw by (auto simp: stream_wf_def stream_ext_def nth_append split: option.splits)
  note pb = put_stream_base [OF b m lt w]
  have "parse_base ((put_stream st i ?s')\<lparr>cur_usecase := Some (i, u)\<rparr>)" if "q = Some u" for u
    using pb n(4) that lt strs_put_stream [OF lt] by (simp add: parse_base_def refs_ok_def)
  then show ?thesis
    using name d i gs n(1) pb
    by (cases q) (simp_all add: parse_usecase_start_def new_usecase_def keeps_def)
qed

lemma parse_usecase_end_ok:
  assumes b: "parse_base st" and m: "cm_mixer (ps_cm st) = Some m" and u: "cur_usecase st \<noteq> None"
  shows "\<exists>st' k'. parse_usecase_end E st k = Some ((0, st'), k') \<and> parse_base st' \<and> keeps st st'"
proof -
  obtain i j where ij: "cur_usecase st = Some (i, j)" using u by auto
  have lt: "i < length (strs st)" "j < length (ucases (strs st ! i))"
    using b ij by (simp_all add: parse_base_def refs_ok_def)
  let ?uc = "ucases (strs st ! i) ! j"
  have gu: "get_usecase st i j = ?uc" by (simp add: get_usecase_def get_stream_at_def)
  obtain a k1 where fx: "dyn_array_fix E (case_array ?uc) k = (a, k1)"
    by (cases "dyn_array_fix E (case_array ?uc) k")
  have "stream_wf m (strs st ! i)" using cm_wf_stream parse_base_mixer [OF b m] m lt(1) by blast
  then have "usecase_wf m ?uc" using lt(2) by (rule stream_wf_usecase)
  then have "usecase_wf m (?uc\<lparr>case_array := a\<rparr>)"
    "length (elems (case_array ?uc)) \<le> length (elems (case_array (?uc\<lparr>case_array := a\<rparr>)))"
    using dyn_array_fix_elems [of zero_scase, OF _ fx] by (simp_all add: usecase_wf_def)
  note pb = put_usecase_base [OF b m lt this]
  then show ?thesis using ij gu fx by (simp add: parse_usecase_end_def compress_usecase_def)
qed

subsection \<open>Streams\<close>

lemma put_stream_same:
  assumes b: "parse_base st" and m: "cm_mixer (ps_cm st) = Some m" and i: "i < length (strs st)"
    and s: "stream_wf m s" "usecase_array s = usecase_array (strs st ! i)"
    "ref_count s = ref_count (strs st ! i)"
  shows "parse_base (put_stream st i s)"
  using put_stream_base [OF b m i s(1)] s(2,3) by (simp add: stream_ext_def)

lemma parse_enable_disable_start_ok:
  assumes b: "parse_base st" and m: "cm_mixer (ps_cm st) = Some m"
    and at: "attribs st e_attrib_path \<noteq> None" and s: "cur_stream st \<noteq> None"
  shows "\<exists>r st' k'. parse_enable_disable_start st en k = Some ((r, st'), k') \<and> parse_base st' \<and> keeps st st'"
proof -
  obtain pn where pn: "attribs st e_attrib_path = Some pn" using at by blast
  obtain i where i: "cur_stream st = Some i" using s by auto
  have lt: "i < length (strs st)" using b i by (simp add: parse_base_def refs_ok_def)
  have sw: "stream_wf m (strs st ! i)" using cm_wf_stream parse_base_mixer [OF b m] m lt by blast
  have "parse_base (put_stream st i ((strs st ! i)\<lparr>enable_path := x\<rparr>))"
    "parse_base (put_stream st i ((strs st ! i)\<lparr>disable_path := x\<rparr>))" for x
    using put_stream_same [OF b m lt] sw by (simp_all add: stream_wf_def)
  then show ?thesis
    using pn i b by (simp add: parse_enable_disable_start_def get_stream_at_def Let_def)
qed

lemma put_volume_ok:
  assumes b: "parse_base st" and m: "cm_mixer (ps_cm st) = Some m" and i: "i < length (strs st)"
    and f: "\<And>v. vol_wf m v \<Longrightarrow> vol_wf m (f v)"
  shows "parse_base (put_volume left f st i)" and "keeps st (put_volume left f st i)"
    and "length (strs (put_volume left f st i)) = length (strs st)"
proof -
  have sw: "stream_wf m (strs st ! i)" using cm_wf_stream parse_base_mixer [OF b m] m i by blast
  show "parse_base (put_volume left f st i)"
    using put_stream_same [OF b m i] sw f by (simp add: put_volume_def stream_wf_def get_stream_at_def Let_def)
  show "keeps st (put_volume left f st i)" by (simp add: put_volume_def Let_def)
  show "length (strs (put_volume left f st i)) = length (strs st)"
    using strs_put_stream [OF i] by (simp add: put_volume_def Let_def)
qed

lemma parse_stream_ctl_start_ok:
  assumes b: "parse_base st" and m: "cm_mixer (ps_cm st) = Some m"
    and at: "attribs st e_attrib_name \<noteq> None" "attribs st e_attrib_function \<noteq> None" and s: "cur_stream st \<noteq> None"
  shows "\<exists>r st' k'. parse_stream_ctl_start st k = Some ((r, st'), k') \<and> parse_base st' \<and> keeps st st'"
proof -
  obtain name fn where name: "attribs st e_attrib_name = Some name" "attribs st e_attrib_function = Some fn"
    using at by blast
  obtain i where i: "cur_stream st = Some i" using s by auto
  have lt: "i < length (strs st)" using b i by (simp add: parse_base_def refs_ok_def)
  have mo: "mixer_present (Some m)" using parse_base_mixer [OF b m] by (simp add: mixer_present_def)
  obtain rc idx where idx: "attrib_to_uint st e_attrib_index = (rc, idx)"
    by (cases "attrib_to_uint st e_attrib_index")
  show ?thesis
    using mo
  proof (cases rule: mix.by_name_cases [where n = name])
    case 1
    then show ?thesis using name m b by (simp add: parse_stream_ctl_start_def)
  next
    case (2 mc)
    let ?l = "fn = ''leftvol''"
    let ?st1 = "put_volume ?l (\<lambda>v. v\<lparr>v_index := stored idx 0\<rparr>) st i"
    have 1: "parse_base ?st1" "keeps st ?st1" "length (strs ?st1) = length (strs st)"
      using put_volume_ok [OF b m lt, where f = "\<lambda>v. v\<lparr>v_index := stored idx 0\<rparr>" and left = ?l]
      by (simp_all add: vol_wf_def)
    let ?st2 = "\<lambda>lo. put_volume ?l (\<lambda>v. v\<lparr>v_min := lo\<rparr>) ?st1 i"
    have m1: "cm_mixer (ps_cm ?st1) = Some m" using 1(2) m by (simp add: keeps_def)
    have i1: "i < length (strs ?st1)" using 1(3) lt by simp
    have 3: "parse_base (?st2 lo)" "keeps ?st1 (?st2 lo)" "length (strs (?st2 lo)) = length (strs ?st1)" for lo
      using put_volume_ok [OF 1(1) m1 i1, where f = "\<lambda>v. v\<lparr>v_min := lo\<rparr>" and left = ?l] by (simp_all add: vol_wf_def)
    have m2: "cm_mixer (ps_cm (?st2 lo)) = Some m" "i < length (strs (?st2 lo))" for lo
      using 3 [of lo] m1 i1 by (simp_all add: keeps_def)
    let ?st3 = "\<lambda>lo hi. put_volume ?l (\<lambda>v. v\<lparr>v_max := hi, v_id := mixer_ctl_get_id (Some mc)\<rparr>) (?st2 lo) i"
    have 4: "parse_base (?st3 lo hi)" "keeps (?st2 lo) (?st3 lo hi)" for lo hi
      using put_volume_ok [OF 3(1) [of lo] m2 [of lo], where f = "\<lambda>v. v\<lparr>v_max := hi, v_id := mixer_ctl_get_id (Some mc)\<rparr>" and left = ?l] 2(2)
      by (simp_all add: vol_wf_def)
    have ks: "keeps st (?st2 lo)" "keeps st (?st3 lo hi)" for lo hi
      using 1(2) 3(2) 4(2) keeps_trans by blast+
    show ?thesis
      using name m b idx i 2(1) 1 3 4 ks
      by (auto simp: parse_stream_ctl_start_def Let_def split: sum.splits)
  qed
qed

lemma parse_stream_start_ok:
  assumes E: "always_alloc E" and b: "parse_base st" and m: "cm_mixer (ps_cm st) = Some m"
    and at: "attribs st e_attrib_type \<noteq> None"
  shows "\<exists>r st' k'. parse_stream_start E X st k = Some ((r, st'), k') \<and> parse_base st' \<and> keeps st st'
    \<and> (r = 0 \<longrightarrow> cur_stream st' \<noteq> None)"
proof -
  obtain ty where ty: "attribs st e_attrib_type = Some ty" using at by blast
  let ?na = "attribs st e_attrib_name"
  obtain k1 where nm: "(if ?na \<noteq> None then strdup E ?na k else Some (None, k)) = Some (?na, k1)"
    using strdup_alloc [OF E, of ?na k] by (cases ?na) auto
  have cm: "cm_wf (ps_cm st)" using parse_base_mixer [OF b m] by simp
  have aw: "array_ok zero_stream (stream_array (ps_cm st))" "list_all (stream_wf m) (strs st)"
    using cm m by (simp_all add: cm_wf_def)
  let ?f = "\<lambda>s. s\<lparr>usecase_array := (usecase_array s)\<lparr>elem_size := sizeof_usecase\<rparr>,
            enable_path := - 1, disable_path := - 1,
            volume_left := (volume_left s)\<lparr>v_id := UINT_MAX\<rparr>,
            volume_right := (volume_right s)\<lparr>v_id := UINT_MAX\<rparr>\<rparr>"
  have fz: "stream_wf m (?f zero_stream)" by (simp add: stream_wf_def zero_stream_def vol_wf_def)
  obtain q arr k2 where n: "new_elem E zero_stream ?f (stream_array (ps_cm st)) k1 = ((q, arr), k2)"
    "array_ok zero_stream arr" "list_all (stream_wf m) (elems arr)"
    "case q of None \<Rightarrow> elems arr = strs st
      | Some i \<Rightarrow> i = length (strs st) \<and> elems arr = strs st @ [?f zero_stream]"
    by (rule new_elem_cases [where P = "stream_wf m" and f = ?f, OF aw(1) fz aw(2)])
  let ?st1 = "st\<lparr>ps_cm := (ps_cm st)\<lparr>stream_array := arr\<rparr>\<rparr>"
  have pre: "\<exists>tl. elems arr = strs st @ tl" using n(4) by (cases q) auto
  have "streams_idle (ps_cm ?st1)"
    using b m n(4) by (cases q) (auto simp: parse_base_def parse_cm_ok_def streams_idle_def zero_stream_def)
  then have b1: "parse_base ?st1"
    using b m n(2,3) pre cm
    by (auto simp: parse_base_def parse_cm_ok_def init_ctls_ok_def refs_ok_def probe_ok_def cm_wf_def nth_append)
  have k1': "keeps st ?st1" by (simp add: keeps_def)
  show ?thesis
  proof (cases q)
    case None
    then show ?thesis
      using nm n(1) b b1 k1' by (simp add: parse_stream_start_def new_stream_def Let_def)
  next
    case (Some i)
    have i: "i < length (strs ?st1)" "elems arr ! i = ?f zero_stream" using n(4) Some by (simp_all add: nth_append)
    have m1: "cm_mixer (ps_cm ?st1) = Some m" using m by simp
    have b2: "parse_base (put_stream ?st1 i ((?f zero_stream)\<lparr>hinfo := inf\<rparr>))" for inf
      using put_stream_same [OF b1 m1 i(1)] fz i(2) by (simp add: stream_wf_def)
    have b3: "parse_base ((put_stream ?st1 i ((?f zero_stream)\<lparr>hinfo := inf, s_name := nme, max_ref_count := mr\<rparr>))
        \<lparr>cur_stream := Some i\<rparr>)" for inf nme mr
    proof -
      have "parse_base (put_stream ?st1 i ((?f zero_stream)\<lparr>hinfo := inf, s_name := nme, max_ref_count := mr\<rparr>))"
        using put_stream_same [OF b1 m1 i(1)] fz i(2) by (simp add: stream_wf_def)
      then show ?thesis using i(1) strs_put_stream [OF i(1)] by (simp add: parse_base_def refs_ok_def)
    qed
    have ks: "keeps st (put_stream ?st1 i s)" "keeps st ((put_stream ?st1 i s)\<lparr>cur_stream := Some i\<rparr>)" for s
      by (simp_all add: keeps_def)
    show ?thesis
      using nm n(1) b b1 b2 b3 k1' ks Some i(2) ty
      by (simp add: parse_stream_start_def new_stream_def Let_def split: option.split prod.split)
  qed
qed

lemma parse_stream_end_ok:
  assumes b: "parse_base st" and m: "cm_mixer (ps_cm st) = Some m" and s: "cur_stream st \<noteq> None"
  shows "\<exists>st' k'. parse_stream_end E st k = Some ((0, st'), k') \<and> parse_base st' \<and> keeps st st'"
proof -
  obtain i where i: "cur_stream st = Some i" using s by auto
  have lt: "i < length (strs st)" using b i by (simp add: parse_base_def refs_ok_def)
  obtain a k1 where fx: "dyn_array_fix E (usecase_array (strs st ! i)) k = (a, k1)"
    by (cases "dyn_array_fix E (usecase_array (strs st ! i)) k")
  have "stream_wf m (strs st ! i)" using cm_wf_stream parse_base_mixer [OF b m] m lt by blast
  then have "stream_wf m ((strs st ! i)\<lparr>usecase_array := a\<rparr>)"
    "stream_ext (strs st ! i) ((strs st ! i)\<lparr>usecase_array := a\<rparr>)"
    using dyn_array_fix_elems [of zero_usecase, OF _ fx] by (simp_all add: stream_wf_def stream_ext_def)
  from put_stream_base [OF b m lt this] show ?thesis
    using i fx by (simp add: parse_stream_end_def compress_stream_def get_stream_at_def)
qed

subsection \<open>The mixer\<close>

lemma parse_mixer_start_ok:
  assumes law: "\<And>f. driver_law E f" and b: "parse_base st" and m: "cm_mixer (ps_cm st) = None"
    and stk: "stack st = e0 # e1 # rest" and run: "stopped st = Running"
  shows "\<exists>r st' k'. parse_mixer_start E st k = Some ((r, st'), k') \<and> parse_base st' \<and> stopped st' = Running
    \<and> (r = 0 \<longrightarrow> cm_mixer (ps_cm st') \<noteq> None
        \<and> stack st' = e0 # e1\<lparr>en_valid := [e_elem_device, e_elem_stream]\<rparr> # rest)"
proof -
  obtain r c where c: "attrib_to_uint st e_attrib_card = (r, c)" by (cases "attrib_to_uint st e_attrib_card")
  obtain mx k1 where op: "mixer_open E (stored c 0) k = Some (mx, k1)" "\<And>m. mx = Some m \<Longrightarrow> mixer_ok m"
    using mixer_open_defined [of E "stored c 0" k, OF law] by auto
  have "parse_base (st\<lparr>ps_cm := (ps_cm st)\<lparr>cm_mixer := mx\<rparr>\<rparr>)"
    using b m op(2) run
    by (cases mx) (auto simp: parse_base_def parse_cm_ok_def streams_idle_def init_ctls_ok_def refs_ok_def probe_ok_def cm_wf_def
        path_wf_def ctls_wf_def)
  then show ?thesis
    using c op(1) stk b run by (cases mx) (auto simp: parse_mixer_start_def)
qed

section \<open>Attributes\<close>

text \<open>What the extraction yields: the values come from the tag, and nothing required is missing.\<close>

lemma match_attrib_Some: "match_attrib valid n = Some i \<Longrightarrow> i \<in> set valid \<and> attrib_table i = n"
  by (auto simp: match_attrib_def find_Some_iff)

lemma attrib_table_inj: "attrib_table i = attrib_table j \<Longrightarrow> i = j"
  by (cases i; cases j) simp_all

lemma all_attribs_complete: "i \<in> set all_attribs"
  by (cases i) (simp_all add: all_attribs_def)

lemma match_attrib_None: "match_attrib valid n = None \<longleftrightarrow> (\<forall>i \<in> set valid. attrib_table i \<noteq> n)"
  using all_attribs_complete by (auto simp: match_attrib_def find_None_iff)

lemma extract_loop_result:
  "extract_loop valid attrs vals req = (r, vals') \<Longrightarrow>
   r = (if (\<forall>(n, v) \<in> set attrs. n \<in> attrib_table ` set valid)
          \<and> (\<forall>i \<in> set req. \<exists>v. (attrib_table i, v) \<in> set attrs) then 0 else - EINVAL)
   \<and> (r = 0 \<longrightarrow> (\<forall>i. vals' i = (if i \<in> set valid then
        (case map_of (rev attrs) (attrib_table i) of Some v \<Rightarrow> Some v | None \<Rightarrow> vals i) else vals i)))"
proof (induction attrs arbitrary: vals req)
  case Nil
  then show ?case by (auto split: if_splits)
next
  case (Cons nv attrs)
  obtain n v where nv: "nv = (n, v)" by (cases nv)
  show ?case
  proof (cases "match_attrib valid n")
    case None
    then show ?thesis using Cons.prems nv match_attrib_None [of valid n] by auto
  next
    case (Some i)
    have i: "i \<in> set valid" "attrib_table i = n" using match_attrib_Some [OF Some] by simp_all
    have rec: "extract_loop valid attrs (vals(i := Some v)) (removeAll i req) = (r, vals')"
      using Cons.prems nv Some by simp
    note IH = Cons.IH [OF rec]
    have req: "(\<forall>j \<in> set (removeAll i req). \<exists>v. (attrib_table j, v) \<in> set attrs) =
        (\<forall>j \<in> set req. \<exists>w. (attrib_table j, w) \<in> set ((n, v) # attrs))"
      using i(2) attrib_table_inj by auto
    have vals: "(if j \<in> set valid then case map_of (rev attrs) (attrib_table j) of Some v \<Rightarrow> Some v
          | None \<Rightarrow> (vals(i := Some v)) j else (vals(i := Some v)) j)
        = (if j \<in> set valid then case map_of (rev (nv # attrs)) (attrib_table j) of Some v \<Rightarrow> Some v
          | None \<Rightarrow> vals j else vals j)" for j
      using i attrib_table_inj [of i j] nv
      by (cases "j = i") (auto simp: map_add_def split: option.splits)
    show ?thesis using IH req vals nv i by auto
  qed
qed

definition event_ok :: "xml_event \<Rightarrow> bool" where
  "event_ok ev \<longleftrightarrow> (case ev of End _ \<Rightarrow> True
     | Start n attrs \<Rightarrow> (\<forall>(a, v) \<in> set attrs. length v < 2 ^ 31
         \<and> (n = ''ctl'' \<and> a = ''index'' \<longrightarrow> fst (string_to_uint (Some v)) \<noteq> - EINVAL)))"

lemma if_EINVAL: "0 = (if P then 0 else - EINVAL) \<Longrightarrow> P"
  by (simp split: if_splits)

lemma extract_attribs_ok:
  assumes ex: "extract_attribs st e attrs = (0, st')" and ev: "event_ok (Start n attrs)"
  shows "(\<forall>i \<in> set (required_attribs (elem_table e)). attribs st' i \<noteq> None)
    \<and> (\<forall>i v. attribs st' i = Some v \<longrightarrow> length v < 2 ^ 31)
    \<and> (n = ''ctl'' \<longrightarrow> fst (attrib_to_uint st' e_attrib_index) \<noteq> - EINVAL)"
proof -
  let ?va = "valid_attribs (elem_table e)"
  obtain vals where l: "extract_loop ?va attrs (\<lambda>_. None) (required_attribs (elem_table e)) = (0, vals)"
    and st': "st' = st\<lparr>attribs := vals\<rparr>"
    using ex by (auto simp: extract_attribs_def split: prod.splits)
  note res = extract_loop_result [OF l]
  have v: "vals i = (if i \<in> set ?va then map_of (rev attrs) (attrib_table i) else None)" for i
    using res by (auto split: option.splits)
  have sub: "set (required_attribs (elem_table e)) \<subseteq> set ?va" by (cases e) auto
  have "vals i \<noteq> None" if req: "i \<in> set (required_attribs (elem_table e))" for i
  proof -
    have "\<forall>i \<in> set (required_attribs (elem_table e)). \<exists>v. (attrib_table i, v) \<in> set attrs"
      by (rule conjunct2 [OF if_EINVAL [OF conjunct1 [OF res]]])
    then obtain w where "(attrib_table i, w) \<in> set attrs" using req by blast
    then have "attrib_table i \<in> fst ` set (rev attrs)" by force
    moreover have "i \<in> set ?va" using sub req by blast
    ultimately show ?thesis using v [of i] map_of_eq_None_iff [of "rev attrs" "attrib_table i"] by simp
  qed
  moreover have mem: "(attrib_table i, w) \<in> set attrs" if "vals i = Some w" for i w
    using v [of i] that map_of_SomeD [of "rev attrs" "attrib_table i" w] by (simp split: if_splits)
  moreover have "fst (string_to_uint (vals e_attrib_index)) \<noteq> - EINVAL" if "n = ''ctl''"
  proof (cases "vals e_attrib_index")
    case None
    then show ?thesis by (simp add: string_to_uint_def)
  next
    case (Some w)
    then show ?thesis using mem [OF Some] ev that by (auto simp: event_ok_def)
  qed
  ultimately show ?thesis
    using st' ev by (fastforce simp: event_ok_def attrib_to_uint_def)
qed

section \<open>Where the parser stands\<close>

text \<open>
  The open elements, innermost first, determine which pointers of \<^verbatim>\<open>state->current\<close> are set
  and whether the mixer is open.
\<close>

fun ctx_ok :: "element_index list \<Rightarrow> parse_state \<Rightarrow> bool" where
  "ctx_ok [] st = True"
| "ctx_ok [e] st = (e = e_elem_audiohal)"
| "ctx_ok [e, a] st = (a = e_elem_audiohal \<and>
     (if e = e_elem_mixer then cm_mixer (ps_cm st) \<noteq> None
      else if e = e_elem_device then cm_mixer (ps_cm st) \<noteq> None \<and> cur_device st \<noteq> None
      else if e = e_elem_stream then cm_mixer (ps_cm st) \<noteq> None \<and> cur_stream st \<noteq> None
      else e = e_elem_codec_probe \<and> cm_mixer (ps_cm st) = None \<and> cur_probe st))"
| "ctx_ok [e, p, a] st = (ctx_ok [p, a] st \<and>
     (if e = e_elem_init then p = e_elem_mixer \<and> cur_path st \<noteq> None
      else if e = e_elem_path then p = e_elem_device \<and> cur_path st \<noteq> None
      else if e = e_elem_usecase then p = e_elem_stream \<and> cur_usecase st \<noteq> None
      else if e = e_elem_codec_case then p = e_elem_codec_probe
      else e \<in> {e_elem_stream_ctl, e_elem_enable, e_elem_disable} \<and> p = e_elem_stream))"
| "ctx_ok [e, q, p, a] st = (ctx_ok [q, p, a] st \<and>
     (if e = e_elem_case then q = e_elem_usecase \<and> cur_scase st \<noteq> None
      else e = e_elem_ctl \<and> (q = e_elem_init \<or> q = e_elem_path)))"
| "ctx_ok [e, r, q, p, a] st = (ctx_ok [r, q, p, a] st \<and> e = e_elem_ctl \<and> r = e_elem_case)"
| "ctx_ok _ st = False"

text \<open>The valid sub-elements on the stack are those of the tables, or what \<^verbatim>\<open>parse_mixer_start\<close> set.\<close>

definition entry_ok :: "parse_state \<Rightarrow> parse_stack_entry \<Rightarrow> bool" where
  "entry_ok st en \<longleftrightarrow> en_valid en =
     (if en_elem en = e_elem_audiohal \<and> cm_mixer (ps_cm st) \<noteq> None then [e_elem_device, e_elem_stream]
      else valid_subelem (elem_table (en_elem en)))"

definition stack_ok :: "parse_state \<Rightarrow> bool" where
  "stack_ok st \<longleftrightarrow> stack st \<noteq> [] \<and> en_valid (last (stack st)) = [e_elem_audiohal]
     \<and> list_all (entry_ok st) (butlast (stack st)) \<and> ctx_ok (map en_elem (butlast (stack st))) st"

lemma ctx_ok_depth: "ctx_ok es st \<Longrightarrow> length es \<le> 5"
  by (cases "(es, st)" rule: ctx_ok.cases) auto

text \<open>Which element can follow which.\<close>

abbreviation AH :: element_index where "AH \<equiv> e_elem_audiohal"

inductive next_elem :: "parse_state \<Rightarrow> element_index list \<Rightarrow> element_index \<Rightarrow> bool" for st where
  "next_elem st [] AH"
| "cm_mixer (ps_cm st) = None \<Longrightarrow> next_elem st [AH] e_elem_mixer"
| "cm_mixer (ps_cm st) = None \<Longrightarrow> next_elem st [AH] e_elem_codec_probe"
| "cm_mixer (ps_cm st) \<noteq> None \<Longrightarrow> next_elem st [AH] e_elem_device"
| "cm_mixer (ps_cm st) \<noteq> None \<Longrightarrow> next_elem st [AH] e_elem_stream"
| "next_elem st [e_elem_mixer, AH] e_elem_init"
| "next_elem st [e_elem_init, e_elem_mixer, AH] e_elem_ctl"
| "next_elem st [e_elem_device, AH] e_elem_path"
| "next_elem st [e_elem_path, e_elem_device, AH] e_elem_ctl"
| "next_elem st [e_elem_stream, AH] e_elem_stream_ctl"
| "next_elem st [e_elem_stream, AH] e_elem_enable"
| "next_elem st [e_elem_stream, AH] e_elem_disable"
| "next_elem st [e_elem_stream, AH] e_elem_usecase"
| "next_elem st [e_elem_usecase, e_elem_stream, AH] e_elem_case"
| "next_elem st [e_elem_case, e_elem_usecase, e_elem_stream, AH] e_elem_ctl"
| "next_elem st [e_elem_codec_probe, AH] e_elem_codec_case"

definition sub_elems :: "parse_state \<Rightarrow> element_index list \<Rightarrow> element_index list" where
  "sub_elems st es = (case es of [] \<Rightarrow> [AH]
     | x # _ \<Rightarrow> if x = AH \<and> cm_mixer (ps_cm st) \<noteq> None then [e_elem_device, e_elem_stream]
                 else valid_subelem (elem_table x))"

lemma next_elemI:
  assumes "ctx_ok es st" and "e \<in> set (sub_elems st es)"
  shows "next_elem st es e"
  using assms
  by (cases "(es, st)" rule: ctx_ok.cases) (auto simp: sub_elems_def split: if_splits intro: next_elem.intros)

lemma match_elem_Some: "match_elem valid n = Some e \<Longrightarrow> e \<in> set valid \<and> el_name (elem_table e) = n"
  by (auto simp: match_elem_def find_Some_iff)

text \<open>One start handler in its context.\<close>

definition start_post :: "parse_state \<Rightarrow> element_index list \<Rightarrow> element_index \<Rightarrow> int \<Rightarrow> parse_state \<Rightarrow> bool" where
  "start_post st es e r st' \<longleftrightarrow> parse_base st' \<and> stopped st' = Running \<and>
     (r = 0 \<longrightarrow> ctx_ok (e # es) st' \<and>
       (if e = e_elem_mixer then cm_mixer (ps_cm st') \<noteq> None \<and>
          stack st' = (stack st)[1 := (stack st ! 1)\<lparr>en_valid := [e_elem_device, e_elem_stream]\<rparr>]
        else stack st' = stack st \<and> cm_mixer (ps_cm st') = cm_mixer (ps_cm st)))"

lemma start_postI:
  assumes "parse_base st'" and "keeps st st'" and "stopped st = Running" and "e \<noteq> e_elem_mixer"
    and "r = 0 \<Longrightarrow> ctx_ok (e # es) st'"
  shows "start_post st es e r st'"
  using assms by (simp add: start_post_def keeps_def)

lemma start_ctl_ok:
  assumes E: "always_alloc E" and b: "parse_base st" and run: "stopped st = Running"
    and m: "cm_mixer (ps_cm st) \<noteq> None" and ctx: "ctx_ok es st"
    and par: "es \<in> {[e_elem_init, e_elem_mixer, AH], [e_elem_path, e_elem_device, AH],
      [e_elem_case, e_elem_usecase, e_elem_stream, AH]}"
    and at: "\<And>i. i \<in> set (required_attribs (elem_table e_elem_ctl)) \<Longrightarrow> attribs st i \<noteq> None"
      "\<And>i v. attribs st i = Some v \<Longrightarrow> length v < 2 ^ 31"
      "fst (attrib_to_uint st e_attrib_index) \<noteq> - EINVAL"
  shows "\<exists>r st' k'. parse_ctl_start E st k = Some ((r, st'), k') \<and> start_post st es e_elem_ctl r st'"
proof -
  obtain mx where mx: "cm_mixer (ps_cm st) = Some mx" using m by blast
  obtain v where v: "attribs st e_attrib_val = Some v" using at(1) [of e_attrib_val] by auto
  have n: "attribs st e_attrib_name \<noteq> None" using at(1) [of e_attrib_name] by simp
  have tgt: "cur_path st \<noteq> None \<or> cur_scase st \<noteq> None" using ctx par by auto
  obtain r st' k' where h: "parse_ctl_start E st k = Some ((r, st'), k')" "parse_base st'" "keeps st st'"
    "cur_path st' = cur_path st" "cur_scase st' = cur_scase st"
    using parse_ctl_start_ok [OF E b mx n v at(2) [OF v] at(3) tgt, of k] by blast
  have "ctx_ok (e_elem_ctl # es) st'" using ctx par h(3-5) by (auto simp: keeps_def)
  then show ?thesis using h start_postI [OF h(2,3) run] by auto
qed

lemma start_fn_ok:
  assumes E: "always_alloc E" and law: "\<And>f. driver_law E f"
    and b: "parse_base st" and run: "stopped st = Running" and pe: "parse_error st = 0"
    and ctx: "ctx_ok es st" and nx: "next_elem st es e" and stk: "length (stack st) = length es + 2"
    and at: "\<And>i. i \<in> set (required_attribs (elem_table e)) \<Longrightarrow> attribs st i \<noteq> None"
      "\<And>i v. attribs st i = Some v \<Longrightarrow> length v < 2 ^ 31"
      "e = e_elem_ctl \<Longrightarrow> fst (attrib_to_uint st e_attrib_index) \<noteq> - EINVAL"
  shows "\<exists>r st' k'. start_fn E A X e st k = Some ((r, st'), k') \<and> start_post st es e r st'"
  using nx
proof cases
  case 1
  then show ?thesis using b run pe by (simp add: start_post_def)
next
  case 2
  obtain e0 e1 rest where s: "stack st = e0 # e1 # rest"
    using stk 2 by (cases "stack st"; cases "tl (stack st)") auto
  show ?thesis
    using parse_mixer_start_ok [OF law b 2(3) s run, of k] 2 s by (fastforce simp: start_post_def)
next
  case 3
  show ?thesis
    using parse_codec_probe_start_ok [OF E b, of k] at(1) [of e_attrib_file] 3 run
    by (auto simp: start_post_def)
next
  case 4
  then obtain m where m: "cm_mixer (ps_cm st) = Some m" by blast
  obtain r st' k' where h: "parse_device_start E A st k = Some ((r, st'), k')" "parse_base st'" "keeps st st'"
    "r = 0 \<Longrightarrow> cur_device st' \<noteq> None"
    using parse_device_start_ok [OF b m, of E A k] at(1) [of e_attrib_name] 4 by auto
  show ?thesis using 4 h m start_postI [OF h(2,3) run, of e r es] by (auto simp: keeps_def)
next
  case 5
  then obtain m where m: "cm_mixer (ps_cm st) = Some m" by blast
  obtain r st' k' where h: "parse_stream_start E X st k = Some ((r, st'), k')" "parse_base st'" "keeps st st'"
    "r = 0 \<Longrightarrow> cur_stream st' \<noteq> None"
    using parse_stream_start_ok [OF E b m, of X k] at(1) [of e_attrib_type] 5 by auto
  show ?thesis using 5 h m start_postI [OF h(2,3) run, of e r es] by (auto simp: keeps_def)
next
  case 6
  obtain st' where h: "parse_init_start st k = Some ((0, st'), k)" "parse_base st'" "keeps st st'" "cur_path st' \<noteq> None"
    using parse_init_start_ok [OF b, of k] by blast
  show ?thesis using 6 h ctx start_postI [OF h(2,3) run, of e 0 es] by (auto simp: keeps_def)
next
  case 7
  then show ?thesis using start_ctl_ok [OF E b run _ ctx, of k] at ctx by simp
next
  case 8
  then obtain m where m: "cm_mixer (ps_cm st) = Some m" using ctx by auto
  obtain r st' k' where h: "parse_path_start E st k = Some ((r, st'), k')" "parse_base st'" "keeps st st'"
    "r = 0 \<Longrightarrow> cur_path st' \<noteq> None"
    using parse_path_start_ok [OF b m, of E k] at(1) [of e_attrib_name] 8 ctx by auto
  show ?thesis using 8 h m ctx start_postI [OF h(2,3) run, of e r es] by (auto simp: keeps_def)
next
  case 9
  then show ?thesis using start_ctl_ok [OF E b run _ ctx, of k] at ctx by simp
next
  case 10
  then obtain m where m: "cm_mixer (ps_cm st) = Some m" using ctx by auto
  obtain r st' k' where h: "parse_stream_ctl_start st k = Some ((r, st'), k')" "parse_base st'" "keeps st st'"
    using parse_stream_ctl_start_ok [OF b m, of k] at(1) [of e_attrib_name] at(1) [of e_attrib_function] 10 ctx by auto
  show ?thesis using 10 h m ctx start_postI [OF h(2,3) run, of e r es] by (auto simp: keeps_def)
next
  case 11
  then obtain m where m: "cm_mixer (ps_cm st) = Some m" using ctx by auto
  obtain r st' k' where h: "parse_enable_start st k = Some ((r, st'), k')" "parse_base st'" "keeps st st'"
    using parse_enable_disable_start_ok [OF b m, of True k] at(1) [of e_attrib_path] 11 ctx
    by (auto simp: parse_enable_start_def)
  show ?thesis using 11 h m ctx start_postI [OF h(2,3) run, of e r es] by (auto simp: keeps_def)
next
  case 12
  then obtain m where m: "cm_mixer (ps_cm st) = Some m" using ctx by auto
  obtain r st' k' where h: "parse_disable_start st k = Some ((r, st'), k')" "parse_base st'" "keeps st st'"
    using parse_enable_disable_start_ok [OF b m, of False k] at(1) [of e_attrib_path] 12 ctx
    by (auto simp: parse_disable_start_def)
  show ?thesis using 12 h m ctx start_postI [OF h(2,3) run, of e r es] by (auto simp: keeps_def)
next
  case 13
  then obtain m where m: "cm_mixer (ps_cm st) = Some m" using ctx by auto
  obtain r st' k' where h: "parse_usecase_start E st k = Some ((r, st'), k')" "parse_base st'" "keeps st st'"
    "r = 0 \<Longrightarrow> cur_usecase st' \<noteq> None"
    using parse_usecase_start_ok [OF E b m, of k] at(1) [of e_attrib_name] 13 ctx by auto
  show ?thesis using 13 h m ctx start_postI [OF h(2,3) run, of e r es] by (auto simp: keeps_def)
next
  case 14
  then obtain m where m: "cm_mixer (ps_cm st) = Some m" using ctx by auto
  obtain r st' k' where h: "parse_case_start E st k = Some ((r, st'), k')" "parse_base st'" "keeps st st'"
    "r = 0 \<Longrightarrow> cur_scase st' \<noteq> None"
    using parse_case_start_ok [OF E b m, of k] at(1) [of e_attrib_name] 14 ctx by auto
  show ?thesis using 14 h m ctx start_postI [OF h(2,3) run, of e r es] by (auto simp: keeps_def)
next
  case 15
  then show ?thesis using start_ctl_ok [OF E b run _ ctx, of k] at ctx by simp
next
  case 16
  obtain r st' k' where h: "parse_codec_case_start E st k = Some ((r, st'), k')" "parse_base st'" "keeps st st'"
    using parse_codec_case_start_ok [OF E b, of k] at(1) [of e_attrib_name] at(1) [of e_attrib_file] 16 ctx by auto
  show ?thesis using 16 h ctx start_postI [OF h(2,3) run, of e r es] by (auto simp: keeps_def)
qed

text \<open>One end handler in its context.\<close>

lemma end_fn_ok:
  assumes E: "always_alloc E" and X: "\<And>f k. wait_open X wait f k \<noteq> None"
    and b: "parse_base st" and run: "stopped st = Running" and pe: "parse_error st = 0"
    and ctx: "ctx_ok (e # es) st"
  shows "\<exists>st' k'. end_fn E X wait e st k = Some ((0, st'), k') \<and> parse_base st' \<and> stack st' = stack st
    \<and> cm_mixer (ps_cm st') = cm_mixer (ps_cm st) \<and> ctx_ok es st'"
proof -
  have pop: "ctx_ok es st" using ctx by (cases "(e # es, st)" rule: ctx_ok.cases) auto
  have es: "es \<in> {[AH], [e_elem_device, AH], [e_elem_stream, AH], [e_elem_usecase, e_elem_stream, AH]}"
    if "e \<in> {e_elem_path, e_elem_device, e_elem_stream, e_elem_case, e_elem_usecase}"
    using ctx that by (cases "(e # es, st)" rule: ctx_ok.cases) (auto split: if_splits)
  have kp: "ctx_ok es st'" if "keeps st st'" "e \<in> {e_elem_path, e_elem_device, e_elem_stream, e_elem_case, e_elem_usecase}" for st'
    using es [OF that(2)] pop that(1) by (auto simp: keeps_def)
  have mx: "cm_mixer (ps_cm st) \<noteq> None" if "e \<in> {e_elem_path, e_elem_device, e_elem_stream, e_elem_case, e_elem_usecase}"
    using ctx that by (cases "(e # es, st)" rule: ctx_ok.cases) auto
  show ?thesis
  proof (cases e)
    case e_elem_path
    have "cur_path st \<noteq> None" using ctx e_elem_path by (cases "(e # es, st)" rule: ctx_ok.cases) auto
    then show ?thesis
      using parse_path_end_ok [OF b, of _ E k] mx kp e_elem_path by (fastforce simp: keeps_def)
  next
    case e_elem_device
    have "cur_device st \<noteq> None" using ctx e_elem_device by (cases "(e # es, st)" rule: ctx_ok.cases) auto
    then show ?thesis
      using parse_device_end_ok [OF b, of _ E k] mx kp e_elem_device by (fastforce simp: keeps_def)
  next
    case e_elem_stream
    have "cur_stream st \<noteq> None" using ctx e_elem_stream by (cases "(e # es, st)" rule: ctx_ok.cases) auto
    then show ?thesis
      using parse_stream_end_ok [OF b, of _ E k] mx kp e_elem_stream by (fastforce simp: keeps_def)
  next
    case e_elem_case
    have "cur_scase st \<noteq> None" using ctx e_elem_case by (cases "(e # es, st)" rule: ctx_ok.cases) auto
    then show ?thesis
      using parse_case_end_ok [OF b, of _ E k] mx kp e_elem_case by (fastforce simp: keeps_def)
  next
    case e_elem_usecase
    have "cur_usecase st \<noteq> None" using ctx e_elem_usecase by (cases "(e # es, st)" rule: ctx_ok.cases) auto
    then show ?thesis
      using parse_usecase_end_ok [OF b, of _ E k] mx kp e_elem_usecase by (fastforce simp: keeps_def)
  next
    case e_elem_codec_probe
    have c: "cur_probe st" "cm_mixer (ps_cm st) = None" "es = [AH]"
      using ctx e_elem_codec_probe by (cases "(e # es, st)" rule: ctx_ok.cases; auto)+
    then show ?thesis
      using parse_codec_probe_end_ok [OF E X b c(1) run c(2), of k] e_elem_codec_probe by auto
  qed (use b pe pop in auto)
qed

definition parse_inv :: "parse_state \<Rightarrow> bool" where
  "parse_inv st \<longleftrightarrow> parse_base st \<and> (parse_error st = 0 \<and> stopped st = Running \<longrightarrow> stack_ok st)"

lemma ctx_ok_frame [simp]:
  "ctx_ok es (st\<lparr>attribs := a\<rparr>) = ctx_ok es st" "ctx_ok es (st\<lparr>stack := s\<rparr>) = ctx_ok es st"
  "ctx_ok es (st\<lparr>parse_error := r\<rparr>) = ctx_ok es st"
  by (cases "(es, st)" rule: ctx_ok.cases; simp)+

lemma entry_ok_cong: "cm_mixer (ps_cm st') = cm_mixer (ps_cm st) \<Longrightarrow> entry_ok st' = entry_ok st"
  by (simp add: entry_ok_def fun_eq_iff)

lemma entry_ok_frame [simp]:
  "entry_ok (st\<lparr>parse_error := r\<rparr>) = entry_ok st" "entry_ok (st\<lparr>stack := s\<rparr>) = entry_ok st"
  by (simp_all add: entry_ok_def fun_eq_iff)

lemma stack_ok_error [simp]: "stack_ok (st\<lparr>parse_error := r\<rparr>) = stack_ok st"
  by (simp add: stack_ok_def)

lemma section_start_ok:
  assumes E: "always_alloc E" and law: "\<And>f. driver_law E f" and ev: "event_ok (Start n attrs)"
    and inv: "parse_inv st" and run: "stopped st = Running"
    and root: "parse_error st = 0 \<Longrightarrow> length (stack st) = 1 \<Longrightarrow> cm_mixer (ps_cm st) = None"
  shows "\<exists>st' k'. parse_section_start E A X n attrs st k = Some (st', k') \<and> parse_inv st' \<and> stopped st' = Running
    \<and> (parse_error st' = 0 \<longrightarrow> parse_error st = 0 \<and> length (stack st') = Suc (length (stack st)))"
proof (cases "parse_error st = 0")
  case False
  then show ?thesis using inv run by (simp add: parse_section_start_def)
next
  case pe: True
  have b: "parse_base st" and so: "stack_ok st" using inv run pe by (simp_all add: parse_inv_def)
  obtain en below where stk: "stack st = en # below" using so by (cases "stack st") (auto simp: stack_ok_def)
  let ?es = "map en_elem (butlast (stack st))"
  have ctx: "ctx_ok ?es st" using so by (simp add: stack_ok_def)
  have valid: "en_valid en = sub_elems st ?es"
    using so stk by (cases below) (auto simp: stack_ok_def sub_elems_def entry_ok_def)
  show ?thesis
  proof (cases "match_elem (en_valid en) n")
    case None
    then show ?thesis using stk pe b run by (simp add: parse_section_start_def parse_inv_def)
  next
    case (Some e)
    have e: "e \<in> set (sub_elems st ?es)" "el_name (elem_table e) = n"
      using match_elem_Some [OF Some] valid by simp_all
    note nx = next_elemI [OF ctx e(1)]
    have esl: "length ?es = length (stack st) - 1" by simp
    have "length ?es \<le> 4" using nx by cases auto
    then have len: "Suc (length below) < 6" unfolding esl using stk by simp
    let ?new = "\<lparr>en_elem = e, en_valid = valid_subelem (elem_table e)\<rparr>"
    let ?st1 = "st\<lparr>stack := ?new # stack st\<rparr>"
    obtain r st2 where ex: "extract_attribs ?st1 e attrs = (r, st2)" by (cases "extract_attribs ?st1 e attrs")
    then obtain vals where st2: "st2 = ?st1\<lparr>attribs := vals\<rparr>"
      by (auto simp: extract_attribs_def split: prod.splits)
    have b2: "parse_base st2" "stopped st2 = Running" "parse_error st2 = 0" "ctx_ok ?es st2"
      using b run pe ctx st2 by simp_all
    show ?thesis
    proof (cases "r = 0")
      case False
      then show ?thesis
        using stk pe Some len ex b2(1,2) by (simp add: parse_section_start_def parse_inv_def)
    next
      case True
      have "sub_elems st2 ?es = sub_elems st ?es" using st2 by (simp add: sub_elems_def split: list.split)
      then have nx2: "next_elem st2 ?es e" using next_elemI [OF b2(4)] e(1) by simp
      have l2: "length (stack st2) = length ?es + 2" unfolding esl using st2 stk by simp
      have at: "\<forall>i \<in> set (required_attribs (elem_table e)). attribs st2 i \<noteq> None"
        "\<forall>i v. attribs st2 i = Some v \<longrightarrow> length v < 2 ^ 31"
        "e = e_elem_ctl \<longrightarrow> fst (attrib_to_uint st2 e_attrib_index) \<noteq> - EINVAL"
        using extract_attribs_ok [OF ex [unfolded True] ev] e(2) by auto
      obtain r3 st3 k3 where sf: "start_fn E A X e st2 k = Some ((r3, st3), k3)" "start_post st2 ?es e r3 st3"
        using start_fn_ok [OF E law b2 nx2 l2, of A X k] at by blast
      have res: "parse_section_start E A X n attrs st k = Some (st3\<lparr>parse_error := r3\<rparr>, k3)"
        using stk pe Some len ex True sf(1) by (simp add: parse_section_start_def)
      have fin: "stack_ok st3 \<and> length (stack st3) = Suc (length (stack st))" if r3: "r3 = 0"
      proof (cases "e = e_elem_mixer")
        case False
        then have s3: "stack st3 = ?new # stack st" "cm_mixer (ps_cm st3) = cm_mixer (ps_cm st)" "ctx_ok (e # ?es) st3"
          using sf(2) r3 st2 by (simp_all add: start_post_def)
        have "length ?es = 0" if "e = AH" using nx that by cases auto
        then have "cm_mixer (ps_cm st) = None" if "e = AH" using root [OF pe] stk esl that by simp
        then have "entry_ok st ?new" by (auto simp: entry_ok_def)
        then show ?thesis using s3 so stk entry_ok_cong [OF s3(2)] by (simp add: stack_ok_def)
      next
        case mixer: True
        have es: "?es = [AH]" and m0: "cm_mixer (ps_cm st) = None" using nx mixer by (auto elim: next_elem.cases)
        obtain bot where bot: "below = [bot]" "en_elem en = AH"
          using es stk by (cases below; cases "tl below") auto
        have s3: "stack st3 = [?new, en\<lparr>en_valid := [e_elem_device, e_elem_stream]\<rparr>, bot]"
          "cm_mixer (ps_cm st3) \<noteq> None" "ctx_ok (e # ?es) st3"
          using sf(2) r3 mixer st2 stk bot by (simp_all add: start_post_def)
        then show ?thesis
          using so stk bot mixer es by (simp add: stack_ok_def entry_ok_def)
      qed
      then have "parse_inv (st3\<lparr>parse_error := r3\<rparr>)"
        using sf(2) by (simp add: parse_inv_def start_post_def)
      then show ?thesis using res sf(2) pe fin by (simp add: start_post_def)
    qed
  qed
qed

lemma section_end_ok:
  assumes E: "always_alloc E" and X: "\<And>f k. wait_open X wait f k \<noteq> None"
    and inv: "parse_inv st" and run: "stopped st = Running"
    and open_elem: "parse_error st = 0 \<Longrightarrow> 2 \<le> length (stack st)"
  shows "\<exists>st' k'. parse_section_end E X wait n st k = Some (st', k') \<and> parse_inv st'
    \<and> (parse_error st' = 0 \<longrightarrow> parse_error st = 0 \<and> Suc (length (stack st')) = length (stack st))"
proof (cases "parse_error st = 0")
  case False
  then show ?thesis using inv by (simp add: parse_section_end_def)
next
  case pe: True
  have b: "parse_base st" and so: "stack_ok st" using inv run pe by (simp_all add: parse_inv_def)
  obtain en en2 rest where stk: "stack st = en # en2 # rest"
    using open_elem [OF pe] by (cases "stack st"; cases "tl (stack st)") auto
  let ?es = "map en_elem (butlast (en2 # rest))"
  have ctx: "ctx_ok (en_elem en # ?es) st" using so stk by (simp add: stack_ok_def)
  obtain st1 k1 where ef: "end_fn E X wait (en_elem en) st k = Some ((0, st1), k1)" "parse_base st1"
    "stack st1 = stack st" "cm_mixer (ps_cm st1) = cm_mixer (ps_cm st)" "ctx_ok ?es st1"
    using end_fn_ok [OF E X b run pe ctx, of k] by blast
  let ?st' = "st1\<lparr>parse_error := 0, stack := tl (stack st1)\<rparr>"
  have "stack_ok ?st'"
    using so stk ef(3,5) entry_ok_cong [OF ef(4)] by (simp add: stack_ok_def)
  then have "parse_inv ?st'" using ef(2) by (simp add: parse_inv_def)
  then show ?thesis using pe stk ef(1,3) by (simp add: parse_section_end_def)
qed

section \<open>Documents\<close>

text \<open>
  The callbacks of a well-formed document, which the XML library guarantees: tags are
  balanced and there is one root element. The state is the depth and whether the root was closed.
\<close>

fun doc_step :: "xml_event \<Rightarrow> nat \<times> bool \<Rightarrow> (nat \<times> bool) option" where
  "doc_step (Start n attrs) (d, closed) = (if closed then None else Some (Suc d, False))"
| "doc_step (End n) (d, closed) = (if d = 0 then None else Some (d - 1, d = 1))"

definition doc_inv :: "nat \<times> bool \<Rightarrow> parse_state \<Rightarrow> bool" where
  "doc_inv dc st \<longleftrightarrow> parse_inv st \<and> (parse_error st = 0 \<and> stopped st = Running \<longrightarrow>
     length (stack st) = Suc (fst dc) \<and> (fst dc = 0 \<and> \<not> snd dc \<longrightarrow> cm_mixer (ps_cm st) = None))"

lemma doc_event_ok:
  assumes E: "always_alloc E" and law: "\<And>f. driver_law E f" and X: "\<And>f k. wait_open X wait f k \<noteq> None"
    and ev: "event_ok ev" and inv: "doc_inv dc st" and step: "doc_step ev dc = Some dc'"
  shows "\<exists>st' k'. parse_event E A X wait ev (st, k) = Some (st', k') \<and> doc_inv dc' st'"
proof (cases "stopped st = Running")
  case False
  then show ?thesis using inv by (cases ev) (auto simp: doc_inv_def)
next
  case run: True
  obtain d cl where dc: "dc = (d, cl)" by (cases dc)
  show ?thesis
  proof (cases ev)
    case (Start n attrs)
    have ncl: "\<not> cl" "dc' = (Suc d, False)" using step Start dc by (auto split: if_splits)
    have "parse_error st = 0 \<Longrightarrow> length (stack st) = 1 \<Longrightarrow> cm_mixer (ps_cm st) = None"
      using inv run dc ncl by (simp add: doc_inv_def)
    then obtain st' k' where "parse_section_start E A X n attrs st k = Some (st', k')" "parse_inv st'"
      "stopped st' = Running"
      "parse_error st' = 0 \<Longrightarrow> parse_error st = 0 \<and> length (stack st') = Suc (length (stack st))"
      using section_start_ok [OF E law _ _ run, of n attrs A X k] ev Start inv by (auto simp: doc_inv_def)
    then show ?thesis using Start run inv dc ncl by (auto simp: doc_inv_def)
  next
    case (End n)
    have d: "d \<noteq> 0" "dc' = (d - 1, d = 1)" using step End dc by (auto split: if_splits)
    have "parse_error st = 0 \<Longrightarrow> 2 \<le> length (stack st)" using inv run dc d by (simp add: doc_inv_def)
    then obtain st' k' where "parse_section_end E X wait n st k = Some (st', k')" "parse_inv st'"
      "parse_error st' = 0 \<Longrightarrow> parse_error st = 0 \<and> Suc (length (stack st')) = length (stack st)"
      using section_end_ok [OF E X _ run, of n k] inv by (auto simp: doc_inv_def)
    then show ?thesis using End run inv dc d by (auto simp: doc_inv_def)
  qed
qed

lemma doc_events_ok:
  assumes "always_alloc E" and "\<And>f. driver_law E f" and "\<And>f k. wait_open X wait f k \<noteq> None"
  shows "list_all event_ok evs \<Longrightarrow> doc_inv dc st \<Longrightarrow> run_steps doc_step evs dc = Some dc' \<Longrightarrow>
    \<exists>st' k'. run_steps (parse_event E A X wait) evs (st, k) = Some (st', k') \<and> doc_inv dc' st'"
proof (induction evs arbitrary: dc st k)
  case (Cons ev evs)
  obtain dc1 where d1: "doc_step ev dc = Some dc1" "run_steps doc_step evs dc1 = Some dc'"
    using Cons.prems(3) by (auto elim: bind_SomeE)
  obtain st1 k1 where "parse_event E A X wait ev (st, k) = Some (st1, k1)" "doc_inv dc1 st1"
    using doc_event_ok [OF assms _ Cons.prems(2) d1(1), of A k] Cons.prems(1) by auto
  then show ?case using Cons.IH [of dc1 st1 k1] Cons.prems(1) d1(2) by auto
qed simp

definition document_ok :: "xml_chunk list \<Rightarrow> bool" where
  "document_ok chunks \<longleftrightarrow> list_all event_ok (concat (map events chunks))
     \<and> run_steps doc_step (concat (map events chunks)) (0, False) \<noteq> None"

lemma parse_chunks_ok:
  assumes "always_alloc E" and "\<And>f. driver_law E f" and "\<And>f k. wait_open X wait f k \<noteq> None"
  shows "list_all event_ok (concat (map events cs)) \<Longrightarrow> doc_inv dc st \<Longrightarrow>
    run_steps doc_step (concat (map events cs)) dc \<noteq> None \<Longrightarrow>
    \<exists>r st' k'. parse_chunks E A X wait cs st k = Some ((r, st'), k') \<and> parse_base st'"
proof (induction cs arbitrary: dc st k)
  case Nil
  then show ?case by (simp add: doc_inv_def parse_inv_def)
next
  case (Cons c cs)
  have b: "parse_base st" using Cons.prems(2) by (simp add: doc_inv_def parse_inv_def)
  obtain dc1 where d1: "run_steps doc_step (events c) dc = Some dc1"
    "run_steps doc_step (concat (map events cs)) dc1 \<noteq> None"
    using Cons.prems(3) by (auto simp: run_steps_append elim!: bind_SomeE)
  obtain st1 k1 where e: "run_steps (parse_event E A X wait) (events c) (st, k) = Some (st1, k1)" "doc_inv dc1 st1"
    using doc_events_ok [OF assms _ Cons.prems(2) d1(1), of A k] Cons.prems(1) by auto
  have "parse_base st1" using e(2) by (simp add: doc_inv_def parse_inv_def)
  then show ?case
    using Cons.IH [OF _ e(2) d1(2), of k1] Cons.prems(1) b e(1) by simp
qed

text \<open>The state in which a file is read: what the previous file may have left is harmless.\<close>

lemma do_parse_ok:
  assumes "always_alloc E" and "\<And>f. driver_law E f" and "\<And>f k. wait_open X wait f k \<noteq> None"
    and b: "parse_base st" and m: "cm_mixer (ps_cm st) = None" and doc: "document_ok cs"
  shows "\<exists>r st' k'. do_parse E A X wait cs st k = Some ((r, st'), k') \<and> parse_base st'"
proof -
  let ?st = "st\<lparr>parse_error := 0, stack := [\<lparr>en_elem = e_elem_ctl, en_valid = [e_elem_audiohal]\<rparr>]\<rparr>"
  have "doc_inv (0, False) ?st" using b m by (simp add: doc_inv_def parse_inv_def stack_ok_def)
  then show ?thesis
    using parse_chunks_ok [OF assms(1-3), of cs "(0, False)" ?st A k] doc
    by (simp add: do_parse_def document_ok_def)
qed

section \<open>The whole configuration\<close>

lemma config_loop_ok:
  assumes A: "always_alloc E" "\<And>f. driver_law E f" "\<And>f k. wait_open X wait f k \<noteq> None"
    and docs: "\<And>f. document_ok (x_chunks X f)"
  shows "config_loop E A X wait fuel st k = Some ((r, st'), k') \<Longrightarrow> (\<And>x. parse_base (st\<lparr>cur_xml_file := Some x\<rparr>)) \<Longrightarrow>
    cm_mixer (ps_cm st) = None \<Longrightarrow> parse_base st'"
proof (induction fuel arbitrary: st k)
  case (Suc fuel)
  obtain ro nm st1 k1 where op: "open_config_file E X st (new_xml_file st) k = ((ro, nm, st1), k1)"
    by (cases "open_config_file E X st (new_xml_file st) k") auto
  obtain k0 where "sys_alloc E k = (True, k0)" using A(1) by (rule always_allocE)
  then obtain cur where st1: "st1 = st\<lparr>cur_xml_file := Some cur\<rparr>"
    using op by (auto simp: open_config_file_def split: prod.splits option.splits)
  have b1: "parse_base st1" and m1: "cm_mixer (ps_cm st1) = None" using st1 Suc.prems(2,3) by simp_all
  show ?case
  proof (cases "ro = 0")
    case False
    then show ?thesis using Suc.prems(1) op b1 by simp
  next
    case True
    let ?st2 = "if new_xml_file st1 \<noteq> None
        then st1\<lparr>probe_file := None, stopped := Running, new_xml_file := None\<rparr> else st1"
    have b2: "parse_base ?st2" "cm_mixer (ps_cm ?st2) = None"
      using b1 m1 by (auto simp: parse_base_def probe_ok_def)
    obtain r3 st3 k3 where dp: "do_parse E A X wait (x_chunks X nm) ?st2 k1 = Some ((r3, st3), k3)" "parse_base st3"
      using do_parse_ok [OF A b2 docs] by blast
    show ?thesis
    proof (cases "new_xml_file st3")
      case None
      then show ?thesis using Suc.prems(1) op True dp by (simp add: Let_def)
    next
      case (Some f)
      then have "cm_mixer (ps_cm st3) = None" using dp(2) by (simp add: parse_base_def probe_ok_def)
      moreover have "parse_base (st3\<lparr>cur_xml_file := Some x\<rparr>)" for x
        using dp(2) by (simp add: parse_base_def probe_ok_def)
      moreover have "config_loop E A X wait fuel st3 k3 = Some ((r, st'), k')"
        using Suc.prems(1) op True dp Some by (simp add: Let_def)
      ultimately show ?thesis using Suc.IH by blast
    qed
  qed
qed simp

lemma init_state_ok:
  assumes "init_state E (zero_state cm) k = ((r, st), k')" and "cm_mixer cm = None" and "parse_cm_ok cm"
  shows "parse_base (st\<lparr>cur_xml_file := Some x\<rparr>) \<and> cm_mixer (ps_cm st) = None"
proof -
  let ?z = "empty_array 0\<lparr>elem_size := sizeof_pointer\<rparr> :: string dyn_array"
  obtain r1 n1 k1 where 1: "add_path_name E ?z ''off'' k = ((r1, n1), k1)"
    by (cases "add_path_name E ?z ''off'' k") auto
  obtain r2 n2 k2 where 2: "add_path_name E n1 ''on'' k1 = ((r2, n2), k2)"
    by (cases "add_path_name E n1 ''on'' k1") auto
  have a1: "array_ok [] n1" using add_path_name_ok [OF _ 1] by simp
  have a2: "array_ok [] n2" using add_path_name_ok [OF a1 2] .
  show ?thesis
    using assms 1 2 a1 a2
    by (auto simp: init_state_def zero_state_def parse_base_def init_ctls_ok_def refs_ok_def probe_ok_def
        zero_path_def Let_def split: if_splits)
qed

lemma compress_config_mgr_ok:
  assumes "parse_cm_ok cm" and "compress_config_mgr E cm k = (cm', k')"
  shows "parse_cm_ok cm'"
proof -
  obtain da k1 where d: "dyn_array_fix E (device_array cm) k = (da, k1)"
    by (cases "dyn_array_fix E (device_array cm) k")
  obtain sa k2 where s: "dyn_array_fix E (stream_array cm) k1 = (sa, k2)"
    by (cases "dyn_array_fix E (stream_array cm) k1")
  have "array_ok zero_device (device_array cm)" "array_ok zero_stream (stream_array cm)"
    using assms(1) by (auto simp: parse_cm_ok_def cm_wf_def split: option.splits)
  note f = dyn_array_fix_elems [OF this(1) d] dyn_array_fix_elems [OF this(2) s]
  have "cm' = cm\<lparr>device_array := da, stream_array := sa\<rparr>"
    using assms(2) d s by (simp add: compress_config_mgr_def)
  then show ?thesis using assms(1) f by (auto simp: parse_cm_ok_def streams_idle_def cm_wf_def split: option.splits)
qed

lemma init_audio_config_ok:
  assumes A: "always_alloc E" "\<And>f. driver_law E f" "\<And>f k. wait_open X wait f k \<noteq> None"
    and docs: "\<And>f. document_ok (x_chunks X f)"
    and init: "init_audio_config E A X wait fuel k = Some (Some cm, k')"
  shows "parse_cm_ok cm"
proof -
  let ?cm0 = "\<lparr>cm_mixer = None, supported_output_devices = 0, supported_input_devices = 0,
           device_array = empty_array sizeof_device, stream_array = empty_array sizeof_stream\<rparr>"
  obtain k1 where a1: "sys_alloc E k = (True, k1)" using A(1) by (rule always_allocE)
  obtain k2 where a2: "sys_alloc E k1 = (True, k2)" using A(1) by (rule always_allocE)
  obtain r st k3 where ini: "init_state E (zero_state ?cm0) k2 = ((r, st), k3)"
    by (cases "init_state E (zero_state ?cm0) k2") auto
  have ok0: "parse_cm_ok ?cm0" by (simp add: parse_cm_ok_def)
  note st = init_state_ok [OF ini _ ok0]
  obtain ret cm1 k4 where pc: "parse_config_file E A X wait fuel ?cm0 k1 = Some ((ret, cm1), k4)" "ret = 0"
    and cmp: "fst (compress_config_mgr E cm1 k4) = cm"
    using init a1
    by (auto simp: init_audio_config_def new_config_mgr_def elim!: bind_SomeE split: if_splits prod.splits)
  obtain r' st' k5 where cl: "config_loop E A X wait fuel st k3 = Some ((r', st'), k5)" and cm1: "cm1 = ps_cm st'"
    using pc a2 ini by (auto simp: parse_config_file_def elim!: bind_SomeE split: if_splits)
  have "parse_base st'" using config_loop_ok [OF A docs cl] st by simp
  then have "parse_cm_ok cm1" using cm1 by (simp add: parse_base_def)
  then show ?thesis using compress_config_mgr_ok [of cm1 E k4] cmp by (cases "compress_config_mgr E cm1 k4") auto
qed

end
