(* ===== verification/Parser_Props.thy ===== *)
theory Parser_Props
  imports Parser_Safety "HOL-Library.Code_Target_Numeral"
begin

text \<open>
  Properties of the configuration parser: path names are interned, numbers and attributes are
  read as the tables say, errors stop the parse, names and devices are unique, and every
  well-formed document is parsed without undefined behaviour into a well-formed configuration.
\<close>

section \<open>Path names\<close>

text \<open>
  An interning table: adding a name returns its identifier and gives a new identifier to a new
  name only. The clients are the path identifiers stored in paths and streams, which must keep
  their meaning while the table grows.
\<close>

fun add_all :: "('s \<Rightarrow> 'n \<Rightarrow> 'k \<Rightarrow> (int \<times> 's) \<times> 'k) \<Rightarrow> 'n list \<Rightarrow> 's \<Rightarrow> 'k \<Rightarrow> 's \<times> 'k" where
  "add_all add [] s k = (s, k)"
| "add_all add (n # ns) s k = (case add s n k of ((r, s'), k') \<Rightarrow> add_all add ns s' k')"

locale interner =
  fixes add :: "'s \<Rightarrow> 'n \<Rightarrow> 'k \<Rightarrow> (int \<times> 's) \<times> 'k"
    and find :: "'s \<Rightarrow> 'n \<Rightarrow> int"
    and names :: "'s \<Rightarrow> 'n list"
    and ok :: "'s \<Rightarrow> bool"
  assumes find_name: "ok s \<Longrightarrow> 0 \<le> find s n \<Longrightarrow> nat (find s n) < length (names s) \<and> names s ! nat (find s n) = n"
    and find_member: "ok s \<Longrightarrow> n \<in> set (names s) \<Longrightarrow> 0 \<le> find s n"
    and distinct_names: "ok s \<Longrightarrow> distinct (names s)"
    and add_extends: "ok s \<Longrightarrow> add s n k = ((r, s'), k') \<Longrightarrow>
       ok s' \<and> (\<exists>ext. names s' = names s @ ext) \<and> (0 \<le> r \<longrightarrow> n \<in> set (names s') \<and> r = find s' n)"
begin

lemma add_all_extends: "ok s \<Longrightarrow> add_all add ns s k = (s', k') \<Longrightarrow> ok s' \<and> (\<exists>ext. names s' = names s @ ext)"
proof (induction ns arbitrary: s k)
  case (Cons n ns)
  obtain r s1 k1 where a: "add s n k = ((r, s1), k1)" by (cases "add s n k") auto
  have "ok s1" "\<exists>ext. names s1 = names s @ ext" using add_extends [OF Cons.prems(1) a] by auto
  then show ?case using Cons.IH [of s1 k1] Cons.prems(2) a by auto
qed auto

lemma find_stable:
  assumes "ok s" and "0 \<le> find s n" and "ok s'" and "names s' = names s @ ext"
  shows "find s' n = find s n"
proof -
  have i: "nat (find s n) < length (names s)" "names s ! nat (find s n) = n"
    using find_name [OF assms(1,2)] by simp_all
  have "n \<in> set (names s')" using i assms(4) nth_mem [of "nat (find s n)" "names s"] by simp
  then have p: "0 \<le> find s' n" by (rule find_member [OF assms(3)])
  then have j: "nat (find s' n) < length (names s')" "names s' ! nat (find s' n) = n"
    using find_name [OF assms(3)] by simp_all
  have "names s' ! nat (find s n) = n" using i assms(4) by (simp add: nth_append)
  moreover have "nat (find s n) < length (names s')" using i(1) assms(4) by simp
  ultimately have "nat (find s' n) = nat (find s n)"
    using j nth_eq_iff_index_eq [OF distinct_names [OF assms(3)]] by metis
  then show ?thesis using p assms(2) by simp
qed

lemma add_then_find_later:
  assumes "ok s" and "add s n k = ((r, s1), k1)" and "0 \<le> r" and "add_all add ns s1 k1 = (s2, k2)"
  shows "find s2 n = r"
proof -
  have 1: "ok s1" "r = find s1 n" using add_extends [OF assms(1,2)] assms(3) by auto
  obtain ext where "ok s2" "names s2 = names s1 @ ext" using add_all_extends [OF 1(1) assms(4)] by blast
  then show ?thesis using find_stable [OF 1(1) _ \<open>ok s2\<close>, of n ext] 1(2) assms(3) by simp
qed

end

definition names_ok :: "string dyn_array \<Rightarrow> bool" where
  "names_ok a \<longleftrightarrow> array_ok [] a \<and> distinct (elems a)"

lemma find_name_loop_member: "i < n \<Longrightarrow> xs ! i = x \<Longrightarrow> 0 \<le> find_name_loop xs x n"
  by (induction n) (auto simp: less_Suc_eq)

lemma find_path_name_name:
  assumes "names_ok a" and "0 \<le> find_path_name a n"
  shows "nat (find_path_name a n) < length (elems a) \<and> elems a ! nat (find_path_name a n) = n"
  using assms find_name_loop_range [of "elems a" n "unat (count a)"]
  by (auto simp: find_path_name_def names_ok_def length_elems [of "[]"])

lemma find_path_name_member:
  assumes "names_ok a" and "n \<in> set (elems a)"
  shows "0 \<le> find_path_name a n"
  using assms find_name_loop_member [of _ "unat (count a)" "elems a" n]
  by (auto simp: find_path_name_def names_ok_def in_set_conv_nth length_elems [of "[]"])

lemma find_path_name_unique:
  assumes "names_ok a" and "i < length (elems a)" and "elems a ! i = n"
  shows "find_path_name a n = int i"
proof -
  have p: "0 \<le> find_path_name a n" using find_path_name_member [OF assms(1)] assms by auto
  from find_path_name_name [OF assms(1) this] have "nat (find_path_name a n) = i"
    using assms nth_eq_iff_index_eq [of "elems a"] by (auto simp: names_ok_def)
  then show ?thesis using p by simp
qed

lemma add_path_name_extends:
  assumes ok: "names_ok a" and add: "add_path_name E a n k = ((r, a'), k')"
  shows "names_ok a' \<and> (\<exists>ext. elems a' = elems a @ ext) \<and> (0 \<le> r \<longrightarrow> n \<in> set (elems a') \<and> r = find_path_name a' n)"
proof (cases "find_path_name a n \<ge> 0")
  case True
  then show ?thesis
    using add ok find_path_name_name [OF ok True] nth_mem [of "nat (find_path_name a n)" "elems a"]
    by (auto simp: add_path_name_def)
next
  case False
  then have fresh: "n \<notin> set (elems a)" using find_path_name_member [OF ok] by auto
  obtain al k1 where a1: "sys_alloc E k = (al, k1)" by (cases "sys_alloc E k")
  obtain q a2 k2 where ne: "new_elem E [] (\<lambda>_. n) a k1 = ((q, a2), k2)" by (cases "new_elem E [] (\<lambda>_. n) a k1") auto
  have arr: "array_ok [] a" using ok by (simp add: names_ok_def)
  note sp = new_elem_spec [OF arr ne]
  show ?thesis
  proof (cases "al \<and> q \<noteq> None")
    case True
    then obtain i where q: "q = Some i" by blast
    have e2: "array_ok [] a2" "i = length (elems a)" "elems a2 = elems a @ [n]" using sp q by simp_all
    then have "names_ok a2" using ok fresh by (simp add: names_ok_def)
    then have "find_path_name a2 n = int i" using find_path_name_unique [of a2 i n] e2 by simp
    then show ?thesis
      using add False a1 True ne q e2 \<open>names_ok a2\<close> by (auto simp: add_path_name_def new_name_def)
  next
    case False2: False
    then have "r < 0" "elems a' = elems a" "array_ok [] a'"
      using add False a1 ne sp arr by (auto simp: add_path_name_def new_name_def split: if_splits)
    then show ?thesis using ok by (simp add: names_ok_def)
  qed
qed

lemma add_path_name_elems:
  assumes ok: "names_ok a" and add: "add_path_name E a n k = ((r, a'), k')" and r: "0 \<le> r"
  shows "elems a' = (if n \<in> set (elems a) then elems a else elems a @ [n])"
proof (cases "find_path_name a n \<ge> 0")
  case True
  then have "n \<in> set (elems a)"
    using find_path_name_name [OF ok True] nth_mem [of "nat (find_path_name a n)" "elems a"] by simp
  then show ?thesis using add True by (simp add: add_path_name_def)
next
  case False
  then have fresh: "n \<notin> set (elems a)" using find_path_name_member [OF ok] by auto
  have arr: "array_ok [] a" using ok by (simp add: names_ok_def)
  have "elems a2 = elems a @ [n]" if "new_elem E [] (\<lambda>_. n) a k1 = ((Some i, a2), k2)" for a2 i k1 k2
    using new_elem_spec [OF arr that] by simp
  then show ?thesis
    using add r False fresh
    by (auto simp: add_path_name_def new_name_def split: if_splits prod.splits option.splits)
qed

interpretation pathnames: interner "add_path_name E" find_path_name elems names_ok for E
proof (rule interner.intro, goal_cases)
  case (1 s n)
  then show ?case by (rule find_path_name_name)
next
  case (2 s n)
  then show ?case by (rule find_path_name_member)
next
  case (3 s)
  then show ?case by (simp add: names_ok_def)
next
  case (4 s n k r s' k')
  then show ?case by (rule add_path_name_extends)
qed

text \<open>
  Path names are interned: the identifier returned for a name is found again under that
  name however many names the rest of the file adds, and different names never share one.
\<close>

theorem path_name_ids:
  assumes "names_ok a" and "add_path_name E a n k = ((r, a1), k1)" and "0 \<le> r"
    and "add_all (add_path_name E) ns a1 k1 = (a2, k2)"
  shows "find_path_name a2 n = r \<and> (\<forall>n'. n' \<noteq> n \<longrightarrow> find_path_name a2 n' \<noteq> r)"
proof -
  have f: "find_path_name a2 n = r" using pathnames.add_then_find_later [OF assms] .
  have "names_ok a1" using pathnames.add_extends [OF assms(1,2)] by simp
  then have ok2: "names_ok a2" using pathnames.add_all_extends [OF _ assms(4)] by simp
  have "n' = n" if "find_path_name a2 n' = r" for n'
    using pathnames.find_name [OF ok2, of n] pathnames.find_name [OF ok2, of n'] f that assms(3) by simp
  then show ?thesis using f by blast
qed

text \<open>The table that \<^verbatim>\<open>init_state\<close> fills before a file is read.\<close>

lemma path_name_ids_witness:
  "find_path_name (fst (add_all (add_path_name (demo_card [])) [''mono''] (array_of [''off'', ''on'']) demo_state)) ''on'' = 1"
proof -
  have ok: "names_ok (array_of [''off'', ''on''])" by (simp add: names_ok_def)
  have add: "add_path_name (demo_card []) (array_of [''off'', ''on'']) ''on'' demo_state
      = ((1, array_of [''off'', ''on'']), demo_state)"
    using find_path_name_unique [OF ok, of 1 "''on''"] by (simp add: add_path_name_def)
  obtain a2 k2 where r: "add_all (add_path_name (demo_card [])) [''mono''] (array_of [''off'', ''on'']) demo_state = (a2, k2)"
    by (cases "add_all (add_path_name (demo_card [])) [''mono''] (array_of [''off'', ''on'']) demo_state")
  show ?thesis using path_name_ids [OF ok add _ r] r by simp
qed

text \<open>
  The names "off" and "on" have the fixed identifiers 0 and 1 on which the routing code
  relies: whenever \<^verbatim>\<open>init_state\<close> succeeds, its table maps them to \<^verbatim>\<open>e_path_id_off\<close> and
  \<^verbatim>\<open>e_path_id_on\<close>.
\<close>

theorem predefined_path_ids:
  assumes "init_state E (zero_state cm) k = ((r, st), k')" and "0 \<le> r"
  shows "find_path_name (path_names st) ''off'' = e_path_id_off
    \<and> find_path_name (path_names st) ''on'' = e_path_id_on \<and> names_ok (path_names st)"
proof -
  let ?z = "empty_array 0\<lparr>elem_size := sizeof_pointer\<rparr> :: string dyn_array"
  have z: "names_ok ?z" "elems ?z = []" by (simp_all add: names_ok_def)
  obtain r1 n1 k1 where 1: "add_path_name E ?z ''off'' k = ((r1, n1), k1)"
    by (cases "add_path_name E ?z ''off'' k") auto
  obtain r2 n2 k2 where 2: "add_path_name E n1 ''on'' k1 = ((r2, n2), k2)"
    by (cases "add_path_name E n1 ''on'' k1") auto
  have r: "0 \<le> r1" "0 \<le> r2" "path_names st = n2"
    using assms 1 2 by (auto simp: init_state_def zero_state_def Let_def split: if_splits)
  have n1: "names_ok n1" "elems n1 = [''off'']"
    using add_path_name_extends [OF z(1) 1] add_path_name_elems [OF z(1) 1 r(1)] z(2) by simp_all
  have n2: "names_ok n2" "elems n2 = [''off'', ''on'']"
    using add_path_name_extends [OF n1(1) 2] add_path_name_elems [OF n1(1) 2 r(2)] n1(2) by simp_all
  show ?thesis
    using find_path_name_unique [OF n2(1), of 0] find_path_name_unique [OF n2(1), of 1] n2 r(3) by simp
qed

lemma predefined_path_ids_witness:
  "\<exists>st k'. init_state (demo_card []) (zero_state demo_cm) demo_state = ((0, st), k')
     \<and> find_path_name (path_names st) ''on'' = 1"
proof -
  obtain st k' where i: "init_state (demo_card []) (zero_state demo_cm) demo_state = ((0, st), k')"
    by (simp add: init_state_def zero_state_def add_path_name_def find_path_name_def new_name_def new_elem_def
        dyn_array_extend_def empty_array_def demo_card_def elems_def set_elem_def Let_def word_less_nat_alt)
  then show ?thesis using predefined_path_ids [OF i] by simp
qed

section \<open>Numbers and attributes\<close>

text \<open>
  Numbers are read back as printed: \<^verbatim>\<open>string_to_uint\<close> accepts the decimal form of every
  32-bit number and yields that number, a missing attribute gives \<^verbatim>\<open>-ENOENT\<close>, and a string
  with anything after the digits gives \<^verbatim>\<open>-EINVAL\<close> and stores nothing.
\<close>

theorem string_to_uint_spec:
  "string_to_uint (Some (dec_digits (unat w))) = (0, Some w)
   \<and> string_to_uint None = (- ENOENT, None)
   \<and> (snd (strtoul0 s) \<noteq> [] \<or> s = [] \<longrightarrow> string_to_uint (Some s) = (- EINVAL, None))"
proof -
  have "unat w < 2 ^ 32" using unsigned_less [of w, where ?'a = nat] by simp
  then have "strtoul0 (dec_digits (unat w)) = (w, [])" using strtoul0_dec_digits [of "unat w"] by simp
  then have "string_to_uint (Some (dec_digits (unat w))) = (0, Some w)"
    using not_sym [OF dec_digits_nonempty] by (simp add: string_to_uint_def word_le_nat_alt) (use \<open>unat w < 2 ^ 32\<close> in simp)
  moreover have "string_to_uint (Some s) = (- EINVAL, None)" if "snd (strtoul0 s) \<noteq> [] \<or> s = []"
    using that by (auto simp: string_to_uint_def split: prod.splits)
  ultimately show ?thesis by (simp add: string_to_uint_def [of None])
qed

lemma string_to_uint_spec_witness: "string_to_uint (Some []) = (- EINVAL, None)"
  using string_to_uint_spec [of 0 "[]"] by simp

text \<open>
  Attribute extraction: it succeeds exactly when every attribute of the tag is one that
  the element allows and every required one is present; on success an attribute has the value
  of its last occurrence in the tag, and an attribute that is absent or not allowed is NULL.
\<close>

theorem extract_attribs_spec:
  "\<exists>st'. extract_attribs st e attrs =
      (if (\<forall>(n, v) \<in> set attrs. n \<in> attrib_table ` set (valid_attribs (elem_table e)))
          \<and> (\<forall>i \<in> set (required_attribs (elem_table e)). attrib_table i \<in> fst ` set attrs)
       then 0 else - EINVAL, st')
    \<and> ((\<forall>(n, v) \<in> set attrs. n \<in> attrib_table ` set (valid_attribs (elem_table e)))
        \<and> (\<forall>i \<in> set (required_attribs (elem_table e)). attrib_table i \<in> fst ` set attrs) \<longrightarrow>
       (\<forall>i. attribs st' i = (if i \<in> set (valid_attribs (elem_table e))
          then map_of (rev attrs) (attrib_table i) else None)))"
proof -
  let ?va = "valid_attribs (elem_table e)" and ?rq = "required_attribs (elem_table e)"
  obtain r vals where l: "extract_loop ?va attrs (\<lambda>_. None) ?rq = (r, vals)"
    by (cases "extract_loop ?va attrs (\<lambda>_. None) ?rq")
  have eq: "(\<exists>v. (attrib_table i, v) \<in> set attrs) \<longleftrightarrow> attrib_table i \<in> fst ` set attrs" for i by force
  have o: "(case x of None \<Rightarrow> None | Some v \<Rightarrow> Some v) = x" for x :: "string option" by (cases x) auto
  note res = extract_loop_result [OF l, unfolded eq o]
  have r: "r = (if (\<forall>(n, v) \<in> set attrs. n \<in> attrib_table ` set ?va)
      \<and> (\<forall>i \<in> set ?rq. attrib_table i \<in> fst ` set attrs) then 0 else - EINVAL)"
    by (rule conjunct1 [OF res])
  have v: "r = 0 \<longrightarrow> (\<forall>i. vals i = (if i \<in> set ?va then map_of (rev attrs) (attrib_table i) else None))"
    by (rule conjunct2 [OF res])
  have "extract_attribs st e attrs = (r, st\<lparr>attribs := vals\<rparr>)" using l by (simp add: extract_attribs_def)
  then show ?thesis using r v by auto
qed

lemma extract_attribs_spec_witness:
  "\<exists>st'. extract_attribs (zero_state demo_cm) e_elem_ctl [(''name'', ''a''), (''val'', ''1'')] = (0, st')
     \<and> attribs st' e_attrib_val = Some ''1''"
  using extract_attribs_spec [of "zero_state demo_cm" e_elem_ctl "[(''name'', ''a''), (''val'', ''1'')]"] by auto

section \<open>Errors\<close>

text \<open>
  (C40) The first error ends the parse: once \<^verbatim>\<open>parse_error\<close> is set, no later tag of the file
  calls a handler or changes the parser's state or the configuration, and no further chunk of
  the file is read.
\<close>

theorem parse_error_sticky:
  assumes "parse_error st \<noteq> 0"
  shows "run_steps (parse_event E A X wait) evs (st, k) = Some (st, k)
    \<and> parse_chunks E A X wait cs st k = Some ((0, st), k)"
proof -
  have "parse_event E A X wait ev (st, k) = Some (st, k)" for ev
    using assms by (cases ev) (simp_all add: parse_section_start_def parse_section_end_def)
  then have "run_steps (parse_event E A X wait) evs (st, k) = Some (st, k)"
    by (induction evs) simp_all
  then show ?thesis using assms by (cases cs) simp_all
qed

section \<open>An example file\<close>

definition demo_document :: "xml_event list" where
  "demo_document =
     [Start ''audiohal'' [],
        Start ''mixer'' [(''card'', ''0'')],
          Start ''init'' [], Start ''ctl'' [(''name'', ''Volume''), (''val'', ''5'')], End ''ctl'', End ''init'',
        End ''mixer'',
        Start ''device'' [(''name'', ''speaker'')],
          Start ''path'' [(''name'', ''on'')],
            Start ''ctl'' [(''name'', ''Volume''), (''val'', ''80'')], End ''ctl'',
          End ''path'',
        End ''device'',
        Start ''stream'' [(''name'', ''music''), (''type'', ''pcm''), (''dir'', ''out''), (''rate'', ''44100'')],
          Start ''enable'' [(''path'', ''on'')], End ''enable'',
        End ''stream'',
      End ''audiohal'']"

definition demo_files :: "xml_event list \<Rightarrow> card_state xenv" where
  "demo_files evs = \<lparr>x_fopen = (\<lambda>f k. (True, k)), x_fgets = (\<lambda>f k. (Some ''wm5102'', k)),
     x_chunks = (\<lambda>f. [\<lparr>io_error = False, events = evs, xml_error = False\<rparr>]),
     x_product = ''mocha'', x_junk = 0\<rparr>"

lemma parse_error_sticky_witness:
  "\<exists>st :: parse_state. parse_error st = - EINVAL
     \<and> run_steps (parse_event (demo_card []) demo_audio_h (demo_files []) 1) [Start ''audiohal'' []] (st, demo_state)
       = Some (st, demo_state)"
  by (intro exI [of _ "zero_state demo_cm\<lparr>parse_error := - EINVAL\<rparr>"] conjI
      conjunct1 [OF parse_error_sticky]) simp_all

lemma demo_document_ok: "document_ok (x_chunks (demo_files demo_document) f)"
  by (simp add: document_ok_def demo_files_def demo_document_def event_ok_def)

lemma demo_always_alloc: "always_alloc (demo_card infos)"
  by (simp add: always_alloc_def demo_card_def)

lemma demo_driver_law: "driver_law (demo_card [demo_volume]) f"
  by (rule driver_law_demo) (simp_all add: elem_limit_def demo_simps)

lemma demo_wait_open: "wait_open (demo_files evs) 1 f k \<noteq> None"
  by (simp add: demo_files_def)

definition demo_new_cm :: config_mgr where
  "demo_new_cm = \<lparr>cm_mixer = None, supported_output_devices = 0, supported_input_devices = 0,
     device_array = empty_array sizeof_device, stream_array = empty_array sizeof_stream\<rparr>"

lemma demo_parse_base: "parse_base (zero_state demo_new_cm\<lparr>cur_xml_file := Some ''audio.mocha.xml''\<rparr>)"
  by (simp add: parse_base_def zero_state_def demo_new_cm_def parse_cm_ok_def init_ctls_ok_def refs_ok_def
      probe_ok_def zero_path_def)

section \<open>Whole files\<close>

text \<open>
  (C3) Parsing is safe and total: when memory does not run out, the driver keeps its law and the
  codec probe file appears, every well-formed document whose \<^verbatim>\<open><ctl>\<close> indices are numbers is
  read to the end without undefined behaviour (no NULL dereference through the parser's
  \<^verbatim>\<open>current\<close> pointers, no stack overrun, no access outside a table), whatever its elements and
  attributes are, and leaves a well-formed configuration and parser state.
\<close>

theorem do_parse_safe:
  assumes "always_alloc E" and "\<And>f. driver_law E f" and "\<And>f k. wait_open X wait f k \<noteq> None"
    and "parse_base st" and "cm_mixer (ps_cm st) = None" and "document_ok cs"
  shows "\<exists>r st' k'. do_parse E A X wait cs st k = Some ((r, st'), k') \<and> parse_base st'"
  using do_parse_ok [OF assms] .

lemma do_parse_safe_witness:
  "\<exists>r st' k'. do_parse (demo_card [demo_volume]) demo_audio_h (demo_files demo_document) 1
     (x_chunks (demo_files demo_document) [])
     (zero_state demo_new_cm\<lparr>cur_xml_file := Some ''audio.mocha.xml''\<rparr>) demo_state = Some ((r, st'), k')
     \<and> parse_base st'"
  by (rule do_parse_safe [OF demo_always_alloc demo_driver_law demo_wait_open demo_parse_base _ demo_document_ok])
    (simp add: zero_state_def demo_new_cm_def)

section \<open>Devices and streams\<close>

text \<open>
  The \<^verbatim>\<open><device>\<close> tag on every branch: an unknown name and a device all of whose bits are
  already declared are refused and change nothing; otherwise, when memory suffices, one device
  of that type with no user and no path is appended, becomes the current one, and its bits are
  added to the supported devices of its direction only.
\<close>

theorem parse_device_start_result:
  assumes E: "always_alloc E" and ok: "array_ok zero_device (device_array (ps_cm st))"
    and space: "length (elems (device_array (ps_cm st))) < 65520" and name: "attribs st e_attrib_name = Some n"
  shows "case parse_match_device A n of
      None \<Rightarrow> parse_device_start E A st k = Some ((- EINVAL, st), k)
    | Some flag \<Rightarrow>
        let cm = ps_cm st; input = (flag AND AUDIO_DEVICE_BIT_IN A \<noteq> 0);
            old = (if input then supported_input_devices cm else supported_output_devices cm)
        in if flag \<noteq> 0 \<and> flag AND old = flag then parse_device_start E A st k = Some ((- EINVAL, st), k)
           else \<exists>st' k' d. parse_device_start E A st k = Some ((0, st'), k')
             \<and> elems (device_array (ps_cm st')) = elems (device_array cm) @ [d]
             \<and> cur_device st' = Some (length (elems (device_array cm)))
             \<and> d_type d = flag \<and> use_count d = 0 \<and> elems (path_array d) = []
             \<and> supported_input_devices (ps_cm st') = supported_input_devices cm OR (if input then flag else 0)
             \<and> supported_output_devices (ps_cm st') = supported_output_devices cm OR (if input then 0 else flag)"
proof (cases "parse_match_device A n")
  case None
  then show ?thesis using name by (simp add: parse_device_start_def)
next
  case (Some flag)
  have al: "\<And>k. fst (sys_alloc E k)" using E by (simp add: always_alloc_def)
  let ?f = "\<lambda>d. d\<lparr>path_array := (path_array d)\<lparr>elem_size := sizeof_path\<rparr>, d_type := flag\<rparr>"
  obtain arr k1 where nd: "new_device E (device_array (ps_cm st)) flag k
      = ((Some (length (elems (device_array (ps_cm st)))), arr), k1)"
    "elems arr = elems (device_array (ps_cm st)) @ [?f zero_device]"
    unfolding new_device_def by (rule new_elem_appends [OF al ok space, where f = ?f and k = k]) blast
  have z: "use_count zero_device = 0" "elems (path_array zero_device) = []" "\<And>s. elems (a\<lparr>elem_size := s\<rparr>) = elems a"
    for a :: "path dyn_array"
    by (simp_all add: zero_device_def elems_def empty_array_def)
  show ?thesis using Some name nd z by (auto simp: parse_device_start_def Let_def)
qed

lemma parse_device_start_result_witness:
  "\<exists>st' k' d. parse_device_start (demo_card []) demo_audio_h
       (zero_state demo_new_cm\<lparr>attribs := (\<lambda>_. Some ''speaker'')\<rparr>) demo_state = Some ((0, st'), k')
     \<and> elems (device_array (ps_cm st')) = [d] \<and> d_type d = 2 \<and> supported_output_devices (ps_cm st') = 2"
  using parse_device_start_result [OF demo_always_alloc,
      of "zero_state demo_new_cm\<lparr>attribs := (\<lambda>_. Some ''speaker'')\<rparr>" "''speaker''" "[]" demo_audio_h demo_state]
  by (auto simp: zero_state_def demo_new_cm_def parse_match_device_def device_table_def demo_audio_h_def Let_def)

lemma find_named_loop_append:
  "find_named_loop name i ss = None \<Longrightarrow> s_name s = Some name \<Longrightarrow>
   find_named_loop name i (ss @ [s]) = Some (i + length ss)"
  by (induction ss arbitrary: i) (auto split: option.splits if_splits)

text \<open>
  Stream names are unique: a \<^verbatim>\<open><stream>\<close> tag whose name is already taken is refused with
  \<^verbatim>\<open>-EINVAL\<close> and changes nothing, and a stream that the tag does create carries a name no other
  stream has, so \<^verbatim>\<open>get_named_stream\<close> finds that stream.
\<close>

theorem parse_stream_start_names:
  assumes E: "always_alloc E" and ok: "array_ok zero_stream (stream_array (ps_cm st))"
    and name: "attribs st e_attrib_name = Some n"
    and res: "parse_stream_start E X st k = Some ((r, st'), k')"
  shows "(find_named_stream (ps_cm st) n \<noteq> None \<longrightarrow> r = - EINVAL \<and> st' = st)
    \<and> (r = 0 \<longrightarrow> find_named_stream (ps_cm st) n = None
         \<and> find_named_stream (ps_cm st') n = Some (length (elems (stream_array (ps_cm st)))))"
proof -
  let ?f = "\<lambda>s. s\<lparr>usecase_array := (usecase_array s)\<lparr>elem_size := sizeof_usecase\<rparr>,
            enable_path := - 1, disable_path := - 1,
            volume_left := (volume_left s)\<lparr>v_id := UINT_MAX\<rparr>,
            volume_right := (volume_right s)\<lparr>v_id := UINT_MAX\<rparr>\<rparr>"
  let ?ss = "elems (stream_array (ps_cm st))"
  obtain k1 where sd: "strdup E (Some n) k = Some (Some n, k1)" using strdup_alloc [OF E, of "Some n" k] by auto
  obtain q arr k2 where n: "new_elem E zero_stream ?f (stream_array (ps_cm st)) k1 = ((q, arr), k2)"
    by (cases "new_elem E zero_stream ?f (stream_array (ps_cm st)) k1") auto
  note sp = new_elem_spec [OF ok n]
  show ?thesis
  proof (cases "find_named_stream (ps_cm st) n")
    case (Some j)
    then show ?thesis using res name sd by (simp add: parse_stream_start_def)
  next
    case None
    have "\<exists>s. elems (stream_array (ps_cm st')) = ?ss @ [s] \<and> s_name s = Some n" if "r = 0"
    proof (cases q)
      case None
      then show ?thesis
        using res name sd \<open>find_named_stream (ps_cm st) n = None\<close> n that by (simp add: parse_stream_start_def new_stream_def Let_def)
    next
      case (Some i)
      then have i: "i = length ?ss" "elems arr = ?ss @ [?f zero_stream]" "array_ok zero_stream arr" using sp by auto
      then have lt: "i < unat (count arr)" using length_elems [OF i(3)] by simp
      show ?thesis
        using res name sd \<open>find_named_stream (ps_cm st) n = None\<close> n that Some i lt
        by (auto simp: parse_stream_start_def new_stream_def Let_def put_stream_def put_stream_at_def
            elim!: bind_SomeE split: option.splits prod.splits if_splits)
    qed
    then show ?thesis using None find_named_loop_append [of n 0 ?ss] by (auto simp: find_named_stream_def)
  qed
qed

lemma parse_stream_start_names_witness:
  "\<exists>st' k'. parse_stream_start (demo_card []) (demo_files []) (zero_state demo_new_cm\<lparr>attribs :=
       (\<lambda>_. None)(e_attrib_name := Some ''music'', e_attrib_type := Some ''pcm'', e_attrib_dir := Some ''out'')\<rparr>)
       demo_state = Some ((0, st'), k') \<and> find_named_stream (ps_cm st') ''music'' = Some 0"
proof -
  let ?st = "zero_state demo_new_cm\<lparr>attribs :=
       (\<lambda>_. None)(e_attrib_name := Some ''music'', e_attrib_type := Some ''pcm'', e_attrib_dir := Some ''out'')\<rparr>"
  obtain st' k' where r: "parse_stream_start (demo_card []) (demo_files []) ?st demo_state = Some ((0, st'), k')"
    by (simp add: parse_stream_start_def strdup_def new_stream_def new_elem_def dyn_array_extend_def demo_card_def
        zero_state_def demo_new_cm_def empty_array_def find_named_stream_def elems_def parse_direction_def stream_kind_def
        attrib_to_uint_def string_to_uint_def stored_def Let_def word_less_nat_alt)
  have "elems (stream_array (ps_cm ?st)) = []" by (simp add: zero_state_def demo_new_cm_def)
  then show ?thesis
    using parse_stream_start_names [OF demo_always_alloc _ _ r, of "''music''"] r
    by (simp add: zero_state_def demo_new_cm_def)
qed

text \<open>
  Trimming: \<^verbatim>\<open>probe_trim_spaces\<close> removes white space from both ends of the line and
  nothing else, so what is left is empty or starts and ends with another character.
\<close>

theorem probe_trim_spaces_spec:
  "\<exists>a b. str = a @ probe_trim_spaces str @ b \<and> list_all isspace a \<and> list_all isspace b
     \<and> (probe_trim_spaces str = [] \<or> \<not> isspace (hd (probe_trim_spaces str)) \<and> \<not> isspace (last (probe_trim_spaces str)))"
proof -
  let ?s = "dropWhile isspace str"
  have a: "str = takeWhile isspace str @ ?s" "list_all isspace (takeWhile isspace str)"
    by (simp, auto simp: list_all_iff dest: set_takeWhileD)
  show ?thesis
  proof (cases ?s)
    case Nil
    then show ?thesis
      using a by (intro exI [of _ "takeWhile isspace str"] exI [of _ "[]"]) (auto simp: probe_trim_spaces_def list_all_iff)
  next
    case (Cons c s)
    let ?t = "rev (dropWhile isspace (rev s))" and ?b = "rev (takeWhile isspace (rev s))"
    have c: "\<not> isspace c" using hd_dropWhile [of isspace str] Cons by simp
    have s: "s = ?t @ ?b" by (simp flip: rev_append)
    have b: "list_all isspace ?b" by (auto simp: list_all_iff dest: set_takeWhileD)
    have "\<not> isspace (last (c # ?t))"
      using c hd_dropWhile [of isspace "rev s"] by (auto simp: last_rev)
    moreover have "probe_trim_spaces str = c # ?t" using Cons by (simp add: probe_trim_spaces_def)
    ultimately show ?thesis
      using a b c s Cons by (intro exI [of _ "takeWhile isspace str"] exI [of _ ?b]) simp
  qed
qed

section \<open>Redirection by the codec probe\<close>

text \<open>
  Choosing the configuration file: the first \<^verbatim>\<open><case>\<close> whose name is the trimmed line of
  the probe file decides. Without one parsing goes on; a case that names the file being read is
  refused and aborts the XML parser; any other file is remembered as the next one to parse and
  suspends the parser.
\<close>

theorem probe_config_file_result:
  assumes E: "always_alloc E" and cases: "list_all (\<lambda>cc. cc_name cc \<noteq> None \<and> cc_file cc \<noteq> None) (elems (codec_cases st))"
    and open_file: "probe_file st = Some pf" "wait_open X wait pf k = Some k1" "x_fgets X pf k1 = (Some line, k2)"
    and cur: "cur_xml_file st = Some cur"
  shows "\<exists>k'. probe_config_file E X wait st k = Some ((
     case find (\<lambda>cc. cc_name cc = Some (probe_trim_spaces line)) (elems (codec_cases st)) of
       None \<Rightarrow> (0, st\<lparr>new_xml_file := None\<rparr>)
     | Some cc \<Rightarrow> if cc_file cc = Some cur then (- EINVAL, st\<lparr>new_xml_file := None, stopped := Aborted\<rparr>)
                 else (0, st\<lparr>new_xml_file := cc_file cc, stopped := Suspended\<rparr>)), k')"
proof -
  let ?c = "probe_trim_spaces line"
  have f: "list_all (\<lambda>cc. cc_name cc \<noteq> None \<and> cc_file cc \<noteq> None) ccs \<Longrightarrow>
      find_codec ?c ccs = Some (find (\<lambda>cc. cc_name cc = Some ?c) ccs)
      \<and> (\<forall>cc. find (\<lambda>cc. cc_name cc = Some ?c) ccs = Some cc \<longrightarrow> cc_file cc \<noteq> None)" for ccs
    by (induction ccs) auto
  show ?thesis
  proof (cases "find (\<lambda>cc. cc_name cc = Some ?c) (elems (codec_cases st))")
    case None
    then show ?thesis using f [OF cases] open_file by (simp add: probe_config_file_def Let_def)
  next
    case (Some cc)
    then obtain nf where nf: "cc_file cc = Some nf" using f [OF cases] by blast
    obtain k3 where "strdup E (Some nf) k2 = Some (Some nf, k3)" using strdup_alloc [OF E, of "Some nf" k2] by auto
    then show ?thesis using Some nf f [OF cases] open_file cur by (simp add: probe_config_file_def Let_def)
  qed
qed

lemma probe_config_file_result_witness:
  "\<exists>k'. probe_config_file (demo_card []) (demo_files []) 1
     (zero_state demo_new_cm\<lparr>probe_file := Some ''codec'', cur_xml_file := Some ''a.xml'',
        codec_cases := array_of [\<lparr>cc_name = Some ''wm5102'', cc_file = Some ''b.xml''\<rparr>]\<rparr>) demo_state
   = Some ((0, zero_state demo_new_cm\<lparr>probe_file := Some ''codec'', cur_xml_file := Some ''a.xml'',
        codec_cases := array_of [\<lparr>cc_name = Some ''wm5102'', cc_file = Some ''b.xml''\<rparr>],
        new_xml_file := Some ''b.xml'', stopped := Suspended\<rparr>), k')"
proof -
  have t: "probe_trim_spaces ''wm5102'' = ''wm5102''" by code_simp
  show ?thesis
    using probe_config_file_result [OF demo_always_alloc, of "zero_state demo_new_cm\<lparr>probe_file := Some ''codec'', cur_xml_file := Some ''a.xml'',
        codec_cases := array_of [\<lparr>cc_name = Some ''wm5102'', cc_file = Some ''b.xml''\<rparr>]\<rparr>"
        "''codec''" "demo_files []" 1 demo_state demo_state "''wm5102''" demo_state "''a.xml''" "[]"]
    by (simp add: demo_files_def t)
qed

end
