(* ===== verification/Hal_Results.thy ===== *)
theory Hal_Results
  imports Hal_Safety Parser_Props
begin

text \<open>
  What the HAL promises the framework: from a freshly opened device the calls return, and every configured stream has as many
  references as clients hold on it.
\<close>

section \<open>The device after opening\<close>

lemma adev_open_config:
  assumes laws: "always_alloc E" "\<And>f. driver_law E f" "\<And>f k. wait_open X wait f k \<noteq> None"
      "\<And>f. document_ok (x_chunks X f)"
    and op: "adev_open E A H X wait fuel name k = Some ((0, Some adev), k')" and m: "cm_mixer (adev_cm adev) \<noteq> None"
  shows "\<exists>cm k1 k2 g cm1 k3. sys_alloc E k = (True, k1) \<and> init_audio_config E A X wait fuel k1 = Some (Some cm, k2)
    \<and> get_named_stream E cm ''global'' k2 = Some ((g, cm1), k3)
    \<and> adev = voice_trigger_init ((zero_adev cm1)\<lparr>global_stream := g\<rparr>)
    \<and> cm_mixer cm \<noteq> None \<and> parse_cm_ok cm"
proof -
  obtain cm k1 k2 g cm1 k3 where al: "sys_alloc E k = (True, k1)" and init: "init_audio_config E A X wait fuel k1 = Some (Some cm, k2)"
    and g: "get_named_stream E cm ''global'' k2 = Some ((g, cm1), k3)"
    and adev: "adev = voice_trigger_init ((zero_adev cm1)\<lparr>global_stream := g\<rparr>)"
    using op by (auto simp: adev_open_def elim!: bind_SomeE split: if_splits prod.splits option.splits)
  have ok: "parse_cm_ok cm" by (rule init_audio_config_ok [OF laws init])
  have "cm_mixer cm \<noteq> None"
  proof
    assume n: "cm_mixer cm = None"
    then have "find_named_stream cm ''global'' = None"
      using ok find_named_stream_bound [of cm "''global''"] by (cases "find_named_stream cm ''global''") (auto simp: parse_cm_ok_def)
    then show False using n g m adev by (simp add: get_named_stream_def voice_trigger_init_def zero_adev_def)
  qed
  then show ?thesis using al init g adev ok by blast
qed

lemma adev_open_ok:
  assumes laws: "always_alloc E" "\<And>f. driver_law E f" "\<And>f k. wait_open X wait f k \<noteq> None"
      "\<And>f. document_ok (x_chunks X f)"
    and op: "adev_open E A H X wait fuel name k = Some ((0, Some adev), k')" and m: "cm_mixer (adev_cm adev) \<noteq> None"
  shows "adev_ok adev \<and> (\<forall>i < nstreams (adev_cm adev). refs (adev_cm adev) i = one_at (global_stream adev) i)
    \<and> (\<forall>i. voice_held adev i = 0)"
proof -
  obtain cm k2 g cm1 k3 where g: "get_named_stream E cm ''global'' k2 = Some ((g, cm1), k3)"
    and adev: "adev = voice_trigger_init ((zero_adev cm1)\<lparr>global_stream := g\<rparr>)"
    and ok: "parse_cm_ok cm" "cm_mixer cm \<noteq> None" using adev_open_config [OF assms] by blast
  then have wf: "cm_wf cm" "streams_idle cm" using ok by (auto simp: parse_cm_ok_def)
  have ch: "refs_change cm cm1 (one_at g)" and gi: "in_table cm g"
    using get_named_stream_refs [OF wf(1), of E "''global''" k2] g by (auto simp: in_table_def)
  have "refs cm i = 0" if "i < nstreams cm" for i
    using wf(2) that by (auto simp: refs_def streams_idle_def get_stream_at_def list_all_length)
  then have "\<forall>i < nstreams cm1. refs cm1 i = one_at g i"
    using ch by (auto simp: refs_change_def)
  moreover have "adev_ok adev"
    using adev refs_changeD(1) [OF ch] in_table_change [OF ch] gi
    by (auto simp: adev_ok_def voice_trigger_init_def zero_adev_def)
  ultimately show ?thesis
    using adev by (auto simp: voice_trigger_init_def zero_adev_def voice_held_def holding_def)
qed

definition fresh_hal :: "audio_device \<Rightarrow> hal" where
  "fresh_hal adev = \<lparr>h_adev = adev, h_outs = [], h_ins = []\<rparr>"

lemma fresh_hal_ok: "adev_ok adev \<Longrightarrow> hal_ok (fresh_hal adev)"
  by (simp add: hal_ok_def fresh_hal_def)

lemma fresh_hal_held: "hal_held (fresh_hal adev) i = voice_held adev i"
  by (simp add: hal_held_def fresh_hal_def)

text \<open>An open stream is one of the holders.\<close>

lemma holds_nonneg [simp]: "0 \<le> out_holds i x" "0 \<le> in_holds i y" "0 \<le> voice_held adev i"
  by (auto simp: out_holds_def in_holds_def voice_held_def one_at_def split: option.splits)

lemma sum_holds_nonneg [simp]: "0 \<le> sum_list (map (out_holds i) xs)" "0 \<le> sum_list (map (in_holds i) ys)"
  by (auto intro!: sum_list_nonneg)

lemma member_le_sum: "(\<And>y. 0 \<le> f y) \<Longrightarrow> x \<in> set xs \<Longrightarrow> f x \<le> sum_list (map f xs)" for f :: "'a \<Rightarrow> int"
  by (rule member_le_sum_list) auto

lemma one_at_nonneg: "0 \<le> one_at r i"
  by (simp add: one_at_def split: option.split)

lemma hal_held_out: "out_at h j = Some out \<Longrightarrow> 1 \<le> hal_held h (out_hw out)"
proof -
  let ?i = "out_hw out"
  assume "out_at h j = Some out"
  then have "Some out \<in> set (h_outs h)" by (metis out_at_Some nth_mem)
  then have "out_holds ?i (Some out) \<le> sum_list (map (out_holds ?i) (h_outs h))" by (rule member_le_sum [rotated]) simp
  then show ?thesis
    using sum_holds_nonneg(2) [of ?i "h_ins h"] holds_nonneg(3) [of "h_adev h" ?i]
    unfolding hal_held_def by (simp add: out_holds_def del: holds_nonneg sum_holds_nonneg)
qed

lemma hal_held_in: "in_at h j = Some inp \<Longrightarrow> i_hw inp = Some i \<Longrightarrow> 1 \<le> hal_held h i"
proof -
  assume a: "in_at h j = Some inp" "i_hw inp = Some i"
  then have "Some inp \<in> set (h_ins h)" by (metis in_at_Some nth_mem)
  then have "in_holds i (Some inp) \<le> sum_list (map (in_holds i) (h_ins h))" by (rule member_le_sum [rotated]) simp
  then show ?thesis
    using sum_holds_nonneg(1) [of i "h_outs h"] holds_nonneg(3) [of "h_adev h" i] a(2)
    unfolding hal_held_def by (simp add: in_holds_def del: holds_nonneg sum_holds_nonneg)
qed

text \<open>The books of any run that has a result, whatever the streams of the configuration are.\<close>

lemma hal_run_books:
  assumes laws: "always_alloc (he_sys V)" "\<And>f. driver_law (he_sys V) f" "\<And>f k. wait_open X wait f k \<noteq> None"
      "\<And>f. document_ok (x_chunks X f)" "resample_law (he_resample V)"
    and op: "adev_open (he_sys V) (he_audio V) (he_lib V) X wait fuel0 name k = Some ((0, Some adev), k1)"
    and m: "cm_mixer (adev_cm adev) \<noteq> None"
    and run: "run_steps (hal_step V fuel) calls (fresh_hal adev, k1) = Some (h, k2)"
  shows "hal_ok h
    \<and> (\<forall>i < nstreams (adev_cm (h_adev h)). hal_held h i + one_at (global_stream adev) i \<le> refs (adev_cm (h_adev h)) i)
    \<and> (\<forall>j out. out_at h j = Some out \<longrightarrow> 1 \<le> refs (adev_cm (h_adev h)) (out_hw out))
    \<and> (\<forall>j inp i. in_at h j = Some inp \<longrightarrow> i_hw inp = Some i \<longrightarrow> 1 \<le> refs (adev_cm (h_adev h)) i)
    \<and> (tidy_run (hal_step V fuel) (\<lambda>s e. \<not> forgetful V s e) calls (fresh_hal adev, k1) \<longrightarrow>
       (\<forall>i < nstreams (adev_cm (h_adev h)). refs (adev_cm (h_adev h)) i = hal_held h i + one_at (global_stream adev) i))"
proof -
  note a = adev_open_ok [OF laws(1-4) op m]
  have inv: "hal_ok (fst (fresh_hal adev, k1)) \<and> resample_law (he_resample V)"
    using a fresh_hal_ok laws(5) by simp
  have ok: "hal_ok h" using hal.run_inv [of "(fresh_hal adev, k1)" V fuel calls] inv run by fastforce
  have size: "nstreams (adev_cm (h_adev h)) = nstreams (adev_cm adev)"
    using hal.run_size [OF inv run] by (simp add: fresh_hal_def)
  have cov: "hal_held h i + one_at (global_stream adev) i \<le> refs (adev_cm (h_adev h)) i"
    if "i < nstreams (adev_cm adev)" for i
    using hal.run_covers [OF inv run, of i] that a by (simp add: fresh_hal_def hal_held_def)
  have exact: "refs (adev_cm (h_adev h)) i = hal_held h i + one_at (global_stream adev) i"
    if "i < nstreams (adev_cm adev)" and "tidy_run (hal_step V fuel) (\<lambda>s e. \<not> forgetful V s e) calls (fresh_hal adev, k1)" for i
    using hal.run_exact [OF inv run, of i] that a by (simp add: fresh_hal_def hal_held_def)
  have pos: "1 \<le> refs (adev_cm (h_adev h)) i" if "1 \<le> hal_held h i" "i < nstreams (adev_cm (h_adev h))" for i
    using cov [of i] that size one_at_nonneg [of "global_stream adev" i] by linarith
  have out: "1 \<le> refs (adev_cm (h_adev h)) (out_hw out)" if "out_at h j = Some out" for j out
    by (rule pos [OF hal_held_out [OF that] hal_ok_out [OF ok that]])
  have inp: "1 \<le> refs (adev_cm (h_adev h)) i" if "in_at h j = Some inp" "i_hw inp = Some i" for j inp i
    using pos [OF hal_held_in [OF that]] hal_ok_in [OF ok that(1)] that(2) by simp
  show ?thesis using ok cov exact out inp size by simp
qed

text \<open>
  (C2) The reference counts of the HAL as a whole, on a configuration whose streams are PCM streams with a rate. Let \<^verbatim>\<open>adev_open\<close>
  have returned a device with a mixer, from well-formed files and a card whose driver numbers its elements as the mixer expects, with enough memory
  and the codec's probe file in place. Let the driver grant only buffers that are not empty and have fewer than $2^{31}$ frames and report at most
  $m$ overruns in a row, let the resampler work through its provider alone and deliver frames whenever it can read, and let the library parse
  parameters, count at most 32 channels and keep the bit of input devices out of the output devices. Then every
  sequence of legal calls of the framework returns: opening outputs with a rate and inputs with real sizes, writing, reading, standby, volume and
  parameters of open streams, closing them, and parameters of the device with its voice trigger. Afterwards every open stream has a reference on an existing
  configured stream, and the counts cover what the open streams, the voice trigger and the global stream hold, so that no stream in use is
  switched off by closing another. They are exactly that as long as no
  call forgets a reference (a failing open, or a second start of the voice trigger while it is fired).
\<close>

theorem hal_refs_covered:
  assumes laws: "always_alloc (he_sys V)" "\<And>f. driver_law (he_sys V) f" "\<And>f k. wait_open X wait f k \<noteq> None"
      "\<And>f. document_ok (x_chunks X f)" "hal_laws V left m"
    and fuel: "m < fuel" "2 \<le> fuel"
    and op: "adev_open (he_sys V) (he_audio V) (he_lib V) X wait fuel0 name k = Some ((0, Some adev), k1)"
    and mixer: "cm_mixer (adev_cm adev) \<noteq> None" and pcm: "pcm_only (adev_cm adev)"
    and legal: "tidy_run (hal_step V fuel) (legal_hal V fuel) calls (fresh_hal adev, k1)"
  shows "\<exists>h k2. run_steps (hal_step V fuel) calls (fresh_hal adev, k1) = Some (h, k2) \<and> hal_ok h
    \<and> (\<forall>i < nstreams (adev_cm (h_adev h)). hal_held h i + one_at (global_stream adev) i \<le> refs (adev_cm (h_adev h)) i)
    \<and> (\<forall>j out. out_at h j = Some out \<longrightarrow> 1 \<le> refs (adev_cm (h_adev h)) (out_hw out))
    \<and> (\<forall>j inp i. in_at h j = Some inp \<longrightarrow> i_hw inp = Some i \<longrightarrow> 1 \<le> refs (adev_cm (h_adev h)) i)
    \<and> (tidy_run (hal_step V fuel) (\<lambda>s e. \<not> forgetful V s e) calls (fresh_hal adev, k1) \<longrightarrow>
       (\<forall>i < nstreams (adev_cm (h_adev h)). refs (adev_cm (h_adev h)) i = hal_held h i + one_at (global_stream adev) i))"
proof -
  have "hal_ok (fresh_hal adev)" using adev_open_ok [OF laws(1-4) op mixer] fresh_hal_ok by blast
  then have "hal_safe V left m fuel (fresh_hal adev, k1)"
    using laws(5) fuel pcm by (simp add: hal_safe_def fresh_hal_def streams_ok_def)
  then obtain h k2 where run: "run_steps (hal_step V fuel) calls (fresh_hal adev, k1) = Some (h, k2)"
    using safe_hal.run_legal [OF _ legal] by (metis prod.exhaust)
  from hal_run_books [OF laws(1-4) hal_lawsD(3) [OF laws(5)] op mixer run] run show ?thesis by blast
qed

definition demo_config_in :: audio_config where
  "demo_config_in = \<lparr>ac_sample_rate = 44100, ac_channel_mask = 3, ac_format = 1\<rparr>"

definition demo_open_hal :: "((int \<times> audio_device option) \<times> card_state) option" where
  "demo_open_hal = adev_open (demo_card [demo_volume]) demo_audio_h demo_lib (demo_files demo_document) 1 1 ''audio_hw_if'' demo_state"

text \<open>The example libraries with a resampler that always delivers.\<close>

definition demo_safe_env :: "card_state hal_env" where
  "demo_safe_env = demo_env\<lparr>he_resample := demo_slow_resample\<rparr>"

lemma demo_safe_env_simps:
  "he_sys demo_safe_env = demo_card [demo_volume]" "he_audio demo_safe_env = demo_audio_h" "he_lib demo_safe_env = demo_lib"
  "he_resample demo_safe_env = demo_slow_resample" "he_pcm demo_safe_env = demo_card_psys"
  by (simp_all only: demo_safe_env_def demo_env_def hal_env.select_convs hal_env.update_convs)

lemma demo_slow_resample_law: "resample_law demo_slow_resample"
  unfolding resample_law_def demo_slow_resample_def by (intro allI impI) (auto split: option.splits; blast)

lemma demo_hal_laws: "hal_laws demo_safe_env (\<lambda>_. 0) 0"
proof -
  have "overruns_end demo_card_psys (\<lambda>_. 0) 0" by (simp add: overruns_end_def demo_card_psys_def)
  moreover have "AUDIO_DEVICE_OUT_ALL demo_audio_h AND AUDIO_DEVICE_BIT_IN demo_audio_h = 0" by code_simp
  ultimately show ?thesis
    unfolding hal_laws_def demo_safe_env_simps using demo_psys_laws demo_slow_resample_law demo_resample_progress by (simp add: demo_lib_def)
qed

definition demo_opened :: "((int \<times> hal) \<times> card_state) option \<Rightarrow> bool" where
  "demo_opened r = (case r of None \<Rightarrow> False | Some ((_, h), _) \<Rightarrow> map_option out_hw (out_at h 0) = Some 0)"

definition demo_open_ok :: "int \<times> audio_device option \<Rightarrow> card_state \<Rightarrow> bool" where
  "demo_open_ok x k \<longleftrightarrow> fst x = 0 \<and> (case snd x of None \<Rightarrow> False | Some adev \<Rightarrow>
     \<not> Option.is_none (cm_mixer (adev_cm adev)) \<and> pcm_only (adev_cm adev) \<and>
     demo_opened (adev_open_output_stream demo_safe_env (fresh_hal adev) 2 demo_config_in k))"

lemma demo_hal_run: "case demo_open_hal of None \<Rightarrow> False | Some (x, k) \<Rightarrow> demo_open_ok x k"
  by code_simp

lemma demo_config:
  "\<exists>cm k'. init_audio_config (demo_card [demo_volume]) demo_audio_h (demo_files demo_document) 1 1 demo_state
     = Some (Some cm, k') \<and> cm_mixer cm \<noteq> None"
proof -
  obtain adev k where "demo_open_hal = Some ((0, Some adev), k)" and m: "cm_mixer (adev_cm adev) \<noteq> None"
    using demo_hal_run by (cases demo_open_hal) (auto simp: demo_open_ok_def Option.is_none_def split: option.splits)
  from adev_open_config [OF demo_always_alloc demo_driver_law demo_wait_open demo_document_ok
      this(1) [unfolded demo_open_hal_def] m]
  show ?thesis by (auto simp: demo_card_def)
qed

lemma hal_refs_covered_witness:
  "\<exists>adev k h k' out. demo_open_hal = Some ((0, Some adev), k)
     \<and> run_steps (hal_step demo_safe_env 3) [Open_output 2 demo_config_in, Out_write 0 [1, 2, 3, 4] 4, Set_mic_mute True]
         (fresh_hal adev, k) = Some (h, k')
     \<and> hal_ok h \<and> out_at h 0 = Some out \<and> 1 \<le> refs (adev_cm (h_adev h)) (out_hw out)"
proof -
  let ?calls = "[Open_output 2 demo_config_in, Out_write 0 [1, 2, 3, 4] 4, Set_mic_mute True]"
  obtain adev k where op: "demo_open_hal = Some ((0, Some adev), k)" and m: "cm_mixer (adev_cm adev) \<noteq> None" "pcm_only (adev_cm adev)"
    and r: "demo_opened (adev_open_output_stream demo_safe_env (fresh_hal adev) 2 demo_config_in k)"
    using demo_hal_run by (cases demo_open_hal) (auto simp: demo_open_ok_def Option.is_none_def split: option.splits)
  obtain x h1 k1 out where o: "adev_open_output_stream demo_safe_env (fresh_hal adev) 2 demo_config_in k = Some ((x, h1), k1)"
    and o1: "out_at h1 0 = Some out"
    using r by (auto simp: demo_opened_def split: option.splits)
  have stay: "\<exists>out2. out_at h2 0 = Some out2" if "on_out h1 0 f g k1 = Some (h2, k2)" for h2 k2 f g
    using that o1 by (auto simp: on_out_def put_out_def out_at_def split: option.splits out_stream.splits if_splits)
  have legal: "tidy_run (hal_step demo_safe_env 3) (legal_hal demo_safe_env 3) ?calls (fresh_hal adev, k)"
    using o o1 by (simp add: demo_config_in_def split: option.split)
  obtain h k' where run: "run_steps (hal_step demo_safe_env 3) ?calls (fresh_hal adev, k) = Some (h, k')" and ok: "hal_ok h"
    and refs: "\<And>j out. out_at h j = Some out \<Longrightarrow> 1 \<le> refs (adev_cm (h_adev h)) (out_hw out)"
    using hal_refs_covered [where V = demo_safe_env and X = "demo_files demo_document" and wait = 1 and m = 0 and fuel = 3,
        unfolded demo_safe_env_simps, OF demo_always_alloc demo_driver_law demo_wait_open demo_document_ok demo_hal_laws _ _
        op [unfolded demo_open_hal_def] m legal] by auto
  obtain h2 k2 where w: "hal_step demo_safe_env 3 (Out_write 0 [1, 2, 3, 4] 4) (h1, k1) = Some (h2, k2)" "h_outs h = h_outs h2"
    using run o by (auto simp del: hal_step.simps(3) elim!: bind_SomeE)
  have "out_at h 0 = out_at h2 0" by (simp add: out_at_def w(2))
  then obtain out2 where "out_at h 0 = Some out2" using stay [OF w(1) [unfolded hal_step.simps(3)]] by auto
  then show ?thesis using op run ok refs by blast
qed

end
