(* ===== verification/Sensor_Queue.thy ===== *)
theory Sensor_Queue
  imports Mocha_Prelude "HOL-Library.Signed_Division"
begin

text \<open>
  The event queue of the sensor HAL (sensors/SensorEventQueue.cpp): a ring of fixed capacity with one
  writer and one reader. The queue's mutex makes every step below atomic; the writer gives it up only while it
  waits for space. Shown: the ring is a bounded first-in first-out queue, whatever the interleaving of the writer and
  the reader, and a waiting writer is never forgotten.
\<close>

section \<open>The ring\<close>

text \<open>\<^verbatim>\<open>int\<close> arithmetic of the ring; a result outside the type is undefined.\<close>

definition in_int :: "int \<Rightarrow> bool" where
  "in_int x \<longleftrightarrow> - (2 ^ 31) \<le> x \<and> x < 2 ^ 31"

record 'e SensorEventQueue =
  mCapacity :: int
  mStart :: int
  mSize :: int
  mPendingSize :: int
  mData :: "'e list"

text \<open>The array that \<^verbatim>\<open>new\<close> returns holds unspecified events, here \<open>junk\<close>.\<close>

definition new_SensorEventQueue :: "'e \<Rightarrow> int \<Rightarrow> 'e SensorEventQueue" where
  "new_SensorEventQueue junk capacity =
     \<lparr>mCapacity = capacity, mStart = 0, mSize = 0, mPendingSize = 0, mData = replicate (nat capacity) junk\<rparr>"

text \<open>
  The length and the index of the first element of the region; \<^verbatim>\<open>NULL\<close> is \<open>None\<close>. A remainder by zero and
  an index outside the array are undefined.
\<close>

definition getWritableRegion :: "'e SensorEventQueue \<Rightarrow> int \<Rightarrow> (int \<times> int option) option" where
  "getWritableRegion q requestedLength =
     (if mSize q = mCapacity q \<or> requestedLength \<le> 0 then Some (0, None)
      else if mCapacity q = 0 then None
      else
        let firstWritable = (mStart q + mSize q) smod mCapacity q;
            last0 = firstWritable + requestedLength - 1
        in if \<not> in_int (firstWritable + requestedLength) \<or> \<not> in_int last0 then None
           else
             let last1 = (if last0 > mCapacity q - 1 then mCapacity q - 1 else last0);
                 last2 = (if firstWritable < mStart q \<and> last1 \<ge> mStart q then mStart q - 1 else last1)
             in if 0 \<le> firstWritable \<and> firstWritable < int (length (mData q))
                then Some (last2 - firstWritable + 1, Some firstWritable) else None)"

definition markAsWritten :: "'e SensorEventQueue \<Rightarrow> int \<Rightarrow> 'e SensorEventQueue" where
  "markAsWritten q count = q\<lparr>mSize := mSize q + count\<rparr>"

definition getSize :: "'e SensorEventQueue \<Rightarrow> int" where
  "getSize q = mSize q"

definition getPendingSize :: "'e SensorEventQueue \<Rightarrow> int" where
  "getPendingSize q = mSize q + mPendingSize q"

text \<open>The first readable event, undefined outside the array.\<close>

definition peek :: "'e SensorEventQueue \<Rightarrow> 'e option option" where
  "peek q =
     (if mSize q = 0 then Some None
      else if 0 \<le> mStart q \<and> mStart q < int (length (mData q)) then Some (Some (mData q ! nat (mStart q)))
      else None)"

text \<open>The queue after a removal, and whether the condition \<^verbatim>\<open>mSpaceAvailableCondition\<close> is broadcast.\<close>

definition dequeue :: "'e SensorEventQueue \<Rightarrow> (bool \<times> 'e SensorEventQueue) option" where
  "dequeue q =
     (if mSize q = 0 then Some (False, q)
      else if mCapacity q = 0 then None
      else Some (mSize q = mCapacity q, q\<lparr>mSize := mSize q - 1, mStart := (mStart q + 1) smod mCapacity q\<rparr>))"

text \<open>\<^verbatim>\<open>memcpy\<close> of \<open>n\<close> events to position \<open>at\<close>, undefined outside either array; nothing is copied to \<^verbatim>\<open>NULL\<close>.\<close>

definition copy_events :: "'e list \<Rightarrow> int option \<Rightarrow> 'e list \<Rightarrow> int \<Rightarrow> 'e list option" where
  "copy_events dst at evs n =
     (case at of
        None \<Rightarrow> if n = 0 then Some dst else None
      | Some i \<Rightarrow>
          if 0 \<le> i \<and> 0 \<le> n \<and> n \<le> int (length evs) \<and> i + n \<le> int (length dst)
          then Some (take (nat i) dst @ take (nat n) evs @ drop (nat (i + n)) dst) else None)"

text \<open>
  One iteration of the loop of \<^verbatim>\<open>write\<close> after \<^verbatim>\<open>waitForSpace\<close> has returned; \<open>evs\<close> are the events that the
  pointer \<^verbatim>\<open>events\<close> has not passed.
\<close>

definition write_chunk :: "'e list \<times> 'e SensorEventQueue \<Rightarrow> ('e list \<times> 'e SensorEventQueue) option" where
  "write_chunk = (\<lambda>(evs, q). do {
     (chunk, destination) \<leftarrow> getWritableRegion q (mPendingSize q);
     dat \<leftarrow> copy_events (mData q) destination evs chunk;
     let q1 = markAsWritten (q\<lparr>mData := dat\<rparr>) chunk;
     Some (drop (nat chunk) evs, q1\<lparr>mPendingSize := mPendingSize q1 - chunk\<rparr>)
   })"

text \<open>
  \<^verbatim>\<open>write\<close> as far as it runs without waiting: it stops when everything is written or the queue is
  full, in which case it waits.
\<close>

definition write_round ::
  "'e list \<times> 'e SensorEventQueue \<Rightarrow> ('e list \<times> 'e SensorEventQueue + 'e list \<times> 'e SensorEventQueue) option" where
  "write_round s =
     (if mPendingSize (snd s) \<le> 0 \<or> mSize (snd s) = mCapacity (snd s) then Some (Inr s)
      else map_option Inl (write_chunk s))"

definition write_until_full :: "nat \<Rightarrow> 'e list \<times> 'e SensorEventQueue \<Rightarrow> ('e list \<times> 'e SensorEventQueue) option" where
  "write_until_full fuel s = run_loop fuel write_round s"

definition write_events :: "nat \<Rightarrow> 'e SensorEventQueue \<Rightarrow> 'e list \<Rightarrow> ('e list \<times> 'e SensorEventQueue) option" where
  "write_events fuel q evs = write_until_full fuel (evs, q\<lparr>mPendingSize := int (length evs)\<rparr>)"

section \<open>The queue that the ring stands for\<close>

definition queue_ok :: "'e SensorEventQueue \<Rightarrow> bool" where
  "queue_ok q \<longleftrightarrow> 0 < mCapacity q \<and> mCapacity q < 2 ^ 30 \<and> int (length (mData q)) = mCapacity q
     \<and> 0 \<le> mStart q \<and> mStart q < mCapacity q \<and> 0 \<le> mSize q \<and> mSize q \<le> mCapacity q
     \<and> 0 \<le> mPendingSize q \<and> mPendingSize q < 2 ^ 30"

definition slot :: "'e SensorEventQueue \<Rightarrow> nat \<Rightarrow> nat" where
  "slot q i = (nat (mStart q) + i) mod nat (mCapacity q)"

definition contents :: "'e SensorEventQueue \<Rightarrow> 'e list" where
  "contents q = map (\<lambda>i. mData q ! slot q i) [0..<nat (mSize q)]"

lemma contents_length [simp]: "length (contents q) = nat (mSize q)"
  by (simp add: contents_def)

lemma smod_pos: "0 \<le> a \<Longrightarrow> 0 < b \<Longrightarrow> a smod b = a mod b" for a b :: int
  by (simp add: signed_modulo_int_def sgn_if)

lemma first_writable:
  assumes "queue_ok q"
  shows "(mStart q + mSize q) smod mCapacity q = int (slot q (nat (mSize q)))" "slot q i < nat (mCapacity q)"
proof -
  have "(mStart q + mSize q) smod mCapacity q = (mStart q + mSize q) mod mCapacity q"
    by (rule smod_pos) (use assms in \<open>simp_all add: queue_ok_def\<close>)
  also have "\<dots> = int (nat (mStart q + mSize q) mod nat (mCapacity q))"
    using assms by (simp add: queue_ok_def zmod_int)
  finally show "(mStart q + mSize q) smod mCapacity q = int (slot q (nat (mSize q)))"
    using assms by (simp add: slot_def queue_ok_def nat_add_distrib)
  show "slot q i < nat (mCapacity q)" using assms by (simp add: slot_def queue_ok_def)
qed

text \<open>Up to the end of the array or the start of the ring, the places of a region follow each other.\<close>

lemma mod_twice: "x < 2 * n \<Longrightarrow> x mod n = (if x < n then x else x - n)" for x n :: nat
  by (simp add: le_mod_geq)

lemma slot_eq:
  assumes "queue_ok q" and "i \<le> nat (mCapacity q)"
  shows "slot q i = (if nat (mStart q) + i < nat (mCapacity q) then nat (mStart q) + i
    else nat (mStart q) + i - nat (mCapacity q))"
  unfolding slot_def by (rule mod_twice) (use assms in \<open>auto simp: queue_ok_def\<close>)

lemma region_full: "mSize q = mCapacity q \<or> req \<le> 0 \<Longrightarrow> getWritableRegion q req = Some (0, None)"
  by (auto simp: getWritableRegion_def)

lemma region_writable:
  assumes ok: "queue_ok q" and space: "mSize q < mCapacity q" and req: "0 < req" "req < 2 ^ 30"
  shows "\<exists>n. getWritableRegion q req = Some (int n, Some (int (slot q (nat (mSize q))))) \<and> 1 \<le> n \<and> int n \<le> req
    \<and> int n \<le> mCapacity q - mSize q \<and> slot q (nat (mSize q)) + n \<le> nat (mCapacity q)
    \<and> (\<forall>j < n. slot q (nat (mSize q) + j) = slot q (nat (mSize q)) + j)"
proof -
  let ?f = "int (slot q (nat (mSize q)))"
  note q = ok [unfolded queue_ok_def]
  have f: "?f = (if mStart q + mSize q < mCapacity q then mStart q + mSize q else mStart q + mSize q - mCapacity q)"
    using slot_eq [OF ok, of "nat (mSize q)"] q space by auto
  have ints: "in_int (?f + req)" "in_int (?f + req - 1)" using f q space req by (auto simp: in_int_def)
  have fl: "0 \<le> ?f" "?f < int (length (mData q))" using f q space by auto
  let ?l1 = "if ?f + req - 1 > mCapacity q - 1 then mCapacity q - 1 else ?f + req - 1"
  let ?l2 = "if ?f < mStart q \<and> ?l1 \<ge> mStart q then mStart q - 1 else ?l1"
  have r: "getWritableRegion q req = Some (?l2 - ?f + 1, Some ?f)"
    using ints fl q space req(1) by (simp add: getWritableRegion_def first_writable(1) [OF ok] Let_def)
  have b: "1 \<le> ?l2 - ?f + 1" "?l2 - ?f + 1 \<le> req" "?l2 - ?f + 1 \<le> mCapacity q - mSize q" "?f + (?l2 - ?f + 1) \<le> mCapacity q"
    using f q space req by (auto split: if_splits)
  define n where "n = nat (?l2 - ?f + 1)"
  have n: "?l2 - ?f + 1 = int n" using b(1) by (simp add: n_def)
  obtain S Z C where nats: "nat (mStart q) = S" "nat (mSize q) = Z" "nat (mCapacity q) = C" by blast
  have "nat (mSize q) + n \<le> nat (mCapacity q)" "slot q (nat (mSize q)) + n \<le> nat (mCapacity q)"
    "nat (mSize q) < nat (mCapacity q)" using b(3,4) n q space by linarith+
  note zn = this [unfolded nats]
  have "slot q (Z + j) = slot q Z + j" if "j < n" for j
  proof -
    have "Z + j \<le> C" using that zn(1) by simp
    from slot_eq [OF ok, of "Z + j"] slot_eq [OF ok, of Z] this zn that show ?thesis unfolding nats
      by (cases "S + Z < C"; cases "S + (Z + j) < C") simp_all
  qed
  then have "\<forall>j < n. slot q (nat (mSize q) + j) = slot q (nat (mSize q)) + j" unfolding nats by blast
  moreover have "slot q (nat (mSize q)) + n \<le> nat (mCapacity q)" using zn(2) nats by simp
  moreover have "1 \<le> int n" "int n \<le> req" "int n \<le> mCapacity q - mSize q" using b(1-3) unfolding n .
  ultimately show ?thesis using r [unfolded n] by (intro exI [of _ n]) simp
qed

text \<open>The operations on the contents: a chunk is appended, the first event is read and removed.\<close>

lemma contents_nth: "i < nat (mSize q) \<Longrightarrow> contents q ! i = mData q ! slot q i"
  by (simp add: contents_def)

lemma slot_inj:
  assumes "queue_ok q" and "i < nat (mCapacity q)" and "j < nat (mCapacity q)" and "slot q i = slot q j"
  shows "i = j"
  using slot_eq [OF assms(1), of i] slot_eq [OF assms(1), of j] assms(2-4) by (simp split: if_splits; arith)

lemma write_chunk_result:
  assumes ok: "queue_ok q" and space: "mSize q < mCapacity q" and p: "mPendingSize q = int (length evs)" "evs \<noteq> []"
  shows "\<exists>n q'. write_chunk (evs, q) = Some (drop n evs, q') \<and> 1 \<le> n \<and> n \<le> length evs \<and> queue_ok q'
    \<and> contents q' = contents q @ take n evs \<and> mPendingSize q' = int (length (drop n evs))
    \<and> mCapacity q' = mCapacity q \<and> mSize q' = mSize q + int n"
proof -
  let ?z = "nat (mSize q)"
  note q = ok [unfolded queue_ok_def]
  obtain n where r: "getWritableRegion q (mPendingSize q) = Some (int n, Some (int (slot q ?z)))" "1 \<le> n"
    "int n \<le> mPendingSize q" "int n \<le> mCapacity q - mSize q" "slot q ?z + n \<le> nat (mCapacity q)"
    "\<forall>j < n. slot q (?z + j) = slot q ?z + j"
    using region_writable [OF ok space, of "mPendingSize q"] p q by auto
  have n: "n \<le> length evs" "slot q ?z + n \<le> length (mData q)" using r(3,5) p(1) q by auto
  define dat where "dat = take (slot q ?z) (mData q) @ take n evs @ drop (slot q ?z + n) (mData q)"
  have dl: "length dat = length (mData q)" using n by (simp add: dat_def)
  define q' where "q' = q\<lparr>mData := dat, mSize := mSize q + int n, mPendingSize := mPendingSize q - int n\<rparr>"
  have w: "write_chunk (evs, q) = Some (drop n evs, q')"
    using r(1) n by (simp add: write_chunk_def copy_events_def markAsWritten_def dat_def q'_def Let_def nat_int_add)
  have ok': "queue_ok q'" using q r(3,4) dl by (simp add: queue_ok_def q'_def)
  have sl: "slot q' i = slot q i" for i by (simp add: slot_def q'_def)
  have z': "nat (mSize q') = ?z + n" using q by (simp add: q'_def nat_add_distrib)
  have "contents q' = contents q @ take n evs"
  proof (rule nth_equalityI)
    show "length (contents q') = length (contents q @ take n evs)" using z' n(1) by simp
    fix i assume "i < length (contents q')"
    then have i: "i < ?z + n" using z' by simp
    then have nth: "contents q' ! i = dat ! slot q i" using contents_nth [of i q'] z' sl by (simp add: q'_def)
    show "contents q' ! i = (contents q @ take n evs) ! i"
    proof (cases "i < ?z")
      case True
      have "\<not> (slot q ?z \<le> slot q i \<and> slot q i < slot q ?z + n)"
      proof
        assume a: "slot q ?z \<le> slot q i \<and> slot q i < slot q ?z + n"
        then obtain j where j: "j < n" "slot q i = slot q ?z + j" by (metis le_add_diff_inverse nat_add_left_cancel_less)
        then have "slot q i = slot q (?z + j)" using r(6) by simp
        moreover have "?z + j < nat (mCapacity q)" using j(1) r(4) q by linarith
        ultimately have "i = ?z + j" using slot_inj [OF ok, of i "?z + j"] True by simp
        then show False using True by simp
      qed
      moreover have "slot q i < length (mData q)" using first_writable(2) [OF ok, of i] q by linarith
      ultimately have "dat ! slot q i = mData q ! slot q i" using n by (auto simp: dat_def nth_append)
      then show ?thesis using nth True contents_nth [of i q] by (simp add: nth_append)
    next
      case False
      then obtain j where j: "i = ?z + j" "j < n" using i by (metis add_diff_inverse_nat nat_add_left_cancel_less)
      then have "slot q i = slot q ?z + j" using r(6) by simp
      then have "dat ! slot q i = evs ! j" using j n by (simp add: dat_def nth_append)
      then show ?thesis using nth j n by (simp add: nth_append)
    qed
  qed
  moreover have "mPendingSize q' = int (length (drop n evs))" using p n by (simp add: q'_def of_nat_diff)
  moreover have "mCapacity q' = mCapacity q" "mSize q' = mSize q + int n" by (simp_all add: q'_def)
  ultimately show ?thesis using w r(2) n(1) ok' by blast
qed


lemma peek_contents: "queue_ok q \<Longrightarrow> peek q = Some (case contents q of [] \<Rightarrow> None | e # _ \<Rightarrow> Some e)"
proof -
  assume ok: "queue_ok q"
  show ?thesis
  proof (cases "mSize q = 0")
    case True
    then show ?thesis by (simp add: peek_def contents_def)
  next
    case False
    then obtain e es where c: "contents q = e # es" using ok by (cases "contents q") (auto simp: queue_ok_def dest: arg_cong [of _ _ length])
    have "contents q ! 0 = mData q ! slot q 0" using False ok by (intro contents_nth) (simp add: queue_ok_def)
    moreover have "slot q 0 = nat (mStart q)" using slot_eq [OF ok, of 0] ok by (simp add: queue_ok_def)
    ultimately show ?thesis using False c ok by (simp add: peek_def queue_ok_def)
  qed
qed

lemma dequeue_contents:
  assumes ok: "queue_ok q"
  shows "\<exists>b q'. dequeue q = Some (b, q') \<and> queue_ok q' \<and> contents q' = tl (contents q)
    \<and> b = (mSize q = mCapacity q) \<and> mCapacity q' = mCapacity q \<and> mPendingSize q' = mPendingSize q"
proof (cases "mSize q = 0")
  case True
  then show ?thesis using ok by (auto simp: dequeue_def contents_def queue_ok_def)
next
  case False
  note q = ok [unfolded queue_ok_def]
  let ?q' = "q\<lparr>mSize := mSize q - 1, mStart := (mStart q + 1) smod mCapacity q\<rparr>"
  have s: "(mStart q + 1) smod mCapacity q = (if mStart q + 1 = mCapacity q then 0 else mStart q + 1)"
    using q smod_pos [of "mStart q + 1" "mCapacity q"] by (simp add: mod_pos_pos_trivial)
  have ok': "queue_ok ?q'" using q s False by (simp add: queue_ok_def)
  have s1: "nat (mStart q + 1) = Suc (nat (mStart q))" using q by linarith
  have sl: "slot ?q' i = slot q (Suc i)" if "Suc i \<le> nat (mCapacity q)" for i
    using slot_eq [OF ok', of i] slot_eq [OF ok that] that s s1 q by (auto split: if_splits)
  have "contents ?q' = tl (contents q)"
  proof (rule nth_equalityI)
    show "length (contents ?q') = length (tl (contents q))" using q by simp
    fix i assume "i < length (contents ?q')"
    then have i: "Suc i < nat (mSize q)" using q by simp
    then have "Suc i \<le> nat (mCapacity q)" using q by linarith
    then show "contents ?q' ! i = tl (contents q) ! i"
      using i contents_nth [of i ?q'] contents_nth [of "Suc i" q] sl [of i] by (simp add: nth_tl)
  qed
  then show ?thesis using ok' False q by (simp add: dequeue_def)
qed

section \<open>The interface of a reader\<close>

text \<open>What a reader relies on: \<open>front\<close> shows the oldest item and \<open>pop\<close> removes it.\<close>

fun pop_n :: "('q \<Rightarrow> 'e option option) \<Rightarrow> ('q \<Rightarrow> (bool \<times> 'q) option) \<Rightarrow> nat \<Rightarrow> 'q \<Rightarrow> ('e list \<times> 'q) option" where
  "pop_n front pop 0 q = Some ([], q)"
| "pop_n front pop (Suc n) q = do {
     e \<leftarrow> front q;
     (case e of
        None \<Rightarrow> Some ([], q)
      | Some x \<Rightarrow> do { (_, q1) \<leftarrow> pop q; (xs, q2) \<leftarrow> pop_n front pop n q1; Some (x # xs, q2) })
   }"

locale fifo_reader =
  fixes ok :: "'q \<Rightarrow> bool" and items :: "'q \<Rightarrow> 'e list"
    and front :: "'q \<Rightarrow> 'e option option" and pop :: "'q \<Rightarrow> (bool \<times> 'q) option"
  assumes front_law: "ok q \<Longrightarrow> front q = Some (case items q of [] \<Rightarrow> None | x # _ \<Rightarrow> Some x)"
    and pop_law: "ok q \<Longrightarrow> \<exists>b q'. pop q = Some (b, q') \<and> ok q' \<and> items q' = tl (items q)"
begin

lemma pop_n_items: "ok q \<Longrightarrow> \<exists>q'. pop_n front pop n q = Some (take n (items q), q') \<and> ok q' \<and> items q' = drop n (items q)"
proof (induction n arbitrary: q)
  case (Suc n)
  show ?case
  proof (cases "items q")
    case Nil
    then show ?thesis using Suc.prems front_law by simp
  next
    case (Cons x xs)
    obtain b q1 where q1: "pop q = Some (b, q1)" "ok q1" "items q1 = xs" using pop_law [OF Suc.prems] Cons by auto
    from Suc.IH [OF q1(2)] obtain q' where "pop_n front pop n q1 = Some (take n xs, q')" "ok q'" "items q' = drop n xs"
      using q1(3) by auto
    then show ?thesis using Suc.prems front_law q1(1) Cons by simp
  qed
qed simp

lemma front_pop:
  assumes "ok q" and "items q = x # xs"
  shows "front q = Some (Some x)" "\<exists>b q'. pop q = Some (b, q') \<and> ok q' \<and> items q' = xs"
  using front_law [OF assms(1)] pop_law [OF assms(1)] assms(2) by auto

lemma front_empty: "ok q \<Longrightarrow> items q = [] \<Longrightarrow> front q = Some None"
  by (simp add: front_law)

end

interpretation ring: fifo_reader queue_ok contents peek dequeue
proof unfold_locales
  fix q :: "'a SensorEventQueue" assume "queue_ok q"
  then show "peek q = Some (case contents q of [] \<Rightarrow> None | x # _ \<Rightarrow> Some x)"
    "\<exists>b q'. dequeue q = Some (b, q') \<and> queue_ok q' \<and> contents q' = tl (contents q)"
    using peek_contents dequeue_contents by blast+
qed

section \<open>Writing\<close>

text \<open>
  The loop of \<^verbatim>\<open>write\<close> between two waits: it ends after at most as many rounds as events remain, having put a
  prefix of them behind the contents, all of them unless the queue is full.
\<close>

definition batch_inv :: "'e list \<Rightarrow> 'e list \<times> 'e SensorEventQueue \<Rightarrow> bool" where
  "batch_inv all = (\<lambda>(evs, q). queue_ok q \<and> mPendingSize q = int (length evs) \<and> contents q @ evs = all)"

definition batch_post :: "'e list \<Rightarrow> 'e list \<times> 'e SensorEventQueue \<Rightarrow> bool" where
  "batch_post all s \<longleftrightarrow> batch_inv all s \<and> (fst s = [] \<or> mSize (snd s) = mCapacity (snd s))"

lemma write_round_result:
  assumes "batch_inv all s"
  shows "\<exists>x. write_round s = Some x \<and> (case x of Inl s' \<Rightarrow> batch_inv all s' \<and> length (fst s') < length (fst s)
    | Inr r \<Rightarrow> batch_post all r)"
proof -
  obtain evs q where s: "s = (evs, q)" by (cases s)
  have i: "queue_ok q" "mPendingSize q = int (length evs)" "contents q @ evs = all" using assms s by (auto simp: batch_inv_def)
  show ?thesis
  proof (cases "evs = [] \<or> mSize q = mCapacity q")
    case True
    then show ?thesis using s i assms by (auto simp: write_round_def batch_post_def)
  next
    case False
    then have sp: "mSize q < mCapacity q" using i(1) by (auto simp: queue_ok_def)
    from write_chunk_result [OF i(1) sp i(2)] False obtain n q' where
      w: "write_chunk (evs, q) = Some (drop n evs, q')" "1 \<le> n" "n \<le> length evs" "queue_ok q'"
      "contents q' = contents q @ take n evs" "mPendingSize q' = int (length (drop n evs))" by blast
    then have "batch_inv all (drop n evs, q')" using i(3) by (simp add: batch_inv_def)
    then show ?thesis using s i(2) False w by (simp add: write_round_def)
  qed
qed

interpretation wr_loop: ending_loop write_round "batch_inv all" "batch_post all" "\<lambda>s. length (fst s)" for all
proof unfold_locales
  fix s s' assume "batch_inv all s" and "write_round s = Some (Inl s')"
  then show "batch_inv all s'" "length (fst s') < length (fst s)" using write_round_result [of all s] by auto
next
  fix s r assume "batch_inv all s" and "write_round s = Some (Inr r)"
  then show "batch_post all r" using write_round_result [of all s] by auto
next
  fix s assume "batch_inv all s"
  then show "write_round s \<noteq> None" using write_round_result [of all s] by auto
qed

text \<open>
  Writing a batch: \<^verbatim>\<open>write\<close> ends or comes to wait within one round per event, without undefined behaviour. What
  it has written so far stands behind the earlier contents in order, the rest is still pending and counted by
  \<^verbatim>\<open>getPendingSize\<close>, and it waits only when the queue is full.
\<close>

theorem write_events_result:
  assumes "queue_ok q" and "length evs < 2 ^ 30"
  shows "\<exists>rest q'. write_events (Suc (length evs)) q evs = Some (rest, q') \<and> queue_ok q'
    \<and> contents q' @ rest = contents q @ evs \<and> getPendingSize q' = int (length (contents q) + length evs)
    \<and> (rest \<noteq> [] \<longrightarrow> getSize q' = mCapacity q')"
proof -
  let ?q = "q\<lparr>mPendingSize := int (length evs)\<rparr>"
  have c: "contents ?q = contents q" by (simp add: contents_def slot_def)
  have "batch_inv (contents q @ evs) (evs, ?q)" using assms c by (simp add: batch_inv_def queue_ok_def)
  from wr_loop.finishes [OF this, of "Suc (length evs)"] obtain rest q' where
    r: "run_loop (Suc (length evs)) write_round (evs, ?q) = Some (rest, q')" "batch_post (contents q @ evs) (rest, q')"
    by auto
  then have p: "queue_ok q'" "mPendingSize q' = int (length rest)" "contents q' @ rest = contents q @ evs"
    "rest \<noteq> [] \<longrightarrow> mSize q' = mCapacity q'" by (auto simp: batch_post_def batch_inv_def)
  have "length (contents q') + length rest = length (contents q) + length evs" using p(3) by (metis length_append)
  then have "getPendingSize q' = int (length (contents q) + length evs)"
    using p(1,2) unfolding getPendingSize_def queue_ok_def contents_length by linarith
  then show ?thesis using r(1) p by (auto simp: write_events_def write_until_full_def getSize_def)
qed

definition demo_queue :: "nat SensorEventQueue" where
  "demo_queue = (new_SensorEventQueue 0 3)\<lparr>mStart := 2, mSize := 1, mData := [0, 0, 7]\<rparr>"

lemma write_events_result_witness:
  "\<exists>rest q'. write_events 5 demo_queue [1, 2, 3, 4] = Some (rest, q') \<and> contents q' @ rest = [7, 1, 2, 3, 4]
     \<and> getPendingSize q' = 5"
proof -
  have "queue_ok demo_queue" "contents demo_queue = [7]"
    by (simp_all add: queue_ok_def demo_queue_def new_SensorEventQueue_def contents_def slot_def)
  moreover have n: "Suc (length [1, 2, 3, 4 :: nat]) = 5" by simp
  ultimately obtain rest q' where "write_events 5 demo_queue [1, 2, 3, 4] = Some (rest, q')" "contents q' @ rest = [7] @ [1, 2, 3, 4]"
    "getPendingSize q' = int (length [7 :: nat] + length [1, 2, 3, 4 :: nat])"
    using write_events_result [of demo_queue "[1, 2, 3, 4]", unfolded n] by auto
  then show ?thesis by (intro exI [of _ rest] exI [of _ q']) simp
qed

section \<open>A writer and a reader\<close>

text \<open>
  The state that the two threads share: the queue, the events that \<^verbatim>\<open>write\<close> has still to copy and whether it is blocked in
  \<^verbatim>\<open>waitForSpace\<close>; \<open>sent\<close> and \<open>got\<close> record what was handed to \<^verbatim>\<open>write\<close> and what the reader took.
\<close>

record 'e queue_sys =
  qs_queue :: "'e SensorEventQueue"
  qs_todo :: "'e list"
  qs_waiting :: bool
  qs_sent :: "'e list"
  qs_got :: "'e list"

inductive queue_step :: "'e queue_sys \<Rightarrow> 'e queue_sys \<Rightarrow> bool" where
  begin_write: "qs_todo s = [] \<Longrightarrow> length evs < 2 ^ 30 \<Longrightarrow>
    queue_step s (s\<lparr>qs_queue := (qs_queue s)\<lparr>mPendingSize := int (length evs)\<rparr>, qs_todo := evs, qs_sent := qs_sent s @ evs\<rparr>)"
| chunk: "0 < mPendingSize (qs_queue s) \<Longrightarrow> \<not> qs_waiting s \<Longrightarrow> mSize (qs_queue s) \<noteq> mCapacity (qs_queue s) \<Longrightarrow>
    write_chunk (qs_todo s, qs_queue s) = Some (evs, q) \<Longrightarrow>
    queue_step s (s\<lparr>qs_queue := q, qs_todo := evs\<rparr>)"
| wait_space: "0 < mPendingSize (qs_queue s) \<Longrightarrow> mSize (qs_queue s) = mCapacity (qs_queue s) \<Longrightarrow>
    queue_step s (s\<lparr>qs_waiting := True\<rparr>)"
| spurious_wake: "queue_step s (s\<lparr>qs_waiting := False\<rparr>)"
| take_event: "peek (qs_queue s) = Some (Some e) \<Longrightarrow> dequeue (qs_queue s) = Some (broadcast, q) \<Longrightarrow>
    queue_step s (s\<lparr>qs_queue := q, qs_waiting := qs_waiting s \<and> \<not> broadcast, qs_got := qs_got s @ [e]\<rparr>)"

inductive_cases queue_stepE: "queue_step s t"

definition queue_start :: "'e \<Rightarrow> int \<Rightarrow> 'e queue_sys" where
  "queue_start junk capacity =
     \<lparr>qs_queue = new_SensorEventQueue junk capacity, qs_todo = [], qs_waiting = False, qs_sent = [], qs_got = []\<rparr>"

definition queue_inv :: "'e queue_sys \<Rightarrow> bool" where
  "queue_inv s \<longleftrightarrow> queue_ok (qs_queue s) \<and> mPendingSize (qs_queue s) = int (length (qs_todo s))
     \<and> qs_sent s = qs_got s @ contents (qs_queue s) @ qs_todo s
     \<and> (qs_waiting s \<longrightarrow> mSize (qs_queue s) = mCapacity (qs_queue s) \<and> qs_todo s \<noteq> [])"

lemma queue_start_inv: "0 < capacity \<Longrightarrow> capacity < 2 ^ 30 \<Longrightarrow> queue_inv (queue_start junk capacity)"
  by (simp add: queue_inv_def queue_start_def new_SensorEventQueue_def queue_ok_def contents_def)

lemma queue_step_inv: "queue_step s t \<Longrightarrow> queue_inv s \<Longrightarrow> queue_inv t"
proof (induction rule: queue_step.induct)
  case (begin_write s evs)
  then show ?case by (auto simp: queue_inv_def queue_ok_def contents_def slot_def)
next
  case (chunk s evs q)
  then have i: "queue_ok (qs_queue s)" "mPendingSize (qs_queue s) = int (length (qs_todo s))" "qs_todo s \<noteq> []"
    "mSize (qs_queue s) < mCapacity (qs_queue s)" by (auto simp: queue_inv_def queue_ok_def)
  from write_chunk_result [OF i(1,4,2,3)] chunk show ?case by (auto simp: queue_inv_def)
next
  case (take_event s e broadcast q)
  then have ok: "queue_ok (qs_queue s)" by (simp add: queue_inv_def)
  obtain es where c: "contents (qs_queue s) = e # es"
    using peek_contents [OF ok] take_event.hyps(1) by (auto split: list.splits)
  show ?case using dequeue_contents [OF ok] take_event c by (auto simp: queue_inv_def)
qed (auto simp: queue_inv_def)

lemma queue_run_inv: "queue_step\<^sup>*\<^sup>* s t \<Longrightarrow> queue_inv s \<Longrightarrow> queue_inv t"
  by (induction rule: rtranclp_induct) (auto intro: queue_step_inv)

text \<open>
  (C12) The sensor queue is a bounded first-in first-out channel: whatever the interleaving of the writing and the reading
  thread, what was handed to \<^verbatim>\<open>write\<close> is what the reader took, followed by the contents of the ring, followed by what is
  still to be copied: nothing is lost, duplicated or reordered, and the ring never holds more than its capacity.
  A writer sleeps only while the ring is full, and as long as an event is on its way some thread can take a
  step that moves it.
\<close>

theorem queue_fifo:
  assumes "0 < capacity" and "capacity < 2 ^ 30" and "queue_step\<^sup>*\<^sup>* (queue_start junk capacity) s"
  shows "qs_sent s = qs_got s @ contents (qs_queue s) @ qs_todo s \<and> int (length (contents (qs_queue s))) \<le> mCapacity (qs_queue s)
    \<and> getPendingSize (qs_queue s) = int (length (contents (qs_queue s)) + length (qs_todo s))
    \<and> (qs_waiting s \<longrightarrow> getSize (qs_queue s) = mCapacity (qs_queue s))
    \<and> (qs_got s \<noteq> qs_sent s \<longrightarrow> (\<exists>t. queue_step s t \<and> (qs_got t \<noteq> qs_got s \<or> length (qs_todo t) < length (qs_todo s))))"
proof -
  have inv: "queue_inv s" using queue_run_inv [OF assms(3) queue_start_inv [OF assms(1,2)]] .
  let ?q = "qs_queue s"
  have ok: "queue_ok ?q" and p: "mPendingSize ?q = int (length (qs_todo s))"
    and f: "qs_sent s = qs_got s @ contents ?q @ qs_todo s"
    and w: "qs_waiting s \<longrightarrow> mSize ?q = mCapacity ?q" using inv by (auto simp: queue_inv_def)
  have z: "0 \<le> mSize ?q" "mSize ?q \<le> mCapacity ?q" "0 < mCapacity ?q" using ok by (auto simp: queue_ok_def)
  have "\<exists>t. queue_step s t \<and> (qs_got t \<noteq> qs_got s \<or> length (qs_todo t) < length (qs_todo s))" if "qs_got s \<noteq> qs_sent s"
  proof (cases "contents ?q")
    case (Cons e es)
    obtain b q' where "dequeue ?q = Some (b, q')" using dequeue_contents [OF ok] by blast
    moreover have "peek ?q = Some (Some e)" using peek_contents [OF ok] Cons by simp
    ultimately have "queue_step s (s\<lparr>qs_queue := q', qs_waiting := qs_waiting s \<and> \<not> b, qs_got := qs_got s @ [e]\<rparr>)"
      by (intro take_event)
    then show ?thesis by (intro exI conjI, assumption) simp
  next
    case Nil
    then have z0: "mSize ?q = 0" using z(1) contents_length [of ?q] by simp
    have t: "qs_todo s \<noteq> []" using f Nil that by auto
    have sp: "mSize ?q < mCapacity ?q" using z0 z by simp
    from write_chunk_result [OF ok sp p t] obtain n q' where
      c: "write_chunk (qs_todo s, ?q) = Some (drop n (qs_todo s), q')" "1 \<le> n" "n \<le> length (qs_todo s)" by blast
    have "queue_step s (s\<lparr>qs_queue := q', qs_todo := drop n (qs_todo s)\<rparr>)"
      by (rule chunk [OF _ _ _ c(1)]) (use p t w sp in auto)
    then show ?thesis by (intro exI conjI, assumption) (use c t in simp)
  qed
  then show ?thesis using f p z w by (simp add: getPendingSize_def getSize_def)
qed

lemma queue_fifo_witness:
  "\<exists>s. queue_step\<^sup>*\<^sup>* (queue_start 0 1) s \<and> qs_sent s = [4 :: nat, 5] \<and> qs_got s @ contents (qs_queue s) @ qs_todo s = [4, 5]"
proof -
  let ?s = "(queue_start (0 :: nat) 1)\<lparr>qs_queue := (qs_queue (queue_start 0 1))\<lparr>mPendingSize := int (length [4 :: nat, 5])\<rparr>,
    qs_todo := [4, 5], qs_sent := qs_sent (queue_start 0 1) @ [4, 5]\<rparr>"
  have "queue_step (queue_start 0 1) ?s" by (rule begin_write) (simp_all add: queue_start_def)
  then have r: "queue_step\<^sup>*\<^sup>* (queue_start 0 1) ?s" by (rule r_into_rtranclp)
  from queue_fifo [OF _ _ r] show ?thesis using r by (intro exI [of _ ?s]) (simp add: queue_start_def)
qed

end
