(* ===== verification/Sensor_Hal.thy ===== *)
theory Sensor_Hal
  imports Sensor_Queue Complex_Main
begin

text \<open>
  The sensor HAL of sensors/multihal.cpp, which presents several vendor HALs (sub-HALs) as one: global handles for their
  sensors, the description of legacy sensors, activation and delays, the merged event stream with flush completions, and
  opening all sub-HALs or none. The sub-HALs and \<^verbatim>\<open>hardware/sensors.h\<close> are not in the repository and are
  parameters.
\<close>

section \<open>Handles\<close>

datatype FullHandle = FullHandle (moduleIndex: int) (localHandle: int)

lemma FullHandle_eq: "a = b \<longleftrightarrow> moduleIndex a = moduleIndex b \<and> localHandle a = localHandle b"
  by (cases a; cases b) simp

text \<open>The comparison that \<^verbatim>\<open>std::map\<close> uses is a linear order.\<close>

instantiation FullHandle :: linorder
begin

definition less_FullHandle :: "FullHandle \<Rightarrow> FullHandle \<Rightarrow> bool" where
  "less_FullHandle a b \<longleftrightarrow>
     (if moduleIndex a < moduleIndex b then True
      else if moduleIndex a > moduleIndex b then False
      else localHandle a < localHandle b)"

definition less_eq_FullHandle :: "FullHandle \<Rightarrow> FullHandle \<Rightarrow> bool" where
  "less_eq_FullHandle a b \<longleftrightarrow> a < b \<or> a = b"

instance
  by standard (auto simp: less_eq_FullHandle_def less_FullHandle_def FullHandle_eq split: if_splits)

end

text \<open>The three global variables.\<close>

record handles =
  global_to_full :: "int \<rightharpoonup> FullHandle"
  full_to_global :: "FullHandle \<rightharpoonup> int"
  next_global_handle :: int

definition no_handles :: handles where
  "no_handles = \<lparr>global_to_full = Map.empty, full_to_global = Map.empty, next_global_handle = 1\<rparr>"

definition assign_global_handle :: "handles \<Rightarrow> int \<Rightarrow> int \<Rightarrow> int \<times> handles" where
  "assign_global_handle h module_index local_handle =
     (let global_handle = next_global_handle h;
          full_handle = FullHandle module_index local_handle
      in (global_handle, h\<lparr>next_global_handle := global_handle + 1,
            full_to_global := (full_to_global h)(full_handle \<mapsto> global_handle),
            global_to_full := (global_to_full h)(global_handle \<mapsto> full_handle)\<rparr>))"

definition get_local_handle :: "handles \<Rightarrow> int \<Rightarrow> int" where
  "get_local_handle h g = (case global_to_full h g of None \<Rightarrow> - 1 | Some f \<Rightarrow> localHandle f)"

definition get_module_index :: "handles \<Rightarrow> int \<Rightarrow> int" where
  "get_module_index h g = (case global_to_full h g of None \<Rightarrow> - 1 | Some f \<Rightarrow> moduleIndex f)"

definition get_global_handle :: "handles \<Rightarrow> FullHandle \<Rightarrow> int" where
  "get_global_handle h f = (case full_to_global h f of None \<Rightarrow> - 1 | Some g \<Rightarrow> g)"

section \<open>Sensors and events\<close>

text \<open>The constants of \<^verbatim>\<open>hardware/sensors.h\<close>.\<close>

record sensors_h =
  SENSOR_TYPE_META_DATA :: int
  SENSOR_TYPE_LIGHT :: int
  SENSOR_TYPE_AMBIENT_TEMPERATURE :: int
  SENSOR_TYPE_RELATIVE_HUMIDITY :: int
  SENSOR_TYPE_STEP_COUNTER :: int
  SENSOR_TYPE_PROXIMITY :: int
  SENSOR_TYPE_SIGNIFICANT_MOTION :: int
  SENSOR_TYPE_STEP_DETECTOR :: int
  SENSOR_FLAG_WAKE_UP :: u32
  SENSOR_FLAG_CONTINUOUS_MODE :: u32
  SENSOR_FLAG_ON_CHANGE_MODE :: u32
  SENSOR_FLAG_ONE_SHOT_MODE :: u32
  SENSOR_FLAG_SPECIAL_REPORTING_MODE :: u32
  REPORTING_MODE_MASK :: u32
  META_DATA_VERSION :: int
  META_DATA_FLUSH_COMPLETE :: int
  SENSORS_DEVICE_API_VERSION_1_0 :: u32

text \<open>The fields of \<^verbatim>\<open>sensor_t\<close> that the code reads or writes, and the name for the others.\<close>

record sensor =
  sn_name :: string
  s_handle :: int
  s_type :: int
  s_maxRange :: real
  s_minDelay :: int
  s_maxDelay :: int
  s_flags :: u32
  s_fifoReservedEventCount :: u32
  s_fifoMaxEventCount :: u32
  s_stringType :: "string option"
  s_requiredPermission :: "string option"
  s_reserved :: "nat option \<times> nat option"

text \<open>\<^verbatim>\<open>sensors_event_t\<close>; the time stamp and the readings are passed on unread.\<close>

record sensors_event =
  ev_version :: int
  ev_sensor :: int
  ev_type :: int
  ev_meta_what :: int
  ev_meta_sensor :: int
  ev_timestamp :: int
  ev_readings :: "u8 list"

definition zero_event :: sensors_event where
  "zero_event = \<lparr>ev_version = 0, ev_sensor = 0, ev_type = 0, ev_meta_what = 0, ev_meta_sensor = 0, ev_timestamp = 0,
     ev_readings = []\<rparr>"

definition sensor_by_handle :: "sensor list \<Rightarrow> int \<Rightarrow> sensor option" where
  "sensor_by_handle sensors h = find (\<lambda>s. s_handle s = h) sensors"

definition describe_legacy_sensor :: "sensors_h \<Rightarrow> sensor \<Rightarrow> sensor" where
  "describe_legacy_sensor K s =
     (let s1 = s\<lparr>s_fifoReservedEventCount := 0, s_fifoMaxEventCount := 0, s_maxDelay := 0,
                 s_flags := SENSOR_FLAG_CONTINUOUS_MODE K\<rparr>;
          t = s_type s;
          s2 = (if t = SENSOR_TYPE_LIGHT K \<or> t = SENSOR_TYPE_AMBIENT_TEMPERATURE K
                   \<or> t = SENSOR_TYPE_RELATIVE_HUMIDITY K \<or> t = SENSOR_TYPE_STEP_COUNTER K
                then s1\<lparr>s_flags := SENSOR_FLAG_ON_CHANGE_MODE K\<rparr>
                else if t = SENSOR_TYPE_PROXIMITY K
                then s1\<lparr>s_flags := SENSOR_FLAG_ON_CHANGE_MODE K OR SENSOR_FLAG_WAKE_UP K\<rparr>
                else if t = SENSOR_TYPE_SIGNIFICANT_MOTION K
                then s1\<lparr>s_flags := SENSOR_FLAG_ONE_SHOT_MODE K OR SENSOR_FLAG_WAKE_UP K\<rparr>
                else if t = SENSOR_TYPE_STEP_DETECTOR K
                then s1\<lparr>s_flags := SENSOR_FLAG_SPECIAL_REPORTING_MODE K\<rparr>
                else if s_minDelay s1 < 0 then s1\<lparr>s_flags := SENSOR_FLAG_ONE_SHOT_MODE K\<rparr> else s1)
      in s2\<lparr>s_stringType := Some (case s_stringType s2 of None \<Rightarrow> [] | Some x \<Rightarrow> x),
            s_requiredPermission := Some (case s_requiredPermission s2 of None \<Rightarrow> [] | Some x \<Rightarrow> x),
            s_reserved := (None, None)\<rparr>)"

definition is_one_shot :: "sensors_h \<Rightarrow> sensor \<Rightarrow> bool" where
  "is_one_shot K s \<longleftrightarrow> s_flags s AND REPORTING_MODE_MASK K = SENSOR_FLAG_ONE_SHOT_MODE K"

text \<open>
  The list of all sensors: \<open>mods\<close> are the lists that the modules report, which the code asks for twice and relies on
  being the same. The result is the list and the handle tables.
\<close>

fun add_sensors :: "sensors_h \<Rightarrow> int \<Rightarrow> sensor list \<Rightarrow> handles \<Rightarrow> sensor list \<times> handles" where
  "add_sensors K m [] h = ([], h)"
| "add_sensors K m (local_sensor # ss) h =
     (let s1 = describe_legacy_sensor K local_sensor;
          (g, h1) = assign_global_handle h m (s_handle local_sensor);
          s2 = s1\<lparr>s_handle := g\<rparr>;
          s3 = (if s_type s2 = SENSOR_TYPE_PROXIMITY K then s2\<lparr>s_maxRange := 5\<rparr> else s2);
          (rest, h2) = add_sensors K m ss h1
      in (s3 # rest, h2))"

fun add_modules :: "sensors_h \<Rightarrow> int \<Rightarrow> sensor list list \<Rightarrow> handles \<Rightarrow> sensor list \<times> handles" where
  "add_modules K m [] h = ([], h)"
| "add_modules K m (ss # mods) h =
     (let (l, h1) = add_sensors K m ss h; (rest, h2) = add_modules K (m + 1) mods h1 in (l @ rest, h2))"

section \<open>Loading the sub-HALs\<close>

definition starts_with :: "string option \<Rightarrow> string option \<Rightarrow> bool" where
  "starts_with s prefix =
     (case (s, prefix) of
        (Some s, Some prefix) \<Rightarrow> length s \<ge> length prefix \<and> take (length prefix) s = prefix
      | _ \<Rightarrow> False)"

text \<open>The lines that \<^verbatim>\<open>std::getline\<close> yields: a last line without a newline counts when it is not empty.\<close>

fun getlines :: "string \<Rightarrow> string \<Rightarrow> string list" where
  "getlines line [] = (if line = [] then [] else [line])"
| "getlines line (c # cs) = (if c = CHR 0x0A then line # getlines [] cs else getlines (line @ [c]) cs)"

definition get_so_paths :: "string option \<Rightarrow> string list" where
  "get_so_paths conf_file = (case conf_file of None \<Rightarrow> [] | Some txt \<Rightarrow> getlines [] txt)"

text \<open>The dynamic linker: libraries by path, and the error and the value of looking up \<^verbatim>\<open>HAL_MODULE_INFO_SYM\<close>.\<close>

record dl_sys =
  dlopen :: "string \<Rightarrow> nat option"
  dlsym :: "nat \<Rightarrow> string option \<times> nat option"

definition load_module :: "dl_sys \<Rightarrow> string \<Rightarrow> nat option" where
  "load_module D line =
     (case dlopen D (takeWhile (\<lambda>c. c \<noteq> CHR 0x00) line) of
        None \<Rightarrow> None
      | Some lib_handle \<Rightarrow> (case dlsym D lib_handle of (Some _, _) \<Rightarrow> None | (None, hw_module) \<Rightarrow> hw_module))"

text \<open>The global variables; a null pointer is \<open>None\<close>, and \<^verbatim>\<open>global_sensors_count\<close> is the length of the list.\<close>

record hal_globals =
  sub_hw_modules :: "nat list option"
  hal_handles :: handles
  global_sensors_list :: "sensor list option"

definition fresh_globals :: hal_globals where
  "fresh_globals = \<lparr>sub_hw_modules = None, hal_handles = no_handles, global_sensors_list = None\<rparr>"

definition loaded_modules :: "hal_globals \<Rightarrow> nat list" where
  "loaded_modules G = (case sub_hw_modules G of None \<Rightarrow> [] | Some ms \<Rightarrow> ms)"

definition lazy_init_modules :: "dl_sys \<Rightarrow> string option \<Rightarrow> hal_globals \<Rightarrow> hal_globals" where
  "lazy_init_modules D conf G =
     (case sub_hw_modules G of
        Some _ \<Rightarrow> G
      | None \<Rightarrow> G\<lparr>sub_hw_modules := Some (List.map_filter (load_module D) (get_so_paths conf))\<rparr>)"

text \<open>\<open>sensors_of\<close> is what each module's \<^verbatim>\<open>get_sensors_list\<close> reports.\<close>

definition lazy_init_sensors_list ::
  "sensors_h \<Rightarrow> dl_sys \<Rightarrow> string option \<Rightarrow> (nat \<Rightarrow> sensor list) \<Rightarrow> hal_globals \<Rightarrow> hal_globals" where
  "lazy_init_sensors_list K D conf sensors_of G =
     (case global_sensors_list G of
        Some _ \<Rightarrow> G
      | None \<Rightarrow>
          let G1 = lazy_init_modules D conf G;
              (sensors, h) = add_modules K 0 (map sensors_of (loaded_modules G1)) (hal_handles G1)
          in G1\<lparr>hal_handles := h, global_sensors_list := Some sensors\<rparr>)"

definition all_sensors :: "hal_globals \<Rightarrow> sensor list" where
  "all_sensors G = (case global_sensors_list G of None \<Rightarrow> [] | Some l \<Rightarrow> l)"

definition module__get_sensors_list ::
  "sensors_h \<Rightarrow> dl_sys \<Rightarrow> string option \<Rightarrow> (nat \<Rightarrow> sensor list) \<Rightarrow> hal_globals \<Rightarrow> (int \<times> sensor list) \<times> hal_globals" where
  "module__get_sensors_list K D conf sensors_of G =
     (let G1 = lazy_init_sensors_list K D conf sensors_of G in ((int (length (all_sensors G1)), all_sensors G1), G1))"

section \<open>The device\<close>

text \<open>A sub-HAL's device: a number for its identity, its version, and which of its functions are set.\<close>

record sub_device =
  dev_id :: nat
  dev_version :: u32
  has_close :: bool
  has_activate :: bool
  has_setDelay :: bool
  has_poll :: bool

text \<open>What the sub-HALs do when they are called.\<close>

record 'k subhal =
  sub_activate :: "nat \<Rightarrow> int \<Rightarrow> int \<Rightarrow> 'k \<Rightarrow> int \<times> 'k"
  sub_setDelay :: "nat \<Rightarrow> int \<Rightarrow> int \<Rightarrow> 'k \<Rightarrow> int \<times> 'k"
  sub_close :: "nat \<Rightarrow> 'k \<Rightarrow> 'k"
  sub_open :: "nat \<Rightarrow> string \<Rightarrow> 'k \<Rightarrow> (int \<times> sub_device option) \<times> 'k"

text \<open>The counters of events are 64 bits wide and do not come round.\<close>

record PendingFlush =
  pf_handle :: int
  pf_module_index :: int
  pf_after_event :: nat

record poll_context =
  sub_hw_devices :: "sub_device list"
  queues :: "sensors_event SensorEventQueue list"
  consumed_events :: "nat list"
  pending_flushes :: "PendingFlush list"
  active_sensors :: "int \<rightharpoonup> bool"
  nextReadIndex :: int
  ctx_handles :: handles
  global_sensors :: "sensor list"

abbreviation SENSOR_EVENT_QUEUE_CAPACITY :: int where "SENSOR_EVENT_QUEUE_CAPACITY \<equiv> 20"

definition addSubHwDevice :: "poll_context \<Rightarrow> sub_device \<Rightarrow> poll_context" where
  "addSubHwDevice c d = c\<lparr>sub_hw_devices := sub_hw_devices c @ [d],
     queues := queues c @ [new_SensorEventQueue zero_event SENSOR_EVENT_QUEUE_CAPACITY],
     consumed_events := consumed_events c @ [0]\<rparr>"

definition get_v0_device_by_handle :: "poll_context \<Rightarrow> int \<Rightarrow> sub_device option" where
  "get_v0_device_by_handle c g =
     (let sub_index = get_module_index (ctx_handles c) g in
      if sub_index < 0 \<or> sub_index \<ge> int (length (sub_hw_devices c)) then None
      else Some (sub_hw_devices c ! nat sub_index))"

definition get_v1_device_by_handle :: "poll_context \<Rightarrow> int \<Rightarrow> sub_device option" where
  "get_v1_device_by_handle c g =
     (let sub_index = get_module_index (ctx_handles c) g in
      if sub_index < 0 \<or> sub_index \<ge> int (length (sub_hw_devices c)) then None
      else Some (sub_hw_devices c ! nat sub_index))"

definition get_device_version_by_handle :: "poll_context \<Rightarrow> int \<Rightarrow> int" where
  "get_device_version_by_handle c g =
     (case get_v0_device_by_handle c g of None \<Rightarrow> - 1 | Some d \<Rightarrow> sint (dev_version d))"

definition halIsCompliant :: "sensors_h \<Rightarrow> poll_context \<Rightarrow> int \<Rightarrow> bool" where
  "halIsCompliant K c g =
     (case get_v0_device_by_handle c g of
        None \<Rightarrow> False
      | Some d \<Rightarrow> dev_version d \<ge> SENSORS_DEVICE_API_VERSION_1_0 K \<and> has_activate d \<and> has_setDelay d \<and> has_poll d)"

definition ctx_activate ::
  "sensors_h \<Rightarrow> 'k subhal \<Rightarrow> poll_context \<Rightarrow> int \<Rightarrow> int \<Rightarrow> 'k \<Rightarrow> (int \<times> poll_context) \<times> 'k" where
  "ctx_activate K S c g enabled k =
     (let local_handle = get_local_handle (ctx_handles c) g in
      case get_v0_device_by_handle c g of
        Some d \<Rightarrow>
          if halIsCompliant K c g \<and> local_handle \<ge> 0 then
            (case sub_activate S (dev_id d) local_handle enabled k of (retval, k1) \<Rightarrow>
               ((retval, if retval = 0 then c\<lparr>active_sensors := (active_sensors c)(g \<mapsto> enabled \<noteq> 0)\<rparr> else c), k1))
          else ((- EINVAL, c), k)
      | None \<Rightarrow> ((- EINVAL, c), k))"

definition ctx_setDelay :: "sensors_h \<Rightarrow> 'k subhal \<Rightarrow> poll_context \<Rightarrow> int \<Rightarrow> int \<Rightarrow> 'k \<Rightarrow> int \<times> 'k" where
  "ctx_setDelay K S c g ns k =
     (let local_handle = get_local_handle (ctx_handles c) g in
      case get_v0_device_by_handle c g of
        Some d \<Rightarrow>
          if halIsCompliant K c g \<and> local_handle \<ge> 0 then sub_setDelay S (dev_id d) local_handle ns k
          else (- EINVAL, k)
      | None \<Rightarrow> (- EINVAL, k))"

definition ctx_batch :: "sensors_h \<Rightarrow> 'k subhal \<Rightarrow> poll_context \<Rightarrow> int \<Rightarrow> int \<Rightarrow> int \<Rightarrow> int \<Rightarrow> 'k \<Rightarrow> int \<times> 'k" where
  "ctx_batch K S c g fl period_ns timeout k =
     (if fl \<noteq> 0 \<or> period_ns < 0 \<or> timeout < 0 \<or> sensor_by_handle (global_sensors c) g = None then (- EINVAL, k)
      else ctx_setDelay K S c g period_ns k)"

text \<open>\<open>active_sensors[handle]\<close> makes an entry that is false when there is none.\<close>

definition ctx_flush :: "sensors_h \<Rightarrow> poll_context \<Rightarrow> int \<Rightarrow> (int \<times> poll_context) option" where
  "ctx_flush K c g =
     (let module_index = get_module_index (ctx_handles c) g in
      case sensor_by_handle (global_sensors c) g of
        None \<Rightarrow> Some (- EINVAL, c)
      | Some sensor \<Rightarrow>
          if module_index < 0 \<or> module_index \<ge> int (length (queues c)) \<or> is_one_shot K sensor then Some (- EINVAL, c)
          else if active_sensors c g \<noteq> Some True
          then Some (- EINVAL, c\<lparr>active_sensors := (active_sensors c)(g \<mapsto> False)\<rparr>)
          else if nat module_index \<ge> length (consumed_events c) then None
          else
            let request = \<lparr>pf_handle = g, pf_module_index = module_index,
                  pf_after_event = consumed_events c ! nat module_index + nat (getPendingSize (queues c ! nat module_index))\<rparr>
            in Some (0, c\<lparr>pending_flushes := pending_flushes c @ [request]\<rparr>))"

section \<open>Taking events from a sub-HAL\<close>

text \<open>
  The events of one round of \<^verbatim>\<open>writerTask\<close> that go to \<^verbatim>\<open>write\<close>: those the sub-HAL's \<^verbatim>\<open>poll\<close> stored in
  \<^verbatim>\<open>buffer\<close>, none when its result is no number of events that fit.
\<close>

definition writer_batch :: "int \<Rightarrow> sensors_event list \<Rightarrow> sensors_event list" where
  "writer_batch eventsPolled buffer =
     (if eventsPolled \<le> 0 \<or> eventsPolled > SENSOR_EVENT_QUEUE_CAPACITY then [] else take (nat eventsPolled) buffer)"

section \<open>Delivering events\<close>

definition copy_event_remap_handle :: "sensors_h \<Rightarrow> handles \<Rightarrow> sensors_event \<Rightarrow> int \<Rightarrow> sensors_event" where
  "copy_event_remap_handle K h src sub_index =
     (if ev_type src = SENSOR_TYPE_META_DATA K
      then src\<lparr>ev_meta_sensor := get_global_handle h (FullHandle sub_index (ev_meta_sensor src))\<rparr>
      else src\<lparr>ev_sensor := get_global_handle h (FullHandle sub_index (ev_sensor src))\<rparr>)"

definition flush_event :: "sensors_h \<Rightarrow> PendingFlush \<Rightarrow> sensors_event" where
  "flush_event K f = zero_event\<lparr>ev_version := META_DATA_VERSION K, ev_type := SENSOR_TYPE_META_DATA K,
     ev_meta_what := META_DATA_FLUSH_COMPLETE K, ev_meta_sensor := pf_handle f\<rparr>"

text \<open>The requests that are emitted, at most \<open>count\<close>, and those that stay; undefined for a bad index.\<close>

fun emit_flushes :: "nat list \<Rightarrow> int \<Rightarrow> PendingFlush list \<Rightarrow> (PendingFlush list \<times> PendingFlush list) option" where
  "emit_flushes consumed count [] = Some ([], [])"
| "emit_flushes consumed count (f # fs) =
     (if count \<le> 0 then Some ([], f # fs)
      else if pf_module_index f < 0 \<or> pf_module_index f \<ge> int (length consumed) then None
      else if consumed ! nat (pf_module_index f) < pf_after_event f
      then map_option (\<lambda>(es, rest). (es, f # rest)) (emit_flushes consumed count fs)
      else map_option (\<lambda>(es, rest). (f # es, rest)) (emit_flushes consumed (count - 1) fs))"

definition emit_ready_flushes ::
  "sensors_h \<Rightarrow> poll_context \<Rightarrow> int \<Rightarrow> (sensors_event list \<times> poll_context) option" where
  "emit_ready_flushes K c count = do {
     (es, rest) \<leftarrow> emit_flushes (consumed_events c) count (pending_flushes c);
     Some (map (flush_event K) es, c\<lparr>pending_flushes := rest\<rparr>)
   }"

text \<open>A delivered event of a one-shot sensor ends its activity.\<close>

definition note_one_shot :: "sensors_h \<Rightarrow> poll_context \<Rightarrow> sensors_event \<Rightarrow> poll_context" where
  "note_one_shot K c e =
     (case sensor_by_handle (global_sensors c) (ev_sensor e) of
        None \<Rightarrow> c
      | Some s \<Rightarrow> if is_one_shot K s then c\<lparr>active_sensors := (active_sensors c)(s_handle s \<mapsto> False)\<rparr> else c)"

text \<open>
  The part of the inner loop that reads one queue; the state is \<^verbatim>\<open>empties\<close>, the events stored in \<^verbatim>\<open>data\<close> so far and the
  context. \<^verbatim>\<open>queues.at\<close> throws outside the vector.
\<close>

definition read_queue ::
  "sensors_h \<Rightarrow> int \<times> sensors_event list \<times> poll_context \<Rightarrow> (int \<times> sensors_event list \<times> poll_context) option" where
  "read_queue K = (\<lambda>(empties, out, c).
     let i = nat (nextReadIndex c); step = (\<lambda>c. c\<lparr>nextReadIndex := (nextReadIndex c + 1) smod int (length (queues c))\<rparr>)
     in if nextReadIndex c < 0 \<or> i \<ge> length (queues c) then None
        else do {
          e \<leftarrow> peek (queues c ! i);
          (case e of
             None \<Rightarrow> Some (empties + 1, out, step c)
           | Some ev \<Rightarrow>
               let ev1 = copy_event_remap_handle K (ctx_handles c) ev (nextReadIndex c);
                   (out1, c1) = (if ev_sensor ev1 = - 1 then (out, c) else (out @ [ev1], note_one_shot K c ev1))
               in do {
                 (_, q1) \<leftarrow> dequeue (queues c ! i);
                 (if i \<ge> length (consumed_events c) then None
                  else Some (0, out1, step (c1\<lparr>queues := (queues c)[i := q1],
                         consumed_events := (consumed_events c)[i := Suc (consumed_events c ! i)]\<rparr>)))
               })
        })"

definition poll_step ::
  "sensors_h \<Rightarrow> int \<Rightarrow> int \<times> sensors_event list \<times> poll_context
     \<Rightarrow> (int \<times> sensors_event list \<times> poll_context + int \<times> sensors_event list \<times> poll_context) option" where
  "poll_step K maxReads = (\<lambda>(empties, out, c).
     if \<not> (empties < int (length (queues c)) \<and> int (length out) < maxReads) then Some (Inr (empties, out, c))
     else do {
       (fl, c1) \<leftarrow> emit_ready_flushes K c (maxReads - int (length out));
       (if int (length (out @ fl)) = maxReads then Some (Inr (empties, out @ fl, c1))
        else map_option Inl (read_queue K (empties, out @ fl, c1)))
     })"

text \<open>
  One round of the outer loop of \<^verbatim>\<open>poll\<close>; when it yields no event, \<^verbatim>\<open>poll\<close> waits for \<^verbatim>\<open>data_available_cond\<close> and
  starts another round.
\<close>

definition poll_round ::
  "sensors_h \<Rightarrow> nat \<Rightarrow> poll_context \<Rightarrow> int \<Rightarrow> (sensors_event list \<times> poll_context) option" where
  "poll_round K fuel c maxReads = do {
     (_, out, c1) \<leftarrow> run_loop fuel (poll_step K maxReads) (0, [], c);
     (fl, c2) \<leftarrow> emit_ready_flushes K c1 (maxReads - int (length out));
     Some (out @ fl, c2)
   }"

text \<open>The refusal at the start of \<^verbatim>\<open>poll\<close>; \<open>dat\<close> tells whether the caller gave a buffer.\<close>

definition ctx_poll ::
  "sensors_h \<Rightarrow> nat \<Rightarrow> poll_context \<Rightarrow> bool \<Rightarrow> int \<Rightarrow> (int \<times> sensors_event list \<times> poll_context) option" where
  "ctx_poll K fuel c dat maxReads =
     (if \<not> dat \<or> maxReads \<le> 0 \<or> queues c = [] then Some (- EINVAL, [], c)
      else map_option (\<lambda>(out, c1). (int (length out), out, c1)) (poll_round K fuel c maxReads))"

section \<open>Opening and closing\<close>

definition ctx_close :: "'k subhal \<Rightarrow> poll_context \<Rightarrow> 'k \<Rightarrow> int \<times> 'k" where
  "ctx_close S c k = (0, fold (\<lambda>d. sub_close S (dev_id d)) (sub_hw_devices c) k)"

text \<open>The context is freed after it was closed; nothing happens for a null pointer.\<close>

definition device__close :: "'k subhal \<Rightarrow> poll_context option \<Rightarrow> 'k \<Rightarrow> int \<times> 'k" where
  "device__close S dev k = (case dev of None \<Rightarrow> (0, k) | Some c \<Rightarrow> (0, snd (ctx_close S c k)))"

text \<open>The loop over the modules: the error that ended it and the devices opened so far.\<close>

fun open_subs ::
  "sensors_h \<Rightarrow> 'k subhal \<Rightarrow> string \<Rightarrow> nat list \<Rightarrow> sub_device list \<Rightarrow> 'k \<Rightarrow> (int \<times> sub_device list) \<times> 'k" where
  "open_subs K S name [] opened k = ((0, opened), k)"
| "open_subs K S name (m # ms) opened k =
     (case sub_open S m name k of ((r, sub), k1) \<Rightarrow>
        let error = (case sub of
               Some d \<Rightarrow>
                 if r = 0 then
                   if dev_version d < SENSORS_DEVICE_API_VERSION_1_0 K \<or> \<not> has_close d \<or> \<not> has_activate d
                      \<or> \<not> has_setDelay d \<or> \<not> has_poll d
                   then - EINVAL else 0
                 else r
             | None \<Rightarrow> if r = 0 then - ENODEV else r);
            opened1 = (case sub of Some d \<Rightarrow> opened @ [d] | None \<Rightarrow> opened)
        in if error \<noteq> 0 then ((error, opened1), k1) else open_subs K S name ms opened1 k1)"

definition close_opened :: "'k subhal \<Rightarrow> sub_device list \<Rightarrow> 'k \<Rightarrow> 'k" where
  "close_opened S opened k = fold (\<lambda>d k. if has_close d then sub_close S (dev_id d) k else k) opened k"

text \<open>
  \<open>device_out\<close> tells whether the caller gave a place for the result. The context reads the handle tables and the
  list of sensors, which do not change any more once the list exists.
\<close>

definition open_sensors ::
  "sensors_h \<Rightarrow> 'k subhal \<Rightarrow> dl_sys \<Rightarrow> string option \<Rightarrow> (nat \<Rightarrow> sensor list) \<Rightarrow> bool \<Rightarrow> string option \<Rightarrow> hal_globals \<Rightarrow> 'k
     \<Rightarrow> ((int \<times> poll_context option) \<times> hal_globals) \<times> 'k" where
  "open_sensors K S D conf sensors_of device_out name G k =
     (case name of
        None \<Rightarrow> (((- EINVAL, None), G), k)
      | Some nm \<Rightarrow>
          if \<not> device_out then (((- EINVAL, None), G), k)
          else
            let G1 = lazy_init_modules D conf G in
            if loaded_modules G1 = [] then (((- ENODEV, None), G1), k)
            else case open_subs K S nm (loaded_modules G1) [] k of ((error, opened), k1) \<Rightarrow>
              if error \<noteq> 0 then (((error, None), G1), close_opened S opened k1)
              else
                let G2 = lazy_init_sensors_list K D conf sensors_of G1;
                    c0 = \<lparr>sub_hw_devices = [], queues = [], consumed_events = [], pending_flushes = [],
                          active_sensors = Map.empty, nextReadIndex = 0, ctx_handles = hal_handles G2,
                          global_sensors = all_sensors G2\<rparr>
                in (((0, Some (foldl addSubHwDevice c0 opened)), G2), k1))"

end
