(* ===== verification/Sensor_Props.thy ===== *)
theory Sensor_Props
  imports Sensor_Hal "HOL-Library.Multiset"
begin

text \<open>
  Properties of the sensor HAL: handles are translated both ways, the merged stream delivers each sub-HAL's events in order
  and each flush completion behind the events it waits for, \<^verbatim>\<open>poll\<close> sleeps only when there is nothing to deliver, and
  opening is all or nothing.
\<close>

section \<open>What a call of poll delivers\<close>

text \<open>
  The account of a call: the events it took from the queues and the flush requests it completed, in order.
\<close>

datatype item = Data nat sensors_event | Done PendingFlush

definition data_of :: "nat \<Rightarrow> item list \<Rightarrow> sensors_event list" where
  "data_of i items = List.map_filter (\<lambda>x. case x of Data j e \<Rightarrow> if j = i then Some e else None | Done _ \<Rightarrow> None) items"

definition done_of :: "item list \<Rightarrow> PendingFlush list" where
  "done_of items = List.map_filter (\<lambda>x. case x of Data _ _ \<Rightarrow> None | Done f \<Rightarrow> Some f) items"

definition render :: "sensors_h \<Rightarrow> handles \<Rightarrow> item \<Rightarrow> sensors_event list" where
  "render K h x =
     (case x of
        Data i e \<Rightarrow> let e' = copy_event_remap_handle K h e (int i) in if ev_sensor e' = - 1 then [] else [e']
      | Done f \<Rightarrow> [flush_event K f])"

text \<open>Every completion comes after the number of events that its request waits for.\<close>

definition barrier :: "nat list \<Rightarrow> item list \<Rightarrow> bool" where
  "barrier consumed items \<longleftrightarrow> (\<forall>xs f ys. items = xs @ Done f # ys \<longrightarrow>
     pf_after_event f \<le> consumed ! nat (pf_module_index f) + length (data_of (nat (pf_module_index f)) xs))"

lemma data_of_simps [simp]:
  "data_of i [] = []" "data_of i (xs @ ys) = data_of i xs @ data_of i ys"
  "data_of i (Data j e # xs) = (if j = i then e # data_of i xs else data_of i xs)" "data_of i (Done f # xs) = data_of i xs"
  by (simp_all add: data_of_def List.map_filter_def)

lemma done_of_simps [simp]:
  "done_of [] = []" "done_of (xs @ ys) = done_of xs @ done_of ys"
  "done_of (Data j e # xs) = done_of xs" "done_of (Done f # xs) = f # done_of xs"
  by (simp_all add: done_of_def List.map_filter_def)

lemma data_of_done [simp]: "data_of i (map Done fs) = []" "done_of (map Done fs) = fs"
  by (induction fs) simp_all

lemma barrier_nil [simp]: "barrier consumed []"
  by (simp add: barrier_def)

lemma barrier_snoc:
  "barrier consumed (items @ [x]) \<longleftrightarrow> barrier consumed items \<and> (case x of Data _ _ \<Rightarrow> True
     | Done f \<Rightarrow> pf_after_event f \<le> consumed ! nat (pf_module_index f) + length (data_of (nat (pf_module_index f)) items))"
proof
  assume b: "barrier consumed (items @ [x])"
  show "barrier consumed items \<and> (case x of Data _ _ \<Rightarrow> True
     | Done f \<Rightarrow> pf_after_event f \<le> consumed ! nat (pf_module_index f) + length (data_of (nat (pf_module_index f)) items))"
  proof
    show "barrier consumed items" unfolding barrier_def
    proof (intro allI impI)
      fix xs f ys assume "items = xs @ Done f # ys"
      then have "items @ [x] = xs @ Done f # (ys @ [x])" by simp
      then show "pf_after_event f \<le> consumed ! nat (pf_module_index f) + length (data_of (nat (pf_module_index f)) xs)"
        using b unfolding barrier_def by blast
    qed
  next
    show "case x of Data _ _ \<Rightarrow> True
     | Done f \<Rightarrow> pf_after_event f \<le> consumed ! nat (pf_module_index f) + length (data_of (nat (pf_module_index f)) items)"
      using b by (auto simp: barrier_def split: item.split)
  qed
next
  assume b: "barrier consumed items \<and> (case x of Data _ _ \<Rightarrow> True
     | Done f \<Rightarrow> pf_after_event f \<le> consumed ! nat (pf_module_index f) + length (data_of (nat (pf_module_index f)) items))"
  show "barrier consumed (items @ [x])" unfolding barrier_def
  proof (intro allI impI)
    fix xs f ys assume a: "items @ [x] = xs @ Done f # ys"
    show "pf_after_event f \<le> consumed ! nat (pf_module_index f) + length (data_of (nat (pf_module_index f)) xs)"
    proof (cases ys rule: rev_cases)
      case Nil
      then show ?thesis using a b by simp
    next
      case (snoc ys' y)
      then have "items = xs @ Done f # ys'" using a by simp
      then show ?thesis using b unfolding barrier_def by blast
    qed
  qed
qed

lemma barrier_done:
  "barrier consumed items \<Longrightarrow>
   \<forall>f \<in> set fs. pf_after_event f \<le> consumed ! nat (pf_module_index f) + length (data_of (nat (pf_module_index f)) items) \<Longrightarrow>
   barrier consumed (items @ map Done fs)"
proof (induction fs arbitrary: items)
  case (Cons f fs)
  then have "barrier consumed (items @ [Done f])" by (simp add: barrier_snoc)
  from Cons.IH [OF this] show ?case using Cons.prems(2) by simp
qed simp

section \<open>The invariant of a context\<close>

definition ctx_ok :: "poll_context \<Rightarrow> bool" where
  "ctx_ok c \<longleftrightarrow> queues c \<noteq> [] \<and> length (consumed_events c) = length (queues c) \<and> (\<forall>q \<in> set (queues c). queue_ok q)
     \<and> 0 \<le> nextReadIndex c \<and> nextReadIndex c < int (length (queues c))
     \<and> (\<forall>f \<in> set (pending_flushes c). 0 \<le> pf_module_index f \<and> pf_module_index f < int (length (queues c)))"

definition flush_ready :: "poll_context \<Rightarrow> PendingFlush \<Rightarrow> bool" where
  "flush_ready c f \<longleftrightarrow> pf_after_event f \<le> consumed_events c ! nat (pf_module_index f)"

lemma emit_flushes_result:
  assumes "\<forall>f \<in> set fs. 0 \<le> pf_module_index f \<and> pf_module_index f < int (length consumed)"
  shows "\<exists>es rest. emit_flushes consumed room fs = Some (es, rest) \<and> mset fs = mset es + mset rest
    \<and> (\<forall>f \<in> set es. pf_after_event f \<le> consumed ! nat (pf_module_index f)) \<and> int (length es) \<le> max 0 room
    \<and> (int (length es) < room \<longrightarrow> (\<forall>f \<in> set rest. consumed ! nat (pf_module_index f) < pf_after_event f))"
  using assms
proof (induction fs arbitrary: room)
  case (Cons f fs)
  show ?case
  proof (cases "room \<le> 0")
    case True
    then show ?thesis by simp
  next
    case False
    have f: "0 \<le> pf_module_index f" "pf_module_index f < int (length consumed)" using Cons.prems by simp_all
    show ?thesis
    proof (cases "consumed ! nat (pf_module_index f) < pf_after_event f")
      case True
      obtain es rest where "emit_flushes consumed room fs = Some (es, rest)" "mset fs = mset es + mset rest"
        "\<forall>f \<in> set es. pf_after_event f \<le> consumed ! nat (pf_module_index f)" "int (length es) \<le> max 0 room"
        "int (length es) < room \<longrightarrow> (\<forall>f \<in> set rest. consumed ! nat (pf_module_index f) < pf_after_event f)"
        using Cons.IH [of room] Cons.prems by auto
      then show ?thesis using False f True by (intro exI [of _ es] exI [of _ "f # rest"]) simp
    next
      case le: False
      obtain es rest where "emit_flushes consumed (room - 1) fs = Some (es, rest)" "mset fs = mset es + mset rest"
        "\<forall>f \<in> set es. pf_after_event f \<le> consumed ! nat (pf_module_index f)" "int (length es) \<le> max 0 (room - 1)"
        "int (length es) < room - 1 \<longrightarrow> (\<forall>f \<in> set rest. consumed ! nat (pf_module_index f) < pf_after_event f)"
        using Cons.IH [of "room - 1"] Cons.prems by auto
      then show ?thesis using False f le by (intro exI [of _ "f # es"] exI [of _ rest]) simp
    qed
  qed
qed simp

text \<open>What a call has done so far, from the context \<open>c0\<close> to \<open>c\<close>.\<close>

definition delivered :: "poll_context \<Rightarrow> item list \<Rightarrow> poll_context \<Rightarrow> bool" where
  "delivered c0 items c \<longleftrightarrow> ctx_ok c \<and> length (queues c) = length (queues c0)
     \<and> ctx_handles c = ctx_handles c0 \<and> global_sensors c = global_sensors c0 \<and> sub_hw_devices c = sub_hw_devices c0
     \<and> (\<forall>i < length (queues c0). contents (queues c0 ! i) = data_of i items @ contents (queues c ! i)
          \<and> consumed_events c ! i = consumed_events c0 ! i + length (data_of i items)
          \<and> mPendingSize (queues c ! i) = mPendingSize (queues c0 ! i))
     \<and> barrier (consumed_events c0) items \<and> mset (pending_flushes c0) = mset (done_of items) + mset (pending_flushes c)
     \<and> (\<forall>i e. Data i e \<in> set items \<longrightarrow> i < length (queues c0))"

lemma delivered_refl: "ctx_ok c \<Longrightarrow> delivered c [] c"
  by (simp add: delivered_def)

lemma delivered_emit:
  assumes d: "delivered c0 items c"
  shows "\<exists>fs rest. emit_ready_flushes K c room = Some (map (flush_event K) fs, c\<lparr>pending_flushes := rest\<rparr>)
    \<and> delivered c0 (items @ map Done fs) (c\<lparr>pending_flushes := rest\<rparr>) \<and> int (length fs) \<le> max 0 room
    \<and> (int (length fs) < room \<longrightarrow> (\<forall>f \<in> set rest. \<not> flush_ready c f))"
proof -
  have ok: "ctx_ok c" and len: "length (queues c) = length (queues c0)" using d by (simp_all add: delivered_def)
  have rng: "\<forall>f \<in> set (pending_flushes c). 0 \<le> pf_module_index f \<and> pf_module_index f < int (length (consumed_events c))"
    using ok by (simp add: ctx_ok_def)
  obtain fs rest where e: "emit_flushes (consumed_events c) room (pending_flushes c) = Some (fs, rest)"
    "mset (pending_flushes c) = mset fs + mset rest"
    "\<forall>f \<in> set fs. pf_after_event f \<le> consumed_events c ! nat (pf_module_index f)" "int (length fs) \<le> max 0 room"
    "int (length fs) < room \<longrightarrow> (\<forall>f \<in> set rest. consumed_events c ! nat (pf_module_index f) < pf_after_event f)"
    using emit_flushes_result [OF rng, of room] by blast
  have sub: "set fs \<union> set rest = set (pending_flushes c)" using e(2) by (metis set_mset_mset set_mset_union)
  have "\<forall>f \<in> set fs. pf_after_event f \<le> consumed_events c0 ! nat (pf_module_index f)
      + length (data_of (nat (pf_module_index f)) items)"
  proof
    fix f assume f: "f \<in> set fs"
    then have "f \<in> set (pending_flushes c)" using sub by blast
    then have "pf_module_index f < int (length (queues c0))" "0 \<le> pf_module_index f" using ok len by (simp_all add: ctx_ok_def)
    then have "nat (pf_module_index f) < length (queues c0)" by simp
    then have "consumed_events c ! nat (pf_module_index f) = consumed_events c0 ! nat (pf_module_index f)
        + length (data_of (nat (pf_module_index f)) items)" using d by (simp add: delivered_def)
    then show "pf_after_event f \<le> consumed_events c0 ! nat (pf_module_index f)
      + length (data_of (nat (pf_module_index f)) items)" using bspec [OF e(3) f] by linarith
  qed
  from barrier_done [OF _ this] have "barrier (consumed_events c0) (items @ map Done fs)" using d by (simp add: delivered_def)
  moreover have "ctx_ok (c\<lparr>pending_flushes := rest\<rparr>)" using ok sub by (auto simp: ctx_ok_def)
  ultimately have "delivered c0 (items @ map Done fs) (c\<lparr>pending_flushes := rest\<rparr>)"
    using d e(2) by (auto simp: delivered_def)
  then show ?thesis
    using e by (intro exI [of _ fs] exI [of _ rest]) (simp add: emit_ready_flushes_def flush_ready_def not_le)
qed

lemma note_one_shot_frame:
  "\<exists>a. note_one_shot K c e = c\<lparr>active_sensors := a\<rparr>"
  by (auto simp: note_one_shot_def split: option.split intro: exI [of _ "active_sensors c"])

lemma next_index:
  assumes "ctx_ok c"
  shows "(nextReadIndex c + 1) smod int (length (queues c)) = (nextReadIndex c + 1) mod int (length (queues c))"
    "0 \<le> (nextReadIndex c + 1) mod int (length (queues c))"
    "(nextReadIndex c + 1) mod int (length (queues c)) < int (length (queues c))"
  using assms smod_pos [of "nextReadIndex c + 1" "int (length (queues c))"] by (auto simp: ctx_ok_def)

lemma delivered_read:
  assumes d: "delivered c0 items c"
  shows "(contents (queues c ! nat (nextReadIndex c)) = [] \<and>
     (\<exists>c'. read_queue K (empties, out, c) = Some (empties + 1, out, c') \<and> delivered c0 items c'
        \<and> queues c' = queues c \<and> pending_flushes c' = pending_flushes c
        \<and> nextReadIndex c' = (nextReadIndex c + 1) mod int (length (queues c))))
   \<or> (\<exists>e es c'. contents (queues c ! nat (nextReadIndex c)) = e # es
        \<and> read_queue K (empties, out, c) = Some (0, out @ render K (ctx_handles c) (Data (nat (nextReadIndex c)) e), c')
        \<and> delivered c0 (items @ [Data (nat (nextReadIndex c)) e]) c'
        \<and> sum_list (map (length \<circ> contents) (queues c')) < sum_list (map (length \<circ> contents) (queues c)))"
proof -
  let ?i = "nat (nextReadIndex c)"
  have ok: "ctx_ok c" using d by (simp add: delivered_def)
  have i: "?i < length (queues c)" "\<not> nextReadIndex c < 0" "?i < length (consumed_events c)" "int ?i = nextReadIndex c"
    using ok by (auto simp: ctx_ok_def)
  have q: "queue_ok (queues c ! ?i)" using ok i(1) by (simp add: ctx_ok_def)
  note nx = next_index [OF ok]
  show ?thesis
  proof (cases "contents (queues c ! ?i)")
    case Nil
    let ?c' = "c\<lparr>nextReadIndex := (nextReadIndex c + 1) mod int (length (queues c))\<rparr>"
    have "ctx_ok ?c'" using ok nx(2,3) by (simp add: ctx_ok_def)
    then have "delivered c0 items ?c'" using d by (simp add: delivered_def)
    moreover have "read_queue K (empties, out, c) = Some (empties + 1, out, ?c')"
      using ring.front_empty [OF q Nil] i(1-3) nx(1) by (simp add: read_queue_def Let_def)
    ultimately show ?thesis using Nil by auto
  next
    case (Cons e es)
    obtain b q1 where q1: "dequeue (queues c ! ?i) = Some (b, q1)" "queue_ok q1" "contents q1 = es"
      "mPendingSize q1 = mPendingSize (queues c ! ?i)" using dequeue_contents [OF q] Cons by auto
    let ?ev = "copy_event_remap_handle K (ctx_handles c) e (nextReadIndex c)"
    obtain a where a: "(if ev_sensor ?ev = - 1 then (out, c) else (out @ [?ev], note_one_shot K c ?ev))
        = (out @ render K (ctx_handles c) (Data ?i e), c\<lparr>active_sensors := a\<rparr>)"
    proof (cases "ev_sensor ?ev = - 1")
      case True
      then show ?thesis using that [of "active_sensors c"] i(4) by (simp add: render_def)
    next
      case False
      then show ?thesis using that note_one_shot_frame [of K c ?ev] i(4) by (auto simp: render_def)
    qed
    define c' where "c' = c\<lparr>active_sensors := a, queues := (queues c)[?i := q1],
      consumed_events := (consumed_events c)[?i := Suc (consumed_events c ! ?i)],
      nextReadIndex := (nextReadIndex c + 1) mod int (length (queues c))\<rparr>"
    have r: "read_queue K (empties, out, c) = Some (0, out @ render K (ctx_handles c) (Data ?i e), c')"
      using ring.front_pop(1) [OF q Cons] q1(1) i(1-3) a nx(1) by (simp add: read_queue_def Let_def c'_def)
    have "ctx_ok c'" using ok q1(2) nx(2,3) i(1) by (auto simp: ctx_ok_def c'_def dest!: set_update_subset_insert [THEN subsetD])
    moreover have "contents (queues c0 ! j) = data_of j (items @ [Data ?i e]) @ contents (queues c' ! j)
        \<and> consumed_events c' ! j = consumed_events c0 ! j + length (data_of j (items @ [Data ?i e]))
        \<and> mPendingSize (queues c' ! j) = mPendingSize (queues c0 ! j)" if "j < length (queues c0)" for j
      using d that i(1,3) q1(3,4) Cons by (cases "j = ?i") (auto simp: delivered_def c'_def)
    ultimately have "delivered c0 (items @ [Data ?i e]) c'"
      using d i(1) by (auto simp: delivered_def c'_def barrier_snoc)
    moreover have "sum_list (map (length \<circ> contents) (queues c')) < sum_list (map (length \<circ> contents) (queues c))"
      using i(1) q1(3) Cons sum_list_update [of ?i "map (length \<circ> contents) (queues c)" "length es"]
        elem_le_sum_list [of ?i "map (length \<circ> contents) (queues c)"]
      by (simp add: c'_def map_update)
    ultimately show ?thesis using r Cons by blast
  qed
qed

section \<open>The loop of poll\<close>

text \<open>The last queues visited were empty.\<close>

definition idle_since :: "int \<Rightarrow> poll_context \<Rightarrow> bool" where
  "idle_since empties c \<longleftrightarrow> (\<forall>j. 0 \<le> j \<and> j < empties \<longrightarrow>
     contents (queues c ! nat ((nextReadIndex c - 1 - j) mod int (length (queues c)))) = [])"

lemma idle_since_zero [simp]: "idle_since 0 c"
  by (auto simp: idle_since_def)

lemma idle_since_step:
  assumes "idle_since empties c" and "queues c' = queues c" and "ctx_ok c"
    and "nextReadIndex c' = (nextReadIndex c + 1) mod int (length (queues c))"
    and "contents (queues c ! nat (nextReadIndex c)) = []"
  shows "idle_since (empties + 1) c'"
  unfolding idle_since_def
proof (intro allI impI)
  fix j assume j: "0 \<le> j \<and> j < empties + 1"
  let ?n = "int (length (queues c))"
  have n: "(nextReadIndex c' - 1 - j) mod ?n = (nextReadIndex c - j) mod ?n"
    unfolding assms(4) diff_diff_eq by (subst mod_diff_left_eq) simp
  show "contents (queues c' ! nat ((nextReadIndex c' - 1 - j) mod int (length (queues c')))) = []"
  proof (cases "j = 0")
    case True
    then show ?thesis using n assms(2,3,5) by (simp add: ctx_ok_def)
  next
    case False
    then have "0 \<le> j - 1 \<and> j - 1 < empties" using j by auto
    then have "contents (queues c ! nat ((nextReadIndex c - 1 - (j - 1)) mod ?n)) = []"
      using assms(1) unfolding idle_since_def by blast
    then show ?thesis using n assms(2) by simp
  qed
qed

lemma idle_since_all:
  assumes "idle_since empties c" and "int (length (queues c)) \<le> empties" and "i < length (queues c)"
  shows "contents (queues c ! i) = []"
proof -
  let ?n = "int (length (queues c))"
  let ?j = "(nextReadIndex c - 1 - int i) mod ?n"
  have n: "0 < ?n" using assms(3) by linarith
  have "0 \<le> ?j \<and> ?j < empties" using pos_mod_sign [OF n] order.strict_trans2 [OF pos_mod_bound [OF n] assms(2)] by blast
  moreover have "(nextReadIndex c - 1 - ?j) mod ?n = int i"
    using assms(3) by (simp add: mod_diff_right_eq)
  ultimately show ?thesis using assms(1) unfolding idle_since_def by (metis nat_int)
qed

definition poll_inv :: "sensors_h \<Rightarrow> int \<Rightarrow> poll_context \<Rightarrow> int \<times> sensors_event list \<times> poll_context \<Rightarrow> bool" where
  "poll_inv K maxReads c0 = (\<lambda>(empties, out, c). (\<exists>items. delivered c0 items c
       \<and> out = concat (map (render K (ctx_handles c0)) items)) \<and> int (length out) \<le> maxReads
     \<and> 0 \<le> empties \<and> empties \<le> int (length (queues c0)) \<and> idle_since empties c)"

definition poll_post :: "sensors_h \<Rightarrow> int \<Rightarrow> poll_context \<Rightarrow> int \<times> sensors_event list \<times> poll_context \<Rightarrow> bool" where
  "poll_post K maxReads c0 s \<longleftrightarrow> poll_inv K maxReads c0 s
     \<and> (case s of (empties, out, c) \<Rightarrow> empties = int (length (queues c0)) \<or> int (length out) = maxReads)"

definition poll_left :: "int \<times> sensors_event list \<times> poll_context \<Rightarrow> nat" where
  "poll_left = (\<lambda>(empties, out, c). sum_list (map (length \<circ> contents) (queues c)) * Suc (length (queues c))
     + nat (int (length (queues c)) - empties))"

lemma render_done [simp]: "concat (map (render K h) (map Done fs)) = map (flush_event K) fs"
  by (induction fs) (simp_all add: render_def)

lemma variant_drop: "a < b \<Longrightarrow> a * Suc n + n < b * Suc n + m" for a b n m :: nat
proof -
  assume "a < b"
  then have "Suc a * Suc n \<le> b * Suc n" by (intro mult_le_mono1) simp
  then show ?thesis by simp
qed

lemma render_length: "length (render K h x) \<le> 1"
  by (simp add: render_def Let_def split: item.split)

lemma poll_step_result:
  assumes inv: "poll_inv K maxReads c0 s"
  shows "\<exists>x. poll_step K maxReads s = Some x \<and> (case x of Inl s' \<Rightarrow> poll_inv K maxReads c0 s' \<and> poll_left s' < poll_left s
    | Inr r \<Rightarrow> poll_post K maxReads c0 r)"
proof -
  obtain empties out c where s: "s = (empties, out, c)" by (cases s)
  obtain items where d: "delivered c0 items c" and out: "out = concat (map (render K (ctx_handles c0)) items)"
    and b: "int (length out) \<le> maxReads" "0 \<le> empties" "empties \<le> int (length (queues c0))" and idle: "idle_since empties c"
    using inv s by (auto simp: poll_inv_def)
  have len: "length (queues c) = length (queues c0)" "ctx_handles c = ctx_handles c0" using d by (simp_all add: delivered_def)
  show ?thesis
  proof (cases "empties < int (length (queues c)) \<and> int (length out) < maxReads")
    case False
    then show ?thesis using s inv b len by (auto simp: poll_step_def poll_post_def)
  next
    case True
    obtain fs rest where e: "emit_ready_flushes K c (maxReads - int (length out)) = Some (map (flush_event K) fs, c\<lparr>pending_flushes := rest\<rparr>)"
      "delivered c0 (items @ map Done fs) (c\<lparr>pending_flushes := rest\<rparr>)" "int (length fs) \<le> maxReads - int (length out)"
      using delivered_emit [OF d, of K "maxReads - int (length out)"] True by auto
    let ?c = "c\<lparr>pending_flushes := rest\<rparr>" and ?out = "out @ map (flush_event K) fs" and ?items = "items @ map Done fs"
    have out1: "?out = concat (map (render K (ctx_handles c0)) ?items)"
      unfolding out map_append concat_append render_done ..
    have idle1: "idle_since empties ?c" using idle by (simp add: idle_since_def)
    show ?thesis
    proof (cases "int (length ?out) = maxReads")
      case full: True
      have "poll_step K maxReads s = Some (Inr (empties, ?out, ?c))" using s e(1) True full by (simp add: poll_step_def)
      moreover have "poll_inv K maxReads c0 (empties, ?out, ?c)"
        unfolding poll_inv_def prod.case using e(2) out1 full b(2,3) idle1 by blast
      ultimately show ?thesis using full by (simp add: poll_post_def)
    next
      case False
      then have lt: "int (length ?out) < maxReads" using e(3) by simp
      have step: "poll_step K maxReads s = map_option Inl (read_queue K (empties, ?out, ?c))"
        using s e(1) True False by (simp add: poll_step_def)
      from delivered_read [OF e(2), of K empties ?out] show ?thesis
      proof (elim disjE conjE exE)
        fix c'
        assume a: "contents (queues ?c ! nat (nextReadIndex ?c)) = []" "read_queue K (empties, ?out, ?c) = Some (empties + 1, ?out, c')"
          "delivered c0 ?items c'" "queues c' = queues ?c" "nextReadIndex c' = (nextReadIndex ?c + 1) mod int (length (queues ?c))"
        have "ctx_ok ?c" using e(2) by (simp add: delivered_def)
        then have "idle_since (empties + 1) c'" by (rule idle_since_step [OF idle1 a(4) _ a(5,1)])
        then have "poll_inv K maxReads c0 (empties + 1, ?out, c')"
          unfolding poll_inv_def prod.case using a(3) out1 lt b True len by (intro conjI exI [of _ ?items]) simp_all
        moreover have "poll_left (empties + 1, ?out, c') < poll_left s" using a(4) s True by (simp add: poll_left_def)
        ultimately show ?thesis using step a(2) by simp
      next
        fix ev es c'
        let ?i = "nat (nextReadIndex ?c)"
        assume a: "read_queue K (empties, ?out, ?c) = Some (0, ?out @ render K (ctx_handles ?c) (Data ?i ev), c')"
          "delivered c0 (?items @ [Data ?i ev]) c'"
          "sum_list (map (length \<circ> contents) (queues c')) < sum_list (map (length \<circ> contents) (queues ?c))"
        let ?out2 = "?out @ render K (ctx_handles ?c) (Data ?i ev)"
        have l2: "int (length ?out2) \<le> maxReads" using lt render_length [of K "ctx_handles ?c" "Data ?i ev"] by simp
        have "?out2 = concat (map (render K (ctx_handles c0)) (?items @ [Data ?i ev]))" using out1 len by simp
        then have "\<exists>items. delivered c0 items c' \<and> ?out2 = concat (map (render K (ctx_handles c0)) items)" using a(2) by blast
        then have inv': "poll_inv K maxReads c0 (0, ?out2, c')" unfolding poll_inv_def prod.case using l2 by simp
        have "length (queues c') = length (queues c)" using a(2) len by (simp add: delivered_def)
        then have "poll_left (0, ?out2, c') < poll_left s" using variant_drop [OF a(3)] s b(2) True by (simp add: poll_left_def)
        then show ?thesis using step a(1) inv' by simp
      qed
    qed
  qed
qed

interpretation poll_loop: ending_loop "poll_step K maxReads" "poll_inv K maxReads c0" "poll_post K maxReads c0" poll_left
  for K maxReads c0
proof unfold_locales
  fix s s' assume "poll_inv K maxReads c0 s" and "poll_step K maxReads s = Some (Inl s')"
  then show "poll_inv K maxReads c0 s'" "poll_left s' < poll_left s" using poll_step_result [of K maxReads c0 s] by auto
next
  fix s r assume "poll_inv K maxReads c0 s" and "poll_step K maxReads s = Some (Inr r)"
  then show "poll_post K maxReads c0 r" using poll_step_result [of K maxReads c0 s] by auto
next
  fix s assume "poll_inv K maxReads c0 s"
  then show "poll_step K maxReads s \<noteq> None" using poll_step_result [of K maxReads c0 s] by auto
qed

text \<open>One round per event and one per queue, and a last one for each event.\<close>

definition poll_fuel :: "poll_context \<Rightarrow> nat" where
  "poll_fuel c = Suc (poll_left (0, [], c))"

lemma poll_round_ends:
  assumes ok: "ctx_ok c" and m: "0 < maxReads"
  shows "\<exists>out c' items. poll_round K (poll_fuel c) c maxReads = Some (out, c') \<and> delivered c items c'
    \<and> out = concat (map (render K (ctx_handles c)) items) \<and> int (length out) \<le> maxReads
    \<and> (out = [] \<longrightarrow> (\<forall>i < length (queues c). contents (queues c' ! i) = [])
        \<and> (\<forall>f \<in> set (pending_flushes c'). \<not> flush_ready c' f))"
proof -
  have "poll_inv K maxReads c (0, [], c)" unfolding poll_inv_def prod.case
    using delivered_refl [OF ok] m by (intro conjI exI [of _ "[]"]) simp_all
  from poll_loop.finishes [OF this, of "poll_fuel c"] obtain empties out c1 where
    r: "run_loop (poll_fuel c) (poll_step K maxReads) (0, [], c) = Some (empties, out, c1)"
    "poll_post K maxReads c (empties, out, c1)" by (auto simp: poll_fuel_def)
  then obtain items where d: "delivered c items c1" and out: "out = concat (map (render K (ctx_handles c)) items)"
    and b: "int (length out) \<le> maxReads" "idle_since empties c1" "empties = int (length (queues c)) \<or> int (length out) = maxReads"
    by (auto simp: poll_post_def poll_inv_def)
  obtain fs rest where e: "emit_ready_flushes K c1 (maxReads - int (length out)) = Some (map (flush_event K) fs, c1\<lparr>pending_flushes := rest\<rparr>)"
    "delivered c (items @ map Done fs) (c1\<lparr>pending_flushes := rest\<rparr>)" "int (length fs) \<le> maxReads - int (length out)"
    "int (length fs) < maxReads - int (length out) \<longrightarrow> (\<forall>f \<in> set rest. \<not> flush_ready c1 f)"
    using delivered_emit [OF d, of K "maxReads - int (length out)"] b(1) by auto
  let ?c = "c1\<lparr>pending_flushes := rest\<rparr>" and ?out = "out @ map (flush_event K) fs"
  have out1: "?out = concat (map (render K (ctx_handles c)) (items @ map Done fs))"
    unfolding out map_append concat_append render_done ..
  have len: "length (queues c1) = length (queues c)" using d by (simp add: delivered_def)
  have "(\<forall>i < length (queues c). contents (queues ?c ! i) = []) \<and> (\<forall>f \<in> set (pending_flushes ?c). \<not> flush_ready ?c f)"
    if "?out = []"
  proof -
    have z: "out = []" "fs = []" using that by simp_all
    then have "empties = int (length (queues c))" using b(3) m by simp
    then show ?thesis using idle_since_all [OF b(2)] len e(4) z m by (simp add: flush_ready_def)
  qed
  moreover have "poll_round K (poll_fuel c) c maxReads = Some (?out, ?c)" using r(1) e(1) by (simp add: poll_round_def)
  moreover have "int (length ?out) \<le> maxReads" using e(3) by simp
  ultimately show ?thesis using e(2) out1 by blast
qed

text \<open>
  What the events stand for: the sensor an event is about (for meta data, the sensor in its payload), whether
  the list of sensors knows it, and the event that the client is to see.
\<close>

definition about_sensor :: "sensors_h \<Rightarrow> sensors_event \<Rightarrow> int" where
  "about_sensor K e = (if ev_type e = SENSOR_TYPE_META_DATA K then ev_meta_sensor e else ev_sensor e)"

definition known :: "sensors_h \<Rightarrow> handles \<Rightarrow> nat \<Rightarrow> sensors_event \<Rightarrow> bool" where
  "known K h i e \<longleftrightarrow> get_global_handle h (FullHandle (int i) (about_sensor K e)) \<noteq> - 1"

definition translated :: "sensors_h \<Rightarrow> handles \<Rightarrow> item \<Rightarrow> sensors_event list" where
  "translated K h x =
     (case x of
        Data i e \<Rightarrow> if known K h i e then [copy_event_remap_handle K h e (int i)] else []
      | Done f \<Rightarrow> [flush_event K f])"

definition meta_known :: "sensors_h \<Rightarrow> poll_context \<Rightarrow> bool" where
  "meta_known K c \<longleftrightarrow> (\<forall>i < length (queues c). \<forall>e \<in> set (contents (queues c ! i)).
     ev_type e = SENSOR_TYPE_META_DATA K \<longrightarrow> known K (ctx_handles c) i e \<and> ev_sensor e \<noteq> - 1)"

lemma data_of_member: "e \<in> set (data_of i items) \<longleftrightarrow> Data i e \<in> set items"
proof (induction items)
  case (Cons x items)
  then show ?case by (cases x) auto
qed simp

lemma render_translated:
  assumes "meta_known K c" and d: "delivered c items c'" and x: "x \<in> set items"
  shows "render K (ctx_handles c) x = translated K (ctx_handles c) x"
proof (cases x)
  case (Data i e)
  then have i: "i < length (queues c)" using d x by (auto simp: delivered_def)
  then have "e \<in> set (contents (queues c ! i))" using d data_of_member [of e i items] x Data by (auto simp: delivered_def)
  then have "ev_type e = SENSOR_TYPE_META_DATA K \<longrightarrow> known K (ctx_handles c) i e \<and> ev_sensor e \<noteq> - 1"
    using assms(1) i by (simp add: meta_known_def)
  then show ?thesis
    using Data by (auto simp: render_def translated_def known_def about_sensor_def copy_event_remap_handle_def Let_def)
qed (simp add: render_def translated_def)

text \<open>
  (C11) What \<^verbatim>\<open>poll\<close> delivers, if the meta-data events in the queues are about sensors of the list (the code passes on
  others with a sensor of -1): one round ends without undefined behaviour and stores at most as many events as the caller
  has room for. The events are an account of what was taken from the queues and of the completed flush requests: of each
  queue a prefix in order, with handles translated and events of unknown sensors left out, and each request at most
  once and only behind the events that it has to wait for. The round yields nothing, so that \<^verbatim>\<open>poll\<close> goes to sleep, only
  when all queues are empty and no request is ready.
\<close>

theorem poll_delivers:
  assumes "ctx_ok c" and "0 < maxReads" and meta: "meta_known K c"
  shows "\<exists>out c' items. ctx_poll K (poll_fuel c) c True maxReads = Some (int (length out), out, c') \<and> ctx_ok c'
    \<and> int (length out) \<le> maxReads \<and> out = concat (map (translated K (ctx_handles c)) items)
    \<and> (\<forall>i e. Data i e \<in> set items \<longrightarrow> i < length (queues c))
    \<and> (\<forall>i < length (queues c). contents (queues c ! i) = data_of i items @ contents (queues c' ! i)
         \<and> consumed_events c' ! i = consumed_events c ! i + length (data_of i items))
    \<and> mset (pending_flushes c) = mset (done_of items) + mset (pending_flushes c') \<and> barrier (consumed_events c) items
    \<and> (out = [] \<longrightarrow> (\<forall>i < length (queues c). contents (queues c' ! i) = []) \<and> (\<forall>f \<in> set (pending_flushes c'). \<not> flush_ready c' f))"
proof -
  obtain out c' items where p: "poll_round K (poll_fuel c) c maxReads = Some (out, c')" and d: "delivered c items c'"
    and out: "out = concat (map (render K (ctx_handles c)) items)" "int (length out) \<le> maxReads"
    "out = [] \<longrightarrow> (\<forall>i < length (queues c). contents (queues c' ! i) = []) \<and> (\<forall>f \<in> set (pending_flushes c'). \<not> flush_ready c' f)"
    using poll_round_ends [OF assms(1,2)] by blast
  have "map (render K (ctx_handles c)) items = map (translated K (ctx_handles c)) items"
    using render_translated [OF meta d] by (intro map_cong) auto
  then have tr: "out = concat (map (translated K (ctx_handles c)) items)" using out(1) by argo
  have "queues c \<noteq> []" using assms(1) by (simp add: ctx_ok_def)
  then show ?thesis
    using assms(2) p d out(2,3) tr by (intro exI [of _ out] exI [of _ c'] exI [of _ items]) (simp add: ctx_poll_def delivered_def)
qed

text \<open>
  Events that are not meta data are dropped when their sensor is unknown; meta data of an unknown sensor are passed on,
  with -1 for the sensor.
\<close>

lemma unknown_meta_passed:
  assumes "ev_type e = SENSOR_TYPE_META_DATA K" and "ev_sensor e \<noteq> - 1" and "\<not> known K h i e"
  shows "render K h (Data i e) = [e\<lparr>ev_meta_sensor := - 1\<rparr>]"
  using assms by (simp add: render_def known_def about_sensor_def copy_event_remap_handle_def Let_def)

text \<open>An example: the values of \<^verbatim>\<open>hardware/sensors.h\<close> and one sub-HAL with an accelerometer of local handle 101.\<close>

definition demo_sensors_h :: sensors_h where
  "demo_sensors_h = \<lparr>SENSOR_TYPE_META_DATA = 0, SENSOR_TYPE_LIGHT = 5, SENSOR_TYPE_AMBIENT_TEMPERATURE = 13,
     SENSOR_TYPE_RELATIVE_HUMIDITY = 12, SENSOR_TYPE_STEP_COUNTER = 19, SENSOR_TYPE_PROXIMITY = 8,
     SENSOR_TYPE_SIGNIFICANT_MOTION = 17, SENSOR_TYPE_STEP_DETECTOR = 18, SENSOR_FLAG_WAKE_UP = 1,
     SENSOR_FLAG_CONTINUOUS_MODE = 0, SENSOR_FLAG_ON_CHANGE_MODE = 2, SENSOR_FLAG_ONE_SHOT_MODE = 4,
     SENSOR_FLAG_SPECIAL_REPORTING_MODE = 6, REPORTING_MODE_MASK = 0xE, META_DATA_VERSION = 1,
     META_DATA_FLUSH_COMPLETE = 1, SENSORS_DEVICE_API_VERSION_1_0 = 0x01000000\<rparr>"

definition demo_sensor :: sensor where
  "demo_sensor = \<lparr>sn_name = ''accel'', s_handle = 101, s_type = 1, s_maxRange = 20, s_minDelay = 5000, s_maxDelay = 7,
     s_flags = 0xFF, s_fifoReservedEventCount = 9, s_fifoMaxEventCount = 9, s_stringType = None,
     s_requiredPermission = None, s_reserved = (None, None)\<rparr>"

definition demo_device :: sub_device where
  "demo_device = \<lparr>dev_id = 1, dev_version = 0x01010000, has_close = True, has_activate = True, has_setDelay = True, has_poll = True\<rparr>"

definition demo_ctx :: poll_context where
  "demo_ctx = (let (l, h) = add_modules demo_sensors_h 0 [[demo_sensor]] no_handles in
     addSubHwDevice \<lparr>sub_hw_devices = [], queues = [], consumed_events = [], pending_flushes = [], active_sensors = Map.empty,
       nextReadIndex = 0, ctx_handles = h, global_sensors = l\<rparr> demo_device)"

lemma demo_ctx_queues:
  "queues demo_ctx = [new_SensorEventQueue zero_event 20]" "consumed_events demo_ctx = [0]" "nextReadIndex demo_ctx = 0"
  "pending_flushes demo_ctx = []"
  by (simp_all add: demo_ctx_def addSubHwDevice_def split: prod.split)

lemma demo_ctx_ok: "ctx_ok demo_ctx"
  by (simp add: ctx_ok_def demo_ctx_queues queue_ok_def new_SensorEventQueue_def)

text \<open>Its queue after the writer copied an event of the accelerometer and one of a sensor that is not in the list.\<close>

definition demo_events :: "sensors_event list" where
  "demo_events = [zero_event\<lparr>ev_type := 1, ev_sensor := 101\<rparr>, zero_event\<lparr>ev_type := 1, ev_sensor := 7\<rparr>]"

definition demo_filled_queue :: "sensors_event SensorEventQueue" where
  "demo_filled_queue = (case write_chunk (demo_events, (new_SensorEventQueue zero_event 20)\<lparr>mPendingSize := 2\<rparr>) of
     Some (_, q) \<Rightarrow> q | None \<Rightarrow> new_SensorEventQueue zero_event 20)"

definition demo_full_ctx :: poll_context where
  "demo_full_ctx = demo_ctx\<lparr>queues := [demo_filled_queue]\<rparr>"

lemma demo_full_ctx_ok: "ctx_ok demo_full_ctx" "meta_known demo_sensors_h demo_full_ctx" "contents demo_filled_queue = demo_events"
  by code_simp+

lemma demo_known: "known demo_sensors_h (ctx_handles demo_full_ctx) 0 (demo_events ! 0)"
  by code_simp

lemma poll_delivers_witness:
  "\<exists>out c'. ctx_poll demo_sensors_h (poll_fuel demo_full_ctx) demo_full_ctx True 4 = Some (int (length out), out, c')
     \<and> ctx_ok c' \<and> out \<noteq> []"
proof -
  obtain out c' items where p: "ctx_poll demo_sensors_h (poll_fuel demo_full_ctx) demo_full_ctx True 4 = Some (int (length out), out, c')"
    "ctx_ok c'" and out: "out = concat (map (translated demo_sensors_h (ctx_handles demo_full_ctx)) items)"
    and all: "\<forall>i < length (queues demo_full_ctx). contents (queues demo_full_ctx ! i) = data_of i items @ contents (queues c' ! i)
         \<and> consumed_events c' ! i = consumed_events demo_full_ctx ! i + length (data_of i items)"
      "out = [] \<longrightarrow> (\<forall>i < length (queues demo_full_ctx). contents (queues c' ! i) = [])
         \<and> (\<forall>f \<in> set (pending_flushes c'). \<not> flush_ready c' f)"
    using poll_delivers [OF demo_full_ctx_ok(1) _ demo_full_ctx_ok(2), of 4] by (metis zero_less_numeral)
  have "queues demo_full_ctx = [demo_filled_queue]" by (simp add: demo_full_ctx_def)
  then have c: "contents demo_filled_queue = data_of 0 items @ contents (queues c' ! 0)" "out = [] \<longrightarrow> contents (queues c' ! 0) = []"
    using all by simp_all
  have "out \<noteq> []"
  proof
    assume "out = []"
    then have "data_of 0 items = demo_events" using c demo_full_ctx_ok(3) by simp
    then have "demo_events ! 0 \<in> set (data_of 0 items)" by (simp add: demo_events_def)
    then have "Data 0 (demo_events ! 0) \<in> set items" by (simp add: data_of_member)
    then show False using \<open>out = []\<close> out demo_known by (auto simp: translated_def)
  qed
  then show ?thesis using p by blast
qed

section \<open>Writers, clients and poll together\<close>

text \<open>
  The threads of the HAL: each sub-HAL's writer takes a batch and copies it in chunks while its queue has space, the
  framework polls, activates and flushes. \<open>ss_todo\<close> are the events each writer has still to copy.
\<close>

record sensor_sys =
  ss_ctx :: poll_context
  ss_todo :: "sensors_event list list"

datatype sensor_call =
    W_batch nat int "sensors_event list"
  | W_chunk nat
  | S_flush int
  | S_activate int int
  | S_poll int

text \<open>A writer that is still copying takes no new batch, and copies nothing while its queue is full.\<close>

fun sensor_step :: "sensors_h \<Rightarrow> 'k subhal \<Rightarrow> sensor_call \<Rightarrow> sensor_sys \<times> 'k \<Rightarrow> (sensor_sys \<times> 'k) option" where
  "sensor_step K S (W_batch i r buf) (s, k) =
     (let c = ss_ctx s; evs = writer_batch r buf in
      Some (if i < length (ss_todo s) \<and> ss_todo s ! i = [] then
              (s\<lparr>ss_ctx := c\<lparr>queues := (queues c)[i := (queues c ! i)\<lparr>mPendingSize := int (length evs)\<rparr>]\<rparr>,
                 ss_todo := (ss_todo s)[i := evs]\<rparr>, k)
            else (s, k)))"
| "sensor_step K S (W_chunk i) (s, k) =
     (let c = ss_ctx s; q = queues c ! i in
      if i < length (ss_todo s) \<and> 0 < mPendingSize q \<and> mSize q \<noteq> mCapacity q then do {
        (evs, q1) \<leftarrow> write_chunk (ss_todo s ! i, q);
        Some (s\<lparr>ss_ctx := c\<lparr>queues := (queues c)[i := q1]\<rparr>, ss_todo := (ss_todo s)[i := evs]\<rparr>, k)
      }
      else Some (s, k))"
| "sensor_step K S (S_flush g) (s, k) = do { (_, c) \<leftarrow> ctx_flush K (ss_ctx s) g; Some (s\<lparr>ss_ctx := c\<rparr>, k) }"
| "sensor_step K S (S_activate g en) (s, k) =
     (case ctx_activate K S (ss_ctx s) g en k of ((_, c), k1) \<Rightarrow> Some (s\<lparr>ss_ctx := c\<rparr>, k1))"
| "sensor_step K S (S_poll maxReads) (s, k) = do {
     (_, _, c) \<leftarrow> ctx_poll K (poll_fuel (ss_ctx s)) (ss_ctx s) True maxReads;
     Some (s\<lparr>ss_ctx := c\<rparr>, k)
   }"

text \<open>Every pending request waits for no more events than are consumed, in the ring or with the writer.\<close>

definition flush_bound :: "poll_context \<Rightarrow> bool" where
  "flush_bound c \<longleftrightarrow> (\<forall>f \<in> set (pending_flushes c). pf_after_event f \<le> consumed_events c ! nat (pf_module_index f)
     + nat (getPendingSize (queues c ! nat (pf_module_index f))))"

definition sys_ok :: "sensor_sys \<Rightarrow> bool" where
  "sys_ok s \<longleftrightarrow> ctx_ok (ss_ctx s) \<and> length (ss_todo s) = length (queues (ss_ctx s))
     \<and> (\<forall>i < length (ss_todo s). mPendingSize (queues (ss_ctx s) ! i) = int (length (ss_todo s ! i)))
     \<and> flush_bound (ss_ctx s)"

lemma pending_size: "queue_ok q \<Longrightarrow> nat (getPendingSize q) = length (contents q) + nat (mPendingSize q)"
  by (simp add: getPendingSize_def queue_ok_def nat_add_distrib)

lemma ctx_ok_queue: "ctx_ok c \<Longrightarrow> i < length (queues c) \<Longrightarrow> queue_ok (queues c ! i)"
  by (simp add: ctx_ok_def)

lemma ctx_ok_flush: "ctx_ok c \<Longrightarrow> f \<in> set (pending_flushes c) \<Longrightarrow> nat (pf_module_index f) < length (queues c)"
  by (force simp: ctx_ok_def)

text \<open>Replacing one queue by one that promises at least as many events keeps the bound.\<close>

lemma put_queue_ok:
  assumes "ctx_ok c" and "queue_ok q1"
  shows "ctx_ok (c\<lparr>queues := (queues c)[i := q1]\<rparr>)"
  using assms by (auto simp: ctx_ok_def dest!: set_update_subset_insert [THEN subsetD])

lemma put_queue_bound:
  assumes "ctx_ok c" and "flush_bound c" and "i < length (queues c)"
    and "nat (getPendingSize (queues c ! i)) \<le> nat (getPendingSize q1)"
  shows "flush_bound (c\<lparr>queues := (queues c)[i := q1]\<rparr>)"
  unfolding flush_bound_def
proof
  fix f assume f: "f \<in> set (pending_flushes (c\<lparr>queues := (queues c)[i := q1]\<rparr>))"
  then have "pf_after_event f \<le> consumed_events c ! nat (pf_module_index f) + nat (getPendingSize (queues c ! nat (pf_module_index f)))"
    using assms(2) by (simp add: flush_bound_def)
  then show "pf_after_event f \<le> consumed_events (c\<lparr>queues := (queues c)[i := q1]\<rparr>) ! nat (pf_module_index f)
     + nat (getPendingSize (queues (c\<lparr>queues := (queues c)[i := q1]\<rparr>) ! nat (pf_module_index f)))"
    using assms(3,4) by (cases "nat (pf_module_index f) = i") auto
qed

lemma delivered_bound:
  assumes "ctx_ok c" and "delivered c items c'" and "flush_bound c"
  shows "flush_bound c'"
  unfolding flush_bound_def
proof
  fix f assume f: "f \<in> set (pending_flushes c')"
  let ?i = "nat (pf_module_index f)"
  have ok': "ctx_ok c'" and len: "length (queues c') = length (queues c)" using assms(2) by (simp_all add: delivered_def)
  have i: "?i < length (queues c')" by (rule ctx_ok_flush [OF ok' f])
  have "set (pending_flushes c') \<subseteq> set (pending_flushes c)"
    using assms(2) unfolding delivered_def by (metis Un_upper2 set_mset_mset set_mset_union)
  then have "pf_after_event f \<le> consumed_events c ! ?i + nat (getPendingSize (queues c ! ?i))"
    using assms(3) f by (auto simp: flush_bound_def)
  also have "\<dots> = consumed_events c ! ?i + length (contents (queues c ! ?i)) + nat (mPendingSize (queues c ! ?i))"
    using pending_size [OF ctx_ok_queue [OF assms(1)], of ?i] i len by simp
  also have "\<dots> = consumed_events c' ! ?i + length (contents (queues c' ! ?i)) + nat (mPendingSize (queues c' ! ?i))"
    using assms(2) i len unfolding delivered_def by (metis (no_types, lifting) add.assoc length_append)
  also have "\<dots> = consumed_events c' ! ?i + nat (getPendingSize (queues c' ! ?i))"
    using pending_size [OF ctx_ok_queue [OF ok' i]] by simp
  finally show "pf_after_event f \<le> consumed_events c' ! ?i + nat (getPendingSize (queues c' ! ?i))" .
qed

lemma sys_put:
  assumes ok: "sys_ok s" and i: "i < length (ss_todo s)" and q1: "queue_ok q1" "mPendingSize q1 = int (length evs)"
    and more: "nat (getPendingSize (queues (ss_ctx s) ! i)) \<le> nat (getPendingSize q1)"
  shows "sys_ok (s\<lparr>ss_ctx := (ss_ctx s)\<lparr>queues := (queues (ss_ctx s))[i := q1]\<rparr>, ss_todo := (ss_todo s)[i := evs]\<rparr>)"
proof -
  note o = ok [unfolded sys_ok_def]
  have "flush_bound ((ss_ctx s)\<lparr>queues := (queues (ss_ctx s))[i := q1]\<rparr>)"
    using put_queue_bound [of "ss_ctx s" i q1] o i more by simp
  moreover have "ctx_ok ((ss_ctx s)\<lparr>queues := (queues (ss_ctx s))[i := q1]\<rparr>)" using put_queue_ok [of "ss_ctx s" q1 i] o q1(1) by simp
  ultimately show ?thesis using o q1(2) i by (auto simp: sys_ok_def nth_list_update)
qed

lemma sys_ctx:
  assumes ok: "sys_ok s" and c: "ctx_ok c" "flush_bound c" "length (queues c) = length (queues (ss_ctx s))"
    and p: "\<forall>i < length (queues c). mPendingSize (queues c ! i) = mPendingSize (queues (ss_ctx s) ! i)"
  shows "sys_ok (s\<lparr>ss_ctx := c\<rparr>)"
  using assms by (simp add: sys_ok_def)

lemma sys_batch:
  assumes ok: "sys_ok s" and i: "i < length (ss_todo s)" "ss_todo s ! i = []"
  shows "sys_ok (s\<lparr>ss_ctx := (ss_ctx s)\<lparr>queues := (queues (ss_ctx s))[i := (queues (ss_ctx s) ! i)\<lparr>mPendingSize := int (length (writer_batch r buf))\<rparr>]\<rparr>,
    ss_todo := (ss_todo s)[i := writer_batch r buf]\<rparr>)"
proof (rule sys_put [OF ok i(1)])
  let ?q = "queues (ss_ctx s) ! i"
  have q: "queue_ok ?q" "mPendingSize ?q = 0" using ok i by (auto simp: sys_ok_def ctx_ok_queue)
  have "length (writer_batch r buf) \<le> 20" by (auto simp: writer_batch_def min_le_iff_disj)
  then show "queue_ok (?q\<lparr>mPendingSize := int (length (writer_batch r buf))\<rparr>)" using q(1) by (simp add: queue_ok_def)
  show "nat (getPendingSize ?q) \<le> nat (getPendingSize (?q\<lparr>mPendingSize := int (length (writer_batch r buf))\<rparr>))"
    using q by (simp add: getPendingSize_def)
qed simp

lemma sys_chunk:
  assumes ok: "sys_ok s" and i: "i < length (ss_todo s)" and g: "0 < mPendingSize (queues (ss_ctx s) ! i)"
    "mSize (queues (ss_ctx s) ! i) \<noteq> mCapacity (queues (ss_ctx s) ! i)"
  shows "\<exists>evs q1. write_chunk (ss_todo s ! i, queues (ss_ctx s) ! i) = Some (evs, q1)
    \<and> sys_ok (s\<lparr>ss_ctx := (ss_ctx s)\<lparr>queues := (queues (ss_ctx s))[i := q1]\<rparr>, ss_todo := (ss_todo s)[i := evs]\<rparr>)"
proof -
  let ?q = "queues (ss_ctx s) ! i" and ?evs = "ss_todo s ! i"
  have q: "queue_ok ?q" "mPendingSize ?q = int (length ?evs)" using ok i by (auto simp: sys_ok_def ctx_ok_queue)
  then have "mSize ?q < mCapacity ?q" "?evs \<noteq> []" using g by (auto simp: queue_ok_def)
  from write_chunk_result [OF q(1) this(1) q(2) this(2)] obtain n q1 where
    w: "write_chunk (?evs, ?q) = Some (drop n ?evs, q1)" "n \<le> length ?evs" "queue_ok q1"
    "mPendingSize q1 = int (length (drop n ?evs))" "mSize q1 = mSize ?q + int n" by blast
  have "getPendingSize q1 = getPendingSize ?q" using w(2,4,5) q(2) by (simp add: getPendingSize_def)
  then show ?thesis using w sys_put [OF ok i w(3,4)] by simp
qed

lemma sys_flush:
  assumes ok: "sys_ok s"
  shows "\<exists>r c. ctx_flush K (ss_ctx s) g = Some (r, c) \<and> sys_ok (s\<lparr>ss_ctx := c\<rparr>)"
proof -
  let ?c = "ss_ctx s" and ?m = "get_module_index (ctx_handles (ss_ctx s)) g"
  have c: "ctx_ok ?c" "flush_bound ?c" using ok by (simp_all add: sys_ok_def)
  have act: "sys_ok (s\<lparr>ss_ctx := ?c\<lparr>active_sensors := a\<rparr>\<rparr>)" for a
    by (rule sys_ctx [OF ok]) (use c in \<open>simp_all add: ctx_ok_def flush_bound_def\<close>)
  have new: "sys_ok (s\<lparr>ss_ctx := ?c\<lparr>pending_flushes := pending_flushes ?c @ [\<lparr>pf_handle = g, pf_module_index = ?m,
      pf_after_event = consumed_events ?c ! nat ?m + nat (getPendingSize (queues ?c ! nat ?m))\<rparr>]\<rparr>\<rparr>)"
    if "0 \<le> ?m" "?m < int (length (queues ?c))"
    by (rule sys_ctx [OF ok]) (use c that in \<open>auto simp: ctx_ok_def flush_bound_def\<close>)
  have len: "length (consumed_events ?c) = length (queues ?c)" using c(1) by (simp add: ctx_ok_def)
  consider (bad) "ctx_flush K ?c g = Some (- EINVAL, ?c)"
    | (idle) "ctx_flush K ?c g = Some (- EINVAL, ?c\<lparr>active_sensors := (active_sensors ?c)(g \<mapsto> False)\<rparr>)"
    | (ok) "0 \<le> ?m" "?m < int (length (queues ?c))" "ctx_flush K ?c g = Some (0, ?c\<lparr>pending_flushes := pending_flushes ?c @ [\<lparr>pf_handle = g, pf_module_index = ?m,
      pf_after_event = consumed_events ?c ! nat ?m + nat (getPendingSize (queues ?c ! nat ?m))\<rparr>]\<rparr>)"
    using len unfolding ctx_flush_def Let_def by (fastforce split: option.splits if_splits)
  then show ?thesis
  proof cases
    case bad
    then show ?thesis using ok by simp
  next
    case idle
    then show ?thesis using act by blast
  next
    case ok
    then show ?thesis using new by blast
  qed
qed

lemma sys_activate:
  assumes ok: "sys_ok s"
  shows "case ctx_activate K S (ss_ctx s) g en k of ((_, c), k1) \<Rightarrow> sys_ok (s\<lparr>ss_ctx := c\<rparr>)"
proof -
  have act: "sys_ok (s\<lparr>ss_ctx := (ss_ctx s)\<lparr>active_sensors := a\<rparr>\<rparr>)" for a
    by (rule sys_ctx [OF ok]) (use ok in \<open>simp_all add: sys_ok_def ctx_ok_def flush_bound_def\<close>)
  have "sys_ok (s\<lparr>ss_ctx := ss_ctx s\<rparr>)" using ok by simp
  then show ?thesis using act by (simp add: ctx_activate_def Let_def split: option.split prod.split)
qed

text \<open>A round of \<^verbatim>\<open>poll\<close> with the account of what it delivers.\<close>

lemma sys_poll:
  assumes ok: "sys_ok s" and m: "0 < maxReads"
  shows "\<exists>out c. ctx_poll K (poll_fuel (ss_ctx s)) (ss_ctx s) True maxReads = Some (int (length out), out, c)
    \<and> sys_ok (s\<lparr>ss_ctx := c\<rparr>) \<and> (out = [] \<longrightarrow> (\<forall>f \<in> set (pending_flushes c). ss_todo s ! nat (pf_module_index f) \<noteq> []))"
proof -
  let ?c = "ss_ctx s"
  have c: "ctx_ok ?c" "flush_bound ?c" using ok by (simp_all add: sys_ok_def)
  obtain out c' items where p: "poll_round K (poll_fuel ?c) ?c maxReads = Some (out, c')" "delivered ?c items c'"
    "out = [] \<longrightarrow> (\<forall>i < length (queues ?c). contents (queues c' ! i) = []) \<and> (\<forall>f \<in> set (pending_flushes c'). \<not> flush_ready c' f)"
    using poll_round_ends [OF c(1) m, of K] by blast
  have c': "ctx_ok c'" "length (queues c') = length (queues ?c)" "flush_bound c'"
    "\<forall>i < length (queues c'). mPendingSize (queues c' ! i) = mPendingSize (queues ?c ! i)"
    using p(2) delivered_bound [OF c(1) p(2) c(2)] by (simp_all add: delivered_def)
  have "ss_todo s ! nat (pf_module_index f) \<noteq> []" if "out = []" and f: "f \<in> set (pending_flushes c')" for f
  proof
    let ?i = "nat (pf_module_index f)"
    assume t: "ss_todo s ! ?i = []"
    have i: "?i < length (queues c')" by (rule ctx_ok_flush [OF c'(1) f])
    then have "contents (queues c' ! ?i) = []" "mPendingSize (queues c' ! ?i) = 0" using p(3) that(1) c' t ok by (auto simp: sys_ok_def)
    then have "nat (getPendingSize (queues c' ! ?i)) = 0" using pending_size [OF ctx_ok_queue [OF c'(1) i]] by simp
    then have "flush_ready c' f" using c'(3) f by (auto simp: flush_bound_def flush_ready_def)
    then show False using p(3) that by blast
  qed
  moreover have "ctx_poll K (poll_fuel ?c) ?c True maxReads = Some (int (length out), out, c')"
    using p(1) m c(1) by (simp add: ctx_poll_def ctx_ok_def)
  ultimately show ?thesis using sys_ctx [OF ok c'(1,3,2,4)] by blast
qed

lemma sensor_step_ok:
  assumes ok: "sys_ok s"
  shows "\<exists>s' k'. sensor_step K S e (s, k) = Some (s', k') \<and> sys_ok s'"
proof (cases e)
  case (W_batch i r buf)
  then show ?thesis using ok sys_batch [OF ok, of i r buf] by (simp add: Let_def)
next
  case (W_chunk i)
  show ?thesis
  proof (cases "i < length (ss_todo s) \<and> 0 < mPendingSize (queues (ss_ctx s) ! i)
      \<and> mSize (queues (ss_ctx s) ! i) \<noteq> mCapacity (queues (ss_ctx s) ! i)")
    case True
    then show ?thesis using W_chunk sys_chunk [OF ok, of i] by (auto simp: Let_def)
  next
    case False
    then show ?thesis using W_chunk ok by (auto simp: Let_def)
  qed
next
  case (S_flush g)
  then show ?thesis using sys_flush [OF ok, of K g] by auto
next
  case (S_activate g en)
  then show ?thesis using sys_activate [OF ok, of K S g en k] by (auto split: prod.splits)
next
  case (S_poll m)
  show ?thesis
  proof (cases "0 < m")
    case True
    then show ?thesis using S_poll sys_poll [OF ok, of m K] by auto
  next
    case False
    then show ?thesis using S_poll ok by (simp add: ctx_poll_def)
  qed
qed

interpretation sensor_machine: safe_machine "sensor_step K S" "\<lambda>s. sys_ok (fst s)" for K and S :: "'k subhal"
proof unfold_locales
  fix e and s s' :: "sensor_sys \<times> 'k" assume "sys_ok (fst s)" and "sensor_step K S e s = Some s'"
  then show "sys_ok (fst s')" using sensor_step_ok [of "fst s" K S e "snd s"] by auto
next
  fix e and s :: "sensor_sys \<times> 'k" assume "sys_ok (fst s)"
  then show "sensor_step K S e s \<noteq> None" using sensor_step_ok [of "fst s" K S e "snd s"] by auto
qed

end
