(* ===== verification/Sensor_Results.thy ===== *)
theory Sensor_Results
  imports Sensor_Props
begin

text \<open>
  The sensor HAL as a whole: the table of handles that the list of sensors builds, opening all sub-HALs or none,
  and sessions of a device that was opened.
\<close>

section \<open>Handles\<close>

text \<open>The sensors of all modules in the order of the list.\<close>

fun full_handles :: "int \<Rightarrow> sensor list list \<Rightarrow> FullHandle list" where
  "full_handles m [] = []"
| "full_handles m (ss # mods) = map (\<lambda>s. FullHandle m (s_handle s)) ss @ full_handles (m + 1) mods"

definition assign_all :: "FullHandle list \<Rightarrow> handles \<Rightarrow> handles" where
  "assign_all fs h = foldl (\<lambda>h f. snd (assign_global_handle h (moduleIndex f) (localHandle f))) h fs"

lemma assign_all_simps [simp]:
  "assign_all [] h = h" "assign_all (xs @ ys) h = assign_all ys (assign_all xs h)"
  "assign_all (f # fs) h = assign_all fs (snd (assign_global_handle h (moduleIndex f) (localHandle f)))"
  by (simp_all add: assign_all_def)

lemma assign_all_next [simp]: "next_global_handle (assign_all fs h) = next_global_handle h + int (length fs)"
  by (induction fs arbitrary: h) (simp_all add: assign_global_handle_def Let_def)

text \<open>A listed sensor promises no hardware batching and has its strings.\<close>

definition described :: "sensor \<Rightarrow> bool" where
  "described s \<longleftrightarrow> s_fifoReservedEventCount s = 0 \<and> s_fifoMaxEventCount s = 0 \<and> s_maxDelay s = 0
     \<and> s_stringType s \<noteq> None \<and> s_requiredPermission s \<noteq> None"

lemma described_legacy: "described (describe_legacy_sensor K s)"
proof -
  have keep: "s_fifoReservedEventCount (if b then x else y) = (if b then s_fifoReservedEventCount x else s_fifoReservedEventCount y)"
    "s_fifoMaxEventCount (if b then x else y) = (if b then s_fifoMaxEventCount x else s_fifoMaxEventCount y)"
    "s_maxDelay (if b then x else y) = (if b then s_maxDelay x else s_maxDelay y)" for b and x y :: sensor by simp_all
  show ?thesis unfolding described_def describe_legacy_sensor_def Let_def by (simp add: keep)
qed

lemma described_update [simp]:
  "described (s\<lparr>s_handle := g\<rparr>) = described s" "described (s\<lparr>s_maxRange := r\<rparr>) = described s"
  by (simp_all add: described_def)

lemma add_sensors_assign:
  "\<exists>l. add_sensors K m ss h = (l, assign_all (map (\<lambda>s. FullHandle m (s_handle s)) ss) h) \<and> length l = length ss
     \<and> (\<forall>k < length ss. s_handle (l ! k) = next_global_handle h + int k)
     \<and> (\<forall>s \<in> set l. described s)"
proof (induction ss arbitrary: h)
  case (Cons s ss)
  let ?h1 = "snd (assign_global_handle h m (s_handle s))"
  obtain l where l: "add_sensors K m ss ?h1 = (l, assign_all (map (\<lambda>s. FullHandle m (s_handle s)) ss) ?h1)"
    "length l = length ss" "\<forall>k < length ss. s_handle (l ! k) = next_global_handle ?h1 + int k"
    "\<forall>s \<in> set l. described s" using Cons.IH by blast
  have g: "assign_global_handle h m (s_handle s) = (next_global_handle h, ?h1)" "next_global_handle ?h1 = next_global_handle h + 1"
    by (simp_all add: assign_global_handle_def Let_def)
  obtain s3 where s3: "add_sensors K m (s # ss) h = (s3 # l, assign_all (map (\<lambda>s. FullHandle m (s_handle s)) ss) ?h1)"
    "s_handle s3 = next_global_handle h" "described s3"
  proof (rule that)
    let ?s2 = "(describe_legacy_sensor K s)\<lparr>s_handle := next_global_handle h\<rparr>"
    let ?s3 = "if s_type ?s2 = SENSOR_TYPE_PROXIMITY K then ?s2\<lparr>s_maxRange := 5\<rparr> else ?s2"
    show "add_sensors K m (s # ss) h = (?s3 # l, assign_all (map (\<lambda>s. FullHandle m (s_handle s)) ss) ?h1)"
    proof -
      obtain h1 where h1: "assign_global_handle h m (s_handle s) = (next_global_handle h, h1)" using g(1) by blast
      then have "?h1 = h1" by simp
      with h1 l(1) show ?thesis by (simp only: add_sensors.simps Let_def prod.case)
    qed
    show "s_handle ?s3 = next_global_handle h" by simp
    show "described ?s3" by (simp add: described_legacy)
  qed
  have "\<forall>k < length (s # ss). s_handle ((s3 # l) ! k) = next_global_handle h + int k"
    using l(3) s3(2) g(2) by (auto simp: nth_Cons split: nat.split)
  then show ?case using s3 l(2,4) by (intro exI [of _ "s3 # l"]) simp
qed simp

lemma add_modules_assign:
  "\<exists>l. add_modules K m mods h = (l, assign_all (full_handles m mods) h) \<and> length l = length (full_handles m mods)
     \<and> (\<forall>k < length l. s_handle (l ! k) = next_global_handle h + int k)
     \<and> (\<forall>s \<in> set l. described s)"
proof (induction mods arbitrary: m h)
  case (Cons ss mods)
  let ?h1 = "assign_all (map (\<lambda>s. FullHandle m (s_handle s)) ss) h"
  obtain l where l: "add_sensors K m ss h = (l, ?h1)" "length l = length ss"
    "\<forall>k < length ss. s_handle (l ! k) = next_global_handle h + int k"
    "\<forall>s \<in> set l. described s"
    using add_sensors_assign [of K m ss h] by blast
  obtain r where r: "add_modules K (m + 1) mods ?h1 = (r, assign_all (full_handles (m + 1) mods) ?h1)"
    "length r = length (full_handles (m + 1) mods)" "\<forall>k < length r. s_handle (r ! k) = next_global_handle ?h1 + int k"
    "\<forall>s \<in> set r. described s"
    using Cons.IH [of "m + 1" ?h1] by blast
  have "\<forall>k < length (l @ r). s_handle ((l @ r) ! k) = next_global_handle h + int k"
    using l(2,3) r(3) by (auto simp: nth_append)
  then show ?case using l r by (intro exI [of _ "l @ r"]) auto
qed simp

lemma assign_all_global:
  "global_to_full (assign_all fs h) g =
     (if next_global_handle h \<le> g \<and> g < next_global_handle h + int (length fs)
      then Some (fs ! nat (g - next_global_handle h)) else global_to_full h g)"
proof (induction fs rule: rev_induct)
  case (snoc f fs)
  have "global_to_full (assign_all (fs @ [f]) h) g =
      (if g = next_global_handle h + int (length fs) then Some f else global_to_full (assign_all fs h) g)"
    by (cases f) (simp add: assign_global_handle_def Let_def)
  then show ?case using snoc.IH by (auto simp: nth_append)
qed auto

lemma assign_all_full:
  assumes "distinct fs"
  shows "k < length fs \<Longrightarrow> full_to_global (assign_all fs h) (fs ! k) = Some (next_global_handle h + int k)"
    "f \<notin> set fs \<Longrightarrow> full_to_global (assign_all fs h) f = full_to_global h f"
proof -
  have "(\<forall>k < length fs. full_to_global (assign_all fs h) (fs ! k) = Some (next_global_handle h + int k))
    \<and> (\<forall>f. f \<notin> set fs \<longrightarrow> full_to_global (assign_all fs h) f = full_to_global h f)"
    using assms
  proof (induction fs rule: rev_induct)
    case (snoc a fs)
    have s: "full_to_global (assign_all (fs @ [a]) h) x =
        (if x = a then Some (next_global_handle h + int (length fs)) else full_to_global (assign_all fs h) x)" for x
      by (cases a) (simp add: assign_global_handle_def Let_def)
    have ne: "k < length fs \<Longrightarrow> fs ! k \<noteq> a" for k using snoc.prems by auto
    show ?case using snoc.IH snoc.prems ne by (auto simp: s nth_append less_Suc_eq simp del: assign_all_simps)
  qed simp
  then show "k < length fs \<Longrightarrow> full_to_global (assign_all fs h) (fs ! k) = Some (next_global_handle h + int k)"
    "f \<notin> set fs \<Longrightarrow> full_to_global (assign_all fs h) f = full_to_global h f" by blast+
qed

lemma full_handles_module: "f \<in> set (full_handles m mods) \<Longrightarrow> m \<le> moduleIndex f"
  by (induction m mods rule: full_handles.induct) force+

lemma full_handles_distinct:
  "\<forall>ss \<in> set mods. distinct (map s_handle ss) \<Longrightarrow> distinct (full_handles m mods)"
proof (induction mods arbitrary: m)
  case (Cons ss mods)
  have "distinct (map (\<lambda>s. FullHandle m (s_handle s)) ss)" using Cons.prems by (auto simp: distinct_map inj_on_def)
  moreover have "set (map (\<lambda>s. FullHandle m (s_handle s)) ss) \<inter> set (full_handles (m + 1) mods) = {}"
    using full_handles_module [of _ "m + 1" mods] by force
  ultimately show ?case using Cons by simp
qed simp

text \<open>
  (C14) The handles of the list of sensors: in the list that the first call builds, sensor number \<open>k\<close> has the
  global handle \<open>k + 1\<close>, which \<^verbatim>\<open>get_module_index\<close> and \<^verbatim>\<open>get_local_handle\<close> take back to the module and the local handle of
  that sensor and which \<^verbatim>\<open>get_global_handle\<close> finds again; every other global or local handle gives -1. No listed sensor
  promises a hardware queue, and a later call changes nothing.
\<close>

theorem handles_roundtrip:
  assumes "\<forall>m \<in> set (loaded_modules (lazy_init_modules D conf fresh_globals)). distinct (map s_handle (sensors_of m))"
  shows "\<exists>G l fs. lazy_init_sensors_list K D conf sensors_of fresh_globals = G \<and> global_sensors_list G = Some l
    \<and> fs = full_handles 0 (map sensors_of (loaded_modules G)) \<and> length l = length fs \<and> (\<forall>s \<in> set l. described s)
    \<and> (\<forall>k < length fs. s_handle (l ! k) = int k + 1 \<and> get_module_index (hal_handles G) (int k + 1) = moduleIndex (fs ! k)
         \<and> get_local_handle (hal_handles G) (int k + 1) = localHandle (fs ! k)
         \<and> get_global_handle (hal_handles G) (fs ! k) = int k + 1)
    \<and> (\<forall>g. g < 1 \<or> int (length fs) < g \<longrightarrow> get_module_index (hal_handles G) g = - 1 \<and> get_local_handle (hal_handles G) g = - 1)
    \<and> (\<forall>f. f \<notin> set fs \<longrightarrow> get_global_handle (hal_handles G) f = - 1)
    \<and> lazy_init_sensors_list K D conf sensors_of G = G"
proof -
  define G1 where "G1 = lazy_init_modules D conf fresh_globals"
  define fs where "fs = full_handles 0 (map sensors_of (loaded_modules G1))"
  have G1: "hal_handles G1 = no_handles" by (simp add: G1_def lazy_init_modules_def fresh_globals_def)
  obtain l where l: "add_modules K 0 (map sensors_of (loaded_modules G1)) no_handles = (l, assign_all fs no_handles)"
    "length l = length fs" "\<forall>k < length l. s_handle (l ! k) = next_global_handle no_handles + int k" "\<forall>s \<in> set l. described s"
    using add_modules_assign [of K 0 "map sensors_of (loaded_modules G1)" no_handles] by (auto simp: fs_def)
  define G where "G = G1\<lparr>hal_handles := assign_all fs no_handles, global_sensors_list := Some l\<rparr>"
  have G: "lazy_init_sensors_list K D conf sensors_of fresh_globals = G"
    using l(1) G1 by (simp add: lazy_init_sensors_list_def G_def G1_def fresh_globals_def Let_def)
  have lm: "loaded_modules G = loaded_modules G1" by (simp add: loaded_modules_def G_def)
  have d: "distinct fs" using full_handles_distinct [of "map sensors_of (loaded_modules G1)"] assms by (simp add: fs_def G1_def)
  have k: "s_handle (l ! k) = int k + 1 \<and> get_module_index (hal_handles G) (int k + 1) = moduleIndex (fs ! k)
      \<and> get_local_handle (hal_handles G) (int k + 1) = localHandle (fs ! k)
      \<and> get_global_handle (hal_handles G) (fs ! k) = int k + 1" if "k < length fs" for k
    using that l(2,3) assign_all_full(1) [OF d that, of no_handles] assign_all_global [of fs no_handles "int k + 1"]
    by (simp add: G_def get_module_index_def get_local_handle_def get_global_handle_def no_handles_def)
  have g: "get_module_index (hal_handles G) g = - 1 \<and> get_local_handle (hal_handles G) g = - 1"
    if "g < 1 \<or> int (length fs) < g" for g
    using that assign_all_global [of fs no_handles g] by (auto simp: G_def get_module_index_def get_local_handle_def no_handles_def)
  have f: "get_global_handle (hal_handles G) f = - 1" if "f \<notin> set fs" for f
    using assign_all_full(2) [OF d that, of no_handles] by (simp add: G_def get_global_handle_def no_handles_def)
  have "lazy_init_sensors_list K D conf sensors_of G = G" by (simp add: lazy_init_sensors_list_def G_def)
  then show ?thesis using G k g f l(2,4) lm by (intro exI [of _ G] exI [of _ l] exI [of _ fs]) (simp add: G_def fs_def)
qed

text \<open>An example: one vendor library with the accelerometer of the example above.\<close>

definition demo_dl :: dl_sys where
  "demo_dl = \<lparr>dlopen = (\<lambda>p. if p = ''/system/lib/sensors.so'' then Some 7 else None), dlsym = (\<lambda>_. (None, Some 3))\<rparr>"

definition demo_conf :: "string option" where
  "demo_conf = Some (''/system/lib/sensors.so'' @ [CHR 0x0A])"

definition demo_list :: "nat \<Rightarrow> sensor list" where
  "demo_list m = [demo_sensor]"

lemma demo_modules: "loaded_modules (lazy_init_modules demo_dl demo_conf fresh_globals) = [3]"
  by (simp add: lazy_init_modules_def fresh_globals_def demo_conf_def get_so_paths_def demo_dl_def load_module_def
      loaded_modules_def List.map_filter_def)

lemma handles_roundtrip_witness:
  "\<exists>G. lazy_init_sensors_list demo_sensors_h demo_dl demo_conf demo_list fresh_globals = G
     \<and> lazy_init_sensors_list demo_sensors_h demo_dl demo_conf demo_list G = G"
  using handles_roundtrip [of demo_dl demo_conf demo_list demo_sensors_h] by (auto simp: demo_modules demo_list_def)

section \<open>Opening\<close>

text \<open>The sub-HALs with a record of the devices that they handed out and of those that were shut.\<close>

definition logged :: "'k subhal \<Rightarrow> ('k \<times> sub_device list \<times> nat list) subhal" where
  "logged S =
     \<lparr>sub_activate = (\<lambda>d h e (k, l). case sub_activate S d h e k of (r, k1) \<Rightarrow> (r, k1, l)),
      sub_setDelay = (\<lambda>d h n (k, l). case sub_setDelay S d h n k of (r, k1) \<Rightarrow> (r, k1, l)),
      sub_close = (\<lambda>d (k, opened, shut). (sub_close S d k, opened, shut @ [d])),
      sub_open = (\<lambda>m n (k, opened, shut). case sub_open S m n k of ((r, sub), k1) \<Rightarrow>
         ((r, sub), k1, (case sub of None \<Rightarrow> opened | Some d \<Rightarrow> opened @ [d]), shut))\<rparr>"

definition usable :: "sensors_h \<Rightarrow> sub_device \<Rightarrow> bool" where
  "usable K d \<longleftrightarrow> SENSORS_DEVICE_API_VERSION_1_0 K \<le> dev_version d \<and> has_close d \<and> has_activate d \<and> has_setDelay d \<and> has_poll d"

lemma open_subs_logged:
  "\<forall>d \<in> set opened. usable K d \<Longrightarrow>
   \<exists>r opened' k'. open_subs K (logged S) name ms opened (k, opened, shut) = ((r, opened'), k', opened', shut)
     \<and> (r = 0 \<longrightarrow> length opened' = length opened + length ms \<and> (\<forall>d \<in> set opened'. usable K d))"
proof (induction ms arbitrary: opened k)
  case (Cons m ms)
  obtain r sub k1 where o: "sub_open S m name k = ((r, sub), k1)" by (metis prod.exhaust)
  have lo: "sub_open (logged S) m name (k, opened, shut) =
      ((r, sub), k1, (case sub of None \<Rightarrow> opened | Some d \<Rightarrow> opened @ [d]), shut)" using o by (simp add: logged_def)
  show ?case
  proof (cases "\<exists>d. sub = Some d \<and> r = 0 \<and> usable K d")
    case True
    then obtain d where d: "sub = Some d" "r = 0" "usable K d" by blast
    then have "open_subs K (logged S) name (m # ms) opened (k, opened, shut)
        = open_subs K (logged S) name ms (opened @ [d]) (k1, opened @ [d], shut)"
      using lo by (auto simp: usable_def Let_def)
    then show ?thesis using Cons.IH [of "opened @ [d]" k1] Cons.prems d(3) by auto
  next
    case False
    then show ?thesis using lo by (auto simp: usable_def Let_def not_less split: option.splits)
  qed
qed simp

lemma close_opened_logged:
  "\<exists>k'. close_opened (logged S) ds (k, opened, shut) = (k', opened, shut @ map dev_id (filter has_close ds))"
proof (induction ds arbitrary: k shut)
  case (Cons d ds)
  show ?case using Cons.IH [of k shut] Cons.IH [of "sub_close S (dev_id d) k" "shut @ [dev_id d]"]
    by (cases "has_close d") (auto simp: close_opened_def logged_def)
qed (simp add: close_opened_def)

lemma close_all_logged:
  "\<exists>k'. ctx_close (logged S) c (k, opened, shut) = (0, k', opened, shut @ map dev_id (sub_hw_devices c))"
proof -
  have "\<exists>k'. fold (\<lambda>d. sub_close (logged S) (dev_id d)) ds (k, opened, shut) = (k', opened, shut @ map dev_id ds)" for ds
  proof (induction ds arbitrary: k shut)
    case (Cons d ds)
    show ?case using Cons.IH [of "sub_close S (dev_id d) k" "shut @ [dev_id d]"] by (auto simp: logged_def)
  qed simp
  then show ?thesis by (simp add: ctx_close_def)
qed

lemma add_devices:
  "sub_hw_devices (foldl addSubHwDevice c ds) = sub_hw_devices c @ ds"
  "queues (foldl addSubHwDevice c ds) = queues c @ replicate (length ds) (new_SensorEventQueue zero_event 20)"
  "consumed_events (foldl addSubHwDevice c ds) = consumed_events c @ replicate (length ds) 0"
  "pending_flushes (foldl addSubHwDevice c ds) = pending_flushes c"
  "nextReadIndex (foldl addSubHwDevice c ds) = nextReadIndex c"
  by (induction ds arbitrary: c) (simp_all add: addSubHwDevice_def)

lemma new_queue_ok: "queue_ok (new_SensorEventQueue junk 20)"
  by (simp add: queue_ok_def new_SensorEventQueue_def)

lemma ctx_new_ok:
  assumes "queues c = []" "consumed_events c = []" "pending_flushes c = []" "nextReadIndex c = 0" and "ds \<noteq> []"
  shows "ctx_ok (foldl addSubHwDevice c ds)"
  using assms by (auto simp: ctx_ok_def add_devices new_queue_ok)

text \<open>
  (C13) Opening is all or nothing: with the record of the sub-HALs' devices, a failed \<^verbatim>\<open>open_sensors\<close> returns its
  error and no device, leaves the list of sensors and the handles alone and has closed each device that it got, once and in
  order. A successful one has closed nothing: its context holds one usable device per module in the order of
  the modules, each with a queue, and \<^verbatim>\<open>close\<close> closes each of them once.
\<close>

theorem open_sensors_result:
  assumes "open_sensors K (logged S) D conf sensors_of device_out name G (k, [], []) = (((r, c), G'), k', opened, shut)"
  shows "r \<noteq> 0 \<and> c = None \<and> shut = map dev_id (filter has_close opened)
      \<and> hal_handles G' = hal_handles G \<and> global_sensors_list G' = global_sensors_list G
    \<or> r = 0 \<and> shut = [] \<and> (\<exists>ctx. c = Some ctx \<and> ctx_ok ctx \<and> sub_hw_devices ctx = opened
         \<and> length opened = length (loaded_modules G') \<and> length (queues ctx) = length opened \<and> (\<forall>d \<in> set opened. usable K d)
         \<and> (\<exists>k''. device__close (logged S) c (k', opened, []) = (0, k'', opened, map dev_id opened)))"
proof -
  let ?G1 = "lazy_init_modules D conf G"
  have G1: "hal_handles ?G1 = hal_handles G" "global_sensors_list ?G1 = global_sensors_list G"
    by (simp_all add: lazy_init_modules_def split: option.split)
  consider (refused) "name = None \<or> \<not> device_out" | (none) nm where "name = Some nm" "device_out" "loaded_modules ?G1 = []"
    | (go) nm where "name = Some nm" "device_out" "loaded_modules ?G1 \<noteq> []" by (cases name) auto
  then show ?thesis
  proof cases
    case refused
    then show ?thesis using assms by (auto simp: open_sensors_def split: option.splits)
  next
    case none
    then show ?thesis using assms G1 by (auto simp: open_sensors_def)
  next
    case go
    obtain e ds k1 where o: "open_subs K (logged S) nm (loaded_modules ?G1) [] (k, [], []) = ((e, ds), k1, ds, [])"
      "e = 0 \<Longrightarrow> length ds = length (loaded_modules ?G1) \<and> (\<forall>d \<in> set ds. usable K d)"
      using open_subs_logged [of "[]" K S nm "loaded_modules ?G1" k "[]"] by auto
    show ?thesis
    proof (cases "e = 0")
      case False
      obtain k2 where "close_opened (logged S) ds (k1, ds, []) = (k2, ds, map dev_id (filter has_close ds))"
        using close_opened_logged [of S ds k1 ds "[]"] by auto
      then show ?thesis using assms go o(1) False G1 by (auto simp: open_sensors_def)
    next
      case True
      let ?G2 = "lazy_init_sensors_list K D conf sensors_of ?G1"
      define c0 where "c0 = \<lparr>sub_hw_devices = [], queues = [], consumed_events = [], pending_flushes = [],
          active_sensors = Map.empty, nextReadIndex = 0, ctx_handles = hal_handles ?G2, global_sensors = all_sensors ?G2\<rparr>"
      have res: "r = 0" "c = Some (foldl addSubHwDevice c0 ds)" "G' = ?G2" "k' = k1" "opened = ds" "shut = []"
        using assms go o(1) True by (auto simp: open_sensors_def Let_def c0_def)
      have ds: "length ds = length (loaded_modules ?G1)" "\<forall>d \<in> set ds. usable K d" "ds \<noteq> []" using o(2) [OF True] go(3) by auto
      have "sub_hw_modules ?G1 \<noteq> None" by (simp add: lazy_init_modules_def split: option.split)
      then have "loaded_modules ?G2 = loaded_modules ?G1"
        by (auto simp: lazy_init_sensors_list_def loaded_modules_def lazy_init_modules_def Let_def split: option.split prod.split)
      moreover have "ctx_ok (foldl addSubHwDevice c0 ds)" by (rule ctx_new_ok) (use ds(3) in \<open>simp_all add: c0_def\<close>)
      moreover have "sub_hw_devices (foldl addSubHwDevice c0 ds) = ds" "length (queues (foldl addSubHwDevice c0 ds)) = length ds"
        by (simp_all add: add_devices c0_def)
      moreover from this have "\<exists>k''. device__close (logged S) c (k', opened, []) = (0, k'', opened, map dev_id opened)"
        using close_all_logged [of S "foldl addSubHwDevice c0 ds" k1 ds "[]"] res by (auto simp: device__close_def)
      ultimately show ?thesis using res ds by simp
    qed
  qed
qed

definition demo_subhal :: "nat subhal" where
  "demo_subhal = \<lparr>sub_activate = (\<lambda>_ _ _ k. (0, Suc k)), sub_setDelay = (\<lambda>_ _ _ k. (0, Suc k)), sub_close = (\<lambda>_ k. Suc k),
     sub_open = (\<lambda>_ _ k. ((0, Some demo_device), Suc k))\<rparr>"

lemma open_sensors_result_witness:
  "\<exists>r c G' k' opened shut. open_sensors demo_sensors_h (logged demo_subhal) demo_dl demo_conf demo_list True (Some ''poll'')
       fresh_globals (0, [], []) = (((r, c), G'), k', opened, shut)
     \<and> (r \<noteq> 0 \<and> shut = map dev_id (filter has_close opened) \<or> r = 0 \<and> shut = [])"
proof -
  obtain r c G' k' opened shut where o: "open_sensors demo_sensors_h (logged demo_subhal) demo_dl demo_conf demo_list True
      (Some ''poll'') fresh_globals (0, [], []) = (((r, c), G'), k', opened, shut)" by (metis prod.exhaust)
  then show ?thesis using open_sensors_result [OF o] by blast
qed

section \<open>Sessions\<close>

lemma open_context:
  assumes "open_sensors K S D conf sensors_of device_out name G k = (((r, Some c), G'), k')"
  shows "sys_ok \<lparr>ss_ctx = c, ss_todo = replicate (length (queues c)) []\<rparr>"
proof -
  obtain nm where nm: "name = Some nm" "device_out" using assms by (auto simp: open_sensors_def split: option.splits if_splits)
  let ?ms = "loaded_modules (lazy_init_modules D conf G)"
  obtain e ds k1 where o: "open_subs K S nm ?ms [] k = ((e, ds), k1)" by (metis prod.exhaust)
  have ms: "?ms \<noteq> []" "e = 0" using assms nm o by (auto simp: open_sensors_def Let_def split: if_splits)
  obtain c0 where c0: "c = foldl addSubHwDevice c0 ds" "queues c0 = []" "consumed_events c0 = []" "pending_flushes c0 = []"
    "nextReadIndex c0 = 0" using assms nm o ms by (auto simp: open_sensors_def Let_def)
  have "length ds = length opened0 + length ms0" if "open_subs K S nm ms0 opened0 k0 = ((0, ds), k2)" for ms0 opened0 k0 k2
    using that by (induction ms0 arbitrary: opened0 k0) (auto simp: Let_def split: prod.splits option.splits if_splits)
  then have "length ds = length ?ms" using o ms(2) by fastforce
  then have "ds \<noteq> []" using ms(1) by auto
  then have "ctx_ok c" using ctx_new_ok c0 by simp
  then show ?thesis
    using c0 by (simp add: sys_ok_def flush_bound_def add_devices new_SensorEventQueue_def)
qed

text \<open>
  (C10) A session: after \<^verbatim>\<open>open_sensors\<close> gave a device, no sequence of batches from the sub-HALs, of chunks that
  their writers copy, of \<^verbatim>\<open>activate\<close>, \<^verbatim>\<open>flush\<close> and \<^verbatim>\<open>poll\<close> calls leads to undefined behaviour, and the rings and the
  flush requests stay consistent. When \<^verbatim>\<open>poll\<close> finds nothing and goes to sleep, every flush request that is still
  pending belongs to a sub-HAL whose writer has events left to copy, so none is forgotten.
\<close>

theorem sensor_session_safe:
  assumes "open_sensors K S D conf sensors_of device_out name G k = (((r, Some c), G'), k1)"
  shows "\<exists>s k'. run_steps (sensor_step K S) calls (\<lparr>ss_ctx = c, ss_todo = replicate (length (queues c)) []\<rparr>, k1) = Some (s, k')
    \<and> sys_ok s \<and> (\<forall>maxReads > 0. \<exists>out c'. ctx_poll K (poll_fuel (ss_ctx s)) (ss_ctx s) True maxReads = Some (int (length out), out, c')
         \<and> (out = [] \<longrightarrow> (\<forall>f \<in> set (pending_flushes c'). ss_todo s ! nat (pf_module_index f) \<noteq> [])))"
proof -
  have "sys_ok (fst (\<lparr>ss_ctx = c, ss_todo = replicate (length (queues c)) []\<rparr>, k1))" using open_context [OF assms] by simp
  from sensor_machine.run_defined [OF this, of K S calls] obtain s k' where
    "run_steps (sensor_step K S) calls (\<lparr>ss_ctx = c, ss_todo = replicate (length (queues c)) []\<rparr>, k1) = Some (s, k')" "sys_ok s"
    by auto
  then show ?thesis using sys_poll [of s] by blast
qed

lemma demo_sensors_open:
  "\<exists>c G' k1. open_sensors demo_sensors_h demo_subhal demo_dl demo_conf demo_list True (Some ''poll'') fresh_globals 0
     = (((0, Some c), G'), k1)"
  using demo_modules
  by (simp add: open_sensors_def demo_subhal_def demo_device_def demo_sensors_h_def Let_def)

lemma sensor_session_safe_witness:
  "\<exists>c k1 s k'. run_steps (sensor_step demo_sensors_h demo_subhal) [S_activate 1 1, W_batch 0 1 [zero_event\<lparr>ev_sensor := 101\<rparr>],
      S_flush 1, W_chunk 0, S_poll 8] (\<lparr>ss_ctx = c, ss_todo = replicate (length (queues c)) []\<rparr>, k1) = Some (s, k') \<and> sys_ok s"
proof -
  obtain c G' k1 where "open_sensors demo_sensors_h demo_subhal demo_dl demo_conf demo_list True (Some ''poll'') fresh_globals 0
     = (((0, Some c), G'), k1)" using demo_sensors_open by blast
  from sensor_session_safe [OF this, of "[S_activate 1 1, W_batch 0 1 [zero_event\<lparr>ev_sensor := 101\<rparr>], S_flush 1, W_chunk 0, S_poll 8]"]
  show ?thesis by blast
qed

end
