(* ===== verification/Cam_Meta.thy ===== *)
theory Cam_Meta
  imports Mocha_Prelude
begin

text \<open>
  The metadata of the camera adapter (camera/LegacyMetadata.cpp): the characteristics of an old camera in the form that the
  newer interface asks for, requests whose modes and frame rates are put right, and results put together from partial ones.
  The metadata library is not in the repository: \<open>'m\<close> stands for its buffers and \<open>'m meta_lib\<close> for its operations.
  The constants of its headers are given by name (\<open>camera_h\<close>).
\<close>

section \<open>The library\<close>

text \<open>The type of an entry is that of its tag; floating-point values are their bits.\<close>

datatype mval = U8s "u8 list" | I32s "int list" | I64s "int list" | Floats "u32 list" | Others "nat list"

type_synonym camera_h = "string \<Rightarrow> int"

text \<open>
  A tag is its 32 bits read as a signed number, which is the form in which the lists of keys hold it; the other reading
  as an unsigned number has the same bits, and only equality of tags is tested. \<open>md_null\<close> holds while there is no buffer, \<open>md_entries\<close> are the entries by index, \<open>None\<close> where \<^verbatim>\<open>get_camera_metadata_ro_entry\<close> fails; \<open>md_update\<close> returns a
  status that is 0 on success.
\<close>

record 'm meta_lib =
  md_new :: 'm
  md_isEmpty :: "'m \<Rightarrow> bool"
  md_null :: "'m \<Rightarrow> bool"
  md_find :: "'m \<Rightarrow> int \<Rightarrow> mval option"
  md_update :: "'m \<Rightarrow> int \<Rightarrow> mval \<Rightarrow> int \<times> 'm"
  md_erase :: "'m \<Rightarrow> int \<Rightarrow> 'm"
  md_entries :: "'m \<Rightarrow> (int \<times> mval) option list"
  md_clone :: "'m \<Rightarrow> 'm option"

definition find_u8 :: "'m meta_lib \<Rightarrow> 'm \<Rightarrow> int \<Rightarrow> u8 list" where
  "find_u8 M m t = (case md_find M m t of Some (U8s l) \<Rightarrow> l | _ \<Rightarrow> [])"

definition find_i32 :: "'m meta_lib \<Rightarrow> 'm \<Rightarrow> int \<Rightarrow> int list" where
  "find_i32 M m t = (case md_find M m t of Some (I32s l) \<Rightarrow> l | _ \<Rightarrow> [])"

definition find_i64 :: "'m meta_lib \<Rightarrow> 'm \<Rightarrow> int \<Rightarrow> int list" where
  "find_i64 M m t = (case md_find M m t of Some (I64s l) \<Rightarrow> l | _ \<Rightarrow> [])"

definition find_f :: "'m meta_lib \<Rightarrow> 'm \<Rightarrow> int \<Rightarrow> u32 list" where
  "find_f M m t = (case md_find M m t of Some (Floats l) \<Rightarrow> l | _ \<Rightarrow> [])"

section \<open>Building the characteristics\<close>

definition kRequestKeys :: "camera_h \<Rightarrow> int list" where
  "kRequestKeys V = map V
     [''ANDROID_CONTROL_AE_ANTIBANDING_MODE'', ''ANDROID_CONTROL_AE_EXPOSURE_COMPENSATION'',
      ''ANDROID_CONTROL_AE_LOCK'', ''ANDROID_CONTROL_AE_MODE'', ''ANDROID_CONTROL_AE_REGIONS'',
      ''ANDROID_CONTROL_AE_TARGET_FPS_RANGE'', ''ANDROID_CONTROL_AE_PRECAPTURE_TRIGGER'',
      ''ANDROID_CONTROL_AF_MODE'', ''ANDROID_CONTROL_AF_REGIONS'', ''ANDROID_CONTROL_AF_TRIGGER'',
      ''ANDROID_CONTROL_AWB_LOCK'', ''ANDROID_CONTROL_AWB_MODE'', ''ANDROID_CONTROL_AWB_REGIONS'',
      ''ANDROID_CONTROL_CAPTURE_INTENT'', ''ANDROID_CONTROL_EFFECT_MODE'', ''ANDROID_CONTROL_MODE'',
      ''ANDROID_CONTROL_SCENE_MODE'', ''ANDROID_CONTROL_VIDEO_STABILIZATION_MODE'',
      ''ANDROID_EDGE_MODE'', ''ANDROID_FLASH_MODE'',
      ''ANDROID_JPEG_GPS_COORDINATES'', ''ANDROID_JPEG_GPS_PROCESSING_METHOD'',
      ''ANDROID_JPEG_GPS_TIMESTAMP'', ''ANDROID_JPEG_ORIENTATION'', ''ANDROID_JPEG_QUALITY'',
      ''ANDROID_JPEG_THUMBNAIL_QUALITY'', ''ANDROID_JPEG_THUMBNAIL_SIZE'',
      ''ANDROID_LENS_FOCAL_LENGTH'', ''ANDROID_LENS_FOCUS_DISTANCE'',
      ''ANDROID_LENS_OPTICAL_STABILIZATION_MODE'', ''ANDROID_NOISE_REDUCTION_MODE'',
      ''ANDROID_SCALER_CROP_REGION'', ''ANDROID_STATISTICS_FACE_DETECT_MODE'']"

abbreviation kPipelineDepth :: u8 where "kPipelineDepth \<equiv> 8"

text \<open>\<^verbatim>\<open>ok &= m.update(...) == 0\<close>: every update is tried, whatever became of the earlier ones.\<close>

definition put_entry :: "'m meta_lib \<Rightarrow> int \<times> mval \<Rightarrow> bool \<times> 'm \<Rightarrow> bool \<times> 'm" where
  "put_entry M = (\<lambda>(t, v) (ok, m). case md_update M m t v of (r, m1) \<Rightarrow> (ok \<and> r = 0, m1))"

definition put_entries :: "'m meta_lib \<Rightarrow> (int \<times> mval) list \<Rightarrow> bool \<times> 'm \<Rightarrow> bool \<times> 'm" where
  "put_entries M es s = fold (put_entry M) es s"

abbreviation u8_of :: "int \<Rightarrow> mval" where "u8_of x \<equiv> U8s [word_of_int x]"

text \<open>
  The inner loop over the sizes of one format: the pairs of \<open>sizes\<close> with their durations. The three lists grow by a
  configuration, a duration and a stall per size.
\<close>

fun build_sizes ::
  "camera_h \<Rightarrow> int \<Rightarrow> (int \<times> int) list \<Rightarrow> int list \<Rightarrow> int list \<times> int list \<times> int list \<Rightarrow> (int list \<times> int list \<times> int list) option" where
  "build_sizes V format ((width, height) # sizes) (duration # durations) (cs, mins, stalls) =
     (if width \<le> 0 \<or> height \<le> 0 \<or> duration \<le> 0 then None
      else if format = V ''HAL_PIXEL_FORMAT_IMPLEMENTATION_DEFINED'' \<and> duration > 33334334
      then build_sizes V format sizes durations (cs, mins, stalls)
      else build_sizes V format sizes durations
             (cs @ [format, width, height, V ''ANDROID_SCALER_AVAILABLE_STREAM_CONFIGURATIONS_OUTPUT''],
              mins @ [format, width, height, duration],
              stalls @ [format, width, height, if format = V ''HAL_PIXEL_FORMAT_BLOB'' then duration else 0]))"
| "build_sizes V format _ _ acc = Some acc"

fun pairs :: "'a list \<Rightarrow> ('a \<times> 'a) list" where
  "pairs (x # y # xs) = (x, y) # pairs xs"
| "pairs _ = []"

definition build_format ::
  "camera_h \<Rightarrow> 'm meta_lib \<Rightarrow> 'm \<Rightarrow> int \<Rightarrow> int list \<times> int list \<times> int list \<Rightarrow> (int list \<times> int list \<times> int list) option" where
  "build_format V M m format acc =
     (let jpeg = (format = V ''HAL_PIXEL_FORMAT_BLOB'');
          sizes = find_i32 M m (V (if jpeg then ''ANDROID_SCALER_AVAILABLE_JPEG_SIZES''
                                   else ''ANDROID_SCALER_AVAILABLE_PROCESSED_SIZES''));
          durations = find_i64 M m (V (if jpeg then ''ANDROID_SCALER_AVAILABLE_JPEG_MIN_DURATIONS''
                                       else ''ANDROID_SCALER_AVAILABLE_PROCESSED_MIN_DURATIONS''))
      in if format \<notin> set (find_i32 M m (V ''ANDROID_SCALER_AVAILABLE_FORMATS'')) then None
         else if sizes = [] \<or> length sizes mod 2 \<noteq> 0 \<or> length durations \<noteq> length sizes div 2 then None
         else build_sizes V format (pairs sizes) durations acc)"

definition formats :: "camera_h \<Rightarrow> int list" where
  "formats V = map V [''HAL_PIXEL_FORMAT_RGBA_8888'', ''HAL_PIXEL_FORMAT_IMPLEMENTATION_DEFINED'',
     ''HAL_PIXEL_FORMAT_YCbCr_420_888'', ''HAL_PIXEL_FORMAT_BLOB'']"

fun build_formats ::
  "camera_h \<Rightarrow> 'm meta_lib \<Rightarrow> 'm \<Rightarrow> int list \<Rightarrow> int list \<times> int list \<times> int list \<Rightarrow> (int list \<times> int list \<times> int list) option" where
  "build_formats V M m [] acc = Some acc"
| "build_formats V M m (f # fs) acc = Option.bind (build_format V M m f acc) (build_formats V M m fs)"

definition fixed_entries :: "camera_h \<Rightarrow> int list \<Rightarrow> (int \<times> mval) list" where
  "fixed_entries V maxRegions =
     [(V ''ANDROID_CONTROL_MAX_REGIONS'', I32s maxRegions),
      (V ''ANDROID_LENS_INFO_FOCUS_DISTANCE_CALIBRATION'', u8_of (V ''ANDROID_LENS_INFO_FOCUS_DISTANCE_CALIBRATION_APPROXIMATE'')),
      (V ''ANDROID_INFO_SUPPORTED_HARDWARE_LEVEL'', u8_of (V ''ANDROID_INFO_SUPPORTED_HARDWARE_LEVEL_LIMITED'')),
      (V ''ANDROID_REQUEST_AVAILABLE_CAPABILITIES'', u8_of (V ''ANDROID_REQUEST_AVAILABLE_CAPABILITIES_BACKWARD_COMPATIBLE'')),
      (V ''ANDROID_REQUEST_MAX_NUM_OUTPUT_STREAMS'', I32s [0, 3, 1]),
      (V ''ANDROID_REQUEST_MAX_NUM_INPUT_STREAMS'', I32s [0]),
      (V ''ANDROID_REQUEST_PIPELINE_MAX_DEPTH'', U8s [kPipelineDepth]),
      (V ''ANDROID_REQUEST_PARTIAL_RESULT_COUNT'', I32s [1]),
      (V ''ANDROID_SYNC_MAX_LATENCY'', I32s [V ''ANDROID_SYNC_MAX_LATENCY_UNKNOWN'']),
      (V ''ANDROID_SENSOR_INFO_TIMESTAMP_SOURCE'', u8_of (V ''ANDROID_SENSOR_INFO_TIMESTAMP_SOURCE_UNKNOWN'')),
      (V ''ANDROID_SCALER_CROPPING_TYPE'', u8_of (V ''ANDROID_SCALER_CROPPING_TYPE_CENTER_ONLY'')),
      (V ''ANDROID_EDGE_AVAILABLE_EDGE_MODES'', U8s (map (\<lambda>n. word_of_int (V n)) [''ANDROID_EDGE_MODE_OFF'', ''ANDROID_EDGE_MODE_FAST''])),
      (V ''ANDROID_NOISE_REDUCTION_AVAILABLE_NOISE_REDUCTION_MODES'',
         U8s (map (\<lambda>n. word_of_int (V n)) [''ANDROID_NOISE_REDUCTION_MODE_OFF'', ''ANDROID_NOISE_REDUCTION_MODE_FAST''])),
      (V ''ANDROID_HOT_PIXEL_AVAILABLE_HOT_PIXEL_MODES'', u8_of (V ''ANDROID_HOT_PIXEL_MODE_OFF'')),
      (V ''ANDROID_TONEMAP_AVAILABLE_TONE_MAP_MODES'', u8_of (V ''ANDROID_TONEMAP_MODE_FAST'')),
      (V ''ANDROID_CONTROL_AVAILABLE_VIDEO_STABILIZATION_MODES'', u8_of (V ''ANDROID_CONTROL_VIDEO_STABILIZATION_MODE_OFF''))]"

definition erased_tags :: "camera_h \<Rightarrow> int list" where
  "erased_tags V = map V
     [''ANDROID_CONTROL_AVAILABLE_HIGH_SPEED_VIDEO_CONFIGURATIONS'', ''ANDROID_QUIRKS_USE_PARTIAL_RESULT'',
      ''ANDROID_SCALER_AVAILABLE_FORMATS'', ''ANDROID_SCALER_AVAILABLE_JPEG_SIZES'',
      ''ANDROID_SCALER_AVAILABLE_JPEG_MIN_DURATIONS'', ''ANDROID_SCALER_AVAILABLE_PROCESSED_SIZES'',
      ''ANDROID_SCALER_AVAILABLE_PROCESSED_MIN_DURATIONS'', ''ANDROID_SCALER_AVAILABLE_RAW_SIZES'',
      ''ANDROID_SCALER_AVAILABLE_RAW_MIN_DURATIONS'']"

definition measured :: "camera_h \<Rightarrow> int list" where
  "measured V = map V
     [''ANDROID_CONTROL_AE_STATE'', ''ANDROID_CONTROL_AF_STATE'', ''ANDROID_CONTROL_AWB_STATE'',
      ''ANDROID_SENSOR_EXPOSURE_TIME'', ''ANDROID_SENSOR_TIMESTAMP'',
      ''ANDROID_LENS_STATE'', ''ANDROID_LENS_FOCUS_RANGE'', ''ANDROID_LENS_APERTURE'',
      ''ANDROID_REQUEST_PIPELINE_DEPTH'', ''ANDROID_FLASH_STATE'',
      ''ANDROID_STATISTICS_FACE_RECTANGLES'', ''ANDROID_STATISTICS_FACE_SCORES'']"

text \<open>\<^verbatim>\<open>std::sort\<close> followed by \<^verbatim>\<open>std::unique\<close>.\<close>

definition sorted_unique :: "int list \<Rightarrow> int list" where
  "sorted_unique l = remdups_adj (sort l)"

text \<open>The loop over the entries stops at one that cannot be read, and makes the result false. Tags are signed numbers already.\<close>

fun collect_tags :: "(int \<times> mval) option list \<Rightarrow> bool \<times> int list" where
  "collect_tags [] = (True, [])"
| "collect_tags (None # es) = (False, [])"
| "collect_tags (Some (t, _) # es) = (case collect_tags es of (ok, ts) \<Rightarrow> (ok, t # ts))"

definition max_regions :: "camera_h \<Rightarrow> 'm meta_lib \<Rightarrow> 'm \<Rightarrow> int list option" where
  "max_regions V M m =
     (let regions = find_i32 M m (V ''ANDROID_CONTROL_MAX_REGIONS'');
          focus = find_f M m (V ''ANDROID_LENS_INFO_MINIMUM_FOCUS_DISTANCE'');
          fixedFocus = (focus = [] \<or> hd focus AND 0x7FFFFFFF = 0)
      in if length regions \<noteq> 1 \<and> length regions \<noteq> 3 then None
         else Some [hd regions, hd regions, if fixedFocus then 0 else hd regions])"

text \<open>\<open>None\<close> is the result false, in which case the output is left alone; \<open>stock\<close> may be a null pointer.\<close>

definition buildCharacteristics :: "camera_h \<Rightarrow> 'm meta_lib \<Rightarrow> 'm option \<Rightarrow> 'm option" where
  "buildCharacteristics V M stock = do {
     s \<leftarrow> stock;
     m \<leftarrow> md_clone M s;
     (configurations, minimums, stalls) \<leftarrow> build_formats V M m (formats V) ([], [], []);
     let (ok1, m1) = put_entries M
           [(V ''ANDROID_SCALER_AVAILABLE_STREAM_CONFIGURATIONS'', I32s configurations),
            (V ''ANDROID_SCALER_AVAILABLE_MIN_FRAME_DURATIONS'', I64s minimums),
            (V ''ANDROID_SCALER_AVAILABLE_STALL_DURATIONS'', I64s stalls)] (True, m);
     maxRegions \<leftarrow> max_regions V M m1;
     let (ok2, m2) = put_entries M (fixed_entries V maxRegions) (ok1, m1);
     let m3 = fold (\<lambda>t m. md_erase M m t) (erased_tags V) m2;
     let (ok4, m4) = put_entries M
           [(V ''ANDROID_REQUEST_AVAILABLE_REQUEST_KEYS'', I32s (kRequestKeys V)),
            (V ''ANDROID_REQUEST_AVAILABLE_RESULT_KEYS'', I32s (sorted_unique (kRequestKeys V @ measured V)))] (ok2, m3);
     let (ok5, tags) = collect_tags (md_entries M m4);
     let (ok6, m6) = put_entries M
           [(V ''ANDROID_REQUEST_AVAILABLE_CHARACTERISTICS_KEYS'',
             I32s (sorted_unique (tags @ [V ''ANDROID_REQUEST_AVAILABLE_CHARACTERISTICS_KEYS''])))] (ok4 \<and> ok5, m4);
     if ok6 then Some m6 else None
   }"

section \<open>Requests and results\<close>

text \<open>One iteration of the loop over the two controls; \<open>Inl\<close> is the early return of false.\<close>

definition normalize_mode ::
  "'m meta_lib \<Rightarrow> 'm \<Rightarrow> int \<Rightarrow> int \<Rightarrow> u8 \<Rightarrow> bool \<times> 'm \<Rightarrow> 'm + bool \<times> 'm" where
  "normalize_mode M characteristics control supported replacement = (\<lambda>(ok, request).
     let mode = find_u8 M request control; modes = find_u8 M characteristics supported in
     if length mode \<noteq> 1 then Inr (ok, request)
     else if modes = [] then Inl request
     else if hd mode \<in> set modes then Inr (ok, request)
     else Inr (put_entry M (control, U8s [replacement]) (ok, request)))"

definition normalize_rest :: "camera_h \<Rightarrow> 'm meta_lib \<Rightarrow> 'm \<Rightarrow> bool \<times> 'm \<Rightarrow> bool \<times> 'm" where
  "normalize_rest V M characteristics = (\<lambda>(ok, request).
     let fps = find_i32 M request (V ''ANDROID_CONTROL_AE_TARGET_FPS_RANGE'');
         ranges = find_i32 M characteristics (V ''ANDROID_CONTROL_AE_AVAILABLE_TARGET_FPS_RANGES'');
         bad = (length fps \<noteq> 2 \<or> fps ! 0 \<le> 0 \<or> fps ! 1 < fps ! 0)
     in if bad \<and> length ranges < 2 then (False, request)
        else
          let s1 = (if bad then put_entry M (V ''ANDROID_CONTROL_AE_TARGET_FPS_RANGE'', I32s (take 2 ranges)) (ok, request)
                    else (ok, request));
              stabilization = find_u8 M (snd s1) (V ''ANDROID_CONTROL_VIDEO_STABILIZATION_MODE'');
              off = word_of_int (V ''ANDROID_CONTROL_VIDEO_STABILIZATION_MODE_OFF'')
          in if length stabilization \<noteq> 1 \<or> hd stabilization \<noteq> off
             then put_entry M (V ''ANDROID_CONTROL_VIDEO_STABILIZATION_MODE'', U8s [off]) s1 else s1)"

definition normalizeRequest :: "camera_h \<Rightarrow> 'm meta_lib \<Rightarrow> 'm \<Rightarrow> 'm \<Rightarrow> bool \<times> 'm" where
  "normalizeRequest V M request characteristics =
     (case normalize_mode M characteristics (V ''ANDROID_CONTROL_AE_MODE'') (V ''ANDROID_CONTROL_AE_AVAILABLE_MODES'')
             (word_of_int (V ''ANDROID_CONTROL_AE_MODE_ON'')) (True, request) of
        Inl m \<Rightarrow> (False, m)
      | Inr s1 \<Rightarrow>
          (case normalize_mode M characteristics (V ''ANDROID_CONTROL_AF_MODE'') (V ''ANDROID_CONTROL_AF_AVAILABLE_MODES'')
                  (word_of_int (V ''ANDROID_CONTROL_AF_MODE_OFF'')) s1 of
             Inl m \<Rightarrow> (False, m)
           | Inr s2 \<Rightarrow> normalize_rest V M characteristics s2))"

fun merge_entries :: "camera_h \<Rightarrow> 'm meta_lib \<Rightarrow> 'm \<Rightarrow> (int \<times> mval) option list \<Rightarrow> bool \<times> 'm" where
  "merge_entries V M dst [] = (True, dst)"
| "merge_entries V M dst (None # es) = (False, dst)"
| "merge_entries V M dst (Some (t, v) # es) =
     (if t = V ''ANDROID_QUIRKS_PARTIAL_RESULT'' then merge_entries V M dst es
      else case md_update M dst t v of (r, dst1) \<Rightarrow> if r \<noteq> 0 then (False, dst1) else merge_entries V M dst1 es)"

definition mergeMetadata :: "camera_h \<Rightarrow> 'm meta_lib \<Rightarrow> 'm \<Rightarrow> 'm option \<Rightarrow> bool \<times> 'm" where
  "mergeMetadata V M destination source =
     (case source of None \<Rightarrow> (True, destination) | Some s \<Rightarrow> merge_entries V M destination (md_entries M s))"

text \<open>\<^verbatim>\<open>getAndLock\<close> of metadata without a buffer is a null pointer.\<close>

definition finishResult :: "camera_h \<Rightarrow> 'm meta_lib \<Rightarrow> 'm \<Rightarrow> 'm \<Rightarrow> bool \<times> 'm" where
  "finishResult V M result partials =
     (let (ok, m1) = mergeMetadata V M result (if md_null M partials then None else Some partials);
          m2 = md_erase M m1 (V ''ANDROID_QUIRKS_PARTIAL_RESULT'')
      in put_entries M
           [(V ''ANDROID_REQUEST_PIPELINE_DEPTH'', U8s [kPipelineDepth]),
            (V ''ANDROID_FLASH_STATE'', u8_of (V ''ANDROID_FLASH_STATE_UNAVAILABLE''))] (ok, m2))"

section \<open>What the library promises\<close>

text \<open>
  A successful update stores its entry and leaves the others, erasing removes an entry, the entries by index are
  those that are found by tag, and a copy has the same entries.
\<close>

definition meta_laws :: "'m meta_lib \<Rightarrow> bool" where
  "meta_laws M \<longleftrightarrow>
     (\<forall>m t v m'. md_update M m t v = (0, m') \<longrightarrow> md_find M m' = (md_find M m)(t \<mapsto> v))
     \<and> (\<forall>m t. md_find M (md_erase M m t) = (md_find M m)(t := None))
     \<and> (\<forall>m. \<exists>es. md_entries M m = map Some es \<and> distinct (map fst es) \<and> map_of es = md_find M m)
     \<and> (\<forall>m m'. md_clone M m = Some m' \<longrightarrow> md_find M m' = md_find M m)
     \<and> md_find M (md_new M) = Map.empty \<and> (\<forall>m. md_null M m \<longrightarrow> md_find M m = Map.empty)"

lemma find_cong: "md_find M m t = md_find M m' t \<Longrightarrow>
    find_u8 M m t = find_u8 M m' t \<and> find_i32 M m t = find_i32 M m' t \<and> find_i64 M m t = find_i64 M m' t"
  by (simp add: find_u8_def find_i32_def find_i64_def)

lemma put_entry_find:
  assumes "meta_laws M" and "put_entry M (t, v) (ok, m) = (True, m')"
  shows "ok" "md_find M m' = (md_find M m)(t \<mapsto> v)"
  using assms by (auto simp: put_entry_def meta_laws_def split: prod.splits)

lemma put_entries_find:
  assumes "meta_laws M" and "put_entries M es (ok, m) = (True, m')"
  shows "ok \<and> md_find M m' = md_find M m ++ map_of (rev es)"
  using assms(2)
proof (induction es arbitrary: ok m)
  case (Cons e es)
  obtain t v where e: "e = (t, v)" by (cases e)
  obtain ok1 m1 where s: "put_entry M e (ok, m) = (ok1, m1)" by (cases "put_entry M e (ok, m)")
  then have "put_entries M es (ok1, m1) = (True, m')" using Cons.prems by (simp add: put_entries_def)
  from Cons.IH [OF this] have "ok1" and f: "md_find M m' = md_find M m1 ++ map_of (rev es)" by simp_all
  then have "ok" "md_find M m1 = (md_find M m)(t \<mapsto> v)" using put_entry_find [OF assms(1)] s e by auto
  then show ?case using f e by simp
qed (simp add: put_entries_def)

lemma erase_find:
  assumes "meta_laws M"
  shows "md_find M (fold (\<lambda>t m. md_erase M m t) ts m) = (\<lambda>t. if t \<in> set ts then None else md_find M m t)"
  using assms by (induction ts arbitrary: m) (auto simp: meta_laws_def fun_eq_iff)

section \<open>Requests\<close>

text \<open>A control that is asked for by one mode that is not among the supported ones.\<close>

definition unsupported_mode :: "'m meta_lib \<Rightarrow> 'm \<Rightarrow> 'm \<Rightarrow> int \<Rightarrow> int \<Rightarrow> bool" where
  "unsupported_mode M req ch control supported \<longleftrightarrow>
     length (find_u8 M req control) = 1 \<and> hd (find_u8 M req control) \<notin> set (find_u8 M ch supported)"

lemma normalize_mode_result:
  assumes laws: "meta_laws M" and n: "normalize_mode M ch control supported new (ok, req) = Inr (True, req')"
  shows "ok" "md_find M req' = (if unsupported_mode M req ch control supported then (md_find M req)(control \<mapsto> U8s [new]) else md_find M req)"
    "length (find_u8 M req control) = 1 \<Longrightarrow> find_u8 M ch supported \<noteq> []"
proof -
  consider (skip) "length (find_u8 M req control) \<noteq> 1" "ok" "req' = req"
    | (keep) "length (find_u8 M req control) = 1" "find_u8 M ch supported \<noteq> []"
        "hd (find_u8 M req control) \<in> set (find_u8 M ch supported)" "ok" "req' = req"
    | (put) "length (find_u8 M req control) = 1" "find_u8 M ch supported \<noteq> []"
        "hd (find_u8 M req control) \<notin> set (find_u8 M ch supported)" "put_entry M (control, U8s [new]) (ok, req) = (True, req')"
    using n by (auto simp: normalize_mode_def Let_def split: if_splits)
  then have "ok \<and> md_find M req' = (if unsupported_mode M req ch control supported then (md_find M req)(control \<mapsto> U8s [new]) else md_find M req)
    \<and> (length (find_u8 M req control) = 1 \<longrightarrow> find_u8 M ch supported \<noteq> [])"
  proof cases
    case put
    then show ?thesis using put_entry_find [OF laws put(4)] by (simp add: unsupported_mode_def)
  qed (auto simp: unsupported_mode_def)
  then show "ok" "md_find M req' = (if unsupported_mode M req ch control supported then (md_find M req)(control \<mapsto> U8s [new]) else md_find M req)"
    "length (find_u8 M req control) = 1 \<Longrightarrow> find_u8 M ch supported \<noteq> []" by blast+
qed

definition fps_ok :: "int list \<Rightarrow> bool" where
  "fps_ok fps \<longleftrightarrow> length fps = 2 \<and> 0 < fps ! 0 \<and> fps ! 0 \<le> fps ! 1"

lemma normalize_rest_result:
  assumes laws: "meta_laws M" and n: "normalize_rest V M ch (ok, req) = (True, req')"
    and ne: "V ''ANDROID_CONTROL_AE_TARGET_FPS_RANGE'' \<noteq> V ''ANDROID_CONTROL_VIDEO_STABILIZATION_MODE''"
  defines "fps \<equiv> find_i32 M req (V ''ANDROID_CONTROL_AE_TARGET_FPS_RANGE'')"
    and "ranges \<equiv> find_i32 M ch (V ''ANDROID_CONTROL_AE_AVAILABLE_TARGET_FPS_RANGES'')"
  shows "ok" "\<forall>t. t \<noteq> V ''ANDROID_CONTROL_AE_TARGET_FPS_RANGE'' \<and> t \<noteq> V ''ANDROID_CONTROL_VIDEO_STABILIZATION_MODE''
      \<longrightarrow> md_find M req' t = md_find M req t"
    "find_u8 M req' (V ''ANDROID_CONTROL_VIDEO_STABILIZATION_MODE'') = [word_of_int (V ''ANDROID_CONTROL_VIDEO_STABILIZATION_MODE_OFF'')]"
    "md_find M req' (V ''ANDROID_CONTROL_AE_TARGET_FPS_RANGE'')
       = (if fps_ok fps then md_find M req (V ''ANDROID_CONTROL_AE_TARGET_FPS_RANGE'') else Some (I32s (take 2 ranges)))"
    "fps_ok fps \<or> 2 \<le> length ranges"
proof -
  let ?f = "V ''ANDROID_CONTROL_AE_TARGET_FPS_RANGE''" and ?s = "V ''ANDROID_CONTROL_VIDEO_STABILIZATION_MODE''"
  let ?off = "word_of_int (V ''ANDROID_CONTROL_VIDEO_STABILIZATION_MODE_OFF'') :: u8"
  have bad: "(length fps \<noteq> 2 \<or> fps ! 0 \<le> 0 \<or> fps ! 1 < fps ! 0) \<longleftrightarrow> \<not> fps_ok fps" by (auto simp: fps_ok_def)
  define s1 where "s1 = (if fps_ok fps then (ok, req) else put_entry M (?f, I32s (take 2 ranges)) (ok, req))"
  have len: "fps_ok fps \<or> 2 \<le> length ranges"
    and rest: "(if length (find_u8 M (snd s1) ?s) \<noteq> 1 \<or> hd (find_u8 M (snd s1) ?s) \<noteq> ?off
        then put_entry M (?s, U8s [?off]) s1 else s1) = (True, req')"
    using n [unfolded normalize_rest_def prod.case Let_def, folded fps_def ranges_def, unfolded bad]
    by (auto simp: s1_def split: if_splits)
  obtain ok1 r1 where s1: "s1 = (ok1, r1)" by (cases s1)
  have two: "ok1 \<and> (\<forall>t. t \<noteq> ?s \<longrightarrow> md_find M req' t = md_find M r1 t) \<and> find_u8 M req' ?s = [?off]"
  proof (cases "length (find_u8 M r1 ?s) \<noteq> 1 \<or> hd (find_u8 M r1 ?s) \<noteq> ?off")
    case True
    then show ?thesis using rest s1 put_entry_find [OF laws, of ?s "U8s [?off]" ok1 r1 req'] by (simp add: find_u8_def)
  next
    case False
    then show ?thesis using rest s1 by (cases "find_u8 M r1 ?s") auto
  qed
  have one: "ok \<and> (\<forall>t. t \<noteq> ?f \<longrightarrow> md_find M r1 t = md_find M req t)
      \<and> md_find M r1 ?f = (if fps_ok fps then md_find M req ?f else Some (I32s (take 2 ranges)))"
    using s1 two put_entry_find [OF laws, of ?f "I32s (take 2 ranges)" ok req r1]
    by (auto simp: s1_def split: if_splits)
  show "ok" using one by simp
  show "\<forall>t. t \<noteq> ?f \<and> t \<noteq> ?s \<longrightarrow> md_find M req' t = md_find M req t" using one two by simp
  show "find_u8 M req' ?s = [?off]" using two by simp
  show "md_find M req' ?f = (if fps_ok fps then md_find M req ?f else Some (I32s (take 2 ranges)))" using one two ne by simp
  show "fps_ok fps \<or> 2 \<le> length ranges" by (rule len)
qed

text \<open>
  (C19) What \<^verbatim>\<open>normalizeRequest\<close> makes of a request that it accepts, for a library that stores what it is given: a single
  exposure or focus mode that is not among the supported ones is replaced by "on" and "off" (the supported ones must not be missing
  then), an exposure or focus entry that is absent or not a single byte is kept as it is; a frame rate range that is missing, not
  positive or decreasing is replaced by the first range of the camera, which must have one, and any other range is kept, supported
  or not; video stabilisation is off; every other entry is as the client sent it.
\<close>

theorem normalize_request_result:
  assumes laws: "meta_laws M" and n: "normalizeRequest V M req ch = (True, req')"
    and tags: "distinct (map V [''ANDROID_CONTROL_AE_MODE'', ''ANDROID_CONTROL_AF_MODE'',
      ''ANDROID_CONTROL_AE_TARGET_FPS_RANGE'', ''ANDROID_CONTROL_VIDEO_STABILIZATION_MODE''])"
  shows "(\<forall>(control, supported, new) \<in> {(''ANDROID_CONTROL_AE_MODE'', ''ANDROID_CONTROL_AE_AVAILABLE_MODES'', ''ANDROID_CONTROL_AE_MODE_ON''),
          (''ANDROID_CONTROL_AF_MODE'', ''ANDROID_CONTROL_AF_AVAILABLE_MODES'', ''ANDROID_CONTROL_AF_MODE_OFF'')}.
        md_find M req' (V control) = (if unsupported_mode M req ch (V control) (V supported)
          then Some (U8s [word_of_int (V new)]) else md_find M req (V control))
        \<and> (length (find_u8 M req (V control)) = 1 \<longrightarrow> find_u8 M ch (V supported) \<noteq> []))
    \<and> (let fps = find_i32 M req (V ''ANDROID_CONTROL_AE_TARGET_FPS_RANGE'');
            ranges = find_i32 M ch (V ''ANDROID_CONTROL_AE_AVAILABLE_TARGET_FPS_RANGES'') in
        md_find M req' (V ''ANDROID_CONTROL_AE_TARGET_FPS_RANGE'') =
          (if fps_ok fps then md_find M req (V ''ANDROID_CONTROL_AE_TARGET_FPS_RANGE'') else Some (I32s (take 2 ranges)))
        \<and> (fps_ok fps \<or> 2 \<le> length ranges))
    \<and> find_u8 M req' (V ''ANDROID_CONTROL_VIDEO_STABILIZATION_MODE'') = [word_of_int (V ''ANDROID_CONTROL_VIDEO_STABILIZATION_MODE_OFF'')]
    \<and> (\<forall>t. t \<notin> V ` {''ANDROID_CONTROL_AE_MODE'', ''ANDROID_CONTROL_AF_MODE'', ''ANDROID_CONTROL_AE_TARGET_FPS_RANGE'',
          ''ANDROID_CONTROL_VIDEO_STABILIZATION_MODE''} \<longrightarrow> md_find M req' t = md_find M req t)"
proof -
  let ?ae = "V ''ANDROID_CONTROL_AE_MODE''" and ?af = "V ''ANDROID_CONTROL_AF_MODE''"
    and ?f = "V ''ANDROID_CONTROL_AE_TARGET_FPS_RANGE''" and ?s = "V ''ANDROID_CONTROL_VIDEO_STABILIZATION_MODE''"
  obtain ok1 m1 ok2 m2 where
    a: "normalize_mode M ch ?ae (V ''ANDROID_CONTROL_AE_AVAILABLE_MODES'') (word_of_int (V ''ANDROID_CONTROL_AE_MODE_ON'')) (True, req) = Inr (ok1, m1)"
    and b: "normalize_mode M ch ?af (V ''ANDROID_CONTROL_AF_AVAILABLE_MODES'') (word_of_int (V ''ANDROID_CONTROL_AF_MODE_OFF'')) (ok1, m1) = Inr (ok2, m2)"
    and c: "normalize_rest V M ch (ok2, m2) = (True, req')"
    using n unfolding normalizeRequest_def by (auto split: sum.splits prod.splits)
  have ne: "?ae \<noteq> ?af" "?ae \<noteq> ?f" "?ae \<noteq> ?s" "?af \<noteq> ?f" "?af \<noteq> ?s" "?f \<noteq> ?s" using tags by auto
  note c3 = normalize_rest_result [OF laws c ne(6)]
  note b3 = normalize_mode_result [OF laws b [unfolded eqTrueI [OF c3(1)]]]
  note a3 = normalize_mode_result [OF laws a [unfolded eqTrueI [OF b3(1)]]]
  have finds: "md_find M m1 t = md_find M req t" if "t \<noteq> ?ae" for t using a3(2) that by simp
  have finds2: "md_find M m2 t = md_find M m1 t" if "t \<noteq> ?af" for t using b3(2) that by simp
  have u: "find_u8 M m1 ?af = find_u8 M req ?af" and i: "find_i32 M m2 ?f = find_i32 M req ?f"
    using finds [of ?af] finds [of ?f] finds2 [of ?f] ne by (simp_all add: find_u8_def find_i32_def)
  have uns: "unsupported_mode M m1 ch ?af = unsupported_mode M req ch ?af" by (simp add: unsupported_mode_def fun_eq_iff u)
  have ae: "md_find M req' ?ae = md_find M m1 ?ae" and af: "md_find M req' ?af = md_find M m2 ?af"
    and f: "md_find M m2 ?f = md_find M req ?f" using c3(2) finds finds2 ne ne [symmetric] by simp_all
  have "md_find M req' ?ae = (if unsupported_mode M req ch ?ae (V ''ANDROID_CONTROL_AE_AVAILABLE_MODES'')
      then Some (U8s [word_of_int (V ''ANDROID_CONTROL_AE_MODE_ON'')]) else md_find M req ?ae)" unfolding ae a3(2) by simp
  moreover have "md_find M req' ?af = (if unsupported_mode M req ch ?af (V ''ANDROID_CONTROL_AF_AVAILABLE_MODES'')
      then Some (U8s [word_of_int (V ''ANDROID_CONTROL_AF_MODE_OFF'')]) else md_find M req ?af)"
    unfolding af b3(2) uns using finds [of ?af] ne by simp
  moreover have "\<forall>t. t \<notin> {?ae, ?af, ?f, ?s} \<longrightarrow> md_find M req' t = md_find M req t" using finds finds2 c3(2) by simp
  ultimately show ?thesis using a3(3) b3(3) [unfolded u] c3(3-5) [unfolded i f] by (simp add: Let_def)
qed

section \<open>Characteristics\<close>

text \<open>The advertised configurations: format, width, height and the shortest duration of a frame.\<close>

type_synonym config = "int \<times> int \<times> int \<times> int"

definition config_ok :: "camera_h \<Rightarrow> int list \<Rightarrow> config \<Rightarrow> bool" where
  "config_ok V fs = (\<lambda>(f, w, h, d). f \<in> set fs \<and> 0 < w \<and> 0 < h \<and> 0 < d
     \<and> (f = V ''HAL_PIXEL_FORMAT_IMPLEMENTATION_DEFINED'' \<longrightarrow> d \<le> 33334334))"

definition as_configs :: "camera_h \<Rightarrow> config list \<Rightarrow> int list" where
  "as_configs V qs = concat (map (\<lambda>(f, w, h, d). [f, w, h, V ''ANDROID_SCALER_AVAILABLE_STREAM_CONFIGURATIONS_OUTPUT'']) qs)"

definition as_minimums :: "config list \<Rightarrow> int list" where
  "as_minimums qs = concat (map (\<lambda>(f, w, h, d). [f, w, h, d]) qs)"

definition as_stalls :: "camera_h \<Rightarrow> config list \<Rightarrow> int list" where
  "as_stalls V qs = concat (map (\<lambda>(f, w, h, d). [f, w, h, if f = V ''HAL_PIXEL_FORMAT_BLOB'' then d else 0]) qs)"

definition extends_by :: "camera_h \<Rightarrow> int list \<Rightarrow> int list \<times> int list \<times> int list \<Rightarrow> int list \<times> int list \<times> int list \<Rightarrow> bool" where
  "extends_by V fs = (\<lambda>(cs, ms, ss) (cs', ms', ss'). \<exists>qs. cs' = cs @ as_configs V qs \<and> ms' = ms @ as_minimums qs
     \<and> ss' = ss @ as_stalls V qs \<and> (\<forall>q \<in> set qs. config_ok V fs q))"

lemma as_simps [simp]:
  "as_configs V [] = []" "as_minimums [] = []" "as_stalls V [] = []"
  "as_configs V (a @ b) = as_configs V a @ as_configs V b" "as_minimums (a @ b) = as_minimums a @ as_minimums b"
  "as_stalls V (a @ b) = as_stalls V a @ as_stalls V b"
  by (simp_all add: as_configs_def as_minimums_def as_stalls_def)

lemma extends_refl: "extends_by V fs a a"
  by (cases a) (auto simp: extends_by_def intro!: exI [of _ "[]"])

lemma extends_trans:
  assumes "extends_by V fs a b" and "extends_by V gs b c" and "set fs \<subseteq> set hs" "set gs \<subseteq> set hs"
  shows "extends_by V hs a c"
proof -
  obtain a1 a2 a3 c1 c2 c3 where ac: "a = (a1, a2, a3)" "c = (c1, c2, c3)" by (metis prod_cases3)
  obtain qs where qs: "b = (a1 @ as_configs V qs, a2 @ as_minimums qs, a3 @ as_stalls V qs)" "\<forall>q \<in> set qs. config_ok V fs q"
    using assms(1) ac by (cases b) (auto simp: extends_by_def)
  obtain rs where rs: "c1 = a1 @ as_configs V (qs @ rs)" "c2 = a2 @ as_minimums (qs @ rs)" "c3 = a3 @ as_stalls V (qs @ rs)"
    "\<forall>q \<in> set rs. config_ok V gs q" using assms(2) ac qs(1) by (auto simp: extends_by_def)
  have "\<forall>q \<in> set (qs @ rs). config_ok V hs q" using qs(2) rs(4) assms(3,4) by (fastforce simp: config_ok_def)
  then show ?thesis using ac rs(1-3) unfolding extends_by_def prod.case by blast
qed

lemma build_sizes_result: "build_sizes V f sizes durations acc = Some acc' \<Longrightarrow> extends_by V [f] acc acc'"
proof (induction V f sizes durations acc rule: build_sizes.induct)
  case (1 V f w h sizes d durations cs ms ss)
  have pos: "0 < w" "0 < h" "0 < d" using "1.prems" by (auto split: if_splits)
  show ?case
  proof (cases "f = V ''HAL_PIXEL_FORMAT_IMPLEMENTATION_DEFINED'' \<and> d > 33334334")
    case True
    then show ?thesis using 1 pos by simp
  next
    case False
    let ?acc = "(cs @ as_configs V [(f, w, h, d)], ms @ as_minimums [(f, w, h, d)], ss @ as_stalls V [(f, w, h, d)])"
    have "config_ok V [f] (f, w, h, d)" using pos False by (auto simp: config_ok_def)
    then have "extends_by V [f] (cs, ms, ss) ?acc" unfolding extends_by_def prod.case by (intro exI [of _ "[(f, w, h, d)]"]) simp
    moreover have "extends_by V [f] ?acc acc'"
      using "1.IH"(2) "1.prems" pos False by (simp add: as_configs_def as_minimums_def as_stalls_def split: if_splits)
    ultimately show ?thesis by (rule extends_trans) simp_all
  qed
qed (simp_all add: extends_refl)

lemma build_formats_result: "build_formats V M m fs acc = Some acc' \<Longrightarrow> extends_by V fs acc acc'"
proof (induction fs arbitrary: acc)
  case (Cons f fs)
  then obtain acc1 where a: "build_format V M m f acc = Some acc1" "build_formats V M m fs acc1 = Some acc'"
    by (auto elim: bind_SomeE)
  have "extends_by V [f] acc acc1" using a(1) build_sizes_result by (auto simp: build_format_def Let_def split: if_splits)
  from extends_trans [OF this Cons.IH [OF a(2)], of "f # fs"] show ?case by auto
qed (simp add: extends_refl)

lemma collect_tags_some: "collect_tags (map Some es) = (True, map fst es)"
  by (induction es) (auto split: prod.split)

lemma sorted_remdups_adj_distinct: "sorted l \<Longrightarrow> distinct (remdups_adj l)" for l :: "int list"
  by (induction l rule: remdups_adj.induct) auto

lemma sorted_unique_props [simp]: "set (sorted_unique l) = set l" "sorted (sorted_unique l)" "distinct (sorted_unique l)"
  by (simp_all add: sorted_unique_def sorted_remdups_adj sorted_remdups_adj_distinct)

definition scaler_tags :: "camera_h \<Rightarrow> int list" where
  "scaler_tags V = map V [''ANDROID_SCALER_AVAILABLE_STREAM_CONFIGURATIONS'', ''ANDROID_SCALER_AVAILABLE_MIN_FRAME_DURATIONS'',
     ''ANDROID_SCALER_AVAILABLE_STALL_DURATIONS'']"

definition key_tags :: "camera_h \<Rightarrow> int list" where
  "key_tags V = map V [''ANDROID_REQUEST_AVAILABLE_REQUEST_KEYS'', ''ANDROID_REQUEST_AVAILABLE_RESULT_KEYS'',
     ''ANDROID_REQUEST_AVAILABLE_CHARACTERISTICS_KEYS'']"

definition build_tags :: "camera_h \<Rightarrow> int list" where
  "build_tags V = scaler_tags V @ map fst (fixed_entries V []) @ erased_tags V @ key_tags V"

lemma fixed_tags: "map fst (fixed_entries V r) = map fst (fixed_entries V [])"
  by (simp add: fixed_entries_def)

text \<open>The entries of the result, from the entries of the stock characteristics.\<close>

lemma build_finds:
  assumes laws: "meta_laws M" and b: "buildCharacteristics V M (Some s) = Some m"
  shows "\<exists>qs r ks. (\<forall>q \<in> set qs. config_ok V (formats V) q) \<and> length r = 3
    \<and> md_find M m = (\<lambda>t. if t \<in> set (erased_tags V) then None else
         (md_find M s ++ map_of (rev (zip (scaler_tags V) [I32s (as_configs V qs), I64s (as_minimums qs), I64s (as_stalls V qs)]))
            ++ map_of (rev (fixed_entries V r))) t)
        ++ map_of (rev (zip (key_tags V) [I32s (kRequestKeys V), I32s (sorted_unique (kRequestKeys V @ measured V)), I32s ks]))
    \<and> sorted ks \<and> distinct ks \<and> set ks = dom (md_find M m)"
proof -
  obtain m0 cs ms ss r ok1 m1 ok2 m2 ok4 m4 ok5 tags where
    c: "md_clone M s = Some m0" and f: "build_formats V M m0 (formats V) ([], [], []) = Some (cs, ms, ss)"
    and p1: "put_entries M (zip (scaler_tags V) [I32s cs, I64s ms, I64s ss]) (True, m0) = (ok1, m1)"
    and mr: "max_regions V M m1 = Some r"
    and p2: "put_entries M (fixed_entries V r) (ok1, m1) = (ok2, m2)"
    and p4: "put_entries M [(V ''ANDROID_REQUEST_AVAILABLE_REQUEST_KEYS'', I32s (kRequestKeys V)),
          (V ''ANDROID_REQUEST_AVAILABLE_RESULT_KEYS'', I32s (sorted_unique (kRequestKeys V @ measured V)))]
          (ok2, fold (\<lambda>t m. md_erase M m t) (erased_tags V) m2) = (ok4, m4)"
    and ct: "collect_tags (md_entries M m4) = (ok5, tags)"
    and p6: "put_entries M [(V ''ANDROID_REQUEST_AVAILABLE_CHARACTERISTICS_KEYS'',
          I32s (sorted_unique (tags @ [V ''ANDROID_REQUEST_AVAILABLE_CHARACTERISTICS_KEYS''])))] (ok4 \<and> ok5, m4) = (True, m)"
    using b by (auto simp: buildCharacteristics_def scaler_tags_def Let_def split: prod.splits if_splits elim!: bind_SomeE)
  let ?ks = "sorted_unique (tags @ [V ''ANDROID_REQUEST_AVAILABLE_CHARACTERISTICS_KEYS''])"
  note q6 = put_entries_find [OF laws p6]
  have "ok4" using q6 by simp
  note q4 = put_entries_find [OF laws p4 [unfolded eqTrueI [OF this]]]
  have "ok2" using q4 by simp
  note q2 = put_entries_find [OF laws p2 [unfolded eqTrueI [OF this]]]
  have "ok1" using q2 by simp
  note q1 = put_entries_find [OF laws p1 [unfolded eqTrueI [OF this]]]
  obtain qs where qs: "cs = as_configs V qs" "ms = as_minimums qs" "ss = as_stalls V qs" "\<forall>q \<in> set qs. config_ok V (formats V) q"
    using build_formats_result [OF f] by (auto simp: extends_by_def)
  have m0: "md_find M m0 = md_find M s" using laws c by (simp add: meta_laws_def)
  obtain es where es: "md_entries M m4 = map Some es" "map_of es = md_find M m4" using laws unfolding meta_laws_def by metis
  have "tags = map fst es" using ct es(1) by (simp add: collect_tags_some)
  then have "set tags = dom (md_find M m4)" using es(2) by (metis dom_map_of_conv_image_fst set_map)
  then have d: "set ?ks = dom (md_find M m)" using q6 by auto
  have "md_find M m4 = (\<lambda>t. if t \<in> set (erased_tags V) then None else md_find M m2 t)
      ++ map_of (rev [(V ''ANDROID_REQUEST_AVAILABLE_REQUEST_KEYS'', I32s (kRequestKeys V)),
          (V ''ANDROID_REQUEST_AVAILABLE_RESULT_KEYS'', I32s (sorted_unique (kRequestKeys V @ measured V)))])"
    using q4 erase_find [OF laws, of "erased_tags V" m2] by simp
  then have "md_find M m = (\<lambda>t. if t \<in> set (erased_tags V) then None else md_find M m2 t)
      ++ map_of (rev (zip (key_tags V) [I32s (kRequestKeys V), I32s (sorted_unique (kRequestKeys V @ measured V)), I32s ?ks]))"
    using q6 by (simp add: key_tags_def map_add_upd_left)
  then have e: "md_find M m = (\<lambda>t. if t \<in> set (erased_tags V) then None else
         (md_find M s ++ map_of (rev (zip (scaler_tags V) [I32s (as_configs V qs), I64s (as_minimums qs), I64s (as_stalls V qs)]))
            ++ map_of (rev (fixed_entries V r))) t)
        ++ map_of (rev (zip (key_tags V) [I32s (kRequestKeys V), I32s (sorted_unique (kRequestKeys V @ measured V)), I32s ?ks]))"
    unfolding conjunct2 [OF q2] conjunct2 [OF q1] qs(1-3) m0 .
  have "length r = 3" using mr by (auto simp: max_regions_def Let_def split: if_splits)
  moreover have "sorted ?ks" "distinct ?ks" by simp_all
  ultimately show ?thesis using qs(4) d e by blast
qed

lemma map_of_rev_in: "distinct (map fst es) \<Longrightarrow> (t, v) \<in> set es \<Longrightarrow> map_of (rev es) t = Some v"
  by (simp add: rev_map [symmetric])

lemma map_of_rev_out: "t \<notin> fst ` set es \<Longrightarrow> (f ++ map_of (rev es)) t = f t"
  by (simp add: map_add_dom_app_simps(3) dom_map_of_conv_image_fst)

lemma zip_fst: "length ts = length vs \<Longrightarrow> fst ` set (zip ts vs) = set ts"
  by (metis map_fst_zip set_map)

text \<open>
  (C18) The characteristics that \<^verbatim>\<open>buildCharacteristics\<close> makes are consistent: every advertised stream configuration is one of
  the four formats with a positive size and duration, preview formats only at 30 frames per second, with minimum and stall
  durations in the same order; the fixed entries are as written, the tags of the old interface are gone, and the list
  of keys names exactly the entries there are, in order and once each.
\<close>

theorem build_characteristics_result:
  assumes laws: "meta_laws M" and b: "buildCharacteristics V M stock = Some m" and tags: "distinct (build_tags V)"
  shows "\<exists>qs r. (\<forall>q \<in> set qs. config_ok V (formats V) q)
    \<and> find_i32 M m (V ''ANDROID_SCALER_AVAILABLE_STREAM_CONFIGURATIONS'') = as_configs V qs
    \<and> find_i64 M m (V ''ANDROID_SCALER_AVAILABLE_MIN_FRAME_DURATIONS'') = as_minimums qs
    \<and> find_i64 M m (V ''ANDROID_SCALER_AVAILABLE_STALL_DURATIONS'') = as_stalls V qs
    \<and> length r = 3 \<and> (\<forall>(t, v) \<in> set (fixed_entries V r). md_find M m t = Some v)
    \<and> (\<forall>t \<in> set (erased_tags V). md_find M m t = None)
    \<and> (let ks = find_i32 M m (V ''ANDROID_REQUEST_AVAILABLE_CHARACTERISTICS_KEYS'') in
        sorted ks \<and> distinct ks \<and> set ks = dom (md_find M m))"
proof -
  obtain s where s: "stock = Some s" using b by (cases stock) (auto simp: buildCharacteristics_def)
  obtain qs r ks where qs: "\<forall>q \<in> set qs. config_ok V (formats V) q" and r: "length r = 3"
    and f: "md_find M m = (\<lambda>t. if t \<in> set (erased_tags V) then None else
         (md_find M s ++ map_of (rev (zip (scaler_tags V) [I32s (as_configs V qs), I64s (as_minimums qs), I64s (as_stalls V qs)]))
            ++ map_of (rev (fixed_entries V r))) t)
        ++ map_of (rev (zip (key_tags V) [I32s (kRequestKeys V), I32s (sorted_unique (kRequestKeys V @ measured V)), I32s ks]))"
    and ks: "sorted ks" "distinct ks" "set ks = dom (md_find M m)"
    using build_finds [OF laws b [unfolded s]] by blast
  let ?A = "zip (scaler_tags V) [I32s (as_configs V qs), I64s (as_minimums qs), I64s (as_stalls V qs)]"
  let ?D = "zip (key_tags V) [I32s (kRequestKeys V), I32s (sorted_unique (kRequestKeys V @ measured V)), I32s ks]"
  have len: "length (scaler_tags V) = 3" "length (key_tags V) = 3" by (simp_all add: scaler_tags_def key_tags_def)
  have keys: "fst ` set ?A = set (scaler_tags V)" "fst ` set ?D = set (key_tags V)"
    "fst ` set (fixed_entries V r) = set (map fst (fixed_entries V []))"
    using len zip_fst [of "scaler_tags V"] zip_fst [of "key_tags V"] fixed_tags [of V r] by (simp_all flip: set_map)
  have dist: "distinct (map fst ?A)" "distinct (map fst (fixed_entries V r))" "distinct (map fst ?D)"
    using tags len fixed_tags [of V r] by (simp_all add: build_tags_def)
  have dis: "set (scaler_tags V) \<inter> (set (map fst (fixed_entries V [])) \<union> set (erased_tags V) \<union> set (key_tags V)) = {}"
    "set (map fst (fixed_entries V [])) \<inter> (set (erased_tags V) \<union> set (key_tags V)) = {}" "set (erased_tags V) \<inter> set (key_tags V) = {}"
    using tags unfolding build_tags_def distinct_append set_append by blast+
  have A: "md_find M m t = Some v" if "(t, v) \<in> set ?A" for t v
  proof -
    have "t \<in> set (scaler_tags V)" using that keys(1) by force
    then have "t \<notin> fst ` set ?D" "t \<notin> fst ` set (fixed_entries V r)" "t \<notin> set (erased_tags V)" using dis keys by blast+
    then show ?thesis using map_of_rev_in [OF dist(1) that] map_of_rev_out [of t ?D] map_of_rev_out [of t "fixed_entries V r"]
      by (simp add: f)
  qed
  have B: "md_find M m t = Some v" if "(t, v) \<in> set (fixed_entries V r)" for t v
  proof -
    have "t \<in> set (map fst (fixed_entries V []))" using that keys(3) by force
    then have "t \<notin> fst ` set ?D" "t \<notin> set (erased_tags V)" using dis keys by blast+
    then show ?thesis using map_of_rev_in [OF dist(2) that] map_of_rev_out [of t ?D] by (simp add: f)
  qed
  have C: "md_find M m t = None" if "t \<in> set (erased_tags V)" for t
  proof -
    have "t \<notin> fst ` set ?D" using that dis(3) keys(2) by blast
    then show ?thesis using that map_of_rev_out [of t ?D] by (simp add: f)
  qed
  have D: "md_find M m (V ''ANDROID_REQUEST_AVAILABLE_CHARACTERISTICS_KEYS'') = Some (I32s ks)"
    using map_of_rev_in [OF dist(3), of "V ''ANDROID_REQUEST_AVAILABLE_CHARACTERISTICS_KEYS''" "I32s ks"]
    by (simp add: f key_tags_def)
  have "md_find M m (V ''ANDROID_SCALER_AVAILABLE_STREAM_CONFIGURATIONS'') = Some (I32s (as_configs V qs))"
    "md_find M m (V ''ANDROID_SCALER_AVAILABLE_MIN_FRAME_DURATIONS'') = Some (I64s (as_minimums qs))"
    "md_find M m (V ''ANDROID_SCALER_AVAILABLE_STALL_DURATIONS'') = Some (I64s (as_stalls V qs))"
    by (simp_all add: A scaler_tags_def)
  then show ?thesis using qs r B C D ks
    by (intro exI [of _ qs] exI [of _ r]) (auto simp: find_i32_def find_i64_def Let_def)
qed

section \<open>Results\<close>

lemma merge_entries_find:
  assumes laws: "meta_laws M"
  shows "distinct (map fst es) \<Longrightarrow> merge_entries V M m (map Some es) = (True, m') \<Longrightarrow>
    md_find M m' t = (if t = V ''ANDROID_QUIRKS_PARTIAL_RESULT'' then md_find M m t
      else case map_of es t of Some v \<Rightarrow> Some v | None \<Rightarrow> md_find M m t)"
proof (induction es arbitrary: m)
  case (Cons e es)
  obtain u v where e: "e = (u, v)" by (cases e)
  have new: "u \<notin> fst ` set es" "map_of es u = None" using Cons.prems(1) e by (simp_all add: map_of_eq_None_iff)
  show ?case
  proof (cases "u = V ''ANDROID_QUIRKS_PARTIAL_RESULT''")
    case True
    then show ?thesis using Cons e by simp
  next
    case False
    then obtain m1 where u: "md_update M m u v = (0, m1)" "merge_entries V M m1 (map Some es) = (True, m')"
      using Cons.prems(2) e by (auto split: prod.splits if_splits)
    have "md_find M m1 = (md_find M m)(u \<mapsto> v)" using laws u(1) by (simp add: meta_laws_def)
    then show ?thesis using Cons.IH [OF _ u(2)] Cons.prems(1) e new False by (auto split: option.split)
  qed
qed simp

lemma mergeMetadata_find:
  assumes laws: "meta_laws M" and m: "mergeMetadata V M dst (Some src) = (True, m')"
  shows "md_find M m' t = (if t = V ''ANDROID_QUIRKS_PARTIAL_RESULT'' then md_find M dst t
      else case md_find M src t of Some v \<Rightarrow> Some v | None \<Rightarrow> md_find M dst t)"
proof -
  obtain es where es: "md_entries M src = map Some es" "distinct (map fst es)" "map_of es = md_find M src"
    using laws unfolding meta_laws_def by metis
  then show ?thesis using merge_entries_find [OF laws es(2), of V dst m' t] m by (simp add: mergeMetadata_def)
qed

text \<open>
  The metadata of a finished result: the final packet of the camera completed by the values that it measured in
  partial packets, which win over what the final packet repeats from the request; the mark of partial results is removed, the pipeline
  depth and the flash state are set.
\<close>

theorem finish_result_merges:
  assumes laws: "meta_laws M" and f: "finishResult V M final partials = (True, m)"
    and tags: "distinct (map V [''ANDROID_REQUEST_PIPELINE_DEPTH'', ''ANDROID_FLASH_STATE'', ''ANDROID_QUIRKS_PARTIAL_RESULT''])"
  shows "md_find M m t =
     (if t = V ''ANDROID_REQUEST_PIPELINE_DEPTH'' then Some (U8s [kPipelineDepth])
      else if t = V ''ANDROID_FLASH_STATE'' then Some (u8_of (V ''ANDROID_FLASH_STATE_UNAVAILABLE''))
      else if t = V ''ANDROID_QUIRKS_PARTIAL_RESULT'' then None
      else case md_find M partials t of Some v \<Rightarrow> Some v | None \<Rightarrow> md_find M final t)"
proof -
  obtain ok m1 where m1: "mergeMetadata V M final (if md_null M partials then None else Some partials) = (ok, m1)"
    by (cases "mergeMetadata V M final (if md_null M partials then None else Some partials)")
  let ?m2 = "md_erase M m1 (V ''ANDROID_QUIRKS_PARTIAL_RESULT'')"
  have p: "put_entries M [(V ''ANDROID_REQUEST_PIPELINE_DEPTH'', U8s [kPipelineDepth]),
      (V ''ANDROID_FLASH_STATE'', u8_of (V ''ANDROID_FLASH_STATE_UNAVAILABLE''))] (ok, ?m2) = (True, m)"
    using f m1 by (simp add: finishResult_def)
  note q = put_entries_find [OF laws p]
  have e: "md_find M ?m2 = (md_find M m1)(V ''ANDROID_QUIRKS_PARTIAL_RESULT'' := None)" using laws by (simp add: meta_laws_def)
  have "md_find M m1 t = (if t = V ''ANDROID_QUIRKS_PARTIAL_RESULT'' then md_find M final t
      else case md_find M partials t of Some v \<Rightarrow> Some v | None \<Rightarrow> md_find M final t)"
  proof (cases "md_null M partials")
    case True
    then have "md_find M partials = Map.empty" using laws by (simp add: meta_laws_def)
    then show ?thesis using m1 True by (simp add: mergeMetadata_def)
  next
    case False
    then show ?thesis using mergeMetadata_find [OF laws, of V final partials m1 t] m1 q by simp
  qed
  then show ?thesis using q e tags by (auto split: option.split)
qed

section \<open>An example\<close>

text \<open>A library of association lists, and constants that number all names.\<close>

definition demo_meta :: "(int \<times> mval) list meta_lib" where
  "demo_meta = \<lparr>md_new = [], md_isEmpty = (\<lambda>m. m = []), md_null = (\<lambda>m. m = []), md_find = map_of,
     md_update = (\<lambda>m t v. (0, (t, v) # filter (\<lambda>e. fst e \<noteq> t) m)), md_erase = (\<lambda>m t. filter (\<lambda>e. fst e \<noteq> t) m),
     md_entries = (\<lambda>m. map (\<lambda>t. Some (t, the (map_of m t))) (remdups (map fst m))), md_clone = Some\<rparr>"

lemma map_of_without: "map_of (filter (\<lambda>e. fst e \<noteq> t) m) = (map_of m)(t := None)"
  by (induction m) (auto simp: fun_eq_iff)

lemma map_of_canonical: "map_of (map (\<lambda>t. (t, the (map_of m t))) (remdups (map fst m))) = map_of m"
proof
  fix t
  show "map_of (map (\<lambda>t. (t, the (map_of m t))) (remdups (map fst m))) t = map_of m t"
  proof (cases "t \<in> fst ` set m")
    case True
    then obtain v where "map_of m t = Some v" by (metis map_of_eq_None_iff not_Some_eq)
    then show ?thesis using True by (simp add: map_of_map_restrict restrict_map_def)
  next
    case False
    then have "map_of m t = None" by (simp add: map_of_eq_None_iff)
    then show ?thesis using False by (simp add: map_of_map_restrict restrict_map_def)
  qed
qed

lemma demo_meta_laws: "meta_laws demo_meta"
proof -
  have "\<exists>es. md_entries demo_meta m = map Some es \<and> distinct (map fst es) \<and> map_of es = md_find demo_meta m" for m
    by (rule exI [of _ "map (\<lambda>t. (t, the (map_of m t))) (remdups (map fst m))"]) (simp add: demo_meta_def map_of_canonical comp_def)
  then show ?thesis by (auto simp: meta_laws_def demo_meta_def map_of_without)
qed

fun demo_camera_h :: camera_h where
  "demo_camera_h [] = 0"
| "demo_camera_h (c # cs) = (of_char c + 1) + 257 * demo_camera_h cs"

lemma of_char_range: "0 \<le> (of_char c :: int)" "(of_char c :: int) < 256"
  by (cases c, simp)+

lemma demo_camera_h_nonneg: "0 \<le> demo_camera_h s" "demo_camera_h (c # s) > 0"
proof -
  show n: "0 \<le> demo_camera_h s" for s
  proof (induction s)
    case (Cons c s)
    then show ?case using of_char_range(1) [of c] by simp
  qed simp
  show "demo_camera_h (c # s) > 0" using n [of s] of_char_range(1) [of c] by simp
qed

lemma demo_camera_h_inj: "demo_camera_h s = demo_camera_h t \<longleftrightarrow> s = t"
proof (induction s arbitrary: t)
  case Nil
  show ?case
  proof (cases t)
    case (Cons c cs)
    then show ?thesis using demo_camera_h_nonneg(2) [of c cs] by simp
  qed simp
next
  case (Cons c s)
  note b = of_char_range
  show ?case
  proof (cases t)
    case Nil
    then show ?thesis using demo_camera_h_nonneg(2) [of c s] by simp
  next
    case t: (Cons d ds)
    show ?thesis
    proof
      assume "demo_camera_h (c # s) = demo_camera_h t"
      then have e: "(of_char c + 1) + 257 * demo_camera_h s = (of_char d + 1) + 257 * demo_camera_h ds" using t by simp
      have split: "x = y" if "x + 1 + 257 * p = y + 1 + 257 * q" "0 \<le> x" "x < 256" "0 \<le> y" "y < 256" for x y p q :: int
      proof -
        have "(x + 257 * p) mod 257 = (y + 257 * q) mod 257" using that(1) by simp
        then show ?thesis using that by simp
      qed
      from split [OF e b(1) b(2) b(1) b(2)] have "(of_char c :: int) = of_char d" .
      then show "c # s = t" using e t Cons.IH by simp
    qed simp
  qed
qed

declare demo_camera_h.simps [simp del]

lemma demo_distinct: "distinct names \<Longrightarrow> distinct (map demo_camera_h names)"
  by (simp add: distinct_map inj_on_def demo_camera_h_inj)

lemma demo_put_entries: "fst (put_entries demo_meta es (ok, m)) = ok"
proof (induction es arbitrary: ok m)
  case (Cons e es)
  then show ?case by (cases e) (simp add: put_entries_def put_entry_def demo_meta_def)
qed (simp add: put_entries_def)

lemma demo_put_ok: "\<exists>m'. put_entries demo_meta es (True, m) = (True, m')"
  using demo_put_entries [of es True m] by (cases "put_entries demo_meta es (True, m)") simp

abbreviation demo_request :: "(int \<times> mval) list" where
  "demo_request \<equiv> [(demo_camera_h ''ANDROID_CONTROL_AE_MODE'', U8s [5]), (demo_camera_h ''ANDROID_CONTROL_AF_MODE'', U8s [1, 2]),
     (demo_camera_h ''ANDROID_CONTROL_AE_TARGET_FPS_RANGE'', I32s [15, 30])]"

abbreviation demo_characteristics :: "(int \<times> mval) list" where
  "demo_characteristics \<equiv> [(demo_camera_h ''ANDROID_CONTROL_AE_AVAILABLE_MODES'', U8s [1])]"

lemma normalize_request_result_witness:
  "\<exists>req'. normalizeRequest demo_camera_h demo_meta demo_request demo_characteristics = (True, req')
     \<and> map (\<lambda>n. md_find demo_meta req' (demo_camera_h n)) [''ANDROID_CONTROL_AE_MODE'', ''ANDROID_CONTROL_AF_MODE'',
           ''ANDROID_CONTROL_AE_TARGET_FPS_RANGE'']
         = [Some (U8s [word_of_int (demo_camera_h ''ANDROID_CONTROL_AE_MODE_ON'')]), Some (U8s [1, 2]), Some (I32s [15, 30])]"
proof -
  have "\<exists>req'. normalizeRequest demo_camera_h demo_meta demo_request demo_characteristics = (True, req')"
    by (simp add: normalizeRequest_def normalize_mode_def normalize_rest_def put_entry_def find_u8_def find_i32_def
        demo_meta_def demo_camera_h_inj Let_def)
  then obtain req' where n: "normalizeRequest demo_camera_h demo_meta demo_request demo_characteristics = (True, req')" by blast
  have "distinct (map demo_camera_h [''ANDROID_CONTROL_AE_MODE'', ''ANDROID_CONTROL_AF_MODE'',
      ''ANDROID_CONTROL_AE_TARGET_FPS_RANGE'', ''ANDROID_CONTROL_VIDEO_STABILIZATION_MODE''])" by (rule demo_distinct) simp
  from normalize_request_result [OF demo_meta_laws n this] show ?thesis
    using n by (simp add: find_u8_def find_i32_def demo_meta_def demo_camera_h_inj fps_ok_def unsupported_mode_def Let_def)
qed

lemma finish_result_merges_witness:
  "\<exists>m. finishResult demo_camera_h demo_meta [] [(7, I32s [1])] = (True, m) \<and> md_find demo_meta m 7 = Some (I32s [1])"
proof -
  obtain ok m where f: "finishResult demo_camera_h demo_meta [] [(7, I32s [1])] = (ok, m)" by (metis prod.exhaust)
  have ne7: "7 \<noteq> demo_camera_h s" if l: "length s \<ge> 2" for s
  proof -
    obtain a t where t: "s = a # t" using l by (cases s) auto
    then obtain b cs where "s = a # b # cs" using l by (cases t) auto
    then have "demo_camera_h s = of_char a + 1 + 257 * demo_camera_h (b # cs)" by (simp only: demo_camera_h.simps)
    then show ?thesis using demo_camera_h_nonneg(2) [of b cs] of_char_range(1) [of a] by linarith
  qed
  obtain m1 where m1: "mergeMetadata demo_camera_h demo_meta [] (Some [(7, I32s [1])]) = (True, m1)"
    using ne7 [of "''ANDROID_QUIRKS_PARTIAL_RESULT''"] by (simp add: mergeMetadata_def demo_meta_def)
  have nn: "\<not> md_null demo_meta [(7, I32s [1])]" by (simp add: demo_meta_def)
  have "ok = fst (finishResult demo_camera_h demo_meta [] [(7, I32s [1])])" using f by simp
  also have "\<dots> = True" using m1 nn by (simp add: finishResult_def demo_put_entries)
  finally have f1: "finishResult demo_camera_h demo_meta [] [(7, I32s [1])] = (True, m)" using f by simp
  have t: "distinct (map demo_camera_h [''ANDROID_REQUEST_PIPELINE_DEPTH'', ''ANDROID_FLASH_STATE'', ''ANDROID_QUIRKS_PARTIAL_RESULT''])"
    by (rule demo_distinct) simp
  show ?thesis using ne7 f1 finish_result_merges [OF demo_meta_laws f1 t, of 7] by (simp add: demo_meta_def)
qed

text \<open>A stock camera with one size for all formats.\<close>

abbreviation demo_stock :: "(int \<times> mval) list" where
  "demo_stock \<equiv> [(demo_camera_h ''ANDROID_SCALER_AVAILABLE_FORMATS'', I32s (formats demo_camera_h)),
     (demo_camera_h ''ANDROID_SCALER_AVAILABLE_JPEG_SIZES'', I32s [640, 480]),
     (demo_camera_h ''ANDROID_SCALER_AVAILABLE_JPEG_MIN_DURATIONS'', I64s [33333333]),
     (demo_camera_h ''ANDROID_SCALER_AVAILABLE_PROCESSED_SIZES'', I32s [640, 480]),
     (demo_camera_h ''ANDROID_SCALER_AVAILABLE_PROCESSED_MIN_DURATIONS'', I64s [33333333]),
     (demo_camera_h ''ANDROID_CONTROL_MAX_REGIONS'', I32s [1])]"

lemma build_characteristics_result_witness:
  "\<exists>m. buildCharacteristics demo_camera_h demo_meta (Some demo_stock) = Some m
     \<and> (\<forall>t \<in> set (erased_tags demo_camera_h). md_find demo_meta m t = None)"
proof -
  let ?V = demo_camera_h
  have finds: "md_find demo_meta demo_stock (?V ''ANDROID_SCALER_AVAILABLE_FORMATS'') = Some (I32s (formats ?V))"
    "md_find demo_meta demo_stock (?V ''ANDROID_SCALER_AVAILABLE_JPEG_SIZES'') = Some (I32s [640, 480])"
    "md_find demo_meta demo_stock (?V ''ANDROID_SCALER_AVAILABLE_JPEG_MIN_DURATIONS'') = Some (I64s [33333333])"
    "md_find demo_meta demo_stock (?V ''ANDROID_SCALER_AVAILABLE_PROCESSED_SIZES'') = Some (I32s [640, 480])"
    "md_find demo_meta demo_stock (?V ''ANDROID_SCALER_AVAILABLE_PROCESSED_MIN_DURATIONS'') = Some (I64s [33333333])"
    "md_find demo_meta demo_stock (?V ''ANDROID_CONTROL_MAX_REGIONS'') = Some (I32s [1])"
    by (simp_all add: demo_meta_def demo_camera_h_inj)
  have fmt: "\<exists>acc'. build_format ?V demo_meta demo_stock f acc = Some acc'" if "f \<in> set (formats ?V)" for f acc
    using that finds by (cases acc) (auto simp: build_format_def find_i32_def find_i64_def Let_def)
  have all: "\<exists>acc'. build_formats ?V demo_meta demo_stock fs acc = Some acc'" if "set fs \<subseteq> set (formats ?V)" for fs acc
    using that
  proof (induction fs arbitrary: acc)
    case (Cons f fs)
    have "f \<in> set (formats ?V)" using Cons.prems by simp
    from fmt [OF this, of acc] obtain acc1 where a: "build_format ?V demo_meta demo_stock f acc = Some acc1" by blast
    have "set fs \<subseteq> set (formats ?V)" using Cons.prems by simp
    from Cons.IH [OF this, of acc1] show ?case using a by simp
  qed auto
  from all [OF order_refl, of "([], [], [])"] obtain cs ms ss where b: "build_formats ?V demo_meta demo_stock (formats ?V) ([], [], []) = Some (cs, ms, ss)" by auto
  let ?e = "[(?V ''ANDROID_SCALER_AVAILABLE_STREAM_CONFIGURATIONS'', I32s cs),
            (?V ''ANDROID_SCALER_AVAILABLE_MIN_FRAME_DURATIONS'', I64s ms),
            (?V ''ANDROID_SCALER_AVAILABLE_STALL_DURATIONS'', I64s ss)]"
  obtain m1 where m1: "put_entries demo_meta ?e (True, demo_stock) = (True, m1)"
    using demo_put_ok by blast
  have "md_find demo_meta m1 = md_find demo_meta demo_stock ++ map_of (rev ?e)" using put_entries_find [OF demo_meta_laws m1] by simp
  then have "md_find demo_meta m1 (?V ''ANDROID_CONTROL_MAX_REGIONS'') = Some (I32s [1])"
    using finds(6) by (simp add: demo_camera_h_inj)
  then obtain r where r: "max_regions ?V demo_meta m1 = Some r" by (simp add: max_regions_def find_i32_def Let_def)
  note ok = demo_put_ok
  have ct: "\<exists>ts. collect_tags (md_entries demo_meta m) = (True, ts)" for m
  proof -
    obtain es where "md_entries demo_meta m = map Some es" using demo_meta_laws unfolding meta_laws_def by metis
    then show ?thesis by (simp add: collect_tags_some)
  qed
  obtain m2 where m2: "put_entries demo_meta (fixed_entries ?V r) (True, m1) = (True, m2)" using ok by blast
  obtain m4 where m4: "put_entries demo_meta [(?V ''ANDROID_REQUEST_AVAILABLE_REQUEST_KEYS'', I32s (kRequestKeys ?V)),
      (?V ''ANDROID_REQUEST_AVAILABLE_RESULT_KEYS'', I32s (sorted_unique (kRequestKeys ?V @ measured ?V)))]
      (True, fold (\<lambda>t m. md_erase demo_meta m t) (erased_tags ?V) m2) = (True, m4)" using ok by blast
  obtain ts where ts: "collect_tags (md_entries demo_meta m4) = (True, ts)" using ct by blast
  obtain m6 where m6: "put_entries demo_meta [(?V ''ANDROID_REQUEST_AVAILABLE_CHARACTERISTICS_KEYS'',
      I32s (sorted_unique (ts @ [?V ''ANDROID_REQUEST_AVAILABLE_CHARACTERISTICS_KEYS''])))] (True, m4) = (True, m6)" using ok by blast
  have c: "md_clone demo_meta demo_stock = Some demo_stock" by (simp add: demo_meta_def)
  have build: "buildCharacteristics ?V demo_meta (Some demo_stock) = Some m6"
    unfolding buildCharacteristics_def using c b m1 r m2 m4 ts m6 by (simp)
  have "distinct (build_tags ?V)"
    by (simp add: build_tags_def scaler_tags_def fixed_entries_def erased_tags_def key_tags_def demo_camera_h_inj)
  from build_characteristics_result [OF demo_meta_laws build this] show ?thesis using build by blast
qed

end
