(* ===== verification/Cam_Adapter.thy ===== *)
theory Cam_Adapter
  imports Cam_Meta
begin

text \<open>
  The camera adapter (camera/Camera3Wrapper.cpp): it offers the interface of version 3.2 on top of the vendor's camera of
  version 3.0. The vendor's device, the graphics allocator and the client are not in the repository and are parameters.
  A request and a callback of the vendor run in different threads; the sections that hold \<^verbatim>\<open>stateMutex\<close> are the steps that
  interleave, and the two places where a request lets callbacks run take the list of those that do.
\<close>

section \<open>Data\<close>

text \<open>\<^verbatim>\<open>camera3_stream_t\<close>; pointers to it are numbers.\<close>

record camera3_stream =
  cs_type :: int
  cs_width :: u32
  cs_height :: u32
  cs_format :: int
  cs_usage :: u32
  cs_max_buffers :: u32

text \<open>
  \<^verbatim>\<open>camera3_stream_buffer_t\<close>: its stream, the handle at its pointer (\<open>None\<close> for a null pointer, 0 for a null handle), its
  status and its fences. A buffer of the client names a stream of the client, one of the vendor the object \<open>so_id\<close>.
\<close>

record stream_buffer =
  sb_stream :: nat
  sb_buffer :: "nat option"
  sb_status :: int
  sb_acquire_fence :: int
  sb_release_fence :: int

text \<open>
  \<^verbatim>\<open>Stream\<close>: \<open>so_id\<close> is the identity of the object, whose address the vendor keeps. \<open>so_buffers\<close> are the handles of
  the references in the map \<^verbatim>\<open>buffers\<close>.
\<close>

record cam_stream =
  so_id :: nat
  so_legacy :: camera3_stream
  so_client :: nat
  so_buffers :: "nat list"

text \<open>\<^verbatim>\<open>Frame\<close>: a vendor buffer is the object of its stream and the handle that its pointer refers to in \<^verbatim>\<open>buffers\<close>.\<close>

record 'm cam_frame =
  fr_settings :: 'm
  fr_partials :: 'm
  fr_clientBuffers :: "stream_buffer list"
  fr_vendorBuffers :: "(nat \<times> nat) list"
  fr_returned :: "bool list"
  fr_remaining :: nat
  fr_metadataDone :: bool
  fr_shutterDone :: bool

text \<open>
  \<^verbatim>\<open>Camera\<close>. The maps are association lists in the order of their keys; \<open>client_mem\<close> are the client's stream structures,
  \<open>next_id\<close> the identity of the next \<^verbatim>\<open>Stream\<close> object.
\<close>

record 'm camera =
  cam_vendor :: "nat option"
  cam_characteristics :: 'm
  deviceName :: string
  clientCallbacks :: bool
  cam_streams :: "(nat \<times> cam_stream) list"
  failedStreams :: "cam_stream list"
  cam_frames :: "(nat \<times> 'm cam_frame) list"
  cam_templates :: "int \<Rightarrow> 'm"
  lastSettings :: 'm
  afTriggerId :: int
  aeTriggerId :: int
  cam_fatal :: bool
  cam_closing :: bool
  client_mem :: "nat \<Rightarrow> camera3_stream"
  next_id :: nat

text \<open>A device of the vendor: its identity, its version and whether all operations that the adapter calls are there.\<close>

record vendor_dev =
  vd_id :: nat
  vd_version :: int
  vd_complete :: bool

text \<open>A message to the client; the stream of an error is an object of the vendor's or, once converted, a client's.\<close>

datatype notify_msg = Shutter nat | Error_msg nat int "nat option" | Other_msg int

record 'm stock_result =
  sr_frame :: nat
  sr_metadata :: "'m option"
  sr_buffers :: "stream_buffer list"

text \<open>
  What is outside: \<^verbatim>\<open>new\<close>, the vendor's module and devices, the graphics allocator, the client and \<^verbatim>\<open>close\<close>.
  Configuring gives the contents of each stream structure afterwards.
\<close>

record ('m, 'k) cam_env =
  ce_new :: "'k \<Rightarrow> bool \<times> 'k"
  stock_module :: bool
  stock_count :: int
  stock_info :: "int \<Rightarrow> int \<times> int \<times> 'm option"
  gralloc_module :: "int \<times> bool"
  vn_open :: "string \<Rightarrow> 'k \<Rightarrow> (int \<times> vendor_dev option) \<times> 'k"
  vn_close :: "nat \<Rightarrow> 'k \<Rightarrow> int \<times> 'k"
  vn_initialize :: "nat \<Rightarrow> 'k \<Rightarrow> int \<times> 'k"
  vn_configure :: "nat \<Rightarrow> (nat \<times> camera3_stream) list \<Rightarrow> 'k \<Rightarrow> (int \<times> (nat \<Rightarrow> camera3_stream)) \<times> 'k"
  vn_register :: "nat \<Rightarrow> nat \<Rightarrow> nat list \<Rightarrow> 'k \<Rightarrow> int \<times> 'k"
  vn_default :: "nat \<Rightarrow> int \<Rightarrow> 'k \<Rightarrow> 'm option \<times> 'k"
  vn_capture :: "nat \<Rightarrow> nat \<Rightarrow> 'm option \<Rightarrow> (nat \<times> nat) list \<Rightarrow> 'k \<Rightarrow> int \<times> 'k"
  gr_register :: "nat \<Rightarrow> 'k \<Rightarrow> int \<times> 'k"
  gr_unregister :: "nat \<Rightarrow> 'k \<Rightarrow> 'k"
  cl_notify :: "notify_msg \<Rightarrow> 'k \<Rightarrow> 'k"
  cl_result :: "nat \<Rightarrow> 'm option \<Rightarrow> stream_buffer list \<Rightarrow> 'k \<Rightarrow> 'k"
  fd_close :: "int \<Rightarrow> 'k \<Rightarrow> 'k"

abbreviation ETIMEDOUT :: int where "ETIMEDOUT \<equiv> 110"

text \<open>\<^verbatim>\<open>std::map::emplace\<close> and \<^verbatim>\<open>erase\<close>.\<close>

definition emplace :: "nat \<Rightarrow> 'v \<Rightarrow> (nat \<times> 'v) list \<Rightarrow> (nat \<times> 'v) list" where
  "emplace k v m = (if k \<in> fst ` set m then m else insort_key fst (k, v) m)"

definition erase_key :: "nat \<Rightarrow> (nat \<times> 'v) list \<Rightarrow> (nat \<times> 'v) list" where
  "erase_key k m = filter (\<lambda>e. fst e \<noteq> k) m"

definition modify_key :: "nat \<Rightarrow> ('v \<Rightarrow> 'v) \<Rightarrow> (nat \<times> 'v) list \<Rightarrow> (nat \<times> 'v) list" where
  "modify_key k f m = map (\<lambda>(i, v). (i, if i = k then f v else v)) m"

section \<open>Configuring\<close>

definition isProcessedFormat :: "camera_h \<Rightarrow> int \<Rightarrow> bool" where
  "isProcessedFormat V format \<longleftrightarrow>
     format = V ''HAL_PIXEL_FORMAT_IMPLEMENTATION_DEFINED'' \<or> format = V ''HAL_PIXEL_FORMAT_YCbCr_420_888''
     \<or> format = V ''HAL_PIXEL_FORMAT_RGBA_8888'' \<or> format = V ''HAL_PIXEL_FORMAT_YV12''"

definition processedGeometry :: "camera_h \<Rightarrow> (nat \<Rightarrow> camera3_stream) \<Rightarrow> (nat \<times> cam_stream) list \<Rightarrow> (u32 \<times> u32) set" where
  "processedGeometry V mem ss =
     set (map (\<lambda>s. (cs_width s, cs_height s))
            (filter (\<lambda>s. isProcessedFormat V (cs_format s)
                       \<and> cs_usage s AND word_of_int (V ''GRALLOC_USAGE_HW_VIDEO_ENCODER'') = 0)
               (map (\<lambda>e. mem (so_client (snd e))) ss)))"

text \<open>The destruction of streams takes back the registration of their buffers.\<close>

definition destroy_streams :: "('m, 'k) cam_env \<Rightarrow> cam_stream list \<Rightarrow> 'k \<Rightarrow> 'k" where
  "destroy_streams E ss k = fold (\<lambda>s. fold (gr_unregister E) (so_buffers s)) ss k"

definition initialize :: "('m, 'k) cam_env \<Rightarrow> 'm camera \<Rightarrow> bool \<Rightarrow> 'k \<Rightarrow> ((int \<times> 'm camera) \<times> 'k) option" where
  "initialize E c client k =
     (if \<not> client then Some ((- EINVAL, c), k)
      else if clientCallbacks c then Some ((- ENOSYS, c), k)
      else case cam_vendor c of
             None \<Rightarrow> None
           | Some d \<Rightarrow> (case vn_initialize E d k of (result, k1) \<Rightarrow> Some ((result, c\<lparr>clientCallbacks := (result = 0)\<rparr>), k1)))"

definition reopenVendor :: "camera_h \<Rightarrow> ('m, 'k) cam_env \<Rightarrow> 'm camera \<Rightarrow> 'k \<Rightarrow> (int \<times> 'm camera) \<times> 'k" where
  "reopenVendor V E c k =
     (if \<not> stock_module E then ((- ENODEV, c), k)
      else
        let k1 = (case cam_vendor c of None \<Rightarrow> k | Some d \<Rightarrow> snd (vn_close E d k)); c1 = c\<lparr>cam_vendor := None\<rparr> in
        case vn_open E (deviceName c) k1 of ((result, opened), k2) \<Rightarrow>
          if result \<noteq> 0 then ((result, c1), k2)
          else case opened of
                 None \<Rightarrow> ((- ENODEV, c1), k2)
               | Some d \<Rightarrow>
                   if vd_version d \<noteq> V ''CAMERA_DEVICE_API_VERSION_3_0'' \<or> \<not> vd_complete d
                   then ((- ENODEV, c1), snd (vn_close E (vd_id d) k2))
                   else case vn_initialize E (vd_id d) k2 of (result, k3) \<Rightarrow>
                     if result \<noteq> 0 then ((result, c1), snd (vn_close E (vd_id d) k3))
                     else ((0, c\<lparr>cam_vendor := Some (vd_id d)\<rparr>), k3))"

text \<open>
  The loop over the requested streams: the map \<^verbatim>\<open>next\<close>, the vendor's list, and the numbers of processed and of JPEG streams.
  \<open>Inl\<close> is the error that ends it; the objects made so far have no buffers.
\<close>

type_synonym next_streams = "(nat \<times> cam_stream) list \<times> cam_stream list \<times> nat \<times> nat \<times> nat"

definition admit_stream ::
  "camera_h \<Rightarrow> 'm camera \<Rightarrow> (nat \<times> cam_stream) list \<Rightarrow> nat \<Rightarrow> nat \<Rightarrow> nat \<Rightarrow> (nat \<times> nat) option" where
  "admit_stream V c nxt p processed jpeg =
     (let s = client_mem c p; f = cs_format s;
          isJpeg = (f = V ''HAL_PIXEL_FORMAT_BLOB'');
          isProc = (f = V ''HAL_PIXEL_FORMAT_IMPLEMENTATION_DEFINED'' \<or> f = V ''HAL_PIXEL_FORMAT_YCbCr_420_888''
                    \<or> f = V ''HAL_PIXEL_FORMAT_RGBA_8888''
                    \<or> f = V ''HAL_PIXEL_FORMAT_YV12'' \<and> p \<in> fst ` set (cam_streams c));
          jpeg1 = (if isJpeg then Suc jpeg else jpeg);
          processed1 = (if isJpeg then processed else Suc processed)
      in if cs_type s \<noteq> V ''CAMERA3_STREAM_OUTPUT'' \<or> cs_width s = 0 \<or> cs_height s = 0 \<or> p \<in> fst ` set nxt then None
         else if \<not> isJpeg \<and> \<not> isProc then None
         else if processed1 > 3 \<or> jpeg1 > 1 then None
         else Some (processed1, jpeg1))"

definition next_stream ::
  "camera_h \<Rightarrow> ('m, 'k) cam_env \<Rightarrow> 'm camera \<Rightarrow> nat option \<Rightarrow> next_streams \<Rightarrow> 'k \<Rightarrow> (int + next_streams) \<times> 'k" where
  "next_stream V E c q = (\<lambda>(nxt, vs, processed, jpeg, ident) k.
     (case q of
        None \<Rightarrow> (Inl (- EINVAL), k)
      | Some p \<Rightarrow>
          (case admit_stream V c nxt p processed jpeg of
             None \<Rightarrow> (Inl (- EINVAL), k)
           | Some (processed1, jpeg1) \<Rightarrow>
               (case ce_new E k of (ok, k1) \<Rightarrow>
                  if \<not> ok then (Inl (- ENOMEM), k1)
                  else
                    let stream = \<lparr>so_id = ident, so_legacy = client_mem c p, so_client = p, so_buffers = []\<rparr>
                    in (Inr (emplace p stream nxt, vs @ [stream], processed1, jpeg1, Suc ident), k1)))))"

fun next_loop ::
  "camera_h \<Rightarrow> ('m, 'k) cam_env \<Rightarrow> 'm camera \<Rightarrow> nat option list \<Rightarrow> next_streams \<Rightarrow> 'k \<Rightarrow> (int + next_streams) \<times> 'k" where
  "next_loop V E c [] acc k = (Inr acc, k)"
| "next_loop V E c (q # ps) acc k =
     (case next_stream V E c q acc k of
        (Inl e, k1) \<Rightarrow> (Inl e, k1)
      | (Inr acc1, k1) \<Rightarrow> next_loop V E c ps acc1 k1)"

text \<open>A configuration that failed: the new objects are kept and the device is given up.\<close>

definition give_up :: "'m camera \<Rightarrow> (nat \<times> cam_stream) list \<Rightarrow> 'm camera" where
  "give_up c nxt = c\<lparr>failedStreams := failedStreams c @ map snd nxt, cam_fatal := True\<rparr>"

text \<open>What the vendor chose is copied to the client's structure.\<close>

definition adopt_stream :: "(nat \<Rightarrow> camera3_stream) \<Rightarrow> cam_stream \<Rightarrow> cam_stream" where
  "adopt_stream chosen s = s\<lparr>so_legacy := chosen (so_id s)\<rparr>"

definition write_back :: "(nat \<times> cam_stream) list \<Rightarrow> (nat \<Rightarrow> camera3_stream) \<Rightarrow> nat \<Rightarrow> camera3_stream" where
  "write_back nxt mem = fold (\<lambda>e mem. let s = snd e; l = so_legacy s in
     mem(so_client s := (mem (so_client s))\<lparr>cs_format := cs_format l, cs_usage := cs_usage l, cs_max_buffers := cs_max_buffers l\<rparr>))
     nxt mem"

definition configure_vendor ::
  "'m meta_lib \<Rightarrow> ('m, 'k) cam_env \<Rightarrow> 'm camera \<Rightarrow> (nat \<times> cam_stream) list \<Rightarrow> cam_stream list \<Rightarrow> 'k
     \<Rightarrow> ((int \<times> 'm camera) \<times> 'k) option" where
  "configure_vendor M E c nxt vs k =
     (case cam_vendor c of
        None \<Rightarrow> None
      | Some d \<Rightarrow>
          (case vn_configure E d (map (\<lambda>s. (so_id s, so_legacy s)) vs) k of ((result, chosen), k1) \<Rightarrow>
             if result \<noteq> 0 then Some ((result, give_up c nxt), k1)
             else
               let nxt1 = map (\<lambda>(p, s). (p, adopt_stream chosen s)) nxt;
                   c1 = c\<lparr>client_mem := write_back nxt1 (client_mem c), cam_streams := nxt1, lastSettings := md_new M\<rparr>
               in Some ((0, c1), destroy_streams E (map snd (cam_streams c)) k1)))"

text \<open>\<open>config\<close> is \<open>None\<close> for a null pointer to the configuration or to its list; otherwise the list and the operation mode.\<close>

definition configure ::
  "camera_h \<Rightarrow> 'm meta_lib \<Rightarrow> ('m, 'k) cam_env \<Rightarrow> 'm camera \<Rightarrow> (nat option list \<times> int) option \<Rightarrow> 'k
     \<Rightarrow> ((int \<times> 'm camera) \<times> 'k) option" where
  "configure V M E c config k =
     (case config of
        None \<Rightarrow> Some ((- EINVAL, c), k)
      | Some (ps, mode) \<Rightarrow>
          if ps = [] \<or> mode \<noteq> V ''CAMERA3_STREAM_CONFIGURATION_NORMAL_MODE'' then Some ((- EINVAL, c), k)
          else if cam_fatal c \<or> cam_closing c \<or> \<not> clientCallbacks c then Some ((- ENODEV, c), k)
          else if cam_frames c \<noteq> [] then Some ((- EBUSY, c), k)
          else case next_loop V E c ps ([], [], 0, 0, next_id c) k of
            (Inl e, k1) \<Rightarrow> Some ((e, c), k1)
          | (Inr (nxt, vs, _, _, ident), k1) \<Rightarrow>
              let c1 = c\<lparr>next_id := ident\<rparr> in
              if cam_streams c \<noteq> []
                 \<and> processedGeometry V (client_mem c) (cam_streams c) \<noteq> processedGeometry V (client_mem c) nxt
              then (case reopenVendor V E c1 k1 of ((result, c2), k2) \<Rightarrow>
                      if result \<noteq> 0 then Some ((result, give_up c2 nxt), k2) else configure_vendor M E c2 nxt vs k2)
              else configure_vendor M E c1 nxt vs k1)"

definition defaultRequest ::
  "camera_h \<Rightarrow> 'm meta_lib \<Rightarrow> ('m, 'k) cam_env \<Rightarrow> 'm camera \<Rightarrow> int \<Rightarrow> 'k \<Rightarrow> ('m option \<times> 'm camera) \<times> 'k" where
  "defaultRequest V M E c type k =
     (if type < V ''CAMERA3_TEMPLATE_PREVIEW'' \<or> type \<ge> V ''CAMERA3_TEMPLATE_COUNT'' then ((None, c), k)
      else case cam_vendor c of
        None \<Rightarrow> ((None, c), k)
      | Some d \<Rightarrow>
          if \<not> md_isEmpty M (cam_templates c type) then ((Some (cam_templates c type), c), k)
          else case vn_default E d type k of (stock, k1) \<Rightarrow>
            (case Option.bind stock (md_clone M) of
               None \<Rightarrow> ((None, c), k1)
             | Some copy \<Rightarrow>
                 (case normalizeRequest V M copy (cam_characteristics c) of (ok, m) \<Rightarrow>
                    if ok then ((Some m, c\<lparr>cam_templates := (cam_templates c)(type := m)\<rparr>), k1)
                    else ((None, c\<lparr>cam_templates := (cam_templates c)(type := md_new M)\<rparr>), k1))))"

section \<open>Callbacks of the vendor\<close>

text \<open>The handle that a vendor buffer's pointer refers to; \<open>None\<close> when the object it points into is gone.\<close>

definition deref_handle :: "'m camera \<Rightarrow> nat \<times> nat \<Rightarrow> nat option" where
  "deref_handle c = (\<lambda>(i, h). if \<exists>e \<in> set (cam_streams c). so_id (snd e) = i \<and> h \<in> set (so_buffers (snd e)) then Some h else None)"

text \<open>The search for the buffer that is returned, from position \<open>n\<close> on; the result is the number of buffers if there is none.\<close>

fun match_buffer :: "'m camera \<Rightarrow> stream_buffer \<Rightarrow> (nat \<times> nat) list \<Rightarrow> bool list \<Rightarrow> nat \<Rightarrow> nat option" where
  "match_buffer c returned [] flags n = Some n"
| "match_buffer c returned (expected # vs) flags n =
     (case sb_buffer returned of
        Some h \<Rightarrow>
          if sb_stream returned = fst expected then
            (case deref_handle c expected of
               None \<Rightarrow> None
             | Some h' \<Rightarrow>
                 if n \<ge> length flags then None
                 else if h = h' \<and> \<not> flags ! n then Some n else match_buffer c returned vs flags (Suc n))
          else match_buffer c returned vs flags (Suc n)
      | None \<Rightarrow> match_buffer c returned vs flags (Suc n))"

text \<open>The loop over the returned buffers: the frame, whether an unexpected buffer was seen, the client's buffers and closed fences.\<close>

fun take_buffers ::
  "'m camera \<Rightarrow> stream_buffer list \<Rightarrow> 'm cam_frame \<times> bool \<times> stream_buffer list \<times> int list
     \<Rightarrow> ('m cam_frame \<times> bool \<times> stream_buffer list \<times> int list) option" where
  "take_buffers c [] s = Some s"
| "take_buffers c (returned # rs) (f, bad, out, fences) = do {
     n \<leftarrow> match_buffer c returned (fr_vendorBuffers f) (fr_returned f) 0;
     (if n = length (fr_vendorBuffers f)
      then take_buffers c rs (f, True, out, if sb_release_fence returned \<ge> 0 then fences @ [sb_release_fence returned] else fences)
      else if n \<ge> length (fr_clientBuffers f) then None
      else
        let converted = (fr_clientBuffers f ! n)\<lparr>sb_status := sb_status returned, sb_acquire_fence := - 1,
              sb_release_fence := sb_release_fence returned\<rparr>;
            f1 = f\<lparr>fr_returned := (fr_returned f)[n := True],
                   fr_remaining := (if fr_remaining f = 0 then 2 ^ 32 - 1 else fr_remaining f - 1)\<rparr>
        in take_buffers c rs (f1, bad, out @ [converted], fences))
   }"

text \<open>The metadata of a result: the frame, whether there is an error, and the metadata to deliver.\<close>

definition is_partial :: "camera_h \<Rightarrow> 'm meta_lib \<Rightarrow> 'm \<Rightarrow> bool" where
  "is_partial V M m \<longleftrightarrow> find_u8 M m (V ''ANDROID_QUIRKS_PARTIAL_RESULT'') = [word_of_int (V ''ANDROID_QUIRKS_PARTIAL_RESULT_PARTIAL'')]"

definition take_metadata ::
  "camera_h \<Rightarrow> 'm meta_lib \<Rightarrow> 'm cam_frame \<Rightarrow> 'm option \<Rightarrow> 'm cam_frame \<times> bool \<times> 'm option" where
  "take_metadata V M f metadata =
     (case metadata of
        None \<Rightarrow> (f, False, None)
      | Some stock \<Rightarrow>
          if fr_metadataDone f then (f, False, None)
          else if is_partial V M stock then
            (case mergeMetadata V M (fr_partials f) (Some stock) of (ok, p) \<Rightarrow>
               (f\<lparr>fr_partials := p, fr_metadataDone := \<not> ok\<rparr>, \<not> ok, None))
          else
            (case mergeMetadata V M (md_new M) (Some stock) of (ok, m) \<Rightarrow>
               (case (if ok then finishResult V M m (fr_partials f) else (False, m)) of (ok1, m1) \<Rightarrow>
                  (f\<lparr>fr_metadataDone := True\<rparr>, \<not> ok1, if ok1 then Some m1 else None))))"

text \<open>
  \<^verbatim>\<open>result\<close> up to the call of \<^verbatim>\<open>retire\<close>. The client's callbacks are used when there is something to deliver.
\<close>

definition result_locked ::
  "camera_h \<Rightarrow> 'm meta_lib \<Rightarrow> ('m, 'k) cam_env \<Rightarrow> 'm camera \<Rightarrow> 'm stock_result \<Rightarrow> 'k \<Rightarrow> ('m camera \<times> 'k) option" where
  "result_locked V M E c r k =
     (case map_of (cam_frames c) (sr_frame r) of
        None \<Rightarrow>
          Some (c, fold (fd_close E) (filter (\<lambda>x. x \<ge> 0) (map sb_release_fence (sr_buffers r))) k)
      | Some f \<Rightarrow>
          (case take_metadata V M f (sr_metadata r) of (f1, metadataError, metadata) \<Rightarrow> do {
             (f2, bad, out, fences) \<leftarrow> take_buffers c (sr_buffers r) (f1, False, [], []);
             let c1 = c\<lparr>cam_frames := modify_key (sr_frame r) (\<lambda>_. f2) (cam_frames c), cam_fatal := cam_fatal c \<or> bad\<rparr>;
             let k1 = fold (fd_close E) fences k;
             (if (metadataError \<or> metadata \<noteq> None \<or> out \<noteq> []) \<and> \<not> clientCallbacks c then None
              else
                let k2 = (if metadataError
                          then cl_notify E (Error_msg (sr_frame r) (V ''CAMERA3_MSG_ERROR_RESULT'') None) k1 else k1);
                    k3 = (if metadata \<noteq> None \<or> out \<noteq> [] then cl_result E (sr_frame r) metadata out k2 else k2)
                in Some (c1, k3))
           }))"

definition retire :: "'m camera \<Rightarrow> nat \<Rightarrow> 'm camera" where
  "retire c number =
     (case map_of (cam_frames c) number of
        None \<Rightarrow> c
      | Some f \<Rightarrow>
          if fr_remaining f = 0 \<and> fr_metadataDone f \<and> fr_shutterDone f
          then c\<lparr>cam_frames := erase_key number (cam_frames c)\<rparr> else c)"

definition cam_result ::
  "camera_h \<Rightarrow> 'm meta_lib \<Rightarrow> ('m, 'k) cam_env \<Rightarrow> 'm camera \<Rightarrow> 'm stock_result \<Rightarrow> 'k \<Rightarrow> ('m camera \<times> 'k) option" where
  "cam_result V M E c r k = do {
     (c1, k1) \<leftarrow> result_locked V M E c r k;
     (if map_of (cam_frames c) (sr_frame r) = None then Some (c1, k1) else Some (retire c1 (sr_frame r), k1))
   }"

text \<open>\<^verbatim>\<open>notify\<close> up to the call of \<^verbatim>\<open>retire\<close>.\<close>

definition notify_locked ::
  "camera_h \<Rightarrow> ('m, 'k) cam_env \<Rightarrow> 'm camera \<Rightarrow> notify_msg \<Rightarrow> 'k \<Rightarrow> ('m camera \<times> 'k) option" where
  "notify_locked V E c msg k =
     (if \<not> clientCallbacks c then None
      else case msg of
        Shutter number \<Rightarrow>
          Some (c\<lparr>cam_frames := modify_key number (\<lambda>f. f\<lparr>fr_shutterDone := True\<rparr>) (cam_frames c)\<rparr>, cl_notify E msg k)
      | Error_msg number code stream \<Rightarrow>
          let upd = (\<lambda>f. f\<lparr>fr_metadataDone := fr_metadataDone f \<or> code = V ''CAMERA3_MSG_ERROR_REQUEST'' \<or> code = V ''CAMERA3_MSG_ERROR_RESULT'',
                 fr_shutterDone := fr_shutterDone f \<or> code = V ''CAMERA3_MSG_ERROR_REQUEST''\<rparr>);
              client = map_option (\<lambda>e. so_client (snd e)) (find (\<lambda>e. Some (so_id (snd e)) = stream) (rev (cam_streams c)))
          in Some (c\<lparr>cam_frames := modify_key number upd (cam_frames c),
                     cam_fatal := cam_fatal c \<or> code = V ''CAMERA3_MSG_ERROR_DEVICE''\<rparr>,
                   cl_notify E (Error_msg number code client) k)
      | Other_msg t \<Rightarrow> Some (c, cl_notify E msg k))"

definition cam_notify ::
  "camera_h \<Rightarrow> ('m, 'k) cam_env \<Rightarrow> 'm camera \<Rightarrow> notify_msg \<Rightarrow> 'k \<Rightarrow> ('m camera \<times> 'k) option" where
  "cam_notify V E c msg k = do {
     (c1, k1) \<leftarrow> notify_locked V E c msg k;
     Some (case msg of Shutter n \<Rightarrow> (retire c1 n, k1) | Error_msg n _ _ \<Rightarrow> (retire c1 n, k1) | Other_msg _ \<Rightarrow> (c1, k1))
   }"

text \<open>
  The sections of callbacks as they interleave with requests: \<^verbatim>\<open>retire\<close> takes its lock anew. The vendor calls back only a client that was
  initialised.
\<close>

datatype 'm callback = On_result "'m stock_result" | On_notify notify_msg | On_retire nat

definition run_callback ::
  "camera_h \<Rightarrow> 'm meta_lib \<Rightarrow> ('m, 'k) cam_env \<Rightarrow> 'm callback \<Rightarrow> 'm camera \<times> 'k \<Rightarrow> ('m camera \<times> 'k) option" where
  "run_callback V M E cb = (\<lambda>(c, k).
     if \<not> clientCallbacks c then Some (c, k)
     else case cb of
       On_result r \<Rightarrow> result_locked V M E c r k
     | On_notify msg \<Rightarrow> notify_locked V E c msg k
     | On_retire n \<Rightarrow> Some (retire c n, k))"

section \<open>Requests\<close>

text \<open>\<^verbatim>\<open>drain\<close>: \<open>during\<close> are the callbacks until its condition holds or three seconds have passed.\<close>

definition drain ::
  "camera_h \<Rightarrow> 'm meta_lib \<Rightarrow> ('m, 'k) cam_env \<Rightarrow> 'm callback list \<Rightarrow> 'm camera \<Rightarrow> 'k \<Rightarrow> ((int \<times> 'm camera) \<times> 'k) option" where
  "drain V M E during c k = do {
     (c1, k1) \<leftarrow> run_steps (run_callback V M E) during (c, k);
     Some ((if cam_frames c1 \<noteq> [] \<and> \<not> cam_fatal c1 then - ETIMEDOUT else if cam_fatal c1 then - ENODEV else 0, c1), k1)
   }"

record 'm capture_request =
  rq_frame :: nat
  rq_settings :: "'m option"
  rq_input :: bool
  rq_output :: "stream_buffer list option"

text \<open>The check of the output buffers: the keys of their streams, and whether one has not been registered; \<open>Inl\<close> is the refusal.\<close>

fun check_buffers :: "'m camera \<Rightarrow> stream_buffer list \<Rightarrow> nat list \<times> bool \<Rightarrow> int + nat list \<times> bool" where
  "check_buffers c [] acc = Inr acc"
| "check_buffers c (b # bs) (keys, fresh) =
     (case map_of (cam_streams c) (sb_stream b) of
        None \<Rightarrow> Inl (- EINVAL)
      | Some s \<Rightarrow>
          (case sb_buffer b of
             None \<Rightarrow> Inl (- EINVAL)
           | Some h \<Rightarrow>
               if h = 0 \<or> sb_stream b \<in> set keys then Inl (- EINVAL)
               else check_buffers c bs (keys @ [sb_stream b], fresh \<or> h \<notin> set (so_buffers s))))"

text \<open>The registration of the buffers that are new to their streams.\<close>

fun register_new ::
  "('m, 'k) cam_env \<Rightarrow> 'm camera \<Rightarrow> stream_buffer list \<Rightarrow> 'k \<Rightarrow> ((int \<times> 'm camera) \<times> 'k) option" where
  "register_new E c [] k = Some ((0, c), k)"
| "register_new E c (b # bs) k =
     (case (map_of (cam_streams c) (sb_stream b), sb_buffer b) of
        (Some s, Some h) \<Rightarrow>
          if h \<in> set (so_buffers s) then register_new E c bs k
          else (case gr_register E h k of (r, k1) \<Rightarrow>
            if r \<noteq> 0 then Some ((r, c), k1)
            else (case ce_new E k1 of (ok, k2) \<Rightarrow>
              if \<not> ok then Some ((- ENOMEM, c), gr_unregister E h k2)
              else
                let s1 = s\<lparr>so_buffers := insort h (so_buffers s)\<rparr>;
                    c1 = c\<lparr>cam_streams := modify_key (sb_stream b) (\<lambda>_. s1) (cam_streams c)\<rparr>
                in (case cam_vendor c of
                      None \<Rightarrow> None
                    | Some d \<Rightarrow>
                        (case vn_register E d (so_id s1) (so_buffers s1) k2 of (r2, k3) \<Rightarrow>
                           if r2 \<noteq> 0 then Some ((r2, c1\<lparr>cam_fatal := True\<rparr>), k3) else register_new E c1 bs k3))))
      | _ \<Rightarrow> None)"

text \<open>The identifiers of triggers stay positive.\<close>

definition next_trigger :: "int \<Rightarrow> int" where
  "next_trigger n = (if n = 2 ^ 31 - 1 then 1 else n + 1)"

text \<open>The assignment of metadata, which makes a copy.\<close>

definition assigned :: "'m meta_lib \<Rightarrow> 'm \<Rightarrow> 'm" where
  "assigned M m = (case md_clone M m of None \<Rightarrow> md_new M | Some m1 \<Rightarrow> m1)"

text \<open>The settings of a request that has some, with the identifiers of its triggers; \<open>Inl\<close> is the refusal.\<close>

definition request_settings ::
  "camera_h \<Rightarrow> 'm meta_lib \<Rightarrow> 'm camera \<Rightarrow> 'm \<Rightarrow> (int + 'm) \<times> 'm camera" where
  "request_settings V M c settings =
     (let s0 = assigned M settings in
      if md_isEmpty M s0 then (Inl (- EINVAL), c)
      else case normalizeRequest V M s0 (cam_characteristics c) of (ok, s1) \<Rightarrow>
        if \<not> ok then (Inl (- EINVAL), c)
        else
          let af = find_u8 M s1 (V ''ANDROID_CONTROL_AF_TRIGGER'');
              ae = find_u8 M s1 (V ''ANDROID_CONTROL_AE_PRECAPTURE_TRIGGER'');
              c1 = (if af \<noteq> [] \<and> hd af \<noteq> word_of_int (V ''ANDROID_CONTROL_AF_TRIGGER_IDLE'')
                    then c\<lparr>afTriggerId := next_trigger (afTriggerId c)\<rparr> else c);
              c2 = (if ae \<noteq> [] \<and> hd ae = word_of_int (V ''ANDROID_CONTROL_AE_PRECAPTURE_TRIGGER_START'')
                    then c1\<lparr>aeTriggerId := next_trigger (aeTriggerId c1)\<rparr> else c1)
          in case md_update M s1 (V ''ANDROID_CONTROL_AF_TRIGGER_ID'') (I32s [afTriggerId c2]) of (r1, s2) \<Rightarrow>
               if r1 \<noteq> 0 then (Inl (- ENOMEM), c2)
               else case md_update M s2 (V ''ANDROID_CONTROL_AE_PRECAPTURE_ID'') (I32s [aeTriggerId c2]) of (r2, s3) \<Rightarrow>
                 if r2 \<noteq> 0 then (Inl (- ENOMEM), c2) else (Inr s3, c2\<lparr>lastSettings := assigned M s3\<rparr>))"

text \<open>The vendor's view of the buffers; \<^verbatim>\<open>at\<close> throws for a handle without a reference.\<close>

fun vendor_buffers :: "'m camera \<Rightarrow> stream_buffer list \<Rightarrow> (nat \<times> nat) list option" where
  "vendor_buffers c [] = Some []"
| "vendor_buffers c (b # bs) =
     (case (map_of (cam_streams c) (sb_stream b), sb_buffer b) of
        (Some s, Some h) \<Rightarrow>
          if h \<in> set (so_buffers s) then map_option (Cons (so_id s, h)) (vendor_buffers c bs) else None
      | _ \<Rightarrow> None)"

text \<open>The last part of \<^verbatim>\<open>capture\<close>; \<open>during\<close> are the callbacks that come before the vendor's function has returned.\<close>

definition submit ::
  "camera_h \<Rightarrow> 'm meta_lib \<Rightarrow> ('m, 'k) cam_env \<Rightarrow> 'm callback list \<Rightarrow> 'm camera \<Rightarrow> nat \<Rightarrow> 'm option \<Rightarrow> stream_buffer list \<Rightarrow> 'k
     \<Rightarrow> ((int \<times> 'm camera) \<times> 'k) option" where
  "submit V M E during c number settings bufs k = do {
     vbs \<leftarrow> vendor_buffers c bufs;
     d \<leftarrow> cam_vendor c;
     let f = \<lparr>fr_settings = (case settings of None \<Rightarrow> md_new M | Some s \<Rightarrow> s), fr_partials = md_new M, fr_clientBuffers = bufs,
              fr_vendorBuffers = vbs, fr_returned = replicate (length bufs) False, fr_remaining = length bufs,
              fr_metadataDone = False, fr_shutterDone = False\<rparr>;
     let c1 = c\<lparr>cam_frames := emplace number f (cam_frames c)\<rparr>;
     let (r, k1) = vn_capture E d number settings vbs k;
     (c2, k2) \<leftarrow> run_steps (run_callback V M E) during (c1, k1);
     Some ((r, if r \<noteq> 0 then c2\<lparr>cam_frames := erase_key number (cam_frames c2)\<rparr> else c2), k2)
   }"

definition capture ::
  "camera_h \<Rightarrow> 'm meta_lib \<Rightarrow> ('m, 'k) cam_env \<Rightarrow> 'm callback list \<Rightarrow> 'm callback list \<Rightarrow> 'm camera \<Rightarrow> 'm capture_request option \<Rightarrow> 'k
     \<Rightarrow> ((int \<times> 'm camera) \<times> 'k) option" where
  "capture V M E draining during c request k =
     (case request of
        None \<Rightarrow> Some ((- EINVAL, c), k)
      | Some rq \<Rightarrow>
          (case rq_output rq of
             None \<Rightarrow> Some ((- EINVAL, c), k)
           | Some bufs \<Rightarrow>
               if rq_input rq \<or> bufs = [] then Some ((- EINVAL, c), k)
               else if cam_fatal c \<or> cam_closing c \<or> \<not> clientCallbacks c then Some ((- ENODEV, c), k)
               else if map_of (cam_frames c) (rq_frame rq) \<noteq> None then Some ((- EINVAL, c), k)
               else case check_buffers c bufs ([], False) of
                 Inl e \<Rightarrow> Some ((e, c), k)
               | Inr (_, newBuffer) \<Rightarrow> do {
                   ((r1, c1), k1) \<leftarrow> (if newBuffer then drain V M E draining c k else Some ((0, c), k));
                   (if r1 \<noteq> 0 then Some ((r1, c1), k1)
                    else do {
                      ((r2, c2), k2) \<leftarrow> (if newBuffer then register_new E c1 bufs k1 else Some ((0, c1), k1));
                      (if r2 \<noteq> 0 then Some ((r2, c2), k2)
                       else case rq_settings rq of
                         Some st \<Rightarrow>
                           (case request_settings V M c2 st of
                              (Inl e, c3) \<Rightarrow> Some ((e, c3), k2)
                            | (Inr s, c3) \<Rightarrow> submit V M E during c3 (rq_frame rq) (Some s) bufs k2)
                       | None \<Rightarrow>
                           if md_isEmpty M (lastSettings c2) then Some ((- EINVAL, c2), k2)
                           else submit V M E during c2 (rq_frame rq) None bufs k2)
                    })
                 }))"

definition cam_flush ::
  "camera_h \<Rightarrow> 'm meta_lib \<Rightarrow> ('m, 'k) cam_env \<Rightarrow> 'm callback list \<Rightarrow> 'm camera \<Rightarrow> 'k \<Rightarrow> ((int \<times> 'm camera) \<times> 'k) option" where
  "cam_flush V M E during c k = drain V M E during c k"

definition cam_close :: "('m, 'k) cam_env \<Rightarrow> 'm camera \<Rightarrow> 'k \<Rightarrow> (int \<times> 'm camera) \<times> 'k" where
  "cam_close E c k =
     (case (case cam_vendor c of None \<Rightarrow> (0, k) | Some d \<Rightarrow> vn_close E d k) of (result, k1) \<Rightarrow>
        ((result, c\<lparr>cam_closing := True, cam_vendor := None, cam_frames := [], cam_streams := [], failedStreams := []\<rparr>),
         destroy_streams E (failedStreams c) (destroy_streams E (map snd (cam_streams c)) k1)))"

section \<open>Opening\<close>

text \<open>\<^verbatim>\<open>get_mocha_camera_info\<close>: the error or the characteristics, and the cache of the characteristics of both cameras.\<close>

definition get_mocha_camera_info ::
  "camera_h \<Rightarrow> 'm meta_lib \<Rightarrow> ('m, 'k) cam_env \<Rightarrow> int \<Rightarrow> (int \<Rightarrow> 'm) \<Rightarrow> (int + 'm) \<times> (int \<Rightarrow> 'm)" where
  "get_mocha_camera_info V M E ident cache =
     (if ident < 0 \<or> ident \<ge> 2 then (Inl (- EINVAL), cache)
      else if \<not> stock_module E then (Inl (- ENODEV), cache)
      else if ident \<ge> stock_count E then (Inl (- EINVAL), cache)
      else case stock_info E ident of (result, version, ch) \<Rightarrow>
        if result \<noteq> 0 then (Inl result, cache)
        else if version \<noteq> V ''CAMERA_DEVICE_API_VERSION_3_0'' then (Inl (- ENODEV), cache)
        else if \<not> md_isEmpty M (cache ident) then (Inr (cache ident), cache)
        else (case buildCharacteristics V M ch of
                None \<Rightarrow> (Inl (- EINVAL), cache)
              | Some m \<Rightarrow> (Inr m, cache(ident := m))))"

definition camera_id :: "string \<Rightarrow> nat option" where
  "camera_id name =
     (if name = [] \<or> (\<exists>c \<in> set name. (of_char c :: nat) < 48 \<or> (of_char c :: nat) > 57) then None
      else Some (foldl (\<lambda>v c. v * 10 + (of_char c - 48)) 0 name))"

definition new_camera :: "'m meta_lib \<Rightarrow> string \<Rightarrow> nat \<Rightarrow> 'm \<Rightarrow> (nat \<Rightarrow> camera3_stream) \<Rightarrow> 'm camera" where
  "new_camera M name d ch mem =
     \<lparr>cam_vendor = Some d, cam_characteristics = ch, deviceName = name, clientCallbacks = False, cam_streams = [],
      failedStreams = [], cam_frames = [], cam_templates = (\<lambda>_. md_new M), lastSettings = md_new M, afTriggerId = 0,
      aeTriggerId = 0, cam_fatal = False, cam_closing = False, client_mem = mem, next_id = 0\<rparr>"

text \<open>\<open>mem\<close> are the client's stream structures at that time; a number beyond the range of \<^verbatim>\<open>long\<close> is refused like any other above 1.\<close>

definition camera3_device_open ::
  "camera_h \<Rightarrow> 'm meta_lib \<Rightarrow> ('m, 'k) cam_env \<Rightarrow> (nat \<Rightarrow> camera3_stream) \<Rightarrow> string option \<Rightarrow> (int \<Rightarrow> 'm) \<Rightarrow> 'k
     \<Rightarrow> ((int \<times> 'm camera option) \<times> (int \<Rightarrow> 'm)) \<times> 'k" where
  "camera3_device_open V M E mem name cache k =
     (case Option.bind name camera_id of
        None \<Rightarrow> (((- EINVAL, None), cache), k)
      | Some ident \<Rightarrow>
          if ident \<ge> 2 then (((- EINVAL, None), cache), k)
          else case get_mocha_camera_info V M E (int ident) cache of
            (Inl e, cache1) \<Rightarrow> (((e, None), cache1), k)
          | (Inr ch, cache1) \<Rightarrow>
              if \<not> stock_module E \<or> int ident \<ge> stock_count E then (((- EINVAL, None), cache1), k)
              else case ce_new E k of (ok, k1) \<Rightarrow>
                if \<not> ok then (((- ENOMEM, None), cache1), k1)
                else if fst (gralloc_module E) \<noteq> 0 then (((fst (gralloc_module E), None), cache1), k1)
                else if \<not> snd (gralloc_module E) then (((- ENODEV, None), cache1), k1)
                else case vn_open E (the name) k1 of ((result, opened), k2) \<Rightarrow>
                  if result \<noteq> 0 then (((result, None), cache1), k2)
                  else case opened of
                    None \<Rightarrow> (((- ENODEV, None), cache1), k2)
                  | Some d \<Rightarrow>
                      if vd_version d \<noteq> V ''CAMERA_DEVICE_API_VERSION_3_0'' \<or> \<not> vd_complete d
                      then (((- ENODEV, None), cache1), snd (vn_close E (vd_id d) k2))
                      else (((0, Some (new_camera M (the name) (vd_id d) ch mem)), cache1), k2))"

end
