(* ===== verification/Cam_Props.thy ===== *)
theory Cam_Props
  imports Cam_Adapter "HOL-Library.Multiset"
begin

text \<open>
  Properties of the camera adapter: the invariant of a device over all requests and callbacks, what a result delivers, and the
  ledgers of the buffers that are registered with the graphics allocator and of the vendor's devices.
\<close>

section \<open>Maps\<close>

lemma emplace_set: "set (emplace k v m) = (if k \<in> fst ` set m then set m else insert (k, v) (set m))"
  by (simp add: emplace_def set_insort_key)

lemma insort_distinct: "distinct (map fst (insort_key fst e m)) \<longleftrightarrow> fst e \<notin> fst ` set m \<and> distinct (map fst m)"
  by (induction m) (auto simp: set_insort_key)

lemma emplace_distinct: "distinct (map fst m) \<Longrightarrow> distinct (map fst (emplace k v m))"
  by (simp add: emplace_def insort_distinct)

lemma modify_keys [simp]: "map fst (modify_key k f m) = map fst m"
  by (induction m) (auto simp: modify_key_def)

lemma modify_set: "set (modify_key k f m) = (\<lambda>(i, v). (i, if i = k then f v else v)) ` set m"
  by (simp add: modify_key_def)

lemma modify_all: "\<forall>(i, v) \<in> set m. P v \<Longrightarrow> (\<And>v. P v \<Longrightarrow> P (f v)) \<Longrightarrow> \<forall>(i, v) \<in> set (modify_key k f m). P v"
  by (auto simp: modify_set)

lemma modify_empty [simp]: "modify_key k f m = [] \<longleftrightarrow> m = []"
  by (simp add: modify_key_def)

lemma erase_keys: "distinct (map fst m) \<Longrightarrow> distinct (map fst (erase_key k m))"
  by (induction m) (auto simp: erase_key_def)

lemma erase_set: "set (erase_key k m) = {e \<in> set m. fst e \<noteq> k}"
  by (auto simp: erase_key_def)

section \<open>The invariant\<close>

text \<open>Each buffer of a frame belongs to a stream that is configured, under its handle, which is registered there.\<close>

definition buffer_ok :: "(nat \<times> cam_stream) list \<Rightarrow> stream_buffer \<Rightarrow> nat \<times> nat \<Rightarrow> bool" where
  "buffer_ok ss b v \<longleftrightarrow> (\<exists>s. (sb_stream b, s) \<in> set ss \<and> so_id s = fst v \<and> snd v \<in> set (so_buffers s) \<and> sb_buffer b = Some (snd v))"

definition frame_ok :: "(nat \<times> cam_stream) list \<Rightarrow> 'm cam_frame \<Rightarrow> bool" where
  "frame_ok ss f \<longleftrightarrow> length (fr_vendorBuffers f) = length (fr_clientBuffers f) \<and> length (fr_returned f) = length (fr_clientBuffers f)
     \<and> fr_remaining f = length (filter Not (fr_returned f))
     \<and> (\<forall>n < length (fr_clientBuffers f). buffer_ok ss (fr_clientBuffers f ! n) (fr_vendorBuffers f ! n))"

definition streams_ok :: "(nat \<times> cam_stream) list \<Rightarrow> nat \<Rightarrow> bool" where
  "streams_ok ss n \<longleftrightarrow> distinct (map fst ss) \<and> distinct (map (\<lambda>e. so_id (snd e)) ss)
     \<and> (\<forall>(p, s) \<in> set ss. so_client s = p \<and> distinct (so_buffers s) \<and> so_id s < n)"

text \<open>
  The vendor's device is missing only in a device that was given up or closed. Frames in flight have a client to go to.
\<close>

definition cam_ok :: "'m camera \<Rightarrow> bool" where
  "cam_ok c \<longleftrightarrow> (cam_vendor c = None \<longrightarrow> cam_closing c \<or> clientCallbacks c \<and> cam_fatal c)
     \<and> streams_ok (cam_streams c) (next_id c) \<and> distinct (map fst (cam_frames c))
     \<and> (\<forall>(n, f) \<in> set (cam_frames c). frame_ok (cam_streams c) f) \<and> (cam_frames c \<noteq> [] \<longrightarrow> clientCallbacks c)
     \<and> (\<forall>s \<in> set (failedStreams c). so_buffers s = [])"

lemma buffer_ok_deref: "buffer_ok (cam_streams c) b v \<Longrightarrow> deref_handle c v = Some (snd v)"
  by (cases v) (force simp: buffer_ok_def deref_handle_def)

lemma frame_of:
  assumes "cam_ok c" and "map_of (cam_frames c) n = Some f"
  shows "frame_ok (cam_streams c) f" "clientCallbacks c"
  using assms map_of_SomeD [OF assms(2)] by (auto simp: cam_ok_def)

section \<open>What a result delivers\<close>

text \<open>The buffer at position \<open>n\<close> is the one that the vendor returns.\<close>

definition is_buffer :: "'m cam_frame \<Rightarrow> nat \<Rightarrow> stream_buffer \<Rightarrow> bool" where
  "is_buffer f n r \<longleftrightarrow> n < length (fr_vendorBuffers f) \<and> sb_stream r = fst (fr_vendorBuffers f ! n)
     \<and> sb_buffer r = Some (snd (fr_vendorBuffers f ! n))"

lemma match_buffer_result:
  assumes f: "frame_ok (cam_streams c) f"
  shows "vs = drop n (fr_vendorBuffers f) \<Longrightarrow> n \<le> length (fr_vendorBuffers f) \<Longrightarrow>
    \<exists>m. match_buffer c r vs (fr_returned f) n = Some m \<and> m \<le> length (fr_vendorBuffers f)
      \<and> (m < length (fr_vendorBuffers f) \<longrightarrow> is_buffer f m r \<and> \<not> fr_returned f ! m)
      \<and> (m = length (fr_vendorBuffers f) \<longrightarrow> (\<forall>i. n \<le> i \<and> is_buffer f i r \<longrightarrow> fr_returned f ! i))"
proof (induction vs arbitrary: n)
  case Nil
  then have "n = length (fr_vendorBuffers f)" by simp
  then show ?case by (auto simp: is_buffer_def)
next
  case (Cons e vs)
  have n: "n < length (fr_vendorBuffers f)" using Cons.prems by (metis drop_all leI list.distinct(1))
  then have e: "e = fr_vendorBuffers f ! n" "vs = drop (Suc n) (fr_vendorBuffers f)"
    using Cons.prems(1) by (metis Cons_nth_drop_Suc list.inject)+
  have lens: "n < length (fr_clientBuffers f)" "n < length (fr_returned f)" using n f by (simp_all add: frame_ok_def)
  then have d: "deref_handle c e = Some (snd e)" using f e(1) buffer_ok_deref [of c "fr_clientBuffers f ! n" e] by (simp add: frame_ok_def)
  obtain m where m: "match_buffer c r vs (fr_returned f) (Suc n) = Some m" "m \<le> length (fr_vendorBuffers f)"
    "m < length (fr_vendorBuffers f) \<longrightarrow> is_buffer f m r \<and> \<not> fr_returned f ! m"
    "m = length (fr_vendorBuffers f) \<longrightarrow> (\<forall>i. Suc n \<le> i \<and> is_buffer f i r \<longrightarrow> fr_returned f ! i)"
    using Cons.IH [OF e(2)] n by auto
  show ?case
  proof (cases "is_buffer f n r \<and> \<not> fr_returned f ! n")
    case True
    then show ?thesis using d e(1) n lens by (intro exI [of _ n]) (simp add: is_buffer_def)
  next
    case False
    then have "match_buffer c r (e # vs) (fr_returned f) n = Some m"
      using m(1) d e(1) n lens by (auto simp: is_buffer_def split: option.split)
    moreover have "\<forall>i. n \<le> i \<and> is_buffer f i r \<longrightarrow> fr_returned f ! i" if "m = length (fr_vendorBuffers f)"
      using m(4) that False by (metis Suc_leI le_neq_implies_less)
    ultimately show ?thesis using m(2,3) by blast
  qed
qed

text \<open>One buffer marked as returned.\<close>

definition mark :: "nat \<Rightarrow> 'm cam_frame \<Rightarrow> 'm cam_frame" where
  "mark n f = f\<lparr>fr_returned := (fr_returned f)[n := True],
     fr_remaining := (if fr_remaining f = 0 then 2 ^ 32 - 1 else fr_remaining f - 1)\<rparr>"

lemma filter_mark: "n < length l \<Longrightarrow> \<not> l ! n \<Longrightarrow> Suc (length (filter Not (l[n := True]))) = length (filter Not l)"
proof (induction l arbitrary: n)
  case (Cons a l)
  then show ?case by (cases n) auto
qed simp

lemma mark_ok:
  assumes "frame_ok ss f" and "n < length (fr_vendorBuffers f)" and "\<not> fr_returned f ! n"
  shows "frame_ok ss (mark n f)" "Suc (fr_remaining (mark n f)) = fr_remaining f"
  using assms filter_mark [of n "fr_returned f"] by (auto simp: frame_ok_def mark_def)

lemma mark_simps [simp]:
  "fr_vendorBuffers (mark n f) = fr_vendorBuffers f" "fr_clientBuffers (mark n f) = fr_clientBuffers f"
  "fr_returned (mark n f) = (fr_returned f)[n := True]" "is_buffer (mark n f) = is_buffer f"
  by (auto simp: mark_def is_buffer_def fun_eq_iff)

definition converted :: "'m cam_frame \<Rightarrow> nat \<times> stream_buffer \<Rightarrow> stream_buffer" where
  "converted f = (\<lambda>(n, r). (fr_clientBuffers f ! n)\<lparr>sb_status := sb_status r, sb_acquire_fence := - 1,
     sb_release_fence := sb_release_fence r\<rparr>)"

text \<open>The positions that were pending and are not any more.\<close>

definition pending :: "'m cam_frame \<Rightarrow> nat set" where
  "pending f = {n. n < length (fr_returned f) \<and> \<not> fr_returned f ! n}"

definition fences_of :: "stream_buffer list \<Rightarrow> int multiset" where
  "fences_of bs = mset (filter (\<lambda>x. x \<ge> 0) (map sb_release_fence bs))"

text \<open>A returned buffer is passed on unless no buffer is pending that it could be.\<close>

definition all_taken :: "'m cam_frame \<Rightarrow> stream_buffer list \<Rightarrow> (nat \<times> stream_buffer) list \<Rightarrow> bool" where
  "all_taken f rs ds \<longleftrightarrow> (\<forall>r \<in> set rs. r \<in> snd ` set ds \<or> (\<forall>n \<in> pending f - fst ` set ds. \<not> is_buffer f n r))"

lemma take_buffers_result:
  "frame_ok (cam_streams c) f \<Longrightarrow>
   \<exists>f' bad' ds closed_fences. take_buffers c rs (f, bad, out, fences) = Some (f', bad', out @ map (converted f) ds, fences @ closed_fences)
     \<and> frame_ok (cam_streams c) f' \<and> distinct (map fst ds) \<and> (\<forall>(n, r) \<in> set ds. n \<in> pending f \<and> is_buffer f n r \<and> r \<in> set rs)
     \<and> pending f' = pending f - fst ` set ds \<and> fr_clientBuffers f' = fr_clientBuffers f \<and> fr_vendorBuffers f' = fr_vendorBuffers f
     \<and> fr_metadataDone f' = fr_metadataDone f \<and> fr_shutterDone f' = fr_shutterDone f
     \<and> fences_of rs = fences_of (map snd ds) + mset closed_fences \<and> (bad' \<longleftrightarrow> bad \<or> length ds < length rs)
     \<and> length ds \<le> length rs \<and> all_taken f rs ds"
proof (induction rs arbitrary: f bad out fences)
  case Nil
  then show ?case by (auto simp: fences_of_def all_taken_def intro!: exI [of _ "[]"])
next
  case (Cons r rs)
  have f: "frame_ok (cam_streams c) f" by (rule Cons.prems)
  obtain m where m: "match_buffer c r (fr_vendorBuffers f) (fr_returned f) 0 = Some m" "m \<le> length (fr_vendorBuffers f)"
    "m < length (fr_vendorBuffers f) \<longrightarrow> is_buffer f m r \<and> \<not> fr_returned f ! m"
    "m = length (fr_vendorBuffers f) \<longrightarrow> (\<forall>i. is_buffer f i r \<longrightarrow> fr_returned f ! i)"
    using match_buffer_result [OF f, of "fr_vendorBuffers f" 0 r] by auto
  show ?case
  proof (cases "m = length (fr_vendorBuffers f)")
    case True
    let ?new = "if sb_release_fence r \<ge> 0 then [sb_release_fence r] else []"
    obtain f' bad' ds cf where t: "take_buffers c rs (f, True, out, fences @ ?new) = Some (f', bad', out @ map (converted f) ds, (fences @ ?new) @ cf)"
      "frame_ok (cam_streams c) f'" "distinct (map fst ds)" "\<forall>(n, r) \<in> set ds. n \<in> pending f \<and> is_buffer f n r \<and> r \<in> set rs"
      "pending f' = pending f - fst ` set ds" "fr_clientBuffers f' = fr_clientBuffers f" "fr_vendorBuffers f' = fr_vendorBuffers f"
      "fr_metadataDone f' = fr_metadataDone f" "fr_shutterDone f' = fr_shutterDone f"
      "fences_of rs = fences_of (map snd ds) + mset cf" "bad'" "length ds \<le> length rs" "all_taken f rs ds"
      using Cons.IH [OF f, of True out "fences @ ?new"] by blast
    have "take_buffers c (r # rs) (f, bad, out, fences) = take_buffers c rs (f, True, out, fences @ ?new)" using m(1) True by simp
    moreover have "fences_of (r # rs) = fences_of (map snd ds) + mset (?new @ cf)" using t(10) by (simp add: fences_of_def)
    moreover have "all_taken f (r # rs) ds" using t(13) m(4) True by (auto simp: all_taken_def pending_def)
    ultimately show ?thesis using t by (intro exI [of _ f'] exI [of _ bad'] exI [of _ ds] exI [of _ "?new @ cf"]) auto
  next
    case False
    then have lt: "m < length (fr_vendorBuffers f)" and new: "is_buffer f m r" "\<not> fr_returned f ! m" using m by auto
    have lens: "m < length (fr_clientBuffers f)" "m < length (fr_returned f)" using lt f by (simp_all add: frame_ok_def)
    obtain f' bad' ds cf where t: "take_buffers c rs (mark m f, bad, out @ [converted f (m, r)], fences)
        = Some (f', bad', (out @ [converted f (m, r)]) @ map (converted (mark m f)) ds, fences @ cf)"
      "frame_ok (cam_streams c) f'" "distinct (map fst ds)" "\<forall>(n, r) \<in> set ds. n \<in> pending (mark m f) \<and> is_buffer f n r \<and> r \<in> set rs"
      "pending f' = pending (mark m f) - fst ` set ds" "fr_clientBuffers f' = fr_clientBuffers f" "fr_vendorBuffers f' = fr_vendorBuffers f"
      "fr_metadataDone f' = fr_metadataDone (mark m f)" "fr_shutterDone f' = fr_shutterDone (mark m f)"
      "fences_of rs = fences_of (map snd ds) + mset cf" "bad' \<longleftrightarrow> bad \<or> length ds < length rs" "length ds \<le> length rs"
      "all_taken (mark m f) rs ds"
      using Cons.IH [OF mark_ok(1) [OF f lt new(2)], of bad "out @ [converted f (m, r)]" fences] by (auto simp del: split_paired_Ex)
    have p: "pending (mark m f) = pending f - {m}" "m \<in> pending f" using lens new(2) by (auto simp: pending_def nth_list_update)
    have "take_buffers c (r # rs) (f, bad, out, fences) = take_buffers c rs (mark m f, bad, out @ [converted f (m, r)], fences)"
      using m(1) False lens by (simp add: mark_def converted_def Let_def)
    moreover have "converted (mark m f) = converted f" by (auto simp: converted_def fun_eq_iff)
    moreover have "distinct (map fst ((m, r) # ds))" using t(3,4) p(1) by auto
    moreover have "fences_of (r # rs) = fences_of (map snd ((m, r) # ds)) + mset cf" using t(10) by (simp add: fences_of_def)
    moreover have "fr_metadataDone (mark m f) = fr_metadataDone f" "fr_shutterDone (mark m f) = fr_shutterDone f" by (simp_all add: mark_def)
    moreover have "\<forall>(n, r') \<in> set ((m, r) # ds). n \<in> pending f \<and> is_buffer f n r' \<and> r' \<in> set (r # rs)" using t(4) p new(1) by auto
    moreover have "pending f' = pending f - fst ` set ((m, r) # ds)" using t(5) p(1) by auto
    moreover have "all_taken f (r # rs) ((m, r) # ds)" using t(13) p(1) by (fastforce simp: all_taken_def)
    ultimately show ?thesis using t by (intro exI [of _ f'] exI [of _ bad'] exI [of _ "(m, r) # ds"] exI [of _ cf]) simp
  qed
qed

lemma remaining_pending: "frame_ok ss f \<Longrightarrow> fr_remaining f = 0 \<longleftrightarrow> pending f = {}"
proof -
  assume "frame_ok ss f"
  then have "fr_remaining f = 0 \<longleftrightarrow> filter Not (fr_returned f) = []" by (simp add: frame_ok_def)
  also have "\<dots> \<longleftrightarrow> pending f = {}" unfolding pending_def filter_empty_conv all_set_conv_all_nth by blast
  finally show ?thesis .
qed

lemma take_metadata_frame:
  "take_metadata V M f md = (f1, err, md1) \<Longrightarrow> f1 = f\<lparr>fr_partials := fr_partials f1, fr_metadataDone := fr_metadataDone f1\<rparr>"
  by (auto simp: take_metadata_def split: option.splits if_splits prod.splits)

lemma frame_ok_meta [simp]:
  "frame_ok ss (f\<lparr>fr_partials := p\<rparr>) = frame_ok ss f" "frame_ok ss (f\<lparr>fr_metadataDone := d\<rparr>) = frame_ok ss f"
  "frame_ok ss (f\<lparr>fr_shutterDone := d\<rparr>) = frame_ok ss f"
  "pending (f\<lparr>fr_partials := p\<rparr>) = pending f" "pending (f\<lparr>fr_metadataDone := d\<rparr>) = pending f"
  "is_buffer (f\<lparr>fr_partials := p\<rparr>) = is_buffer f" "is_buffer (f\<lparr>fr_metadataDone := d\<rparr>) = is_buffer f"
  "converted (f\<lparr>fr_partials := p\<rparr>) = converted f" "converted (f\<lparr>fr_metadataDone := d\<rparr>) = converted f"
  by (auto simp: frame_ok_def pending_def is_buffer_def converted_def fun_eq_iff)

text \<open>Changing frames, one at a time, into frames that are as good keeps the invariant.\<close>

lemma cam_ok_modify:
  assumes "cam_ok c" and "\<And>f. frame_ok (cam_streams c) f \<Longrightarrow> frame_ok (cam_streams c) (g f)"
  shows "cam_ok (c\<lparr>cam_frames := modify_key n g (cam_frames c), cam_fatal := cam_fatal c \<or> bad\<rparr>)"
proof -
  have "\<forall>(n, f) \<in> set (modify_key n g (cam_frames c)). frame_ok (cam_streams c) f"
    by (rule modify_all) (use assms in \<open>simp_all add: cam_ok_def\<close>)
  then show ?thesis using assms(1) by (auto simp: cam_ok_def)
qed

lemma retire_ok: "cam_ok c \<Longrightarrow> cam_ok (retire c n)"
  by (auto simp: retire_def cam_ok_def erase_keys erase_set split: option.split)

lemma map_of_modify: "map_of (modify_key k g m) i = map_option (\<lambda>v. if i = k then g v else v) (map_of m i)"
  by (induction m) (auto simp: modify_key_def)

text \<open>How the client hears of a result.\<close>

definition deliver ::
  "camera_h \<Rightarrow> ('m, 'k) cam_env \<Rightarrow> nat \<Rightarrow> bool \<Rightarrow> 'm option \<Rightarrow> stream_buffer list \<Rightarrow> 'k \<Rightarrow> 'k" where
  "deliver V E number err md bufs k =
     (let k1 = (if err then cl_notify E (Error_msg number (V ''CAMERA3_MSG_ERROR_RESULT'') None) k else k)
      in if md \<noteq> None \<or> bufs \<noteq> [] then cl_result E number md bufs k1 else k1)"

definition accounts :: "'m cam_frame \<Rightarrow> stream_buffer list \<Rightarrow> (nat \<times> stream_buffer) list \<Rightarrow> int list \<Rightarrow> bool" where
  "accounts f rs ds closed_fences \<longleftrightarrow> distinct (map fst ds) \<and> (\<forall>(n, r) \<in> set ds. n \<in> pending f \<and> is_buffer f n r \<and> r \<in> set rs)
     \<and> fences_of rs = fences_of (map snd ds) + mset closed_fences \<and> length ds \<le> length rs \<and> all_taken f rs ds"

lemma result_locked_result:
  assumes ok: "cam_ok c" and f: "map_of (cam_frames c) (sr_frame r) = Some f" and tm: "take_metadata V M f (sr_metadata r) = (f1, err, md)"
  shows "\<exists>f' ds closed_fences. result_locked V M E c r k
      = Some (c\<lparr>cam_frames := modify_key (sr_frame r) (\<lambda>_. f') (cam_frames c), cam_fatal := cam_fatal c \<or> length ds < length (sr_buffers r)\<rparr>,
          deliver V E (sr_frame r) err md (map (converted f) ds) (fold (fd_close E) closed_fences k))
    \<and> accounts f (sr_buffers r) ds closed_fences \<and> frame_ok (cam_streams c) f' \<and> pending f' = pending f - fst ` set ds
    \<and> fr_metadataDone f' = fr_metadataDone f1 \<and> fr_shutterDone f' = fr_shutterDone f"
proof -
  note fo = frame_of [OF ok f]
  obtain p d where f1: "f1 = f\<lparr>fr_partials := p, fr_metadataDone := d\<rparr>" using take_metadata_frame [OF tm] by blast
  have same: "pending f1 = pending f" "is_buffer f1 = is_buffer f" "converted f1 = converted f" "fr_shutterDone f1 = fr_shutterDone f"
    "all_taken f1 = all_taken f"
    and fo1: "frame_ok (cam_streams c) f1" using fo(1) f1 by (simp_all add: all_taken_def [abs_def])
  from take_buffers_result [OF fo1, of "sr_buffers r" False "[]" "[]", unfolded same append_Nil simp_thms] obtain f' bad' ds cf where
    t: "take_buffers c (sr_buffers r) (f1, False, [], []) = Some (f', bad', map (converted f) ds, cf)"
    "frame_ok (cam_streams c) f'" "distinct (map fst ds)" "\<forall>(n, b) \<in> set ds. n \<in> pending f \<and> is_buffer f n b \<and> b \<in> set (sr_buffers r)"
    "pending f' = pending f - fst ` set ds" "fr_metadataDone f' = fr_metadataDone f1" "fr_shutterDone f' = fr_shutterDone f"
    "fences_of (sr_buffers r) = fences_of (map snd ds) + mset cf" "bad' \<longleftrightarrow> length ds < length (sr_buffers r)" "length ds \<le> length (sr_buffers r)"
    "all_taken f (sr_buffers r) ds"
    by (elim exE conjE) (rule that, assumption+)
  have "accounts f (sr_buffers r) ds cf" using t by (simp add: accounts_def)
  moreover have "result_locked V M E c r k
      = Some (c\<lparr>cam_frames := modify_key (sr_frame r) (\<lambda>_. f') (cam_frames c), cam_fatal := cam_fatal c \<or> length ds < length (sr_buffers r)\<rparr>,
          deliver V E (sr_frame r) err md (map (converted f) ds) (fold (fd_close E) cf k))"
    using f tm t(1,9) fo(2) by (simp add: result_locked_def deliver_def Let_def)
  ultimately show ?thesis using t by blast
qed

lemma result_locked_ok:
  assumes "cam_ok c"
  shows "\<exists>c' k'. result_locked V M E c r k = Some (c', k') \<and> cam_ok c'"
proof (cases "map_of (cam_frames c) (sr_frame r)")
  case None
  then show ?thesis using assms by (simp add: result_locked_def)
next
  case (Some f)
  obtain f1 err md where tm: "take_metadata V M f (sr_metadata r) = (f1, err, md)" by (metis prod_cases3)
  obtain f' ds cf where
    "result_locked V M E c r k = Some (c\<lparr>cam_frames := modify_key (sr_frame r) (\<lambda>_. f') (cam_frames c),
        cam_fatal := cam_fatal c \<or> length ds < length (sr_buffers r)\<rparr>,
      deliver V E (sr_frame r) err md (map (converted f) ds) (fold (fd_close E) cf k))" "frame_ok (cam_streams c) f'"
    using result_locked_result [OF assms Some tm, of E k] by blast
  then show ?thesis using cam_ok_modify [OF assms, of "\<lambda>_. f'" "length ds < length (sr_buffers r)" "sr_frame r"] by simp
qed

lemma notify_locked_ok:
  assumes "cam_ok c" and "clientCallbacks c"
  shows "\<exists>c' k'. notify_locked V E c msg k = Some (c', k') \<and> cam_ok c'"
proof (cases msg)
  case (Shutter n)
  then show ?thesis using assms cam_ok_modify [OF assms(1), of "\<lambda>f. f\<lparr>fr_shutterDone := True\<rparr>" False n] by (simp add: notify_locked_def)
next
  case (Error_msg n code st)
  then show ?thesis using assms(2) cam_ok_modify [OF assms(1)] by (simp add: notify_locked_def Let_def)
next
  case (Other_msg t)
  then show ?thesis using assms by (simp add: notify_locked_def)
qed

text \<open>
  (C17) What a result of the vendor delivers: handling it for a frame in flight has no undefined behaviour and passes
  on exactly the pending buffers of that frame that it returns, each once, as the client's own buffers with the vendor's status and
  fence; a buffer is left out only if none is pending that it could be. Every release fence is either passed on or closed. The frame is retired exactly when
  no buffer is pending any more and its metadata and its shutter message are done, and a buffer that does not belong to the frame makes the
  device unusable.
\<close>

theorem result_delivers:
  assumes ok: "cam_ok c" and f: "map_of (cam_frames c) (sr_frame r) = Some f" and tm: "take_metadata V M f (sr_metadata r) = (f1, err, md)"
  shows "\<exists>c' ds closed_fences rest. cam_result V M E c r k
      = Some (c', deliver V E (sr_frame r) err md (map (converted f) ds) (fold (fd_close E) closed_fences k)) \<and> cam_ok c'
    \<and> accounts f (sr_buffers r) ds closed_fences \<and> rest = pending f - fst ` set ds
    \<and> (case map_of (cam_frames c') (sr_frame r) of
         None \<Rightarrow> rest = {} \<and> fr_metadataDone f1 \<and> fr_shutterDone f
       | Some f' \<Rightarrow> pending f' = rest \<and> \<not> (rest = {} \<and> fr_metadataDone f1 \<and> fr_shutterDone f))
    \<and> (\<forall>n. n \<noteq> sr_frame r \<longrightarrow> map_of (cam_frames c') n = map_of (cam_frames c) n)
    \<and> (cam_fatal c' \<longleftrightarrow> cam_fatal c \<or> length ds < length (sr_buffers r))"
proof -
  obtain f' ds cf where t: "result_locked V M E c r k
      = Some (c\<lparr>cam_frames := modify_key (sr_frame r) (\<lambda>_. f') (cam_frames c), cam_fatal := cam_fatal c \<or> length ds < length (sr_buffers r)\<rparr>,
          deliver V E (sr_frame r) err md (map (converted f) ds) (fold (fd_close E) cf k))"
    "accounts f (sr_buffers r) ds cf" "frame_ok (cam_streams c) f'" "pending f' = pending f - fst ` set ds"
    "fr_metadataDone f' = fr_metadataDone f1" "fr_shutterDone f' = fr_shutterDone f"
    using result_locked_result [OF ok f tm, of E k] by blast
  let ?c = "c\<lparr>cam_frames := modify_key (sr_frame r) (\<lambda>_. f') (cam_frames c), cam_fatal := cam_fatal c \<or> length ds < length (sr_buffers r)\<rparr>"
  have c: "cam_ok ?c" by (rule cam_ok_modify [OF ok]) (rule t(3))
  have get: "map_of (cam_frames ?c) n = (if n = sr_frame r then Some f' else map_of (cam_frames c) n)" for n
    using f by (simp add: map_of_modify option.map_ident)
  have er: "map_of (erase_key k m) n = (if n = k then None else map_of m n)" for k n and m :: "(nat \<times> 'a cam_frame) list"
    by (induction m) (auto simp: erase_key_def)
  have rem: "fr_remaining f' = 0 \<longleftrightarrow> pending f - fst ` set ds = {}" using remaining_pending [OF t(3)] t(4) by simp
  have ret: "retire ?c (sr_frame r) = (if pending f - fst ` set ds = {} \<and> fr_metadataDone f1 \<and> fr_shutterDone f
      then ?c\<lparr>cam_frames := erase_key (sr_frame r) (cam_frames ?c)\<rparr> else ?c)"
    unfolding retire_def get using rem t(5,6) by simp
  have "cam_result V M E c r k = Some (retire ?c (sr_frame r),
      deliver V E (sr_frame r) err md (map (converted f) ds) (fold (fd_close E) cf k))" using t(1) f by (simp add: cam_result_def)
  moreover have "cam_ok (retire ?c (sr_frame r))" by (rule retire_ok [OF c])
  moreover have "case map_of (cam_frames (retire ?c (sr_frame r))) (sr_frame r) of
         None \<Rightarrow> pending f - fst ` set ds = {} \<and> fr_metadataDone f1 \<and> fr_shutterDone f
       | Some f' \<Rightarrow> pending f' = pending f - fst ` set ds \<and> \<not> (pending f - fst ` set ds = {} \<and> fr_metadataDone f1 \<and> fr_shutterDone f)"
    using get [of "sr_frame r"] er t(4) unfolding ret by simp
  moreover have "\<forall>n. n \<noteq> sr_frame r \<longrightarrow> map_of (cam_frames (retire ?c (sr_frame r))) n = map_of (cam_frames c) n"
    using get er unfolding ret by simp
  moreover have "cam_fatal (retire ?c (sr_frame r)) \<longleftrightarrow> cam_fatal c \<or> length ds < length (sr_buffers r)" unfolding ret by simp
  ultimately show ?thesis using t(2) by blast
qed

end
