(* ===== verification/Cam_World.thy ===== *)
theory Cam_World
  imports Cam_Props
begin

text \<open>
  The camera adapter in its world: the accounts of registered buffers and of open vendor devices balance over
  any sequence of requests and callbacks, and no step has undefined behaviour.
\<close>

section \<open>Accounts\<close>

text \<open>How often a handle is registered through the streams of a device, and which of the vendor's devices it holds.\<close>

definition holding :: "nat \<Rightarrow> cam_stream list \<Rightarrow> int" where
  "holding h ss = int (length (filter (\<lambda>s. h \<in> set (so_buffers s)) ss))"

definition holders :: "'m camera \<Rightarrow> nat \<Rightarrow> int" where
  "holders c h = holding h (map snd (cam_streams c))"

definition owned :: "'m camera \<Rightarrow> nat \<Rightarrow> int" where
  "owned c d = (if cam_vendor c = Some d then 1 else 0)"

lemma holding_simps [simp]:
  "holding h [] = 0" "holding h (s # ss) = (if h \<in> set (so_buffers s) then 1 else 0) + holding h ss"
  "holding h (as @ bs) = holding h as + holding h bs"
  by (simp_all add: holding_def)

lemma holding_empty: "\<forall>s \<in> set ss. so_buffers s = [] \<Longrightarrow> holding h ss = 0"
  by (induction ss) auto

text \<open>What callbacks leave alone.\<close>

definition device_kept :: "'m camera \<Rightarrow> 'm camera \<Rightarrow> bool" where
  "device_kept c c' \<longleftrightarrow> cam_streams c' = cam_streams c \<and> cam_vendor c' = cam_vendor c \<and> clientCallbacks c' = clientCallbacks c
     \<and> cam_closing c' = cam_closing c"

lemma device_kept_refl [simp]: "device_kept c c"
  by (simp add: device_kept_def)

lemma device_kept_trans: "device_kept a b \<Longrightarrow> device_kept b c \<Longrightarrow> device_kept a c"
  by (simp add: device_kept_def)

lemma same_accounts: "device_kept c c' \<Longrightarrow> holders c' = holders c \<and> owned c' = owned c"
  by (simp add: device_kept_def holders_def owned_def fun_eq_iff)

text \<open>What a checked request knows of its buffers.\<close>

definition known :: "'m camera \<Rightarrow> stream_buffer \<Rightarrow> bool" where
  "known c b \<longleftrightarrow> (\<exists>s h. map_of (cam_streams c) (sb_stream b) = Some s \<and> sb_buffer b = Some h)"

definition registered :: "'m camera \<Rightarrow> stream_buffer \<Rightarrow> bool" where
  "registered c b \<longleftrightarrow> (\<exists>s h. map_of (cam_streams c) (sb_stream b) = Some s \<and> sb_buffer b = Some h \<and> h \<in> set (so_buffers s))"

lemma check_buffers_result:
  "check_buffers c bs (keys, fresh) = Inr (keys', fresh') \<Longrightarrow>
   (fresh \<longrightarrow> fresh') \<and> (\<forall>b \<in> set bs. known c b \<and> (\<not> fresh' \<longrightarrow> registered c b))"
proof (induction bs arbitrary: keys fresh)
  case (Cons b bs)
  then obtain s h where b: "map_of (cam_streams c) (sb_stream b) = Some s" "sb_buffer b = Some h"
    and r: "check_buffers c bs (keys @ [sb_stream b], fresh \<or> h \<notin> set (so_buffers s)) = Inr (keys', fresh')"
    by (auto split: option.splits if_splits)
  show ?case using Cons.IH [OF r] b by (auto simp: known_def registered_def)
qed simp

lemma vendor_buffers_result:
  assumes "\<forall>b \<in> set bs. registered c b"
  shows "\<exists>vbs. vendor_buffers c bs = Some vbs \<and> length vbs = length bs \<and> (\<forall>n < length bs. buffer_ok (cam_streams c) (bs ! n) (vbs ! n))"
  using assms
proof (induction bs)
  case (Cons b bs)
  then obtain vbs where v: "vendor_buffers c bs = Some vbs" "length vbs = length bs"
    "\<forall>n < length bs. buffer_ok (cam_streams c) (bs ! n) (vbs ! n)" by auto
  obtain s h where b: "map_of (cam_streams c) (sb_stream b) = Some s" "sb_buffer b = Some h" "h \<in> set (so_buffers s)"
    using Cons.prems by (auto simp: registered_def)
  have "buffer_ok (cam_streams c) b (so_id s, h)" using b map_of_SomeD [OF b(1)] by (auto simp: buffer_ok_def)
  then have "\<forall>n < length (b # bs). buffer_ok (cam_streams c) ((b # bs) ! n) (((so_id s, h) # vbs) ! n)"
    using v(3) by (auto simp: nth_Cons split: nat.split)
  then show ?case using b v by simp
qed simp

text \<open>A stream with one more buffer.\<close>

definition add_buffer :: "nat \<Rightarrow> nat \<Rightarrow> 'm camera \<Rightarrow> 'm camera" where
  "add_buffer p h c = c\<lparr>cam_streams := modify_key p (\<lambda>s. s\<lparr>so_buffers := insort h (so_buffers s)\<rparr>) (cam_streams c)\<rparr>"

lemma map_of_add_buffer:
  "map_of (cam_streams (add_buffer p h c)) q
     = map_option (\<lambda>s. if q = p then s\<lparr>so_buffers := insort h (so_buffers s)\<rparr> else s) (map_of (cam_streams c) q)"
  by (simp add: add_buffer_def map_of_modify)

lemma add_buffer_known: "known (add_buffer p h c) b = known c b" "registered c b \<Longrightarrow> registered (add_buffer p h c) b"
proof -
  show "known (add_buffer p h c) b = known c b" by (auto simp: known_def map_of_add_buffer)
  assume "registered c b"
  then obtain s g where "map_of (cam_streams c) (sb_stream b) = Some s" "sb_buffer b = Some g" "g \<in> set (so_buffers s)"
    by (auto simp: registered_def)
  then show "registered (add_buffer p h c) b"
    by (cases "sb_stream b = p") (simp_all add: registered_def map_of_add_buffer set_insort_key)
qed

lemma modify_cons: "modify_key k f ((q, x) # m) = (q, if q = k then f x else x) # modify_key k f m"
  by (simp add: modify_key_def)

lemma add_buffer_ok:
  assumes ok: "cam_ok c" and fr: "cam_frames c = []" and s: "map_of (cam_streams c) p = Some s" and h: "h \<notin> set (so_buffers s)"
  shows "cam_ok (add_buffer p h c)" "holders (add_buffer p h c) = (holders c)(h := holders c h + 1)" "owned (add_buffer p h c) = owned c"
proof -
  have so: "streams_ok (cam_streams c) (next_id c)" using ok by (simp add: cam_ok_def)
  have one: "(q, x) \<in> set (cam_streams c) \<Longrightarrow> q = p \<Longrightarrow> x = s" for q x
    using so s by (metis eq_key_imp_eq_value map_of_SomeD streams_ok_def)
  have "streams_ok (cam_streams (add_buffer p h c)) (next_id c)"
  proof -
    have "map (\<lambda>e. so_id (snd e)) (modify_key p (\<lambda>s. s\<lparr>so_buffers := insort h (so_buffers s)\<rparr>) (cam_streams c))
        = map (\<lambda>e. so_id (snd e)) (cam_streams c)" by (simp add: modify_key_def split_beta)
    then show ?thesis using so h one by (auto simp: streams_ok_def add_buffer_def modify_set distinct_insort)
  qed
  then show "cam_ok (add_buffer p h c)" using ok fr by (auto simp: cam_ok_def add_buffer_def)
  have "holding g (map snd (modify_key p (\<lambda>s. s\<lparr>so_buffers := insort h (so_buffers s)\<rparr>) m))
      = holding g (map snd m) + (if g = h \<and> p \<in> fst ` set m then 1 else 0)"
    if "distinct (map fst m)" "\<forall>(q, x) \<in> set m. q = p \<longrightarrow> x = s" for g m
    using that
  proof (induction m)
    case (Cons e m)
    obtain q x where e: "e = (q, x)" by (cases e)
    have ih: "holding g (map snd (modify_key p (\<lambda>s. s\<lparr>so_buffers := insort h (so_buffers s)\<rparr>) m))
        = holding g (map snd m) + (if g = h \<and> p \<in> fst ` set m then 1 else 0)" using Cons by simp
    show ?case
    proof (cases "q = p")
      case True
      then have "x = s" "p \<notin> fst ` set m" using Cons.prems e by auto
      then show ?thesis using ih True h by (simp add: e modify_cons set_insort_key)
    next
      case False
      then show ?thesis using ih by (simp add: e modify_cons image_iff)
    qed
  qed (simp add: modify_key_def)
  moreover have "p \<in> fst ` set (cam_streams c)" using s by (force dest: map_of_SomeD)
  moreover have "distinct (map fst (cam_streams c))" "\<forall>(q, x) \<in> set (cam_streams c). q = p \<longrightarrow> x = s" using so one by (auto simp: streams_ok_def)
  ultimately show "holders (add_buffer p h c) = (holders c)(h := holders c h + 1)"
    by (auto simp: holders_def add_buffer_def fun_eq_iff)
  show "owned (add_buffer p h c) = owned c" by (simp add: owned_def add_buffer_def fun_eq_iff)
qed

text \<open>The new streams of a configuration: well formed and without buffers.\<close>

definition next_ok :: "next_streams \<Rightarrow> bool" where
  "next_ok = (\<lambda>(nxt, vs, processed, jpeg, ident). streams_ok nxt ident \<and> (\<forall>e \<in> set nxt. so_buffers (snd e) = []))"

lemma emplace_streams_ok:
  assumes "streams_ok m n" and "p \<notin> fst ` set m" and "so_client s = p" "so_id s = n" "distinct (so_buffers s)"
  shows "streams_ok (emplace p s m) (Suc n)"
proof -
  have "distinct (map (\<lambda>e. so_id (snd e)) (insort_key fst (p, s) l)) \<longleftrightarrow> so_id s \<notin> (\<lambda>e. so_id (snd e)) ` set l \<and> distinct (map (\<lambda>e. so_id (snd e)) l)"
    for l :: "(nat \<times> cam_stream) list" by (induction l) (auto simp: set_insort_key)
  moreover have "so_id s \<notin> (\<lambda>e. so_id (snd e)) ` set m" using assms(1,4) by (fastforce simp: streams_ok_def)
  ultimately show ?thesis using assms emplace_distinct [of m p s] by (auto simp: streams_ok_def emplace_def set_insort_key)
qed

lemma adopt_ok:
  assumes "streams_ok m n"
  shows "streams_ok (map (\<lambda>(p, s). (p, adopt_stream ch s)) m) n"
proof -
  let ?m = "map (\<lambda>(p, s). (p, adopt_stream ch s)) m"
  have keys: "map fst ?m = map fst m" "map (\<lambda>e. so_id (snd e)) ?m = map (\<lambda>e. so_id (snd e)) m"
    by (auto simp: adopt_stream_def)
  have "\<forall>(p, s) \<in> set ?m. so_client s = p \<and> distinct (so_buffers s) \<and> so_id s < n"
    using assms by (auto simp: streams_ok_def adopt_stream_def)
  then show ?thesis using assms unfolding streams_ok_def keys by blast
qed

lemma streams_ok_mono: "streams_ok m n \<Longrightarrow> n \<le> n' \<Longrightarrow> streams_ok m n'"
  by (fastforce simp: streams_ok_def)

section \<open>Sessions\<close>

text \<open>The calls of the framework, the callbacks of the vendor and the client's writes to its stream structures.\<close>

datatype 'm cam_call =
    Initialize bool
  | Configure "(nat option list \<times> int) option"
  | Default_request int
  | Capture "'m callback list" "'m callback list" "'m capture_request option"
  | Flush "'m callback list"
  | Callback "'m callback"
  | Client_writes nat camera3_stream
  | Close

text \<open>After \<^verbatim>\<open>close\<close> the device is gone and nothing happens any more.\<close>

definition cam_step ::
  "camera_h \<Rightarrow> 'm meta_lib \<Rightarrow> ('m, 'k) cam_env \<Rightarrow> 'm cam_call \<Rightarrow> 'm camera \<times> 'k \<Rightarrow> ('m camera \<times> 'k) option" where
  "cam_step V M E call = (\<lambda>(c, k).
     if cam_closing c then Some (c, k)
     else case call of
       Initialize client \<Rightarrow> map_option (\<lambda>((_, c1), k1). (c1, k1)) (initialize E c client k)
     | Configure config \<Rightarrow> map_option (\<lambda>((_, c1), k1). (c1, k1)) (configure V M E c config k)
     | Default_request type \<Rightarrow> (case defaultRequest V M E c type k of ((_, c1), k1) \<Rightarrow> Some (c1, k1))
     | Capture draining during request \<Rightarrow> map_option (\<lambda>((_, c1), k1). (c1, k1)) (capture V M E draining during c request k)
     | Flush during \<Rightarrow> map_option (\<lambda>((_, c1), k1). (c1, k1)) (cam_flush V M E during c k)
     | Callback cb \<Rightarrow> run_callback V M E cb (c, k)
     | Client_writes p s \<Rightarrow> Some (c\<lparr>client_mem := (client_mem c)(p := s)\<rparr>, k)
     | Close \<Rightarrow> (case cam_close E c k of ((_, c1), k1) \<Rightarrow> Some (c1, k1)))"

text \<open>
  What the adapter relies on of its world, and how each call changes the accounts \<open>b\<close> of registrations and \<open>d\<close> of
  open devices, which \<open>L\<close> reads off its state.
\<close>

locale cam_world =
  fixes E :: "('m, 'k) cam_env"
    and L :: "'k \<Rightarrow> (nat \<Rightarrow> int) \<Rightarrow> (nat \<Rightarrow> int) \<Rightarrow> bool"
  assumes new_L: "L k b d \<Longrightarrow> L (snd (ce_new E k)) b d"
    and open_L: "L k b d \<Longrightarrow> vn_open E nm k = ((r, v), k') \<Longrightarrow>
      L k' b (case v of Some x \<Rightarrow> if r = 0 then d(vd_id x := d (vd_id x) + 1) else d | None \<Rightarrow> d)"
    and close_L: "L k b d \<Longrightarrow> L (snd (vn_close E i k)) b (d(i := d i - 1))"
    and initialize_L: "L k b d \<Longrightarrow> L (snd (vn_initialize E i k)) b d"
    and configure_L: "L k b d \<Longrightarrow> L (snd (vn_configure E i ss k)) b d"
    and vn_register_L: "L k b d \<Longrightarrow> L (snd (vn_register E i j hs k)) b d"
    and default_L: "L k b d \<Longrightarrow> L (snd (vn_default E i t k)) b d"
    and capture_L: "L k b d \<Longrightarrow> L (snd (vn_capture E i n st vbs k)) b d"
    and gr_register_L: "L k b d \<Longrightarrow> gr_register E h k = (r, k') \<Longrightarrow> L k' (if r = 0 then b(h := b h + 1) else b) d"
    and gr_unregister_L: "L k b d \<Longrightarrow> L (gr_unregister E h k) (b(h := b h - 1)) d"
    and notify_L: "L k b d \<Longrightarrow> L (cl_notify E msg k) b d"
    and result_L: "L k b d \<Longrightarrow> L (cl_result E n md bufs k) b d"
    and fd_L: "L k b d \<Longrightarrow> L (fd_close E x k) b d"
begin

definition cam_inv :: "'m camera \<Rightarrow> 'k \<Rightarrow> bool" where
  "cam_inv c k \<longleftrightarrow> cam_ok c \<and> L k (holders c) (owned c)"

lemma fds_L: "L k b d \<Longrightarrow> L (fold (fd_close E) xs k) b d"
  by (induction xs arbitrary: k) (simp_all add: fd_L)

lemma deliver_L: "L k b d \<Longrightarrow> L (deliver V E n err md bufs k) b d"
  by (simp add: deliver_def Let_def notify_L result_L)

lemma unregister_all_L: "L k b d \<Longrightarrow> distinct hs \<Longrightarrow> L (fold (gr_unregister E) hs k) (\<lambda>h. b h - (if h \<in> set hs then 1 else 0)) d"
proof (induction hs arbitrary: k b)
  case (Cons h hs)
  have "L (gr_unregister E h k) (b(h := b h - 1)) d" by (rule gr_unregister_L [OF Cons.prems(1)])
  from Cons.IH [OF this] have "L (fold (gr_unregister E) (h # hs) k) (\<lambda>x. (b(h := b h - 1)) x - (if x \<in> set hs then 1 else 0)) d"
    using Cons.prems(2) by simp
  moreover have "(\<lambda>x. (b(h := b h - 1)) x - (if x \<in> set hs then 1 else 0)) = (\<lambda>x. b x - (if x \<in> set (h # hs) then 1 else 0))"
    using Cons.prems(2) by (auto simp: fun_eq_iff)
  ultimately show ?case by simp
qed simp

lemma destroy_L:
  "L k b d \<Longrightarrow> \<forall>s \<in> set ss. distinct (so_buffers s) \<Longrightarrow> L (destroy_streams E ss k) (\<lambda>h. b h - holding h ss) d"
proof (induction ss arbitrary: k b)
  case (Cons s ss)
  have "L (fold (gr_unregister E) (so_buffers s) k) (\<lambda>h. b h - (if h \<in> set (so_buffers s) then 1 else 0)) d"
    by (rule unregister_all_L) (use Cons.prems in simp_all)
  from Cons.IH [OF this] have "L (destroy_streams E (s # ss) k) (\<lambda>h. b h - (if h \<in> set (so_buffers s) then 1 else 0) - holding h ss) d"
    using Cons.prems by (simp add: destroy_streams_def)
  then show ?case by (simp add: algebra_simps)
qed (simp add: destroy_streams_def)

lemma cam_inv_same: "L k (holders c) (owned c) \<Longrightarrow> cam_ok c' \<Longrightarrow> device_kept c c' \<Longrightarrow> cam_inv c' k"
  by (simp add: cam_inv_def same_accounts)

lemma run_callback_inv:
  assumes inv: "cam_inv c k"
  shows "\<exists>c' k'. run_callback V M E cb (c, k) = Some (c', k') \<and> cam_inv c' k' \<and> device_kept c c'"
proof (cases "clientCallbacks c")
  case False
  then show ?thesis using inv by (simp add: run_callback_def)
next
  case cb: True
  have ok: "cam_ok c" and LK: "L k (holders c) (owned c)" using inv by (simp_all add: cam_inv_def)
  show ?thesis
  proof (cases cb)
    case (On_result r)
    show ?thesis
    proof (cases "map_of (cam_frames c) (sr_frame r)")
      case None
      then show ?thesis using On_result cb ok fds_L [OF LK] by (simp add: run_callback_def result_locked_def cam_inv_def)
    next
      case (Some f)
      obtain f1 err md where tm: "take_metadata V M f (sr_metadata r) = (f1, err, md)" by (metis prod_cases3)
      obtain f' ds cf where r: "result_locked V M E c r k
          = Some (c\<lparr>cam_frames := modify_key (sr_frame r) (\<lambda>_. f') (cam_frames c), cam_fatal := cam_fatal c \<or> length ds < length (sr_buffers r)\<rparr>,
              deliver V E (sr_frame r) err md (map (converted f) ds) (fold (fd_close E) cf k))" "frame_ok (cam_streams c) f'"
        using result_locked_result [OF ok Some tm, of E k] by blast
      let ?c = "c\<lparr>cam_frames := modify_key (sr_frame r) (\<lambda>_. f') (cam_frames c), cam_fatal := cam_fatal c \<or> length ds < length (sr_buffers r)\<rparr>"
      have "cam_ok ?c" by (rule cam_ok_modify [OF ok]) (rule r(2))
      moreover have s: "device_kept c ?c" by (simp add: device_kept_def)
      ultimately have "cam_inv ?c (deliver V E (sr_frame r) err md (map (converted f) ds) (fold (fd_close E) cf k))"
        using cam_inv_same deliver_L [OF fds_L [OF LK]] by blast
      then show ?thesis using On_result cb r(1) s by (simp add: run_callback_def)
    qed
  next
    case (On_notify msg)
    obtain c' k' where n: "notify_locked V E c msg k = Some (c', k')" "cam_ok c'" using notify_locked_ok [OF ok cb, of V E msg k] by blast
    have "device_kept c c' \<and> L k' (holders c) (owned c)"
      using n(1) cb notify_L [OF LK] by (auto simp: notify_locked_def device_kept_def Let_def split: notify_msg.splits)
    then show ?thesis using On_notify cb n cam_inv_same by (auto simp: run_callback_def)
  next
    case (On_retire n)
    have s: "device_kept c (retire c n)" by (simp add: device_kept_def retire_def split: option.split)
    then show ?thesis using On_retire cb cam_inv_same [OF LK retire_ok [OF ok] s] by (simp add: run_callback_def)
  qed
qed

lemma run_callbacks_inv:
  "cam_inv c k \<Longrightarrow> \<exists>c' k'. run_steps (run_callback V M E) cbs (c, k) = Some (c', k') \<and> cam_inv c' k' \<and> device_kept c c'"
proof (induction cbs arbitrary: c k)
  case (Cons cb cbs)
  obtain c1 k1 where 1: "run_callback V M E cb (c, k) = Some (c1, k1)" "cam_inv c1 k1" "device_kept c c1"
    using run_callback_inv [OF Cons.prems] by blast
  then show ?case using Cons.IH [OF 1(2)] device_kept_trans by fastforce
qed simp

lemma drain_inv:
  assumes "cam_inv c k"
  shows "\<exists>r c' k'. drain V M E during c k = Some ((r, c'), k') \<and> cam_inv c' k' \<and> device_kept c c'
    \<and> (r = 0 \<longrightarrow> cam_frames c' = [] \<and> \<not> cam_fatal c')"
proof -
  obtain c1 k1 where "run_steps (run_callback V M E) during (c, k) = Some (c1, k1)" "cam_inv c1 k1" "device_kept c c1"
    using run_callbacks_inv [OF assms] by blast
  then show ?thesis by (simp add: drain_def)
qed

lemma register_new_inv:
  "cam_inv c k \<Longrightarrow> cam_frames c = [] \<Longrightarrow> cam_vendor c = Some d \<Longrightarrow> clientCallbacks c \<Longrightarrow> \<forall>b \<in> set bs. known c b \<Longrightarrow>
   \<exists>r c' k'. register_new E c bs k = Some ((r, c'), k') \<and> cam_inv c' k' \<and> cam_vendor c' = Some d \<and> clientCallbacks c'
     \<and> cam_closing c' = cam_closing c \<and> cam_frames c' = [] \<and> (\<forall>b. registered c b \<longrightarrow> registered c' b)
     \<and> (r = 0 \<longrightarrow> cam_fatal c' = cam_fatal c \<and> (\<forall>b \<in> set bs. registered c' b))"
proof (induction bs arbitrary: c k)
  case (Cons b bs)
  obtain s h where b: "map_of (cam_streams c) (sb_stream b) = Some s" "sb_buffer b = Some h"
    using Cons.prems(5) by (auto simp: known_def)
  have ok: "cam_ok c" and LK: "L k (holders c) (owned c)" using Cons.prems(1) by (simp_all add: cam_inv_def)
  show ?case
  proof (cases "h \<in> set (so_buffers s)")
    case True
    then have "registered c b" using b by (simp add: registered_def)
    then show ?thesis using Cons True b by fastforce
  next
    case new: False
    obtain r k1 where g: "gr_register E h k = (r, k1)" by (metis prod.exhaust)
    note L1 = gr_register_L [OF LK g]
    show ?thesis
    proof (cases "r = 0")
      case False
      then show ?thesis using b new g L1 ok Cons.prems by (simp add: cam_inv_def)
    next
      case r: True
      obtain okn k2 where n: "ce_new E k1 = (okn, k2)" by (metis prod.exhaust)
      have L2: "L k2 ((holders c)(h := holders c h + 1)) (owned c)" using new_L [OF L1] n r by simp
      show ?thesis
      proof (cases okn)
        case False
        have "L (gr_unregister E h k2) (holders c) (owned c)" using gr_unregister_L [OF L2, of h] by simp
        then show ?thesis using b new g r n False ok Cons.prems by (simp add: cam_inv_def)
      next
        case True
        let ?c1 = "add_buffer (sb_stream b) h c"
        note a = add_buffer_ok [OF ok Cons.prems(2) b(1) new]
        have c1: "c\<lparr>cam_streams := modify_key (sb_stream b) (\<lambda>_. s\<lparr>so_buffers := insort h (so_buffers s)\<rparr>) (cam_streams c)\<rparr> = ?c1"
        proof -
          have "distinct (map fst (cam_streams c))" using ok by (simp add: cam_ok_def streams_ok_def)
          then have "(q, x) \<in> set (cam_streams c) \<Longrightarrow> q = sb_stream b \<Longrightarrow> x = s" for q x
            using b(1) by (metis eq_key_imp_eq_value map_of_SomeD)
          then show ?thesis by (auto simp: add_buffer_def modify_key_def intro!: arg_cong [of _ _ "\<lambda>m. c\<lparr>cam_streams := m\<rparr>"])
        qed
        obtain r2 k3 where v: "vn_register E d (so_id s) (insort h (so_buffers s)) k2 = (r2, k3)" by (metis prod.exhaust)
        have L3: "L k3 (holders ?c1) (owned ?c1)" using vn_register_L [OF L2, of d "so_id s" "insort h (so_buffers s)"] v a(2,3) by simp
        have step: "register_new E c (b # bs) k = (if r2 \<noteq> 0 then Some ((r2, ?c1\<lparr>cam_fatal := True\<rparr>), k3) else register_new E ?c1 bs k3)"
          using b new g r n True Cons.prems(3) v c1 by (simp add: Let_def)
        have f: "cam_frames ?c1 = []" "cam_vendor ?c1 = Some d" "clientCallbacks ?c1" "cam_closing ?c1 = cam_closing c" "cam_fatal ?c1 = cam_fatal c"
          using Cons.prems by (simp_all add: add_buffer_def)
        have reg: "registered ?c1 b" using b by (simp add: registered_def map_of_add_buffer set_insort_key)
        show ?thesis
        proof (cases "r2 = 0")
          case True
          have "cam_inv ?c1 k3" using a(1) L3 by (simp add: cam_inv_def)
          from Cons.IH [OF this f(1-3)] show ?thesis
            using step True f reg Cons.prems(5) add_buffer_known(1) [of "sb_stream b" h c] add_buffer_known(2) [of c _ "sb_stream b" h]
            by fastforce
        next
          case False
          have "cam_ok (?c1\<lparr>cam_fatal := True\<rparr>)" using a(1) f by (simp add: cam_ok_def)
          moreover have "L k3 (holders (?c1\<lparr>cam_fatal := True\<rparr>)) (owned (?c1\<lparr>cam_fatal := True\<rparr>))"
            using L3 same_accounts [of ?c1 "?c1\<lparr>cam_fatal := True\<rparr>"] by (simp add: device_kept_def)
          moreover have "registered c x \<Longrightarrow> registered (?c1\<lparr>cam_fatal := True\<rparr>) x" for x
            using add_buffer_known(2) [of c x "sb_stream b" h] by (simp add: registered_def)
          ultimately show ?thesis using step False f by (simp add: cam_inv_def)
        qed
      qed
    qed
  qed
qed simp

lemma submit_inv:
  assumes inv: "cam_inv c k" and d: "cam_vendor c = Some d" and cb: "clientCallbacks c" and reg: "\<forall>b \<in> set bufs. registered c b"
  shows "\<exists>r c' k'. submit V M E during c number settings bufs k = Some ((r, c'), k') \<and> cam_inv c' k'"
proof -
  have ok: "cam_ok c" and LK: "L k (holders c) (owned c)" using inv by (simp_all add: cam_inv_def)
  obtain vbs where v: "vendor_buffers c bufs = Some vbs" "length vbs = length bufs"
    "\<forall>n < length bufs. buffer_ok (cam_streams c) (bufs ! n) (vbs ! n)" using vendor_buffers_result [OF reg] by blast
  define f where "f = \<lparr>fr_settings = (case settings of None \<Rightarrow> md_new M | Some s \<Rightarrow> s), fr_partials = md_new M, fr_clientBuffers = bufs,
      fr_vendorBuffers = vbs, fr_returned = replicate (length bufs) False, fr_remaining = length bufs,
      fr_metadataDone = False, fr_shutterDone = False\<rparr>"
  have "frame_ok (cam_streams c) f" using v by (simp add: frame_ok_def f_def)
  let ?c1 = "c\<lparr>cam_frames := emplace number f (cam_frames c)\<rparr>"
  have ok1: "cam_ok ?c1" using ok cb \<open>frame_ok (cam_streams c) f\<close> by (auto simp: cam_ok_def emplace_distinct emplace_set split: if_splits)
  obtain r k1 where vc: "vn_capture E d number settings vbs k = (r, k1)" by (metis prod.exhaust)
  have "L k1 (holders c) (owned c)" using capture_L [OF LK] vc by (metis snd_conv)
  then have "cam_inv ?c1 k1" by (rule cam_inv_same) (use ok1 in \<open>simp_all add: device_kept_def\<close>)
  from run_callbacks_inv [OF this, of V M during] obtain c2 k2 where
    c2: "run_steps (run_callback V M E) during (?c1, k1) = Some (c2, k2)" "cam_inv c2 k2" by blast
  let ?c3 = "c2\<lparr>cam_frames := erase_key number (cam_frames c2)\<rparr>"
  have "cam_ok ?c3" using c2(2) by (auto simp: cam_inv_def cam_ok_def erase_keys erase_set) (auto simp: erase_key_def)
  then have "cam_inv ?c3 k2" using cam_inv_same [of k2 c2 ?c3] c2(2) by (simp add: cam_inv_def device_kept_def)
  moreover have "submit V M E during c number settings bufs k = Some ((r, if r \<noteq> 0 then ?c3 else c2), k2)"
    using v(1) d vc c2(1) by (simp add: submit_def f_def Let_def)
  ultimately show ?thesis using c2(2) by simp
qed

lemma request_settings_inv:
  assumes "cam_inv c k" and "request_settings V M c st = (res, c')"
  shows "cam_inv c' k" "device_kept c c'" "\<forall>b. registered c' b = registered c b"
proof -
  have f: "\<exists>a e l. c' = c\<lparr>afTriggerId := a, aeTriggerId := e, lastSettings := l\<rparr>"
  proof -
    have "c' = c\<lparr>afTriggerId := afTriggerId c', aeTriggerId := aeTriggerId c', lastSettings := lastSettings c'\<rparr>"
      using assms(2) by (auto simp: request_settings_def Let_def split: option.splits prod.splits if_splits)
    then show ?thesis by blast
  qed
  then show s: "device_kept c c'" "\<forall>b. registered c' b = registered c b" by (auto simp: device_kept_def registered_def)
  have "cam_ok c'" using assms(1) f by (auto simp: cam_inv_def cam_ok_def)
  then show "cam_inv c' k" using cam_inv_same assms(1) s(1) by (auto simp: cam_inv_def)
qed

lemma capture_go_inv:
  assumes inv: "cam_inv c k" and go: "request = Some rq" "rq_output rq = Some bufs" "\<not> rq_input rq" "bufs \<noteq> []"
    "\<not> cam_fatal c" "\<not> cam_closing c" "clientCallbacks c" "map_of (cam_frames c) (rq_frame rq) = None"
    "check_buffers c bufs ([], False) = Inr (keys, newBuffer)"
  shows "\<exists>r c' k'. capture V M E draining during c request k = Some ((r, c'), k') \<and> cam_inv c' k'"
proof -
  note known = check_buffers_result [OF go(9)]
  have vd: "cam_vendor c \<noteq> None" using inv go by (auto simp: cam_inv_def cam_ok_def)
  obtain r1 c1 k1 where 1: "(if newBuffer then drain V M E draining c k else Some ((0, c), k)) = Some ((r1, c1), k1)"
    "cam_inv c1 k1" "device_kept c c1" "newBuffer \<and> r1 = 0 \<longrightarrow> cam_frames c1 = [] \<and> \<not> cam_fatal c1"
    using drain_inv [OF inv, of V M draining] inv by (cases newBuffer) auto
  have s1: "cam_vendor c1 = cam_vendor c" "clientCallbacks c1" "known c1 b = known c b" "registered c1 b = registered c b" for b
    using 1(3) go by (simp_all add: device_kept_def known_def registered_def)
  show ?thesis
  proof (cases "r1 = 0")
    case False
    then show ?thesis using go 1 by (simp add: capture_def)
  next
    case r1: True
    obtain d where d: "cam_vendor c1 = Some d" using vd s1(1) by auto
    obtain r2 c2 k2 where 2: "(if newBuffer then register_new E c1 bufs k1 else Some ((0, c1), k1)) = Some ((r2, c2), k2)"
      "cam_inv c2 k2" "cam_vendor c2 = Some d" "clientCallbacks c2" "r2 = 0 \<longrightarrow> (\<forall>b \<in> set bufs. registered c2 b)"
    proof (cases newBuffer)
      case True
      then show ?thesis using register_new_inv [OF 1(2) _ d s1(2), of bufs] 1(4) r1 known s1(3) that by fastforce
    next
      case False
      then show ?thesis using that [of 0 c1 k1] 1(2) d s1(2,4) known by simp
    qed
    show ?thesis
    proof (cases "r2 = 0")
      case False
      then show ?thesis using go 1 r1 2 by (simp add: capture_def)
    next
      case r2: True
      show ?thesis
      proof (cases "rq_settings rq")
        case None
        then have "capture V M E draining during c request k = (if md_isEmpty M (lastSettings c2) then Some ((- EINVAL, c2), k2)
            else submit V M E during c2 (rq_frame rq) None bufs k2)" using go 1 r1 2 r2 by (simp add: capture_def)
        then show ?thesis using submit_inv [OF 2(2-4), of bufs V M during "rq_frame rq" None] 2 r2 by simp
      next
        case (Some st)
        obtain res c3 where rs: "request_settings V M c2 st = (res, c3)" by (metis prod.exhaust)
        note 3 = request_settings_inv [OF 2(2) rs]
        have v3: "cam_vendor c3 = Some d" "clientCallbacks c3" "\<forall>b \<in> set bufs. registered c3 b"
          using 3 2 r2 by (simp_all add: device_kept_def)
        have "capture V M E draining during c request k = (case res of Inl e \<Rightarrow> Some ((e, c3), k2)
            | Inr s \<Rightarrow> submit V M E during c3 (rq_frame rq) (Some s) bufs k2)"
          using go 1 r1 2 r2 Some rs by (simp add: capture_def split: sum.split)
        then show ?thesis using submit_inv [OF 3(1) v3] 3(1) by (auto split: sum.split)
      qed
    qed
  qed
qed

lemma capture_inv:
  assumes inv: "cam_inv c k"
  shows "\<exists>r c' k'. capture V M E draining during c request k = Some ((r, c'), k') \<and> cam_inv c' k'"
proof (cases "\<exists>rq bufs. request = Some rq \<and> rq_output rq = Some bufs \<and> \<not> rq_input rq \<and> bufs \<noteq> [] \<and> \<not> cam_fatal c
    \<and> \<not> cam_closing c \<and> clientCallbacks c \<and> map_of (cam_frames c) (rq_frame rq) = None")
  case False
  then have "\<exists>e. capture V M E draining during c request k = Some ((e, c), k)" by (auto simp: capture_def split: option.splits)
  then show ?thesis using inv by blast
next
  case True
  then obtain rq bufs where go: "request = Some rq" "rq_output rq = Some bufs" "\<not> rq_input rq" "bufs \<noteq> []"
    "\<not> cam_fatal c" "\<not> cam_closing c" "clientCallbacks c" "map_of (cam_frames c) (rq_frame rq) = None" by blast
  show ?thesis
  proof (cases "check_buffers c bufs ([], False)")
    case (Inl e)
    then have "capture V M E draining during c request k = Some ((e, c), k)" using go by (simp add: capture_def)
    then show ?thesis using inv by blast
  next
    case (Inr x)
    obtain keys newBuffer where "x = (keys, newBuffer)" by (cases x)
    then show ?thesis using capture_go_inv [OF inv go] Inr by blast
  qed
qed

lemma next_stream_L:
  assumes acc: "next_ok acc" and LK: "L k b d"
  shows "case next_stream V E c q acc k of (res, k') \<Rightarrow> L k' b d \<and> (case res of Inl e \<Rightarrow> e \<noteq> 0
     | Inr acc' \<Rightarrow> next_ok acc' \<and> snd (snd (snd (snd acc))) \<le> snd (snd (snd (snd acc'))))"
proof -
  obtain nxt vs pr jp ident where a: "acc = (nxt, vs, pr, jp, ident)" by (metis prod_cases5)
  show ?thesis
  proof (cases "\<exists>p x. q = Some p \<and> admit_stream V c nxt p pr jp = Some x")
    case False
    then show ?thesis using LK by (auto simp: next_stream_def a split: option.split)
  next
    case True
    then obtain p pr1 jp1 where q: "q = Some p" "admit_stream V c nxt p pr jp = Some (pr1, jp1)" by auto
    have p: "p \<notin> fst ` set nxt" using q(2) by (auto simp: admit_stream_def Let_def split: if_splits)
    obtain okn k1 where n: "ce_new E k = (okn, k1)" by (metis prod.exhaust)
    have L1: "L k1 b d" using new_L [OF LK] n by simp
    let ?s = "\<lparr>so_id = ident, so_legacy = client_mem c p, so_client = p, so_buffers = []\<rparr>"
    have "streams_ok (emplace p ?s nxt) (Suc ident)" by (rule emplace_streams_ok) (use acc p a in \<open>simp_all add: next_ok_def\<close>)
    then show ?thesis using q n L1 acc by (auto simp: next_stream_def a next_ok_def emplace_set Let_def)
  qed
qed

lemma next_loop_L:
  "next_ok acc \<Longrightarrow> L k b d \<Longrightarrow> case next_loop V E c ps acc k of (res, k') \<Rightarrow> L k' b d \<and> (case res of Inl e \<Rightarrow> e \<noteq> 0
     | Inr acc' \<Rightarrow> next_ok acc' \<and> snd (snd (snd (snd acc))) \<le> snd (snd (snd (snd acc'))))"
proof (induction ps arbitrary: acc k)
  case (Cons q ps)
  obtain res k1 where n: "next_stream V E c q acc k = (res, k1)" by (metis prod.exhaust)
  note s = next_stream_L [OF Cons.prems, of V c q, unfolded n prod.case]
  show ?case
  proof (cases res)
    case (Inl e)
    then show ?thesis using n s by simp
  next
    case (Inr acc1)
    have "next_ok acc1" "L k1 b d" using s Inr by simp_all
    from Cons.IH [OF this] show ?thesis using n s Inr by (auto split: sum.splits)
  qed
qed simp

lemma reopen_L:
  assumes inv: "cam_inv c k" and r: "reopenVendor V E c k = ((r, c'), k')"
  shows "\<exists>v. c' = c\<lparr>cam_vendor := v\<rparr> \<and> L k' (holders c) (owned c') \<and> (r = 0 \<longrightarrow> v \<noteq> None)"
proof -
  have LK: "L k (holders c) (owned c)" using inv by (simp add: cam_inv_def)
  show ?thesis
  proof (cases "stock_module E")
    case False
    then show ?thesis using r LK by (auto simp: reopenVendor_def intro!: exI [of _ "cam_vendor c"])
  next
    case True
    define k1 where "k1 = (case cam_vendor c of None \<Rightarrow> k | Some d \<Rightarrow> snd (vn_close E d k))"
    have none: "owned (c\<lparr>cam_vendor := None\<rparr>) = (\<lambda>_. 0)" by (simp add: owned_def fun_eq_iff)
    have L1: "L k1 (holders c) (\<lambda>_. 0)"
    proof (cases "cam_vendor c")
      case None
      then have "owned c = (\<lambda>_. 0)" by (simp add: owned_def fun_eq_iff)
      then show ?thesis using LK None by (simp add: k1_def)
    next
      case (Some d)
      then have "(owned c)(d := owned c d - 1) = (\<lambda>_. 0)" by (auto simp: owned_def fun_eq_iff)
      then show ?thesis using close_L [OF LK, of d] Some by (simp add: k1_def)
    qed
    obtain res opened k2 where o: "vn_open E (deviceName c) k1 = ((res, opened), k2)" by (metis prod.exhaust)
    note L2 = open_L [OF L1 o]
    show ?thesis
    proof (cases "\<exists>x. opened = Some x \<and> res = 0")
      case False
      then have "r \<noteq> 0" "c' = c\<lparr>cam_vendor := None\<rparr>" "k' = k2"
        using r True o by (auto simp: reopenVendor_def k1_def [symmetric] Let_def split: option.splits if_splits)
      moreover have "L k2 (holders c) (\<lambda>_. 0)" using L2 False by (auto split: option.splits)
      ultimately show ?thesis using none by auto
    next
      case x: True
      then obtain x where x: "opened = Some x" "res = 0" by blast
      have L2': "L k2 (holders c) ((\<lambda>_. 0)(vd_id x := 1))" using L2 x by simp
      have closed: "L (snd (vn_close E (vd_id x) kk)) (holders c) (\<lambda>_. 0)" if "L kk (holders c) ((\<lambda>_. 0)(vd_id x := 1))" for kk
      proof -
        have "((\<lambda>_. 0)(vd_id x := 1))(vd_id x := ((\<lambda>_. 0)(vd_id x := 1)) (vd_id x) - 1) = (\<lambda>_. 0 :: int)" by (auto simp: fun_eq_iff)
        then show ?thesis using close_L [OF that, of "vd_id x"] by (simp only:)
      qed
      obtain ri k3 where i: "vn_initialize E (vd_id x) k2 = (ri, k3)" by (metis prod.exhaust)
      have L3: "L k3 (holders c) ((\<lambda>_. 0)(vd_id x := 1))" using initialize_L [OF L2', of "vd_id x"] i by simp
      have own: "owned (c\<lparr>cam_vendor := Some (vd_id x)\<rparr>) = (\<lambda>_. 0)(vd_id x := 1)" by (auto simp: owned_def fun_eq_iff)
      consider (ok) "r = 0" "c' = c\<lparr>cam_vendor := Some (vd_id x)\<rparr>" "k' = k3"
        | (bad) "r \<noteq> 0" "c' = c\<lparr>cam_vendor := None\<rparr>" "k' = snd (vn_close E (vd_id x) k2) \<or> k' = snd (vn_close E (vd_id x) k3)"
        using r True o x i by (auto simp: reopenVendor_def k1_def [symmetric] Let_def split: if_splits)
      then show ?thesis
      proof cases
        case ok
        then show ?thesis using L3 own by (intro exI [of _ "Some (vd_id x)"]) simp
      next
        case bad
        then have "L k' (holders c) (\<lambda>_. 0)" using closed [OF L2'] closed [OF L3] by auto
        then show ?thesis using bad none by auto
      qed
    qed
  qed
qed

lemma configure_vendor_inv:
  assumes inv: "cam_inv c k" and d: "cam_vendor c = Some d" and fr: "cam_frames c = []" and cb: "clientCallbacks c"
    and nxt: "streams_ok nxt (next_id c)" "\<forall>e \<in> set nxt. so_buffers (snd e) = []"
  shows "\<exists>r c' k'. configure_vendor M E c nxt vs k = Some ((r, c'), k') \<and> cam_inv c' k'"
proof -
  have ok: "cam_ok c" and LK: "L k (holders c) (owned c)" using inv by (simp_all add: cam_inv_def)
  obtain r ch k1 where v: "vn_configure E d (map (\<lambda>s. (so_id s, so_legacy s)) vs) k = ((r, ch), k1)" by (metis prod.exhaust)
  have L1: "L k1 (holders c) (owned c)" using configure_L [OF LK, of d "map (\<lambda>s. (so_id s, so_legacy s)) vs"] v by simp
  show ?thesis
  proof (cases "r = 0")
    case False
    have "cam_ok (give_up c nxt)" using ok nxt fr cb by (auto simp: give_up_def cam_ok_def)
    then have "cam_inv (give_up c nxt) k1" using cam_inv_same [OF L1] by (simp add: give_up_def device_kept_def)
    then show ?thesis using d v False by (simp add: configure_vendor_def)
  next
    case True
    let ?n = "map (\<lambda>(p, s). (p, adopt_stream ch s)) nxt"
    let ?c = "c\<lparr>client_mem := write_back ?n (client_mem c), cam_streams := ?n, lastSettings := md_new M\<rparr>"
    have "cam_ok ?c" using ok fr cb adopt_ok [OF nxt(1), of ch] by (auto simp: cam_ok_def)
    moreover have "\<forall>s \<in> set (map snd ?n). so_buffers s = []" using nxt(2) by (auto simp: adopt_stream_def)
    then have "holders ?c = (\<lambda>_. 0)" using holding_empty [of "map snd ?n"] by (simp add: holders_def fun_eq_iff)
    moreover have "\<forall>s \<in> set (map snd (cam_streams c)). distinct (so_buffers s)" using ok by (auto simp: cam_ok_def streams_ok_def)
    from destroy_L [OF L1 this] have "L (destroy_streams E (map snd (cam_streams c)) k1) (\<lambda>_. 0) (owned c)" by (simp add: holders_def)
    moreover have "owned ?c = owned c" by (simp add: owned_def fun_eq_iff)
    ultimately have "cam_inv ?c (destroy_streams E (map snd (cam_streams c)) k1)" by (simp add: cam_inv_def)
    then show ?thesis using d v True by (simp add: configure_vendor_def Let_def)
  qed
qed

lemma configure_inv:
  assumes inv: "cam_inv c k"
  shows "\<exists>r c' k'. configure V M E c config k = Some ((r, c'), k') \<and> cam_inv c' k'"
proof (cases "\<exists>ps mode. config = Some (ps, mode) \<and> ps \<noteq> [] \<and> mode = V ''CAMERA3_STREAM_CONFIGURATION_NORMAL_MODE''
    \<and> \<not> cam_fatal c \<and> \<not> cam_closing c \<and> clientCallbacks c \<and> cam_frames c = []")
  case False
  then have "\<exists>e. configure V M E c config k = Some ((e, c), k)" by (auto simp: configure_def split: option.splits)
  then show ?thesis using inv by blast
next
  case True
  then obtain ps where cfg: "config = Some (ps, V ''CAMERA3_STREAM_CONFIGURATION_NORMAL_MODE'')" "ps \<noteq> []"
    and st: "\<not> cam_fatal c" "\<not> cam_closing c" "clientCallbacks c" "cam_frames c = []" by blast
  have ok: "cam_ok c" and LK: "L k (holders c) (owned c)" using inv by (simp_all add: cam_inv_def)
  obtain res k1 where n: "next_loop V E c ps ([], [], 0, 0, next_id c) k = (res, k1)" by (metis prod.exhaust)
  have "next_ok ([], [], 0, 0, next_id c)" by (simp add: next_ok_def streams_ok_def)
  note nl = next_loop_L [OF this LK, of V c ps, unfolded n prod.case snd_conv]
  show ?thesis
  proof (cases res)
    case (Inl e)
    then show ?thesis using cfg st n nl ok by (simp add: configure_def cam_inv_def)
  next
    case (Inr acc)
    obtain nxt vs pr jp ident where a: "acc = (nxt, vs, pr, jp, ident)" by (metis prod_cases5)
    let ?c1 = "c\<lparr>next_id := ident\<rparr>"
    have nx: "streams_ok nxt ident" "\<forall>e \<in> set nxt. so_buffers (snd e) = []" "next_id c \<le> ident" and L1: "L k1 (holders c) (owned c)"
      using nl Inr a by (simp_all add: next_ok_def)
    have "cam_ok ?c1" using ok streams_ok_mono [OF _ nx(3)] by (simp add: cam_ok_def)
    then have inv1: "cam_inv ?c1 k1" using cam_inv_same [OF L1, of ?c1] by (simp add: device_kept_def)
    obtain d where d: "cam_vendor c = Some d" using ok st by (cases "cam_vendor c") (auto simp: cam_ok_def)
    show ?thesis
    proof (cases "cam_streams c \<noteq> [] \<and> processedGeometry V (client_mem c) (cam_streams c) \<noteq> processedGeometry V (client_mem c) nxt")
      case False
      then have "configure V M E c config k = configure_vendor M E ?c1 nxt vs k1" using cfg st n Inr a
        unfolding configure_def Let_def by (simp del: de_Morgan_conj)
      then show ?thesis using configure_vendor_inv [OF inv1, of d nxt M vs] d st nx by simp
    next
      case geo: True
      obtain r c2 k2 where r: "reopenVendor V E ?c1 k1 = ((r, c2), k2)" by (metis prod.exhaust)
      obtain v where v: "c2 = ?c1\<lparr>cam_vendor := v\<rparr>" "L k2 (holders ?c1) (owned c2)" "r = 0 \<longrightarrow> v \<noteq> None" using reopen_L [OF inv1 r] by blast
      have h: "holders c2 = holders ?c1" by (simp add: v(1) holders_def fun_eq_iff)
      have cf: "configure V M E c config k = (if r \<noteq> 0 then Some ((r, give_up c2 nxt), k2) else configure_vendor M E c2 nxt vs k2)"
        using cfg st n Inr a geo r by (simp add: configure_def Let_def)
      show ?thesis
      proof (cases "r = 0")
        case True
        then obtain d' where d': "v = Some d'" using v(3) by blast
        have "cam_ok c2" using \<open>cam_ok ?c1\<close> d' by (simp add: v(1) cam_ok_def)
        then have "cam_inv c2 k2" using v(2) h by (simp add: cam_inv_def)
        then show ?thesis using configure_vendor_inv [of c2 k2 d' nxt M vs] cf True d' st nx by (simp add: v(1))
      next
        case False
        have "cam_ok (give_up c2 nxt)" using \<open>cam_ok ?c1\<close> st nx by (auto simp: v(1) cam_ok_def give_up_def)
        moreover have "device_kept c2 (give_up c2 nxt)" by (simp add: device_kept_def give_up_def)
        ultimately have "cam_inv (give_up c2 nxt) k2" using cam_inv_same [of k2 c2] v(2) h by simp
        then show ?thesis using cf False by simp
      qed
    qed
  qed
qed

lemma initialize_inv:
  assumes inv: "cam_inv c k" and "\<not> cam_closing c"
  shows "\<exists>r c' k'. initialize E c client k = Some ((r, c'), k') \<and> cam_inv c' k'"
proof (cases "client \<and> \<not> clientCallbacks c")
  case False
  then show ?thesis using inv by (auto simp: initialize_def)
next
  case True
  have ok: "cam_ok c" and LK: "L k (holders c) (owned c)" using inv by (simp_all add: cam_inv_def)
  obtain d where d: "cam_vendor c = Some d" using ok assms(2) True by (cases "cam_vendor c") (auto simp: cam_ok_def)
  obtain r k1 where i: "vn_initialize E d k = (r, k1)" by (metis prod.exhaust)
  let ?c = "c\<lparr>clientCallbacks := (r = 0)\<rparr>"
  have fr: "cam_frames c = []" using ok True by (auto simp: cam_ok_def)
  have "cam_ok ?c" using ok d fr by (auto simp: cam_ok_def)
  moreover have "L k1 (holders ?c) (owned ?c)" using initialize_L [OF LK, of d] i by (simp add: holders_def [abs_def] owned_def [abs_def])
  ultimately show ?thesis using True d i by (simp add: initialize_def cam_inv_def)
qed

lemma default_inv:
  assumes inv: "cam_inv c k"
  shows "case defaultRequest V M E c type k of ((_, c'), k') \<Rightarrow> cam_inv c' k'"
proof -
  have ok: "cam_ok c" and LK: "L k (holders c) (owned c)" using inv by (simp_all add: cam_inv_def)
  have t: "cam_inv (c\<lparr>cam_templates := x\<rparr>) k'" if "L k' (holders c) (owned c)" for x k'
  proof -
    have "cam_ok (c\<lparr>cam_templates := x\<rparr>)" using ok by (simp add: cam_ok_def)
    then show ?thesis using cam_inv_same [OF that] by (simp add: device_kept_def)
  qed
  have "cam_inv c k'" if "L k' (holders c) (owned c)" for k' using that ok by (simp add: cam_inv_def)
  moreover have "L k' (holders c) (owned c)" if "vn_default E d type k = (x, k')" for d x k'
    using default_L [OF LK, of d type] that by simp
  ultimately show ?thesis using inv t by (auto simp: defaultRequest_def split: option.split prod.split)
qed

text \<open>Closing gives everything back.\<close>

lemma close_inv:
  assumes inv: "cam_inv c k"
  shows "\<exists>r c' k'. cam_close E c k = ((r, c'), k') \<and> cam_inv c' k' \<and> cam_closing c' \<and> L k' (\<lambda>_. 0) (\<lambda>_. 0)"
proof -
  have ok: "cam_ok c" and LK: "L k (holders c) (owned c)" using inv by (simp_all add: cam_inv_def)
  obtain r k1 where v: "(case cam_vendor c of None \<Rightarrow> (0, k) | Some d \<Rightarrow> vn_close E d k) = (r, k1)" by (metis prod.exhaust)
  have L1: "L k1 (holders c) (\<lambda>_. 0)"
  proof (cases "cam_vendor c")
    case None
    then have "owned c = (\<lambda>_. 0)" by (simp add: owned_def fun_eq_iff)
    then show ?thesis using LK v None by simp
  next
    case (Some d)
    then have "(owned c)(d := owned c d - 1) = (\<lambda>_. 0)" by (auto simp: owned_def fun_eq_iff)
    then show ?thesis using close_L [OF LK, of d] Some v by simp
  qed
  have "\<forall>s \<in> set (map snd (cam_streams c)). distinct (so_buffers s)" using ok by (auto simp: cam_ok_def streams_ok_def)
  from destroy_L [OF L1 this] have L2: "L (destroy_streams E (map snd (cam_streams c)) k1) (\<lambda>_. 0) (\<lambda>_. 0)" by (simp add: holders_def)
  have f: "\<forall>s \<in> set (failedStreams c). so_buffers s = []" using ok by (simp add: cam_ok_def)
  then have "\<forall>s \<in> set (failedStreams c). distinct (so_buffers s)" by simp
  from destroy_L [OF L2 this] have L3: "L (destroy_streams E (failedStreams c) (destroy_streams E (map snd (cam_streams c)) k1)) (\<lambda>_. 0) (\<lambda>_. 0)"
    using holding_empty [OF f] by simp
  let ?c = "c\<lparr>cam_closing := True, cam_vendor := None, cam_frames := [], cam_streams := [], failedStreams := []\<rparr>"
  have "holders ?c = (\<lambda>_. 0)" "owned ?c = (\<lambda>_. 0)" by (simp_all add: holders_def owned_def fun_eq_iff)
  moreover have "cam_ok ?c" by (simp add: cam_ok_def streams_ok_def)
  ultimately show ?thesis using L3 v by (simp add: cam_close_def cam_inv_def)
qed

lemma cam_step_inv:
  assumes inv: "cam_inv c k"
  shows "\<exists>c' k'. cam_step V M E call (c, k) = Some (c', k') \<and> cam_inv c' k'"
proof (cases "cam_closing c")
  case True
  then show ?thesis using inv by (simp add: cam_step_def)
next
  case open_: False
  have mem: "cam_inv (c\<lparr>client_mem := m\<rparr>) k" for m
  proof -
    have "cam_ok (c\<lparr>client_mem := m\<rparr>)" using inv by (simp add: cam_inv_def cam_ok_def)
    then show ?thesis using cam_inv_same [of k c] inv by (simp add: cam_inv_def device_kept_def)
  qed
  show ?thesis
  proof (cases call)
    case (Initialize client)
    then show ?thesis using open_ initialize_inv [OF inv open_, of client] by (auto simp: cam_step_def)
  next
    case (Configure config)
    then show ?thesis using open_ configure_inv [OF inv, of V M config] by (auto simp: cam_step_def)
  next
    case (Default_request type)
    then show ?thesis using open_ default_inv [OF inv, of V M type] by (auto simp: cam_step_def split: prod.splits)
  next
    case (Capture draining during request)
    then show ?thesis using open_ capture_inv [OF inv, of V M draining during request] by (auto simp: cam_step_def)
  next
    case (Flush during)
    then show ?thesis using open_ drain_inv [OF inv, of V M during] by (auto simp: cam_step_def cam_flush_def)
  next
    case (Callback cb)
    then show ?thesis using open_ run_callback_inv [OF inv, of V M cb] by (auto simp: cam_step_def)
  next
    case (Client_writes p s)
    then show ?thesis using open_ mem by (simp add: cam_step_def)
  next
    case Close
    then show ?thesis using open_ close_inv [OF inv] by (auto simp: cam_step_def)
  qed
qed

lemma session_inv: "cam_inv c k \<Longrightarrow> \<exists>c' k'. run_steps (cam_step V M E) calls (c, k) = Some (c', k') \<and> cam_inv c' k'"
proof (induction calls arbitrary: c k)
  case (Cons call calls)
  obtain c1 k1 where "cam_step V M E call (c, k) = Some (c1, k1)" "cam_inv c1 k1" using cam_step_inv [OF Cons.prems] by blast
  then show ?case using Cons.IH by simp
qed simp

text \<open>Opening gives a device that owns what it opened, or gives everything back.\<close>

lemma new_camera_inv:
  assumes "L k (\<lambda>_. 0) ((\<lambda>_. 0)(d := 1))"
  shows "cam_inv (new_camera M name d ch mem) k"
proof -
  have "cam_ok (new_camera M name d ch mem)" by (simp add: cam_ok_def new_camera_def streams_ok_def)
  moreover have "holders (new_camera M name d ch mem) = (\<lambda>_. 0)" "owned (new_camera M name d ch mem) = (\<lambda>_. 0)(d := 1)"
    by (auto simp: holders_def owned_def new_camera_def fun_eq_iff)
  ultimately show ?thesis using assms by (simp add: cam_inv_def)
qed

lemma open_inv:
  assumes z: "L k (\<lambda>_. 0) (\<lambda>_. 0)" and op: "camera3_device_open V M E mem name cache k = (((r, oc), cache'), k')"
  shows "case oc of None \<Rightarrow> L k' (\<lambda>_. 0) (\<lambda>_. 0) | Some c \<Rightarrow> r = 0 \<and> cam_inv c k'"
proof -
  obtain a k1 where n: "ce_new E k = (a, k1)" by (metis prod.exhaust)
  then have L1: "L k1 (\<lambda>_. 0) (\<lambda>_. 0)" using new_L [OF z] by simp
  obtain q v k2 where vo: "vn_open E (the name) k1 = ((q, v), k2)" by (metis prod.exhaust)
  have fail: "L k2 (\<lambda>_. 0) (\<lambda>_. 0)" if "q \<noteq> 0 \<or> v = None" using open_L [OF L1 vo] that by (cases v) auto
  have got: "L k2 (\<lambda>_. 0) ((\<lambda>_. 0)(vd_id x := 1))" if "q = 0" "v = Some x" for x using open_L [OF L1 vo] that by simp
  have given: "L (snd (vn_close E (vd_id x) k2)) (\<lambda>_. 0) (\<lambda>_. 0)" if "q = 0" "v = Some x" for x
  proof -
    have "((\<lambda>_. 0)(vd_id x := 1))(vd_id x := ((\<lambda>_. 0)(vd_id x := 1)) (vd_id x) - 1) = (\<lambda>_. 0 :: int)" by (auto simp: fun_eq_iff)
    then show ?thesis using close_L [OF got [OF that], of "vd_id x"] by simp
  qed
  show ?thesis using op z L1 fail got given unfolding camera3_device_open_def
    by (auto simp: n vo new_camera_inv split: option.splits if_splits sum.splits prod.splits)
qed

end

end
