(* ===== verification/Cam_Session.thy ===== *)
theory Cam_Session
  imports Cam_World
begin

text \<open>
  Sessions with the camera adapter, from opening to closing, in two worlds: any world at all, where no call
  has undefined behaviour, and a world that counts what the adapter takes from it and gives back.
\<close>

section \<open>A world that counts\<close>

text \<open>
  The same world with two accounts beside its state: how often each handle is registered with the graphics
  allocator, and how often each device of the vendor is open.
\<close>

type_synonym 'k ledger = "'k \<times> (nat \<Rightarrow> int) \<times> (nat \<Rightarrow> int)"

definition beside :: "('k \<Rightarrow> 'r \<times> 'k) \<Rightarrow> 'k ledger \<Rightarrow> 'r \<times> 'k ledger" where
  "beside f = (\<lambda>(k, b, d). case f k of (r, k1) \<Rightarrow> (r, (k1, b, d)))"

definition counted :: "('m, 'k) cam_env \<Rightarrow> ('m, 'k ledger) cam_env" where
  "counted E =
     \<lparr>ce_new = beside (ce_new E), stock_module = stock_module E, stock_count = stock_count E, stock_info = stock_info E,
      gralloc_module = gralloc_module E,
      vn_open = (\<lambda>nm (k, b, d). case vn_open E nm k of ((r, v), k1) \<Rightarrow>
        ((r, v), (k1, b, case v of Some x \<Rightarrow> if r = 0 then d(vd_id x := d (vd_id x) + 1) else d | None \<Rightarrow> d))),
      vn_close = (\<lambda>i (k, b, d). case vn_close E i k of (r, k1) \<Rightarrow> (r, (k1, b, d(i := d i - 1)))),
      vn_initialize = (\<lambda>i. beside (vn_initialize E i)),
      vn_configure = (\<lambda>i ss. beside (vn_configure E i ss)),
      vn_register = (\<lambda>i j hs. beside (vn_register E i j hs)),
      vn_default = (\<lambda>i t. beside (vn_default E i t)),
      vn_capture = (\<lambda>i n st vbs. beside (vn_capture E i n st vbs)),
      gr_register = (\<lambda>h (k, b, d). case gr_register E h k of (r, k1) \<Rightarrow> (r, (k1, if r = 0 then b(h := b h + 1) else b, d))),
      gr_unregister = (\<lambda>h (k, b, d). (gr_unregister E h k, b(h := b h - 1), d)),
      cl_notify = (\<lambda>msg (k, b, d). (cl_notify E msg k, b, d)),
      cl_result = (\<lambda>n md bufs (k, b, d). (cl_result E n md bufs k, b, d)),
      fd_close = (\<lambda>x (k, b, d). (fd_close E x k, b, d))\<rparr>"

lemma beside_snd: "snd k = a \<Longrightarrow> snd (snd (beside f k)) = a"
  by (cases k) (auto simp: beside_def split: prod.splits)

interpretation any_world: cam_world E "\<lambda>_ _ _. True" for E :: "('m, 'k) cam_env"
  by unfold_locales simp_all

interpretation counted_world: cam_world "counted E" "\<lambda>k b d. snd k = (b, d)" for E :: "('m, 'k) cam_env"
  by unfold_locales (auto simp: counted_def beside_snd split: prod.splits)

section \<open>Sessions\<close>

text \<open>
  (C16) No undefined behaviour: once a camera has been opened, any sequence of calls of the framework, callbacks of
  the vendor (before, during and after requests) and writes of the client to its stream structures runs without using a
  device, a client, a stream or a buffer that is not there, and keeps the invariant of the device.
\<close>

theorem camera_session_safe:
  assumes "camera3_device_open V M E mem name cache k = (((r, Some c), cache'), k1)"
  shows "r = 0 \<and> (\<exists>c' k'. run_steps (cam_step V M E) calls (c, k1) = Some (c', k') \<and> cam_ok c')"
proof -
  have "r = 0 \<and> any_world.cam_inv c k1" using any_world.open_inv [OF TrueI assms] by simp
  then show ?thesis using any_world.session_inv [of c k1 V M E calls] by (auto simp: any_world.cam_inv_def)
qed

text \<open>
  (C15) The adapter gives back what it takes: from empty accounts, an open that fails leaves them empty. In a session,
  each handle is registered exactly as often as there are configured streams that hold it, and the only open device of the vendor
  is the one the adapter holds, whatever fails on the way; closing empties both accounts.
\<close>

theorem camera_accounts:
  assumes "camera3_device_open V M (counted E) mem name cache (k, \<lambda>_. 0, \<lambda>_. 0) = (((r, oc), cache'), (k1, b, d))"
  shows "case oc of
      None \<Rightarrow> b = (\<lambda>_. 0) \<and> d = (\<lambda>_. 0)
    | Some c \<Rightarrow> \<exists>c' k'. run_steps (cam_step V M (counted E)) calls (c, (k1, b, d)) = Some (c', (k', holders c', owned c'))
        \<and> (\<exists>q c2 k2. cam_close (counted E) c' (k', holders c', owned c') = ((q, c2), (k2, \<lambda>_. 0, \<lambda>_. 0)))"
proof (cases oc)
  case None
  then show ?thesis using counted_world.open_inv [OF _ assms] by simp
next
  case (Some c)
  have "counted_world.cam_inv c (k1, b, d)" using counted_world.open_inv [OF _ assms] Some by simp
  from counted_world.session_inv [OF this, of V M E calls] obtain c' k'
    where s: "run_steps (cam_step V M (counted E)) calls (c, (k1, b, d)) = Some (c', k')" "counted_world.cam_inv c' k'" by blast
  obtain j where k': "k' = (j, holders c', owned c')" using s(2) by (cases k') (simp add: counted_world.cam_inv_def)
  obtain q c2 k2 where "cam_close (counted E) c' k' = ((q, c2), k2)" "snd k2 = (\<lambda>_. 0, \<lambda>_. 0)"
    using counted_world.close_inv [OF s(2), of E] by blast
  then show ?thesis using s(1) k' Some by (cases k2) auto
qed

section \<open>An example\<close>

text \<open>A camera of the vendor, number 5, that accepts everything.\<close>

definition demo_cam :: "((int \<times> mval) list, unit) cam_env" where
  "demo_cam =
     \<lparr>ce_new = (\<lambda>k. (True, k)), stock_module = True, stock_count = 1,
      stock_info = (\<lambda>_. (0, demo_camera_h ''CAMERA_DEVICE_API_VERSION_3_0'', None)), gralloc_module = (0, True),
      vn_open = (\<lambda>_ k. ((0, Some \<lparr>vd_id = 5, vd_version = demo_camera_h ''CAMERA_DEVICE_API_VERSION_3_0'', vd_complete = True\<rparr>), k)),
      vn_close = (\<lambda>_ k. (0, k)), vn_initialize = (\<lambda>_ k. (0, k)),
      vn_configure = (\<lambda>_ ss k. ((0, the \<circ> map_of ss), k)), vn_register = (\<lambda>_ _ _ k. (0, k)), vn_default = (\<lambda>_ _ k. (None, k)),
      vn_capture = (\<lambda>_ _ _ _ k. (0, k)), gr_register = (\<lambda>_ k. (0, k)), gr_unregister = (\<lambda>_ k. k), cl_notify = (\<lambda>_ k. k),
      cl_result = (\<lambda>_ _ _ k. k), fd_close = (\<lambda>_ k. k)\<rparr>"

abbreviation demo_size :: camera3_stream where
  "demo_size \<equiv> \<lparr>cs_type = demo_camera_h ''CAMERA3_STREAM_OUTPUT'', cs_width = 640, cs_height = 480,
     cs_format = demo_camera_h ''HAL_PIXEL_FORMAT_BLOB'', cs_usage = 0, cs_max_buffers = 0\<rparr>"

abbreviation demo_cached :: "int \<Rightarrow> (int \<times> mval) list" where
  "demo_cached \<equiv> \<lambda>_. [(1, U8s [])]"

abbreviation demo_camera :: "(int \<times> mval) list camera" where
  "demo_camera \<equiv> new_camera demo_meta ''0'' 5 [(1, U8s [])] (\<lambda>_. demo_size)"

lemma demo_cam_open:
  "camera3_device_open demo_camera_h demo_meta demo_cam (\<lambda>_. demo_size) (Some ''0'') demo_cached () = (((0, Some demo_camera), demo_cached), ())"
  by (simp add: camera3_device_open_def camera_id_def get_mocha_camera_info_def demo_cam_def demo_meta_def)

lemma demo_cam_counted:
  "camera3_device_open demo_camera_h demo_meta (counted demo_cam) (\<lambda>_. demo_size) (Some ''0'') demo_cached ((), \<lambda>_. 0, \<lambda>_. 0)
     = (((0, Some demo_camera), demo_cached), ((), \<lambda>_. 0, (\<lambda>_. 0)(5 := 1)))"
  by (simp add: camera3_device_open_def camera_id_def get_mocha_camera_info_def demo_cam_def demo_meta_def counted_def beside_def)

text \<open>The calls of a session: a stream is configured, and a request without settings is refused after its buffer was registered.\<close>

abbreviation demo_calls :: "(int \<times> mval) list cam_call list" where
  "demo_calls \<equiv> [Initialize True, Configure (Some ([Some 3], demo_camera_h ''CAMERA3_STREAM_CONFIGURATION_NORMAL_MODE'')),
     Capture [] [] (Some \<lparr>rq_frame = 1, rq_settings = None, rq_input = False,
       rq_output = Some [\<lparr>sb_stream = 3, sb_buffer = Some 9, sb_status = 0, sb_acquire_fence = - 1, sb_release_fence = - 1\<rparr>]\<rparr>)]"

lemma demo_registers:
  "map_option (\<lambda>(c, k). (holders c 9, k)) (run_steps (cam_step demo_camera_h demo_meta (counted demo_cam)) demo_calls
       (demo_camera, ((), \<lambda>_. 0, (\<lambda>_. 0)(5 := 1))))
     = Some (1, (), (\<lambda>_. 0)(9 := 1), (\<lambda>_. 0)(5 := 1))"
  by (simp add: cam_step_def initialize_def configure_def next_stream_def admit_stream_def configure_vendor_def capture_def drain_def
      counted_def beside_def demo_cam_def demo_meta_def new_camera_def Let_def demo_camera_h_inj holders_def holding_def emplace_def
      adopt_stream_def destroy_streams_def modify_key_def)

theorem camera_session_safe_witness:
  "\<exists>c' k'. run_steps (cam_step demo_camera_h demo_meta demo_cam) demo_calls (demo_camera, ()) = Some (c', k') \<and> cam_ok c'"
  using camera_session_safe [OF demo_cam_open, of demo_calls] by blast

theorem camera_accounts_witness:
  "\<exists>c' k'. run_steps (cam_step demo_camera_h demo_meta (counted demo_cam)) demo_calls (demo_camera, ((), \<lambda>_. 0, (\<lambda>_. 0)(5 := 1)))
       = Some (c', (k', holders c', owned c')) \<and> holders c' 9 = 1 \<and> owned c' 5 = 1
     \<and> (\<exists>q c2 k2. cam_close (counted demo_cam) c' (k', holders c', owned c') = ((q, c2), (k2, \<lambda>_. 0, \<lambda>_. 0)))"
proof -
  obtain c' k' where s: "run_steps (cam_step demo_camera_h demo_meta (counted demo_cam)) demo_calls (demo_camera, ((), \<lambda>_. 0, (\<lambda>_. 0)(5 := 1)))
       = Some (c', (k', holders c', owned c'))"
    "\<exists>q c2 k2. cam_close (counted demo_cam) c' (k', holders c', owned c') = ((q, c2), (k2, \<lambda>_. 0, \<lambda>_. 0))"
    using camera_accounts [OF demo_cam_counted, of demo_calls] by auto
  have "holders c' = (\<lambda>_. 0)(9 := 1) \<and> owned c' = (\<lambda>_. 0)(5 := 1)" using demo_registers unfolding s(1) by simp
  then show ?thesis using s by (metis fun_upd_same)
qed

text \<open>A frame with one buffer in flight; the vendor returns it.\<close>

abbreviation demo_flying :: "(int \<times> mval) list camera" where
  "demo_flying \<equiv> demo_camera\<lparr>clientCallbacks := True,
     cam_streams := [(3, \<lparr>so_id = 0, so_legacy = demo_size, so_client = 3, so_buffers = [9]\<rparr>)], next_id := 1,
     cam_frames := [(1, \<lparr>fr_settings = [], fr_partials = [],
       fr_clientBuffers = [\<lparr>sb_stream = 3, sb_buffer = Some 9, sb_status = 0, sb_acquire_fence = - 1, sb_release_fence = - 1\<rparr>],
       fr_vendorBuffers = [(0, 9)], fr_returned = [False], fr_remaining = 1, fr_metadataDone = True, fr_shutterDone = True\<rparr>)]\<rparr>"

abbreviation demo_returned :: "(int \<times> mval) list stock_result" where
  "demo_returned \<equiv> \<lparr>sr_frame = 1, sr_metadata = None, sr_buffers =
     [\<lparr>sb_stream = 0, sb_buffer = Some 9, sb_status = 0, sb_acquire_fence = - 1, sb_release_fence = 7\<rparr>]\<rparr>"

theorem result_delivers_witness:
  "\<exists>c' k'. cam_result demo_camera_h demo_meta demo_cam demo_flying demo_returned () = Some (c', k') \<and> cam_ok c' \<and> cam_frames c' = []"
proof -
  have "cam_ok demo_flying" by (simp add: cam_ok_def streams_ok_def frame_ok_def buffer_ok_def new_camera_def)
  from result_delivers [OF this, where r = demo_returned and V = demo_camera_h and M = demo_meta and E = demo_cam and k = "()"]
  obtain c' k' where c: "cam_result demo_camera_h demo_meta demo_cam demo_flying demo_returned () = Some (c', k')" "cam_ok c'"
    by (fastforce simp: new_camera_def take_metadata_def)
  moreover have "map_option (cam_frames \<circ> fst) (cam_result demo_camera_h demo_meta demo_cam demo_flying demo_returned ()) = Some []"
    by (simp add: cam_result_def result_locked_def take_metadata_def deref_handle_def retire_def new_camera_def modify_key_def erase_key_def
        demo_cam_def Let_def)
  ultimately show ?thesis by auto
qed

end
