(* ===== verification/Cam_Params.thy ===== *)
theory Cam_Params
  imports C_Strings Cam_Meta
begin

text \<open>
  The parameters of a camera (libmocha/camera/CameraParameters.cpp and CameraParameters2.cpp): a map from names to values
  that travels as one string. The first class keeps it in the keyed vector of the platform, which is a parameter here
  (\<open>'p kvec\<close>); the second in a list of its own that remembers the order of setting.
\<close>

section \<open>Numbers in text\<close>

text \<open>\<^verbatim>\<open>strtol\<close>: the value, which saturates at the 32 bits of \<^verbatim>\<open>long\<close>, and the rest; without a digit nothing is read.\<close>

definition clamp32 :: "bool \<Rightarrow> nat \<Rightarrow> int" where
  "clamp32 neg v = (if neg then max (- (2 ^ 31)) (- int v) else min (2 ^ 31 - 1) (int v))"

definition strip_sign :: "string \<Rightarrow> bool \<times> string" where
  "strip_sign s =
     (case s of [] \<Rightarrow> (False, []) | c # cs \<Rightarrow> if c = CHR ''-'' then (True, cs) else if c = CHR ''+'' then (False, cs) else (False, s))"

definition strtol10 :: "string \<Rightarrow> int \<times> string" where
  "strtol10 str =
     (case strip_sign (dropWhile isspace str) of (neg, ds) \<Rightarrow>
        if ds = [] \<or> digit_value (hd ds) \<ge> 10 then (0, str)
        else case scan_digits 10 0 ds of (v, rest) \<Rightarrow> (clamp32 neg v, rest))"

definition strtol0 :: "string \<Rightarrow> int" where
  "strtol0 str =
     (case strip_sign (dropWhile isspace str) of (neg, s) \<Rightarrow>
        case base_prefix s of (base, ds) \<Rightarrow>
          if ds = [] \<or> digit_value (hd ds) \<ge> base then 0 else clamp32 neg (fst (scan_digits base 0 ds)))"

text \<open>\<^verbatim>\<open>strchr\<close>: what comes before and after the first occurrence.\<close>

definition cut_at :: "char \<Rightarrow> string \<Rightarrow> (string \<times> string) option" where
  "cut_at c s = (if c \<in> set s then Some (takeWhile (\<lambda>x. x \<noteq> c) s, tl (dropWhile (\<lambda>x. x \<noteq> c) s)) else None)"

lemma cut_at_simps [simp]:
  "cut_at c [] = None"
  "cut_at c (x # xs) = (if x = c then Some ([], xs) else map_option (\<lambda>(a, b). (x # a, b)) (cut_at c xs))"
  by (auto simp: cut_at_def)

lemma cut_at_append: "c \<notin> set a \<Longrightarrow> cut_at c (a @ c # b) = Some (a, b)"
  by (induction a) auto

lemma cut_at_None: "cut_at c s = None \<longleftrightarrow> c \<notin> set s"
  by (simp add: cut_at_def)

lemma cut_at_Some: "cut_at c s = Some (a, b) \<Longrightarrow> s = a @ c # b \<and> c \<notin> set a"
proof (induction s arbitrary: a)
  case (Cons x s)
  then show ?case by (cases "x = c") auto
qed simp

section \<open>The flat form\<close>

abbreviation EQ :: char where "EQ \<equiv> CHR ''=''"
abbreviation SEMI :: char where "SEMI \<equiv> CHR '';''"

type_synonym entries = "(string \<times> string) list"

fun flatten :: "entries \<Rightarrow> string" where
  "flatten [] = []"
| "flatten ((k, v) # es) = k @ [EQ] @ v @ (if es \<noteq> [] then [SEMI] else []) @ flatten es"

text \<open>The loop of \<^verbatim>\<open>unflatten\<close>, over the entries that are added one after the other.\<close>

function unflatten_loop :: "(string \<Rightarrow> string \<Rightarrow> 'p \<Rightarrow> 'p) \<Rightarrow> string \<Rightarrow> 'p \<Rightarrow> 'p" where
  "unflatten_loop add a m =
     (case cut_at EQ a of
        None \<Rightarrow> m
      | Some (k, a1) \<Rightarrow>
          (case cut_at SEMI a1 of
             None \<Rightarrow> add k a1 m
           | Some (v, a2) \<Rightarrow> unflatten_loop add a2 (add k v m)))"
  by pat_completeness auto
termination
  by (relation "measure (\<lambda>(_, a, _). length a)") (auto dest!: cut_at_Some)

declare unflatten_loop.simps [simp del]

section \<open>Pairs and lists of sizes\<close>

definition parse_pair :: "string \<Rightarrow> char \<Rightarrow> ((int \<times> int) \<times> string) option" where
  "parse_pair str delim =
     (case strtol10 str of (w, end1) \<Rightarrow>
        if end1 = [] \<or> hd end1 \<noteq> delim then None
        else case strtol10 (tl end1) of (h, end2) \<Rightarrow> Some ((w, h), end2))"

definition get_pair :: "char \<Rightarrow> string option \<Rightarrow> int \<times> int" where
  "get_pair delim p = (case Option.bind p (\<lambda>s. parse_pair s delim) of None \<Rightarrow> (- 1, - 1) | Some (wh, _) \<Rightarrow> wh)"

definition print_pair :: "char \<Rightarrow> int \<Rightarrow> int \<Rightarrow> string" where
  "print_pair delim w h = show_int w @ [delim] @ show_int h"

lemma scan_digits_rest: "length (snd (scan_digits base acc s)) \<le> length s"
  by (induction base acc s rule: scan_digits.induct) auto

lemma strip_sign_rest: "strip_sign s = (neg, ds) \<Longrightarrow> length ds \<le> length s"
  by (cases s) (auto simp: strip_sign_def split: if_splits)

lemma strtol10_rest: "length (snd (strtol10 s)) \<le> length s"
proof -
  obtain neg ds where ds: "strip_sign (dropWhile isspace s) = (neg, ds)" by (metis prod.exhaust)
  have "length ds \<le> length (dropWhile isspace s)" by (rule strip_sign_rest [OF ds])
  also have "\<dots> \<le> length s" by (rule length_dropWhile_le)
  finally show ?thesis using scan_digits_rest [of 10 0 ds] ds by (auto simp: strtol10_def split: prod.splits)
qed

lemma parse_pair_rest: "parse_pair s d = Some (wh, e) \<Longrightarrow> length e < length s"
proof -
  assume p: "parse_pair s d = Some (wh, e)"
  obtain w end1 where e1: "strtol10 s = (w, end1)" by (metis prod.exhaust)
  have "length end1 \<le> length s" using strtol10_rest [of s] e1 by simp
  moreover have "end1 \<noteq> []" "e = snd (strtol10 (tl end1))" using p e1 by (auto simp: parse_pair_def split: if_splits prod.splits)
  moreover have "length (snd (strtol10 (tl end1))) \<le> length (tl end1)" by (rule strtol10_rest)
  ultimately show ?thesis by (cases end1) auto
qed

function parse_sizes :: "string \<Rightarrow> (int \<times> int) list" where
  "parse_sizes s =
     (case parse_pair s (CHR ''x'') of
        None \<Rightarrow> []
      | Some (wh, e) \<Rightarrow>
          if e = [] then [wh] else if hd e = CHR '','' then wh # parse_sizes (tl e) else [])"
  by pat_completeness auto
termination
  by (relation "measure length") (auto dest!: parse_pair_rest)

declare parse_sizes.simps [simp del]

definition parseSizesList :: "string option \<Rightarrow> (int \<times> int) list" where
  "parseSizesList sizesStr = (case sizesStr of None \<Rightarrow> [] | Some s \<Rightarrow> parse_sizes s)"

section \<open>The keys\<close>

definition KEY_PREVIEW_SIZE :: string where "KEY_PREVIEW_SIZE = ''preview-size''"
definition KEY_SUPPORTED_PREVIEW_SIZES :: string where "KEY_SUPPORTED_PREVIEW_SIZES = ''preview-size-values''"
definition KEY_PREVIEW_FORMAT :: string where "KEY_PREVIEW_FORMAT = ''preview-format''"
definition KEY_SUPPORTED_PREVIEW_FORMATS :: string where "KEY_SUPPORTED_PREVIEW_FORMATS = ''preview-format-values''"
definition KEY_PREVIEW_FRAME_RATE :: string where "KEY_PREVIEW_FRAME_RATE = ''preview-frame-rate''"
definition KEY_PREVIEW_FPS_RANGE :: string where "KEY_PREVIEW_FPS_RANGE = ''preview-fps-range''"
definition KEY_PICTURE_SIZE :: string where "KEY_PICTURE_SIZE = ''picture-size''"
definition KEY_SUPPORTED_PICTURE_SIZES :: string where "KEY_SUPPORTED_PICTURE_SIZES = ''picture-size-values''"
definition KEY_PICTURE_FORMAT :: string where "KEY_PICTURE_FORMAT = ''picture-format''"
definition KEY_VIDEO_SIZE :: string where "KEY_VIDEO_SIZE = ''video-size''"
definition KEY_SUPPORTED_VIDEO_SIZES :: string where "KEY_SUPPORTED_VIDEO_SIZES = ''video-size-values''"
definition KEY_PREFERRED_PREVIEW_SIZE_FOR_VIDEO :: string where
  "KEY_PREFERRED_PREVIEW_SIZE_FOR_VIDEO = ''preferred-preview-size-for-video''"

lemmas key_defs = KEY_PREVIEW_SIZE_def KEY_SUPPORTED_PREVIEW_SIZES_def KEY_PREVIEW_FORMAT_def KEY_SUPPORTED_PREVIEW_FORMATS_def
  KEY_PREVIEW_FRAME_RATE_def KEY_PREVIEW_FPS_RANGE_def KEY_PICTURE_SIZE_def KEY_SUPPORTED_PICTURE_SIZES_def KEY_PICTURE_FORMAT_def
  KEY_VIDEO_SIZE_def KEY_SUPPORTED_VIDEO_SIZES_def KEY_PREFERRED_PREVIEW_SIZE_FOR_VIDEO_def

section \<open>The first class\<close>

text \<open>
  The operations of \<^verbatim>\<open>DefaultKeyedVector<String8, String8>\<close>, whose default is the empty string. \<open>kv_entries\<close> are the keys and
  values by index.
\<close>

record 'p kvec =
  kv_new :: 'p
  kv_entries :: "'p \<Rightarrow> entries"
  kv_valueFor :: "'p \<Rightarrow> string \<Rightarrow> string"
  kv_add :: "string \<Rightarrow> string \<Rightarrow> 'p \<Rightarrow> 'p"
  kv_replaceValueFor :: "string \<Rightarrow> string \<Rightarrow> 'p \<Rightarrow> 'p"
  kv_removeItem :: "string \<Rightarrow> 'p \<Rightarrow> 'p"

definition params_flatten :: "'p kvec \<Rightarrow> 'p \<Rightarrow> string" where
  "params_flatten K p = flatten (kv_entries K p)"

definition params_unflatten :: "'p kvec \<Rightarrow> string \<Rightarrow> 'p \<Rightarrow> 'p" where
  "params_unflatten K params p = unflatten_loop (kv_add K) params (kv_new K)"

definition clean :: "string \<Rightarrow> bool" where
  "clean s \<longleftrightarrow> EQ \<notin> set s \<and> SEMI \<notin> set s"

definition params_set :: "'p kvec \<Rightarrow> string option \<Rightarrow> string option \<Rightarrow> 'p \<Rightarrow> 'p" where
  "params_set K key val p =
     (case (key, val) of
        (Some k, Some v) \<Rightarrow> if \<not> clean k then p else if \<not> clean v then p else kv_replaceValueFor K k v p
      | _ \<Rightarrow> p)"

definition params_set_int :: "'p kvec \<Rightarrow> string option \<Rightarrow> int \<Rightarrow> 'p \<Rightarrow> 'p" where
  "params_set_int K key n p = params_set K key (Some (show_int n)) p"

definition params_get :: "'p kvec \<Rightarrow> 'p \<Rightarrow> string \<Rightarrow> string option" where
  "params_get K p key = (let v = kv_valueFor K p key in if v = [] then None else Some v)"

definition params_getInt :: "'p kvec \<Rightarrow> 'p \<Rightarrow> string \<Rightarrow> int" where
  "params_getInt K p key = (case params_get K p key of None \<Rightarrow> - 1 | Some v \<Rightarrow> strtol0 v)"

definition params_remove :: "'p kvec \<Rightarrow> string \<Rightarrow> 'p \<Rightarrow> 'p" where
  "params_remove K key p = kv_removeItem K key p"

definition setPreviewSize :: "'p kvec \<Rightarrow> int \<Rightarrow> int \<Rightarrow> 'p \<Rightarrow> 'p" where
  "setPreviewSize K w h p = params_set K (Some KEY_PREVIEW_SIZE) (Some (print_pair (CHR ''x'') w h)) p"

definition getPreviewSize :: "'p kvec \<Rightarrow> 'p \<Rightarrow> int \<times> int" where
  "getPreviewSize K p = get_pair (CHR ''x'') (params_get K p KEY_PREVIEW_SIZE)"

definition getPreferredPreviewSizeForVideo :: "'p kvec \<Rightarrow> 'p \<Rightarrow> int \<times> int" where
  "getPreferredPreviewSizeForVideo K p = get_pair (CHR ''x'') (params_get K p KEY_PREFERRED_PREVIEW_SIZE_FOR_VIDEO)"

definition getSupportedPreviewSizes :: "'p kvec \<Rightarrow> 'p \<Rightarrow> (int \<times> int) list" where
  "getSupportedPreviewSizes K p = parseSizesList (params_get K p KEY_SUPPORTED_PREVIEW_SIZES)"

definition setVideoSize :: "'p kvec \<Rightarrow> int \<Rightarrow> int \<Rightarrow> 'p \<Rightarrow> 'p" where
  "setVideoSize K w h p = params_set K (Some KEY_VIDEO_SIZE) (Some (print_pair (CHR ''x'') w h)) p"

definition getVideoSize :: "'p kvec \<Rightarrow> 'p \<Rightarrow> int \<times> int" where
  "getVideoSize K p = get_pair (CHR ''x'') (params_get K p KEY_VIDEO_SIZE)"

definition getSupportedVideoSizes :: "'p kvec \<Rightarrow> 'p \<Rightarrow> (int \<times> int) list" where
  "getSupportedVideoSizes K p = parseSizesList (params_get K p KEY_SUPPORTED_VIDEO_SIZES)"

definition setPreviewFrameRate :: "'p kvec \<Rightarrow> int \<Rightarrow> 'p \<Rightarrow> 'p" where
  "setPreviewFrameRate K fps p = params_set_int K (Some KEY_PREVIEW_FRAME_RATE) fps p"

definition getPreviewFrameRate :: "'p kvec \<Rightarrow> 'p \<Rightarrow> int" where
  "getPreviewFrameRate K p = params_getInt K p KEY_PREVIEW_FRAME_RATE"

definition getPreviewFpsRange :: "'p kvec \<Rightarrow> 'p \<Rightarrow> int \<times> int" where
  "getPreviewFpsRange K p = get_pair (CHR '','') (params_get K p KEY_PREVIEW_FPS_RANGE)"

definition setPreviewFormat :: "'p kvec \<Rightarrow> string option \<Rightarrow> 'p \<Rightarrow> 'p" where
  "setPreviewFormat K format p = params_set K (Some KEY_PREVIEW_FORMAT) format p"

definition getPreviewFormat :: "'p kvec \<Rightarrow> 'p \<Rightarrow> string option" where
  "getPreviewFormat K p = params_get K p KEY_PREVIEW_FORMAT"

definition setPictureSize :: "'p kvec \<Rightarrow> int \<Rightarrow> int \<Rightarrow> 'p \<Rightarrow> 'p" where
  "setPictureSize K w h p = params_set K (Some KEY_PICTURE_SIZE) (Some (print_pair (CHR ''x'') w h)) p"

definition getPictureSize :: "'p kvec \<Rightarrow> 'p \<Rightarrow> int \<times> int" where
  "getPictureSize K p = get_pair (CHR ''x'') (params_get K p KEY_PICTURE_SIZE)"

definition getSupportedPictureSizes :: "'p kvec \<Rightarrow> 'p \<Rightarrow> (int \<times> int) list" where
  "getSupportedPictureSizes K p = parseSizesList (params_get K p KEY_SUPPORTED_PICTURE_SIZES)"

definition setPictureFormat :: "'p kvec \<Rightarrow> string option \<Rightarrow> 'p \<Rightarrow> 'p" where
  "setPictureFormat K format p = params_set K (Some KEY_PICTURE_FORMAT) format p"

definition getPictureFormat :: "'p kvec \<Rightarrow> 'p \<Rightarrow> string option" where
  "getPictureFormat K p = params_get K p KEY_PICTURE_FORMAT"

definition previewFormatToEnum :: "camera_h \<Rightarrow> string option \<Rightarrow> int" where
  "previewFormatToEnum V format =
     (case format of
        None \<Rightarrow> V ''HAL_PIXEL_FORMAT_YCrCb_420_SP''
      | Some f \<Rightarrow>
          if f = ''yuv422sp'' then V ''HAL_PIXEL_FORMAT_YCbCr_422_SP''
          else if f = ''yuv420sp'' then V ''HAL_PIXEL_FORMAT_YCrCb_420_SP''
          else if f = ''yuv422i-yuyv'' then V ''HAL_PIXEL_FORMAT_YCbCr_422_I''
          else if f = ''yuv420p'' then V ''HAL_PIXEL_FORMAT_YV12''
          else if f = ''rgb565'' then V ''HAL_PIXEL_FORMAT_RGB_565''
          else if f = ''rgba8888'' then V ''HAL_PIXEL_FORMAT_RGBA_8888''
          else if f = ''bayer-rggb'' then V ''HAL_PIXEL_FORMAT_RAW16''
          else - 1)"

definition getSupportedPreviewFormats :: "camera_h \<Rightarrow> 'p kvec \<Rightarrow> 'p \<Rightarrow> int list" where
  "getSupportedPreviewFormats V K p =
     (case params_get K p KEY_SUPPORTED_PREVIEW_FORMATS of
        None \<Rightarrow> []
      | Some s \<Rightarrow> filter (\<lambda>n. n \<noteq> - 1) (map (\<lambda>f. previewFormatToEnum V (Some f)) (strtok_all (CHR '','') s)))"

definition params_isEmpty :: "'p kvec \<Rightarrow> 'p \<Rightarrow> bool" where
  "params_isEmpty K p \<longleftrightarrow> kv_entries K p = []"

section \<open>The second class\<close>

text \<open>
  \<^verbatim>\<open>OrderedKeyedVector\<close> is a list of pairs. Its \<^verbatim>\<open>removeItem\<close> converts the index to an unsigned type before it tests it for
  being negative, so a key that is not there becomes an index outside the list; what the platform's vector then does is the
  parameter \<open>outside\<close>.
\<close>

fun indexOfKey :: "string \<Rightarrow> entries \<Rightarrow> nat option" where
  "indexOfKey key [] = None"
| "indexOfKey key ((k, v) # es) = (if k = key then Some 0 else map_option Suc (indexOfKey key es))"

definition ordered_add :: "string \<Rightarrow> string \<Rightarrow> entries \<Rightarrow> entries" where
  "ordered_add key val es = es @ [(key, val)]"

definition removeItem :: "(entries \<Rightarrow> entries) \<Rightarrow> string \<Rightarrow> entries \<Rightarrow> entries" where
  "removeItem outside key es = (case indexOfKey key es of None \<Rightarrow> outside es | Some i \<Rightarrow> take i es @ drop (Suc i) es)"

definition replaceValueFor :: "(entries \<Rightarrow> entries) \<Rightarrow> string \<Rightarrow> string \<Rightarrow> entries \<Rightarrow> entries" where
  "replaceValueFor outside key val es = ordered_add key val (removeItem outside key es)"

definition flatten2 :: "entries \<Rightarrow> string" where
  "flatten2 es = flatten es"

definition unflatten2 :: "string \<Rightarrow> entries \<Rightarrow> entries" where
  "unflatten2 params es = unflatten_loop ordered_add params []"

text \<open>A null pointer goes to \<^verbatim>\<open>strchr\<close>: \<open>None\<close>.\<close>

definition set2 :: "(entries \<Rightarrow> entries) \<Rightarrow> string option \<Rightarrow> string option \<Rightarrow> entries \<Rightarrow> entries option" where
  "set2 outside key val es = do {
     k \<leftarrow> key;
     (if \<not> clean k then Some es
      else do {
        v \<leftarrow> val;
        (if \<not> clean v then Some es else Some (replaceValueFor outside k v es))
      })
   }"

definition set_int2 :: "(entries \<Rightarrow> entries) \<Rightarrow> string option \<Rightarrow> int \<Rightarrow> entries \<Rightarrow> entries option" where
  "set_int2 outside key n es = set2 outside key (Some (show_int n)) es"

definition get2 :: "entries \<Rightarrow> string \<Rightarrow> string option" where
  "get2 es key = map_option (\<lambda>i. snd (es ! i)) (indexOfKey key es)"

definition getInt2 :: "entries \<Rightarrow> string \<Rightarrow> int" where
  "getInt2 es key = (case get2 es key of None \<Rightarrow> - 1 | Some v \<Rightarrow> strtol0 v)"

abbreviation NAME_NOT_FOUND :: int where "NAME_NOT_FOUND \<equiv> - 2"
abbreviation BAD_VALUE :: int where "BAD_VALUE \<equiv> - 22"

definition compareSetOrder :: "entries \<Rightarrow> string option \<Rightarrow> string option \<Rightarrow> int + int" where
  "compareSetOrder es key1 key2 =
     (case (key1, key2) of
        (Some k1, Some k2) \<Rightarrow>
          (case (indexOfKey k1 es, indexOfKey k2 es) of
             (Some i, Some j) \<Rightarrow> Inr (if i = j then 0 else if i < j then - 1 else 1)
           | _ \<Rightarrow> Inl NAME_NOT_FOUND)
      | _ \<Rightarrow> Inl BAD_VALUE)"

definition remove2 :: "(entries \<Rightarrow> entries) \<Rightarrow> string \<Rightarrow> entries \<Rightarrow> entries" where
  "remove2 outside key es = removeItem outside key es"

definition setPreviewFpsRange2 :: "(entries \<Rightarrow> entries) \<Rightarrow> int \<Rightarrow> int \<Rightarrow> entries \<Rightarrow> entries option" where
  "setPreviewFpsRange2 outside lo hi es = set2 outside (Some KEY_PREVIEW_FPS_RANGE) (Some (print_pair (CHR '','') lo hi)) es"

definition getPreviewFpsRange2 :: "entries \<Rightarrow> int \<times> int" where
  "getPreviewFpsRange2 es = get_pair (CHR '','') (get2 es KEY_PREVIEW_FPS_RANGE)"

definition setPreviewSize2 :: "(entries \<Rightarrow> entries) \<Rightarrow> int \<Rightarrow> int \<Rightarrow> entries \<Rightarrow> entries option" where
  "setPreviewSize2 outside w h es = set2 outside (Some KEY_PREVIEW_SIZE) (Some (print_pair (CHR ''x'') w h)) es"

definition getPreviewSize2 :: "entries \<Rightarrow> int \<times> int" where
  "getPreviewSize2 es = get_pair (CHR ''x'') (get2 es KEY_PREVIEW_SIZE)"

definition setVideoSize2 :: "(entries \<Rightarrow> entries) \<Rightarrow> int \<Rightarrow> int \<Rightarrow> entries \<Rightarrow> entries option" where
  "setVideoSize2 outside w h es = set2 outside (Some KEY_VIDEO_SIZE) (Some (print_pair (CHR ''x'') w h)) es"

definition getVideoSize2 :: "entries \<Rightarrow> int \<times> int" where
  "getVideoSize2 es = get_pair (CHR ''x'') (get2 es KEY_VIDEO_SIZE)"

definition setPictureSize2 :: "(entries \<Rightarrow> entries) \<Rightarrow> int \<Rightarrow> int \<Rightarrow> entries \<Rightarrow> entries option" where
  "setPictureSize2 outside w h es = set2 outside (Some KEY_PICTURE_SIZE) (Some (print_pair (CHR ''x'') w h)) es"

definition getPictureSize2 :: "entries \<Rightarrow> int \<times> int" where
  "getPictureSize2 es = get_pair (CHR ''x'') (get2 es KEY_PICTURE_SIZE)"

definition getPreferredPreviewSizeForVideo2 :: "entries \<Rightarrow> int \<times> int" where
  "getPreferredPreviewSizeForVideo2 es = get_pair (CHR ''x'') (get2 es KEY_PREFERRED_PREVIEW_SIZE_FOR_VIDEO)"

definition getSupportedPreviewSizes2 :: "entries \<Rightarrow> (int \<times> int) list" where
  "getSupportedPreviewSizes2 es = parseSizesList (get2 es KEY_SUPPORTED_PREVIEW_SIZES)"

definition getSupportedVideoSizes2 :: "entries \<Rightarrow> (int \<times> int) list" where
  "getSupportedVideoSizes2 es = parseSizesList (get2 es KEY_SUPPORTED_VIDEO_SIZES)"

definition getSupportedPictureSizes2 :: "entries \<Rightarrow> (int \<times> int) list" where
  "getSupportedPictureSizes2 es = parseSizesList (get2 es KEY_SUPPORTED_PICTURE_SIZES)"

definition setPreviewFrameRate2 :: "(entries \<Rightarrow> entries) \<Rightarrow> int \<Rightarrow> entries \<Rightarrow> entries option" where
  "setPreviewFrameRate2 outside fps es = set_int2 outside (Some KEY_PREVIEW_FRAME_RATE) fps es"

definition getPreviewFrameRate2 :: "entries \<Rightarrow> int" where
  "getPreviewFrameRate2 es = getInt2 es KEY_PREVIEW_FRAME_RATE"

definition setPreviewFormat2 :: "(entries \<Rightarrow> entries) \<Rightarrow> string option \<Rightarrow> entries \<Rightarrow> entries option" where
  "setPreviewFormat2 outside format es = set2 outside (Some KEY_PREVIEW_FORMAT) format es"

definition getPreviewFormat2 :: "entries \<Rightarrow> string option" where
  "getPreviewFormat2 es = get2 es KEY_PREVIEW_FORMAT"

definition setPictureFormat2 :: "(entries \<Rightarrow> entries) \<Rightarrow> string option \<Rightarrow> entries \<Rightarrow> entries option" where
  "setPictureFormat2 outside format es = set2 outside (Some KEY_PICTURE_FORMAT) format es"

definition getPictureFormat2 :: "entries \<Rightarrow> string option" where
  "getPictureFormat2 es = get2 es KEY_PICTURE_FORMAT"

section \<open>The flat form and back\<close>

text \<open>What may be in a map: no key has an equals sign, no value a semicolon.\<close>

definition tidy :: "entries \<Rightarrow> bool" where
  "tidy es \<longleftrightarrow> (\<forall>(k, v) \<in> set es. EQ \<notin> set k \<and> SEMI \<notin> set v)"

lemma tidy_simps [simp]:
  "tidy []" "tidy ((k, v) # es) \<longleftrightarrow> EQ \<notin> set k \<and> SEMI \<notin> set v \<and> tidy es" "tidy (as @ bs) \<longleftrightarrow> tidy as \<and> tidy bs"
  by (auto simp: tidy_def)

lemma tidy_subset: "tidy es \<Longrightarrow> set es' \<subseteq> set es \<Longrightarrow> tidy es'"
  by (auto simp: tidy_def)

lemma unflatten_flatten: "tidy es \<Longrightarrow> unflatten_loop add (flatten es) m = fold (\<lambda>(k, v). add k v) es m"
proof (induction es arbitrary: m rule: flatten.induct)
  case 1
  then show ?case by (simp add: unflatten_loop.simps [of add "[]"])
next
  case (2 k v es)
  show ?case
  proof (cases "es = []")
    case True
    then show ?thesis using 2 cut_at_append [of EQ k v] cut_at_None [of SEMI v] by (subst unflatten_loop.simps) simp
  next
    case False
    then have "flatten ((k, v) # es) = k @ EQ # v @ SEMI # flatten es" by simp
    then show ?thesis using 2 False cut_at_append [of EQ k "v @ SEMI # flatten es"] cut_at_append [of SEMI v "flatten es"]
      by (subst unflatten_loop.simps) simp
  qed
qed

text \<open>Whatever the string, the entries that are added are tidy.\<close>

lemma unflatten_preserves:
  assumes step: "\<And>k v m. EQ \<notin> set k \<Longrightarrow> SEMI \<notin> set v \<Longrightarrow> P m \<Longrightarrow> P (add k v m)"
  shows "P m \<Longrightarrow> P (unflatten_loop add a m)"
proof (induction "length a" arbitrary: a m rule: less_induct)
  case less
  show ?case
  proof (cases "cut_at EQ a")
    case None
    then show ?thesis using less.prems by (subst unflatten_loop.simps) simp
  next
    case (Some ka)
    obtain k a1 where k: "cut_at EQ a = Some (k, a1)" using Some by (cases ka) simp
    then have nk: "EQ \<notin> set k" and l1: "length a1 < length a" using cut_at_Some [OF k] by auto
    show ?thesis
    proof (cases "cut_at SEMI a1")
      case None
      then have "SEMI \<notin> set a1" by (simp add: cut_at_None)
      then show ?thesis using k None less.prems step nk by (subst unflatten_loop.simps) simp
    next
      case (Some va)
      obtain v a2 where v: "cut_at SEMI a1 = Some (v, a2)" using Some by (cases va) simp
      then have "SEMI \<notin> set v" "length a2 < length a" using cut_at_Some [OF v] l1 by auto
      then show ?thesis using k v less.hyps [of a2 "add k v m"] less.prems step [OF nk] by (subst unflatten_loop.simps) simp
    qed
  qed
qed

text \<open>
  What the keyed vector of the platform promises: it is a map in the order of its keys, of which each occurs once; adding and replacing set a
  key and removing deletes it.
\<close>

definition kvec_laws :: "'p kvec \<Rightarrow> bool" where
  "kvec_laws K \<longleftrightarrow>
     kv_entries K (kv_new K) = []
     \<and> (\<forall>p. distinct (map fst (kv_entries K p)))
     \<and> (\<forall>p key. kv_valueFor K p key = (case map_of (kv_entries K p) key of None \<Rightarrow> [] | Some v \<Rightarrow> v))
     \<and> (\<forall>k v p. map_of (kv_entries K (kv_add K k v p)) = (map_of (kv_entries K p))(k \<mapsto> v))
     \<and> (\<forall>k v p. map_of (kv_entries K (kv_replaceValueFor K k v p)) = (map_of (kv_entries K p))(k \<mapsto> v))
     \<and> (\<forall>k p. map_of (kv_entries K (kv_removeItem K k p)) = (map_of (kv_entries K p))(k := None))"

lemma kvec_lawsD:
  assumes "kvec_laws K"
  shows "kv_entries K (kv_new K) = []" "distinct (map fst (kv_entries K p))"
    "kv_valueFor K p key = (case map_of (kv_entries K p) key of None \<Rightarrow> [] | Some v \<Rightarrow> v)"
    "map_of (kv_entries K (kv_add K k v p)) = (map_of (kv_entries K p))(k \<mapsto> v)"
    "map_of (kv_entries K (kv_replaceValueFor K k v p)) = (map_of (kv_entries K p))(k \<mapsto> v)"
    "map_of (kv_entries K (kv_removeItem K k p)) = (map_of (kv_entries K p))(k := None)"
  using assms by (auto simp: kvec_laws_def)

definition tidy_map :: "(string \<Rightarrow> string option) \<Rightarrow> bool" where
  "tidy_map m \<longleftrightarrow> (\<forall>k v. m k = Some v \<longrightarrow> EQ \<notin> set k \<and> SEMI \<notin> set v)"

lemma tidy_map_upd:
  "tidy_map m \<Longrightarrow> EQ \<notin> set k \<Longrightarrow> SEMI \<notin> set v \<Longrightarrow> tidy_map (m(k \<mapsto> v))" "tidy_map m \<Longrightarrow> tidy_map (m(k := None))"
  by (auto simp: tidy_map_def)

lemma tidy_entries: "kvec_laws K \<Longrightarrow> tidy (kv_entries K p) \<longleftrightarrow> tidy_map (map_of (kv_entries K p))"
  by (auto simp: tidy_def tidy_map_def kvec_lawsD(2))

lemma kvec_fold:
  "kvec_laws K \<Longrightarrow> map_of (kv_entries K (fold (\<lambda>(k, v). kv_add K k v) es p)) = map_of (kv_entries K p) ++ map_of (rev es)"
proof (induction es arbitrary: p)
  case (Cons e es)
  obtain k v where e: "e = (k, v)" by (cases e)
  have "map_of (kv_entries K (kv_add K k v p)) = (map_of (kv_entries K p))(k \<mapsto> v)" by (rule kvec_lawsD(4) [OF Cons.prems])
  then show ?case using Cons by (simp add: e)
qed simp

text \<open>The calls that change the parameters.\<close>

datatype params_call = Set_param "string option" "string option" | Set_int "string option" int | Remove_param string | Unflatten string

fun params_step :: "'p kvec \<Rightarrow> params_call \<Rightarrow> 'p \<Rightarrow> 'p" where
  "params_step K (Set_param k v) p = params_set K k v p"
| "params_step K (Set_int k n) p = params_set_int K k n p"
| "params_step K (Remove_param k) p = params_remove K k p"
| "params_step K (Unflatten s) p = params_unflatten K s p"

fun params_step2 :: "(entries \<Rightarrow> entries) \<Rightarrow> params_call \<Rightarrow> entries \<Rightarrow> entries option" where
  "params_step2 outside (Set_param k v) es = set2 outside k v es"
| "params_step2 outside (Set_int k n) es = set_int2 outside k n es"
| "params_step2 outside (Remove_param k) es = Some (remove2 outside k es)"
| "params_step2 outside (Unflatten s) es = Some (unflatten2 s es)"

lemma params_set_tidy:
  assumes "kvec_laws K" "tidy (kv_entries K p)"
  shows "tidy (kv_entries K (params_set K k v p))"
  using assms by (auto simp: tidy_entries params_set_def clean_def kvec_lawsD(5) tidy_map_upd split: option.split)

lemma params_step_tidy:
  assumes L: "kvec_laws K" and t: "tidy (kv_entries K p)"
  shows "tidy (kv_entries K (params_step K call p))"
proof (cases call)
  case (Remove_param k)
  then show ?thesis using L t by (simp add: tidy_entries params_remove_def kvec_lawsD(6) tidy_map_upd)
next
  case (Unflatten s)
  have "tidy (kv_entries K (unflatten_loop (kv_add K) s (kv_new K)))"
    by (rule unflatten_preserves) (use L in \<open>simp_all add: kvec_lawsD(1) tidy_entries kvec_lawsD(4) tidy_map_upd\<close>)
  then show ?thesis using Unflatten by (simp add: params_unflatten_def)
qed (simp_all add: params_set_int_def params_set_tidy [OF L t])

text \<open>
  (C25) The string and the map: after any calls of \<^verbatim>\<open>set\<close>, \<^verbatim>\<open>remove\<close> and \<^verbatim>\<open>unflatten\<close>, whatever their arguments, the string that
  \<^verbatim>\<open>flatten\<close> gives is read back by \<^verbatim>\<open>unflatten\<close> as the same map.
\<close>

theorem params_roundtrip:
  assumes L: "kvec_laws K" and p: "p = fold (params_step K) calls (kv_new K)"
  shows "map_of (kv_entries K (params_unflatten K (params_flatten K p) q)) = map_of (kv_entries K p)"
proof -
  have "tidy (kv_entries K (fold (params_step K) calls p0))" if "tidy (kv_entries K p0)" for p0
    using that by (induction calls arbitrary: p0) (auto simp: params_step_tidy [OF L])
  then have "tidy (kv_entries K p)" using L by (simp add: p kvec_laws_def)
  then have "params_unflatten K (params_flatten K p) q = fold (\<lambda>(k, v). kv_add K k v) (kv_entries K p) (kv_new K)"
    by (simp add: params_unflatten_def params_flatten_def unflatten_flatten)
  moreover have "map_of (rev (kv_entries K p)) = map_of (kv_entries K p)"
    using kvec_lawsD(2) [OF L, of p] by (simp add: map_of_inject_set rev_map [symmetric])
  ultimately show ?thesis using L by (simp add: kvec_fold kvec_lawsD(1))
qed

lemma fold_ordered: "fold (\<lambda>(k, v). ordered_add k v) es m = m @ es"
  by (induction es arbitrary: m) (auto simp: ordered_add_def)

lemma removeItem_subset:
  assumes "\<And>es. set (outside es) \<subseteq> set es"
  shows "set (removeItem outside k es) \<subseteq> set es"
  using assms by (auto simp: removeItem_def split: option.split dest: in_set_takeD in_set_dropD)

lemma params_step2_tidy:
  assumes o: "\<And>es. set (outside es) \<subseteq> set es" and t: "tidy es" and s: "params_step2 outside call es = Some es'"
  shows "tidy es'"
proof -
  have "tidy (removeItem outside k es)" for k by (rule tidy_subset [OF t removeItem_subset]) (rule o)
  moreover have "tidy (unflatten_loop ordered_add a [])" for a by (rule unflatten_preserves) (auto simp: ordered_add_def)
  ultimately show ?thesis using t s
    by (cases call) (auto simp: set2_def set_int2_def remove2_def unflatten2_def replaceValueFor_def ordered_add_def clean_def
        split: bind_splits if_splits)
qed

text \<open>The calls that read through a null pointer: a null key, and a null value for a key that is accepted.\<close>

fun reads_null :: "params_call \<Rightarrow> bool" where
  "reads_null (Set_param key val) \<longleftrightarrow> (case key of None \<Rightarrow> True | Some k \<Rightarrow> clean k \<and> val = None)"
| "reads_null (Set_int key n) \<longleftrightarrow> key = None"
| "reads_null _ \<longleftrightarrow> False"

lemma params_step2_undefined: "params_step2 outside call es = None \<longleftrightarrow> reads_null call"
  by (cases call) (auto simp: set_int2_def set2_def split: option.splits bind_splits)

text \<open>
  (C26) The second class keeps the order and repeated keys as well: after any calls but those that read through a null pointer (a null
  key, or a null value for a key that is accepted), all of which return, reading back the flat string gives the very same list. Of the
  platform's vector, which is asked to remove an index outside it whenever a key is not there, it is assumed that it then makes up no entries.
\<close>

theorem params2_roundtrip:
  assumes o: "\<And>es. set (outside es) \<subseteq> set es" and n: "\<forall>call \<in> set calls. \<not> reads_null call"
  shows "\<exists>es. run_steps (params_step2 outside) calls [] = Some es \<and> unflatten2 (flatten2 es) es0 = es"
proof -
  have "\<exists>es. run_steps (params_step2 outside) calls es1 = Some es \<and> tidy es" if "tidy es1" for es1
    using that n
  proof (induction calls arbitrary: es1)
    case (Cons c cs)
    have "params_step2 outside c es1 \<noteq> None" using Cons.prems(2) by (simp add: params_step2_undefined)
    then obtain es2 where "params_step2 outside c es1 = Some es2" by blast
    then show ?case using Cons.IH [OF params_step2_tidy [OF o Cons.prems(1)]] Cons.prems(2) by simp
  qed simp
  then obtain es where "run_steps (params_step2 outside) calls [] = Some es" "tidy es" using tidy_simps(1) by blast
  then show ?thesis by (simp add: unflatten2_def flatten2_def unflatten_flatten fold_ordered)
qed

section \<open>Numbers and sizes\<close>

lemma show_int_strip:
  "strip_sign (dropWhile isspace (show_int n @ r)) = (n < 0, dec_digits (nat \<bar>n\<bar>) @ r)"
proof (cases "n < 0")
  case True
  then show ?thesis by (simp add: show_int_def strip_sign_def isspace_def)
next
  case False
  have d: "dropWhile isspace (dec_digits (nat n) @ r) = dec_digits (nat n) @ r" by (rule dropWhile_dec_digits)
  obtain c cs where c: "dec_digits (nat n) = c # cs" by (cases "dec_digits (nat n)") auto
  have "digit_value c < 10" using dec_digits_digits [of c "nat n"] c by simp
  then have "c \<noteq> CHR ''-'' \<and> c \<noteq> CHR ''+''" using digit_not_space by blast
  then show ?thesis using False d by (simp add: show_int_def strip_sign_def c)
qed

lemma scan_dec_rest:
  assumes "r = [] \<or> digit_value (hd r) \<ge> 10"
  shows "scan_digits 10 0 (dec_digits n @ r) = (n, r)"
  using assms scan_digits_append [of "dec_digits n" 10 0 r] dec_digits_digits [of _ n] by (cases r) auto

text \<open>What \<^verbatim>\<open>%d\<close> prints is read back, up to what follows.\<close>

lemma strtol10_show:
  assumes n: "- (2 ^ 31) \<le> n" "n < 2 ^ 31" and r: "r = [] \<or> digit_value (hd r) \<ge> 10"
  shows "strtol10 (show_int n @ r) = (n, r)"
proof -
  have "digit_value (hd (dec_digits (nat \<bar>n\<bar>) @ r)) < 10" using dec_digits_digits [of "hd (dec_digits (nat \<bar>n\<bar>))" "nat \<bar>n\<bar>"] by simp
  moreover have "clamp32 (n < 0) (nat \<bar>n\<bar>) = n" using n by (auto simp: clamp32_def)
  ultimately show ?thesis by (simp add: strtol10_def show_int_strip scan_dec_rest [OF r])
qed

lemma strtol0_show:
  assumes n: "- (2 ^ 31) \<le> n" "n < 2 ^ 31"
  shows "strtol0 (show_int n) = n"
proof (cases "n = 0")
  case True
  then show ?thesis by (simp add: strtol0_def show_int_def dec_digits_0 isspace_def strip_sign_def digit_value_def clamp32_def)
next
  case False
  have "digit_value (hd (dec_digits (nat \<bar>n\<bar>))) < 10" using dec_digits_digits [of "hd (dec_digits (nat \<bar>n\<bar>))" "nat \<bar>n\<bar>"] by simp
  moreover have "clamp32 (n < 0) (nat \<bar>n\<bar>) = n" using n by (auto simp: clamp32_def)
  ultimately show ?thesis using False show_int_strip [of n "[]"] base_prefix_dec [of "nat \<bar>n\<bar>"] by (simp add: strtol0_def)
qed

lemma clean_show: "clean (show_int n)" "show_int n \<noteq> []" "CHR ''x'' \<notin> set (show_int n)" "CHR '','' \<notin> set (show_int n)"
proof -
  have "c \<noteq> EQ \<and> c \<noteq> SEMI \<and> c \<noteq> CHR ''x'' \<and> c \<noteq> CHR '',''" if "c \<in> set (show_int n)" for c
  proof (cases "c = CHR ''-''")
    case False
    then have "digit_value c < 10" using that dec_digits_digits by (auto simp: show_int_def split: if_splits)
    then show ?thesis by (auto simp: digit_value_def)
  qed simp
  then show "clean (show_int n)" "CHR ''x'' \<notin> set (show_int n)" "CHR '','' \<notin> set (show_int n)" by (auto simp: clean_def)
  show "show_int n \<noteq> []" by (simp add: show_int_def)
qed

definition int32 :: "int \<Rightarrow> bool" where
  "int32 n \<longleftrightarrow> - (2 ^ 31) \<le> n \<and> n < 2 ^ 31"

lemma parse_print_pair:
  assumes "int32 w" "int32 h" and d: "digit_value d \<ge> 10" and r: "r = [] \<or> digit_value (hd r) \<ge> 10"
  shows "parse_pair (print_pair d w h @ r) d = Some ((w, h), r)"
  using assms strtol10_show [of w "d # show_int h @ r"] strtol10_show [of h r] by (simp add: parse_pair_def print_pair_def int32_def)

lemma get_print_pair: "int32 w \<Longrightarrow> int32 h \<Longrightarrow> digit_value d \<ge> 10 \<Longrightarrow> get_pair d (Some (print_pair d w h)) = (w, h)"
  using parse_print_pair [of w h d "[]"] by (simp add: get_pair_def)

text \<open>The list of sizes as the values of the supported sizes are written.\<close>

fun print_sizes :: "(int \<times> int) list \<Rightarrow> string" where
  "print_sizes [] = []"
| "print_sizes [(w, h)] = print_pair (CHR ''x'') w h"
| "print_sizes ((w, h) # s # ss) = print_pair (CHR ''x'') w h @ CHR '','' # print_sizes (s # ss)"

lemma x_no_digit: "digit_value (CHR ''x'') \<ge> 10" "digit_value (CHR '','') \<ge> 10"
  by (simp_all add: digit_value_def)

lemma parse_print_sizes: "\<forall>(w, h) \<in> set ss. int32 w \<and> int32 h \<Longrightarrow> ss \<noteq> [] \<Longrightarrow> parse_sizes (print_sizes ss) = ss"
proof (induction ss rule: print_sizes.induct)
  case (2 w h)
  then show ?case using parse_print_pair [of w h "CHR ''x''" "[]"] x_no_digit by (subst parse_sizes.simps) simp
next
  case (3 w h s ss)
  have "parse_pair (print_sizes ((w, h) # s # ss)) (CHR ''x'') = Some ((w, h), CHR '','' # print_sizes (s # ss))"
    using 3 parse_print_pair [of w h "CHR ''x''" "CHR '','' # print_sizes (s # ss)"] x_no_digit by simp
  then show ?case using 3 by (subst parse_sizes.simps) simp
qed simp

text \<open>A pair takes at most 24 bytes with its terminator, less than the 32 of the buffers that \<^verbatim>\<open>sprintf\<close> writes to.\<close>

lemma dec_digits_length: "n < 10 ^ Suc k \<Longrightarrow> length (dec_digits n) \<le> Suc k"
proof (induction k arbitrary: n)
  case 0
  then show ?case by (simp add: dec_digits.simps [of n])
next
  case (Suc k)
  show ?case
  proof (cases "n < 10")
    case True
    then show ?thesis by (simp add: dec_digits.simps [of n])
  next
    case False
    have "n div 10 < 10 ^ Suc k" using Suc.prems by (simp add: less_mult_imp_div_less)
    then show ?thesis using Suc.IH [of "n div 10"] False by (simp add: dec_digits.simps [of n])
  qed
qed

lemma show_int_length: "int32 n \<Longrightarrow> length (show_int n) \<le> 11"
proof -
  assume n: "int32 n"
  have "nat \<bar>n\<bar> < 10 ^ Suc 9" using n by (auto simp: int32_def)
  then have "length (dec_digits (nat \<bar>n\<bar>)) \<le> 10" using dec_digits_length [of "nat \<bar>n\<bar>" 9] by simp
  then show ?thesis by (cases "n < 0") (simp_all add: show_int_def)
qed

lemma clean_pair: "clean [d] \<Longrightarrow> clean (print_pair d w h)"
  using clean_show(1) by (auto simp: clean_def print_pair_def)

lemma clean_sizes: "clean (print_sizes ss)"
  by (induction ss rule: print_sizes.induct) (use clean_pair [of "CHR ''x''"] in \<open>auto simp: clean_def\<close>)

lemma params_get_set:
  assumes "kvec_laws K" "clean k" "clean v"
  shows "params_get K (params_set K (Some k) (Some v) p) key = (if key = k then if v = [] then None else Some v else params_get K p key)"
  using assms by (simp add: params_get_def params_set_def kvec_lawsD)

lemma clean_keys [simp]:
  "clean KEY_PREVIEW_SIZE" "clean KEY_VIDEO_SIZE" "clean KEY_PICTURE_SIZE" "clean KEY_PREVIEW_FRAME_RATE" "clean KEY_SUPPORTED_PREVIEW_SIZES"
  "clean KEY_SUPPORTED_VIDEO_SIZES" "clean KEY_SUPPORTED_PICTURE_SIZES" "clean KEY_PREVIEW_FPS_RANGE"
  by (simp_all add: clean_def key_defs)

text \<open>All keys but one have the values that they had.\<close>

definition keeps_others :: "'p kvec \<Rightarrow> string \<Rightarrow> 'p \<Rightarrow> 'p \<Rightarrow> bool" where
  "keeps_others K key p q \<longleftrightarrow> (\<forall>key'. key' \<noteq> key \<longrightarrow> params_get K q key' = params_get K p key')"

lemma set_keeps_others: "kvec_laws K \<Longrightarrow> clean k \<Longrightarrow> clean v \<Longrightarrow> keeps_others K k p (params_set K (Some k) (Some v) p)"
  by (simp add: keeps_others_def params_get_set)

lemma set_sizes:
  assumes L: "kvec_laws K" and k: "clean k" and ss: "\<forall>(a, b) \<in> set ss. int32 a \<and> int32 b"
  shows "parseSizesList (params_get K (params_set K (Some k) (Some (print_sizes ss)) p) k) = ss"
proof -
  have "print_sizes ss = [] \<longleftrightarrow> ss = []" by (cases ss rule: print_sizes.cases) (auto simp: print_pair_def)
  then show ?thesis using parse_print_sizes [OF ss] by (simp add: params_get_set [OF L k] clean_sizes parseSizesList_def)
qed

text \<open>
  (C27) Numbers survive the text: for all values of \<^verbatim>\<open>int\<close>, the getters of the preview, video and picture size and of the frame rate
  return what was set, and those of the supported preview, video and picture sizes a list that was written in their form. Each of these setters leaves all other keys
  as they were, and no printed pair overruns the buffer of 32 bytes.
\<close>

theorem params_numbers_roundtrip:
  assumes L: "kvec_laws K" and wh: "int32 w" "int32 h" and ss: "\<forall>(a, b) \<in> set ss. int32 a \<and> int32 b"
  shows "getPreviewSize K (setPreviewSize K w h p) = (w, h) \<and> keeps_others K KEY_PREVIEW_SIZE p (setPreviewSize K w h p)
    \<and> getVideoSize K (setVideoSize K w h p) = (w, h) \<and> keeps_others K KEY_VIDEO_SIZE p (setVideoSize K w h p)
    \<and> getPictureSize K (setPictureSize K w h p) = (w, h) \<and> keeps_others K KEY_PICTURE_SIZE p (setPictureSize K w h p)
    \<and> getPreviewFrameRate K (setPreviewFrameRate K w p) = w \<and> keeps_others K KEY_PREVIEW_FRAME_RATE p (setPreviewFrameRate K w p)
    \<and> getSupportedPreviewSizes K (params_set K (Some KEY_SUPPORTED_PREVIEW_SIZES) (Some (print_sizes ss)) p) = ss
    \<and> getSupportedVideoSizes K (params_set K (Some KEY_SUPPORTED_VIDEO_SIZES) (Some (print_sizes ss)) p) = ss
    \<and> getSupportedPictureSizes K (params_set K (Some KEY_SUPPORTED_PICTURE_SIZES) (Some (print_sizes ss)) p) = ss
    \<and> length (print_pair (CHR ''x'') w h) < 32"
proof -
  have c: "clean (print_pair (CHR ''x'') w h)" "print_pair (CHR ''x'') w h \<noteq> []"
    using clean_pair [of "CHR ''x''"] by (simp_all add: clean_def print_pair_def)
  note g = get_print_pair [OF wh x_no_digit(1)]
  have "getPreviewSize K (setPreviewSize K w h p) = (w, h)" "getVideoSize K (setVideoSize K w h p) = (w, h)"
    "getPictureSize K (setPictureSize K w h p) = (w, h)"
    using c g by (simp_all add: getPreviewSize_def setPreviewSize_def getVideoSize_def setVideoSize_def getPictureSize_def
        setPictureSize_def params_get_set [OF L])
  moreover have "getPreviewFrameRate K (setPreviewFrameRate K w p) = w"
    using wh(1) by (simp add: getPreviewFrameRate_def setPreviewFrameRate_def params_getInt_def params_set_int_def params_get_set [OF L]
        clean_show strtol0_show int32_def)
  moreover have "keeps_others K KEY_PREVIEW_SIZE p (setPreviewSize K w h p)" "keeps_others K KEY_VIDEO_SIZE p (setVideoSize K w h p)"
    "keeps_others K KEY_PICTURE_SIZE p (setPictureSize K w h p)" "keeps_others K KEY_PREVIEW_FRAME_RATE p (setPreviewFrameRate K w p)"
    using set_keeps_others [OF L] c(1) clean_show(1)
    by (simp_all add: setPreviewSize_def setVideoSize_def setPictureSize_def setPreviewFrameRate_def params_set_int_def)
  moreover have "getSupportedPreviewSizes K (params_set K (Some KEY_SUPPORTED_PREVIEW_SIZES) (Some (print_sizes ss)) p) = ss"
    "getSupportedVideoSizes K (params_set K (Some KEY_SUPPORTED_VIDEO_SIZES) (Some (print_sizes ss)) p) = ss"
    "getSupportedPictureSizes K (params_set K (Some KEY_SUPPORTED_PICTURE_SIZES) (Some (print_sizes ss)) p) = ss"
    by (simp_all add: getSupportedPreviewSizes_def getSupportedVideoSizes_def getSupportedPictureSizes_def set_sizes [OF L _ ss])
  moreover have "length (print_pair (CHR ''x'') w h) < 32" using show_int_length [OF wh(1)] show_int_length [OF wh(2)] by (simp add: print_pair_def)
  ultimately show ?thesis by blast
qed

section \<open>The order of setting\<close>

lemma indexOfKey_None: "indexOfKey k es = None \<longleftrightarrow> k \<notin> fst ` set es"
  by (induction k es rule: indexOfKey.induct) auto

lemma indexOfKey_append:
  "indexOfKey k (as @ bs) = (case indexOfKey k as of Some i \<Rightarrow> Some i | None \<Rightarrow> map_option (\<lambda>i. length as + i) (indexOfKey k bs))"
proof (induction as)
  case Nil
  then show ?case by (cases "indexOfKey k bs") simp_all
next
  case (Cons e as)
  obtain a b where "e = (a, b)" by (cases e)
  then show ?case using Cons by (cases "indexOfKey k bs"; cases "indexOfKey k as") simp_all
qed

lemma indexOfKey_less: "indexOfKey k es = Some i \<Longrightarrow> i < length es"
  by (induction k es arbitrary: i rule: indexOfKey.induct) (auto split: if_splits)

lemma removeItem_filter:
  assumes "distinct (map fst es)" and "\<And>es. outside es = es"
  shows "removeItem outside k es = filter (\<lambda>e. fst e \<noteq> k) es"
  using assms(1)
proof (induction k es rule: indexOfKey.induct)
  case (2 key k v es)
  show ?case
  proof (cases "k = key")
    case True
    then have "key \<notin> fst ` set es" using 2 by simp
    then have "filter (\<lambda>e. fst e \<noteq> key) es = es" by (auto simp: filter_id_conv)
    then show ?thesis using True by (simp add: removeItem_def)
  next
    case False
    then have ih: "removeItem outside key es = filter (\<lambda>e. fst e \<noteq> key) es" using 2 by simp
    show ?thesis using False ih assms(2) by (cases "indexOfKey key es") (auto simp: removeItem_def)
  qed
qed (simp add: removeItem_def assms(2))

lemma get2_map_of: "get2 es k = map_of es k"
  by (induction k es rule: indexOfKey.induct) (auto simp: get2_def option.map_comp comp_def)

text \<open>
  The key that was set last comes last: in a map without repeated keys, setting a clean key to a clean value makes that
  the value, leaves the others alone, and orders the key after every other key that is set.
\<close>

theorem set2_latest:
  assumes d: "distinct (map fst es)" and o: "\<And>es. outside es = es" and c: "clean k" "clean v"
  shows "\<exists>es'. set2 outside (Some k) (Some v) es = Some es' \<and> distinct (map fst es') \<and> get2 es' k = Some v
    \<and> (\<forall>k'. k' \<noteq> k \<longrightarrow> get2 es' k' = get2 es k'
         \<and> compareSetOrder es' (Some k') (Some k) = (if get2 es k' = None then Inl NAME_NOT_FOUND else Inr (- 1)))"
proof -
  let ?r = "filter (\<lambda>e. fst e \<noteq> k) es" and ?es = "filter (\<lambda>e. fst e \<noteq> k) es @ [(k, v)]"
  have s: "set2 outside (Some k) (Some v) es = Some ?es"
    using c by (simp add: set2_def replaceValueFor_def ordered_add_def removeItem_filter [OF d o])
  have dist: "distinct (map fst ?es)" using d by (auto simp: distinct_map_filter)
  have k: "indexOfKey k ?r = None" by (auto simp: indexOfKey_None)
  have ik: "indexOfKey k ?es = Some (length ?r)" by (simp add: indexOfKey_append k)
  have r: "map_of ?r k' = map_of es k'" if "k' \<noteq> k" for k' using that by (induction es) auto
  have rk: "map_of ?r k = None" by (induction es) auto
  have g: "get2 ?es k' = (if k' = k then Some v else get2 es k')" for k'
    using r [of k'] rk by (auto simp: get2_map_of map_add_def split: option.split)
  have "compareSetOrder ?es (Some k') (Some k) = (if get2 es k' = None then Inl NAME_NOT_FOUND else Inr (- 1))" if "k' \<noteq> k" for k'
  proof (cases "indexOfKey k' ?r")
    case None
    then have "map_of ?r k' = None" by (simp add: indexOfKey_None map_of_eq_None_iff)
    then show ?thesis using None that r [OF that] by (simp add: compareSetOrder_def indexOfKey_append get2_map_of)
  next
    case (Some i)
    then have "map_of ?r k' \<noteq> None" by (metis indexOfKey_None map_of_eq_None_iff option.distinct(1))
    then show ?thesis using Some that r [OF that] ik indexOfKey_less [OF Some] by (simp add: compareSetOrder_def indexOfKey_append get2_map_of)
  qed
  then show ?thesis using s dist g by auto
qed

text \<open>
  Reading a string adds a repeated key a second time, and setting that key then replaces the first of them only: the
  getter returns neither the value that was set nor the one that came first.
\<close>

lemma set_after_repeated_key:
  "Option.bind (set2 (\<lambda>es. es) (Some ''a'') (Some ''3'') (unflatten2 ''a=1;a=2'' [])) (\<lambda>es. get2 es ''a'') = Some ''2''"
proof -
  have "unflatten2 ''a=1;a=2'' [] = [(''a'', ''1''), (''a'', ''2'')]"
    by (simp add: unflatten2_def unflatten_loop.simps ordered_add_def)
  then show ?thesis by (simp add: set2_def clean_def replaceValueFor_def removeItem_def ordered_add_def get2_def)
qed

section \<open>Examples\<close>

definition canonical :: "entries \<Rightarrow> entries" where
  "canonical p = map (\<lambda>k. (k, the (map_of p k))) (remdups (map fst p))"

definition demo_kvec :: "entries kvec" where
  "demo_kvec = \<lparr>kv_new = [], kv_entries = canonical,
     kv_valueFor = (\<lambda>p k. case map_of p k of None \<Rightarrow> [] | Some v \<Rightarrow> v), kv_add = (\<lambda>k v p. (k, v) # p),
     kv_replaceValueFor = (\<lambda>k v p. (k, v) # p), kv_removeItem = (\<lambda>k p. filter (\<lambda>e. fst e \<noteq> k) p)\<rparr>"

lemma demo_kvec_laws: "kvec_laws demo_kvec"
proof -
  have "map_of (canonical p) = map_of p" "distinct (map fst (canonical p))" "canonical [] = []" for p
    by (simp_all add: canonical_def map_of_canonical comp_def)
  then show ?thesis by (simp add: kvec_laws_def demo_kvec_def map_of_without)
qed

theorem params_roundtrip_witness:
  "map_of (kv_entries demo_kvec (params_unflatten demo_kvec (params_flatten demo_kvec
      (fold (params_step demo_kvec) [Set_int (Some ''zoom'') 3, Unflatten ''a=1;b=2;a=3'', Remove_param ''b''] (kv_new demo_kvec))) [])) ''a'' = Some ''3''"
  unfolding params_roundtrip [OF demo_kvec_laws refl]
  by (simp add: params_unflatten_def params_remove_def unflatten_loop.simps demo_kvec_def canonical_def)

theorem params2_roundtrip_witness:
  "\<exists>es. run_steps (params_step2 (\<lambda>es. es)) [Unflatten ''b=2;a=x=y;b=1'', Set_int (Some ''zoom'') 3, Remove_param ''none''] [] = Some es
     \<and> es = [(''b'', ''2''), (''a'', ''x=y''), (''b'', ''1''), (''zoom'', ''3'')] \<and> unflatten2 (flatten2 es) [] = es"
proof -
  let ?calls = "[Unflatten ''b=2;a=x=y;b=1'', Set_int (Some ''zoom'') 3, Remove_param ''none'']"
  have r: "run_steps (params_step2 (\<lambda>es. es)) ?calls [] = Some [(''b'', ''2''), (''a'', ''x=y''), (''b'', ''1''), (''zoom'', ''3'')]"
    by (simp add: unflatten2_def unflatten_loop.simps ordered_add_def set_int2_def set2_def clean_def replaceValueFor_def removeItem_def
        remove2_def show_int_def dec_digits.simps [of 3] char_of_def bit_Suc_0_iff)
  have "\<forall>call \<in> set ?calls. \<not> reads_null call" by simp
  from params2_roundtrip [OF order_refl this, of "[]"] show ?thesis using r by simp
qed

theorem params_numbers_roundtrip_witness:
  "getPreviewSize demo_kvec (setPreviewSize demo_kvec 640 (- 480) []) = (640, - 480)
   \<and> getSupportedVideoSizes demo_kvec (params_set demo_kvec (Some KEY_SUPPORTED_VIDEO_SIZES) (Some (print_sizes [(640, 480), (1, 2)])) [])
       = [(640, 480), (1, 2)]
   \<and> keeps_others demo_kvec KEY_PREVIEW_FRAME_RATE [] (setPreviewFrameRate demo_kvec 640 [])"
proof -
  have i: "int32 640" "int32 (- 480)" "\<forall>(a, b) \<in> set [(640, 480), (1, 2)]. int32 a \<and> int32 b" by (simp_all add: int32_def)
  show ?thesis using params_numbers_roundtrip [OF demo_kvec_laws i, of "[]"] by simp
qed

theorem set2_latest_witness:
  "\<exists>es'. set2 (\<lambda>es. es) (Some ''a'') (Some ''3'') [(''a'', ''1''), (''b'', ''2'')] = Some es'
     \<and> compareSetOrder es' (Some ''b'') (Some ''a'') = Inr (- 1)"
proof -
  have "distinct (map fst [(''a'', ''1''), (''b'', ''2'')])" "clean ''a''" "clean ''3''" by (simp_all add: clean_def)
  from set2_latest [OF this(1) refl this(2,3)] show ?thesis by (force simp: get2_def)
qed

end
