(* ===== verification/Cam_Class.thy ===== *)
theory Cam_Class
  imports Mocha_Prelude "HOL-Library.Countable"
begin

text \<open>
  The class CameraMetadata of the camera client library (libmocha/camera/CameraMetadata.cpp): an owner of a metadata buffer that
  grows it on demand, checks types, can be locked, and travels in parcels. The buffers themselves belong to the platform's
  library camera_metadata, which is a parameter: \<open>'b\<close> are the contents of a buffer and \<open>'k\<close> is the state of the memory.
\<close>

section \<open>The library and the object\<close>

abbreviation (input) OK_STATUS :: int where "OK_STATUS \<equiv> 0"
abbreviation (input) NO_MEMORY :: int where "NO_MEMORY \<equiv> - 12"
abbreviation (input) INVALID_OPERATION :: int where "INVALID_OPERATION \<equiv> - 38"
abbreviation (input) BAD_VALUE_STATUS :: int where "BAD_VALUE_STATUS \<equiv> - 22"
abbreviation (input) NOT_FOUND :: int where "NOT_FOUND \<equiv> - 2"

text \<open>The data of an entry: the type of the elements it points to and the elements.\<close>

type_synonym mdata = "int \<times> int list"

text \<open>
  The functions of camera_metadata. A buffer that is passed by a pointer which may be null is an \<open>option\<close>; \<open>mc_find\<close> gives a status and,
  if it is 0, an index. \<open>mc_compact\<close> are the bytes that \<^verbatim>\<open>copy_camera_metadata\<close> writes, \<open>mc_copy_checked\<close> validates and copies them.
\<close>

record ('b, 'k) meta_c =
  mc_allocate :: "nat \<Rightarrow> nat \<Rightarrow> 'k \<Rightarrow> (nat \<times> 'b) option \<times> 'k"
  mc_clone :: "'b option \<Rightarrow> 'k \<Rightarrow> (nat \<times> 'b) option \<times> 'k"
  mc_free :: "nat \<Rightarrow> 'k \<Rightarrow> 'k"
  mc_entries :: "'b \<Rightarrow> (int \<times> mdata) list"
  mc_data_count :: "'b \<Rightarrow> nat"
  mc_entry_capacity :: "'b \<Rightarrow> nat"
  mc_data_capacity :: "'b \<Rightarrow> nat"
  mc_size :: "'b option \<Rightarrow> nat"
  mc_tag_type :: "int \<Rightarrow> int"
  mc_data_size :: "int \<Rightarrow> nat \<Rightarrow> nat"
  mc_find :: "'b option \<Rightarrow> int \<Rightarrow> int \<times> nat"
  mc_add :: "'b \<Rightarrow> int \<Rightarrow> mdata \<Rightarrow> int \<times> 'b"
  mc_update :: "'b \<Rightarrow> nat \<Rightarrow> mdata \<Rightarrow> int \<times> 'b"
  mc_delete :: "'b \<Rightarrow> nat \<Rightarrow> int \<times> 'b"
  mc_append :: "'b option \<Rightarrow> 'b \<Rightarrow> int \<times> 'b option"
  mc_sort :: "'b option \<Rightarrow> int \<times> 'b option"
  mc_compact :: "'b \<Rightarrow> u8 list"
  mc_alignment :: nat
  mc_copy_checked :: "u8 list \<Rightarrow> 'k \<Rightarrow> (nat \<times> 'b) option \<times> 'k"

record 'b CameraMetadata =
  mBuffer :: "(nat \<times> 'b) option"
  mLocked :: bool

abbreviation buf :: "'b CameraMetadata \<Rightarrow> 'b option" where "buf m \<equiv> map_option snd (mBuffer m)"

section \<open>Ownership\<close>

definition new_metadata :: "'b CameraMetadata" where
  "new_metadata = \<lparr>mBuffer = None, mLocked = False\<rparr>"

definition new_capacity :: "('b, 'k) meta_c \<Rightarrow> nat \<Rightarrow> nat \<Rightarrow> 'k \<Rightarrow> 'b CameraMetadata \<times> 'k" where
  "new_capacity C entryCapacity dataCapacity k =
     (case mc_allocate C entryCapacity dataCapacity k of (b, k1) \<Rightarrow> (\<lparr>mBuffer = b, mLocked = False\<rparr>, k1))"

definition copy_metadata :: "('b, 'k) meta_c \<Rightarrow> 'b CameraMetadata \<Rightarrow> 'k \<Rightarrow> 'b CameraMetadata \<times> 'k" where
  "copy_metadata C other k = (case mc_clone C (buf other) k of (b, k1) \<Rightarrow> (\<lparr>mBuffer = b, mLocked = False\<rparr>, k1))"

definition clear :: "('b, 'k) meta_c \<Rightarrow> 'b CameraMetadata \<Rightarrow> 'k \<Rightarrow> 'b CameraMetadata \<times> 'k" where
  "clear C m k =
     (if mLocked m then (m, k)
      else case mBuffer m of None \<Rightarrow> (m, k) | Some (a, _) \<Rightarrow> (m\<lparr>mBuffer := None\<rparr>, mc_free C a k))"

text \<open>Assignment of a buffer, which is cloned unless it is the object's own.\<close>

definition assign :: "('b, 'k) meta_c \<Rightarrow> 'b CameraMetadata \<Rightarrow> (nat \<times> 'b) option \<Rightarrow> 'k \<Rightarrow> 'b CameraMetadata \<times> 'k" where
  "assign C m buffer k =
     (if mLocked m then (m, k)
      else if map_option fst buffer = map_option fst (mBuffer m) then (m, k)
      else case mc_clone C (map_option snd buffer) k of (newBuffer, k1) \<Rightarrow>
        (case clear C m k1 of (m1, k2) \<Rightarrow> (m1\<lparr>mBuffer := newBuffer\<rparr>, k2)))"

definition destroy :: "('b, 'k) meta_c \<Rightarrow> 'b CameraMetadata \<Rightarrow> 'k \<Rightarrow> 'k" where
  "destroy C m k = snd (clear C (m\<lparr>mLocked := False\<rparr>) k)"

definition getAndLock :: "'b CameraMetadata \<Rightarrow> nat option \<times> 'b CameraMetadata" where
  "getAndLock m = (map_option fst (mBuffer m), m\<lparr>mLocked := True\<rparr>)"

definition unlock :: "nat option \<Rightarrow> 'b CameraMetadata \<Rightarrow> int \<times> 'b CameraMetadata" where
  "unlock buffer m =
     (if \<not> mLocked m then (INVALID_OPERATION, m)
      else if buffer \<noteq> map_option fst (mBuffer m) then (BAD_VALUE_STATUS, m)
      else (OK_STATUS, m\<lparr>mLocked := False\<rparr>))"

definition release :: "'b CameraMetadata \<Rightarrow> (nat \<times> 'b) option \<times> 'b CameraMetadata" where
  "release m = (if mLocked m then (None, m) else (mBuffer m, m\<lparr>mBuffer := None\<rparr>))"

definition acquire :: "('b, 'k) meta_c \<Rightarrow> 'b CameraMetadata \<Rightarrow> (nat \<times> 'b) option \<Rightarrow> 'k \<Rightarrow> 'b CameraMetadata \<times> 'k" where
  "acquire C m buffer k =
     (if mLocked m then (m, k) else case clear C m k of (m1, k1) \<Rightarrow> (m1\<lparr>mBuffer := buffer\<rparr>, k1))"

definition acquire_other ::
  "('b, 'k) meta_c \<Rightarrow> 'b CameraMetadata \<Rightarrow> 'b CameraMetadata \<Rightarrow> 'k \<Rightarrow> ('b CameraMetadata \<times> 'b CameraMetadata) \<times> 'k" where
  "acquire_other C m other k =
     (if mLocked m then ((m, other), k)
      else case release other of (b, other1) \<Rightarrow> (case acquire C m b k of (m1, k1) \<Rightarrow> ((m1, other1), k1)))"

definition swap :: "'b CameraMetadata \<Rightarrow> 'b CameraMetadata \<Rightarrow> 'b CameraMetadata \<times> 'b CameraMetadata" where
  "swap m other =
     (if mLocked m \<or> mLocked other then (m, other) else (m\<lparr>mBuffer := mBuffer other\<rparr>, other\<lparr>mBuffer := mBuffer m\<rparr>))"

section \<open>Entries\<close>

text \<open>The counts are bounded by the memory that the entries take, so that the sums and products do not wrap.\<close>

definition resizeIfNeeded :: "('b, 'k) meta_c \<Rightarrow> 'b CameraMetadata \<Rightarrow> nat \<Rightarrow> nat \<Rightarrow> 'k \<Rightarrow> (int \<times> 'b CameraMetadata) \<times> 'k" where
  "resizeIfNeeded C m extraEntries extraData k =
     (case mBuffer m of
        None \<Rightarrow>
          (case mc_allocate C (extraEntries * 2) (extraData * 2) k of
             (None, k1) \<Rightarrow> ((NO_MEMORY, m), k1)
           | (Some nb, k1) \<Rightarrow> ((OK_STATUS, m\<lparr>mBuffer := Some nb\<rparr>), k1))
      | Some (a, b) \<Rightarrow>
          let currentEntryCap = mc_entry_capacity C b; entries = length (mc_entries C b) + extraEntries;
              newEntryCount = (if entries > currentEntryCap then entries * 2 else currentEntryCap);
              currentDataCap = mc_data_capacity C b; data = mc_data_count C b + extraData;
              newDataCount = (if data > currentDataCap then data * 2 else currentDataCap)
          in if newEntryCount > currentEntryCap \<or> newDataCount > currentDataCap
             then (case mc_allocate C newEntryCount newDataCount k of
                     (None, k1) \<Rightarrow> ((NO_MEMORY, m\<lparr>mBuffer := None\<rparr>), k1)
                   | (Some (a1, b1), k1) \<Rightarrow> ((OK_STATUS, m\<lparr>mBuffer := map_option (Pair a1) (snd (mc_append C (Some b1) b))\<rparr>), mc_free C a k1))
             else ((OK_STATUS, m), k))"

definition with_buffer :: "'b CameraMetadata \<Rightarrow> 'b option \<Rightarrow> 'b CameraMetadata" where
  "with_buffer m b = m\<lparr>mBuffer := (case (mBuffer m, b) of (Some (a, _), Some b1) \<Rightarrow> Some (a, b1) | _ \<Rightarrow> None)\<rparr>"

text \<open>\<^verbatim>\<open>append\<close>; \<open>None\<close> when it reads the counts through a null pointer.\<close>

definition append_metadata :: "('b, 'k) meta_c \<Rightarrow> 'b CameraMetadata \<Rightarrow> 'b option \<Rightarrow> 'k \<Rightarrow> ((int \<times> 'b CameraMetadata) \<times> 'k) option" where
  "append_metadata C m other k =
     (if mLocked m then Some ((INVALID_OPERATION, m), k)
      else do {
        ob \<leftarrow> other;
        (case resizeIfNeeded C m (length (mc_entries C ob)) (mc_data_count C ob) k of ((_, m1), k1) \<Rightarrow>
           (case mc_append C (buf m1) ob of (res, b1) \<Rightarrow> Some ((res, with_buffer m1 b1), k1)))
      })"

definition entryCount :: "('b, 'k) meta_c \<Rightarrow> 'b CameraMetadata \<Rightarrow> nat" where
  "entryCount C m = (case mBuffer m of None \<Rightarrow> 0 | Some (_, b) \<Rightarrow> length (mc_entries C b))"

definition isEmpty :: "('b, 'k) meta_c \<Rightarrow> 'b CameraMetadata \<Rightarrow> bool" where
  "isEmpty C m \<longleftrightarrow> entryCount C m = 0"

definition sort_metadata :: "('b, 'k) meta_c \<Rightarrow> 'b CameraMetadata \<Rightarrow> int \<times> 'b CameraMetadata" where
  "sort_metadata C m =
     (if mLocked m then (INVALID_OPERATION, m) else case mc_sort C (buf m) of (res, b) \<Rightarrow> (res, with_buffer m b))"

definition checkType :: "('b, 'k) meta_c \<Rightarrow> int \<Rightarrow> int \<Rightarrow> int" where
  "checkType C tag expectedType =
     (let tagType = mc_tag_type C tag in
      if tagType = - 1 then INVALID_OPERATION else if tagType \<noteq> expectedType then INVALID_OPERATION else OK_STATUS)"

text \<open>\<open>dataAddr\<close> is the address of the data, which must not lie inside the object's own buffer.\<close>

definition updateImpl ::
  "('b, 'k) meta_c \<Rightarrow> 'b CameraMetadata \<Rightarrow> int \<Rightarrow> nat \<Rightarrow> mdata \<Rightarrow> 'k \<Rightarrow> (int \<times> 'b CameraMetadata) \<times> 'k" where
  "updateImpl C m tag dataAddr data k =
     (if mLocked m then ((INVALID_OPERATION, m), k)
      else
        let type = mc_tag_type C tag; bufferSize = mc_size C (buf m);
            bufAddr = (case mBuffer m of None \<Rightarrow> 0 | Some (a, _) \<Rightarrow> a)
        in if type = - 1 then ((BAD_VALUE_STATUS, m), k)
           else if dataAddr > bufAddr \<and> dataAddr < bufAddr + bufferSize then ((INVALID_OPERATION, m), k)
           else case resizeIfNeeded C m 1 (mc_data_size C type (length (snd data))) k of ((res, m1), k1) \<Rightarrow>
             if res \<noteq> OK_STATUS then ((res, m1), k1)
             else case mc_find C (buf m1) tag of (found, idx) \<Rightarrow>
               (case mBuffer m1 of
                  None \<Rightarrow> ((found, m1), k1)
                | Some (a, b) \<Rightarrow>
                    if found = NOT_FOUND
                    then (case mc_add C b tag data of (r, b1) \<Rightarrow> ((r, m1\<lparr>mBuffer := Some (a, b1)\<rparr>), k1))
                    else if found = OK_STATUS
                    then (case mc_update C b idx data of (r, b1) \<Rightarrow> ((r, m1\<lparr>mBuffer := Some (a, b1)\<rparr>), k1))
                    else ((found, m1), k1)))"

text \<open>The overloads of \<^verbatim>\<open>update\<close>, one for each type of data, and the one for strings.\<close>

definition update_metadata ::
  "('b, 'k) meta_c \<Rightarrow> 'b CameraMetadata \<Rightarrow> int \<Rightarrow> nat \<Rightarrow> mdata \<Rightarrow> 'k \<Rightarrow> (int \<times> 'b CameraMetadata) \<times> 'k" where
  "update_metadata C m tag dataAddr data k =
     (if mLocked m then ((INVALID_OPERATION, m), k)
      else let res = checkType C tag (fst data) in
        if res \<noteq> OK_STATUS then ((res, m), k) else updateImpl C m tag dataAddr data k)"

abbreviation (input) TYPE_BYTE :: int where "TYPE_BYTE \<equiv> 0"

definition update_string ::
  "('b, 'k) meta_c \<Rightarrow> 'b CameraMetadata \<Rightarrow> int \<Rightarrow> nat \<Rightarrow> string \<Rightarrow> 'k \<Rightarrow> (int \<times> 'b CameraMetadata) \<times> 'k" where
  "update_string C m tag dataAddr str k = update_metadata C m tag dataAddr (TYPE_BYTE, map of_char str @ [0]) k"

definition exists_tag :: "('b, 'k) meta_c \<Rightarrow> 'b CameraMetadata \<Rightarrow> int \<Rightarrow> bool" where
  "exists_tag C m tag \<longleftrightarrow> fst (mc_find C (buf m) tag) = 0"

text \<open>\<open>None\<close> is an entry with count 0. The first function is the one for objects that can change.\<close>

definition find_const :: "('b, 'k) meta_c \<Rightarrow> 'b CameraMetadata \<Rightarrow> int \<Rightarrow> mdata option" where
  "find_const C m tag =
     (case (mc_find C (buf m) tag, mBuffer m) of
        ((res, idx), Some (_, b)) \<Rightarrow> if res \<noteq> OK_STATUS then None else Some (snd (mc_entries C b ! idx))
      | _ \<Rightarrow> None)"

definition find_metadata :: "('b, 'k) meta_c \<Rightarrow> 'b CameraMetadata \<Rightarrow> int \<Rightarrow> mdata option" where
  "find_metadata C m tag = (if mLocked m then None else find_const C m tag)"

definition erase_metadata :: "('b, 'k) meta_c \<Rightarrow> 'b CameraMetadata \<Rightarrow> int \<Rightarrow> int \<times> 'b CameraMetadata" where
  "erase_metadata C m tag =
     (if mLocked m then (INVALID_OPERATION, m)
      else case mc_find C (buf m) tag of (res, idx) \<Rightarrow>
        if res = NOT_FOUND then (OK_STATUS, m)
        else if res \<noteq> OK_STATUS then (res, m)
        else case mBuffer m of
          None \<Rightarrow> (res, m)
        | Some (a, b) \<Rightarrow> (case mc_delete C b idx of (r, b1) \<Rightarrow> (r, m\<lparr>mBuffer := Some (a, b1)\<rparr>)))"

section \<open>Parcels\<close>

text \<open>
  A parcel as far as it is used: numbers and blobs in their order. The platform's parcel may refuse a write (\<open>pc_int\<close> and \<open>pc_blob\<close>
  give its status) and chooses the address of a blob; what the blob has besides the metadata is arbitrary (\<open>pc_fill\<close>).
\<close>

datatype parcel_item = PInt int | PBlob "u8 list"

record parcel_env =
  pc_int :: "parcel_item list \<Rightarrow> int \<Rightarrow> int"
  pc_blob :: "parcel_item list \<Rightarrow> nat \<Rightarrow> int"
  pc_addr :: "parcel_item list \<Rightarrow> u32"
  pc_fill :: "nat \<Rightarrow> u8"

definition parcel_int :: "parcel_env \<Rightarrow> int \<Rightarrow> parcel_item list \<Rightarrow> int \<times> parcel_item list" where
  "parcel_int P n ps = (let r = pc_int P ps n in (r, if r = 0 then ps @ [PInt n] else ps))"

definition ALIGN_TO :: "u32 \<Rightarrow> u32 \<Rightarrow> u32" where
  "ALIGN_TO val alignment = (val + (alignment - 1)) AND NOT (alignment - 1)"

abbreviation as_int32 :: "nat \<Rightarrow> int" where "as_int32 n \<equiv> sint (of_nat n :: u32)"
abbreviation as_size :: "int \<Rightarrow> nat" where "as_size i \<equiv> unat (word_of_int i :: u32)"

text \<open>The blob with the metadata at an aligned address; the status and the offset that were reached.\<close>

definition write_blob :: "('b, 'k) meta_c \<Rightarrow> parcel_env \<Rightarrow> 'b \<Rightarrow> parcel_item list \<Rightarrow> (int \<times> nat) \<times> parcel_item list" where
  "write_blob C P b ps =
     (let bytes = mc_compact C b; alignment = mc_alignment C; blobSize = length bytes + alignment; r = pc_blob P ps blobSize in
      if r \<noteq> 0 then ((r, 0), ps)
      else
        let addr = pc_addr P ps; offset = unat (ALIGN_TO addr (of_nat alignment) - addr)
        in ((0, offset), ps @ [PBlob (map (pc_fill P) [0..<offset] @ bytes @ map (pc_fill P) [offset..<alignment])]))"

definition writeToParcel :: "('b, 'k) meta_c \<Rightarrow> parcel_env \<Rightarrow> 'b option \<Rightarrow> parcel_item list \<Rightarrow> int \<times> parcel_item list" where
  "writeToParcel C P metadata ps =
     (case metadata of
        None \<Rightarrow> parcel_int P 0 ps
      | Some b \<Rightarrow>
          (case parcel_int P (as_int32 (length (mc_compact C b) + mc_alignment C)) ps of (res, ps1) \<Rightarrow>
             if res \<noteq> 0 then (res, ps1)
             else case write_blob C P b ps1 of ((_, offset), ps2) \<Rightarrow> parcel_int P (as_int32 offset) ps2))"

text \<open>Reading takes the items from the front; \<open>-\<close>\<^verbatim>\<open>ENODATA\<close> stands for the status of a read that finds something else.\<close>

abbreviation (input) NOT_ENOUGH_DATA :: int where "NOT_ENOUGH_DATA \<equiv> - 61"

fun read_int :: "parcel_item list \<Rightarrow> int + int \<times> parcel_item list" where
  "read_int (PInt n # ps) = Inr (n, ps)"
| "read_int ps = Inl NOT_ENOUGH_DATA"

fun read_blob :: "nat \<Rightarrow> parcel_item list \<Rightarrow> int + u8 list \<times> parcel_item list" where
  "read_blob n (PBlob bs # ps) = (if n \<le> length bs then Inr (take n bs, ps) else Inl NOT_ENOUGH_DATA)"
| "read_blob n ps = Inl NOT_ENOUGH_DATA"

definition read_metadata :: "('b, 'k) meta_c \<Rightarrow> nat \<Rightarrow> parcel_item list \<Rightarrow> 'k \<Rightarrow> (int \<times> (nat \<times> 'b) option) \<times> 'k" where
  "read_metadata C blobSize ps k =
     (case read_blob blobSize ps of
        Inl e \<Rightarrow> ((e, None), k)
      | Inr (bs, ps1) \<Rightarrow>
          (case read_int ps1 of
             Inl e \<Rightarrow> ((e, None), k)
           | Inr (off, _) \<Rightarrow>
               let offset = as_size off in
               if offset \<ge> mc_alignment C then ((BAD_VALUE_STATUS, None), k)
               else (case mc_copy_checked C (take (blobSize - mc_alignment C) (drop offset bs)) k of
                       (None, k1) \<Rightarrow> ((BAD_VALUE_STATUS, None), k1)
                     | (Some nb, k1) \<Rightarrow> ((OK_STATUS, Some nb), k1))))"

definition readFromParcel :: "('b, 'k) meta_c \<Rightarrow> parcel_item list \<Rightarrow> 'k \<Rightarrow> (int \<times> (nat \<times> 'b) option) \<times> 'k" where
  "readFromParcel C ps k =
     (case read_int ps of
        Inl e \<Rightarrow> ((e, None), k)
      | Inr (tmp, ps1) \<Rightarrow>
          let blobSize = as_size tmp in
          if blobSize = 0 then ((OK_STATUS, None), k)
          else if blobSize \<le> mc_alignment C then ((BAD_VALUE_STATUS, None), k)
          else read_metadata C blobSize ps1 k)"

text \<open>The methods of the object; \<open>None\<close> is a null pointer to the parcel.\<close>

definition object_write :: "('b, 'k) meta_c \<Rightarrow> parcel_env \<Rightarrow> 'b CameraMetadata \<Rightarrow> parcel_item list option \<Rightarrow> int \<times> parcel_item list option" where
  "object_write C P m parcel =
     (case parcel of None \<Rightarrow> (BAD_VALUE_STATUS, None) | Some ps \<Rightarrow> (case writeToParcel C P (buf m) ps of (r, ps1) \<Rightarrow> (r, Some ps1)))"

definition object_read ::
  "('b, 'k) meta_c \<Rightarrow> 'b CameraMetadata \<Rightarrow> parcel_item list option \<Rightarrow> 'k \<Rightarrow> (int \<times> 'b CameraMetadata) \<times> 'k" where
  "object_read C m parcel k =
     (case parcel of
        None \<Rightarrow> ((BAD_VALUE_STATUS, m), k)
      | Some ps \<Rightarrow>
          if mLocked m then ((INVALID_OPERATION, m), k)
          else case readFromParcel C ps k of ((res, b), k1) \<Rightarrow>
            if res \<noteq> 0 then ((res, m), k1)
            else (case clear C m k1 of (m1, k2) \<Rightarrow> ((OK_STATUS, m1\<lparr>mBuffer := b\<rparr>), k2)))"

section \<open>What the library promises\<close>

definition tags :: "('b, 'k) meta_c \<Rightarrow> 'b \<Rightarrow> int set" where
  "tags C b = fst ` set (mc_entries C b)"

definition room :: "('b, 'k) meta_c \<Rightarrow> 'b \<Rightarrow> nat \<Rightarrow> nat \<Rightarrow> bool" where
  "room C b n d \<longleftrightarrow> length (mc_entries C b) + n \<le> mc_entry_capacity C b \<and> mc_data_count C b + d \<le> mc_data_capacity C b"

text \<open>
  A new buffer is empty and has the capacity that was asked for. A search finds an entry with the tag if there is one.
  An operation that fails leaves the buffer alone; one that has room succeeds. A copy has the entries of the original, also a
  validated copy of the bytes that were made of a buffer.
\<close>

definition allocate_law :: "('b, 'k) meta_c \<Rightarrow> bool" where
  "allocate_law C \<longleftrightarrow> (\<forall>n d k a b k'. mc_allocate C n d k = (Some (a, b), k') \<longrightarrow> mc_entries C b = [] \<and> room C b n d)"

definition find_law :: "('b, 'k) meta_c \<Rightarrow> bool" where
  "find_law C \<longleftrightarrow>
     (\<forall>b t r i. mc_find C (Some b) t = (r, i) \<longrightarrow>
        r = 0 \<and> i < length (mc_entries C b) \<and> fst (mc_entries C b ! i) = t \<or> r = NOT_FOUND \<and> t \<notin> tags C b)
     \<and> (\<forall>t. fst (mc_find C None t) \<noteq> 0)"

definition add_law :: "('b, 'k) meta_c \<Rightarrow> bool" where
  "add_law C \<longleftrightarrow>
     (\<forall>b t d r b'. mc_add C b t d = (r, b') \<longrightarrow> (if r = 0 then mc_entries C b' = mc_entries C b @ [(t, d)] else b' = b))
     \<and> (\<forall>b t d. mc_tag_type C t \<noteq> - 1 \<longrightarrow> room C b 1 (mc_data_size C (mc_tag_type C t) (length (snd d))) \<longrightarrow> fst (mc_add C b t d) = 0)"

definition update_law :: "('b, 'k) meta_c \<Rightarrow> bool" where
  "update_law C \<longleftrightarrow>
     (\<forall>b i d r b'. mc_update C b i d = (r, b') \<longrightarrow>
        (if r = 0 then i < length (mc_entries C b) \<and> mc_entries C b' = (mc_entries C b)[i := (fst (mc_entries C b ! i), d)] else b' = b))
     \<and> (\<forall>b i d. i < length (mc_entries C b) \<longrightarrow>
          room C b 0 (mc_data_size C (mc_tag_type C (fst (mc_entries C b ! i))) (length (snd d))) \<longrightarrow> fst (mc_update C b i d) = 0)"

definition delete_law :: "('b, 'k) meta_c \<Rightarrow> bool" where
  "delete_law C \<longleftrightarrow>
     (\<forall>b i r b'. mc_delete C b i = (r, b') \<longrightarrow>
        (if r = 0 then mc_entries C b' = take i (mc_entries C b) @ drop (Suc i) (mc_entries C b) else b' = b))
     \<and> (\<forall>b i. i < length (mc_entries C b) \<longrightarrow> fst (mc_delete C b i) = 0)"

definition append_law :: "('b, 'k) meta_c \<Rightarrow> bool" where
  "append_law C \<longleftrightarrow>
     (\<forall>b c r b'. mc_append C (Some b) c = (r, b') \<longrightarrow>
        (if r = 0 then \<exists>x. b' = Some x \<and> mc_entries C x = mc_entries C b @ mc_entries C c
           \<and> mc_data_count C x = mc_data_count C b + mc_data_count C c
           \<and> mc_entry_capacity C x = mc_entry_capacity C b \<and> mc_data_capacity C x = mc_data_capacity C b
         else b' = Some b))
     \<and> (\<forall>b c. room C b (length (mc_entries C c)) (mc_data_count C c) \<longrightarrow> fst (mc_append C (Some b) c) = 0)
     \<and> (\<forall>c. snd (mc_append C None c) = None)"

definition copy_law :: "('b, 'k) meta_c \<Rightarrow> bool" where
  "copy_law C \<longleftrightarrow>
     (\<forall>b. \<exists>x. snd (mc_sort C (Some b)) = Some x \<and> set (mc_entries C x) = set (mc_entries C b))
     \<and> (\<forall>b k a b' k'. mc_clone C (Some b) k = (Some (a, b'), k') \<longrightarrow> mc_entries C b' = mc_entries C b)
     \<and> (\<forall>k. fst (mc_clone C None k) = None)
     \<and> (\<forall>b k a b' k'. mc_copy_checked C (mc_compact C b) k = (Some (a, b'), k') \<longrightarrow> mc_entries C b' = mc_entries C b)
     \<and> (\<forall>b. mc_compact C b \<noteq> []) \<and> mc_alignment C > 0"

definition meta_c_laws :: "('b, 'k) meta_c \<Rightarrow> bool" where
  "meta_c_laws C \<longleftrightarrow> allocate_law C \<and> find_law C \<and> add_law C \<and> update_law C \<and> delete_law C \<and> append_law C \<and> copy_law C"

lemma meta_c_lawsD:
  assumes "meta_c_laws C"
  shows "allocate_law C" "find_law C" "add_law C" "update_law C" "delete_law C" "append_law C" "copy_law C"
  using assms by (simp_all add: meta_c_laws_def)

lemma allocateD: "meta_c_laws C \<Longrightarrow> mc_allocate C n d k = (Some (a, b), k') \<Longrightarrow> mc_entries C b = [] \<and> room C b n d"
  unfolding meta_c_laws_def allocate_law_def by blast

lemma findD:
  "meta_c_laws C \<Longrightarrow> mc_find C (Some b) t = (r, i) \<Longrightarrow>
     r = 0 \<and> i < length (mc_entries C b) \<and> fst (mc_entries C b ! i) = t \<or> r = NOT_FOUND \<and> t \<notin> tags C b"
  unfolding meta_c_laws_def find_law_def by blast

lemma addD: "meta_c_laws C \<Longrightarrow> mc_add C b t d = (r, b') \<Longrightarrow> if r = 0 then mc_entries C b' = mc_entries C b @ [(t, d)] else b' = b"
  unfolding meta_c_laws_def add_law_def by blast

lemma updateD:
  "meta_c_laws C \<Longrightarrow> mc_update C b i d = (r, b') \<Longrightarrow>
     if r = 0 then i < length (mc_entries C b) \<and> mc_entries C b' = (mc_entries C b)[i := (fst (mc_entries C b ! i), d)] else b' = b"
  unfolding meta_c_laws_def update_law_def by blast

lemma deleteD:
  "meta_c_laws C \<Longrightarrow> mc_delete C b i = (r, b') \<Longrightarrow>
     if r = 0 then mc_entries C b' = take i (mc_entries C b) @ drop (Suc i) (mc_entries C b) else b' = b"
  unfolding meta_c_laws_def delete_law_def by blast

lemma appendD:
  "meta_c_laws C \<Longrightarrow> mc_append C (Some b) c = (r, b') \<Longrightarrow>
     if r = 0 then \<exists>x. b' = Some x \<and> mc_entries C x = mc_entries C b @ mc_entries C c
        \<and> mc_data_count C x = mc_data_count C b + mc_data_count C c
        \<and> mc_entry_capacity C x = mc_entry_capacity C b \<and> mc_data_capacity C x = mc_data_capacity C b
     else b' = Some b"
  unfolding meta_c_laws_def append_law_def by blast

lemma append_room: "meta_c_laws C \<Longrightarrow> room C b (length (mc_entries C c)) (mc_data_count C c) \<Longrightarrow> fst (mc_append C (Some b) c) = 0"
  unfolding meta_c_laws_def append_law_def by blast

section \<open>Growing\<close>

definition entries_of :: "('b, 'k) meta_c \<Rightarrow> 'b CameraMetadata \<Rightarrow> (int \<times> mdata) list" where
  "entries_of C m = (case mBuffer m of None \<Rightarrow> [] | Some (_, b) \<Rightarrow> mc_entries C b)"

text \<open>With memory, growing keeps the entries and makes the room that was asked for.\<close>

lemma resize_result:
  assumes L: "meta_c_laws C" and mem: "\<And>n d. fst (mc_allocate C n d k) \<noteq> None"
  shows "\<exists>a b k'. resizeIfNeeded C m n d k = ((OK_STATUS, m\<lparr>mBuffer := Some (a, b)\<rparr>), k') \<and> mc_entries C b = entries_of C m \<and> room C b n d"
proof (cases "mBuffer m")
  case None
  obtain a b k' where al: "mc_allocate C (n * 2) (d * 2) k = (Some (a, b), k')"
    using mem [of "n * 2" "d * 2"] by (cases "mc_allocate C (n * 2) (d * 2) k") auto
  then have "mc_entries C b = []" "room C b n d" using allocateD [OF L al] by (auto simp: room_def)
  then show ?thesis using None al by (auto simp: resizeIfNeeded_def entries_of_def)
next
  case (Some ab)
  obtain a b where b: "mBuffer m = Some (a, b)" using Some by (cases ab) simp
  let ?e = "length (mc_entries C b) + n" and ?d = "mc_data_count C b + d"
  let ?ne = "if ?e > mc_entry_capacity C b then ?e * 2 else mc_entry_capacity C b"
  let ?nd = "if ?d > mc_data_capacity C b then ?d * 2 else mc_data_capacity C b"
  show ?thesis
  proof (cases "?ne > mc_entry_capacity C b \<or> ?nd > mc_data_capacity C b")
    case True
    obtain a1 b1 k1 where al: "mc_allocate C ?ne ?nd k = (Some (a1, b1), k1)" using mem [of ?ne ?nd] by (cases "mc_allocate C ?ne ?nd k") auto
    then have e: "mc_entries C b1 = []" and r: "room C b1 ?ne ?nd" using allocateD [OF L al] by blast+
    have "room C b1 (length (mc_entries C b)) (mc_data_count C b)" using r by (auto simp: room_def split: if_splits)
    then have "fst (mc_append C (Some b1) b) = 0" by (rule append_room [OF L])
    then obtain x where x: "mc_append C (Some b1) b = (0, Some x)" "mc_entries C x = mc_entries C b"
      "mc_data_count C x = mc_data_count C b1 + mc_data_count C b"
      "mc_entry_capacity C x = mc_entry_capacity C b1" "mc_data_capacity C x = mc_data_capacity C b1"
      using appendD [OF L, of b1 b] e by (cases "mc_append C (Some b1) b") auto
    have "room C x n d" using r x e by (auto simp: room_def split: if_splits)
    then show ?thesis using b True al x by (auto simp: resizeIfNeeded_def entries_of_def Let_def)
  next
    case False
    then have "room C b n d" by (auto simp: room_def split: if_splits)
    moreover have "m\<lparr>mBuffer := Some (a, b)\<rparr> = m" using b by (cases m) simp
    ultimately show ?thesis using b False by (intro exI [of _ a] exI [of _ b] exI [of _ k]) (auto simp: resizeIfNeeded_def entries_of_def Let_def)
  qed
qed

lemma resize_entries:
  assumes L: "meta_c_laws C" and r: "resizeIfNeeded C m n d k = ((res, m'), k')"
  shows "set (entries_of C m') \<subseteq> set (entries_of C m) \<and> mLocked m' = mLocked m"
proof (cases "mBuffer m")
  case None
  then show ?thesis using r by (auto simp: resizeIfNeeded_def entries_of_def dest!: allocateD [OF L] split: option.splits prod.splits)
next
  case (Some ab)
  obtain a b where b: "mBuffer m = Some (a, b)" using Some by (cases ab) simp
  have sub: "set (mc_entries C x) \<subseteq> set (mc_entries C b)"
    if al: "mc_allocate C i j k = (Some (a1, b1), k1)" and x: "Some (a2, x) = map_option (Pair a1) (snd (mc_append C (Some b1) b))" for i j a1 b1 k1 a2 x
  proof -
    obtain q y where ap: "mc_append C (Some b1) b = (q, y)" by (metis prod.exhaust)
    then show ?thesis using x allocateD [OF L al] appendD [OF L ap] by (cases "q = 0") auto
  qed
  show ?thesis using r b
    by (auto simp: resizeIfNeeded_def entries_of_def Let_def split: option.splits prod.splits if_splits dest!: subsetD [OF sub])
qed

section \<open>Updating\<close>

lemma nth_tag: "distinct (map fst es) \<Longrightarrow> i < length es \<Longrightarrow> fst (es ! i) = t \<Longrightarrow> map_of es t = Some (snd (es ! i))"
  by (metis map_of_eq_Some_iff nth_mem prod.collapse)

lemma update_tag:
  assumes "distinct (map fst es)" "i < length es" "fst (es ! i) = t"
  shows "map_of (es[i := (t, d)]) = (map_of es)(t \<mapsto> d)" "map fst (es[i := (t, d)]) = map fst es"
proof -
  show m: "map fst (es[i := (t, d)]) = map fst es" using assms by (metis fst_conv list_update_id map_update nth_map)
  show "map_of (es[i := (t, d)]) = (map_of es)(t \<mapsto> d)"
    using assms
  proof (induction es arbitrary: i)
    case (Cons e es)
    then show ?case by (cases i; cases e) (auto simp: fun_eq_iff)
  qed simp
qed

lemma find_const_map:
  assumes L: "meta_c_laws C" and d: "distinct (map fst (entries_of C m))"
  shows "find_const C m t = map_of (entries_of C m) t"
proof (cases "mBuffer m")
  case None
  then show ?thesis by (simp add: find_const_def entries_of_def split: prod.split)
next
  case (Some ab)
  obtain a b where b: "mBuffer m = Some (a, b)" using Some by (cases ab) simp
  obtain r i where f: "mc_find C (Some b) t = (r, i)" by (metis prod.exhaust)
  have db: "distinct (map fst (mc_entries C b))" using d b by (simp add: entries_of_def)
  from findD [OF L f] show ?thesis
  proof
    assume "r = 0 \<and> i < length (mc_entries C b) \<and> fst (mc_entries C b ! i) = t"
    then show ?thesis using nth_tag [OF db, of i t] f b by (simp add: find_const_def entries_of_def)
  next
    assume "r = NOT_FOUND \<and> t \<notin> tags C b"
    then have "map_of (mc_entries C b) t = None" "r \<noteq> 0" by (simp_all add: tags_def map_of_eq_None_iff)
    then show ?thesis using f b by (simp add: find_const_def entries_of_def)
  qed
qed

text \<open>
  (C23) An update that may happen happens: if the object is not locked, none of its tags is repeated (\<^verbatim>\<open>append\<close> can make repetitions), the data have the type of the tag and lie outside
  the buffer, and memory can be had, then \<^verbatim>\<open>update\<close> succeeds whatever the capacity was; afterwards the tag has the new data, every other tag what it
  had, and still no tag is repeated. A locked object refuses and stays as it is.
\<close>

theorem update_metadata_result:
  assumes L: "meta_c_laws C" and mem: "\<And>n d. fst (mc_allocate C n d k) \<noteq> None" and d: "distinct (map fst (entries_of C m))"
    and t: "mc_tag_type C tag = fst data" "fst data \<noteq> - 1"
    and out: "\<forall>a b. mBuffer m = Some (a, b) \<longrightarrow> addr \<le> a \<or> a + mc_size C (Some b) \<le> addr" "mBuffer m = None \<Longrightarrow> mc_size C None \<le> addr"
  shows "if mLocked m then update_metadata C m tag addr data k = ((INVALID_OPERATION, m), k)
    else \<exists>m' k'. update_metadata C m tag addr data k = ((OK_STATUS, m'), k') \<and> distinct (map fst (entries_of C m'))
      \<and> find_metadata C m' tag = Some data \<and> (\<forall>t'. t' \<noteq> tag \<longrightarrow> find_metadata C m' t' = find_metadata C m t')"
proof (cases "mLocked m")
  case True
  then show ?thesis by (simp add: update_metadata_def)
next
  case False
  let ?size = "mc_data_size C (mc_tag_type C tag) (length (snd data))"
  obtain a b k' where rs: "resizeIfNeeded C m 1 ?size k = ((OK_STATUS, m\<lparr>mBuffer := Some (a, b)\<rparr>), k')" "mc_entries C b = entries_of C m" "room C b 1 ?size"
    using resize_result [OF L mem, of m 1 ?size] by blast
  obtain r i where f: "mc_find C (Some b) tag = (r, i)" by (metis prod.exhaust)
  have go: "update_metadata C m tag addr data k = (let (q, b1) = (if r = NOT_FOUND then mc_add C b tag data else mc_update C b i data)
      in ((q, m\<lparr>mBuffer := Some (a, b1)\<rparr>), k'))" if "r = NOT_FOUND \<or> r = 0"
    using False t out rs(1) f that
    by (cases "mBuffer m") (auto simp: update_metadata_def checkType_def updateImpl_def Let_def split: prod.splits)
  have "\<exists>b1. update_metadata C m tag addr data k = ((OK_STATUS, m\<lparr>mBuffer := Some (a, b1)\<rparr>), k')
      \<and> map_of (mc_entries C b1) = (map_of (entries_of C m))(tag \<mapsto> data) \<and> distinct (map fst (mc_entries C b1))"
    using findD [OF L f]
  proof
    assume r: "r = 0 \<and> i < length (mc_entries C b) \<and> fst (mc_entries C b ! i) = tag"
    obtain q b1 where u: "mc_update C b i data = (q, b1)" by (metis prod.exhaust)
    have "room C b 0 ?size" using rs(3) by (simp add: room_def)
    then have "q = 0" using r u meta_c_lawsD(4) [OF L] by (metis (no_types, lifting) fst_conv update_law_def)
    then have "mc_entries C b1 = (mc_entries C b)[i := (tag, data)]" using updateD [OF L u] r by simp
    then show ?thesis using go r u \<open>q = 0\<close> rs(2) d update_tag [of "entries_of C m" i tag data] by (intro exI [of _ b1]) simp
  next
    assume r: "r = NOT_FOUND \<and> tag \<notin> tags C b"
    obtain q b1 where u: "mc_add C b tag data = (q, b1)" by (metis prod.exhaust)
    have "q = 0" using rs(3) t u meta_c_lawsD(3) [OF L] by (metis (no_types, lifting) add_law_def fst_conv)
    then have e: "mc_entries C b1 = mc_entries C b @ [(tag, data)]" using addD [OF L u] by simp
    have n: "tag \<notin> fst ` set (entries_of C m)" using r rs(2) by (simp add: tags_def)
    then have "map_of (entries_of C m @ [(tag, data)]) = (map_of (entries_of C m))(tag \<mapsto> data)"
      by (auto simp: fun_eq_iff map_add_def map_of_eq_None_iff [THEN iffD2] split: option.split)
    then show ?thesis using go r u \<open>q = 0\<close> e rs(2) d n by (intro exI [of _ b1]) simp
  qed
  then obtain b1 where b1: "update_metadata C m tag addr data k = ((OK_STATUS, m\<lparr>mBuffer := Some (a, b1)\<rparr>), k')"
    "map_of (mc_entries C b1) = (map_of (entries_of C m))(tag \<mapsto> data)" "distinct (map fst (mc_entries C b1))" by blast
  have e: "entries_of C (m\<lparr>mBuffer := Some (a, b1)\<rparr>) = mc_entries C b1" by (simp add: entries_of_def)
  have "find_metadata C (m\<lparr>mBuffer := Some (a, b1)\<rparr>) t' = (if t' = tag then Some data else find_metadata C m t')" for t'
    using False find_const_map [OF L, of "m\<lparr>mBuffer := Some (a, b1)\<rparr>" t'] find_const_map [OF L d, of t'] b1(2,3) e by (simp add: find_metadata_def)
  then show ?thesis using False b1(1,3) e by auto
qed

section \<open>Types\<close>

definition typed_entries :: "('b, 'k) meta_c \<Rightarrow> (int \<times> mdata) list \<Rightarrow> bool" where
  "typed_entries C es \<longleftrightarrow> (\<forall>(t, d) \<in> set es. fst d = mc_tag_type C t)"

text \<open>The calls on an object, with the buffers and parcels that come from outside, and the end of an object with the start of a new one.\<close>

datatype 'b meta_call =
    Update_call int nat mdata | String_call int nat string | Erase_call int | Append_call "'b option" | Sort_call | Clear_call
  | Lock_call | Unlock_call "nat option" | Release_call | Acquire_call "(nat \<times> 'b) option" | Assign_call "(nat \<times> 'b) option"
  | Read_call "parcel_item list option" | New_call | New_capacity_call nat nat

fun meta_step :: "('b, 'k) meta_c \<Rightarrow> 'b meta_call \<Rightarrow> 'b CameraMetadata \<times> 'k \<Rightarrow> ('b CameraMetadata \<times> 'k) option" where
  "meta_step C (Update_call tag addr data) (m, k) = (case update_metadata C m tag addr data k of ((_, m1), k1) \<Rightarrow> Some (m1, k1))"
| "meta_step C (String_call tag addr str) (m, k) = (case update_string C m tag addr str k of ((_, m1), k1) \<Rightarrow> Some (m1, k1))"
| "meta_step C (Erase_call tag) (m, k) = Some (snd (erase_metadata C m tag), k)"
| "meta_step C (Append_call other) (m, k) = map_option (\<lambda>((_, m1), k1). (m1, k1)) (append_metadata C m other k)"
| "meta_step C Sort_call (m, k) = Some (snd (sort_metadata C m), k)"
| "meta_step C Clear_call (m, k) = Some (clear C m k)"
| "meta_step C Lock_call (m, k) = Some (snd (getAndLock m), k)"
| "meta_step C (Unlock_call p) (m, k) = Some (snd (unlock p m), k)"
| "meta_step C Release_call (m, k) = Some (snd (release m), k)"
| "meta_step C (Acquire_call b) (m, k) = Some (acquire C m b k)"
| "meta_step C (Assign_call b) (m, k) = Some (assign C m b k)"
| "meta_step C (Read_call p) (m, k) = (case object_read C m p k of ((_, m1), k1) \<Rightarrow> Some (m1, k1))"
| "meta_step C New_call (m, k) = Some (new_metadata, destroy C m k)"
| "meta_step C (New_capacity_call n d) (m, k) = Some (new_capacity C n d (destroy C m k))"

text \<open>
  The calls on a family of objects: those on one of them and those that take a second one. Acquiring from itself takes back
  what was released. Appending an object to itself reads, after growing, a buffer that was freed, and has no result here.
\<close>

datatype 'b meta_event =
    On nat "'b meta_call" | Swap_with nat nat | Acquire_from nat nat | Append_from nat nat | Assign_from nat nat | Copy_of nat nat

fun objects_step :: "('b, 'k) meta_c \<Rightarrow> 'b meta_event \<Rightarrow> (nat \<Rightarrow> 'b CameraMetadata) \<times> 'k \<Rightarrow> ((nat \<Rightarrow> 'b CameraMetadata) \<times> 'k) option" where
  "objects_step C (On n call) (ms, k) = map_option (\<lambda>(m, k1). (ms(n := m), k1)) (meta_step C call (ms n, k))"
| "objects_step C (Swap_with n i) (ms, k) = (case swap (ms n) (ms i) of (m, other) \<Rightarrow> Some (ms(n := m, i := other), k))"
| "objects_step C (Acquire_from n i) (ms, k) =
     (if n = i then Some (ms, k) else case acquire_other C (ms n) (ms i) k of ((m, other), k1) \<Rightarrow> Some (ms(n := m, i := other), k1))"
| "objects_step C (Append_from n i) (ms, k) =
     (if n = i \<and> \<not> mLocked (ms n) then None
      else map_option (\<lambda>((_, m), k1). (ms(n := m), k1)) (append_metadata C (ms n) (buf (ms i)) k))"
| "objects_step C (Assign_from n i) (ms, k) = (case assign C (ms n) (mBuffer (ms i)) k of (m, k1) \<Rightarrow> Some (ms(n := m), k1))"
| "objects_step C (Copy_of n i) (ms, k) = (case copy_metadata C (ms i) k of (m, k1) \<Rightarrow> Some (ms(n := m), destroy C (ms n) k1))"

text \<open>The appends that the code must not be asked for: from a null pointer or an object without a buffer, and of an object to itself.\<close>

fun bad_append :: "(nat \<Rightarrow> 'b CameraMetadata) \<Rightarrow> 'b meta_event \<Rightarrow> bool" where
  "bad_append ms (On n (Append_call other)) \<longleftrightarrow> \<not> mLocked (ms n) \<and> other = None"
| "bad_append ms (Append_from n i) \<longleftrightarrow> \<not> mLocked (ms n) \<and> (n = i \<or> mBuffer (ms i) = None)"
| "bad_append ms _ \<longleftrightarrow> False"

text \<open>The bytes of a parcel that are given to the library to be validated and copied.\<close>

definition parcel_bytes :: "('b, 'k) meta_c \<Rightarrow> parcel_item list \<Rightarrow> u8 list option" where
  "parcel_bytes C ps =
     (case read_int ps of
        Inr (sz, ps1) \<Rightarrow>
          (case read_blob (as_size sz) ps1 of
             Inr (bs, ps2) \<Rightarrow>
               (case read_int ps2 of
                  Inr (off, _) \<Rightarrow> Some (take (as_size sz - mc_alignment C) (drop (as_size off) bs)) | Inl _ \<Rightarrow> None)
           | Inl _ \<Rightarrow> None)
      | Inl _ \<Rightarrow> None)"

text \<open>
  What comes from outside: buffers whose entries have the types of their tags, and parcels with the bytes of such a buffer or
  with bytes that the library refuses.
\<close>

fun call_typed :: "('b, 'k) meta_c \<Rightarrow> 'b meta_call \<Rightarrow> bool" where
  "call_typed C (Append_call (Some b)) = typed_entries C (mc_entries C b)"
| "call_typed C (Acquire_call (Some (_, b))) = typed_entries C (mc_entries C b)"
| "call_typed C (Assign_call (Some (_, b))) = typed_entries C (mc_entries C b)"
| "call_typed C (Read_call (Some ps)) = (\<forall>bs. parcel_bytes C ps = Some bs \<longrightarrow>
     (\<exists>b. bs = mc_compact C b \<and> typed_entries C (mc_entries C b)) \<or> (\<forall>k. fst (mc_copy_checked C bs k) = None))"
| "call_typed C _ = True"

fun event_typed :: "('b, 'k) meta_c \<Rightarrow> 'b meta_event \<Rightarrow> bool" where
  "event_typed C (On n call) = call_typed C call"
| "event_typed C _ = True"

abbreviation typed :: "('b, 'k) meta_c \<Rightarrow> 'b CameraMetadata \<Rightarrow> bool" where "typed C m \<equiv> typed_entries C (entries_of C m)"

lemma typed_mono: "typed_entries C es \<Longrightarrow> set es' \<subseteq> set es \<Longrightarrow> typed_entries C es'"
  by (auto simp: typed_entries_def)

lemma typed_some [simp]: "typed C (m\<lparr>mBuffer := Some (a, b)\<rparr>) = typed_entries C (mc_entries C b)" "typed C (m\<lparr>mBuffer := None\<rparr>)"
  by (simp_all add: entries_of_def typed_entries_def)

lemma updateImpl_typed:
  assumes L: "meta_c_laws C" and ty: "typed C m" and t: "fst data = mc_tag_type C tag" and u: "updateImpl C m tag addr data k = ((r, m'), k')"
  shows "typed C m'"
proof -
  obtain q m1 k1 where rs: "resizeIfNeeded C m 1 (mc_data_size C (mc_tag_type C tag) (length (snd data))) k = ((q, m1), k1)" by (metis prod.exhaust)
  have t1: "typed C m1" by (rule typed_mono [OF ty]) (use resize_entries [OF L rs] in simp)
  obtain f i where f: "mc_find C (buf m1) tag = (f, i)" by (metis prod.exhaust)
  have "typed C (m1\<lparr>mBuffer := Some (a, b1)\<rparr>)" if b: "mBuffer m1 = Some (a, b)" and ad: "mc_add C b tag data = (s, b1)" for a b s b1
    using t1 b t addD [OF L ad] by (auto simp: entries_of_def typed_entries_def split: if_splits)
  moreover have "typed C (m1\<lparr>mBuffer := Some (a, b1)\<rparr>)" if b: "mBuffer m1 = Some (a, b)" and up: "mc_update C b i data = (s, b1)" and "f = 0" for a b s b1
  proof -
    have "fst (mc_entries C b ! i) = tag" using findD [OF L, of b tag f i] f b that(3) by simp
    then show ?thesis using t1 b t updateD [OF L up] set_update_subset_insert [of "mc_entries C b" i "(tag, data)"]
      by (auto simp: entries_of_def typed_entries_def split: if_splits)
  qed
  ultimately show ?thesis using u ty t1 rs f by (auto simp: updateImpl_def Let_def split: if_splits option.splits prod.splits)
qed

lemma update_metadata_typed:
  assumes "meta_c_laws C" "typed C m" "update_metadata C m tag addr data k = ((r, m'), k')"
  shows "typed C m'"
  using assms updateImpl_typed [OF assms(1,2), of data tag addr k r m' k']
  by (auto simp: update_metadata_def checkType_def Let_def split: if_splits)

lemma erase_metadata_typed:
  assumes L: "meta_c_laws C" and ty: "typed C m" and e: "erase_metadata C m tag = (r, m')"
  shows "typed C m'"
proof -
  have "typed_entries C (mc_entries C b1)" if b: "mBuffer m = Some (a, b)" and d: "mc_delete C b i = (s, b1)" for a b i s b1
  proof (cases "s = 0")
    case True
    then have "mc_entries C b1 = take i (mc_entries C b) @ drop (Suc i) (mc_entries C b)" using deleteD [OF L d] by simp
    then show ?thesis using ty b by (auto simp: typed_entries_def entries_of_def dest: in_set_takeD in_set_dropD)
  next
    case False
    then show ?thesis using deleteD [OF L d] ty b by (simp add: entries_of_def)
  qed
  then show ?thesis using e ty by (auto simp: erase_metadata_def split: if_splits option.splits prod.splits)
qed

lemma with_buffer_typed: "(\<And>x. b = Some x \<Longrightarrow> typed_entries C (mc_entries C x)) \<Longrightarrow> typed C (with_buffer m b)"
  by (auto simp: with_buffer_def split: option.split)

lemma append_metadata_typed:
  assumes L: "meta_c_laws C" and ty: "typed C m" and o: "typed_entries C (mc_entries C ob)" and e: "append_metadata C m (Some ob) k = Some ((r, m'), k')"
  shows "typed C m'"
proof (cases "mLocked m")
  case True
  then show ?thesis using e ty by (simp add: append_metadata_def)
next
  case False
  obtain q m1 k1 where rs: "resizeIfNeeded C m (length (mc_entries C ob)) (mc_data_count C ob) k = ((q, m1), k1)" by (metis prod.exhaust)
  have t1: "typed C m1" by (rule typed_mono [OF ty]) (use resize_entries [OF L rs] in simp)
  obtain s y where ap: "mc_append C (buf m1) ob = (s, y)" by (metis prod.exhaust)
  have "m' = with_buffer m1 y" using e False rs ap by (simp add: append_metadata_def)
  moreover have "typed_entries C (mc_entries C x)" if y: "y = Some x" for x
  proof (cases "mBuffer m1")
    case None
    have "snd (mc_append C None ob) = None" using meta_c_lawsD(6) [OF L] by (simp add: append_law_def)
    then show ?thesis using ap y None by simp
  next
    case (Some ab)
    obtain a b where b: "mBuffer m1 = Some (a, b)" using Some by (cases ab) simp
    then have "mc_append C (Some b) ob = (s, y)" using ap by simp
    from appendD [OF L this] show ?thesis using t1 b o y by (auto simp: entries_of_def typed_entries_def split: if_splits)
  qed
  ultimately show ?thesis using with_buffer_typed by blast
qed

lemma copy_typed:
  assumes "meta_c_laws C"
  shows "mc_clone C (Some b) k = (Some (a, b'), k') \<Longrightarrow> mc_entries C b' = mc_entries C b" "mc_clone C None k = (b0, k') \<Longrightarrow> b0 = None"
    "mc_copy_checked C (mc_compact C b) k = (Some (a, b'), k') \<Longrightarrow> mc_entries C b' = mc_entries C b"
    "\<exists>x. snd (mc_sort C (Some b)) = Some x \<and> set (mc_entries C x) = set (mc_entries C b)"
proof -
  have c: "copy_law C" using meta_c_lawsD(7) [OF assms] .
  show "mc_clone C (Some b) k = (Some (a, b'), k') \<Longrightarrow> mc_entries C b' = mc_entries C b"
    "mc_copy_checked C (mc_compact C b) k = (Some (a, b'), k') \<Longrightarrow> mc_entries C b' = mc_entries C b"
    "\<exists>x. snd (mc_sort C (Some b)) = Some x \<and> set (mc_entries C x) = set (mc_entries C b)"
    using c unfolding copy_law_def by blast+
  show "mc_clone C None k = (b0, k') \<Longrightarrow> b0 = None" using c unfolding copy_law_def by (metis fst_conv)
qed

lemma clear_typed: "typed C m \<Longrightarrow> typed C (fst (clear C m k))"
  by (auto simp: clear_def split: option.split)

lemma sort_typed:
  assumes L: "meta_c_laws C" and ty: "typed C m"
  shows "typed C (snd (sort_metadata C m))"
proof (cases "mLocked m \<or> mBuffer m = None")
  case True
  then show ?thesis using ty by (auto simp: sort_metadata_def with_buffer_def split: prod.split)
next
  case False
  then obtain a b where b: "mBuffer m = Some (a, b)" by auto
  obtain x where x: "snd (mc_sort C (Some b)) = Some x" "set (mc_entries C x) = set (mc_entries C b)" using copy_typed(4) [OF L, of b] by blast
  have "snd (sort_metadata C m) = with_buffer m (Some x)" using False b x(1) by (cases "mc_sort C (Some b)") (simp add: sort_metadata_def)
  moreover have "typed_entries C (mc_entries C x)" using ty b x(2) by (simp add: entries_of_def typed_entries_def)
  ultimately show ?thesis using with_buffer_typed [of "Some x" C m] by simp
qed

lemma read_typed:
  assumes L: "meta_c_laws C" and c: "call_typed C (Read_call (Some ps))" and r: "readFromParcel C ps k = ((res, Some (a, b)), k')"
  shows "typed_entries C (mc_entries C b)"
proof -
  obtain bs where bs: "parcel_bytes C ps = Some bs" "mc_copy_checked C bs k = (Some (a, b), k')"
    using r by (auto simp: readFromParcel_def read_metadata_def parcel_bytes_def Let_def split: sum.splits prod.splits if_splits option.splits)
  then obtain x where "bs = mc_compact C x" "typed_entries C (mc_entries C x)" using c by (metis call_typed.simps(4) fst_conv option.distinct(1))
  then show ?thesis using copy_typed(3) [OF L, of x k a b k'] bs(2) by simp
qed

lemma assign_typed:
  assumes L: "meta_c_laws C" and ty: "typed C m" and b: "\<And>a x. b = Some (a, x) \<Longrightarrow> typed_entries C (mc_entries C x)"
  shows "typed C (fst (assign C m b k))"
proof -
  have "typed C (m1\<lparr>mBuffer := nb\<rparr>)" if cl: "mc_clone C (map_option snd b) k = (nb, k1)" for m1 nb k1
  proof (cases nb)
    case (Some ab)
    then obtain a b0 where nb: "nb = Some (a, b0)" by (cases ab) simp
    then obtain x y where "b = Some (x, y)" using cl copy_typed(2) [OF L, of k nb k1] by (cases b) auto
    then show ?thesis using cl nb b copy_typed(1) [OF L, of y k a b0 k1] by simp
  qed simp
  then show ?thesis using ty by (auto simp: assign_def split: prod.split)
qed

lemma object_read_typed:
  assumes L: "meta_c_laws C" and ty: "typed C m" and c: "call_typed C (Read_call p)" and r: "object_read C m p k = ((res, m'), k')"
  shows "typed C m'"
proof (cases p)
  case None
  then show ?thesis using r ty by (simp add: object_read_def)
next
  case (Some ps)
  obtain q nb k1 where rd: "readFromParcel C ps k = ((q, nb), k1)" by (metis prod.exhaust)
  have "typed C (m1\<lparr>mBuffer := nb\<rparr>)" for m1
  proof (cases nb)
    case nb: (Some ab)
    obtain a b where "ab = (a, b)" by (cases ab)
    then show ?thesis using read_typed [OF L c [unfolded Some], of k q a b k1] rd nb by simp
  qed simp
  then show ?thesis using r ty Some rd by (auto simp: object_read_def split: if_splits prod.splits)
qed

lemma new_typed: "typed C new_metadata" by (simp add: new_metadata_def entries_of_def typed_entries_def)

lemma meta_step_typed:
  assumes L: "meta_c_laws C" and ty: "typed C m" and c: "call_typed C call" and s: "meta_step C call (m, k) = Some (m', k')"
  shows "typed C m'"
proof (cases call)
  case (Update_call tag addr data)
  then show ?thesis using s update_metadata_typed [OF L ty] by (auto split: prod.splits)
next
  case (String_call tag addr str)
  then show ?thesis using s update_metadata_typed [OF L ty] by (auto simp: update_string_def split: prod.splits)
next
  case (Erase_call tag)
  then show ?thesis using s erase_metadata_typed [OF L ty, of tag] by (cases "erase_metadata C m tag") simp
next
  case (Append_call other)
  show ?thesis
  proof (cases other)
    case None
    then have "m' = m" using Append_call s by (auto simp: append_metadata_def split: if_splits)
    then show ?thesis using ty by simp
  next
    case (Some ob)
    then show ?thesis using s c Append_call append_metadata_typed [OF L ty, of ob k] by auto
  qed
next
  case Sort_call
  then show ?thesis using s sort_typed [OF L ty] by auto
next
  case Clear_call
  then show ?thesis using s clear_typed [OF ty, of k] by (cases "clear C m k") auto
next
  case Lock_call
  then show ?thesis using s ty by (auto simp: getAndLock_def entries_of_def)
next
  case (Unlock_call p)
  then show ?thesis using s ty by (auto simp: unlock_def entries_of_def split: if_splits)
next
  case (Acquire_call b)
  then show ?thesis using s ty c by (cases b) (auto simp: acquire_def split: if_splits prod.splits)
next
  case (Assign_call b)
  then show ?thesis using s c assign_typed [OF L ty, of b k] by (cases b) auto
next
  case (Read_call p)
  show ?thesis using Read_call s object_read_typed [OF L ty] c by (auto simp del: call_typed.simps split: prod.splits)
next
  case Release_call
  then show ?thesis using s ty by (auto simp: release_def)
next
  case New_call
  then show ?thesis using s new_typed by auto
next
  case (New_capacity_call n d)
  obtain nb k1 where al: "mc_allocate C n d (destroy C m k) = (nb, k1)" by (metis prod.exhaust)
  then show ?thesis using New_capacity_call s allocateD [OF L, of n d "destroy C m k"]
    by (cases nb) (auto simp: new_capacity_def entries_of_def typed_entries_def)
qed

lemma objects_step_typed:
  assumes L: "meta_c_laws C" and ty: "\<And>n. typed C (ms n)" and c: "event_typed C e" and s: "objects_step C e (ms, k) = Some (ms', k')"
  shows "typed C (ms' j)"
proof (cases e)
  case (On n call)
  then obtain m where "meta_step C call (ms n, k) = Some (m, k')" "ms' = ms(n := m)" using s by auto
  then show ?thesis using ty c On meta_step_typed [OF L ty] by simp
next
  case (Swap_with n i)
  then show ?thesis using s ty by (auto simp: swap_def entries_of_def split: if_splits)
next
  case (Acquire_from n i)
  have "typed C ((ms n)\<lparr>mBuffer := mBuffer (ms i)\<rparr>)" "typed C (m\<lparr>mBuffer := mBuffer (ms i)\<rparr>)" for m using ty [of i] by (simp_all add: entries_of_def)
  then show ?thesis using Acquire_from s ty
    by (auto simp: acquire_other_def acquire_def release_def split: if_splits prod.splits)
next
  case (Append_from n i)
  obtain r m where a: "append_metadata C (ms n) (buf (ms i)) k = Some ((r, m), k')" "ms' = ms(n := m)"
    using s Append_from by (auto split: if_splits)
  have "typed C m"
  proof (cases "mBuffer (ms i)")
    case None
    then show ?thesis using a(1) ty [of n] by (auto simp: append_metadata_def split: if_splits)
  next
    case (Some ab)
    obtain x b where b: "mBuffer (ms i) = Some (x, b)" using Some by (cases ab) simp
    then have "typed_entries C (mc_entries C b)" using ty [of i] by (simp add: entries_of_def)
    from append_metadata_typed [OF L ty [of n] this, of k r m k'] show ?thesis using a(1) b by simp
  qed
  then show ?thesis using a(2) ty by simp
next
  case (Assign_from n i)
  have "typed C (fst (assign C (ms n) (mBuffer (ms i)) k))"
    by (rule assign_typed [OF L ty]) (use ty [of i] in \<open>simp add: entries_of_def\<close>)
  then show ?thesis using Assign_from s ty by (auto split: prod.splits)
next
  case (Copy_of n i)
  obtain nb k1 where cl: "mc_clone C (buf (ms i)) k = (nb, k1)" by (metis prod.exhaust)
  have "typed C \<lparr>mBuffer = nb, mLocked = False\<rparr>"
  proof (cases nb)
    case None
    then show ?thesis by (simp add: entries_of_def typed_entries_def)
  next
    case (Some ab)
    then obtain a b where nb: "nb = Some (a, b)" by (cases ab) simp
    then obtain x y where y: "mBuffer (ms i) = Some (x, y)" using cl copy_typed(2) [OF L, of k nb k1] by (cases "mBuffer (ms i)") auto
    then have "mc_entries C b = mc_entries C y" using cl nb copy_typed(1) [OF L, of y k a b k1] by simp
    then show ?thesis using ty [of i] nb y by (simp add: entries_of_def)
  qed
  then show ?thesis using Copy_of s cl ty by (auto simp: copy_metadata_def)
qed

lemma append_undefined: "append_metadata C m other k = None \<longleftrightarrow> \<not> mLocked m \<and> other = None"
  by (cases other) (auto simp: append_metadata_def split: prod.splits)

lemma objects_step_undefined: "objects_step C e (ms, k) = None \<longleftrightarrow> bad_append ms e"
proof (cases e)
  case (On n call)
  then show ?thesis by (cases call) (auto simp: append_undefined split: prod.splits)
next
  case (Append_from n i)
  then show ?thesis by (auto simp: append_undefined)
qed (simp_all split: prod.splits)

text \<open>
  (C22) Every entry has the type of its tag: whatever is called on a family of objects, from empty ones on (updates, erasures, appends, sorting,
  assignments, copies, swaps, parcels, locks, releases and acquisitions, also between two objects), and however allocations and library calls turn out, the data of each entry are of
  the type that the platform gives to the tag. It is assumed that the library does what its functions are for, and that what comes from outside is of that kind: the buffers, and the parcels, whose
  bytes are those of such a buffer unless the library refuses them. The only calls without a result are those that append an object without a buffer, a null pointer, or an object to itself.
\<close>

theorem metadata_typed:
  assumes L: "meta_c_laws C" and c: "\<forall>e \<in> set es. event_typed C e" and r: "run_steps (objects_step C) es (\<lambda>_. new_metadata, k) = Some (ms, k')"
  shows "typed_entries C (entries_of C (ms n)) \<and> (objects_step C e (ms, k') = None \<longleftrightarrow> bad_append ms e)"
proof -
  have "typed C (ms n)" if "\<And>n. typed C (ms0 n)" "\<forall>e \<in> set es. event_typed C e" "run_steps (objects_step C) es (ms0, k0) = Some (ms, k')" for ms0 k0
    using that
  proof (induction es arbitrary: ms0 k0)
    case (Cons e es)
    then obtain ms1 k1 where st: "objects_step C e (ms0, k0) = Some (ms1, k1)" "run_steps (objects_step C) es (ms1, k1) = Some (ms, k')"
      by (auto split: bind_splits)
    have "typed C (ms1 j)" for j using objects_step_typed [OF L Cons.prems(1) _ st(1)] Cons.prems(2) by simp
    then show ?case using Cons.IH [OF _ _ st(2)] Cons.prems(2) by simp
  qed simp
  from this [OF new_typed c r] show ?thesis by (simp add: objects_step_undefined)
qed

section \<open>Parcels and back\<close>

lemma and_not_minus: "x AND NOT m = x - (x AND m)" for x m :: u32
proof -
  have "(x AND NOT m) + (x AND m) = (x AND NOT m) OR (x AND m)" by (rule disjunctive_add_eq_or) (simp add: bit_eq_iff bit_simps)
  also have "\<dots> = x" by (auto simp: bit_eq_iff bit_simps)
  finally show ?thesis by (simp add: algebra_simps)
qed

lemma align_offset: "0 < al \<Longrightarrow> al < 2 ^ 32 \<Longrightarrow> unat (ALIGN_TO a (of_nat al) - a) < al"
proof -
  assume al: "0 < al" "al < 2 ^ 32"
  let ?m = "of_nat al - 1 :: u32"
  have n: "(of_nat al :: u32) \<noteq> 0" using al unat_of_nat32 [of al] by (metis less_numeral_extra(3) unat_0)
  have "ALIGN_TO a (of_nat al) - a = ?m - ((a + ?m) AND ?m)" by (simp add: ALIGN_TO_def and_not_minus)
  also have "\<dots> \<le> ?m" using word_and_le1 [of "a + ?m" ?m] by (simp add: word_sub_le)
  also have "\<dots> < of_nat al" using n by (simp add: word_less_1 measure_unat word_less_nat_alt)
  finally show ?thesis using al by (simp add: word_less_nat_alt unat_of_nat32)
qed

lemma as_size_int32 [simp]: "n < 2 ^ 32 \<Longrightarrow> as_size (as_int32 n) = n"
  by (simp add: unat_of_nat32)

lemma read_written:
  assumes "length bytes + mc_alignment C < 2 ^ 32" "length front < mc_alignment C" "bytes \<noteq> []"
    and "length front + length rear = mc_alignment C" "mc_copy_checked C bytes k = (Some (a, e), k')"
  shows "readFromParcel C (PInt (as_int32 (length bytes + mc_alignment C)) # PBlob (front @ bytes @ rear) # PInt (as_int32 (length front)) # rest) k
    = ((OK_STATUS, Some (a, e)), k')"
proof -
  let ?n = "length bytes + mc_alignment C"
  have s: "as_size (as_int32 ?n) = ?n" "as_size (as_int32 (length front)) = length front" using assms(1,2) by (intro as_size_int32; simp)+
  have "take ?n (front @ bytes @ rear) = front @ bytes @ rear" using assms(4) by simp
  moreover have "?n \<le> length (front @ bytes @ rear)" using assms(4) by simp
  ultimately have "read_metadata C ?n (PBlob (front @ bytes @ rear) # PInt (as_int32 (length front)) # rest) k = ((OK_STATUS, Some (a, e)), k')"
    using assms(2,5) s(2) by (simp add: read_metadata_def Let_def del: length_append)
  moreover have "?n \<noteq> 0" "\<not> ?n \<le> mc_alignment C" using assms(3) by simp_all
  ultimately show ?thesis unfolding readFromParcel_def read_int.simps sum.case prod.case s(1) Let_def by simp
qed

text \<open>
  (C24) What is written to a parcel is read back: for a parcel that takes the writes, and wherever it puts the blob in memory,
  reading what \<^verbatim>\<open>writeToParcel\<close> wrote gives, if the library accepts and copies it, a buffer with the same entries; the absent buffer is read back as absent.
\<close>

theorem parcel_roundtrip:
  assumes L: "meta_c_laws C" and P: "\<And>ps n. pc_int P ps n = 0" "\<And>ps n. pc_blob P ps n = 0"
    and size: "\<And>x. b = Some x \<Longrightarrow> length (mc_compact C x) + mc_alignment C < 2 ^ 32"
    and mem: "\<And>x. b = Some x \<Longrightarrow> fst (mc_copy_checked C (mc_compact C x) k) \<noteq> None"
  shows "\<exists>items nb k'. writeToParcel C P b ps = (OK_STATUS, ps @ items) \<and> readFromParcel C (items @ rest) k = ((OK_STATUS, nb), k')
    \<and> map_option (mc_entries C \<circ> snd) nb = map_option (mc_entries C) b"
proof (cases b)
  case None
  then show ?thesis by (intro exI [of _ "[PInt 0]"]) (simp add: writeToParcel_def parcel_int_def P readFromParcel_def)
next
  case (Some x)
  have cl: "copy_law C" using meta_c_lawsD(7) [OF L] .
  then have al: "mc_alignment C > 0" and ne: "mc_compact C x \<noteq> []" unfolding copy_law_def by blast+
  let ?bytes = "mc_compact C x" and ?al = "mc_alignment C"
  let ?ps1 = "ps @ [PInt (as_int32 (length ?bytes + ?al))]"
  let ?off = "unat (ALIGN_TO (pc_addr P ?ps1) (of_nat ?al) - pc_addr P ?ps1)"
  let ?blob = "map (pc_fill P) [0..<?off] @ ?bytes @ map (pc_fill P) [?off..<?al]"
  have sz: "length ?bytes + ?al < 2 ^ 32" by (rule size [OF Some])
  have off: "?off < ?al" using align_offset [OF al] sz by simp
  have w: "writeToParcel C P b ps = (OK_STATUS, ps @ [PInt (as_int32 (length ?bytes + ?al)), PBlob ?blob, PInt (as_int32 ?off)])"
    using Some by (simp add: writeToParcel_def parcel_int_def write_blob_def P Let_def)
  obtain a e k' where c: "mc_copy_checked C ?bytes k = (Some (a, e), k')" using mem [OF Some] by (cases "mc_copy_checked C ?bytes k") auto
  have ee: "mc_entries C e = mc_entries C x" using cl c unfolding copy_law_def by blast
  have "readFromParcel C (PInt (as_int32 (length ?bytes + ?al)) # PBlob ?blob # PInt (as_int32 ?off) # rest) k = ((OK_STATUS, Some (a, e)), k')"
    using read_written [OF sz _ ne _ c, of "map (pc_fill P) [0..<?off]" "map (pc_fill P) [?off..<?al]" rest] off by simp
  then show ?thesis using w Some ee by (intro exI [of _ "[PInt (as_int32 (length ?bytes + ?al)), PBlob ?blob, PInt (as_int32 ?off)]"]) auto
qed

text \<open>
  The status of the blob is overwritten by that of the offset: a parcel that refuses the blob is still reported as
  written.
\<close>

lemma write_parcel_loses_error:
  assumes "\<And>ps n. pc_int P ps n = 0" "\<And>ps n. pc_blob P ps n = NO_MEMORY"
  shows "writeToParcel C P (Some b) [] = (OK_STATUS, [PInt (as_int32 (length (mc_compact C b) + mc_alignment C)), PInt (as_int32 0)])"
  using assms by (simp add: writeToParcel_def parcel_int_def write_blob_def Let_def)

text \<open>When a full buffer cannot grow, the object loses its entries, and the old buffer is not freed.\<close>

lemma resize_loses_buffer:
  assumes "mBuffer m = Some (a, b)" "mc_entry_capacity C b = length (mc_entries C b)" "\<And>n d. mc_allocate C n d k = (None, k)"
  shows "resizeIfNeeded C m 1 d k = ((NO_MEMORY, m\<lparr>mBuffer := None\<rparr>), k)"
  using assms by (simp add: resizeIfNeeded_def Let_def)

section \<open>An example\<close>

text \<open>
  A library in which a buffer is its entries and its capacities, every tag is of type 1, an element takes one byte of data, and
  entries are encoded by a single byte or by a length.
\<close>

type_synonym demo_buffer = "(int \<times> mdata) list \<times> nat \<times> nat"

definition demo_count :: "(int \<times> mdata) list \<Rightarrow> nat" where
  "demo_count es = sum_list (map (\<lambda>e. length (snd (snd e))) es)"

definition demo_room :: "demo_buffer \<Rightarrow> nat \<Rightarrow> nat \<Rightarrow> bool" where
  "demo_room = (\<lambda>(es, n, d) i j. length es + i \<le> n \<and> demo_count es + j \<le> d)"

definition demo_search :: "demo_buffer \<Rightarrow> int \<Rightarrow> int \<times> nat" where
  "demo_search b t = (case List.find (\<lambda>i. fst (fst b ! i) = t) [0..<length (fst b)] of Some i \<Rightarrow> (0, i) | None \<Rightarrow> (NOT_FOUND, 0))"

definition demo_entries :: "(int \<times> mdata) list" where
  "demo_entries = [(3, 1, [7])]"

definition demo_bytes :: "(int \<times> mdata) list \<Rightarrow> u8 list" where
  "demo_bytes es = (if es = demo_entries then [1] else replicate (to_nat es + 2) 0)"

definition demo_parse :: "u8 list \<Rightarrow> (int \<times> mdata) list" where
  "demo_parse bs = (if bs = [1] then demo_entries else from_nat (length bs - 2))"

lemma demo_parse_bytes [simp]: "demo_parse (demo_bytes es) = es" "demo_bytes es \<noteq> []"
  by (auto simp: demo_parse_def demo_bytes_def)

definition demo_lib :: "(demo_buffer, unit) meta_c" where
  "demo_lib =
     \<lparr>mc_allocate = (\<lambda>n d k. (Some (100, ([], n, d)), k)), mc_clone = (\<lambda>b k. (map_option (Pair 200) b, k)), mc_free = (\<lambda>_ k. k),
      mc_entries = fst, mc_data_count = (\<lambda>b. demo_count (fst b)), mc_entry_capacity = (\<lambda>b. fst (snd b)),
      mc_data_capacity = (\<lambda>b. snd (snd b)), mc_size = (\<lambda>_. 1), mc_tag_type = (\<lambda>_. 1), mc_data_size = (\<lambda>_ n. n),
      mc_find = (\<lambda>b t. case b of None \<Rightarrow> (1, 0) | Some x \<Rightarrow> demo_search x t),
      mc_add = (\<lambda>b t d. if demo_room b 1 (length (snd d)) then (0, (fst b @ [(t, d)], snd b)) else (1, b)),
      mc_update = (\<lambda>b i d. if i < length (fst b) \<and> demo_room b 0 (length (snd d)) then (0, ((fst b)[i := (fst (fst b ! i), d)], snd b)) else (1, b)),
      mc_delete = (\<lambda>b i. (0, (take i (fst b) @ drop (Suc i) (fst b), snd b))),
      mc_append = (\<lambda>b c. case b of None \<Rightarrow> (1, None)
        | Some x \<Rightarrow> if demo_room x (length (fst c)) (demo_count (fst c)) then (0, Some (fst x @ fst c, snd x)) else (1, Some x)),
      mc_sort = (\<lambda>b. (0, b)), mc_compact = (\<lambda>b. demo_bytes (fst b)), mc_alignment = 8,
      mc_copy_checked = (\<lambda>bs k. let es = demo_parse bs in
        (if \<forall>(t, d) \<in> set es. fst d = 1 then Some (300, (es, 0, 0)) else None, k))\<rparr>"

lemma demo_search_law:
  "demo_search b t = (r, i) \<Longrightarrow> r = 0 \<and> i < length (fst b) \<and> fst (fst b ! i) = t \<or> r = NOT_FOUND \<and> t \<notin> fst ` set (fst b)"
proof (cases "List.find (\<lambda>i. fst (fst b ! i) = t) [0..<length (fst b)]")
  case None
  assume "demo_search b t = (r, i)"
  moreover have "t \<notin> fst ` set (fst b)" using None by (fastforce simp: find_None_iff in_set_conv_nth)
  ultimately show ?thesis using None by (simp add: demo_search_def)
next
  case (Some j)
  assume "demo_search b t = (r, i)"
  moreover have "j < length (fst b)" "fst (fst b ! j) = t" using Some by (auto simp: find_Some_iff)
  ultimately show ?thesis using Some by (simp add: demo_search_def)
qed

lemma demo_lib_laws: "meta_c_laws demo_lib"
proof -
  have room: "room demo_lib = demo_room" by (auto simp: room_def demo_room_def demo_lib_def fun_eq_iff)
  have "allocate_law demo_lib" unfolding allocate_law_def room by (simp add: demo_lib_def demo_room_def demo_count_def)
  moreover have "find_law demo_lib" unfolding find_law_def using demo_search_law by (simp add: demo_lib_def tags_def)
  moreover have "add_law demo_lib" by (simp add: add_law_def room) (simp add: demo_lib_def)
  moreover have "update_law demo_lib" by (simp add: update_law_def room) (simp add: demo_lib_def)
  moreover have "delete_law demo_lib" by (simp add: delete_law_def demo_lib_def)
  moreover have "append_law demo_lib" by (simp add: append_law_def room) (simp add: demo_lib_def demo_count_def)
  moreover have "copy_law demo_lib" by (auto simp: copy_law_def demo_lib_def typed_entries_def Let_def split: if_splits)
  ultimately show ?thesis by (simp add: meta_c_laws_def)
qed

theorem update_metadata_result_witness:
  "\<exists>m' k'. update_metadata demo_lib \<lparr>mBuffer = Some (100, ([(3, 1, [7])], 1, 1)), mLocked = False\<rparr> 4 50 (1, [8, 9]) () = ((OK_STATUS, m'), k')
     \<and> find_metadata demo_lib m' 4 = Some (1, [8, 9]) \<and> find_metadata demo_lib m' 3 = Some (1, [7])"
proof -
  let ?m = "\<lparr>mBuffer = Some (100, ([(3 :: int, 1 :: int, [7 :: int])], 1 :: nat, 1 :: nat)), mLocked = False\<rparr>"
  have h: "fst (mc_allocate demo_lib n d ()) \<noteq> None" "distinct (map fst (entries_of demo_lib ?m))"
    "mc_tag_type demo_lib 4 = fst (1, [8, 9 :: int])" "fst (1 :: int, [8, 9 :: int]) \<noteq> - 1"
    "\<forall>a b. mBuffer ?m = Some (a, b) \<longrightarrow> 50 \<le> a \<or> a + mc_size demo_lib (Some b) \<le> 50" "mBuffer ?m = None \<Longrightarrow> mc_size demo_lib None \<le> 50" for n d
    by (simp_all add: demo_lib_def entries_of_def)
  have "find_metadata demo_lib ?m 3 = Some (1, [7])" by (simp add: find_metadata_def find_const_def demo_lib_def demo_search_def)
  then show ?thesis using update_metadata_result [OF demo_lib_laws h] by auto
qed

abbreviation demo_parcel :: parcel_env where
  "demo_parcel \<equiv> \<lparr>pc_int = (\<lambda>_ _. 0), pc_blob = (\<lambda>_ _. 0), pc_addr = (\<lambda>_. 13), pc_fill = (\<lambda>_. 0)\<rparr>"

text \<open>Two objects: updates of the right and of a wrong type, a parcel with an entry, a parcel that is cut short, and a swap.\<close>

abbreviation demo_sent :: "parcel_item list" where
  "demo_sent \<equiv> [PInt 9, PBlob ([0, 0, 0] @ [1] @ replicate 5 0), PInt 3]"

abbreviation demo_session :: "demo_buffer meta_event list" where
  "demo_session \<equiv> [On 0 (Update_call 4 50 (1, [8])), On 0 (Update_call 5 50 (0, [8])), On 1 (Read_call (Some [PInt 3])),
     On 1 (Read_call (Some demo_sent)), Swap_with 0 1, Acquire_from 2 0]"

theorem metadata_typed_witness:
  "\<exists>ms k'. run_steps (objects_step demo_lib) demo_session (\<lambda>_. new_metadata, ()) = Some (ms, k')
     \<and> map (\<lambda>n. entries_of demo_lib (ms n)) [0, 1, 2] = [[], [(4, 1, [8])], demo_entries]
     \<and> typed_entries demo_lib (entries_of demo_lib (ms 2)) \<and> objects_step demo_lib (Append_from 1 0) (ms, k') = None"
proof -
  have p: "parcel_bytes demo_lib demo_sent = Some (mc_compact demo_lib (demo_entries, 0, 0))"
    "parcel_bytes demo_lib [PInt 3] = None" "typed_entries demo_lib (mc_entries demo_lib (demo_entries, 0, 0))"
    by (simp_all add: parcel_bytes_def demo_lib_def demo_bytes_def demo_entries_def typed_entries_def)
  then have c: "\<forall>e \<in> set demo_session. event_typed demo_lib e" by auto
  have "\<exists>ms k'. run_steps (objects_step demo_lib) demo_session (\<lambda>_. new_metadata, ()) = Some (ms, k') \<and> mBuffer (ms 0) = None
    \<and> mLocked (ms 1) = False \<and> map (\<lambda>n. entries_of demo_lib (ms n)) [0, 1, 2] = [[], [(4, 1, [8])], demo_entries]"
    by (simp add: new_metadata_def update_metadata_def checkType_def updateImpl_def resizeIfNeeded_def object_read_def readFromParcel_def
        read_metadata_def swap_def acquire_other_def acquire_def release_def clear_def demo_lib_def demo_search_def demo_room_def demo_count_def
        demo_parse_def entries_of_def Let_def) (simp add: demo_entries_def)
  then obtain ms k' where r: "run_steps (objects_step demo_lib) demo_session (\<lambda>_. new_metadata, ()) = Some (ms, k')" "mBuffer (ms 0) = None"
    "mLocked (ms 1) = False" "map (\<lambda>n. entries_of demo_lib (ms n)) [0, 1, 2] = [[], [(4, 1, [8])], demo_entries]"
    by (elim exE conjE) (rule that; assumption)
  have "bad_append ms (Append_from 1 0)" using r(2,3) by simp
  then show ?thesis using metadata_typed [OF demo_lib_laws c r(1), of 2 "Append_from 1 0"] r(1,4)
    by (intro exI [of _ ms] exI [of _ k'] conjI) simp_all
qed

theorem parcel_roundtrip_witness:
  "\<exists>items nb k'. writeToParcel demo_lib demo_parcel (Some (demo_entries, 1, 1)) [] = (OK_STATUS, items)
     \<and> readFromParcel demo_lib items () = ((OK_STATUS, Some nb), k') \<and> mc_entries demo_lib (snd nb) = demo_entries"
proof -
  let ?b = "Some (demo_entries, 1, 1) :: demo_buffer option"
  have h: "pc_int demo_parcel ps n = 0" "pc_blob demo_parcel ps l = 0"
    "?b = Some x \<Longrightarrow> length (mc_compact demo_lib x) + mc_alignment demo_lib < 2 ^ 32"
    "?b = Some x \<Longrightarrow> fst (mc_copy_checked demo_lib (mc_compact demo_lib x) ()) \<noteq> None" for ps n l x
    by (auto simp: demo_lib_def demo_bytes_def demo_parse_def Let_def) (auto simp: demo_entries_def)
  show ?thesis using parcel_roundtrip [OF demo_lib_laws h(1,2), of ?b, OF h(3,4), of "[]" "[]"] by (auto simp: demo_lib_def)
qed

end
