(* ===== verification/Cam_Module.thy ===== *)
theory Cam_Module
  imports Cam_Class Cam_Meta
begin

text \<open>
  Finding the vendor's camera module (camera/CameraWrapper.cpp): the sensors are discovered first, then the module is loaded once and
  kept only if it is usable. The dynamic linker, the vendor's libraries and the file system are parameters. At the end, the rotation of the
  preview (libmocha/camera/CameraUtils.cpp).
\<close>

section \<open>Loading\<close>

record vendor_module =
  vm_version :: int
  vm_complete :: bool
  vm_cameras :: int
  vm_set_callbacks :: bool
  vm_get_tags :: bool

text \<open>
  \<open>me_init\<close> and \<open>me_detect\<close> are the symbols of the imager library, \<open>None\<close> if they are missing. \<open>vm_complete\<close> says that the functions that the
  adapter calls are there.
\<close>

record 'k module_env =
  me_imager :: bool
  me_init :: "('k \<Rightarrow> int \<times> 'k) option"
  me_detect :: "('k \<Rightarrow> int \<times> 'k) option"
  me_access :: "string \<Rightarrow> 'k \<Rightarrow> int \<times> 'k"
  me_usleep :: "'k \<Rightarrow> 'k"
  me_get_module :: "'k \<Rightarrow> (int \<times> vendor_module option) \<times> 'k"
  me_set_callbacks :: "'k \<Rightarrow> int \<times> 'k"
  me_vendor_tags :: "'k \<Rightarrow> 'k"

text \<open>The loop that waits for the nodes, with the number of attempts that are left.\<close>

fun wait_nodes :: "'k module_env \<Rightarrow> nat \<Rightarrow> 'k \<Rightarrow> bool \<times> 'k" where
  "wait_nodes E 0 k = (False, k)"
| "wait_nodes E (Suc n) k =
     (case me_access E ''/dev/imx179'' k of (r1, k1) \<Rightarrow>
        if r1 \<noteq> 0 then wait_nodes E n (me_usleep E k1)
        else case me_access E ''/dev/ov5693'' k1 of (r2, k2) \<Rightarrow>
          if r2 = 0 then (True, k2) else wait_nodes E n (me_usleep E k2))"

definition prepareImagerDevices :: "'k module_env \<Rightarrow> 'k \<Rightarrow> bool \<times> 'k" where
  "prepareImagerDevices E k =
     (if \<not> me_imager E then (False, k)
      else case (me_init E, me_detect E) of
        (Some init, Some detect) \<Rightarrow>
          (case init k of (r1, k1) \<Rightarrow>
             if r1 = 0 then (False, k1)
             else case detect k1 of (r2, k2) \<Rightarrow> if r2 = 0 then (False, k2) else wait_nodes E 100 k2)
      | _ \<Rightarrow> (False, k))"

text \<open>\<open>tried\<close> is the state of \<^verbatim>\<open>vendorOnce\<close>.\<close>

record module_state =
  vendorModule :: "vendor_module option"
  tried :: bool

definition module_usable :: "camera_h \<Rightarrow> vendor_module \<Rightarrow> bool" where
  "module_usable V m \<longleftrightarrow> \<not> (vm_version m < V ''CAMERA_MODULE_API_VERSION_2_1'' \<or> \<not> vm_complete m)"

definition loadVendorModule :: "camera_h \<Rightarrow> 'k module_env \<Rightarrow> module_state \<Rightarrow> 'k \<Rightarrow> module_state \<times> 'k" where
  "loadVendorModule V E s k =
     (case prepareImagerDevices E k of (ok, k1) \<Rightarrow>
        if \<not> ok then (s, k1)
        else case me_get_module E k1 of ((result, raw), k2) \<Rightarrow>
          (case raw of
             None \<Rightarrow> (s, k2)
           | Some m \<Rightarrow> if result \<noteq> 0 then (s, k2) else if \<not> module_usable V m then (s, k2) else (s\<lparr>vendorModule := Some m\<rparr>, k2)))"

definition get_stock_camera_module :: "camera_h \<Rightarrow> 'k module_env \<Rightarrow> module_state \<Rightarrow> 'k \<Rightarrow> (vendor_module option \<times> module_state) \<times> 'k" where
  "get_stock_camera_module V E s k =
     (case (if tried s then (s, k) else loadVendorModule V E (s\<lparr>tried := True\<rparr>) k) of (s1, k1) \<Rightarrow> ((vendorModule s1, s1), k1))"

definition numberOfCameras :: "camera_h \<Rightarrow> 'k module_env \<Rightarrow> module_state \<Rightarrow> 'k \<Rightarrow> (int \<times> module_state) \<times> 'k" where
  "numberOfCameras V E s k =
     (case get_stock_camera_module V E s k of ((m, s1), k1) \<Rightarrow> ((case m of None \<Rightarrow> 0 | Some v \<Rightarrow> vm_cameras v, s1), k1))"

definition setCallbacks :: "camera_h \<Rightarrow> 'k module_env \<Rightarrow> module_state \<Rightarrow> 'k \<Rightarrow> (int \<times> module_state) \<times> 'k" where
  "setCallbacks V E s k =
     (case get_stock_camera_module V E s k of ((m, s1), k1) \<Rightarrow>
        (case m of
           None \<Rightarrow> ((- ENODEV, s1), k1)
         | Some v \<Rightarrow> if vm_set_callbacks v then (case me_set_callbacks E k1 of (r, k2) \<Rightarrow> ((r, s1), k2)) else ((0, s1), k1)))"

text \<open>\<^verbatim>\<open>vendorTags\<close>; the result tells whether the vendor's function was called on the cleared structure.\<close>

definition vendorTags :: "camera_h \<Rightarrow> 'k module_env \<Rightarrow> bool \<Rightarrow> module_state \<Rightarrow> 'k \<Rightarrow> (bool \<times> module_state) \<times> 'k" where
  "vendorTags V E ops s k =
     (if \<not> ops then ((False, s), k)
      else case get_stock_camera_module V E s k of ((m, s1), k1) \<Rightarrow>
        (case m of
           None \<Rightarrow> ((False, s1), k1)
         | Some v \<Rightarrow>
             if vm_version v \<ge> V ''CAMERA_MODULE_API_VERSION_2_2'' \<and> vm_get_tags v then ((True, s1), me_vendor_tags E k1)
             else ((False, s1), k1)))"

definition fresh_module :: module_state where
  "fresh_module = \<lparr>vendorModule = None, tried = False\<rparr>"

section \<open>Once and for all\<close>

datatype module_call = Number_of_cameras | Set_callbacks | Vendor_tags bool | Get_module

fun module_step :: "camera_h \<Rightarrow> 'k module_env \<Rightarrow> module_call \<Rightarrow> module_state \<times> 'k \<Rightarrow> module_state \<times> 'k" where
  "module_step V E Number_of_cameras (s, k) = (case numberOfCameras V E s k of ((_, s1), k1) \<Rightarrow> (s1, k1))"
| "module_step V E Set_callbacks (s, k) = (case setCallbacks V E s k of ((_, s1), k1) \<Rightarrow> (s1, k1))"
| "module_step V E (Vendor_tags ops) (s, k) = (case vendorTags V E ops s k of ((_, s1), k1) \<Rightarrow> (s1, k1))"
| "module_step V E Get_module (s, k) = (case get_stock_camera_module V E s k of ((_, s1), k1) \<Rightarrow> (s1, k1))"

lemma load_usable: "loadVendorModule V E s k = (s1, k1) \<Longrightarrow>
    tried s1 = tried s \<and> (\<forall>m. vendorModule s1 = Some m \<longrightarrow> vendorModule s = Some m \<or> module_usable V m)"
  by (auto simp: loadVendorModule_def split: prod.splits option.splits if_splits)

lemma module_step_state:
  "fst (module_step V E call (s, k)) = (if call = Vendor_tags False then s else snd (fst (get_stock_camera_module V E s k)))"
  by (cases call) (auto simp: numberOfCameras_def setCallbacks_def vendorTags_def split: prod.split option.split)

lemma get_again: "tried s \<Longrightarrow> get_stock_camera_module V E s k = ((vendorModule s, s), k)"
  by (simp add: get_stock_camera_module_def)

lemma get_first: "get_stock_camera_module V E s k = ((m, s1), k1) \<Longrightarrow> tried s1 \<and> m = vendorModule s1"
  by (auto simp: get_stock_camera_module_def dest: load_usable split: prod.splits if_splits)

text \<open>
  The module is decided once: after the first use, no call changes which module is used, and asking for it again costs nothing. A module that is
  used at all is usable.
\<close>

theorem stock_module_once:
  assumes g: "get_stock_camera_module V E fresh_module k = ((m, s), k1)" and r: "fold (module_step V E) calls (s, k1) = (s', k')"
  shows "s' = s \<and> get_stock_camera_module V E s' k' = ((m, s), k') \<and> (\<forall>v. m = Some v \<longrightarrow> module_usable V v)"
proof -
  have t: "tried s" "m = vendorModule s" using get_first [OF g] by simp_all
  have "fst (fold (module_step V E) calls (s, k0)) = s" for k0
  proof (induction calls arbitrary: k0)
    case (Cons c cs)
    have "fst (module_step V E c (s, k0)) = s" using t by (simp add: module_step_state get_again)
    then show ?case using Cons by (cases "module_step V E c (s, k0)") simp
  qed simp
  then have "s' = s" using r by (metis fst_conv)
  moreover have "module_usable V v" if "m = Some v" for v
    using g that by (auto simp: get_stock_camera_module_def fresh_module_def dest!: load_usable split: prod.splits)
  ultimately show ?thesis using t by (simp add: get_again)
qed

text \<open>The wait ends after at most one pause per attempt: a counter of pauses grows by at most that number.\<close>

lemma wait_nodes_bound:
  assumes "\<And>k f r k'. me_access E f k = (r, k') \<Longrightarrow> pauses k' = pauses k" and "\<And>k. pauses (me_usleep E k) = Suc (pauses k)"
  shows "pauses (snd (wait_nodes E n k)) \<le> pauses k + n"
proof (induction n arbitrary: k)
  case (Suc n)
  obtain r1 k1 where a: "me_access E ''/dev/imx179'' k = (r1, k1)" by (metis prod.exhaust)
  obtain r2 k2 where b: "me_access E ''/dev/ov5693'' k1 = (r2, k2)" by (metis prod.exhaust)
  have "pauses k1 = pauses k" "pauses k2 = pauses k1" using assms(1) a b by blast+
  then show ?case using a b Suc.IH [of "me_usleep E k1"] Suc.IH [of "me_usleep E k2"] assms(2) by auto
qed simp

definition demo_modules :: "unit module_env" where
  "demo_modules = \<lparr>me_imager = True, me_init = Some (\<lambda>k. (1, k)), me_detect = Some (\<lambda>k. (1, k)), me_access = (\<lambda>_ k. (0, k)), me_usleep = (\<lambda>k. k),
     me_get_module = (\<lambda>k. ((0, Some \<lparr>vm_version = 9, vm_complete = True, vm_cameras = 2, vm_set_callbacks = True, vm_get_tags = False\<rparr>), k)),
     me_set_callbacks = (\<lambda>k. (0, k)), me_vendor_tags = (\<lambda>k. k)\<rparr>"

theorem stock_module_once_witness:
  "\<exists>m s k. get_stock_camera_module (\<lambda>_. 5) demo_modules fresh_module () = ((Some m, s), k) \<and> module_usable (\<lambda>_. 5) m
     \<and> fold (module_step (\<lambda>_. 5) demo_modules) [Number_of_cameras, Set_callbacks] (s, k) = (s, k)"
proof -
  let ?m = "\<lparr>vm_version = 9, vm_complete = True, vm_cameras = 2, vm_set_callbacks = True, vm_get_tags = False\<rparr>"
  let ?s = "\<lparr>vendorModule = Some ?m, tried = True\<rparr>"
  have "wait_nodes demo_modules 100 () = (True, ())" using wait_nodes.simps(2) [of demo_modules 99 "()"] by (simp add: demo_modules_def)
  then have g: "get_stock_camera_module (\<lambda>_. 5) demo_modules fresh_module () = ((Some ?m, ?s), ())"
    by (simp add: get_stock_camera_module_def loadVendorModule_def prepareImagerDevices_def fresh_module_def demo_modules_def module_usable_def)
  obtain s' k' where r: "fold (module_step (\<lambda>_. 5) demo_modules) [Number_of_cameras, Set_callbacks] (?s, ()) = (s', k')" by (metis prod.exhaust)
  from stock_module_once [OF g r] g r show ?thesis by auto
qed

section \<open>Rotation\<close>

text \<open>
  \<^verbatim>\<open>getRotationTransform\<close>: the status and the transform. \<open>None\<close> is a read through a null pointer: the second test looks at the
  orientation again instead of the facing.
\<close>

definition getRotationTransform :: "camera_h \<Rightarrow> ('b, 'k) meta_c \<Rightarrow> 'b CameraMetadata \<Rightarrow> (int \<times> int) option" where
  "getRotationTransform V C staticInfo =
     (case find_const C staticInfo (V ''ANDROID_SENSOR_ORIENTATION'') of
        None \<Rightarrow> Some (INVALID_OPERATION, 0)
      | Some (_, []) \<Rightarrow> Some (INVALID_OPERATION, 0)
      | Some (_, orientation # _) \<Rightarrow>
          (case find_const C staticInfo (V ''ANDROID_LENS_FACING'') of
             Some (_, facing # _) \<Rightarrow>
               let mirror = (facing = V ''ANDROID_LENS_FACING_FRONT'');
                   T = (\<lambda>n. V (''NATIVE_WINDOW_TRANSFORM_'' @ n));
                   flags = (if \<not> mirror
                            then (if orientation = 0 then Some 0 else if orientation = 90 then Some (T ''ROT_90'')
                                  else if orientation = 180 then Some (T ''ROT_180'')
                                  else if orientation = 270 then Some (T ''ROT_270'') else None)
                            else (if orientation = 0 then Some (T ''FLIP_H'')
                                  else if orientation = 90 then Some (xor (T ''FLIP_H'') (T ''ROT_270''))
                                  else if orientation = 180 then Some (xor (T ''FLIP_H'') (T ''ROT_180''))
                                  else if orientation = 270 then Some (xor (T ''FLIP_H'') (T ''ROT_90'')) else None))
               in (case flags of
                     None \<Rightarrow> Some (INVALID_OPERATION, 0)
                   | Some f \<Rightarrow> Some (OK_STATUS, or f (T ''INVERSE_DISPLAY'')))
           | _ \<Rightarrow> None))"

lemma rotation_without_facing:
  "find_const C m (V ''ANDROID_SENSOR_ORIENTATION'') = Some (ty, [90]) \<Longrightarrow> find_const C m (V ''ANDROID_LENS_FACING'') = None \<Longrightarrow>
   getRotationTransform V C m = None"
  by (simp add: getRotationTransform_def)

end
