(* ===== verification/Bionic_Cond.thy ===== *)
theory Bionic_Cond
  imports Mocha_Prelude
begin

text \<open>
  The condition variables that the vendor's binaries get from libmocha (libmocha/bionic/pthread_cond.cpp with
  private/bionic_futex.h, bionic/bionic_time_conversions.cpp). The futex of the kernel, the mutex and the clock are parameters of the sequential functions;
  for the interplay of waiting and signalling, the atomic actions of these functions are the steps of a transition relation.
\<close>

unbundle bit_operations_syntax

section \<open>Attributes\<close>

abbreviation (input) COND_SHARED_MASK :: u32 where "COND_SHARED_MASK \<equiv> 1"
abbreviation (input) COND_CLOCK_MASK :: u32 where "COND_CLOCK_MASK \<equiv> 2"
abbreviation (input) COND_COUNTER_STEP :: u32 where "COND_COUNTER_STEP \<equiv> 4"
abbreviation (input) COND_FLAGS_MASK :: u32 where "COND_FLAGS_MASK \<equiv> 3"

abbreviation (input) CLOCK_REALTIME :: int where "CLOCK_REALTIME \<equiv> 0"
abbreviation (input) CLOCK_MONOTONIC :: int where "CLOCK_MONOTONIC \<equiv> 1"
abbreviation (input) PTHREAD_PROCESS_PRIVATE :: int where "PTHREAD_PROCESS_PRIVATE \<equiv> 0"
abbreviation (input) PTHREAD_PROCESS_SHARED :: int where "PTHREAD_PROCESS_SHARED \<equiv> 1"
abbreviation (input) INT_MAX :: nat where "INT_MAX \<equiv> 2 ^ 31 - 1"
abbreviation (input) TIMED_OUT :: int where "TIMED_OUT \<equiv> 110"

definition COND_IS_SHARED :: "u32 \<Rightarrow> bool" where
  "COND_IS_SHARED c \<longleftrightarrow> c AND COND_SHARED_MASK \<noteq> 0"

definition COND_GET_CLOCK :: "u32 \<Rightarrow> int" where
  "COND_GET_CLOCK c = uint (drop_bit 1 (c AND COND_CLOCK_MASK))"

definition pthread_condattr_init :: u32 where
  "pthread_condattr_init = (0 OR word_of_int PTHREAD_PROCESS_PRIVATE) OR push_bit 1 (word_of_int CLOCK_REALTIME)"

definition pthread_condattr_getpshared :: "u32 \<Rightarrow> int" where
  "pthread_condattr_getpshared attr = (if COND_IS_SHARED attr then 1 else 0)"

definition pthread_condattr_setpshared :: "u32 \<Rightarrow> int \<Rightarrow> int \<times> u32" where
  "pthread_condattr_setpshared attr pshared =
     (if pshared \<noteq> PTHREAD_PROCESS_SHARED \<and> pshared \<noteq> PTHREAD_PROCESS_PRIVATE then (EINVAL, attr) else (0, attr OR word_of_int pshared))"

definition pthread_condattr_getclock :: "u32 \<Rightarrow> int" where
  "pthread_condattr_getclock attr = COND_GET_CLOCK attr"

definition pthread_condattr_setclock :: "u32 \<Rightarrow> int \<Rightarrow> int \<times> u32" where
  "pthread_condattr_setclock attr clock =
     (if clock \<noteq> CLOCK_MONOTONIC \<and> clock \<noteq> CLOCK_REALTIME then (EINVAL, attr) else (0, attr OR push_bit 1 (word_of_int clock)))"

definition pthread_condattr_destroy :: "u32 \<Rightarrow> u32" where
  "pthread_condattr_destroy attr = 0xdeada11d"

definition pthread_cond_init :: "u32 option \<Rightarrow> u32" where
  "pthread_cond_init attr = (case attr of None \<Rightarrow> 0 | Some a \<Rightarrow> a AND COND_FLAGS_MASK)"

definition pthread_cond_destroy :: "u32 \<Rightarrow> u32" where
  "pthread_cond_destroy s = 0xdeadc04d"

section \<open>Times\<close>

text \<open>\<^verbatim>\<open>tv_sec\<close> and \<^verbatim>\<open>tv_nsec\<close> are \<^verbatim>\<open>long\<close>, of 32 bits; \<open>None\<close> is a difference outside that range.\<close>

record timespec =
  tv_sec :: int
  tv_nsec :: int

definition long_range :: "int \<Rightarrow> bool" where
  "long_range n \<longleftrightarrow> - (2 ^ 31) \<le> n \<and> n < 2 ^ 31"

abbreviation (input) NS_PER_S :: int where "NS_PER_S \<equiv> 1000000000"

text \<open>C's division rounds towards zero; the argument is converted from \<^verbatim>\<open>unsigned\<close>.\<close>

definition timespec_from_ms :: "u32 \<Rightarrow> timespec" where
  "timespec_from_ms ms =
     (let n = sint ms; q = sgn n * (\<bar>n\<bar> div 1000); r = n - q * 1000 in \<lparr>tv_sec = q, tv_nsec = r * 1000000\<rparr>)"

definition timespec_from_absolute_timespec :: "timespec \<Rightarrow> timespec \<Rightarrow> (bool \<times> timespec) option" where
  "timespec_from_absolute_timespec now abs_ts =
     (let s = tv_sec abs_ts - tv_sec now; n = tv_nsec abs_ts - tv_nsec now in
      if \<not> long_range s \<or> \<not> long_range n then None
      else
        let (s1, n1) = (if n < 0 then (s - 1, n + NS_PER_S) else (s, n))
        in if \<not> long_range s1 \<or> \<not> long_range n1 then None else Some (\<not> (n1 < 0 \<or> s1 < 0), \<lparr>tv_sec = s1, tv_nsec = n1\<rparr>))"

section \<open>Waiting and signalling\<close>

text \<open>
  \<open>bc_futex\<close> is the system call on the word of the condition variable: an operation, a value and a timeout give a result and
  the error number. \<open>bc_load\<close> reads the word, \<open>bc_add\<close> adds to it.
\<close>

record 'k bionic_env =
  bc_load :: "'k \<Rightarrow> u32"
  bc_add :: "u32 \<Rightarrow> 'k \<Rightarrow> 'k"
  bc_lock :: "'k \<Rightarrow> 'k"
  bc_unlock :: "'k \<Rightarrow> 'k"
  bc_clock :: "int \<Rightarrow> 'k \<Rightarrow> timespec \<times> 'k"
  bc_futex :: "int \<Rightarrow> int \<Rightarrow> timespec option \<Rightarrow> 'k \<Rightarrow> (int \<times> int) \<times> 'k"

abbreviation (input) FUTEX_WAIT :: int where "FUTEX_WAIT \<equiv> 0"
abbreviation (input) FUTEX_WAKE :: int where "FUTEX_WAKE \<equiv> 1"
abbreviation (input) FUTEX_WAIT_PRIVATE :: int where "FUTEX_WAIT_PRIVATE \<equiv> 128"
abbreviation (input) FUTEX_WAKE_PRIVATE :: int where "FUTEX_WAKE_PRIVATE \<equiv> 129"

definition futex :: "'k bionic_env \<Rightarrow> int \<Rightarrow> int \<Rightarrow> timespec option \<Rightarrow> 'k \<Rightarrow> int \<times> 'k" where
  "futex B op val timeout k = (case bc_futex B op val timeout k of ((result, errno), k1) \<Rightarrow> (if result = - 1 then - errno else result, k1))"

definition futex_wake_ex :: "'k bionic_env \<Rightarrow> bool \<Rightarrow> nat \<Rightarrow> 'k \<Rightarrow> 'k" where
  "futex_wake_ex B shared n k = snd (futex B (if shared then FUTEX_WAKE else FUTEX_WAKE_PRIVATE) (int n) None k)"

text \<open>The word is passed as an \<^verbatim>\<open>int\<close>.\<close>

definition futex_wait_ex :: "'k bionic_env \<Rightarrow> bool \<Rightarrow> u32 \<Rightarrow> timespec option \<Rightarrow> 'k \<Rightarrow> int \<times> 'k" where
  "futex_wait_ex B shared val timeout k = futex B (if shared then FUTEX_WAIT else FUTEX_WAIT_PRIVATE) (sint val) timeout k"

definition cond_pulse :: "'k bionic_env \<Rightarrow> nat \<Rightarrow> 'k \<Rightarrow> int \<times> 'k" where
  "cond_pulse B thread_count k =
     (let k1 = bc_add B COND_COUNTER_STEP k in (0, futex_wake_ex B (COND_IS_SHARED (bc_load B k1)) thread_count k1))"

definition cond_timedwait_relative :: "'k bionic_env \<Rightarrow> timespec option \<Rightarrow> 'k \<Rightarrow> int \<times> 'k" where
  "cond_timedwait_relative B rel_timeout k =
     (let old_state = bc_load B k; k1 = bc_unlock B k in
      case futex_wait_ex B (COND_IS_SHARED (bc_load B k1)) old_state rel_timeout k1 of (status, k2) \<Rightarrow>
        let k3 = bc_lock B k2 in (if status = - TIMED_OUT then TIMED_OUT else 0, k3))"

definition cond_timedwait :: "'k bionic_env \<Rightarrow> timespec option \<Rightarrow> int \<Rightarrow> 'k \<Rightarrow> (int \<times> 'k) option" where
  "cond_timedwait B abs_timeout clock k =
     (case abs_timeout of
        None \<Rightarrow> Some (cond_timedwait_relative B None k)
      | Some abs_ts \<Rightarrow>
          (case bc_clock B clock k of (now, k1) \<Rightarrow> do {
             (ok, rel) \<leftarrow> timespec_from_absolute_timespec now abs_ts;
             (if \<not> ok then Some (TIMED_OUT, k1) else Some (cond_timedwait_relative B (Some rel) k1))
           }))"

definition pthread_cond_broadcast :: "'k bionic_env \<Rightarrow> 'k \<Rightarrow> int \<times> 'k" where
  "pthread_cond_broadcast B k = cond_pulse B INT_MAX k"

definition pthread_cond_signal :: "'k bionic_env \<Rightarrow> 'k \<Rightarrow> int \<times> 'k" where
  "pthread_cond_signal B k = cond_pulse B 1 k"

definition pthread_cond_wait :: "'k bionic_env \<Rightarrow> 'k \<Rightarrow> (int \<times> 'k) option" where
  "pthread_cond_wait B k = cond_timedwait B None (COND_GET_CLOCK (bc_load B k)) k"

definition pthread_cond_timedwait :: "'k bionic_env \<Rightarrow> timespec option \<Rightarrow> 'k \<Rightarrow> (int \<times> 'k) option" where
  "pthread_cond_timedwait B abstime k = cond_timedwait B abstime (COND_GET_CLOCK (bc_load B k)) k"

definition pthread_cond_timedwait_monotonic :: "'k bionic_env \<Rightarrow> timespec option \<Rightarrow> 'k \<Rightarrow> (int \<times> 'k) option" where
  "pthread_cond_timedwait_monotonic B abs_timeout k = cond_timedwait B abs_timeout CLOCK_MONOTONIC k"

definition pthread_cond_timedwait_relative_np :: "'k bionic_env \<Rightarrow> timespec option \<Rightarrow> 'k \<Rightarrow> int \<times> 'k" where
  "pthread_cond_timedwait_relative_np B rel_timeout k = cond_timedwait_relative B rel_timeout k"

definition pthread_cond_timeout_np :: "'k bionic_env \<Rightarrow> u32 \<Rightarrow> 'k \<Rightarrow> int \<times> 'k" where
  "pthread_cond_timeout_np B ms k = pthread_cond_timedwait_relative_np B (Some (timespec_from_ms ms)) k"

section \<open>The interleaving\<close>

text \<open>
  A thread that waits has read the word (\<open>Loaded\<close>) before it gives up the mutex, and sleeps only if the kernel finds the same word.
  \<open>pulsing\<close> are the wake-ups that signalling threads have yet to ask for after they have changed the word.
\<close>

datatype waiter = Idle | Loaded u32 | Asleep | Returned int

record cond_state =
  cond_word :: u32
  waiters :: "nat \<Rightarrow> waiter"
  pulsing :: "nat list"

definition sleepers :: "cond_state \<Rightarrow> nat set" where
  "sleepers s = {t. waiters s t = Asleep}"

datatype cond_event = Load nat | Enter nat | Timeout nat | Spurious nat | Add nat | Wake nat "nat set"

text \<open>There are fewer threads than \<^verbatim>\<open>INT_MAX\<close>. The kernel wakes as many sleepers as it is asked to, if there are that many.\<close>

inductive cond_step :: "cond_state \<Rightarrow> cond_event \<Rightarrow> cond_state \<Rightarrow> bool" where
  load: "t < INT_MAX \<Longrightarrow> waiters s t = Idle \<or> (\<exists>r. waiters s t = Returned r) \<Longrightarrow>
     cond_step s (Load t) (s\<lparr>waiters := (waiters s)(t := Loaded (cond_word s))\<rparr>)"
| enter: "waiters s t = Loaded old \<Longrightarrow>
     cond_step s (Enter t) (s\<lparr>waiters := (waiters s)(t := if cond_word s = old then Asleep else Returned 0)\<rparr>)"
| timeout: "waiters s t = Asleep \<Longrightarrow> cond_step s (Timeout t) (s\<lparr>waiters := (waiters s)(t := Returned TIMED_OUT)\<rparr>)"
| spurious: "waiters s t = Asleep \<Longrightarrow> cond_step s (Spurious t) (s\<lparr>waiters := (waiters s)(t := Returned 0)\<rparr>)"
| add: "cond_step s (Add n) (s\<lparr>cond_word := cond_word s + COND_COUNTER_STEP, pulsing := n # pulsing s\<rparr>)"
| wake: "n \<in> set (pulsing s) \<Longrightarrow> W \<subseteq> sleepers s \<Longrightarrow> card W = min n (card (sleepers s)) \<Longrightarrow>
     cond_step s (Wake n W) (s\<lparr>waiters := (\<lambda>t. if t \<in> W then Returned 0 else waiters s t), pulsing := remove1 n (pulsing s)\<rparr>)"

inductive_cases cond_stepE: "cond_step s e s'"

inductive cond_run :: "cond_state \<Rightarrow> cond_event list \<Rightarrow> cond_state \<Rightarrow> bool" where
  stop: "cond_run s [] s"
| go: "cond_step s e s1 \<Longrightarrow> cond_run s1 es s2 \<Longrightarrow> cond_run s (e # es) s2"

inductive_simps cond_run_simps [simp]: "cond_run s [] s'" "cond_run s (e # es) s'"

section \<open>No wake-up is lost\<close>

definition cond_start :: "u32 \<Rightarrow> cond_state" where
  "cond_start w = \<lparr>cond_word = w, waiters = (\<lambda>_. Idle), pulsing = []\<rparr>"

fun adds :: "cond_event list \<Rightarrow> nat" where
  "adds [] = 0"
| "adds (Add n # es) = Suc (adds es)"
| "adds (_ # es) = adds es"

lemma adds_append [simp]: "adds (as @ bs) = adds as + adds bs"
  by (induction as rule: adds.induct) auto

lemma cond_run_append: "cond_run s (as @ bs) s' \<longleftrightarrow> (\<exists>s1. cond_run s as s1 \<and> cond_run s1 bs s')"
  by (induction as arbitrary: s) auto

lemma step_word: "cond_step s e s' \<Longrightarrow> cond_word s' = cond_word s + 4 * of_nat (adds [e])"
  by (auto elim!: cond_stepE)

lemma adds_Cons: "adds (e # es) = adds [e] + adds es"
  by (cases e) simp_all

lemma run_word: "cond_run s es s' \<Longrightarrow> cond_word s' = cond_word s + 4 * of_nat (adds es)"
proof (induction s es s' rule: cond_run.induct)
  case (go s e s1 es s2)
  then show ?case using step_word [OF go(1)] by (simp add: adds_Cons [of e es] algebra_simps)
qed simp

lemma counter_flags: "(w + 4 * n) AND 3 = w AND (3 :: u32)"
proof -
  have m: "unat (x AND 3) = unat x mod 4" for x :: u32
  proof -
    have "x AND 3 = take_bit 2 x" by (simp add: take_bit_eq_mask mask_eq_exp_minus_1)
    then show ?thesis by (simp add: take_bit_eq_mod unat_mod_distrib)
  qed
  have "unat (w + 4 * n) = (unat w + 4 * unat n) mod 2 ^ 32" by (simp add: unat_word_ariths mod_simps)
  then have "unat (w + 4 * n) mod 4 = unat w mod 4" by (simp add: mod_mod_cancel)
  then show ?thesis using m by (metis unsigned_word_eqI)
qed

lemma counter_differs:
  assumes "0 < k" "k < 2 ^ 30"
  shows "w + 4 * of_nat k \<noteq> (w :: u32)"
proof -
  have "unat (of_nat (4 * k) :: u32) = 4 * k" using assms by (intro unat_of_nat32) simp
  then have "(of_nat (4 * k) :: u32) \<noteq> 0" using assms(1) by (metis mult_is_0 neq0_conv unsigned_0 zero_neq_numeral)
  then show ?thesis by simp
qed

text \<open>After $2^{30}$ changes, not \<^verbatim>\<open>UINT_MAX/2\<close>, the word is the same again.\<close>

lemma counter_wraps: "w + 4 * of_nat (2 ^ 30) = (w :: u32)"
  by simp

text \<open>If the thread is on its way to sleep, it has read this word.\<close>

definition reads :: "cond_state \<Rightarrow> nat \<Rightarrow> u32 \<Rightarrow> bool" where
  "reads s t w0 \<longleftrightarrow> (\<forall>x. waiters s t = Loaded x \<longrightarrow> x = w0)"

lemma step_reads: "cond_step s e s' \<Longrightarrow> e \<noteq> Load t \<Longrightarrow> reads s t w0 \<Longrightarrow> reads s' t w0"
  by (auto elim!: cond_stepE simp: reads_def split: if_splits)

lemma run_reads: "cond_run s es s' \<Longrightarrow> Load t \<notin> set es \<Longrightarrow> reads s t w0 \<Longrightarrow> reads s' t w0"
proof (induction s es s' rule: cond_run.induct)
  case (go s e s1 es s2)
  then show ?case using step_reads [OF go(1), of t w0] by auto
qed simp

text \<open>Once the word has changed, a thread that read the old word does not fall asleep.\<close>

lemma step_awake: "cond_step s e s' \<Longrightarrow> reads s t w0 \<Longrightarrow> cond_word s \<noteq> w0 \<Longrightarrow> waiters s t \<noteq> Asleep \<Longrightarrow> waiters s' t \<noteq> Asleep"
  by (auto elim!: cond_stepE simp: reads_def split: if_splits)

lemma run_awake:
  "cond_run s es s' \<Longrightarrow> Load t \<notin> set es \<Longrightarrow> reads s t w0 \<Longrightarrow> waiters s t \<noteq> Asleep \<Longrightarrow>
   cond_word s = w0 + 4 * of_nat k \<Longrightarrow> 0 < k \<Longrightarrow> k + adds es < 2 ^ 30 \<Longrightarrow> waiters s' t \<noteq> Asleep"
proof (induction s es s' arbitrary: k rule: cond_run.induct)
  case (go s e s1 es s2)
  have n: "e \<noteq> Load t" "Load t \<notin> set es" using go.prems(1) by auto
  have "cond_word s \<noteq> w0" using go.prems counter_differs [of k w0] by simp
  then have a: "waiters s1 t \<noteq> Asleep" using step_awake [OF go(1)] go.prems by blast
  have w: "cond_word s1 = w0 + 4 * of_nat (k + adds [e])" using step_word [OF go(1)] go.prems(4) by (simp add: algebra_simps)
  have k: "0 < k + adds [e]" "k + adds [e] + adds es < 2 ^ 30" using go.prems(5,6) adds_Cons [of e es] by simp_all
  show ?case by (rule go.IH [OF n(2) step_reads [OF go(1) n(1) go.prems(2)] a w k])
qed simp

lemma run_threads:
  "cond_run s es s' \<Longrightarrow> \<forall>t. waiters s t \<noteq> Idle \<longrightarrow> t < INT_MAX \<Longrightarrow> \<forall>t. waiters s' t \<noteq> Idle \<longrightarrow> t < INT_MAX"
proof (induction s es s' rule: cond_run.induct)
  case (go s e s1 es s2)
  have "\<forall>t. waiters s1 t \<noteq> Idle \<longrightarrow> t < INT_MAX" using go(1,4) by (auto elim!: cond_stepE simp: sleepers_def split: if_splits)
  then show ?case by (rule go.IH)
qed simp

lemma wake_all:
  assumes "cond_step s (Wake INT_MAX W) s'" and "\<forall>t. waiters s t \<noteq> Idle \<longrightarrow> t < INT_MAX"
  shows "waiters s' t \<noteq> Asleep"
proof -
  have sub: "sleepers s \<subseteq> {..<INT_MAX}" using assms(2) by (auto simp: sleepers_def)
  then have fin: "finite (sleepers s)" by (rule finite_subset) simp
  have "card (sleepers s) \<le> INT_MAX" using card_mono [OF _ sub] by simp
  then have "W \<subseteq> sleepers s" "card W = card (sleepers s)" using assms(1) by (auto elim!: cond_stepE)
  then have "W = sleepers s" by (rule card_subset_eq [OF fin])
  then show ?thesis using assms(1) by (elim cond_stepE) (auto simp: sleepers_def)
qed

text \<open>
  (C20) A broadcast is never lost: take a thread that has read the word of the condition variable and given up its mutex. If
  another thread then broadcasts, the waiting thread is not asleep once that broadcast is over, at whatever point of its way to sleep it was interrupted and whatever other threads do,
  as long as fewer than $2^{30}$ signals fall into that time. The flags of the word stay what they were initialised to.
\<close>

theorem no_lost_wakeup:
  assumes run: "cond_run (cond_start w) (before @ [Load t] @ tr1 @ [Add INT_MAX] @ tr2 @ [Wake INT_MAX W] @ tr3) s"
    and no: "Load t \<notin> set (tr1 @ tr2 @ tr3)" and few: "adds (tr1 @ [Add INT_MAX] @ tr2 @ tr3) < 2 ^ 30"
  shows "waiters s t \<noteq> Asleep \<and> COND_IS_SHARED (cond_word s) = COND_IS_SHARED w \<and> COND_GET_CLOCK (cond_word s) = COND_GET_CLOCK w"
proof -
  obtain s0 s1 s2 s3 s4 s5 where st: "cond_run (cond_start w) before s0" "cond_step s0 (Load t) s1" "cond_run s1 tr1 s2" "cond_step s2 (Add INT_MAX) s3"
    "cond_run s3 tr2 s4" "cond_step s4 (Wake INT_MAX W) s5" "cond_run s5 tr3 s" using run by (auto simp: cond_run_append)
  have "reads s1 t (cond_word s1)" using st(2) by (auto elim!: cond_stepE simp: reads_def)
  from run_reads [OF st(3) _ this] no have "reads s2 t (cond_word s1)" by simp
  from step_reads [OF st(4) _ this] have "reads s3 t (cond_word s1)" by simp
  from run_reads [OF st(5) _ this] no have "reads s4 t (cond_word s1)" by simp
  from step_reads [OF st(6) _ this] have l5: "reads s5 t (cond_word s1)" by simp
  have "\<forall>t. waiters s4 t \<noteq> Idle \<longrightarrow> t < INT_MAX"
    using run_threads [of "cond_start w" "before @ [Load t] @ tr1 @ [Add INT_MAX] @ tr2" s4] st by (auto simp: cond_run_append cond_start_def)
  then have a5: "waiters s5 t \<noteq> Asleep" by (rule wake_all [OF st(6)])
  have "cond_word s5 = cond_word s1 + 4 * of_nat (adds tr1 + 1 + adds tr2)"
    using run_word [OF st(3)] step_word [OF st(4)] run_word [OF st(5)] step_word [OF st(6)] by (simp add: algebra_simps)
  from run_awake [OF st(7) _ l5 a5 this] have "waiters s t \<noteq> Asleep" using no few by simp
  moreover have "cond_word s = w + 4 * of_nat (adds (before @ [Load t] @ tr1 @ [Add INT_MAX] @ tr2 @ [Wake INT_MAX W] @ tr3))"
    using run_word [OF run] by (simp add: cond_start_def)
  then obtain n where "cond_word s = w + 4 * n" by blast
  then have f: "cond_word s AND 3 = w AND 3" using counter_flags by simp
  have "cond_word s AND 1 = w AND 1" "cond_word s AND 2 = w AND 2"
  proof -
    have "x AND 1 = (x AND 3) AND 1" "x AND 2 = (x AND 3) AND 2" for x :: u32 by (simp_all add: and.assoc)
    then show "cond_word s AND 1 = w AND 1" "cond_word s AND 2 = w AND 2" using f by metis+
  qed
  ultimately show ?thesis by (simp add: COND_IS_SHARED_def COND_GET_CLOCK_def)
qed

section \<open>Timeouts\<close>

definition nanos :: "timespec \<Rightarrow> int" where
  "nanos ts = tv_sec ts * NS_PER_S + tv_nsec ts"

definition normal :: "timespec \<Rightarrow> bool" where
  "normal ts \<longleftrightarrow> 0 \<le> tv_sec ts \<and> tv_sec ts < 2 ^ 31 \<and> 0 \<le> tv_nsec ts \<and> tv_nsec ts < NS_PER_S"

lemma relative_time:
  assumes "normal now" "normal abs_ts"
  shows "\<exists>rel. timespec_from_absolute_timespec now abs_ts = Some (nanos now \<le> nanos abs_ts, rel) \<and> nanos rel = nanos abs_ts - nanos now
    \<and> (nanos now \<le> nanos abs_ts \<longrightarrow> normal rel)"
  using assms by (auto simp: timespec_from_absolute_timespec_def normal_def nanos_def long_range_def Let_def)

text \<open>
  (C21) A wait until an absolute time: if the clock has passed it, the call returns at once with a timeout and keeps the mutex. Otherwise
  the mutex is given up, the kernel waits for exactly the time that is left on the clock of the condition variable, and the mutex is taken again; only
  the kernel's timeout is reported.
\<close>

theorem timedwait_until:
  assumes c: "bc_clock B (COND_GET_CLOCK (bc_load B k)) k = (now, k1)" and n: "normal now" "normal abs_ts"
  shows "if nanos abs_ts < nanos now then pthread_cond_timedwait B (Some abs_ts) k = Some (TIMED_OUT, k1)
    else \<exists>rel status k2. normal rel \<and> nanos now + nanos rel = nanos abs_ts
      \<and> futex_wait_ex B (COND_IS_SHARED (bc_load B (bc_unlock B k1))) (bc_load B k1) (Some rel) (bc_unlock B k1) = (status, k2)
      \<and> pthread_cond_timedwait B (Some abs_ts) k = Some (if status = - TIMED_OUT then TIMED_OUT else 0, bc_lock B k2)"
proof -
  obtain rel where r: "timespec_from_absolute_timespec now abs_ts = Some (nanos now \<le> nanos abs_ts, rel)" "nanos rel = nanos abs_ts - nanos now"
    "nanos now \<le> nanos abs_ts \<longrightarrow> normal rel" using relative_time [OF n] by blast
  obtain status k2 where w: "futex_wait_ex B (COND_IS_SHARED (bc_load B (bc_unlock B k1))) (bc_load B k1) (Some rel) (bc_unlock B k1) = (status, k2)"
    by (metis prod.exhaust)
  show ?thesis
  proof (cases "nanos abs_ts < nanos now")
    case True
    then show ?thesis using c r(1) by (simp add: pthread_cond_timedwait_def cond_timedwait_def)
  next
    case False
    then have "pthread_cond_timedwait B (Some abs_ts) k = Some (if status = - TIMED_OUT then TIMED_OUT else 0, bc_lock B k2)"
      using c r(1) w by (simp add: pthread_cond_timedwait_def cond_timedwait_def cond_timedwait_relative_def Let_def)
    then have "\<exists>rel status k2. normal rel \<and> nanos now + nanos rel = nanos abs_ts
      \<and> futex_wait_ex B (COND_IS_SHARED (bc_load B (bc_unlock B k1))) (bc_load B k1) (Some rel) (bc_unlock B k1) = (status, k2)
      \<and> pthread_cond_timedwait B (Some abs_ts) k = Some (if status = - TIMED_OUT then TIMED_OUT else 0, bc_lock B k2)"
      using False r w by (intro exI [of _ rel] exI [of _ status] exI [of _ k2]) simp
    then show ?thesis using False by (simp only: if_False)
  qed
qed

text \<open>Attributes only gain flags: making one private again, or going back to the realtime clock, has no effect.\<close>

lemma setpshared_sticks: "snd (pthread_condattr_setpshared (snd (pthread_condattr_setpshared pthread_condattr_init 1)) 0) = 1"
  by (simp add: pthread_condattr_setpshared_def pthread_condattr_init_def)

lemma setclock_sticks:
  "pthread_condattr_getclock (snd (pthread_condattr_setclock (snd (pthread_condattr_setclock pthread_condattr_init CLOCK_MONOTONIC)) CLOCK_REALTIME))
     = CLOCK_MONOTONIC"
  by (simp add: pthread_condattr_setclock_def pthread_condattr_init_def pthread_condattr_getclock_def COND_GET_CLOCK_def)

text \<open>A relative timeout of $2^{31}$ milliseconds or more becomes negative.\<close>

lemma long_timeout_negative: "tv_sec (timespec_from_ms 0x80000000) < 0"
  by (simp add: timespec_from_ms_def Let_def)

section \<open>Examples\<close>

theorem no_lost_wakeup_witness:
  "\<exists>s. cond_run (cond_start 2) [Load 7, Add INT_MAX, Enter 7, Wake INT_MAX {}] s \<and> waiters s 7 \<noteq> Asleep \<and> COND_GET_CLOCK (cond_word s) = 1"
proof -
  let ?s = "\<lparr>cond_word = 6, waiters = (\<lambda>_. Idle)(7 := Returned 0), pulsing = []\<rparr>"
  let ?s1 = "\<lparr>cond_word = 2, waiters = (\<lambda>_. Idle)(7 := Loaded 2), pulsing = []\<rparr>"
  let ?s2 = "\<lparr>cond_word = 6, waiters = (\<lambda>_. Idle)(7 := Loaded 2), pulsing = [INT_MAX]\<rparr>"
  let ?s3 = "\<lparr>cond_word = 6, waiters = (\<lambda>_. Idle)(7 := Returned 0), pulsing = [INT_MAX]\<rparr>"
  have "cond_step (cond_start 2) (Load 7) ?s1" using load [of 7 "cond_start 2"] by (simp add: cond_start_def)
  moreover have "cond_step ?s1 (Add INT_MAX) ?s2" using add [of ?s1 INT_MAX] by simp
  moreover have "cond_step ?s2 (Enter 7) ?s3" using enter [of ?s2 7 2] by simp
  moreover have "sleepers ?s3 = {}" by (auto simp: sleepers_def)
  then have "cond_step ?s3 (Wake INT_MAX {}) ?s" using wake [of INT_MAX ?s3 "{}"] by (simp add: fun_upd_def)
  ultimately have r: "cond_run (cond_start 2) ([] @ [Load 7] @ [] @ [Add INT_MAX] @ [Enter 7] @ [Wake INT_MAX {}] @ []) ?s"
    by (simp only: append_Nil append_Cons cond_run_simps) blast
  have "waiters ?s 7 \<noteq> Asleep \<and> COND_IS_SHARED (cond_word ?s) = COND_IS_SHARED 2 \<and> COND_GET_CLOCK (cond_word ?s) = COND_GET_CLOCK 2"
    by (rule no_lost_wakeup [OF r]) simp_all
  moreover have "COND_GET_CLOCK 2 = 1" by (simp add: COND_GET_CLOCK_def)
  ultimately show ?thesis using r by (metis append_Cons append_Nil)
qed

definition demo_bionic :: "nat bionic_env" where
  "demo_bionic = \<lparr>bc_load = (\<lambda>_. 0), bc_add = (\<lambda>_ k. k), bc_lock = (\<lambda>k. k + 1), bc_unlock = (\<lambda>k. k - 1),
     bc_clock = (\<lambda>_ k. (\<lparr>tv_sec = 10, tv_nsec = 600000000\<rparr>, k)), bc_futex = (\<lambda>_ _ _ k. ((- 1, 110), k))\<rparr>"

theorem timedwait_until_witness:
  "pthread_cond_timedwait demo_bionic (Some \<lparr>tv_sec = 12, tv_nsec = 100000000\<rparr>) 1 = Some (110, 1)"
proof -
  have "bc_clock demo_bionic (COND_GET_CLOCK (bc_load demo_bionic 1)) 1 = (\<lparr>tv_sec = 10, tv_nsec = 600000000\<rparr>, 1)"
    "normal \<lparr>tv_sec = 10, tv_nsec = 600000000\<rparr>" "normal \<lparr>tv_sec = 12, tv_nsec = 100000000\<rparr>" by (simp_all add: demo_bionic_def normal_def)
  from timedwait_until [OF this] show ?thesis by (auto simp: nanos_def demo_bionic_def futex_wait_ex_def futex_def)
qed

end
