(* ===== verification/Spec2Isabelle.thy ===== *)
theory Spec2Isabelle
  imports Device_Shims Hal_Results Sensor_Results Cam_Session Cam_Params Cam_Module Bionic_Cond
begin

text \<open>
  \<^bold>\<open>Verification of the audio, sensor and camera stacks of the Xiaomi Mocha device tree.\<close>

  \<^bold>\<open>The program.\<close> The repository is an Android device tree; the code of its own is C and C++. An audio
  request passes through these parts, each calling the next:
  \<^item> audio/audio_hw.c, the audio HAL: the device with its voice trigger and its streams;
  \<^item> configmgr/audio_config.c, the configuration manager: it parses audio.mocha.xml into devices,
    paths, streams and use cases, and turns a route, a volume or a use case into writes of
    mixer controls;
  \<^item> tinyalsa/mixer.c and tinyalsa/pcm.c, the user side of the kernel's ALSA control and PCM
    interfaces.

  The sensor HAL (sensors/multihal.cpp) presents several vendor HALs as one device. One writer thread per
  vendor HAL puts its events into a ring (sensors/SensorEventQueue.cpp); \<^verbatim>\<open>poll\<close> merges the rings, translates
  handles and completes flush requests behind the events they wait for.

  The camera HAL (camera/) offers the camera interface of version 3.2 on top of the vendor's module of version 3.0:
  CameraWrapper.cpp finds the module, LegacyMetadata.cpp translates its metadata, Camera3Wrapper.cpp converts streams, requests and
  results and keeps the buffers registered that the vendor may still use. The client library that old vendor binaries link
  against (libmocha/camera) has the classes for metadata and parameters.

  Beside them stand the backlight module (liblights/lights.c), and the atomic operations and condition variables that
  vendor binaries expect (libmocha/atomic.c, libmocha/bionic).

  \<^bold>\<open>Conventions.\<close> The target is 32-bit ARM. \<^verbatim>\<open>int\<close> values whose range matters are words, others
  integers. A function that may run into undefined behaviour has an option type and \<open>None\<close> is that
  undefined behaviour; errors the code handles are its return values. What is not in the repository
  is a parameter: the kernel's control device and the allocator (\<open>'k sys\<close>), the PCM driver
  (\<open>'k psys\<close>), the XML parser, files and clock (\<open>'k xenv\<close>), \<^verbatim>\<open>hardware/audio.h\<close> (\<open>audio_h\<close>), the
  platform's string-of-pairs parser and audio helpers (\<open>'k hal_lib\<close>), tinycompress (\<open>'k csys\<close>), the resampler
  (\<open>'k rsys\<close>), \<^verbatim>\<open>hardware/sensors.h\<close> (\<open>sensors_h\<close>), the vendor's sensor HALs (\<open>'k subhal\<close>), the dynamic linker
  (\<open>dl_sys\<close>), the metadata library (\<open>'m meta_lib\<close> for the adapter, \<open>('b, 'k) meta_c\<close> for the class), the vendor's camera, the graphics allocator and the camera
  client (\<open>('m, 'k) cam_env\<close>), the constants of the camera headers (\<open>camera_h\<close>), the platform's containers and parcels (\<open>'p kvec\<close>, \<open>parcel_env\<close>), and the futex,
  mutex and clock (\<open>'k bionic_env\<close>). Their state is threaded as \<open>k\<close>.
  What a theorem needs of such a parameter is a hypothesis with a name (\<open>driver_law\<close>, \<open>grant_law\<close>, \<open>overruns_end\<close>, \<open>resample_progress\<close>,
  \<open>meta_c_laws\<close> and others), which the text before the theorem spells out. The use and reference counts of audio_config.c, of type \<^verbatim>\<open>int\<close>, and the sizes that
  \<^verbatim>\<open>resizeIfNeeded\<close> computes are unbounded numbers: they move by one for each open stream or grow with the memory in use.
  A pointer into a table of the configuration is an index. Mutexes have no counterpart; a locked
  section is one step and properties of several calls, or of several threads, are about sequences of
  them.

  \<^bold>\<open>Theories.\<close>
  \<^item> \<open>Mocha_Prelude\<close>: integer types, error codes, the locales for machines (\<open>invariant_machine\<close>,
    \<open>safe_machine\<close>) and for loops (\<open>loop_contract\<close>, \<open>safe_loop\<close>, \<open>ending_loop\<close>). \<open>C_Strings\<close>:
    \<^verbatim>\<open>strtoul\<close>, \<^verbatim>\<open>atoi\<close>, \<^verbatim>\<open>strtok\<close>. \<open>Sys_Env\<close>: the parameter \<open>'k sys\<close>. \<open>Example_Card\<close>: a concrete card.
  \<^item> \<open>Mixer\<close>: mixer.c. A mixer of a lawful card opens into a well-formed table; values and
    arrays written are read back; values out of range are refused.
  \<^item> \<open>Dyn_Array\<close>, \<open>Config_Types\<close>: the growing arrays and the data of audio_config.c, number and
    byte-array conversion.
  \<^item> \<open>Routing\<close>, \<open>Config_Api\<close>, \<open>Route_Props\<close>: audio_config.c lines 319-883. Any sequence of API calls on a
    well-formed configuration is free of undefined behaviour; devices and streams are switched
    only when their use count leaves or reaches zero; what each call does on each branch.
  \<^item> \<open>Config_Parser\<close>, \<open>Parser_Safety\<close>, \<open>Parser_Props\<close>: the rest of audio_config.c. Every
    well-formed document is parsed without undefined behaviour into a well-formed configuration;
    the results of the handlers; errors are sticky; path names and identifiers.
  \<^item> \<open>Pcm_Params\<close>, \<open>Pcm\<close>, \<open>Pcm_Mmap\<close>: pcm.c. \<open>Pcm_Props\<close>: opening, closing, writing with restart
    after an underrun, the invariant of a device under any calls. \<open>Pcm_Ring\<close>: the pointers of the
    ring buffer against unbounded counters, copies stay inside it. \<open>Pcm_Delivery\<close>: the mapped
    transfer puts every frame at its place.
  \<^item> \<open>Stream_Refs\<close>, \<open>Voice_Trigger\<close>, \<open>Voice_Props\<close>: audio_hw.c lines 93-143, 299-342 and 2456-2821: the device, its
    voice trigger and parameters, and the ledger of stream references (locale \<open>ref_ledger\<close>).
  \<^item> \<open>Hal_Output\<close>, \<open>Hal_Input\<close>, \<open>Hal_Compress\<close>, \<open>Hal\<close>: the rest of audio_hw.c, that is PCM output, input with
    resampling or through a compressed channel, compressed output, and the device with its streams. \<open>Hal_Props\<close>, \<open>Hal_Streams\<close>:
    a read always delivers, a write plays or waits, sequences of calls on a stream are safe. \<open>Hal_Safety\<close>: on a configuration of PCM
    streams, like that of audio.mocha.xml, every legal call of the framework returns (locale \<open>guarded_machine\<close>). \<open>Hal_Results\<close>: over any
    sequence of such calls each open stream is covered by a reference in the configuration.
  \<^item> \<open>Sensor_Queue\<close>, \<open>Sensor_Hal\<close>: SensorEventQueue.cpp and multihal.cpp. The ring is a bounded queue under any
    interleaving of its writer and its reader. \<open>Sensor_Props\<close>: what a call of \<^verbatim>\<open>poll\<close> delivers and when it sleeps, and the
    machine of writers, clients and reader. \<open>Sensor_Results\<close>: handles are translated both ways, opening is all or nothing,
    sessions are safe and no flush request is forgotten.
  \<^item> \<open>Cam_Meta\<close>: LegacyMetadata.cpp. The characteristics that are built are consistent with each other, modes and frame rates that a request cannot have are
    replaced, partial results are merged.
  \<^item> \<open>Cam_Adapter\<close>: Camera3Wrapper.cpp and \<^verbatim>\<open>get_mocha_camera_info\<close>. A request and the vendor's callbacks interleave at the sections of
    \<^verbatim>\<open>stateMutex\<close>; the lists \<open>draining\<close> and \<open>during\<close> are the callbacks that run inside a request. \<open>Cam_Props\<close>: the invariant of a device and what a result
    delivers. \<open>Cam_World\<close>: the locale \<open>cam_world\<close> of accounts, in which every operation is accounted for. \<open>Cam_Session\<close>: its interpretations; sessions have no
    undefined behaviour and give back every buffer and device they took.
  \<^item> \<open>Cam_Module\<close>: the rest of CameraWrapper.cpp, and CameraUtils.cpp. \<open>Cam_Class\<close>: CameraMetadata.cpp: entries have the types of their tags, updates find room, parcels are read back.
    \<open>Cam_Params\<close>: CameraParameters.cpp and CameraParameters2.cpp: the flat string and the numbers in it are read back.
  \<^item> \<open>Bionic_Cond\<close>: pthread_cond.cpp with its futex and time helpers. As a transition system, no broadcast is lost; a timed wait waits for the time that is left.
  \<^item> \<open>Device_Shims\<close>: lights.c and atomic.c.
  \<^item> This theory: from a configuration file to a running device.

  \<^bold>\<open>Bounds.\<close> Loops whose end is not evident run under fuel, and theorems state which fuel gives a
  result: 32 doublings for the boundary of a PCM buffer, two rounds for a write (the second
  after an underrun), one round more than the overruns that the driver may report in a row for a read, one round per frame and one more for a mapped transfer, one round per requested byte for a
  resampled read, one per event of a batch for a write to a ring, and for \<^verbatim>\<open>poll\<close> one per event in the rings and
  one per ring after each of them (\<open>poll_fuel\<close>). The file loop of
  the parser takes the number of codec redirections as fuel; a cycle of redirections does not end.

  \<^bold>\<open>Not modelled.\<close> Freeing of memory at shutdown (\<^verbatim>\<open>free_audio_config\<close>, \<^verbatim>\<open>cleanup_parser\<close>, \<^verbatim>\<open>adev_close\<close>),
  logging, the waiting and waking of the thread of a compressed stream (what it does with a request is modelled), the
  conversion of a volume to percent with floating-point logarithms (a parameter), functions that only return a constant, the tools tinymix,
  tinyplay and tinycap, the dump functions, the floating-point parameters of a camera, the binder proxies and vendor tags of the camera client library (they
  consist of calls into the platform's binder and containers, which are not in the repository), the media shims and the OMX plugin, which only forward calls, the Java, policy and data files.
\<close>

section \<open>From the configuration file to the running routes\<close>

text \<open>
  A configuration for which no mixer was opened has no streams: every call finds nothing and changes nothing.
\<close>

definition without_mixer :: "config_mgr \<Rightarrow> bool" where
  "without_mixer cm \<longleftrightarrow> cm_mixer cm = None \<and> elems (stream_array cm) = [] \<and> dyn_array.count (stream_array cm) = 0"

lemma api_without_mixer: "without_mixer cm \<Longrightarrow> api_step E A call (cm, k) = Some (cm, k)"
  by (cases "(cm, call)" rule: legal_call.cases)
    (auto simp: without_mixer_def api_step_def release_stream_def get_stream_def get_named_stream_def find_named_stream_def)

lemma run_without_mixer: "without_mixer cm \<Longrightarrow> run_steps (api_step E A) calls (cm, k) = Some (cm, k)"
  by (induction calls) (simp_all add: api_without_mixer)

lemma parsed_without_mixer: "parse_cm_ok cm \<Longrightarrow> cm_mixer cm = None \<Longrightarrow> without_mixer cm"
  by (auto simp: parse_cm_ok_def without_mixer_def array_ok_def elems_def unat_eq_0)

text \<open>
  (C1) The configuration manager as a whole: assume that the files are well-formed documents with numbers as indices, that
  memory does not run out, that the codec's probe file appears, and that the card's driver numbers its
  elements as the mixer expects. Whatever configuration \<^verbatim>\<open>init_audio_config\<close> then builds, every
  sequence of API calls on it (opening and releasing streams, routing, volume, use cases) runs without undefined
  behaviour and keeps the configuration well-formed; if no mixer could be opened or none is named in the files, the
  configuration has no streams and the calls leave it as it is.
\<close>

theorem init_then_api_safe:
  assumes "always_alloc E" and "\<And>f. driver_law E f" and "\<And>f k. wait_open X wait f k \<noteq> None"
    and "\<And>f. document_ok (x_chunks X f)"
    and "init_audio_config E A X wait fuel k = Some (Some cm, k')"
  shows "\<exists>cm' k''. run_steps (api_step E A) calls (cm, k') = Some (cm', k'')
    \<and> (if cm_mixer cm = None then cm' = cm \<and> k'' = k' else cm_wf cm')"
proof -
  have ok: "parse_cm_ok cm" using init_audio_config_ok [OF assms] .
  show ?thesis
  proof (cases "cm_mixer cm = None")
    case True
    then show ?thesis using run_without_mixer [OF parsed_without_mixer [OF ok]] by simp
  next
    case False
    then have "cm_wf cm" using ok by (auto simp: parse_cm_ok_def split: option.splits)
    then show ?thesis using False api.run_defined [of "(cm, k')" E A calls] by auto
  qed
qed

lemma init_then_api_safe_witness:
  "\<exists>cm k' cm' k''. init_audio_config (demo_card [demo_volume]) demo_audio_h (demo_files demo_document) 1 1 demo_state
       = Some (Some cm, k')
     \<and> run_steps (api_step (demo_card [demo_volume]) demo_audio_h)
         [Get_stream 2 0, Apply_route 0 2, Release_stream (Some 0)] (cm, k') = Some (cm', k'') \<and> cm_wf cm'"
proof -
  obtain cm k' where i: "init_audio_config (demo_card [demo_volume]) demo_audio_h (demo_files demo_document) 1 1
      demo_state = Some (Some cm, k')" and m: "cm_mixer cm \<noteq> None"
    using demo_config by blast
  from init_then_api_safe [OF demo_always_alloc demo_driver_law demo_wait_open demo_document_ok i]
  show ?thesis using i m by (metis (no_types, lifting))
qed

end
